(* ===== verification/Prelude.thy ===== *)
theory Prelude
  imports Main
begin

text \<open>
  The prelude of the development: bytes and byte strings, results as sums, and the functions of
  the Rust standard library (slices, \<open>str\<close> searching and splitting, integer parsing and
  printing) that the modelled code calls.  Rust's \<open>u8\<close> is HOL's 8-bit \<open>char\<close>, so \<open>&[u8]\<close> and
  the UTF-8 bytes of a \<open>&str\<close> are both \<open>char list\<close>; \<open>usize\<close> values are \<open>nat\<close>, with the width
  written out where the code checks for overflow.
\<close>

section \<open>Bytes\<close>

type_synonym byte = char
type_synonym bytes = "char list"

abbreviation LF :: byte where "LF \<equiv> CHR 0x0A"
abbreviation CR :: byte where "CR \<equiv> CHR 0x0D"
abbreviation TAB :: byte where "TAB \<equiv> CHR 0x09"
abbreviation NUL :: byte where "NUL \<equiv> CHR 0x00"
abbreviation QUOTE :: byte where "QUOTE \<equiv> CHR 0x22"
abbreviation BSLASH :: byte where "BSLASH \<equiv> CHR 0x5C"
abbreviation SP :: byte where "SP \<equiv> CHR 0x20"

definition bval :: "byte \<Rightarrow> nat" where
  "bval b = of_char b"

lemma bval_less [simp]: "bval b < 256"
  by (simp add: bval_def)

lemma bval_inject [simp]: "bval a = bval b \<longleftrightarrow> a = b"
  by (simp add: bval_def)

definition byte_of :: "nat \<Rightarrow> byte" where
  "byte_of n = char_of n"

lemma bval_byte_of [simp]: "n < 256 \<Longrightarrow> bval (byte_of n) = n"
  by (simp add: bval_def byte_of_def)

lemma byte_of_bval [simp]: "byte_of (bval b) = b"
  by (simp add: bval_def byte_of_def)

definition is_digit :: "byte \<Rightarrow> bool" where
  "is_digit b \<longleftrightarrow> 48 \<le> bval b \<and> bval b \<le> 57"

definition ascii_upper :: "byte \<Rightarrow> bool" where
  "ascii_upper b \<longleftrightarrow> 65 \<le> bval b \<and> bval b \<le> 90"

definition ascii_lower :: "byte \<Rightarrow> bool" where
  "ascii_lower b \<longleftrightarrow> 97 \<le> bval b \<and> bval b \<le> 122"

definition hexdigit :: "byte \<Rightarrow> bool" where
  "hexdigit b \<longleftrightarrow> is_digit b \<or> (65 \<le> bval b \<and> bval b \<le> 70) \<or> (97 \<le> bval b \<and> bval b \<le> 102)"

definition ascii_ws :: "byte \<Rightarrow> bool" where
  \<comment> \<open>\<open>u8::is_ascii_whitespace\<close>: space, tab, line feed, form feed, carriage return\<close>
  "ascii_ws b \<longleftrightarrow> bval b \<in> {9, 10, 12, 13, 32}"

definition to_lower :: "byte \<Rightarrow> byte" where
  "to_lower b = (if ascii_upper b then byte_of (bval b + 32) else b)"

definition to_upper :: "byte \<Rightarrow> byte" where
  "to_upper b = (if ascii_lower b then byte_of (bval b - 32) else b)"

definition eq_ignore_ascii_case :: "bytes \<Rightarrow> bytes \<Rightarrow> bool" where
  "eq_ignore_ascii_case s t \<longleftrightarrow> map to_lower s = map to_lower t"

section \<open>Results\<close>

text \<open>\<open>Result<A, E>\<close> is \<open>'e + 'a\<close>; \<open>bindE\<close> is the \<open>?\<close> operator.\<close>

definition bindE :: "'e + 'a \<Rightarrow> ('a \<Rightarrow> 'e + 'b) \<Rightarrow> 'e + 'b" where
  "bindE m f = (case m of Inl e \<Rightarrow> Inl e | Inr x \<Rightarrow> f x)"

lemma bindE_simps [simp]:
  "bindE (Inl e) f = Inl e"
  "bindE (Inr x) f = f x"
  by (simp_all add: bindE_def)

lemma bindE_Inr_iff: "bindE m f = Inr y \<longleftrightarrow> (\<exists>x. m = Inr x \<and> f x = Inr y)"
  by (cases m) auto

lemma bindE_Inl_iff: "bindE m f = Inl e \<longleftrightarrow> m = Inl e \<or> (\<exists>x. m = Inr x \<and> f x = Inl e)"
  by (cases m) auto

lemma bindE_Inr_E:
  assumes "bindE m f = Inr y"
  obtains x where "m = Inr x" "f x = Inr y"
  using assms by (auto simp: bindE_Inr_iff)

lemma bindE_cong [fundef_cong]:
  "m = m' \<Longrightarrow> (\<And>x. m' = Inr x \<Longrightarrow> f x = f' x) \<Longrightarrow> bindE m f = bindE m' f'"
  by (cases m') auto

definition ok_or :: "'a option \<Rightarrow> 'e \<Rightarrow> 'e + 'a" where
  "ok_or m e = (case m of None \<Rightarrow> Inl e | Some x \<Rightarrow> Inr x)"

lemma ok_or_simps [simp]:
  "ok_or None e = Inl e"
  "ok_or (Some x) e = Inr x"
  by (simp_all add: ok_or_def)

lemma ok_or_Inr_iff: "ok_or m e = Inr x \<longleftrightarrow> m = Some x"
  by (cases m) auto

definition requireE :: "bool \<Rightarrow> 'e \<Rightarrow> 'e + unit" where
  \<comment> \<open>\<open>if !b { return Err(e) }\<close>\<close>
  "requireE b e = (if b then Inr () else Inl e)"

lemma requireE_simps [simp]:
  "requireE True e = Inr ()"
  "requireE False e = Inl e"
  by (simp_all add: requireE_def)

lemma requireE_Inr_iff [simp]: "requireE b e = Inr u \<longleftrightarrow> b"
  by (cases b) auto

fun all_ok :: "('a \<Rightarrow> 'e + unit) \<Rightarrow> 'a list \<Rightarrow> 'e + unit" where
  \<comment> \<open>\<open>for x in xs { f(x)?; }\<close>\<close>
  "all_ok f [] = Inr ()"
| "all_ok f (x # xs) = bindE (f x) (\<lambda>_. all_ok f xs)"

lemma all_ok_Inr_iff: "all_ok f xs = Inr u \<longleftrightarrow> (\<forall>x \<in> set xs. f x = Inr ())"
  by (induction xs) (auto simp: bindE_Inr_iff)

section \<open>The 64-bit \<open>usize\<close>\<close>

definition usize_max :: nat where
  "usize_max = 2 ^ 64 - 1"

definition checked_add :: "nat \<Rightarrow> nat \<Rightarrow> nat option" where
  "checked_add a b = (if a + b \<le> usize_max then Some (a + b) else None)"

definition checked_sub :: "nat \<Rightarrow> nat \<Rightarrow> nat option" where
  "checked_sub a b = (if b \<le> a then Some (a - b) else None)"

definition saturating_add :: "nat \<Rightarrow> nat \<Rightarrow> nat" where
  "saturating_add a b = min usize_max (a + b)"

lemma checked_add_Some_iff: "checked_add a b = Some c \<longleftrightarrow> c = a + b \<and> a + b \<le> usize_max"
  by (auto simp: checked_add_def)

lemma checked_sub_Some_iff: "checked_sub a b = Some c \<longleftrightarrow> b \<le> a \<and> c = a - b"
  by (auto simp: checked_sub_def)

lemma saturating_add_bounded [simp]: "a + b \<le> usize_max \<Longrightarrow> saturating_add a b = a + b"
  by (simp add: saturating_add_def)

section \<open>Searching and splitting byte strings\<close>

fun strip_prefix :: "bytes \<Rightarrow> bytes \<Rightarrow> bytes option" where
  "strip_prefix [] s = Some s"
| "strip_prefix (p # ps) [] = None"
| "strip_prefix (p # ps) (c # cs) = (if p = c then strip_prefix ps cs else None)"

lemma strip_prefix_Some_iff: "strip_prefix p s = Some r \<longleftrightarrow> s = p @ r"
  by (induction p s rule: strip_prefix.induct) auto

lemma strip_prefix_append [simp]: "strip_prefix p (p @ r) = Some r"
  by (simp add: strip_prefix_Some_iff)

definition starts_with :: "bytes \<Rightarrow> bytes \<Rightarrow> bool" where
  "starts_with p s \<longleftrightarrow> strip_prefix p s \<noteq> None"

lemma starts_with_iff: "starts_with p s \<longleftrightarrow> (\<exists>r. s = p @ r)"
  by (auto simp: starts_with_def strip_prefix_Some_iff)

lemma starts_with_append [simp]: "starts_with p (p @ r)"
  by (simp add: starts_with_def)

definition ends_with :: "bytes \<Rightarrow> bytes \<Rightarrow> bool" where
  "ends_with p s \<longleftrightarrow> starts_with (rev p) (rev s)"

lemma ends_with_iff: "ends_with p s \<longleftrightarrow> (\<exists>r. s = r @ p)"
  by (metis ends_with_def rev_append rev_rev_ident starts_with_iff)

fun find_sub :: "bytes \<Rightarrow> bytes \<Rightarrow> nat option" where
  \<comment> \<open>\<open>str::find\<close>: the first occurrence\<close>
  "find_sub n [] = (if n = [] then Some 0 else None)"
| "find_sub n (c # cs) = (if starts_with n (c # cs) then Some 0 else map_option Suc (find_sub n cs))"

lemma find_sub_SomeD:
  "find_sub n h = Some i \<Longrightarrow> i + length n \<le> length h \<and> take (length n) (drop i h) = n"
proof (induction n h arbitrary: i rule: find_sub.induct)
  case (2 n c cs)
  show ?case
  proof (cases "starts_with n (c # cs)")
    case True
    then obtain r where "c # cs = n @ r" by (auto simp: starts_with_iff)
    moreover from this have "length (c # cs) = length n + length r" by (metis length_append)
    moreover from True "2.prems" have "i = 0" by simp
    ultimately show ?thesis by simp
  qed (use 2 in auto)
qed (auto split: if_splits)

lemma find_sub_first:
  "find_sub n h = Some i \<Longrightarrow> j < i \<Longrightarrow> \<not> starts_with n (drop j h)"
proof (induction n h arbitrary: i j rule: find_sub.induct)
  case (2 n c cs)
  then show ?case by (cases j) (auto split: if_splits)
qed (auto split: if_splits)

lemma find_sub_NoneD: "find_sub n h = None \<Longrightarrow> \<not> starts_with n (drop j h)"
proof (induction n h arbitrary: j rule: find_sub.induct)
  case (1 n)
  then show ?case by (auto simp: starts_with_iff split: if_splits)
next
  case (2 n c cs)
  then show ?case by (cases j) (auto split: if_splits)
qed

definition contains_sub :: "bytes \<Rightarrow> bytes \<Rightarrow> bool" where
  "contains_sub n h \<longleftrightarrow> find_sub n h \<noteq> None"

fun index_of :: "byte \<Rightarrow> bytes \<Rightarrow> nat option" where
  \<comment> \<open>\<open>iter().position(|b| *b == x)\<close>\<close>
  "index_of x [] = None"
| "index_of x (c # cs) = (if c = x then Some 0 else map_option Suc (index_of x cs))"

lemma index_of_SomeD:
  "index_of x s = Some i \<Longrightarrow> i < length s \<and> s ! i = x \<and> x \<notin> set (take i s)"
  by (induction s arbitrary: i) (auto split: if_splits)

lemma index_of_None_iff: "index_of x s = None \<longleftrightarrow> x \<notin> set s"
  by (induction s) auto

lemma index_of_append_notin:
  "x \<notin> set a \<Longrightarrow> index_of x (a @ x # b) = Some (length a)"
  by (induction a) auto

definition split_once :: "bytes \<Rightarrow> bytes \<Rightarrow> (bytes \<times> bytes) option" where
  "split_once sep s = map_option (\<lambda>i. (take i s, drop (i + length sep) s)) (find_sub sep s)"

definition rsplit_once_byte :: "byte \<Rightarrow> bytes \<Rightarrow> (bytes \<times> bytes) option" where
  "rsplit_once_byte x s =
     map_option (\<lambda>i. (take (length s - Suc i) s, drop (length s - i) s)) (index_of x (rev s))"

fun split_byte :: "byte \<Rightarrow> bytes \<Rightarrow> bytes list" where
  \<comment> \<open>\<open>str::split(c)\<close> and \<open>slice::split(|b| *b == c)\<close>: never empty\<close>
  "split_byte x [] = [[]]"
| "split_byte x (c # cs) =
     (if c = x then [] # split_byte x cs
      else (case split_byte x cs of [] \<Rightarrow> [[c]] | p # ps \<Rightarrow> (c # p) # ps))"

lemma split_byte_nonempty [simp]: "split_byte x s \<noteq> []"
  by (cases s) (auto split: list.splits)

lemma split_byte_no_sep: "p \<in> set (split_byte x s) \<Longrightarrow> x \<notin> set p"
  by (induction x s arbitrary: p rule: split_byte.induct)
    (auto split: if_splits list.splits)

lemma split_byte_id: "x \<notin> set s \<Longrightarrow> split_byte x s = [s]"
  by (induction s) auto

lemma split_byte_append: "x \<notin> set a \<Longrightarrow> split_byte x (a @ x # b) = a # split_byte x b"
  by (induction a) auto

fun join_byte :: "byte \<Rightarrow> bytes list \<Rightarrow> bytes" where
  "join_byte x [] = []"
| "join_byte x [p] = p"
| "join_byte x (p # q # ps) = p @ x # join_byte x (q # ps)"

lemma join_split_byte: "join_byte x (split_byte x s) = s"
proof (induction x s rule: split_byte.induct)
  case (2 x c cs)
  then show ?case
    by (cases "split_byte x cs" rule: list.exhaust)
      (auto, metis append_Cons join_byte.simps(2,3) neq_Nil_conv)
qed simp

definition trim_end_crlf :: "bytes \<Rightarrow> bytes" where
  \<comment> \<open>\<open>trim_end_matches(['\r', '\n'])\<close>\<close>
  "trim_end_crlf s = rev (dropWhile (\<lambda>c. c = CR \<or> c = LF) (rev s))"

lemma trim_end_crlf_id: "s = [] \<or> (last s \<noteq> CR \<and> last s \<noteq> LF) \<Longrightarrow> trim_end_crlf s = s"
proof (cases s rule: rev_cases)
  case (snoc ys y)
  then show "s = [] \<or> (last s \<noteq> CR \<and> last s \<noteq> LF) \<Longrightarrow> trim_end_crlf s = s"
    by (simp add: trim_end_crlf_def)
qed (simp add: trim_end_crlf_def)

lemma trim_end_crlf_snoc [simp]:
  "trim_end_crlf (s @ [LF]) = trim_end_crlf s"
  "trim_end_crlf (s @ [CR]) = trim_end_crlf s"
  "trim_end_crlf (s @ [CR, LF]) = trim_end_crlf s"
  by (simp_all add: trim_end_crlf_def)

section \<open>Printing and parsing integers\<close>

fun nat_dec :: "nat \<Rightarrow> bytes" where
  \<comment> \<open>\<open>usize::to_string\<close>\<close>
  "nat_dec n = (if n < 10 then [byte_of (48 + n)] else nat_dec (n div 10) @ [byte_of (48 + n mod 10)])"

declare nat_dec.simps [simp del]

definition digit_val :: "nat \<Rightarrow> byte \<Rightarrow> nat option" where
  \<comment> \<open>\<open>char::to_digit(radix)\<close>, for a radix of at most 16\<close>
  "digit_val radix b =
     (let n = bval b;
          d = (if 48 \<le> n \<and> n \<le> 57 then Some (n - 48)
               else if 97 \<le> n \<and> n \<le> 102 then Some (n - 87)
               else if 65 \<le> n \<and> n \<le> 70 then Some (n - 55)
               else None)
      in case d of None \<Rightarrow> None | Some v \<Rightarrow> if v < radix then Some v else None)"

fun digits_val :: "nat \<Rightarrow> nat \<Rightarrow> bytes \<Rightarrow> nat option" where
  "digits_val radix acc [] = Some acc"
| "digits_val radix acc (c # cs) =
     (case digit_val radix c of None \<Rightarrow> None | Some d \<Rightarrow> digits_val radix (radix * acc + d) cs)"

definition parse_unsigned :: "nat \<Rightarrow> nat \<Rightarrow> bytes \<Rightarrow> nat option" where
  \<comment> \<open>\<open>from_str_radix\<close> of an unsigned type: one leading \<open>+\<close> is accepted, a value above the
    maximum is an error\<close>
  "parse_unsigned radix hi s =
     (let ds = (case s of [] \<Rightarrow> [] | c # cs \<Rightarrow> if c = CHR ''+'' then cs else s)
      in if ds = [] then None
         else (case digits_val radix 0 ds of None \<Rightarrow> None
               | Some n \<Rightarrow> if n \<le> hi then Some n else None))"

definition parse_usize :: "bytes \<Rightarrow> nat option" where
  "parse_usize s = parse_unsigned 10 usize_max s"

definition parse_i64 :: "bytes \<Rightarrow> int option" where
  "parse_i64 s =
     (case s of
        [] \<Rightarrow> None
      | c # cs \<Rightarrow>
          if c = CHR ''-'' then
            (if cs = [] then None
             else (case digits_val 10 0 cs of None \<Rightarrow> None
                   | Some n \<Rightarrow> if n \<le> 2 ^ 63 then Some (- int n) else None))
          else
            (let ds = (if c = CHR ''+'' then cs else s)
             in if ds = [] then None
                else (case digits_val 10 0 ds of None \<Rightarrow> None
                      | Some n \<Rightarrow> if n < 2 ^ 63 then Some (int n) else None)))"

lemma nat_dec_nonempty [simp]: "nat_dec n \<noteq> []"
  by (subst nat_dec.simps) simp

lemma digit_val_dec: "d < 10 \<Longrightarrow> digit_val 10 (byte_of (48 + d)) = Some d"
  by (simp add: digit_val_def Let_def)

lemma digits_val_append:
  "digits_val r acc (a @ b) = (case digits_val r acc a of None \<Rightarrow> None | Some v \<Rightarrow> digits_val r v b)"
  by (induction r acc a rule: digits_val.induct) (auto split: option.splits)

lemma digits_val_nat_dec: "digits_val 10 0 (nat_dec n) = Some n"
proof (induction n rule: nat_dec.induct)
  case (1 n)
  show ?case
  proof (cases "n < 10")
    case True
    then show ?thesis by (subst nat_dec.simps) (simp add: digit_val_dec)
  next
    case False
    with 1 have "digits_val 10 0 (nat_dec (n div 10)) = Some (n div 10)" by simp
    with False show ?thesis
      by (subst nat_dec.simps) (simp add: digits_val_append digit_val_dec)
  qed
qed

lemma nat_dec_digits: "b \<in> set (nat_dec n) \<Longrightarrow> is_digit b"
proof (induction n rule: nat_dec.induct)
  case (1 n)
  have *: "d < 10 \<Longrightarrow> is_digit (byte_of (48 + d))" for d
    by (simp add: is_digit_def)
  show ?case
  proof (cases "n < 10")
    case True
    with "1.prems" show ?thesis
      by (subst (asm) nat_dec.simps) (simp add: *)
  next
    case False
    with "1.prems" have "b \<in> set (nat_dec (n div 10)) \<or> b = byte_of (48 + n mod 10)"
      by (subst (asm) nat_dec.simps) auto
    then show ?thesis
      using "1.IH" False *[of "n mod 10"] by auto
  qed
qed

lemma is_digit_not [simp]:
  "\<not> is_digit CHR ''+''" "\<not> is_digit CHR ''-''" "\<not> is_digit CHR '',''" "\<not> is_digit CHR ''.''"
  "\<not> is_digit SP" "\<not> is_digit LF" "\<not> is_digit CR" "\<not> is_digit CHR ''@''"
  by (simp_all add: is_digit_def bval_def)

lemma nat_dec_hd_digit: "nat_dec n = c # cs \<Longrightarrow> is_digit c"
  using nat_dec_digits[of c n] by simp

lemma nat_dec_notin: "\<not> is_digit b \<Longrightarrow> b \<notin> set (nat_dec n)"
  using nat_dec_digits by blast

lemma parse_usize_nat_dec: "n \<le> usize_max \<Longrightarrow> parse_usize (nat_dec n) = Some n"
  using digits_val_nat_dec[of n] nat_dec_hd_digit[of n]
  by (cases "nat_dec n") (auto simp: parse_usize_def parse_unsigned_def Let_def)

lemma parse_i64_nat_dec: "n < 2 ^ 63 \<Longrightarrow> parse_i64 (nat_dec n) = Some (int n)"
  using digits_val_nat_dec[of n] nat_dec_hd_digit[of n]
  by (cases "nat_dec n") (auto simp: parse_i64_def Let_def)

lemma nat_dec_first_nonzero: "n \<noteq> 0 \<Longrightarrow> hd (nat_dec n) \<noteq> CHR ''0''"
proof (induction n rule: nat_dec.induct)
  case (1 n)
  show ?case
  proof (cases "n < 10")
    case True
    have "bval (byte_of (48 + n)) \<noteq> bval (CHR ''0'')"
      using True "1.prems" by (simp add: bval_def[of "CHR ''0''"])
    then have "byte_of (48 + n) \<noteq> CHR ''0''" by (metis bval_inject)
    with True show ?thesis by (subst nat_dec.simps) simp
  next
    case False
    then have "n div 10 \<noteq> 0" by simp
    with 1 False show ?thesis by (subst nat_dec.simps) auto
  qed
qed

lemma length_nat_dec: "n < 10 ^ Suc k \<Longrightarrow> length (nat_dec n) \<le> Suc k"
proof (induction k arbitrary: n)
  case 0
  then show ?case by (simp add: nat_dec.simps[of n])
next
  case (Suc k)
  then have "n div 10 < 10 ^ Suc k" by (simp add: less_mult_imp_div_less)
  then show ?case using Suc.IH[of "n div 10"] by (subst nat_dec.simps) simp
qed

section \<open>Lists\<close>

lemma take_add_drop: "take (i + n) xs = take i xs @ take n (drop i xs)"
  by (simp add: take_add)

lemma sum_list_take_le: "i \<le> j \<Longrightarrow> sum_list (take i xs) \<le> sum_list (take j (xs :: nat list))"
  by (metis le_iff_add le_add1 sum_list_append take_add)

lemma length_concat_take:
  "length (concat (take i xs)) = sum_list (take i (map length xs))"
  by (simp add: length_concat take_map)

end
