(* ===== verification/Utf8.thy ===== *)
theory Utf8
  imports Prelude
begin

text \<open>
  UTF-8 as the Rust standard library defines it: which byte strings are valid
  (\<open>std::str::from_utf8\<close>), the scalar values of a string as their encodings
  (\<open>str::chars\<close>, \<open>str::char_indices\<close>), Unicode white space, and the trimming and splitting
  functions built on them.  A Rust \<open>char\<close> is represented by the bytes that encode it.
  The main lemmas say that encodings are self-synchronising: a valid string can occur in
  another valid string only between two scalar values.
\<close>

section \<open>Validity and scalar values\<close>

definition is_cont :: "byte \<Rightarrow> bool" where
  "is_cont b \<longleftrightarrow> 128 \<le> bval b \<and> bval b < 192"

definition lead_width :: "byte \<Rightarrow> nat option" where
  "lead_width b =
     (let n = bval b
      in if n < 128 then Some 1
         else if 0xC2 \<le> n \<and> n \<le> 0xDF then Some 2
         else if 0xE0 \<le> n \<and> n \<le> 0xEF then Some 3
         else if 0xF0 \<le> n \<and> n \<le> 0xF4 then Some 4
         else None)"

text \<open>The lead bytes that restrict the second byte: no overlong encodings, no surrogates,
  nothing above U+10FFFF.\<close>

definition second_ok :: "byte \<Rightarrow> byte \<Rightarrow> bool" where
  "second_ok b0 b1 \<longleftrightarrow>
     (bval b0 = 0xE0 \<longrightarrow> 0xA0 \<le> bval b1) \<and> (bval b0 = 0xED \<longrightarrow> bval b1 \<le> 0x9F)
     \<and> (bval b0 = 0xF0 \<longrightarrow> 0x90 \<le> bval b1) \<and> (bval b0 = 0xF4 \<longrightarrow> bval b1 \<le> 0x8F)"

text \<open>The width of the well-formed scalar value at the front of a byte string, if there is one.\<close>

fun scalar_width :: "bytes \<Rightarrow> nat option" where
  "scalar_width [] = None"
| "scalar_width (b0 # r) =
     (case lead_width b0 of
        None \<Rightarrow> None
      | Some w \<Rightarrow>
          if w - 1 \<le> length r \<and> list_all is_cont (take (w - 1) r) \<and> (w = 1 \<or> second_ok b0 (hd r))
          then Some w else None)"

text \<open>A successful decoding step: the first byte is a lead byte, the others are continuation
  bytes, and the step depends on no byte after them.\<close>

lemma lead_widthD:
  assumes "lead_width b = Some w"
  shows "0 < w" "\<not> is_cont b" "w = 1 \<longleftrightarrow> bval b < 128"
  using assms by (auto simp: lead_width_def is_cont_def Let_def split: if_splits)

lemma scalar_widthD:
  assumes "scalar_width s = Some w"
  shows "0 < w" "w \<le> length s" "\<not> is_cont (hd s)" "\<forall>b \<in> set (tl (take w s)). is_cont b"
  using assms lead_widthD
  by (cases s; auto simp: take_Cons' list_all_iff split: option.splits if_splits)+

lemma scalar_width_append:
  "scalar_width s = Some w \<Longrightarrow> scalar_width (s @ t) = Some w"
proof (cases s)
  case (Cons b0 r)
  moreover assume "scalar_width s = Some w"
  ultimately show ?thesis using lead_widthD[of b0]
    by (auto split: option.splits if_splits) (cases r; auto)+
qed simp

lemma scalar_width_take:
  "scalar_width s = Some w \<Longrightarrow> scalar_width (take w s) = Some w"
proof (cases s)
  case (Cons b0 r)
  moreover assume "scalar_width s = Some w"
  ultimately show ?thesis using lead_widthD[of b0]
    by (cases r) (auto simp: take_Cons' split: option.splits if_splits)
qed simp

function utf8_chars :: "bytes \<Rightarrow> bytes list option" where
  "utf8_chars s =
     (if s = [] then Some []
      else (case scalar_width s of
              None \<Rightarrow> None
            | Some w \<Rightarrow> map_option (\<lambda>cs. take w s # cs) (utf8_chars (drop w s))))"
  by pat_completeness auto
termination
  by (relation "measure length") (auto dest: scalar_widthD)

declare utf8_chars.simps [simp del]

definition utf8_valid :: "bytes \<Rightarrow> bool" where
  "utf8_valid s \<longleftrightarrow> utf8_chars s \<noteq> None"

definition chars_of :: "bytes \<Rightarrow> bytes list" where
  \<comment> \<open>\<open>str::chars\<close>, each scalar value as its encoding\<close>
  "chars_of s = (case utf8_chars s of None \<Rightarrow> [] | Some cs \<Rightarrow> cs)"

lemma utf8_chars_Nil [simp]: "utf8_chars [] = Some []"
  by (simp add: utf8_chars.simps)

lemma utf8_valid_Nil [simp]: "utf8_valid []"
  by (simp add: utf8_valid_def)

lemma utf8_chars_step:
  "scalar_width s = Some w \<Longrightarrow> utf8_chars s = map_option (\<lambda>cs. take w s # cs) (utf8_chars (drop w s))"
  by (subst utf8_chars.simps) auto

lemma utf8_chars_stuck: "s \<noteq> [] \<Longrightarrow> scalar_width s = None \<Longrightarrow> utf8_chars s = None"
  by (subst utf8_chars.simps) simp

lemma utf8_valid_step: "scalar_width s = Some w \<Longrightarrow> utf8_valid s \<longleftrightarrow> utf8_valid (drop w s)"
  by (simp add: utf8_valid_def utf8_chars_step)

lemma utf8_valid_scalar_width: "utf8_valid s \<Longrightarrow> s \<noteq> [] \<Longrightarrow> \<exists>w. scalar_width s = Some w"
  by (cases "scalar_width s") (auto simp: utf8_valid_def utf8_chars_stuck)

lemma chars_of_Some: "utf8_chars s = Some cs \<Longrightarrow> chars_of s = cs"
  by (simp add: chars_of_def)

lemma utf8_chars_valid: "utf8_valid s \<Longrightarrow> utf8_chars s = Some (chars_of s)"
  by (auto simp: utf8_valid_def chars_of_def)

lemma utf8_induct [case_names Nil Step, consumes 1]:
  assumes "utf8_valid s" "P []"
    and "\<And>s w. scalar_width s = Some w \<Longrightarrow> utf8_valid (drop w s) \<Longrightarrow> P (drop w s) \<Longrightarrow> P s"
  shows "P s"
  using assms(1)
proof (induction s rule: length_induct)
  case (1 s)
  show ?case
  proof (cases "s = []")
    case False
    with "1.prems" obtain w where w: "scalar_width s = Some w"
      using utf8_valid_scalar_width by blast
    with "1.prems" have "utf8_valid (drop w s)" by (simp add: utf8_valid_step)
    moreover from w have "length (drop w s) < length s" using scalar_widthD[OF w] by simp
    ultimately show ?thesis using 1 assms(3)[OF w] by blast
  qed (simp add: assms(2))
qed

lemma chars_of_step:
  assumes "scalar_width s = Some w" "utf8_valid (drop w s)"
  shows "chars_of s = take w s # chars_of (drop w s)"
proof -
  have "utf8_chars s = Some (take w s # chars_of (drop w s))"
    using utf8_chars_step[OF assms(1)] utf8_chars_valid[OF assms(2)] by simp
  then show ?thesis by (rule chars_of_Some)
qed

lemma chars_of_Nil [simp]: "chars_of [] = []"
  by (simp add: chars_of_def)

lemma concat_chars_of: "utf8_valid s \<Longrightarrow> concat (chars_of s) = s"
  by (induction s rule: utf8_induct) (simp_all add: chars_of_step)

lemma chars_of_nonempty: "utf8_valid s \<Longrightarrow> c \<in> set (chars_of s) \<Longrightarrow> c \<noteq> []"
proof (induction s rule: utf8_induct)
  case (Step s w)
  then show ?case using scalar_widthD[OF Step(1)] by (auto simp: chars_of_step)
qed simp

lemma utf8_valid_append: "utf8_valid a \<Longrightarrow> utf8_valid (a @ b) \<longleftrightarrow> utf8_valid b"
proof (induction a rule: utf8_induct)
  case (Step a w)
  from Step(1) have "w \<le> length a" by (rule scalar_widthD)
  with Step show ?case
    by (simp add: utf8_valid_step[OF scalar_width_append[OF Step(1)]])
qed simp

lemma chars_of_append:
  "utf8_valid a \<Longrightarrow> utf8_valid b \<Longrightarrow> chars_of (a @ b) = chars_of a @ chars_of b"
proof (induction a rule: utf8_induct)
  case Nil
  then show ?case by simp
next
  case (Step a w)
  from Step(1) have le: "w \<le> length a" by (rule scalar_widthD)
  have "utf8_valid (drop w (a @ b))" using Step le by (simp add: utf8_valid_append)
  from chars_of_step[OF scalar_width_append[OF Step(1)] this] Step le show ?case
    by (simp add: chars_of_step[OF Step(1,2)])
qed

section \<open>Self-synchronisation\<close>

lemma utf8_valid_take_drop:
  assumes "utf8_valid s" "p \<le> length s" "p = length s \<or> \<not> is_cont (s ! p)"
  shows "utf8_valid (take p s) \<and> utf8_valid (drop p s)"
  using assms
proof (induction s arbitrary: p rule: utf8_induct)
  case (Step s w)
  note sw = scalar_widthD[OF Step(1)]
  show ?case
  proof (cases "p < w")
    case True
    have "p = 0"
    proof (rule ccontr)
      assume "p \<noteq> 0"
      with True sw have "s ! p = tl (take w s) ! (p - 1)" "p - 1 < length (tl (take w s))"
        by (simp_all add: nth_tl)
      with sw(4) have "is_cont (s ! p)" by (metis nth_mem)
      with Step.prems True sw show False by auto
    qed
    with Step show ?thesis by (simp add: utf8_valid_step)
  next
    case False
    then have tail: "utf8_valid (take (p - w) (drop w s)) \<and> utf8_valid (drop (p - w) (drop w s))"
      using Step.IH[of "p - w"] Step.prems by (auto simp: add.commute)
    have "take p s = take w s @ take (p - w) (drop w s)" "drop p s = drop (p - w) (drop w s)"
      using False by (metis le_add_diff_inverse linorder_not_less take_add, simp)
    moreover have "utf8_valid (take w s)"
      using scalar_width_take[OF Step(1)] sw by (simp add: utf8_valid_step)
    ultimately show ?thesis using tail by (metis utf8_valid_append)
  qed
qed simp

lemma utf8_valid_infix:
  assumes valid: "utf8_valid (a @ n @ b)" and n: "utf8_valid n" "n \<noteq> []"
  shows "utf8_valid a \<and> utf8_valid b"
proof -
  obtain w where "scalar_width n = Some w"
    using n utf8_valid_scalar_width by blast
  then have "\<not> is_cont ((a @ n @ b) ! length a)"
    using scalar_widthD[of n w] n by (simp add: nth_append hd_conv_nth)
  then have "utf8_valid a \<and> utf8_valid (n @ b)"
    using utf8_valid_take_drop[OF valid, of "length a"] by simp
  with n show ?thesis by (simp add: utf8_valid_append)
qed

lemma ascii_scalar [simp]: "bval c < 128 \<Longrightarrow> scalar_width (c # s) = Some 1"
  by (simp add: lead_width_def)

lemma utf8_valid_ascii_Cons: "bval c < 128 \<Longrightarrow> utf8_valid (c # s) \<longleftrightarrow> utf8_valid s"
  using utf8_valid_step[OF ascii_scalar, of c s] by simp

lemma chars_of_ascii_Cons: "bval c < 128 \<Longrightarrow> utf8_valid s \<Longrightarrow> chars_of (c # s) = [c] # chars_of s"
  using chars_of_step[OF ascii_scalar, of c s] by simp

lemma utf8_valid_ascii: "\<forall>c \<in> set s. bval c < 128 \<Longrightarrow> utf8_valid s"
  by (induction s) (auto simp: utf8_valid_ascii_Cons)

lemma chars_of_ascii: "\<forall>c \<in> set s. bval c < 128 \<Longrightarrow> chars_of s = map (\<lambda>c. [c]) s"
  by (induction s) (auto simp: chars_of_ascii_Cons utf8_valid_ascii)

text \<open>Splitting a valid string at an ASCII byte leaves valid parts.\<close>

lemma utf8_valid_ascii_split:
  assumes "utf8_valid (a @ c # b)" "bval c < 128"
  shows "utf8_valid a \<and> utf8_valid b"
  using utf8_valid_infix[of a "[c]" b] assms utf8_valid_ascii[of "[c]"] by simp

lemma scalar_ascii_tail:
  assumes "scalar_width s = Some w" "c \<in> set (take w s)" "bval c < 128"
  shows "w = 1 \<and> hd s = c"
proof (cases s)
  case (Cons b r)
  have "c \<notin> set (tl (take w s))"
    using scalar_widthD(4)[OF assms(1)] assms(3) by (auto simp: is_cont_def)
  with assms(2) Cons have "c = b" by (cases w) auto
  with assms Cons lead_widthD(3)[of b w] show ?thesis by (auto split: option.splits if_splits)
qed (use assms in simp)

section \<open>White space\<close>

definition is_ws_char :: "bytes \<Rightarrow> bool" where
  \<comment> \<open>\<open>char::is_whitespace\<close>: the Unicode property White-Space, on encodings\<close>
  "is_ws_char c \<longleftrightarrow>
     (case map bval c of
        [b] \<Rightarrow> b = 32 \<or> (9 \<le> b \<and> b \<le> 13)
      | [b0, b1] \<Rightarrow> b0 = 0xC2 \<and> (b1 = 0x85 \<or> b1 = 0xA0)
      | [b0, b1, b2] \<Rightarrow>
          (b0 = 0xE1 \<and> b1 = 0x9A \<and> b2 = 0x80)
          \<or> (b0 = 0xE2 \<and> b1 = 0x80 \<and>
              ((0x80 \<le> b2 \<and> b2 \<le> 0x8A) \<or> b2 = 0xA8 \<or> b2 = 0xA9 \<or> b2 = 0xAF))
          \<or> (b0 = 0xE2 \<and> b1 = 0x81 \<and> b2 = 0x9F)
          \<or> (b0 = 0xE3 \<and> b1 = 0x80 \<and> b2 = 0x80)
      | _ \<Rightarrow> False)"

text \<open>\<open>String::from_utf8_lossy\<close>: each maximal invalid part becomes one U+FFFD.\<close>

definition bad_width :: "bytes \<Rightarrow> nat" where
  "bad_width s =
     (case lead_width (hd s) of
        None \<Rightarrow> 1
      | Some w \<Rightarrow>
          if w \<le> 2 \<or> length s < 2 \<or> \<not> is_cont (s ! 1) \<or> \<not> second_ok (s ! 0) (s ! 1) then 1
          else if w = 4 \<and> 3 \<le> length s \<and> is_cont (s ! 2) then 3 else 2)"

lemma bad_width_pos: "0 < bad_width s"
  by (simp add: bad_width_def split: option.splits)

function from_utf8_lossy :: "bytes \<Rightarrow> bytes" where
  "from_utf8_lossy s =
     (if s = [] then []
      else case scalar_width s of
        Some w \<Rightarrow> take w s @ from_utf8_lossy (drop w s)
      | None \<Rightarrow> [byte_of 0xEF, byte_of 0xBF, byte_of 0xBD] @ from_utf8_lossy (drop (bad_width s) s))"
  by pat_completeness auto
termination
  by (relation "measure length") (auto dest: scalar_widthD(1) simp: bad_width_pos)

declare from_utf8_lossy.simps [simp del]

lemma from_utf8_lossy_valid: "utf8_valid s \<Longrightarrow> from_utf8_lossy s = s"
proof (induction s rule: utf8_induct)
  case Nil
  show ?case by (simp add: from_utf8_lossy.simps)
next
  case (Step s w)
  then show ?case by (subst from_utf8_lossy.simps) simp
qed

definition trim_start :: "bytes \<Rightarrow> bytes" where
  "trim_start s = concat (dropWhile is_ws_char (chars_of s))"

definition trim_end :: "bytes \<Rightarrow> bytes" where
  "trim_end s = concat (rev (dropWhile is_ws_char (rev (chars_of s))))"

definition trim :: "bytes \<Rightarrow> bytes" where
  "trim s = concat (rev (dropWhile is_ws_char (rev (dropWhile is_ws_char (chars_of s)))))"

lemma is_ws_char_ascii: "bval b < 128 \<Longrightarrow> is_ws_char [b] \<longleftrightarrow> ascii_ws b \<or> bval b = 11"
  by (auto simp: is_ws_char_def ascii_ws_def)

lemma trim_ascii_id:
  assumes "\<forall>c \<in> set s. bval c < 128" "s \<noteq> []" "\<not> is_ws_char [hd s]" "\<not> is_ws_char [last s]"
  shows "trim s = s"
proof -
  obtain c r where s: "s = c # r" using assms(2) by (cases s) auto
  obtain r' d where s': "s = r' @ [d]" using assms(2) by (cases s rule: rev_cases) auto
  have "dropWhile is_ws_char (map (\<lambda>c. [c]) s) = map (\<lambda>c. [c]) s" using s assms(3) by simp
  moreover have "dropWhile is_ws_char (rev (map (\<lambda>c. [c]) s)) = rev (map (\<lambda>c. [c]) s)"
    using s' assms(4) by simp
  moreover have "concat (map (\<lambda>c. [c]) s) = s" by (induction s) auto
  ultimately show ?thesis by (simp add: trim_def chars_of_ascii[OF assms(1)])
qed

fun split_ws_chars :: "bytes list \<Rightarrow> bytes \<Rightarrow> bytes list" where
  "split_ws_chars [] acc = (if acc = [] then [] else [acc])"
| "split_ws_chars (c # cs) acc =
     (if is_ws_char c then (if acc = [] then [] else [acc]) @ split_ws_chars cs []
      else split_ws_chars cs (acc @ c))"

definition split_whitespace :: "bytes \<Rightarrow> bytes list" where
  "split_whitespace s = split_ws_chars (chars_of s) []"

definition all_whitespace :: "bytes \<Rightarrow> bool" where
  \<comment> \<open>\<open>s.chars().all(char::is_whitespace)\<close>\<close>
  "all_whitespace s \<longleftrightarrow> list_all is_ws_char (chars_of s)"

lemma split_ws_chars_all:
  "list_all (\<lambda>c. \<not> is_ws_char c \<and> c \<noteq> []) cs \<Longrightarrow>
   split_ws_chars cs acc = (if acc @ concat cs = [] then [] else [acc @ concat cs])"
  by (induction cs arbitrary: acc) auto

lemma split_ws_chars_sep:
  "list_all (\<lambda>c. \<not> is_ws_char c \<and> c \<noteq> []) cs \<Longrightarrow> is_ws_char w \<Longrightarrow>
   split_ws_chars (cs @ w # ds) acc =
     (if acc @ concat cs = [] then [] else [acc @ concat cs]) @ split_ws_chars ds []"
  by (induction cs arbitrary: acc) auto

lemma digit_char_not_ws: "is_digit b \<Longrightarrow> \<not> is_ws_char [b]"
  by (simp add: is_ws_char_def is_digit_def)

lemma utf8_valid_subst:
  "utf8_valid s \<Longrightarrow> utf8_valid (concat (chars_of s))"
  by (simp add: concat_chars_of)

section \<open>Lines\<close>

definition str_lines :: "bytes \<Rightarrow> bytes list" where
  \<comment> \<open>\<open>str::lines\<close>: a carriage return before the line feed belongs to the line ending\<close>
  "str_lines s =
     (let ps = split_byte LF s;
          ended = butlast ps;
          strip = (\<lambda>l. if l \<noteq> [] \<and> last l = CR then butlast l else l)
      in map strip ended @ (if last ps = [] then [] else [last ps]))"

end
