(* ===== verification/MemSearch.thy ===== *)
theory MemSearch
  imports Utf8
begin

text \<open>
  The byte-search crate \<open>memchr\<close> is outside the repository, so its functions are a parameter of
  every definition that calls them: a record of the five entry points the code uses, and the
  predicate \<open>memlib_ok\<close>, which states their documented behaviour.  \<open>ref_memlib\<close> is an executable
  instance for the witnesses.  The second half of the theory is \<open>slice::binary_search_by\<close> and
  \<open>slice::partition_point\<close> of the standard library, as the halving loop they run.
\<close>

section \<open>The search crate\<close>

record memlib =
  memchr :: "byte \<Rightarrow> bytes \<Rightarrow> nat option"
  memchr2 :: "byte \<Rightarrow> byte \<Rightarrow> bytes \<Rightarrow> nat option"
  memchr_iter :: "byte \<Rightarrow> bytes \<Rightarrow> nat list"
  mem_find :: "bytes \<Rightarrow> bytes \<Rightarrow> nat option"
  mem_find_iter :: "bytes \<Rightarrow> bytes \<Rightarrow> nat list"

fun find_all :: "bytes \<Rightarrow> nat \<Rightarrow> nat \<Rightarrow> bytes \<Rightarrow> nat list" where
  \<comment> \<open>the starts of the non-overlapping occurrences, left to right; \<open>skip\<close> bytes still belong to
    the last one\<close>
  "find_all n off skip [] = []"
| "find_all n off skip (c # cs) =
     (if skip = 0 \<and> starts_with n (c # cs) then off # find_all n (Suc off) (length n - 1) cs
      else find_all n (Suc off) (skip - 1) cs)"

definition memchr_ok :: "(byte \<Rightarrow> bytes \<Rightarrow> nat option) \<Rightarrow> bool" where
  "memchr_ok f \<longleftrightarrow>
     (\<forall>x s. case f x s of
        None \<Rightarrow> x \<notin> set s
      | Some i \<Rightarrow> i < length s \<and> s ! i = x \<and> x \<notin> set (take i s))"

definition memchr2_ok :: "(byte \<Rightarrow> byte \<Rightarrow> bytes \<Rightarrow> nat option) \<Rightarrow> bool" where
  "memchr2_ok f \<longleftrightarrow>
     (\<forall>x y s. case f x y s of
        None \<Rightarrow> x \<notin> set s \<and> y \<notin> set s
      | Some i \<Rightarrow> i < length s \<and> s ! i \<in> {x, y} \<and> x \<notin> set (take i s) \<and> y \<notin> set (take i s))"

definition mem_find_ok :: "(bytes \<Rightarrow> bytes \<Rightarrow> nat option) \<Rightarrow> bool" where
  "mem_find_ok f \<longleftrightarrow>
     (\<forall>n h. case f n h of
        None \<Rightarrow> \<forall>a b. h \<noteq> a @ n @ b
      | Some i \<Rightarrow> (\<exists>a b. h = a @ n @ b \<and> length a = i) \<and> (\<forall>j < i. \<not> starts_with n (drop j h)))"

definition memlib_ok :: "memlib \<Rightarrow> bool" where
  "memlib_ok M \<longleftrightarrow>
     memchr_ok (memchr M) \<and> memchr2_ok (memchr2 M) \<and> mem_find_ok (mem_find M)
     \<and> (\<forall>x s. memchr_iter M x s = filter (\<lambda>i. s ! i = x) [0..<length s])
     \<and> (\<forall>n h. n \<noteq> [] \<longrightarrow> mem_find_iter M n h = find_all n 0 0 h)"

fun index_of2 :: "byte \<Rightarrow> byte \<Rightarrow> bytes \<Rightarrow> nat option" where
  "index_of2 x y [] = None"
| "index_of2 x y (c # cs) = (if c = x \<or> c = y then Some 0 else map_option Suc (index_of2 x y cs))"

definition ref_memlib :: memlib where
  "ref_memlib = \<lparr> memchr = index_of, memchr2 = index_of2,
     memchr_iter = (\<lambda>x s. filter (\<lambda>i. s ! i = x) [0..<length s]),
     mem_find = find_sub, mem_find_iter = (\<lambda>n h. find_all n 0 0 h) \<rparr>"

lemma index_of2_SomeD:
  "index_of2 x y s = Some i \<Longrightarrow>
   i < length s \<and> s ! i \<in> {x, y} \<and> x \<notin> set (take i s) \<and> y \<notin> set (take i s)"
  by (induction s arbitrary: i) (auto split: if_splits)

lemma index_of2_NoneD: "index_of2 x y s = None \<Longrightarrow> x \<notin> set s \<and> y \<notin> set s"
  by (induction s) (auto split: if_splits)

lemma find_sub_split: "find_sub n h = Some i \<Longrightarrow> \<exists>a b. h = a @ n @ b \<and> length a = i"
proof -
  assume "find_sub n h = Some i"
  from find_sub_SomeD[OF this] have "i + length n \<le> length h" "take (length n) (drop i h) = n"
    by simp_all
  then have "h = take i h @ n @ drop (length n) (drop i h)" "length (take i h) = i"
    by (metis append_take_drop_id, simp)
  then show ?thesis by blast
qed

lemma find_sub_None_split: "find_sub n h = None \<Longrightarrow> h \<noteq> a @ n @ b"
  using find_sub_NoneD[of n h "length a"] by auto

lemma ref_memlib_ok: "memlib_ok ref_memlib"
proof -
  have "case index_of x s of None \<Rightarrow> x \<notin> set s
        | Some i \<Rightarrow> i < length s \<and> s ! i = x \<and> x \<notin> set (take i s)" for x s
    using index_of_SomeD[of x s] index_of_None_iff[of x s] by (cases "index_of x s") auto
  moreover have "case index_of2 x y s of None \<Rightarrow> x \<notin> set s \<and> y \<notin> set s
      | Some i \<Rightarrow> i < length s \<and> s ! i \<in> {x, y} \<and> x \<notin> set (take i s) \<and> y \<notin> set (take i s)"
    for x y s
    using index_of2_SomeD[of x y s] index_of2_NoneD[of x y s] by (cases "index_of2 x y s") auto
  moreover have "case find_sub n h of None \<Rightarrow> \<forall>a b. h \<noteq> a @ n @ b
      | Some i \<Rightarrow> (\<exists>a b. h = a @ n @ b \<and> length a = i) \<and> (\<forall>j < i. \<not> starts_with n (drop j h))"
    for n h
    using find_sub_split[of n h] find_sub_first[of n h] find_sub_None_split[of n h]
    by (cases "find_sub n h") simp_all
  ultimately show ?thesis
    by (simp add: memlib_ok_def ref_memlib_def memchr_ok_def memchr2_ok_def mem_find_ok_def)
qed

lemma memlib_memchr:
  assumes "memlib_ok M"
  shows "memchr M x s = index_of x s"
proof -
  from assms have *: "case memchr M x s of None \<Rightarrow> x \<notin> set s
        | Some i \<Rightarrow> i < length s \<and> s ! i = x \<and> x \<notin> set (take i s)"
    unfolding memlib_ok_def memchr_ok_def by blast
  show ?thesis
  proof (cases "memchr M x s")
    case None
    with * show ?thesis using index_of_None_iff[of x s] by simp
  next
    case (Some i)
    with * have i: "i < length s" "s ! i = x" "x \<notin> set (take i s)" by simp_all
    have "index_of x (take i s @ x # drop (Suc i) s) = Some (length (take i s))"
      using i(3) by (rule index_of_append_notin)
    moreover have "s = take i s @ x # drop (Suc i) s"
      using i(1,2) by (metis id_take_nth_drop)
    ultimately show ?thesis using i(1) Some by simp
  qed
qed

lemma memlib_memchr2:
  assumes "memlib_ok M"
  shows "case memchr2 M x y s of None \<Rightarrow> x \<notin> set s \<and> y \<notin> set s
      | Some i \<Rightarrow> i < length s \<and> s ! i \<in> {x, y} \<and> x \<notin> set (take i s) \<and> y \<notin> set (take i s)"
  using assms unfolding memlib_ok_def memchr2_ok_def by blast

lemma memlib_memchr2_None:
  assumes "memlib_ok M" "memchr2 M x y s = None"
  shows "takeWhile (\<lambda>b. b \<noteq> x \<and> b \<noteq> y) s = s"
  using memlib_memchr2[OF assms(1), where x = x and y = y and s = s] assms(2) by (auto simp: takeWhile_eq_all_conv)

lemma memlib_memchr2_Some:
  assumes "memlib_ok M" "memchr2 M x y s = Some i"
  shows "i < length s" "s ! i = x \<or> s ! i = y" "takeWhile (\<lambda>b. b \<noteq> x \<and> b \<noteq> y) s = take i s"
proof -
  have i: "i < length s \<and> s ! i \<in> {x, y} \<and> x \<notin> set (take i s) \<and> y \<notin> set (take i s)"
    using memlib_memchr2[OF assms(1), where x = x and y = y and s = s] assms(2) by simp
  then show lt: "i < length s" and xy: "s ! i = x \<or> s ! i = y" by auto
  have all: "\<And>b. b \<in> set (take i s) \<Longrightarrow> b \<noteq> x \<and> b \<noteq> y" using i by auto
  have "takeWhile (\<lambda>b. b \<noteq> x \<and> b \<noteq> y) (take i s @ s ! i # drop (Suc i) s)
      = take i s @ takeWhile (\<lambda>b. b \<noteq> x \<and> b \<noteq> y) (s ! i # drop (Suc i) s)"
    using all by (rule takeWhile_append2)
  also have "\<dots> = take i s" using xy by auto
  finally show "takeWhile (\<lambda>b. b \<noteq> x \<and> b \<noteq> y) s = take i s"
    using id_take_nth_drop[OF lt] by simp
qed

lemma memlib_memchr_iter:
  "memlib_ok M \<Longrightarrow> memchr_iter M x s = filter (\<lambda>i. s ! i = x) [0..<length s]"
  by (simp add: memlib_ok_def)

lemma memlib_find:
  assumes "memlib_ok M"
  shows "case mem_find M n h of None \<Rightarrow> \<forall>a b. h \<noteq> a @ n @ b
      | Some i \<Rightarrow> (\<exists>a b. h = a @ n @ b \<and> length a = i) \<and> (\<forall>j < i. \<not> starts_with n (drop j h))"
  using assms unfolding memlib_ok_def mem_find_ok_def by blast

lemma memlib_find_Some:
  assumes "memlib_ok M" "mem_find M n h = Some i"
  shows "\<exists>a b. h = a @ n @ b \<and> length a = i" "j < i \<Longrightarrow> \<not> starts_with n (drop j h)"
  using memlib_find[OF assms(1), where n = n and h = h] assms(2) by simp_all

lemma memlib_find_None:
  assumes "memlib_ok M" "mem_find M n h = None"
  shows "h \<noteq> a @ n @ b"
  using memlib_find[OF assms(1), where n = n and h = h] assms(2) by simp

section \<open>Binary search\<close>

lemma length_takeWhile_eq_intro:
  assumes "k \<le> length xs" "\<And>j. j < k \<Longrightarrow> p (xs ! j)" "k < length xs \<Longrightarrow> \<not> p (xs ! k)"
  shows "length (takeWhile p xs) = k"
  using assms
proof (induction xs arbitrary: k)
  case (Cons x xs)
  show ?case
  proof (cases k)
    case 0
    with Cons.prems show ?thesis by simp
  next
    case (Suc k')
    then have "p x" using Cons.prems(2)[of 0] by simp
    moreover have "length (takeWhile p xs) = k'"
      using Cons.IH[of k'] Cons.prems Suc by fastforce
    ultimately show ?thesis using Suc by simp
  qed
qed simp

text \<open>
  Both functions run the same loop: \<open>base\<close> moves to the middle of the remaining \<open>size\<close> elements
  unless the element there is too large.
\<close>

function bsearch_base :: "(nat \<Rightarrow> bool) \<Rightarrow> nat \<Rightarrow> nat \<Rightarrow> nat" where
  "bsearch_base big base sz =
     (if sz \<le> 1 then base
      else bsearch_base big (if big (base + sz div 2) then base else base + sz div 2)
             (sz - sz div 2))"
  by pat_completeness auto
termination
  by (relation "measure (\<lambda>(g, b, s). s)") auto

declare bsearch_base.simps [simp del]

definition binary_search :: "nat list \<Rightarrow> nat \<Rightarrow> nat option" where
  \<comment> \<open>\<open>binary_search_by(|k| k.cmp(&x)).ok()\<close>\<close>
  "binary_search ks x =
     (if ks = [] then None
      else let i = bsearch_base (\<lambda>i. ks ! i > x) 0 (length ks) in
           if ks ! i = x then Some i else None)"

definition partition_point :: "('a \<Rightarrow> bool) \<Rightarrow> 'a list \<Rightarrow> nat" where
  "partition_point p xs =
     (if xs = [] then 0
      else let i = bsearch_base (\<lambda>i. \<not> p (xs ! i)) 0 (length xs) in
           if p (xs ! i) then Suc i else i)"

text \<open>The loop ends at the last element that is not too large, or at its start.\<close>

lemma bsearch_base_spec:
  assumes "0 < sz" "\<And>j. base + sz \<le> j \<Longrightarrow> j < n \<Longrightarrow> big j"
    and mono: "\<And>i j. i \<le> j \<Longrightarrow> j < n \<Longrightarrow> big i \<Longrightarrow> big j" and "base + sz \<le> n"
  shows "base \<le> bsearch_base big base sz \<and> bsearch_base big base sz < base + sz
         \<and> (\<forall>j. bsearch_base big base sz < j \<and> j < n \<longrightarrow> big j)
         \<and> (bsearch_base big base sz = base \<or> \<not> big (bsearch_base big base sz))"
  using assms(1,2,4)
proof (induction sz arbitrary: base rule: less_induct)
  case (less sz)
  show ?case
  proof (cases "sz \<le> 1")
    case True
    with less.prems have "sz = 1" by simp
    with less.prems show ?thesis by (simp add: bsearch_base.simps)
  next
    case False
    define half where "half = sz div 2"
    define b where "b = (if big (base + half) then base else base + half)"
    have half: "0 < half" "half < sz" "half \<le> sz - half" using False by (auto simp: half_def)
    have eq: "bsearch_base big base sz = bsearch_base big b (sz - half)"
      by (subst bsearch_base.simps) (use False in \<open>simp add: half_def b_def\<close>)
    have hi: "big j" if "b + (sz - half) \<le> j" "j < n" for j
    proof (cases "big (base + half)")
      case True
      have "base + half \<le> j" using that half True by (simp add: b_def)
      from mono[OF this that(2) True] show ?thesis .
    next
      case False
      then show ?thesis using that half less.prems(2) by (simp add: b_def)
    qed
    have "b + (sz - half) \<le> n" using half less.prems(3) by (auto simp: b_def)
    then have IH: "b \<le> bsearch_base big b (sz - half)
        \<and> bsearch_base big b (sz - half) < b + (sz - half)
        \<and> (\<forall>j. bsearch_base big b (sz - half) < j \<and> j < n \<longrightarrow> big j)
        \<and> (bsearch_base big b (sz - half) = b \<or> \<not> big (bsearch_base big b (sz - half)))"
      using less.IH[of "sz - half" b] half hi by simp
    have "base \<le> b" "b + (sz - half) \<le> base + sz" using half by (auto simp: b_def)
    moreover have "b = base \<or> \<not> big b" by (auto simp: b_def)
    ultimately show ?thesis unfolding eq using IH by auto
  qed
qed

lemma binary_search_sorted:
  fixes ks :: "nat list"
  assumes "sorted_wrt (<) ks"
  shows "binary_search ks x = Some i \<longleftrightarrow> i < length ks \<and> ks ! i = x"
proof (cases "ks = []")
  case False
  define r where "r = bsearch_base (\<lambda>i. ks ! i > x) 0 (length ks)"
  have mono: "x < ks ! j" if "k \<le> j" "j < length ks" "x < ks ! k" for k j
    using that sorted_wrt_nth_less[OF assms, of k j] by (cases "k = j") auto
  have "0 \<le> r \<and> r < 0 + length ks \<and> (\<forall>j. r < j \<and> j < length ks \<longrightarrow> x < ks ! j)
      \<and> (r = 0 \<or> \<not> x < ks ! r)"
    unfolding r_def by (rule bsearch_base_spec) (use False mono in auto)
  then have r: "r < length ks" "\<forall>j. r < j \<and> j < length ks \<longrightarrow> x < ks ! j" "r = 0 \<or> \<not> x < ks ! r"
    by simp_all
  have uniq: "i = r" if i: "i < length ks" "ks ! i = x"
  proof (rule ccontr)
    assume ne: "i \<noteq> r"
    have "\<not> r < i" using r(2) i by auto
    with ne have "i < r" by simp
    then have "ks ! i < ks ! r" using sorted_wrt_nth_less[OF assms] r(1) by blast
    with r(3) i \<open>i < r\<close> show False by auto
  qed
  have def_r: "binary_search ks x = (if ks ! r = x then Some r else None)"
    using False by (simp add: binary_search_def r_def Let_def)
  show ?thesis
  proof
    assume "binary_search ks x = Some i"
    with def_r r(1) show "i < length ks \<and> ks ! i = x" by (auto split: if_splits)
  next
    assume i: "i < length ks \<and> ks ! i = x"
    with uniq have "i = r" by simp
    with i def_r show "binary_search ks x = Some i" by simp
  qed
qed (simp add: binary_search_def)

lemma partition_point_takeWhile:
  assumes mono: "\<And>i j. i \<le> j \<Longrightarrow> j < length xs \<Longrightarrow> p (xs ! j) \<Longrightarrow> p (xs ! i)"
  shows "partition_point p xs = length (takeWhile p xs)"
proof (cases "xs = []")
  case False
  define r where "r = bsearch_base (\<lambda>i. \<not> p (xs ! i)) 0 (length xs)"
  have up: "\<not> p (xs ! j)" if "i \<le> j" "j < length xs" "\<not> p (xs ! i)" for i j
    using mono[OF that(1,2)] that(3) by blast
  have "0 \<le> r \<and> r < 0 + length xs \<and> (\<forall>j. r < j \<and> j < length xs \<longrightarrow> \<not> p (xs ! j))
      \<and> (r = 0 \<or> \<not> \<not> p (xs ! r))"
    unfolding r_def by (rule bsearch_base_spec) (use False up in \<open>simp_all\<close>)
  then have r: "r < length xs" "\<And>j. r < j \<Longrightarrow> j < length xs \<Longrightarrow> \<not> p (xs ! j)"
      "r = 0 \<or> p (xs ! r)"
    by simp_all
  show ?thesis
  proof (cases "p (xs ! r)")
    case True
    have "length (takeWhile p xs) = Suc r"
    proof (rule length_takeWhile_eq_intro)
      show "p (xs ! j)" if "j < Suc r" for j
        using that mono[of j r] r(1) True by simp
    qed (use r in simp_all)
    with True \<open>xs \<noteq> []\<close> show ?thesis by (simp add: partition_point_def r_def Let_def)
  next
    case False
    with r(3) have "r = 0" by simp
    have "length (takeWhile p xs) = 0"
      by (rule length_takeWhile_eq_intro) (use False \<open>r = 0\<close> in simp_all)
    with False \<open>xs \<noteq> []\<close> \<open>r = 0\<close> show ?thesis by (simp add: partition_point_def r_def Let_def)
  qed
qed (simp add: partition_point_def)

end
