(* ===== verification/SearchIndex.thy ===== *)
theory SearchIndex
  imports MemSearch "HOL-Library.List_Lexorder" "HOL-Library.Product_Lexorder" "HOL-Library.Char_ord"
begin

text \<open>
  The in-memory index of the \<open>Search\<close> tool (\<^verbatim>\<open>search_memory.rs\<close>): documents and their lines, the
  trigram postings, and the documents that can hold a match of a literal or of a candidate
  expression.  The deadline and the cancellation token, which the code checks all along and which
  end a search with an error and nothing else, are not modelled: these are the searches in which no
  check fails.  The tables of estimates, which hold what \<open>candidate_expr_estimated_docs\<close> computed
  before, are left out for the same reason.
\<close>

section \<open>Errors and documents\<close>

record mem_error =
  me_type :: bytes
  me_reason :: bytes

type_synonym 'a searched = "mem_error + 'a"

definition mem_error :: "bytes \<Rightarrow> bytes \<Rightarrow> mem_error" where
  "mem_error ty reason = \<lparr> me_type = ty, me_reason = reason \<rparr>"

definition max_candidates_exceeded_error :: mem_error where
  "max_candidates_exceeded_error = mem_error ''resource_limit_exceeded'' ''max_candidates_exceeded''"

record limits =
  max_file_bytes :: nat
  max_total_bytes :: nat
  max_files :: nat
  max_candidates :: nat
  max_fuzzy_pattern_chars :: nat
  max_fuzzy_verified_lines :: nat
  max_fuzzy_line_chars :: nat
  max_short_literal_scan_lines :: nat
  regex_size_limit_bytes :: nat

type_synonym line_range = "nat \<times> nat"

record document =
  dc_path :: bytes
  dc_rendered_path :: bytes
  dc_content :: bytes
  dc_lines :: "line_range list"

datatype literal_case = Sensitive | AsciiInsensitive

type_synonym doc_id = nat

definition doc_id_from_index :: "nat \<Rightarrow> doc_id searched" where
  "doc_id_from_index i =
     (if i < 2 ^ 32 then Inr i else Inl (mem_error ''resource_limit_exceeded'' ''doc_id_width_exceeded''))"

section \<open>Lines\<close>

definition line_end :: "bytes \<Rightarrow> nat \<Rightarrow> nat \<Rightarrow> nat" where
  "line_end content start e = (if e > start \<and> content ! (e - 1) = CR then e - 1 else e)"

fun line_range_loop :: "bytes \<Rightarrow> nat \<Rightarrow> nat list \<Rightarrow> line_range list" where
  \<comment> \<open>over the positions of the line feeds\<close>
  "line_range_loop content start [] =
     (if start < length content then [(start, line_end content start (length content))] else [])"
| "line_range_loop content start (i # is) = (start, line_end content start i) # line_range_loop content (i + 1) is"

definition positions :: "byte \<Rightarrow> bytes \<Rightarrow> nat list" where
  \<comment> \<open>\<open>memchr_iter\<close>\<close>
  "positions b s = [i \<leftarrow> [0..<length s]. s ! i = b]"

definition line_ranges :: "bytes \<Rightarrow> line_range list" where
  "line_ranges content = (if content = [] then [] else line_range_loop content 0 (positions LF content))"

definition slice :: "bytes \<Rightarrow> line_range \<Rightarrow> bytes" where
  "slice content r = take (snd r - fst r) (drop (fst r) content)"

section \<open>Trigrams\<close>

type_synonym trigram = "byte \<times> byte \<times> byte"

fun trigram_loop :: "bytes \<Rightarrow> trigram set \<Rightarrow> trigram list" where
  "trigram_loop (a # b # c # rest) seen =
     (if (a, b, c) \<in> seen then trigram_loop (b # c # rest) seen
      else (a, b, c) # trigram_loop (b # c # rest) (insert (a, b, c) seen))"
| "trigram_loop _ seen = []"

definition literal_trigrams :: "bytes \<Rightarrow> trigram list" where
  "literal_trigrams s = trigram_loop s {}"

definition ascii_folded :: "bytes \<Rightarrow> bytes" where
  "ascii_folded s = map to_lower s"

section \<open>Postings\<close>

datatype postings_storage = EmptyPostings | Inline doc_id | Many "doc_id list"

record postings =
  ps_storage :: postings_storage
  ps_frequency :: nat

fun strictly_increasing :: "nat list \<Rightarrow> bool" where
  "strictly_increasing (a # b # xs) = (a < b \<and> strictly_increasing (b # xs))"
| "strictly_increasing _ = True"

fun dedup :: "'a list \<Rightarrow> 'a list" where
  \<comment> \<open>\<open>Vec::dedup\<close>: repetitions next to each other are dropped\<close>
  "dedup (a # b # xs) = (if a = b then dedup (b # xs) else a # dedup (b # xs))"
| "dedup xs = xs"

definition postings_from_doc_ids :: "doc_id list \<Rightarrow> postings" where
  "postings_from_doc_ids ds0 =
     (let ds = (if strictly_increasing ds0 then ds0 else dedup (sort ds0)) in
      \<lparr> ps_storage = (case ds of [] \<Rightarrow> EmptyPostings | [d] \<Rightarrow> Inline d | _ \<Rightarrow> Many ds), ps_frequency = length ds \<rparr>)"

fun storage_ids :: "postings_storage \<Rightarrow> doc_id list" where
  "storage_ids EmptyPostings = []"
| "storage_ids (Inline d) = [d]"
| "storage_ids (Many ds) = ds"

definition postings_to_vec :: "postings \<Rightarrow> doc_id list" where
  "postings_to_vec p = storage_ids (ps_storage p)"

type_synonym raw_postings = "trigram \<rightharpoonup> doc_id list"
type_synonym postings_index = "trigram \<rightharpoonup> postings"

definition postings_index_from_raw :: "raw_postings \<Rightarrow> postings_index" where
  "postings_index_from_raw raw = (\<lambda>t. case raw t of
       None \<Rightarrow> None
     | Some ds \<Rightarrow> let p = postings_from_doc_ids ds in if ps_frequency p > 0 then Some p else None)"

definition entry_push :: "trigram \<Rightarrow> doc_id \<Rightarrow> raw_postings \<Rightarrow> raw_postings" where
  "entry_push t d m = m(t \<mapsto> (case m t of Some ds \<Rightarrow> ds | None \<Rightarrow> []) @ [d])"

fun index_windows ::
  "doc_id \<Rightarrow> bytes \<Rightarrow> trigram \<Rightarrow> trigram set \<Rightarrow> trigram set \<Rightarrow> raw_postings \<times> raw_postings
   \<Rightarrow> raw_postings \<times> raw_postings" where
  \<comment> \<open>the folded trigram of the window is carried along and shifted\<close>
  "index_windows d (a # b # c # rest) folded seen folded_seen (p, fp) =
     (let t = (a, b, c);
          p1 = (if t \<in> seen then p else entry_push t d p);
          fp1 = (if folded \<in> folded_seen then fp else entry_push folded d fp);
          next_folded = (case rest of [] \<Rightarrow> folded | x # _ \<Rightarrow> (fst (snd folded), snd (snd folded), to_lower x))
      in index_windows d (b # c # rest) next_folded (insert t seen) (insert folded folded_seen) (p1, fp1))"
| "index_windows d _ folded seen folded_seen ps = ps"

definition index_document_trigrams ::
  "doc_id \<Rightarrow> bytes \<Rightarrow> raw_postings \<times> raw_postings \<Rightarrow> raw_postings \<times> raw_postings" where
  "index_document_trigrams d content ps =
     (case content of
        a # b # c # rest \<Rightarrow> index_windows d content (to_lower a, to_lower b, to_lower c) {} {} ps
      | _ \<Rightarrow> ps)"

record index_snapshot =
  sn_documents :: "document list"
  sn_postings :: postings_index
  sn_folded_postings :: postings_index
  sn_indexed_bytes :: nat
  sn_all_content_utf8 :: bool

fun index_documents :: "nat \<Rightarrow> document list \<Rightarrow> raw_postings \<times> raw_postings \<Rightarrow> (raw_postings \<times> raw_postings) searched" where
  "index_documents i [] ps = Inr ps"
| "index_documents i (doc # docs) ps =
     bindE (doc_id_from_index i) (\<lambda>d. index_documents (i + 1) docs (index_document_trigrams d (dc_content doc) ps))"

definition snapshot_of :: "document list \<Rightarrow> nat \<Rightarrow> bool \<Rightarrow> index_snapshot searched" where
  \<comment> \<open>the documents that were loaded, sorted by path, and their index\<close>
  "snapshot_of loaded bytes_indexed utf8 =
     (let docs = sort_key dc_rendered_path loaded in
      bindE (index_documents 0 docs (Map.empty, Map.empty)) (\<lambda>(p, fp). Inr \<lparr>
        sn_documents = docs, sn_postings = postings_index_from_raw p,
        sn_folded_postings = postings_index_from_raw fp, sn_indexed_bytes = bytes_indexed,
        sn_all_content_utf8 = utf8 \<rparr>))"

section \<open>Loading the documents\<close>

text \<open>What loading one file gives: nothing for what is no file, a document, or an error before or
  behind the limits that add up over the files.\<close>

datatype load_outcome =
    Skipped
  | Loaded nat document bool
  | FailedBefore mem_error
  | FailedAfter nat mem_error

record loaded_file =
  lf_is_file :: bool
  lf_length :: nat
  lf_content :: "bytes option"

definition contains_nul :: "bytes \<Rightarrow> bool" where
  "contains_nul s \<longleftrightarrow> NUL \<in> set s"

definition load_scope_document ::
  "limits \<Rightarrow> bool \<Rightarrow> (bytes \<Rightarrow> bytes) \<Rightarrow> bytes \<Rightarrow> mem_error + loaded_file \<Rightarrow> load_outcome" where
  \<comment> \<open>\<open>file\<close> is what opening the path and reading it comes to\<close>
  "load_scope_document L require_utf8 render path file =
     (case file of
        Inl err \<Rightarrow> FailedBefore err
      | Inr f \<Rightarrow>
          if \<not> lf_is_file f then Skipped
          else if lf_length f > max_file_bytes L then
            FailedBefore (mem_error ''resource_limit_exceeded'' ''max_file_bytes_exceeded'')
          else (case lf_content f of
              None \<Rightarrow> FailedAfter (lf_length f) (mem_error ''search_index_incomplete'' ''read_error'')
            | Some content \<Rightarrow>
                if contains_nul content then FailedAfter (lf_length f) (mem_error ''search_index_incomplete''
                  (if require_utf8 then ''fuzzy_scope_not_utf8'' else ''binary_file_in_scope''))
                else if \<not> utf8_valid content \<and> require_utf8 then
                  FailedAfter (lf_length f) (mem_error ''search_index_incomplete'' ''fuzzy_scope_not_utf8'')
                else Loaded (lf_length f) \<lparr> dc_path = path, dc_rendered_path = render path, dc_content = content,
                    dc_lines = line_ranges content \<rparr> (utf8_valid content)))"

fun load_loop ::
  "limits \<Rightarrow> load_outcome list \<Rightarrow> document list \<Rightarrow> nat \<Rightarrow> bool \<Rightarrow> (document list \<times> nat \<times> bool) searched" where
  \<comment> \<open>the outcomes in the order of the files\<close>
  "load_loop L [] docs tot utf8 = Inr (docs, tot, utf8)"
| "load_loop L (out # outs) docs tot utf8 =
     (case out of
        Skipped \<Rightarrow> load_loop L outs docs tot utf8
      | FailedBefore err \<Rightarrow> Inl err
      | FailedAfter n err \<Rightarrow>
          bindE (requireE (length docs < max_files L) (mem_error ''resource_limit_exceeded'' ''max_files_exceeded'')) (\<lambda>_.
          bindE (requireE (tot + n < 2 ^ 64 \<and> tot + n \<le> max_total_bytes L)
            (mem_error ''resource_limit_exceeded'' ''max_total_bytes_exceeded'')) (\<lambda>_. Inl err))
      | Loaded n doc u \<Rightarrow>
          bindE (requireE (length docs < max_files L) (mem_error ''resource_limit_exceeded'' ''max_files_exceeded'')) (\<lambda>_.
          bindE (requireE (tot + n < 2 ^ 64 \<and> tot + n \<le> max_total_bytes L)
            (mem_error ''resource_limit_exceeded'' ''max_total_bytes_exceeded'')) (\<lambda>_.
          load_loop L outs (docs @ [doc]) (tot + n) (utf8 \<and> u))))"

definition build_index ::
  "limits \<Rightarrow> bool \<Rightarrow> (bytes \<Rightarrow> bytes) \<Rightarrow> (bytes \<times> (mem_error + loaded_file)) list \<Rightarrow> index_snapshot searched" where
  "build_index L require_utf8 render files =
     bindE (load_loop L (map (\<lambda>(path, f). load_scope_document L require_utf8 render path f) files) [] 0 True)
       (\<lambda>(docs, tot, utf8). snapshot_of docs tot utf8)"

end
