(* ===== verification/SearchFuzzy.thy ===== *)
theory SearchFuzzy
  imports SearchIndex Utf8
begin

text \<open>
  Fuzzy search (\<^verbatim>\<open>search_memory.rs\<close>): the partitions of a pattern into seeds, the starts in a line at
  which a match can begin, and the banded edit distance.  A \<open>char\<close> of Rust is the list of its UTF-8
  bytes, a string the list of its characters.
\<close>

section \<open>Seeds\<close>

definition MAX_FUZZY_SEED_PARTITION_PLANS :: nat where "MAX_FUZZY_SEED_PARTITION_PLANS = 128"

record fuzzy_seed_partition =
  fp_byte_offsets :: "nat list"
  fp_ranges :: "(nat \<times> nat) list"

record fuzzy_verifier_seed =
  fv_pattern_start :: nat
  fv_chars :: "bytes list"

fun offsets_from :: "nat \<Rightarrow> bytes list \<Rightarrow> nat list" where
  "offsets_from n [] = [n]"
| "offsets_from n (c # cs) = n # offsets_from (n + length c) cs"

definition pattern_byte_offsets :: "bytes list \<Rightarrow> nat list" where
  "pattern_byte_offsets cs = offsets_from 0 cs"

definition seed_byte_len :: "nat list \<Rightarrow> nat \<Rightarrow> nat \<Rightarrow> nat" where
  "seed_byte_len offs start e = offs ! e - offs ! start"

definition abs_diff :: "nat \<Rightarrow> nat \<Rightarrow> nat" where
  "abs_diff a b = (a - b) + (b - a)"

definition saturating_mul :: "nat \<Rightarrow> nat \<Rightarrow> nat" where
  "saturating_mul a b = min (a * b) usize_max"

definition ordered_seed_end_scalars :: "nat list \<Rightarrow> nat \<Rightarrow> nat \<Rightarrow> nat list" where
  "ordered_seed_end_scalars offs start remaining =
     (let total_end = length offs - 1;
          max_end = total_end - (remaining - 1);
          total_remaining_bytes = offs ! total_end - offs ! start;
          min_remaining_bytes = 3 * (remaining - 1);
          ends = [e \<leftarrow> [start + 1..<max_end + 1].
            \<not> (seed_byte_len offs start e < 3 \<or> offs ! total_end - offs ! e < min_remaining_bytes)]
      in map snd (sort (map (\<lambda>e. (abs_diff (saturating_mul (seed_byte_len offs start e) remaining)
           total_remaining_bytes, e)) ends)))"

fun collect_partition_seed_ranges ::
  "nat list \<Rightarrow> nat \<Rightarrow> nat \<Rightarrow> (nat \<times> nat) list \<Rightarrow> fuzzy_seed_partition list \<Rightarrow> fuzzy_seed_partition list" where
  \<comment> \<open>the break out of the loop at the limit is the check at the head of each call\<close>
  "collect_partition_seed_ranges offs start 0 ranges parts = parts"
| "collect_partition_seed_ranges offs start (Suc r) ranges parts =
     (if MAX_FUZZY_SEED_PARTITION_PLANS \<le> length parts then parts
      else if r = 0 then
        (let e = length offs - 1 in
         if 3 \<le> seed_byte_len offs start e
         then parts @ [\<lparr> fp_byte_offsets = offs, fp_ranges = ranges @ [(start, e)] \<rparr>] else parts)
      else fold (\<lambda>e ps. collect_partition_seed_ranges offs e r (ranges @ [(start, e)]) ps)
        (ordered_seed_end_scalars offs start (Suc r)) parts)"

definition fuzzy_seed_partitions :: "bytes list \<Rightarrow> nat \<Rightarrow> fuzzy_seed_partition list" where
  "fuzzy_seed_partitions pattern distance =
     (let segment_count = distance + 1; offs = pattern_byte_offsets pattern in
      if length offs - 1 < segment_count then []
      else collect_partition_seed_ranges offs 0 segment_count [] [])"

definition fuzzy_candidate_seeds_from_partition :: "bytes list \<Rightarrow> fuzzy_seed_partition \<Rightarrow> bytes list" where
  "fuzzy_candidate_seeds_from_partition pattern p =
     map (\<lambda>(start, e). slice (concat pattern) (fp_byte_offsets p ! start, fp_byte_offsets p ! e)) (fp_ranges p)"

definition fuzzy_verifier_seeds_from_partition :: "bytes list \<Rightarrow> fuzzy_seed_partition \<Rightarrow> fuzzy_verifier_seed list" where
  "fuzzy_verifier_seeds_from_partition pattern p =
     map (\<lambda>(start, e). \<lparr> fv_pattern_start = start, fv_chars = take (e - start) (drop start pattern) \<rparr>) (fp_ranges p)"

section \<open>Starts\<close>

definition mark_starts :: "nat \<Rightarrow> nat \<Rightarrow> int \<Rightarrow> bool list \<Rightarrow> bool list" where
  \<comment> \<open>marks the starts that lie within the distance of the ideal one; the end is cast to \<open>usize\<close>, which
    makes a negative one huge, and one more than it wraps to 0 for \<open>- 1\<close> (a build with overflow checks
    stops there); no index of a line comes near the end of \<open>usize\<close>\<close>
  "mark_starts distance max_start ideal_start possible =
     (let lower = nat (max (ideal_start - int distance) 0);
          upper_int = min (ideal_start + int distance) (int max_start);
          upper = (if upper_int < 0 then nat (2 ^ 64 + upper_int) else nat upper_int);
          stop = (if upper_int = - 1 then 0 else upper + 1)
      in if lower > upper then possible
         else fold (\<lambda>i p. p[i := True]) [lower..<min stop (length possible)] possible)"

definition seed_starts :: "bytes list \<Rightarrow> nat \<Rightarrow> nat \<Rightarrow> fuzzy_verifier_seed \<Rightarrow> bool list \<Rightarrow> bool list" where
  "seed_starts line distance max_start seed possible =
     (if fv_chars seed = [] \<or> length line < length (fv_chars seed) then possible
      else fold (\<lambda>occ p.
          if take (length (fv_chars seed)) (drop occ line) \<noteq> fv_chars seed then p
          else mark_starts distance max_start (int occ - int (fv_pattern_start seed)) p)
        [0..<length line - length (fv_chars seed) + 1] possible)"

definition fuzzy_candidate_starts :: "bytes list \<Rightarrow> nat \<Rightarrow> nat \<Rightarrow> fuzzy_verifier_seed list \<Rightarrow> nat list" where
  "fuzzy_candidate_starts line pattern_len distance seeds =
     (let min_len = pattern_len - distance in
      if length line < min_len then []
      else
        let max_start = length line - min_len;
            possible = fold (seed_starts line distance max_start) seeds (replicate (max_start + 1) False)
        in [i \<leftarrow> [0..<length possible]. possible ! i])"

section \<open>Edit distance\<close>

primrec fill_columns :: "'a \<Rightarrow> 'a list \<Rightarrow> nat \<Rightarrow> nat list \<Rightarrow> nat list \<Rightarrow> nat list \<Rightarrow> nat \<Rightarrow> nat list \<times> nat" where
  \<comment> \<open>the columns of one row, with the least value so far\<close>
  "fill_columns x right limit previous [] current row_min = (current, row_min)"
| "fill_columns x right limit previous (column # columns) current row_min =
     (let deletion = min (saturating_add (previous ! column) 1) limit;
          insertion = min (saturating_add (current ! (column - 1)) 1) limit;
          substitution = saturating_add (previous ! (column - 1)) (if x \<noteq> right ! (column - 1) then 1 else 0);
          best = min (min deletion insertion) (min substitution limit)
      in fill_columns x right limit previous columns (current[column := best]) (min row_min best))"

definition edit_row :: "'a \<Rightarrow> 'a list \<Rightarrow> nat \<Rightarrow> nat \<Rightarrow> nat \<Rightarrow> nat list \<Rightarrow> nat list \<Rightarrow> nat list \<times> nat" where
  \<comment> \<open>one row: the new values, written over the row before the last, and the least of them\<close>
  "edit_row x right max_distance limit row previous current =
     (let min_column = max (row - max_distance) 1;
          max_column = min (saturating_add row max_distance) (length right);
          first = (if row \<le> max_distance then row else limit);
          current1 = current[0 := first];
          current2 = (if min_column \<le> max_column \<and> min_column > 1 then current1[min_column - 1 := limit] else current1);
          (current3, row_min) = fill_columns x right limit previous [min_column..<max_column + 1] current2 first
      in (if max_column < length right then current3[max_column + 1 := limit] else current3, row_min))"

primrec edit_rows :: "'a list \<Rightarrow> 'a list \<Rightarrow> nat \<Rightarrow> nat \<Rightarrow> nat \<Rightarrow> nat list \<Rightarrow> nat list \<Rightarrow> nat option" where
  \<comment> \<open>the two rows swap after each round\<close>
  "edit_rows [] right max_distance limit row previous current =
     (if previous ! length right \<le> max_distance then Some (previous ! length right) else None)"
| "edit_rows (x # left) right max_distance limit row previous current =
     (case edit_row x right max_distance limit (row + 1) previous current of
        (new, row_min) \<Rightarrow>
          if row_min > max_distance then None
          else edit_rows left right max_distance limit (row + 1) new previous)"

definition bounded_edit_distance :: "'a list \<Rightarrow> 'a list \<Rightarrow> nat \<Rightarrow> nat option" where
  "bounded_edit_distance left right max_distance =
     (if abs_diff (length left) (length right) > max_distance then None
      else
        let limit = saturating_add max_distance 1;
            previous = map (\<lambda>j. if j < min (length right) max_distance + 1 then j else limit) [0..<length right + 1];
            current = replicate (length right + 1) limit
        in edit_rows left right max_distance limit 0 previous current)"

section \<open>Lines\<close>

definition fuzzy_line_matches_with_seeds ::
  "bytes list \<Rightarrow> bytes list \<Rightarrow> nat \<Rightarrow> fuzzy_verifier_seed list \<Rightarrow> bool" where
  "fuzzy_line_matches_with_seeds line pattern distance seeds =
     (if pattern = [] then False
      else if saturating_add (length line) distance < length pattern then False
      else
        let min_len = length pattern - distance; max_len = saturating_add (length pattern) distance in
        list_ex (\<lambda>start.
            min_len \<le> length line - start
            \<and> list_ex (\<lambda>len. bounded_edit_distance pattern (take len (drop start line)) distance \<noteq> None)
                [min_len..<min max_len (length line - start) + 1])
          (fuzzy_candidate_starts line (length pattern) distance seeds))"

end
