(* ===== verification/SearchCandidates.thy ===== *)
theory SearchCandidates
  imports SearchIndex
begin

text \<open>
  The documents that can hold a match (\<^verbatim>\<open>search_memory.rs\<close>): intersections and unions of postings,
  the candidates of a literal, and those of a candidate expression, whose parts are taken in the
  order of their estimates.
\<close>

section \<open>Sets of documents\<close>

definition ensure_candidate_limit :: "nat \<Rightarrow> nat \<Rightarrow> unit searched" where
  "ensure_candidate_limit n mx = requireE (n \<le> mx) max_candidates_exceeded_error"

fun intersect_doc_id_sets :: "doc_id list \<Rightarrow> doc_id list \<Rightarrow> doc_id list" where
  "intersect_doc_id_sets (x # xs) (y # ys) =
     (if x = y then x # intersect_doc_id_sets xs ys
      else if x < y then intersect_doc_id_sets xs (y # ys)
      else intersect_doc_id_sets (x # xs) ys)"
| "intersect_doc_id_sets _ _ = []"

fun intersect_loop :: "doc_id list \<Rightarrow> doc_id list list \<Rightarrow> doc_id list" where
  "intersect_loop res [] = res"
| "intersect_loop res (c # cs) =
     (let r = intersect_doc_id_sets res c in if r = [] then [] else intersect_loop r cs)"

definition intersect_candidate_sets :: "doc_id list list \<Rightarrow> doc_id list" where
  "intersect_candidate_sets sets =
     (case sort_key length sets of [] \<Rightarrow> [] | s # ss \<Rightarrow> intersect_loop s ss)"

definition push_candidate :: "doc_id list \<Rightarrow> doc_id \<Rightarrow> nat \<Rightarrow> doc_id list searched" where
  "push_candidate cs c mx =
     bindE (ensure_candidate_limit (Suc (length cs)) mx) (\<lambda>_. Inr (cs @ [c]))"

fun union_loop :: "doc_id list \<Rightarrow> doc_id list \<Rightarrow> doc_id list \<Rightarrow> nat \<Rightarrow> doc_id list searched" where
  "union_loop [] [] merged mx = Inr merged"
| "union_loop (x # xs) [] merged mx = bindE (push_candidate merged x mx) (\<lambda>m. union_loop xs [] m mx)"
| "union_loop [] (y # ys) merged mx = bindE (push_candidate merged y mx) (\<lambda>m. union_loop [] ys m mx)"
| "union_loop (x # xs) (y # ys) merged mx =
     (if x = y then bindE (push_candidate merged x mx) (\<lambda>m. union_loop xs ys m mx)
      else if x < y then bindE (push_candidate merged x mx) (\<lambda>m. union_loop xs (y # ys) m mx)
      else bindE (push_candidate merged y mx) (\<lambda>m. union_loop (x # xs) ys m mx))"

definition union_postings :: "doc_id list \<Rightarrow> doc_id list \<Rightarrow> nat \<Rightarrow> doc_id list searched" where
  "union_postings left right mx =
     (if left = [] then bindE (ensure_candidate_limit (length right) mx) (\<lambda>_. Inr right)
      else if right = [] then bindE (ensure_candidate_limit (length left) mx) (\<lambda>_. Inr left)
      else union_loop left right [] mx)"

section \<open>Literals\<close>

type_synonym literal_posting = "trigram \<times> postings"

fun posting_lists :: "postings_index \<Rightarrow> trigram list \<Rightarrow> literal_posting list option" where
  "posting_lists P [] = Some []"
| "posting_lists P (t # ts) =
     (case P t of
        None \<Rightarrow> None
      | Some p \<Rightarrow> if ps_frequency p = 0 then None else map_option (\<lambda>ls. (t, p) # ls) (posting_lists P ts))"

definition literal_postings_by_selectivity ::
  "index_snapshot \<Rightarrow> bytes \<Rightarrow> literal_case \<Rightarrow> literal_posting list option" where
  "literal_postings_by_selectivity sn literal lcase =
     (let (lit, P) = (case lcase of
            Sensitive \<Rightarrow> (literal, sn_postings sn)
          | AsciiInsensitive \<Rightarrow> (ascii_folded literal, sn_folded_postings sn))
      in map_option (sort_key (\<lambda>(t, p). (ps_frequency p, t))) (posting_lists P (literal_trigrams lit)))"

definition intersect_postings :: "literal_posting list \<Rightarrow> doc_id list" where
  "intersect_postings ls =
     (if ls = [] then []
      else if list_ex (\<lambda>(t, p). ps_frequency p = 0) ls then []
      else intersect_loop (postings_to_vec (snd (hd ls))) (map (\<lambda>(t, p). postings_to_vec p) (tl ls)))"

definition candidates_for_literal ::
  "index_snapshot \<Rightarrow> bytes \<Rightarrow> literal_case \<Rightarrow> nat \<Rightarrow> doc_id list searched" where
  "candidates_for_literal sn literal lcase mx =
     (case literal_postings_by_selectivity sn literal lcase of
        None \<Rightarrow> Inr []
      | Some [] \<Rightarrow> Inr []
      | Some [(t, p)] \<Rightarrow> bindE (ensure_candidate_limit (ps_frequency p) mx) (\<lambda>_. Inr (postings_to_vec p))
      | Some ls \<Rightarrow> (let cs = intersect_postings ls in
            bindE (ensure_candidate_limit (length cs) mx) (\<lambda>_. Inr cs)))"

definition literal_candidate_estimate :: "index_snapshot \<Rightarrow> bytes \<Rightarrow> literal_case \<Rightarrow> nat" where
  "literal_candidate_estimate sn literal lcase =
     (case literal_postings_by_selectivity sn literal lcase of
        Some ((t, p) # ls) \<Rightarrow> ps_frequency p
      | _ \<Rightarrow> 0)"

section \<open>Candidate expressions\<close>

datatype candidate_expr = Seed bytes | AndExpr "candidate_expr list" | OrExpr "candidate_expr list"

fun expr_code :: "candidate_expr \<Rightarrow> nat list" where
  \<comment> \<open>the derived order of the expressions is the lexicographic order of these codes\<close>
  "expr_code (Seed s) = 1 # map (\<lambda>b. Suc (bval b)) s @ [0]"
| "expr_code (AndExpr es) = 2 # concat (map expr_code es) @ [0]"
| "expr_code (OrExpr es) = 3 # concat (map expr_code es) @ [0]"

fun candidate_expr_seed_count :: "candidate_expr \<Rightarrow> nat" where
  "candidate_expr_seed_count (Seed s) = 1"
| "candidate_expr_seed_count (AndExpr es) = sum_list (map candidate_expr_seed_count es)"
| "candidate_expr_seed_count (OrExpr es) = sum_list (map candidate_expr_seed_count es)"

fun min_estimate :: "nat list \<Rightarrow> nat" where
  "min_estimate [] = 0"
| "min_estimate [n] = n"
| "min_estimate (n # ns) = min n (min_estimate ns)"

definition saturating_sum :: "nat list \<Rightarrow> nat" where
  "saturating_sum ns = fold (\<lambda>n acc. saturating_add acc n) ns 0"

fun candidate_expr_estimated_docs :: "index_snapshot \<Rightarrow> candidate_expr \<Rightarrow> nat" where
  "candidate_expr_estimated_docs sn (Seed s) = literal_candidate_estimate sn s Sensitive"
| "candidate_expr_estimated_docs sn (AndExpr es) = min_estimate (map (candidate_expr_estimated_docs sn) es)"
| "candidate_expr_estimated_docs sn (OrExpr es) = saturating_sum (map (candidate_expr_estimated_docs sn) es)"

definition by_selectivity :: "index_snapshot \<Rightarrow> candidate_expr list \<Rightarrow> candidate_expr list" where
  "by_selectivity sn es =
     sort_key (\<lambda>e. (candidate_expr_estimated_docs sn e, candidate_expr_seed_count e, expr_code e)) es"

lemma set_by_selectivity [simp]: "set (by_selectivity sn es) = set es"
  by (simp add: by_selectivity_def)

fun and_sets :: "doc_id list searched list \<Rightarrow> doc_id list list option searched" where
  \<comment> \<open>the sets of the parts, \<open>None\<close> when one of them is empty\<close>
  "and_sets [] = Inr (Some [])"
| "and_sets (r # rs) = bindE r (\<lambda>s. if s = [] then Inr None
     else bindE (and_sets rs) (\<lambda>ss. Inr (map_option ((#) s) ss)))"

fun or_sets :: "doc_id list \<Rightarrow> doc_id list searched list \<Rightarrow> nat \<Rightarrow> doc_id list searched" where
  "or_sets cs [] mx = Inr cs"
| "or_sets cs (r # rs) mx = bindE r (\<lambda>s. bindE (union_postings cs s mx) (\<lambda>cs1. or_sets cs1 rs mx))"

lemma size_in_list: "x \<in> set xs \<Longrightarrow> size x < Suc (size_list size xs)"
  by (induction xs) auto

function candidates_for_candidate_expr :: "index_snapshot \<Rightarrow> candidate_expr \<Rightarrow> nat \<Rightarrow> doc_id list searched" where
  "candidates_for_candidate_expr sn (Seed s) mx =
     bindE (candidates_for_literal sn s Sensitive mx) (\<lambda>cs.
     bindE (ensure_candidate_limit (length cs) mx) (\<lambda>_. Inr cs))"
| "candidates_for_candidate_expr sn (AndExpr es) mx =
     (if list_ex (\<lambda>e. candidate_expr_estimated_docs sn e = 0) es then Inr []
      else bindE (and_sets (map (\<lambda>e. candidates_for_candidate_expr sn e mx) (by_selectivity sn es))) (\<lambda>r.
        case r of
          None \<Rightarrow> Inr []
        | Some sets \<Rightarrow> (let cs = intersect_candidate_sets sets in
            bindE (ensure_candidate_limit (length cs) mx) (\<lambda>_. Inr cs))))"
| "candidates_for_candidate_expr sn (OrExpr es) mx =
     bindE (or_sets [] (map (\<lambda>e. candidates_for_candidate_expr sn e mx) (by_selectivity sn es)) mx) (\<lambda>cs.
     bindE (ensure_candidate_limit (length cs) mx) (\<lambda>_. Inr cs))"
  by pat_completeness auto

termination
  by (relation "measure (\<lambda>(_, e, _). size e)") (auto intro: size_in_list)

end
