(* ===== verification/SearchLines.thy ===== *)
theory SearchLines
  imports SearchFuzzy SearchCandidates
begin

text \<open>
  Checking the candidates (\<^verbatim>\<open>search_memory.rs\<close>): when a line matches a plan, the lines of a document
  that match within a budget of events, the intervals of lines around the matches, and the events.
  The compiled regular expression of a plan is a predicate on lines, a parameter.
\<close>

section \<open>Plans\<close>

record fuzzy_seed_plan =
  sp_partition_index :: nat
  sp_seeds :: "bytes list"
  sp_verifier_seeds :: "fuzzy_verifier_seed list"

datatype query_plan =
    Exact bytes literal_case
  | ShortExact bytes literal_case
  | WordExact bytes literal_case
  | RegexPlan "bytes \<Rightarrow> bool" candidate_expr
  | Fuzzy "bytes list" nat "fuzzy_seed_plan list"

record fuzzy_seed_selection =
  fs_partition_count :: nat
  fs_partition_index :: nat
  fs_candidate_seeds :: "bytes list"
  fs_verifier_seeds :: "fuzzy_verifier_seed list"
  fs_candidates :: "doc_id list"
  fs_duplicate_seed_count :: nat
  fs_seed_candidate_counts :: "nat list"
  fs_seed_byte_lengths :: "nat list"

section \<open>Literals in a line\<close>

definition is_ascii_word_byte :: "byte \<Rightarrow> bool" where
  "is_ascii_word_byte b \<longleftrightarrow> ascii_upper b \<or> ascii_lower b \<or> is_digit b \<or> b = CHR ''_''"

definition is_supported_ascii_word_literal :: "bytes \<Rightarrow> bool" where
  "is_supported_ascii_word_literal s \<longleftrightarrow> s \<noteq> [] \<and> is_ascii_word_byte (hd s) \<and> is_ascii_word_byte (last s)"

definition has_ascii_word_boundaries :: "bytes \<Rightarrow> nat \<Rightarrow> nat \<Rightarrow> bool" where
  "has_ascii_word_boundaries h start len \<longleftrightarrow>
     (start = 0 \<or> \<not> (start - 1 < length h \<and> is_ascii_word_byte (h ! (start - 1))))
     \<and> \<not> (start + len < length h \<and> is_ascii_word_byte (h ! (start + len)))"

definition finder_matches :: "memlib \<Rightarrow> bytes \<Rightarrow> bytes \<Rightarrow> bool" where
  \<comment> \<open>the searcher built once for a document: none for an empty needle\<close>
  "finder_matches M needle line \<longleftrightarrow> needle \<noteq> [] \<and> mem_find M needle line \<noteq> None"

definition first_byte :: "memlib \<Rightarrow> byte \<Rightarrow> bytes \<Rightarrow> nat option" where
  "first_byte M b s =
     (if to_lower b = to_upper b then memchr M b s else memchr2 M (to_lower b) (to_upper b) s)"

text \<open>The three loops go on behind the start that did not match; each round moves the offset on.\<close>

function contains_ci_loop :: "memlib \<Rightarrow> bytes \<Rightarrow> bytes \<Rightarrow> nat \<Rightarrow> bool" where
  "contains_ci_loop M h needle offset =
     (if offset > length h - length needle then False
      else (case first_byte M (hd needle) (slice h (offset, length h - length needle + 1)) of
          None \<Rightarrow> False
        | Some rel \<Rightarrow>
            if eq_ignore_ascii_case (take (length needle) (drop (offset + rel) h)) needle then True
            else contains_ci_loop M h needle (offset + rel + 1)))"
  by pat_completeness auto
termination by (relation "measure (\<lambda>(_, h, needle, offset). length h - length needle + 1 - offset)") auto

declare contains_ci_loop.simps [simp del]

definition contains_subslice_ascii_case_insensitive :: "memlib \<Rightarrow> bytes \<Rightarrow> bytes \<Rightarrow> bool" where
  "contains_subslice_ascii_case_insensitive M h needle =
     (if needle = [] \<or> length needle > length h then False
      else if length needle = 1 then list_ex (\<lambda>c. to_lower c = to_lower (hd needle)) h
      else contains_ci_loop M h needle 0)"

function contains_word_loop :: "memlib \<Rightarrow> bytes \<Rightarrow> bytes \<Rightarrow> nat \<Rightarrow> bool" where
  "contains_word_loop M h needle offset =
     (if offset > length h - length needle then False
      else (case mem_find M needle (drop offset h) of
          None \<Rightarrow> False
        | Some rel \<Rightarrow>
            if has_ascii_word_boundaries h (offset + rel) (length needle) then True
            else contains_word_loop M h needle (offset + rel + 1)))"
  by pat_completeness auto
termination by (relation "measure (\<lambda>(_, h, needle, offset). length h - length needle + 1 - offset)") auto

declare contains_word_loop.simps [simp del]

definition contains_word_subslice :: "memlib \<Rightarrow> bytes \<Rightarrow> bytes \<Rightarrow> bool" where
  "contains_word_subslice M h needle =
     (if needle = [] \<or> length needle > length h then False else contains_word_loop M h needle 0)"

function contains_word_ci_loop :: "memlib \<Rightarrow> bytes \<Rightarrow> bytes \<Rightarrow> nat \<Rightarrow> bool" where
  "contains_word_ci_loop M h needle offset =
     (if offset > length h - length needle then False
      else (case first_byte M (hd needle) (slice h (offset, length h - length needle + 1)) of
          None \<Rightarrow> False
        | Some rel \<Rightarrow>
            if eq_ignore_ascii_case (take (length needle) (drop (offset + rel) h)) needle
              \<and> has_ascii_word_boundaries h (offset + rel) (length needle) then True
            else contains_word_ci_loop M h needle (offset + rel + 1)))"
  by pat_completeness auto
termination by (relation "measure (\<lambda>(_, h, needle, offset). length h - length needle + 1 - offset)") auto

declare contains_word_ci_loop.simps [simp del]

definition contains_word_subslice_ascii_case_insensitive :: "memlib \<Rightarrow> bytes \<Rightarrow> bytes \<Rightarrow> bool" where
  "contains_word_subslice_ascii_case_insensitive M h needle =
     (if needle = [] \<or> length needle > length h then False
      else if length needle = 1 then
        list_ex (\<lambda>start. to_lower (h ! start) = to_lower (hd needle)
          \<and> has_ascii_word_boundaries h start (length needle)) [0..<length h]
      else contains_word_ci_loop M h needle 0)"

section \<open>The lines of a document that match\<close>

record line_match_budget =
  lb_context :: nat
  lb_event_budget :: nat

record verification_stats =
  vs_verified_lines :: nat
  vs_fuzzy_verified_lines :: nat

definition render_interval :: "nat \<Rightarrow> nat \<Rightarrow> nat \<Rightarrow> (nat \<times> nat) option" where
  "render_interval match_line line_count context =
     (if line_count = 0 then None
      else Some (match_line - context, min (saturating_add match_line context) (line_count - 1)))"

definition char_count_exceeds :: "bytes list \<Rightarrow> nat \<Rightarrow> bool" where
  "char_count_exceeds cs limit \<longleftrightarrow> length cs > limit"

definition line_is_match ::
  "memlib \<Rightarrow> query_plan \<Rightarrow> fuzzy_seed_selection option \<Rightarrow> limits \<Rightarrow> bytes \<Rightarrow> verification_stats
   \<Rightarrow> (bool \<times> verification_stats) searched" where
  "line_is_match M plan sel L line st =
     (case plan of
        Exact literal lcase \<Rightarrow> Inr (case lcase of
            Sensitive \<Rightarrow> finder_matches M literal line
          | AsciiInsensitive \<Rightarrow> contains_subslice_ascii_case_insensitive M line literal, st)
      | ShortExact literal lcase \<Rightarrow> Inr (case lcase of
            Sensitive \<Rightarrow> finder_matches M literal line
          | AsciiInsensitive \<Rightarrow> contains_subslice_ascii_case_insensitive M line literal, st)
      | WordExact literal lcase \<Rightarrow> Inr (case lcase of
            Sensitive \<Rightarrow> contains_word_subslice M line literal
          | AsciiInsensitive \<Rightarrow> contains_word_subslice_ascii_case_insensitive M line literal, st)
      | RegexPlan matcher e \<Rightarrow> Inr (matcher line, st)
      | Fuzzy pattern distance plans \<Rightarrow>
          (case sel of
             None \<Rightarrow> Inl (mem_error ''internal_error'' ''internal_error'')
           | Some s \<Rightarrow>
               let n = vs_fuzzy_verified_lines st + 1; st1 = st\<lparr> vs_fuzzy_verified_lines := n \<rparr> in
               bindE (requireE (n \<le> usize_max \<and> n \<le> max_fuzzy_verified_lines L)
                 (mem_error ''resource_limit_exceeded'' ''max_fuzzy_verified_lines_exceeded'')) (\<lambda>_.
               case utf8_chars line of
                 None \<Rightarrow> Inl (mem_error ''search_index_incomplete'' ''fuzzy_scope_not_utf8'')
               | Some cs \<Rightarrow>
                   bindE (requireE (\<not> char_count_exceeds cs (max_fuzzy_line_chars L))
                     (mem_error ''resource_limit_exceeded'' ''max_fuzzy_line_chars_exceeded'')) (\<lambda>_.
                   Inr (fuzzy_line_matches_with_seeds cs pattern distance (fs_verifier_seeds s), st1)))))"

text \<open>What the loop over the lines carries: the lines that matched, the line to scan to once the
  budget is full, and the count and the last of the lines that would be shown.\<close>

record line_scan =
  ls_matched :: "nat list"
  ls_scan_until :: "nat option"
  ls_rendered_count :: nat
  ls_rendered_max :: "nat option"

datatype budget_step = StopScan | GoOn line_scan

definition budget_after_match :: "line_match_budget option \<Rightarrow> nat \<Rightarrow> nat \<Rightarrow> line_scan \<Rightarrow> budget_step" where
  "budget_after_match budget n line_index sc =
     (case budget of
        None \<Rightarrow> GoOn sc
      | Some b \<Rightarrow>
          if lb_event_budget b = 0 then GoOn sc
          else (case render_interval line_index n (lb_context b) of
              None \<Rightarrow> GoOn sc
            | Some (start, e) \<Rightarrow>
                let append_from = (case ls_rendered_max sc of
                       Some m \<Rightarrow> if start \<le> m then m + 1 else start
                     | None \<Rightarrow> start)
                in if append_from > e then GoOn sc
                   else
                     let appended = e - append_from + 1;
                         remaining = lb_event_budget b - ls_rendered_count sc;
                         scan_until = append_from + remaining - 1;
                         sc1 = sc\<lparr> ls_rendered_count := ls_rendered_count sc + appended, ls_rendered_max := Some e \<rparr>
                     in if appended \<ge> remaining then
                          (if line_index \<ge> scan_until then StopScan
                           else GoOn (sc1\<lparr> ls_scan_until := Some scan_until \<rparr>))
                        else GoOn sc1))"

fun scan_lines ::
  "memlib \<Rightarrow> document \<Rightarrow> query_plan \<Rightarrow> fuzzy_seed_selection option \<Rightarrow> limits \<Rightarrow> line_match_budget option
   \<Rightarrow> nat \<Rightarrow> line_range list \<Rightarrow> line_scan \<Rightarrow> verification_stats
   \<Rightarrow> (nat list \<times> bool \<times> verification_stats) searched" where
  \<comment> \<open>the matching lines, in order, and whether the scan stopped because the budget is full\<close>
  "scan_lines M doc plan sel L budget i [] sc st = Inr (ls_matched sc, False, st)"
| "scan_lines M doc plan sel L budget i (r # rs) sc st =
     (let st1 = st\<lparr> vs_verified_lines := saturating_add (vs_verified_lines st) 1 \<rparr> in
      bindE (line_is_match M plan sel L (slice (dc_content doc) r) st1) (\<lambda>(is_match, st2).
      let sc1 = (if is_match then sc\<lparr> ls_matched := ls_matched sc @ [i] \<rparr> else sc) in
      case ls_scan_until sc1 of
        Some until \<Rightarrow>
          if i \<ge> until then Inr (ls_matched sc1, True, st2)
          else scan_lines M doc plan sel L budget (i + 1) rs sc1 st2
      | None \<Rightarrow>
          if is_match then
            (case budget_after_match budget (length (dc_lines doc)) i sc1 of
               StopScan \<Rightarrow> Inr (ls_matched sc1, True, st2)
             | GoOn sc2 \<Rightarrow> scan_lines M doc plan sel L budget (i + 1) rs sc2 st2)
          else scan_lines M doc plan sel L budget (i + 1) rs sc1 st2))"

definition matching_line_indexes_with_budget ::
  "memlib \<Rightarrow> document \<Rightarrow> query_plan \<Rightarrow> fuzzy_seed_selection option \<Rightarrow> limits \<Rightarrow> line_match_budget option
   \<Rightarrow> verification_stats \<Rightarrow> (nat list \<times> bool \<times> verification_stats) searched" where
  "matching_line_indexes_with_budget M doc plan sel L budget st =
     scan_lines M doc plan sel L budget 0 (dc_lines doc)
       \<lparr> ls_matched = [], ls_scan_until = None, ls_rendered_count = 0, ls_rendered_max = None \<rparr> st"

section \<open>Events\<close>

record search_event =
  ev_is_match :: bool
  ev_path :: bytes
  ev_line_number :: nat
  ev_text :: bytes

definition line_text :: "document \<Rightarrow> nat \<Rightarrow> bytes" where
  "line_text doc i = from_utf8_lossy (slice (dc_content doc) (dc_lines doc ! i))"

fun for_each_render_interval ::
  "nat list \<Rightarrow> nat \<Rightarrow> nat \<Rightarrow> (nat \<Rightarrow> nat \<Rightarrow> 's \<Rightarrow> 's \<times> bool) \<Rightarrow> (nat \<times> nat) option \<Rightarrow> 's \<Rightarrow> 's \<times> bool" where
  \<comment> \<open>\<open>emit\<close> gets the intervals, merged where they meet, and says when to stop\<close>
  "for_each_render_interval [] n context emit cur s =
     (case cur of None \<Rightarrow> (s, False) | Some (start, e) \<Rightarrow> emit start e s)"
| "for_each_render_interval (m # ms) n context emit cur s =
     (case render_interval m n context of
        None \<Rightarrow> for_each_render_interval ms n context emit cur s
      | Some (start, e) \<Rightarrow>
          (case cur of
             Some (cstart, cend) \<Rightarrow>
               if start \<le> saturating_add cend 1
               then for_each_render_interval ms n context emit (Some (cstart, max cend e)) s
               else (case emit cstart cend s of
                   (s1, True) \<Rightarrow> (s1, True)
                 | (s1, False) \<Rightarrow> for_each_render_interval ms n context emit (Some (start, e)) s1)
           | None \<Rightarrow> for_each_render_interval ms n context emit (Some (start, e)) s))"

fun push_lines ::
  "document \<Rightarrow> nat \<Rightarrow> nat list \<Rightarrow> search_event list \<times> nat list \<Rightarrow> (search_event list \<times> nat list) \<times> bool" where
  \<comment> \<open>the lines of an interval; the pending matches are taken off as they are passed\<close>
  "push_lines doc max_results [] (events, pending) = ((events, pending), False)"
| "push_lines doc max_results (i # is) (events, pending) =
     (let is_match = (pending \<noteq> [] \<and> hd pending = i);
          pending1 = (if is_match then tl pending else pending);
          events1 = events @ [\<lparr> ev_is_match = is_match, ev_path = dc_rendered_path doc,
            ev_line_number = i + 1, ev_text = line_text doc i \<rparr>]
      in if length events1 \<ge> max_results then ((events1, pending1), True)
         else push_lines doc max_results is (events1, pending1))"

definition push_rendered_interval ::
  "document \<Rightarrow> nat \<Rightarrow> nat \<Rightarrow> nat \<Rightarrow> search_event list \<times> nat list \<Rightarrow> (search_event list \<times> nat list) \<times> bool" where
  "push_rendered_interval doc max_results start e s =
     push_lines doc max_results [start..<e + 1] (fst s, dropWhile (\<lambda>m. m < start) (snd s))"

definition push_rendered_events ::
  "search_event list \<Rightarrow> document \<Rightarrow> nat list \<Rightarrow> nat \<Rightarrow> nat \<Rightarrow> search_event list \<times> bool" where
  "push_rendered_events events doc matched context max_results =
     (case for_each_render_interval matched (length (dc_lines doc)) context
        (push_rendered_interval doc max_results) None (events, matched) of
        ((events1, pending), stop) \<Rightarrow> (events1, stop))"

record verified =
  ve_events :: "search_event list"
  ve_truncated :: bool
  ve_stats :: verification_stats
  ve_result_doc_ids :: "doc_id list"

fun verify_docs ::
  "memlib \<Rightarrow> index_snapshot \<Rightarrow> query_plan \<Rightarrow> fuzzy_seed_selection option \<Rightarrow> limits \<Rightarrow> nat \<Rightarrow> nat
   \<Rightarrow> doc_id list \<Rightarrow> verified \<Rightarrow> verified searched" where
  "verify_docs M sn plan sel L max_results context [] v = Inr v"
| "verify_docs M sn plan sel L max_results context (d # ds) v =
     (if d \<ge> length (sn_documents sn) then Inl (mem_error ''search_index_incomplete'' ''invalid_doc_id'')
      else
        let doc = sn_documents sn ! d; remaining = max_results - length (ve_events v) in
        if remaining = 0 then Inr (v\<lparr> ve_truncated := True \<rparr>)
        else
          bindE (matching_line_indexes_with_budget M doc plan sel L
              (Some \<lparr> lb_context = context, lb_event_budget = remaining \<rparr>) (ve_stats v)) (\<lambda>(matched, stopped, st).
          let v1 = v\<lparr> ve_stats := st \<rparr> in
          if matched = [] then verify_docs M sn plan sel L max_results context ds v1
          else
            let (events, doc_truncated) = push_rendered_events (ve_events v) doc matched context max_results;
                v2 = v1\<lparr> ve_events := events, ve_result_doc_ids :=
                  (if length events > length (ve_events v) then ve_result_doc_ids v @ [d] else ve_result_doc_ids v) \<rparr>
            in if doc_truncated \<or> stopped then Inr (v2\<lparr> ve_truncated := True \<rparr>)
               else verify_docs M sn plan sel L max_results context ds v2))"

definition verify_and_render ::
  "memlib \<Rightarrow> index_snapshot \<Rightarrow> doc_id list \<Rightarrow> query_plan \<Rightarrow> fuzzy_seed_selection option \<Rightarrow> nat \<Rightarrow> nat \<Rightarrow> limits
   \<Rightarrow> verified searched" where
  "verify_and_render M sn candidates plan sel max_results context L =
     verify_docs M sn plan sel L max_results context candidates
       \<lparr> ve_events = [], ve_truncated = False,
         ve_stats = \<lparr> vs_verified_lines = 0, vs_fuzzy_verified_lines = 0 \<rparr>, ve_result_doc_ids = [] \<rparr>"

end
