(* ===== verification/SearchRegex.thy ===== *)
theory SearchRegex
  imports SearchCandidates
begin

text \<open>
  Regular expressions of the \<open>Search\<close> tool (\<^verbatim>\<open>search_memory.rs\<close>): which patterns the index takes, and
  the literals a match has to contain.  The crates \<open>regex_syntax\<close> and \<open>regex\<close> are not part of the
  repository: the parser and the compiler are a parameter, and \<open>hir\<close> has the constructors the code
  takes apart.
\<close>

section \<open>Patterns\<close>

datatype hir_class = UnicodeClass "(nat \<times> nat) list" | BytesClass "(nat \<times> nat) list"

datatype hir =
    HEmpty
  | HLook
  | HLiteral bytes
  | HClass hir_class
  | HCapture hir
  | HRepetition nat "nat option" hir
  | HConcat "hir list"
  | HAlternation "hir list"

record regexlib =
  rx_parse :: "bytes \<Rightarrow> hir option"
  rx_compile :: "nat \<Rightarrow> bytes \<Rightarrow> (bytes \<Rightarrow> bool) option"

definition is_plain_regex_literal :: "bytes \<Rightarrow> bool" where
  "is_plain_regex_literal pattern \<longleftrightarrow> \<not> list_ex (\<lambda>c. c \<in> set [CHR 0x5C, CHR ''.'', CHR ''^'', CHR ''$'', CHR ''|'',
     CHR ''?'', CHR ''*'', CHR ''+'', CHR ''('', CHR '')'', CHR ''['', CHR '']'', CHR ''{'', CHR ''}'']) pattern"

fun class_can_match_lf :: "hir_class \<Rightarrow> bool" where
  "class_can_match_lf (UnicodeClass rs) = list_ex (\<lambda>(lo, hi). lo \<le> 10 \<and> 10 \<le> hi) rs"
| "class_can_match_lf (BytesClass rs) = list_ex (\<lambda>(lo, hi). lo \<le> 10 \<and> 10 \<le> hi) rs"

fun hir_can_match_lf :: "hir \<Rightarrow> bool" where
  "hir_can_match_lf HEmpty = False"
| "hir_can_match_lf HLook = False"
| "hir_can_match_lf (HLiteral s) = (LF \<in> set s)"
| "hir_can_match_lf (HClass c) = class_can_match_lf c"
| "hir_can_match_lf (HCapture h) = hir_can_match_lf h"
| "hir_can_match_lf (HRepetition mn mx h) = hir_can_match_lf h"
| "hir_can_match_lf (HConcat hs) = list_ex hir_can_match_lf hs"
| "hir_can_match_lf (HAlternation hs) = list_ex hir_can_match_lf hs"

fun inline_loop :: "bytes \<Rightarrow> bool \<Rightarrow> bool" where
  \<comment> \<open>the byte behind a backslash is skipped\<close>
  "inline_loop [] in_class = False"
| "inline_loop (b # bs) in_class =
     (if b = CHR 0x5C then inline_loop (drop 1 bs) in_class
      else if in_class then inline_loop bs (b \<noteq> CHR '']'')
      else if b = CHR ''('' \<and> bs \<noteq> [] \<and> hd bs = CHR ''?'' then True
      else inline_loop bs (b = CHR ''[''))"

definition has_inline_regex_construct :: "bytes \<Rightarrow> bool" where
  "has_inline_regex_construct pattern = inline_loop pattern False"

fun has_line_break_escape :: "bytes \<Rightarrow> bool" where
  "has_line_break_escape [] = False"
| "has_line_break_escape (b # bs) =
     (if b \<noteq> CHR 0x5C then has_line_break_escape bs
      else if bs = [] then False
      else if hd bs \<in> {CHR ''n'', CHR ''r'', CHR ''R'', CHR ''X''} then True
      else has_line_break_escape (tl bs))"

section \<open>Required literals\<close>

definition MAX_REGEX_FINITE_LITERAL_ALTERNATIVES :: nat where "MAX_REGEX_FINITE_LITERAL_ALTERNATIVES = 64"
definition MAX_REGEX_FINITE_LITERAL_BYTES :: nat where "MAX_REGEX_FINITE_LITERAL_BYTES = 64"
definition MAX_REGEX_FINITE_LITERAL_REPEAT_COUNT :: nat where "MAX_REGEX_FINITE_LITERAL_REPEAT_COUNT = 8"

definition candidate_seed :: "bytes \<Rightarrow> candidate_expr option" where
  "candidate_seed s = (if 3 \<le> length s \<and> LF \<notin> set s \<and> CR \<notin> set s then Some (Seed s) else None)"

definition dedup_candidate_exprs :: "candidate_expr list \<Rightarrow> candidate_expr list" where
  "dedup_candidate_exprs es = fold (\<lambda>e unique. if e \<in> set unique then unique else unique @ [e]) es []"

definition candidate_expr_from_many ::
  "candidate_expr list \<Rightarrow> (candidate_expr list \<Rightarrow> candidate_expr) \<Rightarrow> candidate_expr option" where
  "candidate_expr_from_many es wrap =
     (case dedup_candidate_exprs es of [] \<Rightarrow> None | [e] \<Rightarrow> Some e | us \<Rightarrow> Some (wrap us))"

definition candidate_and :: "candidate_expr list \<Rightarrow> candidate_expr option" where
  "candidate_and es =
     candidate_expr_from_many (concat (map (\<lambda>e. case e of AndExpr children \<Rightarrow> children | _ \<Rightarrow> [e]) es)) AndExpr"

definition candidate_or :: "candidate_expr list \<Rightarrow> candidate_expr option" where
  "candidate_or es =
     candidate_expr_from_many (concat (map (\<lambda>e. case e of OrExpr children \<Rightarrow> children | _ \<Rightarrow> [e]) es)) OrExpr"

definition bounded_literal_prefix :: "bytes \<Rightarrow> bytes" where
  "bounded_literal_prefix s = take MAX_REGEX_FINITE_LITERAL_BYTES s"

definition concat_bounded_literal_prefix :: "bytes \<Rightarrow> bytes \<Rightarrow> bytes" where
  "concat_bounded_literal_prefix left right =
     (let combined = take MAX_REGEX_FINITE_LITERAL_BYTES left;
          remaining = MAX_REGEX_FINITE_LITERAL_BYTES - length combined
      in if remaining > 0 then combined @ take remaining right else combined)"

definition push_limited_literal_prefix :: "bytes list \<Rightarrow> bytes \<Rightarrow> bytes list option" where
  "push_limited_literal_prefix literals literal =
     (if literal \<in> set literals then Some literals
      else if length literals \<ge> MAX_REGEX_FINITE_LITERAL_ALTERNATIVES then None
      else Some (literals @ [literal]))"

fun push_all :: "bytes list \<Rightarrow> bytes list \<Rightarrow> bytes list option" where
  "push_all literals [] = Some literals"
| "push_all literals (l # ls) =
     (case push_limited_literal_prefix literals l of None \<Rightarrow> None | Some literals1 \<Rightarrow> push_all literals1 ls)"

definition concat_literal_prefix_sets :: "bytes list \<Rightarrow> bytes list \<Rightarrow> bytes list option" where
  "concat_literal_prefix_sets left right =
     push_all [] (concat (map (\<lambda>l. map (concat_bounded_literal_prefix l) right) left))"

primrec repeat_literal_prefix_set :: "bytes list \<Rightarrow> nat \<Rightarrow> bytes list option" where
  "repeat_literal_prefix_set unit 0 = Some [[]]"
| "repeat_literal_prefix_set unit (Suc n) =
     (case repeat_literal_prefix_set unit n of None \<Rightarrow> None | Some repeated \<Rightarrow> concat_literal_prefix_sets repeated unit)"

fun push_sets :: "bytes list \<Rightarrow> bytes list option list \<Rightarrow> bytes list option" where
  \<comment> \<open>the literals of all the sets, \<open>None\<close> as soon as one is missing or there are too many\<close>
  "push_sets literals [] = Some literals"
| "push_sets literals (None # sets) = None"
| "push_sets literals (Some ls # sets) =
     (case push_all literals ls of None \<Rightarrow> None | Some literals1 \<Rightarrow> push_sets literals1 sets)"

fun concat_sets :: "bytes list \<Rightarrow> bytes list option list \<Rightarrow> bytes list option" where
  "concat_sets prefixes [] = Some prefixes"
| "concat_sets prefixes (None # sets) = None"
| "concat_sets prefixes (Some ls # sets) =
     (case concat_literal_prefix_sets prefixes ls of None \<Rightarrow> None | Some combined \<Rightarrow> concat_sets combined sets)"

definition finite_repetition_literal_prefixes :: "nat \<Rightarrow> nat option \<Rightarrow> bytes list option \<Rightarrow> bytes list option" where
  "finite_repetition_literal_prefixes mn mx unit =
     (case mx of
        None \<Rightarrow> None
      | Some m \<Rightarrow>
          if m > MAX_REGEX_FINITE_LITERAL_REPEAT_COUNT then None
          else (case unit of
              None \<Rightarrow> None
            | Some u \<Rightarrow> push_sets [] (map (repeat_literal_prefix_set u) [mn..<m + 1])))"

fun finite_literal_prefixes :: "hir \<Rightarrow> bytes list option" where
  "finite_literal_prefixes HEmpty = Some [[]]"
| "finite_literal_prefixes HLook = Some [[]]"
| "finite_literal_prefixes (HLiteral s) = Some [bounded_literal_prefix s]"
| "finite_literal_prefixes (HClass c) = None"
| "finite_literal_prefixes (HCapture h) = finite_literal_prefixes h"
| "finite_literal_prefixes (HRepetition mn mx h) = finite_repetition_literal_prefixes mn mx (finite_literal_prefixes h)"
| "finite_literal_prefixes (HConcat hs) = concat_sets [[]] (map finite_literal_prefixes hs)"
| "finite_literal_prefixes (HAlternation hs) = push_sets [] (map finite_literal_prefixes hs)"

definition finite_literal_candidate_expr :: "hir \<Rightarrow> candidate_expr option" where
  "finite_literal_candidate_expr h =
     (case finite_literal_prefixes h of
        None \<Rightarrow> None
      | Some literals \<Rightarrow> (case those (map candidate_seed literals) of None \<Rightarrow> None | Some cs \<Rightarrow> candidate_or cs))"

definition or_finite :: "hir \<Rightarrow> candidate_expr option \<Rightarrow> candidate_expr option" where
  "or_finite h e = (if e = None then finite_literal_candidate_expr h else e)"

fun required_candidate_expr :: "hir \<Rightarrow> candidate_expr option" where
  "required_candidate_expr HEmpty = or_finite HEmpty None"
| "required_candidate_expr HLook = or_finite HLook None"
| "required_candidate_expr (HClass c) = or_finite (HClass c) None"
| "required_candidate_expr (HLiteral s) = or_finite (HLiteral s) (candidate_seed s)"
| "required_candidate_expr (HCapture h) = or_finite (HCapture h) (required_candidate_expr h)"
| "required_candidate_expr (HRepetition mn mx h) =
     or_finite (HRepetition mn mx h) (if mn = 0 then None else required_candidate_expr h)"
| "required_candidate_expr (HConcat hs) =
     or_finite (HConcat hs) (candidate_and (List.map_filter id (map required_candidate_expr hs)))"
| "required_candidate_expr (HAlternation hs) = or_finite (HAlternation hs)
     (case those (map required_candidate_expr hs) of None \<Rightarrow> None | Some es \<Rightarrow> candidate_or es)"

section \<open>What a pattern spells\<close>

definition conc :: "bytes set \<Rightarrow> bytes set \<Rightarrow> bytes set" where
  "conc A B = {a @ b | a b. a \<in> A \<and> b \<in> B}"

fun spells :: "hir \<Rightarrow> bytes set" where
  \<comment> \<open>the texts a match can consist of; an assertion spells the empty text wherever it holds, and
    a class is taken to spell any text, so that less is asked of the engine\<close>
  "spells HEmpty = {[]}"
| "spells HLook = {[]}"
| "spells (HLiteral s) = {s}"
| "spells (HClass c) = UNIV"
| "spells (HCapture h) = spells h"
| "spells (HRepetition mn mx h) =
     (\<Union>k \<in> {k. mn \<le> k \<and> (case mx of None \<Rightarrow> True | Some m \<Rightarrow> k \<le> m)}. ((conc (spells h)) ^^ k) {[]})"
| "spells (HConcat hs) = foldr conc (map spells hs) {[]}"
| "spells (HAlternation hs) = \<Union> (set (map spells hs))"

definition regexlib_ok :: "regexlib \<Rightarrow> bool" where
  \<comment> \<open>the compiled pattern matches a line only where a part of it is spelled by the parsed one\<close>
  "regexlib_ok R \<longleftrightarrow> (\<forall>n pattern h m line. rx_parse R pattern = Some h \<and> rx_compile R n pattern = Some m \<and> m line
     \<longrightarrow> (\<exists>a s b. line = a @ s @ b \<and> s \<in> spells h))"

end
