(* ===== verification/SearchQuery.thy ===== *)
theory SearchQuery
  imports SearchLines SearchRegex
begin

text \<open>
  Queries (\<^verbatim>\<open>search_memory.rs\<close>, \<^verbatim>\<open>search_contract.rs\<close>): which requests the index answers and with
  which plan, the candidates of a plan, the choice among the partitions of a fuzzy pattern, and a
  search from the request to its events.  \<open>is_upper\<close> stands for \<open>char::is_uppercase\<close>, a table of the
  Unicode data.  The check behind a search that the files have not changed is not modelled: it turns
  the answer into an error or lets it through.
\<close>

section \<open>Requests\<close>

datatype case_mode = CaseSmart | CaseSensitive | CaseInsensitive

definition case_mode_from_raw :: "bytes option \<Rightarrow> case_mode" where
  "case_mode_from_raw raw =
     (let s = map to_lower (case raw of None \<Rightarrow> ''smart'' | Some r \<Rightarrow> r) in
      if s \<in> {''sensitive'', ''case-sensitive'', ''case_sensitive''} then CaseSensitive
      else if s \<in> {''insensitive'', ''ignore'', ''ignore-case'', ''ignore_case''} then CaseInsensitive
      else CaseSmart)"

definition clamp :: "nat \<Rightarrow> nat \<Rightarrow> nat \<Rightarrow> nat" where
  "clamp n lo hi = (if n < lo then lo else if n > hi then hi else n)"

definition clamp_limit :: "nat option \<Rightarrow> nat \<Rightarrow> nat \<Rightarrow> nat \<Rightarrow> nat" where
  "clamp_limit v d mn mx = clamp (case v of None \<Rightarrow> d | Some n \<Rightarrow> n) mn mx"

record raw_search_request =
  rr_pattern :: bytes
  rr_path :: "bytes option"
  rr_case :: "bytes option"
  rr_fixed_strings :: "bool option"
  rr_word_regexp :: "bool option"
  rr_glob :: "bytes list option"
  rr_hidden :: "bool option"
  rr_follow :: "bool option"
  rr_no_ignore :: "bool option"
  rr_context :: "nat option"
  rr_max_results :: "nat option"
  rr_timeout_ms :: "nat option"
  rr_fuzzy :: "nat option"

record search_request =
  sq_pattern :: bytes
  sq_root :: bytes
  sq_case_mode :: case_mode
  sq_fixed_strings :: bool
  sq_word_regexp :: bool
  sq_raw_globs :: "bytes list"
  sq_normalized_globs :: "bytes list"
  sq_hidden :: bool
  sq_follow :: bool
  sq_no_ignore :: bool
  sq_context :: nat
  sq_max_results :: nat
  sq_timeout_ms :: nat
  sq_raw_fuzzy :: "nat option"
  sq_fuzzy_distance :: "nat option"

definition unwrap_or :: "'a \<Rightarrow> 'a option \<Rightarrow> 'a" where
  "unwrap_or d v = (case v of None \<Rightarrow> d | Some x \<Rightarrow> x)"

definition normalize_globs :: "bytes list \<Rightarrow> bytes list" where
  "normalize_globs raw = dedup (sort [g \<leftarrow> map trim raw. g \<noteq> []])"

definition normalize_request :: "raw_search_request \<Rightarrow> search_request" where
  "normalize_request r =
     (let raw_globs = unwrap_or [] (rr_glob r) in
      \<lparr> sq_pattern = rr_pattern r, sq_root = unwrap_or ''.'' (rr_path r),
        sq_case_mode = case_mode_from_raw (rr_case r),
        sq_fixed_strings = unwrap_or False (rr_fixed_strings r),
        sq_word_regexp = unwrap_or False (rr_word_regexp r),
        sq_raw_globs = raw_globs, sq_normalized_globs = normalize_globs raw_globs,
        sq_hidden = unwrap_or False (rr_hidden r), sq_follow = unwrap_or False (rr_follow r),
        sq_no_ignore = unwrap_or False (rr_no_ignore r), sq_context = unwrap_or 0 (rr_context r),
        sq_max_results = clamp_limit (rr_max_results r) 100 1 10000,
        sq_timeout_ms = clamp_limit (rr_timeout_ms r) 10000 100 300000,
        sq_raw_fuzzy = rr_fuzzy r, sq_fuzzy_distance = map_option (\<lambda>f. clamp f 1 4) (rr_fuzzy r) \<rparr>)"

section \<open>Plans\<close>

definition unsupported :: "bytes \<Rightarrow> 'a searched" where
  "unsupported reason = Inl (mem_error ''unsupported_search_option'' reason)"

definition unsupported_dialect :: "bytes \<Rightarrow> 'a searched" where
  "unsupported_dialect reason = Inl (mem_error ''unsupported_regex_dialect'' reason)"

datatype regex_fallback_reason = RegexCaseInsensitive | RegexSmartCaseInsensitive | RegexMultiline | RegexBackend

fun fallback_error_type :: "regex_fallback_reason \<Rightarrow> bytes" where
  "fallback_error_type RegexCaseInsensitive = ''unsupported_search_option''"
| "fallback_error_type RegexSmartCaseInsensitive = ''unsupported_search_option''"
| "fallback_error_type RegexMultiline = ''unsupported_regex_dialect''"
| "fallback_error_type RegexBackend = ''unsupported_regex_dialect''"

fun fallback_as_str :: "regex_fallback_reason \<Rightarrow> bytes" where
  "fallback_as_str RegexCaseInsensitive = ''unsupported_regex_case_insensitive''"
| "fallback_as_str RegexSmartCaseInsensitive = ''unsupported_regex_smart_case_insensitive''"
| "fallback_as_str RegexMultiline = ''unsupported_multiline_regex''"
| "fallback_as_str RegexBackend = ''unsupported_regex_backend''"

definition regex_fallback :: "regex_fallback_reason \<Rightarrow> 'a searched" where
  "regex_fallback r = Inl (mem_error (fallback_error_type r) (fallback_as_str r))"

definition is_ascii :: "bytes \<Rightarrow> bool" where
  "is_ascii s = list_all (\<lambda>b. bval b < 128) s"

definition contains_uppercase_letter :: "(bytes \<Rightarrow> bool) \<Rightarrow> bytes \<Rightarrow> bool" where
  "contains_uppercase_letter is_upper pattern = list_ex is_upper (chars_of pattern)"

definition literal_case_for_request :: "(bytes \<Rightarrow> bool) \<Rightarrow> search_request \<Rightarrow> literal_case searched" where
  "literal_case_for_request is_upper req =
     (case sq_case_mode req of
        CaseSensitive \<Rightarrow> Inr Sensitive
      | CaseInsensitive \<Rightarrow>
          if sq_fixed_strings req \<or> is_ascii (sq_pattern req) then Inr AsciiInsensitive
          else unsupported ''unsupported_unicode_regex_case_insensitive''
      | CaseSmart \<Rightarrow>
          if contains_uppercase_letter is_upper (sq_pattern req) then Inr Sensitive
          else if sq_fixed_strings req \<or> is_ascii (sq_pattern req) then Inr AsciiInsensitive
          else unsupported ''unsupported_unicode_regex_smart_case'')"

definition has_line_break :: "bytes \<Rightarrow> bool" where
  "has_line_break s \<longleftrightarrow> LF \<in> set s \<or> CR \<in> set s"

definition eligible_short_literal_plan :: "search_request \<Rightarrow> literal_case \<Rightarrow> query_plan searched" where
  "eligible_short_literal_plan req lcase =
     (if \<not> sq_fixed_strings req \<or> sq_word_regexp req \<or> has_line_break (sq_pattern req)
      then unsupported ''query_without_required_trigram''
      else if lcase = AsciiInsensitive \<and> \<not> is_ascii (sq_pattern req)
      then unsupported ''unsupported_non_ascii_short_literal_case''
      else Inr (ShortExact (sq_pattern req) lcase))"

definition classify_regex_case :: "(bytes \<Rightarrow> bool) \<Rightarrow> search_request \<Rightarrow> unit searched" where
  "classify_regex_case is_upper req =
     (case sq_case_mode req of
        CaseSensitive \<Rightarrow> Inr ()
      | CaseInsensitive \<Rightarrow> regex_fallback RegexCaseInsensitive
      | CaseSmart \<Rightarrow> if contains_uppercase_letter is_upper (sq_pattern req) then Inr ()
          else regex_fallback RegexSmartCaseInsensitive)"

definition classify_regex_surface_syntax :: "bytes \<Rightarrow> unit searched" where
  "classify_regex_surface_syntax pattern =
     (if has_inline_regex_construct pattern then regex_fallback RegexBackend
      else if has_line_break pattern then regex_fallback RegexMultiline
      else if has_line_break_escape pattern then regex_fallback RegexMultiline
      else Inr ())"

definition classify_regex_dialect :: "regexlib \<Rightarrow> (bytes \<Rightarrow> bool) \<Rightarrow> search_request \<Rightarrow> hir searched" where
  "classify_regex_dialect R is_upper req =
     bindE (classify_regex_case is_upper req) (\<lambda>_.
     bindE (classify_regex_surface_syntax (sq_pattern req)) (\<lambda>_.
     case rx_parse R (sq_pattern req) of
       None \<Rightarrow> regex_fallback RegexBackend
     | Some h \<Rightarrow> if hir_can_match_lf h then regex_fallback RegexMultiline else Inr h))"

definition eligible_regex_plan :: "regexlib \<Rightarrow> (bytes \<Rightarrow> bool) \<Rightarrow> limits \<Rightarrow> search_request \<Rightarrow> query_plan searched" where
  "eligible_regex_plan R is_upper L req =
     bindE (classify_regex_dialect R is_upper req) (\<lambda>h.
     case required_candidate_expr h of
       None \<Rightarrow> unsupported_dialect ''query_without_required_trigram''
     | Some e \<Rightarrow>
         (case rx_compile R (regex_size_limit_bytes L) (sq_pattern req) of
            None \<Rightarrow> regex_fallback RegexBackend
          | Some matcher \<Rightarrow> Inr (RegexPlan matcher e)))"

definition seed_plan :: "bytes list \<Rightarrow> nat \<times> fuzzy_seed_partition \<Rightarrow> fuzzy_seed_plan" where
  "seed_plan pattern = (\<lambda>(i, p). \<lparr> sp_partition_index = i,
     sp_seeds = fuzzy_candidate_seeds_from_partition pattern p,
     sp_verifier_seeds = fuzzy_verifier_seeds_from_partition pattern p \<rparr>)"

definition eligible_fuzzy_plan :: "limits \<Rightarrow> search_request \<Rightarrow> nat \<Rightarrow> query_plan searched" where
  "eligible_fuzzy_plan L req distance =
     (if \<not> sq_fixed_strings req then unsupported_dialect ''unsupported_regex_fuzzy''
      else if sq_word_regexp req then unsupported ''unsupported_word_fuzzy''
      else if sq_follow req then unsupported ''unsupported_fuzzy_follow''
      else if sq_case_mode req \<noteq> CaseSensitive then unsupported ''unsupported_case_fuzzy''
      else if \<not> (1 \<le> distance \<and> distance \<le> 4) then unsupported ''unsupported_fuzzy_mode''
      else if has_line_break (sq_pattern req) then unsupported ''unsupported_multiline_fuzzy''
      else if char_count_exceeds (chars_of (sq_pattern req)) (max_fuzzy_pattern_chars L)
      then Inl (mem_error ''resource_limit_exceeded'' ''max_fuzzy_pattern_chars_exceeded'')
      else if length (sq_pattern req) < (distance + 1) * 3 then unsupported ''fuzzy_pattern_too_short''
      else
        let pattern = chars_of (sq_pattern req); partitions = fuzzy_seed_partitions pattern distance in
        if partitions = [] then unsupported ''fuzzy_pattern_unseedable''
        else Inr (Fuzzy pattern distance (map (seed_plan pattern) (enumerate 0 partitions))))"

definition eligible_query_plan :: "regexlib \<Rightarrow> (bytes \<Rightarrow> bool) \<Rightarrow> limits \<Rightarrow> search_request \<Rightarrow> query_plan searched" where
  "eligible_query_plan R is_upper L req =
     (case sq_raw_fuzzy req of
        Some distance \<Rightarrow> eligible_fuzzy_plan L req distance
      | None \<Rightarrow>
          if sq_word_regexp req \<and> \<not> sq_fixed_strings req then unsupported ''unsupported_word_regexp''
          else if sq_word_regexp req \<and> \<not> is_ascii (sq_pattern req) then unsupported ''unsupported_word_regexp''
          else if sq_follow req then unsupported ''unsupported_follow''
          else if \<not> sq_fixed_strings req \<and> \<not> is_plain_regex_literal (sq_pattern req)
          then eligible_regex_plan R is_upper L req
          else
            bindE (literal_case_for_request is_upper req) (\<lambda>lcase.
            if length (sq_pattern req) < 3 then eligible_short_literal_plan req lcase
            else if has_line_break (sq_pattern req) then unsupported ''unsupported_multiline_literal''
            else if sq_word_regexp req then
              (if is_supported_ascii_word_literal (sq_pattern req) then Inr (WordExact (sq_pattern req) lcase)
               else unsupported ''unsupported_word_regexp'')
            else Inr (Exact (sq_pattern req) lcase)))"

definition validate_plan_limits :: "query_plan \<Rightarrow> limits \<Rightarrow> unit searched" where
  "validate_plan_limits plan L =
     (case plan of
        Fuzzy pattern distance plans \<Rightarrow>
          requireE (length pattern \<le> max_fuzzy_pattern_chars L)
            (mem_error ''resource_limit_exceeded'' ''max_fuzzy_pattern_chars_exceeded'')
      | _ \<Rightarrow> Inr ())"

definition requires_utf8_scope :: "query_plan \<Rightarrow> bool" where
  "requires_utf8_scope plan = (case plan of RegexPlan m e \<Rightarrow> True | Fuzzy p d ps \<Rightarrow> True | _ \<Rightarrow> False)"

definition ensure_snapshot_supports_query :: "index_snapshot \<Rightarrow> bool \<Rightarrow> unit searched" where
  "ensure_snapshot_supports_query sn require_utf8 =
     requireE (\<not> (require_utf8 \<and> \<not> sn_all_content_utf8 sn)) (mem_error ''search_index_incomplete'' ''fuzzy_scope_not_utf8'')"

section \<open>Short literals\<close>

fun scan_short_lines ::
  "memlib \<Rightarrow> limits \<Rightarrow> bytes \<Rightarrow> literal_case \<Rightarrow> document \<Rightarrow> nat \<Rightarrow> line_range list \<Rightarrow> (bool \<times> nat) searched" where
  \<comment> \<open>whether a line of the document matches, and the number of lines looked at so far\<close>
  "scan_short_lines M L literal lcase doc scanned [] = Inr (False, scanned)"
| "scan_short_lines M L literal lcase doc scanned (r # rs) =
     bindE (requireE (scanned + 1 \<le> usize_max \<and> scanned + 1 \<le> max_short_literal_scan_lines L)
       (mem_error ''resource_limit_exceeded'' ''max_short_literal_scan_lines_exceeded'')) (\<lambda>_.
     if (case lcase of
          Sensitive \<Rightarrow> finder_matches M literal (slice (dc_content doc) r)
        | AsciiInsensitive \<Rightarrow> contains_subslice_ascii_case_insensitive M (slice (dc_content doc) r) literal)
     then Inr (True, scanned + 1)
     else scan_short_lines M L literal lcase doc (scanned + 1) rs)"

fun scan_short_docs ::
  "memlib \<Rightarrow> limits \<Rightarrow> bytes \<Rightarrow> literal_case \<Rightarrow> nat \<Rightarrow> document list \<Rightarrow> nat \<Rightarrow> doc_id list \<Rightarrow> doc_id list searched" where
  "scan_short_docs M L literal lcase i [] scanned cs = Inr cs"
| "scan_short_docs M L literal lcase i (doc # docs) scanned cs =
     bindE (scan_short_lines M L literal lcase doc scanned (dc_lines doc)) (\<lambda>(found, n).
     if found then
       bindE (doc_id_from_index i) (\<lambda>d. bindE (push_candidate cs d (max_candidates L)) (\<lambda>cs1.
         scan_short_docs M L literal lcase (i + 1) docs n cs1))
     else scan_short_docs M L literal lcase (i + 1) docs n cs)"

definition candidates_for_short_literal_direct_scan ::
  "memlib \<Rightarrow> index_snapshot \<Rightarrow> bytes \<Rightarrow> literal_case \<Rightarrow> limits \<Rightarrow> doc_id list searched" where
  "candidates_for_short_literal_direct_scan M sn literal lcase L =
     scan_short_docs M L literal lcase 0 (sn_documents sn) 0 []"

section \<open>Fuzzy seeds\<close>

definition unique_fuzzy_candidate_seeds :: "bytes list \<Rightarrow> bytes list" where
  "unique_fuzzy_candidate_seeds seeds = dedup (sort seeds)"

fun seed_sets :: "index_snapshot \<Rightarrow> nat \<Rightarrow> bytes list \<Rightarrow> (bytes \<times> doc_id list) list searched" where
  \<comment> \<open>the cache of candidates by seed holds what is computed here\<close>
  "seed_sets sn mx [] = Inr []"
| "seed_sets sn mx (s # ss) =
     bindE (candidates_for_literal sn s Sensitive mx) (\<lambda>cs. bindE (seed_sets sn mx ss) (\<lambda>rest. Inr ((s, cs) # rest)))"

fun union_all :: "nat \<Rightarrow> doc_id list \<Rightarrow> doc_id list list \<Rightarrow> doc_id list searched" where
  "union_all mx cs [] = Inr cs"
| "union_all mx cs (s # ss) = bindE (union_postings cs s mx) (\<lambda>cs1. union_all mx cs1 ss)"

definition fuzzy_seed_selection_for_seed_plan ::
  "index_snapshot \<Rightarrow> limits \<Rightarrow> nat \<Rightarrow> fuzzy_seed_plan \<Rightarrow> fuzzy_seed_selection searched" where
  "fuzzy_seed_selection_for_seed_plan sn L partition_count plan =
     bindE (seed_sets sn (max_candidates L) (unique_fuzzy_candidate_seeds (sp_seeds plan))) (\<lambda>sets0.
     let sets = sort_key (\<lambda>(seed, cs). (length cs, - int (length seed), seed)) sets0 in
     bindE (union_all (max_candidates L) [] (map snd sets)) (\<lambda>cs.
     Inr \<lparr> fs_partition_count = partition_count, fs_partition_index = sp_partition_index plan,
       fs_candidate_seeds = map fst sets, fs_verifier_seeds = sp_verifier_seeds plan, fs_candidates = cs,
       fs_duplicate_seed_count = length (sp_seeds plan) - length sets,
       fs_seed_candidate_counts = map (\<lambda>(seed, cs). length cs) sets,
       fs_seed_byte_lengths = map (\<lambda>(seed, cs). length seed) sets \<rparr>))"

definition max_or_0 :: "nat list \<Rightarrow> nat" where "max_or_0 ns = (if ns = [] then 0 else Max (set ns))"
definition min_or_0 :: "nat list \<Rightarrow> nat" where "min_or_0 ns = (if ns = [] then 0 else Min (set ns))"

definition fuzzy_seed_plan_score :: "fuzzy_seed_selection \<Rightarrow> nat \<times> nat \<times> nat \<times> nat \<times> int \<times> int \<times> nat" where
  \<comment> \<open>the derived order of the fields, the reversed ones negated\<close>
  "fuzzy_seed_plan_score s =
     (length (fs_candidates s), max_or_0 (fs_seed_candidate_counts s), length (fs_candidate_seeds s),
      fs_duplicate_seed_count s, - int (min_or_0 (fs_seed_byte_lengths s)), - int (max_or_0 (fs_seed_byte_lengths s)),
      fs_partition_index s)"

fun select_seed_plan_loop ::
  "index_snapshot \<Rightarrow> limits \<Rightarrow> nat \<Rightarrow> fuzzy_seed_plan list \<Rightarrow> fuzzy_seed_selection option \<Rightarrow> bool
   \<Rightarrow> fuzzy_seed_selection searched" where
  "select_seed_plan_loop sn L n [] best saw =
     (case best of
        Some s \<Rightarrow> Inr s
      | None \<Rightarrow> if saw then Inl max_candidates_exceeded_error
          else Inl (mem_error ''unsupported_search_option'' ''fuzzy_pattern_unseedable''))"
| "select_seed_plan_loop sn L n (p # ps) best saw =
     (case fuzzy_seed_selection_for_seed_plan sn L n p of
        Inl err \<Rightarrow> if err = max_candidates_exceeded_error then select_seed_plan_loop sn L n ps best True else Inl err
      | Inr s \<Rightarrow>
          if fs_candidates s = [] then Inr s
          else select_seed_plan_loop sn L n ps
            (case best of
               Some b \<Rightarrow> if fuzzy_seed_plan_score b \<le> fuzzy_seed_plan_score s then Some b else Some s
             | None \<Rightarrow> Some s) saw)"

definition select_fuzzy_seed_plan :: "index_snapshot \<Rightarrow> query_plan \<Rightarrow> limits \<Rightarrow> fuzzy_seed_selection searched" where
  "select_fuzzy_seed_plan sn plan L =
     (case plan of
        Fuzzy pattern distance plans \<Rightarrow> select_seed_plan_loop sn L (length plans) plans None False
      | _ \<Rightarrow> Inl (mem_error ''internal_error'' ''internal_error''))"

definition select_fuzzy_seed_plan_for_query ::
  "index_snapshot \<Rightarrow> query_plan \<Rightarrow> limits \<Rightarrow> fuzzy_seed_selection option searched" where
  "select_fuzzy_seed_plan_for_query sn plan L =
     (case plan of
        Fuzzy pattern distance plans \<Rightarrow> bindE (select_fuzzy_seed_plan sn plan L) (\<lambda>s. Inr (Some s))
      | _ \<Rightarrow> Inr None)"

section \<open>A search\<close>

definition candidates_for_plan :: "memlib \<Rightarrow> index_snapshot \<Rightarrow> query_plan \<Rightarrow> limits \<Rightarrow> doc_id list searched" where
  "candidates_for_plan M sn plan L =
     (case plan of
        Exact literal lcase \<Rightarrow> candidates_for_literal sn literal lcase (max_candidates L)
      | ShortExact literal lcase \<Rightarrow> candidates_for_short_literal_direct_scan M sn literal lcase L
      | WordExact literal lcase \<Rightarrow> candidates_for_literal sn literal lcase (max_candidates L)
      | RegexPlan m e \<Rightarrow> candidates_for_candidate_expr sn e (max_candidates L)
      | Fuzzy pattern distance plans \<Rightarrow> bindE (select_fuzzy_seed_plan sn plan L) (\<lambda>s. Inr (fs_candidates s)))"

definition plan_candidate_estimate :: "index_snapshot \<Rightarrow> query_plan \<Rightarrow> limits \<Rightarrow> nat searched" where
  "plan_candidate_estimate sn plan L =
     (case plan of
        Exact literal lcase \<Rightarrow> Inr (literal_candidate_estimate sn literal lcase)
      | ShortExact literal lcase \<Rightarrow> Inr (length (sn_documents sn))
      | WordExact literal lcase \<Rightarrow> Inr (literal_candidate_estimate sn literal lcase)
      | RegexPlan m e \<Rightarrow> Inr (candidate_expr_estimated_docs sn e)
      | Fuzzy pattern distance plans \<Rightarrow> bindE (select_fuzzy_seed_plan sn plan L) (\<lambda>s. Inr (length (fs_candidates s))))"

definition run_plan :: "memlib \<Rightarrow> limits \<Rightarrow> index_snapshot \<Rightarrow> query_plan \<Rightarrow> nat \<Rightarrow> nat \<Rightarrow> verified searched" where
  \<comment> \<open>the two phases of a search on a snapshot\<close>
  "run_plan M L sn plan max_results context =
     bindE (select_fuzzy_seed_plan_for_query sn plan L) (\<lambda>sel.
     bindE (case sel of None \<Rightarrow> plan_candidate_estimate sn plan L | Some s \<Rightarrow> Inr (length (fs_candidates s))) (\<lambda>estimate.
     bindE (if estimate = 0 then Inr []
            else (case sel of Some s \<Rightarrow> Inr (fs_candidates s) | None \<Rightarrow> candidates_for_plan M sn plan L)) (\<lambda>candidates.
     verify_and_render M sn candidates plan sel max_results context L)))"

definition memory_search ::
  "memlib \<Rightarrow> regexlib \<Rightarrow> (bytes \<Rightarrow> bool) \<Rightarrow> limits \<Rightarrow> search_request \<Rightarrow> index_snapshot searched \<Rightarrow> verified searched" where
  \<comment> \<open>\<open>snapshot\<close> is what looking up or building the index gives\<close>
  "memory_search M R is_upper L req snapshot =
     bindE (eligible_query_plan R is_upper L req) (\<lambda>plan.
     bindE (validate_plan_limits plan L) (\<lambda>_.
     bindE snapshot (\<lambda>sn.
     bindE (ensure_snapshot_supports_query sn (requires_utf8_scope plan)) (\<lambda>_.
     run_plan M L sn plan (sq_max_results req) (sq_context req)))))"

definition exit_code :: "search_event list \<Rightarrow> nat" where
  "exit_code events = (if list_ex ev_is_match events then 0 else 1)"

end
