(* ===== verification/SearchCache.thy ===== *)
theory SearchCache
  imports SearchQuery "HOL-Library.AList"
begin

text \<open>
  The cache of indexes that all searches share (\<^verbatim>\<open>search_memory.rs\<close>): the life of an entry, the order of
  use and eviction, who builds an index and who waits for it, and the validation behind a search.  A
  hash map is an association list with distinct keys.  An \<open>Arc\<close> carries its address, which is what
  \<open>Arc::ptr_eq\<close> compares, and the generation of its snapshot; a condition variable is a number.  The
  searches at work are a step relation: one step is what a search does under the lock of the manager,
  and what building an index or looking at the files gives is not determined.
\<close>

section \<open>Entries\<close>

record index_key =
  ik_root :: bytes
  ik_hidden :: bool
  ik_follow :: bool
  ik_no_ignore :: bool
  ik_globs :: "bytes list"

record arc =
  ar_address :: nat
  ar_generation :: nat
  ar_snapshot :: index_snapshot

datatype entry_state = Disabled | Cold | Building | Ready | Refreshing | Unavailable

definition has_usable_snapshot :: "entry_state \<Rightarrow> bool" where
  "has_usable_snapshot st \<longleftrightarrow> st = Ready \<or> st = Refreshing"

record index_entry =
  ie_state :: entry_state
  ie_snapshot :: "arc option"
  ie_generation :: "nat option"
  ie_last_error :: "mem_error option"
  ie_last_error_type :: "bytes option"
  ie_last_fallback_reason :: "bytes option"
  ie_queries :: nat
  ie_file_set_certified :: bool

definition timeout_error :: mem_error where
  "timeout_error = mem_error ''query_timeout'' ''query_timeout''"

definition cancelled_error :: mem_error where
  "cancelled_error = mem_error ''cancelled'' ''cancelled''"

definition is_per_request_failure :: "mem_error \<Rightarrow> bool" where
  \<comment> \<open>an error whose flag \<open>timed_out\<close> is set has the type \<open>query_timeout\<close>\<close>
  "is_per_request_failure e \<longleftrightarrow> me_type e = ''cancelled'' \<or> me_type e = ''query_timeout''"

definition entry_cold :: index_entry where
  "entry_cold = \<lparr> ie_state = Cold, ie_snapshot = None, ie_generation = None, ie_last_error = None,
     ie_last_error_type = None, ie_last_fallback_reason = None, ie_queries = 0, ie_file_set_certified = False \<rparr>"

definition entry_begin_build :: "nat \<Rightarrow> index_entry \<Rightarrow> index_entry" where
  "entry_begin_build g e = e\<lparr> ie_state := Building, ie_snapshot := None, ie_generation := Some g, ie_last_error := None,
     ie_last_error_type := None, ie_last_fallback_reason := None, ie_queries := 0, ie_file_set_certified := False \<rparr>"

definition entry_publish :: "arc \<Rightarrow> index_entry \<Rightarrow> index_entry" where
  "entry_publish a e = e\<lparr> ie_state := Ready, ie_generation := Some (ar_generation a), ie_snapshot := Some a,
     ie_last_error := None, ie_last_error_type := None, ie_last_fallback_reason := None, ie_queries := 0,
     ie_file_set_certified := False \<rparr>"

definition usable_snapshot :: "index_entry \<Rightarrow> arc option" where
  "usable_snapshot e = (if has_usable_snapshot (ie_state e) then ie_snapshot e else None)"

definition has_ready_snapshot :: "index_entry \<Rightarrow> bool" where
  "has_ready_snapshot e \<longleftrightarrow> ie_snapshot e \<noteq> None \<and> has_usable_snapshot (ie_state e)"

definition current_snapshot_is :: "arc \<Rightarrow> index_entry \<Rightarrow> bool" where
  "current_snapshot_is a e \<longleftrightarrow> (case ie_snapshot e of None \<Rightarrow> False | Some b \<Rightarrow> ar_address b = ar_address a)"

definition mark_refreshing :: "index_entry \<Rightarrow> index_entry" where
  "mark_refreshing e = (if has_ready_snapshot e then e\<lparr> ie_state := Refreshing \<rparr> else e)"

definition TARGETED_FRESHNESS_FULL_SCAN_INTERVAL_QUERIES :: nat where
  "TARGETED_FRESHNESS_FULL_SCAN_INTERVAL_QUERIES = 32"

definition full_validation_due :: "index_entry \<Rightarrow> bool" where
  "full_validation_due e \<longleftrightarrow> TARGETED_FRESHNESS_FULL_SCAN_INTERVAL_QUERIES \<le> ie_queries e"

definition mark_ready_after_validation :: "arc \<Rightarrow> bool \<Rightarrow> bool \<Rightarrow> index_entry \<Rightarrow> index_entry" where
  "mark_ready_after_validation a full_scope_ran newly_certified e =
     (if current_snapshot_is a e then
        e\<lparr> ie_state := Ready,
           ie_file_set_certified := (if newly_certified then True else ie_file_set_certified e),
           ie_queries := (if full_scope_ran then 0 else saturating_add (ie_queries e) 1) \<rparr>
      else e)"

definition mark_unavailable :: "mem_error \<Rightarrow> index_entry \<Rightarrow> index_entry" where
  "mark_unavailable err e = e\<lparr> ie_state := Unavailable, ie_snapshot := None, ie_last_error := Some err,
     ie_last_error_type := Some (me_type err), ie_last_fallback_reason := Some (me_reason err), ie_queries := 0,
     ie_file_set_certified := False \<rparr>"

definition clear_failed_build :: "index_entry \<Rightarrow> index_entry" where
  "clear_failed_build e = e\<lparr> ie_state := Cold, ie_snapshot := None, ie_generation := None, ie_last_error := None,
     ie_last_error_type := None, ie_last_fallback_reason := None, ie_queries := 0, ie_file_set_certified := False \<rparr>"

section \<open>The manager\<close>

type_synonym entries = "(index_key \<times> index_entry) list"

record manager =
  im_next_generation :: nat
  im_entries :: entries
  im_access_order :: "index_key list"
  im_evictions :: nat
  im_in_progress :: "index_key \<rightharpoonup> nat"

definition manager_new :: manager where
  "manager_new = \<lparr> im_next_generation = 1, im_entries = [], im_access_order = [], im_evictions = 0,
     im_in_progress = Map.empty \<rparr>"

record cache_limits =
  cl_max_entries :: nat
  cl_max_bytes :: "nat option"

definition cache_limits_from :: "nat \<Rightarrow> nat \<Rightarrow> cache_limits" where
  \<comment> \<open>of the two values of the environment; no bytes means no limit\<close>
  "cache_limits_from entries size_limit = \<lparr> cl_max_entries = max entries 1,
     cl_max_bytes = (if size_limit = 0 then None else Some size_limit) \<rparr>"

definition entry_of :: "manager \<Rightarrow> index_key \<Rightarrow> index_entry option" where
  "entry_of m k = map_of (im_entries m) k"

definition state_for :: "manager \<Rightarrow> index_key \<Rightarrow> entry_state" where
  "state_for m k = (case entry_of m k of None \<Rightarrow> Cold | Some e \<Rightarrow> ie_state e)"

definition touch :: "index_key \<Rightarrow> manager \<Rightarrow> manager" where
  "touch k m = m\<lparr> im_access_order := [x \<leftarrow> im_access_order m. x \<noteq> k] @ [k] \<rparr>"

definition ready_entry_count :: "manager \<Rightarrow> nat" where
  "ready_entry_count m = length [e \<leftarrow> map snd (im_entries m). has_ready_snapshot e]"

definition entry_cache_bytes :: "index_entry \<Rightarrow> nat" where
  "entry_cache_bytes e =
     (if \<not> has_ready_snapshot e then 0
      else case ie_snapshot e of None \<Rightarrow> 0 | Some a \<Rightarrow> sn_indexed_bytes (ar_snapshot a))"

definition ready_cache_bytes :: "manager \<Rightarrow> nat" where
  "ready_cache_bytes m = fold (\<lambda>n tot. saturating_add tot n) (map (entry_cache_bytes \<circ> snd) (im_entries m)) 0"

record telemetry =
  te_entries :: nat
  te_bytes :: nat
  te_evictions :: nat
  te_max_entries :: nat
  te_max_bytes :: "nat option"

definition cache_telemetry :: "cache_limits \<Rightarrow> manager \<Rightarrow> telemetry" where
  "cache_telemetry L m = \<lparr> te_entries = ready_entry_count m, te_bytes = ready_cache_bytes m,
     te_evictions = im_evictions m, te_max_entries = cl_max_entries L, te_max_bytes = cl_max_bytes L \<rparr>"

definition ready_key :: "manager \<Rightarrow> index_key \<Rightarrow> bool" where
  "ready_key m k \<longleftrightarrow> (case entry_of m k of None \<Rightarrow> False | Some e \<Rightarrow> has_ready_snapshot e)"

definition reconcile_access_order :: "manager \<Rightarrow> manager" where
  "reconcile_access_order m =
     (let order = [k \<leftarrow> im_access_order m. ready_key m k];
          missing = [k \<leftarrow> map fst [(k, e) \<leftarrow> im_entries m. has_ready_snapshot e]. k \<notin> set order]
      in m\<lparr> im_access_order := order @ missing \<rparr>)"

definition exceeds_cache_limits :: "cache_limits \<Rightarrow> manager \<Rightarrow> bool" where
  "exceeds_cache_limits L m \<longleftrightarrow> ready_entry_count m > cl_max_entries L
     \<or> (case cl_max_bytes L of None \<Rightarrow> False | Some mx \<Rightarrow> ready_cache_bytes m > mx)"

definition evict_entry :: "index_key \<Rightarrow> manager \<Rightarrow> manager" where
  "evict_entry k m =
     (if ready_key m k then m\<lparr> im_entries := AList.delete k (im_entries m), im_evictions := saturating_add (im_evictions m) 1 \<rparr>
      else m)"

fun evict_loop :: "cache_limits \<Rightarrow> index_key list \<Rightarrow> manager \<Rightarrow> manager" where
  \<comment> \<open>over the order of use, the least recently used first\<close>
  "evict_loop L [] m = m\<lparr> im_access_order := [] \<rparr>"
| "evict_loop L (k # ks) m =
     (if exceeds_cache_limits L m then evict_loop L ks (evict_entry k (m\<lparr> im_access_order := ks \<rparr>))
      else m\<lparr> im_access_order := k # ks \<rparr>)"

definition evict_to_capacity :: "cache_limits \<Rightarrow> manager \<Rightarrow> manager" where
  "evict_to_capacity L m =
     (if \<not> exceeds_cache_limits L m then m
      else let m1 = reconcile_access_order m in evict_loop L (im_access_order m1) m1)"

definition cached_snapshot :: "cache_limits \<Rightarrow> index_key \<Rightarrow> manager \<Rightarrow> (arc \<times> manager) option" where
  "cached_snapshot L k m =
     (case Option.bind (entry_of m k) usable_snapshot of
        None \<Rightarrow> None
      | Some a \<Rightarrow> Some (a, evict_to_capacity L (touch k m)))"

definition put_entry :: "index_key \<Rightarrow> index_entry \<Rightarrow> manager \<Rightarrow> manager" where
  "put_entry k e m = m\<lparr> im_entries := AList.update k e (im_entries m) \<rparr>"

definition entry_or_cold :: "manager \<Rightarrow> index_key \<Rightarrow> index_entry" where
  "entry_or_cold m k = (case entry_of m k of None \<Rightarrow> entry_cold | Some e \<Rightarrow> e)"

definition begin_build :: "index_key \<Rightarrow> nat \<Rightarrow> manager \<Rightarrow> nat \<times> manager" where
  \<comment> \<open>\<open>condvar\<close> is a new condition variable, for a key that has none\<close>
  "begin_build k condvar m =
     (let g = im_next_generation m;
          m1 = m\<lparr> im_next_generation := max (saturating_add g 1) 1 \<rparr>;
          m2 = put_entry k (entry_begin_build g (entry_or_cold m k)) m1
      in (g, m2\<lparr> im_in_progress := (case im_in_progress m k of
            None \<Rightarrow> (im_in_progress m)(k \<mapsto> condvar) | Some c \<Rightarrow> im_in_progress m) \<rparr>))"

definition take_in_progress_condvar :: "index_key \<Rightarrow> manager \<Rightarrow> nat option \<times> manager" where
  "take_in_progress_condvar k m = (im_in_progress m k, m\<lparr> im_in_progress := (im_in_progress m)(k := None) \<rparr>)"

definition publish_snapshot_if_absent :: "cache_limits \<Rightarrow> index_key \<Rightarrow> arc \<Rightarrow> manager \<Rightarrow> arc \<times> manager" where
  "publish_snapshot_if_absent L k a m =
     (case cached_snapshot L k m of
        Some (b, m1) \<Rightarrow> (b, m1)
      | None \<Rightarrow> (a, evict_to_capacity L (touch k (put_entry k (entry_publish a (entry_or_cold m k)) m))))"

definition record_build_failure :: "index_key \<Rightarrow> nat \<Rightarrow> mem_error \<Rightarrow> manager \<Rightarrow> manager" where
  "record_build_failure k g err m =
     (case entry_of m k of
        Some e \<Rightarrow>
          if ie_state e = Building \<and> ie_generation e = Some g then
            put_entry k (if is_per_request_failure err then clear_failed_build e else mark_unavailable err e) m
          else m
      | None \<Rightarrow> m)"

record admission =
  ad_force_full_scope :: bool
  ad_file_set_certified :: bool

definition begin_validation :: "index_key \<Rightarrow> arc \<Rightarrow> manager \<Rightarrow> admission \<times> manager" where
  "begin_validation k a m =
     (case entry_of m k of
        Some e \<Rightarrow>
          if current_snapshot_is a e then
            (\<lparr> ad_force_full_scope = full_validation_due e, ad_file_set_certified = ie_file_set_certified e \<rparr>,
             put_entry k (mark_refreshing e) m)
          else (\<lparr> ad_force_full_scope = True, ad_file_set_certified = False \<rparr>, m)
      | None \<Rightarrow> (\<lparr> ad_force_full_scope = True, ad_file_set_certified = False \<rparr>, m))"

definition complete_validation :: "index_key \<Rightarrow> arc \<Rightarrow> bool \<Rightarrow> bool \<Rightarrow> manager \<Rightarrow> entry_state \<times> manager" where
  "complete_validation k a full_scope_ran newly_certified m =
     (let m1 = (case entry_of m k of
          Some e \<Rightarrow> put_entry k (mark_ready_after_validation a full_scope_ran newly_certified e) m
        | None \<Rightarrow> m)
      in (state_for m1 k, m1))"

definition record_validation_failure :: "index_key \<Rightarrow> arc \<Rightarrow> mem_error \<Rightarrow> manager \<Rightarrow> manager" where
  "record_validation_failure k a err m =
     (case entry_of m k of
        Some e \<Rightarrow>
          if current_snapshot_is a e then
            (put_entry k (mark_unavailable err e) m)\<lparr> im_access_order := [x \<leftarrow> im_access_order m. x \<noteq> k] \<rparr>
          else m
      | None \<Rightarrow> m)"

end
