(* ===== verification/SearchShared.thy ===== *)
theory SearchShared
  imports SearchCache
begin

text \<open>
  Searches that share the cache of indexes (\<^verbatim>\<open>search_memory.rs\<close>): the validation of a snapshot behind a
  search, from what looking at the files gives, and the step relation of all searches at work.
\<close>

section \<open>Validation\<close>

record freshness_stats =
  fv_result_files_checked :: nat
  fv_indexed_files_checked :: nat
  fv_directories_checked :: nat
  fv_full_scope_scans :: nat

definition stats_combine :: "freshness_stats \<Rightarrow> freshness_stats \<Rightarrow> freshness_stats" where
  "stats_combine a b = \<lparr>
     fv_result_files_checked = saturating_add (fv_result_files_checked a) (fv_result_files_checked b),
     fv_indexed_files_checked = saturating_add (fv_indexed_files_checked a) (fv_indexed_files_checked b),
     fv_directories_checked = saturating_add (fv_directories_checked a) (fv_directories_checked b),
     fv_full_scope_scans = saturating_add (fv_full_scope_scans a) (fv_full_scope_scans b) \<rparr>"

definition no_stats :: freshness_stats where
  "no_stats = \<lparr> fv_result_files_checked = 0, fv_indexed_files_checked = 0, fv_directories_checked = 0,
     fv_full_scope_scans = 0 \<rparr>"

text \<open>What the files are now: the paths that are found again, and for a document what its stamp and its
  contents are.\<close>

record observation =
  ob_matches_without_content :: bool
  ob_metadata_len :: nat
  ob_content :: "bytes option"

record scope_now =
  sc_paths :: "bytes list searched"
  sc_observe :: "document \<Rightarrow> observation option"

definition file_changed_error :: "bytes \<Rightarrow> mem_error" where
  "file_changed_error reason = mem_error ''file_changed_during_verification'' reason"

definition validate_result_file_content_matches :: "document \<Rightarrow> observation \<Rightarrow> unit searched" where
  "validate_result_file_content_matches doc ob =
     (case ob_content ob of
        None \<Rightarrow> Inl (file_changed_error ''file_changed_during_verification'')
      | Some content \<Rightarrow>
          requireE (ob_metadata_len ob = length content \<and> content = dc_content doc)
            (file_changed_error ''file_changed_during_verification''))"

definition validate_indexed_document_fresh :: "scope_now \<Rightarrow> document \<Rightarrow> unit searched" where
  "validate_indexed_document_fresh W doc =
     (case sc_observe W doc of
        None \<Rightarrow> Inl (file_changed_error ''file_changed_during_verification'')
      | Some ob \<Rightarrow>
          if ob_matches_without_content ob then Inr () else validate_result_file_content_matches doc ob)"

fun validate_each :: "scope_now \<Rightarrow> document list \<Rightarrow> unit searched" where
  "validate_each W [] = Inr ()"
| "validate_each W (doc # docs) = bindE (validate_indexed_document_fresh W doc) (\<lambda>_. validate_each W docs)"

function doc_chunks :: "nat \<Rightarrow> document list \<Rightarrow> document list list" where
  "doc_chunks n docs = (if docs = [] \<or> n = 0 then [] else take n docs # doc_chunks n (drop n docs))"
  by pat_completeness auto

termination by (relation "measure (\<lambda>(n, docs). length docs)") auto

declare doc_chunks.simps [simp del]

fun join_all :: "unit searched list \<Rightarrow> unit searched" where
  \<comment> \<open>the results of the workers, in the order of their chunks\<close>
  "join_all [] = Inr ()"
| "join_all (r # rs) = bindE r (\<lambda>_. join_all rs)"

definition FULL_SCAN_PARALLEL_MIN_DOCS :: nat where "FULL_SCAN_PARALLEL_MIN_DOCS = 64"
definition FULL_SCAN_MAX_PARALLEL_WORKERS :: nat where "FULL_SCAN_MAX_PARALLEL_WORKERS = 8"

definition validate_indexed_documents_fresh :: "scope_now \<Rightarrow> nat \<Rightarrow> document list \<Rightarrow> unit searched" where
  \<comment> \<open>\<open>parallelism\<close> is what the machine offers\<close>
  "validate_indexed_documents_fresh W parallelism docs =
     (if length docs < FULL_SCAN_PARALLEL_MIN_DOCS then validate_each W docs
      else
        let workers = min parallelism FULL_SCAN_MAX_PARALLEL_WORKERS;
            chunk_size = (length docs + workers - 1) div workers
        in join_all (map (validate_each W) (doc_chunks chunk_size docs)))"

definition check_snapshot_file_set :: "scope_now \<Rightarrow> index_snapshot \<Rightarrow> bytes option searched" where
  "check_snapshot_file_set W sn =
     bindE (sc_paths W) (\<lambda>found.
       let current = dedup (sort found); expected = dedup (sort (map dc_path (sn_documents sn)))
       in Inr (if expected \<noteq> current then Some ''file_set_changed'' else None))"

definition check_snapshot_fresh :: "scope_now \<Rightarrow> nat \<Rightarrow> index_snapshot \<Rightarrow> freshness_stats searched" where
  "check_snapshot_fresh W parallelism sn =
     bindE (check_snapshot_file_set W sn) (\<lambda>changed.
     case changed of
       Some reason \<Rightarrow> Inl (file_changed_error reason)
     | None \<Rightarrow> bindE (validate_indexed_documents_fresh W parallelism (sn_documents sn)) (\<lambda>_.
         Inr (no_stats\<lparr> fv_full_scope_scans := 1, fv_indexed_files_checked := length (sn_documents sn) \<rparr>)))"

datatype targeted_outcome = Verified freshness_stats bool | NeedsFullScope bytes freshness_stats

datatype validation_scope = TargetedResultFiles | FullScope

record validation_result =
  vr_scope :: validation_scope
  vr_stats :: freshness_stats
  vr_full_scan_reason :: "bytes option"
  vr_file_set_newly_certified :: bool

definition verified_full_scope :: "freshness_stats \<Rightarrow> bytes option \<Rightarrow> validation_result" where
  "verified_full_scope stats reason = \<lparr> vr_scope = FullScope, vr_stats = stats, vr_full_scan_reason = reason,
     vr_file_set_newly_certified = False \<rparr>"

definition verified_targeted :: "freshness_stats \<Rightarrow> bool \<Rightarrow> validation_result" where
  "verified_targeted stats certified = \<lparr> vr_scope = TargetedResultFiles, vr_stats = stats,
     vr_full_scan_reason = None, vr_file_set_newly_certified = certified \<rparr>"

definition full_scope_ran :: "validation_result \<Rightarrow> bool" where
  "full_scope_ran r \<longleftrightarrow> fv_full_scope_scans (vr_stats r) > 0"

definition validate ::
  "bool \<Rightarrow> bool \<Rightarrow> admission \<Rightarrow> targeted_outcome searched \<Rightarrow> freshness_stats searched \<Rightarrow> validation_result searched" where
  \<comment> \<open>\<open>targeted\<close> is what looking at the files of the result gives, \<open>full\<close> what looking at all gives\<close>
  "validate no_ignore forced ad targeted full =
     (let required = (if ad_force_full_scope ad then Some ''validation_interval''
        else if \<not> no_ignore \<and> forced then Some ''ignore_rules_forced_full_scope'' else None)
      in case required of
           Some reason \<Rightarrow> bindE full (\<lambda>stats. Inr (verified_full_scope stats (Some reason)))
         | None \<Rightarrow> bindE targeted (\<lambda>out. case out of
               Verified stats certified \<Rightarrow> Inr (verified_targeted stats certified)
             | NeedsFullScope reason stats \<Rightarrow>
                 bindE full (\<lambda>full_stats. Inr (verified_full_scope (stats_combine stats full_stats) (Some reason)))))"

section \<open>The searches at work\<close>

datatype phase =
    Asking bool
  | Awaiting nat
  | Indexing nat
  | Published "nat option" arc
  | BuildFailed "nat option" mem_error
  | Searching arc
  | Validating arc admission
  | Returned "mem_error + arc"

record search =
  se_key :: index_key
  se_require_utf8 :: bool
  se_phase :: phase

record system =
  sy_manager :: manager
  sy_searches :: "search list"
  sy_condvars :: nat
  sy_arcs :: nat
  sy_built :: "(index_key \<times> arc) list"

definition system_new :: system where
  "system_new = \<lparr> sy_manager = manager_new, sy_searches = [], sy_condvars = 0, sy_arcs = 0, sy_built = [] \<rparr>"

datatype decision = Hit arc | WaitFor nat | Again | GiveUp mem_error | Build nat

definition acquire_or_reserve :: "cache_limits \<Rightarrow> bool \<Rightarrow> index_key \<Rightarrow> bool \<Rightarrow> nat \<Rightarrow> manager \<Rightarrow> decision \<times> manager" where
  \<comment> \<open>one round of the loop of \<open>acquire_or_reserve_snapshot_build\<close>, under the lock; \<open>late\<close>: the
    deadline has passed\<close>
  "acquire_or_reserve L late k deduped condvar m =
     (case cached_snapshot L k m of
        Some (a, m1) \<Rightarrow> (Hit a, m1)
      | None \<Rightarrow>
          if state_for m k = Building then
            (if late then (GiveUp timeout_error, m)
             else case im_in_progress m k of None \<Rightarrow> (Again, m) | Some c \<Rightarrow> (WaitFor c, m))
          else
            (case (if deduped \<and> state_for m k = Unavailable then Option.bind (entry_of m k) ie_last_error else None) of
               Some err \<Rightarrow> (GiveUp err, m)
             | None \<Rightarrow> (case begin_build k condvar m of (g, m1) \<Rightarrow> (Build g, m1))))"

definition supported :: "search \<Rightarrow> arc \<Rightarrow> phase" where
  \<comment> \<open>the search goes on with a snapshot if the snapshot serves its query\<close>
  "supported q a = (case ensure_snapshot_supports_query (ar_snapshot a) (se_require_utf8 q) of
     Inl err \<Rightarrow> Returned (Inl err) | Inr _ \<Rightarrow> Searching a)"

definition decided :: "search \<Rightarrow> decision \<Rightarrow> phase" where
  "decided q d = (case d of Hit a \<Rightarrow> supported q a | WaitFor c \<Rightarrow> Awaiting c | Again \<Rightarrow> Asking True
     | GiveUp err \<Rightarrow> Returned (Inl err) | Build g \<Rightarrow> Indexing g)"

definition woken :: "nat option \<Rightarrow> search \<Rightarrow> search" where
  "woken c q = (case se_phase q of
     Awaiting d \<Rightarrow> if c = Some d then q\<lparr> se_phase := Asking True \<rparr> else q | _ \<Rightarrow> q)"

definition go :: "nat \<Rightarrow> phase \<Rightarrow> system \<Rightarrow> system" where
  "go i ph s = s\<lparr> sy_searches := (sy_searches s)[i := (sy_searches s ! i)\<lparr> se_phase := ph \<rparr>] \<rparr>"

definition notify_all :: "nat option \<Rightarrow> system \<Rightarrow> system" where
  "notify_all c s = s\<lparr> sy_searches := map (woken c) (sy_searches s) \<rparr>"

definition at :: "system \<Rightarrow> nat \<Rightarrow> phase \<Rightarrow> bool" where
  "at s i ph \<longleftrightarrow> i < length (sy_searches s) \<and> se_phase (sy_searches s ! i) = ph"

definition key_at :: "system \<Rightarrow> nat \<Rightarrow> index_key" where
  "key_at s i = se_key (sy_searches s ! i)"

definition asked :: "cache_limits \<Rightarrow> bool \<Rightarrow> nat \<Rightarrow> bool \<Rightarrow> system \<Rightarrow> system" where
  "asked L late i deduped s =
     (case acquire_or_reserve L late (key_at s i) deduped (sy_condvars s) (sy_manager s) of
        (d, m) \<Rightarrow> go i (decided (sy_searches s ! i) d) (s\<lparr> sy_manager := m, sy_condvars := sy_condvars s + 1 \<rparr>))"

definition woke_up :: "bool \<Rightarrow> nat \<Rightarrow> system \<Rightarrow> system" where
  \<comment> \<open>the wait has timed out, or a wake-up without a notification\<close>
  "woke_up timed_out i s =
     go i (if timed_out \<and> state_for (sy_manager s) (key_at s i) = Building then Returned (Inl timeout_error)
           else Asking True) s"

definition built :: "cache_limits \<Rightarrow> nat \<Rightarrow> nat \<Rightarrow> index_snapshot \<Rightarrow> system \<Rightarrow> system" where
  "built L i g sn s =
     (let k = key_at s i;
          a = \<lparr> ar_address = sy_arcs s, ar_generation = g, ar_snapshot = sn \<rparr>
      in case publish_snapshot_if_absent L k a (sy_manager s) of
           (b, m1) \<Rightarrow> (case take_in_progress_condvar k m1 of
             (c, m2) \<Rightarrow> go i (Published c b)
               (s\<lparr> sy_manager := m2, sy_arcs := sy_arcs s + 1, sy_built := sy_built s @ [(k, a)] \<rparr>)))"

definition build_failed :: "nat \<Rightarrow> nat \<Rightarrow> mem_error \<Rightarrow> system \<Rightarrow> system" where
  "build_failed i g err s =
     (let k = key_at s i in
      case take_in_progress_condvar k (record_build_failure k g err (sy_manager s)) of
        (c, m) \<Rightarrow> go i (BuildFailed c err) (s\<lparr> sy_manager := m \<rparr>))"

definition validation_begun :: "nat \<Rightarrow> arc \<Rightarrow> system \<Rightarrow> system" where
  "validation_begun i a s =
     (case begin_validation (key_at s i) a (sy_manager s) of
        (ad, m) \<Rightarrow> go i (Validating a ad) (s\<lparr> sy_manager := m \<rparr>))"

definition validated :: "nat \<Rightarrow> arc \<Rightarrow> validation_result searched \<Rightarrow> system \<Rightarrow> system" where
  "validated i a r s =
     (case r of
        Inr v \<Rightarrow> (case complete_validation (key_at s i) a (full_scope_ran v) (vr_file_set_newly_certified v) (sy_manager s) of
          (st, m) \<Rightarrow> go i (Returned (Inr a)) (s\<lparr> sy_manager := m \<rparr>))
      | Inl err \<Rightarrow> go i (Returned (Inl err))
          (s\<lparr> sy_manager := record_validation_failure (key_at s i) a err (sy_manager s) \<rparr>))"

inductive cache_step :: "cache_limits \<Rightarrow> system \<Rightarrow> system \<Rightarrow> bool" for L :: cache_limits where
  arrive: "cache_step L s (s\<lparr> sy_searches := sy_searches s @ [\<lparr> se_key = k, se_require_utf8 = u, se_phase = Asking False \<rparr>] \<rparr>)"
| ask: "at s i (Asking d) \<Longrightarrow> cache_step L s (asked L late i d s)"
| wake: "at s i (Awaiting c) \<Longrightarrow> cache_step L s (woke_up timed_out i s)"
| finish: "at s i (Indexing g) \<Longrightarrow> cache_step L s (built L i g sn s)"
| fails: "at s i (Indexing g) \<Longrightarrow> cache_step L s (build_failed i g err s)"
| publish: "at s i (Published c a) \<Longrightarrow> cache_step L s (go i (supported (sy_searches s ! i) a) (notify_all c s))"
| report: "at s i (BuildFailed c err) \<Longrightarrow> cache_step L s (go i (Returned (Inl err)) (notify_all c s))"
| search_fails: "at s i (Searching a) \<Longrightarrow> cache_step L s (go i (Returned (Inl err)) s)"
| validate: "at s i (Searching a) \<Longrightarrow> cache_step L s (validation_begun i a s)"
| validated: "at s i (Validating a ad) \<Longrightarrow>
    cache_step L s (validated i a (validate (ik_no_ignore (key_at s i)) forced ad targeted full) s)"

inductive cache_reachable :: "cache_limits \<Rightarrow> system \<Rightarrow> bool" for L :: cache_limits where
  fresh: "cache_reachable L system_new"
| step: "\<lbrakk>cache_reachable L s; cache_step L s s1\<rbrakk> \<Longrightarrow> cache_reachable L s1"

end
