(* ===== verification/CacheProps.thy ===== *)
theory CacheProps
  imports SearchShared
begin

text \<open>
  The manager of the cache: what each operation does to the entry of a key, which keys are being built,
  which snapshots are held, and how much the ready entries take; and that evicting brings the cache
  within its limits, the least recently used entries first.
\<close>

section \<open>Entries by key\<close>

definition building :: "manager \<Rightarrow> index_key \<Rightarrow> nat option" where
  "building m k = (case entry_of m k of None \<Rightarrow> None
     | Some e \<Rightarrow> if ie_state e = Building then ie_generation e else None)"

definition held :: "manager \<Rightarrow> index_key \<Rightarrow> arc option" where
  "held m k = Option.bind (entry_of m k) ie_snapshot"

definition entry_ok :: "index_entry \<Rightarrow> bool" where
  "entry_ok e \<longleftrightarrow> (ie_snapshot e \<noteq> None \<longleftrightarrow> has_usable_snapshot (ie_state e))
     \<and> (ie_state e = Building \<longrightarrow> ie_generation e \<noteq> None)"

definition entries_ok :: "manager \<Rightarrow> bool" where
  "entries_ok m \<longleftrightarrow> distinct (map fst (im_entries m)) \<and> (\<forall>k e. entry_of m k = Some e \<longrightarrow> entry_ok e)"

named_theorems cache

lemma entry_of_put [cache]: "entry_of (put_entry k e m) = (entry_of m)(k \<mapsto> e)"
  by (simp add: entry_of_def put_entry_def AList.update_conv' fun_eq_iff)

lemma entry_of_touch [cache]: "entry_of (touch k m) = entry_of m"
  by (simp add: entry_of_def touch_def fun_eq_iff)

lemma entries_touch [cache]: "im_entries (touch k m) = im_entries m" "im_in_progress (touch k m) = im_in_progress m"
  "im_in_progress (put_entry k e m) = im_in_progress m"
  by (simp_all add: touch_def put_entry_def)

lemma distinct_put: "distinct (map fst (im_entries m)) \<Longrightarrow> distinct (map fst (im_entries (put_entry k e m)))"
  by (simp add: put_entry_def AList.distinct_update)

lemma entries_ok_put: "entries_ok m \<Longrightarrow> entry_ok e \<Longrightarrow> entries_ok (put_entry k e m)"
  by (auto simp: entries_ok_def entry_of_put distinct_put)

lemma entries_ok_cong: "im_entries m1 = im_entries m \<Longrightarrow> entries_ok m1 = entries_ok m"
  by (simp add: entries_ok_def entry_of_def)

lemma by_entry_cong:
  assumes "entry_of m1 = entry_of m"
  shows "building m1 = building m" "held m1 = held m" "state_for m1 = state_for m" "ready_key m1 = ready_key m"
  using assms by (simp_all add: building_def held_def state_for_def ready_key_def fun_eq_iff)

lemma state_building: "entries_ok m \<Longrightarrow> state_for m k = Building \<longleftrightarrow> building m k \<noteq> None"
  by (auto simp: state_for_def building_def entries_ok_def entry_ok_def split: option.splits)

lemma ready_held: "entries_ok m \<Longrightarrow> ready_key m k \<longleftrightarrow> held m k \<noteq> None"
  by (auto simp: ready_key_def held_def has_ready_snapshot_def entries_ok_def entry_ok_def split: option.splits)

lemma entry_kinds [simp]:
  "entry_ok entry_cold" "entry_ok (entry_begin_build g e)" "entry_ok (entry_publish a e)"
  "entry_ok (mark_unavailable err e)" "entry_ok (clear_failed_build e)"
  by (simp_all add: entry_ok_def entry_cold_def entry_begin_build_def entry_publish_def mark_unavailable_def
      clear_failed_build_def has_usable_snapshot_def)

lemma entry_ok_refreshing: "entry_ok e \<Longrightarrow> entry_ok (mark_refreshing e)"
  by (auto simp: entry_ok_def mark_refreshing_def has_usable_snapshot_def has_ready_snapshot_def)

lemma entry_ok_validated: "entry_ok e \<Longrightarrow> entry_ok (mark_ready_after_validation a full new e)"
  by (auto simp: entry_ok_def mark_ready_after_validation_def has_usable_snapshot_def current_snapshot_is_def
      split: option.splits)

section \<open>What the ready entries take\<close>

definition usage :: "(index_entry \<Rightarrow> nat) \<Rightarrow> manager \<Rightarrow> nat" where
  "usage f m = sum_list (map (f \<circ> snd) (im_entries m))"

definition one_if_ready :: "index_entry \<Rightarrow> nat" where
  "one_if_ready e = (if has_ready_snapshot e then 1 else 0)"

lemma ready_entry_count_usage: "ready_entry_count m = usage one_if_ready m"
proof -
  have "length [e \<leftarrow> map snd es. has_ready_snapshot e] = sum_list (map (one_if_ready \<circ> snd) es)" for es :: entries
    by (induction es) (auto simp: one_if_ready_def)
  then show ?thesis by (simp add: ready_entry_count_def usage_def)
qed

lemma fold_saturating: "n \<le> usize_max \<Longrightarrow> fold (\<lambda>x t. saturating_add t x) xs n = min (n + sum_list xs) usize_max"
  by (induction xs arbitrary: n) (auto simp: saturating_add_def min_def)

lemma ready_cache_bytes_usage: "ready_cache_bytes m = min (usage entry_cache_bytes m) usize_max"
  by (simp add: ready_cache_bytes_def usage_def fold_saturating)

lemma usage_put:
  assumes "f e \<le> (case entry_of m k of None \<Rightarrow> 0 | Some e0 \<Rightarrow> f e0)"
  shows "usage f (put_entry k e m) \<le> usage f m"
proof -
  have "f e \<le> (case map_of es k of None \<Rightarrow> 0 | Some e0 \<Rightarrow> f e0)
      \<Longrightarrow> sum_list (map (f \<circ> snd) (AList.update k e es)) \<le> sum_list (map (f \<circ> snd) es)" for es
    by (induction es) (auto split: if_splits)
  with assms show ?thesis by (simp add: usage_def put_entry_def entry_of_def)
qed

lemma usage_delete: "sum_list (map (f \<circ> snd) (AList.delete k es)) \<le> sum_list (map (f \<circ> snd) es)" for f :: "'e \<Rightarrow> nat"
  by (induction es) (auto simp: AList.delete_eq)

lemma exceeds_mono:
  assumes "exceeds_cache_limits L m1" "usage one_if_ready m1 \<le> usage one_if_ready m"
    "usage entry_cache_bytes m1 \<le> usage entry_cache_bytes m"
  shows "exceeds_cache_limits L m"
  using assms by (auto simp: exceeds_cache_limits_def ready_entry_count_usage ready_cache_bytes_usage split: option.splits)

lemma exceeds_cong: "im_entries m1 = im_entries m \<Longrightarrow> exceeds_cache_limits L m1 = exceeds_cache_limits L m"
  by (simp add: exceeds_cache_limits_def ready_entry_count_usage ready_cache_bytes_usage usage_def cong: option.case_cong)

lemma exceeds_put:
  assumes "\<not> exceeds_cache_limits L m" "\<not> has_ready_snapshot e \<or>
    (\<exists>e0. entry_of m k = Some e0 \<and> has_ready_snapshot e0 \<and> ie_snapshot e = ie_snapshot e0)"
  shows "\<not> exceeds_cache_limits L (put_entry k e m)"
proof
  assume "exceeds_cache_limits L (put_entry k e m)"
  then have "exceeds_cache_limits L m"
    by (rule exceeds_mono; intro usage_put)
      (use assms(2) in \<open>auto simp: one_if_ready_def entry_cache_bytes_def split: option.splits\<close>)
  with assms(1) show False by simp
qed

section \<open>Evicting\<close>

text \<open>Nothing but ready entries goes, and the cache ends up within its limits.\<close>

definition evicted :: "manager \<Rightarrow> manager \<Rightarrow> bool" where
  "evicted m m1 \<longleftrightarrow> im_in_progress m1 = im_in_progress m \<and> im_next_generation m1 = im_next_generation m
     \<and> (distinct (map fst (im_entries m)) \<longrightarrow> distinct (map fst (im_entries m1)))
     \<and> (\<forall>k. entry_of m1 k = entry_of m k \<or> ready_key m k \<and> entry_of m1 k = None)"

lemma evicted_refl: "im_entries m1 = im_entries m \<Longrightarrow> im_in_progress m1 = im_in_progress m
    \<Longrightarrow> im_next_generation m1 = im_next_generation m \<Longrightarrow> evicted m m1"
  by (simp add: evicted_def entry_of_def)

lemma evicted_trans:
  assumes "evicted m m1" "evicted m1 m2"
  shows "evicted m m2"
proof -
  have "ready_key m k" if "ready_key m1 k" for k
  proof -
    from that have "entry_of m1 k \<noteq> None" by (auto simp: ready_key_def split: option.splits)
    with assms(1) have "entry_of m1 k = entry_of m k" unfolding evicted_def by metis
    with that show ?thesis by (simp add: ready_key_def)
  qed
  with assms show ?thesis unfolding evicted_def by metis
qed

lemma evicted_evict_entry: "evicted m (evict_entry k m)"
  by (auto simp: evicted_def evict_entry_def entry_of_def AList.delete_conv' AList.distinct_delete)

lemma evicted_loop: "evicted m (evict_loop L ks m)"
proof (induction ks arbitrary: m)
  case (Cons k ks)
  have "evicted m (m\<lparr> im_access_order := ks \<rparr>)" by (simp add: evicted_refl)
  then have "evicted m (evict_loop L ks (evict_entry k (m\<lparr> im_access_order := ks \<rparr>)))"
    using evicted_trans evicted_evict_entry Cons.IH by metis
  then show ?case by (simp add: evicted_refl)
qed (simp add: evicted_refl)

lemma evicted_capacity: "evicted m (evict_to_capacity L m)"
proof -
  have "evicted m (reconcile_access_order m)" by (simp add: evicted_refl reconcile_access_order_def Let_def)
  then show ?thesis using evicted_trans[OF _ evicted_loop]
    by (auto simp: evict_to_capacity_def Let_def evicted_refl)
qed

lemma evicted_effects:
  assumes "evicted m m1" "entries_ok m"
  shows "entries_ok m1" "building m1 = building m" "held m1 k = Some a \<Longrightarrow> held m k = Some a"
proof -
  have e: "entry_of m1 k = entry_of m k \<or> ready_key m k \<and> entry_of m1 k = None" for k
    using assms(1) by (simp add: evicted_def)
  show "entries_ok m1" using assms e unfolding entries_ok_def evicted_def by (metis option.distinct(1))
  have "building m k = None" if "ready_key m k" for k
    using that by (auto simp: ready_key_def building_def has_ready_snapshot_def has_usable_snapshot_def split: option.splits)
  then have "building m1 k = building m k" for k using e[of k] by (auto simp: building_def)
  then show "building m1 = building m" by auto
  show "held m1 k = Some a \<Longrightarrow> held m k = Some a" using e[of k] by (auto simp: held_def)
qed

lemma no_ready_fits:
  assumes "distinct (map fst (im_entries m))" "\<forall>k. \<not> ready_key m k"
  shows "\<not> exceeds_cache_limits L m"
proof -
  have none: "\<not> has_ready_snapshot e" if "(k, e) \<in> set (im_entries m)" for k e
    using assms that by (auto simp: ready_key_def entry_of_def split: option.splits)
  then have "usage one_if_ready m = 0" "usage entry_cache_bytes m = 0"
    by (auto simp: usage_def one_if_ready_def entry_cache_bytes_def)
  then show ?thesis by (simp add: exceeds_cache_limits_def ready_entry_count_usage ready_cache_bytes_usage split: option.splits)
qed

lemma ready_evict_entry: "ready_key (evict_entry k m) j \<longleftrightarrow> ready_key m j \<and> j \<noteq> k"
  by (auto simp: evict_entry_def ready_key_def entry_of_def AList.delete_conv')

lemma ready_order [simp]: "ready_key (m\<lparr> im_access_order := ks \<rparr>) = ready_key m"
  by (simp add: ready_key_def entry_of_def fun_eq_iff)

lemma evict_loop_fits:
  assumes "distinct (map fst (im_entries m))" "\<forall>k. ready_key m k \<longrightarrow> k \<in> set ks"
  shows "\<not> exceeds_cache_limits L (evict_loop L ks m)"
  using assms
proof (induction ks arbitrary: m)
  case Nil
  then have "\<not> exceeds_cache_limits L m" by (intro no_ready_fits) auto
  then show ?case by (simp add: exceeds_cong[of "m\<lparr> im_access_order := [] \<rparr>" m])
next
  case (Cons k ks)
  show ?case
  proof (cases "exceeds_cache_limits L m")
    case True
    have "distinct (map fst (im_entries (evict_entry k (m\<lparr> im_access_order := ks \<rparr>))))"
      using evicted_evict_entry[of "m\<lparr> im_access_order := ks \<rparr>" k] Cons.prems(1) by (simp add: evicted_def)
    moreover have "\<forall>j. ready_key (evict_entry k (m\<lparr> im_access_order := ks \<rparr>)) j \<longrightarrow> j \<in> set ks"
      using Cons.prems(2) by (auto simp: ready_evict_entry)
    ultimately show ?thesis using True Cons.IH by simp
  next
    case False
    then show ?thesis by (simp add: exceeds_cong[of "m\<lparr> im_access_order := k # ks \<rparr>" m])
  qed
qed

lemma ready_in_order:
  assumes "distinct (map fst (im_entries m))" "ready_key m k"
  shows "k \<in> set (im_access_order (reconcile_access_order m))"
proof -
  from assms(2) obtain e where e: "map_of (im_entries m) k = Some e" "has_ready_snapshot e"
    by (auto simp: ready_key_def entry_of_def split: option.splits)
  then have "(k, e) \<in> set (im_entries m)" using assms(1) by simp
  with e(2) have "k \<in> set (map fst [(k, e) \<leftarrow> im_entries m. has_ready_snapshot e])" by force
  then show ?thesis by (auto simp: reconcile_access_order_def Let_def assms(2))
qed

lemma evict_to_capacity_fits:
  assumes "distinct (map fst (im_entries m))"
  shows "\<not> exceeds_cache_limits L (evict_to_capacity L m)"
proof (cases "exceeds_cache_limits L m")
  case True
  let ?m = "reconcile_access_order m"
  have same: "im_entries ?m = im_entries m" by (simp add: reconcile_access_order_def Let_def)
  then have "ready_key ?m = ready_key m" by (simp add: ready_key_def entry_of_def fun_eq_iff)
  then show ?thesis
    using True evict_loop_fits[of ?m "im_access_order ?m" L] ready_in_order[OF assms] assms same
    by (simp add: evict_to_capacity_def Let_def)
qed (simp add: evict_to_capacity_def)

lemma evict_loop_prefix:
  "\<exists>xs ys. ks = xs @ ys \<and> im_access_order (evict_loop L ks m) = ys
    \<and> (\<forall>k. ready_key (evict_loop L ks m) k \<longleftrightarrow> ready_key m k \<and> k \<notin> set xs)"
proof (induction ks arbitrary: m)
  case (Cons k ks)
  show ?case
  proof (cases "exceeds_cache_limits L m")
    case True
    let ?m = "evict_entry k (m\<lparr> im_access_order := ks \<rparr>)"
    obtain xs ys where "ks = xs @ ys" "im_access_order (evict_loop L ks ?m) = ys"
      "\<forall>j. ready_key (evict_loop L ks ?m) j \<longleftrightarrow> ready_key ?m j \<and> j \<notin> set xs" using Cons.IH[of ?m] by blast
    then have "k # ks = (k # xs) @ ys" "im_access_order (evict_loop L ks ?m) = ys"
      "\<forall>j. ready_key (evict_loop L ks ?m) j \<longleftrightarrow> ready_key m j \<and> j \<notin> set (k # xs)"
      by (auto simp: ready_evict_entry)
    moreover have "evict_loop L (k # ks) m = evict_loop L ks ?m" using True by simp
    ultimately show ?thesis by metis
  next
    case False
    then show ?thesis by (intro exI[of _ "[]"] exI[of _ "k # ks"]) simp
  qed
qed simp

section \<open>What the operations do\<close>

text \<open>The searches see of the manager: which keys are being built, which snapshots are held, and which
  condition variables there are.\<close>

definition sound :: "cache_limits \<Rightarrow> manager \<Rightarrow> bool" where
  "sound L m \<longleftrightarrow> entries_ok m \<and> \<not> exceeds_cache_limits L m \<and> dom (im_in_progress m) = dom (building m)"

lemma sound_new: "sound L manager_new"
  by (auto simp: sound_def manager_new_def entries_ok_def entry_of_def building_def no_ready_fits ready_key_def)

lemma sound_evicted: "evicted m m1 \<Longrightarrow> sound L m \<Longrightarrow> \<not> exceeds_cache_limits L m1 \<Longrightarrow> sound L m1"
proof -
  assume a: "evicted m m1" "sound L m" "\<not> exceeds_cache_limits L m1"
  then have "entries_ok m" "dom (im_in_progress m) = dom (building m)" by (simp_all add: sound_def)
  moreover have "im_in_progress m1 = im_in_progress m" using a(1) by (simp add: evicted_def)
  ultimately show "sound L m1" using evicted_effects(1,2)[OF a(1)] a(3) by (simp add: sound_def)
qed

lemma building_put:
  "building (put_entry k e m) = (building m)(k := if ie_state e = Building then ie_generation e else None)"
  by (simp add: building_def entry_of_put fun_eq_iff)

lemma held_put: "held (put_entry k e m) = (held m)(k := ie_snapshot e)"
  by (simp add: held_def entry_of_put fun_eq_iff)

lemma touched: "sound L m \<Longrightarrow> sound L (touch k m)" "building (touch k m) = building m" "held (touch k m) = held m"
proof -
  show "building (touch k m) = building m" "held (touch k m) = held m" by (rule by_entry_cong, rule entry_of_touch)+
  moreover have "entries_ok (touch k m) = entries_ok m" by (rule entries_ok_cong) (rule entries_touch)
  moreover have "exceeds_cache_limits L (touch k m) = exceeds_cache_limits L m" by (rule exceeds_cong) (rule entries_touch)
  ultimately show "sound L m \<Longrightarrow> sound L (touch k m)" by (simp add: sound_def entries_touch)
qed

lemma touch_evict:
  assumes "sound L m"
  shows "sound L (evict_to_capacity L (touch k m))" "building (evict_to_capacity L (touch k m)) = building m"
    "held (evict_to_capacity L (touch k m)) j = Some a \<Longrightarrow> held m j = Some a"
    "im_in_progress (evict_to_capacity L (touch k m)) = im_in_progress m"
proof -
  note ev = evicted_capacity[of "touch k m" L]
  have t: "sound L (touch k m)" using assms by (rule touched)
  then have ok: "entries_ok (touch k m)" by (simp add: sound_def)
  have "\<not> exceeds_cache_limits L (evict_to_capacity L (touch k m))"
    using ok by (intro evict_to_capacity_fits) (simp add: entries_ok_def)
  with sound_evicted[OF ev t] show "sound L (evict_to_capacity L (touch k m))" by simp
  show "building (evict_to_capacity L (touch k m)) = building m" using evicted_effects(2)[OF ev ok] touched(2) by metis
  show "held (evict_to_capacity L (touch k m)) j = Some a \<Longrightarrow> held m j = Some a"
    using evicted_effects(3)[OF ev ok] touched(3) by metis
  show "im_in_progress (evict_to_capacity L (touch k m)) = im_in_progress m"
    using ev by (simp add: evicted_def entries_touch)
qed

lemma cached_effects:
  assumes "cached_snapshot L k m = Some (a, m1)" "sound L m"
  shows "sound L m1" "building m1 = building m" "held m1 j = Some b \<Longrightarrow> held m j = Some b"
    "im_in_progress m1 = im_in_progress m" "held m k = Some a"
proof -
  from assms(1) have m1: "m1 = evict_to_capacity L (touch k m)" and a: "Option.bind (entry_of m k) usable_snapshot = Some a"
    by (auto simp: cached_snapshot_def split: option.splits)
  show "sound L m1" "building m1 = building m" "held m1 j = Some b \<Longrightarrow> held m j = Some b"
    "im_in_progress m1 = im_in_progress m" unfolding m1 using touch_evict[OF assms(2)] by blast+
  from a obtain e where e: "entry_of m k = Some e" "usable_snapshot e = Some a" by (cases "entry_of m k") auto
  then show "held m k = Some a" by (auto simp: held_def usable_snapshot_def split: if_splits)
qed

lemma not_cached: "cached_snapshot L k m = None \<Longrightarrow> entries_ok m \<Longrightarrow> held m k = None"
proof (cases "entry_of m k")
  case (Some e)
  assume "cached_snapshot L k m = None" "entries_ok m"
  with Some have "usable_snapshot e = None" "entry_ok e"
    by (auto simp: cached_snapshot_def entries_ok_def split: option.splits)
  then have "ie_snapshot e = None" by (auto simp: usable_snapshot_def entry_ok_def split: if_splits)
  with Some show ?thesis by (simp add: held_def)
qed (simp add: held_def)

lemma building_not_held: "entries_ok m \<Longrightarrow> building m k \<noteq> None \<Longrightarrow> held m k = None"
proof (cases "entry_of m k")
  case (Some e)
  assume "entries_ok m" "building m k \<noteq> None"
  with Some have "entry_ok e" "ie_state e = Building" by (auto simp: entries_ok_def building_def split: if_splits)
  then have "ie_snapshot e = None" by (auto simp: entry_ok_def has_usable_snapshot_def)
  with Some show ?thesis by (simp add: held_def)
qed (simp add: held_def)

lemma publish_effects:
  assumes "publish_snapshot_if_absent L k a m = (b, m1)" "take_in_progress_condvar k m1 = (c, m2)" "sound L m"
    "building m k \<noteq> None"
  shows "sound L m2" "building m2 = (building m)(k := None)" "held m2 j = Some x \<Longrightarrow> held m j = Some x \<or> j = k \<and> x = a"
    "im_in_progress m2 = (im_in_progress m)(k := None)" "b = a" "c = im_in_progress m k"
proof -
  have ok: "entries_ok m" "\<not> exceeds_cache_limits L m" "dom (im_in_progress m) = dom (building m)"
    using assms(3) by (simp_all add: sound_def)
  have "held m k = None" using building_not_held[OF ok(1) assms(4)] .
  then have none: "cached_snapshot L k m = None"
    by (auto simp: cached_snapshot_def held_def usable_snapshot_def split: option.splits if_splits bind_splits)
  let ?p = "put_entry k (entry_publish a (entry_or_cold m k)) m"
  have m1: "b = a" "m1 = evict_to_capacity L (touch k ?p)"
    using assms(1) none by (auto simp: publish_snapshot_if_absent_def)
  then show "b = a" by simp
  have okp: "entries_ok (touch k ?p)" using entries_ok_put[OF ok(1)] by (simp add: entries_ok_cong[of "touch k ?p" ?p] entries_touch)
  note ev = evicted_capacity[of "touch k ?p" L]
  have fits: "\<not> exceeds_cache_limits L m1" unfolding m1
    using okp by (intro evict_to_capacity_fits) (simp add: entries_ok_def)
  have b1: "building m1 = (building m)(k := None)"
    unfolding m1 evicted_effects(2)[OF ev okp] touched(2) building_put by (simp add: entry_publish_def)
  have h1: "held m1 j = Some x \<Longrightarrow> held m j = Some x \<or> j = k \<and> x = a"
    using evicted_effects(3)[OF ev okp, of j x] unfolding m1 touched(3) held_put
    by (auto simp: entry_publish_def split: if_splits)
  have i1: "im_in_progress m1 = im_in_progress m" using ev unfolding m1 by (simp add: evicted_def entries_touch)
  have m2: "m2 = m1\<lparr> im_in_progress := (im_in_progress m1)(k := None) \<rparr>" "c = im_in_progress m1 k"
    using assms(2) by (auto simp: take_in_progress_condvar_def)
  have same: "entry_of m2 = entry_of m1" "im_entries m2 = im_entries m1" by (simp_all add: m2 entry_of_def fun_eq_iff)
  show "building m2 = (building m)(k := None)" using by_entry_cong(1)[OF same(1)] b1 by simp
  show "held m2 j = Some x \<Longrightarrow> held m j = Some x \<or> j = k \<and> x = a" using by_entry_cong(2)[OF same(1)] h1 by simp
  show "im_in_progress m2 = (im_in_progress m)(k := None)" "c = im_in_progress m k" using m2 i1 by simp_all
  have "entries_ok m1" using evicted_effects(1)[OF ev okp] m1 by simp
  then have "entries_ok m2" using entries_ok_cong[OF same(2)] by simp
  moreover have "\<not> exceeds_cache_limits L m2" using fits exceeds_cong[OF same(2)] by simp
  moreover have "dom (im_in_progress m2) = dom (building m2)"
    using ok(3) i1 b1 by_entry_cong(1)[OF same(1)] by (simp add: m2)
  ultimately show "sound L m2" by (simp add: sound_def)
qed

lemma sound_put:
  assumes "sound L m" "entry_ok e" "building (put_entry k e m) = building m"
    "\<not> has_ready_snapshot e \<or> (\<exists>e0. entry_of m k = Some e0 \<and> has_ready_snapshot e0 \<and> ie_snapshot e = ie_snapshot e0)"
  shows "sound L (put_entry k e m)"
  using assms entries_ok_put[OF _ assms(2)] exceeds_put[OF _ assms(4)] by (simp add: sound_def entries_touch)

lemma begin_build_effects:
  assumes "begin_build k cv m = (g, m1)" "sound L m" "building m k = None"
  shows "sound L m1" "building m1 = (building m)(k \<mapsto> g)" "held m1 j = Some x \<Longrightarrow> held m j = Some x"
    "im_in_progress m1 = (im_in_progress m)(k \<mapsto> cv)"
proof -
  have ok: "entries_ok m" "\<not> exceeds_cache_limits L m" "dom (im_in_progress m) = dom (building m)"
    using assms(2) by (simp_all add: sound_def)
  let ?e = "entry_begin_build g (entry_or_cold m k)"
  have none: "im_in_progress m k = None" using assms(3) ok(3) by (metis domIff)
  with assms(1) have m1: "im_entries m1 = im_entries (put_entry k ?e m)" "im_in_progress m1 = (im_in_progress m)(k \<mapsto> cv)"
    by (auto simp: begin_build_def Let_def put_entry_def entry_or_cold_def entry_of_def)
  then have ent: "entry_of m1 = entry_of (put_entry k ?e m)" by (simp add: entry_of_def fun_eq_iff)
  show b: "building m1 = (building m)(k \<mapsto> g)"
    unfolding by_entry_cong(1)[OF ent] building_put by (simp add: entry_begin_build_def)
  show "held m1 j = Some x \<Longrightarrow> held m j = Some x"
    unfolding by_entry_cong(2)[OF ent] held_put by (simp add: entry_begin_build_def split: if_splits)
  show "im_in_progress m1 = (im_in_progress m)(k \<mapsto> cv)" by (rule m1)
  have "entries_ok m1" using entries_ok_put[OF ok(1)] entries_ok_cong[OF m1(1)] by simp
  moreover have "\<not> exceeds_cache_limits L m1" unfolding exceeds_cong[OF m1(1)]
    by (rule exceeds_put[OF ok(2)]) (simp add: has_ready_snapshot_def entry_begin_build_def)
  ultimately show "sound L m1" using ok(3) b m1(2) by (simp add: sound_def)
qed

lemma failure_effects:
  assumes "building m k = Some g" "take_in_progress_condvar k (record_build_failure k g err m) = (c, m1)" "sound L m"
  shows "sound L m1" "building m1 = (building m)(k := None)" "held m1 j = Some x \<Longrightarrow> held m j = Some x"
    "im_in_progress m1 = (im_in_progress m)(k := None)" "c = im_in_progress m k"
proof -
  have ok: "entries_ok m" "\<not> exceeds_cache_limits L m" "dom (im_in_progress m) = dom (building m)"
    using assms(3) by (simp_all add: sound_def)
  obtain e where e: "entry_of m k = Some e" "ie_state e = Building" "ie_generation e = Some g"
    using assms(1) by (auto simp: building_def split: option.splits if_splits)
  let ?e = "if is_per_request_failure err then clear_failed_build e else mark_unavailable err e"
  have m1: "im_entries m1 = im_entries (put_entry k ?e m)" "im_in_progress m1 = (im_in_progress m)(k := None)"
    and c: "c = im_in_progress m k"
    using assms(2) e by (auto simp: take_in_progress_condvar_def record_build_failure_def put_entry_def)
  then have ent: "entry_of m1 = entry_of (put_entry k ?e m)" by (simp add: entry_of_def fun_eq_iff)
  have e': "ie_state ?e \<noteq> Building" "ie_snapshot ?e = None" "entry_ok ?e" "\<not> has_ready_snapshot ?e"
    by (simp_all add: clear_failed_build_def mark_unavailable_def has_ready_snapshot_def entry_ok_def has_usable_snapshot_def)
  show b: "building m1 = (building m)(k := None)" unfolding by_entry_cong(1)[OF ent] building_put by (simp only: e' if_False)
  show "held m1 j = Some x \<Longrightarrow> held m j = Some x"
    unfolding by_entry_cong(2)[OF ent] held_put e'(2) by (cases "j = k") simp_all
  show "im_in_progress m1 = (im_in_progress m)(k := None)" "c = im_in_progress m k" using m1 c by simp_all
  have "entries_ok m1" using entries_ok_put[OF ok(1) e'(3)] entries_ok_cong[OF m1(1)] by simp
  moreover have "\<not> exceeds_cache_limits L m1" unfolding exceeds_cong[OF m1(1)]
    by (rule exceeds_put[OF ok(2)]) (use e'(4) in blast)
  ultimately show "sound L m1" using ok(3) b m1(2) by (simp add: sound_def)
qed

text \<open>The three operations around a validation touch an entry only when it holds the snapshot.\<close>

lemma validation_put:
  assumes "sound L m" "entry_of m k = Some e" "current_snapshot_is a e" "entry_ok e1" "ie_state e1 \<noteq> Building"
    "ie_snapshot e1 = None \<or> ie_snapshot e1 = ie_snapshot e"
  shows "sound L (put_entry k e1 m)" "building (put_entry k e1 m) = building m"
    "held (put_entry k e1 m) j = Some x \<Longrightarrow> held m j = Some x"
proof -
  have ok: "entry_ok e" using assms(1,2) by (auto simp: sound_def entries_ok_def)
  have e: "ie_snapshot e \<noteq> None" using assms(3) by (auto simp: current_snapshot_is_def split: option.splits)
  then have st: "has_usable_snapshot (ie_state e)" using ok by (simp add: entry_ok_def)
  then have "ie_state e \<noteq> Building" by (auto simp: has_usable_snapshot_def)
  then have "building m k = None" using assms(2) by (simp add: building_def)
  then show b: "building (put_entry k e1 m) = building m" unfolding building_put using assms(5) by auto
  show "held (put_entry k e1 m) j = Some x \<Longrightarrow> held m j = Some x"
    using assms(2,6) by (auto simp: held_put held_def split: if_splits)
  have "has_ready_snapshot e" using e st by (simp add: has_ready_snapshot_def)
  moreover have "\<not> has_ready_snapshot e1 \<or> ie_snapshot e1 = ie_snapshot e"
    using assms(6) by (auto simp: has_ready_snapshot_def)
  ultimately show "sound L (put_entry k e1 m)" using assms(2) by (intro sound_put[OF assms(1,4) b]) auto
qed

lemma begin_validation_effects:
  assumes "begin_validation k a m = (ad, m1)" "sound L m"
  shows "sound L m1" "building m1 = building m" "held m1 j = Some x \<Longrightarrow> held m j = Some x"
    "im_in_progress m1 = im_in_progress m"
proof -
  have "m1 = m \<or> (\<exists>e. entry_of m k = Some e \<and> current_snapshot_is a e \<and> m1 = put_entry k (mark_refreshing e) m)"
    using assms(1) by (auto simp: begin_validation_def split: option.splits if_splits)
  moreover have "sound L m1 \<and> building m1 = building m \<and> (held m1 j = Some x \<longrightarrow> held m j = Some x)
      \<and> im_in_progress m1 = im_in_progress m"
    if e: "entry_of m k = Some e" "current_snapshot_is a e" "m1 = put_entry k (mark_refreshing e) m" for e
  proof -
    have "entry_ok e" using assms(2) e(1) by (auto simp: sound_def entries_ok_def)
    moreover have "ie_state (mark_refreshing e) \<noteq> Building"
      using calculation e(2) by (auto simp: mark_refreshing_def has_ready_snapshot_def entry_ok_def current_snapshot_is_def
          has_usable_snapshot_def split: option.splits)
    moreover have "ie_snapshot (mark_refreshing e) = ie_snapshot e" by (simp add: mark_refreshing_def)
    ultimately show ?thesis using validation_put[OF assms(2) e(1,2) entry_ok_refreshing, of e] e(3)
      by (simp add: entries_touch)
  qed
  ultimately show "sound L m1" "building m1 = building m" "held m1 j = Some x \<Longrightarrow> held m j = Some x"
    "im_in_progress m1 = im_in_progress m" using assms(2) by blast+
qed

lemma complete_validation_effects:
  assumes "complete_validation k a full new m = (st, m1)" "sound L m"
  shows "sound L m1" "building m1 = building m" "held m1 j = Some x \<Longrightarrow> held m j = Some x"
    "im_in_progress m1 = im_in_progress m"
proof -
  have same: "put_entry k e m = m" if "entry_of m k = Some e" for e
  proof -
    have "map_of es k = Some e \<Longrightarrow> AList.update k e es = es" for es by (induction es) (auto split: if_splits)
    with that show ?thesis by (simp add: put_entry_def entry_of_def)
  qed
  have "m1 = m \<or> (\<exists>e. entry_of m k = Some e \<and> current_snapshot_is a e
      \<and> m1 = put_entry k (mark_ready_after_validation a full new e) m)"
    using assms(1) same by (auto simp: complete_validation_def Let_def mark_ready_after_validation_def
        split: option.splits if_splits)
  moreover have "sound L m1 \<and> building m1 = building m \<and> (held m1 j = Some x \<longrightarrow> held m j = Some x)
      \<and> im_in_progress m1 = im_in_progress m"
    if e: "entry_of m k = Some e" "current_snapshot_is a e" "m1 = put_entry k (mark_ready_after_validation a full new e) m" for e
  proof -
    have "entry_ok e" using assms(2) e(1) by (auto simp: sound_def entries_ok_def)
    moreover have "ie_state (mark_ready_after_validation a full new e) \<noteq> Building"
      "ie_snapshot (mark_ready_after_validation a full new e) = ie_snapshot e"
      using e(2) by (simp_all add: mark_ready_after_validation_def)
    ultimately show ?thesis using validation_put[OF assms(2) e(1,2) entry_ok_validated, of e a full new] e(3)
      by (simp add: entries_touch)
  qed
  ultimately show "sound L m1" "building m1 = building m" "held m1 j = Some x \<Longrightarrow> held m j = Some x"
    "im_in_progress m1 = im_in_progress m" using assms(2) by blast+
qed

lemma validation_failure_effects:
  assumes "sound L m"
  shows "sound L (record_validation_failure k a err m)" "building (record_validation_failure k a err m) = building m"
    "held (record_validation_failure k a err m) j = Some x \<Longrightarrow> held m j = Some x"
    "im_in_progress (record_validation_failure k a err m) = im_in_progress m"
proof -
  let ?r = "record_validation_failure k a err m"
  have "?r = m \<or> (\<exists>e. entry_of m k = Some e \<and> current_snapshot_is a e
      \<and> im_entries ?r = im_entries (put_entry k (mark_unavailable err e) m) \<and> im_in_progress ?r = im_in_progress m)"
    by (auto simp: record_validation_failure_def put_entry_def split: option.splits)
  moreover have "sound L ?r \<and> building ?r = building m \<and> (held ?r j = Some x \<longrightarrow> held m j = Some x)"
    if e: "entry_of m k = Some e" "current_snapshot_is a e" "im_entries ?r = im_entries (put_entry k (mark_unavailable err e) m)"
      "im_in_progress ?r = im_in_progress m" for e
  proof -
    let ?p = "put_entry k (mark_unavailable err e) m"
    have ent: "entry_of ?r = entry_of ?p" using e(3) by (simp add: entry_of_def fun_eq_iff)
    have p: "sound L ?p" "building ?p = building m" "held ?p j = Some x \<longrightarrow> held m j = Some x"
    proof -
      have u: "entry_ok (mark_unavailable err e)" "ie_state (mark_unavailable err e) \<noteq> Building"
        "ie_snapshot (mark_unavailable err e) = None \<or> ie_snapshot (mark_unavailable err e) = ie_snapshot e"
        by simp_all (simp_all add: mark_unavailable_def)
      show "sound L ?p" "building ?p = building m" "held ?p j = Some x \<longrightarrow> held m j = Some x"
        using validation_put[OF assms e(1,2) u] by blast+
    qed
    then have "sound L ?r"
      using entries_ok_cong[OF e(3)] exceeds_cong[OF e(3)] by_entry_cong(1)[OF ent] e(4) by (simp add: sound_def entries_touch)
    with p by_entry_cong[OF ent] show ?thesis by simp
  qed
  ultimately show "sound L ?r" "building ?r = building m" "held ?r j = Some x \<Longrightarrow> held m j = Some x"
    using assms by (metis, metis, metis)
  show "im_in_progress ?r = im_in_progress m" by (simp add: record_validation_failure_def put_entry_def split: option.splits)
qed

end
