(* ===== verification/CacheClaims.thy ===== *)
theory CacheClaims
  imports CacheProps
begin

text \<open>
  What holds of all searches that share the cache: one search builds an index while the others wait for
  it, the cache stays within its limits, a search runs on an index that was built for its files, no
  waiting search is forgotten, and what a validation of all files establishes.
\<close>

section \<open>The invariant\<close>

fun phase_arc :: "phase \<Rightarrow> arc option" where
  "phase_arc (Published c a) = Some a"
| "phase_arc (Searching a) = Some a"
| "phase_arc (Validating a ad) = Some a"
| "phase_arc (Returned (Inr a)) = Some a"
| "phase_arc _ = None"

fun phase_builds :: "phase \<Rightarrow> nat option" where
  "phase_builds (Indexing g) = Some g"
| "phase_builds _ = None"

fun phase_notifies :: "phase \<Rightarrow> nat option" where
  "phase_notifies (Published c a) = c"
| "phase_notifies (BuildFailed c err) = c"
| "phase_notifies _ = None"

definition builders_ok :: "system \<Rightarrow> bool" where
  "builders_ok s \<longleftrightarrow> (\<forall>k g. building (sy_manager s) k = Some g \<longleftrightarrow> (\<exists>i. at s i (Indexing g) \<and> key_at s i = k))
     \<and> (\<forall>i j g h. at s i (Indexing g) \<longrightarrow> at s j (Indexing h) \<longrightarrow> key_at s i = key_at s j \<longrightarrow> i = j)"

definition arcs_ok :: "system \<Rightarrow> bool" where
  "arcs_ok s \<longleftrightarrow> (\<forall>k a. held (sy_manager s) k = Some a \<longrightarrow> (k, a) \<in> set (sy_built s))
     \<and> (\<forall>i ph a. at s i ph \<longrightarrow> phase_arc ph = Some a \<longrightarrow> (key_at s i, a) \<in> set (sy_built s))"

definition waits_ok :: "system \<Rightarrow> bool" where
  "waits_ok s \<longleftrightarrow> (\<forall>i c. at s i (Awaiting c) \<longrightarrow> im_in_progress (sy_manager s) (key_at s i) = Some c
     \<or> (\<exists>j ph. at s j ph \<and> phase_notifies ph = Some c))"

definition cache_inv :: "cache_limits \<Rightarrow> system \<Rightarrow> bool" where
  "cache_inv L s \<longleftrightarrow> sound L (sy_manager s) \<and> builders_ok s \<and> arcs_ok s \<and> waits_ok s"

lemma notify_none [simp]: "notify_all None s = s"
proof -
  have "woken None = id" by (auto simp: woken_def fun_eq_iff split: phase.splits)
  then show ?thesis by (simp add: notify_all_def)
qed

lemma woken_key [simp]: "se_key (woken c q) = se_key q" "se_require_utf8 (woken c q) = se_require_utf8 q"
  by (simp_all add: woken_def split: phase.splits)

lemma key_after: "sy_searches s1 = sy_searches s \<Longrightarrow> j < length (sy_searches s)
    \<Longrightarrow> key_at (go i ph (notify_all c s1)) j = key_at s j"
  by (cases "i = j") (auto simp: key_at_def go_def notify_all_def)

lemma at_after:
  assumes "sy_searches s1 = sy_searches s" "i < length (sy_searches s)"
  shows "at (go i ph (notify_all c s1)) j p \<longleftrightarrow> (if j = i then p = ph
    else if \<exists>d. at s j (Awaiting d) \<and> c = Some d then p = Asking True else at s j p)"
  using assms by (auto simp: at_def go_def notify_all_def nth_list_update woken_def split: phase.splits)

lemma at_unique: "at s i p \<Longrightarrow> at s i q \<Longrightarrow> p = q"
  by (simp add: at_def)

text \<open>A step of one search keeps the invariant if what it does to the manager fits its new phase.\<close>

lemma cache_inv_go:
  assumes inv: "cache_inv L s" and old: "at s i old" and s1: "sy_searches s1 = sy_searches s"
    and sound: "sound L (sy_manager s1)"
    and builds: "building (sy_manager s1) = (if phase_builds old = None \<and> phase_builds new = None then building (sy_manager s)
      else (building (sy_manager s))(key_at s i := phase_builds new))"
    and starts: "phase_builds old = None \<Longrightarrow> phase_builds new \<noteq> None \<Longrightarrow> building (sy_manager s) (key_at s i) = None"
    and helds: "\<And>k a. held (sy_manager s1) k = Some a \<Longrightarrow> held (sy_manager s) k = Some a \<or> (k, a) \<in> set (sy_built s1)"
    and more: "set (sy_built s) \<subseteq> set (sy_built s1)"
    and arc: "\<And>a. phase_arc new = Some a \<Longrightarrow> (key_at s i, a) \<in> set (sy_built s1)"
    and waits: "\<And>k c. im_in_progress (sy_manager s) k = Some c \<Longrightarrow>
      im_in_progress (sy_manager s1) k = Some c \<or> phase_notifies new = Some c"
    and waits_new: "\<And>c. new = Awaiting c \<Longrightarrow> im_in_progress (sy_manager s1) (key_at s i) = Some c"
    and notified: "\<And>c. phase_notifies old = Some c \<Longrightarrow> n = Some c"
  shows "cache_inv L (go i new (notify_all n s1))"
proof -
  let ?t = "go i new (notify_all n s1)"
  have i: "i < length (sy_searches s)" using old by (simp add: at_def)
  note after = at_after[OF s1 i]
  have key: "key_at ?t j = key_at s j" if "at ?t j p" for j p
  proof -
    from that have "j < length (sy_searches s)" using s1 by (simp add: at_def go_def notify_all_def)
    then show ?thesis by (rule key_after[OF s1])
  qed
  have here: "at ?t i new" using after by simp
  have keyi: "key_at ?t i = key_at s i" by (rule key[OF here])
  have there: "at ?t j p \<Longrightarrow> j \<noteq> i \<Longrightarrow> at s j p \<or> p = Asking True" for j p
    using after by (auto split: if_splits)
  have kept: "at s j p \<Longrightarrow> j \<noteq> i \<Longrightarrow> (\<And>d. p = Awaiting d \<Longrightarrow> n \<noteq> Some d) \<Longrightarrow> at ?t j p" for j p
  proof -
    assume p: "at s j p" "j \<noteq> i" "\<And>d. p = Awaiting d \<Longrightarrow> n \<noteq> Some d"
    then have "\<not> (\<exists>d. at s j (Awaiting d) \<and> n = Some d)" using at_unique[OF p(1)] by blast
    with p(1,2) after show "at ?t j p" by auto
  qed
  have m: "sy_manager ?t = sy_manager s1" "sy_built ?t = sy_built s1" by (simp_all add: go_def notify_all_def)
  from inv have b: "\<And>k g. building (sy_manager s) k = Some g \<longleftrightarrow> (\<exists>i. at s i (Indexing g) \<and> key_at s i = k)"
    and u: "\<And>i j g h. at s i (Indexing g) \<Longrightarrow> at s j (Indexing h) \<Longrightarrow> key_at s i = key_at s j \<Longrightarrow> i = j"
    and a1: "\<And>k a. held (sy_manager s) k = Some a \<Longrightarrow> (k, a) \<in> set (sy_built s)"
    and a2: "\<And>i ph a. at s i ph \<Longrightarrow> phase_arc ph = Some a \<Longrightarrow> (key_at s i, a) \<in> set (sy_built s)"
    and w: "\<And>i c. at s i (Awaiting c) \<Longrightarrow> im_in_progress (sy_manager s) (key_at s i) = Some c
      \<or> (\<exists>j ph. at s j ph \<and> phase_notifies ph = Some c)"
    unfolding cache_inv_def builders_ok_def arcs_ok_def waits_ok_def by blast+
  have other: "at ?t j (Indexing g) \<longleftrightarrow> at s j (Indexing g)" if "j \<noteq> i" for j g
    using there[where j = j and p = "Indexing g"] kept[where j = j and p = "Indexing g"] that by auto
  have others: "key_at s j \<noteq> key_at s i" if "at s j (Indexing g)" "j \<noteq> i" "phase_builds old \<noteq> None \<or> phase_builds new \<noteq> None" for j g
  proof (cases "phase_builds old")
    case None
    with that(3) starts have "building (sy_manager s) (key_at s i) = None" by simp
    with b that(1) show ?thesis by (metis option.distinct(1))
  next
    case (Some h)
    then have "old = Indexing h" by (cases old rule: phase_builds.cases) auto
    with u old that(1,2) show ?thesis by metis
  qed
  have here_builds: "at ?t i (Indexing g) \<longleftrightarrow> phase_builds new = Some g" for g
    using at_unique[OF here] here by (cases new rule: phase_builds.cases) auto
  have "builders_ok ?t"
    unfolding builders_ok_def m
  proof (intro conjI allI impI)
    fix k g
    show "building (sy_manager s1) k = Some g \<longleftrightarrow> (\<exists>j. at ?t j (Indexing g) \<and> key_at ?t j = k)"
    proof (cases "phase_builds old = None \<and> phase_builds new = None")
      case True
      have "(\<exists>j. at ?t j (Indexing g) \<and> key_at ?t j = k) \<longleftrightarrow> (\<exists>j. at s j (Indexing g) \<and> key_at s j = k)"
      proof -
        have "\<not> at s i (Indexing g)" using True at_unique[OF old] by auto
        moreover have "\<not> at ?t i (Indexing g)" using True here_builds by simp
        ultimately show ?thesis using other key by metis
      qed
      with True b builds show ?thesis by simp
    next
      case False
      then have bs: "building (sy_manager s1) = (building (sy_manager s))(key_at s i := phase_builds new)" using builds by auto
      show ?thesis
      proof (cases "k = key_at s i")
        case True
        have "(\<exists>j. at ?t j (Indexing g) \<and> key_at ?t j = k) \<longleftrightarrow> at ?t i (Indexing g)"
          using others False other key keyi True by metis
        with bs True here_builds show ?thesis by simp
      next
        case k: False
        have "(\<exists>j. at ?t j (Indexing g) \<and> key_at ?t j = k) \<longleftrightarrow> (\<exists>j. at s j (Indexing g) \<and> key_at s j = k)"
          using k keyi other key by metis
        with bs k b show ?thesis by simp
      qed
    qed
  next
    fix j l g h
    assume j: "at ?t j (Indexing g)" "at ?t l (Indexing h)" "key_at ?t j = key_at ?t l"
    show "j = l"
    proof (rule ccontr)
      assume ne: "j \<noteq> l"
      have keys: "key_at s j = key_at s l" using j key by metis
      show False
      proof (cases "j = i \<or> l = i")
        case True
        then have "phase_builds new \<noteq> None" using j(1,2) here_builds by auto
        with True ne j(1,2) keys others other show False by metis
      next
        case False
        then show False using other j(1,2) keys u ne by metis
      qed
    qed
  qed
  moreover have "arcs_ok ?t"
    unfolding arcs_ok_def m
  proof (intro conjI allI impI)
    show "(k, a) \<in> set (sy_built s1)" if "held (sy_manager s1) k = Some a" for k a
      using helds[OF that] a1 more by blast
    fix j ph a assume j: "at ?t j ph" "phase_arc ph = Some a"
    show "(key_at ?t j, a) \<in> set (sy_built s1)"
    proof (cases "j = i")
      case True
      with j at_unique[OF here] have "phase_arc new = Some a" by metis
      with arc True keyi show ?thesis by simp
    next
      case False
      from there[OF j(1) False] j(2) have "at s j ph" by auto
      with a2 j(2) more key[OF j(1)] show ?thesis by (metis subsetD)
    qed
  qed
  moreover have "waits_ok ?t"
    unfolding waits_ok_def m
  proof (intro allI impI)
    fix j c assume j: "at ?t j (Awaiting c)"
    show "im_in_progress (sy_manager s1) (key_at ?t j) = Some c \<or> (\<exists>l ph. at ?t l ph \<and> phase_notifies ph = Some c)"
    proof (cases "j = i")
      case True
      with j at_unique[OF here] waits_new keyi show ?thesis by metis
    next
      case False
      from there[OF j False] have sj: "at s j (Awaiting c)" by simp
      have nc: "n \<noteq> Some c" using j False sj after[where j = j and p = "Awaiting c"] by (auto split: if_splits)
      from w[OF sj] show ?thesis
      proof
        assume "im_in_progress (sy_manager s) (key_at s j) = Some c"
        from waits[OF this] here key[OF j] show ?thesis by metis
      next
        assume "\<exists>l ph. at s l ph \<and> phase_notifies ph = Some c"
        then obtain l ph where l: "at s l ph" "phase_notifies ph = Some c" by blast
        have "l \<noteq> i" using l notified nc at_unique[OF old] by metis
        moreover have "ph \<noteq> Awaiting d" for d using l(2) by auto
        ultimately have "at ?t l ph" using kept l(1) by metis
        with l(2) show ?thesis by blast
      qed
    qed
  qed
  ultimately show ?thesis using sound by (simp add: cache_inv_def m)
qed

section \<open>Every step keeps it\<close>

lemma inv_parts:
  assumes "cache_inv L s"
  shows "sound L (sy_manager s)" "entries_ok (sy_manager s)"
    "held (sy_manager s) k = Some a \<Longrightarrow> (k, a) \<in> set (sy_built s)"
    "at s i ph \<Longrightarrow> phase_arc ph = Some a \<Longrightarrow> (key_at s i, a) \<in> set (sy_built s)"
    "at s i (Indexing g) \<Longrightarrow> building (sy_manager s) (key_at s i) = Some g"
  using assms unfolding cache_inv_def arcs_ok_def builders_ok_def sound_def by blast+

lemma supported_cases: "(\<exists>err. supported q a = Returned (Inl err)) \<or> supported q a = Searching a"
  by (simp add: supported_def split: sum.splits)

lemma supported_phase: "phase_builds (supported q a) = None" "phase_notifies (supported q a) = None"
  "supported q a \<noteq> Awaiting c" "phase_arc (supported q a) = Some b \<Longrightarrow> b = a"
  using supported_cases[of q a] by auto

lemma inv_asked:
  assumes inv: "cache_inv L s" and i: "at s i (Asking d)"
  shows "cache_inv L (asked L late i d s)"
proof -
  let ?k = "key_at s i" and ?m = "sy_manager s" and ?cv = "sy_condvars s"
  note parts = inv_parts[OF inv]
  obtain dec m1 where acq: "acquire_or_reserve L late ?k d ?cv ?m = (dec, m1)" by fastforce
  let ?s1 = "s\<lparr> sy_manager := m1, sy_condvars := ?cv + 1 \<rparr>"
  have asked: "asked L late i d s = go i (decided (sy_searches s ! i) dec) (notify_all None ?s1)"
    by (simp add: asked_def acq)
  show ?thesis
  proof (cases "cached_snapshot L ?k ?m")
    case (Some p)
    obtain a m2 where p: "p = (a, m2)" by (cases p)
    with Some acq have dec: "dec = Hit a" "cached_snapshot L ?k ?m = Some (a, m1)"
      by (auto simp: acquire_or_reserve_def)
    note eff = cached_effects[OF dec(2) parts(1)]
    show ?thesis unfolding asked
      by (rule cache_inv_go[OF inv i])
        (use eff parts(3)[OF eff(5)] supported_phase[of "sy_searches s ! i" a] in
          \<open>auto simp: dec(1) decided_def\<close>)
  next
    case None
    with acq consider (stay) "m1 = ?m" "dec = Again \<or> (\<exists>err. dec = GiveUp err)"
      | (wait) c where "m1 = ?m" "dec = WaitFor c" "im_in_progress ?m ?k = Some c"
      | (build) g where "dec = Build g" "begin_build ?k ?cv ?m = (g, m1)" "state_for ?m ?k \<noteq> Building"
      unfolding acquire_or_reserve_def by (auto split: option.splits if_splits prod.splits)
    then show ?thesis
    proof cases
      case stay
      then show ?thesis unfolding asked
        by (intro cache_inv_go[OF inv i]) (use parts(1) in \<open>auto simp: decided_def\<close>)
    next
      case wait
      then show ?thesis unfolding asked
        by (intro cache_inv_go[OF inv i]) (use parts(1) in \<open>auto simp: decided_def\<close>)
    next
      case build
      have none: "building ?m ?k = None" using build(3) state_building[OF parts(2)] by blast
      note eff = begin_build_effects[OF build(2) parts(1) none]
      have "dom (im_in_progress ?m) = dom (building ?m)" using parts(1) by (simp add: sound_def)
      with none have free: "im_in_progress ?m ?k = None" by (metis domIff)
      show ?thesis unfolding asked
        by (rule cache_inv_go[OF inv i])
          (use eff none free in \<open>auto simp: build(1) decided_def\<close>)
    qed
  qed
qed

lemma inv_built: "cache_inv L s \<Longrightarrow> at s i (Indexing g) \<Longrightarrow> cache_inv L (built L i g sn s)"
proof -
  assume inv: "cache_inv L s" and i: "at s i (Indexing g)"
  let ?k = "key_at s i" and ?m = "sy_manager s"
  let ?a = "\<lparr> ar_address = sy_arcs s, ar_generation = g, ar_snapshot = sn \<rparr>"
  obtain b m1 where p: "publish_snapshot_if_absent L ?k ?a ?m = (b, m1)" by fastforce
  obtain c m2 where t: "take_in_progress_condvar ?k m1 = (c, m2)" by fastforce
  have "building ?m ?k \<noteq> None" using inv_parts(5)[OF inv i] by simp
  note eff = publish_effects[OF p t inv_parts(1)[OF inv] this]
  let ?s1 = "s\<lparr> sy_manager := m2, sy_arcs := sy_arcs s + 1, sy_built := sy_built s @ [(?k, ?a)] \<rparr>"
  have "cache_inv L (go i (Published c b) (notify_all None ?s1))"
    by (rule cache_inv_go[OF inv i]) (use eff in \<open>auto\<close>)
  then show ?thesis by (simp add: built_def Let_def p t)
qed

lemma inv_build_failed: "cache_inv L s \<Longrightarrow> at s i (Indexing g) \<Longrightarrow> cache_inv L (build_failed i g err s)"
proof -
  assume inv: "cache_inv L s" and i: "at s i (Indexing g)"
  let ?k = "key_at s i" and ?m = "sy_manager s"
  obtain c m1 where t: "take_in_progress_condvar ?k (record_build_failure ?k g err ?m) = (c, m1)" by fastforce
  note eff = failure_effects[OF inv_parts(5)[OF inv i] t inv_parts(1)[OF inv]]
  have "cache_inv L (go i (BuildFailed c err) (notify_all None (s\<lparr> sy_manager := m1 \<rparr>)))"
    by (rule cache_inv_go[OF inv i]) (use eff in \<open>auto\<close>)
  then show ?thesis by (simp add: build_failed_def Let_def t)
qed

lemma inv_quiet:
  \<comment> \<open>a step that only notifies and goes on\<close>
  assumes "cache_inv L s" "at s i old" "phase_builds old = None" "phase_builds new = None" "\<And>c. new \<noteq> Awaiting c"
    "\<And>a. phase_arc new = Some a \<Longrightarrow> phase_arc old = Some a" "\<And>c. phase_notifies old = Some c \<Longrightarrow> n = Some c"
  shows "cache_inv L (go i new (notify_all n s))"
  by (rule cache_inv_go[OF assms(1,2)])
    (use assms(3-7) inv_parts(1)[OF assms(1)] inv_parts(4)[OF assms(1,2)] in auto)

lemma inv_woke_up: "cache_inv L s \<Longrightarrow> at s i (Awaiting c) \<Longrightarrow> cache_inv L (woke_up timed_out i s)"
  using inv_quiet[of L s i "Awaiting c" "Returned (Inl timeout_error)" None] inv_quiet[of L s i "Awaiting c" "Asking True" None]
  by (simp add: woke_up_def)

lemma inv_validation_begun: "cache_inv L s \<Longrightarrow> at s i (Searching a) \<Longrightarrow> cache_inv L (validation_begun i a s)"
proof -
  assume inv: "cache_inv L s" and i: "at s i (Searching a)"
  obtain ad m1 where v: "begin_validation (key_at s i) a (sy_manager s) = (ad, m1)" by fastforce
  note eff = begin_validation_effects[OF v inv_parts(1)[OF inv]]
  have "cache_inv L (go i (Validating a ad) (notify_all None (s\<lparr> sy_manager := m1 \<rparr>)))"
    by (rule cache_inv_go[OF inv i]) (use eff inv_parts(4)[OF inv i] in auto)
  then show ?thesis by (simp add: validation_begun_def v)
qed

lemma inv_validated: "cache_inv L s \<Longrightarrow> at s i (Validating a ad) \<Longrightarrow> cache_inv L (validated i a r s)"
proof -
  assume inv: "cache_inv L s" and i: "at s i (Validating a ad)"
  show ?thesis
  proof (cases r)
    case (Inl err)
    note eff = validation_failure_effects[OF inv_parts(1)[OF inv], of "key_at s i" a err]
    have "cache_inv L (go i (Returned (Inl err))
        (notify_all None (s\<lparr> sy_manager := record_validation_failure (key_at s i) a err (sy_manager s) \<rparr>)))"
      by (rule cache_inv_go[OF inv i]) (use eff in auto)
    with Inl show ?thesis by (simp add: validated_def)
  next
    case (Inr v)
    obtain st m1 where c: "complete_validation (key_at s i) a (full_scope_ran v) (vr_file_set_newly_certified v) (sy_manager s) = (st, m1)"
      by fastforce
    note eff = complete_validation_effects[OF c inv_parts(1)[OF inv]]
    have "cache_inv L (go i (Returned (Inr a)) (notify_all None (s\<lparr> sy_manager := m1 \<rparr>)))"
      by (rule cache_inv_go[OF inv i]) (use eff inv_parts(4)[OF inv i] in auto)
    with Inr c show ?thesis by (simp add: validated_def)
  qed
qed

lemma inv_arrive:
  assumes inv: "cache_inv L s"
  shows "cache_inv L (s\<lparr> sy_searches := sy_searches s @ [\<lparr> se_key = k, se_require_utf8 = u, se_phase = Asking False \<rparr>] \<rparr>)"
    (is "cache_inv L ?t")
proof -
  have at: "at ?t j p \<longleftrightarrow> at s j p \<or> j = length (sy_searches s) \<and> p = Asking False" for j p
    by (auto simp: at_def nth_append)
  have key: "at s j p \<Longrightarrow> key_at ?t j = key_at s j" for j p by (simp add: at_def key_at_def nth_append)
  have builds: "at ?t j (Indexing g) \<longleftrightarrow> at s j (Indexing g)" for j g by (simp add: at)
  have "builders_ok ?t" using inv key unfolding cache_inv_def builders_ok_def builds by simp metis
  moreover have "arcs_ok ?t" using inv key unfolding cache_inv_def arcs_ok_def by (auto simp: at)
  moreover have "waits_ok ?t" using inv key unfolding cache_inv_def waits_ok_def by (simp add: at) metis
  ultimately show ?thesis using inv by (simp add: cache_inv_def)
qed

lemma step_cache_inv: "cache_step L s s1 \<Longrightarrow> cache_inv L s \<Longrightarrow> cache_inv L s1"
proof (induction rule: cache_step.induct)
  case (publish s i c a)
  then show ?case
    by (intro inv_quiet[OF publish(2,1)]) (use supported_phase[of "sy_searches s ! i" a] in auto)
next
  case (report s i c err)
  then show ?case by (intro inv_quiet[OF report(2,1)]) auto
next
  case (search_fails s i a err)
  then show ?case using inv_quiet[OF search_fails(2,1), of "Returned (Inl err)" None] by simp
qed (simp_all add: inv_arrive inv_asked inv_woke_up inv_built inv_build_failed inv_validation_begun inv_validated)

lemma reachable_cache_inv: "cache_reachable L s \<Longrightarrow> cache_inv L s"
proof (induction rule: cache_reachable.induct)
  case fresh
  have "\<not> at system_new i ph" for i ph by (simp add: at_def system_new_def)
  moreover have "building manager_new k = None" "held manager_new k = None" for k
    by (simp_all add: building_def held_def entry_of_def manager_new_def)
  ultimately show ?case
    by (simp add: cache_inv_def builders_ok_def arcs_ok_def waits_ok_def) (simp add: system_new_def sound_new)
qed (rule step_cache_inv)

section \<open>A run\<close>

definition demo_key :: index_key where
  "demo_key = \<lparr> ik_root = ''.'', ik_hidden = False, ik_follow = False, ik_no_ignore = False, ik_globs = [] \<rparr>"

definition demo_cache :: cache_limits where
  "demo_cache = cache_limits_from 8 0"

definition no_documents :: index_snapshot where
  "no_documents = \<lparr> sn_documents = [], sn_postings = Map.empty, sn_folded_postings = Map.empty,
     sn_indexed_bytes = 0, sn_all_content_utf8 = True \<rparr>"

definition demo_arc :: arc where
  "demo_arc = \<lparr> ar_address = 0, ar_generation = 1, ar_snapshot = no_documents \<rparr>"

definition arrived :: "system \<Rightarrow> system" where
  "arrived s = s\<lparr> sy_searches := sy_searches s @ [\<lparr> se_key = demo_key, se_require_utf8 = False, se_phase = Asking False \<rparr>] \<rparr>"

text \<open>Two searches of one key: the first builds the index, the second waits for it.\<close>

definition demo_waiting :: system where
  "demo_waiting = asked demo_cache False 1 False (asked demo_cache False 0 False (arrived (arrived system_new)))"

definition demo_done :: system where
  "demo_done = (let s = built demo_cache 0 1 no_documents demo_waiting in
     go 0 (supported (sy_searches s ! 0) demo_arc) (notify_all (Some 0) s))"

definition demo_failing :: "mem_error \<Rightarrow> system" where
  "demo_failing err = validated 0 demo_arc (Inl err) (validation_begun 0 demo_arc demo_done)"

definition key_entry :: "index_entry \<Rightarrow> entries" where
  "key_entry e = [(demo_key, e)]"

definition entry_building :: index_entry where
  "entry_building = entry_begin_build 1 entry_cold"

lemma demo_first: "asked demo_cache False 0 False (arrived (arrived system_new)) =
   \<lparr> sy_manager = \<lparr> im_next_generation = 2, im_entries = key_entry entry_building, im_access_order = [], im_evictions = 0,
       im_in_progress = Map.empty(demo_key \<mapsto> 0) \<rparr>,
     sy_searches = [\<lparr> se_key = demo_key, se_require_utf8 = False, se_phase = Indexing 1 \<rparr>,
       \<lparr> se_key = demo_key, se_require_utf8 = False, se_phase = Asking False \<rparr>],
     sy_condvars = 1, sy_arcs = 0, sy_built = [] \<rparr>"
  by (simp add: asked_def arrived_def system_new_def manager_new_def acquire_or_reserve_def cached_snapshot_def entry_of_def
      state_for_def begin_build_def put_entry_def entry_or_cold_def key_at_def decided_def go_def key_entry_def
      entry_building_def usize_max_def saturating_add_def)

lemma demo_waiting_state: "demo_waiting =
   \<lparr> sy_manager = \<lparr> im_next_generation = 2, im_entries = key_entry entry_building, im_access_order = [], im_evictions = 0,
       im_in_progress = Map.empty(demo_key \<mapsto> 0) \<rparr>,
     sy_searches = [\<lparr> se_key = demo_key, se_require_utf8 = False, se_phase = Indexing 1 \<rparr>,
       \<lparr> se_key = demo_key, se_require_utf8 = False, se_phase = Awaiting 0 \<rparr>],
     sy_condvars = 2, sy_arcs = 0, sy_built = [] \<rparr>"
  unfolding demo_waiting_def demo_first
  by (simp add: asked_def acquire_or_reserve_def cached_snapshot_def entry_of_def usable_snapshot_def
      state_for_def key_at_def decided_def go_def key_entry_def entry_building_def entry_begin_build_def has_usable_snapshot_def)

lemma demo_done_state: "demo_done =
   \<lparr> sy_manager = \<lparr> im_next_generation = 2, im_entries = key_entry (entry_publish demo_arc entry_building),
       im_access_order = [demo_key], im_evictions = 0, im_in_progress = Map.empty \<rparr>,
     sy_searches = [\<lparr> se_key = demo_key, se_require_utf8 = False, se_phase = Searching demo_arc \<rparr>,
       \<lparr> se_key = demo_key, se_require_utf8 = False, se_phase = Asking True \<rparr>],
     sy_condvars = 2, sy_arcs = 1, sy_built = [(demo_key, demo_arc)] \<rparr>"
  unfolding demo_done_def demo_waiting_state
  by (simp add: Let_def built_def publish_snapshot_if_absent_def cached_snapshot_def entry_of_def usable_snapshot_def
      key_entry_def entry_building_def entry_begin_build_def has_usable_snapshot_def key_at_def put_entry_def entry_or_cold_def
      touch_def evict_to_capacity_def exceeds_cache_limits_def demo_cache_def cache_limits_from_def ready_entry_count_def
      take_in_progress_condvar_def go_def notify_all_def woken_def supported_def ensure_snapshot_supports_query_def
      demo_arc_def requireE_def)


lemma demo_reachable:
  "cache_reachable demo_cache demo_waiting" "cache_reachable demo_cache demo_done" "cache_reachable demo_cache (demo_failing err)"
proof -
  let ?s1 = "arrived (arrived system_new)"
  have "cache_reachable demo_cache (arrived system_new)"
    unfolding arrived_def by (rule cache_reachable.step[OF cache_reachable.fresh cache_step.arrive])
  then have s1: "cache_reachable demo_cache ?s1"
    using cache_reachable.step[OF _ cache_step.arrive] unfolding arrived_def by blast
  have "at ?s1 0 (Asking False)" by (simp add: at_def arrived_def system_new_def)
  from cache_reachable.step[OF s1 cache_step.ask[OF this, of demo_cache False]]
  have s2: "cache_reachable demo_cache (asked demo_cache False 0 False ?s1)" .
  have "at (asked demo_cache False 0 False ?s1) 1 (Asking False)" unfolding demo_first by (simp add: at_def)
  from cache_reachable.step[OF s2 cache_step.ask[OF this, of demo_cache False]]
  show s3: "cache_reachable demo_cache demo_waiting" unfolding demo_waiting_def .
  have "at demo_waiting 0 (Indexing 1)" unfolding demo_waiting_state by (simp add: at_def)
  from cache_reachable.step[OF s3 cache_step.finish[OF this, of demo_cache no_documents]]
  have s4: "cache_reachable demo_cache (built demo_cache 0 1 no_documents demo_waiting)" .
  have "at (built demo_cache 0 1 no_documents demo_waiting) 0 (Published (Some 0) demo_arc)"
    unfolding demo_waiting_state
    by (simp add: at_def built_def Let_def publish_snapshot_if_absent_def cached_snapshot_def entry_of_def usable_snapshot_def
      key_entry_def entry_building_def entry_begin_build_def has_usable_snapshot_def key_at_def put_entry_def entry_or_cold_def
      touch_def evict_to_capacity_def exceeds_cache_limits_def demo_cache_def cache_limits_from_def ready_entry_count_def
      take_in_progress_condvar_def go_def demo_arc_def)
  from cache_reachable.step[OF s4 cache_step.publish[OF this]]
  show s5: "cache_reachable demo_cache demo_done" unfolding demo_done_def Let_def .
  have "at demo_done 0 (Searching demo_arc)" unfolding demo_done_state by (simp add: at_def)
  from cache_reachable.step[OF s5 cache_step.validate[OF this]]
  have s6: "cache_reachable demo_cache (validation_begun 0 demo_arc demo_done)" .
  let ?ad = "\<lparr> ad_force_full_scope = False, ad_file_set_certified = False \<rparr>"
  have "at (validation_begun 0 demo_arc demo_done) 0 (Validating demo_arc ?ad)"
    unfolding demo_done_state
    by (simp add: at_def validation_begun_def begin_validation_def entry_of_def key_entry_def key_at_def current_snapshot_is_def
      entry_publish_def put_entry_def go_def full_validation_due_def TARGETED_FRESHNESS_FULL_SCAN_INTERVAL_QUERIES_def)
  from cache_reachable.step[OF s6 cache_step.validated[OF this, of demo_cache False "Inl err" "Inl err"]]
  show "cache_reachable demo_cache (demo_failing err)"
    by (simp add: demo_failing_def validate_def bindE_def)
qed

section \<open>Who builds, who waits\<close>

text \<open>C13. However many searches arrive, an entry of the cache is in its building state exactly while one
  search builds its index, and never do two searches build the index of one key.\<close>

theorem cache_one_builder:
  assumes "cache_reachable L s"
  shows "if state_for (sy_manager s) k = Building then \<exists>!i. \<exists>g. at s i (Indexing g) \<and> key_at s i = k
    else \<not> (\<exists>i g. at s i (Indexing g) \<and> key_at s i = k)"
proof -
  note inv = reachable_cache_inv[OF assms]
  have b: "state_for (sy_manager s) k = Building \<longleftrightarrow> (\<exists>g. building (sy_manager s) k = Some g)"
    using state_building[OF inv_parts(2)[OF inv]] by auto
  from inv have "builders_ok s" by (simp add: cache_inv_def)
  then show ?thesis unfolding b builders_ok_def by (auto intro!: ex_ex1I) metis
qed

theorem cache_one_builder_witness:
  "state_for (sy_manager demo_waiting) demo_key = Building \<and> (\<exists>!i. \<exists>g. at demo_waiting i (Indexing g) \<and> key_at demo_waiting i = demo_key)"
proof -
  have b: "state_for (sy_manager demo_waiting) demo_key = Building"
    by (simp add: demo_waiting_state state_for_def entry_of_def key_entry_def entry_building_def entry_begin_build_def)
  with cache_one_builder[OF demo_reachable(1), of demo_key] show ?thesis by simp
qed

text \<open>C23. At every moment the snapshots that can be used are no more than the entries the cache may have,
  and together no larger than its bytes, however building, publishing and validating interleave.\<close>

theorem cache_within_limits:
  assumes "cache_reachable L s"
  shows "ready_entry_count (sy_manager s) \<le> cl_max_entries L
    \<and> (case cl_max_bytes L of None \<Rightarrow> True | Some mx \<Rightarrow> ready_cache_bytes (sy_manager s) \<le> mx)"
  using inv_parts(1)[OF reachable_cache_inv[OF assms]]
  by (auto simp: sound_def exceeds_cache_limits_def split: option.splits)

theorem cache_within_limits_witness:
  "ready_entry_count (sy_manager demo_done) = 1 \<and> ready_entry_count (sy_manager demo_done) \<le> 8"
proof -
  have "ready_entry_count (sy_manager demo_done) = 1"
    by (simp add: demo_done_state ready_entry_count_def key_entry_def has_ready_snapshot_def entry_publish_def has_usable_snapshot_def)
  then show ?thesis using cache_within_limits[OF demo_reachable(2)] by (simp add: demo_cache_def cache_limits_from_def)
qed

definition notifying :: "system \<Rightarrow> nat \<Rightarrow> nat \<Rightarrow> bool" where
  \<comment> \<open>the next step of the search wakes all that wait on the condition variable\<close>
  "notifying s j c \<longleftrightarrow> (\<exists>a. at s j (Published (Some c) a)) \<or> (\<exists>err. at s j (BuildFailed (Some c) err))"

lemma notifying_iff: "notifying s j c \<longleftrightarrow> (\<exists>ph. at s j ph \<and> phase_notifies ph = Some c)"
proof
  assume "\<exists>ph. at s j ph \<and> phase_notifies ph = Some c"
  then obtain ph where "at s j ph" "phase_notifies ph = Some c" by blast
  then show "notifying s j c" by (cases ph) (auto simp: notifying_def)
qed (auto simp: notifying_def)

lemma finished_notifies:
  assumes "cache_inv L s" "at s j (Indexing g)" "im_in_progress (sy_manager s) (key_at s j) = Some c"
  shows "notifying (built L j g sn s) j c" "notifying (build_failed j g err s) j c"
proof -
  let ?a = "\<lparr> ar_address = sy_arcs s, ar_generation = g, ar_snapshot = sn \<rparr>"
  have j: "j < length (sy_searches s)" using assms(2) by (simp add: at_def)
  obtain b m1 where p: "publish_snapshot_if_absent L (key_at s j) ?a (sy_manager s) = (b, m1)" by fastforce
  obtain d m2 where t: "take_in_progress_condvar (key_at s j) m1 = (d, m2)" by fastforce
  have ne: "building (sy_manager s) (key_at s j) \<noteq> None" using inv_parts(5)[OF assms(1,2)] by simp
  have "d = Some c" using publish_effects(6)[OF p t inv_parts(1)[OF assms(1)] ne] assms(3) by simp
  with j p t show "notifying (built L j g sn s) j c" by (simp add: built_def Let_def notifying_def at_def go_def)
  obtain d2 m3 where f: "take_in_progress_condvar (key_at s j) (record_build_failure (key_at s j) g err (sy_manager s)) = (d2, m3)"
    by fastforce
  have "d2 = Some c" using failure_effects(5)[OF inv_parts(5)[OF assms(1,2)] f inv_parts(1)[OF assms(1)]] assms(3) by simp
  with j f show "notifying (build_failed j g err s) j c" by (simp add: build_failed_def Let_def notifying_def at_def go_def)
qed

text \<open>C17. No search waits for ever: for each that waits there is another that is about to notify its
  condition variable, or that builds the index of its key and, however the build ends, then notifies
  it; and the notification puts the waiting search back to asking.  No notification can be missed
  between looking and waiting.\<close>

theorem waiting_is_woken:
  assumes "cache_reachable L s" "at s i (Awaiting c)"
  shows "\<exists>j. j \<noteq> i \<and> (notifying s j c \<or> (\<exists>g. at s j (Indexing g) \<and> key_at s j = key_at s i
    \<and> (\<forall>sn. notifying (built L j g sn s) j c) \<and> (\<forall>err. notifying (build_failed j g err s) j c)))
    \<and> at (notify_all (Some c) s) i (Asking True)"
proof -
  note inv = reachable_cache_inv[OF assms(1)]
  have wake: "at (notify_all (Some c) s) i (Asking True)"
    using assms(2) by (auto simp: at_def notify_all_def woken_def)
  have "im_in_progress (sy_manager s) (key_at s i) = Some c \<or> (\<exists>j. notifying s j c)"
    using inv assms(2) unfolding cache_inv_def waits_ok_def notifying_iff by blast
  then show ?thesis
  proof
    assume p: "im_in_progress (sy_manager s) (key_at s i) = Some c"
    have "dom (im_in_progress (sy_manager s)) = dom (building (sy_manager s))" using inv by (simp add: cache_inv_def sound_def)
    with p obtain g where "building (sy_manager s) (key_at s i) = Some g" by blast
    with inv obtain j where j: "at s j (Indexing g)" "key_at s j = key_at s i" unfolding cache_inv_def builders_ok_def by blast
    then have "j \<noteq> i" using assms(2) by (auto simp: at_def)
    with j p finished_notifies[OF inv j(1)] wake show ?thesis by metis
  next
    assume "\<exists>j. notifying s j c"
    then obtain j where j: "notifying s j c" by blast
    then have "j \<noteq> i" using assms(2) by (auto simp: notifying_def at_def)
    with j wake show ?thesis by blast
  qed
qed

theorem waiting_is_woken_witness:
  "\<exists>j. j \<noteq> 1 \<and> (notifying demo_waiting j 0 \<or> (\<exists>g. at demo_waiting j (Indexing g)
    \<and> (\<forall>sn. notifying (built demo_cache j g sn demo_waiting) j 0)))"
proof -
  have "at demo_waiting 1 (Awaiting 0)" by (simp add: demo_waiting_state at_def)
  from waiting_is_woken[OF demo_reachable(1) this] show ?thesis by blast
qed

text \<open>C29. The snapshot a search runs on, validates, or answers from was built for the key of that very
  search: its root, its globs and its switches.\<close>

theorem snapshot_of_own_key:
  assumes "cache_reachable L s" "at s i ph" "ph = Searching a \<or> (\<exists>ad. ph = Validating a ad) \<or> ph = Returned (Inr a)"
  shows "(key_at s i, a) \<in> set (sy_built s)"
  using inv_parts(4)[OF reachable_cache_inv[OF assms(1)] assms(2), of a] assms(3) by auto

theorem snapshot_of_own_key_witness: "(key_at demo_done 0, demo_arc) \<in> set (sy_built demo_done)"
proof -
  have "at demo_done 0 (Searching demo_arc)" by (simp add: demo_done_state at_def)
  from snapshot_of_own_key[OF demo_reachable(2) this] show ?thesis by simp
qed


end
