(* ===== verification/SearchProps.thy ===== *)
theory SearchProps
  imports SearchCandidates
begin

text \<open>
  What the index holds, and that the candidates are exactly the documents with all the trigrams: the
  postings of a trigram are the documents it occurs in, in order; the candidates of a literal are the
  documents that contain all its trigrams; those of an expression the documents it holds of.
\<close>

section \<open>Trigrams of a text\<close>

fun tris :: "bytes \<Rightarrow> trigram set" where
  "tris (a # b # c # rest) = insert (a, b, c) (tris (b # c # rest))"
| "tris _ = {}"

lemma set_trigram_loop: "set (trigram_loop s seen) = tris s - seen"
  by (induction s seen rule: trigram_loop.induct) auto

lemma set_literal_trigrams [simp]: "set (literal_trigrams s) = tris s"
  by (simp add: literal_trigrams_def set_trigram_loop)

lemma tris_empty_iff: "tris s = {} \<longleftrightarrow> length s < 3"
  by (induction s rule: tris.induct) auto

lemma tris_tl: "tris s \<subseteq> tris (a # s)"
  by (cases s rule: tris.cases) auto

lemma tris_append_left: "tris s \<subseteq> tris (a @ s)"
proof (induction a)
  case (Cons x a)
  then show ?case using tris_tl[of "a @ s" x] by auto
qed simp

lemma tris_append_right: "tris s \<subseteq> tris (s @ b)"
  by (induction s rule: tris.induct) auto

lemma tris_infix: "tris s \<subseteq> tris (a @ s @ b)"
  using tris_append_left[of "s @ b" a] tris_append_right[of s b] by blast

lemma tris_fold_infix: "tris (ascii_folded s) \<subseteq> tris (ascii_folded (a @ s @ b))"
  using tris_infix[of "ascii_folded s" "ascii_folded a" "ascii_folded b"] by (simp add: ascii_folded_def)

section \<open>The postings that are built\<close>

definition pushed :: "doc_id \<Rightarrow> trigram set \<Rightarrow> raw_postings \<Rightarrow> raw_postings" where
  "pushed d T m = (\<lambda>t. if t \<in> T then Some ((case m t of Some ds \<Rightarrow> ds | None \<Rightarrow> []) @ [d]) else m t)"

lemma pushed_empty [simp]: "pushed d {} m = m"
  by (simp add: pushed_def fun_eq_iff)

lemma pushed_entry: "t \<notin> T \<Longrightarrow> pushed d T (entry_push t d m) = pushed d (insert t T) m"
  by (auto simp: pushed_def entry_push_def fun_eq_iff)

lemma index_windows_pushed:
  assumes "s = a # b # c # rest" "folded = (to_lower a, to_lower b, to_lower c)"
  shows "index_windows d s folded seen fseen (p, fp)
    = (pushed d (tris s - seen) p, pushed d (tris (ascii_folded s) - fseen) fp)"
  using assms
proof (induction s arbitrary: a b c rest folded seen fseen p fp)
  case (Cons x s)
  let ?t = "(a, b, c)"
  have s: "s = b # c # rest" using Cons.prems by simp
  have one: "pushed d (T - insert u S) (if u \<in> S then m else entry_push u d m) = pushed d (insert u T - S) m"
    for T S :: "trigram set" and u m
  proof (cases "u \<in> S")
    case False
    then have "insert u (T - insert u S) = insert u T - S" by auto
    with False show ?thesis using pushed_entry[of u "T - insert u S" d m] by simp
  qed (simp add: insert_absorb)
  show ?case
  proof (cases rest)
    case Nil
    have "index_windows d s folded seen fseen q = q" for folded seen fseen q using s Nil by (cases q) simp
    then show ?thesis using Cons.prems s Nil one[of "{}" ?t seen p] one[of "{}" "(to_lower a, to_lower b, to_lower c)" fseen fp]
      by (simp add: Let_def ascii_folded_def)
  next
    case (Cons y r)
    let ?F = "(to_lower a, to_lower b, to_lower c)"
    have s4: "s = b # c # y # r" using s Cons by simp
    have IH: "index_windows d s (to_lower b, to_lower c, to_lower y) (insert ?t seen) (insert ?F fseen) (q, fq)
        = (pushed d (tris s - insert ?t seen) q, pushed d (tris (ascii_folded s) - insert ?F fseen) fq)" for q fq
      by (rule Cons.IH[OF s4 refl])
    have "index_windows d (a # s) ?F seen fseen (p, fp) = index_windows d s (to_lower b, to_lower c, to_lower y)
        (insert ?t seen) (insert ?F fseen)
        (if ?t \<in> seen then p else entry_push ?t d p, if ?F \<in> fseen then fp else entry_push ?F d fp)"
      by (simp only: s4 index_windows.simps(1)[of d a b c "y # r"] Let_def list.case fst_conv snd_conv)
    also have "\<dots> = (pushed d (insert ?t (tris s) - seen) p, pushed d (insert ?F (tris (ascii_folded s)) - fseen) fp)"
      unfolding IH by (simp only: one)
    also have "\<dots> = (pushed d (tris (a # s) - seen) p, pushed d (tris (ascii_folded (a # s)) - fseen) fp)"
      by (simp add: s4 ascii_folded_def)
    finally show ?thesis using Cons.prems by simp
  qed
qed simp

lemma index_document_pushed:
  "index_document_trigrams d s (p, fp) = (pushed d (tris s) p, pushed d (tris (ascii_folded s)) fp)"
proof (cases s rule: tris.cases)
  case (1 a b c rest)
  with index_windows_pushed[OF 1 refl, of d "{}" "{}" p fp] show ?thesis by (simp add: index_document_trigrams_def)
qed (simp_all add: index_document_trigrams_def ascii_folded_def)

definition holders :: "(bytes \<Rightarrow> trigram set) \<Rightarrow> document list \<Rightarrow> nat \<Rightarrow> trigram \<Rightarrow> doc_id list" where
  \<comment> \<open>the documents, numbered from \<open>i\<close>, in which a trigram occurs\<close>
  "holders T docs i t = map fst (filter (\<lambda>(j, doc). t \<in> T (dc_content doc)) (zip [i..<i + length docs] docs))"

lemma holders_Nil [simp]: "holders T [] i t = []"
  by (simp add: holders_def)

lemma holders_Cons:
  "holders T (doc # docs) i t = (if t \<in> T (dc_content doc) then [i] else []) @ holders T docs (Suc i) t"
  by (simp add: holders_def upt_conv_Cons del: upt_Suc)

definition with_holders :: "(bytes \<Rightarrow> trigram set) \<Rightarrow> document list \<Rightarrow> nat \<Rightarrow> raw_postings \<Rightarrow> raw_postings" where
  "with_holders T docs i m = (\<lambda>t. if holders T docs i t = [] then m t
     else Some ((case m t of Some ds \<Rightarrow> ds | None \<Rightarrow> []) @ holders T docs i t))"

lemma with_holders_Cons:
  "with_holders T docs (Suc i) (pushed i (T (dc_content doc)) m) = with_holders T (doc # docs) i m"
  by (auto simp: with_holders_def pushed_def holders_Cons fun_eq_iff)

lemma index_documents_holders:
  "index_documents i docs (p, fp) = Inr (p1, fp1) \<Longrightarrow>
     p1 = with_holders tris docs i p \<and> fp1 = with_holders (\<lambda>s. tris (ascii_folded s)) docs i fp"
proof (induction docs arbitrary: i p fp)
  case Nil
  then show ?case by (simp add: with_holders_def fun_eq_iff)
next
  case (Cons doc docs)
  then have "index_documents (Suc i) docs (pushed i (tris (dc_content doc)) p,
      pushed i (tris (ascii_folded (dc_content doc))) fp) = Inr (p1, fp1)"
    by (auto simp: bindE_Inr_iff doc_id_from_index_def index_document_pushed split: if_splits)
  from Cons.IH[OF this] show ?case
    using with_holders_Cons[of tris docs i doc p] with_holders_Cons[of "\<lambda>s. tris (ascii_folded s)" docs i doc fp] by simp
qed

lemma strictly_increasing_iff: "strictly_increasing ds \<longleftrightarrow> sorted_wrt (<) ds"
  by (induction ds rule: strictly_increasing.induct) (auto intro: less_trans)

lemma holders_ge: "j \<in> set (holders T docs i t) \<Longrightarrow> i \<le> j"
  by (auto simp: holders_def dest!: set_zip_leftD)

lemma holders_sorted: "sorted_wrt (<) (holders T docs i t)"
  by (induction docs arbitrary: i) (auto simp: holders_Cons dest!: holders_ge)

lemma set_holders:
  "set (holders T docs 0 t) = {d. d < length docs \<and> t \<in> T (dc_content (docs ! d))}"
proof -
  have "set (holders T docs i t) = {d. i \<le> d \<and> d < i + length docs \<and> t \<in> T (dc_content (docs ! (d - i)))}" for i
  proof (induction docs arbitrary: i)
    case (Cons doc docs)
    have "docs ! (d - Suc i) = (doc # docs) ! (d - i)" if "Suc i \<le> d" for d
      using that by (metis Suc_diff_le diff_Suc_Suc nth_Cons_Suc)
    then have "set (holders T docs (Suc i) t)
        = {d. Suc i \<le> d \<and> d < i + length (doc # docs) \<and> t \<in> T (dc_content ((doc # docs) ! (d - i)))}"
      unfolding Cons.IH by auto
    moreover have "{d. i \<le> d \<and> d < i + length (doc # docs) \<and> t \<in> T (dc_content ((doc # docs) ! (d - i)))}
        = (if t \<in> T (dc_content doc) then {i} else {})
          \<union> {d. Suc i \<le> d \<and> d < i + length (doc # docs) \<and> t \<in> T (dc_content ((doc # docs) ! (d - i)))}"
      by (auto simp: le_eq_less_or_eq Suc_le_eq)
    ultimately show ?case by (simp add: holders_Cons)
  qed simp
  then show ?thesis by simp
qed

definition index_ok :: "(bytes \<Rightarrow> trigram set) \<Rightarrow> document list \<Rightarrow> postings_index \<Rightarrow> bool" where
  \<comment> \<open>the postings of a trigram list the documents with it, in order, and there are none for a trigram
    of no document\<close>
  "index_ok T docs P \<longleftrightarrow> (\<forall>t. case P t of
       None \<Rightarrow> \<forall>doc \<in> set docs. t \<notin> T (dc_content doc)
     | Some p \<Rightarrow> ps_frequency p = length (postings_to_vec p) \<and> postings_to_vec p \<noteq> []
         \<and> sorted_wrt (<) (postings_to_vec p)
         \<and> set (postings_to_vec p) = {d. d < length docs \<and> t \<in> T (dc_content (docs ! d))})"

lemma postings_from_sorted:
  assumes "sorted_wrt (<) ds"
  shows "postings_to_vec (postings_from_doc_ids ds) = ds" "ps_frequency (postings_from_doc_ids ds) = length ds"
  using assms by (auto simp: postings_from_doc_ids_def postings_to_vec_def strictly_increasing_iff Let_def
      split: list.split)

lemma index_ok_built: "index_ok T docs (postings_index_from_raw (with_holders T docs 0 Map.empty))"
proof -
  have none: "holders T docs 0 t = [] \<Longrightarrow> \<forall>doc \<in> set docs. t \<notin> T (dc_content doc)" for t
    using set_holders[of T docs t] by (auto simp: in_set_conv_nth)
  show ?thesis unfolding index_ok_def
  proof
    fix t
    note post = postings_from_sorted[OF holders_sorted, of T docs 0 t]
    show "case postings_index_from_raw (with_holders T docs 0 Map.empty) t of
       None \<Rightarrow> \<forall>doc \<in> set docs. t \<notin> T (dc_content doc)
     | Some p \<Rightarrow> ps_frequency p = length (postings_to_vec p) \<and> postings_to_vec p \<noteq> []
         \<and> sorted_wrt (<) (postings_to_vec p)
         \<and> set (postings_to_vec p) = {d. d < length docs \<and> t \<in> T (dc_content (docs ! d))}"
      using none[of t] post holders_sorted[of T docs 0 t] set_holders[of T docs t]
      by (auto simp: postings_index_from_raw_def with_holders_def Let_def)
  qed
qed

definition snapshot_ok :: "index_snapshot \<Rightarrow> bool" where
  "snapshot_ok sn \<longleftrightarrow> index_ok tris (sn_documents sn) (sn_postings sn)
     \<and> index_ok (\<lambda>s. tris (ascii_folded s)) (sn_documents sn) (sn_folded_postings sn)"

lemma snapshot_of_ok: "snapshot_of docs n u = Inr sn \<Longrightarrow> snapshot_ok sn \<and> sn_documents sn = sort_key dc_rendered_path docs"
proof -
  assume "snapshot_of docs n u = Inr sn"
  then obtain p fp where "index_documents 0 (sort_key dc_rendered_path docs) (Map.empty, Map.empty) = Inr (p, fp)"
      "sn_documents sn = sort_key dc_rendered_path docs" "sn_postings sn = postings_index_from_raw p"
      "sn_folded_postings sn = postings_index_from_raw fp"
    by (auto simp: snapshot_of_def Let_def bindE_Inr_iff)
  with index_documents_holders[OF this(1)] index_ok_built show ?thesis by (simp add: snapshot_ok_def)
qed

section \<open>Sets of documents\<close>

lemma intersect_doc_id_sets_sorted:
  assumes "sorted_wrt (<) xs" "sorted_wrt (<) ys"
  shows "sorted_wrt (<) (intersect_doc_id_sets xs ys) \<and> set (intersect_doc_id_sets xs ys) = set xs \<inter> set ys"
  using assms
proof (induction xs ys rule: intersect_doc_id_sets.induct)
  case (1 x xs y ys)
  consider "x = y" | "x < y" | "y < x" by linarith
  then show ?case
  proof cases
    case 1
    with "1.IH"(1) "1.prems" show ?thesis by auto
  next
    case 2
    then have "x \<notin> set (y # ys)" using "1.prems"(2) by auto
    with 2 "1.IH"(2) "1.prems" show ?thesis by auto
  next
    case 3
    then have "y \<notin> set (x # xs)" using "1.prems"(1) by auto
    with 3 "1.IH"(3) "1.prems" show ?thesis by auto
  qed
qed auto

lemma intersect_loop_sorted:
  assumes "sorted_wrt (<) res" "list_all (sorted_wrt (<)) cs"
  shows "sorted_wrt (<) (intersect_loop res cs) \<and> set (intersect_loop res cs) = set res \<inter> (\<Inter>c \<in> set cs. set c)"
  using assms
proof (induction cs arbitrary: res)
  case (Cons c cs)
  let ?r = "intersect_doc_id_sets res c"
  have r: "sorted_wrt (<) ?r" "set ?r = set res \<inter> set c" using intersect_doc_id_sets_sorted[of res c] Cons.prems by auto
  show ?case
  proof (cases "?r = []")
    case True
    with r(2) have "set res \<inter> set c = {}" by simp
    with True show ?thesis by (auto simp: Let_def)
  next
    case False
    with Cons.IH[OF r(1)] Cons.prems r(2) show ?thesis by (auto simp: Let_def)
  qed
qed simp

lemma intersect_candidate_sets_sorted:
  assumes "list_all (sorted_wrt (<)) sets" "sets \<noteq> []"
  shows "sorted_wrt (<) (intersect_candidate_sets sets)
    \<and> set (intersect_candidate_sets sets) = (\<Inter>s \<in> set sets. set s)"
proof -
  obtain s ss where s: "sort_key length sets = s # ss" using assms(2) by (metis list.exhaust sort_key_simps(1) set_sort set_empty)
  have "set sets = set (s # ss)" by (metis s set_sort)
  with assms(1) intersect_loop_sorted[of s ss] show ?thesis
    by (simp add: intersect_candidate_sets_def s list_all_iff)
qed

lemma push_candidate_Inr: "push_candidate cs c mx = Inr r \<longleftrightarrow> r = cs @ [c] \<and> Suc (length cs) \<le> mx"
  by (auto simp: push_candidate_def ensure_candidate_limit_def bindE_Inr_iff)

lemma union_loop_sorted:
  assumes "union_loop xs ys m mx = Inr r" "sorted_wrt (<) xs" "sorted_wrt (<) ys" "sorted_wrt (<) m"
    "\<forall>a \<in> set m. \<forall>b \<in> set xs \<union> set ys. a < b"
  shows "sorted_wrt (<) r \<and> set r = set m \<union> set xs \<union> set ys"
  using assms
proof (induction xs ys m mx rule: union_loop.induct)
  case (1 merged mx)
  then show ?case by simp
next
  case (2 x xs merged mx)
  then have p: "push_candidate merged x mx = Inr (merged @ [x])" and u: "union_loop xs [] (merged @ [x]) mx = Inr r"
    by (auto simp: bindE_Inr_iff push_candidate_Inr)
  from "2.IH"[OF p u] "2.prems" show ?case by (auto simp: sorted_wrt_append)
next
  case (3 y ys merged mx)
  then have p: "push_candidate merged y mx = Inr (merged @ [y])" and u: "union_loop [] ys (merged @ [y]) mx = Inr r"
    by (auto simp: bindE_Inr_iff push_candidate_Inr)
  from "3.IH"[OF p u] "3.prems" show ?case by (auto simp: sorted_wrt_append)
next
  case (4 x xs y ys merged mx)
  consider "x = y" | "x < y" | "y < x" by linarith
  then show ?case
  proof cases
    case 1
    then have p: "push_candidate merged x mx = Inr (merged @ [x])" and u: "union_loop xs ys (merged @ [x]) mx = Inr r"
      using "4.prems" by (auto simp: bindE_Inr_iff push_candidate_Inr)
    from "4.IH"(1)[OF 1 p u] "4.prems" 1 show ?thesis by (auto simp: sorted_wrt_append)
  next
    case 2
    then have p: "push_candidate merged x mx = Inr (merged @ [x])" and u: "union_loop xs (y # ys) (merged @ [x]) mx = Inr r"
      and ne: "x \<noteq> y" using "4.prems" by (auto simp: bindE_Inr_iff push_candidate_Inr)
    have "\<forall>a \<in> set xs \<union> set (y # ys). x < a" using "4.prems" 2 by auto
    with "4.IH"(2)[OF ne 2 p u] "4.prems" show ?thesis by (auto simp: sorted_wrt_append)
  next
    case 3
    then have p: "push_candidate merged y mx = Inr (merged @ [y])" and u: "union_loop (x # xs) ys (merged @ [y]) mx = Inr r"
      and ne: "x \<noteq> y" "\<not> x < y" using "4.prems" by (auto simp: bindE_Inr_iff push_candidate_Inr)
    have "\<forall>a \<in> set (x # xs) \<union> set ys. y < a" using "4.prems" 3 by auto
    with "4.IH"(3)[OF ne p u] "4.prems" show ?thesis by (auto simp: sorted_wrt_append)
  qed
qed

lemma union_postings_sorted:
  assumes "union_postings xs ys mx = Inr r" "sorted_wrt (<) xs" "sorted_wrt (<) ys"
  shows "sorted_wrt (<) r \<and> set r = set xs \<union> set ys"
  using assms union_loop_sorted[of xs ys "[]" mx r]
  by (auto simp: union_postings_def bindE_Inr_iff split: if_splits)

section \<open>The candidates of a literal\<close>

lemma posting_lists_None:
  assumes "index_ok T docs P"
  shows "posting_lists P ts = None \<longleftrightarrow> (\<exists>t \<in> set ts. \<forall>doc \<in> set docs. t \<notin> T (dc_content doc))"
proof (induction ts)
  case (Cons t ts)
  note t = assms[unfolded index_ok_def, rule_format, of t]
  have "\<exists>doc \<in> set docs. t \<in> T (dc_content doc)" if "P t = Some p" for p
  proof -
    note tp = t[unfolded that option.case]
    then obtain d where "d \<in> set (postings_to_vec p)" by (cases "postings_to_vec p") auto
    then have "d < length docs" "t \<in> T (dc_content (docs ! d))" using tp by auto
    then show ?thesis by (auto intro: nth_mem)
  qed
  then have "P t = None \<longleftrightarrow> (\<forall>doc \<in> set docs. t \<notin> T (dc_content doc))"
    and "\<And>p. P t = Some p \<Longrightarrow> ps_frequency p \<noteq> 0"
    using t by (auto split: option.splits)
  then show ?case using Cons by (auto split: option.splits)
qed simp

lemma posting_lists_Some:
  "posting_lists P ts = Some ls \<Longrightarrow> map fst ls = ts \<and> (\<forall>(t, p) \<in> set ls. P t = Some p \<and> ps_frequency p \<noteq> 0)"
  by (induction ts arbitrary: ls) (auto split: option.splits if_splits)

definition fold_case :: "literal_case \<Rightarrow> bytes \<Rightarrow> bytes" where
  "fold_case lcase s = (case lcase of Sensitive \<Rightarrow> s | AsciiInsensitive \<Rightarrow> ascii_folded s)"

definition may_hold :: "literal_case \<Rightarrow> bytes \<Rightarrow> bytes \<Rightarrow> bool" where
  \<comment> \<open>the text has all the trigrams of the literal\<close>
  "may_hold lcase literal content \<longleftrightarrow> tris (fold_case lcase literal) \<subseteq> tris (fold_case lcase content)"

definition docs_with :: "index_snapshot \<Rightarrow> (bytes \<Rightarrow> bool) \<Rightarrow> doc_id set" where
  "docs_with sn Q = {d. d < length (sn_documents sn) \<and> Q (dc_content (sn_documents sn ! d))}"

lemma literal_postings:
  assumes "snapshot_ok sn" "3 \<le> length literal"
  shows "case literal_postings_by_selectivity sn literal lcase of
      None \<Rightarrow> docs_with sn (may_hold lcase literal) = {}
    | Some ls \<Rightarrow> ls \<noteq> [] \<and> list_all (\<lambda>(t, p). ps_frequency p = length (postings_to_vec p)
          \<and> postings_to_vec p \<noteq> [] \<and> sorted_wrt (<) (postings_to_vec p)) ls
        \<and> (\<Inter>(t, p) \<in> set ls. set (postings_to_vec p)) = docs_with sn (may_hold lcase literal)"
proof -
  define P where "P = (case lcase of Sensitive \<Rightarrow> sn_postings sn | AsciiInsensitive \<Rightarrow> sn_folded_postings sn)"
  let ?T = "\<lambda>s. tris (fold_case lcase s)"
  let ?docs = "sn_documents sn"
  let ?ts = "literal_trigrams (fold_case lcase literal)"
  have ok: "index_ok ?T ?docs P" using assms(1)
    by (cases lcase) (simp_all add: snapshot_ok_def P_def fold_case_def)
  have eq: "literal_postings_by_selectivity sn literal lcase
      = map_option (sort_key (\<lambda>(t, p). (ps_frequency p, t))) (posting_lists P ?ts)"
    by (cases lcase) (simp_all add: literal_postings_by_selectivity_def P_def fold_case_def)
  show ?thesis
  proof (cases "posting_lists P ?ts")
    case None
    then obtain t where "t \<in> ?T literal" "\<forall>doc \<in> set ?docs. t \<notin> ?T (dc_content doc)"
      using posting_lists_None[OF ok] by auto
    then show ?thesis using None by (auto simp: eq docs_with_def may_hold_def)
  next
    case (Some ls)
    note ls = posting_lists_Some[OF Some]
    have "?ts \<noteq> []"
      using tris_empty_iff[of "fold_case lcase literal"] assms(2)
      by (cases lcase) (auto simp: fold_case_def ascii_folded_def simp flip: set_literal_trigrams)
    then have "ls \<noteq> []" using ls by auto
    have ts: "tris (fold_case lcase literal) = fst ` set ls" using ls by (metis set_map set_literal_trigrams)
    note \<open>ls \<noteq> []\<close>
    moreover have each: "ps_frequency p = length (postings_to_vec p) \<and> postings_to_vec p \<noteq> []
        \<and> sorted_wrt (<) (postings_to_vec p)
        \<and> set (postings_to_vec p) = {d. d < length ?docs \<and> t \<in> ?T (dc_content (?docs ! d))}"
      if "(t, p) \<in> set ls" for t p
    proof -
      have "P t = Some p" using ls that by auto
      then show ?thesis using ok[unfolded index_ok_def, rule_format, of t] by simp
    qed
    moreover have "(\<Inter>(t, p) \<in> set ls. set (postings_to_vec p)) = docs_with sn (may_hold lcase literal)"
    proof -
      have "(\<Inter>(t, p) \<in> set ls. set (postings_to_vec p))
          = (\<Inter>(t, p) \<in> set ls. {d. d < length ?docs \<and> t \<in> ?T (dc_content (?docs ! d))})"
        using each by (auto intro!: INF_cong)
      also have "\<dots> = (\<Inter>t \<in> set ?ts. {d. d < length ?docs \<and> t \<in> ?T (dc_content (?docs ! d))})"
        by (simp add: ts case_prod_beta)
      also have "\<dots> = docs_with sn (may_hold lcase literal)"
        using \<open>?ts \<noteq> []\<close> by (auto simp: docs_with_def may_hold_def simp flip: set_empty)
      finally show ?thesis .
    qed
    ultimately show ?thesis using Some
      by (auto simp: eq list_all_iff simp del: set_sort dest: arg_cong[of _ _ set] simp: set_sort)
  qed
qed

lemma candidates_for_literal_exact:
  assumes "snapshot_ok sn" "3 \<le> length literal"
  shows "case candidates_for_literal sn literal lcase mx of
      Inl err \<Rightarrow> err = max_candidates_exceeded_error \<and> mx < card (docs_with sn (may_hold lcase literal))
    | Inr cs \<Rightarrow> sorted_wrt (<) cs \<and> set cs = docs_with sn (may_hold lcase literal)"
proof -
  let ?D = "docs_with sn (may_hold lcase literal)"
  have limited: "case bindE (ensure_candidate_limit (length cs) mx) (\<lambda>_. Inr cs) of
        Inl err \<Rightarrow> err = max_candidates_exceeded_error \<and> mx < card ?D
      | Inr cs \<Rightarrow> sorted_wrt (<) cs \<and> set cs = ?D"
    if "sorted_wrt (<) cs" "set cs = ?D" for cs
  proof -
    have "card ?D = length cs" using that strict_sorted_iff distinct_card by metis
    then show ?thesis using that by (simp add: ensure_candidate_limit_def requireE_def)
  qed
  note lists = literal_postings[OF assms, of lcase]
  show ?thesis
  proof (cases "literal_postings_by_selectivity sn literal lcase")
    case None
    with lists show ?thesis by (simp add: candidates_for_literal_def)
  next
    case (Some ls)
    note ls = lists[unfolded Some option.case]
    then obtain t p rest where cons: "ls = (t, p) # rest" by (metis list.exhaust old.prod.exhaust)
    show ?thesis
    proof (cases rest)
      case Nil
      with ls cons limited[of "postings_to_vec p"] show ?thesis by (simp add: candidates_for_literal_def Some)
    next
      case (Cons q qs)
      have "\<not> list_ex (\<lambda>(t, p). ps_frequency p = 0) ls" using ls by (auto simp: list_ex_iff list_all_iff)
      then have "intersect_postings ls
          = intersect_loop (postings_to_vec p) (map (\<lambda>(t, p). postings_to_vec p) rest)"
        by (simp add: intersect_postings_def cons)
      moreover have "list_all (sorted_wrt (<)) (map (\<lambda>(t, p). postings_to_vec p) rest)"
        using ls by (auto simp: list_all_iff cons)
      ultimately have "sorted_wrt (<) (intersect_postings ls) \<and> set (intersect_postings ls) = ?D"
        using intersect_loop_sorted[of "postings_to_vec p" "map (\<lambda>(t, p). postings_to_vec p) rest"] ls
        by (simp add: cons case_prod_beta)
      with limited[of "intersect_postings ls"] show ?thesis
        by (simp add: candidates_for_literal_def Some cons Cons Let_def)
    qed
  qed
qed

lemma literal_estimate_zero:
  assumes "snapshot_ok sn" "3 \<le> length literal" "literal_candidate_estimate sn literal lcase = 0"
  shows "docs_with sn (may_hold lcase literal) = {}"
  using literal_postings[OF assms(1,2), of lcase] assms(3)
  by (auto simp: literal_candidate_estimate_def list_all_iff split: option.splits list.splits)

section \<open>The candidates of an expression\<close>

fun expr_wf :: "candidate_expr \<Rightarrow> bool" where
  "expr_wf (Seed s) \<longleftrightarrow> 3 \<le> length s"
| "expr_wf (AndExpr es) \<longleftrightarrow> es \<noteq> [] \<and> list_all expr_wf es"
| "expr_wf (OrExpr es) \<longleftrightarrow> list_all expr_wf es"

fun expr_may_hold :: "candidate_expr \<Rightarrow> bytes \<Rightarrow> bool" where
  "expr_may_hold (Seed s) content \<longleftrightarrow> may_hold Sensitive s content"
| "expr_may_hold (AndExpr es) content \<longleftrightarrow> list_all (\<lambda>e. expr_may_hold e content) es"
| "expr_may_hold (OrExpr es) content \<longleftrightarrow> list_ex (\<lambda>e. expr_may_hold e content) es"

lemma min_estimate_zero: "ns \<noteq> [] \<Longrightarrow> min_estimate ns = 0 \<longleftrightarrow> 0 \<in> set ns"
  by (induction ns rule: min_estimate.induct) (auto simp: min_def)

lemma saturating_sum_zero: "saturating_sum ns = 0 \<longleftrightarrow> set ns \<subseteq> {0}"
proof -
  have "fold (\<lambda>n acc. saturating_add acc n) ns a = 0 \<longleftrightarrow> a = 0 \<and> set ns \<subseteq> {0}" for a
    by (induction ns arbitrary: a) (auto simp: saturating_add_def usize_max_def)
  then show ?thesis by (simp add: saturating_sum_def)
qed

lemma expr_estimate_zero:
  assumes "snapshot_ok sn" "expr_wf e" "candidate_expr_estimated_docs sn e = 0"
  shows "docs_with sn (expr_may_hold e) = {}"
  using assms(2,3)
proof (induction e rule: expr_wf.induct)
  case (1 s)
  then have "docs_with sn (may_hold Sensitive s) = {}" using literal_estimate_zero[OF assms(1)] by simp
  then show ?case by (simp add: docs_with_def)
next
  case (2 es)
  then obtain e where "e \<in> set es" "candidate_expr_estimated_docs sn e = 0"
    using min_estimate_zero[of "map (candidate_expr_estimated_docs sn) es"] by auto
  with 2 have "docs_with sn (expr_may_hold e) = {}" by (auto simp: list_all_iff)
  with \<open>e \<in> set es\<close> show ?case by (auto simp: docs_with_def list_all_iff)
next
  case (3 es)
  then have "\<forall>e \<in> set es. docs_with sn (expr_may_hold e) = {}"
    using saturating_sum_zero[of "map (candidate_expr_estimated_docs sn) es"] by (auto simp: list_all_iff)
  then show ?case by (auto simp: docs_with_def list_ex_iff)
qed

lemma and_sets_Inr:
  "and_sets rs = Inr r \<Longrightarrow> case r of
      None \<Rightarrow> Inr [] \<in> set rs
    | Some sets \<Rightarrow> rs = map Inr sets"
proof (induction rs arbitrary: r)
  case (Cons x rs)
  then show ?case by (cases x) (fastforce simp: bindE_Inr_iff split: if_splits option.splits)+
qed simp

lemma or_sets_Inr:
  assumes "or_sets cs rs mx = Inr r" "sorted_wrt (<) cs" "\<forall>s. Inr s \<in> set rs \<longrightarrow> sorted_wrt (<) s"
  shows "\<exists>sets. rs = map Inr sets \<and> sorted_wrt (<) r \<and> set r = set cs \<union> (\<Union>s \<in> set sets. set s)"
  using assms
proof (induction rs arbitrary: cs)
  case Nil
  then show ?case by auto
next
  case (Cons x rs)
  then obtain s cs1 where s: "x = Inr s" "union_postings cs s mx = Inr cs1" "or_sets cs1 rs mx = Inr r"
    by (auto simp: bindE_Inr_iff)
  with Cons.prems have u: "sorted_wrt (<) cs1" "set cs1 = set cs \<union> set s" using union_postings_sorted by auto
  with Cons.IH[OF s(3)] Cons.prems(3) obtain sets where "rs = map Inr sets" "sorted_wrt (<) r"
      "set r = set cs1 \<union> (\<Union>s \<in> set sets. set s)" by auto
  with s(1) u(2) show ?case by (intro exI[of _ "s # sets"]) auto
qed

lemma candidates_for_expr_exact:
  assumes "snapshot_ok sn" "expr_wf e" "candidates_for_candidate_expr sn e mx = Inr cs"
  shows "sorted_wrt (<) cs \<and> set cs = docs_with sn (expr_may_hold e)"
  using assms
proof (induction sn e mx arbitrary: cs rule: candidates_for_candidate_expr.induct)
  case (1 sn s mx)
  then obtain c where "candidates_for_literal sn s Sensitive mx = Inr c" "cs = c"
    by (auto simp: bindE_Inr_iff)
  with candidates_for_literal_exact[OF "1.prems"(1), where literal = s and lcase = Sensitive and mx = mx] "1.prems"(2) show ?case
    by (simp add: docs_with_def)
next
  case (2 sn es mx)
  let ?f = "\<lambda>e. candidates_for_candidate_expr sn e mx"
  have wf: "expr_wf e" if "e \<in> set es" for e using 2 that by (auto simp: list_all_iff)
  show ?case
  proof (cases "list_ex (\<lambda>e. candidate_expr_estimated_docs sn e = 0) es")
    case True
    then obtain e where "e \<in> set es" "candidate_expr_estimated_docs sn e = 0" by (auto simp: list_ex_iff)
    with expr_estimate_zero[OF "2.prems"(1) wf] have "docs_with sn (expr_may_hold e) = {}" by auto
    with \<open>e \<in> set es\<close> True "2.prems"(3) show ?thesis by (auto simp: docs_with_def list_all_iff)
  next
    case False
    then obtain r where r: "and_sets (map ?f (by_selectivity sn es)) = Inr r"
        "(case r of None \<Rightarrow> Inr [] | Some sets \<Rightarrow> (let c = intersect_candidate_sets sets in
            bindE (ensure_candidate_limit (length c) mx) (\<lambda>_. Inr c))) = Inr cs"
      using "2.prems"(3) by (auto simp: bindE_Inr_iff)
    have IH: "sorted_wrt (<) c \<and> set c = docs_with sn (expr_may_hold e)" if "e \<in> set es" "?f e = Inr c" for e c
      using "2.IH"[OF False _ "2.prems"(1) wf[OF that(1)] that(2)] that(1) by simp
    show ?thesis
    proof (cases r)
      case None
      then obtain e where "e \<in> set es" "?f e = Inr []" using and_sets_Inr[OF r(1)] by auto
      from IH[OF this] this(1) None r(2) show ?thesis by (auto simp: docs_with_def list_all_iff)
    next
      case (Some sets)
      then have sets: "map ?f (by_selectivity sn es) = map Inr sets" using and_sets_Inr[OF r(1)] by simp
      have cs: "cs = intersect_candidate_sets sets" using r(2) Some by (auto simp: Let_def bindE_Inr_iff)
      have img: "Inr ` set sets = ?f ` set es" using sets by (metis set_by_selectivity set_map)
      have each: "\<exists>e \<in> set es. ?f e = Inr c" if "c \<in> set sets" for c
        using img that by (metis imageE image_eqI)
      have some: "\<exists>c \<in> set sets. ?f e = Inr c" if "e \<in> set es" for e
        using img that by (metis (mono_tags, lifting) imageE image_eqI)
      have "sets \<noteq> []" using img "2.prems"(2) by auto
      moreover have "list_all (sorted_wrt (<)) sets" using each IH by (auto simp: list_all_iff)
      ultimately have "sorted_wrt (<) cs \<and> set cs = (\<Inter>c \<in> set sets. set c)"
        using intersect_candidate_sets_sorted[of sets] by (simp add: cs)
      moreover have "set ` set sets = (\<lambda>e. docs_with sn (expr_may_hold e)) ` set es" (is "?L = ?R")
      proof
        show "?L \<subseteq> ?R" using each IH by (metis (mono_tags, lifting) image_eqI image_subsetI)
        show "?R \<subseteq> ?L" using some IH by (metis (mono_tags, lifting) image_eqI image_subsetI)
      qed
      moreover have "es \<noteq> []" using "2.prems"(2) by simp
      ultimately have "sorted_wrt (<) cs \<and> set cs = (\<Inter>e \<in> set es. docs_with sn (expr_may_hold e))"
        and "hd es \<in> set es" by simp_all
      moreover from this(2) have "(\<Inter>e \<in> set es. docs_with sn (expr_may_hold e)) = docs_with sn (expr_may_hold (AndExpr es))"
        by (auto simp: docs_with_def list_all_iff)
      ultimately show ?thesis by metis
    qed
  qed
next
  case (3 sn es mx)
  let ?f = "\<lambda>e. candidates_for_candidate_expr sn e mx"
  have o: "or_sets [] (map ?f (by_selectivity sn es)) mx = Inr cs" using "3.prems"(3) by (auto simp: bindE_Inr_iff)
  have IH: "sorted_wrt (<) c \<and> set c = docs_with sn (expr_may_hold e)" if "e \<in> set es" "?f e = Inr c" for e c
    using "3.IH"[OF _ "3.prems"(1) _ that(2)] "3.prems"(2) that(1) by (simp add: list_all_iff)
  have "\<forall>s. Inr s \<in> set (map ?f (by_selectivity sn es)) \<longrightarrow> sorted_wrt (<) s"
  proof (intro allI impI)
    fix c assume "Inr c \<in> set (map ?f (by_selectivity sn es))"
    then obtain e where "e \<in> set es" "?f e = Inr c" by (metis (mono_tags) imageE set_by_selectivity set_map)
    with IH show "sorted_wrt (<) c" by blast
  qed
  with or_sets_Inr[OF o] obtain sets where sets: "map ?f (by_selectivity sn es) = map Inr sets" "sorted_wrt (<) cs"
      "set cs = (\<Union>s \<in> set sets. set s)" by auto
  have img: "Inr ` set sets = ?f ` set es" using sets(1) by (metis set_by_selectivity set_map)
  have each: "\<exists>e \<in> set es. ?f e = Inr c" if "c \<in> set sets" for c
    using img that by (metis imageE image_eqI)
  have some: "\<exists>c \<in> set sets. ?f e = Inr c" if "e \<in> set es" for e
    using img that by (metis (mono_tags, lifting) imageE image_eqI)
   have "set ` set sets = (\<lambda>e. docs_with sn (expr_may_hold e)) ` set es" (is "?L = ?R")
      proof
        show "?L \<subseteq> ?R" using each IH by (metis (mono_tags, lifting) image_eqI image_subsetI)
        show "?R \<subseteq> ?L" using some IH by (metis (mono_tags, lifting) image_eqI image_subsetI)
      qed
  with sets show ?case by (auto simp: docs_with_def list_ex_iff)
qed

end
