(* ===== verification/EditDistance.thy ===== *)
theory EditDistance
  imports SearchFuzzy
begin

text \<open>
  The banded edit distance is the edit distance, as far as the bound reaches: the reference recursion
  over prefixes, the edit scripts it counts, and the invariant of the rows of the band.
\<close>

section \<open>The reference\<close>

fun prefix_distance :: "'a list \<Rightarrow> 'a list \<Rightarrow> nat \<Rightarrow> nat \<Rightarrow> nat" where
  \<comment> \<open>the distance of the first \<open>i\<close> elements of one list from the first \<open>j\<close> of the other\<close>
  "prefix_distance xs ys 0 j = j"
| "prefix_distance xs ys (Suc i) 0 = Suc i"
| "prefix_distance xs ys (Suc i) (Suc j) =
     min (min (Suc (prefix_distance xs ys i (Suc j))) (Suc (prefix_distance xs ys (Suc i) j)))
       (prefix_distance xs ys i j + (if xs ! i = ys ! j then 0 else 1))"

definition edit_distance :: "'a list \<Rightarrow> 'a list \<Rightarrow> nat" where
  "edit_distance xs ys = prefix_distance xs ys (length xs) (length ys)"

inductive edits :: "nat \<Rightarrow> 'a list \<Rightarrow> 'a list \<Rightarrow> bool" where
  \<comment> \<open>so many insertions, deletions and substitutions turn the one list into the other\<close>
  none: "edits 0 [] []"
| keep: "edits n xs ys \<Longrightarrow> edits n (xs @ [x]) (ys @ [x])"
| delete: "edits n xs ys \<Longrightarrow> edits (Suc n) (xs @ [x]) ys"
| insert: "edits n xs ys \<Longrightarrow> edits (Suc n) xs (ys @ [y])"
| replace: "edits n xs ys \<Longrightarrow> edits (Suc n) (xs @ [x]) (ys @ [y])"

lemma edits_from_empty: "edits (length ys) [] ys"
  by (induction ys rule: rev_induct) (auto intro: edits.intros)

lemma edits_to_empty: "edits (length xs) xs []"
  by (induction xs rule: rev_induct) (auto intro: edits.intros)

lemma prefix_distance_row0 [simp]: "prefix_distance xs ys i 0 = i"
  by (cases i) simp_all

lemma edits_prefix_distance:
  "i \<le> length xs \<Longrightarrow> j \<le> length ys \<Longrightarrow> edits (prefix_distance xs ys i j) (take i xs) (take j ys)"
proof (induction xs ys i j rule: prefix_distance.induct)
  case (1 xs ys j)
  then show ?case using edits_from_empty[of "take j ys"] by simp
next
  case (2 xs ys i)
  then show ?case using edits_to_empty[of "take (Suc i) xs"] by simp
next
  case (3 xs ys i j)
  have xs: "take (Suc i) xs = take i xs @ [xs ! i]" and ys: "take (Suc j) ys = take j ys @ [ys ! j]"
    using 3(4,5) by (simp_all add: take_Suc_conv_app_nth)
  have d: "edits (Suc (prefix_distance xs ys i (Suc j))) (take (Suc i) xs) (take (Suc j) ys)"
    unfolding xs using 3 by (auto intro: edits.delete)
  have i: "edits (Suc (prefix_distance xs ys (Suc i) j)) (take (Suc i) xs) (take (Suc j) ys)"
    unfolding ys using 3 by (auto intro: edits.insert)
  have s: "edits (prefix_distance xs ys i j + (if xs ! i = ys ! j then 0 else 1)) (take (Suc i) xs) (take (Suc j) ys)"
    unfolding xs ys using 3 by (auto intro: edits.keep edits.replace)
  show ?case using d i s by (simp add: min_def)
qed

lemma prefix_distance_append:
  "i \<le> length xs \<Longrightarrow> j \<le> length ys \<Longrightarrow> prefix_distance (xs @ a) (ys @ b) i j = prefix_distance xs ys i j"
  by (induction xs ys i j rule: prefix_distance.induct) (auto simp: nth_append)

lemma edit_distance_snoc:
  "edit_distance (xs @ [x]) (ys @ [y]) = min (min (Suc (edit_distance xs (ys @ [y]))) (Suc (edit_distance (xs @ [x]) ys)))
     (edit_distance xs ys + (if x = y then 0 else 1))"
  using prefix_distance_append[of "length xs" xs "Suc (length ys)" "ys @ [y]" "[x]" "[]"]
    prefix_distance_append[of "Suc (length xs)" "xs @ [x]" "length ys" ys "[]" "[y]"]
    prefix_distance_append[of "length xs" xs "length ys" ys "[x]" "[y]"]
  by (simp add: edit_distance_def)

lemma edit_distance_empty [simp]: "edit_distance [] ys = length ys" "edit_distance xs [] = length xs"
  by (simp_all add: edit_distance_def)

lemma edit_distance_delete: "edit_distance (xs @ [x]) ys \<le> Suc (edit_distance xs ys)"
  by (cases ys rule: rev_cases) (simp_all add: edit_distance_snoc)

lemma edit_distance_insert: "edit_distance xs (ys @ [y]) \<le> Suc (edit_distance xs ys)"
  by (cases xs rule: rev_cases) (simp_all add: edit_distance_snoc)

lemma edit_distance_le: "edits n xs ys \<Longrightarrow> edit_distance xs ys \<le> n"
proof (induction rule: edits.induct)
  case (delete n xs ys x)
  then show ?case using edit_distance_delete[of xs x ys] by simp
next
  case (insert n xs ys y)
  then show ?case using edit_distance_insert[of xs ys y] by simp
qed (auto simp: edit_distance_snoc min_le_iff_disj)

lemma edit_distance_edits: "edits (edit_distance xs ys) xs ys"
  using edits_prefix_distance[of "length xs" xs "length ys" ys] by (simp add: edit_distance_def)

lemma edits_length: "edits n xs ys \<Longrightarrow> length xs \<le> length ys + n \<and> length ys \<le> length xs + n"
  by (induction rule: edits.induct) auto

lemma edit_distance_length: "edit_distance xs ys \<le> d \<Longrightarrow> length xs \<le> length ys + d \<and> length ys \<le> length xs + d"
  using edits_length[OF edit_distance_edits, of xs ys] by simp

lemma edits_0: "edits n xs ys \<Longrightarrow> n = 0 \<Longrightarrow> xs = ys"
  by (induction rule: edits.induct) auto

lemma edits_split_end:
  "edits n xs ys \<Longrightarrow> \<exists>n1 n2 ys1 ys2. ys = ys1 @ ys2 \<and> n = n1 + n2 \<and> edits n1 xs ys1 \<and> edits n2 [] ys2"
  by (intro exI[of _ n] exI[of _ 0] exI[of _ ys] exI[of _ "[]"]) (simp add: edits.none)

lemma edits_split:
  "edits n (xs @ zs) ys \<Longrightarrow> \<exists>n1 n2 ys1 ys2. ys = ys1 @ ys2 \<and> n = n1 + n2 \<and> edits n1 xs ys1 \<and> edits n2 zs ys2"
proof (induction n "xs @ zs" ys arbitrary: zs rule: edits.induct)
  case none
  then show ?case using edits_split_end[OF edits.none] by auto
next
  case (keep n us ys x)
  show ?case
  proof (cases zs rule: rev_cases)
    case Nil
    with keep have "edits n xs (ys @ [x])" using edits.keep[OF keep(1), of x] by simp
    from edits_split_end[OF this] Nil show ?thesis by simp
  next
    case (snoc zs' z)
    with keep have "us = xs @ zs'" "z = x" by auto
    from keep.hyps(2)[OF this(1)] obtain n1 n2 ys1 ys2 where
      "ys = ys1 @ ys2" "n = n1 + n2" "edits n1 xs ys1" "edits n2 zs' ys2" by blast
    with snoc \<open>z = x\<close> show ?thesis using edits.keep[of n2 zs' ys2 x] by (metis append_assoc)
  qed
next
  case (delete n us ys x)
  show ?case
  proof (cases zs rule: rev_cases)
    case Nil
    with delete have "edits (Suc n) xs ys" using edits.delete[OF delete(1), of x] by simp
    from edits_split_end[OF this] Nil show ?thesis by simp
  next
    case (snoc zs' z)
    with delete have "us = xs @ zs'" "z = x" by auto
    from delete.hyps(2)[OF this(1)] obtain n1 n2 ys1 ys2 where
      "ys = ys1 @ ys2" "n = n1 + n2" "edits n1 xs ys1" "edits n2 zs' ys2" by blast
    with snoc \<open>z = x\<close> show ?thesis using edits.delete[of n2 zs' ys2 x] by (metis add_Suc_right)
  qed
next
  case (insert n ys y)
  from insert.hyps(2) obtain n1 n2 ys1 ys2 where
    "ys = ys1 @ ys2" "n = n1 + n2" "edits n1 xs ys1" "edits n2 zs ys2" by blast
  then show ?case using edits.insert[of n2 zs ys2 y] by (metis add_Suc_right append_assoc)
next
  case (replace n us ys x y)
  show ?case
  proof (cases zs rule: rev_cases)
    case Nil
    with replace have "edits (Suc n) xs (ys @ [y])" using edits.replace[OF replace(1), of x y] by simp
    from edits_split_end[OF this] Nil show ?thesis by simp
  next
    case (snoc zs' z)
    with replace have "us = xs @ zs'" "z = x" by auto
    from replace.hyps(2)[OF this(1)] obtain n1 n2 ys1 ys2 where
      "ys = ys1 @ ys2" "n = n1 + n2" "edits n1 xs ys1" "edits n2 zs' ys2" by blast
    with snoc \<open>z = x\<close> show ?thesis using edits.replace[of n2 zs' ys2 x y] by (metis add_Suc_right append_assoc)
  qed
qed

lemma edits_untouched_segment:
  \<comment> \<open>fewer edits than segments leave one of the segments whole, not further away than the edits shift it\<close>
  "edits n (concat segs) ys \<Longrightarrow> n < length segs \<Longrightarrow>
     \<exists>k a b. k < length segs \<and> ys = a @ segs ! k @ b
       \<and> length a \<le> length (concat (take k segs)) + n \<and> length (concat (take k segs)) \<le> length a + n"
proof (induction segs arbitrary: n ys)
  case (Cons s segs)
  from edits_split[of n s "concat segs" ys] Cons.prems(1) obtain n1 n2 ys1 ys2 where
    e: "ys = ys1 @ ys2" "n = n1 + n2" "edits n1 s ys1" "edits n2 (concat segs) ys2" by auto
  show ?case
  proof (cases "n1 = 0")
    case True
    with e(3) have "ys1 = s" using edits_0 by blast
    then have "ys = [] @ (s # segs) ! 0 @ ys2" using e(1) by simp
    then show ?thesis by (intro exI[of _ 0] exI[of _ "[]"] exI[of _ ys2]) simp
  next
    case False
    with Cons.prems(2) e(2) have "n2 < length segs" by simp
    from Cons.IH[OF e(4) this] obtain k a b where k: "k < length segs" "ys2 = a @ segs ! k @ b"
      "length a \<le> length (concat (take k segs)) + n2" "length (concat (take k segs)) \<le> length a + n2" by blast
    then show ?thesis using e edits_length[OF e(3)]
      by (intro exI[of _ "Suc k"] exI[of _ "ys1 @ a"] exI[of _ b]) simp
  qed
qed simp

section \<open>The band\<close>

lemma prefix_distance_row: "j \<le> length ys \<Longrightarrow> \<exists>j' \<le> j. prefix_distance xs ys i j' \<le> prefix_distance xs ys (Suc i) j"
proof (induction j)
  case 0
  then show ?case by (intro exI[of _ 0]) simp
next
  case (Suc j)
  let ?D = "prefix_distance xs ys"
  consider "?D (Suc i) (Suc j) = Suc (?D i (Suc j))" | "?D (Suc i) (Suc j) = Suc (?D (Suc i) j)"
    | "?D i j \<le> ?D (Suc i) (Suc j)" unfolding prefix_distance.simps(3) by linarith
  then show ?case
  proof cases
    case 1
    then show ?thesis by (intro exI[of _ "Suc j"]) simp
  next
    case 2
    from Suc obtain j' where "j' \<le> j" "?D i j' \<le> ?D (Suc i) j" by auto
    with 2 show ?thesis by (intro exI[of _ j']) simp
  next
    case 3
    then show ?thesis by (intro exI[of _ j]) simp
  qed
qed

lemma prefix_distance_rows:
  "i \<le> m \<Longrightarrow> j \<le> length ys \<Longrightarrow> \<exists>j' \<le> j. prefix_distance xs ys i j' \<le> prefix_distance xs ys m j"
proof (induction m arbitrary: j rule: dec_induct)
  case (step m)
  from prefix_distance_row[OF step.prems, of xs m] obtain j1 where
    j1: "j1 \<le> j" "prefix_distance xs ys m j1 \<le> prefix_distance xs ys (Suc m) j" by blast
  with step.IH[of j1] step.prems show ?case by (meson le_trans)
qed blast

lemma prefix_distance_diff: "i \<le> prefix_distance xs ys i j + j \<and> j \<le> prefix_distance xs ys i j + i"
  by (induction xs ys i j rule: prefix_distance.induct) (auto simp: min_def)

definition band_ok :: "'a list \<Rightarrow> 'a list \<Rightarrow> nat \<Rightarrow> nat \<Rightarrow> nat list \<Rightarrow> bool" where
  \<comment> \<open>the row holds the distances within the band, and the limit just above it\<close>
  "band_ok xs ys d i row \<longleftrightarrow> length row = length ys + 1
     \<and> (\<forall>j \<le> length ys. i \<le> j + d \<and> j \<le> i + d + 1 \<longrightarrow> row ! j = min (prefix_distance xs ys i j) (d + 1))"

lemma fill_columns_length:
  "length (fst (fill_columns x right limit previous cols current rm)) = length current"
  by (induction cols arbitrary: current rm) (simp_all add: Let_def)

lemma cell_min:
  fixes d :: nat
  assumes "d + 2 \<le> usize_max"
  shows "min (min (min (saturating_add (min a (d + 1)) 1) (d + 1)) (min (saturating_add (min b (d + 1)) 1) (d + 1)))
      (min (saturating_add (min c (d + 1)) (if P then 1 else 0)) (d + 1))
    = min (min (min (Suc a) (Suc b)) (c + (if P then 1 else 0))) (d + 1)"
  using assms by (auto simp: saturating_add_def min_def)

lemma fill_columns_row:
  assumes "c \<ge> 1" "e \<le> length ys + 1" "c \<le> e" "length current = length ys + 1"
    "d + 2 \<le> usize_max" "i < length xs" "limit = d + 1"
    "\<forall>j. c - 1 \<le> j \<and> j < e \<longrightarrow> prev ! j = min (prefix_distance xs ys i j) (d + 1)"
    "current ! (c - 1) = min (prefix_distance xs ys (Suc i) (c - 1)) (d + 1)"
    "fill_columns (xs ! i) ys limit prev [c..<e] current rm = (new, rm')"
  shows "(\<forall>j. j \<le> length ys \<longrightarrow> new ! j =
      (if c \<le> j \<and> j < e then min (prefix_distance xs ys (Suc i) j) (d + 1) else current ! j))
    \<and> rm' \<le> rm \<and> (\<forall>j. c \<le> j \<and> j < e \<longrightarrow> rm' \<le> prefix_distance xs ys (Suc i) j)
    \<and> rm' \<in> insert rm ((\<lambda>j. min (prefix_distance xs ys (Suc i) j) (d + 1)) ` {c..<e})"
  using assms(3,1,2,4-)
proof (induction c arbitrary: current rm rule: inc_induct)
  case base
  then show ?case by simp
next
  case (step c)
  let ?D = "prefix_distance xs ys (Suc i)"
  define best where "best = min (?D c) (d + 1)"
  obtain c' where c: "c = Suc c'" using step.prems(1) by (cases c) auto
  have up: "[c..<e] = c # [Suc c..<e]" using step.hyps by (simp add: upt_conv_Cons)
  have cells: "prev ! c = min (prefix_distance xs ys i c) (d + 1)"
      "prev ! (c - 1) = min (prefix_distance xs ys i (c - 1)) (d + 1)"
    using step.prems(7) step.hyps by auto
  have b: "min (min (min (saturating_add (prev ! c) 1) limit) (min (saturating_add (current ! (c - 1)) 1) limit))
      (min (saturating_add (prev ! (c - 1)) (if xs ! i \<noteq> ys ! (c - 1) then 1 else 0)) limit) = best"
    unfolding cells step.prems(6,8) using cell_min[OF step.prems(4)] by (simp add: best_def c)
  have run: "fill_columns (xs ! i) ys limit prev [Suc c..<e] (current[c := best]) (min rm best) = (new, rm')"
    using step.prems(9) unfolding up fill_columns.simps Let_def b .
  have at: "current[c := best] ! (Suc c - 1) = min (?D (Suc c - 1)) (d + 1)"
    using step.hyps step.prems(2,3) by (simp add: best_def)
  have IH: "(\<forall>j. j \<le> length ys \<longrightarrow> new ! j =
      (if Suc c \<le> j \<and> j < e then min (?D j) (d + 1) else current[c := best] ! j))
    \<and> rm' \<le> min rm best \<and> (\<forall>j. Suc c \<le> j \<and> j < e \<longrightarrow> rm' \<le> ?D j)
    \<and> rm' \<in> insert (min rm best) ((\<lambda>j. min (?D j) (d + 1)) ` {Suc c..<e})"
    by (rule step.IH[OF _ _ _ _ _ _ _ at run]) (use step.prems in auto)
  have split: "c \<le> j \<and> j < e \<longleftrightarrow> j = c \<or> (Suc c \<le> j \<and> j < e)" for j using step.hyps by auto
  have "rm' \<in> insert rm ((\<lambda>j. min (?D j) (d + 1)) ` {c..<e})"
  proof -
    have "{c..<e} = insert c {Suc c..<e}" using step.hyps by auto
    then show ?thesis using IH by (auto simp: best_def min_def split: if_splits)
  qed
  moreover have "new ! j = (if c \<le> j \<and> j < e then min (?D j) (d + 1) else current ! j)" if "j \<le> length ys" for j
    using IH that step.prems(3) unfolding split by (auto simp: best_def nth_list_update)
  moreover have "rm' \<le> ?D j" if "c \<le> j \<and> j < e" for j
    using IH that unfolding split by (auto simp: best_def)
  ultimately show ?case using IH by simp
qed

lemma edit_row_band:
  assumes band: "band_ok xs ys d i prev" and len: "length current = length ys + 1"
    and i: "i < length xs" and close: "length xs \<le> length ys + d" and big: "length xs + d + 2 \<le> usize_max"
    and row: "edit_row (xs ! i) ys d (d + 1) (Suc i) prev current = (new, rm)"
  shows "band_ok xs ys d (Suc i) new
    \<and> (d < rm \<longleftrightarrow> (\<forall>j \<le> length ys. d < prefix_distance xs ys (Suc i) j))"
proof -
  let ?D = "prefix_distance xs ys (Suc i)"
  define lo where "lo = max (Suc i - d) 1"
  define hi where "hi = min (Suc i + d) (length ys)"
  define first where "first = (if Suc i \<le> d then Suc i else d + 1)"
  define cur1 where "cur1 = current[0 := first]"
  define cur2 where "cur2 = (if lo \<le> hi \<and> lo > 1 then cur1[lo - 1 := d + 1] else cur1)"
  obtain cur3 where fill: "fill_columns (xs ! i) ys (d + 1) prev [lo..<hi + 1] cur2 first = (cur3, rm)"
      and new: "new = (if hi < length ys then cur3[hi + 1 := d + 1] else cur3)"
    using row i big unfolding edit_row_def Let_def lo_def hi_def first_def cur1_def cur2_def
    by (auto split: prod.splits)
  have hi: "hi \<le> length ys" by (simp add: hi_def)
  have lens: "length cur1 = length ys + 1" "length cur2 = length ys + 1" by (simp_all add: cur1_def cur2_def len)
  have lo: "lo \<ge> 1" "lo \<le> hi + 1" using i close by (auto simp: lo_def hi_def)
  have zero: "first = min (?D 0) (d + 1)" by (simp add: first_def)
  have left: "cur2 ! (lo - 1) = min (?D (lo - 1)) (d + 1)" if "lo \<le> hi"
  proof (cases "lo = 1")
    case True
    then show ?thesis using zero len by (simp add: cur2_def cur1_def)
  next
    case False
    then have "lo = Suc i - d" "lo > 1" using lo(1) by (auto simp: lo_def)
    then have "d + 1 \<le> ?D (lo - 1)" using prefix_distance_diff[of "Suc i" xs ys "lo - 1"] by linarith
    then show ?thesis using that \<open>lo > 1\<close> lens hi by (simp add: cur2_def)
  qed
  have prev: "\<forall>j. lo - 1 \<le> j \<and> j < hi + 1 \<longrightarrow> prev ! j = min (prefix_distance xs ys i j) (d + 1)"
  proof (intro allI impI)
    fix j assume "lo - 1 \<le> j \<and> j < hi + 1"
    then have "j \<le> length ys" "i \<le> j + d" "j \<le> i + d + 1" by (auto simp: lo_def hi_def)
    with band show "prev ! j = min (prefix_distance xs ys i j) (d + 1)" by (simp add: band_ok_def)
  qed
  have main: "(\<forall>j. j \<le> length ys \<longrightarrow> cur3 ! j = (if lo \<le> j \<and> j < hi + 1 then min (?D j) (d + 1) else cur2 ! j))
    \<and> rm \<le> first \<and> (\<forall>j. lo \<le> j \<and> j < hi + 1 \<longrightarrow> rm \<le> ?D j)
    \<and> rm \<in> insert first ((\<lambda>j. min (?D j) (d + 1)) ` {lo..<hi + 1})"
  proof (cases "lo \<le> hi")
    case True
    show ?thesis
      by (rule fill_columns_row[OF lo(1) _ lo(2) lens(2) _ i refl prev left[OF True] fill]) (use hi big in auto)
  next
    case False
    then have "lo = hi + 1" using lo(2) by simp
    then show ?thesis using fill by simp
  qed
  have l3: "length cur3 = length ys + 1" using fill_columns_length[of "xs ! i" ys "d + 1" prev "[lo..<hi + 1]" cur2 first] fill lens by simp
  have cells: "new ! j = min (?D j) (d + 1)" if j: "j \<le> length ys" "Suc i \<le> j + d" "j \<le> Suc i + d + 1" for j
  proof (cases "lo \<le> j \<and> j \<le> hi")
    case True
    then have "new ! j = cur3 ! j" using l3 by (simp add: new)
    then show ?thesis using main True j by simp
  next
    case out: False
    show ?thesis
    proof (cases "j = 0")
      case True
      then have "lo = 1" using j(2) by (simp add: lo_def)
      then show ?thesis using True main zero len l3 by (simp add: new cur2_def cur1_def nth_list_update)
    next
      case False
      then have "lo \<le> j" using j(2) by (auto simp: lo_def)
      then have "hi < j" using out by simp
      then have "j = Suc i + d + 1" "hi = Suc i + d" "hi < length ys" using j by (auto simp: hi_def)
      then show ?thesis using prefix_distance_diff[of "Suc i" xs ys j] l3 by (simp add: new min_def)
    qed
  qed
  have ln: "length new = length ys + 1" by (simp add: new l3)
  have "d < rm \<longleftrightarrow> (\<forall>j \<le> length ys. d < ?D j)"
  proof
    assume rm: "d < rm"
    show "\<forall>j \<le> length ys. d < ?D j"
    proof (intro allI impI, rule ccontr)
      fix j assume j: "j \<le> length ys" and "\<not> d < ?D j"
      then have "?D j \<le> d" by simp
      then have near: "Suc i \<le> j + d" "j \<le> Suc i + d" using prefix_distance_diff[of "Suc i" xs ys j] by linarith+
      show False
      proof (cases "j = 0")
        case True
        then show False using main rm \<open>?D j \<le> d\<close> zero by simp
      next
        case False
        then have "lo \<le> j \<and> j < hi + 1" using near j by (auto simp: lo_def hi_def)
        then show False using main rm \<open>?D j \<le> d\<close> by fastforce
      qed
    qed
  next
    assume all: "\<forall>j \<le> length ys. d < ?D j"
    have "d < first" using all zero by auto
    moreover have "d < min (?D j) (d + 1)" if "j \<in> {lo..<hi + 1}" for j using all that hi by simp
    ultimately show "d < rm" using main by auto
  qed
  then show ?thesis using cells ln by (simp add: band_ok_def)
qed

lemma edit_rows_distance:
  assumes "band_ok xs ys d i prev" "length current = length ys + 1" "i \<le> length xs"
    "length xs \<le> length ys + d" "length ys \<le> length xs + d" "length xs + d + 2 \<le> usize_max"
  shows "edit_rows (drop i xs) ys d (d + 1) i prev current
    = (if edit_distance xs ys \<le> d then Some (edit_distance xs ys) else None)"
  using assms(3,1,2,4-)
proof (induction i arbitrary: prev current rule: inc_induct)
  case base
  then have "prev ! length ys = min (edit_distance xs ys) (d + 1)" by (simp add: band_ok_def edit_distance_def)
  then show ?case by (simp add: min_def)
next
  case (step i)
  have i: "i < length xs" using step.hyps by simp
  then have up: "drop i xs = xs ! i # drop (Suc i) xs" by (simp add: Cons_nth_drop_Suc)
  obtain new rm where row: "edit_row (xs ! i) ys d (d + 1) (Suc i) prev current = (new, rm)" by fastforce
  note band = edit_row_band[OF step.prems(1,2) i step.prems(3,5) row]
  have lp: "length prev = length ys + 1" using step.prems(1) by (simp add: band_ok_def)
  show ?case
  proof (cases "d < rm")
    case True
    then have "\<forall>j \<le> length ys. d < prefix_distance xs ys (Suc i) j" using band by simp
    moreover obtain j where "j \<le> length ys" "prefix_distance xs ys (Suc i) j \<le> edit_distance xs ys"
      using prefix_distance_rows[of "Suc i" "length xs" "length ys" ys xs] i by (auto simp: edit_distance_def)
    ultimately have "d < edit_distance xs ys" by (meson le_less_trans not_less)
    then show ?thesis using True by (simp add: up row[simplified])
  next
    case False
    moreover have "edit_rows (drop (Suc i) xs) ys d (d + 1) (Suc i) new prev
        = (if edit_distance xs ys \<le> d then Some (edit_distance xs ys) else None)"
      using step.IH[OF _ lp] band step.prems by blast
    ultimately show ?thesis by (simp add: up row[simplified])
  qed
qed

lemma bounded_edit_distance_eq:
  assumes "length xs + d + 2 \<le> usize_max"
  shows "bounded_edit_distance xs ys d = (if edit_distance xs ys \<le> d then Some (edit_distance xs ys) else None)"
proof (cases "abs_diff (length xs) (length ys) > d")
  case True
  then have "\<not> edit_distance xs ys \<le> d" using edit_distance_length[of xs ys d] by (auto simp: abs_diff_def)
  with True show ?thesis by (simp add: bounded_edit_distance_def)
next
  case False
  then have close: "length xs \<le> length ys + d" "length ys \<le> length xs + d" by (auto simp: abs_diff_def)
  let ?prev = "map (\<lambda>j. if j < min (length ys) d + 1 then j else d + 1) [0..<length ys + 1]"
  have "band_ok xs ys d 0 ?prev" by (auto simp: band_ok_def min_def nth_append simp del: upt_Suc)
  then have rows: "edit_rows xs ys d (d + 1) 0 ?prev (replicate (length ys + 1) (d + 1))
      = (if edit_distance xs ys \<le> d then Some (edit_distance xs ys) else None)"
    using edit_rows_distance[of xs ys d 0 ?prev "replicate (length ys + 1) (d + 1)"] close assms by simp
  have lim: "saturating_add d 1 = d + 1" using assms by simp
  show ?thesis unfolding bounded_edit_distance_def Let_def lim if_not_P[OF False] by (rule rows)
qed

end
