(* ===== verification/FuzzyProps.thy ===== *)
theory FuzzyProps
  imports EditDistance
begin

text \<open>
  Seeding loses no fuzzy match: every partition cuts the pattern into one segment more than there may
  be edits, so a match keeps one segment whole, and the starts around the occurrences of the segments
  include its start.
\<close>

section \<open>Partitions\<close>

fun chain :: "nat \<Rightarrow> (nat \<times> nat) list \<Rightarrow> nat \<Rightarrow> bool" where
  \<comment> \<open>non-empty ranges, one behind the other\<close>
  "chain s [] e \<longleftrightarrow> s = e"
| "chain s ((a, b) # rs) e \<longleftrightarrow> a = s \<and> a < b \<and> chain b rs e"

lemma chain_le: "chain s rs e \<Longrightarrow> s \<le> e"
  by (induction s rs e rule: chain.induct) auto

lemma fold_inv: "P s \<Longrightarrow> (\<And>x s. x \<in> set xs \<Longrightarrow> P s \<Longrightarrow> P (f x s)) \<Longrightarrow> P (fold f xs s)"
  by (induction xs arbitrary: s) auto

lemma set_ordered_seed_ends:
  "e \<in> set (ordered_seed_end_scalars offs start r) \<Longrightarrow>
     start < e \<and> e \<le> length offs - 1 \<and> 3 \<le> seed_byte_len offs start e"
  by (auto simp: ordered_seed_end_scalars_def Let_def image_iff intro: diff_le_mono2)

definition segmented :: "nat list \<Rightarrow> nat \<Rightarrow> nat \<Rightarrow> (nat \<times> nat) list \<Rightarrow> fuzzy_seed_partition \<Rightarrow> bool" where
  "segmented offs start n ranges p \<longleftrightarrow> fp_byte_offsets p = offs
     \<and> (\<exists>rs. fp_ranges p = ranges @ rs \<and> length rs = n \<and> chain start rs (length offs - 1)
          \<and> (\<forall>(a, b) \<in> set rs. 3 \<le> seed_byte_len offs a b))"

lemma collect_segmented:
  "start \<le> length offs - 1 \<Longrightarrow> p \<in> set (collect_partition_seed_ranges offs start n ranges parts) \<Longrightarrow>
     p \<in> set parts \<or> segmented offs start n ranges p"
proof (induction n arbitrary: start ranges parts p)
  case (Suc r)
  show ?case
  proof (cases "MAX_FUZZY_SEED_PARTITION_PLANS \<le> length parts")
    case True
    with Suc.prems show ?thesis by simp
  next
    case room: False
    show ?thesis
    proof (cases "r = 0")
      case True
      then show ?thesis using Suc.prems room
        by (fastforce simp: segmented_def seed_byte_len_def Let_def le_eq_less_or_eq split: if_splits)
    next
      case False
      let ?f = "\<lambda>e ps. collect_partition_seed_ranges offs e r (ranges @ [(start, e)]) ps"
      have "\<forall>q \<in> set (fold ?f (ordered_seed_end_scalars offs start (Suc r)) parts).
          q \<in> set parts \<or> segmented offs start (Suc r) ranges q"
      proof (rule fold_inv[where P = "\<lambda>ps. \<forall>q \<in> set ps. q \<in> set parts \<or> segmented offs start (Suc r) ranges q"])
        fix e ps
        assume e: "e \<in> set (ordered_seed_end_scalars offs start (Suc r))"
          and ps: "\<forall>q \<in> set ps. q \<in> set parts \<or> segmented offs start (Suc r) ranges q"
        note e = set_ordered_seed_ends[OF e]
        have "segmented offs start (Suc r) ranges q" if "segmented offs e r (ranges @ [(start, e)]) q" for q
        proof -
          from that obtain rs where rs: "fp_byte_offsets q = offs" "fp_ranges q = (ranges @ [(start, e)]) @ rs"
            "length rs = r" "chain e rs (length offs - 1)" "\<forall>(a, b) \<in> set rs. 3 \<le> seed_byte_len offs a b"
            by (auto simp: segmented_def)
          then show ?thesis unfolding segmented_def using e by (intro conjI exI[of _ "(start, e) # rs"]) auto
        qed
        then show "\<forall>q \<in> set (?f e ps). q \<in> set parts \<or> segmented offs start (Suc r) ranges q"
          using Suc.IH[of e _ "ranges @ [(start, e)]" ps] e ps by blast
      qed simp
      then show ?thesis using Suc.prems room False by simp
    qed
  qed
qed simp

lemma length_offsets [simp]: "length (offsets_from n cs) = length cs + 1"
  by (induction cs arbitrary: n) simp_all

lemma nth_offsets: "k \<le> length cs \<Longrightarrow> offsets_from n cs ! k = n + length (concat (take k cs))"
proof (induction cs arbitrary: n k)
  case (Cons c cs)
  then show ?case by (cases k) simp_all
qed simp

lemma partition_segmented:
  assumes "p \<in> set (fuzzy_seed_partitions pattern d)"
  shows "segmented (pattern_byte_offsets pattern) 0 (d + 1) [] p"
  using assms collect_segmented[of 0 "pattern_byte_offsets pattern" p "d + 1" "[]" "[]"]
  by (simp add: fuzzy_seed_partitions_def Let_def pattern_byte_offsets_def split: if_splits)

definition segment :: "'a list \<Rightarrow> nat \<times> nat \<Rightarrow> 'a list" where
  "segment xs = (\<lambda>(a, b). take (b - a) (drop a xs))"

lemma chain_segments:
  "chain s rs e \<Longrightarrow> e \<le> length xs \<Longrightarrow> s \<le> e \<and> concat (map (segment xs) rs) = take (e - s) (drop s xs)
     \<and> (\<forall>k < length rs. s + length (concat (take k (map (segment xs) rs))) = fst (rs ! k))"
proof (induction rs arbitrary: s)
  case (Cons r rs)
  obtain a b where r: "r = (a, b)" by fastforce
  with Cons.prems have ab: "a = s" "s < b" "chain b rs e" by auto
  from Cons.IH[OF ab(3) Cons.prems(2)] have IH: "b \<le> e" "concat (map (segment xs) rs) = take (e - b) (drop b xs)"
    "\<forall>k < length rs. b + length (concat (take k (map (segment xs) rs))) = fst (rs ! k)" by auto
  have "take (e - s) (drop s xs) = take (b - s) (drop s xs) @ take (e - b) (drop b xs)"
    using take_add[of "b - s" "e - b" "drop s xs"] ab IH(1) by simp
  moreover have "length (segment xs (s, b)) = b - s" using ab IH(1) Cons.prems(2) by (simp add: segment_def)
  ultimately show ?case using IH ab by (auto simp: r segment_def nth_Cons split: nat.split)
qed auto

lemma segmented_seeds:
  assumes "p \<in> set (fuzzy_seed_partitions pattern d)"
  shows "length (fp_ranges p) = d + 1" "concat (map (segment pattern) (fp_ranges p)) = pattern"
    "k \<le> d \<Longrightarrow> length (concat (take k (map (segment pattern) (fp_ranges p)))) = fst (fp_ranges p ! k)"
    "r \<in> set (fp_ranges p) \<Longrightarrow> segment pattern r \<noteq> []"
proof -
  from partition_segmented[OF assms] have c: "length (fp_ranges p) = d + 1" "chain 0 (fp_ranges p) (length pattern)"
    "\<forall>(a, b) \<in> set (fp_ranges p). 3 \<le> seed_byte_len (pattern_byte_offsets pattern) a b"
    by (auto simp: segmented_def pattern_byte_offsets_def)
  note s = chain_segments[OF c(2), of pattern, simplified]
  show "length (fp_ranges p) = d + 1" "concat (map (segment pattern) (fp_ranges p)) = pattern"
    "k \<le> d \<Longrightarrow> length (concat (take k (map (segment pattern) (fp_ranges p)))) = fst (fp_ranges p ! k)"
    using c(1) s by auto
  show "segment pattern r \<noteq> []" if r: "r \<in> set (fp_ranges p)"
  proof -
    have "chain s rs e \<Longrightarrow> (a, b) \<in> set rs \<Longrightarrow> a < b \<and> b \<le> e" for s rs e a b
    proof (induction rs arbitrary: s)
      case (Cons q rs)
      obtain a' b' where q: "q = (a', b')" by fastforce
      show ?case using Cons chain_le[of b' rs e] by (auto simp: q)
    qed simp
    with c(2) r show ?thesis by (cases r) (fastforce simp: segment_def)
  qed
qed

section \<open>Starts\<close>

lemma marked_nth: "j < length p \<Longrightarrow> p[a := True] ! j \<longleftrightarrow> j = a \<or> p ! j"
  by (cases "a = j") auto

lemma fold_marks:
  "fold (\<lambda>i p. p[i := True]) is p ! j \<longleftrightarrow> p ! j \<or> j \<in> set is" if "j < length p"
  using that by (induction "is" arbitrary: p) (auto simp: marked_nth)

lemma fold_marks_length: "length (fold (\<lambda>i p. p[i := True]) is p) = length p"
  by (induction "is" arbitrary: p) auto

lemma mark_starts_length [simp]: "length (mark_starts d m i p) = length p"
  by (simp add: mark_starts_def Let_def fold_marks_length)

lemma mark_starts_nth:
  assumes "j < length p" "j \<le> m" "p ! j \<or> \<bar>int j - ideal\<bar> \<le> int d"
  shows "mark_starts d m ideal p ! j"
proof (cases "p ! j")
  case True
  then show ?thesis using assms(1) by (simp add: mark_starts_def Let_def fold_marks del: upt_Suc)
next
  case False
  define u where "u = min (ideal + int d) (int m)"
  define lower where "lower = nat (max (ideal - int d) 0)"
  have ju: "int j \<le> u" "lower \<le> j" using False assms(2,3) unfolding u_def lower_def by auto
  then have u: "\<not> u < 0" "u \<noteq> - 1" "j < nat u + 1" "\<not> nat u < lower" by linarith+
  then have "mark_starts d m ideal p = fold (\<lambda>i p. p[i := True]) [lower..<min (nat u + 1) (length p)] p"
    unfolding mark_starts_def Let_def u_def[symmetric] lower_def[symmetric] if_not_P[OF u(1)] if_not_P[OF u(2)]
      if_not_P[OF u(4)] by simp
  with ju(2) u(3) assms(1) show ?thesis by (simp add: fold_marks del: upt_Suc)
qed

lemma mark_starts_all:
  \<comment> \<open>far before the line the cast of the end defeats the filter\<close>
  assumes "ideal + int d < - 1" "int (length p) \<le> 2 ^ 64 + (ideal + int d)"
  shows "mark_starts d m ideal p = replicate (length p) True"
proof -
  define upper where "upper = nat (2 ^ 64 + (ideal + int d))"
  have u: "min (ideal + int d) (int m) = ideal + int d" "nat (max (ideal - int d) 0) = 0"
    using assms(1) by linarith+
  have "length p \<le> upper" using assms(2) unfolding upper_def by linarith
  then have stop: "min (upper + 1) (length p) = length p" by linarith
  have neg: "ideal + int d < 0" "ideal + int d \<noteq> - 1" using assms(1) by linarith+
  have "mark_starts d m ideal p = fold (\<lambda>i p. p[i := True]) [0..<length p] p"
    unfolding mark_starts_def Let_def u if_P[OF neg(1)] if_not_P[OF neg(2)] upper_def[symmetric] stop by simp
  then show ?thesis by (intro nth_equalityI) (auto simp: fold_marks fold_marks_length)
qed

lemma seed_starts_length [simp]: "length (seed_starts line d m seed p) = length p"
proof -
  have "length (fold (\<lambda>occ p. if take n (drop occ line) \<noteq> cs then p else mark_starts d m (int occ - int a) p) occs p)
      = length p" for n cs a occs
    by (induction occs arbitrary: p) auto
  then show ?thesis by (simp add: seed_starts_def)
qed

lemma fold_occurrences:
  assumes "j < length p" "j \<le> m"
    "p ! j \<or> (\<exists>occ \<in> set occs. take n (drop occ line) = cs \<and> \<bar>int j - (int occ - int a)\<bar> \<le> int d)"
  shows "fold (\<lambda>occ p. if take n (drop occ line) \<noteq> cs then p else mark_starts d m (int occ - int a) p) occs p ! j"
  using assms
proof (induction occs arbitrary: p)
  case (Cons x occs)
  show ?case
  proof (cases "take n (drop x line) = cs")
    case True
    have "mark_starts d m (int x - int a) p ! j \<or> (\<exists>occ \<in> set occs. take n (drop occ line) = cs
        \<and> \<bar>int j - (int occ - int a)\<bar> \<le> int d)"
      using Cons.prems mark_starts_nth[of j p m "int x - int a" d] by auto
    with Cons.IH[of "mark_starts d m (int x - int a) p"] Cons.prems True show ?thesis by simp
  next
    case False
    with Cons.IH[of p] Cons.prems show ?thesis by auto
  qed
qed simp

lemma seed_starts_nth:
  assumes "j < length p" "j \<le> m" "fv_chars seed \<noteq> []"
    "p ! j \<or> (\<exists>occ. occ + length (fv_chars seed) \<le> length line
    \<and> take (length (fv_chars seed)) (drop occ line) = fv_chars seed
    \<and> \<bar>int j - (int occ - int (fv_pattern_start seed))\<bar> \<le> int d)"
  shows "seed_starts line d m seed p ! j"
proof (cases "length line < length (fv_chars seed)")
  case False
  then have "occ \<in> set [0..<length line - length (fv_chars seed) + 1] \<longleftrightarrow> occ + length (fv_chars seed) \<le> length line" for occ
    by auto
  then have some: "p ! j \<or> (\<exists>occ \<in> set [0..<length line - length (fv_chars seed) + 1].
      take (length (fv_chars seed)) (drop occ line) = fv_chars seed
      \<and> \<bar>int j - (int occ - int (fv_pattern_start seed))\<bar> \<le> int d)" using assms(4) by blast
  have "\<not> (fv_chars seed = [] \<or> length line < length (fv_chars seed))" using False assms(3) by simp
  then show ?thesis unfolding seed_starts_def by (simp only: if_False) (rule fold_occurrences[OF assms(1,2) some])
qed (use assms in \<open>auto simp: seed_starts_def\<close>)

lemma fold_seed_starts:
  assumes "j < length p" "j \<le> m" "\<forall>s \<in> set seeds. fv_chars s \<noteq> []"
    "p ! j \<or> (\<exists>seed \<in> set seeds. \<exists>occ. occ + length (fv_chars seed) \<le> length line
    \<and> take (length (fv_chars seed)) (drop occ line) = fv_chars seed
    \<and> \<bar>int j - (int occ - int (fv_pattern_start seed))\<bar> \<le> int d)"
  shows "fold (seed_starts line d m) seeds p ! j"
  using assms
proof (induction seeds arbitrary: p)
  case (Cons s seeds)
  have "seed_starts line d m s p ! j \<or> (\<exists>seed \<in> set seeds. \<exists>occ. occ + length (fv_chars seed) \<le> length line
    \<and> take (length (fv_chars seed)) (drop occ line) = fv_chars seed
    \<and> \<bar>int j - (int occ - int (fv_pattern_start seed))\<bar> \<le> int d)"
    using Cons.prems seed_starts_nth[of j p m s line d] by auto
  with Cons show ?case by simp
qed simp

lemma fold_seed_starts_length: "length (fold (seed_starts line d m) seeds p) = length p"
  by (induction seeds arbitrary: p) auto

lemma set_fuzzy_candidate_starts:
  assumes "\<forall>s \<in> set seeds. fv_chars s \<noteq> []" "j + (n - d) \<le> length line" "seed \<in> set seeds"
    "occ + length (fv_chars seed) \<le> length line" "take (length (fv_chars seed)) (drop occ line) = fv_chars seed"
    "\<bar>int j - (int occ - int (fv_pattern_start seed))\<bar> \<le> int d"
  shows "j \<in> set (fuzzy_candidate_starts line n d seeds)"
proof -
  let ?m = "length line - (n - d)"
  let ?p = "fold (seed_starts line d ?m) seeds (replicate (?m + 1) False)"
  have j: "j \<le> ?m" "\<not> length line < n - d" using assms(2) by linarith+
  have "?p ! j"
    by (rule fold_seed_starts) (use j assms(1,3-6) in \<open>auto simp del: replicate_Suc\<close>)
  moreover have lp: "length ?p = ?m + 1" by (simp only: fold_seed_starts_length length_replicate)
  ultimately show ?thesis using j by (simp add: fuzzy_candidate_starts_def Let_def lp del: replicate_Suc upt_Suc)
qed

section \<open>Lines\<close>

definition fuzzy_occurs :: "bytes list \<Rightarrow> bytes list \<Rightarrow> nat \<Rightarrow> bool" where
  \<comment> \<open>some part of the line is within the distance of the pattern\<close>
  "fuzzy_occurs line pattern d \<longleftrightarrow> (\<exists>a sub b. line = a @ sub @ b \<and> edit_distance pattern sub \<le> d)"

lemma seed_in_match:
  assumes p: "p \<in> set (fuzzy_seed_partitions pattern d)" and close: "edit_distance pattern sub \<le> d"
  obtains seed a b where "seed \<in> set (fuzzy_verifier_seeds_from_partition pattern p)" "sub = a @ fv_chars seed @ b"
    "\<bar>int (length a) - int (fv_pattern_start seed)\<bar> \<le> int d"
proof -
  let ?segs = "map (segment pattern) (fp_ranges p)"
  note s = segmented_seeds[OF p]
  have "edits (edit_distance pattern sub) (concat ?segs) sub" unfolding s(2) by (rule edit_distance_edits)
  moreover have "edit_distance pattern sub < length ?segs" using close s(1) by simp
  ultimately obtain k a b where k: "k < length ?segs" "sub = a @ ?segs ! k @ b"
    "length a \<le> length (concat (take k ?segs)) + edit_distance pattern sub"
    "length (concat (take k ?segs)) \<le> length a + edit_distance pattern sub"
    using edits_untouched_segment by blast
  obtain x y where xy: "fp_ranges p ! k = (x, y)" by fastforce
  let ?seed = "\<lparr> fv_pattern_start = x, fv_chars = take (y - x) (drop x pattern) \<rparr>"
  have "(x, y) \<in> set (fp_ranges p)" using k(1) xy by (metis length_map nth_mem)
  then have "?seed \<in> set (fuzzy_verifier_seeds_from_partition pattern p)"
    unfolding fuzzy_verifier_seeds_from_partition_def by force
  moreover have "sub = a @ fv_chars ?seed @ b" using k xy by (simp add: segment_def)
  moreover have "\<bar>int (length a) - int (fv_pattern_start ?seed)\<bar> \<le> int d" using k s(1) s(3)[of k] xy close by auto
  ultimately show ?thesis by (rule that)
qed

lemma verifier_seeds_nonempty:
  assumes "p \<in> set (fuzzy_seed_partitions pattern d)"
  shows "\<forall>s \<in> set (fuzzy_verifier_seeds_from_partition pattern p). fv_chars s \<noteq> []"
  using segmented_seeds(4)[OF assms] by (fastforce simp: fuzzy_verifier_seeds_from_partition_def segment_def)

lemma fuzzy_line_matches_iff:
  assumes p: "p \<in> set (fuzzy_seed_partitions pattern d)" and big: "length pattern + d + 2 \<le> usize_max"
  shows "fuzzy_line_matches_with_seeds line pattern d (fuzzy_verifier_seeds_from_partition pattern p)
    \<longleftrightarrow> fuzzy_occurs line pattern d"
proof -
  let ?seeds = "fuzzy_verifier_seeds_from_partition pattern p"
  have ne: "pattern \<noteq> []" using segmented_seeds(1,2,4)[OF p] by (cases "fp_ranges p") auto
  note dist = bounded_edit_distance_eq[OF big]
  note starts = set_fuzzy_candidate_starts[OF verifier_seeds_nonempty[OF p]]
  have bound: "saturating_add (length pattern) d = length pattern + d" using big by simp
  have short: "saturating_add (length line) d < length pattern \<longleftrightarrow> length line + d < length pattern"
    using big by (auto simp: saturating_add_def)
  show ?thesis
  proof
    assume "fuzzy_line_matches_with_seeds line pattern d ?seeds"
    then obtain start len where "bounded_edit_distance pattern (take len (drop start line)) d \<noteq> None"
      by (auto simp: fuzzy_line_matches_with_seeds_def Let_def list_ex_iff split: if_splits)
    then have "edit_distance pattern (take len (drop start line)) \<le> d" by (simp add: dist split: if_splits)
    then show "fuzzy_occurs line pattern d" unfolding fuzzy_occurs_def
      by (intro exI[of _ "take start line"] exI[of _ "take len (drop start line)"] exI[of _ "drop len (drop start line)"])
        (metis append_take_drop_id)
  next
    assume "fuzzy_occurs line pattern d"
    then obtain a sub b where l: "line = a @ sub @ b" and close: "edit_distance pattern sub \<le> d"
      by (auto simp: fuzzy_occurs_def)
    obtain seed u v where seed: "seed \<in> set ?seeds" "sub = u @ fv_chars seed @ v"
      "\<bar>int (length u) - int (fv_pattern_start seed)\<bar> \<le> int d" using seed_in_match[OF p close] .
    have lens: "length pattern \<le> length sub + d" "length sub \<le> length pattern + d"
      using edit_distance_length[OF close] by auto
    have start: "length a \<in> set (fuzzy_candidate_starts line (length pattern) d ?seeds)"
      by (rule starts[where occ = "length a + length u", OF _ seed(1)]) (use seed lens in \<open>auto simp: l\<close>)
    have "bounded_edit_distance pattern (take (length sub) (drop (length a) line)) d \<noteq> None"
      using close by (simp add: dist l)
    moreover have "length sub \<in> set [length pattern - d..<min (length pattern + d) (length line - length a) + 1]"
      using lens by (auto simp: l)
    ultimately have some: "list_ex (\<lambda>len. bounded_edit_distance pattern (take len (drop (length a) line)) d \<noteq> None)
        [length pattern - d..<min (length pattern + d) (length line - length a) + 1]"
      unfolding list_ex_iff by blast
    have room: "length pattern - d \<le> length line - length a" using lens by (simp add: l)
    have ns: "\<not> length line + d < length pattern" using lens by (simp add: l)
    show "fuzzy_line_matches_with_seeds line pattern d ?seeds"
      unfolding fuzzy_line_matches_with_seeds_def Let_def bound short if_not_P[OF ne] if_not_P[OF ns]
        list_ex_iff[of _ "fuzzy_candidate_starts line (length pattern) d ?seeds"]
      by (rule bexI[OF _ start]) (use room some in blast)
  qed
qed

end
