(* ===== verification/LinesProps.thy ===== *)
theory LinesProps
  imports SearchLines SearchProps FuzzyProps
begin

text \<open>
  The searches in a line find the occurrences, and checking the lines of a document under a budget
  loses no event: the scan stops only when as many lines as the budget allows are settled, and the
  events are the first of those that a scan of all lines shows.
\<close>

section \<open>Searching by a finder of candidate starts\<close>

lemma search_loop_iff:
  fixes f :: "nat \<Rightarrow> bool" and g :: "nat \<Rightarrow> nat option"
  assumes loop: "\<And>off. f off = (if off > mx then False else case g off of None \<Rightarrow> False
      | Some rel \<Rightarrow> if Q (off + rel) then True else f (off + rel + 1))"
    and none: "\<And>off j. g off = None \<Longrightarrow> off \<le> j \<Longrightarrow> j \<le> mx \<Longrightarrow> \<not> Q j"
    and some: "\<And>off rel. off \<le> mx \<Longrightarrow> g off = Some rel \<Longrightarrow> off + rel \<le> mx"
    and skip: "\<And>off rel j. g off = Some rel \<Longrightarrow> off \<le> j \<Longrightarrow> j < off + rel \<Longrightarrow> \<not> Q j"
  shows "f off \<longleftrightarrow> (\<exists>j. off \<le> j \<and> j \<le> mx \<and> Q j)"
proof (induction "mx + 1 - off" arbitrary: off rule: less_induct)
  case less
  show ?case
  proof (cases "off > mx")
    case True
    then show ?thesis by (subst loop) auto
  next
    case False
    show ?thesis
    proof (cases "g off")
      case None
      with False none[OF None] show ?thesis by (subst loop) auto
    next
      case (Some rel)
      note le = some[OF _ Some]
      show ?thesis
      proof (cases "Q (off + rel)")
        case True
        then have "\<exists>j. off \<le> j \<and> j \<le> mx \<and> Q j" using le False by (intro exI[of _ "off + rel"]) auto
        with True False Some show ?thesis by (subst loop) simp
      next
        case no: False
        have "f (off + rel + 1) \<longleftrightarrow> (\<exists>j. off + rel + 1 \<le> j \<and> j \<le> mx \<and> Q j)"
          by (rule less.hyps) (use False in simp)
        also have "\<dots> \<longleftrightarrow> (\<exists>j. off \<le> j \<and> j \<le> mx \<and> Q j)"
        proof
          assume "\<exists>j. off \<le> j \<and> j \<le> mx \<and> Q j"
          then obtain j where j: "off \<le> j" "j \<le> mx" "Q j" by blast
          then have "off + rel + 1 \<le> j" using skip[OF Some j(1)] no by (metis Suc_eq_plus1 Suc_leI linorder_neqE_nat)
          with j show "\<exists>j. off + rel + 1 \<le> j \<and> j \<le> mx \<and> Q j" by blast
        next
          assume "\<exists>j. off + rel + 1 \<le> j \<and> j \<le> mx \<and> Q j"
          then obtain j where "off + rel + 1 \<le> j" "j \<le> mx" "Q j" by blast
          then show "\<exists>j. off \<le> j \<and> j \<le> mx \<and> Q j" by (intro exI[of _ j]) simp
        qed
        finally show ?thesis using False Some no by (subst loop) auto
      qed
    qed
  qed
qed

definition occurs_at :: "bytes \<Rightarrow> bytes \<Rightarrow> nat \<Rightarrow> bool" where
  "occurs_at n h i \<longleftrightarrow> i + length n \<le> length h \<and> take (length n) (drop i h) = n"

lemma occurs_at_iff: "occurs_at n h i \<longleftrightarrow> (\<exists>a b. h = a @ n @ b \<and> length a = i)"
proof
  assume "occurs_at n h i"
  then have "h = take i h @ n @ drop (i + length n) h" "i \<le> length h"
    by (auto simp: occurs_at_def) (metis append_take_drop_id drop_drop add.commute)
  then show "\<exists>a b. h = a @ n @ b \<and> length a = i" by (metis length_take min.absorb2)
qed (auto simp: occurs_at_def)

lemma occurs_in_range: "occurs_at n h i \<Longrightarrow> i \<le> length h - length n"
  by (auto simp: occurs_at_def)

lemma mem_find_occurs:
  assumes "memlib_ok M"
  shows "mem_find M n h = None \<Longrightarrow> \<not> occurs_at n h j"
    "mem_find M n h = Some rel \<Longrightarrow> occurs_at n h rel"
    "mem_find M n h = Some rel \<Longrightarrow> j < rel \<Longrightarrow> \<not> occurs_at n h j"
proof -
  have sw: "occurs_at n h j \<Longrightarrow> starts_with n (drop j h)" for n h j by (auto simp: occurs_at_iff)
  show "mem_find M n h = None \<Longrightarrow> \<not> occurs_at n h j" using memlib_find_None[OF assms] by (auto simp: occurs_at_iff)
  show "mem_find M n h = Some rel \<Longrightarrow> occurs_at n h rel" using memlib_find_Some(1)[OF assms] by (auto simp: occurs_at_iff)
  show "mem_find M n h = Some rel \<Longrightarrow> j < rel \<Longrightarrow> \<not> occurs_at n h j" using memlib_find_Some(2)[OF assms] sw by blast
qed

lemma occurs_at_drop: "off \<le> length h \<Longrightarrow> occurs_at n (drop off h) j \<longleftrightarrow> occurs_at n h (off + j)"
  by (auto simp: occurs_at_def add.commute)

lemma contains_word_iff:
  assumes M: "memlib_ok M"
  shows "contains_word_subslice M h needle \<longleftrightarrow> needle \<noteq> []
    \<and> (\<exists>i. occurs_at needle h i \<and> has_ascii_word_boundaries h i (length needle))"
proof (cases "needle = [] \<or> length needle > length h")
  case True
  then show ?thesis by (auto simp: contains_word_subslice_def occurs_at_def)
next
  case False
  let ?Q = "\<lambda>i. occurs_at needle h i \<and> has_ascii_word_boundaries h i (length needle)"
  have "contains_word_loop M h needle 0 \<longleftrightarrow> (\<exists>j. 0 \<le> j \<and> j \<le> length h - length needle \<and> ?Q j)"
  proof (rule search_loop_iff[where g = "\<lambda>off. mem_find M needle (drop off h)"])
    fix off
    show "contains_word_loop M h needle off = (if off > length h - length needle then False
        else case mem_find M needle (drop off h) of None \<Rightarrow> False
        | Some rel \<Rightarrow> if ?Q (off + rel) then True else contains_word_loop M h needle (off + rel + 1))"
    proof (cases "off > length h - length needle")
      case no: False
      show ?thesis
      proof (cases "mem_find M needle (drop off h)")
        case (Some rel)
        then have "occurs_at needle h (off + rel)"
          using mem_find_occurs(2)[OF M Some] occurs_at_drop[of off h needle rel] no by simp
        with Some no show ?thesis by (subst contains_word_loop.simps) simp
      qed (subst contains_word_loop.simps, simp)
    qed (subst contains_word_loop.simps, simp)
  next
    fix off j assume "mem_find M needle (drop off h) = None" "off \<le> j" "j \<le> length h - length needle"
    then show "\<not> ?Q j" using mem_find_occurs(1)[OF M, of needle "drop off h" "j - off"] occurs_at_drop[of off h needle "j - off"]
      by auto
  next
    fix off rel assume "off \<le> length h - length needle" "mem_find M needle (drop off h) = Some rel"
    then show "off + rel \<le> length h - length needle"
      using mem_find_occurs(2)[OF M, of needle "drop off h" rel] occurs_at_drop[of off h needle rel] occurs_in_range by auto
  next
    fix off rel j assume "mem_find M needle (drop off h) = Some rel" "off \<le> j" "j < off + rel"
    then show "\<not> ?Q j" using mem_find_occurs(3)[OF M, of needle "drop off h" rel "j - off"] occurs_at_drop[of off h needle "j - off"]
      by (auto simp: occurs_at_def)
  qed
  then show ?thesis using False occurs_in_range by (auto simp: contains_word_subslice_def)
qed

lemma to_lower_eq_iff: "to_lower c = to_lower b \<longleftrightarrow> (if to_lower b = to_upper b then c = b else c = to_lower b \<or> c = to_upper b)"
proof -
  have l: "bval (to_lower x) = (if 65 \<le> bval x \<and> bval x \<le> 90 then bval x + 32 else bval x)" for x
    using bval_less[of x] by (simp add: to_lower_def ascii_upper_def)
  have u: "bval (to_upper x) = (if 97 \<le> bval x \<and> bval x \<le> 122 then bval x - 32 else bval x)" for x
    using bval_byte_of[OF less_imp_diff_less[OF bval_less]] by (simp add: to_upper_def ascii_lower_def)
  show ?thesis unfolding bval_inject[symmetric] l u by auto
qed

lemma first_byte_None:
  assumes "memlib_ok M" "first_byte M b s = None"
  shows "\<forall>c \<in> set s. to_lower c \<noteq> to_lower b"
  using assms(2) memlib_memchr[OF assms(1)] memlib_memchr2[OF assms(1), where x = "to_lower b" and y = "to_upper b" and s = s]
    index_of_None_iff[of b s]
  by (auto simp: first_byte_def to_lower_eq_iff split: if_splits)

lemma first_byte_Some:
  assumes "memlib_ok M" "first_byte M b s = Some i"
  shows "i < length s" "\<forall>c \<in> set (take i s). to_lower c \<noteq> to_lower b"
proof -
  have "i < length s \<and> (\<forall>c \<in> set (take i s). to_lower c \<noteq> to_lower b)"
  proof (cases "to_lower b = to_upper b")
    case True
    then have "memchr M b s = Some i" using assms(2) by (simp add: first_byte_def)
    with True assms(1) show ?thesis
      unfolding memlib_ok_def memchr_ok_def to_lower_eq_iff by (metis (no_types, lifting) option.simps(5))
  next
    case False
    then have "memchr2 M (to_lower b) (to_upper b) s = Some i" using assms(2) by (simp add: first_byte_def)
    with False memlib_memchr2[OF assms(1), where x = "to_lower b" and y = "to_upper b" and s = s] show ?thesis
      by (auto simp: to_lower_eq_iff)
  qed
  then show "i < length s" "\<forall>c \<in> set (take i s). to_lower c \<noteq> to_lower b" by auto
qed

definition occurs_folded :: "bytes \<Rightarrow> bytes \<Rightarrow> nat \<Rightarrow> bool" where
  "occurs_folded n h i \<longleftrightarrow> occurs_at (ascii_folded n) (ascii_folded h) i"

lemma occurs_folded_iff:
  "occurs_folded n h i \<longleftrightarrow> i + length n \<le> length h \<and> eq_ignore_ascii_case (take (length n) (drop i h)) n"
  by (simp add: occurs_folded_def occurs_at_def ascii_folded_def eq_ignore_ascii_case_def take_map drop_map)

lemma occurs_folded_head:
  assumes "occurs_folded n h i" "n \<noteq> []"
  shows "i < length h \<and> to_lower (h ! i) = to_lower (hd n)"
proof -
  obtain x xs where n: "n = x # xs" using assms(2) by (cases n) auto
  then have "i < length h" using assms(1) by (simp add: occurs_folded_iff)
  then have "drop i h = h ! i # drop (Suc i) h" by (simp add: Cons_nth_drop_Suc)
  then show ?thesis using assms(1) \<open>i < length h\<close> by (simp add: n occurs_folded_iff eq_ignore_ascii_case_def)
qed

lemma occurs_folded_single: "occurs_folded [c] h i \<longleftrightarrow> i < length h \<and> to_lower (h ! i) = to_lower c"
proof (cases "i < length h")
  case True
  then have "drop i h = h ! i # drop (Suc i) h" by (simp add: Cons_nth_drop_Suc)
  with True show ?thesis by (simp add: occurs_folded_iff eq_ignore_ascii_case_def)
qed (simp add: occurs_folded_iff)

lemma first_byte_skips:
  assumes M: "memlib_ok M" and ne: "n \<noteq> []" and len: "length n \<le> length h"
  defines "s off \<equiv> slice h (off, length h - length n + 1)"
  shows "first_byte M (hd n) (s off) = None \<Longrightarrow> off \<le> j \<Longrightarrow> \<not> occurs_folded n h j"
    "first_byte M (hd n) (s off) = Some rel \<Longrightarrow> off \<le> j \<Longrightarrow> j < off + rel \<Longrightarrow> \<not> occurs_folded n h j"
    "off \<le> length h - length n \<Longrightarrow> first_byte M (hd n) (s off) = Some rel \<Longrightarrow> off + rel \<le> length h - length n"
proof -
  have at: "to_lower (s off ! (j - off)) = to_lower (hd n) \<and> j - off < length (s off)"
    if "occurs_folded n h j" "off \<le> j" for j
  proof -
    have "j \<le> length h - length n" using that(1) by (auto simp: occurs_folded_iff)
    then have "j - off < length h - length n + 1 - off" using that(2) by linarith
    moreover have "j - off < length h - off" using occurs_folded_head[OF that(1) ne] that(2) by linarith
    ultimately show ?thesis using occurs_folded_head[OF that(1) ne] that(2) by (simp add: s_def slice_def)
  qed
  show "\<not> occurs_folded n h j" if "first_byte M (hd n) (s off) = None" "off \<le> j"
    using first_byte_None[OF M that(1)] at[OF _ that(2)] nth_mem by metis
  show "\<not> occurs_folded n h j" if f: "first_byte M (hd n) (s off) = Some rel" and j: "off \<le> j" "j < off + rel"
  proof
    assume o: "occurs_folded n h j"
    have "s off ! (j - off) = take rel (s off) ! (j - off)" using j by simp
    then have "s off ! (j - off) \<in> set (take rel (s off))"
      using at[OF o j(1)] j first_byte_Some(1)[OF M f] by (metis less_diff_conv2 length_take min_less_iff_conj nth_mem add.commute)
    with first_byte_Some(2)[OF M f] at[OF o j(1)] show False by blast
  qed
  show "off + rel \<le> length h - length n" if "off \<le> length h - length n" "first_byte M (hd n) (s off) = Some rel"
  proof -
    have "rel < length h - length n + 1 - off" using first_byte_Some(1)[OF M that(2)] by (simp add: s_def slice_def)
    then show ?thesis using that(1) by linarith
  qed
qed

lemma contains_ci_iff:
  assumes M: "memlib_ok M"
  shows "contains_subslice_ascii_case_insensitive M h needle \<longleftrightarrow> needle \<noteq> [] \<and> (\<exists>i. occurs_folded needle h i)"
proof (cases "needle = [] \<or> length needle > length h")
  case True
  then show ?thesis by (auto simp: contains_subslice_ascii_case_insensitive_def occurs_folded_iff)
next
  case long: False
  then have ne: "needle \<noteq> []" and len: "length needle \<le> length h" by auto
  note skips = first_byte_skips[OF M ne len]
  show ?thesis
  proof (cases "length needle = 1")
    case True
    then obtain c where "needle = [c]" by (cases needle) auto
    then show ?thesis using long
      by (auto simp: contains_subslice_ascii_case_insensitive_def list_ex_iff in_set_conv_nth occurs_folded_single Bex_def)
  next
    case False
    have "contains_ci_loop M h needle 0
        \<longleftrightarrow> (\<exists>j. 0 \<le> j \<and> j \<le> length h - length needle \<and> occurs_folded needle h j)"
    proof (rule search_loop_iff[where g = "\<lambda>off. first_byte M (hd needle) (slice h (off, length h - length needle + 1))"])
      fix off
      show "contains_ci_loop M h needle off = (if off > length h - length needle then False
          else case first_byte M (hd needle) (slice h (off, length h - length needle + 1)) of None \<Rightarrow> False
          | Some rel \<Rightarrow> if occurs_folded needle h (off + rel) then True else contains_ci_loop M h needle (off + rel + 1))"
        using skips(3)[of off] len
        by (subst contains_ci_loop.simps) (auto simp: occurs_folded_iff split: option.splits)
    qed (use skips in blast)+
    then show ?thesis using long False
      by (auto simp: contains_subslice_ascii_case_insensitive_def occurs_folded_iff)
  qed
qed

lemma contains_word_ci_iff:
  assumes M: "memlib_ok M"
  shows "contains_word_subslice_ascii_case_insensitive M h needle \<longleftrightarrow> needle \<noteq> []
    \<and> (\<exists>i. occurs_folded needle h i \<and> has_ascii_word_boundaries h i (length needle))"
proof (cases "needle = [] \<or> length needle > length h")
  case True
  then show ?thesis by (auto simp: contains_word_subslice_ascii_case_insensitive_def occurs_folded_iff)
next
  case long: False
  then have ne: "needle \<noteq> []" and len: "length needle \<le> length h" by auto
  note skips = first_byte_skips[OF M ne len]
  let ?Q = "\<lambda>j. occurs_folded needle h j \<and> has_ascii_word_boundaries h j (length needle)"
  show ?thesis
  proof (cases "length needle = 1")
    case True
    then obtain c where "needle = [c]" by (cases needle) auto
    then show ?thesis using long
      by (auto simp: contains_word_subslice_ascii_case_insensitive_def list_ex_iff occurs_folded_single)
  next
    case False
    have "contains_word_ci_loop M h needle 0 \<longleftrightarrow> (\<exists>j. 0 \<le> j \<and> j \<le> length h - length needle \<and> ?Q j)"
    proof (rule search_loop_iff[where g = "\<lambda>off. first_byte M (hd needle) (slice h (off, length h - length needle + 1))"])
      fix off
      show "contains_word_ci_loop M h needle off = (if off > length h - length needle then False
          else case first_byte M (hd needle) (slice h (off, length h - length needle + 1)) of None \<Rightarrow> False
          | Some rel \<Rightarrow> if ?Q (off + rel) then True else contains_word_ci_loop M h needle (off + rel + 1))"
        using skips(3)[of off] len
        by (subst contains_word_ci_loop.simps) (auto simp: occurs_folded_iff split: option.splits)
    qed (use skips in blast)+
    then show ?thesis using long False
      by (auto simp: contains_word_subslice_ascii_case_insensitive_def occurs_folded_iff)
  qed
qed

section \<open>Lines and plans\<close>

fun line_holds :: "query_plan \<Rightarrow> bytes \<Rightarrow> bool" where
  \<comment> \<open>what it is for a line to match a plan\<close>
  "line_holds (Exact n lcase) line \<longleftrightarrow> n \<noteq> [] \<and> (\<exists>i. occurs_at (fold_case lcase n) (fold_case lcase line) i)"
| "line_holds (ShortExact n lcase) line \<longleftrightarrow> n \<noteq> [] \<and> (\<exists>i. occurs_at (fold_case lcase n) (fold_case lcase line) i)"
| "line_holds (WordExact n lcase) line \<longleftrightarrow> n \<noteq> [] \<and> (\<exists>i. occurs_at (fold_case lcase n) (fold_case lcase line) i
     \<and> has_ascii_word_boundaries line i (length n))"
| "line_holds (RegexPlan matcher e) line \<longleftrightarrow> matcher line"
| "line_holds (Fuzzy pattern d plans) line \<longleftrightarrow>
     (case utf8_chars line of None \<Rightarrow> False | Some cs \<Rightarrow> fuzzy_occurs cs pattern d)"

definition seeds_fit :: "query_plan \<Rightarrow> fuzzy_seed_selection option \<Rightarrow> bool" where
  \<comment> \<open>a fuzzy plan is run with the seeds of one of the partitions of its pattern\<close>
  "seeds_fit plan sel \<longleftrightarrow> (case plan of
       Fuzzy pattern d plans \<Rightarrow> length pattern + d + 2 \<le> usize_max \<and> (case sel of None \<Rightarrow> True
         | Some s \<Rightarrow> \<exists>p \<in> set (fuzzy_seed_partitions pattern d). fs_verifier_seeds s = fuzzy_verifier_seeds_from_partition pattern p)
     | _ \<Rightarrow> True)"

lemma line_is_match_holds:
  assumes M: "memlib_ok M" and fit: "seeds_fit plan sel" and run: "line_is_match M plan sel L line st = Inr (b, st')"
  shows "b \<longleftrightarrow> line_holds plan line"
proof (cases plan)
  case (Exact n lcase)
  then show ?thesis using run contains_ci_iff[OF M] mem_find_occurs[OF M, of n line]
    by (cases lcase) (auto simp: line_is_match_def finder_matches_def fold_case_def occurs_folded_def)
next
  case (ShortExact n lcase)
  then show ?thesis using run contains_ci_iff[OF M] mem_find_occurs[OF M, of n line]
    by (cases lcase) (auto simp: line_is_match_def finder_matches_def fold_case_def occurs_folded_def)
next
  case (WordExact n lcase)
  then show ?thesis using run contains_word_ci_iff[OF M] contains_word_iff[OF M]
    by (cases lcase) (auto simp: line_is_match_def fold_case_def occurs_folded_def)
next
  case (RegexPlan m e)
  then show ?thesis using run by (simp add: line_is_match_def)
next
  case (Fuzzy pattern d plans)
  then show ?thesis using run fit fuzzy_line_matches_iff[of _ pattern d]
    by (auto simp: line_is_match_def seeds_fit_def Let_def bindE_Inr_iff split: option.splits)
qed

section \<open>The lines that are shown\<close>

definition near :: "nat \<Rightarrow> nat list \<Rightarrow> nat \<Rightarrow> bool" where
  "near ctx ms j \<longleftrightarrow> (\<exists>m \<in> set ms. j \<le> m + ctx \<and> m \<le> j + ctx)"

definition shown :: "nat \<Rightarrow> nat \<Rightarrow> nat list \<Rightarrow> nat list" where
  \<comment> \<open>the lines within the context of a match, in order\<close>
  "shown n ctx ms = [j \<leftarrow> [0..<n]. near ctx ms j]"

definition doc_event :: "document \<Rightarrow> nat list \<Rightarrow> nat \<Rightarrow> search_event" where
  "doc_event doc ms j = \<lparr> ev_is_match = (j \<in> set ms), ev_path = dc_rendered_path doc,
     ev_line_number = j + 1, ev_text = line_text doc j \<rparr>"

definition doc_events :: "document \<Rightarrow> nat \<Rightarrow> nat list \<Rightarrow> search_event list" where
  "doc_events doc ctx ms = map (doc_event doc ms) (shown (length (dc_lines doc)) ctx ms)"

definition interval :: "nat \<Rightarrow> nat \<Rightarrow> nat \<Rightarrow> nat \<times> nat" where
  "interval n ctx m = (m - ctx, min (m + ctx) (n - 1))"

lemma render_interval_eq:
  "0 < n \<Longrightarrow> n \<le> usize_max \<Longrightarrow> render_interval m n ctx = Some (interval n ctx m)"
  by (auto simp: render_interval_def interval_def saturating_add_def)

fun merged :: "nat \<Rightarrow> nat \<Rightarrow> nat list \<Rightarrow> nat \<times> nat \<Rightarrow> (nat \<times> nat) list" where
  "merged n ctx [] i = [i]"
| "merged n ctx (m # ms) (a, b) =
     (let (s, e) = interval n ctx m in
      if s \<le> b + 1 then merged n ctx ms (a, max b e) else (a, b) # merged n ctx ms (s, e))"

fun emit_all :: "(nat \<Rightarrow> nat \<Rightarrow> 's \<Rightarrow> 's \<times> bool) \<Rightarrow> (nat \<times> nat) list \<Rightarrow> 's \<Rightarrow> 's \<times> bool" where
  "emit_all emit [] s = (s, False)"
| "emit_all emit ((a, b) # is) s = (case emit a b s of (s1, True) \<Rightarrow> (s1, True) | (s1, False) \<Rightarrow> emit_all emit is s1)"

lemma for_each_merged:
  assumes "0 < n" "n \<le> usize_max"
  shows "b < n \<Longrightarrow> for_each_render_interval ms n ctx emit (Some (a, b)) s = emit_all emit (merged n ctx ms (a, b)) s"
proof (induction ms arbitrary: a b s)
  case Nil
  then show ?case by (simp split: prod.splits bool.splits)
next
  case (Cons m ms)
  have e: "snd (interval n ctx m) < n" using assms(1) by (simp add: interval_def min_less_iff_disj)
  have b: "saturating_add b 1 = b + 1" using Cons.prems assms(2) by simp
  obtain x y where i: "interval n ctx m = (x, y)" by fastforce
  show ?case using Cons.IH Cons.prems e
    by (simp add: render_interval_eq[OF assms] i b[simplified] split: prod.splits bool.splits)
qed

definition lines_of :: "(nat \<times> nat) list \<Rightarrow> nat list" where
  "lines_of is = concat (map (\<lambda>(a, b). [a..<b + 1]) is)"

lemma merged_lines:
  assumes "a \<le> b" "sorted_wrt (<) ms" "\<forall>m \<in> set ms. a \<le> fst (interval n ctx m) \<and> b \<le> snd (interval n ctx m)"
    "\<forall>m \<in> set ms. m < n"
  shows "sorted_wrt (<) (lines_of (merged n ctx ms (a, b)))
    \<and> set (lines_of (merged n ctx ms (a, b))) = {a..b} \<union> (\<Union>m \<in> set ms. {fst (interval n ctx m)..snd (interval n ctx m)})"
  using assms
proof (induction ms arbitrary: a b)
  case Nil
  then show ?case by (auto simp: lines_of_def simp del: upt_Suc)
next
  case (Cons m ms)
  obtain s e where i: "interval n ctx m = (s, e)" by fastforce
  have se: "s \<le> e" "a \<le> s" "b \<le> e" using Cons.prems i by (auto simp: interval_def)
  have later: "\<forall>m' \<in> set ms. s \<le> fst (interval n ctx m') \<and> e \<le> snd (interval n ctx m')"
    using Cons.prems(2) i by (auto simp: interval_def)
  show ?case
  proof (cases "s \<le> b + 1")
    case True
    have "{a..e} = {a..b} \<union> {s..e}" using True se Cons.prems(1) by auto
    then show ?thesis using Cons.IH[of a e] Cons.prems later se True by (auto simp: i max_def)
  next
    case False
    have IH: "sorted_wrt (<) (lines_of (merged n ctx ms (s, e)))"
      "set (lines_of (merged n ctx ms (s, e))) = {s..e} \<union> (\<Union>m \<in> set ms. {fst (interval n ctx m)..snd (interval n ctx m)})"
      using Cons.IH[of s e] Cons.prems later se by auto
    have "b < j" if "j \<in> set (lines_of (merged n ctx ms (s, e)))" for j using that IH(2) later False by fastforce
    then have "\<forall>x \<in> set [a..<b + 1]. \<forall>j \<in> set (lines_of (merged n ctx ms (s, e))). x < j"
      by (fastforce simp del: upt_Suc)
    then have "sorted_wrt (<) ([a..<b + 1] @ lines_of (merged n ctx ms (s, e)))"
      unfolding sorted_wrt_append using IH(1) by (simp del: upt_Suc)
    moreover have "lines_of (merged n ctx (m # ms) (a, b)) = [a..<b + 1] @ lines_of (merged n ctx ms (s, e))"
      using False by (simp add: i lines_of_def)
    moreover have "set ([a..<b + 1] @ lines_of (merged n ctx ms (s, e)))
        = {a..b} \<union> (\<Union>m \<in> set (m # ms). {fst (interval n ctx m)..snd (interval n ctx m)})"
      using IH(2) by (auto simp: i simp del: upt_Suc)
    ultimately show ?thesis by simp
  qed
qed

lemma shown_merged:
  assumes "sorted_wrt (<) (m # ms)" "\<forall>x \<in> set (m # ms). x < n"
  shows "lines_of (merged n ctx ms (interval n ctx m)) = shown n ctx (m # ms)"
proof -
  obtain a b where i: "interval n ctx m = (a, b)" by fastforce
  have ab: "a \<le> b" using assms(2) i by (auto simp: interval_def)
  have later: "\<forall>x \<in> set ms. a \<le> fst (interval n ctx x) \<and> b \<le> snd (interval n ctx x)"
    using assms(1) i by (auto simp: interval_def)
  note m = merged_lines[OF ab _ later, simplified i[symmetric]]
  have n: "0 < n" using assms(2) by auto
  have "set (lines_of (merged n ctx ms (interval n ctx m))) = (\<Union>x \<in> set (m # ms). {fst (interval n ctx x)..snd (interval n ctx x)})"
    using m assms i by auto
  also have "\<dots> = (\<Union>x \<in> set (m # ms). {j. j < n \<and> j \<le> x + ctx \<and> x \<le> j + ctx})"
  proof (rule SUP_cong[OF refl])
    fix x
    show "{fst (interval n ctx x)..snd (interval n ctx x)} = {j. j < n \<and> j \<le> x + ctx \<and> x \<le> j + ctx}"
      using n by (auto simp: interval_def)
  qed
  also have "\<dots> = {j. j < n \<and> near ctx (m # ms) j}" by (auto simp: near_def)
  also have "\<dots> = set (shown n ctx (m # ms))" by (auto simp: shown_def)
  finally show ?thesis using m assms
    by (intro strict_sorted_equal) (auto simp: shown_def intro: sorted_wrt_filter)
qed

section \<open>Pushing the events\<close>

lemma push_lines_events:
  assumes "sorted_wrt (<) pending" "\<forall>p \<in> set pending. a \<le> p" "\<forall>j \<in> {a..<e}. j \<in> set pending \<longleftrightarrow> j \<in> set ms"
    "length events < mx"
  shows "\<exists>pending'. push_lines doc mx [a..<e] (events, pending)
      = ((take mx (events @ map (doc_event doc ms) [a..<e]), pending'), mx \<le> length events + (e - a))
    \<and> (length events + (e - a) < mx \<longrightarrow> pending' = [p \<leftarrow> pending. e \<le> p])"
  using assms
proof (induction "e - a" arbitrary: a events pending)
  case 0
  then show ?case by (fastforce intro!: filter_True[symmetric])
next
  case (Suc k)
  then have ae: "a < e" by simp
  then have up: "[a..<e] = a # [Suc a..<e]" by (simp add: upt_conv_Cons)
  define pending1 where "pending1 = (if pending \<noteq> [] \<and> hd pending = a then tl pending else pending)"
  have head: "pending \<noteq> [] \<and> hd pending = a \<longleftrightarrow> a \<in> set pending"
    using Suc.prems(1,2) by (cases pending) auto
  then have at: "pending \<noteq> [] \<and> hd pending = a \<longleftrightarrow> a \<in> set ms" using Suc.prems(3) ae by simp
  have p1: "sorted_wrt (<) pending1" "\<forall>p \<in> set pending1. Suc a \<le> p" "\<forall>j. Suc a \<le> j \<longrightarrow> (j \<in> set pending1 \<longleftrightarrow> j \<in> set pending)"
    using Suc.prems(1,2) head by (cases pending; force simp: pending1_def Suc_le_eq)+
  have f1: "[p \<leftarrow> pending1. e \<le> p] = [p \<leftarrow> pending. e \<le> p]"
    using ae by (cases pending) (auto simp: pending1_def)
  have step: "push_lines doc mx [a..<e] (events, pending) =
      (let events1 = events @ [doc_event doc ms a] in
       if length events1 \<ge> mx then ((events1, pending1), True) else push_lines doc mx [Suc a..<e] (events1, pending1))"
    by (simp add: up Let_def pending1_def doc_event_def at)
  show ?case
  proof (cases "mx \<le> length events + 1")
    case True
    then have "length events + 1 = mx" using Suc.prems(4) by simp
    then have "take mx (events @ map (doc_event doc ms) [a..<e]) = events @ [doc_event doc ms a]" by (simp add: up flip: \<open>length events + 1 = mx\<close>)
    moreover have "mx \<le> length events + (e - a)" using True ae by linarith
    ultimately show ?thesis using True step by simp
  next
    case False
    have "\<exists>pending'. push_lines doc mx [Suc a..<e] (events @ [doc_event doc ms a], pending1)
      = ((take mx ((events @ [doc_event doc ms a]) @ map (doc_event doc ms) [Suc a..<e]), pending'),
         mx \<le> length (events @ [doc_event doc ms a]) + (e - Suc a))
      \<and> (length (events @ [doc_event doc ms a]) + (e - Suc a) < mx \<longrightarrow> pending' = [p \<leftarrow> pending1. e \<le> p])"
      by (rule Suc.hyps(1)) (use Suc.hyps(2) Suc.prems(3) p1 False in auto)
    moreover have "e - a = Suc k" "e - Suc a = k" using Suc.hyps(2) by auto
    ultimately show ?thesis using False step f1 by (simp add: up Let_def)
  qed
qed

lemma emit_all_events:
  assumes "sorted_wrt (<) (lines_of is)" "\<forall>(a, b) \<in> set is. a \<le> b" "sorted_wrt (<) pending"
    "\<forall>j \<in> set (lines_of is). j \<in> set pending \<longleftrightarrow> j \<in> set ms" "length events < mx"
  shows "\<exists>pending'. emit_all (push_rendered_interval doc mx) is (events, pending)
      = ((take mx (events @ map (doc_event doc ms) (lines_of is)), pending'), mx \<le> length events + length (lines_of is))"
  using assms
proof (induction "is" arbitrary: events pending)
  case Nil
  then show ?case by (simp add: lines_of_def)
next
  case (Cons i "is")
  obtain a b where i: "i = (a, b)" by fastforce
  have ab: "a \<le> b" using Cons.prems(2) i by simp
  have ls: "lines_of (i # is) = [a..<b + 1] @ lines_of is" by (simp add: lines_of_def i del: upt_Suc)
  let ?p = "dropWhile (\<lambda>m. m < a) pending"
  have p: "?p = [m \<leftarrow> pending. a \<le> m]"
    using Cons.prems(3)
  proof (induction pending)
    case (Cons x xs)
    then show ?case by (fastforce intro!: filter_True[symmetric])
  qed simp
  have "\<exists>pending'. push_lines doc mx [a..<b + 1] (events, ?p)
      = ((take mx (events @ map (doc_event doc ms) [a..<b + 1]), pending'), mx \<le> length events + (b + 1 - a))
    \<and> (length events + (b + 1 - a) < mx \<longrightarrow> pending' = [p \<leftarrow> ?p. b + 1 \<le> p])"
    by (rule push_lines_events) (use Cons.prems(3-5) ls in \<open>auto simp: p sorted_wrt_filter simp del: upt_Suc\<close>)
  then obtain pending' where push: "push_rendered_interval doc mx a b (events, pending)
      = ((take mx (events @ map (doc_event doc ms) [a..<b + 1]), pending'), mx \<le> length events + (b + 1 - a))"
      "length events + (b + 1 - a) < mx \<Longrightarrow> pending' = [p \<leftarrow> ?p. b + 1 \<le> p]"
    by (auto simp: push_rendered_interval_def simp del: upt_Suc)
  show ?case
  proof (cases "mx \<le> length events + (b + 1 - a)")
    case True
    then show ?thesis using push(1) by (simp add: i ls[unfolded i] del: upt_Suc)
  next
    case False
    then have pend: "pending' = [p \<leftarrow> pending. b + 1 \<le> p]" using push(2) ab by (auto simp: p intro: filter_cong)
    have sep: "\<forall>j \<in> set (lines_of is). b + 1 \<le> j" "sorted_wrt (<) (lines_of is)"
      using Cons.prems(1) ab unfolding ls sorted_wrt_append by (auto simp: Suc_le_eq)
    have "\<exists>pending''. emit_all (push_rendered_interval doc mx) is (events @ map (doc_event doc ms) [a..<b + 1], pending')
      = ((take mx ((events @ map (doc_event doc ms) [a..<b + 1]) @ map (doc_event doc ms) (lines_of is)), pending''),
         mx \<le> length (events @ map (doc_event doc ms) [a..<b + 1]) + length (lines_of is))"
      by (rule Cons.IH) (use Cons.prems sep False in \<open>auto simp: pend ls sorted_wrt_filter simp del: upt_Suc\<close>)
    then show ?thesis using push(1) False by (auto simp: i ls[unfolded i] simp del: upt_Suc)
  qed
qed

lemma merged_proper: "a \<le> b \<Longrightarrow> \<forall>m \<in> set ms. m < n \<Longrightarrow> \<forall>(a', b') \<in> set (merged n ctx ms (a, b)). a' \<le> b'"
proof (induction ms arbitrary: a b)
  case (Cons m ms)
  obtain s e where i: "interval n ctx m = (s, e)" by fastforce
  have "s \<le> e" using Cons.prems i by (auto simp: interval_def)
  then show ?case using Cons.IH[of a "max b e"] Cons.IH[of s e] Cons.prems by (simp add: i)
qed simp

lemma push_rendered_events_eq:
  assumes "sorted_wrt (<) ms" "\<forall>m \<in> set ms. m < length (dc_lines doc)" "length (dc_lines doc) \<le> usize_max"
    "length events < mx"
  shows "push_rendered_events events doc ms ctx mx
    = (take mx (events @ doc_events doc ctx ms), mx \<le> length events + length (doc_events doc ctx ms))"
proof (cases ms)
  case Nil
  then show ?thesis using assms(4) by (simp add: push_rendered_events_def doc_events_def shown_def near_def)
next
  case (Cons m ms')
  let ?n = "length (dc_lines doc)"
  have n: "0 < ?n" using assms(2) Cons by auto
  note loop = for_each_merged[OF n assms(3)]
  obtain a b where i: "interval ?n ctx m = (a, b)" by fastforce
  have b: "b < ?n" using n i by (auto simp: interval_def min_less_iff_disj)
  let ?is = "merged ?n ctx ms' (a, b)"
  have lines: "lines_of ?is = shown ?n ctx ms" using shown_merged[of m ms' ?n ctx] assms(1,2) by (simp add: Cons i)
  have "a \<le> b" using i assms(2) Cons by (auto simp: interval_def)
  then have "\<forall>(a, b) \<in> set ?is. a \<le> b" using merged_proper[of a b ms' ?n ctx] assms(2) Cons by simp
  moreover have "sorted_wrt (<) (lines_of ?is)" unfolding lines by (auto simp: shown_def intro: sorted_wrt_filter)
  ultimately obtain pending' where "emit_all (push_rendered_interval doc mx) ?is (events, ms)
      = ((take mx (events @ map (doc_event doc ms) (lines_of ?is)), pending'), mx \<le> length events + length (lines_of ?is))"
    using emit_all_events[of ?is ms ms events mx doc] assms(1,4) by blast
  moreover have "for_each_render_interval ms ?n ctx (push_rendered_interval doc mx) None (events, ms)
      = emit_all (push_rendered_interval doc mx) ?is (events, ms)"
    using loop[OF b, of ms' ctx "push_rendered_interval doc mx" a "(events, ms)"]
    by (simp add: Cons render_interval_eq[OF n assms(3)] i)
  ultimately show ?thesis by (simp add: push_rendered_events_def doc_events_def lines)
qed

end
