(* ===== verification/BudgetProps.thy ===== *)
theory BudgetProps
  imports LinesProps
begin

text \<open>
  The budget of a scan: when it stops before the last line, the lines up to the one that fills the
  budget are settled, so checking the candidates gives the first events of a scan of all their lines.
\<close>

definition all_matches :: "query_plan \<Rightarrow> document \<Rightarrow> nat list" where
  \<comment> \<open>the lines of a document that match\<close>
  "all_matches plan doc = [i \<leftarrow> [0..<length (dc_lines doc)]. line_holds plan (slice (dc_content doc) (dc_lines doc ! i))]"

definition settled :: "nat \<Rightarrow> nat \<Rightarrow> nat list \<Rightarrow> nat \<Rightarrow> nat \<Rightarrow> bool" where
  \<comment> \<open>the matches so far show the budget's number of lines up to \<open>until\<close>, and their last one reaches it\<close>
  "settled n ctx ms B until \<longleftrightarrow> ms \<noteq> [] \<and> until \<le> snd (interval n ctx (last ms))
     \<and> B \<le> length [j \<leftarrow> shown n ctx ms. j \<le> until]"

lemma near_append: "near ctx (ms @ ms') j \<longleftrightarrow> near ctx ms j \<or> near ctx ms' j"
  by (auto simp: near_def)

lemma settled_no_more:
  assumes "settled n ctx ms B until" "sorted_wrt (<) (ms @ ms')" "j \<le> until" "\<forall>m \<in> set ms'. until < m"
  shows "near ctx (ms @ ms') j \<longleftrightarrow> near ctx ms j"
proof -
  have "near ctx ms j" if "near ctx ms' j"
  proof -
    from that obtain m where m: "m \<in> set ms'" "m \<le> j + ctx" by (auto simp: near_def)
    have "last ms \<in> set ms" using assms(1) by (auto simp: settled_def)
    moreover have "last ms < m" using assms(2) m(1) calculation by (simp add: sorted_wrt_append)
    moreover have "j \<le> last ms + ctx" using assms(1,3) by (simp add: settled_def interval_def)
    ultimately show ?thesis using m(2) by (auto simp: near_def intro!: bexI[of _ "last ms"])
  qed
  then show ?thesis by (auto simp: near_append)
qed

lemma filter_settled:
  assumes agree: "\<And>j. j \<le> until \<Longrightarrow> (P j \<longleftrightarrow> P' j) \<and> f j = f' j"
    and enough: "B \<le> length [j \<leftarrow> [0..<n]. P j \<and> j \<le> until]"
  shows "take B (map f [j \<leftarrow> [0..<n]. P j]) = take B (map f' [j \<leftarrow> [0..<n]. P' j])"
proof -
  have split: "[j \<leftarrow> [0..<n]. Q j] = [j \<leftarrow> [0..<n]. Q j \<and> j \<le> until] @ [j \<leftarrow> [0..<n]. Q j \<and> \<not> j \<le> until]" for Q
  proof (induction n)
    case (Suc n)
    have "[j \<leftarrow> [0..<n]. Q j \<and> \<not> j \<le> until] = []" if "n \<le> until" using that by (auto simp: filter_empty_conv)
    with Suc show ?case by auto
  qed simp
  have same: "[j \<leftarrow> [0..<n]. P j \<and> j \<le> until] = [j \<leftarrow> [0..<n]. P' j \<and> j \<le> until]"
    by (rule filter_cong) (use agree in auto)
  have "take B (map f [j \<leftarrow> [0..<n]. P j]) = take B (map f [j \<leftarrow> [0..<n]. P j \<and> j \<le> until])"
    using enough by (subst split) simp
  also have "map f [j \<leftarrow> [0..<n]. P j \<and> j \<le> until] = map f' [j \<leftarrow> [0..<n]. P' j \<and> j \<le> until]"
    unfolding same by (rule map_cong) (use agree in auto)
  also have "take B \<dots> = take B (map f' [j \<leftarrow> [0..<n]. P' j])"
    using enough same by (subst (2) split) simp
  finally show ?thesis .
qed

lemma settled_events:
  assumes st: "settled n ctx ms B until" and n: "n = length (dc_lines doc)"
    and sorted: "sorted_wrt (<) (ms @ ms1 @ ms2)" and later: "\<forall>m \<in> set ms2. until < m"
  shows "take B (doc_events doc ctx (ms @ ms1)) = take B (doc_events doc ctx (ms @ ms1 @ ms2))"
    "B \<le> length (doc_events doc ctx (ms @ ms1))"
proof -
  have mono: "near ctx ms j \<Longrightarrow> near ctx (ms @ ms1) j" for j by (simp add: near_append)
  have enough: "B \<le> length [j \<leftarrow> [0..<n]. near ctx (ms @ ms1) j \<and> j \<le> until]"
  proof -
    have "B \<le> length [j \<leftarrow> [0..<n]. near ctx ms j \<and> j \<le> until]"
      using st by (simp add: settled_def shown_def)
    also have "\<dots> \<le> length [j \<leftarrow> [0..<n]. near ctx (ms @ ms1) j \<and> j \<le> until]"
      by (induction n) (auto dest: mono)
    finally show ?thesis .
  qed
  have agree: "near ctx (ms @ ms1 @ ms2) j \<longleftrightarrow> near ctx (ms @ ms1) j" if "j \<le> until" for j
  proof -
    have "sorted_wrt (<) (ms @ ms2)" using sorted by (auto simp: sorted_wrt_append)
    from settled_no_more[OF st this that later] show ?thesis by (auto simp: near_append)
  qed
  show "take B (doc_events doc ctx (ms @ ms1)) = take B (doc_events doc ctx (ms @ ms1 @ ms2))"
    unfolding doc_events_def shown_def n[symmetric]
    by (rule filter_settled[OF _ enough]) (use agree later in \<open>auto simp: doc_event_def\<close>)
  show "B \<le> length (doc_events doc ctx (ms @ ms1))"
    using enough by (auto simp: doc_events_def shown_def n intro: le_trans[OF _ length_filter_le]
        simp flip: filter_filter)
qed

text \<open>One more match.\<close>

definition last_shown :: "nat \<Rightarrow> nat \<Rightarrow> nat list \<Rightarrow> nat option" where
  "last_shown n ctx ms = (if ms = [] then None else Some (snd (interval n ctx (last ms))))"

definition first_new :: "nat \<Rightarrow> nat \<Rightarrow> nat list \<Rightarrow> nat \<Rightarrow> nat" where
  "first_new n ctx ms i = (case last_shown n ctx ms of
     None \<Rightarrow> fst (interval n ctx i) | Some m \<Rightarrow> max (fst (interval n ctx i)) (m + 1))"

lemma le_last: "sorted_wrt (<) ms \<Longrightarrow> m \<in> set ms \<Longrightarrow> m \<le> last (ms :: nat list)"
  by (induction ms) (auto simp: less_imp_le)

lemma shown_more:
  assumes sorted: "sorted_wrt (<) (ms @ [i])" and i: "i < n"
  shows "set (shown n ctx (ms @ [i])) = set (shown n ctx ms) \<union> {first_new n ctx ms i..snd (interval n ctx i)}"
    "j \<in> set (shown n ctx ms) \<Longrightarrow> j < first_new n ctx ms i"
    "last_shown n ctx ms = Some m \<Longrightarrow> m \<le> snd (interval n ctx i)"
proof -
  have one: "{fst (interval n ctx i)..snd (interval n ctx i)} = {j. j < n \<and> j \<le> i + ctx \<and> i \<le> j + ctx}"
    using i by (auto simp: interval_def)
  show old: "j < first_new n ctx ms i" if j: "j \<in> set (shown n ctx ms)" for j
  proof -
    from j obtain m where m: "m \<in> set ms" "j \<le> m + ctx" "j < n" by (auto simp: shown_def near_def)
    moreover have "m \<le> last ms" using le_last[OF _ m(1)] sorted by (simp add: sorted_wrt_append)
    moreover have "ms \<noteq> []" using m(1) by auto
    ultimately show ?thesis by (auto simp: first_new_def last_shown_def interval_def)
  qed
  show mono: "m \<le> snd (interval n ctx i)" if "last_shown n ctx ms = Some m" for m
  proof -
    have ne: "ms \<noteq> []" using that by (auto simp: last_shown_def)
    then have "last ms < i" using sorted by (simp add: sorted_wrt_append)
    with that ne show ?thesis by (auto simp: last_shown_def interval_def)
  qed
  show "set (shown n ctx (ms @ [i])) = set (shown n ctx ms) \<union> {first_new n ctx ms i..snd (interval n ctx i)}"
  proof (cases "ms = []")
    case True
    then show ?thesis using one by (auto simp: shown_def near_def first_new_def last_shown_def)
  next
    case False
    have lt: "last ms < i" using sorted False by (simp add: sorted_wrt_append)
    have "j \<in> set (shown n ctx ms)" if "j < first_new n ctx ms i" "fst (interval n ctx i) \<le> j" "j < n" for j
    proof -
      have "j \<le> last ms + ctx" "last ms \<le> j + ctx" using that lt i False
        by (auto simp: first_new_def last_shown_def interval_def)
      with that(3) False show ?thesis by (auto simp: shown_def near_def intro!: bexI[of _ "last ms"])
    qed
    moreover have "set (shown n ctx (ms @ [i])) = set (shown n ctx ms) \<union> {fst (interval n ctx i)..snd (interval n ctx i)}"
      unfolding one by (auto simp: shown_def near_append) (auto simp: near_def)
    moreover have "fst (interval n ctx i) \<le> first_new n ctx ms i" by (auto simp: first_new_def split: option.split)
    moreover have "snd (interval n ctx i) < n" using i by (auto simp: interval_def)
    ultimately show ?thesis by fastforce
  qed
qed

lemma distinct_shown: "distinct (shown n ctx ms)"
  by (simp add: shown_def)

lemma length_shown: "length (shown n ctx ms) = card (set (shown n ctx ms))"
  using distinct_card[OF distinct_shown] by metis

lemma length_shown_more:
  assumes "sorted_wrt (<) (ms @ [i])" "i < n"
  shows "length (shown n ctx (ms @ [i]))
      = length (shown n ctx ms) + (snd (interval n ctx i) + 1 - first_new n ctx ms i)"
    "u \<le> snd (interval n ctx i) \<Longrightarrow> first_new n ctx ms i \<le> u \<Longrightarrow>
       length [j \<leftarrow> shown n ctx (ms @ [i]). j \<le> u] = length (shown n ctx ms) + (u + 1 - first_new n ctx ms i)"
proof -
  note more = shown_more[OF assms, where ctx = ctx]
  have dis: "set (shown n ctx ms) \<inter> {first_new n ctx ms i..u} = {}" for u using more(2) by fastforce
  show "length (shown n ctx (ms @ [i]))
      = length (shown n ctx ms) + (snd (interval n ctx i) + 1 - first_new n ctx ms i)"
    unfolding length_shown more(1) using dis by (subst card_Un_disjoint) auto
  assume u: "u \<le> snd (interval n ctx i)" "first_new n ctx ms i \<le> u"
  have "length [j \<leftarrow> shown n ctx (ms @ [i]). j \<le> u] = card (set [j \<leftarrow> shown n ctx (ms @ [i]). j \<le> u])"
    by (rule distinct_card[symmetric]) (simp add: distinct_shown)
  also have "set [j \<leftarrow> shown n ctx (ms @ [i]). j \<le> u] = set (shown n ctx ms) \<union> {first_new n ctx ms i..u}"
    unfolding set_filter more(1) using u more(2) by fastforce
  also have "card \<dots> = length (shown n ctx ms) + (u + 1 - first_new n ctx ms i)"
    unfolding length_shown using dis by (subst card_Un_disjoint) auto
  finally show "length [j \<leftarrow> shown n ctx (ms @ [i]). j \<le> u] = length (shown n ctx ms) + (u + 1 - first_new n ctx ms i)" .
qed

section \<open>The scan of a document\<close>

definition scan_ok :: "nat \<Rightarrow> nat \<Rightarrow> nat \<Rightarrow> nat \<Rightarrow> line_scan \<Rightarrow> bool" where
  \<comment> \<open>what holds of the loop's state in front of line \<open>i\<close>\<close>
  "scan_ok n ctx B i sc \<longleftrightarrow> sorted_wrt (<) (ls_matched sc) \<and> (\<forall>m \<in> set (ls_matched sc). m < i)
     \<and> (case ls_scan_until sc of
          None \<Rightarrow> ls_rendered_count sc = length (shown n ctx (ls_matched sc)) \<and> ls_rendered_count sc < B
            \<and> ls_rendered_max sc = last_shown n ctx (ls_matched sc)
        | Some u \<Rightarrow> i \<le> u \<and> (\<exists>m0 m1. ls_matched sc = m0 @ m1 \<and> settled n ctx m0 B u))"

lemma budget_after_match_ok:
  assumes ok: "scan_ok n ctx B i sc" and open_scan: "ls_scan_until sc = None" and i: "i < n" and n: "n \<le> usize_max"
  shows "case budget_after_match (Some \<lparr> lb_context = ctx, lb_event_budget = B \<rparr>) n i
        (sc\<lparr> ls_matched := ls_matched sc @ [i] \<rparr>) of
      StopScan \<Rightarrow> \<exists>u \<le> i. settled n ctx (ls_matched sc @ [i]) B u
    | GoOn sc1 \<Rightarrow> ls_matched sc1 = ls_matched sc @ [i] \<and> scan_ok n ctx B (i + 1) sc1"
proof -
  let ?ms = "ls_matched sc"
  let ?from = "first_new n ctx ?ms i"
  obtain a e where ae: "interval n ctx i = (a, e)" by fastforce
  have bounds: "a \<le> i" "i \<le> e" "a \<le> e" using ae i by (auto simp: interval_def)
  have sorted: "sorted_wrt (<) (?ms @ [i])" using ok by (simp add: scan_ok_def sorted_wrt_append)
  have lt: "\<forall>m \<in> set (?ms @ [i]). m < i + 1" using ok by (auto simp: scan_ok_def)
  have cnt: "ls_rendered_count sc = length (shown n ctx ?ms)" "ls_rendered_count sc < B"
    "ls_rendered_max sc = last_shown n ctx ?ms" using ok open_scan by (auto simp: scan_ok_def)
  have top: "last_shown n ctx (?ms @ [i]) = Some e" by (simp add: last_shown_def ae)
  have ri: "render_interval i n ctx = Some (a, e)" using render_interval_eq[of n i ctx] i n ae by simp
  have start: "(case ls_rendered_max sc of Some m \<Rightarrow> if a \<le> m then m + 1 else a | None \<Rightarrow> a) = ?from"
    by (auto simp: first_new_def ae cnt(3) split: option.split)
  note len = length_shown_more[OF sorted i, where ctx = ctx, unfolded ae snd_conv]
  define u where "u = ?from + (B - ls_rendered_count sc) - 1"
  let ?sc = "sc\<lparr> ls_matched := ?ms @ [i] \<rparr>"
  let ?sc1 = "?sc\<lparr> ls_rendered_count := ls_rendered_count sc + (e - ?from + 1), ls_rendered_max := Some e \<rparr>"
  have "B \<noteq> 0" using cnt(2) by simp
  then have eval: "budget_after_match (Some \<lparr> lb_context = ctx, lb_event_budget = B \<rparr>) n i ?sc =
      (if ?from > e then GoOn ?sc
       else if e - ?from + 1 \<ge> B - ls_rendered_count sc
         then (if i \<ge> u then StopScan else GoOn (?sc1\<lparr> ls_scan_until := Some u \<rparr>))
       else GoOn ?sc1)"
    by (simp add: budget_after_match_def ri start Let_def u_def)
  show ?thesis
  proof (cases "?from > e")
    case True
    then obtain m where m: "last_shown n ctx ?ms = Some m" "e \<le> m"
      using bounds by (auto simp: first_new_def ae split: option.splits)
    then have "m = e" using shown_more(3)[OF sorted i m(1)] ae by simp
    then show ?thesis unfolding eval using True cnt len(1) m top sorted lt open_scan by (simp add: scan_ok_def)
  next
    case False
    show ?thesis
    proof (cases "e - ?from + 1 \<ge> B - ls_rendered_count sc")
      case True
      then have u: "u \<le> e" "?from \<le> u" using False cnt(2) by (auto simp: u_def)
      have "length [j \<leftarrow> shown n ctx (?ms @ [i]). j \<le> u] = B"
        using len(2)[OF u] cnt(1,2) False by (simp add: u_def)
      then have set: "settled n ctx (?ms @ [i]) B u" using u by (simp add: settled_def ae)
      show ?thesis
      proof (cases "u \<le> i")
        case stop: True
        then show ?thesis unfolding eval using False True set by auto
      next
        case go: False
        have "\<exists>m0 m1. ?ms @ [i] = m0 @ m1 \<and> settled n ctx m0 B u"
          using set by (intro exI[of _ "?ms @ [i]"] exI[of _ "[]"]) simp
        moreover have "i + 1 \<le> u" using go by simp
        ultimately show ?thesis unfolding eval using sorted lt False True go by (simp add: scan_ok_def)
      qed
    next
      case more: False
      have "length (shown n ctx (?ms @ [i])) = ls_rendered_count sc + (e - ?from + 1)" using len(1) False cnt(1) by simp
      moreover have "ls_rendered_count sc + (e - ?from + 1) < B" using more cnt(2) by linarith
      ultimately show ?thesis unfolding eval using False more top sorted lt open_scan by (simp add: scan_ok_def)
    qed
  qed
qed

lemma scan_lines_events:
  fixes M :: memlib and plan :: query_plan
  defines "H doc \<equiv> \<lambda>i. line_holds plan (slice (dc_content doc) (dc_lines doc ! i))"
  assumes hyps: "memlib_ok M" "seeds_fit plan sel" "length (dc_lines doc) \<le> usize_max"
    and run: "scan_lines M doc plan sel L (Some \<lparr> lb_context = ctx, lb_event_budget = B \<rparr>) i (drop i (dc_lines doc)) sc st
      = Inr (out, stopped, st')"
    and inv: "i \<le> length (dc_lines doc)" "ls_matched sc = [x \<leftarrow> [0..<i]. H doc x]" "scan_ok (length (dc_lines doc)) ctx B i sc"
  shows "(if stopped then take B (doc_events doc ctx out) = take B (doc_events doc ctx (all_matches plan doc))
        \<and> B \<le> length (doc_events doc ctx out)
      else out = all_matches plan doc)
    \<and> sorted_wrt (<) out \<and> (\<forall>m \<in> set out. m < length (dc_lines doc))"
  using run inv
proof (induction "drop i (dc_lines doc)" arbitrary: i sc st)
  case Nil
  then show ?case by (auto simp: all_matches_def H_def scan_ok_def)
next
  case (Cons r rs)
  let ?n = "length (dc_lines doc)"
  let ?b = "Some \<lparr> lb_context = ctx, lb_event_budget = B \<rparr>"
  have i: "i < ?n" using Cons.hyps(2) by (metis drop_all linorder_not_le list.distinct(1))
  have r: "r = dc_lines doc ! i" "rs = drop (Suc i) (dc_lines doc)"
    using Cons.hyps(2) unfolding Cons_nth_drop_Suc[OF i, symmetric] by simp_all
  from Cons.prems(1)[folded Cons.hyps(2)] obtain b st2 where
    b: "line_is_match M plan sel L (slice (dc_content doc) r)
        (st\<lparr> vs_verified_lines := saturating_add (vs_verified_lines st) 1 \<rparr>) = Inr (b, st2)"
    by (auto simp: Let_def bindE_Inr_iff)
  have H: "b \<longleftrightarrow> H doc i" using line_is_match_holds[OF hyps(1,2) b] by (simp add: H_def r)
  define sc1 where "sc1 = (if b then sc\<lparr> ls_matched := ls_matched sc @ [i] \<rparr> else sc)"
  have ms1: "ls_matched sc1 = [x \<leftarrow> [0..<Suc i]. H doc x]" using Cons.prems(3) H by (simp add: sc1_def)
  have same: "ls_scan_until sc1 = ls_scan_until sc" by (simp add: sc1_def)
  have sorted1: "sorted_wrt (<) (ls_matched sc1)" "\<forall>m \<in> set (ls_matched sc1). m < ?n"
    unfolding ms1 using i by (auto simp: sorted_wrt_filter simp del: upt_Suc)
  have rest: "all_matches plan doc = ls_matched sc1 @ [x \<leftarrow> [Suc i..<?n]. H doc x]"
  proof -
    have "Suc i + (?n - Suc i) = ?n" using i by simp
    then have "[0..<?n] = [0..<Suc i] @ [Suc i..<?n]" using upt_add_eq_append[of 0 "Suc i" "?n - Suc i"] by (metis le0)
    then show ?thesis by (simp add: ms1 all_matches_def H_def del: upt_Suc)
  qed
  have run1: "scan_lines M doc plan sel L ?b i (r # rs) sc st = (case ls_scan_until sc of
        Some until \<Rightarrow> if i \<ge> until then Inr (ls_matched sc1, True, st2)
          else scan_lines M doc plan sel L ?b (i + 1) rs sc1 st2
      | None \<Rightarrow> if b then (case budget_after_match ?b ?n i sc1 of
               StopScan \<Rightarrow> Inr (ls_matched sc1, True, st2)
             | GoOn sc2 \<Rightarrow> scan_lines M doc plan sel L ?b (i + 1) rs sc2 st2)
          else scan_lines M doc plan sel L ?b (i + 1) rs sc1 st2)"
    using b by (cases b) (simp_all add: Let_def sc1_def split: option.split budget_step.split)
  have stop: ?case if settled: "settled ?n ctx m0 B u" and m0: "ls_matched sc1 = m0 @ m1" and u: "u \<le> i"
    and out: "out = ls_matched sc1" "stopped" for m0 m1 u
  proof -
    have "sorted_wrt (<) (m0 @ m1 @ [x \<leftarrow> [Suc i..<?n]. H doc x])"
    proof -
      have "sorted_wrt (<) (all_matches plan doc)" by (simp add: all_matches_def sorted_wrt_filter)
      then show ?thesis by (simp add: rest m0)
    qed
    from settled_events[OF settled refl this] u sorted1 out rest m0 show ?thesis by auto
  qed
  have go: ?case if "scan_lines M doc plan sel L ?b (i + 1) rs sc2 st2 = Inr (out, stopped, st')"
    "ls_matched sc2 = ls_matched sc1" "scan_ok ?n ctx B (i + 1) sc2" for sc2
    by (rule Cons.hyps(1)[of "Suc i" sc2 st2]) (use that i ms1 r in auto)
  note run2 = Cons.prems(1)[folded Cons.hyps(2), unfolded run1]
  show ?case
  proof (cases "ls_scan_until sc")
    case (Some u)
    from Cons.prems(4) Some obtain m0 m1 where m: "i \<le> u" "ls_matched sc = m0 @ m1" "settled ?n ctx m0 B u"
      by (auto simp: scan_ok_def)
    then have "\<exists>m1'. ls_matched sc1 = m0 @ m1'" by (cases b) (simp_all add: sc1_def)
    then obtain m1' where m1': "ls_matched sc1 = m0 @ m1'" by blast
    show ?thesis
    proof (cases "u \<le> i")
      case True
      then have "out = ls_matched sc1" "stopped" using run2 Some by auto
      then show ?thesis by (rule stop[OF m(3) m1' True])
    next
      case False
      have lt: "\<forall>m \<in> set (ls_matched sc1). m < i + 1" unfolding ms1 by (auto simp del: upt_Suc)
      have "i + 1 \<le> u" using False by simp
      moreover have "\<exists>m0 m1. ls_matched sc1 = m0 @ m1 \<and> settled ?n ctx m0 B u" using m(3) m1' by blast
      ultimately have "scan_ok ?n ctx B (i + 1) sc1" using Some sorted1(1) lt by (simp add: scan_ok_def same)
      moreover have "scan_lines M doc plan sel L ?b (i + 1) rs sc1 st2 = Inr (out, stopped, st')"
        using run2 Some False by simp
      ultimately show ?thesis by (intro go[of sc1]) simp_all
    qed
  next
    case None
    show ?thesis
    proof (cases b)
      case True
      then have sc1: "sc1 = sc\<lparr> ls_matched := ls_matched sc @ [i] \<rparr>" by (simp add: sc1_def)
      note step = budget_after_match_ok[OF Cons.prems(4) None i hyps(3), folded sc1]
      show ?thesis
      proof (cases "budget_after_match ?b ?n i sc1")
        case StopScan
        with step obtain u where u: "u \<le> i" "settled ?n ctx (ls_matched sc1) B u" by (auto simp: sc1)
        have "out = ls_matched sc1" "stopped" using run2 None True StopScan by auto
        then show ?thesis by (intro stop[OF u(2) _ u(1), of "[]"]) simp_all
      next
        case (GoOn sc2)
        then show ?thesis using run2 None True step go[of sc2] by (simp add: sc1)
      qed
    next
      case False
      then have "scan_ok ?n ctx B (i + 1) sc1" using Cons.prems(4) None by (auto simp: scan_ok_def sc1_def)
      moreover have "scan_lines M doc plan sel L ?b (i + 1) rs sc1 st2 = Inr (out, stopped, st')"
        using run2 None False by simp
      ultimately show ?thesis by (intro go[of sc1]) simp_all
    qed
  qed
qed

section \<open>All the candidates\<close>

definition candidate_events :: "index_snapshot \<Rightarrow> query_plan \<Rightarrow> nat \<Rightarrow> doc_id list \<Rightarrow> search_event list" where
  "candidate_events sn plan ctx ds =
     concat (map (\<lambda>d. doc_events (sn_documents sn ! d) ctx (all_matches plan (sn_documents sn ! d))) ds)"

lemma doc_events_none [simp]: "doc_events doc ctx [] = []"
  by (simp add: doc_events_def shown_def near_def)

lemma matching_lines_events:
  assumes "memlib_ok M" "seeds_fit plan sel" "length (dc_lines doc) \<le> usize_max" "0 < B"
    "matching_line_indexes_with_budget M doc plan sel L (Some \<lparr> lb_context = ctx, lb_event_budget = B \<rparr>) st
      = Inr (out, stopped, st')"
  shows "if stopped then take B (doc_events doc ctx out) = take B (doc_events doc ctx (all_matches plan doc))
        \<and> B \<le> length (doc_events doc ctx out)
      else out = all_matches plan doc"
    "sorted_wrt (<) out" "\<forall>m \<in> set out. m < length (dc_lines doc)"
proof -
  let ?sc = "\<lparr> ls_matched = [], ls_scan_until = None, ls_rendered_count = 0, ls_rendered_max = None \<rparr>"
  have "scan_ok (length (dc_lines doc)) ctx B 0 ?sc"
    using assms(4) by (simp add: scan_ok_def last_shown_def shown_def near_def)
  with scan_lines_events[OF assms(1-3), of L ctx B 0 ?sc st out stopped st'] assms(5)
  show "if stopped then take B (doc_events doc ctx out) = take B (doc_events doc ctx (all_matches plan doc))
        \<and> B \<le> length (doc_events doc ctx out)
      else out = all_matches plan doc"
    "sorted_wrt (<) out" "\<forall>m \<in> set out. m < length (dc_lines doc)"
    by (simp_all add: matching_line_indexes_with_budget_def)
qed

lemma verify_docs_events:
  assumes hyps: "memlib_ok M" "seeds_fit plan sel" "\<forall>doc \<in> set (sn_documents sn). length (dc_lines doc) \<le> usize_max"
    and run: "verify_docs M sn plan sel L mx ctx ds v = Inr v'" and room: "length (ve_events v) < mx"
  shows "ve_events v' = take mx (ve_events v @ candidate_events sn plan ctx ds)
    \<and> (ve_truncated v' \<longleftrightarrow> ve_truncated v \<or> mx \<le> length (ve_events v @ candidate_events sn plan ctx ds))"
  using run room
proof (induction ds arbitrary: v)
  case Nil
  then show ?case by (simp add: candidate_events_def)
next
  case (Cons d ds)
  let ?doc = "sn_documents sn ! d"
  let ?ev = "ve_events v"
  let ?B = "mx - length ?ev"
  let ?all = "doc_events ?doc ctx (all_matches plan ?doc)"
  let ?rest = "candidate_events sn plan ctx ds"
  have ce: "candidate_events sn plan ctx (d # ds) = ?all @ ?rest" by (simp add: candidate_events_def)
  have B: "0 < ?B" using Cons.prems(2) by simp
  from Cons.prems(1) have d: "d < length (sn_documents sn)" by (auto split: if_splits)
  then have n: "length (dc_lines ?doc) \<le> usize_max" using hyps(3) by simp
  from Cons.prems(1) d B obtain ms stopped st where
    ms: "matching_line_indexes_with_budget M ?doc plan sel L (Some \<lparr> lb_context = ctx, lb_event_budget = ?B \<rparr>) (ve_stats v)
      = Inr (ms, stopped, st)"
    by (auto simp: Let_def bindE_Inr_iff split: if_splits)
  note out = matching_lines_events[OF hyps(1,2) n B ms]
  note push = push_rendered_events_eq[OF out(2,3) n Cons.prems(2), of ctx]
  have run: "verify_docs M sn plan sel L mx ctx (d # ds) v = (let v1 = v\<lparr> ve_stats := st \<rparr> in
      if ms = [] then verify_docs M sn plan sel L mx ctx ds v1
      else let events = take mx (?ev @ doc_events ?doc ctx ms);
               v2 = v1\<lparr> ve_events := events, ve_result_doc_ids :=
                  (if length events > length ?ev then ve_result_doc_ids v @ [d] else ve_result_doc_ids v) \<rparr>
            in if mx \<le> length ?ev + length (doc_events ?doc ctx ms) \<or> stopped then Inr (v2\<lparr> ve_truncated := True \<rparr>)
               else verify_docs M sn plan sel L mx ctx ds v2)"
    using d B by (simp add: ms Let_def push)
  show ?case
  proof (cases "ms = []")
    case True
    then have "all_matches plan ?doc = []" using out(1) B by (auto split: if_splits)
    moreover have "verify_docs M sn plan sel L mx ctx ds (v\<lparr> ve_stats := st \<rparr>) = Inr v'"
      using Cons.prems(1) unfolding run by (simp add: True Let_def)
    ultimately show ?thesis using Cons.IH[of "v\<lparr> ve_stats := st \<rparr>"] Cons.prems(2) by (simp add: ce)
  next
    case False
    show ?thesis
    proof (cases "mx \<le> length ?ev + length (doc_events ?doc ctx ms) \<or> stopped")
      case True
      have first: "take ?B (doc_events ?doc ctx ms) = take ?B ?all" using out(1) by (auto split: if_splits)
      have full: "?B \<le> length (doc_events ?doc ctx ms)" using True out(1) by (auto split: if_splits)
      have long: "?B \<le> length ?all"
      proof -
        have "length (take ?B ?all) = ?B" using first full by (metis length_take min.absorb2)
        then show ?thesis by (metis length_take min.cobounded1)
      qed
      then have "mx \<le> length ?ev + length ?all" by linarith
      moreover have "ve_events v' = take mx (?ev @ doc_events ?doc ctx ms) \<and> ve_truncated v'"
        using Cons.prems(1) True False unfolding run by (auto simp: Let_def)
      ultimately show ?thesis using Cons.prems(2) first long by (simp add: ce)
    next
      case more: False
      then have all: "ms = all_matches plan ?doc" using out(1) by simp
      then have short: "length ?ev + length ?all < mx" using more by simp
      obtain ids where "verify_docs M sn plan sel L mx ctx ds
          (v\<lparr> ve_stats := st, ve_events := ?ev @ ?all, ve_result_doc_ids := ids \<rparr>) = Inr v'"
        using Cons.prems(1) False more short unfolding run by (auto simp: Let_def all)
      from Cons.IH[OF this] short show ?thesis by (simp add: ce)
    qed
  qed
qed

lemma verify_and_render_events:
  assumes "memlib_ok M" "seeds_fit plan sel" "\<forall>doc \<in> set (sn_documents sn). length (dc_lines doc) \<le> usize_max"
    "verify_and_render M sn ds plan sel mx ctx L = Inr v" "0 < mx"
  shows "ve_events v = take mx (candidate_events sn plan ctx ds)"
    "ve_truncated v \<longleftrightarrow> mx \<le> length (candidate_events sn plan ctx ds)"
  using verify_docs_events[OF assms(1-3)] assms(4,5) by (auto simp: verify_and_render_def)

end
