(* ===== verification/RegexProps.thy ===== *)
theory RegexProps
  imports SearchRegex SearchProps
begin

text \<open>
  The candidates of a regular expression lose no match: whatever a pattern spells begins with one of
  its finite prefixes, contains what its required literals ask for, and so a text around it has all
  their trigrams.
\<close>

section \<open>Finite prefixes\<close>

definition covers :: "bytes list \<Rightarrow> bytes set \<Rightarrow> bool" where
  \<comment> \<open>the list has the beginnings, as long as they are kept, of all the texts\<close>
  "covers P A \<longleftrightarrow> (\<forall>s \<in> A. take MAX_REGEX_FINITE_LITERAL_BYTES s \<in> set P)"

lemma set_push_limited: "push_limited_literal_prefix ls x = Some r \<Longrightarrow> set r = insert x (set ls)"
  by (auto simp: push_limited_literal_prefix_def split: if_splits)

lemma set_push_all: "push_all ls xs = Some r \<Longrightarrow> set r = set ls \<union> set xs"
proof (induction xs arbitrary: ls)
  case (Cons x xs)
  then obtain ls1 where "push_limited_literal_prefix ls x = Some ls1" "push_all ls1 xs = Some r"
    by (auto split: option.splits)
  with Cons.IH set_push_limited show ?case by auto
qed simp

lemma set_push_sets:
  "push_sets ls (map f xs) = Some r \<Longrightarrow> set ls \<subseteq> set r \<and> (\<forall>x \<in> set xs. \<exists>P. f x = Some P \<and> set P \<subseteq> set r)"
proof (induction xs arbitrary: ls)
  case (Cons x xs)
  then obtain P ls1 where P: "f x = Some P" "push_all ls P = Some ls1" "push_sets ls1 (map f xs) = Some r"
    by (cases "f x") (auto split: option.splits)
  with Cons.IH[OF P(3)] set_push_all[OF P(2)] show ?case by auto
qed simp

lemma concat_bounded_prefix:
  "concat_bounded_literal_prefix (take MAX_REGEX_FINITE_LITERAL_BYTES a) (take MAX_REGEX_FINITE_LITERAL_BYTES b)
     = take MAX_REGEX_FINITE_LITERAL_BYTES (a @ b)"
  by (auto simp: concat_bounded_literal_prefix_def Let_def min_def)

lemma in_conc: "s \<in> conc A B \<longleftrightarrow> (\<exists>a b. s = a @ b \<and> a \<in> A \<and> b \<in> B)"
  by (simp add: conc_def)

lemma covers_conc:
  assumes "covers P A" "covers Q B" "concat_literal_prefix_sets P Q = Some C"
  shows "covers C (conc A B)"
proof -
  have C: "set C = {concat_bounded_literal_prefix x y | x y. x \<in> set P \<and> y \<in> set Q}"
    using set_push_all[OF assms(3)[unfolded concat_literal_prefix_sets_def]] by auto
  have "take MAX_REGEX_FINITE_LITERAL_BYTES (a @ b) \<in> set C" if "a \<in> A" "b \<in> B" for a b
    unfolding C concat_bounded_prefix[symmetric] using assms(1,2) that by (auto simp: covers_def)
  then show ?thesis by (auto simp: covers_def in_conc)
qed

lemma conc_assoc: "conc (conc A B) C = conc A (conc B C)"
proof -
  have "s \<in> conc (conc A B) C \<longleftrightarrow> s \<in> conc A (conc B C)" for s
    unfolding in_conc by (metis append_assoc)
  then show ?thesis by blast
qed

lemma conc_empty [simp]: "conc A {[]} = A" "conc {[]} A = A"
  by (auto simp: conc_def)

lemma conc_power: "conc A ((conc A ^^ k) {[]}) = conc ((conc A ^^ k) {[]}) A"
  by (induction k) (simp_all, metis conc_assoc)

lemma covers_repeat:
  "covers u A \<Longrightarrow> repeat_literal_prefix_set u k = Some P \<Longrightarrow> covers P ((conc A ^^ k) {[]})"
proof (induction k arbitrary: P)
  case 0
  then show ?case by (auto simp: covers_def)
next
  case (Suc k)
  then obtain Q where "repeat_literal_prefix_set u k = Some Q" "concat_literal_prefix_sets Q u = Some P"
    by (auto split: option.splits)
  with covers_conc[OF Suc.IH[OF Suc.prems(1)] Suc.prems(1)] show ?case by (simp add: conc_power)
qed

lemma covers_concat_sets:
  assumes "\<And>h Q. h \<in> set hs \<Longrightarrow> finite_literal_prefixes h = Some Q \<Longrightarrow> covers Q (spells h)"
    "covers P A" "concat_sets P (map finite_literal_prefixes hs) = Some R"
  shows "covers R (conc A (foldr conc (map spells hs) {[]}))"
  using assms
proof (induction hs arbitrary: P A)
  case (Cons h hs)
  from Cons.prems(3) obtain Q C where Q: "finite_literal_prefixes h = Some Q" "concat_literal_prefix_sets P Q = Some C"
    "concat_sets C (map finite_literal_prefixes hs) = Some R"
    by (cases "finite_literal_prefixes h") (auto split: option.splits)
  have "covers Q (spells h)" using Cons.prems(1) Q(1) by simp
  from Cons.IH[OF _ covers_conc[OF Cons.prems(2) this Q(2)] Q(3)] Cons.prems(1)
  show ?case by (simp add: conc_assoc)
qed simp

lemma finite_prefixes_cover: "finite_literal_prefixes h = Some P \<Longrightarrow> covers P (spells h)"
proof (induction h arbitrary: P rule: finite_literal_prefixes.induct)
  case (6 mn mx h)
  from 6(2) obtain m u where mu: "mx = Some m" "finite_literal_prefixes h = Some u"
    "push_sets [] (map (repeat_literal_prefix_set u) [mn..<m + 1]) = Some P"
    by (auto simp: finite_repetition_literal_prefixes_def split: option.splits if_splits)
  have u: "covers u (spells h)" using 6(1) mu(2) by blast
  have "take MAX_REGEX_FINITE_LITERAL_BYTES s \<in> set P" if "mn \<le> k" "k \<le> m" "s \<in> (conc (spells h) ^^ k) {[]}" for s k
  proof -
    have "k \<in> set [mn..<m + 1]" using that by (simp del: upt_Suc)
    with set_push_sets[OF mu(3)] obtain Q where Q: "repeat_literal_prefix_set u k = Some Q" "set Q \<subseteq> set P" by blast
    from covers_repeat[OF u Q(1)] that(3) Q(2) show ?thesis by (auto simp: covers_def)
  qed
  then show ?case by (auto simp: covers_def mu(1))
next
  case (7 hs)
  show ?case using covers_concat_sets[of hs "[[]]" "{[]}" P] 7 by (auto simp: covers_def)
next
  case (8 hs)
  have "take MAX_REGEX_FINITE_LITERAL_BYTES s \<in> set P" if h: "h \<in> set hs" "s \<in> spells h" for h s
  proof -
    from set_push_sets[of "[]" finite_literal_prefixes hs P] 8(2) h(1)
    obtain Q where "finite_literal_prefixes h = Some Q" "set Q \<subseteq> set P" by auto
    with 8(1)[OF h(1)] h(2) show ?thesis by (auto simp: covers_def)
  qed
  then show ?case by (auto simp: covers_def)
qed (auto simp: covers_def bounded_literal_prefix_def)

section \<open>Required literals\<close>

fun expr_holds :: "candidate_expr \<Rightarrow> bytes \<Rightarrow> bool" where
  "expr_holds (Seed s) t \<longleftrightarrow> (\<exists>a b. t = a @ s @ b)"
| "expr_holds (AndExpr es) t \<longleftrightarrow> list_all (\<lambda>e. expr_holds e t) es"
| "expr_holds (OrExpr es) t \<longleftrightarrow> list_ex (\<lambda>e. expr_holds e t) es"

lemma expr_holds_infix: "expr_holds e t \<Longrightarrow> expr_holds e (a @ t @ b)"
proof (induction e)
  case (Seed s)
  then show ?case by simp (metis append_assoc)
qed (auto simp: list_all_iff list_ex_iff)

lemma expr_holds_may: "expr_holds e t \<Longrightarrow> expr_may_hold e t"
proof (induction e)
  case (Seed s)
  then show ?case using tris_infix by (auto simp: may_hold_def fold_case_def)
qed (auto simp: list_all_iff list_ex_iff)

lemma set_dedup_candidates: "set (dedup_candidate_exprs es) = set es"
proof -
  have "set (fold (\<lambda>e unique. if e \<in> set unique then unique else unique @ [e]) es u) = set u \<union> set es" for u
    by (induction es arbitrary: u) auto
  then show ?thesis by (simp add: dedup_candidate_exprs_def)
qed

lemma candidate_and_holds:
  assumes "candidate_and es = Some e" "\<forall>x \<in> set es. expr_wf x"
  shows "expr_wf e" "expr_holds e t \<longleftrightarrow> (\<forall>x \<in> set es. expr_holds x t)"
proof -
  define us where "us = concat (map (\<lambda>e. case e of AndExpr children \<Rightarrow> children | _ \<Rightarrow> [e]) es)"
  have "expr_wf y" if "expr_wf x" "y \<in> set (case x of AndExpr children \<Rightarrow> children | _ \<Rightarrow> [x])" for x y
    using that by (cases x) (auto simp: list_all_iff)
  with assms(2) have wf: "\<forall>x \<in> set us. expr_wf x" unfolding us_def by (simp only: set_concat set_map) blast
  have "(\<forall> y \<in> set (case x of AndExpr children \<Rightarrow> children | _ \<Rightarrow> [x]). expr_holds y t) \<longleftrightarrow> expr_holds x t" for x
    by (cases x) (auto simp: list_all_iff)
  then have holds: "(\<forall> x \<in> set us. expr_holds x t) \<longleftrightarrow> (\<forall> x \<in> set es. expr_holds x t)"
    unfolding us_def by (simp only: set_concat set_map) blast
  from assms(1) have "candidate_expr_from_many us AndExpr = Some e" by (simp add: candidate_and_def us_def)
  then have "expr_wf e \<and> (expr_holds e t \<longleftrightarrow> (\<forall>x \<in> set us. expr_holds x t))"
    using set_dedup_candidates[of us] wf
    by (auto simp: candidate_expr_from_many_def list_all_iff split: list.splits)
  with holds show "expr_wf e" "expr_holds e t \<longleftrightarrow> (\<forall>x \<in> set es. expr_holds x t)" by auto
qed

lemma candidate_or_holds:
  assumes "candidate_or es = Some e" "\<forall>x \<in> set es. expr_wf x"
  shows "expr_wf e" "expr_holds e t \<longleftrightarrow> (\<exists>x \<in> set es. expr_holds x t)"
proof -
  define us where "us = concat (map (\<lambda>e. case e of OrExpr children \<Rightarrow> children | _ \<Rightarrow> [e]) es)"
  have "expr_wf y" if "expr_wf x" "y \<in> set (case x of OrExpr children \<Rightarrow> children | _ \<Rightarrow> [x])" for x y
    using that by (cases x) (auto simp: list_all_iff)
  with assms(2) have wf: "\<forall>x \<in> set us. expr_wf x" unfolding us_def by (simp only: set_concat set_map) blast
  have "(\<exists> y \<in> set (case x of OrExpr children \<Rightarrow> children | _ \<Rightarrow> [x]). expr_holds y t) \<longleftrightarrow> expr_holds x t" for x
    by (cases x) (auto simp: list_ex_iff)
  then have holds: "(\<exists> x \<in> set us. expr_holds x t) \<longleftrightarrow> (\<exists> x \<in> set es. expr_holds x t)"
    unfolding us_def by (simp only: set_concat set_map) blast
  from assms(1) have "candidate_expr_from_many us OrExpr = Some e" by (simp add: candidate_or_def us_def)
  then have "expr_wf e \<and> (expr_holds e t \<longleftrightarrow> (\<exists>x \<in> set us. expr_holds x t))"
    using set_dedup_candidates[of us] wf
    by (auto simp: candidate_expr_from_many_def list_all_iff list_ex_iff split: list.splits)
  with holds show "expr_wf e" "expr_holds e t \<longleftrightarrow> (\<exists>x \<in> set es. expr_holds x t)" by auto
qed

lemma candidate_seed_Some: "candidate_seed s = Some e \<longleftrightarrow> e = Seed s \<and> 3 \<le> length s \<and> LF \<notin> set s \<and> CR \<notin> set s"
  by (auto simp: candidate_seed_def)

lemma those_Some: "those (map f xs) = Some ys \<longleftrightarrow> map f xs = map Some ys"
proof (induction xs arbitrary: ys)
  case (Cons x xs)
  then show ?case by (cases ys) (auto split: option.splits)
qed auto

definition required :: "hir \<Rightarrow> candidate_expr \<Rightarrow> bool" where
  \<comment> \<open>whatever the pattern spells contains what the expression asks for\<close>
  "required h e \<longleftrightarrow> expr_wf e \<and> (\<forall>t \<in> spells h. expr_holds e t)"

lemma finite_required: "finite_literal_candidate_expr h = Some e \<Longrightarrow> required h e"
proof -
  assume "finite_literal_candidate_expr h = Some e"
  then obtain P cs where P: "finite_literal_prefixes h = Some P" "those (map candidate_seed P) = Some cs"
    "candidate_or cs = Some e" by (auto simp: finite_literal_candidate_expr_def split: option.splits)
  have cs: "map candidate_seed P = map Some cs" using P(2) by (simp add: those_Some)
  then have seeds: "\<exists>x \<in> set cs. candidate_seed p = Some x" if "p \<in> set P" for p
    using that by (metis (no_types, lifting) image_iff list.set_map)
  have "\<exists>p. candidate_seed p = Some x" if "x \<in> set cs" for x
    using that cs by (metis (no_types, lifting) image_iff list.set_map)
  then have wf: "\<forall>x \<in> set cs. expr_wf x" using candidate_seed_Some by fastforce
  note e = candidate_or_holds[OF P(3) wf]
  have "expr_holds e t" if t: "t \<in> spells h" for t
  proof -
    let ?p = "take MAX_REGEX_FINITE_LITERAL_BYTES t"
    have "?p \<in> set P" using finite_prefixes_cover[OF P(1)] t by (simp add: covers_def)
    with seeds obtain x where x: "x \<in> set cs" "candidate_seed ?p = Some x" by blast
    have "expr_holds (Seed ?p) t" by simp (metis append_Nil append_take_drop_id)
    moreover have "x = Seed ?p" using x(2) by (simp add: candidate_seed_Some)
    ultimately show ?thesis unfolding e(2) using x(1) by blast
  qed
  with e(1) show ?thesis by (simp add: required_def)
qed

lemma or_finite_required: "(\<And>e. r = Some e \<Longrightarrow> required h e) \<Longrightarrow> or_finite h r = Some e \<Longrightarrow> required h e"
  by (auto simp: or_finite_def finite_required split: if_splits)

lemma concat_part:
  "s \<in> foldr conc (map spells hs) {[]} \<Longrightarrow> h \<in> set hs \<Longrightarrow> \<exists>a t b. s = a @ t @ b \<and> t \<in> spells h"
proof (induction hs arbitrary: s)
  case (Cons g hs)
  from Cons.prems(1) obtain u v where s: "s = u @ v" "u \<in> spells g" "v \<in> foldr conc (map spells hs) {[]}"
    using in_conc[of s "spells g" "foldr conc (map spells hs) {[]}"] by auto
  show ?case
  proof (cases "h = g")
    case True
    with s show ?thesis by (intro exI[of _ "[]"] exI[of _ u] exI[of _ v]) simp
  next
    case False
    with Cons.prems(2) Cons.IH[OF s(3)] obtain a t b where "v = a @ t @ b" "t \<in> spells h" by auto
    with s(1) show ?thesis by (intro exI[of _ "u @ a"] exI[of _ t] exI[of _ b]) simp
  qed
qed simp

lemma required_sound: "required_candidate_expr h = Some e \<Longrightarrow> required h e"
proof (induction h arbitrary: e rule: required_candidate_expr.induct)
  case (4 s)
  have part: "required (HLiteral s) x" if "candidate_seed s = Some x" for x
    using that by (auto simp: required_def candidate_seed_Some intro: exI[of _ "[]"])
  show ?case by (rule or_finite_required[rotated, OF 4[unfolded required_candidate_expr.simps(4)]]) (rule part)
next
  case (5 h)
  then have part: "required (HCapture h) x" if "required_candidate_expr h = Some x" for x
    using that by (auto simp: required_def)
  show ?case by (rule or_finite_required[rotated, OF 5(2)[unfolded required_candidate_expr.simps(5)]]) (rule part)
next
  case (6 mn mx h)
  have part: "required (HRepetition mn mx h) x" if x: "(if mn = 0 then None else required_candidate_expr h) = Some x" for x
  proof -
    from x have mn: "mn \<noteq> 0" and h: "required h x" using "6.IH" by (auto split: if_splits)
    have "expr_holds x t" if k: "mn \<le> k" "t \<in> (conc (spells h) ^^ k) {[]}" for k t
    proof -
      obtain k' where "k = Suc k'" using mn k(1) by (cases k) auto
      with k(2) obtain u v where "t = u @ v" "u \<in> spells h" by (auto simp: in_conc)
      with h expr_holds_infix[of x u "[]" v] show ?thesis by (simp add: required_def)
    qed
    with h show ?thesis by (auto simp: required_def)
  qed
  show ?case by (rule or_finite_required[rotated, OF 6(2)[unfolded required_candidate_expr.simps(6)]]) (rule part)
next
  case (7 hs)
  have part: "required (HConcat hs) x" if x: "candidate_and (List.map_filter id (map required_candidate_expr hs)) = Some x" for x
  proof -
    have parts: "\<exists>h \<in> set hs. required h y" if "y \<in> set (List.map_filter id (map required_candidate_expr hs))" for y
      using that "7.IH" by (force simp: List.map_filter_def)
    then have wf: "\<forall>y \<in> set (List.map_filter id (map required_candidate_expr hs)). expr_wf y" by (auto simp: required_def)
    note x = candidate_and_holds[OF x wf]
    have "expr_holds x t" if t: "t \<in> spells (HConcat hs)" for t
      unfolding x(2)
    proof
      fix y assume "y \<in> set (List.map_filter id (map required_candidate_expr hs))"
      with parts obtain h where h: "h \<in> set hs" "required h y" by blast
      from concat_part[OF _ h(1), of t] t obtain a u b where "t = a @ u @ b" "u \<in> spells h"
        unfolding spells.simps by blast
      with h(2) show "expr_holds y t" using expr_holds_infix by (simp add: required_def)
    qed
    with x(1) show ?thesis by (simp add: required_def)
  qed
  show ?case by (rule or_finite_required[rotated, OF 7(2)[unfolded required_candidate_expr.simps(7)]]) (rule part)
next
  case (8 hs)
  have part: "required (HAlternation hs) x"
    if x: "(case those (map required_candidate_expr hs) of None \<Rightarrow> None | Some es \<Rightarrow> candidate_or es) = Some x" for x
  proof -
    from x obtain es where es: "map required_candidate_expr hs = map Some es" "candidate_or es = Some x"
      by (auto simp: those_Some split: option.splits)
    have alt: "\<exists>y \<in> set es. required h y" if "h \<in> set hs" for h
    proof -
      have "required_candidate_expr h \<in> Some ` set es" using that es(1) by (metis image_eqI list.set_map)
      then show ?thesis using "8.IH"[OF that] by auto
    qed
    have "\<exists>h \<in> set hs. required_candidate_expr h = Some y" if "y \<in> set es" for y
      using that es(1) by (metis (no_types, lifting) image_iff list.set_map)
    then have wf: "\<forall>y \<in> set es. expr_wf y" using "8.IH" by (auto simp: required_def)
    note x = candidate_or_holds[OF es(2) wf]
    have "expr_holds x t" if "t \<in> spells (HAlternation hs)" for t
      using that alt x(2) by (fastforce simp: required_def)
    with x(1) show ?thesis by (simp add: required_def)
  qed
  show ?case by (rule or_finite_required[rotated, OF 8(2)[unfolded required_candidate_expr.simps(8)]]) (rule part)
qed (auto dest: or_finite_required[rotated])

end
