(* ===== verification/QueryProps.thy ===== *)
theory QueryProps
  imports SearchQuery BudgetProps RegexProps
begin

text \<open>
  The candidates of a plan include every document with a line that matches it, so a search on the
  index shows the events of a scan of all documents.
\<close>

section \<open>What a plan needs\<close>

fun plan_wf :: "query_plan \<Rightarrow> bool" where
  "plan_wf (Exact n lcase) \<longleftrightarrow> 3 \<le> length n"
| "plan_wf (ShortExact n lcase) \<longleftrightarrow> True"
| "plan_wf (WordExact n lcase) \<longleftrightarrow> 3 \<le> length n"
| "plan_wf (RegexPlan m e) \<longleftrightarrow> expr_wf e \<and> (\<forall>line. m line \<longrightarrow> expr_holds e line)"
| "plan_wf (Fuzzy pattern d plans) \<longleftrightarrow> length pattern + d + 2 \<le> usize_max
     \<and> plans = map (seed_plan pattern) (enumerate 0 (fuzzy_seed_partitions pattern d))"

lemma eligible_plan_wf:
  assumes "regexlib_ok R" "length (sq_pattern req) + 6 \<le> usize_max" "utf8_valid (sq_pattern req)"
    "eligible_query_plan R is_upper L req = Inr plan"
  shows "plan_wf plan"
proof (cases "sq_raw_fuzzy req")
  case (Some d)
  have "length (chars_of (sq_pattern req)) \<le> length (sq_pattern req)"
  proof -
    have "length cs \<le> length (concat cs)" if "\<forall>c \<in> set cs. c \<noteq> ([] :: bytes)" for cs
      using that
    proof (induction cs)
      case (Cons a cs)
      then have "0 < length a" "length cs \<le> length (concat cs)" by auto
      then show ?case unfolding concat.simps length_append list.size by linarith
    qed simp
    with chars_of_nonempty[OF assms(3)] concat_chars_of[OF assms(3)] show ?thesis by metis
  qed
  with Some assms(2,4) show ?thesis
    by (auto simp: eligible_query_plan_def eligible_fuzzy_plan_def unsupported_def unsupported_dialect_def Let_def
        split: if_splits)
next
  case None
  show ?thesis
  proof (cases "\<not> sq_fixed_strings req \<and> \<not> is_plain_regex_literal (sq_pattern req)")
    case True
    with None assms(4) obtain h m e where re: "rx_parse R (sq_pattern req) = Some h" "required_candidate_expr h = Some e"
      "rx_compile R (regex_size_limit_bytes L) (sq_pattern req) = Some m" "plan = RegexPlan m e"
      by (auto simp: eligible_query_plan_def eligible_regex_plan_def classify_regex_dialect_def unsupported_def
          unsupported_dialect_def regex_fallback_def bindE_Inr_iff split: if_splits option.splits)
    have req: "required h e" using required_sound[OF re(2)] .
    have "expr_holds e line" if ml: "m line" for line
    proof -
      obtain a s b where "line = a @ s @ b" "s \<in> spells h"
        using assms(1)[unfolded regexlib_ok_def, rule_format, OF conjI[OF re(1) conjI[OF re(3) ml]]] by blast
      with req expr_holds_infix show ?thesis by (auto simp: required_def)
    qed
    with req re(4) show ?thesis by (simp add: required_def)
  next
    case False
    with None assms(4) show ?thesis
      by (auto simp: eligible_query_plan_def eligible_short_literal_plan_def unsupported_def bindE_Inr_iff split: if_splits)
  qed
qed

section \<open>Candidates of fuzzy plans\<close>

lemma set_dedup_list [simp]: "set (dedup xs) = set xs"
  by (induction xs rule: dedup.induct) auto

lemma seed_sets_exact:
  assumes "snapshot_ok sn" "\<forall>s \<in> set ss. 3 \<le> length s" "seed_sets sn mx ss = Inr sets"
  shows "map fst sets = ss
    \<and> (\<forall>(s, cs) \<in> set sets. sorted_wrt (<) cs \<and> set cs = docs_with sn (may_hold Sensitive s))"
  using assms(2,3)
proof (induction ss arbitrary: sets)
  case (Cons s ss)
  then obtain cs rest where r: "candidates_for_literal sn s Sensitive mx = Inr cs" "seed_sets sn mx ss = Inr rest"
    "sets = (s, cs) # rest" by (auto simp: bindE_Inr_iff)
  with Cons.IH[of rest] Cons.prems(1) candidates_for_literal_exact[OF assms(1), where literal = s and lcase = Sensitive and mx = mx] show ?case by auto
qed simp

lemma union_all_sorted:
  assumes "union_all mx cs ss = Inr r" "sorted_wrt (<) cs" "\<forall>s \<in> set ss. sorted_wrt (<) s"
  shows "sorted_wrt (<) r \<and> set r = set cs \<union> (\<Union>s \<in> set ss. set s)"
  using assms
proof (induction ss arbitrary: cs)
  case (Cons s ss)
  then obtain c where c: "union_postings cs s mx = Inr c" "union_all mx c ss = Inr r" by (auto simp: bindE_Inr_iff)
  with union_postings_sorted[OF c(1)] Cons.IH[OF c(2)] Cons.prems show ?case by auto
qed auto

lemma selection_exact:
  assumes "snapshot_ok sn" "\<forall>s \<in> set (sp_seeds p). 3 \<le> length s"
    "fuzzy_seed_selection_for_seed_plan sn L n p = Inr s"
  shows "fs_verifier_seeds s = sp_verifier_seeds p" "sorted_wrt (<) (fs_candidates s)"
    "set (fs_candidates s) = (\<Union>seed \<in> set (sp_seeds p). docs_with sn (may_hold Sensitive seed))"
proof -
  from assms(3) obtain sets0 cs where r: "seed_sets sn (max_candidates L) (unique_fuzzy_candidate_seeds (sp_seeds p)) = Inr sets0"
    "union_all (max_candidates L) [] (map snd (sort_key (\<lambda>(seed, cs). (length cs, - int (length seed), seed)) sets0)) = Inr cs"
    "fs_candidates s = cs" "fs_verifier_seeds s = sp_verifier_seeds p"
    by (auto simp: fuzzy_seed_selection_for_seed_plan_def bindE_Inr_iff Let_def)
  have us: "set (unique_fuzzy_candidate_seeds (sp_seeds p)) = set (sp_seeds p)"
    by (simp add: unique_fuzzy_candidate_seeds_def)
  note sets = seed_sets_exact[OF assms(1) _ r(1)]
  have ok: "map fst sets0 = unique_fuzzy_candidate_seeds (sp_seeds p)"
    "\<forall>(s, cs) \<in> set sets0. sorted_wrt (<) cs \<and> set cs = docs_with sn (may_hold Sensitive s)"
    using sets assms(2) us by auto
  have u: "sorted_wrt (<) cs \<and> set cs = (\<Union>x \<in> snd ` set sets0. set x)"
    using union_all_sorted[OF r(2)] ok(2) by fastforce
  have "(\<Union>x \<in> snd ` set sets0. set x) = (\<Union>x \<in> fst ` set sets0. docs_with sn (may_hold Sensitive x))"
    using ok(2) by fastforce
  also have "fst ` set sets0 = set (sp_seeds p)" using ok(1) us by (metis set_map)
  finally show "fs_verifier_seeds s = sp_verifier_seeds p" "sorted_wrt (<) (fs_candidates s)"
    "set (fs_candidates s) = (\<Union>seed \<in> set (sp_seeds p). docs_with sn (may_hold Sensitive seed))"
    using u r(3,4) by auto
qed

lemma select_loop_from:
  "select_seed_plan_loop sn L n ps best saw = Inr s \<Longrightarrow>
     best = Some s \<or> (\<exists>p \<in> set ps. fuzzy_seed_selection_for_seed_plan sn L n p = Inr s)"
proof (induction ps arbitrary: best saw)
  case (Cons p ps)
  show ?case
  proof (cases "fuzzy_seed_selection_for_seed_plan sn L n p")
    case (Inl err)
    with Cons.prems Cons.IH[of best True] show ?thesis by (auto split: if_splits)
  next
    case (Inr t)
    show ?thesis
    proof (cases "fs_candidates t = []")
      case True
      with Inr Cons.prems show ?thesis by simp
    next
      case False
      from Cons.prems Inr False Cons.IH show ?thesis by (fastforce split: option.splits if_splits)
    qed
  qed
qed (auto split: option.splits if_splits)

lemma partition_seeds:
  assumes "p \<in> set (fuzzy_seed_partitions pattern d)"
  shows "fuzzy_candidate_seeds_from_partition pattern p
      = map (\<lambda>v. concat (fv_chars v)) (fuzzy_verifier_seeds_from_partition pattern p)"
    "\<forall>s \<in> set (fuzzy_candidate_seeds_from_partition pattern p). 3 \<le> length s"
proof -
  from partition_segmented[OF assms] have seg: "fp_byte_offsets p = pattern_byte_offsets pattern"
    "chain 0 (fp_ranges p) (length pattern)"
    "\<forall>(a, b) \<in> set (fp_ranges p). 3 \<le> seed_byte_len (pattern_byte_offsets pattern) a b"
    by (auto simp: segmented_def pattern_byte_offsets_def)
  have in_chain: "chain s rs e \<Longrightarrow> (a, b) \<in> set rs \<Longrightarrow> a < b \<and> b \<le> e" for s rs e a b
  proof (induction rs arbitrary: s)
    case (Cons q rs)
    obtain a' b' where q: "q = (a', b')" by fastforce
    show ?case using Cons chain_le[of b' rs e] by (auto simp: q)
  qed simp
  have off: "k \<le> length pattern \<Longrightarrow> fp_byte_offsets p ! k = length (concat (take k pattern))" for k
    using nth_offsets[of k pattern 0] by (simp add: seg(1) pattern_byte_offsets_def)
  have cut: "slice (concat pattern) (fp_byte_offsets p ! a, fp_byte_offsets p ! b) = concat (take (b - a) (drop a pattern))"
    if ab: "(a, b) \<in> set (fp_ranges p)" for a b
  proof -
    have le: "a \<le> b" "b \<le> length pattern" using in_chain[OF seg(2) ab] by auto
    have "pattern = take a pattern @ take (b - a) (drop a pattern) @ drop b pattern"
      using le by (metis append_take_drop_id drop_drop le_add_diff_inverse2)
    then have cp: "concat pattern = concat (take a pattern) @ concat (take (b - a) (drop a pattern)) @ concat (drop b pattern)"
      by (metis concat_append)
    have "take b pattern = take a pattern @ take (b - a) (drop a pattern)"
      using le take_add[of a "b - a" pattern] by simp
    then have "length (concat (take b pattern)) = length (concat (take a pattern)) + length (concat (take (b - a) (drop a pattern)))"
      by simp
    then show ?thesis unfolding slice_def cp using off le by simp
  qed
  show "fuzzy_candidate_seeds_from_partition pattern p
      = map (\<lambda>v. concat (fv_chars v)) (fuzzy_verifier_seeds_from_partition pattern p)"
    using cut by (auto simp: fuzzy_candidate_seeds_from_partition_def fuzzy_verifier_seeds_from_partition_def)
  have "3 \<le> length (slice (concat pattern) (fp_byte_offsets p ! a, fp_byte_offsets p ! b))"
    if ab: "(a, b) \<in> set (fp_ranges p)" for a b
  proof -
    have le: "a \<le> b" "b \<le> length pattern" using in_chain[OF seg(2) ab] by auto
    have "length (concat (take b pattern)) \<le> length (concat pattern)"
      by (metis append_take_drop_id concat_append le_add1 length_append)
    then show ?thesis using seg(3) ab off[of b] off[of a] le
      by (auto simp: slice_def seed_byte_len_def seg(1)[symmetric])
  qed
  then show "\<forall>s \<in> set (fuzzy_candidate_seeds_from_partition pattern p). 3 \<le> length s"
    by (auto simp: fuzzy_candidate_seeds_from_partition_def)
qed

lemma selected_partition:
  assumes "snapshot_ok sn" "plan_wf (Fuzzy pattern d plans)" "select_fuzzy_seed_plan sn (Fuzzy pattern d plans) L = Inr s"
  obtains p where "p \<in> set (fuzzy_seed_partitions pattern d)"
    "fs_verifier_seeds s = fuzzy_verifier_seeds_from_partition pattern p" "sorted_wrt (<) (fs_candidates s)"
    "set (fs_candidates s) = (\<Union>v \<in> set (fs_verifier_seeds s). docs_with sn (may_hold Sensitive (concat (fv_chars v))))"
proof -
  from assms(3) select_loop_from[of sn L "length plans" plans None False s]
  obtain q where q: "q \<in> set plans" "fuzzy_seed_selection_for_seed_plan sn L (length plans) q = Inr s"
    by (auto simp: select_fuzzy_seed_plan_def)
  from q(1) assms(2) obtain p where p: "p \<in> set (fuzzy_seed_partitions pattern d)"
    "sp_seeds q = fuzzy_candidate_seeds_from_partition pattern p"
    "sp_verifier_seeds q = fuzzy_verifier_seeds_from_partition pattern p"
    by (auto simp: seed_plan_def dest: in_set_enumerate_eq[THEN iffD1, rotated] set_zip_rightD simp: enumerate_eq_zip)
  note seeds = partition_seeds[OF p(1)]
  have "\<forall>x \<in> set (sp_seeds q). 3 \<le> length x" using seeds(2) p(2) by simp
  from selection_exact[OF assms(1) this q(2)] show ?thesis using that p seeds(1) by simp
qed

section \<open>A matching line makes a candidate\<close>

lemma slice_infix: "\<exists>a b. s = a @ slice s r @ b"
  unfolding slice_def by (metis append_take_drop_id)

lemma may_hold_occurs:
  assumes "occurs_at (fold_case lcase n) (fold_case lcase (slice s r)) i"
  shows "may_hold lcase n s"
proof -
  from assms obtain a b where "fold_case lcase (slice s r) = a @ fold_case lcase n @ b" by (auto simp: occurs_at_iff)
  moreover obtain c d where "s = c @ slice s r @ d" using slice_infix by blast
  then have "fold_case lcase s = fold_case lcase c @ fold_case lcase (slice s r) @ fold_case lcase d"
    by (cases lcase) (simp_all add: fold_case_def ascii_folded_def flip: map_append)
  ultimately have "fold_case lcase s = (fold_case lcase c @ a) @ fold_case lcase n @ (b @ fold_case lcase d)" by simp
  then show ?thesis unfolding may_hold_def using tris_infix by metis
qed

lemma fuzzy_line_has_seed:
  assumes p: "p \<in> set (fuzzy_seed_partitions pattern d)" and line: "line_holds (Fuzzy pattern d plans) (slice s r)"
  shows "\<exists>v \<in> set (fuzzy_verifier_seeds_from_partition pattern p). may_hold Sensitive (concat (fv_chars v)) s"
proof -
  from line obtain cs where cs: "utf8_chars (slice s r) = Some cs" "fuzzy_occurs cs pattern d" by (auto split: option.splits)
  then obtain a sub b where sub: "cs = a @ sub @ b" "edit_distance pattern sub \<le> d" by (auto simp: fuzzy_occurs_def)
  obtain v u w where v: "v \<in> set (fuzzy_verifier_seeds_from_partition pattern p)" "sub = u @ fv_chars v @ w"
    using seed_in_match[OF p sub(2)] by metis
  have "concat cs = slice s r" using concat_chars_of[of "slice s r"] cs(1) by (simp add: utf8_valid_def chars_of_Some)
  then have "slice s r = concat (a @ u) @ concat (fv_chars v) @ concat (w @ b)" using sub(1) v(2) by simp
  moreover obtain x y where "s = x @ slice s r @ y" using slice_infix by blast
  ultimately have "s = (x @ concat (a @ u)) @ concat (fv_chars v) @ (concat (w @ b) @ y)" by simp
  then have "may_hold Sensitive (concat (fv_chars v)) s" unfolding may_hold_def fold_case_def using tris_infix by (metis literal_case.simps(3))
  with v(1) show ?thesis by blast
qed

definition has_match :: "query_plan \<Rightarrow> document \<Rightarrow> bool" where
  "has_match plan doc \<longleftrightarrow> (\<exists>r \<in> set (dc_lines doc). line_holds plan (slice (dc_content doc) r))"

lemma has_match_iff: "has_match plan doc \<longleftrightarrow> all_matches plan doc \<noteq> []"
proof -
  have "has_match plan doc \<longleftrightarrow> (\<exists>i < length (dc_lines doc). line_holds plan (slice (dc_content doc) (dc_lines doc ! i)))"
    unfolding has_match_def by (metis in_set_conv_nth)
  then show ?thesis by (auto simp: all_matches_def filter_empty_conv)
qed

lemma scan_short_lines_found:
  assumes M: "memlib_ok M" and "scan_short_lines M L n lcase doc k rs = Inr (found, k')"
  shows "found \<longleftrightarrow> (\<exists>r \<in> set rs. line_holds (ShortExact n lcase) (slice (dc_content doc) r))"
  using assms(2)
proof (induction rs arbitrary: k)
  case (Cons r rs)
  have here: "(case lcase of Sensitive \<Rightarrow> finder_matches M n (slice (dc_content doc) r)
        | AsciiInsensitive \<Rightarrow> contains_subslice_ascii_case_insensitive M (slice (dc_content doc) r) n)
      \<longleftrightarrow> line_holds (ShortExact n lcase) (slice (dc_content doc) r)"
    using line_is_match_holds[OF M, of "ShortExact n lcase" None undefined "slice (dc_content doc) r" undefined]
    by (simp add: line_is_match_def seeds_fit_def)
  show ?case
  proof (cases "line_holds (ShortExact n lcase) (slice (dc_content doc) r)")
    case True
    then show ?thesis using Cons.prems by (auto simp: bindE_Inr_iff here simp del: line_holds.simps)
  next
    case False
    then have "scan_short_lines M L n lcase doc (k + 1) rs = Inr (found, k')"
      using Cons.prems by (auto simp: bindE_Inr_iff here simp del: line_holds.simps)
    from Cons.IH[OF this] False show ?thesis unfolding list.set by blast
  qed
qed simp

lemma scan_short_docs_found:
  assumes M: "memlib_ok M" and "scan_short_docs M L n lcase i docs k cs = Inr r"
  shows "r = cs @ [d \<leftarrow> [i..<i + length docs]. has_match (ShortExact n lcase) (docs ! (d - i))]"
  using assms(2)
proof (induction docs arbitrary: i k cs)
  case (Cons doc docs)
  from Cons.prems obtain found k1 where
    lines: "scan_short_lines M L n lcase doc k (dc_lines doc) = Inr (found, k1)"
    by (auto simp: bindE_Inr_iff)
  have f: "found \<longleftrightarrow> has_match (ShortExact n lcase) doc"
    using scan_short_lines_found[OF M lines] by (simp only: has_match_def)
  have "scan_short_docs M L n lcase (i + 1) docs k1 (cs @ (if found then [i] else [])) = Inr r"
    using Cons.prems lines by (auto simp: bindE_Inr_iff doc_id_from_index_def push_candidate_Inr split: if_splits)
  note rest = Cons.IH[OF this]
  have "[d \<leftarrow> [i + 1..<i + 1 + length docs]. has_match (ShortExact n lcase) (docs ! (d - (i + 1)))]
      = [d \<leftarrow> [i + 1..<i + 1 + length docs]. has_match (ShortExact n lcase) ((doc # docs) ! (d - i))]"
    by (rule filter_cong) (auto simp: nth_Cons' Suc_diff_le)
  moreover have "[i..<i + length (doc # docs)] = i # [i + 1..<i + 1 + length docs]" by (simp add: upt_conv_Cons del: upt_Suc)
  ultimately show ?case using rest f by (simp del: upt_Suc)
qed simp

lemma literal_candidates:
  assumes ok: "snapshot_ok sn" and n: "3 \<le> length n"
    and run: "(if literal_candidate_estimate sn n lcase = 0 then Inr [] else candidates_for_literal sn n lcase mx) = Inr cs"
  shows "sorted_wrt (<) cs \<and> set cs = docs_with sn (may_hold lcase n)"
proof (cases "literal_candidate_estimate sn n lcase = 0")
  case True
  then show ?thesis using run literal_estimate_zero[OF ok n True] by simp
next
  case False
  then show ?thesis using run candidates_for_literal_exact[OF ok n, where lcase = lcase and mx = mx] by simp
qed

definition good_candidates :: "index_snapshot \<Rightarrow> query_plan \<Rightarrow> doc_id list \<Rightarrow> bool" where
  \<comment> \<open>documents of the index in order, among them all with a match\<close>
  "good_candidates sn plan cs \<longleftrightarrow> sorted_wrt (<) cs \<and> (\<forall>d \<in> set cs. d < length (sn_documents sn))
     \<and> (\<forall>d < length (sn_documents sn). has_match plan (sn_documents sn ! d) \<longrightarrow> d \<in> set cs)"

lemma good_candidatesI:
  "sorted_wrt (<) cs \<and> set cs = docs_with sn Q \<Longrightarrow> (\<And>doc. has_match plan doc \<Longrightarrow> Q (dc_content doc)) \<Longrightarrow> good_candidates sn plan cs"
  by (auto simp: good_candidates_def docs_with_def)

lemma run_plan_candidates:
  assumes M: "memlib_ok M" and ok: "snapshot_ok sn" and wf: "plan_wf plan"
    and run: "run_plan M L sn plan mx ctx = Inr v"
  shows "\<exists>cs sel. verify_and_render M sn cs plan sel mx ctx L = Inr v \<and> seeds_fit plan sel \<and> good_candidates sn plan cs"
proof -
  from run obtain sel est cs where r: "select_fuzzy_seed_plan_for_query sn plan L = Inr sel"
    "(case sel of None \<Rightarrow> plan_candidate_estimate sn plan L | Some s \<Rightarrow> Inr (length (fs_candidates s))) = Inr est"
    "(if est = 0 then Inr [] else (case sel of Some s \<Rightarrow> Inr (fs_candidates s) | None \<Rightarrow> candidates_for_plan M sn plan L)) = Inr cs"
    "verify_and_render M sn cs plan sel mx ctx L = Inr v"
    by (auto simp: run_plan_def bindE_Inr_iff)
  have "seeds_fit plan sel \<and> good_candidates sn plan cs"
  proof (cases plan)
    case (Exact n lcase)
    then have "(if literal_candidate_estimate sn n lcase = 0 then Inr [] else candidates_for_literal sn n lcase (max_candidates L)) = Inr cs"
      using r(1-3) by (auto simp: select_fuzzy_seed_plan_for_query_def plan_candidate_estimate_def candidates_for_plan_def)
    from literal_candidates[OF ok _ this] wf Exact
    have "sorted_wrt (<) cs \<and> set cs = docs_with sn (may_hold lcase n)" by simp
    then have "good_candidates sn plan cs"
      by (rule good_candidatesI) (auto simp: Exact has_match_def dest: may_hold_occurs)
    then show ?thesis by (simp add: Exact seeds_fit_def)
  next
    case (WordExact n lcase)
    then have "(if literal_candidate_estimate sn n lcase = 0 then Inr [] else candidates_for_literal sn n lcase (max_candidates L)) = Inr cs"
      using r(1-3) by (auto simp: select_fuzzy_seed_plan_for_query_def plan_candidate_estimate_def candidates_for_plan_def)
    from literal_candidates[OF ok _ this] wf WordExact
    have "sorted_wrt (<) cs \<and> set cs = docs_with sn (may_hold lcase n)" by simp
    then have "good_candidates sn plan cs"
      by (rule good_candidatesI) (auto simp: WordExact has_match_def dest: may_hold_occurs)
    then show ?thesis by (simp add: WordExact seeds_fit_def)
  next
    case (ShortExact n lcase)
    then have "(if length (sn_documents sn) = 0 then Inr []
        else candidates_for_short_literal_direct_scan M sn n lcase L) = Inr cs"
      using r(1-3) by (auto simp: select_fuzzy_seed_plan_for_query_def plan_candidate_estimate_def candidates_for_plan_def)
    then have "cs = [d \<leftarrow> [0..<length (sn_documents sn)]. has_match plan (sn_documents sn ! d)]"
      using scan_short_docs_found[OF M, of L n lcase 0 "sn_documents sn" 0 "[]" cs]
      by (simp add: candidates_for_short_literal_direct_scan_def ShortExact split: if_splits)
    then have "good_candidates sn plan cs" by (simp add: good_candidates_def sorted_wrt_filter)
    then show ?thesis by (simp add: ShortExact seeds_fit_def)
  next
    case (RegexPlan m e)
    then have e: "expr_wf e" "\<And>line. m line \<Longrightarrow> expr_holds e line" using wf by auto
    have step: "(if candidate_expr_estimated_docs sn e = 0 then Inr [] else candidates_for_candidate_expr sn e (max_candidates L)) = Inr cs"
      using r(1-3) RegexPlan by (auto simp: select_fuzzy_seed_plan_for_query_def plan_candidate_estimate_def candidates_for_plan_def)
    have "sorted_wrt (<) cs \<and> set cs = docs_with sn (expr_may_hold e)"
    proof (cases "candidate_expr_estimated_docs sn e = 0")
      case True
      then show ?thesis using step expr_estimate_zero[OF ok e(1) True] by simp
    next
      case False
      then show ?thesis using step candidates_for_expr_exact[OF ok e(1)] by simp
    qed
    moreover have "expr_may_hold e (dc_content doc)" if "has_match plan doc" for doc
    proof -
      from that obtain l where l: "m (slice (dc_content doc) l)" by (auto simp: has_match_def RegexPlan)
      obtain a b where "dc_content doc = a @ slice (dc_content doc) l @ b" using slice_infix by blast
      then show ?thesis using expr_holds_may[OF expr_holds_infix[OF e(2)[OF l]]] by metis
    qed
    ultimately have "good_candidates sn plan cs" by (rule good_candidatesI)
    then show ?thesis by (simp add: RegexPlan seeds_fit_def)
  next
    case (Fuzzy pattern d plans)
    then obtain s where s: "select_fuzzy_seed_plan sn plan L = Inr s" "sel = Some s"
      using r(1) by (auto simp: select_fuzzy_seed_plan_for_query_def bindE_Inr_iff)
    then have cs: "cs = fs_candidates s" using r(2,3) by (auto split: if_splits)
    obtain p where p: "p \<in> set (fuzzy_seed_partitions pattern d)"
      "fs_verifier_seeds s = fuzzy_verifier_seeds_from_partition pattern p" "sorted_wrt (<) (fs_candidates s)"
      "set (fs_candidates s) = (\<Union>v \<in> set (fs_verifier_seeds s). docs_with sn (may_hold Sensitive (concat (fv_chars v))))"
      using selected_partition[OF ok] wf s(1) unfolding Fuzzy by metis
    let ?Q = "\<lambda>t. \<exists>v \<in> set (fs_verifier_seeds s). may_hold Sensitive (concat (fv_chars v)) t"
    have "sorted_wrt (<) cs \<and> set cs = docs_with sn ?Q" using p(3,4) by (auto simp: cs docs_with_def)
    then have "good_candidates sn plan cs"
    proof (rule good_candidatesI)
      fix doc assume "has_match plan doc"
      then obtain l where "line_holds plan (slice (dc_content doc) l)" by (auto simp: has_match_def)
      then show "?Q (dc_content doc)" unfolding p(2) Fuzzy by (rule fuzzy_line_has_seed[OF p(1)])
    qed
    moreover have "seeds_fit plan sel" using p(1,2) wf by (auto simp: Fuzzy seeds_fit_def s(2))
    ultimately show ?thesis by simp
  qed
  with r(4) show ?thesis by blast
qed

section \<open>The search is the scan\<close>

definition scan_events :: "index_snapshot \<Rightarrow> query_plan \<Rightarrow> nat \<Rightarrow> search_event list" where
  \<comment> \<open>what a scan of every line of every document shows\<close>
  "scan_events sn plan ctx = concat (map (\<lambda>doc. doc_events doc ctx (all_matches plan doc)) (sn_documents sn))"

lemma candidate_events_scan:
  assumes "good_candidates sn plan cs"
  shows "candidate_events sn plan ctx cs = scan_events sn plan ctx"
proof -
  let ?f = "\<lambda>d. doc_events (sn_documents sn ! d) ctx (all_matches plan (sn_documents sn ! d))"
  let ?n = "length (sn_documents sn)"
  have cs: "cs = [d \<leftarrow> [0..<?n]. d \<in> set cs]"
    using assms by (intro strict_sorted_equal) (auto simp: good_candidates_def sorted_wrt_filter)
  have "concat (map ?f [d \<leftarrow> ds. d \<in> set cs]) = concat (map ?f ds)" if "\<forall>d \<in> set ds. d < ?n" for ds
    using that
  proof (induction ds)
    case (Cons d ds)
    have "?f d = []" if "d \<notin> set cs"
      using that Cons.prems assms by (auto simp: good_candidates_def has_match_iff)
    with Cons show ?case by auto
  qed simp
  from this[of "[0..<?n]"] cs have "concat (map ?f cs) = concat (map ?f [0..<?n])" by simp
  moreover have "map ?f [0..<?n] = map (\<lambda>doc. doc_events doc ctx (all_matches plan doc)) (sn_documents sn)"
    by (rule nth_equalityI) auto
  ultimately show ?thesis by (simp add: candidate_events_def scan_events_def)
qed

lemma run_plan_scan:
  assumes "memlib_ok M" "snapshot_ok sn" "plan_wf plan" "\<forall>doc \<in> set (sn_documents sn). length (dc_lines doc) \<le> usize_max"
    "0 < mx" "run_plan M L sn plan mx ctx = Inr v"
  shows "ve_events v = take mx (scan_events sn plan ctx)"
    "ve_truncated v \<longleftrightarrow> mx \<le> length (scan_events sn plan ctx)"
proof -
  obtain cs sel where cs: "verify_and_render M sn cs plan sel mx ctx L = Inr v" "seeds_fit plan sel" "good_candidates sn plan cs"
    using run_plan_candidates[OF assms(1-3,6)] by blast
  from verify_and_render_events[OF assms(1) cs(2) assms(4) cs(1) assms(5)] candidate_events_scan[OF cs(3)]
  show "ve_events v = take mx (scan_events sn plan ctx)" "ve_truncated v \<longleftrightarrow> mx \<le> length (scan_events sn plan ctx)" by simp_all
qed

end
