(* ===== verification/SearchClaims.thy ===== *)
theory SearchClaims
  imports QueryProps "HOL-Library.Code_Target_Nat"
begin

text \<open>
  The properties of searching: the index answers a request with the events of a scan of all lines, a
  plan means what the request asks for, and the parts on which this rests.
\<close>

section \<open>Files for the witnesses\<close>

text \<open>
  Two small files, an engine for patterns that are literals, and searches on their index, for the
  witnesses of the theorems on searching.
\<close>

definition literal_regexlib :: regexlib where
  "literal_regexlib = \<lparr> rx_parse = (\<lambda>p. Some (HLiteral p)), rx_compile = (\<lambda>n p. Some (\<lambda>line. find_sub p line \<noteq> None)) \<rparr>"

lemma literal_regexlib_ok: "regexlib_ok literal_regexlib"
  using find_sub_split by (fastforce simp: regexlib_ok_def literal_regexlib_def)

definition demo_limits :: limits where
  "demo_limits = \<lparr> max_file_bytes = 100, max_total_bytes = 1000, max_files = 10, max_candidates = 10,
     max_fuzzy_pattern_chars = 20, max_fuzzy_verified_lines = 50, max_fuzzy_line_chars = 100,
     max_short_literal_scan_lines = 50, regex_size_limit_bytes = 1000 \<rparr>"

definition demo_file :: "bytes \<Rightarrow> mem_error + loaded_file" where
  "demo_file s = Inr \<lparr> lf_is_file = True, lf_length = length s, lf_content = Some s \<rparr>"

definition demo_files :: "(bytes \<times> (mem_error + loaded_file)) list" where
  "demo_files = [(''/b'', demo_file ''xabcabx''), (''/a'', demo_file [CHR ''o'', LF, CHR ''a'', CHR ''b'', CHR ''c'', LF, CHR ''A''])]"

definition demo_raw :: "bytes \<Rightarrow> bool \<Rightarrow> nat option \<Rightarrow> raw_search_request" where
  "demo_raw pattern fixed fuzzy = \<lparr> rr_pattern = pattern, rr_path = None, rr_case = Some ''Sensitive'',
     rr_fixed_strings = Some fixed, rr_word_regexp = None, rr_glob = None, rr_hidden = None, rr_follow = None,
     rr_no_ignore = None, rr_context = Some 1, rr_max_results = Some 3, rr_timeout_ms = None, rr_fuzzy = fuzzy \<rparr>"

definition search_ok :: "verified searched \<Rightarrow> bool" where
  "search_ok r = (case r of Inl e \<Rightarrow> False | Inr v \<Rightarrow> True)"

definition search_lines :: "verified searched \<Rightarrow> (bytes \<times> nat \<times> bool) list" where
  "search_lines r = (case r of Inl e \<Rightarrow> [] | Inr v \<Rightarrow> map (\<lambda>e. (ev_path e, ev_line_number e, ev_is_match e)) (ve_events v))"

definition demo_search :: "raw_search_request \<Rightarrow> verified searched" where
  "demo_search raw = memory_search ref_memlib literal_regexlib (\<lambda>c. False) demo_limits (normalize_request raw)
     (build_index demo_limits False (\<lambda>p. p) demo_files)"

lemma demo_literal: "search_lines (demo_search (demo_raw ''abc'' True None)) = [(''/a'', 1, False), (''/a'', 2, True), (''/a'', 3, False)]"
  by code_simp

lemma demo_fuzzy: "search_lines (demo_search (demo_raw ''abcabd'' True (Some 1))) = [(''/b'', 1, True)]"
  by code_simp

lemma demo_short: "search_lines (demo_search (demo_raw ''bx'' True None)) = [(''/b'', 1, True)]"
  by code_simp


section \<open>Lines\<close>

definition strip_cr :: "bytes \<Rightarrow> bytes" where
  "strip_cr p = (if p \<noteq> [] \<and> last p = CR then butlast p else p)"

definition without_last_empty :: "bytes list \<Rightarrow> bytes list" where
  "without_last_empty ps = (if ps \<noteq> [] \<and> last ps = [] then butlast ps else ps)"

lemma without_last_empty_Cons: "ps \<noteq> [] \<Longrightarrow> without_last_empty (p # ps) = p # without_last_empty ps"
  by (simp add: without_last_empty_def)

lemma slice_line_end: "slice content (start, line_end content start (start + length a)) = strip_cr a"
  if "start \<le> length content" "take (length a) (drop start content) = a" "start + length a \<le> length content" for a
proof (cases a rule: rev_cases)
  case Nil
  then show ?thesis by (simp add: slice_def line_end_def strip_cr_def)
next
  case (snoc b x)
  have "content ! (start + length b) = take (length a) (drop start content) ! length b"
    using that(3) by (simp add: snoc)
  then have x: "content ! (start + length b) = x" unfolding that(2) by (simp add: snoc)
  have "take (length b) (drop start content) = take (length b) (take (length a) (drop start content))"
    by (simp add: snoc)
  then have b: "take (length b) (drop start content) = b" unfolding that(2) by (simp add: snoc)
  show ?thesis using x b that(2) by (simp add: snoc slice_def line_end_def strip_cr_def)
qed

lemma line_range_loop_lines:
  assumes "start \<le> length content"
  shows "map (slice content) (line_range_loop content start [i \<leftarrow> [start..<length content]. content ! i = LF])
    = map strip_cr (without_last_empty (split_byte LF (drop start content)))"
  using assms
proof (induction "length content - start" arbitrary: start rule: less_induct)
  case less
  let ?rest = "drop start content"
  define a where "a = takeWhile (\<lambda>b. b \<noteq> LF) ?rest"
  have a: "LF \<notin> set a" by (auto simp: a_def dest: set_takeWhileD)
  have at: "take (length a) ?rest = a" by (metis a_def takeWhile_eq_take)
  have no: "\<forall>i. start \<le> i \<and> i < start + length a \<longrightarrow> content ! i \<noteq> LF"
  proof (intro allI impI)
    fix i assume i: "start \<le> i \<and> i < start + length a"
    then have lt: "i - start < length a" by linarith
    then have "content ! i = take (length a) ?rest ! (i - start)" using i less.prems by simp
    then have "content ! i = a ! (i - start)" unfolding at .
    moreover have "a ! (i - start) \<in> set a" using lt by (rule nth_mem)
    ultimately show "content ! i \<noteq> LF" using a by auto
  qed
  show ?case
  proof (cases "LF \<in> set ?rest")
    case False
    then have all: "a = ?rest" by (auto simp: a_def takeWhile_eq_all_conv)
    then have "[i \<leftarrow> [start..<length content]. content ! i = LF] = []" using no less.prems by (auto simp: filter_empty_conv)
    then have none: "line_range_loop content start [i \<leftarrow> [start..<length content]. content ! i = LF]
        = line_range_loop content start []" by simp
    have one: "split_byte LF ?rest = [a]" using split_byte_id[OF False] all by metis
    have len: "length content = start + length a" using less.prems arg_cong[OF all, of length] by simp
    have "slice content (start, line_end content start (length content)) = strip_cr a"
      using slice_line_end[OF less.prems at] len by simp
    then show ?thesis unfolding none one using len by (cases "a = []") (auto simp: without_last_empty_def)
  next
    case True
    then have "dropWhile (\<lambda>b. b \<noteq> LF) ?rest \<noteq> []" by (auto simp: dropWhile_eq_Nil_conv)
    then obtain c r where cr: "dropWhile (\<lambda>b. b \<noteq> LF) ?rest = c # r" by (cases "dropWhile (\<lambda>b. b \<noteq> LF) ?rest") auto
    then have "c = LF" by (metis (mono_tags, lifting) dropWhile_eq_Cons_conv)
    with cr have split: "?rest = a @ LF # r" by (metis a_def takeWhile_dropWhile_id)
    have len: "length content = start + length a + 1 + length r" using arg_cong[OF split, of length] less.prems by simp
    let ?i = "start + length a"
    have r: "r = drop (?i + 1) content"
      using arg_cong[OF split, of "drop (length a + 1)"] by (simp add: add.commute add.left_commute)
    have hit: "content ! ?i = LF" using arg_cong[OF split, of "\<lambda>s. s ! length a"] less.prems by (simp add: nth_append)
    have "[start..<length content] = [start..<?i] @ ?i # [?i + 1..<length content]"
      using len upt_add_eq_append[of start ?i "1 + length r"] by (simp add: upt_conv_Cons add.assoc del: upt_Suc)
    moreover have "[i \<leftarrow> [start..<?i]. content ! i = LF] = []" using no by (auto simp: filter_empty_conv)
    ultimately have pos: "[i \<leftarrow> [start..<length content]. content ! i = LF]
        = ?i # [i \<leftarrow> [?i + 1..<length content]. content ! i = LF]" using hit by simp
    have IH: "map (slice content) (line_range_loop content (?i + 1) [i \<leftarrow> [?i + 1..<length content]. content ! i = LF])
        = map strip_cr (without_last_empty (split_byte LF r))"
      unfolding r by (rule less.hyps) (use len in auto)
    have "split_byte LF ?rest = a # split_byte LF r" unfolding split by (rule split_byte_append[OF a])
    moreover have "slice content (start, line_end content start ?i) = strip_cr a"
      using slice_line_end[OF less.prems at] len by simp
    ultimately show ?thesis using IH unfolding pos by (simp add: without_last_empty_Cons)
  qed
qed

lemma line_ranges_lines:
  "map (slice content) (line_ranges content) = map strip_cr (without_last_empty (split_byte LF content))"
  using line_range_loop_lines[of 0 content] by (auto simp: line_ranges_def positions_def without_last_empty_def)

lemma length_line_ranges: "length (line_ranges content) \<le> length content"
proof -
  have "length (without_last_empty (split_byte LF s)) \<le> length s" for s
  proof (induction s)
    case (Cons c s)
    obtain p ps where p: "split_byte LF s = p # ps" by (meson list.exhaust split_byte_nonempty)
    with Cons show ?case by (cases "ps = []") (auto simp: without_last_empty_def split: if_splits)
  qed (simp add: without_last_empty_def)
  then show ?thesis using line_ranges_lines[of content] by (metis length_map)
qed

section \<open>The index that is built\<close>

lemma load_loop_docs:
  "load_loop L outs docs tot u = Inr (docs1, tot1, u1) \<Longrightarrow>
     \<exists>new. docs1 = docs @ new \<and> (\<forall>doc \<in> set new. \<exists>n b. Loaded n doc b \<in> set outs)"
proof (induction outs arbitrary: docs tot u)
  case (Cons out outs)
  show ?case
  proof (cases out)
    case Skipped
    with Cons show ?thesis by fastforce
  next
    case (Loaded n doc b)
    with Cons.prems have "load_loop L outs (docs @ [doc]) (tot + n) (u \<and> b) = Inr (docs1, tot1, u1)"
      by (auto simp: bindE_Inr_iff)
    from Cons.IH[OF this] obtain new where "docs1 = (docs @ [doc]) @ new"
      "\<forall>doc \<in> set new. \<exists>n b. Loaded n doc b \<in> set outs" by blast
    then have "docs1 = docs @ doc # new \<and> (\<forall>x \<in> set (doc # new). \<exists>n b. Loaded n x b \<in> set (out # outs))"
      unfolding Loaded by (simp, metis)
    then show ?thesis by blast
  qed (use Cons.prems in \<open>auto simp: bindE_Inr_iff\<close>)
qed simp

definition contents_fit :: "(bytes \<times> (mem_error + loaded_file)) list \<Rightarrow> bool" where
  \<comment> \<open>the files that are read fit in memory\<close>
  "contents_fit files \<longleftrightarrow> (\<forall>(path, f) \<in> set files. case f of Inl e \<Rightarrow> True
     | Inr lf \<Rightarrow> (case lf_content lf of None \<Rightarrow> True | Some s \<Rightarrow> length s \<le> usize_max))"

lemma build_index_ok:
  assumes "build_index L u render files = Inr sn" "contents_fit files"
  shows "snapshot_ok sn" "\<forall>doc \<in> set (sn_documents sn). dc_lines doc = line_ranges (dc_content doc)
    \<and> length (dc_lines doc) \<le> usize_max"
proof -
  from assms(1) obtain docs tot u1 where d:
    "load_loop L (map (\<lambda>(path, f). load_scope_document L u render path f) files) [] 0 True = Inr (docs, tot, u1)"
    "snapshot_of docs tot u1 = Inr sn" by (auto simp: build_index_def bindE_Inr_iff)
  note sn = snapshot_of_ok[OF d(2)]
  show "snapshot_ok sn" using sn by simp
  have "dc_lines doc = line_ranges (dc_content doc) \<and> length (dc_content doc) \<le> usize_max" if doc: "doc \<in> set docs" for doc
  proof -
    from load_loop_docs[OF d(1)] have "\<forall>doc \<in> set docs. \<exists>n b. Loaded n doc b
        \<in> set (map (\<lambda>(path, f). load_scope_document L u render path f) files)" by (metis append_Nil)
    with doc obtain n b where
      "Loaded n doc b \<in> set (map (\<lambda>(path, f). load_scope_document L u render path f) files)" by blast
    then obtain path f where
      f: "(path, f) \<in> set files" "load_scope_document L u render path f = Loaded n doc b" by auto
    from f(2) obtain lf s where "f = Inr lf" "lf_content lf = Some s" "dc_content doc = s" "dc_lines doc = line_ranges s"
      by (auto simp: load_scope_document_def split: sum.splits option.splits if_splits)
    with f(1) assms(2) show ?thesis by (fastforce simp: contents_fit_def)
  qed
  then show "\<forall>doc \<in> set (sn_documents sn). dc_lines doc = line_ranges (dc_content doc)
    \<and> length (dc_lines doc) \<le> usize_max"
    using sn length_line_ranges by (fastforce intro: le_trans)
qed

section \<open>The search is the scan\<close>

lemma memory_search_scan:
  assumes "memlib_ok M" "regexlib_ok R" "utf8_valid (rr_pattern raw)" "length (rr_pattern raw) + 6 \<le> usize_max"
    "contents_fit files"
    "memory_search M R is_upper L (normalize_request raw) (build_index L u render files) = Inr v"
  obtains plan sn where "eligible_query_plan R is_upper L (normalize_request raw) = Inr plan"
    "build_index L u render files = Inr sn"
    "ve_events v = take (sq_max_results (normalize_request raw)) (scan_events sn plan (unwrap_or 0 (rr_context raw)))"
    "ve_truncated v \<longleftrightarrow> sq_max_results (normalize_request raw)
         \<le> length (scan_events sn plan (unwrap_or 0 (rr_context raw)))"
proof -
  let ?req = "normalize_request raw"
  have req: "sq_pattern ?req = rr_pattern raw" "sq_context ?req = unwrap_or 0 (rr_context raw)" "0 < sq_max_results ?req"
    by (simp_all add: normalize_request_def Let_def clamp_limit_def clamp_def)
  from assms(6) obtain plan sn where p: "eligible_query_plan R is_upper L ?req = Inr plan"
    "build_index L u render files = Inr sn" "run_plan M L sn plan (sq_max_results ?req) (sq_context ?req) = Inr v"
    by (auto simp: memory_search_def bindE_Inr_iff)
  have "plan_wf plan" using eligible_plan_wf[OF assms(2) _ _ p(1)] assms(3,4) req(1) by simp
  moreover have "\<forall>doc \<in> set (sn_documents sn). length (dc_lines doc) \<le> usize_max"
    using build_index_ok(2)[OF p(2) assms(5)] by blast
  ultimately have "ve_events v = take (sq_max_results ?req) (scan_events sn plan (sq_context ?req))"
    "ve_truncated v \<longleftrightarrow> sq_max_results ?req \<le> length (scan_events sn plan (sq_context ?req))"
    using run_plan_scan[OF assms(1) build_index_ok(1)[OF p(2) assms(5)] _ _ req(3) p(3)] by blast+
  with that[OF p(1,2)] req(2) show ?thesis by auto
qed

text \<open>C11. A search that succeeds gives the events of a scan of every line of every document, in the
  order of the paths, cut at the limit of the request, and says that it is cut exactly when the scan
  has as many events as the limit or more; whatever the kind of the query (a fixed string, a word, a
  regular expression, a fuzzy pattern) neither the trigram index, nor the choice of seeds, nor
  stopping early loses an event or makes one up.\<close>

theorem search_is_scan:
  assumes "memlib_ok M" "regexlib_ok R" "utf8_valid (rr_pattern raw)" "length (rr_pattern raw) + 6 \<le> usize_max"
    "contents_fit files"
    "memory_search M R is_upper L (normalize_request raw) (build_index L utf8 render files) = Inr v"
  shows "\<exists>plan sn. eligible_query_plan R is_upper L (normalize_request raw) = Inr plan
    \<and> build_index L utf8 render files = Inr sn
    \<and> ve_events v = take (sq_max_results (normalize_request raw)) (scan_events sn plan (unwrap_or 0 (rr_context raw)))
    \<and> (ve_truncated v \<longleftrightarrow> sq_max_results (normalize_request raw)
         \<le> length (scan_events sn plan (unwrap_or 0 (rr_context raw))))"
  by (rule memory_search_scan[OF assms]) blast

theorem search_is_scan_witness:
  "\<exists>plan sn v. build_index demo_limits False (\<lambda>p. p) demo_files = Inr sn
    \<and> demo_search (demo_raw ''abcabd'' True (Some 1)) = Inr v
    \<and> ve_events v = take 3 (scan_events sn plan 1)"
proof -
  have fit: "contents_fit demo_files"
    by (simp add: contents_fit_def demo_files_def demo_file_def usize_max_def)
  have "search_lines (demo_search (demo_raw ''abcabd'' True (Some 1))) \<noteq> []" unfolding demo_fuzzy by simp
  then obtain v where v: "demo_search (demo_raw ''abcabd'' True (Some 1)) = Inr v"
    by (auto simp: search_lines_def split: sum.splits)
  have "utf8_valid ''abcabd''" by code_simp
  then have "utf8_valid (rr_pattern (demo_raw ''abcabd'' True (Some 1)))" by (simp add: demo_raw_def)
  from search_is_scan[OF ref_memlib_ok literal_regexlib_ok this _ fit v[unfolded demo_search_def]]
  obtain plan sn where "build_index demo_limits False (\<lambda>p. p) demo_files = Inr sn"
    "ve_events v = take (sq_max_results (normalize_request (demo_raw ''abcabd'' True (Some 1))))
       (scan_events sn plan (unwrap_or 0 (rr_context (demo_raw ''abcabd'' True (Some 1)))))"
    by (auto simp: demo_raw_def usize_max_def)
  with v show ?thesis
    by (auto simp: demo_raw_def normalize_request_def Let_def clamp_limit_def clamp_def unwrap_or_def)
qed


end
