(* ===== verification/SearchExact.thy ===== *)
theory SearchExact
  imports SearchClaims
begin

text \<open>
  What the matches of a complete answer are, said of the files alone: the lines of the files, and for
  each kind of query which of them hold.  The lines of a file are its parts between line feeds, without
  the carriage return before the line feed.
\<close>

section \<open>The lines of the files\<close>

definition file_lines :: "bytes \<Rightarrow> bytes list" where
  "file_lines s = map strip_cr (without_last_empty (split_byte LF s))"

definition file_hits ::
  "(bytes \<Rightarrow> bytes) \<Rightarrow> (bytes \<times> (mem_error + loaded_file)) list \<Rightarrow> (bytes \<Rightarrow> bool) \<Rightarrow> (bytes \<times> nat) set" where
  \<comment> \<open>the path and the number of each line of the regular files with the property\<close>
  "file_hits render files P = {(render path, i + 1) | path lf s i. (path, Inr lf) \<in> set files \<and> lf_is_file lf
     \<and> lf_content lf = Some s \<and> i < length (file_lines s) \<and> P (file_lines s ! i)}"

definition match_lines :: "search_event list \<Rightarrow> (bytes \<times> nat) set" where
  "match_lines es = {(ev_path e, ev_line_number e) | e. e \<in> set es \<and> ev_is_match e}"

lemma load_loop_all:
  "load_loop L outs docs tot u = Inr (docs1, tot1, u1) \<Longrightarrow> \<forall>out \<in> set outs. (\<exists>n doc b. out = Loaded n doc b) \<or> out = Skipped"
  "load_loop L outs docs tot u = Inr (docs1, tot1, u1) \<Longrightarrow>
     set docs1 = set docs \<union> {doc. \<exists>n b. Loaded n doc b \<in> set outs}"
proof (induction outs arbitrary: docs tot u)
  case (Cons out outs)
  { case 1
    show ?case
    proof (cases out)
      case Skipped
      with 1 Cons.IH(1) show ?thesis by auto
    next
      case (Loaded n doc b)
      with 1 have "load_loop L outs (docs @ [doc]) (tot + n) (u \<and> b) = Inr (docs1, tot1, u1)"
        by (auto simp: bindE_Inr_iff)
      from Cons.IH(1)[OF this] Loaded show ?thesis by simp
    qed (use 1 in \<open>auto simp: bindE_Inr_iff\<close>) }
  { case 2
    show ?case
    proof (cases out)
      case Skipped
      with 2 Cons.IH(2) show ?thesis by auto
    next
      case (Loaded n doc b)
      with 2 have "load_loop L outs (docs @ [doc]) (tot + n) (u \<and> b) = Inr (docs1, tot1, u1)"
        by (auto simp: bindE_Inr_iff)
      from Cons.IH(2)[OF this] Loaded show ?thesis by auto
    qed (use 2 in \<open>auto simp: bindE_Inr_iff\<close>) }
qed simp_all

lemma file_lines_nth: "i < length (line_ranges s) \<Longrightarrow> slice s (line_ranges s ! i) = file_lines s ! i"
  using line_ranges_lines[of s] unfolding file_lines_def by (metis nth_map)

lemma length_file_lines: "length (file_lines s) = length (line_ranges s)"
  using line_ranges_lines[of s] unfolding file_lines_def by (metis length_map)

lemma built_documents:
  assumes "build_index L u render files = Inr sn"
  shows "set (sn_documents sn) = {\<lparr> dc_path = path, dc_rendered_path = render path, dc_content = s,
      dc_lines = line_ranges s \<rparr> | path lf s. (path, Inr lf) \<in> set files \<and> lf_is_file lf \<and> lf_content lf = Some s}"
proof -
  let ?outs = "map (\<lambda>(path, f). load_scope_document L u render path f) files"
  from assms obtain docs tot u1 where d: "load_loop L ?outs [] 0 True = Inr (docs, tot, u1)"
    "snapshot_of docs tot u1 = Inr sn" by (auto simp: build_index_def bindE_Inr_iff)
  have "set (sn_documents sn) = {doc. \<exists>n b. Loaded n doc b \<in> set ?outs}"
    using load_loop_all(2)[OF d(1)] snapshot_of_ok[OF d(2)] by simp
  moreover have "(\<exists>n b. Loaded n doc b \<in> set ?outs) \<longleftrightarrow> (\<exists>path lf s. (path, Inr lf) \<in> set files \<and> lf_is_file lf
      \<and> lf_content lf = Some s \<and> doc = \<lparr> dc_path = path, dc_rendered_path = render path, dc_content = s,
        dc_lines = line_ranges s \<rparr>)" for doc
  proof
    assume "\<exists>n b. Loaded n doc b \<in> set ?outs"
    then obtain n b path f where "(path, f) \<in> set files" "load_scope_document L u render path f = Loaded n doc b"
      by (auto simp: image_iff) (metis (no_types, lifting))
    then show "\<exists>path lf s. (path, Inr lf) \<in> set files \<and> lf_is_file lf \<and> lf_content lf = Some s
        \<and> doc = \<lparr> dc_path = path, dc_rendered_path = render path, dc_content = s, dc_lines = line_ranges s \<rparr>"
      by (auto simp: load_scope_document_def split: sum.splits option.splits if_splits)
  next
    assume "\<exists>path lf s. (path, Inr lf) \<in> set files \<and> lf_is_file lf \<and> lf_content lf = Some s
        \<and> doc = \<lparr> dc_path = path, dc_rendered_path = render path, dc_content = s, dc_lines = line_ranges s \<rparr>"
    then obtain path lf s where f: "(path, Inr lf) \<in> set files" "lf_is_file lf" "lf_content lf = Some s"
      "doc = \<lparr> dc_path = path, dc_rendered_path = render path, dc_content = s, dc_lines = line_ranges s \<rparr>" by blast
    let ?out = "load_scope_document L u render path (Inr lf)"
    have in_outs: "?out \<in> set ?outs" using f(1) by force
    with load_loop_all(1)[OF d(1)] f(2) have "\<exists>n doc b. ?out = Loaded n doc b"
      by (fastforce simp: load_scope_document_def split: option.splits if_splits)
    with f have "?out = Loaded (lf_length lf) doc (utf8_valid s)"
      by (auto simp: load_scope_document_def split: if_splits)
    with in_outs show "\<exists>n b. Loaded n doc b \<in> set ?outs" by metis
  qed
  ultimately show ?thesis by auto
qed

lemma doc_match_lines:
  "match_lines (doc_events doc ctx (all_matches plan doc)) = {(dc_rendered_path doc, i + 1) | i. i < length (dc_lines doc)
     \<and> line_holds plan (slice (dc_content doc) (dc_lines doc ! i))}"
proof -
  let ?ms = "all_matches plan doc"
  have "match_lines (doc_events doc ctx ?ms) = (\<lambda>j. (dc_rendered_path doc, j + 1)) `
      {j. j < length (dc_lines doc) \<and> near ctx ?ms j \<and> j \<in> set ?ms}"
  proof -
    have "match_lines es = (\<lambda>e. (ev_path e, ev_line_number e)) ` set (filter ev_is_match es)" for es
      by (auto simp: match_lines_def)
    then have "match_lines (doc_events doc ctx ?ms) = (\<lambda>e. (ev_path e, ev_line_number e)) ` doc_event doc ?ms `
        {j. j \<in> set (shown (length (dc_lines doc)) ctx ?ms) \<and> ev_is_match (doc_event doc ?ms j)}"
      by (auto simp: doc_events_def filter_map image_iff)
    then show ?thesis by (simp add: image_image doc_event_def shown_def conj_ac)
  qed
  moreover have "near ctx ?ms j" if "j \<in> set ?ms" for j using that unfolding near_def by (intro bexI[of _ j]) simp_all
  ultimately show ?thesis by (auto simp: all_matches_def)
qed

lemma scan_match_lines:
  assumes "build_index L u render files = Inr sn"
  shows "match_lines (scan_events sn plan ctx) = file_hits render files (line_holds plan)"
proof -
  have "match_lines (scan_events sn plan ctx)
      = (\<Union>doc \<in> set (sn_documents sn). match_lines (doc_events doc ctx (all_matches plan doc)))"
    by (auto simp: match_lines_def scan_events_def)
  also have "\<dots> = file_hits render files (line_holds plan)"
    unfolding doc_match_lines built_documents[OF assms]
    by (fastforce simp: file_hits_def length_file_lines file_lines_nth)
  finally show ?thesis .
qed

lemma search_hits:
  assumes "memlib_ok M" "regexlib_ok R" "utf8_valid (rr_pattern raw)" "length (rr_pattern raw) + 6 \<le> usize_max"
    "contents_fit files"
    "memory_search M R is_upper L (normalize_request raw) (build_index L u render files) = Inr v" "\<not> ve_truncated v"
  obtains plan where "eligible_query_plan R is_upper L (normalize_request raw) = Inr plan"
    "match_lines (ve_events v) = file_hits render files (line_holds plan)"
proof -
  obtain plan sn where p: "eligible_query_plan R is_upper L (normalize_request raw) = Inr plan"
    "build_index L u render files = Inr sn"
    "ve_events v = take (sq_max_results (normalize_request raw)) (scan_events sn plan (unwrap_or 0 (rr_context raw)))"
    "ve_truncated v \<longleftrightarrow> sq_max_results (normalize_request raw)
         \<le> length (scan_events sn plan (unwrap_or 0 (rr_context raw)))"
    using memory_search_scan[OF assms(1-6)] .
  with assms(7) have "ve_events v = scan_events sn plan (unwrap_or 0 (rr_context raw))" by simp
  with that[OF p(1)] scan_match_lines[OF p(2)] show ?thesis by metis
qed

section \<open>Literals\<close>

definition case_matters :: "(bytes \<Rightarrow> bool) \<Rightarrow> raw_search_request \<Rightarrow> bool" where
  "case_matters is_upper raw \<longleftrightarrow> (case case_mode_from_raw (rr_case raw) of CaseSensitive \<Rightarrow> True | CaseInsensitive \<Rightarrow> False
     | CaseSmart \<Rightarrow> list_ex is_upper (chars_of (rr_pattern raw)))"

definition on_word_boundaries :: "bytes \<Rightarrow> bytes \<Rightarrow> bool" where
  "on_word_boundaries a b \<longleftrightarrow> (a = [] \<or> \<not> is_ascii_word_byte (last a)) \<and> (b = [] \<or> \<not> is_ascii_word_byte (hd b))"

definition contains_literal :: "bool \<Rightarrow> bool \<Rightarrow> bytes \<Rightarrow> bytes \<Rightarrow> bool" where
  \<comment> \<open>the literal is a part of the line, but for the case of ASCII letters, and on word boundaries\<close>
  "contains_literal exactly word n line \<longleftrightarrow> n \<noteq> [] \<and> (\<exists>a m b. line = a @ m @ b
     \<and> (if exactly then m = n else map to_lower m = map to_lower n) \<and> (word \<longrightarrow> on_word_boundaries a b))"

definition case_of :: "bool \<Rightarrow> literal_case" where
  "case_of exactly = (if exactly then Sensitive else AsciiInsensitive)"

lemma boundaries_parts: "has_ascii_word_boundaries (a @ m @ b) (length a) (length m) \<longleftrightarrow> on_word_boundaries a b"
  by (cases a rule: rev_cases; cases b) (auto simp: has_ascii_word_boundaries_def on_word_boundaries_def nth_append)

lemma occurs_case_iff:
  "occurs_at (fold_case (case_of exactly) n) (fold_case (case_of exactly) line) i
    \<longleftrightarrow> (\<exists>a m b. line = a @ m @ b \<and> length a = i \<and> length m = length n
      \<and> (if exactly then m = n else map to_lower m = map to_lower n))"
proof (cases exactly)
  case True
  then show ?thesis by (auto simp: case_of_def fold_case_def occurs_at_iff)
next
  case False
  have "(\<exists>a m b. line = a @ m @ b \<and> length a = i \<and> length m = length n \<and> map to_lower m = map to_lower n)
      \<longleftrightarrow> i + length n \<le> length line \<and> map to_lower (take (length n) (drop i line)) = map to_lower n" (is "?L = ?R")
  proof
    assume ?R
    then have "line = take i line @ take (length n) (drop i line) @ drop (i + length n) line"
      by (metis append_take_drop_id drop_drop add.commute)
    moreover have "length (take i line) = i" "length (take (length n) (drop i line)) = length n" using \<open>?R\<close> by auto
    ultimately show ?L using \<open>?R\<close> by blast
  qed auto
  with False show ?thesis
    by (simp add: case_of_def fold_case_def occurs_at_def ascii_folded_def take_map drop_map)
qed

lemma line_holds_literal:
  "line_holds (Exact n (case_of exactly)) line \<longleftrightarrow> contains_literal exactly False n line"
  "line_holds (ShortExact n (case_of exactly)) line \<longleftrightarrow> contains_literal exactly False n line"
proof -
  have "(\<exists>i. occurs_at (fold_case (case_of exactly) n) (fold_case (case_of exactly) line) i)
      \<longleftrightarrow> (\<exists>a m b. line = a @ m @ b \<and> (if exactly then m = n else map to_lower m = map to_lower n))"
    unfolding occurs_case_iff by (metis length_map)
  then show "line_holds (Exact n (case_of exactly)) line \<longleftrightarrow> contains_literal exactly False n line"
    "line_holds (ShortExact n (case_of exactly)) line \<longleftrightarrow> contains_literal exactly False n line"
    by (simp_all add: contains_literal_def)
qed

lemma line_holds_word: "line_holds (WordExact n (case_of exactly)) line \<longleftrightarrow> contains_literal exactly True n line"
  (is "?L \<longleftrightarrow> ?R")
proof
  assume ?L
  then obtain a m b where m: "n \<noteq> []" "line = a @ m @ b" "length m = length n"
    "if exactly then m = n else map to_lower m = map to_lower n"
    "has_ascii_word_boundaries line (length a) (length n)" by (auto simp: occurs_case_iff)
  then have "on_word_boundaries a b" using boundaries_parts[of a m b] by simp
  with m show ?R unfolding contains_literal_def by blast
next
  assume ?R
  then obtain a m b where m: "n \<noteq> []" "line = a @ m @ b"
    "if exactly then m = n else map to_lower m = map to_lower n" "on_word_boundaries a b"
    unfolding contains_literal_def by blast
  moreover from m(3) have "length m = length n" by (auto split: if_splits dest: map_eq_imp_length_eq)
  moreover have "has_ascii_word_boundaries line (length a) (length m)" using m(2,4) boundaries_parts[of a m b] by simp
  ultimately show ?L by (simp add: occurs_case_iff) metis
qed

lemma literal_plan:
  assumes "eligible_query_plan R is_upper L (normalize_request raw) = Inr plan"
    "rr_fixed_strings raw = Some True" "rr_fuzzy raw = None"
  shows "line_holds plan = contains_literal (case_matters is_upper raw) (rr_word_regexp raw = Some True) (rr_pattern raw)"
proof -
  let ?req = "normalize_request raw"
  have req: "sq_pattern ?req = rr_pattern raw" "sq_fixed_strings ?req" "sq_raw_fuzzy ?req = None"
    "sq_word_regexp ?req \<longleftrightarrow> rr_word_regexp raw = Some True" "sq_case_mode ?req = case_mode_from_raw (rr_case raw)"
    using assms(2,3) by (auto simp: normalize_request_def Let_def unwrap_or_def split: option.splits)
  have "literal_case_for_request is_upper ?req = Inr (case_of (case_matters is_upper raw))"
    using req(1,2,5) by (auto simp: literal_case_for_request_def case_matters_def case_of_def
        contains_uppercase_letter_def split: case_mode.splits)
  with assms(1) req have "plan = Exact (rr_pattern raw) (case_of (case_matters is_upper raw)) \<and> rr_word_regexp raw \<noteq> Some True
      \<or> plan = ShortExact (rr_pattern raw) (case_of (case_matters is_upper raw)) \<and> rr_word_regexp raw \<noteq> Some True
      \<or> plan = WordExact (rr_pattern raw) (case_of (case_matters is_upper raw)) \<and> rr_word_regexp raw = Some True"
    by (auto simp: eligible_query_plan_def eligible_short_literal_plan_def unsupported_def split: if_splits)
  then show ?thesis using line_holds_literal line_holds_word by (auto simp: fun_eq_iff)
qed

section \<open>Fuzzy patterns\<close>

definition contains_close :: "nat \<Rightarrow> bytes \<Rightarrow> bytes \<Rightarrow> bool" where
  \<comment> \<open>some part of the line becomes the pattern by so many edits of characters\<close>
  "contains_close d n line \<longleftrightarrow> (\<exists>cs a sub b k. utf8_chars line = Some cs \<and> cs = a @ sub @ b
     \<and> edits k (chars_of n) sub \<and> k \<le> d)"

lemma edit_distance_le_iff: "edit_distance xs ys \<le> d \<longleftrightarrow> (\<exists>k \<le> d. edits k xs ys)"
  using edit_distance_le edit_distance_edits le_trans by metis

lemma fuzzy_plan:
  assumes "eligible_query_plan R is_upper L (normalize_request raw) = Inr plan" "rr_fuzzy raw = Some d"
  shows "line_holds plan = contains_close d (rr_pattern raw)"
proof -
  have req: "sq_pattern (normalize_request raw) = rr_pattern raw" "sq_raw_fuzzy (normalize_request raw) = Some d"
    using assms(2) by (auto simp: normalize_request_def Let_def)
  with assms(1) obtain plans where "plan = Fuzzy (chars_of (rr_pattern raw)) d plans"
    by (auto simp: eligible_query_plan_def eligible_fuzzy_plan_def unsupported_def unsupported_dialect_def Let_def
        split: if_splits)
  then show ?thesis
    by (auto simp: fun_eq_iff contains_close_def fuzzy_occurs_def edit_distance_le_iff split: option.splits)
qed

section \<open>The matches\<close>

definition search_cut :: "verified searched \<Rightarrow> bool" where
  "search_cut r = (case r of Inl e \<Rightarrow> True | Inr v \<Rightarrow> ve_truncated v)"

lemma demo_uncut:
  "demo_search (demo_raw ''bx'' True None) = Inr v \<Longrightarrow> \<not> ve_truncated v"
  "demo_search (demo_raw ''abcabd'' True (Some 1)) = Inr w \<Longrightarrow> \<not> ve_truncated w"
proof -
  have "\<not> search_cut (demo_search (demo_raw ''bx'' True None))" by code_simp
  then show "demo_search (demo_raw ''bx'' True None) = Inr v \<Longrightarrow> \<not> ve_truncated v" by (simp add: search_cut_def)
  have "\<not> search_cut (demo_search (demo_raw ''abcabd'' True (Some 1)))" by code_simp
  then show "demo_search (demo_raw ''abcabd'' True (Some 1)) = Inr w \<Longrightarrow> \<not> ve_truncated w" by (simp add: search_cut_def)
qed

text \<open>C5. If a search for a fixed string is not cut at its limit, the matches it shows are exactly the
  lines of the regular files it was given in which the string occurs: as it stands, or but for the case
  of ASCII letters when the request asks for that or, in smart case, has no upper-case letter; on word
  boundaries when words are asked for.\<close>

theorem literal_search_exact:
  assumes "memlib_ok M" "regexlib_ok R" "utf8_valid (rr_pattern raw)" "length (rr_pattern raw) + 6 \<le> usize_max"
    "contents_fit files" "rr_fixed_strings raw = Some True" "rr_fuzzy raw = None"
    "memory_search M R is_upper L (normalize_request raw) (build_index L u render files) = Inr v" "\<not> ve_truncated v"
  shows "match_lines (ve_events v) = file_hits render files
    (contains_literal (case_matters is_upper raw) (rr_word_regexp raw = Some True) (rr_pattern raw))"
  using search_hits[OF assms(1-5,8,9)] literal_plan[OF _ assms(6,7)] by metis

theorem literal_search_exact_witness:
  "\<exists>v. demo_search (demo_raw ''bx'' True None) = Inr v \<and> match_lines (ve_events v) = {(''/b'', 1)}
    \<and> {(''/b'', 1)} = file_hits (\<lambda>p. p) demo_files (contains_literal True False ''bx'')"
proof -
  have fit: "contents_fit demo_files"
    by (simp add: contents_fit_def demo_files_def demo_file_def usize_max_def)
  have lines: "search_lines (demo_search (demo_raw ''bx'' True None)) = [(''/b'', 1, True)]" by (rule demo_short)
  then obtain v where v: "demo_search (demo_raw ''bx'' True None) = Inr v"
    by (auto simp: search_lines_def split: sum.splits)
  with lines have one: "map (\<lambda>e. (ev_path e, ev_line_number e, ev_is_match e)) (ve_events v) = [(''/b'', 1, True)]"
    by (simp add: search_lines_def)
  then have hit: "match_lines (ve_events v) = {(''/b'', 1)}" by (auto simp: match_lines_def map_eq_Cons_conv)
  have uncut: "\<not> ve_truncated v" using demo_uncut(1) v by simp
  have exactly: "case_matters (\<lambda>c. False) (demo_raw ''bx'' True None)" by code_simp
  have "utf8_valid ''bx''" by code_simp
  then have "utf8_valid (rr_pattern (demo_raw ''bx'' True None))" by (simp add: demo_raw_def)
  from literal_search_exact[OF ref_memlib_ok literal_regexlib_ok this _ fit _ _ v[unfolded demo_search_def] uncut]
  have "match_lines (ve_events v) = file_hits (\<lambda>p. p) demo_files (contains_literal True False ''bx'')"
    using exactly by (simp add: demo_raw_def usize_max_def)
  with v hit show ?thesis by metis
qed

text \<open>C10. If a fuzzy search is not cut at its limit, the matches it shows are exactly the lines of the
  regular files of which some part turns into the pattern by at most the given number of insertions,
  deletions and replacements of characters.\<close>

theorem fuzzy_search_exact:
  assumes "memlib_ok M" "regexlib_ok R" "utf8_valid (rr_pattern raw)" "length (rr_pattern raw) + 6 \<le> usize_max"
    "contents_fit files" "rr_fuzzy raw = Some d"
    "memory_search M R is_upper L (normalize_request raw) (build_index L u render files) = Inr v" "\<not> ve_truncated v"
  shows "match_lines (ve_events v) = file_hits render files (contains_close d (rr_pattern raw))"
  using search_hits[OF assms(1-5,7,8)] fuzzy_plan[OF _ assms(6)] by metis

theorem fuzzy_search_exact_witness:
  "\<exists>v. demo_search (demo_raw ''abcabd'' True (Some 1)) = Inr v \<and> match_lines (ve_events v) = {(''/b'', 1)}
    \<and> {(''/b'', 1)} = file_hits (\<lambda>p. p) demo_files (contains_close 1 ''abcabd'')"
proof -
  have fit: "contents_fit demo_files"
    by (simp add: contents_fit_def demo_files_def demo_file_def usize_max_def)
  have lines: "search_lines (demo_search (demo_raw ''abcabd'' True (Some 1))) = [(''/b'', 1, True)]" by (rule demo_fuzzy)
  then obtain v where v: "demo_search (demo_raw ''abcabd'' True (Some 1)) = Inr v"
    by (auto simp: search_lines_def split: sum.splits)
  with lines have one: "map (\<lambda>e. (ev_path e, ev_line_number e, ev_is_match e)) (ve_events v) = [(''/b'', 1, True)]"
    by (simp add: search_lines_def)
  then have hit: "match_lines (ve_events v) = {(''/b'', 1)}" by (auto simp: match_lines_def map_eq_Cons_conv)
  have uncut: "\<not> ve_truncated v" using demo_uncut(2) v by simp
  have "utf8_valid ''abcabd''" by code_simp
  then have "utf8_valid (rr_pattern (demo_raw ''abcabd'' True (Some 1)))" by (simp add: demo_raw_def)
  from fuzzy_search_exact[OF ref_memlib_ok literal_regexlib_ok this _ fit _ v[unfolded demo_search_def] uncut]
  have "match_lines (ve_events v) = file_hits (\<lambda>p. p) demo_files (contains_close 1 ''abcabd'')"
    by (simp add: demo_raw_def usize_max_def)
  with v hit show ?thesis by metis
qed

section \<open>Distances and required literals\<close>

text \<open>C27. The banded computation of the edit distance, which leaves out all cells too far from the
  diagonal and stops at the first row above the bound, gives the least number of insertions,
  deletions and replacements that turn one text into the other, if it is within the bound, and
  otherwise nothing.\<close>

theorem edit_distance_exact:
  assumes "length xs + d + 2 \<le> usize_max"
  shows "bounded_edit_distance xs ys d = Some k \<longleftrightarrow> k \<le> d \<and> edits k xs ys \<and> (\<forall>m < k. \<not> edits m xs ys)"
proof
  assume "bounded_edit_distance xs ys d = Some k"
  then have "k = edit_distance xs ys" "k \<le> d" by (auto simp: bounded_edit_distance_eq[OF assms] split: if_splits)
  then show "k \<le> d \<and> edits k xs ys \<and> (\<forall>m < k. \<not> edits m xs ys)"
    using edit_distance_edits[of xs ys] edit_distance_le leD by metis
next
  assume k: "k \<le> d \<and> edits k xs ys \<and> (\<forall>m < k. \<not> edits m xs ys)"
  then have "edit_distance xs ys = k" using edit_distance_edits[of xs ys] edit_distance_le by (metis le_neq_implies_less)
  with k show "bounded_edit_distance xs ys d = Some k" by (simp add: bounded_edit_distance_eq[OF assms])
qed

theorem edit_distance_exact_witness: "edits 2 ''kitten'' ''kitchen'' \<and> \<not> edits 1 ''kitten'' ''kitchen''"
proof -
  have "bounded_edit_distance ''kitten'' ''kitchen'' 3 = Some 2" by code_simp
  then show ?thesis using edit_distance_exact[of "''kitten''" 3 "''kitchen''" 2] by (simp add: usize_max_def)
qed

text \<open>C34. The literals that are required of the documents before a regular expression is tried are
  sound: whatever the expression can spell, a line with it holds what is asked for, so that no
  document with a match is left out.\<close>

theorem required_literals_sound:
  assumes "required_candidate_expr h = Some e" "t \<in> spells h"
  shows "expr_holds e (a @ t @ b)"
  using required_sound[OF assms(1)] assms(2) expr_holds_infix by (auto simp: required_def)

theorem required_literals_sound_witness:
  "\<exists>e. required_candidate_expr (HConcat [HAlternation [HLiteral ''ab'', HLiteral ''cd''], HRepetition 1 (Some 2) (HLiteral ''x'')])
      = Some e \<and> expr_holds e ''-cdx-'' \<and> e = OrExpr [Seed ''abx'', Seed ''abxx'', Seed ''cdx'', Seed ''cdxx'']"
proof -
  let ?h = "HConcat [HAlternation [HLiteral ''ab'', HLiteral ''cd''], HRepetition 1 (Some 2) (HLiteral ''x'')]"
  have e: "required_candidate_expr ?h = Some (OrExpr [Seed ''abx'', Seed ''abxx'', Seed ''cdx'', Seed ''cdxx''])"
    by code_simp
  have "''x'' \<in> spells (HRepetition 1 (Some 2) (HLiteral ''x''))"
    by (auto simp: conc_def intro: exI[of _ 1])
  then have "''cd'' @ ''x'' @ [] \<in> spells ?h"
    unfolding spells.simps(7) by (simp del: append.simps append_Nil2 spells.simps(6) add: conc_def) blast
  from required_literals_sound[OF e this, of "''-''" "''-''"] e show ?thesis by simp
qed

end
