(* ===== verification/FileModel.thy ===== *)
theory FileModel
  imports MemSearch
begin

text \<open>
  \<^verbatim>\<open>tools-mcp-local/src/smart_file_edit/model.rs\<close>: a file as raw bytes, its LF-normalised
  canonical view, and the table of offsets that leads from the view back to the bytes.
  The first part is the code; the second part reads a file as a list of tokens (one scalar value
  or one line ending each), which the offset table turns out to index.
\<close>

section \<open>The code\<close>

datatype edit_error =
    Err bytes
  | Panic
  | Diverged

subsection \<open>Line endings and their statistics\<close>

datatype newline_kind = NkLf | NkCrLf | NkCr | NkNone

fun nk_as_bytes :: "newline_kind \<Rightarrow> bytes" where
  "nk_as_bytes NkCrLf = [CR, LF]"
| "nk_as_bytes NkCr = [CR]"
| "nk_as_bytes NkLf = [LF]"
| "nk_as_bytes NkNone = [LF]"

fun nk_label :: "newline_kind \<Rightarrow> bytes" where
  "nk_label NkLf = ''LF''"
| "nk_label NkCrLf = ''CRLF''"
| "nk_label NkCr = ''CR''"
| "nk_label NkNone = ''None''"

record newline_stats =
  st_lf :: nat
  st_crlf :: nat
  st_cr :: nat

definition stats_default :: newline_stats where
  "stats_default = \<lparr> st_lf = 0, st_crlf = 0, st_cr = 0 \<rparr>"

fun stats_record :: "newline_stats \<Rightarrow> newline_kind \<Rightarrow> newline_stats" where
  "stats_record st NkLf = st\<lparr> st_lf := st_lf st + 1 \<rparr>"
| "stats_record st NkCrLf = st\<lparr> st_crlf := st_crlf st + 1 \<rparr>"
| "stats_record st NkCr = st\<lparr> st_cr := st_cr st + 1 \<rparr>"
| "stats_record st NkNone = st"

definition stats_dominant :: "newline_stats \<Rightarrow> newline_kind" where
  "stats_dominant st =
     snd (foldl (\<lambda>best ck. if fst best < fst ck then ck else best) (0, NkNone)
       [(st_crlf st, NkCrLf), (st_lf st, NkLf), (st_cr st, NkCr)])"

definition default_kind :: "newline_stats \<Rightarrow> newline_kind" where
  "default_kind st = (case stats_dominant st of NkNone \<Rightarrow> NkLf | other \<Rightarrow> other)"

subsection \<open>Splitting the bytes into lines\<close>

record line_slice =
  content_start :: nat
  content_end :: nat
  newline_end :: nat
  ls_kind :: newline_kind

text \<open>
  The loop of \<open>split_lines\<close>.  Whether it makes progress depends on the search function, so it
  takes fuel; \<open>None\<close> is a loop that does not end.
\<close>

fun split_lines_loop ::
  "memlib \<Rightarrow> bytes \<Rightarrow> nat \<Rightarrow> nat \<Rightarrow> line_slice list \<Rightarrow> newline_stats
   \<Rightarrow> (line_slice list \<times> newline_stats) option" where
  "split_lines_loop M bs 0 idx lns st = None"
| "split_lines_loop M bs (Suc fuel) idx lns st =
     (if idx < length bs then
        let cs = idx;
            ce = idx + (case memchr2 M LF CR (drop idx bs) of Some r \<Rightarrow> r | None \<Rightarrow> length bs - idx);
            (ne, kind) =
              (if ce < length bs then
                 (if bs ! ce = CR then
                    (if ce + 1 < length bs \<and> bs ! (ce + 1) = LF then (ce + 2, NkCrLf)
                     else (ce + 1, NkCr))
                  else if bs ! ce = LF then (ce + 1, NkLf)
                  else (ce, NkNone))
               else (ce, NkNone))
        in split_lines_loop M bs fuel ne
             (lns @ [\<lparr> content_start = cs, content_end = ce, newline_end = ne, ls_kind = kind \<rparr>])
             (stats_record st kind)
      else Some (lns, st))"

definition split_lines :: "memlib \<Rightarrow> bytes \<Rightarrow> (line_slice list \<times> newline_stats) option" where
  "split_lines M bs =
     (case split_lines_loop M bs (length bs + 1) 0 [] stats_default of
        None \<Rightarrow> None
      | Some (lns, st) \<Rightarrow>
          Some (if lns = [] then
                  [\<lparr> content_start = 0, content_end = 0, newline_end = 0, ls_kind = NkNone \<rparr>]
                else lns, st))"

subsection \<open>Decoding a line\<close>

definition REPLACEMENT :: bytes where
  \<comment> \<open>U+FFFD\<close>
  "REPLACEMENT = [CHR 0xEF, CHR 0xBF, CHR 0xBD]"

definition utf8_char_width :: "byte \<Rightarrow> nat" where
  "utf8_char_width b =
     (let n = bval b
      in if n \<le> 0x7F then 1
         else if 0xC2 \<le> n \<and> n \<le> 0xDF then 2
         else if 0xE0 \<le> n \<and> n \<le> 0xEF then 3
         else if 0xF0 \<le> n \<and> n \<le> 0xF4 then 4
         else 0)"

fun char_indices :: "nat \<Rightarrow> bytes list \<Rightarrow> nat list" where
  \<comment> \<open>the offsets \<open>str::char_indices\<close> yields, for the scalar values from offset \<open>i\<close> on\<close>
  "char_indices i [] = []"
| "char_indices i (c # cs) = i # char_indices (i + length c) cs"

text \<open>The loop for a line that is not valid UTF-8: its output and the file offsets it notes.\<close>

function decode_lossy :: "bytes \<Rightarrow> nat \<Rightarrow> bytes \<times> nat list" where
  "decode_lossy bs i =
     (if i < length bs then
        let b = bs ! i; w = utf8_char_width b in
        if w = 1 then (case decode_lossy bs (i + 1) of (t, ps) \<Rightarrow> (b # t, i # ps))
        else if w = 0 \<or> i + w > length bs then
          (case decode_lossy bs (i + 1) of (t, ps) \<Rightarrow> (REPLACEMENT @ t, i # ps))
        else if utf8_valid (take w (drop i bs)) then
          (case decode_lossy bs (i + w) of (t, ps) \<Rightarrow> (take w (drop i bs) @ t, i # ps))
        else (case decode_lossy bs (i + 1) of (t, ps) \<Rightarrow> (REPLACEMENT @ t, i # ps))
      else ([], [length bs]))"
  by pat_completeness auto
termination
  by (relation "measure (\<lambda>(bs, i). length bs - i)") auto

declare decode_lossy.simps [simp del]

definition decode_line :: "bytes \<Rightarrow> bytes \<times> nat list" where
  "decode_line bs =
     (if utf8_valid bs then (bs, char_indices 0 (chars_of bs) @ [length bs]) else decode_lossy bs 0)"

definition build_canonical_boundaries :: "bytes \<Rightarrow> nat list" where
  "build_canonical_boundaries t = char_indices 0 (chars_of t) @ [length t]"

subsection \<open>The canonical view\<close>

record line_view =
  canonical_start :: nat
  canonical_end :: nat
  canonical_full_end :: nat
  lv_text :: bytes
  has_trailing_newline :: bool

record boundary =
  canonical_offset :: nat
  file_offset :: nat

record canonical_data =
  cd_text :: bytes
  line_views :: "line_view list"
  boundaries :: "boundary list"

definition mk_boundary :: "nat \<Rightarrow> nat \<Rightarrow> boundary" where
  "mk_boundary c f = \<lparr> canonical_offset = c, file_offset = f \<rparr>"

text \<open>One iteration of the loop of \<open>CanonicalData::from_bytes\<close>.  Reading
  \<open>canonical_boundaries[boundary_idx]\<close> out of range would panic.\<close>

definition canonical_step ::
  "bytes \<Rightarrow> canonical_data \<Rightarrow> nat \<Rightarrow> line_slice \<Rightarrow> edit_error + canonical_data" where
  "canonical_step bs cd idx line =
     (let (line_text, fb) =
            decode_line (take (content_end line - content_start line) (drop (content_start line) bs));
          cstart = length (cd_text cd);
          text1 = cd_text cd @ line_text;
          cend = length text1;
          cb = build_canonical_boundaries line_text;
          has_nl = (ls_kind line \<noteq> NkNone);
          view = \<lparr> canonical_start = cstart, canonical_end = cend,
                   canonical_full_end = (if has_nl then cend + 1 else cend),
                   lv_text = line_text, has_trailing_newline = has_nl \<rparr>;
          views1 = line_views cd @ [view]
      in if length fb > length cb then Inl Panic
         else
           let bnds1 = boundaries cd @
                 map (\<lambda>k. mk_boundary (cstart + cb ! k) (content_start line + fb ! k)) [1..<length fb];
               text2 = (if has_nl then text1 @ [LF] else text1);
               bnds2 = (if has_nl then bnds1 @ [mk_boundary (length text2) (newline_end line)]
                        else bnds1)
           in if length views1 \<noteq> idx + 1 then Inl (Err ''failed to record line metadata'')
              else Inr \<lparr> cd_text = text2, line_views = views1, boundaries = bnds2 \<rparr>)"

fun canonical_loop ::
  "bytes \<Rightarrow> canonical_data \<Rightarrow> nat \<Rightarrow> line_slice list \<Rightarrow> edit_error + canonical_data" where
  "canonical_loop bs cd idx [] = Inr cd"
| "canonical_loop bs cd idx (l # ls) =
     bindE (canonical_step bs cd idx l) (\<lambda>cd'. canonical_loop bs cd' (idx + 1) ls)"

definition canonical_from_bytes :: "bytes \<Rightarrow> line_slice list \<Rightarrow> edit_error + canonical_data" where
  "canonical_from_bytes bs lns =
     bindE (canonical_loop bs \<lparr> cd_text = [], line_views = [], boundaries = [mk_boundary 0 0] \<rparr> 0 lns)
       (\<lambda>cd. Inr (if boundaries cd = [] then cd\<lparr> boundaries := [mk_boundary 0 0] \<rparr> else cd))"

definition byte_offset :: "canonical_data \<Rightarrow> nat \<Rightarrow> nat option" where
  "byte_offset cd off =
     (case binary_search (map canonical_offset (boundaries cd)) off of
        Some i \<Rightarrow> Some (file_offset (boundaries cd ! i))
      | None \<Rightarrow> None)"

definition line_index_for_offset :: "canonical_data \<Rightarrow> nat \<Rightarrow> nat option" where
  "line_index_for_offset cd off =
     (if line_views cd = [] then None
      else Some (min (partition_point (\<lambda>v. off \<ge> canonical_full_end v) (line_views cd))
                     (length (line_views cd) - 1)))"

subsection \<open>The file model\<close>

record file_model =
  fm_bytes :: bytes
  fm_hash :: bytes
  fm_canonical :: canonical_data
  fm_stats :: newline_stats

text \<open>SHA-256 is another crate: \<open>sha\<close> is its digest in lower-case hexadecimal.\<close>

definition compute_hash :: "(bytes \<Rightarrow> bytes) \<Rightarrow> bytes \<Rightarrow> bytes" where
  "compute_hash sha bs = ''sha256:'' @ sha bs"

text \<open>\<open>FileModel::from_path\<close> once \<open>fs::read\<close> has returned \<open>bs\<close>.\<close>

definition file_model_of :: "memlib \<Rightarrow> (bytes \<Rightarrow> bytes) \<Rightarrow> bytes \<Rightarrow> edit_error + file_model" where
  "file_model_of M sha bs =
     (case split_lines M bs of
        None \<Rightarrow> Inl Diverged
      | Some (lns, st) \<Rightarrow>
          bindE (canonical_from_bytes bs lns)
            (\<lambda>cd. Inr \<lparr> fm_bytes = bs, fm_hash = compute_hash sha bs, fm_canonical = cd,
                        fm_stats = st \<rparr>))"

section \<open>A file as a list of lines\<close>

definition is_nl :: "byte \<Rightarrow> bool" where
  "is_nl b \<longleftrightarrow> b = LF \<or> b = CR"

fun newline_at :: "bytes \<Rightarrow> newline_kind \<times> bytes" where
  "newline_at [] = (NkNone, [])"
| "newline_at (n # r) =
     (if n = CR then
        (case r of d # r' \<Rightarrow> if d = LF then (NkCrLf, r') else (NkCr, r) | [] \<Rightarrow> (NkCr, []))
      else if n = LF then (NkLf, r)
      else (NkNone, n # r))"

function lines_of :: "bytes \<Rightarrow> (bytes \<times> newline_kind) list" where
  "lines_of bs =
     (if bs = [] then []
      else case newline_at (dropWhile (\<lambda>b. \<not> is_nl b) bs) of
             (k, rest) \<Rightarrow> (takeWhile (\<lambda>b. \<not> is_nl b) bs, k) # lines_of rest)"
  by pat_completeness auto

lemma newline_at_less:
  assumes "bs \<noteq> []" "newline_at (dropWhile (\<lambda>b. \<not> is_nl b) bs) = (k, rest)"
  shows "length rest < length bs"
proof -
  have le: "length (dropWhile (\<lambda>b. \<not> is_nl b) bs) \<le> length bs" by (rule length_dropWhile_le)
  show ?thesis
  proof (cases "dropWhile (\<lambda>b. \<not> is_nl b) bs")
    case Nil
    with assms show ?thesis by simp
  next
    case (Cons n r)
    then have "is_nl n" by (metis hd_dropWhile list.distinct(1) list.sel(1))
    with Cons le assms(2) show ?thesis
      by (auto simp: is_nl_def split: if_splits list.splits)
  qed
qed

termination lines_of
  by (relation "measure length") (auto dest: newline_at_less[OF _ sym])

declare lines_of.simps [simp del]

definition nl_bytes :: "newline_kind \<Rightarrow> bytes" where
  "nl_bytes k = (if k = NkNone then [] else nk_as_bytes k)"

fun line_slices :: "nat \<Rightarrow> (bytes \<times> newline_kind) list \<Rightarrow> line_slice list" where
  "line_slices i [] = []"
| "line_slices i ((c, k) # ls) =
     \<lparr> content_start = i, content_end = i + length c,
       newline_end = i + length c + length (nl_bytes k), ls_kind = k \<rparr>
     # line_slices (i + length c + length (nl_bytes k)) ls"

lemma newline_at_split:
  "newline_at r = (k, rest) \<Longrightarrow> r = [] \<or> is_nl (hd r) \<Longrightarrow> r = nl_bytes k @ rest"
  by (cases r) (auto simp: nl_bytes_def is_nl_def split: if_splits list.splits)

lemma lines_of_Nil [simp]: "lines_of [] = []"
  by (simp add: lines_of.simps)

lemma dropWhile_hd_nl:
  "dropWhile (\<lambda>b. \<not> is_nl b) bs = [] \<or> is_nl (hd (dropWhile (\<lambda>b. \<not> is_nl b) bs))"
  by (metis hd_dropWhile)

lemma lines_of_induct [case_names Nil Line]:
  assumes "P []"
    and "\<And>bs c k rest. bs \<noteq> [] \<Longrightarrow> c = takeWhile (\<lambda>b. \<not> is_nl b) bs
           \<Longrightarrow> newline_at (dropWhile (\<lambda>b. \<not> is_nl b) bs) = (k, rest)
           \<Longrightarrow> bs = c @ nl_bytes k @ rest \<Longrightarrow> lines_of bs = (c, k) # lines_of rest
           \<Longrightarrow> P rest \<Longrightarrow> P bs"
  shows "P bs"
proof (induction bs rule: length_induct)
  case (1 bs)
  show ?case
  proof (cases "bs = []")
    case False
    obtain k rest where nl: "newline_at (dropWhile (\<lambda>b. \<not> is_nl b) bs) = (k, rest)"
      by (cases "newline_at (dropWhile (\<lambda>b. \<not> is_nl b) bs)")
    from newline_at_split[OF nl dropWhile_hd_nl]
    have "bs = takeWhile (\<lambda>b. \<not> is_nl b) bs @ nl_bytes k @ rest"
      by (metis takeWhile_dropWhile_id)
    moreover have "lines_of bs = (takeWhile (\<lambda>b. \<not> is_nl b) bs, k) # lines_of rest"
      using False nl by (subst lines_of.simps) simp
    moreover have "P rest" using 1 newline_at_less[OF False nl] by blast
    ultimately show ?thesis using assms(2)[OF False refl nl] by blast
  qed (simp add: assms(1))
qed

lemma concat_lines_of: "concat (map (\<lambda>(c, k). c @ nl_bytes k) (lines_of bs)) = bs"
proof (induction bs rule: lines_of_induct)
  case (Line bs c k rest)
  from Line.hyps(4) Line.IH show ?case unfolding Line.hyps(5) by simp
qed simp

lemma lines_of_no_nl: "(c, k) \<in> set (lines_of bs) \<Longrightarrow> b \<in> set c \<Longrightarrow> \<not> is_nl b"
proof (induction bs rule: lines_of_induct)
  case (Line bs c' k' rest)
  from Line.prems(1) consider "c = c'" | "(c, k) \<in> set (lines_of rest)"
    unfolding Line.hyps(5) by auto
  then show ?case
  proof cases
    case 1
    with Line.prems(2) show ?thesis unfolding Line.hyps(2) by (blast dest: set_takeWhileD)
  qed (use Line.IH Line.prems(2) in blast)
qed simp

text \<open>The search loop computes the lines.\<close>

lemma split_lines_step:
  assumes "memlib_ok M" "idx < length bs"
    and "newline_at (dropWhile (\<lambda>b. \<not> is_nl b) (drop idx bs)) = (k, rest)"
    and "c = takeWhile (\<lambda>b. \<not> is_nl b) (drop idx bs)"
  shows "split_lines_loop M bs (Suc fuel) idx lns st =
         split_lines_loop M bs fuel (idx + length c + length (nl_bytes k))
           (lns @ line_slices idx [(c, k)]) (stats_record st k)"
proof -
  let ?s = "drop idx bs"
  let ?p = "\<lambda>b. b \<noteq> LF \<and> b \<noteq> CR"
  have p: "(\<lambda>b. \<not> is_nl b) = ?p" by (auto simp: is_nl_def)
  have ce: "idx + (case memchr2 M LF CR ?s of Some r \<Rightarrow> r | None \<Rightarrow> length bs - idx) = idx + length c"
  proof (cases "memchr2 M LF CR ?s")
    case None
    from memlib_memchr2_None[OF assms(1) None] have "length c = length bs - idx"
      unfolding assms(4) p by (metis length_drop)
    with None show ?thesis by simp
  next
    case (Some r)
    from memlib_memchr2_Some(1,3)[OF assms(1) Some] have "length c = r"
      unfolding assms(4) p by (metis length_take min.absorb4)
    with Some show ?thesis by simp
  qed
  have rest: "dropWhile (\<lambda>b. \<not> is_nl b) ?s = drop (idx + length c) bs"
    unfolding assms(4) by (simp add: dropWhile_eq_drop add.commute)
  have "(if idx + length c < length bs then
           (if bs ! (idx + length c) = CR then
              (if idx + length c + 1 < length bs \<and> bs ! (idx + length c + 1) = LF
               then (idx + length c + 2, NkCrLf) else (idx + length c + 1, NkCr))
            else if bs ! (idx + length c) = LF then (idx + length c + 1, NkLf)
            else (idx + length c, NkNone))
         else (idx + length c, NkNone)) = (idx + length c + length (nl_bytes k), k)"
  proof (cases "idx + length c < length bs")
    case True
    then have d: "drop (idx + length c) bs = bs ! (idx + length c) # drop (Suc (idx + length c)) bs"
      by (simp add: Cons_nth_drop_Suc)
    have "is_nl (bs ! (idx + length c))"
      using dropWhile_hd_nl[of ?s] unfolding rest d by simp
    moreover have "drop (Suc (idx + length c)) bs =
        (if Suc (idx + length c) < length bs
         then bs ! Suc (idx + length c) # drop (Suc (Suc (idx + length c))) bs else [])"
      by (simp add: Cons_nth_drop_Suc)
    ultimately show ?thesis
      using assms(3) True unfolding rest d
      by (auto simp: nl_bytes_def is_nl_def split: if_splits)
  next
    case False
    with assms(3) show ?thesis unfolding rest by (simp add: nl_bytes_def)
  qed
  then show ?thesis using assms(2) ce by (simp add: Let_def)
qed

lemma split_lines_loop_eq:
  assumes "memlib_ok M" "pre @ s = bs" "idx = length pre" "length s < fuel"
  shows "split_lines_loop M bs fuel idx lns st =
         Some (lns @ line_slices idx (lines_of s), foldl stats_record st (map snd (lines_of s)))"
  using assms(2-)
proof (induction s arbitrary: pre idx fuel lns st rule: lines_of_induct)
  case Nil
  then show ?case by (cases fuel) auto
next
  case (Line s c k rest)
  from Line.prems obtain fuel' where fuel: "fuel = Suc fuel'" by (cases fuel) auto
  have s: "drop idx bs = s" using Line.prems by auto
  have lt: "idx < length bs" using Line.prems Line.hyps(1) by auto
  have less: "length rest < length s" using newline_at_less Line.hyps(1,3) by blast
  have IH: "split_lines_loop M bs fuel' (idx + length c + length (nl_bytes k))
        (lns @ line_slices idx [(c, k)]) (stats_record st k) =
      Some ((lns @ line_slices idx [(c, k)]) @
              line_slices (idx + length c + length (nl_bytes k)) (lines_of rest),
            foldl stats_record (stats_record st k) (map snd (lines_of rest)))"
  proof (rule Line.IH[of "pre @ c @ nl_bytes k"])
    show "(pre @ c @ nl_bytes k) @ rest = bs"
      using Line.prems(1) Line.hyps(4) by (metis append.assoc)
    show "length rest < fuel'" using less fuel Line.prems(3) by simp
  qed (use Line.prems(2) in simp)
  show ?case
    unfolding fuel split_lines_step[OF assms(1) lt, unfolded s, OF Line.hyps(3,2)] IH
    by (simp add: Line.hyps(5))
qed

definition file_lines :: "bytes \<Rightarrow> (bytes \<times> newline_kind) list" where
  "file_lines bs = (if bs = [] then [([], NkNone)] else lines_of bs)"

lemma lines_of_nonempty: "bs \<noteq> [] \<Longrightarrow> lines_of bs \<noteq> []"
  by (subst lines_of.simps) (simp split: prod.split)

lemma line_slices_Nil_iff: "line_slices i ls = [] \<longleftrightarrow> ls = []"
  by (cases ls) auto

lemma split_lines_eq:
  assumes "memlib_ok M"
  shows "split_lines M bs =
         Some (line_slices 0 (file_lines bs),
               foldl stats_record stats_default (map snd (file_lines bs)))"
proof -
  have "split_lines_loop M bs (length bs + 1) 0 [] stats_default =
      Some (line_slices 0 (lines_of bs), foldl stats_record stats_default (map snd (lines_of bs)))"
    by (subst split_lines_loop_eq[OF assms, of "[]" bs]) auto
  then show ?thesis
    by (simp add: split_lines_def file_lines_def line_slices_Nil_iff lines_of_nonempty nl_bytes_def)
qed

end
