(* ===== verification/FileTokens.thy ===== *)
theory FileTokens
  imports FileModel
begin

text \<open>
  What the offset table of \<open>FileModel\<close> means.  A file is read as a list of tokens, each the bytes
  in the file with the bytes that stand for them in the canonical view.  The table holds one entry
  per token boundary, so \<open>byte_offset\<close> succeeds exactly at token boundaries and cuts the file and
  the view at the same place.
\<close>

section \<open>Tokens of a line\<close>

type_synonym tok = "bytes \<times> bytes"

definition single :: "bytes \<Rightarrow> bool" where
  "single c \<longleftrightarrow> scalar_width c = Some (length c)"

lemma single_nonempty: "single c \<Longrightarrow> c \<noteq> []"
  by (auto simp: single_def)

lemma single_valid: "single c \<Longrightarrow> utf8_valid c"
  unfolding single_def using utf8_valid_step[of c "length c"] by simp

lemma chars_of_single: "single c \<Longrightarrow> chars_of c = [c]"
  unfolding single_def using chars_of_step[of c "length c"] by simp

lemma singles_chars: "\<forall>c \<in> set cs. single c \<Longrightarrow> utf8_valid (concat cs) \<and> chars_of (concat cs) = cs"
proof (induction cs)
  case (Cons c cs)
  then have "single c" "utf8_valid (concat cs)" "chars_of (concat cs) = cs" by auto
  then show ?case
    using utf8_valid_append[of c "concat cs"] chars_of_append[of c "concat cs"]
      single_valid[of c] chars_of_single[of c] by simp
qed simp

lemma chars_of_singles: "utf8_valid s \<Longrightarrow> \<forall>c \<in> set (chars_of s). single c"
proof (induction s rule: utf8_induct)
  case (Step s w)
  have "single (take w s)"
    using scalar_width_take[OF Step(1)] scalar_widthD(2)[OF Step(1)] by (simp add: single_def)
  with Step show ?case by (simp add: chars_of_step)
qed simp

definition lossy_step :: "bytes \<Rightarrow> nat \<Rightarrow> nat \<times> bytes" where
  "lossy_step bs i =
     (let w = utf8_char_width (bs ! i) in
      if w = 1 then (1, [bs ! i])
      else if w = 0 \<or> i + w > length bs then (1, REPLACEMENT)
      else if utf8_valid (take w (drop i bs)) then (w, take w (drop i bs))
      else (1, REPLACEMENT))"

lemma utf8_char_width_lead:
  "utf8_char_width b = (case lead_width b of None \<Rightarrow> 0 | Some w \<Rightarrow> w)"
  by (auto simp: utf8_char_width_def lead_width_def Let_def)

lemma single_REPLACEMENT: "single REPLACEMENT"
  by (simp add: single_def REPLACEMENT_def lead_width_def is_cont_def second_ok_def bval_def)

lemma lossy_step_spec:
  assumes "i < length bs" "lossy_step bs i = (w, out)"
  shows "0 < w" "i + w \<le> length bs" "single out"
proof -
  let ?w = "utf8_char_width (bs ! i)"
  have "0 < w \<and> i + w \<le> length bs \<and> single out"
  proof (cases "?w \<noteq> 1 \<and> ?w \<noteq> 0 \<and> i + ?w \<le> length bs \<and> utf8_valid (take ?w (drop i bs))")
    case True
    then have wo: "w = ?w" "out = take ?w (drop i bs)"
      using assms(2) by (auto simp: lossy_step_def Let_def)
    have "w \<le> length bs - i" using True wo by linarith
    then have len: "length out = w" using wo by simp
    have hd: "out = bs ! i # tl out"
      using True assms(1) wo by (cases ?w) (auto simp: Cons_nth_drop_Suc[symmetric])
    have lead: "lead_width (bs ! i) = Some w"
      using True wo by (auto simp: utf8_char_width_lead split: option.splits)
    have "out \<noteq> []" using hd by auto
    then obtain v where v: "scalar_width out = Some v"
      using True wo utf8_valid_scalar_width by blast
    then have "lead_width (hd out) = Some v"
      using \<open>out \<noteq> []\<close> by (cases out) (auto split: option.splits if_splits)
    moreover have "hd out = bs ! i" using hd by (metis list.sel(1))
    ultimately have "v = w" using lead by simp
    with v len have "single out" by (simp add: single_def)
    with True wo show ?thesis by auto
  next
    case False
    have "single [bs ! i]" if "?w = 1"
    proof -
      have "bval (bs ! i) < 128"
        using that by (auto simp: utf8_char_width_def Let_def split: if_splits)
      then show ?thesis by (simp add: single_def lead_width_def)
    qed
    then show ?thesis
      using False assms single_REPLACEMENT by (auto simp: lossy_step_def Let_def split: if_splits)
  qed
  then show "0 < w" "i + w \<le> length bs" "single out" by auto
qed

lemma lossy_step_less:
  "i < length bs \<Longrightarrow> (w, out) = lossy_step bs i \<Longrightarrow> length bs - (i + w) < length bs - i"
  using lossy_step_spec(1)[of i bs w out] by simp

function lossy_toks :: "bytes \<Rightarrow> nat \<Rightarrow> tok list" where
  "lossy_toks bs i =
     (if i < length bs then
        (case lossy_step bs i of (w, out) \<Rightarrow> (take w (drop i bs), out) # lossy_toks bs (i + w))
      else [])"
  by pat_completeness auto
termination
  by (relation "measure (\<lambda>(bs, i). length bs - i)") (auto intro: lossy_step_less)

declare lossy_toks.simps [simp del]

lemma decode_lossy_step:
  assumes "i < length bs" "lossy_step bs i = (w, out)"
  shows "decode_lossy bs i = (case decode_lossy bs (i + w) of (t, ps) \<Rightarrow> (out @ t, i # ps))"
proof (cases "utf8_char_width (bs ! i) = 1")
  case True
  with assms(2) have "w = 1" "out = [bs ! i]" by (simp_all add: lossy_step_def)
  with True assms(1) show ?thesis by (subst decode_lossy.simps) simp
next
  case False
  with assms show ?thesis
    by (subst decode_lossy.simps) (auto simp: lossy_step_def Let_def split: if_splits)
qed

lemma lossy_toks_step:
  assumes "i < length bs" "lossy_step bs i = (w, out)"
  shows "lossy_toks bs i = (take w (drop i bs), out) # lossy_toks bs (i + w)"
  using assms by (subst lossy_toks.simps) simp

lemma lossy_toks_spec:
  assumes "i \<le> length bs"
  shows "decode_lossy bs i =
           (concat (map snd (lossy_toks bs i)),
            char_indices i (map fst (lossy_toks bs i)) @ [length bs])
         \<and> concat (map fst (lossy_toks bs i)) = drop i bs
         \<and> (\<forall>t \<in> set (lossy_toks bs i). single (snd t))"
  using assms
proof (induction "length bs - i" arbitrary: i rule: less_induct)
  case less
  show ?case
  proof (cases "i < length bs")
    case True
    obtain w out where step: "lossy_step bs i = (w, out)" by (cases "lossy_step bs i")
    note sp = lossy_step_spec[OF True step]
    have IH: "decode_lossy bs (i + w) =
           (concat (map snd (lossy_toks bs (i + w))),
            char_indices (i + w) (map fst (lossy_toks bs (i + w))) @ [length bs])
         \<and> concat (map fst (lossy_toks bs (i + w))) = drop (i + w) bs
         \<and> (\<forall>t \<in> set (lossy_toks bs (i + w)). single (snd t))"
      using less(1)[of "i + w"] sp True by simp
    have "take w (drop i bs) @ drop (i + w) bs = drop i bs"
      by (metis append_take_drop_id drop_drop add.commute)
    then show ?thesis
      unfolding lossy_toks_step[OF True step] decode_lossy_step[OF True step]
      using IH sp by simp
  next
    case False
    then have "lossy_toks bs i = []" by (subst lossy_toks.simps) simp
    moreover from False have "decode_lossy bs i = ([], [length bs])"
      by (subst decode_lossy.simps) simp
    ultimately show ?thesis using less(2) False by simp
  qed
qed

definition line_toks :: "bytes \<Rightarrow> tok list" where
  "line_toks c = (if utf8_valid c then map (\<lambda>x. (x, x)) (chars_of c) else lossy_toks c 0)"

lemma line_toks_spec:
  shows decode_line_toks:
    "decode_line c = (concat (map snd (line_toks c)), char_indices 0 (map fst (line_toks c)) @ [length c])"
    and line_toks_file: "concat (map fst (line_toks c)) = c"
    and line_toks_single: "t \<in> set (line_toks c) \<Longrightarrow> single (snd t)"
proof -
  have "decode_line c =
          (concat (map snd (line_toks c)), char_indices 0 (map fst (line_toks c)) @ [length c])
        \<and> concat (map fst (line_toks c)) = c \<and> (\<forall>t \<in> set (line_toks c). single (snd t))"
  proof (cases "utf8_valid c")
    case True
    then show ?thesis
      using chars_of_singles[OF True]
      by (simp add: line_toks_def decode_line_def o_def concat_chars_of)
  next
    case False
    then show ?thesis
      using lossy_toks_spec[of 0 c] by (simp add: line_toks_def decode_line_def)
  qed
  then show "decode_line c =
      (concat (map snd (line_toks c)), char_indices 0 (map fst (line_toks c)) @ [length c])"
    and "concat (map fst (line_toks c)) = c"
    and "t \<in> set (line_toks c) \<Longrightarrow> single (snd t)" by blast+
qed

lemma lossy_toks_fst: "\<forall>t \<in> set (lossy_toks bs i). fst t \<noteq> []"
proof (induction "length bs - i" arbitrary: i rule: less_induct)
  case less
  show ?case
  proof (cases "i < length bs")
    case True
    obtain w out where step: "lossy_step bs i = (w, out)" by (cases "lossy_step bs i")
    note sp = lossy_step_spec[OF True step]
    have "take w (drop i bs) \<noteq> []" using True sp(1) by simp
    moreover have "length bs - (i + w) < length bs - i" using True sp(1) by simp
    from less[OF this] have "\<forall>t \<in> set (lossy_toks bs (i + w)). fst t \<noteq> []" .
    ultimately show ?thesis unfolding lossy_toks_step[OF True step] by simp
  next
    case False
    then show ?thesis by (subst lossy_toks.simps) simp
  qed
qed

lemma line_toks_fst: "t \<in> set (line_toks c) \<Longrightarrow> fst t \<noteq> []"
  using lossy_toks_fst[of c 0] chars_of_nonempty[of c] by (auto simp: line_toks_def split: if_splits)

section \<open>The offset table\<close>

definition clen :: "tok list \<Rightarrow> nat" where "clen ts = length (concat (map snd ts))"
definition flen :: "tok list \<Rightarrow> nat" where "flen ts = length (concat (map fst ts))"

lemma len_simps [simp]:
  "clen [] = 0" "flen [] = 0"
  "clen (t # ts) = length (snd t) + clen ts" "flen (t # ts) = length (fst t) + flen ts"
  "clen (a @ b) = clen a + clen b" "flen (a @ b) = flen a + flen b"
  by (simp_all add: clen_def flen_def)

definition offs :: "nat \<Rightarrow> nat \<Rightarrow> tok list \<Rightarrow> boundary list" where
  \<comment> \<open>the table entries for the token ends, from the given offsets on\<close>
  "offs c f ts =
     map (\<lambda>k. mk_boundary (c + clen (take (Suc k) ts)) (f + flen (take (Suc k) ts))) [0..<length ts]"

lemma offs_append: "offs c f (a @ b) = offs c f a @ offs (c + clen a) (f + flen a) b"
proof -
  have split: "[0..<length (a @ b)] = [0..<length a] @ map (\<lambda>k. k + length a) [0..<length b]"
    using upt_add_eq_append[of 0 "length a" "length b"] map_add_upt[of "length a" "length b"]
    by (simp add: add.commute)
  have "Suc k \<le> length a" if "k \<in> set [0..<length a]" for k using that by simp
  then show ?thesis
    unfolding offs_def split map_append map_map
    by (intro arg_cong2[where f = "(@)"] map_cong) (simp_all add: o_def add.assoc)
qed

lemma char_indices_nth:
  "k \<le> length cs \<Longrightarrow>
   (char_indices i cs @ [i + length (concat cs)]) ! k = i + length (concat (take k cs))"
proof (induction cs arbitrary: i k)
  case (Cons c cs)
  show ?case
  proof (cases k)
    case (Suc k')
    with Cons.IH[of k' "i + length c"] Cons.prems show ?thesis by (simp add: add.assoc)
  qed simp
qed simp

lemma length_char_indices [simp]: "length (char_indices i cs) = length cs"
  by (induction cs arbitrary: i) auto

lemma line_bounds:
  fixes ts :: "tok list"
  defines "cb \<equiv> char_indices 0 (map snd ts) @ [length (concat (map snd ts))]"
    and "fb \<equiv> char_indices 0 (map fst ts) @ [length (concat (map fst ts))]"
  shows "map (\<lambda>k. mk_boundary (c + cb ! k) (f + fb ! k)) [1..<length fb] = offs c f ts"
proof -
  have "cb ! k = clen (take k ts)" "fb ! k = flen (take k ts)" if "k < Suc (length ts)" for k
    using char_indices_nth[of k "map snd ts" 0] char_indices_nth[of k "map fst ts" 0] that
    by (simp_all add: cb_def fb_def clen_def flen_def take_map)
  moreover have "[1..<length fb] = map Suc [0..<length ts]"
    by (simp add: fb_def map_Suc_upt del: upt_Suc)
  ultimately show ?thesis by (auto simp: offs_def simp del: upt_Suc)
qed

section \<open>Tokens of a file\<close>

definition nl_toks :: "newline_kind \<Rightarrow> tok list" where
  "nl_toks k = (if k = NkNone then [] else [(nk_as_bytes k, [LF])])"

definition file_toks :: "(bytes \<times> newline_kind) list \<Rightarrow> tok list" where
  "file_toks ls = concat (map (\<lambda>(c, k). line_toks c @ nl_toks k) ls)"

definition ftext :: "tok list \<Rightarrow> bytes" where "ftext ts = concat (map fst ts)"
definition ctext :: "tok list \<Rightarrow> bytes" where "ctext ts = concat (map snd ts)"

lemma text_simps [simp]:
  "ftext [] = []" "ctext [] = []"
  "ftext (t # ts) = fst t @ ftext ts" "ctext (t # ts) = snd t @ ctext ts"
  "ftext (a @ b) = ftext a @ ftext b" "ctext (a @ b) = ctext a @ ctext b"
  by (simp_all add: ftext_def ctext_def)

lemma length_text: "length (ftext ts) = flen ts" "length (ctext ts) = clen ts"
  by (simp_all add: ftext_def ctext_def flen_def clen_def)

lemma ftext_nl_toks: "ftext (nl_toks k) = nl_bytes k"
  by (simp add: nl_toks_def nl_bytes_def)

lemma file_toks_simps [simp]:
  "file_toks [] = []"
  "file_toks ((c, k) # ls) = line_toks c @ nl_toks k @ file_toks ls"
  by (simp_all add: file_toks_def)

lemma ftext_line_toks: "ftext (line_toks c) = c"
  by (simp add: ftext_def line_toks_file)

lemma ftext_file_toks: "ftext (file_toks ls) = concat (map (\<lambda>(c, k). c @ nl_bytes k) ls)"
  by (induction ls) (auto simp: ftext_line_toks ftext_nl_toks)

fun line_views_from :: "nat \<Rightarrow> (bytes \<times> newline_kind) list \<Rightarrow> line_view list" where
  "line_views_from o1 [] = []"
| "line_views_from o1 ((c, k) # ls) =
     (let o2 = o1 + clen (line_toks c); o3 = o2 + clen (nl_toks k) in
      \<lparr> canonical_start = o1, canonical_end = o2, canonical_full_end = o3,
        lv_text = ctext (line_toks c), has_trailing_newline = (k \<noteq> NkNone) \<rparr>
      # line_views_from o3 ls)"

lemma canonical_step_toks:
  assumes "take (content_end l - content_start l) (drop (content_start l) bs) = c"
    and "ls_kind l = k" "newline_end l = content_start l + length c + length (nl_bytes k)"
    and "length (line_views cd) = idx"
  shows "canonical_step bs cd idx l = Inr \<lparr>
     cd_text = cd_text cd @ ctext (line_toks c @ nl_toks k),
     line_views = line_views cd @ line_views_from (length (cd_text cd)) [(c, k)],
     boundaries = boundaries cd @ offs (length (cd_text cd)) (content_start l) (line_toks c @ nl_toks k) \<rparr>"
proof -
  let ?ts = "line_toks c"
  have dec: "decode_line (take (content_end l - content_start l) (drop (content_start l) bs)) =
      (ctext ?ts, char_indices 0 (map fst ?ts) @ [length (concat (map fst ?ts))])"
    unfolding assms(1) ctext_def line_toks_file by (rule decode_line_toks)
  have cb: "build_canonical_boundaries (ctext ?ts) =
      char_indices 0 (map snd ?ts) @ [length (concat (map snd ?ts))]"
    using singles_chars[of "map snd ?ts"] line_toks_single
    by (auto simp: build_canonical_boundaries_def ctext_def)
  have nl: "offs c' f (nl_toks k) =
      (if k \<noteq> NkNone then [mk_boundary (c' + 1) (f + length (nl_bytes k))] else [])" for c' f
    by (simp add: offs_def nl_toks_def nl_bytes_def)
  have fl: "flen ?ts = length c" "clen ?ts = length (ctext ?ts)"
    by (simp_all add: flen_def line_toks_file length_text)
  show ?thesis
    unfolding canonical_step_def dec
    by (simp add: cb line_bounds[simplified] offs_append nl assms(2-) fl Let_def)
      (auto simp: nl_toks_def add.assoc)
qed

lemma canonical_loop_toks:
  assumes "bs = pre @ concat (map (\<lambda>(c, k). c @ nl_bytes k) ls)" "i = length pre"
    and "length (line_views cd) = idx"
  shows "canonical_loop bs cd idx (line_slices i ls) = Inr \<lparr>
     cd_text = cd_text cd @ ctext (file_toks ls),
     line_views = line_views cd @ line_views_from (length (cd_text cd)) ls,
     boundaries = boundaries cd @ offs (length (cd_text cd)) i (file_toks ls) \<rparr>"
  using assms
proof (induction ls arbitrary: pre i cd idx)
  case Nil
  then show ?case by (simp add: offs_def)
next
  case (Cons ck ls)
  obtain c k where ck: "ck = (c, k)" by (cases ck)
  let ?l = "\<lparr> content_start = i, content_end = i + length c,
              newline_end = i + length c + length (nl_bytes k), ls_kind = k \<rparr>"
  let ?cd = "\<lparr> cd_text = cd_text cd @ ctext (line_toks c @ nl_toks k),
     line_views = line_views cd @ line_views_from (length (cd_text cd)) [(c, k)],
     boundaries = boundaries cd @ offs (length (cd_text cd)) i (line_toks c @ nl_toks k) \<rparr>"
  have step: "canonical_step bs cd idx ?l = Inr ?cd"
    using canonical_step_toks[of ?l bs c k cd idx] Cons.prems ck by simp
  have "canonical_loop bs ?cd (idx + 1) (line_slices (i + length c + length (nl_bytes k)) ls) = Inr \<lparr>
     cd_text = cd_text ?cd @ ctext (file_toks ls),
     line_views = line_views ?cd @ line_views_from (length (cd_text ?cd)) ls,
     boundaries = boundaries ?cd @
       offs (length (cd_text ?cd)) (i + length c + length (nl_bytes k)) (file_toks ls) \<rparr>"
    by (rule Cons.IH[of "pre @ c @ nl_bytes k"]) (use Cons.prems ck in \<open>auto simp: Let_def\<close>)
  moreover have "flen (line_toks c) = length c" "flen (nl_toks k) = length (nl_bytes k)"
    by (metis length_text(1) ftext_line_toks, metis length_text(1) ftext_nl_toks)
  ultimately show ?case
    using step by (simp add: ck offs_append length_text add.assoc Let_def)
qed

definition bounds_of :: "tok list \<Rightarrow> boundary list" where
  "bounds_of ts = mk_boundary 0 0 # offs 0 0 ts"

text \<open>The model of a file exists for every content: no panic, no error, no endless loop.\<close>

lemma file_model_of_eq:
  assumes "memlib_ok M"
  shows "file_model_of M sha bs = Inr \<lparr> fm_bytes = bs, fm_hash = compute_hash sha bs,
     fm_canonical = \<lparr> cd_text = ctext (file_toks (file_lines bs)),
                      line_views = line_views_from 0 (file_lines bs),
                      boundaries = bounds_of (file_toks (file_lines bs)) \<rparr>,
     fm_stats = foldl stats_record stats_default (map snd (file_lines bs)) \<rparr>"
proof -
  have bs: "bs = [] @ concat (map (\<lambda>(c, k). c @ nl_bytes k) (file_lines bs))"
    using concat_lines_of[of bs] by (simp add: file_lines_def nl_bytes_def)
  show ?thesis
    using canonical_loop_toks[OF bs, of 0 "\<lparr> cd_text = [], line_views = [], boundaries = [mk_boundary 0 0] \<rparr>" 0]
    by (simp add: file_model_of_def split_lines_eq[OF assms] canonical_from_bytes_def bounds_of_def)
qed

subsection \<open>Looking up an offset\<close>

lemma bounds_of_nth:
  "k \<le> length ts \<Longrightarrow> bounds_of ts ! k = mk_boundary (clen (take k ts)) (flen (take k ts))"
  by (cases k) (simp_all add: bounds_of_def offs_def)

lemma length_bounds_of: "length (bounds_of ts) = Suc (length ts)"
  by (simp add: bounds_of_def offs_def)

lemma canonical_offset_mk [simp]:
  "canonical_offset (mk_boundary c f) = c" "file_offset (mk_boundary c f) = f"
  by (simp_all add: mk_boundary_def)

lemma clen_take_less:
  assumes "\<forall>t \<in> set ts. snd t \<noteq> []" "i < j" "j \<le> length ts"
  shows "clen (take i ts) < clen (take j ts)"
proof -
  have "take j ts = take i ts @ take (j - i) (drop i ts)"
    using assms(2) by (metis le_add_diff_inverse less_imp_le take_add)
  moreover have "take (j - i) (drop i ts) \<noteq> []" using assms by simp
  then obtain t us where u: "take (j - i) (drop i ts) = t # us" by (meson neq_Nil_conv)
  then have "t \<in> set ts" by (metis in_set_dropD in_set_takeD list.set_intros(1))
  ultimately show ?thesis using assms(1) u by simp
qed

lemma byte_offset_bounds:
  assumes "\<forall>t \<in> set ts. snd t \<noteq> []" "boundaries cd = bounds_of ts"
  shows "byte_offset cd off = Some f \<longleftrightarrow>
    (\<exists>a b. ts = a @ b \<and> off = clen a \<and> f = flen a)"
proof -
  let ?ks = "map canonical_offset (bounds_of ts)"
  have nth: "?ks ! k = clen (take k ts)" if "k \<le> length ts" for k
    using that by (simp add: length_bounds_of bounds_of_nth)
  have "sorted_wrt (<) ?ks"
    unfolding sorted_wrt_iff_nth_less
    using clen_take_less[OF assms(1)] nth by (auto simp: length_bounds_of)
  from binary_search_sorted[OF this, of off]
  have search: "binary_search ?ks off = Some i \<longleftrightarrow> i \<le> length ts \<and> clen (take i ts) = off" for i
    using nth by (auto simp: length_bounds_of less_Suc_eq_le)
  have "byte_offset cd off = Some f \<longleftrightarrow>
      (\<exists>i. binary_search ?ks off = Some i \<and> f = file_offset (bounds_of ts ! i))"
    unfolding byte_offset_def assms(2) by (auto split: option.splits)
  also have "\<dots> \<longleftrightarrow> (\<exists>i \<le> length ts. clen (take i ts) = off \<and> f = flen (take i ts))"
    unfolding search by (auto simp: bounds_of_nth)
  also have "\<dots> \<longleftrightarrow> (\<exists>a b. ts = a @ b \<and> off = clen a \<and> f = flen a)"
    by (metis append_eq_conv_conj append_take_drop_id length_append le_add1)
  finally show ?thesis .
qed

end
