(* ===== verification/Newlines.thy ===== *)
theory Newlines
  imports FileTokens
begin

text \<open>
  The newline normalisation that the canonical view and the snippets of an edit share
  (\<open>normalize_newlines_to_lf\<close> of \<^verbatim>\<open>smart_file_edit/edit.rs\<close>), the reverse translation of a
  replacement, and the agreement of the canonical view with the normalised file.
\<close>

section \<open>The code\<close>

text \<open>The loop of \<open>normalize_newlines_to_lf\<close>: \<open>acc\<close> is \<open>normalized\<close>.  Slicing beyond the end of
  the input would panic; \<open>None\<close> stands for both the panic and a loop that does not end.\<close>

fun normalize_loop :: "memlib \<Rightarrow> bytes \<Rightarrow> nat \<Rightarrow> nat \<Rightarrow> nat \<Rightarrow> bytes \<Rightarrow> bytes option" where
  "normalize_loop M inp 0 scan cpy acc = None"
| "normalize_loop M inp (Suc fuel) scan cpy acc =
     (if scan > length inp then None
      else case memchr M CR (drop scan inp) of
        Some rel \<Rightarrow>
          let cr = scan + rel;
              acc1 = acc @ take (cr - cpy) (drop cpy inp) @ [LF];
              scan1 = cr + 1;
              scan2 = (if scan1 < length inp \<and> inp ! scan1 = LF then scan1 + 1 else scan1)
          in normalize_loop M inp fuel scan2 scan2 acc1
      | None \<Rightarrow> Some (acc @ drop cpy inp))"

definition normalize_newlines_to_lf :: "memlib \<Rightarrow> bytes \<Rightarrow> bytes option" where
  "normalize_newlines_to_lf M inp =
     (if memchr M CR inp = None then Some inp
      else normalize_loop M inp (length inp + 1) 0 0 [])"

definition replacement_byte_len :: "memlib \<Rightarrow> bytes \<Rightarrow> newline_kind \<Rightarrow> nat" where
  "replacement_byte_len M s k =
     (case k of
        NkCrLf \<Rightarrow> length s + length (memchr_iter M LF s)
      | _ \<Rightarrow> length s)"

fun append_replacement_loop :: "bytes \<Rightarrow> bytes \<Rightarrow> nat list \<Rightarrow> nat \<Rightarrow> bytes \<Rightarrow> bytes" where
  "append_replacement_loop s nl [] cpy out = out @ drop cpy s"
| "append_replacement_loop s nl (i # is) cpy out =
     append_replacement_loop s nl is (i + 1) (out @ take (i - cpy) (drop cpy s) @ nl)"

definition append_replacement_bytes :: "memlib \<Rightarrow> bytes \<Rightarrow> bytes \<Rightarrow> newline_kind \<Rightarrow> bytes" where
  "append_replacement_bytes M out s k =
     (if k = NkLf \<or> k = NkNone then out @ s
      else append_replacement_loop s (nk_as_bytes k) (memchr_iter M LF s) 0 out)"

section \<open>The reference: one pass over the bytes\<close>

function norm_lf :: "bytes \<Rightarrow> bytes" where
  "norm_lf [] = []"
| "norm_lf (c # cs) =
     (if c = CR then LF # norm_lf (case cs of d # ds \<Rightarrow> if d = LF then ds else cs | [] \<Rightarrow> [])
      else c # norm_lf cs)"
  by pat_completeness auto
termination
  by (relation "measure length") (auto split: list.splits)

fun expand_lf :: "bytes \<Rightarrow> bytes \<Rightarrow> bytes" where
  "expand_lf nl [] = []"
| "expand_lf nl (c # cs) = (if c = LF then nl @ expand_lf nl cs else c # expand_lf nl cs)"

definition seam :: "bytes \<Rightarrow> bytes \<Rightarrow> bool" where
  \<comment> \<open>joining the two strings makes one line ending of two\<close>
  "seam a b \<longleftrightarrow> a \<noteq> [] \<and> b \<noteq> [] \<and> last a = CR \<and> hd b = LF"

lemma seam_Nil [simp]: "\<not> seam [] b" "\<not> seam a []"
  by (simp_all add: seam_def)

lemma norm_lf_append: "\<not> seam a b \<Longrightarrow> norm_lf (a @ b) = norm_lf a @ norm_lf b"
proof (induction a rule: norm_lf.induct)
  case (2 c cs)
  show ?case
  proof (cases "c = CR")
    case True
    show ?thesis
    proof (cases cs)
      case Nil
      with True "2.prems" show ?thesis by (cases b) (auto simp: seam_def)
    next
      case (Cons d ds)
      with True "2.prems" have "\<not> seam (if d = LF then ds else cs) b"
        by (auto simp: seam_def split: if_splits)
      with 2 True Cons show ?thesis by (cases "d = LF") auto
    qed
  next
    case False
    with "2.prems" have "\<not> seam cs b" by (auto simp: seam_def)
    with 2 False show ?thesis by simp
  qed
qed simp

lemma norm_lf_Nil_iff: "norm_lf s = [] \<longleftrightarrow> s = []"
  by (cases s) auto

lemma norm_lf_id: "CR \<notin> set s \<Longrightarrow> norm_lf s = s"
  by (induction s) auto

lemma norm_lf_no_CR: "CR \<notin> set (norm_lf s)"
  by (induction s rule: norm_lf.induct) auto

lemma norm_lf_idem: "norm_lf (norm_lf s) = norm_lf s"
  by (rule norm_lf_id[OF norm_lf_no_CR])

lemma norm_lf_utf8: "utf8_valid s \<Longrightarrow> utf8_valid (norm_lf s)"
proof (induction s rule: length_induct)
  case (1 s)
  show ?case
  proof (cases s)
    case (Cons c cs)
    show ?thesis
    proof (cases "c = CR")
      case True
      let ?r = "case cs of d # ds \<Rightarrow> if d = LF then ds else cs | [] \<Rightarrow> []"
      have cs: "utf8_valid cs"
        using "1.prems" Cons True utf8_valid_ascii_Cons[of CR cs] by (simp add: bval_def)
      then have "utf8_valid ?r"
        using utf8_valid_ascii_Cons[of LF] by (auto simp: bval_def split: list.splits)
      moreover have "length ?r < length s" using Cons by (auto split: list.splits)
      ultimately have "utf8_valid (norm_lf ?r)" using 1 by blast
      then show ?thesis
        using Cons True utf8_valid_ascii_Cons[of LF "norm_lf ?r"] by (simp add: bval_def)
    next
      case False
      obtain w where w: "scalar_width s = Some w"
        using "1.prems" Cons utf8_valid_scalar_width by blast
      have noCR: "CR \<notin> set (take w s)"
      proof
        assume "CR \<in> set (take w s)"
        then have "hd s = CR" using scalar_ascii_tail[OF w, of CR] by (simp add: bval_def[of CR])
        with Cons False show False by simp
      qed
      have nonempty: "take w s \<noteq> []" using scalar_widthD(1,2)[OF w] Cons by auto
      then have "\<not> seam (take w s) (drop w s)"
        using noCR by (metis last_in_set seam_def)
      then have "norm_lf s = take w s @ norm_lf (drop w s)"
        using norm_lf_append[of "take w s" "drop w s"] norm_lf_id[OF noCR] by simp
      moreover have "utf8_valid (norm_lf (drop w s))"
        using 1 w scalar_widthD(1)[OF w] Cons by (simp add: utf8_valid_step)
      moreover have "single (take w s)"
        using scalar_width_take[OF w] scalar_widthD(2)[OF w] by (simp add: single_def)
      ultimately show ?thesis by (simp add: utf8_valid_append[OF single_valid])
    qed
  qed simp
qed

lemma norm_lf_expand:
  assumes "nl \<in> {[LF], [CR], [CR, LF]}" "CR \<notin> set s" "nl = [CR] \<Longrightarrow> \<not> seam nl rest"
  shows "norm_lf (expand_lf nl s) = s"
  using assms(2)
proof (induction s)
  case (Cons c cs)
  then have IH: "norm_lf (expand_lf nl cs) = cs" and c: "c \<noteq> CR" by auto
  show ?case
  proof (cases "c = LF")
    case True
    have "\<not> seam nl (expand_lf nl cs)"
    proof (cases cs)
      case (Cons d ds)
      with assms(1) show ?thesis by (auto simp: seam_def)
    qed simp
    with norm_lf_append[OF this] IH True assms(1) show ?thesis by auto
  qed (use IH c in simp)
qed simp

lemma expand_lf_append: "expand_lf nl (a @ b) = expand_lf nl a @ expand_lf nl b"
  by (induction a) auto

lemma expand_lf_id: "LF \<notin> set s \<Longrightarrow> expand_lf nl s = s"
  by (induction s) auto

lemma expand_lf_LF: "expand_lf [LF] s = s"
  by (induction s) auto

lemma expand_lf_utf8:
  assumes "utf8_valid s" "\<forall>c \<in> set nl. bval c < 128"
  shows "utf8_valid (expand_lf nl s)"
  using assms(1)
proof (induction s rule: utf8_induct)
  case (Step s w)
  have single: "single (take w s)"
    using scalar_width_take[OF Step(1)] scalar_widthD(2)[OF Step(1)] by (simp add: single_def)
  show ?case
  proof (cases "LF \<in> set (take w s)")
    case True
    then have "w = 1" "hd s = LF" using scalar_ascii_tail[OF Step(1), of LF] by (simp_all add: bval_def[of LF])
    moreover have "s \<noteq> []" using Step(1) by auto
    ultimately have "expand_lf nl s = nl @ expand_lf nl (drop w s)" by (cases s) auto
    then show ?thesis
      using Step.IH utf8_valid_ascii[OF assms(2)] by (simp add: utf8_valid_append)
  next
    case False
    have "expand_lf nl (take w s @ drop w s) = take w s @ expand_lf nl (drop w s)"
      unfolding expand_lf_append by (simp add: expand_lf_id[OF False])
    then have "expand_lf nl s = take w s @ expand_lf nl (drop w s)" by simp
    then show ?thesis using Step.IH single_valid[OF single] by (simp add: utf8_valid_append)
  qed
qed simp

section \<open>The loops compute the reference\<close>

lemma norm_lf_CR: "norm_lf (a @ CR # b) = norm_lf a @ norm_lf (CR # b)"
  by (rule norm_lf_append) (simp add: seam_def)

lemma normalize_loop_eq:
  assumes "memlib_ok M" "scan \<le> length inp" "length inp - scan < fuel"
  shows "normalize_loop M inp fuel scan scan acc = Some (acc @ norm_lf (drop scan inp))"
  using assms(2,3)
proof (induction fuel arbitrary: scan acc)
  case (Suc fuel)
  let ?s = "drop scan inp"
  show ?case
  proof (cases "index_of CR ?s")
    case None
    then have "norm_lf ?s = ?s" by (simp add: index_of_None_iff norm_lf_id)
    with None Suc.prems show ?thesis by (simp add: memlib_memchr[OF assms(1)])
  next
    case (Some rel)
    from index_of_SomeD[OF Some] have rel: "rel < length ?s" "?s ! rel = CR" "CR \<notin> set (take rel ?s)"
      by simp_all
    let ?cr = "scan + rel"
    let ?scan2 = "if ?cr + 1 < length inp \<and> inp ! (?cr + 1) = LF then ?cr + 1 + 1 else ?cr + 1"
    have lt: "?cr < length inp" using rel(1) by simp
    have s: "?s = take rel ?s @ CR # drop (Suc ?cr) inp"
      using id_take_nth_drop[OF rel(1)] rel(2) by (simp add: add.commute)
    have tail: "norm_lf (CR # drop (Suc ?cr) inp) = LF # norm_lf (drop ?scan2 inp)"
      by (cases "Suc ?cr < length inp") (auto simp: Cons_nth_drop_Suc[symmetric])
    have "norm_lf ?s = norm_lf (take rel ?s) @ norm_lf (CR # drop (Suc ?cr) inp)"
      using norm_lf_CR[of "take rel ?s" "drop (Suc ?cr) inp"] s by simp
    then have "norm_lf ?s = take rel ?s @ LF # norm_lf (drop ?scan2 inp)"
      unfolding tail norm_lf_id[OF rel(3)] .
    moreover have "normalize_loop M inp fuel ?scan2 ?scan2 (acc @ take rel ?s @ [LF]) =
        Some ((acc @ take rel ?s @ [LF]) @ norm_lf (drop ?scan2 inp))"
      using Suc.prems lt by (intro Suc.IH) auto
    ultimately show ?thesis
      using Suc.prems Some
      by (cases "Suc ?cr < length inp \<and> inp ! Suc ?cr = LF")
        (simp_all add: memlib_memchr[OF assms(1)] Let_def del: de_Morgan_conj)
  qed
qed simp

lemma normalize_newlines_to_lf_eq:
  assumes "memlib_ok M"
  shows "normalize_newlines_to_lf M s = Some (norm_lf s)"
  using normalize_loop_eq[OF assms, of 0 s "length s + 1" "[]"]
  by (simp add: normalize_newlines_to_lf_def memlib_memchr[OF assms] index_of_None_iff norm_lf_id)

lemma append_replacement_loop_eq:
  assumes "cpy \<le> length s" "is = filter (\<lambda>i. s ! i = LF) [cpy..<length s]"
  shows "append_replacement_loop s nl is cpy out = out @ expand_lf nl (drop cpy s)"
  using assms
proof (induction "is" arbitrary: cpy out)
  case Nil
  have "LF \<notin> set (drop cpy s)"
  proof
    assume "LF \<in> set (drop cpy s)"
    then obtain i where "i < length s - cpy" "s ! (cpy + i) = LF" by (auto simp: in_set_conv_nth)
    then have "cpy + i \<in> set (filter (\<lambda>i. s ! i = LF) [cpy..<length s])" by auto
    with Nil.prems(2) show False by (metis empty_iff empty_set)
  qed
  then show ?case by (simp add: expand_lf_id)
next
  case (Cons i "is")
  from Cons.prems(2) have flt: "filter (\<lambda>i. s ! i = LF) [cpy..<length s] = i # is" by simp
  then obtain us vs where uv: "[cpy..<length s] = us @ i # vs"
      "\<forall>u \<in> set us. s ! u \<noteq> LF" "s ! i = LF" "is = filter (\<lambda>i. s ! i = LF) vs"
    unfolding filter_eq_Cons_iff by blast
  have "i \<in> set [cpy..<length s]" unfolding uv(1) by simp
  then have i: "cpy \<le> i" "i < length s" by simp_all
  have len: "length us < length s - cpy"
    using arg_cong[OF uv(1), of length] by simp
  have "i = [cpy..<length s] ! length us" unfolding uv(1) by (simp add: nth_append)
  then have ius: "i = cpy + length us" using len by simp
  have "us = take (length us) [cpy..<length s]" unfolding uv(1) by simp
  then have us: "us = [cpy..<i]" using len ius by simp
  have "vs = drop (Suc (length us)) [cpy..<length s]" unfolding uv(1) by simp
  then have vs: "vs = [Suc i..<length s]" using ius by simp
  have "LF \<notin> set (take (i - cpy) (drop cpy s))"
  proof
    assume "LF \<in> set (take (i - cpy) (drop cpy s))"
    then obtain j where "j < i - cpy" "s ! (cpy + j) = LF" using i by (auto simp: in_set_conv_nth)
    then show False using uv(2) us by auto
  qed
  moreover have "drop cpy s = take (i - cpy) (drop cpy s) @ LF # drop (Suc i) s"
    using id_take_nth_drop[of "i - cpy" "drop cpy s"] i uv(3) by simp
  ultimately have "expand_lf nl (drop cpy s) =
      take (i - cpy) (drop cpy s) @ nl @ expand_lf nl (drop (Suc i) s)"
    using expand_lf_append[of nl "take (i - cpy) (drop cpy s)" "LF # drop (Suc i) s"]
    by (simp add: expand_lf_id)
  moreover have "append_replacement_loop s nl is (Suc i) (out @ take (i - cpy) (drop cpy s) @ nl) =
      (out @ take (i - cpy) (drop cpy s) @ nl) @ expand_lf nl (drop (Suc i) s)"
    using i uv(4) vs by (intro Cons.IH) auto
  ultimately show ?case by simp
qed

lemma append_replacement_bytes_eq:
  assumes "memlib_ok M"
  shows "append_replacement_bytes M out s k = out @ expand_lf (nk_as_bytes k) s"
  using append_replacement_loop_eq[of 0 s "memchr_iter M LF s" "nk_as_bytes k" out]
  by (cases k)
    (simp_all add: append_replacement_bytes_def expand_lf_LF memlib_memchr_iter[OF assms])

lemma length_filter_nth: "length (filter (\<lambda>i. s ! i = x) [0..<length s]) = count_list s x"
proof (induction s rule: rev_induct)
  case (snoc y ys)
  have "filter (\<lambda>i. (ys @ [y]) ! i = x) [0..<length ys] = filter (\<lambda>i. ys ! i = x) [0..<length ys]"
    by (rule filter_cong) (auto simp: nth_append)
  with snoc show ?case by simp
qed simp

lemma length_expand_lf:
  "length (expand_lf nl s) + count_list s LF = length s + length nl * count_list s LF"
  by (induction s) auto

lemma replacement_byte_len_eq:
  assumes "memlib_ok M"
  shows "replacement_byte_len M s k = length (expand_lf (nk_as_bytes k) s)"
  using length_expand_lf[of "nk_as_bytes k" s]
  by (cases k)
    (simp_all add: replacement_byte_len_def memlib_memchr_iter[OF assms] length_filter_nth)

end
