(* ===== verification/CanonicalView.thy ===== *)
theory CanonicalView
  imports Newlines
begin

text \<open>
  The contract between the file model and the edit that uses it: an offset table translates
  positions of the canonical view into positions of the file (\<open>locale offset_map\<close>).  The client
  lemmas, proved once inside the locale, say what splicing bytes between two translated positions
  does to the view.  The interpretation at the end discharges the laws for \<open>byte_offset\<close>.
\<close>

section \<open>The interface\<close>

locale offset_map =
  fixes view :: "bytes \<Rightarrow> bytes"
    and lookup :: "bytes \<Rightarrow> nat \<Rightarrow> nat option"
  assumes view_valid: "utf8_valid (view fl)"
    and lookup_total: "view fl = p @ q \<Longrightarrow> utf8_valid p \<Longrightarrow> \<exists>f. lookup fl (length p) = Some f"
    and lookup_range: "lookup fl c = Some f \<Longrightarrow> c \<le> length (view fl) \<and> f \<le> length fl"
    and lookup_mono: "lookup fl c = Some f \<Longrightarrow> lookup fl d = Some g \<Longrightarrow> c \<le> d \<Longrightarrow> f \<le> g"
    and lookup_no_seam: "lookup fl c = Some f \<Longrightarrow> \<not> seam (take f fl) (drop f fl)"
    and lookup_cut: "utf8_valid fl \<Longrightarrow> lookup fl c = Some f \<Longrightarrow>
      norm_lf (take f fl) = take c (view fl) \<and> norm_lf (drop f fl) = drop c (view fl)
      \<and> utf8_valid (take f fl) \<and> utf8_valid (drop f fl)"
begin

text \<open>A valid string found in the view starts and ends at positions the table knows.\<close>

lemma match_has_offsets:
  assumes "view fl = p @ n @ q" "utf8_valid n" "n \<noteq> []"
  shows "\<exists>f g. lookup fl (length p) = Some f \<and> lookup fl (length p + length n) = Some g \<and> f \<le> g"
proof -
  have valid: "utf8_valid p"
    using utf8_valid_infix[of p n q] view_valid[of fl] assms by simp
  then obtain f where f: "lookup fl (length p) = Some f"
    using lookup_total assms(1) by blast
  have "utf8_valid (p @ n)" using valid assms(2) by (simp add: utf8_valid_append)
  then obtain g where g: "lookup fl (length (p @ n)) = Some g"
    using lookup_total[of fl "p @ n" q] assms(1) by auto
  have "f \<le> g" by (rule lookup_mono[OF f g]) simp
  with f g show ?thesis by auto
qed

lemma splice_view:
  assumes valid: "utf8_valid fl"
    and f: "lookup fl c = Some f" and g: "lookup fl d = Some g"
    and no_seam: "\<not> seam (take f fl) (r @ drop g fl)" "\<not> seam r (drop g fl)"
  shows "norm_lf (take f fl @ r @ drop g fl) = take c (view fl) @ norm_lf r @ drop d (view fl)"
  using norm_lf_append[OF no_seam(1)] norm_lf_append[OF no_seam(2)]
    lookup_cut[OF valid f] lookup_cut[OF valid g] by simp

lemma splice_valid:
  assumes "utf8_valid fl" "lookup fl c = Some f" "lookup fl d = Some g" "utf8_valid r"
  shows "utf8_valid (take f fl @ r @ drop g fl)"
  using lookup_cut[OF assms(1,2)] lookup_cut[OF assms(1,3)] assms(4)
  by (simp add: utf8_valid_append)

lemma lookup_norm_length:
  assumes "utf8_valid fl"
  shows "length (view fl) \<le> length fl"
proof -
  obtain f where "lookup fl (length (view fl)) = Some f"
    using lookup_total[of fl "view fl" "[]"] view_valid by auto
  from lookup_cut[OF assms this] have "norm_lf (take f fl) = view fl" by simp
  moreover have "length (norm_lf s) \<le> length s" for s
  proof (induction s rule: norm_lf.induct)
    case (2 c cs)
    then show ?case by (cases cs) auto
  qed simp
  ultimately show ?thesis by (metis length_take min.boundedE)
qed

end

section \<open>No token boundary cuts a line ending\<close>

fun lines_wf :: "(bytes \<times> newline_kind) list \<Rightarrow> bool" where
  "lines_wf [] \<longleftrightarrow> True"
| "lines_wf ((c, k) # ls) \<longleftrightarrow>
     (\<forall>b \<in> set c. \<not> is_nl b) \<and> (k = NkNone \<longrightarrow> ls = [])
     \<and> (k = NkCr \<longrightarrow> \<not> starts_with [LF] (ftext (file_toks ls))) \<and> lines_wf ls"

lemma newline_at_NkNone:
  "newline_at r = (NkNone, rest) \<Longrightarrow> r = [] \<or> is_nl (hd r) \<Longrightarrow> rest = []"
  by (cases r) (auto simp: is_nl_def split: if_splits list.splits)

lemma newline_at_NkCr: "newline_at r = (NkCr, rest) \<Longrightarrow> \<not> starts_with [LF] rest"
  by (cases r) (auto simp: starts_with_iff split: if_splits list.splits)

lemma ftext_lines_of: "ftext (file_toks (lines_of bs)) = bs"
  by (simp add: ftext_file_toks concat_lines_of)

lemma ftext_file_lines: "ftext (file_toks (file_lines bs)) = bs"
  by (simp add: file_lines_def ftext_lines_of ftext_line_toks ftext_nl_toks nl_bytes_def)

lemma lines_wf_lines_of: "lines_wf (lines_of bs)"
proof (induction bs rule: lines_of_induct)
  case (Line bs c k rest)
  have "\<forall>b \<in> set c. \<not> is_nl b" unfolding Line.hyps(2) by (blast dest: set_takeWhileD)
  moreover have "k = NkNone \<longrightarrow> rest = []"
    using newline_at_NkNone Line.hyps(3) dropWhile_hd_nl by blast
  moreover have "k = NkCr \<longrightarrow> \<not> starts_with [LF] rest"
    using newline_at_NkCr Line.hyps(3) by blast
  ultimately show ?case using Line.IH unfolding Line.hyps(5) by (auto simp: ftext_lines_of)
qed simp

lemma lines_wf_file_lines: "lines_wf (file_lines bs)"
  by (simp add: file_lines_def lines_wf_lines_of)

lemma toks_no_seam:
  assumes "lines_wf ls" "file_toks ls = a @ b"
  shows "\<not> seam (ftext a) (ftext b)"
  using assms
proof (induction ls arbitrary: a b)
  case (Cons ck ls)
  obtain c k where ck: "ck = (c, k)" by (cases ck)
  from Cons.prems(2) ck have ab: "(line_toks c @ nl_toks k) @ file_toks ls = a @ b" by simp
  from ab consider
      (inside) us where "line_toks c @ nl_toks k = a @ us" "us \<noteq> []"
    | (beyond) us where "a = (line_toks c @ nl_toks k) @ us" "file_toks ls = us @ b"
  proof -
    obtain us where "line_toks c @ nl_toks k = a @ us \<and> us @ file_toks ls = b
        \<or> (line_toks c @ nl_toks k) @ us = a \<and> file_toks ls = us @ b"
      using ab unfolding append_eq_append_conv2 by blast
    then show ?thesis using inside[of us] beyond[of us] beyond[of "[]"] by (cases us) auto
  qed
  then show ?case
  proof cases
    case inside
    have "CR \<notin> set (ftext a)"
    proof -
      have "a = take (length a) (line_toks c @ nl_toks k)" using inside(1) by simp
      moreover have "length a \<le> length (line_toks c)"
      proof -
        have "length (line_toks c @ nl_toks k) = length (a @ us)" unfolding inside(1) ..
        then have "length (line_toks c) + length (nl_toks k) = length a + length us" by simp
        moreover have "1 \<le> length us" using inside(2) by (cases us) auto
        moreover have "length (nl_toks k) \<le> 1" by (simp add: nl_toks_def)
        ultimately show ?thesis by linarith
      qed
      ultimately have "a = take (length a) (line_toks c)" by simp
      then have "set (ftext a) \<subseteq> set (ftext (line_toks c))"
        by (metis append_take_drop_id set_append sup_ge1 text_simps(5))
      then show ?thesis using Cons.prems(1) ck by (auto simp: ftext_line_toks is_nl_def)
    qed
    then show ?thesis by (metis last_in_set seam_def)
  next
    case beyond
    show ?thesis
    proof (cases "ftext us = []")
      case False
      then have "seam (ftext a) (ftext b) \<longleftrightarrow> seam (ftext us) (ftext b)"
        using beyond(1) by (simp add: seam_def)
      with Cons.IH[OF _ beyond(2)] Cons.prems(1) ck show ?thesis by simp
    next
      case True
      then have a: "ftext a = c @ nl_bytes k"
        using beyond(1) by (simp add: ftext_line_toks ftext_nl_toks)
      have b: "ftext b = ftext (file_toks ls)" using beyond(2) True by simp
      show ?thesis
      proof
        assume s: "seam (ftext a) (ftext b)"
        then have "k \<noteq> NkCr"
          using Cons.prems(1) ck b by (auto simp: seam_def starts_with_iff neq_Nil_conv)
        moreover have "k \<noteq> NkNone"
          using Cons.prems(1) ck b s by (auto simp: seam_def)
        ultimately have "last (c @ nl_bytes k) = LF" by (cases k) (auto simp: nl_bytes_def)
        with s a show False by (simp add: seam_def)
      qed
    qed
  qed
qed simp

section \<open>Cuts of a valid file\<close>

lemma lines_of_valid:
  "utf8_valid bs \<Longrightarrow> (c, k) \<in> set (lines_of bs) \<Longrightarrow> utf8_valid c"
proof (induction bs rule: lines_of_induct)
  case (Line bs c' k' rest)
  have parts: "utf8_valid c' \<and> utf8_valid rest"
  proof (cases k')
    case NkNone
    then have "rest = []" using newline_at_NkNone Line.hyps(3) dropWhile_hd_nl by blast
    then show ?thesis using Line.prems(1) Line.hyps(4) NkNone by (simp add: nl_bytes_def)
  next
    case NkLf
    then have "bs = c' @ LF # rest" using Line.hyps(4) by (simp add: nl_bytes_def)
    with Line.prems(1) show ?thesis using utf8_valid_ascii_split[of c' LF rest]
      by (simp add: bval_def)
  next
    case NkCr
    then have "bs = c' @ CR # rest" using Line.hyps(4) by (simp add: nl_bytes_def)
    with Line.prems(1) show ?thesis using utf8_valid_ascii_split[of c' CR rest]
      by (simp add: bval_def)
  next
    case NkCrLf
    then have "bs = c' @ CR # LF # rest" using Line.hyps(4) by (simp add: nl_bytes_def)
    with Line.prems(1) show ?thesis
      using utf8_valid_ascii_split[of c' CR "LF # rest"] utf8_valid_ascii_Cons[of LF rest]
      by (simp add: bval_def)
  qed
  from Line.prems(2) consider "c = c'" | "(c, k) \<in> set (lines_of rest)"
    unfolding Line.hyps(5) by auto
  then show ?case using parts Line.IH by cases auto
qed simp

lemma line_toks_norm:
  "utf8_valid c \<Longrightarrow> \<forall>b \<in> set c. \<not> is_nl b \<Longrightarrow> t \<in> set (line_toks c) \<Longrightarrow>
   norm_lf (fst t) = snd t \<and> utf8_valid (fst t)"
proof -
  assume c: "utf8_valid c" "\<forall>b \<in> set c. \<not> is_nl b" "t \<in> set (line_toks c)"
  then obtain x where x: "t = (x, x)" "x \<in> set (chars_of c)" by (auto simp: line_toks_def)
  have "set x \<subseteq> set (concat (chars_of c))" using x(2) by auto
  with c have "CR \<notin> set x" by (auto simp: concat_chars_of is_nl_def)
  then show ?thesis using x chars_of_singles[OF c(1)] single_valid by (simp add: norm_lf_id)
qed

lemma nl_toks_norm: "t \<in> set (nl_toks k) \<Longrightarrow> norm_lf (fst t) = snd t \<and> utf8_valid (fst t)"
  by (cases k) (auto simp: nl_toks_def utf8_valid_ascii bval_def)

lemma file_toks_norm:
  assumes "lines_wf ls" "\<forall>(c, k) \<in> set ls. utf8_valid c"
  shows "\<forall>t \<in> set (file_toks ls). norm_lf (fst t) = snd t \<and> utf8_valid (fst t)"
  using assms
proof (induction ls)
  case (Cons ck ls)
  obtain c k where ck: "ck = (c, k)" by (cases ck)
  with Cons line_toks_norm[of c] nl_toks_norm[of _ k] show ?case by auto
qed simp

lemma file_toks_fst: "t \<in> set (file_toks ls) \<Longrightarrow> fst t \<noteq> []"
proof (induction ls)
  case (Cons ck ls)
  obtain c k where ck: "ck = (c, k)" by (cases ck)
  have "nk_as_bytes k \<noteq> []" by (cases k) auto
  with Cons ck line_toks_fst[of t c] show ?case by (auto simp: nl_toks_def split: if_splits)
qed simp

lemma file_toks_single: "t \<in> set (file_toks ls) \<Longrightarrow> single (snd t)"
proof (induction ls)
  case (Cons ck ls)
  obtain c k where ck: "ck = (c, k)" by (cases ck)
  have "single [LF]" by (simp add: single_def lead_width_def bval_def)
  with Cons ck line_toks_single[of t c] show ?case by (auto simp: nl_toks_def split: if_splits)
qed simp

lemma norm_toks:
  assumes "\<forall>t \<in> set ts. norm_lf (fst t) = snd t" "\<And>a b. ts = a @ b \<Longrightarrow> \<not> seam (ftext a) (ftext b)"
  shows "norm_lf (ftext ts) = ctext ts"
  using assms
proof (induction ts)
  case (Cons t ts)
  have "\<not> seam (fst t) (ftext ts)" using Cons.prems(2)[of "[t]" ts] by simp
  moreover have "\<not> seam (ftext a) (ftext b)" if "ts = a @ b" for a b
    using Cons.prems(2)[of "t # a" b] that by (auto simp: seam_def)
  ultimately show ?case using Cons by (simp add: norm_lf_append)
qed simp

lemma valid_toks: "\<forall>t \<in> set ts. utf8_valid (fst t) \<Longrightarrow> utf8_valid (ftext ts)"
  by (induction ts) (auto simp: utf8_valid_append)

lemma ctext_valid: "utf8_valid (ctext (file_toks ls))"
  using singles_chars[of "map snd (file_toks ls)"] file_toks_single by (auto simp: ctext_def)

lemma toks_prefix_cut:
  assumes "\<forall>t \<in> set ts. single (snd t)" "ctext ts = p @ q" "utf8_valid p"
  shows "\<exists>a b. ts = a @ b \<and> ctext a = p"
  using assms
proof (induction ts arbitrary: p)
  case Nil
  then show ?case by simp
next
  case (Cons t ts)
  show ?case
  proof (cases "p = []")
    case True
    then have "t # ts = [] @ (t # ts) \<and> ctext [] = p" by simp
    then show ?thesis by blast
  next
    case False
    then obtain w where w: "scalar_width p = Some w" using Cons.prems(3) utf8_valid_scalar_width by blast
    have "scalar_width (snd t @ ctext ts) = Some (length (snd t))"
      using Cons.prems(1) by (intro scalar_width_append) (simp add: single_def)
    moreover have "scalar_width (p @ q) = Some w" using w by (rule scalar_width_append)
    moreover have pq: "snd t @ ctext ts = p @ q" using Cons.prems(2) by simp
    ultimately have "w = length (snd t)" by simp
    moreover have "w \<le> length p" using scalar_widthD(2)[OF w] .
    ultimately obtain p' where p': "p = snd t @ p'" "ctext ts = p' @ q"
      using pq by (auto simp: append_eq_append_conv_if)
        (metis append_take_drop_id)
    have "utf8_valid p'"
      using Cons.prems(1,3) p'(1) utf8_valid_append[of "snd t" p'] single_valid by simp
    then obtain a b where "ts = a @ b" "ctext a = p'"
      using Cons.IH[OF _ p'(2)] Cons.prems(1) by auto
    then have "t # ts = (t # a) @ b \<and> ctext (t # a) = p" using p' by simp
    then show ?thesis by blast
  qed
qed

section \<open>The file model provides the interface\<close>

definition canonical_of :: "bytes \<Rightarrow> canonical_data" where
  \<comment> \<open>the canonical view every successful construction returns\<close>
  "canonical_of bs = \<lparr> cd_text = ctext (file_toks (file_lines bs)),
                       line_views = line_views_from 0 (file_lines bs),
                       boundaries = bounds_of (file_toks (file_lines bs)) \<rparr>"

lemma byte_offset_canonical_of:
  "byte_offset (canonical_of bs) c = Some f \<longleftrightarrow>
   (\<exists>a b. file_toks (file_lines bs) = a @ b \<and> c = clen a \<and> f = flen a)"
  by (rule byte_offset_bounds)
    (auto simp: canonical_of_def dest: file_toks_single single_nonempty)

lemma cut_facts:
  assumes "byte_offset (canonical_of bs) c = Some f"
  obtains a b where "file_toks (file_lines bs) = a @ b"
    "take f bs = ftext a" "drop f bs = ftext b"
    "take c (cd_text (canonical_of bs)) = ctext a" "drop c (cd_text (canonical_of bs)) = ctext b"
    "c = clen a" "f = flen a"
proof -
  obtain a b where ab: "file_toks (file_lines bs) = a @ b" "c = clen a" "f = flen a"
    using assms byte_offset_canonical_of by blast
  have bs: "bs = ftext a @ ftext b" using ftext_file_lines[of bs] ab(1) by simp
  have "take f bs = ftext a" "drop f bs = ftext b"
    by (simp_all add: bs ab(3) length_text[symmetric])
  moreover have "take c (cd_text (canonical_of bs)) = ctext a"
      "drop c (cd_text (canonical_of bs)) = ctext b"
    by (simp_all add: canonical_of_def ab(1,2) length_text[symmetric])
  ultimately show ?thesis using that ab by blast
qed

lemma byte_offset_strict:
  assumes "byte_offset (canonical_of bs) c = Some f" "byte_offset (canonical_of bs) d = Some g" "c < d"
  shows "f < g"
proof -
  obtain a b where ab: "file_toks (file_lines bs) = a @ b" "c = clen a" "f = flen a"
    using assms(1) byte_offset_canonical_of by blast
  obtain a' b' where ab': "file_toks (file_lines bs) = a' @ b'" "d = clen a'" "g = flen a'"
    using assms(2) byte_offset_canonical_of by blast
  from ab(1) ab'(1) obtain us where "(a = a' @ us) \<or> (a' = a @ us)"
    by (metis append_eq_append_conv2)
  then consider us where "a = a' @ us" | us where "a' = a @ us" "us \<noteq> []" using ab ab' assms(3) by force
  then show ?thesis
  proof cases
    case 1
    then show ?thesis using assms(3) ab(2) ab'(2) by simp
  next
    case (2 us)
    obtain t ts where us: "us = t # ts" using 2(2) by (cases us) auto
    then have "t \<in> set (file_toks (file_lines bs))" unfolding ab'(1) 2(1) by simp
    then have "fst t \<noteq> []" by (rule file_toks_fst)
    then have "0 < flen us" by (simp add: us)
    then show ?thesis using ab(3) ab'(3) 2(1) by simp
  qed
qed

lemma canonical_view_norm:
  assumes "utf8_valid bs"
  shows "cd_text (canonical_of bs) = norm_lf bs"
proof -
  have ok: "\<forall>t \<in> set (file_toks (file_lines bs)). norm_lf (fst t) = snd t \<and> utf8_valid (fst t)"
    using lines_of_valid[OF assms]
    by (intro file_toks_norm lines_wf_file_lines) (auto simp: file_lines_def)
  then show ?thesis
    using norm_toks[of "file_toks (file_lines bs)"] toks_no_seam[OF lines_wf_file_lines]
    by (auto simp: canonical_of_def ftext_file_lines)
qed

interpretation om: offset_map "\<lambda>bs. cd_text (canonical_of bs)" "\<lambda>bs. byte_offset (canonical_of bs)"
proof
  show "utf8_valid (cd_text (canonical_of fl))" for fl
    by (simp add: canonical_of_def ctext_valid)
next
  fix fl p q
  assume "cd_text (canonical_of fl) = p @ q" "utf8_valid p"
  then obtain a b where "file_toks (file_lines fl) = a @ b" "ctext a = p"
    using toks_prefix_cut[of "file_toks (file_lines fl)" p q] file_toks_single
    by (auto simp: canonical_of_def)
  then show "\<exists>f. byte_offset (canonical_of fl) (length p) = Some f"
    by (auto simp: byte_offset_canonical_of length_text)
next
  fix fl c f
  assume "byte_offset (canonical_of fl) c = Some f"
  then obtain a b where "file_toks (file_lines fl) = a @ b" "c = clen a" "f = flen a"
    by (rule cut_facts)
  moreover have "length fl = flen (file_toks (file_lines fl))"
    using ftext_file_lines[of fl] by (simp add: length_text[symmetric])
  ultimately show "c \<le> length (cd_text (canonical_of fl)) \<and> f \<le> length fl"
    by (simp add: canonical_of_def length_text)
next
  fix fl c f d g
  assume c: "byte_offset (canonical_of fl) c = Some f"
    and d: "byte_offset (canonical_of fl) d = Some g" and le: "c \<le> d"
  obtain a b where a: "file_toks (file_lines fl) = a @ b" "c = clen a" "f = flen a"
    using c by (rule cut_facts)
  obtain a' b' where a': "file_toks (file_lines fl) = a' @ b'" "d = clen a'" "g = flen a'"
    using d by (rule cut_facts)
  have "a @ b = a' @ b'" using a(1) a'(1) by simp
  then obtain us where "a = a' @ us \<or> a' = a @ us" by (auto simp: append_eq_append_conv2)
  then show "f \<le> g"
  proof
    assume us: "a = a' @ us"
    then have "clen us = 0" using le a(2) a'(2) by simp
    moreover have "snd t \<noteq> []" if "t \<in> set us" for t
      using that us a(1) file_toks_single single_nonempty by (metis Un_iff set_append)
    ultimately have "us = []" by (cases us) auto
    with us a(3) a'(3) show ?thesis by simp
  qed (use a(3) a'(3) in simp)
next
  fix fl c f
  assume "byte_offset (canonical_of fl) c = Some f"
  then obtain a b where "file_toks (file_lines fl) = a @ b"
      "take f fl = ftext a" "drop f fl = ftext b"
    by (rule cut_facts)
  then show "\<not> seam (take f fl) (drop f fl)"
    using toks_no_seam[OF lines_wf_file_lines] by metis
next
  fix fl c f
  assume valid: "utf8_valid fl" and c: "byte_offset (canonical_of fl) c = Some f"
  obtain a b where ab: "file_toks (file_lines fl) = a @ b"
      "take f fl = ftext a" "drop f fl = ftext b"
      "take c (cd_text (canonical_of fl)) = ctext a" "drop c (cd_text (canonical_of fl)) = ctext b"
    using c by (rule cut_facts)
  have ok: "\<forall>t \<in> set (a @ b). norm_lf (fst t) = snd t \<and> utf8_valid (fst t)"
    unfolding ab(1)[symmetric] using lines_of_valid[OF valid]
    by (intro file_toks_norm lines_wf_file_lines) (auto simp: file_lines_def)
  have no_seam: "\<not> seam (ftext x) (ftext y)" if "a @ b = x @ y" for x y
    using toks_no_seam[OF lines_wf_file_lines] ab(1) that by metis
  have "norm_lf (ftext a) = ctext a"
  proof (rule norm_toks)
    fix x y assume "a = x @ y"
    then have "\<not> seam (ftext x) (ftext (y @ b))" by (intro no_seam) simp
    then show "\<not> seam (ftext x) (ftext y)" by (auto simp: seam_def)
  qed (use ok in auto)
  moreover have "norm_lf (ftext b) = ctext b"
  proof (rule norm_toks)
    fix x y assume "b = x @ y"
    then have "\<not> seam (ftext (a @ x)) (ftext y)" by (intro no_seam) simp
    then show "\<not> seam (ftext x) (ftext y)" by (auto simp: seam_def)
  qed (use ok in auto)
  ultimately show "norm_lf (take f fl) = take c (cd_text (canonical_of fl))
      \<and> norm_lf (drop f fl) = drop c (cd_text (canonical_of fl))
      \<and> utf8_valid (take f fl) \<and> utf8_valid (drop f fl)"
    using ab(2-) ok valid_toks by auto
qed

end
