(* ===== verification/SnippetMatch.thy ===== *)
theory SnippetMatch
  imports CanonicalView
begin

text \<open>
  \<^verbatim>\<open>tools-mcp-local/src/smart_file_edit/matching.rs\<close>: finding a snippet in the canonical view,
  optionally inside a range of lines, and suggesting near misses when it is not there.
\<close>

section \<open>The code\<close>

record match_hint =
  start_line :: "nat option"
  end_line :: "nat option"

definition canonical_range_for_lines ::
  "line_view list \<Rightarrow> nat \<Rightarrow> nat \<Rightarrow> edit_error + nat \<times> nat" where
  "canonical_range_for_lines views sl el =
     (if sl = 0 \<or> el < sl then Inl (Err ''invalid line range'')
      else if sl > length views \<or> el > length views then Inl (Err ''line range exceeds total lines'')
      else
        let s = canonical_start (views ! (sl - 1));
            e = canonical_end (views ! (el - 1));
            e' = (if has_trailing_newline (views ! (el - 1)) then e + 1 else e)
        in Inr (s, e'))"

text \<open>The slice \<open>haystack[start..end]\<close> panics when it is out of range.\<close>

definition slice :: "'a list \<Rightarrow> nat \<Rightarrow> nat \<Rightarrow> edit_error + 'a list" where
  "slice xs s e = (if s \<le> e \<and> e \<le> length xs then Inr (take (e - s) (drop s xs)) else Inl Panic)"

definition compute_match_range ::
  "memlib \<Rightarrow> canonical_data \<Rightarrow> match_hint option \<Rightarrow> bytes \<Rightarrow> edit_error + nat option" where
  "compute_match_range M cd hint needle =
     (if needle = [] then Inr None
      else case hint of
        Some h \<Rightarrow>
          let total = length (line_views cd);
              sl = (case start_line h of Some n \<Rightarrow> n | None \<Rightarrow> 1);
              el = (case end_line h of Some n \<Rightarrow> n | None \<Rightarrow> total)
          in if sl = 0 \<or> el < sl \<or> sl > total \<or> el > total
             then Inl (Err ''match_hint lines are invalid for current file'')
             else bindE (canonical_range_for_lines (line_views cd) sl el) (\<lambda>(s, e).
                  bindE (slice (cd_text cd) s e) (\<lambda>hay.
                    Inr (map_option (\<lambda>rel. s + rel) (mem_find M needle hay))))
      | None \<Rightarrow> Inr (mem_find M needle (cd_text cd)))"

definition logical_snippet_lines :: "bytes \<Rightarrow> bytes list" where
  "logical_snippet_lines s =
     (let parts = split_byte LF s;
          parts1 = (if ends_with [LF] s \<and> parts \<noteq> [] then butlast parts else parts)
      in if parts1 = [] then [[]] else parts1)"

text \<open>The similarity is the quotient of the two numbers (an \<open>f64\<close> in the code): how many of the
  snippet's lines agree with the file's lines from \<open>start_idx\<close> on, out of how many.\<close>

fun count_line_matches :: "line_view list \<Rightarrow> nat \<Rightarrow> bytes list \<Rightarrow> nat" where
  "count_line_matches views idx [] = 0"
| "count_line_matches views idx (n # ns) =
     (if idx \<ge> length views then 0
      else (if lv_text (views ! idx) = n then 1 else 0) + count_line_matches views (idx + 1) ns)"

definition compute_line_similarity :: "line_view list \<Rightarrow> nat \<Rightarrow> bytes list \<Rightarrow> nat \<times> nat" where
  "compute_line_similarity views start_idx needle_lines =
     (if needle_lines = [] then (0, 1)
      else (count_line_matches views start_idx needle_lines, length needle_lines))"

record candidate =
  cand_start :: nat
  cand_end :: nat
  cand_similarity :: "nat \<times> nat"

fun collect_suggestions ::
  "canonical_data \<Rightarrow> bytes list \<Rightarrow> nat \<Rightarrow> nat list \<Rightarrow> (nat \<times> (nat \<times> nat)) list
   \<Rightarrow> (nat \<times> (nat \<times> nat)) list" where
  "collect_suggestions cd lns limit [] acc = acc"
| "collect_suggestions cd lns limit (a # as) acc =
     (let line_idx = (case line_index_for_offset cd a of Some i \<Rightarrow> i | None \<Rightarrow> 0) in
      if line_idx \<in> set (map fst acc) then collect_suggestions cd lns limit as acc
      else
        let acc1 = acc @ [(line_idx, compute_line_similarity (line_views cd) line_idx lns)] in
        if length acc1 \<ge> limit then acc1 else collect_suggestions cd lns limit as acc1)"

definition suggest_candidates ::
  "memlib \<Rightarrow> file_model \<Rightarrow> bytes \<Rightarrow> nat \<Rightarrow> candidate list" where
  "suggest_candidates M fm needle limit =
     (if limit = 0 then []
      else
        let lns = logical_snippet_lines needle in
        if lns = [] then []
        else
          let target = trim (case find (\<lambda>l. trim l \<noteq> []) lns of Some l \<Rightarrow> l | None \<Rightarrow> lns ! 0) in
          if target = [] then []
          else
            let cd = fm_canonical fm;
                found = collect_suggestions cd lns limit (mem_find_iter M target (cd_text cd)) []
            in map (\<lambda>(idx, sim).
                 \<lparr> cand_start = idx + 1, cand_end = min (idx + length lns) (length (line_views cd)),
                   cand_similarity = sim \<rparr>) found)"

section \<open>Line views\<close>

lemma length_line_views_from [simp]: "length (line_views_from o1 ls) = length ls"
  by (induction ls arbitrary: o1) (auto simp: Let_def)

lemma line_views_nonempty: "line_views (canonical_of bs) \<noteq> []"
proof -
  have "length (line_views (canonical_of bs)) = length (file_lines bs)" by (simp add: canonical_of_def)
  moreover have "file_lines bs \<noteq> []" using lines_of_nonempty[of bs] by (simp add: file_lines_def)
  ultimately show ?thesis by (metis length_0_conv)
qed

definition line_len :: "bytes \<times> newline_kind \<Rightarrow> nat" where
  "line_len ck = clen (line_toks (fst ck) @ nl_toks (snd ck))"

lemma clen_nl_toks: "clen (nl_toks k) = (if k = NkNone then 0 else 1)"
  by (simp add: nl_toks_def)

lemma clen_file_toks: "clen (file_toks ls) = sum_list (map line_len ls)"
  by (induction ls) (auto simp: line_len_def)

text \<open>Each view lies between the lengths of the lines before it and up to it.\<close>

lemma line_views_from_nth:
  assumes "i < length ls"
  shows "canonical_start (line_views_from o1 ls ! i) = o1 + sum_list (map line_len (take i ls))
    \<and> canonical_full_end (line_views_from o1 ls ! i) = o1 + sum_list (map line_len (take (Suc i) ls))
    \<and> canonical_full_end (line_views_from o1 ls ! i) =
        canonical_end (line_views_from o1 ls ! i)
        + (if has_trailing_newline (line_views_from o1 ls ! i) then 1 else 0)"
  using assms
proof (induction ls arbitrary: i o1)
  case (Cons ck ls)
  obtain c k where ck: "ck = (c, k)" by (cases ck)
  show ?case
  proof (cases i)
    case 0
    then show ?thesis by (simp add: ck line_len_def clen_nl_toks Let_def)
  next
    case (Suc j)
    with Cons.IH[of j "o1 + clen (line_toks c) + clen (nl_toks k)"] Cons.prems show ?thesis
      by (simp add: ck line_len_def Let_def add.assoc)
  qed
qed simp

section \<open>Matching\<close>

text \<open>The range of a valid pair of line numbers is a slice of the view, so no slice panics.\<close>

lemma canonical_range_ok:
  assumes "0 < sl" "sl \<le> el" "el \<le> length (line_views (canonical_of bs))"
  shows "\<exists>s e. canonical_range_for_lines (line_views (canonical_of bs)) sl el = Inr (s, e)
    \<and> s \<le> e \<and> e \<le> length (cd_text (canonical_of bs))
    \<and> s = sum_list (map line_len (take (sl - 1) (file_lines bs)))
    \<and> e = sum_list (map line_len (take el (file_lines bs)))"
proof -
  let ?ls = "file_lines bs"
  have len: "el \<le> length ?ls" using assms(3) by (simp add: canonical_of_def)
  have s: "canonical_start (line_views_from 0 ?ls ! (sl - 1)) = sum_list (map line_len (take (sl - 1) ?ls))"
    using line_views_from_nth[of "sl - 1" ?ls 0] assms(1,2) len by simp
  have e: "canonical_end (line_views_from 0 ?ls ! (el - 1))
      + (if has_trailing_newline (line_views_from 0 ?ls ! (el - 1)) then 1 else 0)
      = sum_list (map line_len (take el ?ls))"
  proof -
    have "el - 1 < length ?ls" "Suc (el - 1) = el" using assms(1,2) len by simp_all
    with line_views_from_nth[of "el - 1" ?ls 0] show ?thesis by simp
  qed
  have le: "sum_list (map line_len (take i ?ls)) \<le> sum_list (map line_len (take j ?ls))"
    if "i \<le> j" for i j
    using sum_list_take_le[OF that, of "map line_len ?ls"] by (simp add: take_map)
  have "canonical_range_for_lines (line_views (canonical_of bs)) sl el =
      Inr (sum_list (map line_len (take (sl - 1) ?ls)), sum_list (map line_len (take el ?ls)))"
    using assms s e len
    by (auto simp: canonical_range_for_lines_def canonical_of_def Let_def split: if_splits)
  moreover have "sum_list (map line_len (take (sl - 1) ?ls)) \<le> sum_list (map line_len (take el ?ls))"
    using assms(1,2) by (intro le) simp
  moreover have "sum_list (map line_len (take el ?ls)) \<le> length (cd_text (canonical_of bs))"
    using le[of el "length ?ls"] len by (simp add: canonical_of_def length_text clen_file_toks)
  ultimately show ?thesis by blast
qed

definition hint_range :: "bytes \<Rightarrow> match_hint option \<Rightarrow> (nat \<times> nat) option" where
  \<comment> \<open>the part of the view a hint selects, as offsets; \<open>None\<close> for an invalid hint\<close>
  "hint_range bs hint =
     (let ls = file_lines bs in
      case hint of
        None \<Rightarrow> Some (0, length (cd_text (canonical_of bs)))
      | Some h \<Rightarrow>
          let sl = (case start_line h of Some n \<Rightarrow> n | None \<Rightarrow> 1);
              el = (case end_line h of Some n \<Rightarrow> n | None \<Rightarrow> length ls)
          in if 0 < sl \<and> sl \<le> el \<and> el \<le> length ls
             then Some (sum_list (map line_len (take (sl - 1) ls)), sum_list (map line_len (take el ls)))
             else None)"

lemma hint_range_bounds:
  assumes "hint_range bs hint = Some (s, e)"
  shows "s \<le> e \<and> e \<le> length (cd_text (canonical_of bs))"
proof (cases hint)
  case None
  with assms show ?thesis by (simp add: hint_range_def)
next
  case (Some h)
  define sl where "sl = (case start_line h of Some n \<Rightarrow> n | None \<Rightarrow> 1)"
  define el where "el = (case end_line h of Some n \<Rightarrow> n | None \<Rightarrow> length (file_lines bs))"
  from assms Some have "0 < sl \<and> sl \<le> el \<and> el \<le> length (file_lines bs)"
      "s = sum_list (map line_len (take (sl - 1) (file_lines bs)))"
      "e = sum_list (map line_len (take el (file_lines bs)))"
    by (simp_all add: hint_range_def sl_def[symmetric] el_def[symmetric] Let_def split: if_splits)
  then show ?thesis using canonical_range_ok[of sl el bs] by (auto simp: canonical_of_def)
qed

lemma compute_match_range_eq:
  assumes "needle \<noteq> []"
  shows "compute_match_range M (canonical_of bs) hint needle =
    (case hint_range bs hint of
       None \<Rightarrow> Inl (Err ''match_hint lines are invalid for current file'')
     | Some (s, e) \<Rightarrow>
         Inr (map_option ((+) s) (mem_find M needle (take (e - s) (drop s (cd_text (canonical_of bs)))))))"
proof (cases hint)
  case None
  then show ?thesis using assms
    by (cases "mem_find M needle (cd_text (canonical_of bs))")
      (simp_all add: compute_match_range_def hint_range_def)
next
  case (Some h)
  define sl where "sl = (case start_line h of Some n \<Rightarrow> n | None \<Rightarrow> 1)"
  define el where "el = (case end_line h of Some n \<Rightarrow> n | None \<Rightarrow> length (file_lines bs))"
  have total: "length (line_views (canonical_of bs)) = length (file_lines bs)"
    by (simp add: canonical_of_def)
  show ?thesis
  proof (cases "0 < sl \<and> sl \<le> el \<and> el \<le> length (file_lines bs)")
    case True
    then obtain s e where
        "canonical_range_for_lines (line_views (canonical_of bs)) sl el = Inr (s, e)" "s \<le> e"
        "e \<le> length (cd_text (canonical_of bs))"
        "s = sum_list (map line_len (take (sl - 1) (file_lines bs)))"
        "e = sum_list (map line_len (take el (file_lines bs)))"
      using canonical_range_ok[of sl el bs] total by auto
    then show ?thesis
      using assms Some True total
      by (simp add: compute_match_range_def hint_range_def slice_def sl_def[symmetric]
          el_def[symmetric] Let_def)
  next
    case False
    then show ?thesis
      using assms Some total
      by (auto simp: compute_match_range_def hint_range_def sl_def[symmetric] el_def[symmetric] Let_def)
  qed
qed

text \<open>A match is an occurrence of the needle inside the hinted range, and the first one there.\<close>

lemma compute_match_range_Some:
  assumes "memlib_ok M" "needle \<noteq> []"
    and "compute_match_range M (canonical_of bs) hint needle = Inr (Some c)"
  obtains s e p q where "hint_range bs hint = Some (s, e)"
    "cd_text (canonical_of bs) = p @ needle @ q" "length p = c" "s \<le> c" "c + length needle \<le> e"
    "\<And>j. s \<le> j \<Longrightarrow> j < c \<Longrightarrow>
       \<not> starts_with needle (take (e - j) (drop j (cd_text (canonical_of bs))))"
proof -
  let ?t = "cd_text (canonical_of bs)"
  obtain s e rel where r: "hint_range bs hint = Some (s, e)" "c = s + rel"
      "mem_find M needle (take (e - s) (drop s ?t)) = Some rel"
    using assms(3) unfolding compute_match_range_eq[OF assms(2)]
    by (auto split: option.splits prod.splits)
  from memlib_find_Some(1)[OF assms(1) r(3)] obtain a b where
      ab: "take (e - s) (drop s ?t) = a @ needle @ b" "length a = rel" by blast
  have se: "s \<le> e" "e \<le> length ?t" using hint_range_bounds[OF r(1)] by auto
  have "?t = take s ?t @ take (e - s) (drop s ?t) @ drop e ?t"
    using se by (metis append_take_drop_id drop_drop le_add_diff_inverse2)
  then have "?t = (take s ?t @ a) @ needle @ (b @ drop e ?t)" unfolding ab(1) by simp
  moreover have "length (take s ?t @ a) = c" using se ab(2) r(2) by simp
  moreover have "c + length needle \<le> e"
  proof -
    have "length (a @ needle @ b) = e - s" using se by (simp add: ab(1)[symmetric])
    then show ?thesis using ab(2) r(2) se(1) by simp
  qed
  moreover have "\<not> starts_with needle (take (e - j) (drop j ?t))" if "s \<le> j" "j < c" for j
  proof -
    have "drop (j - s) (take (e - s) (drop s ?t)) = take (e - j) (drop j ?t)"
      using that by (simp add: drop_take)
    then show ?thesis
      using memlib_find_Some(2)[OF assms(1) r(3), of "j - s"] that r(2) by simp
  qed
  ultimately show ?thesis using that r(1,2) by (metis le_add1)
qed

lemma compute_match_range_None:
  assumes "memlib_ok M" "needle \<noteq> []"
    and "compute_match_range M (canonical_of bs) hint needle = Inr None"
  obtains s e where "hint_range bs hint = Some (s, e)"
    "\<And>a b. take (e - s) (drop s (cd_text (canonical_of bs))) \<noteq> a @ needle @ b"
  using assms(3) memlib_find_None[OF assms(1)] unfolding compute_match_range_eq[OF assms(2)]
  by (auto split: option.splits prod.splits)

section \<open>Suggestions\<close>

lemma collect_suggestions_bound:
  "0 < limit \<Longrightarrow> length acc < limit \<Longrightarrow> distinct (map fst acc) \<Longrightarrow>
   length (collect_suggestions cd lns limit as acc) \<le> limit
   \<and> distinct (map fst (collect_suggestions cd lns limit as acc))"
  by (induction as arbitrary: acc) (auto simp: Let_def)

lemma suggestion_line_lt:
  "line_views cd \<noteq> [] \<Longrightarrow>
   (case line_index_for_offset cd a of Some i \<Rightarrow> i | None \<Rightarrow> 0) < length (line_views cd)"
  by (simp add: line_index_for_offset_def min_less_iff_disj)

lemma collect_suggestions_lines:
  assumes "line_views cd \<noteq> []" "\<forall>x \<in> set acc. fst x < length (line_views cd)"
  shows "\<forall>x \<in> set (collect_suggestions cd lns limit as acc). fst x < length (line_views cd)"
  using assms(2)
proof (induction as arbitrary: acc)
  case (Cons a as)
  define li where "li = (case line_index_for_offset cd a of Some i \<Rightarrow> i | None \<Rightarrow> 0)"
  let ?acc = "acc @ [(li, compute_line_similarity (line_views cd) li lns)]"
  have "li < length (line_views cd)" unfolding li_def using assms(1) by (rule suggestion_line_lt)
  then have acc: "\<forall>x \<in> set ?acc. fst x < length (line_views cd)" using Cons.prems by auto
  have "collect_suggestions cd lns limit (a # as) acc =
      (if li \<in> set (map fst acc) then collect_suggestions cd lns limit as acc
       else if length ?acc \<ge> limit then ?acc else collect_suggestions cd lns limit as ?acc)"
    unfolding collect_suggestions.simps li_def[symmetric] Let_def by (rule refl)
  then show ?case using Cons.IH[OF Cons.prems] Cons.IH[OF acc] acc by presburger
qed simp

lemma collect_suggestions_sims:
  assumes "\<forall>x \<in> set acc. snd x = compute_line_similarity (line_views cd) (fst x) lns"
  shows "\<forall>x \<in> set (collect_suggestions cd lns limit as acc).
    snd x = compute_line_similarity (line_views cd) (fst x) lns"
  using assms
proof (induction as arbitrary: acc)
  case (Cons a as)
  define li where "li = (case line_index_for_offset cd a of Some i \<Rightarrow> i | None \<Rightarrow> 0)"
  let ?acc = "acc @ [(li, compute_line_similarity (line_views cd) li lns)]"
  have acc: "\<forall>x \<in> set ?acc. snd x = compute_line_similarity (line_views cd) (fst x) lns"
    using Cons.prems by simp
  have "collect_suggestions cd lns limit (a # as) acc =
      (if li \<in> set (map fst acc) then collect_suggestions cd lns limit as acc
       else if length ?acc \<ge> limit then ?acc else collect_suggestions cd lns limit as ?acc)"
    unfolding collect_suggestions.simps li_def[symmetric] Let_def by (rule refl)
  then show ?case using Cons.IH[OF Cons.prems] Cons.IH[OF acc] acc by presburger
qed simp

lemma count_line_matches_le: "count_line_matches views idx ns \<le> length ns"
  by (induction ns arbitrary: idx) (auto intro: le_SucI)

lemma similarity_bounds:
  "ns \<noteq> [] \<Longrightarrow> 0 < snd (compute_line_similarity views i ns)
   \<and> fst (compute_line_similarity views i ns) \<le> snd (compute_line_similarity views i ns)"
  by (simp add: compute_line_similarity_def count_line_matches_le)

end
