(* ===== verification/PathPolicy.thy ===== *)
theory PathPolicy
  imports Utf8
begin

text \<open>
  \<^verbatim>\<open>tools-mcp-local/src/path_policy.rs\<close>: which path a file tool may touch.  A path is its bytes
  (Unix); \<open>components\<close> is \<open>std::path::Path::components\<close>.  The kernel's answers (does the path
  exist, its canonical form, its kind) are fields of the file system, since they are not code of
  the repository.
\<close>

section \<open>Paths\<close>

abbreviation SLASH :: byte where "SLASH \<equiv> CHR ''/''"

datatype pcomp = RootDir | CurDir | ParentDir | Normal bytes

definition is_absolute :: "bytes \<Rightarrow> bool" where
  "is_absolute p \<longleftrightarrow> starts_with [SLASH] p"

definition comp_of :: "bytes \<Rightarrow> pcomp" where
  "comp_of s = (if s = ''..'' then ParentDir else Normal s)"

text \<open>Empty parts and \<open>.\<close> parts vanish, except for a \<open>.\<close> that starts a relative path.\<close>

definition components :: "bytes \<Rightarrow> pcomp list" where
  "components p =
     (let parts = split_byte SLASH p;
          rest = map comp_of (filter (\<lambda>s. s \<noteq> [] \<and> s \<noteq> ''.'') parts)
      in if is_absolute p then RootDir # rest
         else if hd parts = ''.'' then CurDir # rest else rest)"

definition path_push :: "bytes \<Rightarrow> bytes \<Rightarrow> bytes" where
  \<comment> \<open>\<open>PathBuf::push\<close> and \<open>Path::join\<close>\<close>
  "path_push p q =
     (if is_absolute q then q
      else if p = [] \<or> ends_with [SLASH] p then p @ q else p @ [SLASH] @ q)"

fun render_comp :: "pcomp \<Rightarrow> bytes" where
  "render_comp RootDir = [SLASH]"
| "render_comp CurDir = ''.''"
| "render_comp ParentDir = ''..''"
| "render_comp (Normal s) = s"

definition render :: "pcomp list \<Rightarrow> bytes" where
  "render cs =
     (case cs of RootDir # r \<Rightarrow> SLASH # join_byte SLASH (map render_comp r)
      | _ \<Rightarrow> join_byte SLASH (map render_comp cs))"

text \<open>\<open>Path::parent\<close>: the path without its last component, unless that is the root.\<close>

definition path_parent :: "bytes \<Rightarrow> bytes option" where
  "path_parent p =
     (let cs = components p in
      if cs = [] \<or> last cs = RootDir then None else Some (render (butlast cs)))"

definition path_starts_with :: "bytes \<Rightarrow> bytes \<Rightarrow> bool" where
  "path_starts_with p base \<longleftrightarrow> take (length (components base)) (components p) = components base"

definition path_strip_prefix :: "bytes \<Rightarrow> bytes \<Rightarrow> bytes option" where
  "path_strip_prefix p base =
     (if path_starts_with p base then Some (render (drop (length (components base)) (components p)))
      else None)"

text \<open>\<open>Path::ancestors\<close>: the path, its parent, and so on.  Each parent has one component less.\<close>

fun ancestors_fuel :: "nat \<Rightarrow> bytes \<Rightarrow> bytes list" where
  "ancestors_fuel 0 p = [p]"
| "ancestors_fuel (Suc n) p =
     p # (case path_parent p of Some q \<Rightarrow> ancestors_fuel n q | None \<Rightarrow> [])"

definition ancestors :: "bytes \<Rightarrow> bytes list" where
  "ancestors p = ancestors_fuel (length (components p)) p"

section \<open>The file system\<close>

datatype node_kind = RegularFile | Directory | Symlink | OtherNode

record file_system =
  files :: "bytes \<Rightarrow> bytes option"
  write_fault :: "bytes \<Rightarrow> bytes \<Rightarrow> bytes option"
  canonicalize :: "bytes \<Rightarrow> bytes option"
  symlink_kind :: "bytes \<Rightarrow> node_kind option"
  target_kind :: "bytes \<Rightarrow> node_kind option"
  current_dir :: "bytes option"

section \<open>The code\<close>

datatype path_reason =
    CwdUnreadable | CwdUnresolvable | PathIsEmpty
  | RootedNotAbsolute bytes | NotADirectory bytes | NotAFile bytes | DoesNotExist bytes
  | NoExistingAncestor bytes | PrefixMismatch | InspectFailed bytes | AboveRoot bytes
  | RootedSegment bytes | ResolveFailed bytes | Outside bytes

record path_policy_error =
  pe_field :: bytes
  pe_workspace :: bytes
  pe_reason :: path_reason

definition perr :: "bytes \<Rightarrow> bytes \<Rightarrow> path_reason \<Rightarrow> path_policy_error" where
  "perr fd ws r = \<lparr> pe_field = fd, pe_workspace = ws, pe_reason = r \<rparr>"

type_synonym path_result = "path_policy_error + bytes"

definition canonical_workspace :: "file_system \<Rightarrow> bytes \<Rightarrow> path_result" where
  "canonical_workspace fs fd =
     (case current_dir fs of
        None \<Rightarrow> Inl (perr fd ''.'' CwdUnreadable)
      | Some cwd \<Rightarrow> ok_or (canonicalize fs cwd) (perr fd cwd CwdUnresolvable))"

definition absolute_candidate :: "bytes \<Rightarrow> bytes \<Rightarrow> bytes \<Rightarrow> path_result" where
  "absolute_candidate inp ws fd =
     (if inp = [] then Inl (perr fd ws PathIsEmpty)
      else if is_absolute inp then Inr inp
      else if RootDir \<in> set (components inp) then Inl (perr fd ws (RootedNotAbsolute inp))
      else Inr (path_push ws inp))"

definition path_exists_or_symlink :: "file_system \<Rightarrow> bytes \<Rightarrow> bool" where
  "path_exists_or_symlink fs p \<longleftrightarrow> symlink_kind fs p \<noteq> None"

definition canonicalize_checked :: "file_system \<Rightarrow> bytes \<Rightarrow> bytes \<Rightarrow> bytes \<Rightarrow> path_result" where
  "canonicalize_checked fs p ws fd = ok_or (canonicalize fs p) (perr fd ws (ResolveFailed p))"

definition ensure_inside_workspace ::
  "bytes \<Rightarrow> bytes \<Rightarrow> bytes \<Rightarrow> bytes \<Rightarrow> path_policy_error + unit" where
  "ensure_inside_workspace resolved original ws fd =
     (if components resolved = components ws \<or> path_starts_with resolved ws then Inr ()
      else Inl (perr fd ws (Outside original)))"

definition resolve_existing_under_workspace ::
  "file_system \<Rightarrow> bytes \<Rightarrow> bytes \<Rightarrow> bytes \<Rightarrow> path_result" where
  "resolve_existing_under_workspace fs absol ws fd =
     (if \<not> path_exists_or_symlink fs absol then Inl (perr fd ws (DoesNotExist absol))
      else bindE (canonicalize_checked fs absol ws fd) (\<lambda>c.
           bindE (ensure_inside_workspace c absol ws fd) (\<lambda>_. Inr c)))"

definition resolve_existing_mutation_path ::
  "file_system \<Rightarrow> bytes \<Rightarrow> bytes \<Rightarrow> bytes \<Rightarrow> path_result" where
  "resolve_existing_mutation_path fs absol ws fd =
     bindE (resolve_existing_under_workspace fs absol ws fd) (\<lambda>c.
       case symlink_kind fs absol of
         None \<Rightarrow> Inl (perr fd ws (InspectFailed absol))
       | Some k \<Rightarrow> Inr (if k = Symlink then absol else c))"

definition deepest_existing_ancestor :: "file_system \<Rightarrow> bytes \<Rightarrow> bytes option" where
  "deepest_existing_ancestor fs p = find (path_exists_or_symlink fs) (ancestors p)"

fun append_uncreated_tail ::
  "file_system \<Rightarrow> bytes \<Rightarrow> pcomp list \<Rightarrow> bytes \<Rightarrow> bytes \<Rightarrow> bytes \<Rightarrow> path_result" where
  "append_uncreated_tail fs cur [] original ws fd =
     bindE (ensure_inside_workspace cur original ws fd) (\<lambda>_. Inr cur)"
| "append_uncreated_tail fs cur (CurDir # cs) original ws fd =
     append_uncreated_tail fs cur cs original ws fd"
| "append_uncreated_tail fs cur (ParentDir # cs) original ws fd =
     (case path_parent cur of
        None \<Rightarrow> Inl (perr fd ws (AboveRoot original))
      | Some up \<Rightarrow>
          bindE (ensure_inside_workspace up original ws fd) (\<lambda>_.
            append_uncreated_tail fs up cs original ws fd))"
| "append_uncreated_tail fs cur (Normal name # cs) original ws fd =
     (let nxt = path_push cur name in
      if path_exists_or_symlink fs nxt
      then bindE (canonicalize_checked fs nxt ws fd) (\<lambda>c.
           bindE (ensure_inside_workspace c original ws fd) (\<lambda>_.
             append_uncreated_tail fs c cs original ws fd))
      else bindE (ensure_inside_workspace nxt original ws fd) (\<lambda>_.
             append_uncreated_tail fs nxt cs original ws fd))"
| "append_uncreated_tail fs cur (RootDir # cs) original ws fd =
     Inl (perr fd ws (RootedSegment original))"

definition resolve_under_workspace ::
  "file_system \<Rightarrow> bytes \<Rightarrow> bytes \<Rightarrow> bytes \<Rightarrow> bool \<Rightarrow> path_result" where
  "resolve_under_workspace fs absol ws fd require_existing =
     (if path_exists_or_symlink fs absol then resolve_existing_mutation_path fs absol ws fd
      else if require_existing then Inl (perr fd ws (DoesNotExist absol))
      else case deepest_existing_ancestor fs absol of
        None \<Rightarrow> Inl (perr fd ws (NoExistingAncestor absol))
      | Some anc \<Rightarrow>
          bindE (canonicalize_checked fs anc ws fd) (\<lambda>canc.
          bindE (ensure_inside_workspace canc anc ws fd) (\<lambda>_.
            case path_strip_prefix absol anc of
              None \<Rightarrow> Inl (perr fd ws PrefixMismatch)
            | Some rest \<Rightarrow> append_uncreated_tail fs canc (components rest) absol ws fd)))"

definition resolve_mutation_path :: "file_system \<Rightarrow> bytes \<Rightarrow> bytes \<Rightarrow> path_result" where
  "resolve_mutation_path fs inp fd =
     bindE (canonical_workspace fs fd) (\<lambda>ws.
     bindE (absolute_candidate inp ws fd) (\<lambda>absol.
       resolve_under_workspace fs absol ws fd False))"

definition resolve_existing_directory :: "file_system \<Rightarrow> bytes \<Rightarrow> bytes \<Rightarrow> path_result" where
  "resolve_existing_directory fs inp fd =
     bindE (canonical_workspace fs fd) (\<lambda>ws.
     bindE (absolute_candidate inp ws fd) (\<lambda>absol.
     bindE (resolve_existing_under_workspace fs absol ws fd) (\<lambda>resolved.
       if target_kind fs resolved \<noteq> Some Directory then Inl (perr fd ws (NotADirectory inp))
       else Inr resolved)))"

definition resolve_existing_file :: "file_system \<Rightarrow> bytes \<Rightarrow> bytes \<Rightarrow> path_result" where
  "resolve_existing_file fs inp fd =
     bindE (canonical_workspace fs fd) (\<lambda>ws.
     bindE (absolute_candidate inp ws fd) (\<lambda>absol.
     bindE (resolve_existing_under_workspace fs absol ws fd) (\<lambda>resolved.
       if target_kind fs resolved \<noteq> Some RegularFile then Inl (perr fd ws (NotAFile inp))
       else Inr resolved)))"

section \<open>Containment\<close>

definition inside :: "bytes \<Rightarrow> bytes \<Rightarrow> bool" where
  "inside ws p \<longleftrightarrow> (\<exists>r. components p = components ws @ r)"

lemma path_starts_with_iff: "path_starts_with p base \<longleftrightarrow> inside base p"
  unfolding path_starts_with_def inside_def by (metis append_eq_conv_conj)

lemma ensure_inside_iff: "ensure_inside_workspace p original ws fd = Inr u \<longleftrightarrow> inside ws p"
  by (auto simp: ensure_inside_workspace_def path_starts_with_iff inside_def)

lemma resolve_existing_under_workspaceD:
  assumes "resolve_existing_under_workspace fs absol ws fd = Inr c"
  shows "canonicalize fs absol = Some c \<and> inside ws c"
  using assms
  by (auto simp: resolve_existing_under_workspace_def bindE_Inr_iff ensure_inside_iff
      canonicalize_checked_def ok_or_Inr_iff split: if_splits)

lemma append_uncreated_tail_inside:
  "append_uncreated_tail fs cur cs original ws fd = Inr p \<Longrightarrow> inside ws p"
  by (induction fs cur cs original ws fd rule: append_uncreated_tail.induct)
    (auto simp: bindE_Inr_iff ensure_inside_iff Let_def split: if_splits option.splits)

text \<open>A path whose components are plain names below the workspace never walks back up.\<close>

definition lexically_below :: "bytes \<Rightarrow> bytes \<Rightarrow> bool" where
  "lexically_below ws p \<longleftrightarrow>
     (\<exists>r. components p = components ws @ r \<and> ParentDir \<notin> set r)"

end
