(* ===== verification/SnippetEdit.thy ===== *)
theory SnippetEdit
  imports SnippetMatch PathPolicy
begin

text \<open>
  \<^verbatim>\<open>tools-mcp-local/src/smart_file_edit/edit.rs\<close>: the edit itself.  The file system is a state:
  the contents of the files, and what a write to a path does (it succeeds, or it fails and leaves
  some bytes behind).  The result carries the fields of the JSON payload that depend on the input.
\<close>

section \<open>The file system\<close>

text \<open>Contents are kept by canonical path.  A write to a path without one creates the file.\<close>

definition fs_key :: "file_system \<Rightarrow> bytes \<Rightarrow> bytes" where
  "fs_key fs path = (case canonicalize fs path of Some c \<Rightarrow> c | None \<Rightarrow> path)"

definition fs_read :: "file_system \<Rightarrow> bytes \<Rightarrow> bytes option" where
  "fs_read fs path = Option.bind (canonicalize fs path) (files fs)"

definition fs_write :: "file_system \<Rightarrow> bytes \<Rightarrow> bytes \<Rightarrow> bool \<times> file_system" where
  "fs_write fs path bs =
     (case write_fault fs path bs of
        None \<Rightarrow> (True, fs\<lparr> files := (files fs)(fs_key fs path \<mapsto> bs) \<rparr>)
      | Some left \<Rightarrow> (False, fs\<lparr> files := (files fs)(fs_key fs path \<mapsto> left) \<rparr>))"

lemma fs_read_write:
  assumes "fs_read fs path = Some bs0" "fs_write fs path bs = (ok, fs')"
  shows "fs_read fs' path = Some (case write_fault fs path bs of None \<Rightarrow> bs | Some left \<Rightarrow> left)"
    and "ok \<longleftrightarrow> write_fault fs path bs = None"
    and "\<forall>q. q \<noteq> fs_key fs path \<longrightarrow> files fs' q = files fs q"
    and "canonicalize fs' = canonicalize fs"
  using assms by (auto simp: fs_read_def fs_write_def fs_key_def split: option.splits bind_splits)

section \<open>The code\<close>

record edit_request =
  er_path :: bytes
  er_old :: bytes
  er_new :: bytes
  er_hint :: "match_hint option"
  er_hash :: "bytes option"
  er_region :: "bytes option"

record ok_payload =
  replaced_byte_range :: "nat \<times> nat"
  ok_lines :: "nat \<times> nat"
  bytes_written :: nat
  file_hash_before :: bytes
  file_hash_after :: bytes
  ok_newline_kind :: bytes
  ok_region_id :: "bytes option"

datatype snippet_result =
    SnOk ok_payload
  | SnNoMatch "match_hint option" "candidate list"
  | SnStaleFile bytes bytes

text \<open>The expected hash, trimmed; an empty one does not count.\<close>

definition expected_hash :: "edit_request \<Rightarrow> bytes option" where
  "expected_hash req =
     (case map_option trim (er_hash req) of
        Some h \<Rightarrow> if h = [] then None else Some h
      | None \<Rightarrow> None)"

definition text_get :: "bytes \<Rightarrow> nat \<Rightarrow> nat \<Rightarrow> bytes" where
  \<comment> \<open>\<open>text.get(a..b).unwrap_or_default()\<close>: empty when out of range or not at a boundary\<close>
  "text_get t a b =
     (if a \<le> b \<and> b \<le> length t \<and> (a = length t \<or> \<not> is_cont (t ! a)) \<and> (b = length t \<or> \<not> is_cont (t ! b))
      then take (b - a) (drop a t) else [])"

definition patched_bytes :: "memlib \<Rightarrow> file_model \<Rightarrow> nat \<Rightarrow> nat \<Rightarrow> bytes \<Rightarrow> bytes" where
  "patched_bytes M fm bstart bend new =
     append_replacement_bytes M (take bstart (fm_bytes fm)) new (default_kind (fm_stats fm))
       @ drop bend (fm_bytes fm)"

definition ok_result ::
  "memlib \<Rightarrow> (bytes \<Rightarrow> bytes) \<Rightarrow> edit_request \<Rightarrow> file_model \<Rightarrow> nat \<Rightarrow> nat \<Rightarrow> nat \<Rightarrow> nat \<Rightarrow> bytes
   \<Rightarrow> bytes \<Rightarrow> snippet_result" where
  "ok_result M sha req fm cstart cend bstart bend new updated =
     (let cd = fm_canonical fm;
          kind = default_kind (fm_stats fm);
          sl = (case line_index_for_offset cd cstart of Some i \<Rightarrow> i + 1 | None \<Rightarrow> 1);
          el = (case line_index_for_offset cd (cend - 1) of Some i \<Rightarrow> i + 1 | None \<Rightarrow> sl)
      in SnOk \<lparr> replaced_byte_range = (bstart, bend), ok_lines = (sl, el),
                bytes_written = replacement_byte_len M new kind,
                file_hash_before = fm_hash fm, file_hash_after = compute_hash sha updated,
                ok_newline_kind = nk_label kind, ok_region_id = er_region req \<rparr>)"

definition edit_at ::
  "memlib \<Rightarrow> (bytes \<Rightarrow> bytes) \<Rightarrow> edit_request \<Rightarrow> file_model \<Rightarrow> bytes \<Rightarrow> bytes \<Rightarrow> nat \<Rightarrow> file_system
   \<Rightarrow> (edit_error + snippet_result) \<times> file_system" where
  "edit_at M sha req fm old new cstart fs =
     (let cd = fm_canonical fm; cend = cstart + length old in
      case byte_offset cd cstart of
        None \<Rightarrow> (Inl (Err ''could not map canonical start offset''), fs)
      | Some bstart \<Rightarrow>
        (case byte_offset cd cend of
           None \<Rightarrow> (Inl (Err ''could not map canonical end offset''), fs)
         | Some bend \<Rightarrow>
             if text_get (cd_text cd) cstart cend \<noteq> old
             then (Inl (Err ''internal invariant violated: canonical slice mismatch''), fs)
             else
               let updated = patched_bytes M fm bstart bend new;
                   (written, fs1) = fs_write fs (er_path req) updated
               in if \<not> written then (Inl (Err ''write patched bytes''), fs1)
                  else (Inr (ok_result M sha req fm cstart cend bstart bend new updated), fs1)))"

definition match_and_edit ::
  "memlib \<Rightarrow> (bytes \<Rightarrow> bytes) \<Rightarrow> edit_request \<Rightarrow> file_model \<Rightarrow> bytes \<Rightarrow> bytes \<Rightarrow> file_system
   \<Rightarrow> (edit_error + snippet_result) \<times> file_system" where
  "match_and_edit M sha req fm old new fs =
     (case compute_match_range M (fm_canonical fm) (er_hint req) old of
        Inl e \<Rightarrow> (Inl e, fs)
      | Inr None \<Rightarrow> (Inr (SnNoMatch (er_hint req) (suggest_candidates M fm old 3)), fs)
      | Inr (Some c) \<Rightarrow> edit_at M sha req fm old new c fs)"

definition apply_snippet_edit_impl ::
  "memlib \<Rightarrow> (bytes \<Rightarrow> bytes) \<Rightarrow> edit_request \<Rightarrow> file_system
   \<Rightarrow> (edit_error + snippet_result) \<times> file_system" where
  "apply_snippet_edit_impl M sha req fs =
     (if er_old req = [] then (Inl (Err ''old_snippet must not be empty''), fs)
      else case (normalize_newlines_to_lf M (er_old req), normalize_newlines_to_lf M (er_new req)) of
        (Some old, Some new) \<Rightarrow>
          (case fs_read fs (er_path req) of
             None \<Rightarrow> (Inl (Err ''read''), fs)
           | Some bs \<Rightarrow>
             (case file_model_of M sha bs of
                Inl e \<Rightarrow> (Inl e, fs)
              | Inr fm \<Rightarrow>
                (case expected_hash req of
                   Some h \<Rightarrow>
                     if h \<noteq> fm_hash fm then (Inr (SnStaleFile h (fm_hash fm)), fs)
                     else match_and_edit M sha req fm old new fs
                 | None \<Rightarrow> match_and_edit M sha req fm old new fs)))
      | _ \<Rightarrow> (Inl Diverged, fs))"

section \<open>The model the edit works on\<close>

definition model_of :: "(bytes \<Rightarrow> bytes) \<Rightarrow> bytes \<Rightarrow> file_model" where
  "model_of sha bs = \<lparr> fm_bytes = bs, fm_hash = compute_hash sha bs, fm_canonical = canonical_of bs,
     fm_stats = foldl stats_record stats_default (map snd (file_lines bs)) \<rparr>"

lemma file_model_of_model_of: "memlib_ok M \<Longrightarrow> file_model_of M sha bs = Inr (model_of sha bs)"
  by (simp add: file_model_of_eq model_of_def canonical_of_def)

definition view_of :: "bytes \<Rightarrow> bytes" where
  "view_of bs = cd_text (canonical_of bs)"

definition dominant_of :: "bytes \<Rightarrow> newline_kind" where
  "dominant_of bs = default_kind (foldl stats_record stats_default (map snd (file_lines bs)))"

text \<open>The bytes a replacement leaves in the file.\<close>

definition spliced :: "bytes \<Rightarrow> nat \<Rightarrow> nat \<Rightarrow> bytes \<Rightarrow> bytes" where
  "spliced bs f g new = take f bs @ expand_lf (nk_as_bytes (dominant_of bs)) new @ drop g bs"

lemma patched_bytes_eq:
  "memlib_ok M \<Longrightarrow> patched_bytes M (model_of sha bs) f g new = spliced bs f g new"
  by (simp add: patched_bytes_def spliced_def append_replacement_bytes_eq model_of_def dominant_of_def)

lemma text_get_match:
  assumes "t = p @ n @ q" "utf8_valid t" "utf8_valid n" "n \<noteq> []"
  shows "text_get t (length p) (length p + length n) = n"
proof -
  have pq: "utf8_valid p \<and> utf8_valid q" using utf8_valid_infix[of p n q] assms by simp
  obtain w where "scalar_width n = Some w" using utf8_valid_scalar_width assms(3,4) by blast
  then have "\<not> is_cont (t ! length p)"
    using scalar_widthD(3)[of n w] assms(1,4) by (simp add: nth_append hd_conv_nth)
  moreover have "length p + length n = length t \<or> \<not> is_cont (t ! (length p + length n))"
  proof (cases q)
    case (Cons b r)
    then obtain v where "scalar_width q = Some v" using pq utf8_valid_scalar_width by blast
    then have "\<not> is_cont b" using scalar_widthD(3)[of q v] Cons by simp
    then show ?thesis using assms(1) Cons by (simp add: nth_append)
  qed (simp add: assms(1))
  ultimately show ?thesis by (simp add: text_get_def assms(1))
qed

text \<open>Once a match is found, the offsets exist and the invariant check passes: only the write
  itself can fail.\<close>

lemma edit_at_match:
  assumes "memlib_ok M" "view_of bs = p @ old @ q" "utf8_valid old" "old \<noteq> []"
  obtains f g where "byte_offset (canonical_of bs) (length p) = Some f"
    "byte_offset (canonical_of bs) (length p + length old) = Some g" "f \<le> g"
    "edit_at M sha req (model_of sha bs) old new (length p) fs =
       (let (written, fs1) = fs_write fs (er_path req) (spliced bs f g new) in
        if \<not> written then (Inl (Err ''write patched bytes''), fs1)
        else (Inr (ok_result M sha req (model_of sha bs) (length p) (length p + length old) f g new
                     (spliced bs f g new)), fs1))"
proof -
  obtain f g where fg: "byte_offset (canonical_of bs) (length p) = Some f"
      "byte_offset (canonical_of bs) (length p + length old) = Some g" "f \<le> g"
    using om.match_has_offsets[of bs p old q] assms by (auto simp: view_of_def)
  have "text_get (cd_text (canonical_of bs)) (length p) (length p + length old) = old"
    using text_get_match[of _ p old q] assms om.view_valid[of bs] by (simp add: view_of_def)
  moreover have "fm_canonical (model_of sha bs) = canonical_of bs" by (simp add: model_of_def)
  ultimately show ?thesis
    using fg by (intro that) (simp_all add: edit_at_def patched_bytes_eq[OF assms(1)] Let_def)
qed

text \<open>The edit as one case distinction, with the search loops and the offset table resolved.\<close>

lemma apply_snippet_edit_cases:
  assumes M: "memlib_ok M" and valid: "utf8_valid (er_old req)" and ne: "er_old req \<noteq> []"
    and run: "apply_snippet_edit_impl M sha req fs = (res, fs')"
  obtains (unreadable) "fs_read fs (er_path req) = None" "res = Inl (Err ''read'')" "fs' = fs"
  | (stale) bs h where "fs_read fs (er_path req) = Some bs" "expected_hash req = Some h"
      "h \<noteq> compute_hash sha bs" "res = Inr (SnStaleFile h (compute_hash sha bs))" "fs' = fs"
  | (bad_hint) bs where "fs_read fs (er_path req) = Some bs" "hint_range bs (er_hint req) = None"
      "res = Inl (Err ''match_hint lines are invalid for current file'')" "fs' = fs"
  | (no_match) bs s e where "fs_read fs (er_path req) = Some bs"
      "hint_range bs (er_hint req) = Some (s, e)"
      "\<And>a b. take (e - s) (drop s (view_of bs)) \<noteq> a @ norm_lf (er_old req) @ b"
      "res = Inr (SnNoMatch (er_hint req) (suggest_candidates M (model_of sha bs) (norm_lf (er_old req)) 3))"
      "fs' = fs"
  | (match) bs s e p q f g where "fs_read fs (er_path req) = Some bs"
      "expected_hash req = None \<or> expected_hash req = Some (compute_hash sha bs)"
      "hint_range bs (er_hint req) = Some (s, e)"
      "view_of bs = p @ norm_lf (er_old req) @ q" "s \<le> length p"
      "length p + length (norm_lf (er_old req)) \<le> e"
      "\<And>j. s \<le> j \<Longrightarrow> j < length p \<Longrightarrow>
         \<not> starts_with (norm_lf (er_old req)) (take (e - j) (drop j (view_of bs)))"
      "byte_offset (canonical_of bs) (length p) = Some f"
      "byte_offset (canonical_of bs) (length p + length (norm_lf (er_old req))) = Some g" "f \<le> g"
      "(res, fs') =
         (let (written, fs1) = fs_write fs (er_path req) (spliced bs f g (norm_lf (er_new req))) in
          if \<not> written then (Inl (Err ''write patched bytes''), fs1)
          else (Inr (ok_result M sha req (model_of sha bs) (length p)
                       (length p + length (norm_lf (er_old req))) f g (norm_lf (er_new req))
                       (spliced bs f g (norm_lf (er_new req)))), fs1))"
proof -
  let ?old = "norm_lf (er_old req)" and ?new = "norm_lf (er_new req)"
  have old: "?old \<noteq> []" "utf8_valid ?old"
    using ne norm_lf_utf8[OF valid] norm_lf_Nil_iff[of "er_old req"] by blast+
  note nrm = normalize_newlines_to_lf_eq[OF M]
  show ?thesis
  proof (cases "fs_read fs (er_path req)")
    case None
    with run ne show ?thesis
      by (intro unreadable) (auto simp: apply_snippet_edit_impl_def nrm)
  next
    case (Some bs)
    note pre = run[unfolded apply_snippet_edit_impl_def nrm Some
        file_model_of_model_of[OF M], simplified ne, simplified]
    have hash: "fm_hash (model_of sha bs) = compute_hash sha bs" by (simp add: model_of_def)
    have fmc: "fm_canonical (model_of sha bs) = canonical_of bs" by (simp add: model_of_def)
    show ?thesis
    proof (cases "expected_hash req = None \<or> expected_hash req = Some (compute_hash sha bs)")
      case False
      then obtain h where "expected_hash req = Some h" "h \<noteq> compute_hash sha bs" by auto
      with pre Some hash show ?thesis by (intro stale) auto
    next
      case fresh: True
      then have body: "(case compute_match_range M (canonical_of bs) (er_hint req) ?old of
            Inl e \<Rightarrow> (Inl e, fs)
          | Inr None \<Rightarrow> (Inr (SnNoMatch (er_hint req) (suggest_candidates M (model_of sha bs) ?old 3)), fs)
          | Inr (Some c) \<Rightarrow> edit_at M sha req (model_of sha bs) ?old ?new c fs) = (res, fs')"
        using pre hash fmc by (auto simp: match_and_edit_def)
      show ?thesis
      proof (cases "compute_match_range M (canonical_of bs) (er_hint req) ?old")
        case (Inl e)
        then have "hint_range bs (er_hint req) = None"
            "e = Err ''match_hint lines are invalid for current file''"
          unfolding compute_match_range_eq[OF old(1)] by (auto split: option.splits prod.splits)
        with body Inl Some show ?thesis by (intro bad_hint) auto
      next
        case (Inr r)
        show ?thesis
        proof (cases r)
          case None
          with Inr have "compute_match_range M (canonical_of bs) (er_hint req) ?old = Inr None" by simp
          from compute_match_range_None[OF M old(1) this] obtain s e where
              "hint_range bs (er_hint req) = Some (s, e)"
              "\<And>a b. take (e - s) (drop s (cd_text (canonical_of bs))) \<noteq> a @ ?old @ b" by blast
          with body Inr None Some show ?thesis by (intro no_match) (auto simp: view_of_def)
        next
          case (Some c)
          with Inr have "compute_match_range M (canonical_of bs) (er_hint req) ?old = Inr (Some c)" by simp
          from compute_match_range_Some[OF M old(1) this] obtain s e p q where
              m: "hint_range bs (er_hint req) = Some (s, e)"
                "cd_text (canonical_of bs) = p @ ?old @ q" "length p = c" "s \<le> c" "c + length ?old \<le> e"
                "\<And>j. s \<le> j \<Longrightarrow> j < c \<Longrightarrow>
                   \<not> starts_with ?old (take (e - j) (drop j (cd_text (canonical_of bs))))"
            by blast
          have view: "view_of bs = p @ ?old @ q" by (simp add: view_of_def m(2))
          obtain f g where "byte_offset (canonical_of bs) (length p) = Some f"
              "byte_offset (canonical_of bs) (length p + length ?old) = Some g" "f \<le> g"
              "edit_at M sha req (model_of sha bs) ?old ?new (length p) fs =
                (let (written, fs1) = fs_write fs (er_path req) (spliced bs f g ?new) in
                 if \<not> written then (Inl (Err ''write patched bytes''), fs1)
                 else (Inr (ok_result M sha req (model_of sha bs) (length p) (length p + length ?old)
                          f g ?new (spliced bs f g ?new)), fs1))"
            using edit_at_match[OF M view old(2,1)] by blast
          with body Inr Some m view fresh \<open>fs_read fs (er_path req) = Some bs\<close> show ?thesis
            by (intro match[of bs s e p q f g]) (simp_all add: view_of_def)
        qed
      qed
    qed
  qed
qed

end
