(* ===== verification/UniformFiles.thy ===== *)
theory UniformFiles
  imports SnippetEdit
begin

text \<open>
  Files with one kind of line ending: such a file is its canonical text written out with that line
  ending.  For them an edit is exact at the level of bytes, which this theory prepares: the
  dominant line ending is the file's own, and a cut that separates no \<open>CRLF\<close> cuts the file where
  it cuts the text.
\<close>

definition uniform :: "newline_kind \<Rightarrow> bytes \<Rightarrow> bool" where
  "uniform k bs \<longleftrightarrow> bs = expand_lf (nk_as_bytes k) (norm_lf bs)"

lemma nk_as_bytes_cases: "nk_as_bytes k \<in> {[LF], [CR], [CR, LF]}"
  by (cases k) auto

lemma nk_as_bytes_set: "set (nk_as_bytes k) \<subseteq> {CR, LF}"
  by (cases k) auto

lemma expand_set: "b \<in> set (expand_lf nl s) \<Longrightarrow> b \<in> set nl \<or> (b \<in> set s \<and> b \<noteq> LF)"
  by (induction s) (auto split: if_splits)

lemma expand_CR_no_LF: "LF \<notin> set (expand_lf [CR] s)"
  using expand_set[of LF "[CR]" s] by auto

lemma uniform_LF_iff: "nk_as_bytes k = [LF] \<Longrightarrow> uniform k bs \<longleftrightarrow> CR \<notin> set bs"
  using norm_lf_no_CR[of bs] norm_lf_id[of bs] by (auto simp: uniform_def expand_lf_LF)

lemma norm_lf_expand_nk: "CR \<notin> set s \<Longrightarrow> norm_lf (expand_lf (nk_as_bytes k) s) = s"
proof -
  assume "CR \<notin> set s"
  moreover have "nk_as_bytes k = [CR] \<Longrightarrow> \<not> seam (nk_as_bytes k) []" by simp
  ultimately show ?thesis using norm_lf_expand[of "nk_as_bytes k" s "[]"] nk_as_bytes_cases by blast
qed

lemma uniform_expand: "CR \<notin> set s \<Longrightarrow> uniform k (expand_lf (nk_as_bytes k) s)"
  by (simp add: uniform_def norm_lf_expand_nk)

text \<open>In a uniform file, a \<open>CR\<close> not followed by \<open>LF\<close> means that there is no \<open>LF\<close> at all.\<close>

lemma last_expand_CR:
  assumes "expand_lf [CR, LF] s = a @ b" "a \<noteq> []" "last a = CR" "CR \<notin> set s"
  shows "b \<noteq> [] \<and> hd b = LF"
  using assms
proof (induction s arbitrary: a)
  case (Cons c s)
  show ?case
  proof (cases "c = LF")
    case True
    with Cons.prems(1) have "CR # LF # expand_lf [CR, LF] s = a @ b" by simp
    then consider "a = [CR]" "b = LF # expand_lf [CR, LF] s"
      | a' where "a = CR # LF # a'" "expand_lf [CR, LF] s = a' @ b"
      using Cons.prems(2) by (cases a; cases "tl a") (auto simp: Cons_eq_append_conv)
    then show ?thesis
    proof cases
      case 2
      then have "a' \<noteq> []" using Cons.prems(3) by auto
      with 2 Cons.IH[of a'] Cons.prems show ?thesis by simp
    qed simp
  next
    case False
    with Cons.prems(1) have e: "c # expand_lf [CR, LF] s = a @ b" by simp
    then obtain a' where a': "a = c # a'" "expand_lf [CR, LF] s = a' @ b"
      using Cons.prems(2) by (cases a) auto
    then have "a' \<noteq> []" using Cons.prems(3,4) by auto
    with a' Cons.IH[of a'] Cons.prems show ?thesis by simp
  qed
qed simp

lemma seam_in_CR_expand:
  assumes "expand_lf (nk_as_bytes k) s = a @ b" "CR \<notin> set s" "\<not> seam a b"
    and "a \<noteq> []" "last a = CR"
  shows "nk_as_bytes k = [CR] \<or> b = []"
proof (rule ccontr)
  assume no: "\<not> ?thesis"
  then have "nk_as_bytes k = [LF] \<or> nk_as_bytes k = [CR, LF]" using nk_as_bytes_cases[of k] by blast
  then show False
  proof
    assume "nk_as_bytes k = [LF]"
    then have "s = a @ b" using assms(1) by (simp add: expand_lf_LF)
    then show False using assms(2,4,5) last_in_set[of a] by auto
  next
    assume "nk_as_bytes k = [CR, LF]"
    then have "b \<noteq> [] \<and> hd b = LF" using last_expand_CR[of s a b] assms by simp
    then show False using assms(3,4,5) by (simp add: seam_def)
  qed
qed

text \<open>A cut that is no seam cuts a uniform file into two uniform files.\<close>

lemma uniform_cut:
  assumes "uniform k (a @ b)" "\<not> seam a b"
  shows "uniform k a \<and> uniform k b"
proof -
  let ?nl = "nk_as_bytes k"
  let ?A = "expand_lf ?nl (norm_lf a)" and ?B = "expand_lf ?nl (norm_lf b)"
  have eq: "a @ b = ?A @ ?B"
    using assms by (simp add: uniform_def norm_lf_append expand_lf_append)
  have nA: "norm_lf ?A = norm_lf a" "norm_lf ?B = norm_lf b"
    by (simp_all add: norm_lf_expand_nk norm_lf_no_CR)
  obtain u where "(a = ?A @ u \<and> u @ b = ?B) \<or> (a @ u = ?A \<and> b = u @ ?B)"
    using eq unfolding append_eq_append_conv2 by blast
  moreover have "u = []" if u: "a = ?A @ u" "u @ b = ?B"
  proof (rule ccontr)
    assume ne: "u \<noteq> []"
    show False
    proof (cases "seam ?A u")
      case False
      then have "norm_lf a = norm_lf a @ norm_lf u" using norm_lf_append[OF False] nA u(1) by simp
      then show False using ne by (simp add: norm_lf_Nil_iff)
    next
      case True
      then have A: "?A \<noteq> []" "last ?A = CR" "hd u = LF" by (auto simp: seam_def)
      have "?nl = [CR]"
        using A(1,2) nk_as_bytes_cases[of k] last_expand_CR[of "norm_lf a" ?A "[]"] last_in_set[of ?A]
          expand_lf_LF norm_lf_no_CR[of a] by auto
      then have "LF \<notin> set ?B" using expand_CR_no_LF by simp
      then show False using A(3) ne u(2)[symmetric] by (cases u) auto
    qed
  qed
  moreover have "u = []" if u: "a @ u = ?A" "b = u @ ?B"
  proof (rule ccontr)
    assume ne: "u \<noteq> []"
    then have "hd b = hd u" "b \<noteq> []" using u(2) by (metis hd_append2, auto)
    then have "\<not> seam a u" using assms(2) by (auto simp: seam_def)
    then have "norm_lf a = norm_lf a @ norm_lf u" using norm_lf_append[of a u] nA u(1) by simp
    then show False using ne by (simp add: norm_lf_Nil_iff)
  qed
  ultimately have "a = ?A \<and> b = ?B" by auto
  then show ?thesis by (simp add: uniform_def)
qed

section \<open>The dominant line ending of a uniform file\<close>

lemma nl_bytes_nk: "k \<noteq> NkNone \<Longrightarrow> nl_bytes k = nk_as_bytes k"
  by (cases k) (auto simp: nl_bytes_def)

lemma uniform_nl: "uniform k (nk_as_bytes k') \<Longrightarrow> nk_as_bytes k' = nk_as_bytes k"
  by (cases k; cases k') (simp_all add: uniform_def)

lemma uniform_line_kinds:
  assumes "uniform k bs" "k \<noteq> NkNone"
  shows "\<forall>ck \<in> set (lines_of bs). snd ck = k \<or> snd ck = NkNone"
  using assms(1)
proof (induction bs rule: lines_of_induct)
  case (Line bs c k' rest)
  have c: "\<forall>b \<in> set c. \<not> is_nl b" unfolding Line.hyps(2) by (blast dest: set_takeWhileD)
  have "k' = NkNone \<or> k' = k \<and> uniform k rest"
  proof (cases "k' = NkNone")
    case False
    let ?nl' = "nk_as_bytes k'"
    have bs: "bs = c @ ?nl' @ rest" unfolding nl_bytes_nk[OF False, symmetric] by (rule Line.hyps(4))
    have cr: "\<not> starts_with [LF] rest" if "?nl' = [CR]"
    proof -
      have "k' = NkCr" using that by (cases k') auto
      from Line.hyps(3)[unfolded this] show ?thesis by (rule newline_at_NkCr)
    qed
    have "\<not> seam c r" for r
    proof
      assume "seam c r"
      then have "c \<noteq> []" "is_nl (last c)" by (simp_all add: seam_def is_nl_def)
      with c last_in_set show False by blast
    qed
    moreover have "uniform k (c @ ?nl' @ rest)" using Line.prems by (rule bs[THEN subst])
    ultimately have u1: "uniform k (?nl' @ rest)" using uniform_cut[of k c "?nl' @ rest"] by blast
    have no: "\<not> seam ?nl' rest"
      using cr nk_as_bytes_cases[of k'] by (cases rest) (auto simp: seam_def starts_with_iff)
    with u1 have u2: "uniform k ?nl'" "uniform k rest" using uniform_cut by blast+
    have "?nl' = nk_as_bytes k" using u2(1) by (rule uniform_nl)
    then have "k' = k" using False assms(2) by (cases k; cases k') auto
    with u2(2) show ?thesis by simp
  qed simp
  moreover have "k' = NkNone \<Longrightarrow> rest = []"
    using newline_at_NkNone Line.hyps(3) dropWhile_hd_nl by blast
  ultimately show ?case using Line.IH unfolding Line.hyps(5) by auto
qed simp

lemma stats_uniform:
  assumes "\<forall>j \<in> set ks. j = k \<or> j = NkNone" "k \<noteq> NkNone"
  shows "foldl stats_record st ks =
    (let n = length (filter ((=) k) ks) in
     (case k of NkLf \<Rightarrow> st\<lparr> st_lf := st_lf st + n \<rparr> | NkCrLf \<Rightarrow> st\<lparr> st_crlf := st_crlf st + n \<rparr>
      | _ \<Rightarrow> st\<lparr> st_cr := st_cr st + n \<rparr>))"
  using assms
  by (induction ks arbitrary: st) (auto simp: Let_def split: newline_kind.splits)

lemma default_kind_uniform:
  assumes "\<forall>j \<in> set ks. j = k \<or> j = NkNone" "k \<noteq> NkNone"
  shows "default_kind (foldl stats_record stats_default ks) = (if filter ((=) k) ks = [] then NkLf else k)"
  unfolding stats_uniform[OF assms] using assms(2)
  by (cases k) (auto simp: stats_default_def default_kind_def stats_dominant_def Let_def)

lemma dominant_of_uniform:
  assumes "uniform k bs" "k \<noteq> NkNone"
  shows "dominant_of bs = k \<or> (LF \<notin> set (norm_lf bs) \<and> dominant_of bs = NkLf)"
proof -
  let ?ks = "map snd (file_lines bs)"
  have ks: "\<forall>j \<in> set ?ks. j = k \<or> j = NkNone"
    using uniform_line_kinds[OF assms] by (auto simp: file_lines_def)
  note dom = default_kind_uniform[OF ks assms(2), folded dominant_of_def]
  show ?thesis
  proof (cases "filter ((=) k) ?ks = []")
    case True
    then have none: "\<forall>ck \<in> set (lines_of bs). snd ck = NkNone"
      using ks by (auto simp: file_lines_def filter_empty_conv split: if_splits)
    have "\<not> is_nl b" if "b \<in> set bs" for b
    proof -
      have "b \<in> set (concat (map (\<lambda>(c, k). c @ nl_bytes k) (lines_of bs)))"
        using that by (simp only: concat_lines_of)
      then obtain c j where cj: "(c, j) \<in> set (lines_of bs)" "b \<in> set (c @ nl_bytes j)" by auto
      have "j = NkNone" using none cj(1) by fastforce
      then show ?thesis using cj lines_of_no_nl[OF cj(1)] by (simp add: nl_bytes_def)
    qed
    then have "CR \<notin> set bs" "LF \<notin> set bs" by (auto simp: is_nl_def)
    with True dom show ?thesis by (simp add: norm_lf_id)
  qed (simp add: dom)
qed

end
