(* ===== verification/EditSession.thy ===== *)
theory EditSession
  imports SnippetEdit
begin

text \<open>
  \<^verbatim>\<open>tools-mcp-local/src/edit_snapshot.rs\<close> and \<open>handle_edit\<close> of
  \<^verbatim>\<open>smart_file_edit/mod.rs\<close>: the store of hashes the server has seen, the handler of the tool, and
  a server session as a step relation over reads, edits and changes made by other processes.
\<close>

section \<open>The snapshot store\<close>

type_synonym snapshots = "bytes \<rightharpoonup> bytes"

definition snapshot_key :: "file_system \<Rightarrow> bytes \<Rightarrow> bytes option" where
  "snapshot_key fs p = map_option from_utf8_lossy (canonicalize fs p)"

definition snapshot_record :: "file_system \<Rightarrow> bytes \<Rightarrow> bytes \<Rightarrow> snapshots \<Rightarrow> snapshots" where
  "snapshot_record fs p h snaps =
     (case snapshot_key fs p of Some k \<Rightarrow> snaps(k \<mapsto> h) | None \<Rightarrow> snaps)"

definition record_bytes ::
  "(bytes \<Rightarrow> bytes) \<Rightarrow> file_system \<Rightarrow> bytes \<Rightarrow> bytes \<Rightarrow> snapshots \<Rightarrow> snapshots" where
  "record_bytes sha fs p bs snaps = snapshot_record fs p (compute_hash sha bs) snaps"

definition snapshot_get :: "file_system \<Rightarrow> bytes \<Rightarrow> snapshots \<Rightarrow> bytes option" where
  "snapshot_get fs p snaps = Option.bind (snapshot_key fs p) snaps"

section \<open>The handler\<close>

record simple_edit_request =
  se_path :: bytes
  se_old :: bytes
  se_new :: bytes
  se_hint :: "match_hint option"
  se_region :: "bytes option"

datatype edit_reply =
    RequiredPath
  | EmptyOldSnippet
  | PathRejected path_policy_error
  | NoSnapshot
  | EditError edit_error
  | EditResult snippet_result

definition reply_is_error :: "edit_reply \<Rightarrow> bool" where
  "reply_is_error r \<longleftrightarrow> (case r of EditResult (SnOk _) \<Rightarrow> False | _ \<Rightarrow> True)"

definition validate_non_empty :: "bytes \<Rightarrow> bool" where
  "validate_non_empty s \<longleftrightarrow> \<not> all_whitespace s"

record server =
  disk :: file_system
  snaps :: snapshots

definition handle_edit ::
  "memlib \<Rightarrow> (bytes \<Rightarrow> bytes) \<Rightarrow> simple_edit_request \<Rightarrow> server \<Rightarrow> edit_reply \<times> server" where
  "handle_edit M sha req s =
     (if \<not> validate_non_empty (se_path req) then (RequiredPath, s)
      else if se_old req = [] then (EmptyOldSnippet, s)
      else case resolve_existing_file (disk s) (se_path req) ''path'' of
        Inl e \<Rightarrow> (PathRejected e, s)
      | Inr path \<Rightarrow>
        (case snapshot_get (disk s) path (snaps s) of
           None \<Rightarrow> (NoSnapshot, s)
         | Some expected \<Rightarrow>
           let ireq = \<lparr> er_path = from_utf8_lossy path, er_old = se_old req, er_new = se_new req,
                        er_hint = se_hint req, er_hash = Some expected, er_region = se_region req \<rparr>;
               (res, fs1) = apply_snippet_edit_impl M sha ireq (disk s)
           in (case res of
                 Inr (SnOk pay) \<Rightarrow>
                   (EditResult (SnOk pay),
                    s\<lparr> disk := fs1, snaps := snapshot_record fs1 path (file_hash_after pay) (snaps s) \<rparr>)
               | Inr other \<Rightarrow> (EditResult other, s\<lparr> disk := fs1 \<rparr>)
               | Inl e \<Rightarrow> (EditError e, s\<lparr> disk := fs1 \<rparr>))))"

section \<open>The contract of the store\<close>

text \<open>What the handlers rely on: a look-up yields the last hash recorded under the same key, whatever
  the spelling of the path and the state of the environment in which the key was computed.\<close>

locale hash_store =
  fixes key :: "'e \<Rightarrow> 'p \<Rightarrow> 'k option"
    and rec :: "'e \<Rightarrow> 'p \<Rightarrow> 'h \<Rightarrow> 's \<Rightarrow> 's"
    and get :: "'e \<Rightarrow> 'p \<Rightarrow> 's \<Rightarrow> 'h option"
    and init :: 's
  assumes get_rec: "get e q (rec d p h s) =
      (if key d p \<noteq> None \<and> key e q = key d p then Some h else get e q s)"
    and get_init: "get e q init = None"
begin

lemma get_history:
  "get e q (foldl (\<lambda>s (d, p, h). rec d p h s) init xs) =
     map_option (\<lambda>(d, p, h). h)
       (List.find (\<lambda>(d, p, h). key d p \<noteq> None \<and> key e q = key d p) (rev xs))"
proof (induction xs rule: rev_induct)
  case (snoc x xs)
  obtain d p h where "x = (d, p, h)" by (cases x)
  then show ?case using snoc by (cases "key d p"; cases "key e q = key d p") (simp_all add: get_rec)
qed (simp add: get_init)

lemma get_after_rec: "key d p = Some k \<Longrightarrow> key e q = Some k \<Longrightarrow> get e q (rec d p h s) = Some h"
  by (simp add: get_rec)

end

interpretation st: hash_store snapshot_key snapshot_record snapshot_get "Map.empty"
  by unfold_locales
    (auto simp: snapshot_get_def snapshot_record_def split: option.splits bind_splits)

section \<open>Sessions\<close>

text \<open>A session interleaves the two halves of a read (the bytes are loaded, then their hash is
  recorded), edits, and changes other processes make to the file system.  \<open>seen\<close> is a ghost: the
  contents the server has shown or written, with the key they were recorded under.\<close>

record session =
  srv :: server
  loaded :: "(bytes \<times> bytes) list"
  seen :: "(bytes option \<times> bytes) list"

definition edited_path :: "server \<Rightarrow> simple_edit_request \<Rightarrow> bytes" where
  "edited_path s req =
     (case resolve_existing_file (disk s) (se_path req) ''path'' of Inr p \<Rightarrow> p | Inl _ \<Rightarrow> [])"

definition note_edit :: "simple_edit_request \<Rightarrow> edit_reply \<Rightarrow> server \<Rightarrow> session \<Rightarrow> session" where
  "note_edit req r s' x =
     (let p = edited_path (srv x) req in
      x\<lparr> srv := s',
         seen := (case (r, fs_read (disk s') (from_utf8_lossy p)) of
                    (EditResult (SnOk _), Some bs) \<Rightarrow> (snapshot_key (disk s') p, bs) # seen x
                  | _ \<Rightarrow> seen x) \<rparr>)"

inductive session_step :: "memlib \<Rightarrow> (bytes \<Rightarrow> bytes) \<Rightarrow> session \<Rightarrow> session \<Rightarrow> bool"
  for M sha where
  load: "fs_read (disk (srv x)) p = Some bs \<Longrightarrow>
    session_step M sha x (x\<lparr> loaded := (p, bs) # loaded x \<rparr>)"
| note_read: "(p, bs) \<in> set (loaded x) \<Longrightarrow>
    session_step M sha x (x\<lparr> srv := (srv x)\<lparr> snaps := record_bytes sha (disk (srv x)) p bs (snaps (srv x)) \<rparr>,
      seen := (snapshot_key (disk (srv x)) p, bs) # seen x \<rparr>)"
| edit: "handle_edit M sha req (srv x) = (r, s') \<Longrightarrow> utf8_valid (se_old req) \<Longrightarrow>
    session_step M sha x (note_edit req r s' x)"
| external: "session_step M sha x (x\<lparr> srv := (srv x)\<lparr> disk := d \<rparr> \<rparr>)"

inductive session_reach :: "memlib \<Rightarrow> (bytes \<Rightarrow> bytes) \<Rightarrow> session \<Rightarrow> bool"
  for M sha where
  start: "session_reach M sha \<lparr> srv = \<lparr> disk = d, snaps = Map.empty \<rparr>, loaded = [], seen = [] \<rparr>"
| step: "session_reach M sha x \<Longrightarrow> session_step M sha x y \<Longrightarrow> session_reach M sha y"

inductive_cases session_stepE: "session_step M sha x y"

definition snapshots_seen :: "(bytes \<Rightarrow> bytes) \<Rightarrow> session \<Rightarrow> bool" where
  \<comment> \<open>every recorded hash is the hash of contents the session has seen under that key\<close>
  "snapshots_seen sha x \<longleftrightarrow>
     (\<forall>k h. snaps (srv x) k = Some h \<longrightarrow> (\<exists>bs. (Some k, bs) \<in> set (seen x) \<and> h = compute_hash sha bs))"

section \<open>One call of the handler\<close>

lemma snippet_edit_changes:
  assumes "memlib_ok M" "utf8_valid (er_old req)"
    and "apply_snippet_edit_impl M sha req fs = (res, fs')"
    and "fs' \<noteq> fs \<or> (\<exists>pay. res = Inr (SnOk pay))"
  obtains bs where "fs_read fs (er_path req) = Some bs"
    "expected_hash req = None \<or> expected_hash req = Some (compute_hash sha bs)"
    "canonicalize fs' = canonicalize fs"
    "\<And>pay. res = Inr (SnOk pay) \<Longrightarrow>
      \<exists>bs'. fs_read fs' (er_path req) = Some bs' \<and> file_hash_after pay = compute_hash sha bs'"
proof (cases "er_old req = []")
  case True
  with assms(3,4) show ?thesis by (auto simp: apply_snippet_edit_impl_def)
next
  case False
  show ?thesis
  proof (rule apply_snippet_edit_cases[OF assms(1,2) False assms(3)], goal_cases)
    case (5 bs s e p q f g)
    let ?new = "spliced bs f g (norm_lf (er_new req))"
    obtain w fs1 where w: "fs_write fs (er_path req) ?new = (w, fs1)"
      by (cases "fs_write fs (er_path req) ?new")
    note fw = fs_read_write[OF 5(1) w]
    show ?thesis
      using 5(1,2,11) fw w
      by (intro that) (auto simp: ok_result_def Let_def split: if_splits)
  qed (use assms(4) in auto)
qed

lemma snippet_edit_files_only:
  assumes "memlib_ok M" "utf8_valid (er_old req)"
    and "apply_snippet_edit_impl M sha req fs = (res, fs')"
  shows "fs' = fs\<lparr> files := files fs' \<rparr>"
proof (cases "er_old req = []")
  case True
  with assms(3) show ?thesis by (auto simp: apply_snippet_edit_impl_def)
next
  case False
  show ?thesis
    by (rule apply_snippet_edit_cases[OF assms(1,2) False assms(3)])
      (auto simp: fs_write_def Let_def split: option.splits if_splits prod.splits)
qed

lemma snippet_edit_frame:
  assumes "memlib_ok M" "utf8_valid (er_old req)"
    and "apply_snippet_edit_impl M sha req fs = (res, fs')" "q \<noteq> fs_key fs (er_path req)"
  shows "files fs' q = files fs q"
proof (cases "er_old req = []")
  case True
  with assms(3) show ?thesis by (auto simp: apply_snippet_edit_impl_def)
next
  case False
  show ?thesis
    using assms(4) by (rule_tac apply_snippet_edit_cases[OF assms(1,2) False assms(3)])
      (auto simp: fs_write_def Let_def split: option.splits if_splits prod.splits)
qed

lemma resolve_existing_file_files:
  "resolve_existing_file (fs\<lparr> files := f \<rparr>) p fd = resolve_existing_file fs p fd"
  by (simp add: resolve_existing_file_def canonical_workspace_def resolve_existing_under_workspace_def
      path_exists_or_symlink_def canonicalize_checked_def cong: option.case_cong if_cong)

definition internal_request :: "simple_edit_request \<Rightarrow> bytes \<Rightarrow> bytes \<Rightarrow> edit_request" where
  "internal_request req path expected =
     \<lparr> er_path = from_utf8_lossy path, er_old = se_old req, er_new = se_new req,
       er_hint = se_hint req, er_hash = Some expected, er_region = se_region req \<rparr>"

text \<open>A call that changes the server passed every check, and its effect is that of the inner edit.\<close>

lemma handle_edit_changes:
  assumes "handle_edit M sha req s = (r, s')" "s' \<noteq> s \<or> (\<exists>pay. r = EditResult (SnOk pay))"
  obtains path h res fs' where "resolve_existing_file (disk s) (se_path req) ''path'' = Inr path"
    "snapshot_get (disk s) path (snaps s) = Some h"
    "apply_snippet_edit_impl M sha (internal_request req path h) (disk s) = (res, fs')"
    "disk s' = fs'"
    "case res of
       Inr (SnOk pay) \<Rightarrow> r = EditResult (SnOk pay)
         \<and> snaps s' = snapshot_record fs' path (file_hash_after pay) (snaps s)
     | _ \<Rightarrow> snaps s' = snaps s \<and> (\<forall>pay. r \<noteq> EditResult (SnOk pay))"
proof -
  from assms obtain path h where ph: "resolve_existing_file (disk s) (se_path req) ''path'' = Inr path"
      "snapshot_get (disk s) path (snaps s) = Some h"
    by (auto simp: handle_edit_def split: if_splits sum.splits option.splits)
  obtain res fs' where run: "apply_snippet_edit_impl M sha (internal_request req path h) (disk s) = (res, fs')"
    by (cases "apply_snippet_edit_impl M sha (internal_request req path h) (disk s)")
  have checks: "validate_non_empty (se_path req)" "se_old req \<noteq> []"
    using assms by (auto simp: handle_edit_def split: if_splits)
  have "(r, s') = (case res of
        Inr (SnOk pay) \<Rightarrow> (EditResult (SnOk pay),
            s\<lparr> disk := fs', snaps := snapshot_record fs' path (file_hash_after pay) (snaps s) \<rparr>)
      | Inr other \<Rightarrow> (EditResult other, s\<lparr> disk := fs' \<rparr>)
      | Inl e \<Rightarrow> (EditError e, s\<lparr> disk := fs' \<rparr>))"
    using assms(1) checks ph run by (simp add: handle_edit_def internal_request_def)
  then show ?thesis
    by (intro that[OF ph run]) (auto split: sum.splits snippet_result.splits)
qed

definition sha_hex :: "(bytes \<Rightarrow> bytes) \<Rightarrow> bool" where
  \<comment> \<open>the digest is printed as hexadecimal digits\<close>
  "sha_hex sha \<longleftrightarrow> (\<forall>bs. \<forall>b \<in> set (sha bs). hexdigit b)"

lemma trim_compute_hash: "sha_hex sha \<Longrightarrow> trim (compute_hash sha bs) = compute_hash sha bs"
proof -
  assume hex: "sha_hex sha"
  have h: "bval b < 128 \<and> \<not> is_ws_char [b]" if "hexdigit b" for b
    using that by (auto simp: hexdigit_def is_digit_def is_ws_char_def)
  have p: "\<forall>b \<in> set ''sha256:''. bval b < 128 \<and> \<not> is_ws_char [b]" by code_simp
  have all: "\<forall>b \<in> set (compute_hash sha bs). bval b < 128 \<and> \<not> is_ws_char [b]"
    using h p hex by (auto simp: compute_hash_def sha_hex_def)
  have ne: "compute_hash sha bs \<noteq> []" by (simp add: compute_hash_def)
  show ?thesis using all ne by (intro trim_ascii_id) (auto simp: hd_in_set last_in_set)
qed

lemma expected_hash_internal:
  "sha_hex sha \<Longrightarrow> expected_hash (internal_request req path (compute_hash sha bs)) = Some (compute_hash sha bs)"
  by (simp add: expected_hash_def internal_request_def trim_compute_hash)
    (simp add: compute_hash_def)

end
