(* ===== verification/EditProps.thy ===== *)
theory EditProps
  imports UniformFiles EditSession
begin

text \<open>
  The properties of the edit component.  The first section runs the edit on one file, the second
  runs the handler in a server whose files other processes may change.
\<close>

section \<open>The edit of one file\<close>

definition all_writes_succeed :: "file_system \<Rightarrow> bool" where
  "all_writes_succeed fs \<longleftrightarrow> (\<forall>p bs. write_fault fs p bs = None)"

text \<open>What a successful edit leaves behind, for any file.\<close>

lemma edit_ok_spliced:
  assumes M: "memlib_ok M" and valid: "utf8_valid (er_old req)"
    and ok: "apply_snippet_edit_impl M sha req fs = (Inr (SnOk pay), fs')"
  obtains bs s e p q f g where "fs_read fs (er_path req) = Some bs"
    "hint_range bs (er_hint req) = Some (s, e)"
    "view_of bs = p @ norm_lf (er_old req) @ q" "s \<le> length p"
    "length p + length (norm_lf (er_old req)) \<le> e"
    "\<And>j. s \<le> j \<Longrightarrow> j < length p \<Longrightarrow>
       \<not> starts_with (norm_lf (er_old req)) (take (e - j) (drop j (view_of bs)))"
    "byte_offset (canonical_of bs) (length p) = Some f"
    "byte_offset (canonical_of bs) (length p + length (norm_lf (er_old req))) = Some g" "f \<le> g"
    "fs_read fs' (er_path req) = Some (spliced bs f g (norm_lf (er_new req)))"
    "replaced_byte_range pay = (f, g)"
    "file_hash_before pay = compute_hash sha bs"
    "file_hash_after pay = compute_hash sha (spliced bs f g (norm_lf (er_new req)))"
    "expected_hash req = None \<or> expected_hash req = Some (compute_hash sha bs)"
    "canonicalize fs' = canonicalize fs"
proof -
  have ne: "er_old req \<noteq> []" using ok by (auto simp: apply_snippet_edit_impl_def)
  show ?thesis
  proof (rule apply_snippet_edit_cases[OF M valid ne ok], goal_cases)
    case (5 bs s e p q f g)
    obtain w fs1 where w: "fs_write fs (er_path req) (spliced bs f g (norm_lf (er_new req))) = (w, fs1)"
      by (cases "fs_write fs (er_path req) (spliced bs f g (norm_lf (er_new req)))")
    with 5(11) have res: "w" "fs' = fs1"
        "pay = (case ok_result M sha req (model_of sha bs) (length p)
                  (length p + length (norm_lf (er_old req))) f g (norm_lf (er_new req))
                  (spliced bs f g (norm_lf (er_new req))) of SnOk x \<Rightarrow> x | _ \<Rightarrow> undefined)"
      by (auto split: if_splits simp: ok_result_def Let_def)
    note fw = fs_read_write[OF 5(1) w]
    have "replaced_byte_range pay = (f, g)" "file_hash_before pay = compute_hash sha bs"
        "file_hash_after pay = compute_hash sha (spliced bs f g (norm_lf (er_new req)))"
      unfolding res(3) by (simp_all add: ok_result_def model_of_def Let_def)
    then show ?thesis using 5(1-10) fw res(1,2) by (intro that) auto
  qed auto
qed

text \<open>In a valid uniform file the splice is the splice of the text.\<close>

lemma spliced_uniform:
  assumes "utf8_valid bs" "uniform k bs" "k \<noteq> NkNone" "view_of bs = p @ old @ q"
    and f: "byte_offset (canonical_of bs) (length p) = Some f"
    and g: "byte_offset (canonical_of bs) (length p + length old) = Some g"
  shows "spliced bs f g new = expand_lf (nk_as_bytes (dominant_of bs)) (p @ new @ q)"
proof -
  let ?x = "expand_lf (nk_as_bytes k)"
  have cut: "take c bs = ?x (take d (view_of bs)) \<and> drop c bs = ?x (drop d (view_of bs))"
    if "byte_offset (canonical_of bs) d = Some c" for c d
    using uniform_cut[of k "take c bs" "drop c bs"] om.lookup_no_seam[OF that] assms(2)
      om.lookup_cut[OF assms(1) that] by (simp add: uniform_def view_of_def)
  have pq: "take f bs = ?x p" "drop g bs = ?x q" using cut[OF f] cut[OF g] assms(4) by simp_all
  have norm: "norm_lf bs = p @ old @ q"
    using canonical_view_norm[OF assms(1)] assms(4) by (simp add: view_of_def)
  consider "dominant_of bs = k" | "LF \<notin> set (norm_lf bs)"
    using dominant_of_uniform[OF assms(2,3)] by blast
  then show ?thesis
  proof cases
    case 1
    then show ?thesis by (simp add: spliced_def pq expand_lf_append)
  next
    case 2
    then have "LF \<notin> set p" "LF \<notin> set q" by (auto simp: norm)
    then show ?thesis by (simp add: spliced_def pq expand_lf_append expand_lf_id)
  qed
qed

text \<open>C2. Exactness.  A successful edit of a valid UTF-8 file with one kind of line ending replaces
  exactly one occurrence of the old snippet by the new one in the file's text, and the file keeps
  its line ending throughout: its bytes are the new text written out with that ending.  (A file
  without any line ending gets LF.)\<close>

theorem edit_exact:
  assumes "memlib_ok M" "utf8_valid (er_old req)"
    and "fs_read fs (er_path req) = Some bs" "utf8_valid bs" "uniform k bs" "k \<noteq> NkNone"
    and "apply_snippet_edit_impl M sha req fs = (Inr (SnOk pay), fs')"
  shows "\<exists>p q k'. norm_lf bs = p @ norm_lf (er_old req) @ q
    \<and> fs_read fs' (er_path req)
        = Some (expand_lf (nk_as_bytes k') (p @ norm_lf (er_new req) @ q))
    \<and> (k' = k \<or> k' = NkLf \<and> LF \<notin> set (norm_lf bs))"
proof (rule edit_ok_spliced[OF assms(1,2,7)], goal_cases)
  case (1 bs' s e p q f g)
  have [simp]: "bs' = bs" using 1(1) assms(3) by simp
  have norm: "norm_lf bs = p @ norm_lf (er_old req) @ q"
    using canonical_view_norm[OF assms(4)] 1(3) by (simp add: view_of_def)
  have "spliced bs f g (norm_lf (er_new req))
      = expand_lf (nk_as_bytes (dominant_of bs)) (p @ norm_lf (er_new req) @ q)"
    using spliced_uniform[OF assms(4-6)] 1(3,7,8) by simp
  then show ?thesis using norm 1(10) dominant_of_uniform[OF assms(5,6)] by auto
qed

definition demo_fs :: "bytes \<Rightarrow> file_system" where
  \<comment> \<open>one file, \<open>/w/a\<close>\<close>
  "demo_fs bs = \<lparr> files = [''/w/a'' \<mapsto> bs], write_fault = (\<lambda>_ _. None),
     canonicalize = (\<lambda>p. if p = ''/w/a'' \<or> p = ''/w'' then Some p else None),
     symlink_kind = (\<lambda>p. if p = ''/w/a'' then Some RegularFile
                          else if p = ''/w'' then Some Directory else None),
     target_kind = (\<lambda>p. if p = ''/w/a'' then Some RegularFile
                          else if p = ''/w'' then Some Directory else None),
     current_dir = Some ''/w'' \<rparr>"

definition demo_req :: "bytes \<Rightarrow> bytes \<Rightarrow> edit_request" where
  "demo_req old new = \<lparr> er_path = ''/w/a'', er_old = old, er_new = new, er_hint = None,
     er_hash = None, er_region = None \<rparr>"

definition sn_ok :: "edit_error + snippet_result \<Rightarrow> bool" where
  "sn_ok r \<longleftrightarrow> (case r of Inr (SnOk _) \<Rightarrow> True | _ \<Rightarrow> False)"

lemma sn_ok_run:
  "sn_ok (fst (apply_snippet_edit_impl M sha req fs)) \<Longrightarrow>
   \<exists>pay. apply_snippet_edit_impl M sha req fs = (Inr (SnOk pay), snd (apply_snippet_edit_impl M sha req fs))"
  by (auto simp: sn_ok_def prod_eq_iff split: sum.splits snippet_result.splits)

lemma demo_edit_crlf:
  "sn_ok (fst (apply_snippet_edit_impl ref_memlib (\<lambda>_. ''00'')
     (demo_req ''b'' [CHR ''x'', LF, CHR ''y'']) (demo_fs [CHR ''a'', CR, LF, CHR ''b'', CR, LF])))"
  by code_simp

theorem edit_exact_witness:
  "\<exists>p q k'. norm_lf [CHR ''a'', CR, LF, CHR ''b'', CR, LF] = p @ norm_lf ''b'' @ q
    \<and> fs_read (snd (apply_snippet_edit_impl ref_memlib (\<lambda>_. ''00'')
         (demo_req ''b'' [CHR ''x'', LF, CHR ''y'']) (demo_fs [CHR ''a'', CR, LF, CHR ''b'', CR, LF]))) ''/w/a''
      = Some (expand_lf (nk_as_bytes k') (p @ norm_lf [CHR ''x'', LF, CHR ''y''] @ q))
    \<and> (k' = NkCrLf \<or> k' = NkLf \<and> LF \<notin> set (norm_lf [CHR ''a'', CR, LF, CHR ''b'', CR, LF]))"
proof -
  have "utf8_valid [CHR ''a'', CR, LF, CHR ''b'', CR, LF]" "utf8_valid ''b''"
      "uniform NkCrLf [CHR ''a'', CR, LF, CHR ''b'', CR, LF]"
      "fs_read (demo_fs [CHR ''a'', CR, LF, CHR ''b'', CR, LF]) ''/w/a''
        = Some [CHR ''a'', CR, LF, CHR ''b'', CR, LF]"
    by code_simp+
  with sn_ok_run[OF demo_edit_crlf] edit_exact[OF ref_memlib_ok, of "demo_req ''b'' [CHR ''x'', LF, CHR ''y'']"
      "demo_fs [CHR ''a'', CR, LF, CHR ''b'', CR, LF]" "[CHR ''a'', CR, LF, CHR ''b'', CR, LF]" NkCrLf]
  show ?thesis by (auto simp: demo_req_def)
qed

text \<open>C35. Files with mixed line endings.  In any valid UTF-8 file, the text after a successful edit is
  the text before with the occurrence replaced, provided the replacement does not meet its
  surroundings in a \<open>CR\<close> followed by an \<open>LF\<close>, which would read as one line ending.\<close>

theorem edit_text_exact:
  assumes "memlib_ok M" "utf8_valid (er_old req)" "utf8_valid (er_new req)"
    and "fs_read fs (er_path req) = Some bs" "utf8_valid bs"
    and "apply_snippet_edit_impl M sha req fs = (Inr (SnOk pay), fs')"
  shows "\<exists>p q a b bs'. norm_lf bs = p @ norm_lf (er_old req) @ q
    \<and> norm_lf a = p \<and> norm_lf b = q
    \<and> bs' = a @ expand_lf (nk_as_bytes (dominant_of bs)) (norm_lf (er_new req)) @ b
    \<and> fs_read fs' (er_path req) = Some bs' \<and> utf8_valid bs'
    \<and> (seam a (expand_lf (nk_as_bytes (dominant_of bs)) (norm_lf (er_new req)) @ b)
       \<or> seam (expand_lf (nk_as_bytes (dominant_of bs)) (norm_lf (er_new req))) b
       \<or> norm_lf bs' = p @ norm_lf (er_new req) @ q)"
proof (rule edit_ok_spliced[OF assms(1,2,6)], goal_cases)
  case (1 bs2 s e p q f g)
  have [simp]: "bs2 = bs" using 1(1) assms(4) by simp
  let ?r = "expand_lf (nk_as_bytes (dominant_of bs)) (norm_lf (er_new req))"
  have view: "view_of bs = norm_lf bs" using canonical_view_norm[OF assms(5)] by (simp add: view_of_def)
  have cut: "norm_lf (take f bs) = p" "norm_lf (drop g bs) = q"
    using om.lookup_cut[OF assms(5), of "length p" f] 1(3,7)
      om.lookup_cut[OF assms(5), of "length p + length (norm_lf (er_old req))" g] 1(8)
    by (simp_all add: view_of_def)
  have "\<forall>c \<in> set (nk_as_bytes (dominant_of bs)). bval c < 128"
    using nk_as_bytes_set[of "dominant_of bs"] by (auto simp: bval_def)
  then have r: "utf8_valid ?r" by (intro expand_lf_utf8 norm_lf_utf8 assms(3))
  have "utf8_valid (take f bs @ ?r @ drop g bs)"
    using om.splice_valid[OF assms(5) _ _ r] 1(7,8) by simp
  moreover have "norm_lf ?r = norm_lf (er_new req)" by (simp add: norm_lf_expand_nk norm_lf_no_CR)
  then have "seam (take f bs) (?r @ drop g bs) \<or> seam ?r (drop g bs)
      \<or> norm_lf (take f bs @ ?r @ drop g bs) = p @ norm_lf (er_new req) @ q"
    using norm_lf_append[of "take f bs" "?r @ drop g bs"] norm_lf_append[of ?r "drop g bs"] cut
    by (cases "seam ?r (drop g bs)") auto
  ultimately show ?thesis
    using 1(3,10) cut view unfolding spliced_def by (metis \<open>bs2 = bs\<close>)
qed

theorem edit_text_exact_witness:
  "\<exists>bs'. fs_read (snd (apply_snippet_edit_impl ref_memlib (\<lambda>_. ''00'')
         (demo_req ''b'' [CHR ''x'', LF, CHR ''y'']) (demo_fs [CHR ''a'', CR, LF, CHR ''b'', CR, LF])))
       (er_path (demo_req ''b'' [CHR ''x'', LF, CHR ''y''])) = Some bs' \<and> utf8_valid bs'"
proof -
  let ?req = "demo_req ''b'' [CHR ''x'', LF, CHR ''y'']" and ?bs = "[CHR ''a'', CR, LF, CHR ''b'', CR, LF]"
  have pre: "utf8_valid (er_old ?req)" "utf8_valid (er_new ?req)"
      "fs_read (demo_fs ?bs) (er_path ?req) = Some ?bs" "utf8_valid ?bs"
    by code_simp+
  obtain pay where "apply_snippet_edit_impl ref_memlib (\<lambda>_. ''00'') ?req (demo_fs ?bs)
      = (Inr (SnOk pay), snd (apply_snippet_edit_impl ref_memlib (\<lambda>_. ''00'') ?req (demo_fs ?bs)))"
    using sn_ok_run[OF demo_edit_crlf] by blast
  from edit_text_exact[OF ref_memlib_ok pre this] show ?thesis by blast
qed




text \<open>Completeness.  Where writes succeed, an edit succeeds exactly when the file can be read, it
  still has the expected hash, the hint (if any) names lines of the file, and the snippet occurs
  in the hinted part of the file's text.\<close>

theorem edit_succeeds_iff:
  assumes M: "memlib_ok M" and valid: "utf8_valid (er_old req)"
    and writes: "all_writes_succeed fs"
  shows "sn_ok (fst (apply_snippet_edit_impl M sha req fs)) \<longleftrightarrow>
    er_old req \<noteq> [] \<and> (\<exists>bs s e. fs_read fs (er_path req) = Some bs
      \<and> (expected_hash req = None \<or> expected_hash req = Some (compute_hash sha bs))
      \<and> hint_range bs (er_hint req) = Some (s, e)
      \<and> (\<exists>a b. take (e - s) (drop s (view_of bs)) = a @ norm_lf (er_old req) @ b))"
proof (cases "er_old req = []")
  case True
  then show ?thesis by (simp add: apply_snippet_edit_impl_def sn_ok_def)
next
  case ne: False
  obtain res fs' where run: "apply_snippet_edit_impl M sha req fs = (res, fs')"
    by (cases "apply_snippet_edit_impl M sha req fs")
  show ?thesis
  proof (rule apply_snippet_edit_cases[OF M valid ne run], goal_cases)
    case (5 bs s e p q f g)
    obtain w fs1 where w: "fs_write fs (er_path req) (spliced bs f g (norm_lf (er_new req))) = (w, fs1)"
      by (cases "fs_write fs (er_path req) (spliced bs f g (norm_lf (er_new req)))")
    have "w" using w writes by (auto simp: fs_write_def all_writes_succeed_def)
    then have ok: "sn_ok res" using 5(11) w by (simp add: sn_ok_def ok_result_def Let_def)
    have "take (e - s) (drop s (view_of bs)) = drop s p @ norm_lf (er_old req)
        @ take (e - s - length (drop s p) - length (norm_lf (er_old req))) q"
      using 5(5,6) unfolding 5(4) by simp
    then have occ: "\<exists>a b. take (e - s) (drop s (view_of bs)) = a @ norm_lf (er_old req) @ b" by blast
    show ?thesis unfolding run using ok ne 5(1-3) occ by auto
  qed (use run in \<open>auto simp: sn_ok_def\<close>)
qed

theorem edit_succeeds_iff_witness:
  "\<not> sn_ok (fst (apply_snippet_edit_impl ref_memlib (\<lambda>_. ''00'') (demo_req ''b'' ''c'') (demo_fs [])))"
proof -
  have "utf8_valid ''b''" by code_simp
  moreover have "all_writes_succeed (demo_fs [])" by (simp add: all_writes_succeed_def demo_fs_def)
  moreover have "view_of [] = []" by code_simp
  ultimately show ?thesis
    using edit_succeeds_iff[OF ref_memlib_ok, of "demo_req ''b'' ''c''" "demo_fs []" "\<lambda>_. ''00''"]
    by (auto simp: demo_req_def demo_fs_def fs_read_def)
qed

text \<open>What an edit replaces, in any file: the first occurrence of the snippet in the hinted part
  of the text, at the bytes the reply reports; all other bytes stay, and the hashes of the reply
  are those of the contents before and after.\<close>

theorem edit_replaces_first:
  assumes "memlib_ok M" "utf8_valid (er_old req)"
    and "apply_snippet_edit_impl M sha req fs = (Inr (SnOk pay), fs')"
  shows "\<exists>bs s e p q f g new'. fs_read fs (er_path req) = Some bs
    \<and> hint_range bs (er_hint req) = Some (s, e)
    \<and> view_of bs = p @ norm_lf (er_old req) @ q
    \<and> s \<le> length p \<and> length p + length (norm_lf (er_old req)) \<le> e
    \<and> (\<forall>j. s \<le> j \<and> j < length p \<longrightarrow>
         \<not> starts_with (norm_lf (er_old req)) (take (e - j) (drop j (view_of bs))))
    \<and> replaced_byte_range pay = (f, g) \<and> f \<le> g \<and> g \<le> length bs
    \<and> fs_read fs' (er_path req) = Some (take f bs @ new' @ drop g bs)
    \<and> new' = expand_lf (nk_as_bytes (dominant_of bs)) (norm_lf (er_new req))
    \<and> file_hash_before pay = compute_hash sha bs
    \<and> file_hash_after pay = compute_hash sha (take f bs @ new' @ drop g bs)"
proof (rule edit_ok_spliced[OF assms], goal_cases)
  case (1 bs s e p q f g)
  have "g \<le> length bs" using om.lookup_range[OF 1(8)] by simp
  with 1 show ?thesis unfolding spliced_def by blast
qed

theorem edit_replaces_first_witness:
  "\<exists>f g. take f [CHR ''b'', byte_of 255, CHR ''b''] @ ''c'' @ drop g [CHR ''b'', byte_of 255, CHR ''b'']
     = [CHR ''c'', byte_of 255, CHR ''b'']"
proof -
  let ?bs = "[CHR ''b'', byte_of 255, CHR ''b'']"
  have "sn_ok (fst (apply_snippet_edit_impl ref_memlib (\<lambda>_. ''00'') (demo_req ''b'' ''c'') (demo_fs ?bs)))"
    by code_simp
  from sn_ok_run[OF this] obtain pay where run: "apply_snippet_edit_impl ref_memlib (\<lambda>_. ''00'')
      (demo_req ''b'' ''c'') (demo_fs ?bs) = (Inr (SnOk pay), snd (apply_snippet_edit_impl ref_memlib
      (\<lambda>_. ''00'') (demo_req ''b'' ''c'') (demo_fs ?bs)))" by blast
  have "fs_read (snd (apply_snippet_edit_impl ref_memlib (\<lambda>_. ''00'') (demo_req ''b'' ''c'') (demo_fs ?bs))) ''/w/a''
      = Some [CHR ''c'', byte_of 255, CHR ''b'']" by code_simp
  moreover have "fs_read (demo_fs ?bs) ''/w/a'' = Some ?bs" "utf8_valid ''b''"
      "norm_lf ''c'' = ''c''" "expand_lf (nk_as_bytes (dominant_of ?bs)) ''c'' = ''c''" by code_simp+
  ultimately show ?thesis
    using edit_replaces_first[OF ref_memlib_ok _ run] by (auto simp: demo_req_def; blast)
qed

section \<open>Sessions\<close>





definition demo_sha :: "bytes \<Rightarrow> bytes" where
  "demo_sha bs = (if bs = ''ab'' then ''0a'' else ''0f'')"

definition demo_simple :: "bytes \<Rightarrow> bytes \<Rightarrow> simple_edit_request" where
  "demo_simple old new = \<lparr> se_path = ''a'', se_old = old, se_new = new, se_hint = None, se_region = None \<rparr>"

definition demo_session :: session where
  \<comment> \<open>the file \<open>/w/a\<close> holds \<open>ab\<close> and has been read\<close>
  "demo_session = \<lparr> srv = \<lparr> disk = demo_fs ''ab'',
       snaps = record_bytes demo_sha (demo_fs ''ab'') ''/w/a'' ''ab'' Map.empty \<rparr>,
     loaded = [(''/w/a'', ''ab'')], seen = [(Some ''/w/a'', ''ab'')] \<rparr>"

lemma demo_sha_hex: "sha_hex demo_sha"
  by (simp add: sha_hex_def demo_sha_def hexdigit_def is_digit_def bval_def)


lemma demo_handle_ok:
  "sn_ok (case fst (handle_edit ref_memlib demo_sha (demo_simple ''b'' ''c'') (srv demo_session)) of
     EditResult r \<Rightarrow> Inr r | _ \<Rightarrow> Inl Panic)"
  "files (disk (snd (handle_edit ref_memlib demo_sha (demo_simple ''b'' ''c'') (srv demo_session)))) ''/w/a''
     = Some ''ac''"
  "files (disk (srv demo_session)) ''/w/a'' = Some ''ab''"
  "utf8_valid ''b''"
  by code_simp+


text \<open>Containment.  An edit changes no file but one: a regular file inside the canonical working
  directory of the server.\<close>

theorem edit_stays_inside:
  assumes "memlib_ok M" "utf8_valid (se_old req)" "handle_edit M sha req s = (r, s')"
    and "files (disk s') q \<noteq> files (disk s) q"
  shows "\<exists>ws path. canonical_workspace (disk s) ''path'' = Inr ws
    \<and> resolve_existing_file (disk s) (se_path req) ''path'' = Inr path \<and> inside ws path
    \<and> target_kind (disk s) path = Some RegularFile \<and> q = fs_key (disk s) (from_utf8_lossy path)"
proof -
  have "s' \<noteq> s \<or> (\<exists>pay. r = EditResult (SnOk pay))" using assms(4) by auto
  with assms(3) obtain path h res fs' where
      e: "resolve_existing_file (disk s) (se_path req) ''path'' = Inr path"
        "apply_snippet_edit_impl M sha (internal_request req path h) (disk s) = (res, fs')"
        "disk s' = fs'"
    by (rule handle_edit_changes)
  from e(1) obtain ws where "canonical_workspace (disk s) ''path'' = Inr ws" "inside ws path"
      "target_kind (disk s) path = Some RegularFile"
    by (auto simp: resolve_existing_file_def bindE_Inr_iff split: if_splits
        dest!: resolve_existing_under_workspaceD)
  moreover have "q = fs_key (disk s) (from_utf8_lossy path)"
    using snippet_edit_frame[OF assms(1) _ e(2)] assms(2,4) e(3) by (auto simp: internal_request_def)
  ultimately show ?thesis using e(1) by blast
qed

theorem edit_stays_inside_witness: "\<exists>ws. canonical_workspace (demo_fs ''ab'') ''path'' = Inr ws \<and> inside ws ''/w/a''"
proof -
  have "files (disk (snd (handle_edit ref_memlib demo_sha (demo_simple ''b'' ''c'') (srv demo_session)))) ''/w/a''
      \<noteq> files (disk (srv demo_session)) ''/w/a''"
    using demo_handle_ok(2,3) by simp
  moreover have "resolve_existing_file (disk (srv demo_session)) ''a'' ''path'' = Inr ''/w/a''" by code_simp
  ultimately show ?thesis
    using edit_stays_inside[OF ref_memlib_ok, of "demo_simple ''b'' ''c''" demo_sha "srv demo_session"]
      demo_handle_ok(4) by (force simp: demo_simple_def demo_session_def prod_eq_iff)
qed

text \<open>Chained edits.  After a successful edit the server knows the contents it has written, so a
  second edit of the same path is never refused as unread or stale.\<close>

theorem chained_edit:
  assumes "memlib_ok M" "sha_hex sha" "utf8_valid (se_old req)" "utf8_valid (se_old req2)"
    and "handle_edit M sha req s = (EditResult (SnOk pay), s1)"
    and "se_path req2 = se_path req" "handle_edit M sha req2 s1 = (r2, s2)"
  shows "r2 \<noteq> NoSnapshot \<and> (\<forall>a b. r2 \<noteq> EditResult (SnStaleFile a b))"
proof -
  from assms(5) obtain path h res fs' where
      e: "resolve_existing_file (disk s) (se_path req) ''path'' = Inr path"
        "snapshot_get (disk s) path (snaps s) = Some h"
        "apply_snippet_edit_impl M sha (internal_request req path h) (disk s) = (res, fs')"
        "disk s1 = fs'"
        "case res of
          Inr (SnOk pay') \<Rightarrow> EditResult (SnOk pay) = EditResult (SnOk pay')
            \<and> snaps s1 = snapshot_record fs' path (file_hash_after pay') (snaps s)
        | _ \<Rightarrow> snaps s1 = snaps s \<and> (\<forall>pay'. EditResult (SnOk pay) \<noteq> EditResult (SnOk pay'))"
    by (rule handle_edit_changes) blast
  then have pay: "res = Inr (SnOk pay)" "snaps s1 = snapshot_record fs' path (file_hash_after pay) (snaps s)"
    by (auto split: sum.splits snippet_result.splits)
  have valid: "utf8_valid (er_old (internal_request req path h))"
    using assms(3) by (simp add: internal_request_def)
  have "fs' \<noteq> disk s \<or> (\<exists>pay. res = Inr (SnOk pay))" using pay(1) by blast
  with snippet_edit_changes[OF assms(1) valid e(3)] pay(1) obtain bs' where
      bs': "fs_read fs' (from_utf8_lossy path) = Some bs'" "file_hash_after pay = compute_hash sha bs'"
        "canonicalize fs' = canonicalize (disk s)"
    by (auto simp: internal_request_def)
  from e(2) obtain k where k: "snapshot_key (disk s) path = Some k"
    by (auto simp: snapshot_get_def split: bind_splits)
  then have "snapshot_key fs' path = Some k" using bs'(3) by (simp add: snapshot_key_def)
  then have get: "snapshot_get (disk s1) path (snaps s1) = Some (compute_hash sha bs')"
    using pay(2) e(4) bs'(2) by (simp add: st.get_after_rec)
  have res2: "resolve_existing_file (disk s1) (se_path req2) ''path'' = Inr path"
    using e(1) resolve_existing_file_files[where fs = "disk s" and f = "files fs'" and p = "se_path req"]
    unfolding e(4) assms(6) snippet_edit_files_only[OF assms(1) valid e(3), symmetric] by simp
  obtain res' fs2 where run2:
      "apply_snippet_edit_impl M sha (internal_request req2 path (compute_hash sha bs')) (disk s1) = (res', fs2)"
    by (cases "apply_snippet_edit_impl M sha (internal_request req2 path (compute_hash sha bs')) (disk s1)")
  have "\<forall>a b. res' \<noteq> Inr (SnStaleFile a b)"
  proof (cases "se_old req2 = []")
    case True
    then show ?thesis using run2 by (auto simp: apply_snippet_edit_impl_def internal_request_def)
  next
    case False
    then have ne: "er_old (internal_request req2 path (compute_hash sha bs')) \<noteq> []"
      by (simp add: internal_request_def)
    have valid2: "utf8_valid (er_old (internal_request req2 path (compute_hash sha bs')))"
      using assms(4) by (simp add: internal_request_def)
    show ?thesis
    proof (rule apply_snippet_edit_cases[OF assms(1) valid2 ne run2], goal_cases)
      case (2 bs h')
      then show ?case
        using expected_hash_internal[OF assms(2), of req2 path bs'] bs'(1) e(4)
        by (simp add: internal_request_def)
    qed (auto simp: ok_result_def Let_def split: if_splits prod.splits)
  qed
  then show ?thesis
    using assms(7) res2 get run2
    by (auto simp: handle_edit_def internal_request_def split: if_splits sum.splits snippet_result.splits)
qed

theorem chained_edit_witness:
  "fst (handle_edit ref_memlib demo_sha (demo_simple ''a'' ''d'')
     (snd (handle_edit ref_memlib demo_sha (demo_simple ''b'' ''c'') (srv demo_session)))) \<noteq> NoSnapshot"
proof -
  have "utf8_valid ''a''" by code_simp
  moreover obtain pay where "handle_edit ref_memlib demo_sha (demo_simple ''b'' ''c'') (srv demo_session)
      = (EditResult (SnOk pay), snd (handle_edit ref_memlib demo_sha (demo_simple ''b'' ''c'') (srv demo_session)))"
    using demo_handle_ok(1)
    by (auto simp: sn_ok_def prod_eq_iff split: edit_reply.splits snippet_result.splits)
  ultimately show ?thesis
    using chained_edit[OF ref_memlib_ok demo_sha_hex, of "demo_simple ''b'' ''c''" "demo_simple ''a'' ''d''"]
      demo_handle_ok(4) by (force simp: demo_simple_def prod_eq_iff)
qed

section \<open>The parts of an edit\<close>

text \<open>One notion of text.  The canonical view of a valid UTF-8 file, which the line splitter and
  the boundary table build, is what the snippet normaliser makes of the whole file; so a snippet
  copied from the file is found in it.  The normaliser's search loop returns for every input.\<close>

theorem view_agrees_with_normaliser:
  assumes "memlib_ok M"
  shows "\<exists>fm out. file_model_of M sha bs = Inr fm \<and> fm_bytes fm = bs
    \<and> normalize_newlines_to_lf M bs = Some out \<and> CR \<notin> set out
    \<and> normalize_newlines_to_lf M out = Some out
    \<and> (utf8_valid bs \<longrightarrow> cd_text (fm_canonical fm) = out)"
proof -
  have "file_model_of M sha bs = Inr (model_of sha bs)" by (rule file_model_of_model_of[OF assms])
  moreover have "utf8_valid bs \<longrightarrow> cd_text (fm_canonical (model_of sha bs)) = norm_lf bs"
    using canonical_view_norm by (simp add: model_of_def)
  ultimately show ?thesis
    using normalize_newlines_to_lf_eq[OF assms] norm_lf_no_CR norm_lf_idem
    by (auto simp: model_of_def)
qed

theorem view_agrees_with_normaliser_witness:
  "\<exists>fm. file_model_of ref_memlib demo_sha [CHR ''a'', CR, CHR ''b''] = Inr fm
    \<and> cd_text (fm_canonical fm) = [CHR ''a'', LF, CHR ''b'']"
proof -
  have "utf8_valid [CHR ''a'', CR, CHR ''b'']"
      "normalize_newlines_to_lf ref_memlib [CHR ''a'', CR, CHR ''b''] = Some [CHR ''a'', LF, CHR ''b'']"
    by code_simp+
  then show ?thesis
    using view_agrees_with_normaliser[OF ref_memlib_ok, of demo_sha "[CHR ''a'', CR, CHR ''b'']"] by auto
qed

text \<open>The offset table.  For every file, it maps the start of the text to the start of the file
  and the end to the end, is strictly increasing where it is defined, knows every position between
  two scalar values of the text, and never points between a \<open>CR\<close> and an \<open>LF\<close>.\<close>

theorem offset_table:
  assumes "memlib_ok M" "file_model_of M sha bs = Inr fm"
  shows "byte_offset (fm_canonical fm) 0 = Some 0
    \<and> byte_offset (fm_canonical fm) (length (cd_text (fm_canonical fm))) = Some (length bs)
    \<and> (\<forall>p q. cd_text (fm_canonical fm) = p @ q \<and> utf8_valid p \<longrightarrow>
         (\<exists>f. byte_offset (fm_canonical fm) (length p) = Some f))
    \<and> (\<forall>c d f g. byte_offset (fm_canonical fm) c = Some f \<and> byte_offset (fm_canonical fm) d = Some g \<and> c < d
         \<longrightarrow> f < g)
    \<and> (\<forall>c f. byte_offset (fm_canonical fm) c = Some f \<longrightarrow> \<not> seam (take f bs) (drop f bs))"
proof -
  have fm: "fm_canonical fm = canonical_of bs"
    using assms file_model_of_model_of[OF assms(1)] by (auto simp: model_of_def)
  have "byte_offset (canonical_of bs) 0 = Some 0"
    unfolding byte_offset_canonical_of
    by (rule exI[of _ "[]"], rule exI[of _ "file_toks (file_lines bs)"]) simp
  moreover have "byte_offset (canonical_of bs) (length (cd_text (canonical_of bs))) = Some (length bs)"
    unfolding byte_offset_canonical_of
    by (rule exI[of _ "file_toks (file_lines bs)"], rule exI[of _ "[]"])
      (simp add: canonical_of_def length_text[symmetric] ftext_file_lines)
  ultimately show ?thesis
    unfolding fm using om.lookup_total[of bs] om.lookup_no_seam[of bs] byte_offset_strict[of bs] by blast
qed

theorem offset_table_witness:
  "\<exists>f. byte_offset (canonical_of [CHR ''a'', CR, LF]) 2 = Some f \<and> f = 3"
proof -
  have "file_model_of ref_memlib demo_sha [CHR ''a'', CR, LF] = Inr (model_of demo_sha [CHR ''a'', CR, LF])"
    by (rule file_model_of_model_of[OF ref_memlib_ok])
  moreover have "length (cd_text (canonical_of [CHR ''a'', CR, LF])) = 2" by code_simp
  ultimately show ?thesis using offset_table[OF ref_memlib_ok] by (fastforce simp: model_of_def)
qed

text \<open>Suggestions.  When the snippet is not found, at most three distinct places are suggested,
  each a range of existing lines, numbered from one, with a similarity between 0 and 1.\<close>

theorem suggestions_valid:
  assumes "memlib_ok M" "file_model_of M sha bs = Inr fm"
  shows "length (suggest_candidates M fm needle limit) \<le> limit
    \<and> distinct (map cand_start (suggest_candidates M fm needle limit))
    \<and> (\<forall>c \<in> set (suggest_candidates M fm needle limit). 1 \<le> cand_start c \<and> cand_start c \<le> cand_end c
         \<and> cand_end c \<le> length (line_views (fm_canonical fm))
         \<and> fst (cand_similarity c) \<le> snd (cand_similarity c) \<and> 0 < snd (cand_similarity c))"
proof -
  let ?S = "suggest_candidates M fm needle limit" and ?lns = "logical_snippet_lines needle"
  let ?cd = "fm_canonical fm"
  have views: "line_views ?cd \<noteq> []"
    using assms file_model_of_model_of[OF assms(1), of sha bs] line_views_nonempty[of bs]
    by (auto simp: model_of_def)
  show ?thesis
  proof (cases "?S = []")
    case False
    then obtain t where pos: "0 < limit" "?lns \<noteq> []" and S: "?S = map (\<lambda>(idx, sim).
        \<lparr> cand_start = idx + 1, cand_end = min (idx + length ?lns) (length (line_views ?cd)),
          cand_similarity = sim \<rparr>) (collect_suggestions ?cd ?lns limit (mem_find_iter M t (cd_text ?cd)) [])"
      unfolding suggest_candidates_def Let_def by (auto split: if_splits)
    let ?F = "collect_suggestions ?cd ?lns limit (mem_find_iter M t (cd_text ?cd)) []"
    have F: "length ?F \<le> limit" "distinct (map fst ?F)" "\<forall>x \<in> set ?F. fst x < length (line_views ?cd)"
        "\<forall>x \<in> set ?F. snd x = compute_line_similarity (line_views ?cd) (fst x) ?lns"
      using collect_suggestions_bound[of limit "[]"] collect_suggestions_lines[OF views, of "[]"]
        collect_suggestions_sims[of "[]"] pos(1) by auto
    have "map cand_start ?S = map Suc (map fst ?F)" unfolding S by (simp add: case_prod_beta)
    moreover have "distinct (map Suc (map fst ?F))" unfolding distinct_map[of Suc] using F(2) by simp
    ultimately have "distinct (map cand_start ?S)" by simp
    moreover have "length ?S \<le> limit" unfolding S using F(1) by simp
    moreover have "1 \<le> cand_start c \<and> cand_start c \<le> cand_end c \<and> cand_end c \<le> length (line_views ?cd)
        \<and> fst (cand_similarity c) \<le> snd (cand_similarity c) \<and> 0 < snd (cand_similarity c)"
      if c: "c \<in> set ?S" for c
    proof -
      from c obtain x where x: "x \<in> set ?F" "cand_start c = fst x + 1"
          "cand_end c = min (fst x + length ?lns) (length (line_views ?cd))" "cand_similarity c = snd x"
        unfolding S by auto
      have "Suc 0 \<le> length ?lns" using pos(2) by (cases ?lns) auto
      moreover have "fst x < length (line_views ?cd)"
          "snd x = compute_line_similarity (line_views ?cd) (fst x) ?lns"
        using x(1) F(3,4) by blast+
      ultimately show ?thesis
        using x(2-4) similarity_bounds[OF pos(2), of "line_views ?cd" "fst x"] by simp
    qed
    ultimately show ?thesis by blast
  qed simp
qed

theorem suggestions_valid_witness:
  "length (suggest_candidates ref_memlib (model_of demo_sha ''ab'') ''ac'' 3) \<le> 3"
  using suggestions_valid[OF ref_memlib_ok file_model_of_model_of[OF ref_memlib_ok]] by blast

text \<open>Where files may be created.  A path that \<open>resolve_mutation_path\<close> accepts is inside the
  canonical working directory, unless it is a symbolic link of the caller's whose target is inside
  and which is returned unresolved.\<close>

theorem mutation_path_inside:
  assumes "resolve_mutation_path fs p fd = Inr q"
  shows "\<exists>ws. canonical_workspace fs fd = Inr ws
    \<and> (inside ws q
       \<or> (symlink_kind fs q = Some Symlink \<and> (q = p \<or> q = path_push ws p)
          \<and> (\<exists>c. canonicalize fs q = Some c \<and> inside ws c)))"
proof -
  from assms obtain ws absol where ws: "canonical_workspace fs fd = Inr ws"
      "absolute_candidate p ws fd = Inr absol" "resolve_under_workspace fs absol ws fd False = Inr q"
    by (auto simp: resolve_mutation_path_def bindE_Inr_iff)
  have absol: "absol = p \<or> absol = path_push ws p"
    using ws(2) by (auto simp: absolute_candidate_def split: if_splits)
  from ws(3) show ?thesis
    using ws(1) absol append_uncreated_tail_inside
    by (auto simp: resolve_under_workspace_def resolve_existing_mutation_path_def bindE_Inr_iff
        dest!: resolve_existing_under_workspaceD split: if_splits option.splits)
qed

theorem mutation_path_inside_witness: "inside ''/w'' ''/w/n''"
proof -
  have "resolve_mutation_path (demo_fs []) ''n'' ''path'' = Inr ''/w/n''"
      "symlink_kind (demo_fs []) ''/w/n'' \<noteq> Some Symlink"
      "canonical_workspace (demo_fs []) ''path'' = Inr ''/w''" by code_simp+
  then show ?thesis using mutation_path_inside by force
qed

end
