(* ===== verification/GitTypes.thy ===== *)
theory GitTypes
  imports Utf8
begin

text \<open>
  What the git tools share: the limits of \<^verbatim>\<open>tools-mcp-core/src/config.rs\<close>, JSON values, the
  structured errors of \<^verbatim>\<open>hunks.rs\<close>, the result of running git (\<^verbatim>\<open>git/types.rs\<close>), and the records
  of a parsed diff.  An error keeps its type and its machine-readable fields; the message and the
  remediation, which are prose for the reader, are left out everywhere.
\<close>

section \<open>Limits\<close>

definition DEFAULT_GIT_TIMEOUT_MS :: nat where "DEFAULT_GIT_TIMEOUT_MS = 30000"
definition MAX_GIT_TIMEOUT_MS :: nat where "MAX_GIT_TIMEOUT_MS = 300000"
definition DEFAULT_GIT_STDOUT_BYTES :: nat where "DEFAULT_GIT_STDOUT_BYTES = 200000"
definition DEFAULT_GIT_STDERR_BYTES :: nat where "DEFAULT_GIT_STDERR_BYTES = 100000"
definition MAX_OUTPUT_BYTES :: nat where "MAX_OUTPUT_BYTES = 5000000"
definition MAX_GIT_STDIN_BYTES :: nat where "MAX_GIT_STDIN_BYTES = MAX_OUTPUT_BYTES"
definition MAX_GIT_PATCH_PATHS :: nat where "MAX_GIT_PATCH_PATHS = 1000"
definition MAX_GIT_PATHSPECS :: nat where "MAX_GIT_PATHSPECS = 1000"
definition MAX_GIT_PATHSPEC_BYTES :: nat where "MAX_GIT_PATHSPEC_BYTES = 16384"
definition MAX_GIT_ARG_BYTES :: nat where "MAX_GIT_ARG_BYTES = 24000"
definition MAX_GIT_SELECTED_HUNKS :: nat where "MAX_GIT_SELECTED_HUNKS = 10000"
definition MAX_GIT_DIFF_FILES :: nat where "MAX_GIT_DIFF_FILES = 1000"
definition MAX_GIT_DIFF_HUNKS :: nat where "MAX_GIT_DIFF_HUNKS = 10000"
definition MAX_GIT_HUNK_BODY_BYTES :: nat where "MAX_GIT_HUNK_BODY_BYTES = 4000000"
definition MAX_GIT_STRUCTURED_RESPONSE_BYTES :: nat where
  "MAX_GIT_STRUCTURED_RESPONSE_BYTES = 4000000"

section \<open>JSON and errors\<close>

text \<open>A value of \<^verbatim>\<open>serde_json\<close>.  A number is an integer, or the text it prints as when it is none.\<close>

datatype json =
    JNull
  | JBool bool
  | JNum int
  | JFloat bytes
  | JStr bytes
  | JArr "json list"
  | JObj "(bytes \<times> json) list"

record git_error =
  error_type :: bytes
  error_extra :: "(bytes \<times> json) list"

definition structured_error :: "bytes \<Rightarrow> (bytes \<times> json) list \<Rightarrow> git_error" where
  "structured_error t extra = \<lparr> error_type = t, error_extra = extra \<rparr>"

definition invalid_request :: "bytes \<Rightarrow> git_error" where
  "invalid_request offender = structured_error ''invalid_request'' [(''offender'', JStr offender)]"

text \<open>An outcome inside another one: its fields, without the prose.\<close>

definition error_json :: "git_error \<Rightarrow> json" where
  "error_json e = JObj (error_extra e @ [(''error_type'', JStr (error_type e))])"

fun json_get :: "bytes \<Rightarrow> json \<Rightarrow> json option" where
  "json_get k (JObj kvs) = map_of kvs k"
| "json_get k _ = None"

lemma structured_error_type [simp]: "error_type (structured_error t extra) = t"
  by (simp add: structured_error_def)

lemma invalid_request_type [simp]: "error_type (invalid_request offender) = ''invalid_request''"
  by (simp add: invalid_request_def)

type_synonym 'a result = "git_error + 'a"

definition diff_parse_error :: "git_error" where
  "diff_parse_error = structured_error ''diff_parse_error'' []"

section \<open>Validation\<close>

definition clamp :: "nat \<Rightarrow> nat \<Rightarrow> nat \<Rightarrow> nat" where
  "clamp x lo hi = max lo (min x hi)"

definition clamp_bytes :: "nat option \<Rightarrow> nat \<Rightarrow> nat \<Rightarrow> nat" where
  "clamp_bytes v dflt mx = clamp (case v of Some n \<Rightarrow> n | None \<Rightarrow> dflt) 1 mx"

definition validate_timeout :: "nat option \<Rightarrow> nat result" where
  "validate_timeout t =
     (case t of
        Some n \<Rightarrow> if n < 100 then Inl (invalid_request ''timeout_ms'')
                  else Inr (clamp n 100 MAX_GIT_TIMEOUT_MS)
      | None \<Rightarrow> Inr (clamp DEFAULT_GIT_TIMEOUT_MS 100 MAX_GIT_TIMEOUT_MS))"

section \<open>Running git\<close>

record stdin_summary =
  requested_bytes :: "nat option"
  written_bytes :: "nat option"
  fully_delivered :: "bool option"
  write_error :: "bytes option"
  broken_pipe :: bool

record git_exec =
  ge_args :: "bytes list"
  ge_working_dir :: "bytes option"
  exit_code :: "int option"
  success :: bool
  stdout_bytes :: bytes
  stderr_bytes :: bytes
  truncated_stdout :: bool
  truncated_stderr :: bool
  timed_out :: bool
  stdin_report :: stdin_summary

text \<open>The text of an output stream is its lossy decoding.\<close>

definition stdout_text :: "git_exec \<Rightarrow> bytes" where
  "stdout_text ex = from_utf8_lossy (stdout_bytes ex)"

definition stderr_text :: "git_exec \<Rightarrow> bytes" where
  "stderr_text ex = from_utf8_lossy (stderr_bytes ex)"

section \<open>Repositories and diffs\<close>

datatype anchor_snapshot =
    AnchorAbsent
  | AnchorPresent bytes bytes "bytes option"

text \<open>The anchors of a snapshot form a map from keys, kept as an association list.\<close>

type_synonym repo_snapshot = "(bytes \<times> anchor_snapshot) list"

record repo_context =
  working_dir :: bytes
  toplevel :: bytes
  identity :: bytes
  stable_identity :: repo_snapshot

record hunk_scope =
  sc_staged :: bool
  sc_paths :: "bytes list"
  sc_context :: nat
  sc_max_bytes :: nat
  sc_working_dir_arg :: "bytes option"
  sc_timeout_ms :: nat

datatype change_status =
    Modified | Added | Deleted | Renamed | Copied | ModeChanged | TypeChanged | Submodule | Unmerged

fun status_as_str :: "change_status \<Rightarrow> bytes" where
  "status_as_str Modified = ''modified''"
| "status_as_str Added = ''added''"
| "status_as_str Deleted = ''deleted''"
| "status_as_str Renamed = ''renamed''"
| "status_as_str Copied = ''copied''"
| "status_as_str ModeChanged = ''mode_changed''"
| "status_as_str TypeChanged = ''type_changed''"
| "status_as_str Submodule = ''submodule''"
| "status_as_str Unmerged = ''unmerged''"

record parsed_hunk =
  h_id :: bytes
  h_file_index :: nat
  h_index :: nat
  h_header :: bytes
  old_start :: int
  old_lines :: int
  new_start :: int
  new_lines :: int
  h_body :: bytes

record file_hunks =
  fh_index :: nat
  fh_path :: bytes
  fh_old_path :: "bytes option"
  fh_status :: change_status
  change_kinds :: "bytes list"
  fh_binary :: bool
  supported :: bool
  fh_unsupported_reason :: "bytes option"
  diff_header :: bytes
  old_file_header :: "bytes option"
  new_file_header :: "bytes option"
  extended_headers :: "bytes list"
  fh_hunks :: "parsed_hunk list"

record parsed_diff =
  pd_id :: bytes
  pd_bytes :: nat
  pd_files :: "file_hunks list"
  total_hunks :: nat
  hunk_body_bytes :: nat

definition all_hunks :: "parsed_diff \<Rightarrow> parsed_hunk list" where
  "all_hunks d = concat (map fh_hunks (pd_files d))"

end
