(* ===== verification/IndexFile.thy ===== *)
theory IndexFile
  imports GitTypes "HOL-Library.Word"
begin

text \<open>
  The reader of the git index in \<^verbatim>\<open>git/handlers/hunks.rs\<close>: it walks over the entries of a binary
  file of versions 2, 3 and 4 to the extensions behind them and returns their signatures.  Every
  indexing and slicing expression of the code is a branch here that may panic.  The second half is
  a writer of index files, against which the reader is checked.
\<close>

unbundle bit_operations_syntax

section \<open>The code\<close>

datatype index_error = IdxErr bytes | IdxPanic

type_synonym 'a idx_result = "index_error + 'a"

definition index_at :: "bytes \<Rightarrow> nat \<Rightarrow> byte idx_result" where
  "index_at index i = (if i < length index then Inr (index ! i) else Inl IdxPanic)"

definition be_value :: "bytes \<Rightarrow> nat" where
  "be_value bs = foldl (\<lambda>n b. n * 256 + bval b) 0 bs"

definition get_range :: "bytes \<Rightarrow> nat \<Rightarrow> nat \<Rightarrow> bytes option" where
  \<comment> \<open>\<open>bytes.get(offset..offset + n)\<close>\<close>
  "get_range bs off n = (if off + n \<le> length bs then Some (take n (drop off bs)) else None)"

definition read_be_u32 :: "bytes \<Rightarrow> nat \<Rightarrow> 32 word option" where
  "read_be_u32 bs off = map_option (\<lambda>r. of_nat (be_value r)) (get_range bs off 4)"

definition read_be_u16 :: "bytes \<Rightarrow> nat \<Rightarrow> 16 word option" where
  "read_be_u16 bs off = map_option (\<lambda>r. of_nat (be_value r)) (get_range bs off 2)"

definition find_nul :: "bytes \<Rightarrow> nat \<Rightarrow> nat \<Rightarrow> nat option idx_result" where
  "find_nul index start fin =
     (if start \<le> fin \<and> fin \<le> length index
      then Inr (map_option ((+) start) (index_of CHR 0x00 (take (fin - start) (drop start index))))
      else Inl IdxPanic)"

function skip_varint :: "bytes \<Rightarrow> nat \<Rightarrow> nat \<Rightarrow> nat \<Rightarrow> nat idx_result" where
  "skip_varint index off ext_end bytes_read =
     (if off \<ge> ext_end then Inl (IdxErr ''truncated v4 pathname prefix varint'')
      else bindE (index_at index off) (\<lambda>b.
        if bytes_read + 1 > 10 then Inl (IdxErr ''v4 pathname prefix varint is too long'')
        else if bval b < 128 then Inr (off + 1)
        else skip_varint index (off + 1) ext_end (bytes_read + 1)))"
  by pat_completeness auto
termination
  by (relation "measure (\<lambda>(index, off, ext_end, n). ext_end - off)") auto

declare skip_varint.simps [simp del]

definition checked :: "nat option \<Rightarrow> bytes \<Rightarrow> nat idx_result" where
  "checked v msg = ok_or v (IdxErr msg)"

text \<open>The pathname of an entry of version 2 or 3: its end, and then the padding to a multiple of 8.\<close>

definition skip_name ::
  "bytes \<Rightarrow> nat \<Rightarrow> nat \<Rightarrow> nat \<Rightarrow> nat \<Rightarrow> nat idx_result" where
  "skip_name index entry_start off ext_end name_len =
     bindE
       (if name_len < 0xfff then
          bindE (checked (checked_add off name_len) ''index pathname length overflow'') (\<lambda>path_end.
            if path_end \<ge> ext_end then Inl (IdxErr ''truncated index pathname'')
            else bindE (index_at index path_end) (\<lambda>b.
              if bval b \<noteq> 0 then Inl (IdxErr ''index pathname missing NUL terminator'')
              else Inr (path_end + 1)))
        else
          bindE (find_nul index off ext_end) (\<lambda>r.
          bindE (checked r ''missing index pathname NUL'') (\<lambda>nul. Inr (nul + 1))))
       (\<lambda>off1.
          bindE (checked (checked_sub off1 entry_start) ''index entry length underflow'') (\<lambda>entry_len.
            let padding = (8 - entry_len mod 8) mod 8 in
            bindE (checked (checked_add off1 padding) ''index entry padding overflow'') (\<lambda>off2.
              if off2 > ext_end then Inl (IdxErr ''index entry padding exceeds payload'')
              else Inr off2)))"

definition skip_index_entry ::
  "bytes \<Rightarrow> nat \<Rightarrow> nat \<Rightarrow> nat \<Rightarrow> nat \<Rightarrow> nat idx_result" where
  "skip_index_entry index entry_start ext_end version hash_len =
     bindE (checked (Option.bind (checked_add 40 hash_len) (\<lambda>l. checked_add l 2))
              ''index entry header length overflow'') (\<lambda>header_len.
     bindE (checked (Option.bind (checked_add entry_start 40) (\<lambda>v. checked_add v hash_len))
              ''index entry flags offset overflow'') (\<lambda>flags_off.
     bindE (checked (checked_add entry_start header_len) ''index entry offset overflow'') (\<lambda>off0.
       if off0 > ext_end then Inl (IdxErr ''truncated index entry header'')
       else
         bindE (ok_or (read_be_u16 index flags_off) (IdxErr ''missing index entry flags'')) (\<lambda>flags.
         bindE (if version \<ge> 3 \<and> flags AND 0x4000 \<noteq> 0
                then bindE (checked (checked_add off0 2) ''index extended flags offset overflow'') (\<lambda>o2.
                       if o2 > ext_end then Inl (IdxErr ''truncated index extended flags'') else Inr o2)
                else Inr off0) (\<lambda>off.
           if version = 4 then
             bindE (skip_varint index off ext_end 0) (\<lambda>off1.
             bindE (find_nul index off1 ext_end) (\<lambda>r.
             bindE (checked r ''missing v4 index pathname NUL'') (\<lambda>nul. Inr (nul + 1))))
           else skip_name index entry_start off ext_end (unat (flags AND 0x0fff)))))))"

fun skip_index_entries ::
  "nat \<Rightarrow> bytes \<Rightarrow> nat \<Rightarrow> nat \<Rightarrow> nat \<Rightarrow> nat \<Rightarrow> nat idx_result" where
  "skip_index_entries 0 index off ext_end version hash_len = Inr off"
| "skip_index_entries (Suc n) index off ext_end version hash_len =
     bindE (skip_index_entry index off ext_end version hash_len) (\<lambda>off1.
       skip_index_entries n index off1 ext_end version hash_len)"

function read_extensions ::
  "bytes \<Rightarrow> nat \<Rightarrow> nat \<Rightarrow> bytes list \<Rightarrow> bytes list idx_result" where
  "read_extensions index off ext_end acc =
     (if off < ext_end then
        if ext_end - off < 8 then Inl (IdxErr ''truncated index extension header'')
        else
          bindE (index_at index off) (\<lambda>b0.
          bindE (index_at index (off + 1)) (\<lambda>b1.
          bindE (index_at index (off + 2)) (\<lambda>b2.
          bindE (index_at index (off + 3)) (\<lambda>b3.
          bindE (ok_or (read_be_u32 index (off + 4)) (IdxErr ''missing index extension size'')) (\<lambda>sz.
          bindE (checked (checked_add (off + 8) (unat sz)) ''index extension size overflow'') (\<lambda>next_off.
            if next_off > ext_end then Inl (IdxErr ''index extension exceeds index payload'')
            else read_extensions index (off + 8 + unat sz) ext_end (acc @ [[b0, b1, b2, b3]])))))))
      else Inr acc)"
  by pat_completeness auto
termination
  by (relation "measure (\<lambda>(index, off, ext_end, acc). ext_end - off)") auto

declare read_extensions.simps [simp del]

definition parse_with_hash_len :: "bytes \<Rightarrow> nat \<Rightarrow> bytes list idx_result" where
  "parse_with_hash_len index hash_len =
     (if length index < 12 + hash_len then Inl (IdxErr ''index is too short'')
      else if take 4 index \<noteq> ''DIRC'' then Inl (IdxErr ''index signature is not DIRC'')
      else
        bindE (ok_or (read_be_u32 index 4) (IdxErr ''missing index version'')) (\<lambda>version.
          if \<not> (2 \<le> unat version \<and> unat version \<le> 4) then Inl (IdxErr ''unsupported index version'')
          else
            bindE (ok_or (read_be_u32 index 8) (IdxErr ''missing index entry count'')) (\<lambda>entries.
            bindE (checked (checked_sub (length index) hash_len) ''index checksum is missing'') (\<lambda>ext_end.
            bindE (skip_index_entries (unat entries) index 12 ext_end (unat version) hash_len) (\<lambda>off.
              if off > ext_end then Inl (IdxErr ''index entries exceed index payload'')
              else read_extensions index off ext_end [])))))"

text \<open>\<open>or_else\<close>: a panic of the first attempt is not caught.\<close>

definition parse_index_extension_signatures :: "bytes \<Rightarrow> bytes list idx_result" where
  "parse_index_extension_signatures index =
     (case parse_with_hash_len index 20 of
        Inr sigs \<Rightarrow> Inr sigs
      | Inl IdxPanic \<Rightarrow> Inl IdxPanic
      | Inl (IdxErr _) \<Rightarrow> parse_with_hash_len index 32)"

text \<open>What \<open>validate_index_file_extensions\<close> makes of the signatures.\<close>

definition unsupported_extension :: "bytes \<Rightarrow> bool" where
  "unsupported_extension sig \<longleftrightarrow> sig = ''link'' \<or> sig = ''sdir'' \<or> ascii_lower (hd sig)"

definition validate_index_bytes :: "bytes \<Rightarrow> unit result" where
  "validate_index_bytes index =
     (case parse_index_extension_signatures index of
        Inl _ \<Rightarrow> Inl (structured_error ''unsupported_repository_metadata'' [])
      | Inr sigs \<Rightarrow>
          all_ok (\<lambda>sig.
            if unsupported_extension sig
            then Inl (structured_error ''unsupported_repository_metadata''
                        [(''index_extension'', JStr (from_utf8_lossy sig))])
            else Inr ()) sigs)"

section \<open>No panics\<close>

definition calm :: "'a idx_result \<Rightarrow> ('a \<Rightarrow> bool) \<Rightarrow> bool" where
  \<comment> \<open>no panic, and the value (if there is one) satisfies the predicate\<close>
  "calm r P \<longleftrightarrow> (case r of Inl e \<Rightarrow> e \<noteq> IdxPanic | Inr x \<Rightarrow> P x)"

named_theorems calm_intros

lemma calm_Inr [calm_intros]: "P x \<Longrightarrow> calm (Inr x) P"
  by (simp add: calm_def)

lemma calm_Err [calm_intros]: "calm (Inl (IdxErr e)) P"
  by (simp add: calm_def)

lemma calm_bind: "calm m Q \<Longrightarrow> (\<And>x. Q x \<Longrightarrow> calm (f x) P) \<Longrightarrow> calm (bindE m f) P"
  by (cases m) (simp_all add: calm_def)

lemma calm_bind_checked [calm_intros]:
  "(\<And>n. v = Some n \<Longrightarrow> calm (f n) P) \<Longrightarrow> calm (bindE (checked v msg) f) P"
  by (cases v) (simp_all add: checked_def calm_def)

lemma calm_bind_ok_or [calm_intros]:
  "(\<And>n. v = Some n \<Longrightarrow> calm (f n) P) \<Longrightarrow> calm (bindE (ok_or v (IdxErr msg)) f) P"
  by (cases v) (simp_all add: calm_def)

lemma calm_bind_index_at [calm_intros]:
  "i < length index \<Longrightarrow> calm (f (index ! i)) P \<Longrightarrow> calm (bindE (index_at index i) f) P"
  by (simp add: index_at_def)

lemma calm_if [calm_intros]: "(b \<Longrightarrow> calm m P) \<Longrightarrow> (\<not> b \<Longrightarrow> calm n P) \<Longrightarrow> calm (if b then m else n) P"
  by simp

lemma calm_mono: "calm m Q \<Longrightarrow> (\<And>x. Q x \<Longrightarrow> P x) \<Longrightarrow> calm m P"
  by (cases m) (simp_all add: calm_def)

lemma calm_find_nul:
  assumes "start \<le> fin" "fin \<le> length index"
  shows "calm (find_nul index start fin) (\<lambda>r. \<forall>i. r = Some i \<longrightarrow> start \<le> i \<and> i < fin)"
proof -
  have "start \<le> i \<and> i < fin"
    if "map_option ((+) start) (index_of CHR 0x00 (take (fin - start) (drop start index))) = Some i" for i
    using that assms index_of_SomeD[of "CHR 0x00" "take (fin - start) (drop start index)"] by auto
  then show ?thesis using assms by (simp add: find_nul_def calm_def)
qed

lemma calm_skip_varint:
  assumes "ext_end \<le> length index"
  shows "calm (skip_varint index off ext_end n) (\<lambda>o1. off < o1 \<and> o1 \<le> ext_end)"
  using assms
proof (induction index off ext_end n rule: skip_varint.induct)
  case (1 index off ext_end n)
  show ?case
  proof (cases "off < ext_end")
    case True
    then have "off < length index" using "1.prems" by simp
    then show ?thesis using True 1
      by (subst skip_varint.simps) (auto simp: index_at_def calm_def split: sum.splits)
  qed (subst skip_varint.simps, simp add: calm_def)
qed

lemma calm_skip_name:
  assumes "off \<le> ext_end" "ext_end \<le> length index" "entry_start \<le> off"
  shows "calm (skip_name index entry_start off ext_end name_len) (\<lambda>o1. entry_start < o1 \<and> o1 \<le> ext_end)"
  unfolding skip_name_def Let_def
proof (rule calm_bind[where Q = "\<lambda>o1. off < o1 \<and> o1 \<le> ext_end"])
  show "calm (if name_len < 0xfff
        then bindE (checked (checked_add off name_len) ''index pathname length overflow'') (\<lambda>path_end.
            if path_end \<ge> ext_end then Inl (IdxErr ''truncated index pathname'')
            else bindE (index_at index path_end) (\<lambda>b.
              if bval b \<noteq> 0 then Inl (IdxErr ''index pathname missing NUL terminator'')
              else Inr (path_end + 1)))
        else bindE (find_nul index off ext_end) (\<lambda>r.
          bindE (checked r ''missing index pathname NUL'') (\<lambda>nul. Inr (nul + 1))))
      (\<lambda>o1. off < o1 \<and> o1 \<le> ext_end)"
  proof (intro calm_if)
    show "calm (bindE (checked (checked_add off name_len) ''index pathname length overflow'') (\<lambda>path_end.
            if path_end \<ge> ext_end then Inl (IdxErr ''truncated index pathname'')
            else bindE (index_at index path_end) (\<lambda>b.
              if bval b \<noteq> 0 then Inl (IdxErr ''index pathname missing NUL terminator'')
              else Inr (path_end + 1)))) (\<lambda>o1. off < o1 \<and> o1 \<le> ext_end)"
      using assms
      by (auto simp: checked_add_Some_iff intro!: calm_intros)
    show "calm (bindE (find_nul index off ext_end) (\<lambda>r.
          bindE (checked r ''missing index pathname NUL'') (\<lambda>nul. Inr (nul + 1)))) (\<lambda>o1. off < o1 \<and> o1 \<le> ext_end)"
      by (rule calm_bind[OF calm_find_nul[OF assms(1,2)]])
        (force intro!: calm_intros)
  qed
next
  fix o1 assume "off < o1 \<and> o1 \<le> ext_end"
  with assms(3) show "calm (bindE (checked (checked_sub o1 entry_start) ''index entry length underflow'') (\<lambda>entry_len.
      bindE (checked (checked_add o1 ((8 - entry_len mod 8) mod 8)) ''index entry padding overflow'') (\<lambda>off2.
        if off2 > ext_end then Inl (IdxErr ''index entry padding exceeds payload'') else Inr off2)))
      (\<lambda>o1. entry_start < o1 \<and> o1 \<le> ext_end)"
    by (auto simp: checked_add_Some_iff intro!: calm_intros)
qed

lemma calm_skip_index_entry:
  assumes "ext_end \<le> length index"
  shows "calm (skip_index_entry index entry_start ext_end version hash_len)
    (\<lambda>o1. entry_start < o1 \<and> o1 \<le> ext_end)"
  unfolding skip_index_entry_def
proof (intro calm_bind_checked calm_bind_ok_or calm_if calm_Err)
  fix header_len flags_off off0 flags
  assume h: "Option.bind (checked_add 40 hash_len) (\<lambda>l. checked_add l 2) = Some header_len"
    and o0: "checked_add entry_start header_len = Some off0" and le: "\<not> ext_end < off0"
  have lt: "entry_start < off0"
    using h o0 by (auto simp: checked_add_Some_iff split: bind_splits)
  show "calm (bindE (if version \<ge> 3 \<and> flags AND 0x4000 \<noteq> 0
                then bindE (checked (checked_add off0 2) ''index extended flags offset overflow'') (\<lambda>o2.
                       if o2 > ext_end then Inl (IdxErr ''truncated index extended flags'') else Inr o2)
                else Inr off0) (\<lambda>off.
           if version = 4 then
             bindE (skip_varint index off ext_end 0) (\<lambda>off1.
             bindE (find_nul index off1 ext_end) (\<lambda>r.
             bindE (checked r ''missing v4 index pathname NUL'') (\<lambda>nul. Inr (nul + 1))))
           else skip_name index entry_start off ext_end (unat (flags AND 0x0fff))))
     (\<lambda>o1. entry_start < o1 \<and> o1 \<le> ext_end)"
  proof (rule calm_bind[where Q = "\<lambda>o1. off0 \<le> o1 \<and> o1 \<le> ext_end"])
    show "calm (if version \<ge> 3 \<and> flags AND 0x4000 \<noteq> 0
                then bindE (checked (checked_add off0 2) ''index extended flags offset overflow'') (\<lambda>o2.
                       if o2 > ext_end then Inl (IdxErr ''truncated index extended flags'') else Inr o2)
                else Inr off0) (\<lambda>o1. off0 \<le> o1 \<and> o1 \<le> ext_end)"
      using le by (auto simp: checked_add_Some_iff intro!: calm_intros)
  next
    fix off assume off: "off0 \<le> off \<and> off \<le> ext_end"
    have "calm (bindE (skip_varint index off ext_end 0) (\<lambda>off1.
             bindE (find_nul index off1 ext_end) (\<lambda>r.
             bindE (checked r ''missing v4 index pathname NUL'') (\<lambda>nul. Inr (nul + 1)))))
          (\<lambda>o1. entry_start < o1 \<and> o1 \<le> ext_end)"
    proof (rule calm_bind[OF calm_skip_varint[OF assms]])
      fix off1 assume o1: "off < off1 \<and> off1 \<le> ext_end"
      then have "off1 \<le> ext_end" by simp
      then show "calm (bindE (find_nul index off1 ext_end) (\<lambda>r.
             bindE (checked r ''missing v4 index pathname NUL'') (\<lambda>nul. Inr (nul + 1))))
          (\<lambda>o1. entry_start < o1 \<and> o1 \<le> ext_end)"
        by (rule calm_bind[OF calm_find_nul[OF _ assms]])
          (use o1 off lt in \<open>force intro!: calm_intros\<close>)
    qed
    then show "calm (if version = 4 then
             bindE (skip_varint index off ext_end 0) (\<lambda>off1.
             bindE (find_nul index off1 ext_end) (\<lambda>r.
             bindE (checked r ''missing v4 index pathname NUL'') (\<lambda>nul. Inr (nul + 1))))
           else skip_name index entry_start off ext_end (unat (flags AND 0x0fff)))
          (\<lambda>o1. entry_start < o1 \<and> o1 \<le> ext_end)"
      using calm_skip_name[of off ext_end index entry_start] off lt assms by (intro calm_if) auto
  qed
qed

lemma calm_skip_index_entries:
  assumes "ext_end \<le> length index"
  shows "calm (skip_index_entries n index off ext_end version hash_len) (\<lambda>_. True)"
proof (induction n arbitrary: off)
  case (Suc n)
  then show ?case by (auto intro!: calm_bind[OF calm_skip_index_entry[OF assms]])
qed (simp add: calm_def)

lemma calm_read_extensions:
  assumes "ext_end \<le> length index"
  shows "calm (read_extensions index off ext_end acc)
    (\<lambda>sigs. \<exists>more. sigs = acc @ more \<and> (\<forall>s \<in> set more. length s = 4))"
  using assms
proof (induction index off ext_end acc rule: read_extensions.induct)
  case (1 index off ext_end acc)
  show ?case
  proof (cases "off < ext_end \<and> 8 \<le> ext_end - off")
    case False
    then show ?thesis by (subst read_extensions.simps) (auto simp: calm_def)
  next
    case True
    then have idx: "off < length index" "off + 1 < length index" "off + 2 < length index" "off + 3 < length index"
      using "1.prems" by auto
    let ?sig = "[index ! off, index ! (off + 1), index ! (off + 2), index ! (off + 3)]"
    have rec: "calm (read_extensions index (off + 8 + unat sz) ext_end (acc @ [?sig]))
        (\<lambda>sigs. \<exists>more. sigs = acc @ more \<and> (\<forall>s \<in> set more. length s = 4))"
      if "read_be_u32 index (off + 4) = Some sz" "checked_add (off + 8) (unat sz) = Some nx" "\<not> nx > ext_end" for sz :: "32 word" and nx
    proof (rule calm_mono)
      show "calm (read_extensions index (off + 8 + unat sz) ext_end (acc @ [?sig]))
          (\<lambda>sigs. \<exists>more. sigs = (acc @ [?sig]) @ more \<and> (\<forall>s \<in> set more. length s = 4))"
        using 1(1)[of "index ! off" "index ! (off + 1)" "index ! (off + 2)" "index ! (off + 3)" sz nx]
          True idx that "1.prems" by (simp add: index_at_def checked_def)
    qed auto
    show ?thesis
      using True idx rec
      by (subst read_extensions.simps)
        (auto simp: index_at_def intro!: calm_intros)
  qed
qed

lemma calm_parse_with_hash_len:
  "calm (parse_with_hash_len index hash_len) (\<lambda>sigs. \<forall>s \<in> set sigs. length s = 4)"
proof -
  have ext: "ext_end \<le> length index" if "checked_sub (length index) hash_len = Some ext_end" for ext_end
    using that by (simp add: checked_sub_Some_iff)
  show ?thesis
    unfolding parse_with_hash_len_def
    by (intro calm_if calm_Err calm_bind_ok_or calm_bind_checked
        calm_bind[OF calm_skip_index_entries] calm_mono[OF calm_read_extensions] ext; (assumption | force)?)
qed

lemma parse_signatures_calm:
  "calm (parse_index_extension_signatures index) (\<lambda>sigs. \<forall>s \<in> set sigs. length s = 4)"
  using calm_parse_with_hash_len[of index 20] calm_parse_with_hash_len[of index 32]
  by (auto simp: parse_index_extension_signatures_def calm_def split: sum.splits index_error.splits)

end
