(* ===== verification/IndexRoundtrip.thy ===== *)
theory IndexRoundtrip
  imports IndexFile
begin

text \<open>
  A writer of git index files, after the format the reader in \<open>IndexFile\<close> implements: versions 2
  and 3 pad each entry to a multiple of eight bytes, version 4 stores a prefix length and the rest
  of the name.  Reading what the writer produced yields the signatures of its extensions.
\<close>

section \<open>The writer\<close>

fun be_bytes :: "nat \<Rightarrow> nat \<Rightarrow> bytes" where
  "be_bytes 0 n = []"
| "be_bytes (Suc k) n = be_bytes k (n div 256) @ [byte_of (n mod 256)]"

record index_entry =
  ie_stat :: bytes
  ie_bits :: nat
  ie_extended :: "bytes option"
  ie_prefix :: bytes
  ie_name :: bytes

definition entry_flags :: "index_entry \<Rightarrow> nat" where
  "entry_flags e = ie_bits e * 4096 + min (length (ie_name e)) 0xfff"

definition entry_front :: "index_entry \<Rightarrow> bytes" where
  "entry_front e = ie_stat e @ be_bytes 2 (entry_flags e)
     @ (case ie_extended e of Some x \<Rightarrow> x | None \<Rightarrow> [])"

definition entry_pad :: "nat \<Rightarrow> nat" where
  "entry_pad n = (8 - n mod 8) mod 8"

definition write_entry :: "nat \<Rightarrow> index_entry \<Rightarrow> bytes" where
  "write_entry v e =
     (if v = 4 then entry_front e @ ie_prefix e @ ie_name e @ [CHR 0x00]
      else let body = entry_front e @ ie_name e @ [CHR 0x00]
           in body @ replicate (entry_pad (length body)) CHR 0x00)"

definition write_extension :: "bytes \<times> bytes \<Rightarrow> bytes" where
  "write_extension x = fst x @ be_bytes 4 (length (snd x)) @ snd x"

definition write_index :: "nat \<Rightarrow> index_entry list \<Rightarrow> (bytes \<times> bytes) list \<Rightarrow> bytes \<Rightarrow> bytes" where
  "write_index v es exts checksum =
     ''DIRC'' @ be_bytes 4 v @ be_bytes 4 (length es) @ concat (map (write_entry v) es)
       @ concat (map write_extension exts) @ checksum"

definition wf_varint :: "bytes \<Rightarrow> bool" where
  "wf_varint p \<longleftrightarrow> p \<noteq> [] \<and> length p \<le> 10 \<and> (\<forall>b \<in> set (butlast p). 128 \<le> bval b) \<and> bval (last p) < 128"

definition wf_entry :: "nat \<Rightarrow> nat \<Rightarrow> index_entry \<Rightarrow> bool" where
  "wf_entry v hash_len e \<longleftrightarrow>
     length (ie_stat e) = 40 + hash_len \<and> ie_bits e < 16 \<and> CHR 0x00 \<notin> set (ie_name e)
     \<and> (case ie_extended e of None \<Rightarrow> v \<ge> 3 \<longrightarrow> even (ie_bits e div 4)
        | Some x \<Rightarrow> v \<ge> 3 \<and> odd (ie_bits e div 4) \<and> length x = 2)
     \<and> (v = 4 \<longrightarrow> wf_varint (ie_prefix e))"

definition wf_index :: "nat \<Rightarrow> nat \<Rightarrow> index_entry list \<Rightarrow> (bytes \<times> bytes) list \<Rightarrow> bytes \<Rightarrow> bool" where
  "wf_index v hash_len es exts checksum \<longleftrightarrow>
     v \<in> {2, 3, 4} \<and> (\<forall>e \<in> set es. wf_entry v hash_len e) \<and> length es < 2 ^ 32
     \<and> (\<forall>x \<in> set exts. length (fst x) = 4 \<and> length (snd x) < 2 ^ 32)
     \<and> length checksum = hash_len \<and> length (write_index v es exts checksum) < 2 ^ 63"

section \<open>Numbers\<close>

lemma length_be_bytes [simp]: "length (be_bytes k n) = k"
  by (induction k arbitrary: n) auto

lemma be_value_append: "be_value (a @ [b]) = be_value a * 256 + bval b"
  by (simp add: be_value_def)

lemma be_value_be_bytes: "n < 256 ^ k \<Longrightarrow> be_value (be_bytes k n) = n"
proof (induction k arbitrary: n)
  case 0
  then show ?case by (simp add: be_value_def)
next
  case (Suc k)
  have "n div 256 < 256 ^ k" using Suc.prems by (simp add: less_mult_imp_div_less mult.commute)
  then show ?case using Suc.IH[of "n div 256"] by (simp add: be_value_append)
qed

lemma get_range_mid:
  "off = length pre \<Longrightarrow> n = length x \<Longrightarrow> get_range (pre @ x @ post) off n = Some x"
  by (simp add: get_range_def)

lemma read_u32_mid:
  "off = length pre \<Longrightarrow> n < 2 ^ 32 \<Longrightarrow> read_be_u32 (pre @ be_bytes 4 n @ post) off = Some (of_nat n)"
  by (simp add: read_be_u32_def get_range_mid be_value_be_bytes)

lemma read_u16_mid:
  "off = length pre \<Longrightarrow> n < 2 ^ 16 \<Longrightarrow> read_be_u16 (pre @ be_bytes 2 n @ post) off = Some (of_nat n)"
  by (simp add: read_be_u16_def get_range_mid be_value_be_bytes)

lemma unat_u32: "n < 2 ^ 32 \<Longrightarrow> unat (of_nat n :: 32 word) = n"
  by (simp add: unsigned_of_nat take_bit_nat_eq_self)

lemma entry_flags_bound: "wf_entry v hl e \<Longrightarrow> entry_flags e < 2 ^ 16"
proof -
  assume "wf_entry v hl e"
  then have "ie_bits e * 4096 \<le> 15 * 4096" by (simp add: wf_entry_def)
  moreover have "min (length (ie_name e)) 0xfff \<le> 4095" by simp
  ultimately show ?thesis by (simp add: entry_flags_def)
qed

lemma flags_extended:
  assumes "n < 2 ^ 16"
  shows "(of_nat n :: 16 word) AND 0x4000 \<noteq> 0 \<longleftrightarrow> odd (n div 2 ^ 14)"
proof -
  have "(of_nat n :: 16 word) AND 0x4000 \<noteq> 0 \<longleftrightarrow> bit (of_nat n :: 16 word) 14"
    using and_exp_eq_0_iff_not_bit[of "of_nat n :: 16 word" 14] by simp
  also have "\<dots> \<longleftrightarrow> bit (unat (of_nat n :: 16 word)) 14" by (simp add: bit_unsigned_iff)
  also have "unat (of_nat n :: 16 word) = n" using assms by (simp add: unsigned_of_nat take_bit_nat_eq_self)
  finally show ?thesis by (simp add: bit_iff_odd)
qed

lemma flags_name_len: "n < 2 ^ 16 \<Longrightarrow> unat ((of_nat n :: 16 word) AND 0x0fff) = n mod 4096"
proof -
  assume n: "n < 2 ^ 16"
  have "(0x0fff :: 16 word) = mask 12" by (simp add: mask_eq_exp_minus_1)
  then have "(of_nat n :: 16 word) AND 0x0fff = take_bit 12 (of_nat n)" by (simp add: take_bit_eq_mask)
  then have "unat ((of_nat n :: 16 word) AND 0x0fff) = take_bit 12 (unat (of_nat n :: 16 word))"
    by (simp only: unsigned_take_bit_eq)
  also have "unat (of_nat n :: 16 word) = n" using n by (simp add: unsigned_of_nat take_bit_nat_eq_self)
  finally show ?thesis by (simp add: take_bit_eq_mod)
qed

lemma entry_flags_parts:
  assumes "wf_entry v hl e"
  shows "entry_flags e div 2 ^ 14 = ie_bits e div 4" "entry_flags e mod 4096 = min (length (ie_name e)) 0xfff"
proof -
  have m: "min (length (ie_name e)) 0xfff < 4096" by simp
  have "entry_flags e div 4096 = ie_bits e" using m by (simp add: entry_flags_def)
  then have "entry_flags e div 4096 div 4 = ie_bits e div 4" by simp
  then show "entry_flags e div 2 ^ 14 = ie_bits e div 4" by (simp add: div_mult2_eq[symmetric])
  show "entry_flags e mod 4096 = min (length (ie_name e)) 0xfff" using m by (simp add: entry_flags_def)
qed

section \<open>Reading an entry back\<close>

lemma checked_small: "n \<le> usize_max \<Longrightarrow> checked (Some n) msg = Inr n"
  by (simp add: checked_def)

lemma checked_add_small: "a + b \<le> usize_max \<Longrightarrow> checked (checked_add a b) msg = Inr (a + b)"
  by (simp add: checked_def checked_add_def)

lemma checked_sub_small: "b \<le> a \<Longrightarrow> checked (checked_sub a b) msg = Inr (a - b)"
  by (simp add: checked_def checked_sub_def)

lemma index_of_prefix: "x \<notin> set s \<Longrightarrow> index_of x (s @ x # t) = Some (length s)"
  by (induction s) auto

lemma find_nul_mid:
  assumes "index = pre @ name @ CHR 0x00 # post" "CHR 0x00 \<notin> set name"
    "off = length pre" "off + length name < ext_end" "ext_end \<le> length index"
  shows "find_nul index off ext_end = Inr (Some (off + length name))"
proof -
  obtain m where m: "ext_end - off = length name + Suc m"
    using assms(4) by (metis add_Suc_right less_diff_conv add.commute less_imp_Suc_add)
  have "take (ext_end - off) (drop off index) = name @ CHR 0x00 # take m post"
    unfolding m by (simp add: assms(1,3))
  then show ?thesis using assms index_of_prefix by (simp add: find_nul_def)
qed

lemma skip_varint_prefix:
  assumes "wf_varint p" "off = length pre" "length pre + length p \<le> ext_end" "ext_end \<le> length (pre @ p @ post)"
  shows "skip_varint (pre @ p @ post) off ext_end 0 = Inr (off + length p)"
proof -
  have gen: "skip_varint index off ext_end n = Inr (off + length p)"
    if "p \<noteq> []" "n + length p \<le> 10" "\<forall>b \<in> set (butlast p). 128 \<le> bval b" "bval (last p) < 128"
      "take (length p) (drop off index) = p" "off + length p \<le> ext_end" "ext_end \<le> length index"
    for p n off and index :: bytes
    using that
  proof (induction p arbitrary: n off)
    case (Cons b p)
    have b: "index_at index off = Inr b" "off < ext_end"
    proof -
      have "off < length index" using Cons.prems(6,7) by simp
      then have "drop off index = index ! off # drop (Suc off) index" by (simp add: Cons_nth_drop_Suc)
      then have "index ! off = b" using Cons.prems(5) by simp
      then show "index_at index off = Inr b" using \<open>off < length index\<close> by (simp add: index_at_def)
      show "off < ext_end" using Cons.prems(6) by simp
    qed
    show ?case
    proof (cases "p = []")
      case True
      then show ?thesis using b Cons.prems(2,4) by (subst skip_varint.simps) simp
    next
      case False
      have "take (length p) (drop (off + 1) index) = p"
      proof -
        have "drop (off + 1) index = drop 1 (drop off index)" by simp
        then show ?thesis using Cons.prems(5) by (metis One_nat_def drop_Suc_Cons drop_0 drop_take length_Cons
          diff_Suc_1)
      qed
      then have "skip_varint index (off + 1) ext_end (n + 1) = Inr (off + 1 + length p)"
        using Cons.prems False by (intro Cons.IH) auto
      then show ?thesis using b Cons.prems(2,3) False by (subst skip_varint.simps) simp
    qed
  qed simp
  show ?thesis using assms by (intro gen) (auto simp: wf_varint_def)
qed

text \<open>The part of an entry that all versions share.\<close>

lemma skip_entry_front:
  assumes wf: "wf_entry v hl e" and v: "v \<in> {2, 3, 4}"
    and index: "index = pre @ entry_front e @ post"
    and fits: "length pre + length (entry_front e) \<le> ext_end" "ext_end \<le> length index"
    and small: "length index < 2 ^ 63"
  shows "skip_index_entry index (length pre) ext_end v hl =
    (let off = length pre + length (entry_front e) in
     if v = 4 then
       bindE (skip_varint index off ext_end 0) (\<lambda>off1.
       bindE (find_nul index off1 ext_end) (\<lambda>r.
       bindE (checked r ''missing v4 index pathname NUL'') (\<lambda>nul. Inr (nul + 1))))
     else skip_name index (length pre) off ext_end (min (length (ie_name e)) 0xfff))"
proof -
  let ?x = "case ie_extended e of Some x \<Rightarrow> x | None \<Rightarrow> []"
  have stat: "length (ie_stat e) = 40 + hl" using wf by (simp add: wf_entry_def)
  have xlen: "length ?x = (if v \<ge> 3 \<and> odd (entry_flags e div 2 ^ 14) then 2 else 0)"
    using wf entry_flags_parts(1)[OF wf] by (auto simp: wf_entry_def split: option.splits)
  have front: "length (entry_front e) = 42 + hl + length ?x" using stat by (simp add: entry_front_def)
  have flags: "read_be_u16 index (length pre + 40 + hl) = Some (of_nat (entry_flags e))"
    using read_u16_mid[of "length pre + 40 + hl" "pre @ ie_stat e" "entry_flags e" "?x @ post"]
      stat entry_flags_bound[OF wf] by (simp add: index entry_front_def)
  have um: "usize_max = 2 ^ 64 - 1" by (simp add: usize_max_def)
  have hl: "length pre + (42 + hl) < 2 ^ 63" using fits front small by simp
  have adds: "Option.bind (checked_add 40 hl) (\<lambda>l. checked_add l 2) = Some (42 + hl)"
      "Option.bind (checked_add (length pre) 40) (\<lambda>w. checked_add w hl) = Some (length pre + 40 + hl)"
      "checked_add (length pre) (42 + hl) = Some (length pre + (42 + hl))"
      "checked_add (length pre + (42 + hl)) 2 = Some (length pre + (42 + hl) + 2)"
    using hl um by (simp_all add: checked_add_def)
  have nl: "unat ((of_nat (entry_flags e) :: 16 word) AND 0x0fff) = min (length (ie_name e)) 0xfff"
    using flags_name_len[OF entry_flags_bound[OF wf]] entry_flags_parts(2)[OF wf] by simp
  have ext: "(of_nat (entry_flags e) :: 16 word) AND 0x4000 \<noteq> 0 \<longleftrightarrow> odd (entry_flags e div 2 ^ 14)"
    by (rule flags_extended[OF entry_flags_bound[OF wf]])
  have room: "\<not> length pre + (42 + hl) > ext_end" using fits front by simp
  show ?thesis
  proof (cases "v \<ge> 3 \<and> odd (entry_flags e div 2 ^ 14)")
    case True
    then have "length (entry_front e) = 42 + hl + 2" "\<not> length pre + (42 + hl) + 2 > ext_end"
      using front xlen fits by simp_all
    then show ?thesis
      using True room
      by (simp add: skip_index_entry_def adds checked_def flags ext nl Let_def add.left_commute[of 44 "length pre"])
  next
    case False
    then have no_ext: "(v \<ge> 3 \<and> (of_nat (entry_flags e) :: 16 word) AND 0x4000 \<noteq> 0) = False"
      using ext by blast
    have "length (entry_front e) = 42 + hl" using False front xlen by simp
    then show ?thesis
      using room unfolding skip_index_entry_def Let_def
      by (simp only: adds checked_def flags no_ext nl bindE_simps ok_or_simps if_False)
  qed
qed

lemma skip_written_entry:
  assumes wf: "wf_entry v hl e" and v: "v \<in> {2, 3, 4}"
    and index: "index = pre @ write_entry v e @ post"
    and fits: "length pre + length (write_entry v e) \<le> ext_end" "ext_end \<le> length index"
    and small: "length index < 2 ^ 63"
  shows "skip_index_entry index (length pre) ext_end v hl = Inr (length pre + length (write_entry v e))"
proof -
  let ?off = "length pre + length (entry_front e)"
  have nul: "CHR 0x00 \<notin> set (ie_name e)" using wf by (simp add: wf_entry_def)
  have um: "usize_max = 2 ^ 64 - 1" by (simp add: usize_max_def)
  show ?thesis
  proof (cases "v = 4")
    case True
    have ix: "index = pre @ entry_front e @ ie_prefix e @ ie_name e @ CHR 0x00 # post"
      using index True by (simp add: write_entry_def)
    have front: "?off \<le> ext_end" "length pre + length (entry_front e) + length (ie_prefix e) + length (ie_name e) < ext_end"
      using fits True by (simp_all add: write_entry_def)
    have "skip_varint ((pre @ entry_front e) @ ie_prefix e @ (ie_name e @ CHR 0x00 # post)) ?off ext_end 0
        = Inr (?off + length (ie_prefix e))"
      using wf True front fits(2) ix by (intro skip_varint_prefix) (auto simp: wf_entry_def)
    then have vi: "skip_varint index ?off ext_end 0 = Inr (?off + length (ie_prefix e))" by (simp add: ix)
    have "find_nul index (?off + length (ie_prefix e)) ext_end
        = Inr (Some (?off + length (ie_prefix e) + length (ie_name e)))"
      using nul front fits(2) ix
      by (intro find_nul_mid[of _ "pre @ entry_front e @ ie_prefix e" _ post]) simp_all
    then show ?thesis
      using skip_entry_front[OF wf v ix front(1) fits(2) small] vi True
      by (simp add: checked_def write_entry_def)
  next
    case False
    let ?body = "entry_front e @ ie_name e @ [CHR 0x00]"
    let ?pad = "replicate (entry_pad (length ?body)) (CHR 0x00)"
    have ix: "index = pre @ entry_front e @ ie_name e @ CHR 0x00 # ?pad @ post"
      using index False by (simp add: write_entry_def Let_def)
    have len: "length (write_entry v e) = length ?body + entry_pad (length ?body)"
      using False by (simp add: write_entry_def Let_def)
    have front: "?off \<le> ext_end" "?off + length (ie_name e) < ext_end"
      using fits(1) len by simp_all
    let ?fin = "?off + length (ie_name e)"
    have at: "index_at index ?fin = Inr (CHR 0x00)"
    proof -
      have "index = (pre @ entry_front e @ ie_name e) @ CHR 0x00 # ?pad @ post" by (simp add: ix)
      then have "index ! ?fin = CHR 0x00" by (metis length_append add.assoc nth_append_length)
      then show ?thesis using front(2) fits(2) by (simp add: index_at_def)
    qed
    have fn: "find_nul index ?off ext_end = Inr (Some ?fin)"
      using nul front fits(2) ix by (intro find_nul_mid[of _ "pre @ entry_front e" _ "?pad @ post"]) simp_all
    have pad: "entry_pad n = (8 - n mod 8) mod 8" for n by (simp add: entry_pad_def)
    have total: "?fin + 1 + entry_pad (length ?body) = length pre + length (write_entry v e)"
      unfolding len by simp
    have tail: "?fin + 1 - length pre = length ?body" by simp
    have smalls: "?off + length (ie_name e) \<le> usize_max" "?fin + 1 + entry_pad (length ?body) \<le> usize_max"
      using fits small um total front by simp_all
    have "skip_name index (length pre) ?off ext_end (min (length (ie_name e)) 0xfff)
        = Inr (length pre + length (write_entry v e))"
    proof (cases "length (ie_name e) < 0xfff")
      case True
      then have "min (length (ie_name e)) 0xfff = length (ie_name e)" by simp
      then show ?thesis
        unfolding skip_name_def Let_def
        using True front(2) at smalls fits(1) total tail
        by (simp add: checked_add_small checked_sub_small pad[symmetric] bval_def)
    next
      case big: False
      then have "min (length (ie_name e)) 0xfff = 0xfff" by simp
      then show ?thesis
        unfolding skip_name_def Let_def
        using fn front(2) smalls fits(1) total tail
        by (simp add: checked_add_small checked_sub_small pad[symmetric] checked_small)
    qed
    then show ?thesis
      using skip_entry_front[OF wf v ix front(1) fits(2) small] False by simp
  qed
qed

section \<open>Reading a file back\<close>

lemma skip_written_entries:
  assumes "\<forall>e \<in> set es. wf_entry v hl e" "v \<in> {2, 3, 4}"
    and "index = pre @ concat (map (write_entry v) es) @ post"
    and "length pre + length (concat (map (write_entry v) es)) \<le> ext_end" "ext_end \<le> length index"
    and "length index < 2 ^ 63"
  shows "skip_index_entries (length es) index (length pre) ext_end v hl
    = Inr (length pre + length (concat (map (write_entry v) es)))"
  using assms
proof (induction es arbitrary: pre)
  case (Cons e es)
  have "skip_index_entry index (length pre) ext_end v hl = Inr (length pre + length (write_entry v e))"
    using Cons.prems by (intro skip_written_entry[of _ _ _ _ pre "concat (map (write_entry v) es) @ post"]) simp_all
  moreover have "skip_index_entries (length es) index (length (pre @ write_entry v e)) ext_end v hl
      = Inr (length (pre @ write_entry v e) + length (concat (map (write_entry v) es)))"
    using Cons.prems by (intro Cons.IH) simp_all
  ultimately show ?case by (simp add: add.assoc)
qed simp

lemma length_4E: "length s = 4 \<Longrightarrow> \<exists>a b c d. s = [a, b, c, d]"
  by (auto simp: eval_nat_numeral length_Suc_conv)

lemma read_written_extensions:
  assumes "\<forall>x \<in> set exts. length (fst x) = 4 \<and> length (snd x) < 2 ^ 32"
    and "index = pre @ concat (map write_extension exts) @ post"
    and "length index < 2 ^ 63"
  shows "read_extensions index (length pre) (length pre + length (concat (map write_extension exts))) acc
    = Inr (acc @ map fst exts)"
  using assms
proof (induction exts arbitrary: pre acc)
  case Nil
  then show ?case by (subst read_extensions.simps) simp
next
  case (Cons x exts)
  let ?rest = "concat (map write_extension exts)"
  obtain a b c d where sig: "fst x = [a, b, c, d]"
    using Cons.prems(1) length_4E[of "fst x"] by auto
  have n: "length (snd x) < 2 ^ 32" using Cons.prems(1) by simp
  have ix: "index = pre @ fst x @ be_bytes 4 (length (snd x)) @ snd x @ ?rest @ post"
    using Cons.prems(2) by (simp add: write_extension_def[of x])
  have at: "index_at index (length pre) = Inr a" "index_at index (length pre + 1) = Inr b"
      "index_at index (length pre + 2) = Inr c" "index_at index (length pre + 3) = Inr d"
    by (simp_all add: index_at_def ix sig nth_append)
  have sz: "read_be_u32 index (length pre + 4) = Some (of_nat (length (snd x)))"
    using read_u32_mid[of "length pre + 4" "pre @ fst x" "length (snd x)" "snd x @ ?rest @ post"] n
    by (simp add: ix sig)
  have un: "unat (of_nat (length (snd x)) :: 32 word) = length (snd x)" by (rule unat_u32[OF n])
  let ?fin = "length pre + length (concat (map write_extension (x # exts)))"
  have wl: "length (write_extension x) = 8 + length (snd x)" by (simp add: write_extension_def sig)
  have e: "?fin = length pre + 8 + length (snd x) + length ?rest" using wl by simp
  have small: "length pre + 8 + length (snd x) \<le> usize_max"
    using Cons.prems(3) ix sig by (simp add: usize_max_def)
  have rec: "read_extensions index (length (pre @ write_extension x)) (length (pre @ write_extension x) + length ?rest)
      (acc @ [fst x]) = Inr ((acc @ [fst x]) @ map fst exts)"
    using Cons.prems by (intro Cons.IH) simp_all
  have pos: "length (pre @ write_extension x) = length pre + 8 + length (snd x)" using wl by simp
  show ?case
    unfolding e
    using at sz un small rec[unfolded pos] sig
    by (subst read_extensions.simps) (simp add: checked_def checked_add_def)
qed

lemma parse_written_index:
  assumes "wf_index v hl es exts checksum"
  shows "parse_with_hash_len (write_index v es exts checksum) hl = Inr (map fst exts)"
proof -
  let ?ix = "write_index v es exts checksum"
  let ?E = "concat (map (write_entry v) es)" and ?X = "concat (map write_extension exts)"
  have wf: "v \<in> {2, 3, 4}" "\<forall>e \<in> set es. wf_entry v hl e" "length es < 2 ^ 32"
      "\<forall>x \<in> set exts. length (fst x) = 4 \<and> length (snd x) < 2 ^ 32"
      "length checksum = hl" "length ?ix < 2 ^ 63"
    using assms by (simp_all add: wf_index_def)
  let ?pre = "''DIRC'' @ be_bytes 4 v @ be_bytes 4 (length es)"
  have ix: "?ix = ?pre @ ?E @ ?X @ checksum" by (simp add: write_index_def)
  have len: "length ?ix = 12 + length ?E + length ?X + hl" using wf(5) by (simp add: ix)
  have ver: "read_be_u32 ?ix 4 = Some (of_nat v)"
    using read_u32_mid[of 4 "''DIRC''" v "be_bytes 4 (length es) @ ?E @ ?X @ checksum"] wf(1)
    by (auto simp: write_index_def)
  have cnt: "read_be_u32 ?ix 8 = Some (of_nat (length es))"
    using read_u32_mid[of 8 "''DIRC'' @ be_bytes 4 v" "length es" "?E @ ?X @ checksum"] wf(3)
    by (simp add: write_index_def)
  have uv: "unat (of_nat v :: 32 word) = v" using wf(1) by (intro unat_u32) auto
  have end_pos: "length ?ix - hl = 12 + length ?E + length ?X" using len by simp
  have entries: "skip_index_entries (length es) ?ix 12 (12 + length ?E + length ?X) v hl = Inr (12 + length ?E)"
    using skip_written_entries[OF wf(2,1), of ?ix ?pre "?X @ checksum" "12 + length ?E + length ?X"] ix len wf(6)
    by simp
  have exts: "read_extensions ?ix (12 + length ?E) (12 + length ?E + length ?X) [] = Inr (map fst exts)"
    using read_written_extensions[OF wf(4), of ?ix "?pre @ ?E" checksum "[]"] ix wf(6) by simp
  have "take 4 ?ix = ''DIRC''" by (simp add: write_index_def)
  then show ?thesis
    using len ver cnt entries exts wf(1)
    by (auto simp: parse_with_hash_len_def uv unat_u32[OF wf(3)] end_pos checked_def checked_sub_def)
qed

section \<open>Properties\<close>

text \<open>The index reader is total: on every byte string it returns signatures of four bytes or an
  error, and no index, slice or offset in it panics.\<close>

theorem index_reader_total:
  "case parse_index_extension_signatures index of
     Inl e \<Rightarrow> e \<noteq> IdxPanic
   | Inr sigs \<Rightarrow> list_all (\<lambda>sig. length sig = 4) sigs"
  using parse_signatures_calm[of index] by (auto simp: calm_def list_all_iff split: sum.splits)


definition demo_entry :: index_entry where
  "demo_entry = \<lparr> ie_stat = replicate 60 CHR ''s'', ie_bits = 4, ie_extended = Some ''xy'',
     ie_prefix = [byte_of 0], ie_name = ''src/a.rs'' \<rparr>"

lemma demo_index_wf: "wf_index 4 20 [demo_entry] [(''TREE'', ''abc'')] (replicate 20 CHR ''c'')"
proof -
  have "wf_entry 4 20 demo_entry" by code_simp
  moreover have "length (write_index 4 [demo_entry] [(''TREE'', ''abc'')] (replicate 20 CHR ''c'')) = 117"
    by (simp add: write_index_def write_entry_def entry_front_def write_extension_def demo_entry_def)
  ultimately show ?thesis by (simp add: wf_index_def)
qed


text \<open>Fail closed.  The gate lets a well-formed index pass exactly when none of its extensions is
  required, that is, when no signature starts with a lower-case letter; the split-index extension
  \<open>link\<close> and the sparse-index extension \<open>sdir\<close> are among the rejected ones.\<close>

theorem index_gate_iff:
  assumes "wf_index v 20 es exts checksum"
  shows "validate_index_bytes (write_index v es exts checksum) = Inr ()
    \<longleftrightarrow> (\<forall>x \<in> set exts. \<not> ascii_lower (hd (fst x)))"
proof -
  have "unsupported_extension (fst x) \<longleftrightarrow> ascii_lower (hd (fst x))" for x :: "bytes \<times> bytes"
    by (auto simp: unsupported_extension_def ascii_lower_def bval_def)
  then show ?thesis
    using parse_written_index[OF assms]
    by (auto simp: validate_index_bytes_def parse_index_extension_signatures_def all_ok_Inr_iff)
qed

theorem index_gate_iff_witness:
  "validate_index_bytes (write_index 4 [demo_entry] [(''TREE'', ''abc'')] (replicate 20 CHR ''c'')) = Inr ()"
  using index_gate_iff[OF demo_index_wf] by (simp add: ascii_lower_def bval_def)

end
