(* ===== verification/RepoPath.thy ===== *)
theory RepoPath
  imports GitTypes PathPolicy
begin

text \<open>
  The literal path filters of the git hunk tools (\<open>validate_repo_relative_path\<close> and
  \<open>validate_literal_paths\<close> in \<^verbatim>\<open>git/handlers/hunks.rs\<close>).
\<close>

section \<open>The code\<close>

abbreviation BACKSLASH :: byte where "BACKSLASH \<equiv> CHR 0x5C"
abbreviation NUL :: byte where "NUL \<equiv> CHR 0x00"

definition reserved_names :: "bytes list" where
  "reserved_names =
     [''CON'', ''PRN'', ''AUX'', ''NUL'',
      ''COM1'', ''COM2'', ''COM3'', ''COM4'', ''COM5'', ''COM6'', ''COM7'', ''COM8'', ''COM9'',
      ''LPT1'', ''LPT2'', ''LPT3'', ''LPT4'', ''LPT5'', ''LPT6'', ''LPT7'', ''LPT8'', ''LPT9'']"

definition is_reserved_windows_name :: "bytes \<Rightarrow> bool" where
  "is_reserved_windows_name name = (map to_upper (hd (split_byte CHR ''.'' name)) \<in> set reserved_names)"

definition is_protected_8dot3_alias :: "bytes \<Rightarrow> bool" where
  "is_protected_8dot3_alias name =
     (let component = (case strip_prefix ''.'' name of Some r \<Rightarrow> r | None \<Rightarrow> name) in
      case rsplit_once_byte CHR ''~'' component of
        None \<Rightarrow> False
      | Some (stem, ordinal) \<Rightarrow>
          eq_ignore_ascii_case stem ''git'' \<and> ordinal \<noteq> [] \<and> list_all is_digit ordinal)"

definition looks_like_literal_pathspec_magic_filename :: "bytes \<Rightarrow> bool" where
  "looks_like_literal_pathspec_magic_filename path =
     (starts_with '':('' path \<and> CHR '')'' \<in> set path \<and> count_list path CHR '':'' = 1)"

definition validate_component :: "bytes \<Rightarrow> bytes + unit" where
  "validate_component c =
     (if c = [] \<or> c = ''.'' \<or> c = ''..''
      then Inl ''path must not contain empty, '.', or '..' components''
      else if eq_ignore_ascii_case c ''.git'' then Inl ''path must not target .git metadata''
      else if is_protected_8dot3_alias c
      then Inl ''path must not target protected metadata via 8.3 alias''
      else if ends_with '' '' c \<or> ends_with ''.'' c
      then Inl ''path components must not end with space or dot''
      else if is_reserved_windows_name c then Inl ''reserved Windows device names are not supported''
      else Inr ())"

definition validate_repo_relative_path :: "bytes \<Rightarrow> bytes + unit" where
  "validate_repo_relative_path path =
     (if path = [] \<or> all_whitespace path
      then Inl ''path must be non-empty and not whitespace-only''
      else if NUL \<in> set path then Inl ''path must not contain NUL''
      else if starts_with [SLASH] path \<or> starts_with [BACKSLASH] path then Inl ''path must be relative''
      else if BACKSLASH \<in> set path then Inl ''path must use POSIX '/' separators''
      else if CHR '':'' \<in> set path \<and> \<not> looks_like_literal_pathspec_magic_filename path
      then Inl ''Windows drive, UNC, and ADS-style colon syntax are not supported''
      else if ends_with [SLASH] path then Inl ''path must not end with a slash''
      else all_ok validate_component (split_byte SLASH path))"

fun validate_paths_loop :: "bytes list \<Rightarrow> nat \<Rightarrow> nat \<Rightarrow> (nat \<times> nat) result" where
  "validate_paths_loop [] tot argv = Inr (tot, argv)"
| "validate_paths_loop (p # ps) tot argv =
     (case validate_repo_relative_path p of
        Inl _ \<Rightarrow> Inl (structured_error ''invalid_pathspec'' [(''path'', JStr p)])
      | Inr _ \<Rightarrow> validate_paths_loop ps (saturating_add tot (length p))
                   (saturating_add argv (length p + 1)))"

definition validate_literal_paths :: "bytes list \<Rightarrow> bytes list result" where
  "validate_literal_paths paths =
     (if length paths > MAX_GIT_PATHSPECS
      then Inl (structured_error ''path_complexity_limit'' [(''max_paths'', JNum (int MAX_GIT_PATHSPECS))])
      else bindE (validate_paths_loop paths 0 0) (\<lambda>(tot, argv).
        if tot > MAX_GIT_PATHSPEC_BYTES \<or> argv > MAX_GIT_ARG_BYTES
        then Inl (structured_error ''path_complexity_limit''
               [(''path_bytes'', JNum (int tot)), (''argv_bytes'', JNum (int argv)),
                (''max_path_bytes'', JNum (int MAX_GIT_PATHSPEC_BYTES)),
                (''max_argv_bytes'', JNum (int MAX_GIT_ARG_BYTES))])
        else Inr paths))"

section \<open>What a validated path is\<close>

definition safe_component :: "bytes \<Rightarrow> bool" where
  "safe_component c \<longleftrightarrow> c \<noteq> [] \<and> c \<noteq> ''.'' \<and> c \<noteq> ''..'' \<and> SLASH \<notin> set c
     \<and> map to_lower c \<noteq> ''.git'' \<and> \<not> is_protected_8dot3_alias c
     \<and> last c \<noteq> CHR '' '' \<and> last c \<noteq> CHR ''.'' \<and> \<not> is_reserved_windows_name c"

lemma ends_with_single: "ends_with [x] s \<longleftrightarrow> s \<noteq> [] \<and> last s = x"
  by (cases s rule: rev_cases) (auto simp: ends_with_iff)

lemma to_lower_git: "map to_lower ''.git'' = ''.git''"
  by code_simp

lemma validate_component_iff: "SLASH \<notin> set c \<Longrightarrow> validate_component c = Inr u \<longleftrightarrow> safe_component c"
  unfolding safe_component_def validate_component_def eq_ignore_ascii_case_def ends_with_single to_lower_git
  by auto

lemma validate_repo_relative_pathD:
  assumes "validate_repo_relative_path p = Inr u"
  shows "\<not> is_absolute p" "NUL \<notin> set p" "BACKSLASH \<notin> set p"
    "\<forall>c \<in> set (split_byte SLASH p). safe_component c"
  using assms validate_component_iff split_byte_no_sep[of _ SLASH p]
  by (auto simp: validate_repo_relative_path_def is_absolute_def all_ok_Inr_iff split: if_splits)

lemma components_safe:
  assumes "validate_repo_relative_path p = Inr u"
  shows "components p = map Normal (split_byte SLASH p)"
proof -
  note v = validate_repo_relative_pathD[OF assms]
  have "filter (\<lambda>s. s \<noteq> [] \<and> s \<noteq> ''.'') (split_byte SLASH p) = split_byte SLASH p"
    using v(4) by (simp add: filter_id_conv safe_component_def)
  moreover have "map comp_of (split_byte SLASH p) = map Normal (split_byte SLASH p)"
    using v(4) by (simp add: comp_of_def safe_component_def)
  moreover have "hd (split_byte SLASH p) \<noteq> ''.''"
    using v(4) hd_in_set[OF split_byte_nonempty] unfolding safe_component_def by metis
  ultimately show ?thesis using v(1) by (simp add: components_def Let_def)
qed

lemma validate_paths_loop_Inr:
  assumes "validate_paths_loop ps t a = Inr (t', a')" "t + sum_list (map length ps) \<le> usize_max"
    "a + sum_list (map (\<lambda>p. length p + 1) ps) \<le> usize_max"
  shows "t' = t + sum_list (map length ps) \<and> a' = a + sum_list (map (\<lambda>p. length p + 1) ps)
    \<and> (\<forall>p \<in> set ps. validate_repo_relative_path p = Inr ())"
  using assms
proof (induction ps arbitrary: t a)
  case (Cons p ps)
  then obtain u where p: "validate_repo_relative_path p = Inr u"
    by (auto split: sum.splits)
  have "t + length p \<le> usize_max" "a + (length p + 1) \<le> usize_max" using Cons.prems by auto
  then show ?case using Cons.IH[of "t + length p" "a + (length p + 1)"] Cons.prems p
    by (simp add: add.assoc)
qed simp

section \<open>Properties\<close>

lemma split_byte_app: "split_byte x (a @ x # b) = split_byte x a @ split_byte x b"
  by (induction a) (auto split: list.splits)

lemma components_push:
  assumes "validate_repo_relative_path p = Inr u" "is_absolute ws"
  shows "components (path_push ws p) = components ws @ map Normal (split_byte SLASH p)"
proof -
  let ?f = "filter (\<lambda>s. s \<noteq> [] \<and> s \<noteq> ''.'')"
  have rel: "\<not> is_absolute p" by (rule validate_repo_relative_pathD(1)[OF assms(1)])
  have ne: "ws \<noteq> []" using assms(2) by (auto simp: is_absolute_def starts_with_iff)
  have cp: "map comp_of (?f (split_byte SLASH p)) = map Normal (split_byte SLASH p)"
    using components_safe[OF assms(1)] rel validate_repo_relative_pathD(4)[OF assms(1)]
    by (auto simp: components_def Let_def safe_component_def split: if_splits)
  have abs: "is_absolute (ws @ r)" for r
    using assms(2) by (auto simp: is_absolute_def starts_with_iff)
  have "?f (split_byte SLASH (path_push ws p)) = ?f (split_byte SLASH ws) @ ?f (split_byte SLASH p)"
  proof (cases "ends_with [SLASH] ws")
    case True
    then obtain w where w: "ws = w @ [SLASH]" by (auto simp: ends_with_iff)
    then have "split_byte SLASH (path_push ws p) = split_byte SLASH w @ split_byte SLASH p"
      using True rel split_byte_app[of SLASH w p] by (simp add: path_push_def)
    moreover have "split_byte SLASH ws = split_byte SLASH w @ [[]]"
      using split_byte_app[of SLASH w "[]"] by (simp add: w)
    ultimately show ?thesis by simp
  next
    case False
    then show ?thesis using rel ne split_byte_app[of SLASH ws p] by (simp add: path_push_def)
  qed
  moreover have "is_absolute (path_push ws p)" using abs rel ne by (simp add: path_push_def)
  ultimately show ?thesis using assms(2) cp by (simp add: components_def Let_def)
qed

text \<open>A literal path filter that passes validation names, joined to any absolute directory, a
  path strictly below that directory: it is relative, has no empty, \<open>.\<close> or \<open>..\<close> component, no NUL
  and no backslash, and none of its components is \<open>.git\<close> in any case or a Windows alias of it.\<close>

theorem literal_path_contained:
  assumes "validate_repo_relative_path p = Inr u" "is_absolute ws"
  shows "lexically_below ws (path_push ws p)
    \<and> components (path_push ws p) = components ws @ map Normal (split_byte SLASH p)
    \<and> NUL \<notin> set p \<and> BACKSLASH \<notin> set p
    \<and> (\<forall>c \<in> set (split_byte SLASH p). c \<noteq> [] \<and> c \<noteq> ''..'' \<and> map to_lower c \<noteq> ''.git''
         \<and> \<not> is_protected_8dot3_alias c)"
proof -
  have "ParentDir \<notin> set (map Normal (split_byte SLASH p))" by auto
  then have "lexically_below ws (path_push ws p)"
    unfolding lexically_below_def components_push[OF assms] by blast
  then show ?thesis
    using components_push[OF assms] validate_repo_relative_pathD[OF assms(1)]
    by (simp add: safe_component_def)
qed

theorem literal_path_contained_witness: "lexically_below ''/w'' (path_push ''/w'' ''src/lib.rs'')"
proof -
  have "validate_repo_relative_path ''src/lib.rs'' = Inr ()" "is_absolute ''/w''" by code_simp+
  then show ?thesis using literal_path_contained by blast
qed

text \<open>A list of filters that passes is passed on unchanged, and it respects the limits: at most
  1000 paths, each of them valid, 16384 bytes of path and 24000 bytes of arguments.\<close>

theorem literal_paths_limits:
  assumes "validate_literal_paths ps = Inr qs" "sum_list (map (\<lambda>p. length p + 1) ps) \<le> usize_max"
  shows "qs = ps \<and> length ps \<le> 1000 \<and> (\<forall>p \<in> set ps. validate_repo_relative_path p = Inr ())
    \<and> sum_list (map length ps) \<le> 16384 \<and> sum_list (map (\<lambda>p. length p + 1) ps) \<le> 24000"
proof -
  from assms(1) obtain tot argv where l: "length ps \<le> 1000" "validate_paths_loop ps 0 0 = Inr (tot, argv)"
      "tot \<le> 16384" "argv \<le> 24000" "qs = ps"
    by (auto simp: validate_literal_paths_def bindE_Inr_iff MAX_GIT_PATHSPECS_def MAX_GIT_PATHSPEC_BYTES_def
        MAX_GIT_ARG_BYTES_def split: if_splits)
  have "sum_list (map length ps) \<le> sum_list (map (\<lambda>p. length p + 1) ps)"
    by (rule sum_list_mono) simp
  then show ?thesis using validate_paths_loop_Inr[OF l(2)] l assms(2) by simp
qed

theorem literal_paths_limits_witness: "sum_list (map length [''a/b'', ''c'']) \<le> 16384"
proof -
  have "validate_repo_relative_path ''a/b'' = Inr ()" "validate_repo_relative_path ''c'' = Inr ()"
    by code_simp+
  then have "validate_literal_paths [''a/b'', ''c''] = Inr [''a/b'', ''c'']"
    by (simp add: validate_literal_paths_def MAX_GIT_PATHSPECS_def MAX_GIT_PATHSPEC_BYTES_def
        MAX_GIT_ARG_BYTES_def saturating_add_def usize_max_def)
  then show ?thesis using literal_paths_limits[of "[''a/b'', ''c'']"] by (simp add: usize_max_def)
qed

end
