(* ===== verification/DiffParse.thy ===== *)
theory DiffParse
  imports RepoPath "HOL-Library.List_Lexorder" "HOL-Library.Char_ord"
begin

text \<open>
  The parser of unified diffs in \<^verbatim>\<open>git/handlers/hunks.rs\<close>: from the bytes \<open>git diff\<close> printed to
  files and hunks with identifiers.  Strings are their UTF-8 bytes; all slicing in this code is at
  ASCII characters, so it cannot split a scalar value.  The digest of SHA-256 in hexadecimal is a
  parameter.
\<close>

section \<open>Lines\<close>

function keep_endings_loop :: "bytes \<Rightarrow> nat \<Rightarrow> nat \<Rightarrow> bytes list \<Rightarrow> bytes list" where
  "keep_endings_loop t idx start acc =
     (if idx < length t then
        if t ! idx = LF then
          keep_endings_loop t (idx + 1) (idx + 1) (acc @ [take (idx + 1 - start) (drop start t)])
        else if t ! idx = CR then
          let e = (if idx + 1 < length t \<and> t ! (idx + 1) = LF then idx + 2 else idx + 1)
          in keep_endings_loop t e e (acc @ [take (e - start) (drop start t)])
        else keep_endings_loop t (idx + 1) start acc
      else if start < length t then acc @ [drop start t] else acc)"
  by pat_completeness auto
termination
  by (relation "measure (\<lambda>(t, idx, start, acc). length t - idx)") (auto simp: Let_def)

declare keep_endings_loop.simps [simp del]

definition split_lines_keep_endings :: "bytes \<Rightarrow> bytes list" where
  "split_lines_keep_endings t = (if t = [] then [] else keep_endings_loop t 0 0 [])"

section \<open>Quoted paths\<close>

abbreviation QUOTE :: byte where "QUOTE \<equiv> CHR 0x22"

definition is_octal :: "byte \<Rightarrow> bool" where
  "is_octal b \<longleftrightarrow> is_digit b \<and> bval b < 56"

text \<open>Up to \<open>n\<close> more octal digits after position \<open>idx\<close>: the value and the last position read.\<close>

fun octal_more :: "bytes \<Rightarrow> nat \<Rightarrow> nat \<Rightarrow> nat \<Rightarrow> nat \<times> nat" where
  "octal_more bs idx val 0 = (val, idx)"
| "octal_more bs idx val (Suc n) =
     (if idx + 1 < length bs \<and> is_octal (bs ! (idx + 1))
      then octal_more bs (idx + 1) (val * 8 + (bval (bs ! (idx + 1)) - 48)) n
      else (val, idx))"

definition escape_byte :: "byte \<Rightarrow> byte" where
  "escape_byte b =
     (if b = CHR ''a'' then byte_of 7
      else if b = CHR ''b'' then byte_of 8
      else if b = CHR ''f'' then byte_of 12
      else if b = CHR ''n'' then LF
      else if b = CHR ''r'' then CR
      else if b = CHR ''t'' then byte_of 9
      else if b = CHR ''v'' then byte_of 11
      else b)"

lemma octal_more_idx: "idx \<le> snd (octal_more bs idx val n)"
  by (induction bs idx val n rule: octal_more.induct) auto

lemma octal_more_le: "(v, i) = octal_more bs idx val n \<Longrightarrow> idx \<le> i"
  using octal_more_idx[of idx bs val n] by (metis snd_conv)

function quoted_loop :: "bytes \<Rightarrow> nat \<Rightarrow> bytes \<Rightarrow> bytes + bytes \<times> nat" where
  "quoted_loop bs idx out =
     (if idx < length bs then
        if bs ! idx = QUOTE then
          (if utf8_valid out then Inr (out, idx + 1) else Inl ''quoted path is not valid UTF-8'')
        else if bs ! idx = BACKSLASH then
          if idx + 1 \<ge> length bs then Inl ''unterminated quoted path escape''
          else if is_octal (bs ! (idx + 1)) then
            (case octal_more bs (idx + 1) (bval (bs ! (idx + 1)) - 48) 2 of
               (val, last_idx) \<Rightarrow>
                 if val > 255 then Inl ''octal escape exceeds byte range''
                 else quoted_loop bs (last_idx + 1) (out @ [byte_of val]))
          else quoted_loop bs (idx + 2) (out @ [escape_byte (bs ! (idx + 1))])
        else quoted_loop bs (idx + 1) (out @ [bs ! idx])
      else Inl ''unterminated quoted path'')"
  by pat_completeness auto
termination
  by (relation "measure (\<lambda>(bs, idx, out). length bs - idx)") (auto dest: octal_more_le)

declare quoted_loop.simps [simp del]

definition parse_c_quoted_path :: "bytes \<Rightarrow> bytes + bytes \<times> nat" where
  "parse_c_quoted_path inp =
     (if inp = [] \<or> hd inp \<noteq> QUOTE then Inl ''path does not start with a quote''
      else quoted_loop inp 1 [])"

section \<open>The header of a file record\<close>

definition strip_git_prefix :: "bytes \<Rightarrow> bytes \<Rightarrow> bytes result" where
  "strip_git_prefix path pre =
     (case strip_prefix pre path of
        None \<Rightarrow> Inl diff_parse_error
      | Some r \<Rightarrow> if r = [] then Inl diff_parse_error else Inr r)"

definition split_git_header :: "bytes \<Rightarrow> (bytes \<times> bytes) result" where
  "split_git_header rest =
     (if starts_with [QUOTE] rest then
        case parse_c_quoted_path rest of
          Inl _ \<Rightarrow> Inl diff_parse_error
        | Inr (old, consumed) \<Rightarrow>
            let remaining = trim_start (drop consumed rest) in
            (case parse_c_quoted_path remaining of
               Inl _ \<Rightarrow> Inl diff_parse_error
             | Inr (new, new_consumed) \<Rightarrow>
                 if trim (drop new_consumed remaining) \<noteq> [] then Inl diff_parse_error
                 else Inr (old, new))
      else
        case find_sub '' b/'' rest of
          None \<Rightarrow> Inl diff_parse_error
        | Some i \<Rightarrow>
            if find_sub '' b/'' (drop (i + 3) rest) \<noteq> None then Inl diff_parse_error
            else Inr (take i rest, drop (i + 1) rest))"

definition parse_diff_git_header :: "bytes \<Rightarrow> (bytes \<times> bytes) result" where
  "parse_diff_git_header line =
     (case strip_prefix ''diff --git '' (trim_end_crlf line) of
        None \<Rightarrow> Inl diff_parse_error
      | Some rest \<Rightarrow>
          bindE (split_git_header rest) (\<lambda>(old, new).
          bindE (strip_git_prefix old ''a/'') (\<lambda>old1.
          bindE (strip_git_prefix new ''b/'') (\<lambda>new1. Inr (old1, new1)))))"

definition file_header_path_matches :: "bytes \<Rightarrow> bytes \<Rightarrow> bytes \<Rightarrow> bytes \<Rightarrow> bool" where
  "file_header_path_matches header marker pre expected =
     (case strip_prefix marker (trim_end_crlf header) of
        None \<Rightarrow> False
      | Some rest \<Rightarrow>
          if rest = ''/dev/null'' then False
          else if starts_with [QUOTE] rest then
            (case parse_c_quoted_path rest of
               Inl _ \<Rightarrow> False
             | Inr (path, consumed) \<Rightarrow>
                 trim (drop consumed rest) = [] \<and> strip_prefix pre path = Some expected)
          else strip_prefix pre rest = Some expected)"

definition valid_sha1_prefix :: "bytes \<Rightarrow> bool" where
  "valid_sha1_prefix v \<longleftrightarrow>
     4 \<le> length v \<and> length v \<le> 40 \<and> list_all hexdigit v \<and> list_ex (\<lambda>b. b \<noteq> CHR ''0'') v"

definition valid_index_header :: "bytes \<Rightarrow> bool" where
  "valid_index_header line =
     (case strip_prefix ''index '' line of
        None \<Rightarrow> False
      | Some rest \<Rightarrow>
          (case split_whitespace rest of
             [] \<Rightarrow> False
           | ids # modes \<Rightarrow>
               (case split_once ''..'' ids of
                  None \<Rightarrow> False
                | Some (a, b) \<Rightarrow>
                    valid_sha1_prefix a \<and> valid_sha1_prefix b
                    \<and> (case modes of
                         [] \<Rightarrow> True
                       | mode # r \<Rightarrow> (mode = ''100644'' \<or> mode = ''100755'') \<and> r = []))))"

section \<open>Hunks\<close>

definition parse_range :: "bytes \<Rightarrow> byte \<Rightarrow> (int \<times> int) result" where
  "parse_range txt pre =
     (case strip_prefix [pre] txt of
        None \<Rightarrow> Inl diff_parse_error
      | Some t \<Rightarrow>
          let (s, l) = (case split_once '','' t of Some p \<Rightarrow> p | None \<Rightarrow> (t, ''1'')) in
          (case parse_i64 s of
             None \<Rightarrow> Inl diff_parse_error
           | Some start \<Rightarrow>
               (case parse_i64 l of
                  None \<Rightarrow> Inl diff_parse_error
                | Some ls \<Rightarrow>
                    if start < 0 \<or> ls < 0 then Inl diff_parse_error else Inr (start, ls))))"

definition parse_hunk_header :: "bytes \<Rightarrow> (int \<times> int \<times> int \<times> int) result" where
  "parse_hunk_header header =
     (case strip_prefix ''@@ '' (trim_end_crlf header) of
        None \<Rightarrow> Inl diff_parse_error
      | Some rest \<Rightarrow>
          (case find_sub '' @@'' rest of
             None \<Rightarrow> Inl diff_parse_error
           | Some e \<Rightarrow>
               (case split_whitespace (take e rest) of
                  old # new # _ \<Rightarrow>
                    bindE (parse_range old CHR ''-'') (\<lambda>(os, ol).
                    bindE (parse_range new CHR ''+'') (\<lambda>(ns, nl). Inr (os, ol, ns, nl)))
                | _ \<Rightarrow> Inl diff_parse_error)))"

definition no_newline_marker :: bytes where
  "no_newline_marker = BACKSLASH # '' No newline at end of file''"

fun count_body :: "bytes list \<Rightarrow> nat \<Rightarrow> nat \<Rightarrow> (nat \<times> nat) result" where
  "count_body [] o1 n1 = Inr (o1, n1)"
| "count_body (l # ls) o1 n1 =
     (case l of
        [] \<Rightarrow> Inl diff_parse_error
      | c # _ \<Rightarrow>
          if c = CHR '' '' then count_body ls (saturating_add o1 1) (saturating_add n1 1)
          else if c = CHR ''-'' then count_body ls (saturating_add o1 1) n1
          else if c = CHR ''+'' then count_body ls o1 (saturating_add n1 1)
          else if c = BACKSLASH \<and> trim_end_crlf l = no_newline_marker then count_body ls o1 n1
          else Inl diff_parse_error)"

definition validate_hunk_body_counts :: "bytes list \<Rightarrow> int \<Rightarrow> int \<Rightarrow> unit result" where
  "validate_hunk_body_counts ls expected_old expected_new =
     (if expected_old < 0 \<or> expected_new < 0 then Inl diff_parse_error
      else
        bindE (count_body ls 0 0) (\<lambda>(o1, n1).
          if o1 \<noteq> nat expected_old \<or> n1 \<noteq> nat expected_new
          then Inl (structured_error ''diff_parse_error''
                 [(''expected_old_lines'', JNum expected_old), (''expected_new_lines'', JNum expected_new),
                  (''actual_old_lines'', JNum (int o1)), (''actual_new_lines'', JNum (int n1))])
          else Inr ()))"

section \<open>Identifiers\<close>

fun le_bytes :: "nat \<Rightarrow> nat \<Rightarrow> bytes" where
  "le_bytes 0 n = []"
| "le_bytes (Suc k) n = byte_of (n mod 256) # le_bytes k (n div 256)"

definition hash_len_bytes :: "bytes \<Rightarrow> bytes" where
  "hash_len_bytes bs = le_bytes 8 (length bs) @ bs"

definition scope_bytes :: "bytes \<Rightarrow> repo_context \<Rightarrow> bool \<Rightarrow> nat \<Rightarrow> bytes list \<Rightarrow> bytes" where
  \<comment> \<open>what both identifiers start with\<close>
  "scope_bytes domain repo staged ctx paths =
     hash_len_bytes domain @ hash_len_bytes (identity repo)
       @ [byte_of (if staged then 1 else 0)] @ le_bytes 4 ctx @ concat (map hash_len_bytes paths)"

definition diff_id ::
  "(bytes \<Rightarrow> bytes) \<Rightarrow> bytes \<Rightarrow> repo_context \<Rightarrow> bool \<Rightarrow> nat \<Rightarrow> bytes list \<Rightarrow> bytes" where
  "diff_id sha diff repo staged ctx paths =
     ''sha256:'' @ sha (scope_bytes ''tools-mcp-git-diff-v1'' repo staged ctx paths @ hash_len_bytes diff)"

definition hunk_id ::
  "(bytes \<Rightarrow> bytes) \<Rightarrow> repo_context \<Rightarrow> bool \<Rightarrow> nat \<Rightarrow> bytes list \<Rightarrow> nat \<Rightarrow> nat \<Rightarrow> bytes \<Rightarrow> bytes
   \<Rightarrow> bytes \<Rightarrow> bytes \<Rightarrow> bytes" where
  "hunk_id sha repo staged ctx paths fi hi old_path new_path header body =
     nat_dec fi @ ''.'' @ nat_dec hi @ ''.'' @
       sha (scope_bytes ''tools-mcp-git-hunk-v1'' repo staged ctx paths
              @ hash_len_bytes old_path @ hash_len_bytes new_path @ hash_len_bytes header
              @ hash_len_bytes body)"

end
