(* ===== verification/DiffRecord.thy ===== *)
theory DiffRecord
  imports DiffParse
begin

text \<open>
  The second half of the diff parser in \<^verbatim>\<open>git/handlers/hunks.rs\<close>: one file record, the whole diff
  with its complexity limits, and the JSON reply of the \<open>GitHunks\<close> tool.
\<close>

section \<open>One file record\<close>

record record_scan =
  rs_old_header :: "bytes option"
  rs_new_header :: "bytes option"
  rs_extended :: "bytes list"
  rs_ranges :: "(nat \<times> nat) list"
  rs_binary :: bool
  rs_kinds :: "bytes list"
  rs_unsupported :: bool

definition kind_insert :: "bytes \<Rightarrow> bytes list \<Rightarrow> bytes list" where
  \<comment> \<open>\<open>BTreeSet::insert\<close>: the set as its sorted list\<close>
  "kind_insert k ks = (if k \<in> set ks then ks else insort k ks)"

text \<open>How an extended header line is recognised: \<open>None\<close> is an unknown line, \<open>Some None\<close> a known one
  that says nothing about the kind of change.\<close>

definition header_kind :: "bytes \<Rightarrow> bytes option option" where
  "header_kind t =
     (if starts_with ''new file mode'' t then Some (Some ''added'')
      else if starts_with ''deleted file mode'' t then Some (Some ''deleted'')
      else if starts_with ''rename from'' t \<or> starts_with ''rename to'' t then Some (Some ''renamed'')
      else if starts_with ''copy from'' t \<or> starts_with ''copy to'' t then Some (Some ''copied'')
      else if starts_with ''similarity index'' t \<or> starts_with ''dissimilarity index'' t then Some None
      else if starts_with ''old mode'' t \<or> starts_with ''new mode'' t then Some (Some ''mode_changed'')
      else if (starts_with ''index '' t \<and> contains_sub '' 160000'' t) \<or> starts_with ''Subproject commit '' t
        then Some (Some ''submodule'')
      else if starts_with ''index '' t then Some None
      else None)"

definition is_plain_index_line :: "bytes \<Rightarrow> bool" where
  "is_plain_index_line t \<longleftrightarrow> starts_with ''index '' t \<and> \<not> contains_sub '' 160000'' t"

definition scan_header_line :: "bytes \<Rightarrow> record_scan \<Rightarrow> record_scan result" where
  "scan_header_line line st =
     (if starts_with ''--- '' line then Inr (st\<lparr> rs_old_header := Some line \<rparr>)
      else if starts_with ''+++ '' line then Inr (st\<lparr> rs_new_header := Some line \<rparr>)
      else
        let t = trim_end_crlf line;
            hit = (t = ''GIT binary patch'' \<or> starts_with ''Binary files '' t);
            st1 = (if hit then st\<lparr> rs_binary := True \<rparr> else st);
            kind = header_kind t;
            recognized = (hit \<or> kind \<noteq> None);
            st2 = (case kind of Some (Some k) \<Rightarrow> st1\<lparr> rs_kinds := kind_insert k (rs_kinds st1) \<rparr> | _ \<Rightarrow> st1);
            st3 = (if is_plain_index_line t \<and> ''added'' \<notin> set (rs_kinds st2)
                      \<and> ''deleted'' \<notin> set (rs_kinds st2) \<and> \<not> valid_index_header t
                   then st2\<lparr> rs_unsupported := True \<rparr> else st2)
        in if t \<noteq> [] \<and> \<not> recognized \<and> \<not> rs_binary st3 then Inl diff_parse_error
           else Inr (if t \<noteq> [] then st3\<lparr> rs_extended := rs_extended st3 @ [line] \<rparr> else st3))"

definition is_hunk_line :: "bytes \<Rightarrow> bool" where
  "is_hunk_line line \<longleftrightarrow> starts_with ''@@ '' line"

function hunk_end :: "bytes list \<Rightarrow> nat \<Rightarrow> nat" where
  "hunk_end ls idx = (if idx < length ls \<and> \<not> is_hunk_line (ls ! idx) then hunk_end ls (idx + 1) else idx)"
  by pat_completeness auto
termination
  by (relation "measure (\<lambda>(ls, idx). length ls - idx)") auto

declare hunk_end.simps [simp del]

lemma hunk_end_ge: "idx \<le> hunk_end ls idx"
  by (induction ls idx rule: hunk_end.induct) (subst hunk_end.simps, auto)

function scan_record :: "bytes list \<Rightarrow> nat \<Rightarrow> record_scan \<Rightarrow> record_scan result" where
  "scan_record ls idx st =
     (if idx < length ls then
        if is_hunk_line (ls ! idx) then
          let e = hunk_end ls (idx + 1)
          in scan_record ls e (st\<lparr> rs_ranges := rs_ranges st @ [(idx, e)] \<rparr>)
        else bindE (scan_header_line (ls ! idx) st) (\<lambda>st1. scan_record ls (idx + 1) st1)
      else Inr st)"
  by pat_completeness auto
termination
proof (relation "measure (\<lambda>(ls, idx, st). length ls - idx)", goal_cases)
  case (2 ls idx st x)
  then show ?case using hunk_end_ge[of "idx + 1" ls] by simp
qed auto

declare scan_record.simps [simp del]

definition status_from_kinds :: "bytes list \<Rightarrow> bool \<Rightarrow> change_status" where
  "status_from_kinds ks binary =
     (if ''unmerged'' \<in> set ks then Unmerged
      else if ''added'' \<in> set ks then Added
      else if ''deleted'' \<in> set ks then Deleted
      else if ''renamed'' \<in> set ks then Renamed
      else if ''copied'' \<in> set ks then Copied
      else if ''type_changed'' \<in> set ks then TypeChanged
      else if ''submodule'' \<in> set ks then Submodule
      else if ''mode_changed'' \<in> set ks then ModeChanged
      else Modified)"

definition unsupported_reason ::
  "bytes \<Rightarrow> bytes \<Rightarrow> bool \<Rightarrow> bytes list \<Rightarrow> bytes option \<Rightarrow> bytes option \<Rightarrow> bool \<Rightarrow> bool \<Rightarrow> bytes option" where
  "unsupported_reason old_path new_path binary kinds old_hdr new_hdr hunkless bad_meta =
     (if validate_repo_relative_path old_path \<noteq> Inr () \<or> validate_repo_relative_path new_path \<noteq> Inr ()
      then Some ''invalid_path''
      else if binary then Some ''binary''
      else if bad_meta then Some ''unsupported_index_header''
      else if hunkless then Some ''hunkless''
      else if old_path \<noteq> new_path then Some ''old_new_path_mismatch''
      else if filter (\<lambda>k. k \<noteq> ''modified'') kinds \<noteq> [] then Some ''unsupported_change_kind''
      else if \<not> (case old_hdr of Some h \<Rightarrow> file_header_path_matches h ''--- '' ''a/'' old_path | None \<Rightarrow> False)
           \<or> \<not> (case new_hdr of Some h \<Rightarrow> file_header_path_matches h ''+++ '' ''b/'' new_path | None \<Rightarrow> False)
      then Some ''unsupported_path''
      else None)"

record diff_args =
  da_repo :: repo_context
  da_staged :: bool
  da_context :: nat
  da_paths :: "bytes list"

fun parse_hunks ::
  "(bytes \<Rightarrow> bytes) \<Rightarrow> diff_args \<Rightarrow> nat \<Rightarrow> bytes \<Rightarrow> bytes \<Rightarrow> bytes list \<Rightarrow> nat \<Rightarrow> (nat \<times> nat) list
   \<Rightarrow> parsed_hunk list result" where
  "parse_hunks sha da fi op np ls hi [] = Inr []"
| "parse_hunks sha da fi op np ls hi ((s, e) # rs) =
     bindE (parse_hunk_header (ls ! s)) (\<lambda>(os, ol, ns, nl).
       let body_lines = take (e - (s + 1)) (drop (s + 1) ls); body = concat body_lines in
       bindE (validate_hunk_body_counts body_lines ol nl) (\<lambda>_.
       bindE (parse_hunks sha da fi op np ls (hi + 1) rs) (\<lambda>hs.
         Inr (\<lparr> h_id = hunk_id sha (da_repo da) (da_staged da) (da_context da) (da_paths da) fi hi op np
                         (ls ! s) body,
               h_file_index = fi, h_index = hi, h_header = ls ! s,
               old_start = os, old_lines = ol, new_start = ns, new_lines = nl, h_body = body \<rparr> # hs))))"

definition combined_path :: "bytes \<Rightarrow> bytes" where
  "combined_path line =
     (let ws = split_whitespace line in if 2 < length ws then ws ! 2 else ''<combined>'')"

definition is_combined_line :: "bytes \<Rightarrow> bool" where
  "is_combined_line l \<longleftrightarrow> starts_with ''diff --cc '' l \<or> starts_with ''diff --combined '' l"

definition combined_record :: "nat \<Rightarrow> bytes list \<Rightarrow> file_hunks" where
  "combined_record fi ls =
     \<lparr> fh_index = fi, fh_path = combined_path (hd ls), fh_old_path = None, fh_status = Unmerged,
       change_kinds = [''unmerged''], fh_binary = False, supported = False,
       fh_unsupported_reason = Some ''combined_or_unmerged_diff'', diff_header = hd ls,
       old_file_header = None, new_file_header = None, extended_headers = tl ls, fh_hunks = [] \<rparr>"

definition initial_scan :: record_scan where
  "initial_scan = \<lparr> rs_old_header = None, rs_new_header = None, rs_extended = [], rs_ranges = [],
     rs_binary = False, rs_kinds = [''modified''], rs_unsupported = False \<rparr>"

definition finish_record ::
  "(bytes \<Rightarrow> bytes) \<Rightarrow> diff_args \<Rightarrow> nat \<Rightarrow> bytes list \<Rightarrow> bytes \<Rightarrow> bytes \<Rightarrow> record_scan
   \<Rightarrow> file_hunks result" where
  "finish_record sha da fi ls op np st =
     (let kinds = (if rs_binary st \<and> ''modified'' \<notin> set (rs_kinds st)
                   then rs_kinds st @ [''modified''] else rs_kinds st);
          reason = unsupported_reason op np (rs_binary st) kinds (rs_old_header st) (rs_new_header st)
                     (rs_ranges st = []) (rs_unsupported st)
      in bindE (parse_hunks sha da fi op np ls 0 (rs_ranges st)) (\<lambda>hs.
           Inr \<lparr> fh_index = fi, fh_path = np, fh_old_path = Some op,
                 fh_status = status_from_kinds (rs_kinds st) (rs_binary st),
                 change_kinds = kinds, fh_binary = rs_binary st, supported = (reason = None),
                 fh_unsupported_reason = reason, diff_header = hd ls,
                 old_file_header = rs_old_header st, new_file_header = rs_new_header st,
                 extended_headers = rs_extended st, fh_hunks = hs \<rparr>))"

definition parse_file_record ::
  "(bytes \<Rightarrow> bytes) \<Rightarrow> diff_args \<Rightarrow> nat \<Rightarrow> bytes list \<Rightarrow> file_hunks result" where
  "parse_file_record sha da fi ls =
     (if ls = [] then Inl diff_parse_error
      else if is_combined_line (hd ls) then Inr (combined_record fi ls)
      else bindE (parse_diff_git_header (hd ls)) (\<lambda>(op, np).
           bindE (scan_record ls 1 initial_scan) (\<lambda>st. finish_record sha da fi ls op np st)))"

section \<open>The whole diff\<close>

definition is_record_line :: "bytes \<Rightarrow> bool" where
  "is_record_line l \<longleftrightarrow> starts_with ''diff --git '' l \<or> is_combined_line l"

definition record_starts :: "bytes list \<Rightarrow> nat list" where
  "record_starts ls = filter (\<lambda>i. is_record_line (ls ! i)) [0..<length ls]"

definition windows2 :: "nat list \<Rightarrow> (nat \<times> nat) list" where
  "windows2 xs = zip xs (tl xs)"

definition diff_complexity :: git_error where
  "diff_complexity = structured_error ''diff_complexity_limit'' []"

text \<open>The loop over the hunks of a file: the byte total and the identifiers seen so far.\<close>

fun check_hunks :: "parsed_hunk list \<Rightarrow> nat \<Rightarrow> bytes list \<Rightarrow> (nat \<times> bytes list) result" where
  "check_hunks [] tot seen_ids = Inr (tot, seen_ids)"
| "check_hunks (h # hs) tot seen_ids =
     (let tot1 = saturating_add tot (length (h_body h)) in
      if tot1 > MAX_GIT_HUNK_BODY_BYTES then Inl diff_complexity
      else if h_id h \<in> set seen_ids
        then Inl (structured_error ''hunk_id_collision'' [(''hunk_id'', JStr (h_id h))])
      else check_hunks hs tot1 (h_id h # seen_ids))"

fun parse_records ::
  "(bytes \<Rightarrow> bytes) \<Rightarrow> diff_args \<Rightarrow> bytes list \<Rightarrow> (nat \<times> nat) list \<Rightarrow> file_hunks list \<Rightarrow> nat \<Rightarrow> nat
   \<Rightarrow> bytes list \<Rightarrow> (file_hunks list \<times> nat \<times> nat) result" where
  "parse_records sha da ls [] fs nh nb seen_ids = Inr (fs, nh, nb)"
| "parse_records sha da ls ((s, e) # ws) fs nh nb seen_ids =
     (if length fs \<ge> MAX_GIT_DIFF_FILES then Inl diff_complexity
      else
        bindE (parse_file_record sha da (length fs) (take (e - s) (drop s ls))) (\<lambda>f.
          let nh1 = saturating_add nh (length (fh_hunks f)) in
          if nh1 > MAX_GIT_DIFF_HUNKS then Inl diff_complexity
          else bindE (check_hunks (fh_hunks f) nb seen_ids) (\<lambda>(nb1, seen1).
                 parse_records sha da ls ws (fs @ [f\<lparr> fh_index := length fs \<rparr>]) nh1 nb1 seen1)))"

definition parse_unified_diff ::
  "(bytes \<Rightarrow> bytes) \<Rightarrow> diff_args \<Rightarrow> bytes \<Rightarrow> parsed_diff result" where
  "parse_unified_diff sha da diff =
     (if \<not> utf8_valid diff then Inl (structured_error ''non_utf8_diff'' [])
      else
        let did = diff_id sha diff (da_repo da) (da_staged da) (da_context da) (da_paths da) in
        if diff = [] then
          Inr \<lparr> pd_id = did, pd_bytes = 0, pd_files = [], total_hunks = 0, hunk_body_bytes = 0 \<rparr>
        else
          let ls = split_lines_keep_endings diff; starts = record_starts ls in
          if starts = [] then Inl diff_parse_error
          else if hd starts \<noteq> 0 then Inl diff_parse_error
          else
            bindE (parse_records sha da ls (windows2 (starts @ [length ls])) [] 0 0 []) (\<lambda>(fs, nh, nb).
              if saturating_add (length diff) (min (nh * 256) usize_max) > MAX_GIT_STRUCTURED_RESPONSE_BYTES
              then Inl diff_complexity
              else Inr \<lparr> pd_id = did, pd_bytes = length diff, pd_files = fs, total_hunks = nh,
                         hunk_body_bytes = nb \<rparr>))"

section \<open>Looking hunks up\<close>

text \<open>\<open>hunk_lookup\<close> fills a \<open>BTreeMap\<close>; a later hunk with the same identifier would win.\<close>

definition hunk_lookup :: "parsed_diff \<Rightarrow> bytes \<Rightarrow> (file_hunks \<times> parsed_hunk) option" where
  "hunk_lookup d =
     foldl (\<lambda>m f. foldl (\<lambda>m h. m(h_id h \<mapsto> (f, h))) m (fh_hunks f)) Map.empty (pd_files d)"

definition hunk_body_key :: "file_hunks \<Rightarrow> parsed_hunk \<Rightarrow> bytes" where
  "hunk_body_key f h = fh_path f @ [NUL] @ h_body h"

section \<open>The arguments of \<open>git diff\<close> and the reply\<close>

definition build_hunk_diff_args :: "hunk_scope \<Rightarrow> bytes list" where
  "build_hunk_diff_args sc =
     [''--no-optional-locks'', ''-c'', ''core.quotePath=true'', ''-c'', ''core.abbrev=40'',
      ''-c'', ''core.protectNTFS=true'', ''-c'', ''core.protectHFS=true'',
      ''-c'', ''diff.noprefix=false'', ''-c'', ''diff.mnemonicPrefix=false'',
      ''-c'', ''diff.renames=false'', ''-c'', ''diff.renameLimit=32'',
      ''-c'', ''diff.relative=false'', ''-c'', ''diff.algorithm=default'',
      ''-c'', ''diff.indentHeuristic=false'', ''-c'', ''diff.suppressBlankEmpty=false'',
      ''-c'', ''diff.orderFile=/dev/null'', ''--literal-pathspecs'', ''diff'',
      ''--no-color'', ''--no-ext-diff'', ''--no-textconv'', ''--src-prefix=a/'', ''--dst-prefix=b/'',
      ''--no-renames'', ''--no-relative'', ''--inter-hunk-context=0'', ''--line-prefix='',
      ''--submodule=short'', ''--ignore-submodules=all'', ''--full-index'', ''--abbrev=40'',
      ''--diff-algorithm=default'', ''--no-indent-heuristic'', ''-U'' @ nat_dec (sc_context sc)]
     @ (if sc_staged sc then [''--cached''] else [])
     @ (if sc_paths sc \<noteq> [] then ''--'' # sc_paths sc else [])"

definition json_opt :: "bytes option \<Rightarrow> json" where
  "json_opt v = (case v of Some s \<Rightarrow> JStr s | None \<Rightarrow> JNull)"

definition hunk_json :: "parsed_hunk \<Rightarrow> json" where
  "hunk_json h = JObj
     [(''id'', JStr (h_id h)), (''file_index'', JNum (int (h_file_index h))),
      (''hunk_index'', JNum (int (h_index h))), (''header'', JStr (h_header h)),
      (''old_start'', JNum (old_start h)), (''old_lines'', JNum (old_lines h)),
      (''new_start'', JNum (new_start h)), (''new_lines'', JNum (new_lines h)),
      (''body'', JStr (h_body h))]"

definition file_json :: "file_hunks \<Rightarrow> json" where
  "file_json f = JObj
     [(''file_index'', JNum (int (fh_index f))), (''path'', JStr (fh_path f)),
      (''old_path'', json_opt (fh_old_path f)), (''status'', JStr (status_as_str (fh_status f))),
      (''change_kinds'', JArr (map JStr (change_kinds f))), (''binary'', JBool (fh_binary f)),
      (''supported_for_stage_hunks'', JBool (supported f)),
      (''unsupported_reason'', json_opt (fh_unsupported_reason f)),
      (''diff_header'', JStr (diff_header f)), (''old_file_header'', json_opt (old_file_header f)),
      (''new_file_header'', json_opt (new_file_header f)),
      (''extended_headers'', JArr (map JStr (extended_headers f))),
      (''hunks'', JArr (map hunk_json (fh_hunks f)))]"

definition hunk_summary_text :: "parsed_diff \<Rightarrow> hunk_scope \<Rightarrow> bytes" where
  "hunk_summary_text d sc =
     (if pd_files d = [] then (if sc_staged sc then ''no staged hunks'' else ''no unstaged hunks'')
      else nat_dec (length (pd_files d)) @ '' file(s), '' @ nat_dec (total_hunks d) @ '' hunk(s) in ''
             @ (if sc_staged sc then ''staged'' else ''unstaged'') @ '' diff'')"

definition action_template ::
  "parsed_diff \<Rightarrow> hunk_scope \<Rightarrow> bytes option \<Rightarrow> bool \<Rightarrow> bytes \<Rightarrow> json" where
  "action_template d sc wd max_supplied action = JObj
     [(''name'', JStr ''GitStageHunks''),
      (''arguments'', JObj
        ([(''diff_id'', JStr (pd_id d)), (''hunk_ids'', JArr []), (''action'', JStr action),
          (''context'', JNum (int (sc_context sc))), (''paths'', JArr (map JStr (sc_paths sc)))]
         @ (case wd of Some w \<Rightarrow> [(''working_dir'', JStr w)] | None \<Rightarrow> [])
         @ (if max_supplied then [(''max_bytes'', JNum (int (sc_max_bytes sc)))] else [])))]"

definition hunk_response ::
  "parsed_diff \<Rightarrow> hunk_scope \<Rightarrow> bytes option \<Rightarrow> bool \<Rightarrow> bool \<Rightarrow> json" where
  "hunk_response d sc wd max_supplied advanced =
     (let action = (if sc_staged sc then ''unstage'' else ''prepare_commit'') in
      JObj
       ([(''content'', JArr [JObj [(''type'', JStr ''text''), (''text'', JStr (hunk_summary_text d sc))]]),
         (''isError'', JBool False), (''diff_id'', JStr (pd_id d)), (''staged'', JBool (sc_staged sc)),
         (''context'', JNum (int (sc_context sc))), (''paths'', JArr (map JStr (sc_paths sc))),
         (''max_bytes'', JNum (int (sc_max_bytes sc))), (''diff_bytes'', JNum (int (pd_bytes d))),
         (''counts'', JObj [(''files'', JNum (int (length (pd_files d)))),
                            (''hunks'', JNum (int (total_hunks d))),
                            (''hunk_body_bytes'', JNum (int (hunk_body_bytes d)))]),
         (''recommended_next_action'', JStr action),
         (''recommended_next_action_template'', action_template d sc wd max_supplied action),
         (''files'', JArr (map file_json (pd_files d)))]
        @ (if advanced \<and> \<not> sc_staged sc
           then [(''advanced_stage_only_template'', action_template d sc wd max_supplied ''stage_only'')]
           else [])))"

end
