(* ===== verification/BlobApply.thy ===== *)
theory BlobApply
  imports DiffRecord
begin

text \<open>
  The blob verification of \<open>GitStageHunks\<close>, from \<^verbatim>\<open>git/handlers/apply.rs\<close>: what the code
  computes itself to be the contents of an index entry after the selected hunks, to compare with what
  git made of it.
\<close>

section \<open>The code\<close>

function split_blob_loop :: "bytes \<Rightarrow> nat \<Rightarrow> nat \<Rightarrow> bytes list \<Rightarrow> bytes list" where
  "split_blob_loop bs idx start acc =
     (if idx < length bs then
        if bs ! idx = LF
        then split_blob_loop bs (idx + 1) (idx + 1) (acc @ [take (idx + 1 - start) (drop start bs)])
        else split_blob_loop bs (idx + 1) start acc
      else if start < length bs then acc @ [drop start bs] else acc)"
  by pat_completeness auto
termination
  by (relation "measure (\<lambda>(bs, idx, start, acc). length bs - idx)") auto

declare split_blob_loop.simps [simp del]

definition split_blob_lines_keep_endings :: "bytes \<Rightarrow> bytes list" where
  "split_blob_lines_keep_endings bs = (if bs = [] then [] else split_blob_loop bs 0 0 [])"

definition strip_diff_line_separator :: "bytes \<Rightarrow> bytes" where
  "strip_diff_line_separator l = (if l \<noteq> [] \<and> last l = LF then butlast l else l)"

definition map_last :: "('a \<Rightarrow> 'a) \<Rightarrow> 'a list \<Rightarrow> unit + 'a list" where
  \<comment> \<open>\<open>f(v.last_mut().ok_or(())?)\<close>\<close>
  "map_last f xs = (if xs = [] then Inl () else Inr (butlast xs @ [f (last xs)]))"

definition no_newline_prefix :: bytes where
  "no_newline_prefix = CHR 0x5C # '' No newline at end of file''"

fun body_sides :: "bytes list \<Rightarrow> bytes list \<Rightarrow> bytes list \<Rightarrow> (bool \<times> bool) option
    \<Rightarrow> unit + (bytes list \<times> bytes list)" where
  "body_sides [] olds news sides = Inr (olds, news)"
| "body_sides (l # ls) olds news sides =
     (if starts_with no_newline_prefix l then
        (case sides of
           None \<Rightarrow> Inl ()
         | Some (old_side, new_side) \<Rightarrow>
             bindE (if old_side then map_last strip_diff_line_separator olds else Inr olds) (\<lambda>olds1.
             bindE (if new_side then map_last strip_diff_line_separator news else Inr news) (\<lambda>news1.
               body_sides ls olds1 news1 sides)))
      else
        case l of
          [] \<Rightarrow> Inl ()
        | p # content \<Rightarrow>
            if p = CHR '' '' then body_sides ls (olds @ [content]) (news @ [content]) (Some (True, True))
            else if p = CHR ''-'' then body_sides ls (olds @ [content]) news (Some (True, False))
            else if p = CHR ''+'' then body_sides ls olds (news @ [content]) (Some (False, True))
            else Inl ())"

definition hunk_source_target_lines :: "parsed_hunk \<Rightarrow> bool \<Rightarrow> unit + (bytes list \<times> bytes list)" where
  "hunk_source_target_lines h rv =
     bindE (body_sides (split_blob_lines_keep_endings (h_body h)) [] [] None) (\<lambda>(olds, news).
       Inr (if rv then (news, olds) else (olds, news)))"

fun apply_hunk_loop :: "bytes list \<Rightarrow> nat \<Rightarrow> bytes list \<Rightarrow> bool \<Rightarrow> parsed_hunk list \<Rightarrow> unit + bytes list" where
  "apply_hunk_loop ls cursor out rv [] = Inr (out @ drop cursor ls)"
| "apply_hunk_loop ls cursor out rv (h # hs) =
     (let start_line = (if rv then new_start h else old_start h) in
      if start_line < 0 then Inl ()
      else
        let start = (if start_line = 0 then 0 else nat (start_line - 1)) in
        if start < cursor \<or> start > length ls then Inl ()
        else
          bindE (hunk_source_target_lines h rv) (\<lambda>(src, tgt).
            let source_end = start + length src in
            if source_end > usize_max \<or> source_end > length ls
               \<or> take (source_end - start) (drop start ls) \<noteq> src then Inl ()
            else apply_hunk_loop ls source_end (out @ take (start - cursor) (drop cursor ls) @ tgt) rv hs))"

definition apply_selected_hunks_to_blob :: "bytes \<Rightarrow> parsed_hunk list \<Rightarrow> bool \<Rightarrow> unit + bytes" where
  "apply_selected_hunks_to_blob blob hs rv =
     bindE (apply_hunk_loop (split_blob_lines_keep_endings blob) 0 [] rv hs) (\<lambda>out. Inr (concat out))"

text \<open>Grouping the selected hunks by path (a \<open>BTreeMap\<close>, so in the order of the paths), each group
  sorted by file and hunk index.\<close>

type_synonym selection = "(file_hunks \<times> parsed_hunk) list"

definition hunk_le :: "file_hunks \<times> parsed_hunk \<Rightarrow> nat \<times> nat" where
  "hunk_le x = (fh_index (fst x), h_index (snd x))"

fun insert_hunk :: "file_hunks \<times> parsed_hunk \<Rightarrow> selection \<Rightarrow> selection" where
  "insert_hunk x [] = [x]"
| "insert_hunk x (y # ys) =
     (if fst (hunk_le x) < fst (hunk_le y)
         \<or> (fst (hunk_le x) = fst (hunk_le y) \<and> snd (hunk_le x) \<le> snd (hunk_le y))
      then x # y # ys else y # insert_hunk x ys)"

definition sort_hunks :: "selection \<Rightarrow> selection" where
  "sort_hunks xs = foldr insert_hunk xs []"

definition selected_patch_paths :: "selection \<Rightarrow> bytes list" where
  "selected_patch_paths sel = remdups (sort (map (\<lambda>(f, h). fh_path f) sel))"

definition hunks_of_path :: "selection \<Rightarrow> bytes \<Rightarrow> parsed_hunk list" where
  "hunks_of_path sel p = map snd (sort_hunks (filter (\<lambda>(f, h). fh_path f = p) sel))"

fun expected_blobs :: "(bytes \<times> bytes) list \<Rightarrow> selection \<Rightarrow> bool \<Rightarrow> bytes list \<Rightarrow> unit + (bytes \<times> bytes) list" where
  "expected_blobs pre sel rv [] = Inr []"
| "expected_blobs pre sel rv (p # ps) =
     bindE (ok_or (map_of pre p) ()) (\<lambda>blob.
     bindE (apply_selected_hunks_to_blob blob (hunks_of_path sel p) rv) (\<lambda>out.
     bindE (expected_blobs pre sel rv ps) (\<lambda>r. Inr ((p, out) # r))))"

definition expected_index_blobs_after_selected ::
  "(bytes \<times> bytes) list \<Rightarrow> selection \<Rightarrow> bool \<Rightarrow> unit + (bytes \<times> bytes) list" where
  "expected_index_blobs_after_selected pre sel rv = expected_blobs pre sel rv (selected_patch_paths sel)"

section \<open>Lines of a blob\<close>

fun lf_lines :: "bytes \<Rightarrow> bytes list" where
  "lf_lines [] = []"
| "lf_lines (c # cs) =
     (if c = LF then [c] # lf_lines cs
      else case lf_lines cs of [] \<Rightarrow> [[c]] | l # ls \<Rightarrow> (c # l) # ls)"

lemma concat_lf_lines: "concat (lf_lines s) = s"
  by (induction s) (auto split: list.split)

lemma lf_lines_seg: "LF \<notin> set a \<Longrightarrow> lf_lines (a @ LF # b) = (a @ [LF]) # lf_lines b"
  by (induction a) auto

lemma lf_lines_rest: "LF \<notin> set a \<Longrightarrow> a \<noteq> [] \<Longrightarrow> lf_lines a = [a]"
proof (induction a)
  case (Cons c cs)
  then show ?case by (cases cs) auto
qed simp

lemma split_blob_loop_eq:
  assumes "start \<le> idx" "idx \<le> length bs" "LF \<notin> set (take (idx - start) (drop start bs))"
  shows "split_blob_loop bs idx start acc = acc @ lf_lines (drop start bs)"
  using assms
proof (induction bs idx start acc rule: split_blob_loop.induct)
  case (1 bs idx start acc)
  let ?mid = "take (idx - start) (drop start bs)"
  have whole: "drop start bs = ?mid @ drop idx bs"
    using "1.prems"(1) by (metis append_take_drop_id drop_drop le_add_diff_inverse2)
  show ?case
  proof (cases "idx < length bs")
    case False
    then have nodrop: "drop idx bs = []" by simp
    then have mid: "drop start bs = ?mid" using whole by simp
    show ?thesis
    proof (cases "start < length bs")
      case True
      then have "drop start bs \<noteq> []" by simp
      then have "lf_lines (drop start bs) = [drop start bs]"
        using lf_lines_rest[of "drop start bs"] "1.prems"(3) mid by simp
      then show ?thesis using False True by (subst split_blob_loop.simps) simp
    next
      case F: False
      then show ?thesis using False by (subst split_blob_loop.simps) simp
    qed
  next
    case True
    then have step: "drop idx bs = bs ! idx # drop (idx + 1) bs" by (simp add: Cons_nth_drop_Suc)
    have piece: "take (idx + 1 - start) (drop start bs) = ?mid @ [bs ! idx]"
      using "1.prems"(1) True by (simp add: Suc_diff_le take_Suc_conv_app_nth)
    show ?thesis
    proof (cases "bs ! idx = LF")
      case lf: True
      have "lf_lines (drop start bs) = (?mid @ [LF]) # lf_lines (drop (idx + 1) bs)"
        using whole step lf lf_lines_seg[OF "1.prems"(3)] by metis
      moreover have "split_blob_loop bs (idx + 1) (idx + 1) (acc @ [?mid @ [LF]])
          = (acc @ [?mid @ [LF]]) @ lf_lines (drop (idx + 1) bs)"
        using 1(1)[OF True lf] True lf piece by simp
      ultimately show ?thesis using True lf piece by (subst split_blob_loop.simps) simp
    next
      case False
      have "LF \<notin> set (take (idx + 1 - start) (drop start bs))" using piece False "1.prems"(3) by auto
      then have "split_blob_loop bs (idx + 1) start acc = acc @ lf_lines (drop start bs)"
        using 1(2)[OF True False] "1.prems"(1) True by simp
      then show ?thesis using True False by (subst split_blob_loop.simps) simp
    qed
  qed
qed

lemma split_blob_lines_eq: "split_blob_lines_keep_endings bs = lf_lines bs"
  using split_blob_loop_eq[of 0 0 bs "[]"] by (simp add: split_blob_lines_keep_endings_def)

definition lf_line :: "bytes \<Rightarrow> bool" where
  "lf_line l \<longleftrightarrow> (\<exists>a. l = a @ [LF] \<and> LF \<notin> set a)"

lemma lf_lines_concat: "\<forall>l \<in> set ls. lf_line l \<Longrightarrow> lf_lines (concat ls) = ls"
proof (induction ls)
  case (Cons l ls)
  then obtain a where "l = a @ [LF]" "LF \<notin> set a" by (auto simp: lf_line_def)
  with Cons show ?case using lf_lines_seg[of a "concat ls"] by simp
qed simp

lemma lf_lines_whole: "s = [] \<or> last s = LF \<Longrightarrow> l \<in> set (lf_lines s) \<Longrightarrow> lf_line l"
proof (induction s arbitrary: l)
  case (Cons c cs)
  show ?case
  proof (cases "c = LF")
    case True
    then show ?thesis using Cons by (cases cs) (auto simp: lf_line_def intro: exI[of _ "[]"])
  next
    case False
    then have ne: "cs \<noteq> []" "last cs = LF" using Cons.prems(1) by (cases "cs = []"; simp)+
    then obtain x xs where lc: "lf_lines cs = x # xs"
      by (metis concat.simps(1) concat_lf_lines neq_Nil_conv)
    have IH: "\<forall>l' \<in> set (lf_lines cs). lf_line l'" using Cons.IH ne by blast
    then have "lf_line x" using lc by simp
    then have "lf_line (c # x)" using False unfolding lf_line_def by (metis append_Cons set_ConsD)
    then show ?thesis using Cons.prems(2) False lc IH by auto
  qed
qed simp

end
