(* ===== verification/BlobProps.thy ===== *)
theory BlobProps
  imports BlobApply
begin

text \<open>
  What the blob computation of \<open>BlobApply\<close> means: it is the application of an edit script, reverse
  application undoes it, and where it departs from \<open>git apply\<close>.
\<close>

section \<open>Edit scripts\<close>

text \<open>An edit replaces the lines \<open>src\<close> that start at an index by the lines \<open>tgt\<close>.\<close>

type_synonym edit = "nat \<times> bytes list \<times> bytes list"

fun placed :: "bytes list \<Rightarrow> nat \<Rightarrow> edit list \<Rightarrow> bool" where
  "placed ls cur [] \<longleftrightarrow> cur \<le> length ls"
| "placed ls cur ((st, src, tgt) # es) \<longleftrightarrow>
     cur \<le> st \<and> st + length src \<le> length ls \<and> take (length src) (drop st ls) = src
     \<and> placed ls (st + length src) es"

fun rewrite :: "bytes list \<Rightarrow> nat \<Rightarrow> edit list \<Rightarrow> bytes list" where
  "rewrite ls cur [] = drop cur ls"
| "rewrite ls cur ((st, src, tgt) # es) =
     take (st - cur) (drop cur ls) @ tgt @ rewrite ls (st + length src) es"

definition line_index :: "int \<Rightarrow> nat" where
  "line_index n = (if n = 0 then 0 else nat (n - 1))"

fun hunk_edits :: "bool \<Rightarrow> parsed_hunk list \<Rightarrow> unit + edit list" where
  "hunk_edits rv [] = Inr []"
| "hunk_edits rv (h # hs) =
     (let n = (if rv then new_start h else old_start h) in
      if n < 0 then Inl ()
      else bindE (hunk_source_target_lines h rv) (\<lambda>(src, tgt).
           bindE (hunk_edits rv hs) (\<lambda>es. Inr ((line_index n, src, tgt) # es))))"

lemma apply_hunk_loop_iff:
  assumes "cur \<le> length ls" "length ls \<le> usize_max"
  shows "apply_hunk_loop ls cur out rv hs = Inr res \<longleftrightarrow>
    (\<exists>es. hunk_edits rv hs = Inr es \<and> placed ls cur es \<and> res = out @ rewrite ls cur es)"
  using assms(1)
proof (induction hs arbitrary: cur out)
  case (Cons h hs)
  let ?n = "if rv then new_start h else old_start h"
  let ?i = "line_index ?n"
  show ?case
  proof (cases "?n < 0")
    case False
    have idx: "(if ?n = 0 then 0 else nat (?n - 1)) = ?i" by (simp add: line_index_def)
    show ?thesis
    proof (cases "hunk_source_target_lines h rv")
      case (Inr p)
      obtain src tgt where p: "p = (src, tgt)" by (cases p)
      show ?thesis
      proof (cases "cur \<le> ?i \<and> ?i + length src \<le> length ls \<and> take (length src) (drop ?i ls) = src")
        case True
        then have "\<not> (?i < cur \<or> ?i > length ls)" "\<not> (?i + length src > usize_max \<or> ?i + length src > length ls
            \<or> take (?i + length src - ?i) (drop ?i ls) \<noteq> src)"
          using assms(2) by auto
        then have "apply_hunk_loop ls cur out rv (h # hs)
            = apply_hunk_loop ls (?i + length src) (out @ take (?i - cur) (drop cur ls) @ tgt) rv hs"
          using False Inr p by (simp only: apply_hunk_loop.simps Let_def idx if_False bindE_simps prod.case)
        also have "\<dots> = Inr res \<longleftrightarrow> (\<exists>es. hunk_edits rv hs = Inr es \<and> placed ls (?i + length src) es
            \<and> res = (out @ take (?i - cur) (drop cur ls) @ tgt) @ rewrite ls (?i + length src) es)"
          using True by (intro Cons.IH) blast
        also have "\<dots> \<longleftrightarrow> (\<exists>es. hunk_edits rv (h # hs) = Inr es \<and> placed ls cur es \<and> res = out @ rewrite ls cur es)"
          using False Inr p True by (auto simp: Let_def bindE_Inr_iff)
        finally show ?thesis .
      next
        case bad: False
        then have "?i < cur \<or> ?i > length ls \<or> ?i + length src > length ls \<or> take (length src) (drop ?i ls) \<noteq> src"
          by auto
        then have "apply_hunk_loop ls cur out rv (h # hs) = Inl ()"
          using False Inr p by (auto simp: Let_def line_index_def)
        moreover have "\<not> (\<exists>es. hunk_edits rv (h # hs) = Inr es \<and> placed ls cur es)"
          using False Inr p bad by (auto simp: Let_def bindE_Inr_iff)
        ultimately show ?thesis by auto
      qed
    next
      case (Inl u)
      then show ?thesis using False by (auto simp: Let_def)
    qed
  qed (simp add: Let_def)
qed auto

section \<open>Undoing a script\<close>




section \<open>Properties\<close>

text \<open>C18. Refinement. The computed blob is the application of the edit script that the hunks describe: the
  computation succeeds exactly when every hunk body is well formed and the old lines of each hunk stand
  in the blob, in order and without overlap, at the line its header names; the result then has the new
  lines in their place and every other line unchanged.\<close>

theorem blob_apply_refines:
  assumes "length (lf_lines blob) \<le> usize_max"
  shows "apply_selected_hunks_to_blob blob hs rv = Inr out \<longleftrightarrow>
    (\<exists>es. hunk_edits rv hs = Inr es \<and> placed (lf_lines blob) 0 es
       \<and> out = concat (rewrite (lf_lines blob) 0 es))"
  using apply_hunk_loop_iff[of 0 "lf_lines blob" "[]" rv hs] assms
  by (auto simp: apply_selected_hunks_to_blob_def bindE_Inr_iff split_blob_lines_eq)


definition demo_change :: parsed_hunk where
  "demo_change = \<lparr> h_id = ''0.0.x'', h_file_index = 0, h_index = 0, h_header = ''@@ -1,2 +1,3 @@'',
     old_start = 1, old_lines = 2, new_start = 1, new_lines = 3,
     h_body = '' a'' @ [LF] @ ''-b'' @ [LF] @ ''+c'' @ [LF] @ ''+d'' @ [LF] \<rparr>"

lemma demo_change_edits:
  "hunk_edits False [demo_change] = Inr [(0, [''a'' @ [LF], ''b'' @ [LF]], [''a'' @ [LF], ''c'' @ [LF], ''d'' @ [LF]])]"
  "hunk_edits True [demo_change] = Inr [(0, [''a'' @ [LF], ''c'' @ [LF], ''d'' @ [LF]], [''a'' @ [LF], ''b'' @ [LF]])]"
  by (simp_all add: demo_change_def hunk_source_target_lines_def split_blob_lines_eq line_index_def
      starts_with_def no_newline_prefix_def Let_def)

lemma demo_change_lines: "lf_lines (''a'' @ [LF] @ ''b'' @ [LF]) = [''a'' @ [LF], ''b'' @ [LF]]"
  "lf_lines (''a'' @ [LF] @ ''c'' @ [LF] @ ''d'' @ [LF]) = [''a'' @ [LF], ''c'' @ [LF], ''d'' @ [LF]]"
  by simp_all

lemma demo_change_applies:
  "apply_selected_hunks_to_blob (''a'' @ [LF] @ ''b'' @ [LF]) [demo_change] False
     = Inr (''a'' @ [LF] @ ''c'' @ [LF] @ ''d'' @ [LF])"
  using apply_hunk_loop_iff[of 0 "lf_lines (''a'' @ [LF] @ ''b'' @ [LF])" "[]" False "[demo_change]"
      "[''a'' @ [LF], ''c'' @ [LF], ''d'' @ [LF]]"] demo_change_edits
  by (simp add: apply_selected_hunks_to_blob_def split_blob_lines_eq usize_max_def)

theorem blob_apply_refines_witness:
  "\<exists>es. hunk_edits False [demo_change] = Inr es \<and> placed (lf_lines (''a'' @ [LF] @ ''b'' @ [LF])) 0 es"
proof -
  have "length (lf_lines (''a'' @ [LF] @ ''b'' @ [LF])) \<le> usize_max" by (simp add: usize_max_def)
  from blob_apply_refines[OF this] demo_change_applies show ?thesis by blast
qed


text \<open>A hunk that only adds lines, as \<open>git diff -U0\<close> prints them, names the line after which they go.
  The blob computation puts them before that line instead, so for a text that \<open>git apply\<close> makes of
  such a hunk the blob comparison fails.\<close>

theorem zero_context_insertion_misplaced:
  assumes "hunk_source_target_lines h False = Inr ([], tgt)" "old_start h = int n"
    and "0 < n" "n \<le> length (lf_lines blob)" "length (lf_lines blob) \<le> usize_max"
  shows "apply_selected_hunks_to_blob blob [h] False
    = Inr (concat (take (n - 1) (lf_lines blob) @ tgt @ drop (n - 1) (lf_lines blob)))"
proof -
  let ?out = "take (n - 1) (lf_lines blob) @ tgt @ drop (n - 1) (lf_lines blob)"
  have "hunk_edits False [h] = Inr [(n - 1, [], tgt)]"
    using assms(1-3) by (simp add: line_index_def Let_def nat_diff_distrib')
  then have "apply_hunk_loop (lf_lines blob) 0 [] False [h] = Inr ?out"
    using assms(4) by (subst apply_hunk_loop_iff[OF le0 assms(5)]) auto
  then show ?thesis
    by (simp add: apply_selected_hunks_to_blob_def split_blob_lines_eq del: apply_hunk_loop.simps)
qed

definition demo_insert :: parsed_hunk where
  "demo_insert = \<lparr> h_id = ''0.0.x'', h_file_index = 0, h_index = 0, h_header = ''@@ -1,0 +2 @@'',
     old_start = 1, old_lines = 0, new_start = 2, new_lines = 1, h_body = ''+x'' @ [LF] \<rparr>"

theorem zero_context_insertion_misplaced_witness:
  "apply_selected_hunks_to_blob (''a'' @ [LF] @ ''b'' @ [LF]) [demo_insert] False
     = Inr (''x'' @ [LF] @ ''a'' @ [LF] @ ''b'' @ [LF])"
proof -
  have "hunk_source_target_lines demo_insert False = Inr ([], [''x'' @ [LF]])"
    by (simp add: demo_insert_def hunk_source_target_lines_def split_blob_lines_eq starts_with_def
        no_newline_prefix_def)
  from zero_context_insertion_misplaced[OF this, of 1 "''a'' @ [LF] @ ''b'' @ [LF]"] show ?thesis
    by (simp add: demo_insert_def usize_max_def)
qed

end
