(* ===== verification/GitMeta.thy ===== *)
theory GitMeta
  imports IndexFile PathPolicy "HOL-Library.AList"
begin

text \<open>
  The repository gate of the git tools, from \<^verbatim>\<open>git/handlers/hunks.rs\<close> and
  \<^verbatim>\<open>git/path_policy.rs\<close>: the authority root, the checks of the metadata under \<open>.git\<close>, and the
  snapshot of its identity that is taken once and compared before every later command.  What the
  kernel answers is a record; every check reads it and changes nothing.
\<close>

section \<open>What the kernel answers\<close>

datatype io_fail = NotFound | OtherFailure

record node_meta =
  nm_kind :: node_kind
  nm_dev :: nat
  nm_ino :: nat
  nm_links :: nat

record git_fs =
  gf_lstat :: "bytes \<Rightarrow> io_fail + node_meta"
  gf_stat :: "bytes \<Rightarrow> bytes + node_kind"
  gf_read :: "bytes \<Rightarrow> io_fail + bytes"
  gf_list :: "bytes \<Rightarrow> io_fail + (unit + bytes) list"
  gf_canonicalize :: "bytes \<Rightarrow> bytes + bytes"
  gf_authority :: "bytes + bytes"

text \<open>The authority root is resolved once and then kept for the life of the process
  (\<open>OnceLock\<close>), so it is a constant here, or the message of the failure to resolve the working
  directory.  A failed \<open>stat\<close> or \<open>canonicalize\<close> answers with its message too, because the code
  looks into messages.\<close>

definition authority_root_path :: "git_fs \<Rightarrow> bytes + bytes" where
  "authority_root_path fs = gf_authority fs"

definition display_path :: "bytes \<Rightarrow> bytes" where
  "display_path p = from_utf8_lossy p"

definition path_json :: "bytes \<Rightarrow> json" where
  "path_json p = JStr (display_path p)"

definition unsupported_metadata :: "(bytes \<times> json) list \<Rightarrow> git_error" where
  "unsupported_metadata extra = structured_error ''unsupported_repository_metadata'' extra"

definition map_err :: "('e \<Rightarrow> 'f) \<Rightarrow> 'e + 'a \<Rightarrow> 'f + 'a" where
  "map_err f r = (case r of Inl e \<Rightarrow> Inl (f e) | Inr x \<Rightarrow> Inr x)"

lemma map_err_simps [simp]:
  "map_err f (Inl e) = Inl (f e)"
  "map_err f (Inr x) = Inr x"
  by (simp_all add: map_err_def)

lemma map_err_Inr_iff: "map_err f r = Inr x \<longleftrightarrow> r = Inr x"
  by (cases r) auto

section \<open>Lines of a text\<close>

text \<open>\<open>str::lines\<close>: the ending is \<open>\n\<close> or \<open>\r\n\<close>; a carriage return at the very end stays.\<close>

definition strip_cr :: "bytes \<Rightarrow> bytes" where
  "strip_cr l = (if l \<noteq> [] \<and> last l = CR then butlast l else l)"

definition str_lines :: "bytes \<Rightarrow> bytes list" where
  "str_lines s =
     (let ps = split_byte LF s
      in map strip_cr (butlast ps) @ (if last ps = [] then [] else [last ps]))"

section \<open>The authority\<close>

definition under_root :: "bytes \<Rightarrow> bytes \<Rightarrow> bool" where
  \<comment> \<open>\<open>p == root || p.starts_with(root)\<close>\<close>
  "under_root root p \<longleftrightarrow> components p = components root \<or> path_starts_with p root"

lemma under_root_iff: "under_root root p \<longleftrightarrow> inside root p"
  by (auto simp: under_root_def path_starts_with_iff inside_def)

definition symlink_target_outside_authority :: "git_fs \<Rightarrow> bytes \<Rightarrow> bytes + bytes option" where
  "symlink_target_outside_authority fs p =
     bindE (map_err ((@) ''failed to canonicalize symlink target: '') (gf_canonicalize fs p)) (\<lambda>target.
     bindE (authority_root_path fs) (\<lambda>root.
       Inr (if under_root root target then None else Some target)))"

definition metadata_symlink_error :: "git_fs \<Rightarrow> bytes \<Rightarrow> git_error" where
  "metadata_symlink_error fs p =
     (case symlink_target_outside_authority fs p of
        Inr (Some target) \<Rightarrow>
          structured_error ''git_metadata_outside_authority''
            [(''path'', path_json p), (''target'', path_json target)]
      | Inr None \<Rightarrow> unsupported_metadata [(''path'', path_json p)]
      | Inl _ \<Rightarrow> unsupported_metadata [(''path'', path_json p)])"

section \<open>The object store\<close>

definition validate_object_store_directory :: "git_fs \<Rightarrow> bytes \<Rightarrow> unit result" where
  "validate_object_store_directory fs p =
     (case gf_lstat fs p of
        Inr md \<Rightarrow>
          if nm_kind md = Symlink then Inl (metadata_symlink_error fs p)
          else if nm_kind md \<noteq> Directory then Inl (unsupported_metadata [(''path'', path_json p)])
          else Inr ()
      | Inl NotFound \<Rightarrow> Inr ()
      | Inl OtherFailure \<Rightarrow> Inl (unsupported_metadata []))"

fun no_symlink_entries :: "git_fs \<Rightarrow> bytes \<Rightarrow> (unit + bytes) list \<Rightarrow> unit result" where
  "no_symlink_entries fs p [] = Inr ()"
| "no_symlink_entries fs p (Inl _ # es) = Inl (unsupported_metadata [])"
| "no_symlink_entries fs p (Inr name # es) =
     (case gf_lstat fs (path_push p name) of
        Inl _ \<Rightarrow> Inl (unsupported_metadata [])
      | Inr md \<Rightarrow>
          if nm_kind md = Symlink then Inl (metadata_symlink_error fs (path_push p name))
          else no_symlink_entries fs p es)"

definition validate_no_symlink_children :: "git_fs \<Rightarrow> bytes \<Rightarrow> unit result" where
  "validate_no_symlink_children fs p =
     (case gf_list fs p of
        Inl NotFound \<Rightarrow> Inr ()
      | Inl OtherFailure \<Rightarrow> Inl (unsupported_metadata [])
      | Inr es \<Rightarrow> no_symlink_entries fs p es)"

definition is_fanout_name :: "bytes \<Rightarrow> bool" where
  "is_fanout_name name =
     (let n = from_utf8_lossy name in length n = 2 \<and> list_all hexdigit n)"

fun validate_fanout :: "git_fs \<Rightarrow> bytes \<Rightarrow> (unit + bytes) list \<Rightarrow> unit result" where
  "validate_fanout fs objects [] = Inr ()"
| "validate_fanout fs objects (Inl _ # es) = Inl (unsupported_metadata [])"
| "validate_fanout fs objects (Inr name # es) =
     (if is_fanout_name name then
        bindE (validate_object_store_directory fs (path_push objects name)) (\<lambda>_.
        bindE (validate_no_symlink_children fs (path_push objects name)) (\<lambda>_.
          validate_fanout fs objects es))
      else validate_fanout fs objects es)"

definition validate_object_store_metadata :: "git_fs \<Rightarrow> bytes \<Rightarrow> unit result" where
  "validate_object_store_metadata fs objects =
     bindE (all_ok (\<lambda>relative.
              bindE (validate_object_store_directory fs (path_push objects relative)) (\<lambda>_.
                validate_no_symlink_children fs (path_push objects relative)))
            [''info'', ''pack'']) (\<lambda>_.
     (case gf_list fs objects of
        Inl _ \<Rightarrow> Inl (unsupported_metadata [])
      | Inr es \<Rightarrow> validate_fanout fs objects es))"

section \<open>The repository configuration\<close>

definition forbidden_config_key :: "bytes \<Rightarrow> bytes \<Rightarrow> bytes option" where
  "forbidden_config_key sect key =
     (if sect = ''include'' \<and> key = ''path'' then Some ''include.path''
      else if starts_with ''includeif '' sect \<and> key = ''path'' then Some (sect @ ''.path'')
      else if sect = ''core'' \<and> key \<in> {''worktree'', ''attributesfile'', ''excludesfile'', ''hookspath''} then
        Some (if key = ''attributesfile'' then ''core.attributesFile''
              else if key = ''excludesfile'' then ''core.excludesFile''
              else if key = ''hookspath'' then ''core.hooksPath''
              else ''core.worktree'')
      else None)"

fun scan_config :: "bytes \<Rightarrow> bytes \<Rightarrow> nat \<Rightarrow> bytes list \<Rightarrow> unit result" where
  "scan_config config sect idx [] = Inr ()"
| "scan_config config sect idx (raw # ls) =
     (let line = trim raw in
      if line = [] \<or> starts_with ''#'' line \<or> starts_with '';'' line then scan_config config sect (idx + 1) ls
      else if starts_with ''['' line \<and> ends_with '']'' line then
        scan_config config (map to_lower (trim (take (length line - 2) (drop 1 line)))) (idx + 1) ls
      else
        case split_once ''='' line of
          None \<Rightarrow> scan_config config sect (idx + 1) ls
        | Some (k, _) \<Rightarrow>
            (case forbidden_config_key sect (map to_lower (trim k)) of
               Some ck \<Rightarrow> Inl (unsupported_metadata
                 [(''path'', path_json config), (''config_key'', JStr ck), (''line'', JNum (int (idx + 1)))])
             | None \<Rightarrow> scan_config config sect (idx + 1) ls))"

definition read_to_string :: "git_fs \<Rightarrow> bytes \<Rightarrow> io_fail + bytes" where
  \<comment> \<open>\<open>fs::read_to_string\<close>: contents that are not UTF-8 are an error of their own\<close>
  "read_to_string fs p =
     bindE (gf_read fs p) (\<lambda>s. if utf8_valid s then Inr s else Inl OtherFailure)"

definition validate_repo_config_metadata :: "git_fs \<Rightarrow> bytes \<Rightarrow> unit result" where
  "validate_repo_config_metadata fs dot_git =
     (let config = path_push dot_git ''config'' in
      case read_to_string fs config of
        Inl NotFound \<Rightarrow> Inr ()
      | Inl OtherFailure \<Rightarrow> Inl (unsupported_metadata [(''path'', path_json config)])
      | Inr txt \<Rightarrow> scan_config config [] 0 (str_lines txt))"

section \<open>Markers of unsupported features\<close>

definition marker_features :: "(bytes \<times> bytes) list" where
  "marker_features =
     [(''commondir'', ''common-dir indirection''), (''config.worktree'', ''per-worktree config''),
      (''shallow'', ''shallow repository''), (''info/grafts'', ''grafts metadata''),
      (''refs/replace'', ''replace refs metadata'')]"

definition validate_unsupported_metadata_markers :: "git_fs \<Rightarrow> bytes \<Rightarrow> unit result" where
  "validate_unsupported_metadata_markers fs dot_git =
     all_ok (\<lambda>(relative, feature).
       let path = path_push dot_git relative in
       case gf_lstat fs path of
         Inr md \<Rightarrow>
           if nm_kind md = Symlink then Inl (metadata_symlink_error fs path)
           else Inl (unsupported_metadata [(''path'', path_json path), (''feature'', JStr feature)])
       | Inl NotFound \<Rightarrow> Inr ()
       | Inl OtherFailure \<Rightarrow> Inl (unsupported_metadata [(''path'', path_json path)])) marker_features"

section \<open>All of \<open>.git\<close>\<close>

definition validate_index_file_extensions :: "git_fs \<Rightarrow> bytes \<Rightarrow> unit result" where
  "validate_index_file_extensions fs dot_git =
     (case gf_read fs (path_push dot_git ''index'') of
        Inr bs \<Rightarrow> validate_index_bytes bs
      | Inl NotFound \<Rightarrow> Inr ()
      | Inl OtherFailure \<Rightarrow> Inl (unsupported_metadata []))"

fun no_shared_index :: "bytes \<Rightarrow> (unit + bytes) list \<Rightarrow> unit result" where
  "no_shared_index dot_git [] = Inr ()"
| "no_shared_index dot_git (Inl _ # es) = Inl (unsupported_metadata [])"
| "no_shared_index dot_git (Inr name # es) =
     (if starts_with ''sharedindex.'' (from_utf8_lossy name)
      then Inl (unsupported_metadata [(''path'', path_json (path_push dot_git name))])
      else no_shared_index dot_git es)"

definition require_real_dir :: "git_fs \<Rightarrow> bytes \<Rightarrow> unit result" where
  \<comment> \<open>the checks of \<open>.git\<close>, of \<open>objects\<close> and of \<open>refs\<close>\<close>
  "require_real_dir fs p =
     (case gf_lstat fs p of
        Inl _ \<Rightarrow> Inl (unsupported_metadata [])
      | Inr md \<Rightarrow>
          if nm_kind md = Symlink then Inl (metadata_symlink_error fs p)
          else if nm_kind md \<noteq> Directory then Inl (unsupported_metadata [])
          else Inr ())"

definition no_sparse_checkout :: "git_fs \<Rightarrow> bytes \<Rightarrow> unit result" where
  "no_sparse_checkout fs dot_git =
     (let p = path_push (path_push dot_git ''info'') ''sparse-checkout'' in
      case gf_lstat fs p of
        Inr _ \<Rightarrow> Inl (unsupported_metadata [(''path'', path_json p)])
      | Inl NotFound \<Rightarrow> Inr ()
      | Inl OtherFailure \<Rightarrow> Inl (unsupported_metadata []))"

definition alternates_path :: "bytes \<Rightarrow> bytes" where
  "alternates_path dot_git = path_push (path_push (path_push dot_git ''objects'') ''info'') ''alternates''"

definition nonempty_alternates :: "git_fs \<Rightarrow> bytes \<Rightarrow> bool" where
  "nonempty_alternates fs dot_git =
     (let p = alternates_path dot_git in
      \<not> isl (gf_stat fs p)
      \<and> (case read_to_string fs p of Inr txt \<Rightarrow> trim txt \<noteq> [] | Inl _ \<Rightarrow> True))"

definition validate_basic_git_metadata :: "git_fs \<Rightarrow> bytes \<Rightarrow> unit result" where
  "validate_basic_git_metadata fs tl_dir =
     (let dot_git = path_push tl_dir ''.git'' in
      bindE (require_real_dir fs dot_git) (\<lambda>_.
      bindE (all_ok (\<lambda>r. require_real_dir fs (path_push dot_git r)) [''objects'', ''refs'']) (\<lambda>_.
      bindE (validate_object_store_metadata fs (path_push dot_git ''objects'')) (\<lambda>_.
      bindE (validate_repo_config_metadata fs dot_git) (\<lambda>_.
      bindE (validate_unsupported_metadata_markers fs dot_git) (\<lambda>_.
      bindE (no_sparse_checkout fs dot_git) (\<lambda>_.
      bindE (case gf_list fs dot_git of
               Inl _ \<Rightarrow> Inl (unsupported_metadata [])
             | Inr es \<Rightarrow> no_shared_index dot_git es) (\<lambda>_.
      bindE (validate_index_file_extensions fs dot_git) (\<lambda>_.
        if nonempty_alternates fs dot_git then Inl (unsupported_metadata []) else Inr ())))))))))"

section \<open>The identity snapshot\<close>

definition filesystem_identity :: "node_meta \<Rightarrow> bytes" where
  "filesystem_identity md = ''unix:'' @ nat_dec (nm_dev md) @ '':'' @ nat_dec (nm_ino md)"

definition snapshot_anchor ::
  "(bytes \<Rightarrow> bytes) \<Rightarrow> git_fs \<Rightarrow> repo_snapshot \<Rightarrow> bytes \<Rightarrow> bytes \<Rightarrow> bool \<Rightarrow> bool \<Rightarrow> repo_snapshot result" where
  "snapshot_anchor sha fs anchors key p required hash_contents =
     (case gf_lstat fs p of
        Inr md \<Rightarrow>
          if nm_kind md = Symlink then Inl (metadata_symlink_error fs p)
          else if nm_kind md \<noteq> Directory \<and> nm_kind md \<noteq> RegularFile
            then Inl (unsupported_metadata [(''path'', path_json p)])
          else
            let kind = (if nm_kind md = Directory then ''dir'' else ''file'') in
            bindE (if hash_contents then
                     if nm_kind md \<noteq> RegularFile then Inl (unsupported_metadata [(''path'', path_json p)])
                     else (case gf_read fs p of
                             Inl _ \<Rightarrow> Inl (unsupported_metadata [(''path'', path_json p)])
                           | Inr bs \<Rightarrow> Inr (Some (sha bs)))
                   else Inr None) (\<lambda>content.
              Inr (AList.update key (AnchorPresent kind (filesystem_identity md) content) anchors))
      | Inl NotFound \<Rightarrow>
          if \<not> required then Inr (AList.update key AnchorAbsent anchors)
          else Inl (unsupported_metadata [(''path'', path_json p)])
      | Inl OtherFailure \<Rightarrow> Inl (unsupported_metadata [(''path'', path_json p)]))"

text \<open>The fixed anchors: key, path below \<open>.git\<close>, required, hash the contents.\<close>

definition fixed_anchors :: "bytes \<Rightarrow> (bytes \<times> bytes \<times> bool \<times> bool) list" where
  "fixed_anchors tl_dir =
     (let g = path_push tl_dir ''.git''; o1 = path_push g ''objects''; oi = path_push o1 ''info'' in
      [(''worktree'', tl_dir, True, False),
       (''.git'', g, True, False),
       (''.git/objects'', o1, True, False),
       (''.git/refs'', path_push g ''refs'', True, False),
       (''.git/HEAD'', path_push g ''HEAD'', False, True),
       (''.git/config'', path_push g ''config'', False, True),
       (''.git/packed-refs'', path_push g ''packed-refs'', False, True),
       (''.git/info'', path_push g ''info'', False, False),
       (''.git/info/attributes'', path_push (path_push g ''info'') ''attributes'', False, True),
       (''.git/logs'', path_push g ''logs'', False, False),
       (''.git/logs/HEAD'', path_push (path_push g ''logs'') ''HEAD'', False, True),
       (''.git/objects/info'', oi, False, False),
       (''.git/objects/info/alternates'', path_push oi ''alternates'', False, True),
       (''.git/objects/pack'', path_push o1 ''pack'', False, False)])"

fun snapshot_all ::
  "(bytes \<Rightarrow> bytes) \<Rightarrow> git_fs \<Rightarrow> repo_snapshot \<Rightarrow> (bytes \<times> bytes \<times> bool \<times> bool) list \<Rightarrow> repo_snapshot result" where
  "snapshot_all sha fs anchors [] = Inr anchors"
| "snapshot_all sha fs anchors ((key, p, required, hash) # r) =
     bindE (snapshot_anchor sha fs anchors key p required hash) (\<lambda>a. snapshot_all sha fs a r)"

fun snapshot_fanout ::
  "(bytes \<Rightarrow> bytes) \<Rightarrow> git_fs \<Rightarrow> bytes \<Rightarrow> repo_snapshot \<Rightarrow> (unit + bytes) list \<Rightarrow> repo_snapshot result" where
  "snapshot_fanout sha fs objects anchors [] = Inr anchors"
| "snapshot_fanout sha fs objects anchors (Inl _ # es) = Inl (unsupported_metadata [])"
| "snapshot_fanout sha fs objects anchors (Inr name # es) =
     (if is_fanout_name name then
        bindE (snapshot_anchor sha fs anchors (''.git/objects/'' @ from_utf8_lossy name)
                 (path_push objects name) True False) (\<lambda>a. snapshot_fanout sha fs objects a es)
      else snapshot_fanout sha fs objects anchors es)"

definition build_repo_identity_snapshot ::
  "(bytes \<Rightarrow> bytes) \<Rightarrow> git_fs \<Rightarrow> bytes \<Rightarrow> repo_snapshot result" where
  "build_repo_identity_snapshot sha fs tl_dir =
     bindE (snapshot_all sha fs [] (fixed_anchors tl_dir)) (\<lambda>anchors.
       let objects = path_push (path_push tl_dir ''.git'') ''objects'' in
       case gf_list fs objects of
         Inl _ \<Rightarrow> Inl (unsupported_metadata [])
       | Inr es \<Rightarrow> snapshot_fanout sha fs objects anchors es)"

definition baseline_matches :: "repo_snapshot \<Rightarrow> repo_snapshot \<Rightarrow> bool" where
  "baseline_matches base now = list_all (\<lambda>(key, expected). map_of now key = Some expected) base"

definition repo_identity_revalidation_error :: "git_error \<Rightarrow> git_error" where
  "repo_identity_revalidation_error e =
     (if error_type e = ''git_metadata_outside_authority'' then e
      else structured_error ''repo_identity_changed''
             [(''cause_error_type'', JStr (error_type e)), (''cause'', error_json e)])"

definition revalidate_repo_identity :: "(bytes \<Rightarrow> bytes) \<Rightarrow> git_fs \<Rightarrow> repo_context \<Rightarrow> unit result" where
  "revalidate_repo_identity sha fs repo =
     bindE (map_err repo_identity_revalidation_error (validate_basic_git_metadata fs (toplevel repo))) (\<lambda>_.
     bindE (map_err repo_identity_revalidation_error (build_repo_identity_snapshot sha fs (toplevel repo))) (\<lambda>now.
       if baseline_matches (stable_identity repo) now then Inr ()
       else Inl (structured_error ''repo_identity_changed'' [])))"

section \<open>Finding the worktree\<close>

fun discover_ancestors :: "git_fs \<Rightarrow> bytes \<Rightarrow> bytes list \<Rightarrow> bytes option result" where
  "discover_ancestors fs root [] = Inr None"
| "discover_ancestors fs root (anc # r) =
     (if \<not> under_root root anc then Inr None
      else
        case gf_lstat fs (path_push anc ''.git'') of
          Inr _ \<Rightarrow> Inr (Some anc)
        | Inl NotFound \<Rightarrow> if components anc = components root then Inr None else discover_ancestors fs root r
        | Inl OtherFailure \<Rightarrow> Inl (unsupported_metadata [(''path'', path_json (path_push anc ''.git''))]))"

definition discover_worktree_toplevel_within_authority :: "git_fs \<Rightarrow> bytes \<Rightarrow> bytes option result" where
  "discover_worktree_toplevel_within_authority fs start =
     (case authority_root_path fs of
        Inl _ \<Rightarrow> Inl (structured_error ''working_dir_invalid'' [])
      | Inr root \<Rightarrow>
          if \<not> under_root root start
          then Inl (structured_error ''working_dir_outside_authority''
                 [(''resolved_working_dir'', path_json start), (''authority_root'', path_json root)])
          else discover_ancestors fs root (ancestors start))"

end
