(* ===== verification/GitPolicy.thy ===== *)
theory GitPolicy
  imports GitMeta
begin

text \<open>
  \<^verbatim>\<open>git/path_policy.rs\<close>: which directory a git command may run in and where output may be written.
  An error is the text of its message, because a caller decides by looking for a word in it.
\<close>

section \<open>The code\<close>

definition absolute_path :: "bytes \<Rightarrow> bytes \<Rightarrow> bytes" where
  "absolute_path p root = (if is_absolute p then p else path_push root p)"

definition gp_exists :: "git_fs \<Rightarrow> bytes \<Rightarrow> bool" where
  "gp_exists fs p \<longleftrightarrow> \<not> isl (gf_lstat fs p)"

definition gp_deepest_existing_ancestor :: "git_fs \<Rightarrow> bytes \<Rightarrow> bytes option" where
  "gp_deepest_existing_ancestor fs p = find (gp_exists fs) (ancestors p)"

definition outside_message :: "bytes \<Rightarrow> bytes \<Rightarrow> bytes \<Rightarrow> bytes" where
  "outside_message fd original root =
     fd @ '' must resolve inside the server working directory ('' @ display_path root @ ''): ''
       @ display_path original @ '' resolves outside the permitted authority''"

definition ensure_inside_authority :: "bytes \<Rightarrow> bytes \<Rightarrow> bytes \<Rightarrow> bytes \<Rightarrow> bytes + unit" where
  "ensure_inside_authority fd original c root =
     (if under_root root c then Inr () else Inl (outside_message fd original root))"

definition canonicalize_existing :: "git_fs \<Rightarrow> bytes \<Rightarrow> bytes \<Rightarrow> bytes + bytes" where
  "canonicalize_existing fs fd p =
     map_err (\<lambda>err. ''failed to canonicalize existing path component for '' @ fd @ '' ('' @ display_path p
                @ ''): '' @ err) (gf_canonicalize fs p)"

fun gp_append_uncreated_tail ::
  "git_fs \<Rightarrow> bytes \<Rightarrow> bytes \<Rightarrow> pcomp list \<Rightarrow> bytes \<Rightarrow> bytes \<Rightarrow> bytes + bytes" where
  "gp_append_uncreated_tail fs fd cur [] original root =
     bindE (ensure_inside_authority fd original cur root) (\<lambda>_. Inr cur)"
| "gp_append_uncreated_tail fs fd cur (CurDir # cs) original root =
     gp_append_uncreated_tail fs fd cur cs original root"
| "gp_append_uncreated_tail fs fd cur (ParentDir # cs) original root =
     (case path_parent cur of
        None \<Rightarrow> Inl (fd @ '' resolves above the filesystem root: '' @ display_path original)
      | Some up \<Rightarrow>
          bindE (ensure_inside_authority fd original up root) (\<lambda>_.
            gp_append_uncreated_tail fs fd up cs original root))"
| "gp_append_uncreated_tail fs fd cur (Normal name # cs) original root =
     (let nxt = path_push cur name in
      if gp_exists fs nxt
      then bindE (canonicalize_existing fs fd nxt) (\<lambda>c.
           bindE (ensure_inside_authority fd original c root) (\<lambda>_.
             gp_append_uncreated_tail fs fd c cs original root))
      else bindE (ensure_inside_authority fd original nxt root) (\<lambda>_.
             gp_append_uncreated_tail fs fd nxt cs original root))"
| "gp_append_uncreated_tail fs fd cur (RootDir # cs) original root =
     Inl (fd @ '' contains an unexpected rooted path segment: '' @ display_path original)"

definition resolve_under_authority :: "git_fs \<Rightarrow> bytes \<Rightarrow> bytes \<Rightarrow> bytes \<Rightarrow> bool \<Rightarrow> bytes + bytes" where
  "resolve_under_authority fs fd p root require_existing =
     (if gp_exists fs p then
        bindE (canonicalize_existing fs fd p) (\<lambda>c.
        bindE (ensure_inside_authority fd p c root) (\<lambda>_. Inr c))
      else if require_existing then
        Inl (fd @ '' must reference an existing directory: '' @ display_path p @ '' does not exist'')
      else case gp_deepest_existing_ancestor fs p of
        None \<Rightarrow> Inl (fd @ '' has no existing ancestor inside the server working directory'')
      | Some anc \<Rightarrow>
          bindE (canonicalize_existing fs fd anc) (\<lambda>canc.
          bindE (ensure_inside_authority fd p canc root) (\<lambda>_.
            case path_strip_prefix p anc of
              None \<Rightarrow> Inl (''failed to resolve remaining path after existing ancestor for '' @ fd
                             @ '' ('' @ display_path p @ ''): prefix not found'')
            | Some rest \<Rightarrow> gp_append_uncreated_tail fs fd canc (components rest) p root)))"

definition require_non_empty :: "bytes \<Rightarrow> bytes \<Rightarrow> bytes + unit" where
  "require_non_empty fd v =
     (if trim v = [] then Inl (fd @ '' must be non-empty when provided'') else Inr ())"

definition validate_path :: "git_fs \<Rightarrow> bytes \<Rightarrow> bytes \<Rightarrow> bool \<Rightarrow> bytes + bytes" where
  "validate_path fs fd v require_existing =
     bindE (require_non_empty fd v) (\<lambda>_.
     bindE (authority_root_path fs) (\<lambda>root.
       resolve_under_authority fs fd (absolute_path v root) root require_existing))"

definition gp_resolve_existing_directory :: "git_fs \<Rightarrow> bytes \<Rightarrow> bytes \<Rightarrow> bytes + bytes" where
  "gp_resolve_existing_directory fs fd v =
     bindE (validate_path fs fd v True) (\<lambda>resolved.
       case gf_stat fs resolved of
         Inl err \<Rightarrow> Inl (fd @ '' must reference an existing directory: '' @ err)
       | Inr k \<Rightarrow>
           if k \<noteq> Directory then
             Inl (fd @ '' must reference an existing directory: '' @ display_path resolved
                    @ '' is not a directory'')
           else Inr resolved)"

definition resolve_working_dir :: "git_fs \<Rightarrow> bytes option \<Rightarrow> bytes + bytes option" where
  "resolve_working_dir fs wd =
     (case wd of
        None \<Rightarrow> Inr None
      | Some v \<Rightarrow> bindE (gp_resolve_existing_directory fs ''working_dir'' v) (\<lambda>p. Inr (Some p)))"

definition resolve_output_dir :: "git_fs \<Rightarrow> bytes \<Rightarrow> bytes + bytes" where
  "resolve_output_dir fs v = validate_path fs ''output_dir'' v False"

section \<open>Containment\<close>

lemma ensure_inside_authority_iff: "ensure_inside_authority fd original c root = Inr u \<longleftrightarrow> inside root c"
  by (auto simp: ensure_inside_authority_def under_root_iff)

lemma canonicalize_existing_iff: "canonicalize_existing fs fd p = Inr c \<longleftrightarrow> gf_canonicalize fs p = Inr c"
  by (simp add: canonicalize_existing_def map_err_Inr_iff)

lemma gp_append_uncreated_tail_inside:
  "gp_append_uncreated_tail fs fd cur cs original root = Inr p \<Longrightarrow> inside root p"
  by (induction fs fd cur cs original root rule: gp_append_uncreated_tail.induct)
    (auto simp: bindE_Inr_iff ensure_inside_authority_iff Let_def split: if_splits option.splits)

lemma resolve_under_authority_inside:
  "resolve_under_authority fs fd p root req = Inr c \<Longrightarrow> inside root c"
  by (auto simp: resolve_under_authority_def bindE_Inr_iff ensure_inside_authority_iff
      intro: gp_append_uncreated_tail_inside split: if_splits option.splits)

lemma validate_path_inside:
  "validate_path fs fd v req = Inr c \<Longrightarrow> \<exists>root. gf_authority fs = Inr root \<and> inside root c"
  by (auto simp: validate_path_def bindE_Inr_iff authority_root_path_def
      intro: resolve_under_authority_inside)

lemma resolve_working_dir_inside:
  "resolve_working_dir fs (Some v) = Inr (Some c) \<Longrightarrow>
   gf_stat fs c = Inr Directory \<and> (\<exists>root. gf_authority fs = Inr root \<and> inside root c)"
proof -
  assume "resolve_working_dir fs (Some v) = Inr (Some c)"
  then have "gp_resolve_existing_directory fs ''working_dir'' v = Inr c"
    by (auto simp: resolve_working_dir_def bindE_Inr_iff)
  then have "validate_path fs ''working_dir'' v True = Inr c \<and> gf_stat fs c = Inr Directory"
    unfolding gp_resolve_existing_directory_def
    by (cases "validate_path fs ''working_dir'' v True"; cases "gf_stat fs c") (auto split: sum.splits if_splits)
  then show ?thesis using validate_path_inside by blast
qed

end
