(* ===== verification/GitRun.thy ===== *)
theory GitRun
  imports GitPolicy
begin

text \<open>
  Running git, from \<^verbatim>\<open>git/mod.rs\<close> and \<^verbatim>\<open>tools-mcp-core/src/process.rs\<close>.  The world is a type
  parameter: a child process answers and leaves a new world behind, a look at the file system sees
  the present world, and other processes may act before every look (\<open>env_tick\<close>).  The state keeps,
  for the theorems only, the trace of the commands run and what they answered.
\<close>

section \<open>The environment of a command\<close>

definition GIT_AUTHORITY_ENV_KEYS :: "bytes list" where
  "GIT_AUTHORITY_ENV_KEYS =
     [''GIT_DIR'', ''GIT_WORK_TREE'', ''GIT_COMMON_DIR'', ''GIT_NAMESPACE'', ''GIT_INDEX_FILE'',
      ''GIT_OBJECT_DIRECTORY'', ''GIT_ALTERNATE_OBJECT_DIRECTORIES'', ''GIT_CEILING_DIRECTORIES'',
      ''GIT_DISCOVERY_ACROSS_FILESYSTEM'', ''GIT_EXEC_PATH'', ''GIT_IMPLICIT_WORK_TREE'', ''GIT_PREFIX'',
      ''GIT_SHALLOW_FILE'', ''GIT_GRAFT_FILE'', ''GIT_QUARANTINE_PATH'', ''GIT_REPLACE_REF_BASE'',
      ''GIT_NO_REPLACE_OBJECTS'', ''GIT_DIFF_OPTS'', ''GIT_GLOB_PATHSPECS'', ''GIT_NOGLOB_PATHSPECS'',
      ''GIT_LITERAL_PATHSPECS'', ''GIT_ICASE_PATHSPECS'', ''GIT_CONFIG_COUNT'', ''GIT_CONFIG_PARAMETERS'',
      ''GIT_SSH'', ''GIT_SSH_COMMAND'', ''GIT_ASKPASS'', ''SSH_ASKPASS'']"

definition is_git_env_name_with_prefix :: "bytes \<Rightarrow> bytes list \<Rightarrow> bool" where
  "is_git_env_name_with_prefix key prefixes \<longleftrightarrow> utf8_valid key \<and> list_ex (\<lambda>p. starts_with p key) prefixes"

definition is_git_config_spoofing_env_key :: "bytes \<Rightarrow> bool" where
  "is_git_config_spoofing_env_key key \<longleftrightarrow>
     is_git_env_name_with_prefix key [''GIT_CONFIG_KEY_'', ''GIT_CONFIG_VALUE_'']"

definition is_denied_git_env_key :: "bytes \<Rightarrow> bool" where
  "is_denied_git_env_key key \<longleftrightarrow>
     (utf8_valid key \<and> key \<in> set GIT_AUTHORITY_ENV_KEYS)
     \<or> is_git_env_name_with_prefix key
          [''GIT_CONFIG_KEY_'', ''GIT_CONFIG_VALUE_'', ''GIT_TRACE'', ''GIT_TRACE2'']"

definition removed_env_key :: "bytes \<Rightarrow> bool" where
  \<comment> \<open>\<open>remove_git_authority_env\<close>: the fixed keys and the two scrubbed families\<close>
  "removed_env_key key \<longleftrightarrow>
     key \<in> set GIT_AUTHORITY_ENV_KEYS \<or> is_denied_git_env_key key \<or> is_git_config_spoofing_env_key key"

definition git_env_settings :: "(bytes \<times> bytes) list" where
  "git_env_settings =
     [(''GIT_CONFIG_NOSYSTEM'', ''1''), (''GIT_CONFIG_GLOBAL'', ''/dev/null''), (''GIT_EXTERNAL_DIFF'', []),
      (''GIT_ATTR_NOSYSTEM'', ''1''), (''GIT_NO_LAZY_FETCH'', ''1''), (''GIT_OPTIONAL_LOCKS'', ''0''),
      (''GIT_NO_REPLACE_OBJECTS'', ''1'')]"

definition child_env :: "(bytes \<times> bytes) list \<Rightarrow> (bytes \<times> bytes) list" where
  "child_env vars =
     foldl (\<lambda>e (k, v). AList.update k v e) (filter (\<lambda>(k, v). \<not> removed_env_key k) vars) git_env_settings"

definition GIT_BASE_ARGS :: "bytes list" where
  "GIT_BASE_ARGS = [''--no-pager'', ''-c'', ''color.ui=false'', ''-c'', ''diff.external='', ''-c'', ''core.fsmonitor='']"

definition build_git_args :: "bytes list \<Rightarrow> bytes list" where
  "build_git_args args = GIT_BASE_ARGS @ [''-c'', ''core.attributesFile=/dev/null''] @ args"

section \<open>Streams\<close>

text \<open>\<open>read_to_end_limited\<close> on a stream that delivers \<open>s\<close>: what is kept, and whether more came.\<close>

definition read_to_end_limited :: "bytes \<Rightarrow> nat \<Rightarrow> bytes \<times> bool" where
  "read_to_end_limited s limit =
     (let got = (if limit > 0 then take limit s else []) in
      if limit > 0 \<and> length got < limit then (got, False)
      else (got, drop (length got) s \<noteq> []))"

lemma read_to_end_limited_eq: "read_to_end_limited s n = (take n s, n < length s)"
  by (auto simp: read_to_end_limited_def Let_def)

text \<open>Writing standard input: the answers of the successive writes, \<open>Inr n\<close> for \<open>n\<close> bytes taken and
  \<open>Inl\<close> for a failure with its message and whether it was a broken pipe; the last answer is that of
  the shutdown.  A pipe that stops answering is the caller's timeout.\<close>

type_synonym write_answer = "(bytes \<times> bool) + nat"

record stdin_report =
  sr_written :: nat
  sr_delivered :: bool
  sr_error :: "bytes option"
  sr_broken :: bool

definition WRITE_CHUNK :: nat where "WRITE_CHUNK = 16384"

fun write_git_stdin :: "nat \<Rightarrow> nat \<Rightarrow> nat \<Rightarrow> write_answer list \<Rightarrow> stdin_report option" where
  "write_git_stdin len off written [] = None"
| "write_git_stdin len off written (a # as) =
     (if off < len then
        (case a of
           Inr n \<Rightarrow>
             if n = 0 then Some \<lparr> sr_written = written, sr_delivered = False,
                 sr_error = Some ''git stdin write returned zero bytes'', sr_broken = False \<rparr>
             else write_git_stdin len (off + min n (min WRITE_CHUNK (len - off)))
                    (written + min n (min WRITE_CHUNK (len - off))) as
         | Inl (msg, broken) \<Rightarrow>
             Some \<lparr> sr_written = written, sr_delivered = False, sr_error = Some msg, sr_broken = broken \<rparr>)
      else
        (case a of
           Inr _ \<Rightarrow> Some \<lparr> sr_written = written, sr_delivered = True, sr_error = None, sr_broken = False \<rparr>
         | Inl (msg, broken) \<Rightarrow>
             Some \<lparr> sr_written = written, sr_delivered = False, sr_error = Some msg, sr_broken = broken \<rparr>))"

definition collect_stdin_with_grace :: "stdin_report option \<Rightarrow> stdin_report" where
  "collect_stdin_with_grace r =
     (case r of Some rep \<Rightarrow> rep
      | None \<Rightarrow> \<lparr> sr_written = 0, sr_delivered = False,
                  sr_error = Some ''git stdin writer did not finish after process exit'', sr_broken = False \<rparr>)"

definition summary_none :: stdin_summary where
  "summary_none = \<lparr> requested_bytes = None, written_bytes = None, fully_delivered = None,
     write_error = None, broken_pipe = False \<rparr>"

definition from_report :: "nat \<Rightarrow> stdin_report \<Rightarrow> stdin_summary" where
  "from_report requested rep = \<lparr> requested_bytes = Some requested, written_bytes = Some (sr_written rep),
     fully_delivered = Some (sr_delivered rep), write_error = sr_error rep, broken_pipe = sr_broken rep \<rparr>"

section \<open>Programs over the world\<close>

record git_child =
  ch_args :: "bytes list"
  ch_env :: "(bytes \<times> bytes) list"
  ch_cwd :: bytes
  ch_stdin :: "bytes option"
  ch_timeout :: nat

record child_report =
  cr_status :: "int option"
  cr_timed_out :: bool
  cr_stdout :: bytes
  cr_stderr :: bytes
  cr_writes :: "write_answer list"

type_synonym run_event = "git_child \<times> (bytes + child_report)"

record 'w git_state =
  gs_world :: 'w
  gs_trace :: "run_event list"

record 'w git_env =
  env_fs :: "'w \<Rightarrow> git_fs"
  env_tick :: "'w \<Rightarrow> 'w"
  env_spawn :: "git_child \<Rightarrow> 'w \<Rightarrow> (bytes + child_report) \<times> 'w"
  env_vars :: "(bytes \<times> bytes) list"
  env_sha :: "bytes \<Rightarrow> bytes"

type_synonym ('w, 'e, 'a) gm = "'w git_state \<Rightarrow> ('e + 'a) \<times> 'w git_state"
type_synonym ('w, 'a) gitm = "('w, git_error, 'a) gm"

definition gm_ret :: "'a \<Rightarrow> ('w, 'e, 'a) gm" where
  "gm_ret x s = (Inr x, s)"

definition gm_fail :: "'e \<Rightarrow> ('w, 'e, 'a) gm" where
  "gm_fail e s = (Inl e, s)"

definition gm_lift :: "'e + 'a \<Rightarrow> ('w, 'e, 'a) gm" where
  "gm_lift r s = (r, s)"

text \<open>Run a program and go on with its error or its value.\<close>

definition gm_case :: "('w, 'e, 'a) gm \<Rightarrow> ('e \<Rightarrow> ('w, 'f, 'b) gm) \<Rightarrow> ('a \<Rightarrow> ('w, 'f, 'b) gm) \<Rightarrow> ('w, 'f, 'b) gm" where
  "gm_case m g f s = (case m s of (Inl e, s') \<Rightarrow> g e s' | (Inr x, s') \<Rightarrow> f x s')"

definition gm_bind :: "('w, 'e, 'a) gm \<Rightarrow> ('a \<Rightarrow> ('w, 'e, 'b) gm) \<Rightarrow> ('w, 'e, 'b) gm" where
  "gm_bind m f = gm_case m gm_fail f"

definition gm_map_err :: "('e \<Rightarrow> 'f) \<Rightarrow> ('w, 'e, 'a) gm \<Rightarrow> ('w, 'f, 'a) gm" where
  "gm_map_err h m = gm_case m (\<lambda>e. gm_fail (h e)) gm_ret"

definition gm_look :: "'w git_env \<Rightarrow> (git_fs \<Rightarrow> 'e + 'a) \<Rightarrow> ('w, 'e, 'a) gm" where
  "gm_look E f s =
     (let w = env_tick E (gs_world s) in (f (env_fs E w), s\<lparr> gs_world := w \<rparr>))"

definition gm_spawn :: "'w git_env \<Rightarrow> git_child \<Rightarrow> ('w, bytes, child_report) gm" where
  "gm_spawn E c s =
     (case env_spawn E c (gs_world s) of
        (r, w) \<Rightarrow> (r, \<lparr> gs_world = w, gs_trace = gs_trace s @ [(c, r)] \<rparr>))"

section \<open>\<open>run_git\<close>\<close>

definition exec_result :: "bytes list \<Rightarrow> bytes option \<Rightarrow> bytes option \<Rightarrow> nat \<Rightarrow> nat \<Rightarrow> child_report \<Rightarrow> git_exec" where
  "exec_result args wd inp max_out max_err rep =
     (case (read_to_end_limited (cr_stdout rep) max_out, read_to_end_limited (cr_stderr rep) max_err) of
        ((out, tout), (err, terr)) \<Rightarrow>
          \<lparr> ge_args = args, ge_working_dir = wd, exit_code = cr_status rep,
            success = (cr_status rep = Some 0 \<and> \<not> cr_timed_out rep),
            stdout_bytes = out, stderr_bytes = err, truncated_stdout = tout, truncated_stderr = terr,
            timed_out = cr_timed_out rep,
            stdin_report = (case inp of None \<Rightarrow> summary_none
              | Some bs \<Rightarrow> from_report (length bs)
                  (collect_stdin_with_grace (write_git_stdin (length bs) 0 0 (cr_writes rep)))) \<rparr>)"

definition run_git_with_stdin ::
  "'w git_env \<Rightarrow> bytes option \<Rightarrow> bytes list \<Rightarrow> bytes option \<Rightarrow> nat \<Rightarrow> nat \<Rightarrow> nat \<Rightarrow> ('w, bytes, git_exec) gm" where
  "run_git_with_stdin E wd sub inp timeout max_out max_err =
     (if (case inp of Some bs \<Rightarrow> length bs > MAX_GIT_STDIN_BYTES | None \<Rightarrow> False)
      then gm_fail (''git stdin payload exceeds MAX_GIT_STDIN_BYTES ('' @ nat_dec MAX_GIT_STDIN_BYTES @ '')'')
      else
        gm_bind (gm_look E (\<lambda>fs. resolve_working_dir fs wd)) (\<lambda>resolved.
        gm_bind (case resolved of
                   Some p \<Rightarrow> gm_ret p
                 | None \<Rightarrow> gm_look E authority_root_path) (\<lambda>cwd.
          let args = build_git_args sub in
          gm_bind (gm_spawn E \<lparr> ch_args = args, ch_env = child_env (env_vars E), ch_cwd = cwd,
                      ch_stdin = inp, ch_timeout = clamp timeout 100 MAX_GIT_TIMEOUT_MS \<rparr>) (\<lambda>rep.
            gm_ret (exec_result args (map_option display_path resolved) inp
                      (clamp max_out 1 MAX_OUTPUT_BYTES) (clamp max_err 1 MAX_OUTPUT_BYTES) rep)))))"

definition run_git ::
  "'w git_env \<Rightarrow> bytes option \<Rightarrow> bytes list \<Rightarrow> nat \<Rightarrow> nat \<Rightarrow> nat \<Rightarrow> ('w, bytes, git_exec) gm" where
  "run_git E wd sub timeout max_out max_err = run_git_with_stdin E wd sub None timeout max_out max_err"

section \<open>What a program adds to the trace\<close>

text \<open>A relation between the result of a program and the commands it ran, from every state.\<close>

definition does :: "('w, 'e, 'a) gm \<Rightarrow> ('e + 'a \<Rightarrow> run_event list \<Rightarrow> bool) \<Rightarrow> bool" where
  "does m Q \<longleftrightarrow> (\<forall>s. \<exists>t. gs_trace (snd (m s)) = gs_trace s @ t \<and> Q (fst (m s)) t)"

lemma does_case:
  assumes "does m R" "\<And>e t. R (Inl e) t \<Longrightarrow> does (g e) (\<lambda>r u. Q r (t @ u))"
    "\<And>x t. R (Inr x) t \<Longrightarrow> does (f x) (\<lambda>r u. Q r (t @ u))"
  shows "does (gm_case m g f) Q"
  unfolding does_def
proof
  fix s
  obtain r s1 where m: "m s = (r, s1)" by (cases "m s")
  then obtain t1 where t1: "gs_trace s1 = gs_trace s @ t1" "R r t1"
    using assms(1) unfolding does_def by (metis fst_conv snd_conv)
  let ?k = "case r of Inl e \<Rightarrow> g e | Inr x \<Rightarrow> f x"
  have "does ?k (\<lambda>r u. Q r (t1 @ u))" using assms(2,3) t1(2) by (cases r) auto
  then obtain t2 where "gs_trace (snd (?k s1)) = gs_trace s1 @ t2" "Q (fst (?k s1)) (t1 @ t2)"
    unfolding does_def by blast
  moreover have "gm_case m g f s = ?k s1" using m by (cases r) (simp_all add: gm_case_def)
  ultimately show "\<exists>t. gs_trace (snd (gm_case m g f s)) = gs_trace s @ t \<and> Q (fst (gm_case m g f s)) t"
    using t1(1) by (intro exI[of _ "t1 @ t2"]) simp
qed

lemma does_bind:
  assumes "does m R" "\<And>e t. R (Inl e) t \<Longrightarrow> Q (Inl e) t"
    "\<And>x t. R (Inr x) t \<Longrightarrow> does (f x) (\<lambda>r u. Q r (t @ u))"
  shows "does (gm_bind m f) Q"
  unfolding gm_bind_def
  by (rule does_case[OF assms(1) _ assms(3)]) (auto simp: does_def gm_fail_def intro: assms(2))

lemma does_weaken: "does m R \<Longrightarrow> (\<And>r t. R r t \<Longrightarrow> Q r t) \<Longrightarrow> does m Q"
  unfolding does_def by blast

lemma does_ret: "Q (Inr x) [] \<Longrightarrow> does (gm_ret x) Q"
  by (simp add: does_def gm_ret_def)

lemma does_fail: "Q (Inl e) [] \<Longrightarrow> does (gm_fail e) Q"
  by (simp add: does_def gm_fail_def)

definition emits :: "(run_event \<Rightarrow> bool) \<Rightarrow> ('w, 'e, 'a) gm \<Rightarrow> bool" where
  "emits P m \<longleftrightarrow> does m (\<lambda>_. list_all P)"

lemma emitsD: "emits P m \<Longrightarrow> \<exists>t. gs_trace (snd (m s)) = gs_trace s @ t \<and> list_all P t"
  unfolding emits_def does_def by blast

named_theorems emits_intros

lemma emits_ret [emits_intros]: "emits P (gm_ret x)"
  by (simp add: emits_def does_ret)

lemma emits_fail [emits_intros]: "emits P (gm_fail e)"
  by (simp add: emits_def does_fail)

lemma emits_lift [emits_intros]: "emits P (gm_lift r)"
  by (simp add: emits_def does_def gm_lift_def)

lemma emits_look [emits_intros]: "emits P (gm_look E f)"
  by (simp add: emits_def does_def gm_look_def Let_def)

lemma emits_case [emits_intros]:
  "emits P m \<Longrightarrow> (\<And>e. emits P (g e)) \<Longrightarrow> (\<And>x. emits P (f x)) \<Longrightarrow> emits P (gm_case m g f)"
  unfolding emits_def by (erule does_case) (auto intro: does_weaken)

lemma emits_bind [emits_intros]: "emits P m \<Longrightarrow> (\<And>x. emits P (f x)) \<Longrightarrow> emits P (gm_bind m f)"
  unfolding gm_bind_def by (intro emits_intros)

lemma emits_map_err [emits_intros]: "emits P m \<Longrightarrow> emits P (gm_map_err h m)"
  unfolding gm_map_err_def by (intro emits_intros)

lemma emits_if [emits_intros]: "emits P a \<Longrightarrow> emits P b \<Longrightarrow> emits P (if c then a else b)"
  by simp

lemma emits_option [emits_intros]:
  "emits P a \<Longrightarrow> (\<And>x. emits P (b x)) \<Longrightarrow> emits P (case v of None \<Rightarrow> a | Some x \<Rightarrow> b x)"
  by (simp split: option.split)

lemma emits_sum [emits_intros]:
  "(\<And>e. emits P (a e)) \<Longrightarrow> (\<And>x. emits P (b x)) \<Longrightarrow> emits P (case v of Inl e \<Rightarrow> a e | Inr x \<Rightarrow> b x)"
  by (simp split: sum.split)

lemma emits_prod [emits_intros]: "(\<And>x y. emits P (f x y)) \<Longrightarrow> emits P (case v of (x, y) \<Rightarrow> f x y)"
  by (simp split: prod.split)

lemma emits_let [emits_intros]: "emits P (f v) \<Longrightarrow> emits P (let x = v in f x)"
  by simp

lemma emits_spawn: "(\<And>r. P (c, r)) \<Longrightarrow> emits P (gm_spawn E c)"
  by (simp add: emits_def does_def gm_spawn_def split: prod.split)

lemma emits_weaken: "emits P m \<Longrightarrow> (\<And>e. P e \<Longrightarrow> Q e) \<Longrightarrow> emits Q m"
  unfolding emits_def by (erule does_weaken) (simp add: list_all_iff)

text \<open>Which subcommand a command runs and what it gets on standard input.\<close>

definition event_sub :: "run_event \<Rightarrow> bytes list" where
  "event_sub ev = drop (length (build_git_args [])) (ch_args (fst ev))"

lemma event_sub_build [simp]: "ch_args c = build_git_args sub \<Longrightarrow> event_sub (c, r) = sub"
  by (simp add: event_sub_def build_git_args_def)

lemma emits_run_git_with_stdin:
  assumes "\<And>c r. ch_args c = build_git_args sub \<Longrightarrow> ch_stdin c = inp \<Longrightarrow> ch_env c = child_env (env_vars E)
             \<Longrightarrow> P (c, r)"
  shows "emits P (run_git_with_stdin E wd sub inp timeout mo me)"
  unfolding run_git_with_stdin_def Let_def
  by (intro emits_intros emits_spawn assms) simp_all

lemma emits_run_git:
  assumes "\<And>c r. ch_args c = build_git_args sub \<Longrightarrow> ch_stdin c = None \<Longrightarrow> ch_env c = child_env (env_vars E)
             \<Longrightarrow> P (c, r)"
  shows "emits P (run_git E wd sub timeout mo me)"
  unfolding run_git_def by (rule emits_run_git_with_stdin) (use assms in auto)

end
