(* ===== verification/GitRepo.thy ===== *)
theory GitRepo
  imports GitRun DiffRecord
begin

text \<open>
  Finding and pinning the repository, and reading a diff: \<open>resolve_repo_context\<close> with its probes,
  \<open>enumerate_diff\<close> and the handler of \<open>GitHunks\<close>, from \<^verbatim>\<open>git/handlers/hunks.rs\<close>.
\<close>

section \<open>Probes\<close>

definition opt_int_json :: "int option \<Rightarrow> json" where
  "opt_int_json v = (case v of Some n \<Rightarrow> JNum n | None \<Rightarrow> JNull)"

definition probe_object_format :: "'w git_env \<Rightarrow> bytes \<Rightarrow> nat \<Rightarrow> ('w, bytes) gitm" where
  "probe_object_format E wd timeout =
     gm_bind (gm_map_err (\<lambda>_. structured_error ''object_format_probe_unavailable'' [])
        (run_git E (Some wd) [''rev-parse'', ''--show-object-format''] timeout
           DEFAULT_GIT_STDOUT_BYTES DEFAULT_GIT_STDERR_BYTES)) (\<lambda>ex.
       if timed_out ex then gm_fail (structured_error ''object_format_probe_timeout'' [])
       else if \<not> success ex then
         gm_fail (structured_error ''object_format_probe_failed'' [(''stderr'', JStr (stderr_text ex))])
       else
         let fmt = trim_end_crlf (stdout_text ex) in
         if fmt \<noteq> ''sha1'' then
           gm_fail (structured_error ''unsupported_object_format'' [(''object_format'', JStr fmt)])
         else gm_ret fmt)"

definition repo_bool_config_enabled :: "'w git_env \<Rightarrow> bytes \<Rightarrow> nat \<Rightarrow> bytes \<Rightarrow> ('w, bool) gitm" where
  "repo_bool_config_enabled E wd timeout key =
     gm_bind (gm_map_err (\<lambda>_. structured_error ''working_dir_probe_unavailable'' [(''config_key'', JStr key)])
        (run_git E (Some wd) [''config'', ''--bool'', ''--get'', key] timeout
           DEFAULT_GIT_STDOUT_BYTES DEFAULT_GIT_STDERR_BYTES)) (\<lambda>ex.
       if timed_out ex then gm_fail (structured_error ''working_dir_probe_timeout'' [(''config_key'', JStr key)])
       else if success ex then
         let v = trim_end_crlf (stdout_text ex) in
         if v = ''true'' then gm_ret True
         else if v = ''false'' then gm_ret False
         else gm_fail (unsupported_metadata [(''config_key'', JStr key), (''value'', JStr v)])
       else if exit_code ex = Some 1 \<and> trim (stdout_text ex) = [] \<and> trim (stderr_text ex) = []
       then gm_ret False
       else gm_fail (unsupported_metadata
              [(''config_key'', JStr key), (''exit_code'', opt_int_json (exit_code ex)),
               (''stderr'', JStr (stderr_text ex))]))"

definition feature_config_keys :: "(bytes \<times> bytes) list" where
  "feature_config_keys =
     [(''core.sparseCheckout'', ''sparse checkout''), (''core.splitIndex'', ''split index''),
      (''index.sparse'', ''sparse index'')]"

fun check_feature_keys :: "'w git_env \<Rightarrow> bytes \<Rightarrow> nat \<Rightarrow> (bytes \<times> bytes) list \<Rightarrow> ('w, unit) gitm" where
  "check_feature_keys E wd timeout [] = gm_ret ()"
| "check_feature_keys E wd timeout ((key, feature) # r) =
     gm_bind (repo_bool_config_enabled E wd timeout key) (\<lambda>on.
       if on then gm_fail (unsupported_metadata [(''config_key'', JStr key), (''feature'', JStr feature)])
       else check_feature_keys E wd timeout r)"

definition validate_unsupported_repository_feature_config :: "'w git_env \<Rightarrow> bytes \<Rightarrow> nat \<Rightarrow> ('w, unit) gitm" where
  "validate_unsupported_repository_feature_config E wd timeout =
     check_feature_keys E wd timeout feature_config_keys"

section \<open>The repository context\<close>

text \<open>The error type is chosen by looking for the word \<open>outside\<close> in the message.\<close>

definition working_dir_error :: "bytes \<Rightarrow> git_error" where
  "working_dir_error err =
     structured_error (if contains_sub ''outside'' err then ''working_dir_outside_authority''
                       else ''working_dir_invalid'') []"

definition requested_dir :: "'w git_env \<Rightarrow> bytes option \<Rightarrow> ('w, bytes) gitm" where
  "requested_dir E wd =
     (case wd of
        Some v \<Rightarrow>
          gm_look E (\<lambda>fs. case resolve_working_dir fs (Some v) of
            Inl err \<Rightarrow> Inl (working_dir_error err)
          | Inr None \<Rightarrow> Inl (structured_error ''unreachable'' [])
          | Inr (Some p) \<Rightarrow> Inr p)
      | None \<Rightarrow>
          gm_look E (\<lambda>fs. map_err (\<lambda>_. structured_error ''working_dir_invalid'' []) (authority_root_path fs)))"

definition find_toplevel :: "'w git_env \<Rightarrow> bytes \<Rightarrow> ('w, bytes) gitm" where
  \<comment> \<open>discovery, the worktree-root check, the metadata gate\<close>
  "find_toplevel E dir =
     gm_bind (gm_look E (\<lambda>fs. discover_worktree_toplevel_within_authority fs dir)) (\<lambda>found.
       case found of
         None \<Rightarrow> gm_fail (structured_error ''repo_not_found_within_authority'' [])
       | Some tl_dir \<Rightarrow>
           if components tl_dir \<noteq> components dir then
             gm_fail (structured_error ''working_dir_not_worktree_root''
               [(''resolved_working_dir'', path_json dir), (''git_toplevel'', path_json tl_dir)])
           else gm_bind (gm_look E (\<lambda>fs. validate_basic_git_metadata fs tl_dir)) (\<lambda>_. gm_ret tl_dir))"

definition confirm_toplevel :: "'w git_env \<Rightarrow> bytes \<Rightarrow> bytes \<Rightarrow> nat \<Rightarrow> ('w, unit) gitm" where
  \<comment> \<open>git must name the same toplevel\<close>
  "confirm_toplevel E wd tl_dir timeout =
     gm_bind (gm_map_err (\<lambda>_. structured_error ''working_dir_probe_unavailable'' [])
        (run_git E (Some wd) [''rev-parse'', ''--show-toplevel''] timeout
           DEFAULT_GIT_STDOUT_BYTES DEFAULT_GIT_STDERR_BYTES)) (\<lambda>ex.
       if timed_out ex then gm_fail (structured_error ''working_dir_probe_timeout'' [])
       else if \<not> success ex then gm_fail (structured_error ''repo_not_found_within_authority'' [])
       else
         gm_bind (gm_look E (\<lambda>fs. map_err (\<lambda>_. structured_error ''working_dir_probe_failed'' [])
                    (gf_canonicalize fs (trim_end_crlf (stdout_text ex))))) (\<lambda>git_tl.
           if components git_tl \<noteq> components tl_dir then
             gm_fail (structured_error ''working_dir_probe_failed''
               [(''resolved_working_dir'', JStr wd), (''manual_toplevel'', path_json tl_dir),
                (''git_toplevel'', path_json git_tl)])
           else gm_ret ()))"

definition repo_identity :: "bytes \<Rightarrow> bytes \<Rightarrow> bytes \<Rightarrow> bytes" where
  "repo_identity tl_dir git_dir fmt =
     ''worktree='' @ display_path tl_dir @ '';gitdir='' @ display_path git_dir
       @ '';index='' @ display_path (path_push git_dir ''index'') @ '';object_format='' @ fmt"

definition resolve_repo_context :: "'w git_env \<Rightarrow> bytes option \<Rightarrow> nat \<Rightarrow> ('w, repo_context) gitm" where
  "resolve_repo_context E wd timeout =
     gm_bind (requested_dir E wd) (\<lambda>dir.
     gm_bind (find_toplevel E dir) (\<lambda>tl_dir.
     gm_bind (gm_look E (\<lambda>fs. build_repo_identity_snapshot (env_sha E) fs tl_dir)) (\<lambda>snap.
     gm_bind (confirm_toplevel E (display_path dir) tl_dir timeout) (\<lambda>_.
     gm_bind (probe_object_format E (display_path dir) timeout) (\<lambda>fmt.
     gm_bind (validate_unsupported_repository_feature_config E (display_path dir) timeout) (\<lambda>_.
     gm_bind (gm_look E (\<lambda>fs. map_err (\<lambda>_. unsupported_metadata [])
                (gf_canonicalize fs (path_push tl_dir ''.git'')))) (\<lambda>git_dir.
       gm_ret \<lparr> working_dir = display_path dir, toplevel = tl_dir,
                identity = repo_identity tl_dir git_dir fmt, stable_identity = snap \<rparr>)))))))"

definition revalidate :: "'w git_env \<Rightarrow> repo_context \<Rightarrow> ('w, unit) gitm" where
  "revalidate E repo = gm_look E (\<lambda>fs. revalidate_repo_identity (env_sha E) fs repo)"

section \<open>Reading a diff\<close>

definition scope_args :: "repo_context \<Rightarrow> hunk_scope \<Rightarrow> diff_args" where
  "scope_args repo sc = \<lparr> da_repo = repo, da_staged = sc_staged sc, da_context = sc_context sc,
     da_paths = sc_paths sc \<rparr>"

definition checked_diff_output :: "hunk_scope \<Rightarrow> git_exec \<Rightarrow> bytes result" where
  "checked_diff_output sc ex =
     (if timed_out ex then Inl (structured_error ''git_diff_timeout'' [(''timed_out'', JBool True)])
      else if \<not> success ex then
        Inl (structured_error ''git_diff_failed''
               [(''exit_code'', opt_int_json (exit_code ex)), (''stderr'', JStr (stderr_text ex))])
      else if truncated_stdout ex then
        Inl (structured_error ''diff_output_too_large''
               [(''truncated_stdout'', JBool True), (''max_bytes'', JNum (int (sc_max_bytes sc)))])
      else Inr (stdout_bytes ex))"

definition enumerate_diff :: "'w git_env \<Rightarrow> repo_context \<Rightarrow> hunk_scope \<Rightarrow> ('w, parsed_diff) gitm" where
  "enumerate_diff E repo sc =
     gm_bind (revalidate E repo) (\<lambda>_.
     gm_bind (gm_map_err (\<lambda>_. structured_error ''git_diff_unavailable'' [])
        (run_git E (Some (working_dir repo)) (build_hunk_diff_args sc) (sc_timeout_ms sc) (sc_max_bytes sc)
           DEFAULT_GIT_STDERR_BYTES)) (\<lambda>ex.
     gm_bind (gm_lift (checked_diff_output sc ex)) (\<lambda>out.
       gm_lift (parse_unified_diff (env_sha E) (scope_args repo sc) out))))"

section \<open>The handler of \<open>GitHunks\<close>\<close>

record git_hunks_request =
  gh_staged :: "bool option"
  gh_paths :: "bytes list option"
  gh_context :: "nat option"
  gh_max_bytes :: "nat option"
  gh_working_dir :: "bytes option"
  gh_timeout_ms :: "nat option"
  gh_templates :: "bool option"

definition or_else :: "'a option \<Rightarrow> 'a \<Rightarrow> 'a" where
  "or_else v d = (case v of Some x \<Rightarrow> x | None \<Rightarrow> d)"

definition handle_git_hunks :: "'w git_env \<Rightarrow> git_hunks_request \<Rightarrow> ('w, json) gitm" where
  "handle_git_hunks E req =
     gm_bind (gm_lift (validate_timeout (gh_timeout_ms req))) (\<lambda>timeout.
     gm_bind (gm_lift (validate_literal_paths (or_else (gh_paths req) []))) (\<lambda>paths.
       let sc = \<lparr> sc_staged = or_else (gh_staged req) False, sc_paths = paths,
                  sc_context = or_else (gh_context req) 3,
                  sc_max_bytes = clamp_bytes (gh_max_bytes req) DEFAULT_GIT_STDOUT_BYTES MAX_OUTPUT_BYTES,
                  sc_working_dir_arg = gh_working_dir req, sc_timeout_ms = timeout \<rparr> in
       gm_bind (resolve_repo_context E (gh_working_dir req) timeout) (\<lambda>repo.
       gm_bind (enumerate_diff E repo sc) (\<lambda>d.
         gm_ret (hunk_response d sc (gh_working_dir req) (gh_max_bytes req \<noteq> None)
                   (or_else (gh_templates req) False))))))"

section \<open>These programs only read\<close>

text \<open>The commands these programs run: nothing but \<open>rev-parse\<close>, \<open>config --bool --get\<close> and \<open>diff\<close>, never
  with anything on standard input.\<close>

definition asks :: "run_event \<Rightarrow> bool" where
  "asks ev \<longleftrightarrow> ch_stdin (fst ev) = None \<and>
     (hd (event_sub ev) = ''rev-parse''
      \<or> (\<exists>key. event_sub ev = [''config'', ''--bool'', ''--get'', key])
      \<or> (\<exists>sc. event_sub ev = build_hunk_diff_args sc))"

lemma asks_rev_parse [simp]:
  "ch_args c = build_git_args (''rev-parse'' # r) \<Longrightarrow> ch_stdin c = None \<Longrightarrow> asks (c, a)"
  by (simp add: asks_def)

lemma asks_config [simp]:
  "ch_args c = build_git_args [''config'', ''--bool'', ''--get'', key] \<Longrightarrow> ch_stdin c = None \<Longrightarrow> asks (c, a)"
  by (simp add: asks_def)

lemma asks_diff [simp]:
  "ch_args c = build_git_args (build_hunk_diff_args sc) \<Longrightarrow> ch_stdin c = None \<Longrightarrow> asks (c, a)"
  by (auto simp: asks_def)

lemma emits_asks_run:
  "(\<And>c a. ch_args c = build_git_args sub \<Longrightarrow> ch_stdin c = None \<Longrightarrow> asks (c, a))
   \<Longrightarrow> emits asks (run_git E wd sub timeout mo me)"
  by (rule emits_run_git) blast

lemma emits_probe_object_format [emits_intros]: "emits asks (probe_object_format E wd timeout)"
  unfolding probe_object_format_def by (intro emits_intros emits_asks_run) simp

lemma emits_bool_config [emits_intros]: "emits asks (repo_bool_config_enabled E wd timeout key)"
  unfolding repo_bool_config_enabled_def by (intro emits_intros emits_asks_run) simp

lemma emits_check_feature_keys [emits_intros]: "emits asks (check_feature_keys E wd timeout ks)"
proof (induction ks)
  case (Cons k r)
  then show ?case by (cases k) (auto intro!: emits_intros)
qed (simp add: emits_intros)

lemma emits_resolve_repo_context [emits_intros]: "emits asks (resolve_repo_context E wd timeout)"
  unfolding resolve_repo_context_def requested_dir_def find_toplevel_def confirm_toplevel_def
    validate_unsupported_repository_feature_config_def
  by (intro emits_intros emits_asks_run) simp

lemma emits_revalidate [emits_intros]: "emits P (revalidate E repo)"
  unfolding revalidate_def by (intro emits_intros)

lemma emits_enumerate_diff [emits_intros]: "emits asks (enumerate_diff E repo sc)"
  unfolding enumerate_diff_def by (intro emits_intros emits_asks_run) simp

lemma emits_handle_git_hunks: "emits asks (handle_git_hunks E req)"
  unfolding handle_git_hunks_def by (intro emits_intros)

end
