(* ===== verification/IndexProbe.thy ===== *)
theory IndexProbe
  imports GitRepo BlobApply
begin

text \<open>
  What the applying tools ask git about the index and how they answer, from
  \<^verbatim>\<open>git/handlers/apply.rs\<close> and \<^verbatim>\<open>git/types.rs\<close>: unmerged entries, trackedness, blobs, the index
  lock, the arguments of \<open>git apply\<close> and the reply built from the result of a command.
\<close>

section \<open>Reading git ls-files\<close>

text \<open>
  Reading \<open>git ls-files -s -v --debug -z\<close>, from \<^verbatim>\<open>git/handlers/apply.rs\<close>: the mode, object and stage
  of the index entries of some paths, and the flags that take an entry out of what the tools support.
\<close>

unbundle bit_operations_syntax

record index_preflight =
  ip_mode :: bytes
  ip_object :: bytes
  ip_stage :: bytes
  ip_skip_worktree :: bool
  ip_assume_unchanged :: bool
  ip_intent_to_add :: bool

definition known_modes :: "bytes list" where
  "known_modes = [''100644'', ''100755'', ''120000'', ''160000'']"

definition parse_entry_record :: "bytes \<Rightarrow> (bytes \<times> index_preflight) option" where
  "parse_entry_record rec =
     (if rec \<noteq> [] \<and> ascii_ws (hd rec) then None
      else
        case index_of TAB rec of
          None \<Rightarrow> None
        | Some tab \<Rightarrow>
            let meta = take tab rec; path = drop (tab + 1) rec in
            if \<not> utf8_valid meta \<or> \<not> utf8_valid path \<or> path = [] then None
            else
              (case split_whitespace meta of
                 [tag, mode, object_id, stage] \<Rightarrow>
                   if length tag \<noteq> 1 \<or> mode \<notin> set known_modes then None
                   else Some (path, \<lparr> ip_mode = mode, ip_object = object_id, ip_stage = stage,
                          ip_skip_worktree = (tag = ''S'' \<or> tag = ''s''),
                          ip_assume_unchanged = ascii_lower (hd tag), ip_intent_to_add = False \<rparr>)
               | _ \<Rightarrow> None))"

function find_entry_header :: "bytes \<Rightarrow> nat \<Rightarrow> nat option" where
  "find_entry_header chunk off =
     (if off < length chunk then
        if parse_entry_record (drop off chunk) \<noteq> None then Some off
        else
          (case index_of LF (drop off chunk) of
             None \<Rightarrow> None
           | Some r \<Rightarrow> find_entry_header chunk (off + (r + 1)))
      else None)"
  by pat_completeness auto
termination
  by (relation "measure (\<lambda>(chunk, off). length chunk - off)") auto

declare find_entry_header.simps [simp del]

definition parse_git_debug_flags :: "bytes \<Rightarrow> 32 word option" where
  "parse_git_debug_flags flags =
     (case split_whitespace flags of
        [] \<Rightarrow> None
      | token # _ \<Rightarrow>
          if token = ''0'' then Some 0
          else map_option of_nat (parse_unsigned 16 (2 ^ 32 - 1) token))"

fun first_flags :: "bytes list \<Rightarrow> 32 word option" where
  "first_flags [] = None"
| "first_flags (l # ls) =
     (case split_once ''flags:'' l of
        None \<Rightarrow> first_flags ls
      | Some (_, flags) \<Rightarrow>
          (case parse_git_debug_flags (trim_start flags) of Some w \<Rightarrow> Some w | None \<Rightarrow> first_flags ls))"

definition parse_git_debug_flags_bytes :: "bytes \<Rightarrow> 32 word option" where
  "parse_git_debug_flags_bytes dbg = (if utf8_valid dbg then first_flags (str_lines dbg) else None)"

definition with_flags :: "32 word option \<Rightarrow> index_preflight \<Rightarrow> index_preflight" where
  "with_flags fl e =
     (case fl of
        None \<Rightarrow> e
      | Some w \<Rightarrow> e\<lparr> ip_skip_worktree := ip_skip_worktree e \<or> w AND 0x40000000 \<noteq> 0,
                     ip_intent_to_add := ip_intent_to_add e \<or> w AND 0x20000000 \<noteq> 0,
                     ip_assume_unchanged := ip_assume_unchanged e \<or> w AND 0x8000 \<noteq> 0 \<rparr>)"

fun preflight_chunks ::
  "bytes list \<Rightarrow> (bytes \<times> index_preflight) option \<Rightarrow> (bytes \<times> index_preflight) list
   \<Rightarrow> (bytes \<times> index_preflight) list" where
  "preflight_chunks [] current found = found"
| "preflight_chunks (chunk # cs) current found =
     (let nxt = find_entry_header chunk 0;
          dbg = (case nxt of Some off \<Rightarrow> take off chunk | None \<Rightarrow> chunk);
          found1 = (case current of
                      Some (path, e) \<Rightarrow> AList.update path (with_flags (parse_git_debug_flags_bytes dbg) e) found
                    | None \<Rightarrow> found);
          current1 = (case nxt of Some off \<Rightarrow> parse_entry_record (drop off chunk) | None \<Rightarrow> None)
      in preflight_chunks cs current1 found1)"

definition parse_ls_files_preflight_stdout :: "bytes \<Rightarrow> (bytes \<times> index_preflight) list" where
  "parse_ls_files_preflight_stdout out =
     (case split_byte NUL out of
        [] \<Rightarrow> []
      | first # chunks \<Rightarrow> preflight_chunks chunks (parse_entry_record first) [])"

definition regular_stage0 :: "index_preflight \<Rightarrow> bool" where
  "regular_stage0 e \<longleftrightarrow> ip_stage e = ''0'' \<and> (ip_mode e = ''100644'' \<or> ip_mode e = ''100755'')"


section \<open>Replies\<close>

definition opt_str_json :: "bytes option \<Rightarrow> json" where
  "opt_str_json v = (case v of Some s \<Rightarrow> JStr s | None \<Rightarrow> JNull)"

definition base_git_response :: "git_exec \<Rightarrow> bytes \<Rightarrow> (bytes \<times> json) list" where
  "base_git_response ex txt =
     [(''content'', JArr [JObj [(''type'', JStr ''text''), (''text'', JStr txt)]]),
      (''isError'', JBool (\<not> success ex)), (''git_bin'', JStr ''git''),
      (''args'', JArr (map JStr (ge_args ex))), (''working_dir'', opt_str_json (ge_working_dir ex)),
      (''exit_code'', opt_int_json (exit_code ex)), (''timed_out'', JBool (timed_out ex)),
      (''truncated_stdout'', JBool (truncated_stdout ex)), (''truncated_stderr'', JBool (truncated_stderr ex)),
      (''stdout'', JStr (stdout_text ex)), (''stderr'', JStr (stderr_text ex))]"

definition insert_extra_fields :: "(bytes \<times> json) list \<Rightarrow> (bytes \<times> json) list \<Rightarrow> (bytes \<times> json) list" where
  "insert_extra_fields obj extra = foldl (\<lambda>o1 (k, v). AList.update k v o1) obj extra"

definition build_git_response_with_is_error :: "git_exec \<Rightarrow> bytes \<Rightarrow> bool \<Rightarrow> (bytes \<times> json) list \<Rightarrow> json" where
  "build_git_response_with_is_error ex txt is_error extra =
     JObj (insert_extra_fields (AList.update ''isError'' (JBool is_error) (base_git_response ex txt)) extra)"

definition git_response_text :: "git_exec \<Rightarrow> bytes" where
  "git_response_text ex =
     trim_end_crlf (if success ex \<or> trim (stderr_text ex) = [] then stdout_text ex else stderr_text ex)"

definition stage_failure_from_exec :: "bytes \<Rightarrow> bytes \<Rightarrow> git_exec \<Rightarrow> bytes \<Rightarrow> json" where
  "stage_failure_from_exec etype state ex msg =
     build_git_response_with_is_error ex msg True
       [(''error_type'', JStr etype), (''state'', JStr state), (''applied'', JBool False),
        (''checked'', JBool False), (''commit_ready'', JBool False),
        (''verification_state'', JStr ''verification_unavailable'')]"

section \<open>The arguments of \<open>git apply\<close>\<close>

datatype apply_target = TargetCached | TargetIndexWorktree | TargetWorktree

definition parse_target :: "bytes option \<Rightarrow> apply_target result" where
  "parse_target v =
     (let s = or_else v ''cached'' in
      if s = ''cached'' then Inr TargetCached
      else if s = ''index_worktree'' then Inr TargetIndexWorktree
      else if s = ''worktree'' then Inr TargetWorktree
      else Inl (invalid_request ''target''))"

fun target_as_str :: "apply_target \<Rightarrow> bytes" where
  "target_as_str TargetCached = ''cached''"
| "target_as_str TargetIndexWorktree = ''index_worktree''"
| "target_as_str TargetWorktree = ''worktree''"

definition writes_index :: "apply_target \<Rightarrow> bool" where
  "writes_index t \<longleftrightarrow> t = TargetCached \<or> t = TargetIndexWorktree"

record git_apply_args =
  ga_target :: apply_target
  ga_check_only :: bool
  ga_reverse :: bool
  ga_three_way :: bool
  ga_recount :: bool
  ga_unidiff_zero :: bool
  ga_whitespace :: bytes

definition build_git_apply_args :: "git_apply_args \<Rightarrow> bytes list" where
  "build_git_apply_args g =
     [''--no-optional-locks'', ''-c'', ''core.protectNTFS=true'', ''-c'', ''core.protectHFS=true'',
      ''-c'', ''apply.ignoreWhitespace=false'', ''apply'']
     @ (case ga_target g of TargetCached \<Rightarrow> [''--cached''] | TargetIndexWorktree \<Rightarrow> [''--index''] | TargetWorktree \<Rightarrow> [])
     @ (if ga_check_only g then [''--check''] else [])
     @ (if ga_reverse g then [''-R''] else [])
     @ (if ga_three_way g then [''--3way''] else [])
     @ (if ga_recount g then [''--recount''] else [])
     @ (if ga_unidiff_zero g then [''--unidiff-zero''] else [])
     @ [''--whitespace='' @ ga_whitespace g]"

section \<open>Unmerged entries\<close>

definition repo_identity_error_type :: "git_error \<Rightarrow> bytes" where
  "repo_identity_error_type e =
     (if error_type e = ''git_metadata_outside_authority'' then ''git_metadata_outside_authority''
      else ''repo_identity_changed'')"

definition index_has_unmerged_entries :: "'w git_env \<Rightarrow> repo_context \<Rightarrow> nat \<Rightarrow> ('w, bytes, bool) gm" where
  "index_has_unmerged_entries E repo timeout =
     gm_bind (gm_map_err repo_identity_error_type (revalidate E repo)) (\<lambda>_.
     gm_bind (gm_map_err (\<lambda>_. ''unmerged_index_probe_unavailable'')
        (run_git E (Some (working_dir repo)) [''ls-files'', ''-u''] timeout
           DEFAULT_GIT_STDOUT_BYTES DEFAULT_GIT_STDERR_BYTES)) (\<lambda>ex.
       if timed_out ex then gm_fail ''unmerged_index_probe_timeout''
       else if \<not> success ex then gm_fail ''unmerged_index_probe_failed''
       else gm_ret (trim (stdout_text ex) \<noteq> [])))"

definition ensure_unmerged_index_absent :: "'w git_env \<Rightarrow> repo_context \<Rightarrow> nat \<Rightarrow> ('w, unit) gitm" where
  "ensure_unmerged_index_absent E repo timeout =
     gm_bind (gm_map_err (\<lambda>t. structured_error t []) (index_has_unmerged_entries E repo timeout)) (\<lambda>unmerged.
       if unmerged then gm_fail (structured_error ''unmerged_index'' []) else gm_ret ())"

section \<open>Trackedness\<close>

definition ls_files_args :: "bytes list \<Rightarrow> bytes list" where
  "ls_files_args paths =
     [''--literal-pathspecs'', ''ls-files'', ''-s'', ''-v'', ''--debug'', ''-z'', ''--''] @ paths"

definition unsupported_record :: "(bytes \<times> json) list \<Rightarrow> git_error" where
  "unsupported_record extra = structured_error ''unsupported_patch_record'' extra"

definition path_set_error :: "bytes list \<Rightarrow> (bytes \<times> index_preflight) list \<Rightarrow> (bytes \<times> json) list" where
  \<comment> \<open>the returned paths come from a \<open>HashMap\<close>, in no particular order\<close>
  "path_set_error paths found =
     [(''requested_paths'', JArr (map JStr paths)), (''returned_paths'', JArr (map (JStr \<circ> fst) found))]"

fun check_tracked_paths :: "(bytes \<times> index_preflight) list \<Rightarrow> bytes list \<Rightarrow> unit result" where
  "check_tracked_paths found [] = Inr ()"
| "check_tracked_paths found (p # ps) =
     (case map_of found p of
        Some e \<Rightarrow>
          if ip_intent_to_add e then Inl (unsupported_record [(''path'', JStr p)])
          else if ip_skip_worktree e then Inl (unsupported_record [(''path'', JStr p)])
          else if ip_assume_unchanged e then Inl (unsupported_record [(''path'', JStr p)])
          else if regular_stage0 e then check_tracked_paths found ps
          else Inl (unsupported_record [(''path'', JStr p)])
      | None \<Rightarrow> Inl (unsupported_record [(''path'', JStr p)]))"

definition ensure_tracked_regular_files :: "'w git_env \<Rightarrow> repo_context \<Rightarrow> bytes list \<Rightarrow> nat \<Rightarrow> ('w, unit) gitm" where
  "ensure_tracked_regular_files E repo paths timeout =
     gm_bind (revalidate E repo) (\<lambda>_.
     gm_bind (gm_map_err (\<lambda>_. structured_error ''trackedness_preflight_unavailable'' [])
        (run_git E (Some (working_dir repo)) (ls_files_args paths) timeout
           DEFAULT_GIT_STDOUT_BYTES DEFAULT_GIT_STDERR_BYTES)) (\<lambda>ex.
       if timed_out ex then gm_fail (structured_error ''trackedness_preflight_timeout'' [])
       else if \<not> success ex then
         gm_fail (structured_error ''trackedness_preflight_failed'' [(''stderr'', JStr (stderr_text ex))])
       else
         let found = parse_ls_files_preflight_stdout (stdout_bytes ex) in
         if length found \<noteq> length paths then gm_fail (unsupported_record (path_set_error paths found))
         else gm_lift (check_tracked_paths found paths)))"

section \<open>Blobs of the index\<close>

definition verification_unavailable :: "(bytes \<times> json) list \<Rightarrow> git_error" where
  "verification_unavailable extra = structured_error ''verification_unavailable'' extra"

definition index_entries_for_paths ::
  "'w git_env \<Rightarrow> repo_context \<Rightarrow> bytes list \<Rightarrow> nat \<Rightarrow> ('w, (bytes \<times> index_preflight) list) gitm" where
  "index_entries_for_paths E repo paths timeout =
     gm_bind (revalidate E repo) (\<lambda>_.
     gm_bind (gm_map_err (\<lambda>_. verification_unavailable [])
        (run_git E (Some (working_dir repo)) (ls_files_args paths) timeout
           DEFAULT_GIT_STDOUT_BYTES DEFAULT_GIT_STDERR_BYTES)) (\<lambda>ex.
       if timed_out ex \<or> \<not> success ex then
         gm_fail (verification_unavailable [(''timed_out'', JBool (timed_out ex)),
           (''exit_code'', opt_int_json (exit_code ex)), (''stderr'', JStr (stderr_text ex))])
       else
         let found = parse_ls_files_preflight_stdout (stdout_bytes ex) in
         if length found \<noteq> length paths \<or> list_ex (\<lambda>p. map_of found p = None) paths
         then gm_fail (verification_unavailable (path_set_error paths found))
         else gm_ret found))"

definition read_index_blob :: "'w git_env \<Rightarrow> repo_context \<Rightarrow> bytes \<Rightarrow> index_preflight \<Rightarrow> nat \<Rightarrow> ('w, bytes) gitm" where
  "read_index_blob E repo p e timeout =
     (if \<not> regular_stage0 e then gm_fail (verification_unavailable [(''path'', JStr p)])
      else
        gm_bind (revalidate E repo) (\<lambda>_.
        gm_bind (gm_map_err (\<lambda>_. verification_unavailable [(''path'', JStr p)])
           (run_git E (Some (working_dir repo)) [''cat-file'', ''blob'', ip_object e] timeout
              MAX_OUTPUT_BYTES DEFAULT_GIT_STDERR_BYTES)) (\<lambda>ex.
          if timed_out ex \<or> \<not> success ex \<or> truncated_stdout ex then
            gm_fail (verification_unavailable [(''path'', JStr p), (''timed_out'', JBool (timed_out ex)),
              (''exit_code'', opt_int_json (exit_code ex)), (''truncated_stdout'', JBool (truncated_stdout ex))])
          else gm_ret (stdout_bytes ex))))"

fun read_index_blobs ::
  "'w git_env \<Rightarrow> repo_context \<Rightarrow> (bytes \<times> index_preflight) list \<Rightarrow> bytes list \<Rightarrow> nat
   \<Rightarrow> (bytes \<times> bytes) list \<Rightarrow> ('w, (bytes \<times> bytes) list) gitm" where
  "read_index_blobs E repo entries [] timeout blobs = gm_ret blobs"
| "read_index_blobs E repo entries (p # ps) timeout blobs =
     (case map_of entries p of
        None \<Rightarrow> gm_fail (verification_unavailable [(''path'', JStr p)])
      | Some e \<Rightarrow>
          gm_bind (read_index_blob E repo p e timeout) (\<lambda>b.
            read_index_blobs E repo entries ps timeout (AList.update p b blobs)))"

definition index_blobs_for_paths ::
  "'w git_env \<Rightarrow> repo_context \<Rightarrow> bytes list \<Rightarrow> nat \<Rightarrow> ('w, (bytes \<times> bytes) list) gitm" where
  "index_blobs_for_paths E repo paths timeout =
     gm_bind (index_entries_for_paths E repo paths timeout) (\<lambda>entries.
       read_index_blobs E repo entries paths timeout [])"

section \<open>The index lock\<close>

definition to_slashes :: "bytes \<Rightarrow> bytes" where
  "to_slashes s = map (\<lambda>c. if c = CHR 0x5C then SLASH else c) s"

definition stderr_mentions_path :: "bytes \<Rightarrow> bytes \<Rightarrow> bool" where
  "stderr_mentions_path err p \<longleftrightarrow>
     contains_sub (display_path p) err \<or> contains_sub (to_slashes (display_path p)) (to_slashes err)"

definition resolve_index_lock_path :: "'w git_env \<Rightarrow> repo_context \<Rightarrow> nat \<Rightarrow> ('w, unit, bytes) gm" where
  "resolve_index_lock_path E repo timeout =
     gm_bind (gm_map_err (\<lambda>_. ()) (run_git E (Some (working_dir repo))
        [''rev-parse'', ''--path-format=absolute'', ''--git-path'', ''index.lock''] timeout
        DEFAULT_GIT_STDOUT_BYTES DEFAULT_GIT_STDERR_BYTES)) (\<lambda>ex.
       if timed_out ex \<or> \<not> success ex then gm_fail ()
       else
         let p = trim_end_crlf (stdout_text ex) in
         if p = [] then gm_fail () else gm_ret p)"

definition apply_failed_on_index_lock :: "'w git_env \<Rightarrow> repo_context \<Rightarrow> git_exec \<Rightarrow> nat \<Rightarrow> ('w, git_error, bool) gm" where
  "apply_failed_on_index_lock E repo ex timeout =
     gm_case (resolve_index_lock_path E repo timeout) (\<lambda>_. gm_ret False)
       (\<lambda>lock. gm_look E (\<lambda>fs. Inr (\<not> isl (gf_stat fs lock) \<or> stderr_mentions_path (stderr_text ex) lock)))"

section \<open>All of these only read\<close>

text \<open>Besides the commands of \<open>GitRepo\<close>: \<open>ls-files\<close> and \<open>cat-file\<close>.\<close>

definition reads_only :: "run_event \<Rightarrow> bool" where
  "reads_only ev \<longleftrightarrow> asks ev \<or> (ch_stdin (fst ev) = None \<and>
     (event_sub ev = [''ls-files'', ''-u''] \<or> (\<exists>paths. event_sub ev = ls_files_args paths)
      \<or> (\<exists>obj. event_sub ev = [''cat-file'', ''blob'', obj])))"

lemma emits_reads_run:
  "(\<And>c a. ch_args c = build_git_args sub \<Longrightarrow> ch_stdin c = None \<Longrightarrow> reads_only (c, a))
   \<Longrightarrow> emits reads_only (run_git E wd sub timeout mo me)"
  by (rule emits_run_git) blast

lemma asks_reads_only: "asks ev \<Longrightarrow> reads_only ev"
  by (simp add: reads_only_def)

lemma emits_asks_reads: "emits asks m \<Longrightarrow> emits reads_only m"
  by (erule emits_weaken) (rule asks_reads_only)

lemmas emits_reads_repo [emits_intros] =
  emits_asks_reads[OF emits_resolve_repo_context] emits_asks_reads[OF emits_enumerate_diff]

lemma reads_only_commands [simp]:
  "ch_args c = build_git_args [''ls-files'', ''-u''] \<Longrightarrow> ch_stdin c = None \<Longrightarrow> reads_only (c, a)"
  "ch_args c = build_git_args (ls_files_args paths) \<Longrightarrow> ch_stdin c = None \<Longrightarrow> reads_only (c, a)"
  "ch_args c = build_git_args [''cat-file'', ''blob'', obj] \<Longrightarrow> ch_stdin c = None \<Longrightarrow> reads_only (c, a)"
  "ch_args c = build_git_args (''rev-parse'' # r) \<Longrightarrow> ch_stdin c = None \<Longrightarrow> reads_only (c, a)"
  by (auto simp: reads_only_def)

lemma emits_unmerged [emits_intros]:
  "emits reads_only (index_has_unmerged_entries E repo timeout)"
  "emits reads_only (ensure_unmerged_index_absent E repo timeout)"
  unfolding ensure_unmerged_index_absent_def index_has_unmerged_entries_def
  by (intro emits_intros emits_reads_run; simp)+

lemma emits_tracked [emits_intros]: "emits reads_only (ensure_tracked_regular_files E repo paths timeout)"
  unfolding ensure_tracked_regular_files_def by (intro emits_intros emits_reads_run) simp

lemma emits_entries [emits_intros]: "emits reads_only (index_entries_for_paths E repo paths timeout)"
  unfolding index_entries_for_paths_def by (intro emits_intros emits_reads_run) simp

lemma emits_read_blob [emits_intros]: "emits reads_only (read_index_blob E repo p e timeout)"
  unfolding read_index_blob_def by (intro emits_intros emits_reads_run) simp

lemma emits_read_blobs [emits_intros]: "emits reads_only (read_index_blobs E repo entries ps timeout blobs)"
  by (induction ps arbitrary: blobs) (auto intro!: emits_intros)

lemma emits_blobs [emits_intros]: "emits reads_only (index_blobs_for_paths E repo paths timeout)"
  unfolding index_blobs_for_paths_def by (intro emits_intros)

lemma emits_lock [emits_intros]: "emits reads_only (apply_failed_on_index_lock E repo ex timeout)"
  unfolding apply_failed_on_index_lock_def resolve_index_lock_path_def
  by (intro emits_intros emits_reads_run) simp


end
