(* ===== verification/HunkVerify.thy ===== *)
theory HunkVerify
  imports BlobApply "HOL-Library.Multiset" "HOL-Library.AList"
begin

text \<open>
  The count verification of \<open>GitStageHunks\<close>, from \<^verbatim>\<open>git/handlers/apply.rs\<close>: how often each hunk
  body occurs in the diffs before and after, and the inventory of files that must not change.  A
  \<open>BTreeMap\<close> of counts is an association list.
\<close>

section \<open>Counting\<close>

type_synonym counts = "(bytes \<times> nat) list"

definition count_get :: "counts \<Rightarrow> bytes \<Rightarrow> nat" where
  "count_get m k = (case map_of m k of Some n \<Rightarrow> n | None \<Rightarrow> 0)"

definition count_up :: "counts \<Rightarrow> bytes \<Rightarrow> counts" where
  \<comment> \<open>\<open>*counts.entry(key).or_default() += 1\<close>\<close>
  "count_up m k = AList.update k (count_get m k + 1) m"

definition count_all :: "bytes list \<Rightarrow> counts" where
  "count_all ks = foldl count_up [] ks"

definition same_map :: "('k \<times> 'v) list \<Rightarrow> ('k \<times> 'v) list \<Rightarrow> bool" where
  \<comment> \<open>equality of two maps\<close>
  "same_map a b \<longleftrightarrow> list_all (\<lambda>k. map_of a k = map_of b k) (map fst a @ map fst b)"

definition selection_keys :: "selection \<Rightarrow> bytes list" where
  "selection_keys sel = map (\<lambda>(f, h). hunk_body_key f h) sel"

definition file_keys :: "file_hunks \<Rightarrow> bytes list" where
  "file_keys f = map (hunk_body_key f) (fh_hunks f)"

definition diff_keys :: "parsed_diff \<Rightarrow> bytes list" where
  "diff_keys d = concat (map file_keys (pd_files d))"

definition body_counts_from_selected :: "selection \<Rightarrow> counts" where
  "body_counts_from_selected sel = count_all (selection_keys sel)"

definition body_counts_from_diff :: "parsed_diff \<Rightarrow> counts" where
  "body_counts_from_diff d = count_all (diff_keys d)"

section \<open>The checks\<close>

datatype stage_action = PrepareCommit | StageOnly | Unstage

definition parse_action :: "bytes option \<Rightarrow> stage_action result" where
  "parse_action v =
     (let s = (case v of Some s \<Rightarrow> s | None \<Rightarrow> ''prepare_commit'') in
      if s = ''prepare_commit'' then Inr PrepareCommit
      else if s = ''stage_only'' then Inr StageOnly
      else if s = ''unstage'' then Inr Unstage
      else Inl (invalid_request ''action''))"

fun action_as_str :: "stage_action \<Rightarrow> bytes" where
  "action_as_str PrepareCommit = ''prepare_commit''"
| "action_as_str StageOnly = ''stage_only''"
| "action_as_str Unstage = ''unstage''"

definition source_staged :: "stage_action \<Rightarrow> bool" where
  "source_staged a \<longleftrightarrow> a = Unstage"

definition target_staged :: "stage_action \<Rightarrow> bool" where
  "target_staged a \<longleftrightarrow> \<not> source_staged a"

definition delta_at :: "stage_action \<Rightarrow> nat \<Rightarrow> nat \<Rightarrow> nat \<Rightarrow> nat \<Rightarrow> nat \<Rightarrow> bool" where
  \<comment> \<open>one key: selected, before in source and target, after in source and target\<close>
  "delta_at a sel ps pt qs qt =
     (case checked_sub ps sel of
        None \<Rightarrow> False
      | Some expected_source \<Rightarrow>
          let expected_target = saturating_add pt sel in
          if qs \<noteq> expected_source \<or> qt \<noteq> expected_target then False
          else if a = Unstage then
            (case checked_sub ps sel of
               None \<Rightarrow> False
             | Some s2 \<Rightarrow> qs = s2 \<and> qt = saturating_add pt sel)
          else True)"

definition verify_scoped_count_delta ::
  "stage_action \<Rightarrow> counts \<Rightarrow> counts \<Rightarrow> counts \<Rightarrow> counts \<Rightarrow> counts \<Rightarrow> bool" where
  "verify_scoped_count_delta a sel ps pt qs qt \<longleftrightarrow>
     list_all (\<lambda>k. delta_at a (count_get sel k) (count_get ps k) (count_get pt k) (count_get qs k) (count_get qt k))
       (map fst sel @ map fst ps @ map fst pt @ map fst qs @ map fst qt)"

definition full_staged_diff_matches_selected_group :: "parsed_diff \<Rightarrow> counts \<Rightarrow> bool" where
  "full_staged_diff_matches_selected_group d sel \<longleftrightarrow>
     list_all (\<lambda>f. supported f \<and> fh_hunks f \<noteq> []) (pd_files d) \<and> same_map (body_counts_from_diff d) sel"

definition push_field :: "bytes \<Rightarrow> bytes \<Rightarrow> bytes" where
  "push_field label v = label @ ''='' @ nat_dec (length v) @ '':'' @ v @ [NUL]"

definition or_empty :: "bytes option \<Rightarrow> bytes" where
  "or_empty v = (case v of Some s \<Rightarrow> s | None \<Rightarrow> [])"

definition bool_text :: "bool \<Rightarrow> bytes" where
  "bool_text b = (if b then ''true'' else ''false'')"

definition hunk_fields :: "parsed_hunk \<Rightarrow> bytes" where
  "hunk_fields h = push_field ''hunk_id'' (h_id h) @ push_field ''hunk_header'' (h_header h)
     @ push_field ''hunk_body'' (h_body h)"

definition file_fields :: "file_hunks \<Rightarrow> bytes" where
  "file_fields f =
     push_field ''path'' (fh_path f) @ push_field ''old_path'' (or_empty (fh_old_path f))
     @ push_field ''status'' (status_as_str (fh_status f))
     @ push_field ''change_kinds'' (join_byte LF (change_kinds f))
     @ push_field ''binary'' (bool_text (fh_binary f)) @ push_field ''supported'' (bool_text (supported f))
     @ push_field ''unsupported_reason'' (or_empty (fh_unsupported_reason f))
     @ push_field ''diff_header'' (diff_header f)
     @ push_field ''old_file_header'' (or_empty (old_file_header f))
     @ push_field ''new_file_header'' (or_empty (new_file_header f))
     @ push_field ''extended_headers'' (join_byte LF (extended_headers f))"

definition file_inventory_signature :: "file_hunks \<Rightarrow> bytes" where
  "file_inventory_signature f = file_fields f @ concat (map hunk_fields (fh_hunks f))"

definition unselected_file_inventory_counts :: "parsed_diff \<Rightarrow> bytes list \<Rightarrow> counts" where
  "unselected_file_inventory_counts d paths =
     count_all (map file_inventory_signature (filter (\<lambda>f. fh_path f \<notin> set paths) (pd_files d)))"

definition unsupported_or_hunkless_file_counts :: "parsed_diff \<Rightarrow> counts" where
  "unsupported_or_hunkless_file_counts d =
     count_all (map file_inventory_signature (filter (\<lambda>f. \<not> supported f \<or> fh_hunks f = []) (pd_files d)))"

definition full_unstaged_diff_matches_prepare_commit_delta ::
  "parsed_diff \<Rightarrow> parsed_diff \<Rightarrow> counts \<Rightarrow> bytes list \<Rightarrow> bool" where
  "full_unstaged_diff_matches_prepare_commit_delta pre post sel paths =
     (if \<not> same_map (unselected_file_inventory_counts pre paths) (unselected_file_inventory_counts post paths)
      then False
      else if \<not> same_map (unsupported_or_hunkless_file_counts pre) (unsupported_or_hunkless_file_counts post)
      then False
      else
        let pc = body_counts_from_diff pre; qc = body_counts_from_diff post in
        list_all (\<lambda>k. checked_sub (count_get pc k) (count_get sel k) = Some (count_get qc k))
          (map fst sel @ map fst pc @ map fst qc))"

section \<open>Counts are multisets\<close>

text \<open>The contract of a map of counters, and what counting a list with it comes to.\<close>

locale counter =
  fixes none :: 'm and up :: "'m \<Rightarrow> 'k \<Rightarrow> 'm" and get :: "'m \<Rightarrow> 'k \<Rightarrow> nat"
  assumes get_none: "get none j = 0"
    and get_up: "get (up m k) j = get m j + (if j = k then 1 else 0)"
begin

lemma get_foldl: "get (foldl up m ks) j = get m j + count (mset ks) j"
  by (induction ks arbitrary: m) (simp_all add: get_up)

lemma get_all: "get (foldl up none ks) j = count (mset ks) j"
  by (simp add: get_foldl get_none)

end

interpretation ct: counter "[]" count_up count_get
  by unfold_locales (simp_all add: count_get_def count_up_def update_conv')

lemma count_get_all [simp]: "count_get (count_all ks) j = count (mset ks) j"
  unfolding count_all_def by (rule ct.get_all)

lemma map_of_up: "map_of (count_up m k) = (map_of m)(k \<mapsto> count_get m k + 1)"
  by (simp add: count_up_def update_conv')

lemma map_of_all_gen:
  "map_of (foldl count_up m ks) j = (if j \<in> set ks then Some (count_get m j + count (mset ks) j) else map_of m j)"
  by (induction ks arbitrary: m) (simp_all add: map_of_up ct.get_up)

lemma map_of_count_all: "map_of (count_all ks) j = (if j \<in> set ks then Some (count (mset ks) j) else None)"
  unfolding count_all_def map_of_all_gen by (simp add: count_get_def)

lemma keys_count_all: "set (map fst (count_all ks)) = set ks"
  using map_of_count_all[of ks] by (auto simp: set_eq_iff map_of_eq_None_iff[symmetric] split: if_splits)
    (metis domI dom_map_of_conv_image_fst image_eqI fst_conv option.distinct(1) map_of_eq_None_iff)+

lemma same_map_iff: "same_map a b \<longleftrightarrow> map_of a = map_of b"
proof
  assume "same_map a b"
  then have "map_of a k = map_of b k" for k
    by (cases "k \<in> fst ` set a \<union> fst ` set b")
      (auto simp: same_map_def list_all_iff, (metis map_of_eq_None_iff)+)
  then show "map_of a = map_of b" by blast
qed (simp add: same_map_def list_all_iff)

lemma same_map_count_all: "same_map (count_all xs) (count_all ys) \<longleftrightarrow> mset xs = mset ys"
proof
  assume "same_map (count_all xs) (count_all ys)"
  then have eq: "map_of (count_all xs) j = map_of (count_all ys) j" for j by (simp add: same_map_iff)
  have "count_get (count_all xs) j = count_get (count_all ys) j" for j unfolding count_get_def eq ..
  then show "mset xs = mset ys" by (intro multiset_eqI) simp
next
  assume eq: "mset xs = mset ys"
  then have "set xs = set ys" by (metis set_mset_mset)
  then show "same_map (count_all xs) (count_all ys)"
    unfolding same_map_iff using eq by (intro ext) (simp add: map_of_count_all)
qed

lemma count_notin: "k \<notin> set xs \<Longrightarrow> count (mset xs) k = 0"
  by (simp add: not_in_iff[symmetric])

lemma delta_at_iff:
  "pt + sel \<le> usize_max \<Longrightarrow> delta_at a sel ps pt qs qt \<longleftrightarrow> sel \<le> ps \<and> qs = ps - sel \<and> qt = pt + sel"
  by (auto simp: delta_at_def Let_def checked_sub_def split: option.splits)

lemma scoped_delta_iff:
  assumes "size (mset pt) + size (mset sel) \<le> usize_max"
  shows "verify_scoped_count_delta a (count_all sel) (count_all ps) (count_all pt) (count_all qs) (count_all qt)
    \<longleftrightarrow> mset sel \<subseteq># mset ps \<and> mset qs = mset ps - mset sel \<and> mset qt = mset pt + mset sel"
proof -
  let ?K = "set sel \<union> set ps \<union> set pt \<union> set qs \<union> set qt"
  let ?ok = "\<lambda>k. count (mset sel) k \<le> count (mset ps) k
      \<and> count (mset qs) k = count (mset ps) k - count (mset sel) k
      \<and> count (mset qt) k = count (mset pt) k + count (mset sel) k"
  have small: "count (mset pt) k + count (mset sel) k \<le> usize_max" for k
    using assms count_le_size[of "mset pt" k] count_le_size[of "mset sel" k] by linarith
  have keys: "set (map fst (count_all sel) @ map fst (count_all ps) @ map fst (count_all pt)
      @ map fst (count_all qs) @ map fst (count_all qt)) = ?K"
    using keys_count_all by auto
  have "verify_scoped_count_delta a (count_all sel) (count_all ps) (count_all pt) (count_all qs) (count_all qt)
      \<longleftrightarrow> (\<forall>k \<in> ?K. ?ok k)"
    unfolding verify_scoped_count_delta_def list_all_iff keys count_get_all
    using delta_at_iff[OF small] by simp
  also have "\<dots> \<longleftrightarrow> (\<forall>k. ?ok k)"
  proof -
    have "?ok k" if "k \<notin> ?K" for k using that by (simp add: count_notin)
    then show ?thesis by blast
  qed
  also have "\<dots> \<longleftrightarrow> mset sel \<subseteq># mset ps \<and> mset qs = mset ps - mset sel \<and> mset qt = mset pt + mset sel"
    by (auto simp: subseteq_mset_def multiset_eq_iff)
  finally show ?thesis .
qed

lemma unstaged_delta_iff:
  "list_all (\<lambda>k. checked_sub (count_get (count_all ps) k) (count_get (count_all sel) k) = Some (count_get (count_all qs) k))
     (map fst (count_all sel) @ map fst (count_all ps) @ map fst (count_all qs))
   \<longleftrightarrow> mset sel \<subseteq># mset ps \<and> mset qs = mset ps - mset sel"
proof -
  let ?ok = "\<lambda>k. count (mset sel) k \<le> count (mset ps) k \<and> count (mset qs) k = count (mset ps) k - count (mset sel) k"
  have "set (map fst (count_all sel) @ map fst (count_all ps) @ map fst (count_all qs))
      = set sel \<union> set ps \<union> set qs" using keys_count_all by auto
  then have "list_all (\<lambda>k. checked_sub (count_get (count_all ps) k) (count_get (count_all sel) k)
        = Some (count_get (count_all qs) k)) (map fst (count_all sel) @ map fst (count_all ps) @ map fst (count_all qs))
      \<longleftrightarrow> (\<forall>k \<in> set sel \<union> set ps \<union> set qs. ?ok k)"
    unfolding list_all_iff by (auto simp: checked_sub_def)
  also have "\<dots> \<longleftrightarrow> (\<forall>k. ?ok k)"
  proof -
    have "?ok k" if "k \<notin> set sel \<union> set ps \<union> set qs" for k using that by (simp add: count_notin)
    then show ?thesis by blast
  qed
  also have "\<dots> \<longleftrightarrow> mset sel \<subseteq># mset ps \<and> mset qs = mset ps - mset sel"
    by (auto simp: subseteq_mset_def multiset_eq_iff)
  finally show ?thesis .
qed

section \<open>A signature determines its parts\<close>

lemma cut_at:
  assumes "(c :: byte) \<notin> set a" "c \<notin> set b" "a @ c # x = b @ c # y"
  shows "a = b \<and> x = y"
proof -
  have "length a = length b"
    using index_of_append_notin[OF assms(1), of x] index_of_append_notin[OF assms(2), of y] assms(3) by simp
  then show ?thesis using assms(3) by simp
qed

lemma push_field_inj:
  assumes "push_field l v @ r = push_field l w @ s"
  shows "v = w \<and> r = s"
proof -
  have colon: "CHR '':'' \<notin> set (nat_dec n)" for n by (rule nat_dec_notin) (simp add: is_digit_def bval_def)
  from assms have eq: "nat_dec (length v) @ CHR '':'' # (v @ [NUL] @ r) = nat_dec (length w) @ CHR '':'' # (w @ [NUL] @ s)"
    by (simp add: push_field_def)
  have "nat_dec (length v) = nat_dec (length w) \<and> v @ [NUL] @ r = w @ [NUL] @ s"
    using cut_at[OF colon colon eq] by simp
  moreover from this have "length v = length w" using digits_val_nat_dec by (metis option.inject)
  ultimately show ?thesis by simp
qed

end
