(* ===== verification/StageHunks.thy ===== *)
theory StageHunks
  imports IndexProbe HunkVerify
begin

text \<open>
  The handler of \<open>GitStageHunks\<close>, from \<^verbatim>\<open>git/handlers/apply.rs\<close>: it checks the request against
  the present diff, rebuilds a patch from the selected hunks, lets \<open>git apply --check\<close> and then
  \<open>git apply\<close> run on the index, and verifies what became of it.  An outcome is a structured error or
  a payload built from the result of a command.
\<close>

section \<open>The request\<close>

record stage_request =
  sq_diff_id :: bytes
  sq_hunk_ids :: "bytes list"
  sq_action :: "bytes option"
  sq_context :: "nat option"
  sq_paths :: "bytes list option"
  sq_max_bytes :: "nat option"
  sq_working_dir :: "bytes option"
  sq_timeout_ms :: "nat option"
  sq_commit_type :: "bytes option"
  sq_commit_scope :: "bytes option"
  sq_commit_message :: "bytes option"

definition lower_hex :: "byte \<Rightarrow> bool" where
  "lower_hex b \<longleftrightarrow> hexdigit b \<and> \<not> ascii_upper b"

definition valid_diff_id :: "bytes \<Rightarrow> bool" where
  "valid_diff_id v \<longleftrightarrow> length v = 71 \<and> starts_with ''sha256:'' v \<and> list_all lower_hex (drop 7 v)"

definition parse_canonical_usize :: "bytes \<Rightarrow> nat option" where
  "parse_canonical_usize v =
     (if v = [] \<or> (length v > 1 \<and> starts_with ''0'' v) then None else parse_usize v)"

definition valid_hunk_id :: "bytes \<Rightarrow> bool" where
  "valid_hunk_id v \<longleftrightarrow>
     (case split_byte CHR ''.'' v of
        [file_idx, hunk_idx, hash] \<Rightarrow>
          length hash = 64 \<and> parse_canonical_usize file_idx \<noteq> None \<and> parse_canonical_usize hunk_idx \<noteq> None
          \<and> list_all lower_hex hash
      | _ \<Rightarrow> False)"

definition malformed_id :: "bytes \<Rightarrow> git_error" where
  "malformed_id i = structured_error ''malformed_hunk_ids'' [(''hunk_id'', JStr i)]"

fun check_hunk_ids :: "bytes list \<Rightarrow> bytes list \<Rightarrow> unit result" where
  "check_hunk_ids [] seen = Inr ()"
| "check_hunk_ids (i # is) seen =
     (if length i > 96 \<or> \<not> valid_hunk_id i then Inl (malformed_id i)
      else if i \<in> set seen then Inl (malformed_id i)
      else check_hunk_ids is (i # seen))"

definition validate_hunk_ids :: "bytes list \<Rightarrow> bytes list result" where
  "validate_hunk_ids is =
     (if is = [] then Inl (invalid_request ''hunk_ids'')
      else if length is > MAX_GIT_SELECTED_HUNKS then
        Inl (structured_error ''malformed_hunk_ids'' [(''max_hunk_ids'', JNum (int MAX_GIT_SELECTED_HUNKS))])
      else bindE (check_hunk_ids is []) (\<lambda>_. Inr is))"

section \<open>The selection\<close>

fun resolve_ids ::
  "(bytes \<Rightarrow> (file_hunks \<times> parsed_hunk) option) \<Rightarrow> bytes list \<Rightarrow> selection \<times> json list \<times> bytes list" where
  "resolve_ids lk [] = ([], [], [])"
| "resolve_ids lk (i # is) =
     (case resolve_ids lk is of
        (sel, uns, unk) \<Rightarrow>
          (case lk i of
             Some (f, h) \<Rightarrow>
               if supported f then ((f, h) # sel, uns, unk)
               else (sel, JObj [(''hunk_id'', JStr i), (''path'', JStr (fh_path f)),
                                (''unsupported_reason'', json_opt (fh_unsupported_reason f))] # uns, unk)
           | None \<Rightarrow> (sel, uns, i # unk)))"

definition selected_hunks :: "parsed_diff \<Rightarrow> bytes list \<Rightarrow> selection result" where
  "selected_hunks d is =
     (case resolve_ids (hunk_lookup d) is of
        (sel, uns, unk) \<Rightarrow>
          if uns \<noteq> [] then Inl (structured_error ''unsupported_hunk_ids'' [(''unsupported_hunk_ids'', JArr uns)])
          else if unk \<noteq> [] then
            Inl (structured_error ''unknown_hunk_ids'' [(''unknown_hunk_ids'', JArr (map JStr unk))])
          else Inr sel)"

definition supported_counts :: "parsed_diff \<Rightarrow> counts" where
  "supported_counts d = count_all (concat (map file_keys (filter supported (pd_files d))))"

definition reject_ambiguous_subset :: "parsed_diff \<Rightarrow> selection \<Rightarrow> unit result" where
  "reject_ambiguous_subset d sel =
     all_ok (\<lambda>(key, n).
       let total_count = count_get (supported_counts d) key in
       if total_count > n \<and> n \<noteq> total_count then Inl (structured_error ''ambiguous_hunk_ids'' []) else Inr ())
     (body_counts_from_selected sel)"

section \<open>The patch\<close>

definition file_patch :: "file_hunks \<Rightarrow> parsed_hunk list \<Rightarrow> bytes" where
  "file_patch f hs =
     diff_header f
     @ (case old_file_header f of Some h \<Rightarrow> h | None \<Rightarrow> ''--- a/'' @ fh_path f @ [LF])
     @ (case new_file_header f of Some h \<Rightarrow> h | None \<Rightarrow> ''+++ b/'' @ fh_path f @ [LF])
     @ concat (map (\<lambda>h. h_header h @ h_body h) hs)"

definition chosen_hunks :: "bytes list \<Rightarrow> file_hunks \<Rightarrow> parsed_hunk list" where
  "chosen_hunks ids f = filter (\<lambda>h. h_id h \<in> set ids) (fh_hunks f)"

fun patch_files :: "bytes list \<Rightarrow> file_hunks list \<Rightarrow> bytes result" where
  "patch_files ids [] = Inr []"
| "patch_files ids (f # fs) =
     (if chosen_hunks ids f = [] then patch_files ids fs
      else if \<not> supported f then
        Inl (structured_error ''unsupported_hunk_ids'' [(''path'', JStr (fh_path f))])
      else bindE (patch_files ids fs) (\<lambda>r. Inr (file_patch f (chosen_hunks ids f) @ r)))"

definition reconstruct_patch :: "parsed_diff \<Rightarrow> selection \<Rightarrow> bytes result" where
  "reconstruct_patch d sel =
     bindE (patch_files (map (h_id \<circ> snd) sel) (pd_files d)) (\<lambda>p.
       if p = [] then Inl (structured_error ''unknown_hunk_ids'' []) else Inr p)"

section \<open>Direction\<close>

definition direction_check_unavailable :: "git_error \<Rightarrow> git_error" where
  "direction_check_unavailable e =
     structured_error ''direction_check_unavailable''
       [(''cause_error_type'', JStr (error_type e)), (''cause'', error_json e)]"

definition touches_selected :: "bytes list \<Rightarrow> file_hunks \<Rightarrow> bool" where
  "touches_selected paths f \<longleftrightarrow> fh_path f \<in> set paths
     \<or> (case fh_old_path f of Some p \<Rightarrow> p \<in> set paths | None \<Rightarrow> False)"

definition reject_mixed_direction_files ::
  "'w git_env \<Rightarrow> repo_context \<Rightarrow> hunk_scope \<Rightarrow> selection \<Rightarrow> ('w, unit) gitm" where
  "reject_mixed_direction_files E repo sc sel =
     gm_bind (gm_map_err direction_check_unavailable
                (enumerate_diff E repo (sc\<lparr> sc_staged := \<not> sc_staged sc \<rparr>))) (\<lambda>opposite.
       gm_lift (all_ok (\<lambda>f. if touches_selected (selected_patch_paths sel) f
                            then Inl (structured_error ''mixed_direction_file'' [(''path'', JStr (fh_path f))])
                            else Inr ()) (pd_files opposite)))"

definition stale_fields :: "bytes \<Rightarrow> parsed_diff \<Rightarrow> (bytes \<times> json) list" where
  "stale_fields requested source =
     [(''source_diff_id'', JStr requested), (''current_diff_id'', JStr (pd_id source))]"

definition reject_stale_diff ::
  "'w git_env \<Rightarrow> repo_context \<Rightarrow> hunk_scope \<Rightarrow> bytes \<Rightarrow> parsed_diff \<Rightarrow> ('w, unit) gitm" where
  "reject_stale_diff E repo sc requested source =
     (if pd_id source = requested then gm_ret ()
      else
        gm_case (enumerate_diff E repo (sc\<lparr> sc_staged := \<not> sc_staged sc \<rparr>))
          (\<lambda>e. gm_fail (structured_error ''stale_diff'' (stale_fields requested source @
              [(''direction_check_unavailable'', JBool True), (''cause_error_type'', JStr (error_type e)),
               (''cause'', error_json e)])))
          (\<lambda>opposite.
             if pd_id opposite = requested then
               gm_fail (structured_error ''direction_mismatch'' [(''expected_staged'', JBool (sc_staged sc))])
             else gm_fail (structured_error ''stale_diff'' (stale_fields requested source))))"

section \<open>What is known before anything is applied\<close>

record stage_plan =
  pl_repo :: repo_context
  pl_action :: stage_action
  pl_scope :: hunk_scope
  pl_source :: parsed_diff
  pl_selected :: selection
  pl_pre_target :: parsed_diff
  pl_pre_full_unstaged :: "parsed_diff option"
  pl_patch :: bytes

definition require_clean_index :: "'w git_env \<Rightarrow> repo_context \<Rightarrow> hunk_scope \<Rightarrow> ('w, unit) gitm" where
  "require_clean_index E repo sc =
     gm_bind (enumerate_diff E repo (sc\<lparr> sc_staged := True, sc_paths := [] \<rparr>)) (\<lambda>full.
       if pd_files full = [] then gm_ret ()
       else gm_fail (structured_error ''index_not_clean'' [(''commit_ready'', JBool False)]))"

definition group_unavailable_before_apply :: "git_error \<Rightarrow> git_error" where
  "group_unavailable_before_apply e =
     structured_error ''commit_group_verification_unavailable''
       [(''state'', JStr ''failed''), (''applied'', JBool False), (''checked'', JBool False),
        (''commit_ready'', JBool False), (''verification_state'', JStr ''verification_unavailable''),
        (''cause_error_type'', JStr (error_type e)), (''cause'', error_json e)]"

definition baseline_unstaged ::
  "'w git_env \<Rightarrow> repo_context \<Rightarrow> stage_action \<Rightarrow> hunk_scope \<Rightarrow> parsed_diff \<Rightarrow> ('w, parsed_diff option) gitm" where
  "baseline_unstaged E repo a sc source =
     (if a = PrepareCommit then
        if \<not> sc_staged sc \<and> sc_paths sc = [] then gm_ret (Some source)
        else gm_bind (gm_map_err group_unavailable_before_apply
               (enumerate_diff E repo (sc\<lparr> sc_staged := False, sc_paths := [] \<rparr>))) (\<lambda>d. gm_ret (Some d))
      else gm_ret None)"

definition request_scope :: "stage_request \<Rightarrow> (stage_action \<times> hunk_scope \<times> bytes list) result" where
  "request_scope req =
     bindE (if valid_diff_id (sq_diff_id req) then Inr () else Inl (invalid_request ''diff_id'')) (\<lambda>_.
     bindE (validate_hunk_ids (sq_hunk_ids req)) (\<lambda>ids.
     bindE (parse_action (sq_action req)) (\<lambda>a.
     bindE (validate_timeout (sq_timeout_ms req)) (\<lambda>timeout.
     bindE (validate_literal_paths (or_else (sq_paths req) [])) (\<lambda>paths.
       Inr (a, \<lparr> sc_staged = source_staged a, sc_paths = paths, sc_context = or_else (sq_context req) 3,
                 sc_max_bytes = clamp_bytes (sq_max_bytes req) DEFAULT_GIT_STDOUT_BYTES MAX_OUTPUT_BYTES,
                 sc_working_dir_arg = sq_working_dir req, sc_timeout_ms = timeout \<rparr>, ids))))))"

definition plan_stage :: "'w git_env \<Rightarrow> stage_request \<Rightarrow> ('w, stage_plan) gitm" where
  "plan_stage E req =
     gm_bind (gm_lift (request_scope req)) (\<lambda>(a, sc, ids).
     gm_bind (resolve_repo_context E (sq_working_dir req) (sc_timeout_ms sc)) (\<lambda>repo.
     gm_bind (ensure_unmerged_index_absent E repo (sc_timeout_ms sc)) (\<lambda>_.
     gm_bind (enumerate_diff E repo sc) (\<lambda>source.
     gm_bind (reject_stale_diff E repo sc (sq_diff_id req) source) (\<lambda>_.
     gm_bind (gm_lift (selected_hunks source ids)) (\<lambda>sel.
     gm_bind (gm_lift (reject_ambiguous_subset source sel)) (\<lambda>_.
     gm_bind (ensure_tracked_regular_files E repo (selected_patch_paths sel) (sc_timeout_ms sc)) (\<lambda>_.
     gm_bind (if a = PrepareCommit then require_clean_index E repo sc else gm_ret ()) (\<lambda>_.
     gm_bind (reject_mixed_direction_files E repo sc sel) (\<lambda>_.
     gm_bind (enumerate_diff E repo (sc\<lparr> sc_staged := target_staged a \<rparr>)) (\<lambda>pre_target.
     gm_bind (baseline_unstaged E repo a sc source) (\<lambda>pre_full.
     gm_bind (gm_lift (reconstruct_patch source sel)) (\<lambda>patch.
       if length patch > MAX_GIT_STDIN_BYTES then
         gm_fail (structured_error ''diff_complexity_limit'' [(''max_bytes'', JNum (int MAX_GIT_STDIN_BYTES))])
       else gm_ret \<lparr> pl_repo = repo, pl_action = a, pl_scope = sc, pl_source = source, pl_selected = sel,
                     pl_pre_target = pre_target, pl_pre_full_unstaged = pre_full, pl_patch = patch \<rparr>)))))))))))))"

section \<open>Applying\<close>

definition cached_apply_args :: "bool \<Rightarrow> bool \<Rightarrow> bool \<Rightarrow> git_apply_args" where
  "cached_apply_args rv check_only unidiff_zero =
     \<lparr> ga_target = TargetCached, ga_check_only = check_only, ga_reverse = rv, ga_three_way = False,
       ga_recount = True, ga_unidiff_zero = unidiff_zero, ga_whitespace = ''nowarn'' \<rparr>"

definition run_cached_apply ::
  "'w git_env \<Rightarrow> repo_context \<Rightarrow> bytes \<Rightarrow> bool \<Rightarrow> bool \<Rightarrow> bool \<Rightarrow> nat \<Rightarrow> ('w, git_exec) gitm" where
  "run_cached_apply E repo patch rv check_only unidiff_zero timeout =
     gm_bind (revalidate E repo) (\<lambda>_.
       gm_map_err (\<lambda>_. structured_error (if check_only then ''preflight_unavailable'' else ''git_apply_unavailable'') [])
         (run_git_with_stdin E (Some (working_dir repo))
            (build_git_apply_args (cached_apply_args rv check_only unidiff_zero)) (Some patch) timeout
            DEFAULT_GIT_STDOUT_BYTES DEFAULT_GIT_STDERR_BYTES))"

datatype outcome = Structured git_error | Payload json

definition plan_apply :: "'w git_env \<Rightarrow> stage_plan \<Rightarrow> bool \<Rightarrow> ('w, outcome, git_exec) gm" where
  "plan_apply E pl check_only =
     gm_map_err Structured
       (run_cached_apply E (pl_repo pl) (pl_patch pl) (pl_action pl = Unstage) check_only
          (sc_context (pl_scope pl) = 0) (sc_timeout_ms (pl_scope pl)))"

definition preflight :: "'w git_env \<Rightarrow> stage_plan \<Rightarrow> ('w, outcome, unit) gm" where
  "preflight E pl =
     gm_bind (plan_apply E pl True) (\<lambda>ex.
       if timed_out ex then
         gm_fail (Payload (stage_failure_from_exec ''preflight_timeout'' ''failed'' ex ''git apply --check timed out''))
       else if fully_delivered (stdin_report ex) = Some False then
         gm_fail (Payload (stage_failure_from_exec ''preflight_stdin_write_failed'' ''failed'' ex
                    ''git apply --check stdin delivery failed''))
       else if \<not> success ex then
         gm_bind (gm_map_err Structured (apply_failed_on_index_lock E (pl_repo pl) ex (sc_timeout_ms (pl_scope pl)))) (\<lambda>locked.
           gm_fail (Payload (stage_failure_from_exec (if locked then ''index_locked'' else ''preflight_failed'')
                      ''failed'' ex ''git apply --check failed'')))
       else gm_ret ())"

definition capture_blobs :: "'w git_env \<Rightarrow> stage_plan \<Rightarrow> ('w, outcome, (bytes \<times> bytes) list) gm" where
  "capture_blobs E pl =
     gm_map_err (\<lambda>e. Structured
         (if error_type e \<in> {''repo_identity_changed'', ''git_metadata_outside_authority''} then e
          else structured_error ''preflight_unavailable''
                 [(''commit_ready'', JBool False), (''verification_state'', JStr ''verification_unavailable'')]))
       (index_blobs_for_paths E (pl_repo pl) (selected_patch_paths (pl_selected pl)) (sc_timeout_ms (pl_scope pl)))"

definition apply_patch :: "'w git_env \<Rightarrow> stage_plan \<Rightarrow> ('w, outcome, git_exec) gm" where
  "apply_patch E pl =
     gm_bind (plan_apply E pl False) (\<lambda>ex.
       if timed_out ex then
         gm_fail (Payload (stage_failure_from_exec ''apply_timeout'' ''state_unknown'' ex ''git apply timed out''))
       else if fully_delivered (stdin_report ex) = Some False \<and> success ex then
         gm_fail (Payload (stage_failure_from_exec ''stdin_write_failed'' ''state_unknown'' ex
                    ''git apply stdin delivery failed''))
       else if \<not> success ex then
         gm_bind (gm_map_err Structured (apply_failed_on_index_lock E (pl_repo pl) ex (sc_timeout_ms (pl_scope pl)))) (\<lambda>locked.
           gm_fail (Payload (stage_failure_from_exec (if locked then ''index_locked'' else ''git_apply_failed'')
                      (if locked then ''failed'' else ''state_unknown'') ex ''git apply failed'')))
       else gm_ret ex)"

section \<open>Verification\<close>

datatype verification_failure =
    ScopedUnavailable | ScopedMismatch | CommitGroupUnavailable | CommitGroupMismatch
  | RepoIdentityChanged | MetadataOutsideAuthority

record verification_success =
  vs_source_id :: bytes
  vs_target_id :: bytes
  vs_full_staged_id :: "bytes option"
  vs_full_unstaged_id :: "bytes option"

definition verification_failure_from_outcome :: "git_error \<Rightarrow> verification_failure" where
  "verification_failure_from_outcome e =
     (if error_type e = ''git_metadata_outside_authority'' then MetadataOutsideAuthority
      else if error_type e = ''repo_identity_changed'' then RepoIdentityChanged
      else ScopedUnavailable)"

definition group_failure :: "git_error \<Rightarrow> verification_failure" where
  "group_failure e =
     (if verification_failure_from_outcome e = ScopedUnavailable then CommitGroupUnavailable
      else verification_failure_from_outcome e)"

definition verify_index_blob_delta ::
  "'w git_env \<Rightarrow> repo_context \<Rightarrow> (bytes \<times> bytes) list \<Rightarrow> selection \<Rightarrow> stage_action \<Rightarrow> nat
   \<Rightarrow> ('w, verification_failure, bool) gm" where
  "verify_index_blob_delta E repo pre sel a timeout =
     gm_bind (gm_lift (map_err (\<lambda>_. ScopedMismatch) (expected_index_blobs_after_selected pre sel (a = Unstage)))) (\<lambda>expected.
     gm_bind (gm_map_err verification_failure_from_outcome
                (index_blobs_for_paths E repo (map fst expected) timeout)) (\<lambda>post.
       gm_ret (same_map post expected)))"

definition verify_commit_group ::
  "'w git_env \<Rightarrow> stage_plan \<Rightarrow> verification_success \<Rightarrow> ('w, verification_failure, verification_success) gm" where
  "verify_commit_group E pl vs =
     (let repo = pl_repo pl; sc = pl_scope pl; counts = body_counts_from_selected (pl_selected pl) in
      gm_bind (gm_map_err group_failure (enumerate_diff E repo (sc\<lparr> sc_staged := True, sc_paths := [] \<rparr>))) (\<lambda>full_staged.
      gm_bind (gm_map_err group_failure (enumerate_diff E repo (sc\<lparr> sc_staged := False, sc_paths := [] \<rparr>))) (\<lambda>full_unstaged.
        if \<not> full_staged_diff_matches_selected_group full_staged counts then gm_fail CommitGroupMismatch
        else case pl_pre_full_unstaged pl of
          None \<Rightarrow> gm_fail CommitGroupUnavailable
        | Some pre \<Rightarrow>
            if \<not> full_unstaged_diff_matches_prepare_commit_delta pre full_unstaged counts
                   (selected_patch_paths (pl_selected pl)) then gm_fail CommitGroupMismatch
            else gm_ret (vs\<lparr> vs_full_staged_id := Some (pd_id full_staged),
                             vs_full_unstaged_id := Some (pd_id full_unstaged) \<rparr>))))"

definition verify_after_apply ::
  "'w git_env \<Rightarrow> stage_plan \<Rightarrow> (bytes \<times> bytes) list \<Rightarrow> ('w, verification_failure, verification_success) gm" where
  "verify_after_apply E pl pre_blobs =
     (let repo = pl_repo pl; sc = pl_scope pl; a = pl_action pl; sel = pl_selected pl in
      gm_bind (gm_map_err verification_failure_from_outcome (enumerate_diff E repo sc)) (\<lambda>post_source.
      gm_bind (gm_map_err verification_failure_from_outcome
                 (enumerate_diff E repo (sc\<lparr> sc_staged := target_staged a \<rparr>))) (\<lambda>post_target.
        if \<not> verify_scoped_count_delta a (body_counts_from_selected sel) (body_counts_from_diff (pl_source pl))
               (body_counts_from_diff (pl_pre_target pl)) (body_counts_from_diff post_source)
               (body_counts_from_diff post_target) then gm_fail ScopedMismatch
        else
          gm_bind (verify_index_blob_delta E repo pre_blobs sel a (sc_timeout_ms sc)) (\<lambda>same.
            if \<not> same then gm_fail ScopedMismatch
            else
              let vs = \<lparr> vs_source_id = pd_id post_source, vs_target_id = pd_id post_target,
                         vs_full_staged_id = None, vs_full_unstaged_id = None \<rparr>
              in if a = PrepareCommit then verify_commit_group E pl vs else gm_ret vs))))"

section \<open>The reply\<close>

fun failure_state :: "verification_failure \<Rightarrow> bytes \<times> bytes" where
  \<comment> \<open>the verification state and the error type\<close>
  "failure_state ScopedUnavailable = (''verification_unavailable'', ''verification_unavailable'')"
| "failure_state ScopedMismatch = (''verification_mismatch'', ''verification_mismatch'')"
| "failure_state CommitGroupUnavailable = (''verification_unavailable'', ''commit_group_verification_unavailable'')"
| "failure_state CommitGroupMismatch = (''verification_mismatch'', ''commit_group_verification_mismatch'')"
| "failure_state RepoIdentityChanged = (''verification_unavailable'', ''repo_identity_changed'')"
| "failure_state MetadataOutsideAuthority = (''verification_unavailable'', ''git_metadata_outside_authority'')"

definition commit_call_template :: "stage_request \<Rightarrow> json" where
  "commit_call_template req = JObj
     [(''name'', JStr ''GitCommit''),
      (''arguments'', JObj
        ([(''type'', JStr (or_else (sq_commit_type req) ''<fill commit type>'')),
          (''message'', JStr (or_else (sq_commit_message req) ''<fill commit message>''))]
         @ (case sq_commit_scope req of Some s \<Rightarrow> [(''scope'', JStr s)] | None \<Rightarrow> [])
         @ (case sq_working_dir req of Some w \<Rightarrow> [(''working_dir'', JStr w)] | None \<Rightarrow> []))),
      (''placeholders'', JObj
        [(''type'', JBool (sq_commit_type req = None)), (''message'', JBool (sq_commit_message req = None)),
         (''scope'', JBool (sq_commit_scope req = None))])]"

definition success_fields :: "hunk_scope \<Rightarrow> verification_success \<Rightarrow> (bytes \<times> json) list" where
  "success_fields sc vs =
     [(''post_apply_source_diff_id'', JStr (vs_source_id vs)), (''post_apply_target_diff_id'', JStr (vs_target_id vs)),
      (''post_apply_staged_diff_id'', JStr (if sc_staged sc then vs_source_id vs else vs_target_id vs)),
      (''post_apply_unstaged_diff_id'', JStr (if sc_staged sc then vs_target_id vs else vs_source_id vs))]
     @ (case vs_full_staged_id vs of Some i \<Rightarrow> [(''post_apply_full_staged_diff_id'', JStr i)] | None \<Rightarrow> [])
     @ (case vs_full_unstaged_id vs of Some i \<Rightarrow> [(''post_apply_full_unstaged_diff_id'', JStr i)] | None \<Rightarrow> [])"

definition ready_fields :: "stage_request \<Rightarrow> verification_success option \<Rightarrow> (bytes \<times> json) list" where
  "ready_fields req vs =
     [(''full_index_clean_before'', JBool True), (''full_index_verified_after'', JBool True),
      (''pre_commit_verification'', JObj
        [(''full_index_clean_before'', JBool True), (''full_index_verified_after'', JBool True),
         (''post_apply_full_staged_diff_id'', json_opt (Option.bind vs vs_full_staged_id)),
         (''post_apply_full_unstaged_diff_id'', json_opt (Option.bind vs vs_full_unstaged_id))]),
      (''commit_call_template'', commit_call_template req)]"

definition stage_reply ::
  "stage_request \<Rightarrow> stage_plan \<Rightarrow> git_exec \<Rightarrow> verification_failure + verification_success \<Rightarrow> json" where
  "stage_reply req pl ex v =
     (let is_error = isl v;
          commit_ready = (\<not> is_error \<and> pl_action pl = PrepareCommit);
          vs = (case v of Inl _ \<Rightarrow> None | Inr s \<Rightarrow> Some s);
          ver_state = (case v of Inl f \<Rightarrow> fst (failure_state f) | Inr _ \<Rightarrow> ''verified'')
      in build_git_response_with_is_error ex
           (if commit_ready then ''selected hunks staged and ready for GitCommit''
            else if is_error then
              ''selected hunks were applied but verification did not prove the requested final state''
            else ''selected hunks applied'') is_error
           ([(''state'', JStr (if is_error then ''state_unknown'' else ''applied'')), (''applied'', JBool (\<not> is_error)),
             (''checked'', JBool False), (''action'', JStr (action_as_str (pl_action pl))),
             (''source_diff_id'', JStr (sq_diff_id req)), (''pre_apply_diff_id'', JStr (pd_id (pl_source pl))),
             (''requested_hunk_ids'', JArr (map JStr (sq_hunk_ids req))),
             (''applied_hunk_ids'', JArr (map (JStr \<circ> h_id \<circ> snd) (pl_selected pl))),
             (''applied_patch_bytes'', JNum (int (length (pl_patch pl)))),
             (''verification_state'', JStr ver_state), (''commit_ready'', JBool commit_ready)]
            @ (case vs of Some s \<Rightarrow> success_fields (pl_scope pl) s | None \<Rightarrow> [])
            @ (case v of Inl f \<Rightarrow> [(''error_type'', JStr (snd (failure_state f)))] | Inr _ \<Rightarrow> [])
            @ (if commit_ready then ready_fields req vs else [])))"

definition handle_git_stage_hunks :: "'w git_env \<Rightarrow> stage_request \<Rightarrow> ('w, outcome, json) gm" where
  "handle_git_stage_hunks E req =
     gm_bind (gm_map_err Structured (plan_stage E req)) (\<lambda>pl.
     gm_bind (preflight E pl) (\<lambda>_.
     gm_bind (capture_blobs E pl) (\<lambda>blobs.
     gm_bind (apply_patch E pl) (\<lambda>ex.
       gm_case (verify_after_apply E pl blobs)
         (\<lambda>f. gm_ret (stage_reply req pl ex (Inl f)))
         (\<lambda>vs. gm_ret (stage_reply req pl ex (Inr vs)))))))"

end
