(* ===== verification/StageTrace.thy ===== *)
theory StageTrace
  imports StageHunks
begin

text \<open>
  The commands \<open>GitStageHunks\<close> runs, as paths of a small state machine: it looks, lets git check the
  patch, looks again, applies the very patch that passed the check, and looks.  A rule for each way
  of composing programs carries this from the steps to the handler.
\<close>

section \<open>The state machine\<close>

text \<open>A command that hands a patch to \<open>git apply --cached\<close>.\<close>

definition apply_run :: "bytes \<Rightarrow> bool \<Rightarrow> bool \<Rightarrow> bool \<Rightarrow> run_event \<Rightarrow> bool" where
  "apply_run patch rv check_only uz ev \<longleftrightarrow>
     event_sub ev = build_git_apply_args (cached_apply_args rv check_only uz) \<and> ch_stdin (fst ev) = Some patch"

text \<open>Git took the whole input and reported success in time.\<close>

definition accepted :: "run_event \<Rightarrow> bool" where
  "accepted ev \<longleftrightarrow>
     (case snd ev of
        Inl _ \<Rightarrow> False
      | Inr rep \<Rightarrow>
          cr_status rep = Some 0 \<and> \<not> cr_timed_out rep
          \<and> (case ch_stdin (fst ev) of
               None \<Rightarrow> True
             | Some bs \<Rightarrow> sr_delivered (collect_stdin_with_grace (write_git_stdin (length bs) 0 0 (cr_writes rep)))))"

datatype phase =
    Examining                  \<comment> \<open>nothing but questions so far\<close>
  | Refused                    \<comment> \<open>git did not accept the patch\<close>
  | Cleared bytes bool bool    \<comment> \<open>git accepted this patch, in this direction, with this context mode\<close>
  | Touched run_event          \<comment> \<open>the index may have been written by this command\<close>

inductive protocol_step :: "phase \<Rightarrow> run_event \<Rightarrow> phase \<Rightarrow> bool" where
  look: "reads_only ev \<Longrightarrow> protocol_step p ev p"
| clear: "apply_run patch rv True uz ev \<Longrightarrow> accepted ev \<Longrightarrow> protocol_step Examining ev (Cleared patch rv uz)"
| refuse: "apply_run patch rv True uz ev \<Longrightarrow> \<not> accepted ev \<Longrightarrow> protocol_step Examining ev Refused"
| touch: "apply_run patch rv False uz ev \<Longrightarrow> protocol_step (Cleared patch rv uz) ev (Touched ev)"

inductive follows :: "phase \<Rightarrow> run_event list \<Rightarrow> phase \<Rightarrow> bool" where
  follows_Nil: "follows p [] p"
| follows_Cons: "protocol_step p ev q \<Longrightarrow> follows q t r \<Longrightarrow> follows p (ev # t) r"

inductive_cases touched_stepE: "protocol_step (Touched ev) e q"
inductive_cases refused_stepE: "protocol_step Refused e q"
inductive_cases cleared_stepE: "protocol_step (Cleared patch rv uz) e q"
inductive_cases examining_stepE: "protocol_step Examining e q"
inductive_simps follows_simps [simp]: "follows p [] q" "follows p (ev # t) q"

lemma follows_append: "follows p t q \<Longrightarrow> follows q u r \<Longrightarrow> follows p (t @ u) r"
  by (induction rule: follows.induct) auto

lemma follows_reads: "list_all reads_only t \<Longrightarrow> follows p t p"
  by (induction t) (auto intro: look)

section \<open>What the machine allows\<close>

lemma touched_stays: "follows p t q \<Longrightarrow> p = Touched ev \<Longrightarrow> q = Touched ev \<and> list_all reads_only t"
  by (induction rule: follows.induct) (auto elim: touched_stepE)

lemma refused_stays: "follows p t q \<Longrightarrow> p = Refused \<Longrightarrow> q = Refused \<and> list_all reads_only t"
  by (induction rule: follows.induct) (auto elim: refused_stepE)

lemma cleared_path:
  "follows p t q \<Longrightarrow> p = Cleared patch rv uz \<Longrightarrow>
     (q = p \<and> list_all reads_only t)
     \<or> (\<exists>t1 ev t2. t = t1 @ ev # t2 \<and> q = Touched ev \<and> apply_run patch rv False uz ev
          \<and> list_all reads_only t1 \<and> list_all reads_only t2)"
proof (induction rule: follows.induct)
  case (follows_Cons p e q t r)
  consider "reads_only e" "q = p" | "apply_run patch rv False uz e" "q = Touched e"
    using follows_Cons.hyps(1) unfolding follows_Cons.prems by (blast elim: cleared_stepE)
  then show ?case
  proof cases
    case 1
    show ?thesis using follows_Cons.IH[OF 1(2)[unfolded follows_Cons.prems]]
    proof (elim disjE exE conjE)
      assume "r = q" "list_all reads_only t"
      then show ?thesis using 1 by simp
    next
      fix t1 ev t2 assume "t = t1 @ ev # t2" "r = Touched ev" "apply_run patch rv False uz ev"
        "list_all reads_only t1" "list_all reads_only t2"
      then show ?thesis using 1 by (intro disjI2 exI[of _ "e # t1"] exI[of _ ev] exI[of _ t2]) simp
    qed
  next
    case 2
    with touched_stays[OF follows_Cons.hyps(2)] have "r = Touched e" "list_all reads_only t" by auto
    then show ?thesis using 2 by (intro disjI2 exI[of _ "[]"] exI[of _ e] exI[of _ t]) simp
  qed
qed simp

text \<open>A path that reaches the index went through an accepted check of the same patch.\<close>

definition checked_then_written :: "run_event list \<Rightarrow> run_event \<Rightarrow> bool" where
  "checked_then_written t ev \<longleftrightarrow>
     (\<exists>t1 c t2 t3 patch rv uz. t = t1 @ c # t2 @ ev # t3
       \<and> apply_run patch rv True uz c \<and> accepted c \<and> apply_run patch rv False uz ev
       \<and> list_all reads_only (t1 @ t2 @ t3))"

lemma checked_then_written_Cons: "reads_only e \<Longrightarrow> checked_then_written t ev \<Longrightarrow> checked_then_written (e # t) ev"
proof -
  assume e: "reads_only e" and "checked_then_written t ev"
  then obtain t1 c t2 t3 patch rv uz where t: "t = t1 @ c # t2 @ ev # t3"
      "apply_run patch rv True uz c" "accepted c" "apply_run patch rv False uz ev" "list_all reads_only (t1 @ t2 @ t3)"
    unfolding checked_then_written_def by blast
  then have "e # t = (e # t1) @ c # t2 @ ev # t3" "list_all reads_only ((e # t1) @ t2 @ t3)" using e by simp_all
  with t(2-4) show ?thesis unfolding checked_then_written_def by blast
qed

lemma touched_path: "follows p t q \<Longrightarrow> p = Examining \<Longrightarrow> q = Touched ev \<Longrightarrow> checked_then_written t ev"
proof (induction rule: follows.induct)
  case (follows_Cons p e q t r)
  consider "reads_only e" "q = Examining"
    | patch rv uz where "apply_run patch rv True uz e" "accepted e" "q = Cleared patch rv uz"
    | "q = Refused"
    using follows_Cons.hyps(1) unfolding follows_Cons.prems(1) by (blast elim: examining_stepE)
  then show ?case
  proof cases
    case 1
    then show ?thesis using follows_Cons by (auto intro: checked_then_written_Cons)
  next
    case (2 patch rv uz)
    with cleared_path[OF follows_Cons.hyps(2)] follows_Cons.prems(2) obtain t1 t2 where
      "t = t1 @ ev # t2" "apply_run patch rv False uz ev" "list_all reads_only t1" "list_all reads_only t2"
      by blast
    then have "e # t = [] @ e # t1 @ ev # t2" "list_all reads_only ([] @ t1 @ t2)" by simp_all
    with 2 \<open>apply_run patch rv False uz ev\<close> show ?thesis unfolding checked_then_written_def by blast
  next
    case 3
    then show ?thesis using refused_stays[OF follows_Cons.hyps(2)] follows_Cons.prems(2) by simp
  qed
qed simp

section \<open>Programs along the machine\<close>

definition drives :: "phase \<Rightarrow> ('w, 'e, 'a) gm \<Rightarrow> ('e + 'a \<Rightarrow> phase \<Rightarrow> bool) \<Rightarrow> bool" where
  "drives p m Q \<longleftrightarrow> does m (\<lambda>r t. \<exists>q. follows p t q \<and> Q r q)"

lemma drivesI:
  "(\<And>s. \<exists>t q. gs_trace (snd (m s)) = gs_trace s @ t \<and> follows p t q \<and> Q (fst (m s)) q) \<Longrightarrow> drives p m Q"
  unfolding drives_def does_def by blast

lemma drives_reads: "emits reads_only m \<Longrightarrow> (\<And>r. Q r p) \<Longrightarrow> drives p m Q"
  unfolding drives_def emits_def by (erule does_weaken) (blast intro: follows_reads)

lemma drives_ret: "Q (Inr x) p \<Longrightarrow> drives p (gm_ret x) Q"
  by (auto simp: drives_def intro: does_ret)

lemma drives_fail: "Q (Inl e) p \<Longrightarrow> drives p (gm_fail e) Q"
  by (auto simp: drives_def intro: does_fail)

lemma drives_case:
  assumes "drives p m R" "\<And>e q. R (Inl e) q \<Longrightarrow> drives q (g e) Q" "\<And>x q. R (Inr x) q \<Longrightarrow> drives q (f x) Q"
  shows "drives p (gm_case m g f) Q"
  unfolding drives_def
proof (rule does_case[OF assms(1)[unfolded drives_def]])
  fix e t assume "\<exists>q. follows p t q \<and> R (Inl e) q"
  then obtain q where "follows p t q" "drives q (g e) Q" using assms(2) by blast
  then show "does (g e) (\<lambda>r u. \<exists>q. follows p (t @ u) q \<and> Q r q)"
    unfolding drives_def by (blast intro: does_weaken follows_append)
next
  fix x t assume "\<exists>q. follows p t q \<and> R (Inr x) q"
  then obtain q where "follows p t q" "drives q (f x) Q" using assms(3) by blast
  then show "does (f x) (\<lambda>r u. \<exists>q. follows p (t @ u) q \<and> Q r q)"
    unfolding drives_def by (blast intro: does_weaken follows_append)
qed

lemma drives_bind:
  "drives p m R \<Longrightarrow> (\<And>e q. R (Inl e) q \<Longrightarrow> Q (Inl e) q) \<Longrightarrow> (\<And>x q. R (Inr x) q \<Longrightarrow> drives q (f x) Q)
   \<Longrightarrow> drives p (gm_bind m f) Q"
  unfolding gm_bind_def by (erule drives_case) (auto intro: drives_fail)

lemma drives_map_err:
  "drives p m R \<Longrightarrow> (\<And>e q. R (Inl e) q \<Longrightarrow> Q (Inl (h e)) q) \<Longrightarrow> (\<And>x q. R (Inr x) q \<Longrightarrow> Q (Inr x) q)
   \<Longrightarrow> drives p (gm_map_err h m) Q"
  unfolding gm_map_err_def by (erule drives_case) (auto intro: drives_fail drives_ret)

lemma drives_bind_reads:
  "emits reads_only m \<Longrightarrow> (\<And>e. Q (Inl e) p) \<Longrightarrow> (\<And>x. drives p (f x) Q) \<Longrightarrow> drives p (gm_bind m f) Q"
  by (rule drives_bind[where R = "\<lambda>_ q. q = p"]) (auto intro: drives_reads)

section \<open>Running a command with input\<close>

lemma run_git_with_stdin_events:
  assumes "run_git_with_stdin E wd sub inp timeout mo me s = (r, s')"
  shows "(isl r \<and> gs_trace s' = gs_trace s)
    \<or> (\<exists>c m. gs_trace s' = gs_trace s @ [(c, Inl m)] \<and> ch_args c = build_git_args sub \<and> ch_stdin c = inp \<and> isl r)
    \<or> (\<exists>c rep wd' mo' me'. gs_trace s' = gs_trace s @ [(c, Inr rep)] \<and> ch_args c = build_git_args sub
         \<and> ch_stdin c = inp \<and> r = Inr (exec_result (build_git_args sub) wd' inp mo' me' rep))"
  using assms
  by (auto simp: run_git_with_stdin_def gm_bind_def gm_case_def gm_look_def gm_spawn_def gm_ret_def gm_fail_def
      Let_def split: if_splits sum.splits prod.splits option.splits; blast)

lemma exec_accepted:
  assumes "ch_stdin c = inp" "ex = exec_result args wd inp mo me rep"
  shows "accepted (c, Inr rep) \<longleftrightarrow> success ex \<and> \<not> timed_out ex \<and> fully_delivered (stdin_report ex) \<noteq> Some False"
  using assms by (auto simp: accepted_def exec_result_def summary_none_def from_report_def split: option.splits prod.splits)

text \<open>What a check and an application make of the phase.\<close>

definition check_outcome :: "stage_plan \<Rightarrow> outcome + git_exec \<Rightarrow> phase \<Rightarrow> bool" where
  "check_outcome pl r q \<longleftrightarrow>
     (case r of
        Inl e \<Rightarrow> (\<exists>x. e = Structured x) \<and> q \<in> {Examining, Refused}
      | Inr ex \<Rightarrow>
          q = (if success ex \<and> \<not> timed_out ex \<and> fully_delivered (stdin_report ex) \<noteq> Some False
               then Cleared (pl_patch pl) (pl_action pl = Unstage) (sc_context (pl_scope pl) = 0) else Refused))"

definition apply_outcome :: "outcome + git_exec \<Rightarrow> phase \<Rightarrow> phase \<Rightarrow> bool" where
  "apply_outcome r p q \<longleftrightarrow>
     (case r of
        Inl e \<Rightarrow> (\<exists>x. e = Structured x) \<and> (q = p \<or> (\<exists>ev. q = Touched ev \<and> isl (snd ev)))
      | Inr ex \<Rightarrow> \<exists>ev. q = Touched ev \<and>
          (accepted ev \<longleftrightarrow> success ex \<and> \<not> timed_out ex \<and> fully_delivered (stdin_report ex) \<noteq> Some False))"

lemma plan_apply_run:
  assumes "plan_apply E pl chk s = (r, s')"
  shows "(\<exists>x. r = Inl (Structured x)) \<and> gs_trace s' = gs_trace s
    \<or> (\<exists>c a. gs_trace s' = gs_trace s @ [(c, a)]
         \<and> apply_run (pl_patch pl) (pl_action pl = Unstage) chk (sc_context (pl_scope pl) = 0) (c, a)
         \<and> (case a of Inl _ \<Rightarrow> \<exists>x. r = Inl (Structured x)
            | Inr rep \<Rightarrow> \<exists>ex. r = Inr ex \<and> (accepted (c, a) \<longleftrightarrow>
                success ex \<and> \<not> timed_out ex \<and> fully_delivered (stdin_report ex) \<noteq> Some False)))"
proof -
  let ?go = "run_git_with_stdin E (Some (working_dir (pl_repo pl)))
    (build_git_apply_args (cached_apply_args (pl_action pl = Unstage) chk (sc_context (pl_scope pl) = 0)))
    (Some (pl_patch pl)) (sc_timeout_ms (pl_scope pl)) DEFAULT_GIT_STDOUT_BYTES DEFAULT_GIT_STDERR_BYTES"
  obtain v s1 where v: "revalidate E (pl_repo pl) s = (v, s1)" by (cases "revalidate E (pl_repo pl) s")
  then have s1: "gs_trace s1 = gs_trace s"
    by (auto simp: revalidate_def gm_look_def Let_def)
  show ?thesis
  proof (cases v)
    case (Inl e)
    then show ?thesis using assms v s1
      by (auto simp: plan_apply_def run_cached_apply_def gm_bind_def gm_map_err_def gm_case_def gm_fail_def)
  next
    case (Inr u)
    obtain w s2 where w: "?go s1 = (w, s2)" by (cases "?go s1")
    have r: "r = map_err Structured (map_err (\<lambda>_. structured_error
            (if chk then ''preflight_unavailable'' else ''git_apply_unavailable'') []) w)" "s' = s2"
      using assms v w Inr
      by (auto simp: plan_apply_def run_cached_apply_def gm_bind_def gm_map_err_def gm_case_def gm_fail_def
          gm_ret_def split: sum.splits)
    from run_git_with_stdin_events[OF w] show ?thesis
    proof (elim disjE exE conjE)
      assume "isl w" "gs_trace s2 = gs_trace s1"
      then show ?thesis using r s1 by (cases w) auto
    next
      fix c m assume "gs_trace s2 = gs_trace s1 @ [(c, Inl m)]" "ch_stdin c = Some (pl_patch pl)" "isl w"
        "ch_args c = build_git_args (build_git_apply_args (cached_apply_args (pl_action pl = Unstage) chk
           (sc_context (pl_scope pl) = 0)))"
      then show ?thesis using r s1
        by (intro disjI2 exI[of _ c] exI[of _ "Inl m"]) (cases w; auto simp: apply_run_def)
    next
      fix c rep wd' mo' me'
      assume t: "gs_trace s2 = gs_trace s1 @ [(c, Inr rep)]" and c: "ch_stdin c = Some (pl_patch pl)"
        "ch_args c = build_git_args (build_git_apply_args (cached_apply_args (pl_action pl = Unstage) chk
           (sc_context (pl_scope pl) = 0)))"
        and w: "w = Inr (exec_result (build_git_args (build_git_apply_args (cached_apply_args (pl_action pl = Unstage)
              chk (sc_context (pl_scope pl) = 0)))) wd' (Some (pl_patch pl)) mo' me' rep)"
      show ?thesis using r s1 t c exec_accepted[OF c(1) refl]
        by (intro disjI2 exI[of _ c] exI[of _ "Inr rep"]) (simp add: w apply_run_def)
    qed
  qed
qed

lemma drives_check: "drives Examining (plan_apply E pl True) (check_outcome pl)"
proof (rule drivesI)
  fix s
  obtain r s' where m: "plan_apply E pl True s = (r, s')" by (cases "plan_apply E pl True s")
  from plan_apply_run[OF m] show "\<exists>t q. gs_trace (snd (plan_apply E pl True s)) = gs_trace s @ t
      \<and> follows Examining t q \<and> check_outcome pl (fst (plan_apply E pl True s)) q"
  proof (elim disjE exE conjE)
    fix x assume "r = Inl (Structured x)" "gs_trace s' = gs_trace s"
    then show ?thesis using m by (intro exI[of _ "[]"] exI[of _ Examining]) (simp add: check_outcome_def)
  next
    fix c a
    assume t: "gs_trace s' = gs_trace s @ [(c, a)]"
      and run: "apply_run (pl_patch pl) (pl_action pl = Unstage) True (sc_context (pl_scope pl) = 0) (c, a)"
      and a: "case a of Inl _ \<Rightarrow> \<exists>x. r = Inl (Structured x)
            | Inr rep \<Rightarrow> \<exists>ex. r = Inr ex \<and> (accepted (c, a) \<longleftrightarrow>
                success ex \<and> \<not> timed_out ex \<and> fully_delivered (stdin_report ex) \<noteq> Some False)"
    show ?thesis
    proof (cases "accepted (c, a)")
      case True
      then obtain ex where "r = Inr ex" "success ex \<and> \<not> timed_out ex \<and> fully_delivered (stdin_report ex) \<noteq> Some False"
        using a by (cases a) (auto simp: accepted_def)
      then show ?thesis using t m clear[OF run True]
        by (intro exI[of _ "[(c, a)]"]) (auto simp: check_outcome_def)
    next
      case False
      then show ?thesis using t m refuse[OF run False] a
        by (intro exI[of _ "[(c, a)]"] exI[of _ Refused]) (cases a; auto simp: check_outcome_def)
    qed
  qed
qed

lemma drives_apply:
  assumes "p = Cleared (pl_patch pl) (pl_action pl = Unstage) (sc_context (pl_scope pl) = 0)"
  shows "drives p (plan_apply E pl False) (\<lambda>r q. apply_outcome r p q)"
proof (rule drivesI)
  fix s
  obtain r s' where m: "plan_apply E pl False s = (r, s')" by (cases "plan_apply E pl False s")
  from plan_apply_run[OF m] show "\<exists>t q. gs_trace (snd (plan_apply E pl False s)) = gs_trace s @ t
      \<and> follows p t q \<and> apply_outcome (fst (plan_apply E pl False s)) p q"
  proof (elim disjE exE conjE)
    fix x assume "r = Inl (Structured x)" "gs_trace s' = gs_trace s"
    then show ?thesis using m by (intro exI[of _ "[]"] exI[of _ p]) (simp add: apply_outcome_def)
  next
    fix c a
    assume t: "gs_trace s' = gs_trace s @ [(c, a)]"
      and run: "apply_run (pl_patch pl) (pl_action pl = Unstage) False (sc_context (pl_scope pl) = 0) (c, a)"
      and a: "case a of Inl _ \<Rightarrow> \<exists>x. r = Inl (Structured x)
            | Inr rep \<Rightarrow> \<exists>ex. r = Inr ex \<and> (accepted (c, a) \<longleftrightarrow>
                success ex \<and> \<not> timed_out ex \<and> fully_delivered (stdin_report ex) \<noteq> Some False)"
    show ?thesis using t m touch[OF run] a assms
      by (intro exI[of _ "[(c, a)]"] exI[of _ "Touched (c, a)"]) (cases a; auto simp: apply_outcome_def)
  qed
qed

end
