(* ===== verification/DiffLines.thy ===== *)
theory DiffLines
  imports DiffRecord FileModel
begin

text \<open>
  The lemmas on the parts of the diff parser: its line splitter against the reference splitter of
  \<open>FileModel\<close>, the quoting of paths against git's own quoting, and ranges and hunk headers against
  their printed form.
\<close>

section \<open>Lines\<close>

definition text_lines :: "bytes \<Rightarrow> bytes list" where
  "text_lines t = map (\<lambda>(c, k). c @ nl_bytes k) (lines_of t)"

lemma lines_of_prefix:
  assumes "\<forall>b \<in> set mid. \<not> is_nl b" "newline_at r = (k, rest)" "r = [] \<or> is_nl (hd r)" "mid @ r \<noteq> []"
  shows "lines_of (mid @ r) = (mid, k) # lines_of rest"
proof -
  have "takeWhile (\<lambda>b. \<not> is_nl b) (mid @ r) = mid" "dropWhile (\<lambda>b. \<not> is_nl b) (mid @ r) = r"
    using assms(1,3) by (cases r; simp add: takeWhile_append2 dropWhile_append2)+
  then show ?thesis using assms(2,4) by (subst lines_of.simps) simp
qed

lemma text_lines_LF:
  "\<forall>b \<in> set mid. \<not> is_nl b \<Longrightarrow> text_lines (mid @ LF # r) = (mid @ [LF]) # text_lines r"
  using lines_of_prefix[of mid "LF # r" NkLf r] by (simp add: text_lines_def nl_bytes_def is_nl_def)

lemma text_lines_CRLF:
  "\<forall>b \<in> set mid. \<not> is_nl b \<Longrightarrow> text_lines (mid @ CR # LF # r) = (mid @ [CR, LF]) # text_lines r"
  using lines_of_prefix[of mid "CR # LF # r" NkCrLf r] by (simp add: text_lines_def nl_bytes_def is_nl_def)

lemma text_lines_CR:
  "\<forall>b \<in> set mid. \<not> is_nl b \<Longrightarrow> r = [] \<or> hd r \<noteq> LF \<Longrightarrow>
   text_lines (mid @ CR # r) = (mid @ [CR]) # text_lines r"
  using lines_of_prefix[of mid "CR # r" NkCr r]
  by (cases r) (simp_all add: text_lines_def nl_bytes_def is_nl_def)

lemma text_lines_rest: "\<forall>b \<in> set mid. \<not> is_nl b \<Longrightarrow> mid \<noteq> [] \<Longrightarrow> text_lines mid = [mid]"
  using lines_of_prefix[of mid "[]" NkNone "[]"] by (simp add: text_lines_def nl_bytes_def)

lemma text_lines_Nil [simp]: "text_lines [] = []"
  by (simp add: text_lines_def)

lemma concat_text_lines: "concat (text_lines t) = t"
  using concat_lines_of[of t] by (simp add: text_lines_def)

lemma drop_at: "i < length t \<Longrightarrow> drop i t = t ! i # drop (Suc i) t"
  by (simp add: Cons_nth_drop_Suc)

lemma keep_endings_loop_eq:
  assumes "start \<le> idx" "idx \<le> length t" "\<forall>b \<in> set (take (idx - start) (drop start t)). \<not> is_nl b"
  shows "keep_endings_loop t idx start acc = acc @ text_lines (drop start t)"
  using assms
proof (induction t idx start acc rule: keep_endings_loop.induct)
  case (1 t idx start acc)
  let ?mid = "take (idx - start) (drop start t)"
  have split: "drop start t = ?mid @ drop idx t"
    using "1.prems"(1,2) by (metis append_take_drop_id drop_drop le_add_diff_inverse2)
  show ?case
  proof (cases "idx < length t")
    case False
    then have "drop start t = ?mid" using split by simp
    then show ?thesis using False "1.prems" text_lines_rest[of ?mid]
      by (subst keep_endings_loop.simps) auto
  next
    case True
    note at = drop_at[OF True]
    have seg: "take (idx + n - start) (drop start t) = ?mid @ take n (drop idx t)" for n
      using "1.prems"(1) split take_add_drop[of "idx - start" n "drop start t"]
      by (simp add: add.commute)
    consider (lf) "t ! idx = LF" | (crlf) "t ! idx = CR" "idx + 1 < length t" "t ! (idx + 1) = LF"
      | (cr) "t ! idx = CR" "\<not> (idx + 1 < length t \<and> t ! (idx + 1) = LF)"
      | (other) "\<not> is_nl (t ! idx)"
      by (auto simp: is_nl_def)
    then show ?thesis
    proof cases
      case lf
      then have "drop start t = ?mid @ LF # drop (idx + 1) t" using split at by simp
      then have "text_lines (drop start t) = (?mid @ [LF]) # text_lines (drop (idx + 1) t)"
        using text_lines_LF[OF "1.prems"(3)] by metis
      then show ?thesis
        using 1(1)[OF True lf] True lf seg[of 1] at
        by (subst keep_endings_loop.simps) simp
    next
      case crlf
      have "drop (Suc idx) t = LF # drop (idx + 2) t" using drop_at[of "Suc idx" t] crlf by simp
      then have "drop start t = ?mid @ CR # LF # drop (idx + 2) t" and t2: "take 2 (drop idx t) = [CR, LF]"
        using split at crlf(1) by (simp_all add: numeral_2_eq_2)
      then have "text_lines (drop start t) = (?mid @ [CR, LF]) # text_lines (drop (idx + 2) t)"
        using text_lines_CRLF[OF "1.prems"(3)] by metis
      moreover have "keep_endings_loop t idx start acc
          = keep_endings_loop t (idx + 2) (idx + 2) (acc @ [take (idx + 2 - start) (drop start t)])"
        using True crlf by (subst keep_endings_loop.simps) simp
      moreover have "take (idx + 2 - start) (drop start t) = ?mid @ [CR, LF]"
        using seg[of 2] unfolding t2 .
      moreover have "keep_endings_loop t (idx + 2) (idx + 2) (acc @ [take (idx + 2 - start) (drop start t)])
          = (acc @ [take (idx + 2 - start) (drop start t)]) @ text_lines (drop (idx + 2) t)"
        by (rule 1(2)[OF True]) (use crlf in simp_all)
      ultimately show ?thesis by simp
    next
      case cr
      have "drop start t = ?mid @ CR # drop (idx + 1) t" using split at cr(1) by simp
      moreover have "drop (idx + 1) t = [] \<or> hd (drop (idx + 1) t) \<noteq> LF"
        using cr(2) by (cases "idx + 1 < length t") (simp_all add: hd_drop_conv_nth)
      ultimately have "text_lines (drop start t) = (?mid @ [CR]) # text_lines (drop (idx + 1) t)"
        using text_lines_CR[OF "1.prems"(3)] by metis
      moreover have "keep_endings_loop t idx start acc
          = keep_endings_loop t (idx + 1) (idx + 1) (acc @ [take (idx + 1 - start) (drop start t)])"
        using True cr by (subst keep_endings_loop.simps) auto
      moreover have "take (idx + 1 - start) (drop start t) = ?mid @ [CR]"
        using seg[of 1] at cr(1) by simp
      moreover have "keep_endings_loop t (idx + 1) (idx + 1) (acc @ [take (idx + 1 - start) (drop start t)])
          = (acc @ [take (idx + 1 - start) (drop start t)]) @ text_lines (drop (idx + 1) t)"
        by (rule 1(2)[OF True]) (use True cr in auto)
      ultimately show ?thesis by simp
    next
      case other
      then have ne: "t ! idx \<noteq> LF" "t ! idx \<noteq> CR" by (auto simp: is_nl_def)
      have "\<forall>b \<in> set (take (idx + 1 - start) (drop start t)). \<not> is_nl b"
        using "1.prems"(3) other at by (subst seg) auto
      then show ?thesis
        using 1(3)[OF True ne] True ne "1.prems" by (subst keep_endings_loop.simps) simp
    qed
  qed
qed

lemma split_lines_keep_endings_eq: "split_lines_keep_endings t = text_lines t"
  using keep_endings_loop_eq[of 0 0 t "[]"] by (simp add: split_lines_keep_endings_def)

section \<open>Quoted paths\<close>

definition octal3 :: "nat \<Rightarrow> bytes" where
  "octal3 n = [byte_of (48 + n div 64), byte_of (48 + n div 8 mod 8), byte_of (48 + n mod 8)]"

lemma octal3_nonempty: "octal3 n \<noteq> []"
  by (simp add: octal3_def)

text \<open>What git prints for a byte of a path (\<open>core.quotePath=true\<close>).\<close>

definition quote_byte :: "byte \<Rightarrow> bytes" where
  "quote_byte b =
     (if b = QUOTE \<or> b = BACKSLASH then [BACKSLASH, b]
      else if bval b = 7 then [BACKSLASH, CHR ''a'']
      else if bval b = 8 then [BACKSLASH, CHR ''b'']
      else if bval b = 9 then [BACKSLASH, CHR ''t'']
      else if bval b = 10 then [BACKSLASH, CHR ''n'']
      else if bval b = 11 then [BACKSLASH, CHR ''v'']
      else if bval b = 12 then [BACKSLASH, CHR ''f'']
      else if bval b = 13 then [BACKSLASH, CHR ''r'']
      else if bval b < 32 \<or> 127 \<le> bval b then BACKSLASH # octal3 (bval b)
      else [b])"

definition c_quote :: "bytes \<Rightarrow> bytes" where
  "c_quote s = QUOTE # concat (map quote_byte s) @ [QUOTE]"

lemma quoted_plain:
  "b \<noteq> QUOTE \<Longrightarrow> b \<noteq> BACKSLASH \<Longrightarrow>
   quoted_loop (pre @ b # post) (length pre) out = quoted_loop (pre @ b # post) (length pre + 1) (out @ [b])"
  by (subst quoted_loop.simps) simp

lemma quoted_escape:
  "\<not> is_octal c \<Longrightarrow>
   quoted_loop (pre @ BACKSLASH # c # post) (length pre) out
     = quoted_loop (pre @ BACKSLASH # c # post) (length pre + 2) (out @ [escape_byte c])"
  by (subst quoted_loop.simps) (simp add: nth_append)

lemma quoted_octal:
  assumes "n < 256"
  shows "quoted_loop (pre @ BACKSLASH # octal3 n @ post) (length pre) out
    = quoted_loop (pre @ BACKSLASH # octal3 n @ post) (Suc (Suc (Suc (Suc (length pre))))) (out @ [byte_of n])"
proof -
  let ?bs = "pre @ BACKSLASH # octal3 n @ post"
  have d: "n div 64 < 4" "n div 8 mod 8 < 8" "n mod 8 < 8" using assms by auto
  have oct: "is_octal (byte_of (48 + k)) \<and> bval (byte_of (48 + k)) - 48 = k" if "k < 8" for k
    using that by (simp add: is_octal_def is_digit_def)
  have at: "?bs ! length pre = BACKSLASH" "?bs ! (length pre + 1) = byte_of (48 + n div 64)"
      "?bs ! (length pre + 1 + 1) = byte_of (48 + n div 8 mod 8)"
      "?bs ! (length pre + 1 + 1 + 1) = byte_of (48 + n mod 8)"
    by (simp_all add: octal3_def nth_append)
  have len: "length pre + 1 + 1 + 1 < length ?bs" by (simp add: octal3_def)
  have val: "(n div 64 * 8 + n div 8 mod 8) * 8 + n mod 8 = n"
  proof -
    have "n div 64 = n div 8 div 8" by (simp add: div_mult2_eq[symmetric])
    then have "n div 64 * 8 + n div 8 mod 8 = n div 8" by simp
    then show ?thesis by simp
  qed
  have "octal_more ?bs (length pre + 1) (n div 64) (Suc (Suc 0)) = (n, length pre + 1 + 1 + 1)"
    unfolding octal_more.simps
    using len at(3,4) oct[OF d(2)] oct[OF d(3)] val by simp
  then have more: "octal_more ?bs (length pre + 1) (bval (?bs ! (length pre + 1)) - 48) 2
      = (n, length pre + 1 + 1 + 1)"
    using at(2) oct[of "n div 64"] d(1) by (simp add: numeral_2_eq_2)
  have "is_octal (?bs ! (length pre + 1))" using at(2) oct[of "n div 64"] d(1) by simp
  then show ?thesis
    using at(1) len more assms octal3_nonempty[of n] by (subst quoted_loop.simps) simp
qed

definition control_escape :: "byte \<Rightarrow> byte \<Rightarrow> bool" where
  "control_escape b c \<longleftrightarrow> quote_byte b = [BACKSLASH, c] \<and> \<not> is_octal c \<and> escape_byte c = b"

lemma control_escapes:
  "control_escape (byte_of 7) CHR ''a''" "control_escape (byte_of 8) CHR ''b''"
  "control_escape (byte_of 9) CHR ''t''" "control_escape (byte_of 10) CHR ''n''"
  "control_escape (byte_of 11) CHR ''v''" "control_escape (byte_of 12) CHR ''f''"
  "control_escape (byte_of 13) CHR ''r''"
  by code_simp+

lemma quoted_byte:
  "quoted_loop (pre @ quote_byte b @ post) (length pre) out
     = quoted_loop (pre @ quote_byte b @ post) (length (pre @ quote_byte b)) (out @ [b])"
proof -
  have esc: "quoted_loop (pre @ [BACKSLASH, c] @ post) (length pre) out
      = quoted_loop (pre @ [BACKSLASH, c] @ post) (length (pre @ [BACKSLASH, c])) (out @ [b])"
    if "\<not> is_octal c" "escape_byte c = b" for c
    using quoted_escape[OF that(1), of pre post out] that(2) by simp
  have ctrl: "b = byte_of n" if "bval b = n" for n using that byte_of_bval[of b] by simp
  consider "b = QUOTE \<or> b = BACKSLASH" | "7 \<le> bval b \<and> bval b \<le> 13"
    | "b \<noteq> QUOTE \<and> b \<noteq> BACKSLASH" "\<not> (7 \<le> bval b \<and> bval b \<le> 13)" "bval b < 32 \<or> 127 \<le> bval b"
    | "b \<noteq> QUOTE \<and> b \<noteq> BACKSLASH" "\<not> (bval b < 32 \<or> 127 \<le> bval b)"
    by fastforce
  then show ?thesis
  proof cases
    case 1
    then have "quote_byte b = [BACKSLASH, b]" "\<not> is_octal b" "escape_byte b = b"
      by (auto simp: quote_byte_def is_octal_def is_digit_def escape_byte_def bval_def)
    then show ?thesis using esc[of b] by simp
  next
    case 2
    then have "bval b \<in> {7, 8, 9, 10, 11, 12, 13}" by auto
    then have "b \<in> {byte_of 7, byte_of 8, byte_of 9, byte_of 10, byte_of 11, byte_of 12, byte_of 13}"
      using ctrl by blast
    then obtain c where "quote_byte b = [BACKSLASH, c]" "\<not> is_octal c" "escape_byte c = b"
      using control_escapes unfolding control_escape_def by blast
    then show ?thesis using esc[of c] by simp
  next
    case 3
    then have "quote_byte b = BACKSLASH # octal3 (bval b)" by (auto simp: quote_byte_def)
    then show ?thesis using quoted_octal[of "bval b" pre post out] by (simp add: octal3_def)
  next
    case 4
    then have "quote_byte b = [b]" by (auto simp: quote_byte_def)
    then show ?thesis using quoted_plain[of b pre post out] 4 by simp
  qed
qed

lemma quoted_bytes:
  "quoted_loop (pre @ concat (map quote_byte s) @ QUOTE # rest) (length pre) out
     = (if utf8_valid (out @ s) then Inr (out @ s, length pre + length (concat (map quote_byte s)) + 1)
        else Inl ''quoted path is not valid UTF-8'')"
proof (induction s arbitrary: pre out)
  case Nil
  then show ?case by (subst quoted_loop.simps) simp
next
  case (Cons b s)
  show ?case
    using Cons[of "pre @ quote_byte b" "out @ [b]"]
      quoted_byte[of pre b "concat (map quote_byte s) @ QUOTE # rest" out]
    by (simp add: add.assoc)
qed

lemma parse_c_quote:
  "parse_c_quoted_path (c_quote s @ rest)
     = (if utf8_valid s then Inr (s, length (c_quote s)) else Inl ''quoted path is not valid UTF-8'')"
  using quoted_bytes[of "[QUOTE]" s rest "[]"] by (simp add: parse_c_quoted_path_def c_quote_def)

section \<open>Ranges and hunk headers\<close>

definition print_range :: "byte \<Rightarrow> nat \<Rightarrow> nat \<Rightarrow> bytes" where
  \<comment> \<open>git leaves a count of one out\<close>
  "print_range c a b = c # nat_dec a @ (if b = 1 then [] else '','' @ nat_dec b)"

definition print_hunk_header :: "nat \<Rightarrow> nat \<Rightarrow> nat \<Rightarrow> nat \<Rightarrow> bytes \<Rightarrow> bytes" where
  "print_hunk_header a b c d heading =
     ''@@ '' @ print_range CHR ''-'' a b @ '' '' @ print_range CHR ''+'' c d @ '' @@'' @ heading"

lemma split_once_notin:
  "c \<notin> set a \<Longrightarrow> split_once [c] (a @ c # b) = Some (a, b)"
proof -
  assume "c \<notin> set a"
  then have "find_sub [c] (a @ c # b) = Some (length a)"
    by (induction a) (auto simp: starts_with_iff)
  then show ?thesis by (simp add: split_once_def)
qed

lemma split_once_absent: "c \<notin> set a \<Longrightarrow> split_once [c] a = None"
proof -
  assume "c \<notin> set a"
  then have "find_sub [c] a = None" by (induction a) (auto simp: starts_with_iff)
  then show ?thesis by (simp add: split_once_def)
qed

lemma parse_print_range:
  assumes "a < 2 ^ 63" "b < 2 ^ 63"
  shows "parse_range (print_range c a b) c = Inr (int a, int b)"
proof (cases "b = 1")
  case True
  have "CHR '','' \<notin> set (nat_dec a)" by (rule nat_dec_notin) (simp add: is_digit_def bval_def)
  then have "split_once '','' (nat_dec a) = None" by (rule split_once_absent)
  moreover have "nat_dec 1 = ''1''" by code_simp
  then have "parse_i64 ''1'' = Some 1" using parse_i64_nat_dec[of 1] by simp
  ultimately show ?thesis
    using True parse_i64_nat_dec[OF assms(1)] by (simp add: parse_range_def print_range_def)
next
  case False
  have "CHR '','' \<notin> set (nat_dec a)" by (rule nat_dec_notin) (simp add: is_digit_def bval_def)
  then have "split_once '','' (nat_dec a @ '','' @ nat_dec b) = Some (nat_dec a, nat_dec b)"
    using split_once_notin[of "CHR '',''" "nat_dec a" "nat_dec b"] by simp
  then show ?thesis
    using False parse_i64_nat_dec[OF assms(1)] parse_i64_nat_dec[OF assms(2)]
    by (simp add: parse_range_def print_range_def)
qed

lemma range_chars:
  "b \<in> set (print_range c x y) \<Longrightarrow> b = c \<or> b = CHR '','' \<or> is_digit b"
  using nat_dec_digits by (auto simp: print_range_def split: if_splits)

lemma range_words:
  assumes "c = CHR ''-'' \<or> c = CHR ''+''"
  shows "list_all (\<lambda>w. \<not> is_ws_char w \<and> w \<noteq> []) (map (\<lambda>b. [b]) (print_range c x y))"
    and "\<forall>b \<in> set (print_range c x y). bval b < 128"
proof -
  have "\<not> is_ws_char [b] \<and> bval b < 128" if "b \<in> set (print_range c x y)" for b
    using range_chars[OF that] assms digit_char_not_ws[of b]
    by (auto simp: is_ws_char_def is_digit_def bval_def)
  then show "list_all (\<lambda>w. \<not> is_ws_char w \<and> w \<noteq> []) (map (\<lambda>b. [b]) (print_range c x y))"
    "\<forall>b \<in> set (print_range c x y). bval b < 128"
    by (auto simp: list_all_iff)
qed

lemma concat_singletons [simp]: "concat (map (\<lambda>b. [b]) s) = s"
  by (induction s) auto

lemma split_ranges:
  "split_whitespace (print_range CHR ''-'' a b @ '' '' @ print_range CHR ''+'' c d)
     = [print_range CHR ''-'' a b, print_range CHR ''+'' c d]"
proof -
  let ?o = "print_range CHR ''-'' a b" and ?n = "print_range CHR ''+'' c d"
  have ascii: "\<forall>x \<in> set (?o @ '' '' @ ?n). bval x < 128"
    using range_words(2)[of "CHR ''-''" a b] range_words(2)[of "CHR ''+''" c d] by (auto simp: bval_def)
  have "is_ws_char '' ''" by (simp add: is_ws_char_def bval_def)
  then have "split_ws_chars (map (\<lambda>b. [b]) ?o @ '' '' # map (\<lambda>b. [b]) ?n) [] = [?o, ?n]"
    using split_ws_chars_sep[OF range_words(1)[of "CHR ''-''" a b], of "'' ''" "map (\<lambda>b. [b]) ?n" "[]"]
      split_ws_chars_all[OF range_words(1)[of "CHR ''+''" c d], of "[]"]
    by (simp add: print_range_def)
  then show ?thesis unfolding split_whitespace_def chars_of_ascii[OF ascii] by simp
qed

lemma find_sub_after:
  assumes "\<forall>b \<in> set a. b \<noteq> hd n" "n \<noteq> []"
  shows "find_sub n (a @ n @ r) = Some (length a)"
  using assms
proof (induction a)
  case Nil
  then show ?case by (cases n) (auto simp: starts_with_iff)
next
  case (Cons x a)
  then have "\<not> starts_with n (x # a @ n @ r)" by (cases n) (auto simp: starts_with_iff)
  with Cons show ?case by simp
qed

lemma find_sub_skip_space:
  assumes "SP \<notin> set a" "b \<noteq> CHR ''@''" "SP \<notin> set (b # c)"
  shows "find_sub '' @@'' (a @ SP # b # c @ '' @@'' @ r) = Some (length a + 2 + length c)"
proof -
  have nil: "find_sub '' @@'' (c @ '' @@'' @ r) = Some (length c)"
    using assms(3) by (intro find_sub_after) auto
  have "\<not> starts_with '' @@'' (SP # b # c @ '' @@'' @ r)" "\<not> starts_with '' @@'' (b # c @ '' @@'' @ r)"
    using assms(2,3) by (auto simp: starts_with_iff)
  then have "find_sub '' @@'' (SP # b # c @ '' @@'' @ r) = Some (2 + length c)" using nil by simp
  then show ?thesis using assms(1)
  proof (induction a)
    case (Cons x a)
    then have "\<not> starts_with '' @@'' (x # a @ SP # b # c @ '' @@'' @ r)" by (auto simp: starts_with_iff)
    with Cons show ?case by simp
  qed simp
qed

lemma trim_crlf_keep: "s \<noteq> [] \<Longrightarrow> \<not> is_nl (last s) \<Longrightarrow> trim_end_crlf (s @ r) = s @ trim_end_crlf r"
proof (induction r rule: rev_induct)
  case Nil
  then show ?case using trim_end_crlf_id[of s] trim_end_crlf_id[of "[]"] by (auto simp: is_nl_def)
next
  case (snoc x r)
  show ?case
  proof (cases "is_nl x")
    case True
    then show ?thesis
      using snoc trim_end_crlf_snoc(1,2)[of "s @ r"] trim_end_crlf_snoc(1,2)[of r]
      by (auto simp: is_nl_def)
  next
    case False
    then show ?thesis
      using trim_end_crlf_id[of "s @ r @ [x]"] trim_end_crlf_id[of "r @ [x]"] by (simp add: is_nl_def)
  qed
qed

lemma parse_print_hunk_header:
  assumes "a < 2 ^ 63" "b < 2 ^ 63" "c < 2 ^ 63" "d < 2 ^ 63"
  shows "parse_hunk_header (print_hunk_header a b c d heading) = Inr (int a, int b, int c, int d)"
proof -
  let ?o = "print_range CHR ''-'' a b" and ?n = "print_range CHR ''+'' c d"
  have sp: "SP \<notin> set ?o" "SP \<notin> set ?n"
    using range_chars[of SP "CHR ''-''" a b] range_chars[of SP "CHR ''+''" c d]
    by (auto simp: is_digit_def bval_def)
  obtain n2 where n: "?n = CHR ''+'' # n2" by (simp add: print_range_def)
  have "trim_end_crlf (print_hunk_header a b c d heading)
      = ''@@ '' @ ?o @ SP # ?n @ '' @@'' @ trim_end_crlf heading"
    using trim_crlf_keep[of "''@@ '' @ ?o @ '' '' @ ?n @ '' @@''" heading]
    by (simp add: print_hunk_header_def is_nl_def)
  moreover have "find_sub '' @@'' (?o @ SP # ?n @ '' @@'' @ trim_end_crlf heading)
      = Some (length ?o + 2 + length n2)"
    using find_sub_skip_space[of ?o "CHR ''+''" n2] sp n by simp
  moreover have "take (length ?o + 2 + length n2) (?o @ SP # ?n @ '' @@'' @ trim_end_crlf heading)
      = ?o @ '' '' @ ?n"
    by (simp add: n)
  ultimately show ?thesis
    using split_ranges[of a b c d] parse_print_range[of a b] parse_print_range[of c d] assms
    by (simp add: parse_hunk_header_def)
qed

end
