(* ===== verification/DiffProps.thy ===== *)
theory DiffProps
  imports DiffLines
begin

text \<open>
  The properties of the diff parser: what a successful parse guarantees about its files, hunks and
  identifiers, and the round trips for lines, quoted paths and hunk headers.
\<close>

section \<open>Hunk bodies\<close>

definition body_line :: "bytes \<Rightarrow> bool" where
  "body_line l \<longleftrightarrow> l \<noteq> [] \<and> (hd l \<in> {CHR '' '', CHR ''-'', CHR ''+''}
     \<or> (hd l = BACKSLASH \<and> trim_end_crlf l = no_newline_marker))"

definition old_count :: "bytes list \<Rightarrow> nat" where
  "old_count ls = length (filter (\<lambda>l. hd l = CHR '' '' \<or> hd l = CHR ''-'') ls)"

definition new_count :: "bytes list \<Rightarrow> nat" where
  "new_count ls = length (filter (\<lambda>l. hd l = CHR '' '' \<or> hd l = CHR ''+'') ls)"

lemma count_body_eq:
  assumes "count_body ls o1 n1 = Inr (o2, n2)" "o1 + length ls \<le> usize_max" "n1 + length ls \<le> usize_max"
  shows "o2 = o1 + old_count ls \<and> n2 = n1 + new_count ls \<and> (\<forall>l \<in> set ls. body_line l)"
  using assms
proof (induction ls arbitrary: o1 n1)
  case (Cons l ls)
  then obtain c r where l: "l = c # r" by (cases l) auto
  consider "c = CHR '' ''" | "c = CHR ''-''" | "c = CHR ''+''" | "c = BACKSLASH" "trim_end_crlf l = no_newline_marker"
    using Cons.prems(1) l by (auto split: if_splits)
  then show ?case
  proof cases
    case 1
    then show ?thesis using Cons.IH[of "o1 + 1" "n1 + 1"] Cons.prems l
      by (simp add: old_count_def new_count_def body_line_def)
  next
    case 2
    then show ?thesis using Cons.IH[of "o1 + 1" n1] Cons.prems l
      by (simp add: old_count_def new_count_def body_line_def)
  next
    case 3
    then show ?thesis using Cons.IH[of o1 "n1 + 1"] Cons.prems l
      by (simp add: old_count_def new_count_def body_line_def)
  next
    case 4
    then show ?thesis using Cons.IH[of o1 n1] Cons.prems l
      by (simp add: old_count_def new_count_def body_line_def)
  qed
qed (simp add: old_count_def new_count_def)

definition hunk_ok :: "nat \<Rightarrow> nat \<Rightarrow> parsed_hunk \<Rightarrow> bool" where
  "hunk_ok fi hi h \<longleftrightarrow> h_file_index h = fi \<and> h_index h = hi
     \<and> 0 \<le> old_start h \<and> 0 \<le> new_start h
     \<and> parse_hunk_header (h_header h) = Inr (old_start h, old_lines h, new_start h, new_lines h)
     \<and> (\<exists>bl. concat bl = h_body h \<and> (\<forall>l \<in> set bl. body_line l)
          \<and> old_lines h = int (old_count bl) \<and> new_lines h = int (new_count bl))"

definition hunks_ok :: "nat \<Rightarrow> nat \<Rightarrow> parsed_hunk list \<Rightarrow> bool" where
  "hunks_ok fi hi hs \<longleftrightarrow> (\<forall>j < length hs. hunk_ok fi (hi + j) (hs ! j))"

lemma hunks_ok_Cons: "hunks_ok fi hi (h # hs) \<longleftrightarrow> hunk_ok fi hi h \<and> hunks_ok fi (hi + 1) hs"
  by (auto simp: hunks_ok_def nth_Cons' less_Suc_eq_0_disj all_conj_distrib)

lemma parse_range_nonneg: "parse_range t c = Inr (a, b) \<Longrightarrow> 0 \<le> a \<and> 0 \<le> b"
  by (auto simp: parse_range_def Let_def split: option.splits prod.splits if_splits)

lemma parse_hunk_header_nonneg:
  "parse_hunk_header h = Inr (a, b, c, d) \<Longrightarrow> 0 \<le> a \<and> 0 \<le> b \<and> 0 \<le> c \<and> 0 \<le> d"
  by (auto simp: parse_hunk_header_def bindE_Inr_iff dest!: parse_range_nonneg
      split: option.splits list.splits)

lemma parse_hunks_ok:
  assumes "parse_hunks sha da fi op np ls hi rs = Inr hs" "length ls \<le> usize_max"
  shows "hunks_ok fi hi hs \<and> length hs = length rs"
  using assms(1)
proof (induction rs arbitrary: hi hs)
  case Nil
  then show ?case by (simp add: hunks_ok_def)
next
  case (Cons r rs)
  obtain s e where r: "r = (s, e)" by (cases r)
  let ?bl = "take (e - (s + 1)) (drop (s + 1) ls)"
  from Cons.prems r obtain os ol ns nl hs' where
      hd: "parse_hunk_header (ls ! s) = Inr (os, ol, ns, nl)"
    and v: "validate_hunk_body_counts ?bl ol nl = Inr ()"
    and rest: "parse_hunks sha da fi op np ls (hi + 1) rs = Inr hs'"
    and hs: "hs = \<lparr> h_id = hunk_id sha (da_repo da) (da_staged da) (da_context da) (da_paths da) fi hi op np
                         (ls ! s) (concat ?bl),
               h_file_index = fi, h_index = hi, h_header = ls ! s,
               old_start = os, old_lines = ol, new_start = ns, new_lines = nl, h_body = concat ?bl \<rparr> # hs'"
    by (auto simp: bindE_Inr_iff Let_def)
  note nn = parse_hunk_header_nonneg[OF hd]
  from v nn obtain o1 n1 where cb: "count_body ?bl 0 0 = Inr (o1, n1)" "o1 = nat ol" "n1 = nat nl"
    by (auto simp: validate_hunk_body_counts_def bindE_Inr_iff split: if_splits)
  have "length ?bl \<le> usize_max" using assms(2) by simp
  then have "old_count ?bl = nat ol" "new_count ?bl = nat nl" "\<forall>l \<in> set ?bl. body_line l"
    using count_body_eq[OF cb(1)] cb(2,3) by auto
  then have "hunk_ok fi hi (hd hs)"
    unfolding hs hunk_ok_def using hd nn by (auto intro!: exI[of _ ?bl])
  then show ?case using Cons.IH[OF rest] hs by (simp add: hunks_ok_Cons)
qed

section \<open>File records\<close>

definition file_ok :: "nat \<Rightarrow> file_hunks \<Rightarrow> bool" where
  "file_ok i f \<longleftrightarrow> fh_index f = i \<and> hunks_ok i 0 (fh_hunks f)
     \<and> (supported f \<longrightarrow> fh_old_path f = Some (fh_path f) \<and> validate_repo_relative_path (fh_path f) = Inr ()
          \<and> \<not> fh_binary f \<and> change_kinds f = [''modified''] \<and> fh_status f = Modified \<and> fh_hunks f \<noteq> []
          \<and> (\<exists>h. old_file_header f = Some h \<and> file_header_path_matches h ''--- '' ''a/'' (fh_path f))
          \<and> (\<exists>h. new_file_header f = Some h \<and> file_header_path_matches h ''+++ '' ''b/'' (fh_path f)))"

lemma kind_insert_props:
  "''modified'' \<in> set ks \<Longrightarrow> distinct ks \<Longrightarrow>
   ''modified'' \<in> set (kind_insert k ks) \<and> distinct (kind_insert k ks)"
  by (simp add: kind_insert_def set_insort_key distinct_insort)

lemma scan_header_line_kinds:
  assumes "scan_header_line l st = Inr st'" "''modified'' \<in> set (rs_kinds st) \<and> distinct (rs_kinds st)"
  shows "''modified'' \<in> set (rs_kinds st') \<and> distinct (rs_kinds st')"
proof -
  obtain k where "rs_kinds st' = rs_kinds st \<or> rs_kinds st' = kind_insert k (rs_kinds st)"
  proof (cases "starts_with ''--- '' l \<or> starts_with ''+++ '' l")
    case True
    then show ?thesis using assms(1) that by (auto simp: scan_header_line_def split: if_splits)
  next
    case False
    let ?k = "header_kind (trim_end_crlf l)"
    have "rs_kinds st' = (case ?k of Some (Some k) \<Rightarrow> kind_insert k (rs_kinds st) | _ \<Rightarrow> rs_kinds st)"
      using assms(1) False unfolding scan_header_line_def Let_def
      by (cases ?k; cases "the ?k") (auto split: if_splits)
    then show ?thesis using that by (cases ?k; cases "the ?k") auto
  qed
  then show ?thesis using kind_insert_props[of "rs_kinds st" k] assms(2) by auto
qed

lemma scan_record_kinds:
  "scan_record ls i st = Inr st' \<Longrightarrow> ''modified'' \<in> set (rs_kinds st) \<and> distinct (rs_kinds st) \<Longrightarrow>
   ''modified'' \<in> set (rs_kinds st') \<and> distinct (rs_kinds st')"
proof (induction ls i st rule: scan_record.induct)
  case (1 ls i st)
  show ?case
  proof (cases "i < length ls")
    case False
    then show ?thesis using "1.prems" by (subst (asm) scan_record.simps) simp
  next
    case True
    show ?thesis
    proof (cases "is_hunk_line (ls ! i)")
      case hunk: True
      have "scan_record ls (hunk_end ls (i + 1)) (st\<lparr> rs_ranges := rs_ranges st @ [(i, hunk_end ls (i + 1))] \<rparr>)
          = Inr st'"
        using "1.prems"(1) True hunk by (subst (asm) scan_record.simps) (simp add: Let_def)
      then show ?thesis using 1(1)[OF True hunk refl] "1.prems"(2) by simp
    next
      case False
      then obtain st1 where "scan_header_line (ls ! i) st = Inr st1" "scan_record ls (i + 1) st1 = Inr st'"
        using True "1.prems"(1) by (subst (asm) scan_record.simps) (auto simp: bindE_Inr_iff)
      then show ?thesis using 1(2)[OF True False] scan_header_line_kinds "1.prems"(2) by blast
    qed
  qed
qed

lemma only_modified:
  "''modified'' \<in> set ks \<Longrightarrow> distinct ks \<Longrightarrow> filter (\<lambda>k. k \<noteq> ''modified'') ks = [] \<Longrightarrow> ks = [''modified'']"
  by (cases ks; cases "tl ks") (auto split: if_splits)

lemma finish_record_ok:
  assumes f: "finish_record sha da fi ls op np st = Inr f"
    and kinds: "''modified'' \<in> set (rs_kinds st) \<and> distinct (rs_kinds st)" and len: "length ls \<le> usize_max"
  shows "file_ok fi f"
proof -
  let ?reason = "unsupported_reason op np (rs_binary st) (rs_kinds st) (rs_old_header st) (rs_new_header st)
      (rs_ranges st = []) (rs_unsupported st)"
  from f kinds obtain hs where
      hs: "parse_hunks sha da fi op np ls 0 (rs_ranges st) = Inr hs"
    and fe: "f = \<lparr> fh_index = fi, fh_path = np, fh_old_path = Some op,
                 fh_status = status_from_kinds (rs_kinds st) (rs_binary st),
                 change_kinds = rs_kinds st, fh_binary = rs_binary st, supported = (?reason = None),
                 fh_unsupported_reason = ?reason, diff_header = hd ls,
                 old_file_header = rs_old_header st, new_file_header = rs_new_header st,
                 extended_headers = rs_extended st, fh_hunks = hs \<rparr>"
    by (auto simp: finish_record_def bindE_Inr_iff Let_def)
  note ok = parse_hunks_ok[OF hs len]
  show ?thesis
  proof (cases "?reason = None")
    case False
    then show ?thesis using ok by (auto simp: file_ok_def fe)
  next
    case True
    then have r: "validate_repo_relative_path op = Inr ()" "\<not> rs_binary st" "rs_ranges st \<noteq> []" "op = np"
        "filter (\<lambda>k. k \<noteq> ''modified'') (rs_kinds st) = []"
        "case rs_old_header st of Some h \<Rightarrow> file_header_path_matches h ''--- '' ''a/'' op | None \<Rightarrow> False"
        "case rs_new_header st of Some h \<Rightarrow> file_header_path_matches h ''+++ '' ''b/'' np | None \<Rightarrow> False"
      unfolding unsupported_reason_def by (simp_all split: if_splits)
    have "rs_kinds st = [''modified'']" using only_modified kinds r(5) by blast
    then show ?thesis
      using ok r by (auto simp: file_ok_def fe True status_from_kinds_def split: option.splits)
  qed
qed

lemma parse_file_record_ok:
  assumes "parse_file_record sha da fi ls = Inr f" "length ls \<le> usize_max"
  shows "file_ok fi f"
proof (cases "is_combined_line (hd ls)")
  case True
  then have "f = combined_record fi ls" using assms(1) by (auto simp: parse_file_record_def split: if_splits)
  then show ?thesis by (simp add: file_ok_def combined_record_def hunks_ok_def)
next
  case False
  then obtain op np st where
      st: "scan_record ls 1 initial_scan = Inr st" "finish_record sha da fi ls op np st = Inr f"
    using assms(1) by (auto simp: parse_file_record_def bindE_Inr_iff split: if_splits)
  have "''modified'' \<in> set (rs_kinds st) \<and> distinct (rs_kinds st)"
    using scan_record_kinds[OF st(1)] by (simp add: initial_scan_def)
  then show ?thesis using finish_record_ok[OF st(2) _ assms(2)] by blast
qed

section \<open>The whole diff\<close>

definition ids_of :: "file_hunks list \<Rightarrow> bytes list" where
  "ids_of fs = concat (map (\<lambda>f. map h_id (fh_hunks f)) fs)"

definition body_bytes :: "file_hunks list \<Rightarrow> nat" where
  "body_bytes fs = sum_list (map (\<lambda>f. sum_list (map (length \<circ> h_body) (fh_hunks f))) fs)"

lemma check_hunks_ok:
  assumes "check_hunks hs tot ids = Inr (tot', ids')" "tot \<le> MAX_GIT_HUNK_BODY_BYTES"
    and small: "\<forall>h \<in> set hs. length (h_body h) \<le> usize_max - MAX_GIT_HUNK_BODY_BYTES"
  shows "tot' = tot + sum_list (map (length \<circ> h_body) hs) \<and> tot' \<le> MAX_GIT_HUNK_BODY_BYTES
    \<and> set ids' = set ids \<union> set (map h_id hs) \<and> distinct (map h_id hs) \<and> set (map h_id hs) \<inter> set ids = {}"
  using assms
proof (induction hs arbitrary: tot ids)
  case (Cons h hs)
  have le: "tot + length (h_body h) \<le> usize_max"
    using Cons.prems(2,3) by (simp add: MAX_GIT_HUNK_BODY_BYTES_def usize_max_def)
  from Cons.prems(1) le have step: "tot + length (h_body h) \<le> MAX_GIT_HUNK_BODY_BYTES" "h_id h \<notin> set ids"
      "check_hunks hs (tot + length (h_body h)) (h_id h # ids) = Inr (tot', ids')"
    by (auto simp: Let_def split: if_splits)
  with Cons.IH[OF step(3,1)] Cons.prems(3) show ?case by auto
qed simp

definition records_ok :: "file_hunks list \<Rightarrow> nat \<Rightarrow> nat \<Rightarrow> bytes list \<Rightarrow> bool" where
  "records_ok fs nh nb ids \<longleftrightarrow>
     (\<forall>i < length fs. file_ok i (fs ! i)) \<and> length fs \<le> MAX_GIT_DIFF_FILES
     \<and> nh = length (concat (map fh_hunks fs)) \<and> nh \<le> MAX_GIT_DIFF_HUNKS
     \<and> nb = body_bytes fs \<and> nb \<le> MAX_GIT_HUNK_BODY_BYTES
     \<and> distinct (ids_of fs) \<and> set ids = set (ids_of fs)"

lemma parse_hunks_bodies:
  "parse_hunks sha da fi op np ls hi rs = Inr hs \<Longrightarrow> h \<in> set hs \<Longrightarrow> length (h_body h) \<le> length (concat ls)"
proof (induction rs arbitrary: hi hs)
  case (Cons r rs)
  obtain s e where r: "r = (s, e)" by (cases r)
  have seg: "length (concat (take n (drop m xs))) \<le> length (concat xs)" for n m and xs :: "bytes list"
  proof -
    have "concat xs = concat (take m xs) @ concat (take n (drop m xs)) @ concat (drop n (drop m xs))"
      by (metis append_take_drop_id concat_append)
    then have "length (concat xs) = length (concat (take m xs)) + length (concat (take n (drop m xs)))
        + length (concat (drop n (drop m xs)))"
      by (metis add.assoc length_append)
    then show ?thesis by linarith
  qed
  from Cons.prems(1) r obtain x hs' where
      "hs = x # hs'" "h_body x = concat (take (e - (s + 1)) (drop (s + 1) ls))"
      "parse_hunks sha da fi op np ls (hi + 1) rs = Inr hs'"
    by (auto simp: bindE_Inr_iff Let_def)
  with Cons seg show ?case by auto
qed simp

lemma parse_file_record_bodies:
  assumes "parse_file_record sha da fi ls = Inr f" "h \<in> set (fh_hunks f)"
  shows "length (h_body h) \<le> length (concat ls)"
  using assms parse_hunks_bodies
  by (auto simp: parse_file_record_def finish_record_def combined_record_def bindE_Inr_iff Let_def
      split: if_splits)

lemma records_ok_snoc:
  assumes "records_ok fs nh nb ids" "file_ok (length fs) f" "length fs < MAX_GIT_DIFF_FILES"
    and "nh + length (fh_hunks f) \<le> MAX_GIT_DIFF_HUNKS"
    and "check_hunks (fh_hunks f) nb ids = Inr (nb', ids')"
    and "\<forall>h \<in> set (fh_hunks f). length (h_body h) \<le> usize_max - MAX_GIT_HUNK_BODY_BYTES"
  shows "records_ok (fs @ [f]) (nh + length (fh_hunks f)) nb' ids'"
proof -
  have nb: "nb \<le> MAX_GIT_HUNK_BODY_BYTES" using assms(1) by (simp add: records_ok_def)
  note ck = check_hunks_ok[OF assms(5) nb assms(6)]
  have ids: "ids_of (fs @ [f]) = ids_of fs @ map h_id (fh_hunks f)" by (simp add: ids_of_def)
  have old: "distinct (ids_of fs)" "set ids = set (ids_of fs)"
    using assms(1) by (simp_all add: records_ok_def)
  have dist: "distinct (ids_of (fs @ [f]))"
    unfolding ids distinct_append using ck old by auto
  have set: "set ids' = set (ids_of (fs @ [f]))" unfolding ids using ck old by auto
  show ?thesis
    using ck assms(1-4) dist set
    by (auto simp: records_ok_def body_bytes_def nth_append less_Suc_eq)
qed

lemma parse_records_ok:
  assumes "parse_records sha da ls ws fs nh nb ids = Inr (fs', nh', nb')"
    and "records_ok fs nh nb ids" "length ls \<le> usize_max - 10000000" "length (concat ls) \<le> usize_max - 10000000"
  shows "\<exists>ids'. records_ok fs' nh' nb' ids'"
  using assms
proof (induction ws arbitrary: fs nh nb ids)
  case (Cons w ws)
  obtain s e where w: "w = (s, e)" by (cases w)
  let ?seg = "take (e - s) (drop s ls)"
  have um: "usize_max = 18446744073709551615" by (simp add: usize_max_def)
  have lim: "MAX_GIT_HUNK_BODY_BYTES = 4000000" "MAX_GIT_DIFF_HUNKS = 10000" "MAX_GIT_DIFF_FILES = 1000"
    by (simp_all add: MAX_GIT_HUNK_BODY_BYTES_def MAX_GIT_DIFF_HUNKS_def MAX_GIT_DIFF_FILES_def)
  from Cons.prems(1) w obtain f nb1 ids1 where f: "\<not> length fs \<ge> MAX_GIT_DIFF_FILES"
      "parse_file_record sha da (length fs) ?seg = Inr f"
      "\<not> saturating_add nh (length (fh_hunks f)) > MAX_GIT_DIFF_HUNKS"
      "check_hunks (fh_hunks f) nb ids = Inr (nb1, ids1)"
      "parse_records sha da ls ws (fs @ [f\<lparr> fh_index := length fs \<rparr>])
         (saturating_add nh (length (fh_hunks f))) nb1 ids1 = Inr (fs', nh', nb')"
    by (auto simp: bindE_Inr_iff Let_def split: if_splits)
  have seg: "length ?seg \<le> usize_max" using Cons.prems(3) by simp
  note ok = parse_file_record_ok[OF f(2) seg]
  have idx: "f\<lparr> fh_index := length fs \<rparr> = f" using ok by (simp add: file_ok_def)
  have nh: "nh + length (fh_hunks f) \<le> MAX_GIT_DIFF_HUNKS"
      "saturating_add nh (length (fh_hunks f)) = nh + length (fh_hunks f)"
    using f(3) um lim by (auto simp: saturating_add_def min_def split: if_splits)
  have "concat ls = concat (take s ls) @ concat ?seg @ concat (drop (e - s) (drop s ls))"
    by (metis append_take_drop_id concat_append)
  then have "length (concat ls) = length (concat (take s ls)) + length (concat ?seg)
      + length (concat (drop (e - s) (drop s ls)))" by (metis add.assoc length_append)
  then have "length (concat ?seg) \<le> usize_max - MAX_GIT_HUNK_BODY_BYTES"
    using Cons.prems(4) um lim by linarith
  then have small: "\<forall>h \<in> set (fh_hunks f). length (h_body h) \<le> usize_max - MAX_GIT_HUNK_BODY_BYTES"
    using parse_file_record_bodies[OF f(2)] by (meson le_trans)
  have "records_ok (fs @ [f]) (nh + length (fh_hunks f)) nb1 ids1"
    using f(1) by (intro records_ok_snoc[OF Cons.prems(2) ok _ nh(1) f(4) small]) simp
  then show ?case using Cons.IH[of "fs @ [f]"] f(5) Cons.prems(3,4) unfolding idx nh(2) by blast
qed auto

end
