(* ===== verification/DiffDemo.thy ===== *)
theory DiffDemo
  imports DiffProps
begin

text \<open>
  Concrete diffs the witnesses run the parser on: one file with one hunk, at any file index, and the
  same file after a binary one.
\<close>

section \<open>A concrete diff\<close>

definition demo_repo :: repo_context where
  "demo_repo = \<lparr> working_dir = ''/w'', toplevel = ''/w'', identity = ''r'', stable_identity = [] \<rparr>"

definition demo_args :: diff_args where
  "demo_args = \<lparr> da_repo = demo_repo, da_staged = False, da_context = 1, da_paths = [] \<rparr>"

definition demo_sha :: "bytes \<Rightarrow> bytes" where
  "demo_sha s = nat_dec (length s)"

definition demo_diff :: bytes where
  "demo_diff = ''diff --git a/f b/f'' @ [LF] @ ''--- a/f'' @ [LF] @ ''+++ b/f'' @ [LF]
     @ ''@@ -1 +1 @@'' @ [LF] @ ''-a'' @ [LF] @ ''+b'' @ [LF]"

definition demo_header :: bytes where "demo_header = ''@@ -1 +1 @@'' @ [LF]"

text \<open>The hunk and the file of the diff, as the parser builds them for a digest, a scope and a file index.\<close>

definition ex_hunk :: "(bytes \<Rightarrow> bytes) \<Rightarrow> diff_args \<Rightarrow> nat \<Rightarrow> parsed_hunk" where
  "ex_hunk sha da fi = \<lparr> h_id = hunk_id sha (da_repo da) (da_staged da) (da_context da) (da_paths da) fi 0 ''f'' ''f''
       demo_header (''-a'' @ [LF] @ ''+b'' @ [LF]),
     h_file_index = fi, h_index = 0, h_header = demo_header, old_start = 1, old_lines = 1,
     new_start = 1, new_lines = 1, h_body = ''-a'' @ [LF] @ ''+b'' @ [LF] \<rparr>"

definition demo_line0 :: bytes where "demo_line0 = ''diff --git a/f b/f'' @ [LF]"

definition ex_file :: "(bytes \<Rightarrow> bytes) \<Rightarrow> diff_args \<Rightarrow> nat \<Rightarrow> file_hunks" where
  "ex_file sha da fi = \<lparr> fh_index = fi, fh_path = ''f'', fh_old_path = Some ''f'', fh_status = Modified,
     change_kinds = [''modified''], fh_binary = False, supported = True, fh_unsupported_reason = None,
     diff_header = demo_line0, old_file_header = Some (''--- a/f'' @ [LF]),
     new_file_header = Some (''+++ b/f'' @ [LF]), extended_headers = [], fh_hunks = [ex_hunk sha da fi] \<rparr>"

abbreviation demo_hunk :: "nat \<Rightarrow> parsed_hunk" where "demo_hunk \<equiv> ex_hunk demo_sha demo_args"

abbreviation demo_file :: "nat \<Rightarrow> file_hunks" where "demo_file \<equiv> ex_file demo_sha demo_args"

definition demo_lines :: "bytes list" where
  "demo_lines = [demo_line0, ''--- a/f'' @ [LF], ''+++ b/f'' @ [LF], demo_header,
    ''-a'' @ [LF], ''+b'' @ [LF]]"

definition ex_parsed :: "(bytes \<Rightarrow> bytes) \<Rightarrow> diff_args \<Rightarrow> parsed_diff" where
  "ex_parsed sha da = \<lparr> pd_id = diff_id sha demo_diff (da_repo da) (da_staged da) (da_context da) (da_paths da),
     pd_bytes = length demo_diff, pd_files = [ex_file sha da 0], total_hunks = 1, hunk_body_bytes = 6 \<rparr>"

abbreviation demo_parsed :: parsed_diff where "demo_parsed \<equiv> ex_parsed demo_sha demo_args"

lemma demo_split: "split_lines_keep_endings demo_diff = demo_lines" by code_simp

lemma demo_scan: "scan_record demo_lines 1 initial_scan = Inr \<lparr> rs_old_header = Some (''--- a/f'' @ [LF]),
   rs_new_header = Some (''+++ b/f'' @ [LF]), rs_extended = [], rs_ranges = [(3, 6)],
   rs_binary = False, rs_kinds = [''modified''], rs_unsupported = False \<rparr>"
  by code_simp

lemma demo_header_parsed: "parse_hunk_header demo_header = Inr (1, 1, 1, 1)"
proof -
  have "demo_header = print_hunk_header 1 1 1 1 [LF]" by code_simp
  then show ?thesis using parse_print_hunk_header[of 1 1 1 1 "[LF]"] by simp
qed

lemma demo_counts: "validate_hunk_body_counts [''-a'' @ [LF], ''+b'' @ [LF]] 1 1 = Inr ()"
  by (simp add: validate_hunk_body_counts_def saturating_add_def usize_max_def)

lemma ex_hunks: "parse_hunks sha da fi ''f'' ''f'' demo_lines 0 [(3, 6)] = Inr [ex_hunk sha da fi]"
  using demo_header_parsed demo_counts
  by (simp add: demo_lines_def ex_hunk_def eval_nat_numeral Let_def)

lemma demo_reason: "unsupported_reason ''f'' ''f'' False [''modified''] (Some (''--- a/f'' @ [LF]))
   (Some (''+++ b/f'' @ [LF])) False False = None"
  by code_simp

lemma demo_git_header: "parse_diff_git_header demo_line0 = Inr (''f'', ''f'')" by code_simp
lemma demo_not_combined: "\<not> is_combined_line demo_line0" by code_simp
lemma demo_status: "status_from_kinds [''modified''] False = Modified" by code_simp

lemma ex_record: "parse_file_record sha da fi demo_lines = Inr (ex_file sha da fi)"
proof -
  have hd: "hd demo_lines = demo_line0" "demo_lines \<noteq> []" by (simp_all add: demo_lines_def)
  have "finish_record sha da fi demo_lines ''f'' ''f'' \<lparr> rs_old_header = Some (''--- a/f'' @ [LF]),
      rs_new_header = Some (''+++ b/f'' @ [LF]), rs_extended = [], rs_ranges = [(3, 6)],
      rs_binary = False, rs_kinds = [''modified''], rs_unsupported = False \<rparr> = Inr (ex_file sha da fi)"
    unfolding finish_record_def Let_def hd
    by (simp del: parse_hunks.simps
        add: ex_hunks demo_reason[simplified] demo_status ex_file_def)
  then show ?thesis
    unfolding parse_file_record_def hd demo_git_header bindE_simps prod.case demo_scan
    using demo_not_combined hd by simp
qed

lemma demo_utf8: "utf8_valid demo_diff" by code_simp
lemma demo_starts: "record_starts demo_lines = [0]" by code_simp

lemma ex_parse: "parse_unified_diff sha da demo_diff = Inr (ex_parsed sha da)"
proof -
  have ne: "demo_diff \<noteq> []" by (simp add: demo_diff_def)
  have len: "length demo_lines = 6" "length demo_diff = 53" "length (h_body (ex_hunk sha da 0)) = 6"
    by (simp_all add: demo_lines_def demo_diff_def ex_hunk_def)
  have hs: "fh_hunks (ex_file sha da 0) = [ex_hunk sha da 0]" "(ex_file sha da 0)\<lparr> fh_index := 0 \<rparr> = ex_file sha da 0"
    by (simp_all add: ex_file_def)
  have "take 6 demo_lines = demo_lines" using len(1) by simp
  then have "parse_records sha da demo_lines [(0, 6)] [] 0 0 [] = Inr ([ex_file sha da 0], 1, 6)"
    using ex_record[of sha da 0] len hs
    by (simp add: Let_def saturating_add_def usize_max_def MAX_GIT_DIFF_FILES_def MAX_GIT_DIFF_HUNKS_def
        MAX_GIT_HUNK_BODY_BYTES_def)
  then show ?thesis
    using ne demo_utf8 len
    by (simp add: parse_unified_diff_def Let_def demo_split demo_starts windows2_def saturating_add_def
        usize_max_def MAX_GIT_STRUCTURED_RESPONSE_BYTES_def ex_parsed_def)
qed

lemma demo_parse: "parse_unified_diff demo_sha demo_args demo_diff = Inr demo_parsed"
  by (rule ex_parse)

section \<open>The same file after a binary one\<close>

definition demo_bin_lines :: "bytes list" where
  "demo_bin_lines = [''diff --git a/e b/e'' @ [LF], ''Binary files a/e and b/e differ'' @ [LF]]"

definition demo_diff2 :: bytes where
  "demo_diff2 = concat demo_bin_lines @ demo_diff"

definition demo_bin_file :: file_hunks where
  "demo_bin_file = \<lparr> fh_index = 0, fh_path = ''e'', fh_old_path = Some ''e'', fh_status = Modified,
     change_kinds = [''modified''], fh_binary = True, supported = False, fh_unsupported_reason = Some ''binary'',
     diff_header = ''diff --git a/e b/e'' @ [LF], old_file_header = None, new_file_header = None,
     extended_headers = [''Binary files a/e and b/e differ'' @ [LF]], fh_hunks = [] \<rparr>"

definition demo_parsed2 :: parsed_diff where
  "demo_parsed2 = \<lparr> pd_id = diff_id demo_sha demo_diff2 demo_repo False 1 [], pd_bytes = length demo_diff2,
     pd_files = [demo_bin_file, demo_file 1], total_hunks = 1, hunk_body_bytes = 6 \<rparr>"

lemma demo_bin_record: "parse_file_record demo_sha demo_args 0 demo_bin_lines = Inr demo_bin_file"
  by code_simp

lemma demo_split2: "split_lines_keep_endings demo_diff2 = demo_bin_lines @ demo_lines" by code_simp
lemma demo_utf82: "utf8_valid demo_diff2" by code_simp
lemma demo_starts2: "record_starts (demo_bin_lines @ demo_lines) = [0, 2]" by code_simp

lemma demo_parse2: "parse_unified_diff demo_sha demo_args demo_diff2 = Inr demo_parsed2"
proof -
  have ne: "demo_diff2 \<noteq> []" by (simp add: demo_diff2_def demo_diff_def)
  have len: "length (demo_bin_lines @ demo_lines) = 8" "length demo_diff2 = 104" "length (h_body (demo_hunk 1)) = 6"
    by (simp_all add: demo_lines_def demo_diff_def ex_hunk_def demo_diff2_def demo_bin_lines_def)
  have hs: "fh_hunks (demo_file 1) = [demo_hunk 1]" "(demo_file 1)\<lparr> fh_index := 1 \<rparr> = demo_file 1"
      "fh_hunks demo_bin_file = []" "demo_bin_file\<lparr> fh_index := 0 \<rparr> = demo_bin_file"
    by (simp_all add: ex_file_def demo_bin_file_def)
  have all6: "take 6 demo_lines = demo_lines" by (simp add: demo_lines_def)
  have parts: "take 2 (demo_bin_lines @ demo_lines) = demo_bin_lines"
      "take 6 (drop 2 (demo_bin_lines @ demo_lines)) = demo_lines"
    by (simp_all add: demo_bin_lines_def demo_lines_def)
  have "parse_records demo_sha demo_args (demo_bin_lines @ demo_lines) [(0, 2), (2, 8)] [] 0 0 []
      = Inr ([demo_bin_file, demo_file 1], 1, 6)"
    using ex_record[of demo_sha demo_args 1] demo_bin_record len hs parts all6
    by (simp add: Let_def saturating_add_def usize_max_def MAX_GIT_DIFF_FILES_def MAX_GIT_DIFF_HUNKS_def
        MAX_GIT_HUNK_BODY_BYTES_def del: take_append drop_append)
  then show ?thesis
    using ne demo_utf82 len
    by (simp add: parse_unified_diff_def Let_def demo_split2 demo_starts2 windows2_def saturating_add_def
        usize_max_def MAX_GIT_STRUCTURED_RESPONSE_BYTES_def demo_parsed2_def demo_args_def
        del: length_append)
qed

end
