(* ===== verification/DiffClaims.thy ===== *)
theory DiffClaims
  imports DiffDemo
begin

text \<open>
  The claims about the diff parser, on top of the lemmas of \<open>DiffProps\<close>: the invariant of a parsed
  diff, the lookup of hunks by identifier, and the round trips of its parts.
\<close>

section \<open>Lines have characters\<close>

lemma length_le_concat: "[] \<notin> set xs \<Longrightarrow> length xs \<le> length (concat xs)"
proof (induction xs)
  case (Cons x xs)
  then have "0 < length x" by auto
  moreover have "length xs \<le> length (concat xs)" using Cons by simp
  ultimately show ?case unfolding concat.simps length_append list.size by linarith
qed simp

lemma text_lines_nonempty: "[] \<notin> set (text_lines t)"
proof (induction t rule: lines_of_induct)
  case (Line bs c k rest)
  have "length rest < length bs" by (rule newline_at_less[OF Line.hyps(1,3)])
  then have "c @ nl_bytes k \<noteq> []" using Line.hyps(4) by auto
  then show ?case using Line.IH unfolding text_lines_def Line.hyps(5) by auto
qed simp

section \<open>What a parsed diff guarantees\<close>

definition diff_ok :: "parsed_diff \<Rightarrow> bool" where
  "diff_ok d \<longleftrightarrow>
     (\<forall>i < length (pd_files d). file_ok i (pd_files d ! i)) \<and> length (pd_files d) \<le> MAX_GIT_DIFF_FILES
     \<and> total_hunks d = length (all_hunks d) \<and> total_hunks d \<le> MAX_GIT_DIFF_HUNKS
     \<and> hunk_body_bytes d = body_bytes (pd_files d) \<and> hunk_body_bytes d \<le> MAX_GIT_HUNK_BODY_BYTES
     \<and> distinct (map h_id (all_hunks d))"

lemma ids_of_all: "ids_of (pd_files d) = map h_id (all_hunks d)"
  by (simp add: ids_of_def all_hunks_def map_concat comp_def)

lemma records_diff_ok:
  "records_ok (pd_files d) (total_hunks d) (hunk_body_bytes d) ids \<Longrightarrow> diff_ok d"
  by (simp add: records_ok_def diff_ok_def ids_of_all all_hunks_def)

lemma diff_ok_empty: "diff_ok \<lparr> pd_id = i, pd_bytes = n, pd_files = [], total_hunks = 0, hunk_body_bytes = 0 \<rparr>"
  by (simp add: diff_ok_def all_hunks_def body_bytes_def)

lemma parse_unified_diff_ok:
  assumes "parse_unified_diff sha da diff = Inr d" "length diff \<le> usize_max - 10000000"
  shows "diff_ok d"
proof (cases "diff = []")
  case True
  then have "d = \<lparr> pd_id = pd_id d, pd_bytes = 0, pd_files = [], total_hunks = 0, hunk_body_bytes = 0 \<rparr>"
    using assms(1) by (auto simp: parse_unified_diff_def Let_def split: if_splits)
  then show ?thesis using diff_ok_empty[of "pd_id d" 0] by simp
next
  case False
  let ?ls = "split_lines_keep_endings diff"
  have cat: "concat ?ls = diff" by (simp add: split_lines_keep_endings_eq concat_text_lines)
  have "length ?ls \<le> length diff"
    using length_le_concat[of ?ls] cat text_lines_nonempty[of diff] by (simp add: split_lines_keep_endings_eq)
  then have len: "length ?ls \<le> usize_max - 10000000" "length (concat ?ls) \<le> usize_max - 10000000"
    using assms(2) cat by simp_all
  from False assms(1) obtain ws where
      ws: "parse_records sha da ?ls ws [] 0 0 [] = Inr (pd_files d, total_hunks d, hunk_body_bytes d)"
    by (auto simp: parse_unified_diff_def Let_def bindE_Inr_iff split: if_splits)
  have "records_ok [] 0 0 []" by (simp add: records_ok_def ids_of_def body_bytes_def)
  then show ?thesis using parse_records_ok[OF ws _ len] records_diff_ok by blast
qed

text \<open>C7. A diff that parses is consistent.  Its files are numbered in order; in each, every hunk
  carries the numbers of its own header, which are not negative, and its body consists of context,
  removed, added and marker lines only, with exactly as many old and new lines as the header says.  The
  totals are the sums over the files and stay within their limits, and no two hunks of the diff have
  the same identifier.\<close>

theorem parsed_diff_consistent:
  assumes "parse_unified_diff sha da diff = Inr d" "length diff \<le> usize_max - 10000000"
  shows "(\<forall>i < length (pd_files d). fh_index (pd_files d ! i) = i
            \<and> (\<forall>j < length (fh_hunks (pd_files d ! i)). hunk_ok i j (fh_hunks (pd_files d ! i) ! j)))
    \<and> length (pd_files d) \<le> MAX_GIT_DIFF_FILES
    \<and> total_hunks d = length (all_hunks d) \<and> total_hunks d \<le> MAX_GIT_DIFF_HUNKS
    \<and> hunk_body_bytes d = body_bytes (pd_files d) \<and> hunk_body_bytes d \<le> MAX_GIT_HUNK_BODY_BYTES
    \<and> distinct (map h_id (all_hunks d))"
  using parse_unified_diff_ok[OF assms] by (auto simp: diff_ok_def file_ok_def hunks_ok_def)

theorem parsed_diff_consistent_witness:
  "total_hunks demo_parsed = 1 \<and> distinct (map h_id (all_hunks demo_parsed))"
proof -
  have "length demo_diff \<le> usize_max - 10000000" by (simp add: demo_diff_def usize_max_def)
  from parsed_diff_consistent[OF demo_parse this] show ?thesis by (simp add: ex_parsed_def)
qed

section \<open>Supported files\<close>

text \<open>A file the parser reports as stageable is a plain modification of one file: the old and the new
  path are the same path, which the path rules accept; it is not binary, its only kind of change is
  \<open>modified\<close>, it has at least one hunk, and the two file header lines of the diff name that path.\<close>

theorem supported_file_is_plain:
  assumes "parse_unified_diff sha da diff = Inr d" "length diff \<le> usize_max - 10000000"
    and "f \<in> set (pd_files d)" "supported f"
  shows "fh_old_path f = Some (fh_path f) \<and> validate_repo_relative_path (fh_path f) = Inr ()
    \<and> \<not> fh_binary f \<and> change_kinds f = [''modified''] \<and> fh_status f = Modified \<and> fh_hunks f \<noteq> []
    \<and> (\<exists>h. old_file_header f = Some h \<and> file_header_path_matches h ''--- '' ''a/'' (fh_path f))
    \<and> (\<exists>h. new_file_header f = Some h \<and> file_header_path_matches h ''+++ '' ''b/'' (fh_path f))"
proof -
  obtain i where "i < length (pd_files d)" "f = pd_files d ! i" using assms(3) by (metis in_set_conv_nth)
  then have "file_ok i f" using parse_unified_diff_ok[OF assms(1,2)] by (simp add: diff_ok_def)
  then show ?thesis using assms(4) by (simp add: file_ok_def)
qed

theorem supported_file_is_plain_witness:
  "validate_repo_relative_path ''f'' = Inr () \<and> fh_hunks (demo_file 0) \<noteq> []"
proof -
  have "length demo_diff \<le> usize_max - 10000000" by (simp add: demo_diff_def usize_max_def)
  moreover have "demo_file 0 \<in> set (pd_files demo_parsed)" "supported (demo_file 0)" "fh_path (demo_file 0) = ''f''"
    by (simp_all add: ex_parsed_def ex_file_def)
  ultimately show ?thesis using supported_file_is_plain[OF demo_parse] by metis
qed

section \<open>Looking hunks up\<close>

definition hunk_pairs :: "parsed_diff \<Rightarrow> (bytes \<times> file_hunks \<times> parsed_hunk) list" where
  "hunk_pairs d = concat (map (\<lambda>f. map (\<lambda>h. (h_id h, f, h)) (fh_hunks f)) (pd_files d))"

lemma fill_map: "foldl (\<lambda>m h. m(g h \<mapsto> v h)) m hs = m ++ map_of (rev (map (\<lambda>h. (g h, v h)) hs))"
proof (induction hs arbitrary: m)
  case (Cons h hs)
  let ?t = "map_of (rev (map (\<lambda>h. (g h, v h)) hs))"
  have eq: "m(g h \<mapsto> v h) ++ ?t = m ++ ([g h \<mapsto> v h] ++ ?t)"
    by (rule ext) (simp add: map_add_def split: option.split)
  with Cons.IH[of "m(g h \<mapsto> v h)"] show ?case
    by (simp only: foldl_Cons list.map rev.simps map_of_append map_of.simps fst_conv snd_conv eq)
qed simp

lemma hunk_lookup_map_of: "hunk_lookup d = map_of (rev (hunk_pairs d))"
proof -
  have "foldl (\<lambda>m f. foldl (\<lambda>m h. m(h_id h \<mapsto> (f, h))) m (fh_hunks f)) m fs
      = m ++ map_of (rev (concat (map (\<lambda>f. map (\<lambda>h. (h_id h, f, h)) (fh_hunks f)) fs)))" for fs m
    by (induction fs arbitrary: m) (simp_all add: fill_map map_of_append)
  from this[of Map.empty "pd_files d"] show ?thesis
    by (simp only: hunk_lookup_def hunk_pairs_def empty_map_add)
qed

lemma hunk_pairs_keys: "map fst (hunk_pairs d) = map h_id (all_hunks d)"
  by (simp add: hunk_pairs_def all_hunks_def map_concat comp_def)

lemma hunk_lookup_iff:
  assumes "distinct (map h_id (all_hunks d))"
  shows "hunk_lookup d i = Some (f, h) \<longleftrightarrow> f \<in> set (pd_files d) \<and> h \<in> set (fh_hunks f) \<and> h_id h = i"
proof -
  have keys: "distinct (map fst (rev (hunk_pairs d)))" using assms hunk_pairs_keys[of d] by (simp add: rev_map[symmetric])
  then show ?thesis unfolding hunk_lookup_map_of map_of_eq_Some_iff[OF keys]
    by (auto simp: hunk_pairs_def)
qed

text \<open>Looking a hunk up by its identifier in a parsed diff finds a hunk exactly when the diff has it:
  it finds the one hunk with that identifier, together with the file that holds it, and finds nothing
  for any other identifier.\<close>

theorem hunk_lookup_exact:
  assumes "parse_unified_diff sha da diff = Inr d" "length diff \<le> usize_max - 10000000"
  shows "hunk_lookup d i = Some (f, h) \<longleftrightarrow> f \<in> set (pd_files d) \<and> h \<in> set (fh_hunks f) \<and> h_id h = i"
  using parse_unified_diff_ok[OF assms] by (intro hunk_lookup_iff) (simp add: diff_ok_def)

theorem hunk_lookup_exact_witness: "hunk_lookup demo_parsed (h_id (demo_hunk 0)) = Some (demo_file 0, demo_hunk 0)"
proof -
  have "length demo_diff \<le> usize_max - 10000000" by (simp add: demo_diff_def usize_max_def)
  from hunk_lookup_exact[OF demo_parse this, of "h_id (demo_hunk 0)" "demo_file 0" "demo_hunk 0"] show ?thesis
    by (simp add: ex_parsed_def ex_file_def)
qed

section \<open>Round trips\<close>

text \<open>Splitting a text into lines that keep their endings loses nothing: the pieces concatenate to the
  text, no piece is empty, and the index loop of the code computes the lines of the reference splitter
  (which ends a line at every LF, CR LF and lone CR).\<close>

theorem keep_endings_partition:
  "concat (split_lines_keep_endings t) = t \<and> [] \<notin> set (split_lines_keep_endings t)
    \<and> split_lines_keep_endings t = map (\<lambda>(c, k). c @ nl_bytes k) (lines_of t)"
  using text_lines_nonempty[of t]
  by (simp add: split_lines_keep_endings_eq concat_text_lines) (simp add: text_lines_def)

text \<open>The parser of quoted paths inverts git's quoting: for every path, the C-quoted form (escapes for
  control characters, quotes and backslashes, three octal digits for other bytes outside printable
  ASCII) is read back as exactly that path, whatever follows it, and the count of bytes consumed is the
  length of the quoted form.  A path that is not UTF-8 is refused.\<close>

theorem quoted_path_roundtrip:
  "parse_c_quoted_path (c_quote s @ rest)
     = (if utf8_valid s then Inr (s, length (c_quote s)) else Inl ''quoted path is not valid UTF-8'')"
  by (rule parse_c_quote)

text \<open>Reading a hunk header as git prints it gives back its four numbers, for all numbers that fit in
  an \<open>i64\<close>, with the count of one left out as git does, whatever section heading follows.\<close>

theorem hunk_header_roundtrip:
  assumes "a < 2 ^ 63" "b < 2 ^ 63" "c < 2 ^ 63" "d < 2 ^ 63"
  shows "parse_hunk_header (print_hunk_header a b c d heading) = Inr (int a, int b, int c, int d)"
  by (rule parse_print_hunk_header[OF assms])

theorem hunk_header_roundtrip_witness:
  "parse_hunk_header (''@@ -12,3 +14 @@ fn main()'' @ [LF]) = Inr (12, 3, 14, 1)"
proof -
  have "''@@ -12,3 +14 @@ fn main()'' @ [LF] = print_hunk_header 12 3 14 1 ('' fn main()'' @ [LF])"
    by code_simp
  then show ?thesis using hunk_header_roundtrip[of 12 3 14 1 "'' fn main()'' @ [LF]"] by simp
qed

end
