(* ===== verification/VerifyProps.thy ===== *)
theory VerifyProps
  imports HunkVerify DiffClaims
begin

text \<open>
  The properties of the count verification: what the checks establish about the hunks of the diffs
  before and after, and a case in which they reject a correct result.
\<close>

section \<open>Where identifiers come from\<close>

definition id_form :: "(bytes \<Rightarrow> bytes) \<Rightarrow> parsed_hunk \<Rightarrow> bool" where
  "id_form sha h \<longleftrightarrow>
     (\<exists>x. h_id h = nat_dec (h_file_index h) @ CHR ''.'' # nat_dec (h_index h) @ CHR ''.'' # sha x)"

lemma parse_hunks_ids: "parse_hunks sha da fi op np ls hi rs = Inr hs \<Longrightarrow> h \<in> set hs \<Longrightarrow> id_form sha h"
proof (induction rs arbitrary: hi hs)
  case (Cons r rs)
  obtain s e where "r = (s, e)" by (cases r)
  with Cons.prems(1) obtain x hs' p where
      x: "hs = x # hs'" "h_id x = hunk_id sha (da_repo da) (da_staged da) (da_context da) (da_paths da) fi hi op np
             (ls ! s) p" "h_file_index x = fi" "h_index x = hi"
    and rest: "parse_hunks sha da fi op np ls (hi + 1) rs = Inr hs'"
    by (auto simp: bindE_Inr_iff Let_def)
  have "id_form sha x" unfolding id_form_def x(2-4) hunk_id_def by auto
  then show ?case using Cons.IH[OF rest] Cons.prems(2) x(1) by auto
qed simp

lemma parse_file_record_ids:
  "parse_file_record sha da fi ls = Inr f \<Longrightarrow> h \<in> set (fh_hunks f) \<Longrightarrow> id_form sha h"
  using parse_hunks_ids
  by (auto simp: parse_file_record_def finish_record_def combined_record_def bindE_Inr_iff Let_def
      split: if_splits)

lemma parse_records_ids:
  assumes "parse_records sha da ls ws fs nh nb ids = Inr (fs', nh', nb')"
    and "\<forall>f \<in> set fs. \<forall>h \<in> set (fh_hunks f). id_form sha h"
  shows "\<forall>f \<in> set fs'. \<forall>h \<in> set (fh_hunks f). id_form sha h"
  using assms
proof (induction ws arbitrary: fs nh nb ids)
  case (Cons w ws)
  obtain s e where "w = (s, e)" by (cases w)
  with Cons.prems(1) obtain f nh1 nb1 ids1 where
      f: "parse_file_record sha da (length fs) (take (e - s) (drop s ls)) = Inr f"
    and rest: "parse_records sha da ls ws (fs @ [f\<lparr> fh_index := length fs \<rparr>]) nh1 nb1 ids1 = Inr (fs', nh', nb')"
    by (auto simp: bindE_Inr_iff Let_def split: if_splits)
  have "\<forall>g \<in> set (fs @ [f\<lparr> fh_index := length fs \<rparr>]). \<forall>h \<in> set (fh_hunks g). id_form sha h"
    using Cons.prems(2) parse_file_record_ids[OF f] by auto
  then show ?case using Cons.IH[OF rest] by blast
qed auto

lemma parse_unified_diff_ids:
  assumes "parse_unified_diff sha da diff = Inr d" "f \<in> set (pd_files d)" "h \<in> set (fh_hunks f)"
  shows "id_form sha h"
proof (cases "diff = []")
  case True
  then show ?thesis using assms by (auto simp: parse_unified_diff_def Let_def split: if_splits)
next
  case False
  then obtain ls ws where "parse_records sha da ls ws [] 0 0 [] = Inr (pd_files d, total_hunks d, hunk_body_bytes d)"
    using assms(1) by (auto simp: parse_unified_diff_def Let_def bindE_Inr_iff split: if_splits)
  then show ?thesis using parse_records_ids assms(2,3) by fastforce
qed

lemma id_position:
  assumes "id_form sha h" "id_form sha g" "h_id h = h_id g"
  shows "h_file_index h = h_file_index g"
proof -
  have dot: "CHR ''.'' \<notin> set (nat_dec n)" for n by (rule nat_dec_notin) simp
  obtain x y where "nat_dec (h_file_index h) @ CHR ''.'' # nat_dec (h_index h) @ CHR ''.'' # sha x
      = nat_dec (h_file_index g) @ CHR ''.'' # nat_dec (h_index g) @ CHR ''.'' # sha y"
    using assms unfolding id_form_def by metis
  then have "nat_dec (h_file_index h) = nat_dec (h_file_index g)" using cut_at[OF dot dot] by blast
  then show ?thesis using digits_val_nat_dec by (metis option.inject)
qed

lemma hunk_position:
  assumes "diff_ok d" "f \<in> set (pd_files d)" "h \<in> set (fh_hunks f)"
  shows "h_file_index h = fh_index f \<and> fh_index f < length (pd_files d) \<and> h_index h < length (fh_hunks f)"
proof -
  obtain i where i: "i < length (pd_files d)" "pd_files d ! i = f" using assms(2) by (metis in_set_conv_nth)
  have "\<forall>i < length (pd_files d). file_ok i (pd_files d ! i)" using assms(1) unfolding diff_ok_def by (rule conjunct1)
  then have "file_ok i f" using i by blast
  then have f: "hunks_ok i 0 (fh_hunks f)" "fh_index f = i" unfolding file_ok_def by blast+
  obtain j where "j < length (fh_hunks f)" "fh_hunks f ! j = h" using assms(3) by (metis in_set_conv_nth)
  then have "h_file_index h = i \<and> h_index h = j" using f(1) unfolding hunks_ok_def hunk_ok_def by force
  then show ?thesis using f(2) i(1) \<open>j < length (fh_hunks f)\<close> by simp
qed

section \<open>What equal signatures say\<close>

lemma hunk_fields_ids:
  "concat (map hunk_fields hs) = concat (map hunk_fields gs) \<Longrightarrow> map h_id hs = map h_id gs"
proof (induction hs arbitrary: gs)
  case Nil
  then show ?case by (cases gs) (simp_all add: hunk_fields_def push_field_def)
next
  case (Cons h hs)
  show ?case
  proof (cases gs)
    case Nil
    then show ?thesis using Cons.prems by (simp add: hunk_fields_def push_field_def)
  next
    case (Cons g gs')
    from Cons.prems have "hunk_fields h @ concat (map hunk_fields hs) = hunk_fields g @ concat (map hunk_fields gs')"
      by (simp add: Cons)
    then have "push_field ''hunk_id'' (h_id h) @ push_field ''hunk_header'' (h_header h)
          @ push_field ''hunk_body'' (h_body h) @ concat (map hunk_fields hs)
        = push_field ''hunk_id'' (h_id g) @ push_field ''hunk_header'' (h_header g)
          @ push_field ''hunk_body'' (h_body g) @ concat (map hunk_fields gs')"
      unfolding hunk_fields_def[of h] hunk_fields_def[of g] append_assoc .
    then have "h_id h = h_id g \<and> concat (map hunk_fields hs) = concat (map hunk_fields gs')"
      by (blast dest!: push_field_inj)
    then show ?thesis using Cons.IH Cons by simp
  qed
qed

lemma signature_parts:
  assumes "file_inventory_signature f = file_inventory_signature g"
  shows "fh_path f = fh_path g \<and> map h_id (fh_hunks f) = map h_id (fh_hunks g)"
proof -
  from assms have "file_fields f @ concat (map hunk_fields (fh_hunks f))
      = file_fields g @ concat (map hunk_fields (fh_hunks g))" by (simp add: file_inventory_signature_def)
  then have "fh_path f = fh_path g \<and> concat (map hunk_fields (fh_hunks f)) = concat (map hunk_fields (fh_hunks g))"
    unfolding file_fields_def append_assoc by (blast dest!: push_field_inj)
  then show ?thesis using hunk_fields_ids by blast
qed

lemma scoped_counts_multiset:
  assumes "length (diff_keys pre_target) + length sel \<le> usize_max"
  shows "verify_scoped_count_delta a (body_counts_from_selected sel) (body_counts_from_diff pre_source)
      (body_counts_from_diff pre_target) (body_counts_from_diff post_source) (body_counts_from_diff post_target)
    \<longleftrightarrow> mset (selection_keys sel) \<subseteq># mset (diff_keys pre_source)
      \<and> mset (diff_keys post_source) = mset (diff_keys pre_source) - mset (selection_keys sel)
      \<and> mset (diff_keys post_target) = mset (diff_keys pre_target) + mset (selection_keys sel)"
  unfolding body_counts_from_selected_def body_counts_from_diff_def
  by (rule scoped_delta_iff) (use assms in \<open>simp add: selection_keys_def\<close>)

section \<open>Properties\<close>

text \<open>C24. Refinement. The scoped check is an equation between multisets of hunks, for each action: it passes
  exactly when the selected hunks occurred in the source diff, the source diff has lost just them, and
  the target diff has gained just them; a hunk is counted by its path and body.\<close>

theorem scoped_check_is_multiset:
  assumes "length (diff_keys pre_target) + length sel \<le> usize_max"
  shows "verify_scoped_count_delta a (body_counts_from_selected sel) (body_counts_from_diff pre_source)
      (body_counts_from_diff pre_target) (body_counts_from_diff post_source) (body_counts_from_diff post_target)
    \<longleftrightarrow> mset (selection_keys sel) \<subseteq># mset (diff_keys pre_source)
      \<and> mset (diff_keys post_source) = mset (diff_keys pre_source) - mset (selection_keys sel)
      \<and> mset (diff_keys post_target) = mset (diff_keys pre_target) + mset (selection_keys sel)"
  by (rule scoped_counts_multiset[OF assms])

definition demo_empty :: parsed_diff where
  "demo_empty = \<lparr> pd_id = [], pd_bytes = 0, pd_files = [], total_hunks = 0, hunk_body_bytes = 0 \<rparr>"

theorem scoped_check_is_multiset_witness:
  "verify_scoped_count_delta StageOnly (body_counts_from_selected [(demo_file 0, demo_hunk 0)])
     (body_counts_from_diff demo_parsed) (body_counts_from_diff demo_empty)
     (body_counts_from_diff demo_empty) (body_counts_from_diff demo_parsed)"
proof -
  have "length (diff_keys demo_empty) + length [(demo_file 0, demo_hunk 0)] \<le> usize_max"
    by (simp add: demo_empty_def diff_keys_def usize_max_def)
  from scoped_check_is_multiset[OF this] show ?thesis
    by (simp add: demo_empty_def ex_parsed_def diff_keys_def file_keys_def selection_keys_def ex_file_def)
qed

abbreviation unselected_sigs :: "bytes list \<Rightarrow> parsed_diff \<Rightarrow> bytes list" where
  "unselected_sigs paths d \<equiv>
     map file_inventory_signature (filter (\<lambda>f. fh_path f \<notin> set paths) (pd_files d))"

abbreviation unstageable_sigs :: "parsed_diff \<Rightarrow> bytes list" where
  "unstageable_sigs d \<equiv>
     map file_inventory_signature (filter (\<lambda>f. \<not> (supported f \<and> fh_hunks f \<noteq> [])) (pd_files d))"

lemma staged_group_iff:
  "full_staged_diff_matches_selected_group d (body_counts_from_selected sel)
    \<longleftrightarrow> list_all (\<lambda>f. supported f \<and> fh_hunks f \<noteq> []) (pd_files d)
        \<and> mset (diff_keys d) = mset (selection_keys sel)"
  unfolding full_staged_diff_matches_selected_group_def body_counts_from_selected_def
    body_counts_from_diff_def same_map_count_all ..

lemma unstaged_group_iff:
  "full_unstaged_diff_matches_prepare_commit_delta pre post (body_counts_from_selected sel) paths
    \<longleftrightarrow> mset (unselected_sigs paths pre) = mset (unselected_sigs paths post)
        \<and> mset (unstageable_sigs pre) = mset (unstageable_sigs post)
        \<and> mset (selection_keys sel) \<subseteq># mset (diff_keys pre)
        \<and> mset (diff_keys post) = mset (diff_keys pre) - mset (selection_keys sel)"
proof -
  let ?A = "same_map (unselected_file_inventory_counts pre paths) (unselected_file_inventory_counts post paths)"
  let ?B = "same_map (unsupported_or_hunkless_file_counts pre) (unsupported_or_hunkless_file_counts post)"
  have A: "?A \<longleftrightarrow> mset (unselected_sigs paths pre) = mset (unselected_sigs paths post)"
    unfolding unselected_file_inventory_counts_def same_map_count_all ..
  have B: "?B \<longleftrightarrow> mset (unstageable_sigs pre) = mset (unstageable_sigs post)"
    unfolding unsupported_or_hunkless_file_counts_def same_map_count_all de_Morgan_conj not_not ..
  show ?thesis
    unfolding full_unstaged_diff_matches_prepare_commit_delta_def Let_def A B
      body_counts_from_selected_def body_counts_from_diff_def unstaged_delta_iff
    by (simp only: if_False if_True not_not split: if_split) blast
qed

text \<open>The two checks of a commit group are exact. The staged diff passes exactly when all its files are
  stageable, none is without hunks, and its hunks are the selected ones.  The unstaged diff passes
  exactly when the files outside the selected paths and the files that cannot be staged are the same as
  before, and its hunks are those before without the selected ones.\<close>

theorem commit_group_checks_exact:
  "(full_staged_diff_matches_selected_group d (body_counts_from_selected sel)
      \<longleftrightarrow> list_all (\<lambda>f. supported f \<and> fh_hunks f \<noteq> []) (pd_files d)
          \<and> mset (diff_keys d) = mset (selection_keys sel))
   \<and> (full_unstaged_diff_matches_prepare_commit_delta pre post (body_counts_from_selected sel) paths
      \<longleftrightarrow> mset (unselected_sigs paths pre) = mset (unselected_sigs paths post)
          \<and> mset (unstageable_sigs pre) = mset (unstageable_sigs post)
          \<and> mset (selection_keys sel) \<subseteq># mset (diff_keys pre)
          \<and> mset (diff_keys post) = mset (diff_keys pre) - mset (selection_keys sel))"
  using staged_group_iff unstaged_group_iff by (rule conjI)

lemma pinned_position:
  assumes "parse_unified_diff sha da dpre = Inr pre" "parse_unified_diff sha da dpost = Inr post"
    and "length dpre \<le> usize_max - 10000000" "length dpost \<le> usize_max - 10000000"
    and "f \<in> set (pd_files pre)" "g \<in> set (pd_files post)" "fh_hunks f \<noteq> []"
    and "file_inventory_signature f = file_inventory_signature g"
  shows "fh_index f = fh_index g"
proof -
  obtain h hs where h: "fh_hunks f = h # hs" using assms(7) by (cases "fh_hunks f") auto
  then obtain h2 hs2 where g: "fh_hunks g = h2 # hs2" "h_id h2 = h_id h"
    using signature_parts[OF assms(8)] by (cases "fh_hunks g") auto
  have "id_form sha h" "id_form sha h2"
    using parse_unified_diff_ids[OF assms(1,5)] parse_unified_diff_ids[OF assms(2,6)] h g by auto
  then have "h_file_index h = h_file_index h2" using id_position g(2) by metis
  moreover have "h_file_index h = fh_index f" "h_file_index h2 = fh_index g"
    using hunk_position[OF parse_unified_diff_ok[OF assms(1,3)] assms(5)]
      hunk_position[OF parse_unified_diff_ok[OF assms(2,4)] assms(6)] h g by auto
  ultimately show ?thesis by simp
qed

text \<open>Staging every change of a file can make a correct group fail its verification. The identifiers of
  hunks, which contain the position of their file in the diff, are part of the inventory of the files
  that must not change.  So if the last file of the unstaged diff is not selected and has hunks, and
  the selected files were in the diff before and are gone from it afterwards, the check of the unstaged
  diff never passes, even when the remaining files and their changes are exactly the same.\<close>

theorem whole_file_staging_rejected:
  assumes "parse_unified_diff sha da dpre = Inr pre" "parse_unified_diff sha da dpost = Inr post"
    and "length dpre \<le> usize_max - 10000000" "length dpost \<le> usize_max - 10000000"
    and "pd_files pre \<noteq> []" "fh_path (last (pd_files pre)) \<notin> set paths" "fh_hunks (last (pd_files pre)) \<noteq> []"
    and "\<exists>f \<in> set (pd_files pre). fh_path f \<in> set paths" "\<forall>f \<in> set (pd_files post). fh_path f \<notin> set paths"
  shows "\<not> full_unstaged_diff_matches_prepare_commit_delta pre post (body_counts_from_selected sel) paths"
proof
  let ?un = "filter (\<lambda>f. fh_path f \<notin> set paths)"
  assume "full_unstaged_diff_matches_prepare_commit_delta pre post (body_counts_from_selected sel) paths"
  then have eq: "mset (map file_inventory_signature (?un (pd_files pre)))
      = mset (map file_inventory_signature (?un (pd_files post)))"
    unfolding unstaged_group_iff by blast
  have post: "?un (pd_files post) = pd_files post" using assms(9) by (simp add: filter_id_conv)
  have "length (?un (pd_files pre)) < length (pd_files pre)" using assms(8) by (metis length_filter_less)
  moreover have "length (?un (pd_files pre)) = length (pd_files post)"
    using mset_eq_length[OF eq] post by simp
  ultimately have len: "length (pd_files post) < length (pd_files pre)" by simp
  let ?f = "last (pd_files pre)"
  have f: "?f \<in> set (?un (pd_files pre))" using assms(5,6) by simp
  then have "file_inventory_signature ?f \<in># mset (map file_inventory_signature (?un (pd_files post)))"
    unfolding eq[symmetric] by simp
  then obtain g where g: "g \<in> set (pd_files post)" "file_inventory_signature ?f = file_inventory_signature g" by auto
  have "fh_index ?f = fh_index g"
    using pinned_position[OF assms(1-4) _ g(1) assms(7) g(2)] assms(5) by simp
  moreover have "fh_index ?f = length (pd_files pre) - 1"
    using parse_unified_diff_ok[OF assms(1,3)] assms(5) by (simp add: diff_ok_def file_ok_def last_conv_nth)
  moreover have "fh_index g < length (pd_files post)"
    using parse_unified_diff_ok[OF assms(2,4)] g(1) unfolding diff_ok_def file_ok_def by (metis in_set_conv_nth)
  ultimately show False using len by simp
qed

theorem whole_file_staging_rejected_witness:
  "\<not> full_unstaged_diff_matches_prepare_commit_delta demo_parsed2 demo_parsed (body_counts_from_selected []) [''e'']"
proof (rule whole_file_staging_rejected[OF demo_parse2 demo_parse])
  show "length demo_diff2 \<le> usize_max - 10000000" "length demo_diff \<le> usize_max - 10000000"
    by (simp_all add: demo_diff2_def demo_diff_def demo_bin_lines_def usize_max_def)
qed (simp_all add: demo_parsed2_def ex_parsed_def ex_file_def demo_bin_file_def)

end
