(* ===== verification/StageProps.thy ===== *)
theory StageProps
  imports StageTrace VerifyProps
begin

text \<open>
  The properties of the handler of \<open>GitStageHunks\<close>: which commands it may run and in which order,
  and what a reply that claims success guarantees.
\<close>

section \<open>The parts that only look\<close>

lemma emits_plan_stage [emits_intros]: "emits reads_only (plan_stage E req)"
  unfolding plan_stage_def reject_stale_diff_def require_clean_index_def reject_mixed_direction_files_def
    baseline_unstaged_def
  by (intro emits_intros)

lemma emits_capture_blobs [emits_intros]: "emits reads_only (capture_blobs E pl)"
  unfolding capture_blobs_def by (intro emits_intros)

lemma emits_verify_after_apply [emits_intros]: "emits reads_only (verify_after_apply E pl blobs)"
  unfolding verify_after_apply_def verify_index_blob_delta_def verify_commit_group_def Let_def
  by (intro emits_intros)

section \<open>The parts that apply\<close>

abbreviation cleared :: "stage_plan \<Rightarrow> phase" where
  "cleared pl \<equiv> Cleared (pl_patch pl) (pl_action pl = Unstage) (sc_context (pl_scope pl) = 0)"

text \<open>The verdict of the handler and the phase it stops in.\<close>

fun stage_end :: "outcome + json \<Rightarrow> phase \<Rightarrow> bool" where
  "stage_end (Inr j) (Touched ev) \<longleftrightarrow> accepted ev"
| "stage_end (Inr j) _ \<longleftrightarrow> False"
| "stage_end (Inl (Structured e)) (Touched ev) \<longleftrightarrow> isl (snd ev)"
| "stage_end (Inl (Structured e)) _ \<longleftrightarrow> True"
| "stage_end (Inl (Payload j)) (Touched ev) \<longleftrightarrow> \<not> accepted ev"
| "stage_end (Inl (Payload j)) Refused \<longleftrightarrow> True"
| "stage_end (Inl (Payload j)) _ \<longleftrightarrow> False"

lemma drives_look: "(\<And>fs. Q (f fs) p) \<Longrightarrow> drives p (gm_look E f) Q"
  by (auto simp: drives_def does_def gm_look_def Let_def intro!: exI[of _ "[]"])

lemma drives_lock:
  assumes "\<And>b. drives p (f b) Q"
  shows "drives p (gm_bind (gm_map_err h (apply_failed_on_index_lock E repo ex timeout)) f) Q"
proof -
  have "drives p (apply_failed_on_index_lock E repo ex timeout) (\<lambda>r q. q = p \<and> \<not> isl r)"
    unfolding apply_failed_on_index_lock_def
    by (rule drives_case[where R = "\<lambda>_ q. q = p"])
      (auto simp: resolve_index_lock_path_def intro!: drives_ret drives_look drives_reads emits_intros emits_reads_run)
  from drives_map_err[OF this, where Q = "\<lambda>r q. q = p \<and> \<not> isl r"] show ?thesis
    by (rule drives_bind) (use assms in auto)
qed

lemma drives_preflight:
  "drives Examining (preflight E pl) (\<lambda>r q. case r of Inl e \<Rightarrow> stage_end (Inl e) q | Inr _ \<Rightarrow> q = cleared pl)"
  unfolding preflight_def
  by (rule drives_bind[OF drives_check])
    (auto simp: check_outcome_def split: if_splits intro!: drives_fail drives_ret drives_lock)

lemma drives_apply_patch:
  "drives (cleared pl) (apply_patch E pl) (\<lambda>r q. case r of Inl e \<Rightarrow> stage_end (Inl e) q
     | Inr _ \<Rightarrow> (\<exists>ev. q = Touched ev \<and> accepted ev))"
  unfolding apply_patch_def
  by (rule drives_bind[OF drives_apply[OF refl]])
    (auto simp: apply_outcome_def split: if_splits intro!: drives_fail drives_ret drives_lock)

lemma drives_structured:
  assumes "emits reads_only m" "\<And>e. Q (Inl (Structured (h e))) p" "\<And>x. drives p (f x) Q"
  shows "drives p (gm_bind (gm_map_err (\<lambda>e. Structured (h e)) m) f) Q"
  by (rule drives_bind[OF drives_map_err[where R = "\<lambda>_ q. q = p" and Q = "\<lambda>r q. q = p \<and> (\<forall>e. r = Inl e \<longrightarrow> (\<exists>x. e = Structured (h x)))"]])
    (use assms in \<open>auto intro: drives_reads\<close>)

lemma drives_answer:
  assumes "accepted ev" "emits reads_only v"
  shows "drives (Touched ev) (gm_case v (\<lambda>f. gm_ret (a f)) (\<lambda>x. gm_ret (b x))) stage_end"
  by (rule drives_case[where R = "\<lambda>_ q. q = Touched ev"]) (use assms in \<open>auto intro: drives_reads drives_ret\<close>)

lemma drives_handle_git_stage_hunks: "drives Examining (handle_git_stage_hunks E req) stage_end"
  unfolding handle_git_stage_hunks_def
proof (rule drives_structured[OF emits_plan_stage])
  fix pl
  show "drives Examining (gm_bind (preflight E pl) (\<lambda>_. gm_bind (capture_blobs E pl)
      (\<lambda>blobs. gm_bind (apply_patch E pl) (\<lambda>ex. gm_case (verify_after_apply E pl blobs)
         (\<lambda>f. gm_ret (stage_reply req pl ex (Inl f))) (\<lambda>vs. gm_ret (stage_reply req pl ex (Inr vs))))))) stage_end"
  proof (rule drives_bind[OF drives_preflight], simp)
    fix u q assume "case Inr u of Inl e \<Rightarrow> stage_end (Inl e) q | Inr _ \<Rightarrow> q = cleared pl"
    then have q: "q = cleared pl" by simp
    show "drives q (gm_bind (capture_blobs E pl)
      (\<lambda>blobs. gm_bind (apply_patch E pl) (\<lambda>ex. gm_case (verify_after_apply E pl blobs)
         (\<lambda>f. gm_ret (stage_reply req pl ex (Inl f))) (\<lambda>vs. gm_ret (stage_reply req pl ex (Inr vs)))))) stage_end"
      unfolding q capture_blobs_def
      by (rule drives_structured)
        (auto intro!: emits_intros drives_bind[OF drives_apply_patch] drives_answer)
  qed
qed simp

end
