(* ===== verification/StageSound.thy ===== *)
theory StageSound
  imports StageProps
begin

text \<open>
  What a program that returned has learned from git: a rule for each way of composing programs says
  which commands of its own trace its result rests on.  From it, what a reply of \<open>GitStageHunks\<close> that
  claims success rests on.
\<close>

section \<open>What a result rests on\<close>

definition tells :: "('w, 'e, 'a) gm \<Rightarrow> ('a \<Rightarrow> run_event list \<Rightarrow> bool) \<Rightarrow> bool" where
  "tells m K \<longleftrightarrow> (\<forall>s. case m s of
     (Inl _, _) \<Rightarrow> True
   | (Inr x, s') \<Rightarrow> \<exists>t. gs_trace s' = gs_trace s @ t \<and> K x t)"

lemma tellsD: "tells m K \<Longrightarrow> m s = (Inr x, s') \<Longrightarrow> \<exists>t. gs_trace s' = gs_trace s @ t \<and> K x t"
  unfolding tells_def by (drule spec[of _ s]) simp

lemma tellsI: "(\<And>s x s'. m s = (Inr x, s') \<Longrightarrow> \<exists>t. gs_trace s' = gs_trace s @ t \<and> K x t) \<Longrightarrow> tells m K"
  unfolding tells_def by (auto split: sum.split prod.split)

named_theorems tells_intros

lemma tells_bind:
  assumes "tells m J" "\<And>x t1. J x t1 \<Longrightarrow> tells (f x) (\<lambda>y t2. K y (t1 @ t2))"
  shows "tells (gm_bind m f) K"
proof (rule tellsI)
  fix s y s' assume "gm_bind m f s = (Inr y, s')"
  then obtain x s1 where m: "m s = (Inr x, s1)" and f: "f x s1 = (Inr y, s')"
    by (auto simp: gm_bind_def gm_case_def gm_fail_def split: sum.splits prod.splits)
  from tellsD[OF assms(1) m] obtain t1 where t1: "gs_trace s1 = gs_trace s @ t1" "J x t1" by blast
  from tellsD[OF assms(2)[OF t1(2)] f] t1(1) show "\<exists>t. gs_trace s' = gs_trace s @ t \<and> K y t" by force
qed

lemma tells_weaken: "tells m J \<Longrightarrow> (\<And>x t. J x t \<Longrightarrow> K x t) \<Longrightarrow> tells m K"
  by (rule tellsI) (blast dest: tellsD)

lemma tells_map_err: "tells m K \<Longrightarrow> tells (gm_map_err h m) K"
  by (rule tellsI)
    (auto simp: gm_map_err_def gm_case_def gm_fail_def gm_ret_def dest: tellsD split: sum.splits prod.splits)

lemma tells_ret: "K x [] \<Longrightarrow> tells (gm_ret x) K"
  by (rule tellsI) (simp add: gm_ret_def)

lemma tells_fail [tells_intros]: "tells (gm_fail e) K"
  by (rule tellsI) (simp add: gm_fail_def)

lemma tells_lift [tells_intros]: "tells (gm_lift r) (\<lambda>x t. r = Inr x \<and> t = [])"
  by (rule tellsI) (simp add: gm_lift_def)

lemma tells_look: "tells (gm_look E f) (\<lambda>_ t. t = [])"
  by (rule tellsI) (auto simp: gm_look_def Let_def)

lemma tells_reads: "emits reads_only m \<Longrightarrow> tells m (\<lambda>_. list_all reads_only)"
  by (rule tellsI) (metis emitsD snd_conv)

section \<open>Commands and what they printed\<close>

definition printed :: "bytes list \<Rightarrow> run_event list \<Rightarrow> bytes \<Rightarrow> bool" where
  "printed sub t out \<longleftrightarrow>
     (\<exists>c rep. (c, Inr rep) \<in> set t \<and> ch_args c = build_git_args sub \<and> ch_stdin c = None
        \<and> cr_status rep = Some 0 \<and> \<not> cr_timed_out rep \<and> cr_stdout rep = out)"

lemma printed_append [simp]: "printed sub (t @ u) out \<longleftrightarrow> printed sub t out \<or> printed sub u out"
  by (auto simp: printed_def)

lemma tells_run_git:
  "tells (run_git E wd sub timeout mo me) (\<lambda>ex t. success ex \<longrightarrow>
     (\<exists>out n. printed sub t out \<and> stdout_bytes ex = take n out \<and> n \<le> MAX_OUTPUT_BYTES
        \<and> (truncated_stdout ex \<longleftrightarrow> n < length out)))"
proof (rule tellsI)
  fix s ex s' assume run: "run_git E wd sub timeout mo me s = (Inr ex, s')"
  let ?n = "clamp mo 1 MAX_OUTPUT_BYTES"
  from run obtain c rep wd' me' where c: "gs_trace s' = gs_trace s @ [(c, Inr rep)]" "ch_args c = build_git_args sub"
      "ch_stdin c = None" and ex: "ex = exec_result (build_git_args sub) wd' None ?n me' rep"
    by (auto simp: run_git_def run_git_with_stdin_def gm_bind_def gm_case_def gm_look_def gm_spawn_def gm_ret_def
        gm_fail_def Let_def split: if_splits sum.splits prod.splits option.splits)
  have n: "?n \<le> MAX_OUTPUT_BYTES" by (simp add: clamp_def MAX_OUTPUT_BYTES_def)
  have "success ex \<longrightarrow> printed sub [(c, Inr rep)] (cr_stdout rep) \<and> stdout_bytes ex = take ?n (cr_stdout rep)
      \<and> (truncated_stdout ex \<longleftrightarrow> ?n < length (cr_stdout rep))"
    using c by (auto simp: ex exec_result_def read_to_end_limited_eq printed_def)
  then show "\<exists>t. gs_trace s' = gs_trace s @ t \<and> (success ex \<longrightarrow>
     (\<exists>out n. printed sub t out \<and> stdout_bytes ex = take n out \<and> n \<le> MAX_OUTPUT_BYTES
        \<and> (truncated_stdout ex \<longleftrightarrow> n < length out)))"
    using c(1) n by blast
qed

lemma tells_run_git_prefix:
  "tells (run_git E wd sub timeout mo me) (\<lambda>ex t. success ex \<longrightarrow> (\<exists>out n. printed sub t out \<and> stdout_bytes ex = take n out))"
  by (rule tells_weaken[OF tells_run_git]) blast

section \<open>Diffs\<close>

definition printed_diff :: "'w git_env \<Rightarrow> repo_context \<Rightarrow> hunk_scope \<Rightarrow> run_event list \<Rightarrow> parsed_diff \<Rightarrow> bool" where
  "printed_diff E repo sc t d \<longleftrightarrow>
     (\<exists>out. printed (build_hunk_diff_args sc) t out \<and> length out \<le> MAX_OUTPUT_BYTES
        \<and> parse_unified_diff (env_sha E) (scope_args repo sc) out = Inr d)"

lemma printed_diff_append [simp]:
  "printed_diff E repo sc (t @ u) d \<longleftrightarrow> printed_diff E repo sc t d \<or> printed_diff E repo sc u d"
  by (auto simp: printed_diff_def)

lemma printed_diff_ok: "printed_diff E repo sc t d \<Longrightarrow> diff_ok d"
  by (auto simp: printed_diff_def intro!: parse_unified_diff_ok simp: MAX_OUTPUT_BYTES_def usize_max_def)

lemma tells_enumerate_diff [tells_intros]: "tells (enumerate_diff E repo sc) (\<lambda>d t. printed_diff E repo sc t d)"
  unfolding enumerate_diff_def revalidate_def
  by (rule tells_bind[OF tells_look], rule tells_bind[OF tells_map_err[OF tells_run_git]],
      rule tells_bind[OF tells_lift], rule tells_weaken[OF tells_lift])
    (auto simp: checked_diff_output_def printed_diff_def not_less split: if_splits)

section \<open>Blobs\<close>

text \<open>The blobs of some paths, as an \<open>ls-files\<close> and a \<open>cat-file\<close> for each of them gave them.\<close>

definition printed_blob :: "(bytes \<times> index_preflight) list \<Rightarrow> run_event list \<Rightarrow> bytes \<times> bytes \<Rightarrow> bool" where
  "printed_blob found t pb \<longleftrightarrow>
     (\<exists>e. map_of found (fst pb) = Some e \<and> regular_stage0 e \<and> printed [''cat-file'', ''blob'', ip_object e] t (snd pb))"

definition printed_blobs :: "bytes list \<Rightarrow> run_event list \<Rightarrow> (bytes \<times> bytes) list \<Rightarrow> bool" where
  "printed_blobs paths t blobs \<longleftrightarrow> set (map fst blobs) = set paths
     \<and> (\<exists>out n. printed (ls_files_args paths) t out
        \<and> list_all (printed_blob (parse_ls_files_preflight_stdout (take n out)) t) blobs)"

lemma printed_blob_mono: "printed_blob found t pb \<Longrightarrow> printed_blob found (t @ u) pb"
  by (auto simp: printed_blob_def)

lemma printed_blobs_mono: "printed_blobs paths t bs \<Longrightarrow> printed_blobs paths (t @ u) bs \<and> printed_blobs paths (u @ t) bs"
  by (auto simp: printed_blobs_def printed_blob_def list_all_iff; blast)

lemma tells_index_entries:
  "tells (index_entries_for_paths E repo paths timeout) (\<lambda>found t. \<exists>out n. printed (ls_files_args paths) t out
     \<and> found = parse_ls_files_preflight_stdout (take n out))"
  unfolding index_entries_for_paths_def revalidate_def Let_def
  by (rule tells_bind[OF tells_look], rule tells_bind[OF tells_map_err[OF tells_run_git_prefix]])
    (auto intro!: tells_ret tells_fail; blast)

lemma tells_read_index_blob:
  "tells (read_index_blob E repo p e timeout) (\<lambda>b t. regular_stage0 e \<and> printed [''cat-file'', ''blob'', ip_object e] t b)"
  unfolding read_index_blob_def revalidate_def
  by (auto intro!: tells_fail, rule tells_bind[OF tells_look], rule tells_bind[OF tells_map_err[OF tells_run_git]])
    (auto intro!: tells_ret tells_fail simp: not_less)

lemma tells_read_index_blobs:
  "tells (read_index_blobs E repo entries ps timeout blobs) (\<lambda>bs t.
     set (map fst bs) = set (map fst blobs) \<union> set ps
     \<and> (\<forall>pb \<in> set bs. pb \<in> set blobs \<or> printed_blob entries t pb))"
proof (induction ps arbitrary: blobs)
  case Nil
  show ?case by (auto intro!: tells_ret)
next
  case (Cons p ps)
  show ?case
  proof (cases "map_of entries p")
    case None
    then show ?thesis by (auto intro: tells_fail)
  next
    case (Some e)
    have "tells (gm_bind (read_index_blob E repo p e timeout)
        (\<lambda>b. read_index_blobs E repo entries ps timeout (AList.update p b blobs))) (\<lambda>bs t.
     set (map fst bs) = set (map fst blobs) \<union> set (p # ps)
     \<and> (\<forall>pb \<in> set bs. pb \<in> set blobs \<or> printed_blob entries t pb))"
    proof (rule tells_bind[OF tells_read_index_blob], rule tells_weaken[OF Cons.IH])
      fix b t1 bs t2
      assume b: "regular_stage0 e \<and> printed [''cat-file'', ''blob'', ip_object e] t1 b"
        and IH: "set (map fst bs) = set (map fst (AList.update p b blobs)) \<union> set ps
          \<and> (\<forall>pb \<in> set bs. pb \<in> set (AList.update p b blobs) \<or> printed_blob entries t2 pb)"
      have upd: "set (AList.update p b blobs) \<subseteq> insert (p, b) (set blobs)"
        by (induction blobs) auto
      have "printed_blob entries (t1 @ t2) (p, b)" using b Some by (auto simp: printed_blob_def)
      moreover have "printed_blob entries (t1 @ t2) pb" if "printed_blob entries t2 pb" for pb
        using that by (auto simp: printed_blob_def)
      ultimately show "set (map fst bs) = set (map fst blobs) \<union> set (p # ps)
          \<and> (\<forall>pb \<in> set bs. pb \<in> set blobs \<or> printed_blob entries (t1 @ t2) pb)"
        using IH upd by (auto simp: dom_update)
    qed
    then show ?thesis using Some by simp
  qed
qed

lemma tells_index_blobs [tells_intros]:
  "tells (index_blobs_for_paths E repo paths timeout) (\<lambda>bs t. printed_blobs paths t bs)"
  unfolding index_blobs_for_paths_def
  by (rule tells_bind[OF tells_index_entries], rule tells_weaken[OF tells_read_index_blobs])
    (auto simp: printed_blobs_def list_all_iff printed_blob_def; blast)

section \<open>The selection\<close>

lemma diff_keys_bound: "diff_ok d \<Longrightarrow> length (diff_keys d) \<le> MAX_GIT_DIFF_HUNKS"
proof -
  have "length (diff_keys d) = length (all_hunks d)"
    by (simp add: diff_keys_def all_hunks_def file_keys_def length_concat comp_def)
  then show "diff_ok d \<Longrightarrow> ?thesis" by (simp add: diff_ok_def)
qed

lemma resolve_ids_sound:
  "resolve_ids lk is = (sel, [], []) \<Longrightarrow> list_all2 (\<lambda>i x. lk i = Some x \<and> supported (fst x)) is sel"
  by (induction "is" arbitrary: sel) (auto split: prod.splits option.splits if_splits)

text \<open>The hunks a request names, as hunks of a diff.\<close>

definition selects :: "parsed_diff \<Rightarrow> bytes list \<Rightarrow> selection \<Rightarrow> bool" where
  "selects d ids sel \<longleftrightarrow> map (h_id \<circ> snd) sel = ids
     \<and> list_all (\<lambda>(f, h). f \<in> set (pd_files d) \<and> h \<in> set (fh_hunks f) \<and> supported f) sel"

lemma selected_hunks_sound:
  assumes "selected_hunks d is = Inr sel" "diff_ok d"
  shows "selects d is sel"
proof -
  have "distinct (map h_id (all_hunks d))" using assms(2) by (simp add: diff_ok_def)
  note look = hunk_lookup_iff[OF this]
  have "list_all2 (\<lambda>i x. hunk_lookup d i = Some x \<and> supported (fst x)) is sel"
    using assms(1) by (auto simp: selected_hunks_def intro!: resolve_ids_sound split: prod.splits if_splits)
  then show ?thesis unfolding selects_def by (induction rule: list_all2_induct) (auto simp: look)
qed

section \<open>The plan\<close>

abbreviation whole :: "hunk_scope \<Rightarrow> bool \<Rightarrow> hunk_scope" where
  "whole sc staged \<equiv> sc\<lparr> sc_staged := staged, sc_paths := [] \<rparr>"

abbreviation target_scope :: "stage_action \<Rightarrow> hunk_scope \<Rightarrow> hunk_scope" where
  "target_scope a sc \<equiv> sc\<lparr> sc_staged := target_staged a \<rparr>"

definition plan_facts :: "'w git_env \<Rightarrow> stage_request \<Rightarrow> stage_plan \<Rightarrow> run_event list \<Rightarrow> bool" where
  "plan_facts E req pl t \<longleftrightarrow>
     request_scope req = Inr (pl_action pl, pl_scope pl, sq_hunk_ids req)
     \<and> printed_diff E (pl_repo pl) (pl_scope pl) t (pl_source pl)
     \<and> pd_id (pl_source pl) = sq_diff_id req
     \<and> selects (pl_source pl) (sq_hunk_ids req) (pl_selected pl)
     \<and> reconstruct_patch (pl_source pl) (pl_selected pl) = Inr (pl_patch pl)
     \<and> printed_diff E (pl_repo pl) (target_scope (pl_action pl) (pl_scope pl)) t (pl_pre_target pl)
     \<and> (pl_action pl = PrepareCommit \<longrightarrow>
          (\<exists>clean. printed_diff E (pl_repo pl) (whole (pl_scope pl) True) t clean \<and> pd_files clean = [])
          \<and> (\<forall>d. pl_pre_full_unstaged pl = Some d \<longrightarrow> printed_diff E (pl_repo pl) (whole (pl_scope pl) False) t d))"

lemma request_scope_ids: "request_scope req = Inr (a, sc, ids) \<Longrightarrow> ids = sq_hunk_ids req"
  by (auto simp: request_scope_def validate_hunk_ids_def bindE_Inr_iff split: if_splits)

lemma tells_trivial: "emits P m \<Longrightarrow> tells m (\<lambda>_ _. True)"
  by (rule tellsI) (metis emitsD snd_conv)

lemma tells_reject_stale: "tells (reject_stale_diff E repo sc i d) (\<lambda>_ _. pd_id d = i)"
  unfolding reject_stale_diff_def
  by (rule tellsI) (auto simp: gm_case_def gm_fail_def gm_ret_def split: if_splits prod.splits sum.splits)

lemma tells_require_clean:
  "tells (require_clean_index E repo sc) (\<lambda>_ t. \<exists>clean. printed_diff E repo (whole sc True) t clean \<and> pd_files clean = [])"
  unfolding require_clean_index_def
  by (rule tells_bind[OF tells_enumerate_diff]) (auto intro!: tells_ret tells_fail)

lemma tells_baseline:
  "tells (baseline_unstaged E repo a sc source) (\<lambda>v t. \<forall>d. a = PrepareCommit \<longrightarrow> v = Some d \<longrightarrow>
     printed_diff E repo (whole sc False) t d \<or> (d = source \<and> whole sc False = sc))"
  unfolding baseline_unstaged_def
  by (auto intro!: tells_ret tells_bind[OF tells_map_err[OF tells_enumerate_diff]])

lemma emits_stage_probes:
  "emits reads_only (resolve_repo_context E wd timeout)" "emits reads_only (reject_mixed_direction_files E repo sc sel)"
  unfolding reject_mixed_direction_files_def by (intro emits_intros)+

lemma request_selects:
  "request_scope req = Inr (a, sc, ids) \<Longrightarrow> printed_diff E repo sc t d \<Longrightarrow> selected_hunks d ids = Inr sel
   \<Longrightarrow> selects d (sq_hunk_ids req) sel"
  using request_scope_ids printed_diff_ok selected_hunks_sound by metis

lemma tells_plan_stage: "tells (plan_stage E req) (plan_facts E req)"
  unfolding plan_stage_def
  apply (rule tells_bind[OF tells_lift], clarify)
  apply (rule tells_bind[OF tells_trivial[OF emits_stage_probes(1)]])
  apply (rule tells_bind[OF tells_trivial[OF emits_unmerged(2)]])
  apply (rule tells_bind[OF tells_enumerate_diff])
  apply (rule tells_bind[OF tells_reject_stale])
  apply (rule tells_bind[OF tells_lift])
  apply (rule tells_bind[OF tells_lift])
  apply (rule tells_bind[OF tells_trivial[OF emits_tracked]])
  subgoal for a sc ids t0 repo t1 u t2 source
    apply (rule tells_bind[where J = "\<lambda>_ t. a = PrepareCommit \<longrightarrow>
       (\<exists>clean. printed_diff E repo (whole sc True) t clean \<and> pd_files clean = [])"])
    subgoal by (auto intro: tells_weaken[OF tells_require_clean] tells_ret)
    apply (rule tells_bind[OF tells_trivial[OF emits_stage_probes(2)]])
    apply (rule tells_bind[OF tells_enumerate_diff])
    apply (rule tells_bind[OF tells_baseline])
    apply (rule tells_bind[OF tells_lift])
    by (auto intro!: tells_ret tells_fail simp: plan_facts_def dest: request_scope_ids intro: request_selects)
  done

section \<open>Checking and applying\<close>

lemma tells_plan_apply:
  "tells (plan_apply E pl chk) (\<lambda>ex t. \<exists>ev. t = [ev]
     \<and> apply_run (pl_patch pl) (pl_action pl = Unstage) chk (sc_context (pl_scope pl) = 0) ev
     \<and> (accepted ev \<longleftrightarrow> success ex \<and> \<not> timed_out ex \<and> fully_delivered (stdin_report ex) \<noteq> Some False))"
proof (rule tellsI, drule plan_apply_run, elim disjE conjE exE)
  fix s s' ex c a
  assume "gs_trace s' = gs_trace s @ [(c, a)]"
    "apply_run (pl_patch pl) (pl_action pl = Unstage) chk (sc_context (pl_scope pl) = 0) (c, a)"
    "case a of Inl _ \<Rightarrow> \<exists>x. Inr ex = Inl (Structured x)
     | Inr rep \<Rightarrow> \<exists>ex'. Inr ex = Inr ex' \<and> (accepted (c, a) \<longleftrightarrow>
         success ex' \<and> \<not> timed_out ex' \<and> fully_delivered (stdin_report ex') \<noteq> Some False)"
  then show "\<exists>t. gs_trace s' = gs_trace s @ t \<and> (\<exists>ev. t = [ev]
     \<and> apply_run (pl_patch pl) (pl_action pl = Unstage) chk (sc_context (pl_scope pl) = 0) ev
     \<and> (accepted ev \<longleftrightarrow> success ex \<and> \<not> timed_out ex \<and> fully_delivered (stdin_report ex) \<noteq> Some False))"
    by (cases a) auto
qed simp

lemma tells_preflight:
  "tells (preflight E pl) (\<lambda>_ t. \<exists>ev. t = [ev] \<and> accepted ev
     \<and> apply_run (pl_patch pl) (pl_action pl = Unstage) True (sc_context (pl_scope pl) = 0) ev)"
  unfolding preflight_def
  by (rule tells_bind[OF tells_plan_apply])
    (auto intro!: tells_ret tells_fail tells_bind[OF tells_trivial[OF emits_map_err[OF emits_lock]]])

lemma tells_apply_patch:
  "tells (apply_patch E pl) (\<lambda>_ t. \<exists>ev. t = [ev] \<and> accepted ev
     \<and> apply_run (pl_patch pl) (pl_action pl = Unstage) False (sc_context (pl_scope pl) = 0) ev)"
  unfolding apply_patch_def
  by (rule tells_bind[OF tells_plan_apply])
    (auto intro!: tells_ret tells_fail tells_bind[OF tells_trivial[OF emits_map_err[OF emits_lock]]])

section \<open>The verification\<close>

definition scoped_facts ::
  "'w git_env \<Rightarrow> stage_plan \<Rightarrow> (bytes \<times> bytes) list \<Rightarrow> run_event list \<Rightarrow> bool" where
  "scoped_facts E pl pre_blobs t \<longleftrightarrow>
     (\<exists>post_source post_target expected post.
        printed_diff E (pl_repo pl) (pl_scope pl) t post_source
        \<and> printed_diff E (pl_repo pl) (target_scope (pl_action pl) (pl_scope pl)) t post_target
        \<and> verify_scoped_count_delta (pl_action pl) (body_counts_from_selected (pl_selected pl))
            (body_counts_from_diff (pl_source pl)) (body_counts_from_diff (pl_pre_target pl))
            (body_counts_from_diff post_source) (body_counts_from_diff post_target)
        \<and> expected_index_blobs_after_selected pre_blobs (pl_selected pl) (pl_action pl = Unstage) = Inr expected
        \<and> printed_blobs (map fst expected) t post \<and> map_of post = map_of expected)"

definition group_facts :: "'w git_env \<Rightarrow> stage_plan \<Rightarrow> run_event list \<Rightarrow> bool" where
  "group_facts E pl t \<longleftrightarrow>
     (\<exists>staged pre unstaged.
        pl_pre_full_unstaged pl = Some pre
        \<and> printed_diff E (pl_repo pl) (whole (pl_scope pl) True) t staged
        \<and> printed_diff E (pl_repo pl) (whole (pl_scope pl) False) t unstaged
        \<and> full_staged_diff_matches_selected_group staged (body_counts_from_selected (pl_selected pl))
        \<and> full_unstaged_diff_matches_prepare_commit_delta pre unstaged (body_counts_from_selected (pl_selected pl))
            (selected_patch_paths (pl_selected pl)))"

lemma tells_verify_commit_group: "tells (verify_commit_group E pl vs) (\<lambda>_ t. group_facts E pl t)"
  unfolding verify_commit_group_def Let_def
  by (rule tells_bind[OF tells_map_err[OF tells_enumerate_diff]], rule tells_bind[OF tells_map_err[OF tells_enumerate_diff]])
    (auto simp: group_facts_def intro!: tells_ret tells_fail split: option.split)

lemma tells_verify_index_blob_delta:
  "tells (verify_index_blob_delta E repo pre sel a timeout) (\<lambda>ok t. ok \<longrightarrow>
     (\<exists>expected post. expected_index_blobs_after_selected pre sel (a = Unstage) = Inr expected
       \<and> printed_blobs (map fst expected) t post \<and> map_of post = map_of expected))"
  unfolding verify_index_blob_delta_def
  by (rule tells_bind[OF tells_lift], rule tells_bind[OF tells_map_err[OF tells_index_blobs]])
    (auto simp: map_err_Inr_iff same_map_iff intro!: tells_ret)

lemma group_facts_mono: "group_facts E pl t \<Longrightarrow> group_facts E pl (u @ t)"
  by (auto simp: group_facts_def)

lemma scoped_factsI:
  assumes "printed_diff E (pl_repo pl) (pl_scope pl) t1 post_source"
    and "printed_diff E (pl_repo pl) (target_scope (pl_action pl) (pl_scope pl)) t2 post_target"
    and "verify_scoped_count_delta (pl_action pl) (body_counts_from_selected (pl_selected pl))
      (body_counts_from_diff (pl_source pl)) (body_counts_from_diff (pl_pre_target pl))
      (body_counts_from_diff post_source) (body_counts_from_diff post_target)"
    and "expected_index_blobs_after_selected blobs (pl_selected pl) (pl_action pl = Unstage) = Inr expected"
    and "printed_blobs (map fst expected) t3 post" "map_of post = map_of expected"
  shows "scoped_facts E pl blobs (t1 @ t2 @ t3 @ t4)"
proof -
  have "printed_blobs (map fst expected) (t1 @ t2 @ t3 @ t4) post"
    using printed_blobs_mono[OF assms(5)] printed_blobs_mono by blast
  then show ?thesis unfolding scoped_facts_def using assms(1-4,6) by fastforce
qed

lemma tells_verify_after_apply:
  "tells (verify_after_apply E pl blobs) (\<lambda>_ t. scoped_facts E pl blobs t
     \<and> (pl_action pl = PrepareCommit \<longrightarrow> group_facts E pl t))"
  unfolding verify_after_apply_def Let_def
  apply (rule tells_bind[OF tells_map_err[OF tells_enumerate_diff]])
  apply (rule tells_bind[OF tells_map_err[OF tells_enumerate_diff]])
  by (auto intro!: tells_fail tells_ret tells_weaken[OF tells_verify_commit_group] scoped_factsI
      tells_bind[OF tells_verify_index_blob_delta]
      intro: scoped_factsI[where ?t4.0 = "[]", simplified] simp: group_facts_mono)

section \<open>The reply\<close>

lemma insert_extra_fields_get:
  "map_of (insert_extra_fields obj extra) k = (map_of obj ++ map_of (rev extra)) k"
  by (induction extra arbitrary: obj)
    (auto simp: insert_extra_fields_def update_conv' map_of_append map_add_def split: option.split)

lemma response_field:
  "json_get k (build_git_response_with_is_error ex txt e extra) =
     (case map_of (rev extra) k of Some v \<Rightarrow> Some v
      | None \<Rightarrow> if k = ''isError'' then Some (JBool e) else map_of (base_git_response ex txt) k)"
  by (simp add: build_git_response_with_is_error_def insert_extra_fields_get update_conv' map_add_def split: option.split)

lemma stage_reply_fields:
  "json_get ''applied'' (stage_reply req pl ex v) = Some (JBool (\<not> isl v))"
  "json_get ''commit_ready'' (stage_reply req pl ex v) = Some (JBool (\<not> isl v \<and> pl_action pl = PrepareCommit))"
  "json_get ''isError'' (stage_reply req pl ex v) = Some (JBool (isl v))"
  by (auto simp: stage_reply_def response_field Let_def success_fields_def ready_fields_def
      split: sum.split option.split)

lemma handle_reply:
  assumes "handle_git_stage_hunks E req s = (Inr j, s')"
  shows "\<exists>pl ex v. j = stage_reply req pl ex v"
  using assms unfolding handle_git_stage_hunks_def
  by (auto simp: gm_bind_def gm_map_err_def gm_case_def gm_fail_def gm_ret_def split: sum.splits prod.splits)

text \<open>A run that staged and verified: the plan, the accepted check, the blobs, the accepted command on
  the index and the verification, in the order of the trace.\<close>

definition verified_run ::
  "'w git_env \<Rightarrow> stage_request \<Rightarrow> stage_plan \<Rightarrow> run_event list \<Rightarrow> run_event \<Rightarrow> (bytes \<times> bytes) list
   \<Rightarrow> run_event \<Rightarrow> run_event list \<Rightarrow> run_event list \<Rightarrow> bool" where
  "verified_run E req pl before chk blobs ev mid after \<longleftrightarrow>
     plan_facts E req pl before
     \<and> apply_run (pl_patch pl) (pl_action pl = Unstage) True (sc_context (pl_scope pl) = 0) chk \<and> accepted chk
     \<and> printed_blobs (selected_patch_paths (pl_selected pl)) mid blobs
     \<and> apply_run (pl_patch pl) (pl_action pl = Unstage) False (sc_context (pl_scope pl) = 0) ev \<and> accepted ev
     \<and> scoped_facts E pl blobs after \<and> (pl_action pl = PrepareCommit \<longrightarrow> group_facts E pl after)"

lemma handle_verified:
  assumes "handle_git_stage_hunks E req s = (Inr j, s')" "json_get ''applied'' j = Some (JBool True)"
  shows "\<exists>pl before chk mid blobs ev after ex vs. gs_trace s' = gs_trace s @ before @ chk # mid @ ev # after
    \<and> verified_run E req pl before chk blobs ev mid after \<and> j = stage_reply req pl ex (Inr vs)"
proof -
  obtain pl s1 s2 blobs s3 ex s4 where plan: "plan_stage E req s = (Inr pl, s1)"
    and pre: "preflight E pl s1 = (Inr (), s2)" and blobs: "capture_blobs E pl s2 = (Inr blobs, s3)"
    and run: "apply_patch E pl s3 = (Inr ex, s4)"
    and last: "gm_case (verify_after_apply E pl blobs) (\<lambda>f. gm_ret (stage_reply req pl ex (Inl f)))
        (\<lambda>vs. gm_ret (stage_reply req pl ex (Inr vs))) s4 = (Inr j, s')"
    using assms(1) unfolding handle_git_stage_hunks_def
    by (auto simp: gm_bind_def gm_map_err_def gm_case_def gm_fail_def gm_ret_def split: sum.splits prod.splits)
  obtain v s5 where v: "verify_after_apply E pl blobs s4 = (v, s5)" by (cases "verify_after_apply E pl blobs s4")
  then have j: "j = stage_reply req pl ex v" "s' = s5" using last by (cases v; auto simp: gm_case_def gm_ret_def)+
  then obtain vs where vs: "v = Inr vs" using assms(2) stage_reply_fields(1)[of req pl ex v] by (cases v) auto
  obtain before where t1: "gs_trace s1 = gs_trace s @ before" "plan_facts E req pl before"
    using tellsD[OF tells_plan_stage plan] by blast
  obtain chk where t2: "gs_trace s2 = gs_trace s1 @ [chk]" "accepted chk"
      "apply_run (pl_patch pl) (pl_action pl = Unstage) True (sc_context (pl_scope pl) = 0) chk"
    using tellsD[OF tells_preflight pre] by blast
  obtain mid where t3: "gs_trace s3 = gs_trace s2 @ mid" "printed_blobs (selected_patch_paths (pl_selected pl)) mid blobs"
    using tellsD[OF tells_map_err[OF tells_index_blobs] blobs[unfolded capture_blobs_def]] by blast
  obtain ev where t4: "gs_trace s4 = gs_trace s3 @ [ev]" "accepted ev"
      "apply_run (pl_patch pl) (pl_action pl = Unstage) False (sc_context (pl_scope pl) = 0) ev"
    using tellsD[OF tells_apply_patch run] by blast
  obtain after where t5: "gs_trace s5 = gs_trace s4 @ after" "scoped_facts E pl blobs after"
      "pl_action pl = PrepareCommit \<longrightarrow> group_facts E pl after"
    using tellsD[OF tells_verify_after_apply v[unfolded vs]] by blast
  have "verified_run E req pl before chk blobs ev mid after"
    unfolding verified_run_def using t1 t2 t3 t4 t5 by blast
  moreover have "gs_trace s' = gs_trace s @ before @ chk # mid @ ev # after"
    using t1(1) t2(1) t3(1) t4(1) t5(1) j(2) by simp
  ultimately show ?thesis using j(1) vs by blast
qed

end
