(* ===== verification/HunkIds.thy ===== *)
theory HunkIds
  imports StageHunks VerifyProps
begin

text \<open>
  The identifiers the listing tool hands out are the ones the staging tool accepts.
\<close>

lemma canonical_nat_dec: "n \<le> usize_max \<Longrightarrow> parse_canonical_usize (nat_dec n) = Some n"
proof -
  assume n: "n \<le> usize_max"
  have "\<not> (length (nat_dec n) > 1 \<and> starts_with ''0'' (nat_dec n))"
  proof (cases "n = 0")
    case True
    then show ?thesis by (simp add: nat_dec.simps)
  next
    case False
    then have "hd (nat_dec n) \<noteq> CHR ''0''" by (rule nat_dec_first_nonzero)
    then show ?thesis by (cases "nat_dec n") (auto simp: starts_with_def)
  qed
  then show ?thesis using parse_usize_nat_dec[OF n] by (simp add: parse_canonical_usize_def)
qed

lemma lower_hex_no_dot: "list_all lower_hex x \<Longrightarrow> CHR ''.'' \<notin> set x"
proof -
  have "\<not> lower_hex CHR ''.''" by code_simp
  then show "list_all lower_hex x \<Longrightarrow> ?thesis" by (auto simp: list_all_iff)
qed

lemma printed_id_valid:
  assumes "fi \<le> usize_max" "hi \<le> usize_max" "length x = 64" "list_all lower_hex x"
  shows "valid_hunk_id (nat_dec fi @ CHR ''.'' # nat_dec hi @ CHR ''.'' # x)"
proof -
  have dot: "CHR ''.'' \<notin> set (nat_dec n)" for n by (rule nat_dec_notin) simp
  have "split_byte CHR ''.'' (nat_dec fi @ CHR ''.'' # nat_dec hi @ CHR ''.'' # x) = [nat_dec fi, nat_dec hi, x]"
    by (simp add: split_byte_append[OF dot] split_byte_id[OF lower_hex_no_dot[OF assms(4)]])
  then show ?thesis using assms by (simp add: valid_hunk_id_def canonical_nat_dec)
qed

text \<open>C40. Whatever diff is listed, its identifiers are well-formed for the staging tool: when the digest
  prints 64 lower case hexadecimal digits, the diff identifier passes its check, and every hunk
  identifier has at most 96 bytes and passes its own.\<close>

theorem enumerated_ids_accepted:
  assumes "parse_unified_diff sha da diff = Inr d" "length diff \<le> usize_max - 10000000"
    and "\<And>x. length (sha x) = 64 \<and> list_all lower_hex (sha x)"
  shows "valid_diff_id (pd_id d) \<and> list_all (\<lambda>h. length (h_id h) \<le> 96 \<and> valid_hunk_id (h_id h)) (all_hunks d)"
proof
  have "\<exists>x. pd_id d = ''sha256:'' @ sha x"
    using assms(1) by (auto simp: parse_unified_diff_def diff_id_def Let_def bindE_Inr_iff split: if_splits)
  then show "valid_diff_id (pd_id d)" using assms(3) by (auto simp: valid_diff_id_def starts_with_def)
  note ok = parse_unified_diff_ok[OF assms(1,2)]
  show "list_all (\<lambda>h. length (h_id h) \<le> 96 \<and> valid_hunk_id (h_id h)) (all_hunks d)"
    unfolding list_all_iff
  proof
    fix h assume "h \<in> set (all_hunks d)"
    then obtain f where f: "f \<in> set (pd_files d)" "h \<in> set (fh_hunks f)" by (auto simp: all_hunks_def)
    have "length (fh_hunks f) \<le> length (all_hunks d)"
      using f(1) unfolding all_hunks_def length_concat by (intro member_le_sum_list) auto
    then have pos: "h_file_index h < 10 ^ Suc 3" "h_index h < 10 ^ Suc 4"
      using hunk_position[OF ok f] ok
      by (auto simp: diff_ok_def MAX_GIT_DIFF_FILES_def MAX_GIT_DIFF_HUNKS_def)
    obtain x where x: "h_id h = nat_dec (h_file_index h) @ CHR ''.'' # nat_dec (h_index h) @ CHR ''.'' # sha x"
      using parse_unified_diff_ids[OF assms(1) f] unfolding id_form_def by blast
    have "length (h_id h) \<le> 96"
      using length_nat_dec[OF pos(1)] length_nat_dec[OF pos(2)] assms(3)[of x] by (simp add: x)
    moreover have "valid_hunk_id (h_id h)"
      unfolding x by (rule printed_id_valid) (use pos assms(3)[of x] in \<open>simp_all add: usize_max_def\<close>)
    ultimately show "length (h_id h) \<le> 96 \<and> valid_hunk_id (h_id h)" by blast
  qed
qed

theorem enumerated_ids_accepted_witness:
  "valid_hunk_id (h_id (ex_hunk (\<lambda>_. replicate 64 CHR ''a'') demo_args 0))"
proof -
  let ?sha = "\<lambda>_::bytes. replicate 64 CHR ''a''"
  have "length demo_diff \<le> usize_max - 10000000" by (simp add: demo_diff_def usize_max_def)
  moreover have "lower_hex CHR ''a''" by code_simp
  ultimately have "list_all (\<lambda>h. length (h_id h) \<le> 96 \<and> valid_hunk_id (h_id h)) (all_hunks (ex_parsed ?sha demo_args))"
    using enumerated_ids_accepted[OF ex_parse, of ?sha demo_args] by (simp add: list_all_iff)
  then show ?thesis by (simp add: all_hunks_def ex_parsed_def ex_file_def)
qed

end
