(* ===== verification/StageDemo.thy ===== *)
theory StageDemo
  imports StageSound HunkIds
begin

text \<open>
  A run of \<open>GitStageHunks\<close> on a small world, for the witnesses: a repository at \<open>/w\<close> whose file \<open>f\<close>
  has one changed line, and a git that answers the questions of the handler and moves the change to
  the index when it applies a patch.
\<close>

section \<open>Results and worlds\<close>

text \<open>The value of a program and the world it leaves, whatever the trace was.\<close>

definition lands :: "('w, 'e, 'a) gm \<Rightarrow> 'w \<Rightarrow> 'a \<Rightarrow> 'w \<Rightarrow> bool" where
  "lands m w x w' \<longleftrightarrow>
     (\<forall>tr. \<exists>tr'. m \<lparr> gs_world = w, gs_trace = tr \<rparr> = (Inr x, \<lparr> gs_world = w', gs_trace = tr' \<rparr>))"

lemma lands_bind: "lands m w x w1 \<Longrightarrow> lands (f x) w1 y w2 \<Longrightarrow> lands (gm_bind m f) w y w2"
  unfolding lands_def gm_bind_def gm_case_def by (metis (no_types, lifting) old.prod.case sum.case(2))

lemma lands_case: "lands m w x w1 \<Longrightarrow> lands (f x) w1 y w2 \<Longrightarrow> lands (gm_case m g f) w y w2"
  unfolding lands_def gm_case_def by (metis (no_types, lifting) old.prod.case sum.case(2))

lemma lands_ret: "lands (gm_ret x) w x w"
  by (simp add: lands_def gm_ret_def)

lemma lands_map_err: "lands m w x w1 \<Longrightarrow> lands (gm_map_err h m) w x w1"
  unfolding gm_map_err_def by (rule lands_case[OF _ lands_ret])

lemma lands_lift: "r = Inr x \<Longrightarrow> lands (gm_lift r) w x w"
  by (simp add: lands_def gm_lift_def)

section \<open>The world\<close>

definition demo_hash :: "bytes \<Rightarrow> bytes" where
  "demo_hash s = replicate 64 CHR ''a''"

definition demo_dir :: node_meta where
  "demo_dir = \<lparr> nm_kind = Directory, nm_dev = 1, nm_ino = 1, nm_links = 2 \<rparr>"

definition demo_fs :: git_fs where
  "demo_fs = \<lparr>
     gf_lstat = (\<lambda>p. if p \<in> {''/w'', ''/w/.git'', ''/w/.git/objects'', ''/w/.git/refs''} then Inr demo_dir else Inl NotFound),
     gf_stat = (\<lambda>p. if p = ''/w'' then Inr Directory else Inl ''not found''),
     gf_read = (\<lambda>_. Inl NotFound), gf_list = (\<lambda>_. Inr []), gf_canonicalize = Inr, gf_authority = Inr ''/w'' \<rparr>"

definition demo_ls :: bytes where
  "demo_ls = ''H 100644 1a 0'' @ [TAB] @ ''f'' @ [NUL] @ ''  size: 2'' @ [TAB] @ ''flags: 0'' @ [LF]"

definition demo_format :: bytes where "demo_format = ''sha1'' @ [LF]"

definition demo_top :: bytes where "demo_top = ''/w'' @ [LF]"

text \<open>The world is whether the change is in the index.  What git prints, and its exit status:\<close>

definition demo_output :: "bool \<Rightarrow> bytes list \<Rightarrow> bytes" where
  "demo_output w sub =
     (if hd sub = ''config'' then []
      else if sub = [''rev-parse'', ''--show-object-format''] then demo_format
      else if sub = [''rev-parse'', ''--show-toplevel''] then demo_top
      else if ''diff'' \<in> set sub then (if (''--cached'' \<in> set sub) = w then demo_diff else [])
      else if sub = ls_files_args [''f''] then demo_ls
      else if hd sub = ''cat-file'' then (if w then ''b'' @ [LF] else ''a'' @ [LF])
      else [])"

definition demo_status :: "bytes list \<Rightarrow> int" where
  "demo_status sub = (if hd sub = ''config'' then 1 else 0)"

definition demo_next :: "bool \<Rightarrow> bytes list \<Rightarrow> bool" where
  "demo_next w sub \<longleftrightarrow> w \<or> (hd sub \<noteq> ''config'' \<and> ''apply'' \<in> set sub \<and> ''--check'' \<notin> set sub)"

definition demo_report :: "bool \<Rightarrow> bytes list \<Rightarrow> bytes option \<Rightarrow> child_report" where
  "demo_report w sub inp = \<lparr> cr_status = Some (demo_status sub), cr_timed_out = False,
     cr_stdout = demo_output w sub, cr_stderr = [],
     cr_writes = (case inp of Some bs \<Rightarrow> [Inr (length bs), Inr 0] | None \<Rightarrow> []) \<rparr>"

definition demo_env :: "bool git_env" where
  "demo_env = \<lparr> env_fs = (\<lambda>_. demo_fs), env_tick = id,
     env_spawn = (\<lambda>c w. let sub = drop (length (build_git_args [])) (ch_args c)
                        in (Inr (demo_report w sub (ch_stdin c)), demo_next w sub)),
     env_vars = [], env_sha = demo_hash \<rparr>"

section \<open>Single steps\<close>

lemma lands_look: "f demo_fs = Inr x \<Longrightarrow> lands (gm_look demo_env f) w x w"
  by (simp add: lands_def gm_look_def demo_env_def)

lemma demo_working_dir: "resolve_working_dir demo_fs (Some ''/w'') = Inr (Some ''/w'')"
  by code_simp

lemma demo_display: "display_path ''/w'' = ''/w''" by code_simp

lemma lands_spawn:
  "ch_args c = build_git_args sub \<Longrightarrow> lands (gm_spawn demo_env c) w (demo_report w sub (ch_stdin c)) (demo_next w sub)"
  by (simp add: lands_def gm_spawn_def demo_env_def Let_def build_git_args_def)

lemma lands_run_git_with_stdin:
  assumes "case inp of Some bs \<Rightarrow> length bs \<le> MAX_GIT_STDIN_BYTES | None \<Rightarrow> True"
  shows "lands (run_git_with_stdin demo_env (Some ''/w'') sub inp t mo me) w
    (exec_result (build_git_args sub) (Some ''/w'') inp (clamp mo 1 MAX_OUTPUT_BYTES) (clamp me 1 MAX_OUTPUT_BYTES)
       (demo_report w sub inp)) (demo_next w sub)"
proof -
  have small: "\<not> (case inp of Some bs \<Rightarrow> length bs > MAX_GIT_STDIN_BYTES | None \<Rightarrow> False)"
    using assms by (cases inp) auto
  show ?thesis
    unfolding run_git_with_stdin_def Let_def if_not_P[OF small]
    by (rule lands_bind, rule lands_look, rule demo_working_dir, simp only: option.case,
        rule lands_bind[OF lands_ret], rule lands_bind, rule lands_spawn, simp)
      (simp add: demo_display lands_ret)
qed

text \<open>A command that prints little and succeeds.\<close>

definition demo_exec :: "bytes list \<Rightarrow> bytes \<Rightarrow> git_exec" where
  "demo_exec sub out = \<lparr> ge_args = build_git_args sub, ge_working_dir = Some ''/w'', exit_code = Some 0, success = True,
     stdout_bytes = out, stderr_bytes = [], truncated_stdout = False, truncated_stderr = False, timed_out = False,
     stdin_report = summary_none \<rparr>"

lemma lands_run_git:
  assumes "demo_output w sub = out" "length out < 1000" "1000 \<le> mo" "demo_status sub = 0" "demo_next w sub = w"
  shows "lands (run_git demo_env (Some ''/w'') sub t mo me) w (demo_exec sub out) w"
proof -
  have "take (clamp mo 1 MAX_OUTPUT_BYTES) out = out" "\<not> clamp mo 1 MAX_OUTPUT_BYTES < length out"
    using assms(2,3) by (auto simp: clamp_def MAX_OUTPUT_BYTES_def)
  then have "exec_result (build_git_args sub) (Some ''/w'') None (clamp mo 1 MAX_OUTPUT_BYTES)
      (clamp me 1 MAX_OUTPUT_BYTES) (demo_report w sub None) = demo_exec sub out"
    using assms by (simp add: exec_result_def read_to_end_limited_eq demo_report_def demo_exec_def)
  then show ?thesis using lands_run_git_with_stdin[of None sub t mo me w] assms(5)
    unfolding run_git_def by simp
qed

section \<open>The repository\<close>

definition demo_snap :: repo_snapshot where
  "demo_snap = (case build_repo_identity_snapshot demo_hash demo_fs ''/w'' of Inr s \<Rightarrow> s | Inl _ \<Rightarrow> [])"

definition demo_ctx :: repo_context where
  "demo_ctx = \<lparr> working_dir = ''/w'', toplevel = ''/w'', identity = repo_identity ''/w'' ''/w/.git'' ''sha1'',
     stable_identity = demo_snap \<rparr>"

lemma demo_snapshot: "build_repo_identity_snapshot demo_hash demo_fs ''/w'' = Inr demo_snap"
  by code_simp

lemma demo_gate:
  "discover_worktree_toplevel_within_authority demo_fs ''/w'' = Inr (Some ''/w'')"
  "validate_basic_git_metadata demo_fs ''/w'' = Inr ()"
  "baseline_matches demo_snap demo_snap"
  "gf_canonicalize demo_fs (path_push ''/w'' ''.git'') = Inr ''/w/.git''"
  by code_simp+

lemma lands_revalidate: "lands (revalidate demo_env demo_ctx) w () w"
  unfolding revalidate_def
  by (rule lands_look)
    (simp add: revalidate_repo_identity_def demo_ctx_def demo_gate demo_snapshot demo_env_def)

lemma demo_exec_simps [simp]:
  "timed_out (demo_exec sub out) = False" "success (demo_exec sub out)" "stdout_bytes (demo_exec sub out) = out"
  "truncated_stdout (demo_exec sub out) = False" "stdin_report (demo_exec sub out) = summary_none"
  by (simp_all add: demo_exec_def)

lemma demo_stdout_text:
  "trim_end_crlf (stdout_text (demo_exec sub demo_format)) = ''sha1''"
  "trim_end_crlf (stdout_text (demo_exec sub demo_top)) = ''/w''"
  "trim (stdout_text (demo_exec sub [])) = []"
  unfolding stdout_text_def demo_exec_simps by code_simp+

lemma limits_thousand: "1000 \<le> DEFAULT_GIT_STDOUT_BYTES" "1000 \<le> DEFAULT_GIT_STDERR_BYTES" "1000 \<le> MAX_OUTPUT_BYTES"
  by (simp_all add: DEFAULT_GIT_STDOUT_BYTES_def DEFAULT_GIT_STDERR_BYTES_def MAX_OUTPUT_BYTES_def)

lemma lands_object_format: "lands (probe_object_format demo_env ''/w'' t) w ''sha1'' w"
  unfolding probe_object_format_def
  by (rule lands_bind, rule lands_map_err, rule lands_run_git[where out = demo_format])
    (simp_all add: demo_output_def demo_status_def demo_next_def limits_thousand demo_stdout_text demo_format_def[THEN arg_cong[where f = length]] demo_top_def[THEN arg_cong[where f = length]] lands_ret Let_def)

lemma lands_config:
  "lands (repo_bool_config_enabled demo_env ''/w'' t key) w False w"
proof -
  let ?sub = "[''config'', ''--bool'', ''--get'', key]"
  let ?ex = "exec_result (build_git_args ?sub) (Some ''/w'') None (clamp DEFAULT_GIT_STDOUT_BYTES 1 MAX_OUTPUT_BYTES)
    (clamp DEFAULT_GIT_STDERR_BYTES 1 MAX_OUTPUT_BYTES) (demo_report w ?sub None)"
  have "\<not> timed_out ?ex" "\<not> success ?ex" "exit_code ?ex = Some 1" "stdout_bytes ?ex = []" "stderr_bytes ?ex = []"
    by (auto simp: exec_result_def demo_report_def demo_status_def read_to_end_limited_eq demo_output_def)
  moreover have "lands (run_git demo_env (Some ''/w'') ?sub t DEFAULT_GIT_STDOUT_BYTES DEFAULT_GIT_STDERR_BYTES) w ?ex w"
    using lands_run_git_with_stdin[of None ?sub t DEFAULT_GIT_STDOUT_BYTES DEFAULT_GIT_STDERR_BYTES w]
    by (simp add: run_git_def demo_next_def)
  ultimately obtain ex where ex: "\<not> timed_out ex" "\<not> success ex" "exit_code ex = Some 1" "stdout_bytes ex = []"
      "stderr_bytes ex = []"
      "lands (run_git demo_env (Some ''/w'') ?sub t DEFAULT_GIT_STDOUT_BYTES DEFAULT_GIT_STDERR_BYTES) w ex w"
    by blast
  have "trim (from_utf8_lossy []) = []" by code_simp
  then show ?thesis unfolding repo_bool_config_enabled_def
    by (intro lands_bind[OF lands_map_err[OF ex(6)]]) (simp add: ex stdout_text_def stderr_text_def lands_ret)
qed

lemma lands_features: "lands (validate_unsupported_repository_feature_config demo_env ''/w'' t) w () w"
proof -
  have "lands (check_feature_keys demo_env ''/w'' t ks) w () w" for ks
  proof (induction ks)
    case (Cons k ks)
    then show ?case by (cases k) (auto intro!: lands_bind[OF lands_config])
  qed (simp add: lands_ret)
  then show ?thesis by (simp add: validate_unsupported_repository_feature_config_def)
qed

lemma lands_confirm: "lands (confirm_toplevel demo_env ''/w'' ''/w'' t) w () w"
  unfolding confirm_toplevel_def
  apply (rule lands_bind, rule lands_map_err, rule lands_run_git[where out = demo_top])
       apply (simp_all add: demo_output_def demo_status_def demo_next_def limits_thousand demo_stdout_text demo_format_def[THEN arg_cong[where f = length]] demo_top_def[THEN arg_cong[where f = length]])
  apply (rule lands_bind, rule lands_look)
   apply (simp add: demo_fs_def)
  by (simp add: lands_ret)

lemma lands_find: "lands (find_toplevel demo_env ''/w'') w ''/w'' w"
  unfolding find_toplevel_def
  by (rule lands_bind, rule lands_look, rule demo_gate(1), simp, rule lands_bind, rule lands_look, rule demo_gate(2), rule lands_ret)

lemma lands_resolve: "lands (resolve_repo_context demo_env None t) w demo_ctx w"
  unfolding resolve_repo_context_def requested_dir_def
  apply (simp only: option.case)
  apply (rule lands_bind, rule lands_look[where x = "''/w''"], simp add: authority_root_path_def demo_fs_def)
  apply (rule lands_bind[OF lands_find])
  apply (rule lands_bind, rule lands_look[where x = demo_snap], simp add: demo_snapshot demo_env_def)
  unfolding demo_display
  apply (rule lands_bind[OF lands_confirm])
  apply (rule lands_bind[OF lands_object_format])
  apply (rule lands_bind[OF lands_features])
  apply (rule lands_bind, rule lands_look[where x = "''/w/.git''"], simp only: demo_gate map_err_simps)
  by (simp add: demo_ctx_def lands_ret)

section \<open>Diffs\<close>

definition ex_none :: "(bytes \<Rightarrow> bytes) \<Rightarrow> diff_args \<Rightarrow> parsed_diff" where
  "ex_none sha da = \<lparr> pd_id = diff_id sha [] (da_repo da) (da_staged da) (da_context da) (da_paths da),
     pd_bytes = 0, pd_files = [], total_hunks = 0, hunk_body_bytes = 0 \<rparr>"

lemma parse_none: "parse_unified_diff sha da [] = Inr (ex_none sha da)"
proof -
  have "utf8_valid []" by code_simp
  then show ?thesis by (simp add: parse_unified_diff_def ex_none_def Let_def)
qed

definition demo_at :: "bool \<Rightarrow> hunk_scope \<Rightarrow> parsed_diff" where
  "demo_at w sc = (if sc_staged sc = w then ex_parsed else ex_none) demo_hash (scope_args demo_ctx sc)"

lemma demo_diff_command:
  assumes "sc_paths sc = []"
  shows "demo_output w (build_hunk_diff_args sc) = (if sc_staged sc = w then demo_diff else [])"
    "demo_status (build_hunk_diff_args sc) = 0" "demo_next w (build_hunk_diff_args sc) = w"
  using assms by (auto simp: demo_output_def demo_status_def demo_next_def build_hunk_diff_args_def)

lemma lands_enumerate:
  assumes "sc_paths sc = []" "1000 \<le> sc_max_bytes sc"
  shows "lands (enumerate_diff demo_env demo_ctx sc) w (demo_at w sc) w"
proof -
  have wd: "working_dir demo_ctx = ''/w''" by (simp add: demo_ctx_def)
  have len: "length demo_diff < 1000" by (simp add: demo_diff_def)
  show ?thesis
    unfolding enumerate_diff_def wd
    by (rule lands_bind[OF lands_revalidate], rule lands_bind, rule lands_map_err,
        rule lands_run_git[OF demo_diff_command(1)[OF assms(1)] _ assms(2) demo_diff_command(2,3)[OF assms(1)]])
      (use len in \<open>auto intro!: lands_bind[OF lands_lift] lands_lift
          simp: checked_diff_output_def demo_at_def ex_parse parse_none demo_env_def\<close>)
qed

section \<open>The index\<close>

lemma ctx_dir: "working_dir demo_ctx = ''/w''" by (simp add: demo_ctx_def)

lemma lands_unmerged: "lands (ensure_unmerged_index_absent demo_env demo_ctx t) w () w"
  unfolding ensure_unmerged_index_absent_def index_has_unmerged_entries_def ctx_dir
  apply (rule lands_bind[where x = False and ?w1.0 = w])
   apply (rule lands_map_err, rule lands_bind, rule lands_map_err, rule lands_revalidate)
   apply (rule lands_bind, rule lands_map_err, rule lands_run_git[where out = "[]"])
        apply (simp_all add: demo_output_def demo_status_def demo_next_def limits_thousand ls_files_args_def)
   apply (simp_all add: demo_stdout_text lands_ret)
  done

definition demo_entries :: "(bytes \<times> index_preflight) list" where
  "demo_entries = [(''f'', \<lparr> ip_mode = ''100644'', ip_object = ''1a'', ip_stage = ''0'', ip_skip_worktree = False,
     ip_assume_unchanged = False, ip_intent_to_add = False \<rparr>)]"

lemma demo_ls_parsed: "parse_ls_files_preflight_stdout demo_ls = demo_entries"
  by code_simp

lemma demo_ls_command:
  "demo_output w (ls_files_args [''f'']) = demo_ls" "demo_status (ls_files_args [''f'']) = 0"
  "demo_next w (ls_files_args [''f'']) = w" "length demo_ls < 1000"
  by (simp_all add: demo_output_def demo_status_def demo_next_def ls_files_args_def demo_ls_def)

lemma lands_tracked: "lands (ensure_tracked_regular_files demo_env demo_ctx [''f''] t) w () w"
  unfolding ensure_tracked_regular_files_def ctx_dir Let_def
  by (rule lands_bind[OF lands_revalidate], rule lands_bind, rule lands_map_err,
      rule lands_run_git[OF demo_ls_command(1,4) limits_thousand(1) demo_ls_command(2,3)])
    (auto simp: demo_ls_parsed demo_entries_def regular_stage0_def intro!: lands_lift)

definition demo_blob :: "bool \<Rightarrow> bytes" where
  "demo_blob w = (if w then ''b'' @ [LF] else ''a'' @ [LF])"

lemma demo_cat_command:
  "demo_output w [''cat-file'', ''blob'', ''1a''] = demo_blob w" "demo_status [''cat-file'', ''blob'', ''1a''] = 0"
  "length (demo_blob w) < 1000"
  by (auto simp: demo_output_def demo_status_def demo_blob_def ls_files_args_def)

lemma lands_blobs: "lands (index_blobs_for_paths demo_env demo_ctx [''f''] t) w [(''f'', demo_blob w)] w"
proof -
  have entries: "lands (index_entries_for_paths demo_env demo_ctx [''f''] t) w demo_entries w"
    unfolding index_entries_for_paths_def ctx_dir Let_def
    by (rule lands_bind[OF lands_revalidate], rule lands_bind, rule lands_map_err,
        rule lands_run_git[OF demo_ls_command(1,4) limits_thousand(1) demo_ls_command(2,3)])
      (auto simp: demo_ls_parsed demo_entries_def intro!: lands_ret)
  have blob: "lands (read_index_blob demo_env demo_ctx ''f'' (snd (hd demo_entries)) t) w (demo_blob w) w"
    unfolding read_index_blob_def ctx_dir
    apply (simp add: demo_entries_def regular_stage0_def)
    apply (rule lands_bind[OF lands_revalidate], rule lands_bind, rule lands_map_err)
     apply (rule lands_run_git[OF demo_cat_command(1,3) limits_thousand(3) demo_cat_command(2)])
     apply (simp add: demo_next_def)
    by (simp add: lands_ret)
  show ?thesis unfolding index_blobs_for_paths_def
    by (rule lands_bind[OF entries]) (auto simp: demo_entries_def intro!: lands_bind[OF blob[unfolded demo_entries_def, simplified]] lands_ret)
qed

section \<open>The request\<close>

definition demo_scope :: hunk_scope where
  "demo_scope = \<lparr> sc_staged = False, sc_paths = [], sc_context = 3, sc_max_bytes = 200000,
     sc_working_dir_arg = None, sc_timeout_ms = 30000 \<rparr>"

definition demo_ids :: "bytes list" where
  "demo_ids = [''0.0.'' @ replicate 64 CHR ''a'']"

definition demo_req :: stage_request where
  "demo_req = \<lparr> sq_diff_id = ''sha256:'' @ replicate 64 CHR ''a'', sq_hunk_ids = demo_ids, sq_action = None,
     sq_context = None, sq_paths = None, sq_max_bytes = None, sq_working_dir = None, sq_timeout_ms = None,
     sq_commit_type = None, sq_commit_scope = None, sq_commit_message = None \<rparr>"

lemma demo_ids_valid: "valid_diff_id (''sha256:'' @ replicate 64 CHR ''a'')" "valid_hunk_id (''0.0.'' @ replicate 64 CHR ''a'')"
    "length (''0.0.'' @ replicate 64 CHR ''a'') \<le> 96"
proof -
  have hex: "lower_hex CHR ''a''" "nat_dec 0 = ''0''" by code_simp+
  then show "valid_diff_id (''sha256:'' @ replicate 64 CHR ''a'')" "length (''0.0.'' @ replicate 64 CHR ''a'') \<le> 96"
    by (simp_all add: valid_diff_id_def starts_with_def list_all_iff)
  show "valid_hunk_id (''0.0.'' @ replicate 64 CHR ''a'')"
    using printed_id_valid[of 0 0 "replicate 64 CHR ''a''"] hex by (simp add: list_all_iff)
qed

lemma demo_request: "request_scope demo_req = Inr (PrepareCommit, demo_scope, demo_ids)"
proof -
  have "validate_hunk_ids demo_ids = Inr demo_ids"
    using demo_ids_valid
    by (simp add: demo_ids_def validate_hunk_ids_def MAX_GIT_SELECTED_HUNKS_def del: replicate.simps append.simps)
  moreover have "parse_action None = Inr PrepareCommit" by (simp add: parse_action_def)
  moreover have "validate_timeout None = Inr 30000"
    by (simp add: validate_timeout_def clamp_def DEFAULT_GIT_TIMEOUT_MS_def MAX_GIT_TIMEOUT_MS_def)
  moreover have "validate_literal_paths [] = Inr []" by (simp add: validate_literal_paths_def MAX_GIT_PATHSPECS_def)
  moreover have "clamp_bytes None DEFAULT_GIT_STDOUT_BYTES MAX_OUTPUT_BYTES = 200000"
    by (simp add: clamp_bytes_def clamp_def DEFAULT_GIT_STDOUT_BYTES_def MAX_OUTPUT_BYTES_def)
  ultimately show ?thesis
    using demo_ids_valid(1)
    by (simp add: request_scope_def demo_req_def or_else_def source_staged_def demo_scope_def del: replicate.simps append.simps)
qed

abbreviation demo_source :: parsed_diff where
  "demo_source \<equiv> ex_parsed demo_hash (scope_args demo_ctx demo_scope)"

abbreviation demo_selected :: selection where
  "demo_selected \<equiv> [(ex_file demo_hash (scope_args demo_ctx demo_scope) 0, ex_hunk demo_hash (scope_args demo_ctx demo_scope) 0)]"

lemma demo_hunk_id: "h_id (ex_hunk demo_hash da 0) = ''0.0.'' @ replicate 64 CHR ''a''"
proof -
  have "nat_dec 0 = ''0''" by code_simp
  then show ?thesis by (simp add: ex_hunk_def hunk_id_def demo_hash_def)
qed

lemma demo_source_id: "pd_id (ex_parsed demo_hash da) = ''sha256:'' @ replicate 64 CHR ''a''"
  by (simp add: ex_parsed_def diff_id_def demo_hash_def)

lemma demo_selection: "selected_hunks demo_source demo_ids = Inr demo_selected"
  using demo_hunk_id[of "scope_args demo_ctx demo_scope"]
  by (simp add: selected_hunks_def demo_ids_def hunk_lookup_def ex_parsed_def ex_file_def del: replicate.simps)

lemma demo_paths: "selected_patch_paths demo_selected = [''f'']"
  by (simp add: selected_patch_paths_def ex_file_def)

lemma demo_keys:
  "diff_keys (ex_parsed sha da) = [''f'' @ [NUL] @ ''-a'' @ [LF] @ ''+b'' @ [LF]]"
  "selection_keys demo_selected = [''f'' @ [NUL] @ ''-a'' @ [LF] @ ''+b'' @ [LF]]"
  "diff_keys (ex_none sha da) = []"
  by (simp_all add: diff_keys_def ex_parsed_def ex_none_def selection_keys_def file_keys_def ex_file_def ex_hunk_def
      hunk_body_key_def)

lemma demo_unambiguous: "reject_ambiguous_subset demo_source demo_selected = Inr ()"
proof -
  have "map snd (count_all [k]) = [1]" for k by (simp add: count_all_def count_up_def count_get_def)
  moreover have "supported_counts demo_source = body_counts_from_selected demo_selected"
    using demo_keys(1,2) by (simp add: supported_counts_def body_counts_from_selected_def diff_keys_def ex_parsed_def ex_file_def)
  ultimately show ?thesis
    unfolding reject_ambiguous_subset_def body_counts_from_selected_def demo_keys
    by (simp add: count_all_def count_up_def count_get_def)
qed

lemma demo_patch: "reconstruct_patch demo_source demo_selected = Inr demo_diff"
  by (simp add: reconstruct_patch_def ex_parsed_def chosen_hunks_def ex_file_def file_patch_def ex_hunk_def
      demo_line0_def demo_header_def demo_diff_def)

section \<open>The plan\<close>

definition demo_plan :: stage_plan where
  "demo_plan = \<lparr> pl_repo = demo_ctx, pl_action = PrepareCommit, pl_scope = demo_scope, pl_source = demo_source,
     pl_selected = demo_selected, pl_pre_target = demo_at False (demo_scope\<lparr> sc_staged := True \<rparr>),
     pl_pre_full_unstaged = Some demo_source, pl_patch = demo_diff \<rparr>"

lemma scope_ok: "sc_paths demo_scope = []" "1000 \<le> sc_max_bytes demo_scope" "sc_staged demo_scope = False"
  by (simp_all add: demo_scope_def)

lemma lands_plan: "lands (plan_stage demo_env demo_req) False demo_plan False"
proof -
  have src: "demo_at False demo_scope = demo_source" by (simp add: demo_at_def scope_ok)
  have none: "pd_files (demo_at False (demo_scope\<lparr> sc_staged := True, sc_paths := [] \<rparr>)) = []"
      "pd_files (demo_at False (demo_scope\<lparr> sc_staged := True \<rparr>)) = []"
    by (simp_all add: demo_at_def ex_none_def)
  have enum: "lands (enumerate_diff demo_env demo_ctx demo_scope) False demo_source False"
    using lands_enumerate[OF scope_ok(1,2), of False] by (simp add: src)
  have short: "\<not> length demo_diff > MAX_GIT_STDIN_BYTES"
    by (simp add: demo_diff_def MAX_GIT_STDIN_BYTES_def MAX_OUTPUT_BYTES_def)
  have wd: "sq_working_dir demo_req = None" "sq_diff_id demo_req = pd_id demo_source"
    by (simp_all add: demo_req_def demo_source_id del: replicate.simps)
  show ?thesis
    unfolding plan_stage_def wd
    apply (rule lands_bind, rule lands_lift, rule demo_request, simp only: prod.case)
    apply (rule lands_bind[OF lands_resolve])
    apply (rule lands_bind[OF lands_unmerged])
    apply (rule lands_bind[OF enum])
    apply (rule lands_bind[where x = "()" and ?w1.0 = False], simp add: reject_stale_diff_def lands_ret)
    apply (rule lands_bind, rule lands_lift, rule demo_selection)
    apply (rule lands_bind, rule lands_lift, rule demo_unambiguous)
    apply (rule lands_bind, simp only: demo_paths, rule lands_tracked)
    apply (rule lands_bind[where x = "()" and ?w1.0 = False])
     apply (simp add: require_clean_index_def)
     apply (rule lands_bind, rule lands_enumerate, simp_all add: scope_ok none lands_ret)
    apply (rule lands_bind[where x = "()" and ?w1.0 = False])
     apply (simp only: reject_mixed_direction_files_def)
     apply (rule lands_bind, rule lands_map_err, rule lands_enumerate, simp_all add: scope_ok none)
     apply (rule lands_lift, simp)
    apply (rule lands_bind, rule lands_enumerate, simp_all add: scope_ok)
    apply (rule lands_bind[where x = "Some demo_source" and ?w1.0 = False])
     apply (simp add: baseline_unstaged_def scope_ok lands_ret)
    apply (rule lands_bind, rule lands_lift, rule demo_patch)
    using short by (simp add: lands_ret demo_plan_def target_staged_def source_staged_def)
qed

section \<open>Checking, applying, verifying\<close>

lemma demo_apply_command:
  "demo_status (build_git_apply_args (cached_apply_args False chk False)) = 0"
  "demo_output w (build_git_apply_args (cached_apply_args False chk False)) = []"
  "demo_next False (build_git_apply_args (cached_apply_args False chk False)) = (\<not> chk)"
  by (simp_all add: demo_status_def demo_output_def demo_next_def build_git_apply_args_def cached_apply_args_def ls_files_args_def)

lemma demo_delivery: "write_git_stdin 53 0 0 [Inr 53, Inr 0]
    = Some \<lparr> sr_written = 53, sr_delivered = True, sr_error = None, sr_broken = False \<rparr>"
  by (simp add: WRITE_CHUNK_def)

lemma lands_plan_apply:
  "\<exists>ex. lands (plan_apply demo_env demo_plan chk) False ex (\<not> chk)
     \<and> success ex \<and> \<not> timed_out ex \<and> fully_delivered (stdin_report ex) = Some True"
proof -
  let ?sub = "build_git_apply_args (cached_apply_args False chk False)"
  have len: "length demo_diff = 53" by (simp add: demo_diff_def)
  then have small: "length demo_diff \<le> MAX_GIT_STDIN_BYTES" by (simp add: MAX_GIT_STDIN_BYTES_def MAX_OUTPUT_BYTES_def)
  have plan: "pl_repo demo_plan = demo_ctx" "pl_patch demo_plan = demo_diff" "(pl_action demo_plan = Unstage) = False"
      "(sc_context (pl_scope demo_plan) = 0) = False"
    by (simp_all add: demo_plan_def demo_scope_def)
  define ex where "ex = exec_result (build_git_args ?sub) (Some ''/w'') (Some demo_diff)
    (clamp DEFAULT_GIT_STDOUT_BYTES 1 MAX_OUTPUT_BYTES) (clamp DEFAULT_GIT_STDERR_BYTES 1 MAX_OUTPUT_BYTES)
    (demo_report False ?sub (Some demo_diff))"
  have "success ex \<and> \<not> timed_out ex \<and> fully_delivered (stdin_report ex) = Some True"
    unfolding ex_def using demo_delivery demo_apply_command len
    by (simp add: exec_result_def demo_report_def read_to_end_limited_eq collect_stdin_with_grace_def from_report_def
        del: write_git_stdin.simps)
  moreover have "lands (plan_apply demo_env demo_plan chk) False ex (\<not> chk)"
    unfolding plan_apply_def run_cached_apply_def plan ctx_dir demo_apply_command(3)[symmetric] ex_def
    by (rule lands_map_err, rule lands_bind[OF lands_revalidate], rule lands_map_err, rule lands_run_git_with_stdin)
      (simp add: small)
  ultimately show ?thesis by blast
qed

lemma lands_preflight: "lands (preflight demo_env demo_plan) False () False"
proof -
  obtain ex where "lands (plan_apply demo_env demo_plan True) False ex False" "success ex" "\<not> timed_out ex"
      "fully_delivered (stdin_report ex) = Some True"
    using lands_plan_apply[of True] by auto
  then show ?thesis unfolding preflight_def by (intro lands_bind) (assumption, simp add: lands_ret)
qed

lemma lands_capture: "lands (capture_blobs demo_env demo_plan) False [(''f'', demo_blob False)] False"
  unfolding capture_blobs_def by (simp add: demo_plan_def demo_paths lands_map_err lands_blobs)

lemma lands_apply: "\<exists>ex. lands (apply_patch demo_env demo_plan) False ex True"
proof -
  obtain ex where "lands (plan_apply demo_env demo_plan False) False ex True" "success ex" "\<not> timed_out ex"
      "fully_delivered (stdin_report ex) = Some True"
    using lands_plan_apply[of False] by auto
  then have "lands (apply_patch demo_env demo_plan) False ex True"
    unfolding apply_patch_def by (intro lands_bind) (assumption, simp add: lands_ret)
  then show ?thesis ..
qed

lemma demo_sides: "hunk_source_target_lines (ex_hunk sha da fi) False = Inr ([''a'' @ [LF]], [''b'' @ [LF]])"
  by (simp add: hunk_source_target_lines_def ex_hunk_def split_blob_lines_eq starts_with_def no_newline_prefix_def)

lemma demo_start: "old_start (ex_hunk sha da fi) = 1"
  by (simp add: ex_hunk_def)

lemma demo_expected:
  "expected_index_blobs_after_selected [(''f'', demo_blob False)] demo_selected False = Inr [(''f'', demo_blob True)]"
  unfolding expected_index_blobs_after_selected_def demo_paths
  by (simp add: hunks_of_path_def sort_hunks_def ex_file_def apply_selected_hunks_to_blob_def demo_blob_def
      split_blob_lines_eq demo_sides demo_start ok_or_def usize_max_def Let_def)

lemma demo_counts_equal:
  "verify_scoped_count_delta PrepareCommit (body_counts_from_selected demo_selected)
     (body_counts_from_diff (ex_parsed sha da1)) (body_counts_from_diff (ex_none sha da2))
     (body_counts_from_diff (ex_none sha da3)) (body_counts_from_diff (ex_parsed sha da4))"
  unfolding body_counts_from_selected_def body_counts_from_diff_def demo_keys
  by (subst scoped_delta_iff) (simp_all add: usize_max_def)

lemma demo_group:
  "full_staged_diff_matches_selected_group (ex_parsed sha da) (body_counts_from_selected demo_selected)"
  "full_unstaged_diff_matches_prepare_commit_delta (ex_parsed sha da) (ex_none sha da) (body_counts_from_selected demo_selected) [''f'']"
  unfolding staged_group_iff unstaged_group_iff demo_keys
  by (simp_all add: ex_parsed_def ex_file_def ex_none_def)

lemma demo_after:
  "demo_at True demo_scope = ex_none demo_hash (scope_args demo_ctx demo_scope)"
  "demo_at True (whole demo_scope True) = ex_parsed demo_hash (scope_args demo_ctx (whole demo_scope True))"
  "demo_at True (whole demo_scope False) = ex_none demo_hash (scope_args demo_ctx (whole demo_scope False))"
  "demo_at True (demo_scope\<lparr> sc_staged := True \<rparr>) = ex_parsed demo_hash (scope_args demo_ctx (demo_scope\<lparr> sc_staged := True \<rparr>))"
  "demo_at False (demo_scope\<lparr> sc_staged := True \<rparr>) = ex_none demo_hash (scope_args demo_ctx (demo_scope\<lparr> sc_staged := True \<rparr>))"
  by (simp_all add: demo_at_def scope_ok)

lemma lands_verify: "\<exists>vs. lands (verify_after_apply demo_env demo_plan [(''f'', demo_blob False)]) True vs True"
proof -
  have plan: "pl_repo demo_plan = demo_ctx" "pl_action demo_plan = PrepareCommit" "pl_scope demo_plan = demo_scope"
      "pl_source demo_plan = demo_source" "pl_selected demo_plan = demo_selected"
      "pl_pre_target demo_plan = demo_at False (demo_scope\<lparr> sc_staged := True \<rparr>)"
      "pl_pre_full_unstaged demo_plan = Some demo_source"
    by (simp_all add: demo_plan_def)
  have target: "demo_scope\<lparr> sc_staged := target_staged PrepareCommit \<rparr> = demo_scope\<lparr> sc_staged := True \<rparr>"
    by (simp add: target_staged_def source_staged_def)
  have same: "whole demo_scope False = demo_scope" by (simp add: demo_scope_def)
  have delta: "lands (verify_index_blob_delta demo_env demo_ctx [(''f'', demo_blob False)] demo_selected PrepareCommit t) True True True" for t
    unfolding verify_index_blob_delta_def
    apply (rule lands_bind, rule lands_lift, simp add: demo_expected)
    apply (rule lands_bind, rule lands_map_err, simp, rule lands_blobs)
    by (simp add: same_map_def lands_ret)
  have group: "\<exists>ws. lands (verify_commit_group demo_env demo_plan vs) True ws True" for vs
    unfolding verify_commit_group_def Let_def plan demo_paths
    apply (rule exI, rule lands_bind, rule lands_map_err, rule lands_enumerate, simp_all add: scope_ok)
    apply (rule lands_bind, rule lands_map_err, rule lands_enumerate, simp_all add: scope_ok)
    by (simp add: demo_after demo_group same[simplified], rule lands_ret)
  show ?thesis
    unfolding verify_after_apply_def Let_def plan target
    apply (rule exE[OF group])
    apply (rule exI, rule lands_bind, rule lands_map_err, rule lands_enumerate, simp_all add: scope_ok)
    apply (rule lands_bind, rule lands_map_err, rule lands_enumerate, simp_all add: scope_ok)
    apply (simp add: demo_after demo_counts_equal)
    apply (rule lands_bind[OF delta])
    by simp
qed

section \<open>The run\<close>

lemma demo_run:
  "\<exists>j s'. handle_git_stage_hunks demo_env demo_req \<lparr> gs_world = False, gs_trace = [] \<rparr> = (Inr j, s')
     \<and> gs_world s' = True
     \<and> json_get ''applied'' j = Some (JBool True) \<and> json_get ''commit_ready'' j = Some (JBool True)"
proof -
  obtain ex where ex: "lands (apply_patch demo_env demo_plan) False ex True" using lands_apply by blast
  obtain vs where vs: "lands (verify_after_apply demo_env demo_plan [(''f'', demo_blob False)]) True vs True"
    using lands_verify by blast
  have "lands (handle_git_stage_hunks demo_env demo_req) False (stage_reply demo_req demo_plan ex (Inr vs)) True"
    unfolding handle_git_stage_hunks_def
    by (rule lands_bind[OF lands_map_err[OF lands_plan]], rule lands_bind[OF lands_preflight],
        rule lands_bind[OF lands_capture], rule lands_bind[OF ex], rule lands_case[OF vs lands_ret])
  moreover have "pl_action demo_plan = PrepareCommit" by (simp add: demo_plan_def)
  ultimately show ?thesis unfolding lands_def using stage_reply_fields[of demo_req demo_plan ex "Inr vs"] by fastforce
qed

end
