(* ===== verification/StageClaims.thy ===== *)
theory StageClaims
  imports StageDemo
begin



section \<open>What a reply guarantees\<close>

lemma selection_bound:
  assumes "request_scope req = Inr (a, sc, ids)" "selects d ids sel" "diff_ok pre"
  shows "length (diff_keys pre) + length sel \<le> usize_max"
proof -
  have "length ids \<le> MAX_GIT_SELECTED_HUNKS"
    using assms(1) by (auto simp: request_scope_def validate_hunk_ids_def bindE_Inr_iff split: if_splits)
  moreover have "length sel = length ids" using assms(2) unfolding selects_def by (metis length_map)
  ultimately show ?thesis using diff_keys_bound[OF assms(3)]
    by (simp add: MAX_GIT_DIFF_HUNKS_def MAX_GIT_SELECTED_HUNKS_def usize_max_def)
qed

text \<open>C1. A reply with \<open>applied\<close> is true of what git printed. The run looked, checked the patch, looked,
  applied the same patch, and looked again.  The requested identifiers name stageable hunks of the diff
  that was read before and had the requested identifier, and the patch consists of those.  After the
  application the diff has lost exactly the selected hunks and the opposite diff has gained exactly
  them, as multisets of path and body, and the index holds for every selected path the blob that
  applying the hunks to the blob from before gives.\<close>

theorem applied_reply_sound:
  assumes "handle_git_stage_hunks E req s = (Inr j, s')" "json_get ''applied'' j = Some (JBool True)"
  shows "\<exists>a sc repo before chk mid ev after source target source' target' sel patch blobs expected post.
    gs_trace s' = gs_trace s @ before @ chk # mid @ ev # after
    \<and> request_scope req = Inr (a, sc, sq_hunk_ids req)
    \<and> printed_diff E repo sc before source \<and> pd_id source = sq_diff_id req
    \<and> selects source (sq_hunk_ids req) sel \<and> reconstruct_patch source sel = Inr patch
    \<and> apply_run patch (a = Unstage) True (sc_context sc = 0) chk \<and> accepted chk
    \<and> apply_run patch (a = Unstage) False (sc_context sc = 0) ev \<and> accepted ev
    \<and> printed_diff E repo (target_scope a sc) before target
    \<and> printed_diff E repo sc after source' \<and> printed_diff E repo (target_scope a sc) after target'
    \<and> mset (selection_keys sel) \<subseteq># mset (diff_keys source)
    \<and> mset (diff_keys source') = mset (diff_keys source) - mset (selection_keys sel)
    \<and> mset (diff_keys target') = mset (diff_keys target) + mset (selection_keys sel)
    \<and> printed_blobs (selected_patch_paths sel) mid blobs
    \<and> expected_index_blobs_after_selected blobs sel (a = Unstage) = Inr expected
    \<and> printed_blobs (map fst expected) after post \<and> map_of post = map_of expected"
proof -
  obtain pl before chk mid blobs ev after where
    run: "gs_trace s' = gs_trace s @ before @ chk # mid @ ev # after" "verified_run E req pl before chk blobs ev mid after"
    using handle_verified[OF assms] by blast
  have plan: "request_scope req = Inr (pl_action pl, pl_scope pl, sq_hunk_ids req)"
    "printed_diff E (pl_repo pl) (pl_scope pl) before (pl_source pl)" "pd_id (pl_source pl) = sq_diff_id req"
    "selects (pl_source pl) (sq_hunk_ids req) (pl_selected pl)"
    "reconstruct_patch (pl_source pl) (pl_selected pl) = Inr (pl_patch pl)"
    "printed_diff E (pl_repo pl) (target_scope (pl_action pl) (pl_scope pl)) before (pl_pre_target pl)"
    using run(2) unfolding verified_run_def plan_facts_def by blast+
  obtain source' target' expected post where post:
    "printed_diff E (pl_repo pl) (pl_scope pl) after source'"
    "printed_diff E (pl_repo pl) (target_scope (pl_action pl) (pl_scope pl)) after target'"
    "verify_scoped_count_delta (pl_action pl) (body_counts_from_selected (pl_selected pl))
       (body_counts_from_diff (pl_source pl)) (body_counts_from_diff (pl_pre_target pl))
       (body_counts_from_diff source') (body_counts_from_diff target')"
    "expected_index_blobs_after_selected blobs (pl_selected pl) (pl_action pl = Unstage) = Inr expected"
    "printed_blobs (map fst expected) after post" "map_of post = map_of expected"
    using run(2) unfolding verified_run_def scoped_facts_def by blast
  note sets = post(3)[unfolded scoped_counts_multiset[OF selection_bound[OF plan(1,4) printed_diff_ok[OF plan(6)]]]]
  show ?thesis
    using run(1) run(2)[unfolded verified_run_def] plan post(1,2,4-6) sets by blast
qed

theorem applied_reply_sound_witness:
  "\<exists>before chk mid ev after. gs_trace (snd (handle_git_stage_hunks demo_env demo_req \<lparr> gs_world = False, gs_trace = [] \<rparr>))
      = before @ chk # mid @ ev # after \<and> accepted chk \<and> accepted ev"
proof -
  obtain j s' where run: "handle_git_stage_hunks demo_env demo_req \<lparr> gs_world = False, gs_trace = [] \<rparr> = (Inr j, s')"
    "json_get ''applied'' j = Some (JBool True)"
    using demo_run by blast
  obtain before chk mid ev after where
    "gs_trace s' = gs_trace \<lparr> gs_world = False, gs_trace = [] \<rparr> @ before @ chk # mid @ ev # after" "accepted chk" "accepted ev"
    using applied_reply_sound[OF run] by blast
  then show ?thesis unfolding run(1) snd_conv by (metis append_Nil git_state.select_convs(2))
qed

text \<open>C8. A reply that is ready for a commit means that a commit would record exactly the selection. The
  staged diff of the whole repository was empty before; afterwards it consists of stageable files only
  and its hunks are the selected ones, as multisets; and in the unstaged diff of the whole repository
  the files outside the selected paths and the files that cannot be staged are the same as before and
  the hunks are those before without the selected ones.\<close>

theorem commit_ready_reply_sound:
  assumes "handle_git_stage_hunks E req s = (Inr j, s')" "json_get ''commit_ready'' j = Some (JBool True)"
  shows "\<exists>sc repo before chk mid ev after source sel clean staged pre unstaged.
    gs_trace s' = gs_trace s @ before @ chk # mid @ ev # after \<and> accepted ev
    \<and> request_scope req = Inr (PrepareCommit, sc, sq_hunk_ids req)
    \<and> printed_diff E repo sc before source \<and> selects source (sq_hunk_ids req) sel
    \<and> printed_diff E repo (whole sc True) before clean \<and> pd_files clean = []
    \<and> printed_diff E repo (whole sc True) after staged
    \<and> list_all (\<lambda>f. supported f \<and> fh_hunks f \<noteq> []) (pd_files staged)
    \<and> mset (diff_keys staged) = mset (selection_keys sel)
    \<and> printed_diff E repo (whole sc False) before pre \<and> printed_diff E repo (whole sc False) after unstaged
    \<and> mset (unselected_sigs (selected_patch_paths sel) pre) = mset (unselected_sigs (selected_patch_paths sel) unstaged)
    \<and> mset (unstageable_sigs pre) = mset (unstageable_sigs unstaged)
    \<and> mset (selection_keys sel) \<subseteq># mset (diff_keys pre)
    \<and> mset (diff_keys unstaged) = mset (diff_keys pre) - mset (selection_keys sel)"
proof -
  obtain pl ex v where j: "j = stage_reply req pl ex v" using handle_reply[OF assms(1)] by blast
  then have "json_get ''applied'' j = Some (JBool True)" using assms(2) by (simp add: stage_reply_fields)
  from handle_verified[OF assms(1) this] obtain pl before chk mid blobs ev after ex vs where
    run: "gs_trace s' = gs_trace s @ before @ chk # mid @ ev # after" "verified_run E req pl before chk blobs ev mid after"
      "j = stage_reply req pl ex (Inr vs)" by blast
  then have a: "pl_action pl = PrepareCommit" using assms(2) by (simp add: stage_reply_fields)
  have plan: "request_scope req = Inr (PrepareCommit, pl_scope pl, sq_hunk_ids req)"
    "printed_diff E (pl_repo pl) (pl_scope pl) before (pl_source pl)"
    "selects (pl_source pl) (sq_hunk_ids req) (pl_selected pl)" "accepted ev"
    using run(2) a unfolding verified_run_def plan_facts_def by auto
  obtain clean where clean: "printed_diff E (pl_repo pl) (whole (pl_scope pl) True) before clean" "pd_files clean = []"
    using run(2) a unfolding verified_run_def plan_facts_def by blast
  obtain staged pre unstaged where group: "pl_pre_full_unstaged pl = Some pre"
    "printed_diff E (pl_repo pl) (whole (pl_scope pl) True) after staged"
    "printed_diff E (pl_repo pl) (whole (pl_scope pl) False) after unstaged"
    and checks: "full_staged_diff_matches_selected_group staged (body_counts_from_selected (pl_selected pl))"
    "full_unstaged_diff_matches_prepare_commit_delta pre unstaged (body_counts_from_selected (pl_selected pl))
       (selected_patch_paths (pl_selected pl))"
    using run(2) a unfolding verified_run_def group_facts_def by blast
  have pre: "printed_diff E (pl_repo pl) (whole (pl_scope pl) False) before pre"
    using run(2) a group(1) unfolding verified_run_def plan_facts_def by blast
  show ?thesis
    using run(1) plan clean group(2,3) pre checks(1)[unfolded staged_group_iff] checks(2)[unfolded unstaged_group_iff]
    by blast
qed

theorem commit_ready_reply_sound_witness:
  "\<exists>repo t u clean staged. printed_diff demo_env repo (whole demo_scope True) t clean \<and> pd_files clean = []
     \<and> printed_diff demo_env repo (whole demo_scope True) u staged \<and> pd_files staged \<noteq> []"
proof -
  obtain j s' where run: "handle_git_stage_hunks demo_env demo_req \<lparr> gs_world = False, gs_trace = [] \<rparr> = (Inr j, s')"
    "json_get ''commit_ready'' j = Some (JBool True)"
    using demo_run by blast
  obtain sc repo before after sel source clean staged where
    facts: "request_scope demo_req = Inr (PrepareCommit, sc, sq_hunk_ids demo_req)"
    "printed_diff demo_env repo (whole sc True) before clean" "pd_files clean = []"
    "printed_diff demo_env repo (whole sc True) after staged"
    "mset (diff_keys staged) = mset (selection_keys sel)" "selects source (sq_hunk_ids demo_req) sel"
    using commit_ready_reply_sound[OF run] by blast
  have sc: "sc = demo_scope" using facts(1) unfolding demo_request by simp
  have "length sel = length (sq_hunk_ids demo_req)" using facts(6) unfolding selects_def by (metis length_map)
  then have "length (diff_keys staged) = 1"
    using mset_eq_length[OF facts(5)] by (simp add: selection_keys_def demo_req_def demo_ids_def)
  then have "pd_files staged \<noteq> []" by (auto simp: diff_keys_def)
  then show ?thesis using facts(2-4) unfolding sc by blast
qed

end
