(* ===== verification/GitApply.thy ===== *)
theory GitApply
  imports IndexProbe
begin

text \<open>
  The handler of \<open>GitApply\<close>, from \<^verbatim>\<open>git/handlers/apply.rs\<close>: a patch of the caller is parsed and
  checked against the supported subset and the index before \<open>git apply\<close> sees it, and the result of
  the command is classified.
\<close>

section \<open>The supported patches\<close>

fun content_change_loop :: "bool \<Rightarrow> bytes \<Rightarrow> bool" where
  "content_change_loop line_start [] = False"
| "content_change_loop line_start (b # bs) =
     (if line_start \<and> (b = CHR ''+'' \<or> b = CHR ''-'') then True
      else content_change_loop (b = LF \<or> b = CR) bs)"

definition hunk_body_has_content_change :: "bytes \<Rightarrow> bool" where
  "hunk_body_has_content_change body = content_change_loop True body"

fun check_patch_files :: "file_hunks list \<Rightarrow> bytes list \<Rightarrow> nat \<Rightarrow> (bytes list \<times> nat) result" where
  "check_patch_files [] paths argv = Inr (paths, argv)"
| "check_patch_files (f # fs) paths argv =
     (if \<not> supported f then
        if fh_unsupported_reason f = Some ''invalid_path''
        then Inl (structured_error ''invalid_patch_path'' [(''path'', JStr (fh_path f))])
        else Inl (unsupported_record [(''path'', JStr (fh_path f)),
                    (''unsupported_reason'', json_opt (fh_unsupported_reason f))])
      else
        bindE (map_err (\<lambda>_. structured_error ''invalid_patch_path'' [(''path'', JStr (fh_path f))])
                 (validate_repo_relative_path (fh_path f))) (\<lambda>_.
          if list_ex (\<lambda>h. \<not> hunk_body_has_content_change (h_body h)) (fh_hunks f)
          then Inl (unsupported_record [(''path'', JStr (fh_path f)),
                      (''unsupported_reason'', JStr ''no_content_changes'')])
          else check_patch_files fs (paths @ [fh_path f]) (saturating_add argv (length (fh_path f) + 1))))"

definition patch_complexity :: "(bytes \<times> json) list \<Rightarrow> git_error" where
  "patch_complexity extra = structured_error ''patch_complexity_limit'' extra"

definition patch_args :: "repo_context \<Rightarrow> diff_args" where
  "patch_args repo = \<lparr> da_repo = repo, da_staged = False, da_context = 3, da_paths = [] \<rparr>"

definition validate_supported_patch :: "(bytes \<Rightarrow> bytes) \<Rightarrow> repo_context \<Rightarrow> bytes \<Rightarrow> bytes list result" where
  "validate_supported_patch sha repo patch =
     bindE (map_err (\<lambda>e. structured_error
               (if error_type e = ''diff_complexity_limit'' then ''patch_complexity_limit''
                else ''unsupported_patch_record'') [(''parser_error'', error_json e)])
              (parse_unified_diff sha (patch_args repo) patch)) (\<lambda>parsed.
       if pd_files parsed = [] then Inl (structured_error ''empty_patch'' [])
       else if length (pd_files parsed) > MAX_GIT_PATCH_PATHS
       then Inl (patch_complexity [(''max_paths'', JNum (int MAX_GIT_PATCH_PATHS))])
       else
         bindE (check_patch_files (pd_files parsed) [] 0) (\<lambda>(paths, argv).
           if argv > MAX_GIT_ARG_BYTES
           then Inl (patch_complexity [(''argv_bytes'', JNum (int argv)),
                       (''max_argv_bytes'', JNum (int MAX_GIT_ARG_BYTES))])
           else Inr (remdups (sort paths))))"

section \<open>The worktree\<close>

fun regular_below :: "git_fs \<Rightarrow> bytes \<Rightarrow> bytes \<Rightarrow> bytes list \<Rightarrow> unit result" where
  "regular_below fs path cur [] = Inr ()"
| "regular_below fs path cur (c # cs) =
     (let nxt = path_push cur c in
      case gf_lstat fs nxt of
        Inl _ \<Rightarrow> Inl (unsupported_record [(''path'', JStr path)])
      | Inr md \<Rightarrow>
          if nm_kind md = Symlink then Inl (unsupported_record [(''path'', JStr path)])
          else if cs = [] then
            if nm_kind md \<noteq> RegularFile then Inl (unsupported_record [(''path'', JStr path)])
            else if nm_links md > 1 then
              Inl (unsupported_record [(''path'', JStr path), (''link_count'', JNum (int (nm_links md)))])
            else regular_below fs path nxt cs
          else if nm_kind md \<noteq> Directory then Inl (unsupported_record [(''path'', JStr path)])
          else regular_below fs path nxt cs)"

definition validate_worktree_regular_file :: "git_fs \<Rightarrow> bytes \<Rightarrow> bytes \<Rightarrow> unit result" where
  "validate_worktree_regular_file fs root path = regular_below fs path root (split_byte SLASH path)"

fun check_worktree_files :: "'w git_env \<Rightarrow> bytes \<Rightarrow> bytes list \<Rightarrow> ('w, unit) gitm" where
  "check_worktree_files E root [] = gm_ret ()"
| "check_worktree_files E root (p # ps) =
     gm_bind (gm_look E (\<lambda>fs. validate_worktree_regular_file fs root p)) (\<lambda>_. check_worktree_files E root ps)"

section \<open>Classifying the result\<close>

record apply_classification =
  ac_state :: bytes
  ac_is_error :: bool
  ac_unknown_reason :: "bytes option"
  ac_conflicted :: "bool option"
  ac_probe_error :: "bytes option"

definition classified :: "bytes \<Rightarrow> bool \<Rightarrow> bytes option \<Rightarrow> apply_classification" where
  "classified state err reason = \<lparr> ac_state = state, ac_is_error = err, ac_unknown_reason = reason,
     ac_conflicted = None, ac_probe_error = None \<rparr>"

definition classify_settled :: "git_exec \<Rightarrow> bool \<Rightarrow> apply_classification" where
  \<comment> \<open>the part of \<open>classify_apply_result\<close> that asks nothing\<close>
  "classify_settled ex check_only =
     (if success ex \<and> fully_delivered (stdin_report ex) = Some False
      then classified ''state_unknown'' True (Some ''stdin_write'')
      else if check_only \<and> success ex then classified ''checked'' False None
      else if \<not> check_only \<and> success ex then classified ''applied'' False None
      else if check_only then classified ''failed'' True None
      else classified ''state_unknown'' True (Some ''unproved_git_nonzero''))"

definition classify_apply_result ::
  "'w git_env \<Rightarrow> repo_context \<Rightarrow> git_exec \<Rightarrow> bool \<Rightarrow> bool \<Rightarrow> nat \<Rightarrow> ('w, git_error, apply_classification) gm" where
  "classify_apply_result E repo ex check_only three_way timeout =
     (if timed_out ex then gm_ret (classified ''state_unknown'' True (Some ''timeout''))
      else if \<not> check_only \<and> three_way \<and> \<not> success ex then
        gm_case (index_has_unmerged_entries E repo timeout)
          (\<lambda>t. gm_ret ((classified ''state_unknown'' True (Some ''three_way_indeterminate''))\<lparr> ac_probe_error := Some t \<rparr>))
          (\<lambda>unmerged. gm_ret (if unmerged
             then (classified ''state_unknown'' True (Some ''three_way_conflict''))\<lparr> ac_conflicted := Some True \<rparr>
             else classified ''state_unknown'' True (Some ''three_way_indeterminate'')))
      else gm_ret (classify_settled ex check_only))"

section \<open>The handler\<close>

record git_apply_request =
  gq_patch :: bytes
  gq_target :: "bytes option"
  gq_check_only :: "bool option"
  gq_reverse :: "bool option"
  gq_three_way :: "bool option"
  gq_recount :: "bool option"
  gq_unidiff_zero :: "bool option"
  gq_whitespace :: "bytes option"
  gq_working_dir :: "bytes option"
  gq_timeout_ms :: "nat option"

definition whitespace_modes :: "bytes list" where
  "whitespace_modes = [''nowarn'', ''warn'', ''fix'', ''error'', ''error-all'']"

definition check_apply_request :: "git_apply_request \<Rightarrow> (git_apply_args \<times> nat) result" where
  "check_apply_request req =
     bindE (parse_target (gq_target req)) (\<lambda>target.
     bindE (if or_else (gq_whitespace req) ''nowarn'' \<in> set whitespace_modes then Inr ()
            else Inl (invalid_request ''whitespace'')) (\<lambda>_.
     bindE (validate_timeout (gq_timeout_ms req)) (\<lambda>timeout.
       if or_else (gq_three_way req) False \<and> target = TargetWorktree
       then Inl (structured_error ''incompatible_options'' [])
       else if length (gq_patch req) > MAX_GIT_STDIN_BYTES
       then Inl (structured_error ''stdin_too_large'' [(''max_bytes'', JNum (int MAX_GIT_STDIN_BYTES))])
       else if trim (gq_patch req) = [] then Inl (structured_error ''empty_patch'' [])
       else if NUL \<in> set (gq_patch req) then Inl (structured_error ''invalid_patch_path'' [])
       else Inr (\<lparr> ga_target = target, ga_check_only = or_else (gq_check_only req) False,
                   ga_reverse = or_else (gq_reverse req) False, ga_three_way = or_else (gq_three_way req) False,
                   ga_recount = or_else (gq_recount req) True,
                   ga_unidiff_zero = or_else (gq_unidiff_zero req) False,
                   ga_whitespace = or_else (gq_whitespace req) ''nowarn'' \<rparr>, timeout))))"

definition admit_patch :: "'w git_env \<Rightarrow> git_apply_request \<Rightarrow> git_apply_args \<Rightarrow> nat \<Rightarrow> ('w, repo_context) gitm" where
  \<comment> \<open>everything between the request and the command\<close>
  "admit_patch E req g timeout =
     gm_bind (resolve_repo_context E (gq_working_dir req) timeout) (\<lambda>repo.
     gm_bind (gm_lift (validate_supported_patch (env_sha E) repo (gq_patch req))) (\<lambda>paths.
     gm_bind (ensure_unmerged_index_absent E repo timeout) (\<lambda>_.
     gm_bind (ensure_tracked_regular_files E repo paths timeout) (\<lambda>_.
     gm_bind (if ga_target g \<noteq> TargetCached then check_worktree_files E (toplevel repo) paths else gm_ret ()) (\<lambda>_.
     gm_bind (revalidate E repo) (\<lambda>_. gm_ret repo))))))"

definition common_fields :: "git_apply_args \<Rightarrow> git_exec \<Rightarrow> bytes \<Rightarrow> (bytes \<times> json) list" where
  "common_fields g ex state =
     [(''state'', JStr state), (''applied'', JBool (state = ''applied'')), (''checked'', JBool (state = ''checked'')),
      (''target'', JStr (target_as_str (ga_target g))), (''reverse'', JBool (ga_reverse g)),
      (''three_way'', JBool (ga_three_way g)), (''stdin_write_error'', opt_str_json (write_error (stdin_report ex))),
      (''stdin_write_broken_pipe'', JBool (broken_pipe (stdin_report ex)))]"

definition identity_lost_payload :: "git_apply_args \<Rightarrow> git_exec \<Rightarrow> git_error \<Rightarrow> json" where
  "identity_lost_payload g ex e =
     build_git_response_with_is_error ex ''git apply completed but repository identity could not be verified'' True
       (common_fields g ex ''state_unknown''
        @ [(''state_unknown_reason'', JStr (error_type e)), (''error_type'', JStr (error_type e)),
           (''repo_identity_error'', error_json e)])"

definition classified_payload :: "git_apply_args \<Rightarrow> git_exec \<Rightarrow> bool \<Rightarrow> apply_classification \<Rightarrow> json" where
  "classified_payload g ex locked c =
     build_git_response_with_is_error ex (git_response_text ex) (ac_is_error c)
       (common_fields g ex (ac_state c)
        @ (case ac_unknown_reason c of
             Some r \<Rightarrow> [(''state_unknown_reason'', JStr r), (''error_type'', JStr r)] | None \<Rightarrow> [])
        @ (if locked then [(''error_type'', JStr ''index_locked'')] else [])
        @ (case ac_conflicted c of Some b \<Rightarrow> [(''conflicted'', JBool b)] | None \<Rightarrow> [])
        @ (case ac_probe_error c of Some t \<Rightarrow> [(''conflict_probe_error'', JStr t)] | None \<Rightarrow> []))"

definition conclude_apply ::
  "'w git_env \<Rightarrow> repo_context \<Rightarrow> git_apply_args \<Rightarrow> git_exec \<Rightarrow> nat \<Rightarrow> ('w, git_error, json) gm" where
  "conclude_apply E repo g ex timeout =
     gm_bind (if \<not> success ex \<and> \<not> timed_out ex \<and> writes_index (ga_target g)
              then apply_failed_on_index_lock E repo ex timeout else gm_ret False) (\<lambda>locked.
     gm_bind (if locked then gm_ret (classified ''failed'' True None)
              else classify_apply_result E repo ex (ga_check_only g) (ga_three_way g) timeout) (\<lambda>c.
       gm_ret (classified_payload g ex locked c)))"

definition handle_git_apply :: "'w git_env \<Rightarrow> git_apply_request \<Rightarrow> ('w, git_error, json) gm" where
  "handle_git_apply E req =
     gm_bind (gm_lift (check_apply_request req)) (\<lambda>(g, timeout).
     gm_bind (admit_patch E req g timeout) (\<lambda>repo.
     gm_bind (gm_map_err (\<lambda>_. structured_error ''git_apply_unavailable'' [])
        (run_git_with_stdin E (Some (working_dir repo)) (build_git_apply_args g) (Some (gq_patch req)) timeout
           DEFAULT_GIT_STDOUT_BYTES DEFAULT_GIT_STDERR_BYTES)) (\<lambda>ex.
       if success ex \<and> fully_delivered (stdin_report ex) \<noteq> Some False then
         gm_case (revalidate E repo) (\<lambda>e. gm_ret (identity_lost_payload g ex e))
           (\<lambda>_. conclude_apply E repo g ex timeout)
       else conclude_apply E repo g ex timeout)))"

end
