(* ===== verification/ApplyProps.thy ===== *)
theory ApplyProps
  imports GitApply StageClaims
begin

text \<open>
  The properties of \<open>GitApply\<close>: what is admitted, what is run, and what the reply says of it.
\<close>

section \<open>The commands\<close>

text \<open>The command that hands the patch of the request to git.\<close>

definition patch_run :: "git_apply_request \<Rightarrow> git_apply_args \<Rightarrow> run_event \<Rightarrow> bool" where
  "patch_run req g ev \<longleftrightarrow> event_sub ev = build_git_apply_args g \<and> ch_stdin (fst ev) = Some (gq_patch req)"

lemma does_emits: "emits P m \<Longrightarrow> does m (\<lambda>_. list_all P)"
  by (simp add: emits_def)

lemma emits_check_worktree [emits_intros]: "emits P (check_worktree_files E root ps)"
  by (induction ps) (auto intro!: emits_intros)

lemma emits_admit [emits_intros]: "emits reads_only (admit_patch E req g timeout)"
  unfolding admit_patch_def by (intro emits_intros)

lemma emits_classify [emits_intros]: "emits reads_only (classify_apply_result E repo ex chk tw timeout)"
  unfolding classify_apply_result_def by (intro emits_intros)

lemma emits_conclude [emits_intros]: "emits reads_only (conclude_apply E repo g ex timeout)"
  unfolding conclude_apply_def by (intro emits_intros)

section \<open>What admission established\<close>

definition admitted :: "'w git_env \<Rightarrow> git_apply_request \<Rightarrow> repo_context \<Rightarrow> run_event list \<Rightarrow> bool" where
  "admitted E req repo t \<longleftrightarrow>
     (\<exists>paths out n. validate_supported_patch (env_sha E) repo (gq_patch req) = Inr paths
        \<and> printed (ls_files_args paths) t out
        \<and> check_tracked_paths (parse_ls_files_preflight_stdout (take n out)) paths = Inr ())"

lemma tells_tracked:
  "tells (ensure_tracked_regular_files E repo paths timeout) (\<lambda>_ t. \<exists>out n. printed (ls_files_args paths) t out
     \<and> check_tracked_paths (parse_ls_files_preflight_stdout (take n out)) paths = Inr ())"
  unfolding ensure_tracked_regular_files_def revalidate_def Let_def
  by (rule tells_bind[OF tells_look], rule tells_bind[OF tells_map_err[OF tells_run_git_prefix]])
    (auto intro!: tells_fail tells_weaken[OF tells_lift]; blast)

lemma list_all_False: "list_all (\<lambda>_. False) t \<longleftrightarrow> t = []"
  by (cases t) auto

lemma tells_silent: "emits (\<lambda>_. False) m \<Longrightarrow> tells m (\<lambda>_ t. t = [])"
proof (rule tellsI)
  fix s x s' assume "emits (\<lambda>_. False) m" "m s = (Inr x, s')"
  then show "\<exists>t. gs_trace s' = gs_trace s @ t \<and> t = []"
    using emitsD[of "\<lambda>_. False" m s] by (auto simp: list_all_False)
qed

lemma tells_admit: "tells (admit_patch E req g timeout) (admitted E req)"
  unfolding admit_patch_def
  apply (rule tells_bind[OF tells_trivial[OF emits_stage_probes(1)]])
  apply (rule tells_bind[OF tells_lift])
  apply (rule tells_bind[OF tells_trivial[OF emits_unmerged(2)]])
  apply (rule tells_bind[OF tells_tracked])
  apply (rule tells_bind[where J = "\<lambda>_ t. t = []"])
   apply (rule tells_silent, intro emits_intros)
  apply (rule tells_bind[OF tells_silent[OF emits_revalidate]])
  by (auto intro!: tells_ret simp: admitted_def; blast)

lemma does_admit:
  "does (admit_patch E req g timeout) (\<lambda>r t. list_all reads_only t \<and> (case r of Inl _ \<Rightarrow> True | Inr repo \<Rightarrow> admitted E req repo t))"
  unfolding does_def
proof
  fix s
  obtain r s' where m: "admit_patch E req g timeout s = (r, s')" by (cases "admit_patch E req g timeout s")
  obtain t where t: "gs_trace s' = gs_trace s @ t" "list_all reads_only t"
    using emitsD[OF emits_admit, of E req g timeout s] m by auto
  moreover have "case r of Inl _ \<Rightarrow> True | Inr repo \<Rightarrow> admitted E req repo t"
    using tellsD[OF tells_admit] m t(1) by (cases r) fastforce+
  ultimately show "\<exists>t. gs_trace (snd (admit_patch E req g timeout s)) = gs_trace s @ t
    \<and> list_all reads_only t \<and> (case fst (admit_patch E req g timeout s) of Inl _ \<Rightarrow> True | Inr repo \<Rightarrow> admitted E req repo t)"
    using m by auto
qed

text \<open>What the run of the patch leaves: nothing, or one command with its answer.\<close>

definition patch_outcome ::
  "git_apply_request \<Rightarrow> git_apply_args \<Rightarrow> 'e + git_exec \<Rightarrow> run_event list \<Rightarrow> bool" where
  "patch_outcome req g r t \<longleftrightarrow>
     (t = [] \<and> isl r) \<or> (\<exists>ev. t = [ev] \<and> patch_run req g ev \<and> (isl r \<longleftrightarrow> isl (snd ev))
        \<and> (case r of Inl _ \<Rightarrow> True | Inr ex \<Rightarrow> accepted ev \<longleftrightarrow>
             success ex \<and> \<not> timed_out ex \<and> fully_delivered (stdin_report ex) \<noteq> Some False))"

lemma does_map_err:
  assumes "does m R" "\<And>r t. R r t \<Longrightarrow> Q (map_err h r) t"
  shows "does (gm_map_err h m) Q"
  unfolding gm_map_err_def
  by (rule does_case[OF assms(1)]) (auto intro!: does_ret does_fail dest: assms(2))

lemma does_patch_run:
  "does (run_git_with_stdin E wd (build_git_apply_args g) (Some (gq_patch req)) timeout mo me) (patch_outcome req g)"
  unfolding patch_outcome_def
  unfolding does_def
proof
  fix s
  let ?m = "run_git_with_stdin E wd (build_git_apply_args g) (Some (gq_patch req)) timeout mo me"
  obtain r s' where m: "?m s = (r, s')" by (cases "?m s")
  from run_git_with_stdin_events[OF m] show "\<exists>t. gs_trace (snd (?m s)) = gs_trace s @ t
    \<and> ((t = [] \<and> isl (fst (?m s))) \<or> (\<exists>ev. t = [ev] \<and> patch_run req g ev \<and> (isl (fst (?m s)) \<longleftrightarrow> isl (snd ev))
        \<and> (case fst (?m s) of Inl _ \<Rightarrow> True | Inr ex \<Rightarrow> accepted ev \<longleftrightarrow>
             success ex \<and> \<not> timed_out ex \<and> fully_delivered (stdin_report ex) \<noteq> Some False)))"
  proof (elim disjE exE conjE)
    fix c e assume "gs_trace s' = gs_trace s @ [(c, Inl e)]" "ch_args c = build_git_args (build_git_apply_args g)"
      "ch_stdin c = Some (gq_patch req)" "isl r"
    then show ?thesis using m by (intro exI[of _ "[(c, Inl e)]"]) (cases r; auto simp: patch_run_def)
  next
    fix c rep wd' mo' me'
    assume t: "gs_trace s' = gs_trace s @ [(c, Inr rep)]" "ch_args c = build_git_args (build_git_apply_args g)"
      and c: "ch_stdin c = Some (gq_patch req)"
      and r: "r = Inr (exec_result (build_git_args (build_git_apply_args g)) wd' (Some (gq_patch req)) mo' me' rep)"
    show ?thesis using m t c exec_accepted[OF c refl]
      by (intro exI[of _ "[(c, Inr rep)]"]) (simp add: r patch_run_def)
  qed (use m in simp)
qed

text \<open>What follows the command never fails: it always makes a reply.\<close>

definition always :: "('w, 'e, 'a) gm \<Rightarrow> ('a \<Rightarrow> bool) \<Rightarrow> bool" where
  "always m P \<longleftrightarrow> (\<forall>s. \<exists>x s'. m s = (Inr x, s') \<and> P x)"

lemma always_ret: "P x \<Longrightarrow> always (gm_ret x) P"
  by (simp add: always_def gm_ret_def)

lemma always_case:
  assumes "\<And>e. always (g e) P" "\<And>x. always (f x) P"
  shows "always (gm_case m g f) P"
  unfolding always_def
proof
  fix s
  obtain r s1 where "m s = (r, s1)" by (cases "m s")
  then show "\<exists>x s'. gm_case m g f s = (Inr x, s') \<and> P x"
    using assms unfolding always_def gm_case_def by (cases r) simp_all
qed

lemma always_bind:
  assumes "always m Q" "\<And>x. Q x \<Longrightarrow> always (f x) P"
  shows "always (gm_bind m f) P"
  unfolding always_def
proof
  fix s
  obtain x s1 where "m s = (Inr x, s1)" "Q x" using assms(1) unfolding always_def by blast
  then show "\<exists>x s'. gm_bind m f s = (Inr x, s') \<and> P x"
    using assms(2) unfolding always_def gm_bind_def gm_case_def by simp
qed

lemma always_lock: "always (apply_failed_on_index_lock E repo ex timeout) (\<lambda>_. True)"
  unfolding apply_failed_on_index_lock_def
  by (rule always_case) (auto simp: always_def gm_ret_def gm_look_def Let_def)

text \<open>The state a classification may report.\<close>

definition fair_state :: "git_exec \<Rightarrow> bool \<Rightarrow> apply_classification \<Rightarrow> bool" where
  "fair_state ex check_only c \<longleftrightarrow>
     ac_state c \<in> {''applied'', ''checked'', ''failed'', ''state_unknown''}
     \<and> (ac_is_error c \<longleftrightarrow> ac_state c \<notin> {''applied'', ''checked''})
     \<and> (ac_state c = ''applied'' \<longrightarrow> \<not> check_only \<and> success ex \<and> \<not> timed_out ex \<and> fully_delivered (stdin_report ex) \<noteq> Some False)
     \<and> (ac_state c = ''checked'' \<longrightarrow> check_only \<and> success ex \<and> \<not> timed_out ex \<and> fully_delivered (stdin_report ex) \<noteq> Some False)
     \<and> (ac_state c = ''failed'' \<longrightarrow> \<not> success ex)"

lemma classify_fair: "always (classify_apply_result E repo ex chk tw timeout) (fair_state ex chk)"
  unfolding classify_apply_result_def
  by (auto intro!: always_case always_ret simp: fair_state_def classified_def classify_settled_def)

section \<open>The reply\<close>

definition fair_reply :: "git_exec \<Rightarrow> bool \<Rightarrow> json \<Rightarrow> bool" where
  "fair_reply ex check_only j \<longleftrightarrow>
     (\<exists>c. fair_state ex check_only c \<and> json_get ''state'' j = Some (JStr (ac_state c))
        \<and> json_get ''applied'' j = Some (JBool (ac_state c = ''applied''))
        \<and> json_get ''checked'' j = Some (JBool (ac_state c = ''checked''))
        \<and> json_get ''isError'' j = Some (JBool (ac_is_error c)))"

lemma payload_fields:
  "json_get ''state'' (classified_payload g ex locked c) = Some (JStr (ac_state c))"
  "json_get ''applied'' (classified_payload g ex locked c) = Some (JBool (ac_state c = ''applied''))"
  "json_get ''checked'' (classified_payload g ex locked c) = Some (JBool (ac_state c = ''checked''))"
  "json_get ''isError'' (classified_payload g ex locked c) = Some (JBool (ac_is_error c))"
  by (auto simp: classified_payload_def response_field common_fields_def split: option.split)

lemma conclude_fair: "always (conclude_apply E repo g ex timeout) (fair_reply ex (ga_check_only g))"
proof -
  have lock: "always (if \<not> success ex \<and> \<not> timed_out ex \<and> writes_index (ga_target g)
      then apply_failed_on_index_lock E repo ex timeout else gm_ret False) (\<lambda>b. b \<longrightarrow> \<not> success ex)"
    using always_lock[of E repo ex timeout] by (auto simp: always_def gm_ret_def)
  have locked: "\<not> success ex \<Longrightarrow> fair_state ex chk (classified ''failed'' True None)" for chk
    by (simp add: fair_state_def classified_def)
  show ?thesis
    unfolding conclude_apply_def
    by (rule always_bind[OF lock], rule always_bind[where Q = "fair_state ex (ga_check_only g)"])
      (auto intro!: always_ret classify_fair locked simp: fair_reply_def payload_fields)
qed

lemma identity_lost_fair: "fair_reply ex chk (identity_lost_payload g ex e)"
  unfolding fair_reply_def
  by (rule exI[of _ "classified ''state_unknown'' True None"])
    (simp add: fair_state_def classified_def identity_lost_payload_def response_field common_fields_def)

section \<open>The run\<close>

text \<open>What a reply says of the command \<open>ev\<close> it reports.\<close>

definition honest :: "git_apply_args \<Rightarrow> run_event \<Rightarrow> json \<Rightarrow> bool" where
  "honest g ev j \<longleftrightarrow>
     (\<exists>state. json_get ''state'' j = Some (JStr state)
        \<and> state \<in> {''applied'', ''checked'', ''failed'', ''state_unknown''}
        \<and> json_get ''applied'' j = Some (JBool (state = ''applied''))
        \<and> json_get ''checked'' j = Some (JBool (state = ''checked''))
        \<and> json_get ''isError'' j = Some (JBool (state \<notin> {''applied'', ''checked''}))
        \<and> (state = ''applied'' \<longrightarrow> \<not> ga_check_only g \<and> accepted ev)
        \<and> (state = ''checked'' \<longrightarrow> ga_check_only g \<and> accepted ev)
        \<and> (state = ''failed'' \<longrightarrow> \<not> accepted ev))"

lemma fair_honest:
  assumes "fair_reply ex (ga_check_only g) j"
    and "accepted ev \<longleftrightarrow> success ex \<and> \<not> timed_out ex \<and> fully_delivered (stdin_report ex) \<noteq> Some False"
  shows "honest g ev j"
proof -
  obtain c where c: "fair_state ex (ga_check_only g) c" "json_get ''state'' j = Some (JStr (ac_state c))"
    "json_get ''applied'' j = Some (JBool (ac_state c = ''applied''))"
    "json_get ''checked'' j = Some (JBool (ac_state c = ''checked''))"
    "json_get ''isError'' j = Some (JBool (ac_is_error c))"
    using assms(1) unfolding fair_reply_def by blast
  then show ?thesis using assms(2) unfolding honest_def fair_state_def by (intro exI[of _ "ac_state c"]) auto
qed

definition apply_trace ::
  "'w git_env \<Rightarrow> git_apply_request \<Rightarrow> git_error + json \<Rightarrow> run_event list \<Rightarrow> bool" where
  \<comment> \<open>nothing but questions, or questions, the patch, questions\<close>
  "apply_trace E req r t \<longleftrightarrow>
     (list_all reads_only t \<and> isl r)
     \<or> (\<exists>t1 ev t2 g timeout repo. t = t1 @ ev # t2 \<and> list_all reads_only (t1 @ t2)
          \<and> check_apply_request req = Inr (g, timeout) \<and> admitted E req repo t1
          \<and> patch_run req g ev \<and> (isl r \<longleftrightarrow> isl (snd ev))
          \<and> (case r of Inl _ \<Rightarrow> True | Inr j \<Rightarrow> honest g ev j))"

lemma apply_trace_reads: "list_all reads_only t \<Longrightarrow> apply_trace E req (Inl e) t"
  by (simp add: apply_trace_def)

lemma apply_traceI:
  assumes "list_all reads_only t1" "check_apply_request req = Inr (g, timeout)" "admitted E req repo t1"
    "patch_run req g ev" "list_all reads_only t2" "\<not> isl (snd ev)" "honest g ev j"
  shows "apply_trace E req (Inr j) (t1 @ [ev] @ t2)"
  unfolding apply_trace_def using assms by fastforce

lemma does_always:
  assumes "emits reads_only m" "always m P" "\<And>j t. P j \<Longrightarrow> list_all reads_only t \<Longrightarrow> Q (Inr j) t"
  shows "does m Q"
  unfolding does_def
proof
  fix s
  obtain j s' where "m s = (Inr j, s')" "P j" using assms(2) unfolding always_def by blast
  then show "\<exists>t. gs_trace (snd (m s)) = gs_trace s @ t \<and> Q (fst (m s)) t"
    using emitsD[OF assms(1), of s] assms(3) by auto
qed

lemma does_run_and_conclude:
  assumes "list_all reads_only t1" "check_apply_request req = Inr (g, timeout)" "admitted E req repo t1"
    and rest: "\<And>ex. emits reads_only (k ex)" "\<And>ex. always (k ex) (fair_reply ex (ga_check_only g))"
  shows "does (gm_bind (gm_map_err h (run_git_with_stdin E wd (build_git_apply_args g) (Some (gq_patch req)) timeout mo me)) k)
    (\<lambda>r u. apply_trace E req r (t1 @ u))"
proof (rule does_bind)
  show "does (gm_map_err h (run_git_with_stdin E wd (build_git_apply_args g) (Some (gq_patch req)) timeout mo me))
    (patch_outcome req g)"
    by (rule does_map_err[OF does_patch_run]) (auto simp: patch_outcome_def map_err_def split: sum.splits)
next
  fix e :: git_error and t assume "patch_outcome req g (Inl e) t"
  then show "apply_trace E req (Inl e) (t1 @ t)"
    using assms(1-3) unfolding patch_outcome_def apply_trace_def by fastforce
next
  fix ex t assume "patch_outcome req g (Inr ex) t"
  then obtain ev where ev: "t = [ev]" "patch_run req g ev" "\<not> isl (snd ev)"
    "accepted ev \<longleftrightarrow> success ex \<and> \<not> timed_out ex \<and> fully_delivered (stdin_report ex) \<noteq> Some False"
    unfolding patch_outcome_def by (simp only: sum.disc sum.case simp_thms) blast
  show "does (k ex) (\<lambda>r u. apply_trace E req r (t1 @ t @ u))"
    using apply_traceI[OF assms(1-3) ev(2) _ ev(3)] fair_honest[OF _ ev(4)]
    by (intro does_always[OF rest]) (simp add: ev(1))
qed

lemma does_handle_git_apply: "does (handle_git_apply E req) (apply_trace E req)"
  unfolding handle_git_apply_def
proof (rule does_bind[where R = "\<lambda>r t. t = [] \<and> r = check_apply_request req"])
  show "does (gm_lift (check_apply_request req)) (\<lambda>r t. t = [] \<and> r = check_apply_request req)"
    by (simp add: does_def gm_lift_def)
next
  fix x and t :: "run_event list" assume "t = [] \<and> Inr x = check_apply_request req"
  then obtain g timeout where x: "x = (g, timeout)" "t = []" and chk: "check_apply_request req = Inr (g, timeout)"
    by (cases x) auto
  have rest: "emits reads_only (if success ex \<and> fully_delivered (stdin_report ex) \<noteq> Some False then
         gm_case (revalidate E repo) (\<lambda>e. gm_ret (identity_lost_payload g ex e)) (\<lambda>_. conclude_apply E repo g ex timeout)
       else conclude_apply E repo g ex timeout)"
    "always (if success ex \<and> fully_delivered (stdin_report ex) \<noteq> Some False then
         gm_case (revalidate E repo) (\<lambda>e. gm_ret (identity_lost_payload g ex e)) (\<lambda>_. conclude_apply E repo g ex timeout)
       else conclude_apply E repo g ex timeout) (fair_reply ex (ga_check_only g))" for repo ex
    by (intro emits_intros) (auto intro!: always_case always_ret conclude_fair identity_lost_fair)
  show "does (case x of (g, timeout) \<Rightarrow> gm_bind (admit_patch E req g timeout) (\<lambda>repo.
     gm_bind (gm_map_err (\<lambda>_. structured_error ''git_apply_unavailable'' [])
        (run_git_with_stdin E (Some (working_dir repo)) (build_git_apply_args g) (Some (gq_patch req)) timeout
           DEFAULT_GIT_STDOUT_BYTES DEFAULT_GIT_STDERR_BYTES)) (\<lambda>ex.
       if success ex \<and> fully_delivered (stdin_report ex) \<noteq> Some False then
         gm_case (revalidate E repo) (\<lambda>e. gm_ret (identity_lost_payload g ex e))
           (\<lambda>_. conclude_apply E repo g ex timeout)
       else conclude_apply E repo g ex timeout))) (\<lambda>r u. apply_trace E req r (t @ u))"
    unfolding x prod.case append_Nil
    by (rule does_bind[OF does_admit]) (auto intro!: apply_trace_reads does_run_and_conclude chk rest)
qed (auto intro: apply_trace_reads)

section \<open>Properties\<close>

lemma sum_list_remdups_le: "sum_list (map f (remdups xs)) \<le> sum_list (map (f :: 'a \<Rightarrow> nat) xs)"
  by (induction xs) auto

text \<open>C16. \<open>GitApply\<close> runs at most one command that is not a question, in every run: \<open>git apply\<close> with the
  patch and the options of the request, after the patch was admitted and its paths were found tracked
  and regular in the index.  If the command was not started, the outcome is an error.  Otherwise the
  reply is honest: \<open>applied\<close> and \<open>checked\<close> each need the acceptance of git and the matching mode,
  \<open>failed\<close> needs that git did not accept, and everything but \<open>applied\<close> and \<open>checked\<close> is an error.\<close>

theorem apply_runs_admitted_patch:
  "case handle_git_apply E req s of (r, s') \<Rightarrow> \<exists>t. gs_trace s' = gs_trace s @ t \<and> apply_trace E req r t"
proof -
  have "\<exists>t. gs_trace (snd (handle_git_apply E req s)) = gs_trace s @ t \<and> apply_trace E req (fst (handle_git_apply E req s)) t"
    using does_handle_git_apply[of E req] unfolding does_def by blast
  then show ?thesis by (cases "handle_git_apply E req s") simp
qed

lemma check_patch_files_ok:
  assumes "check_patch_files fs paths n = Inr (paths', n')" "n \<le> usize_max"
  shows "paths' = paths @ map fh_path fs
    \<and> min usize_max (n + sum_list (map (\<lambda>f. length (fh_path f) + 1) fs)) = n' \<and> n' \<le> usize_max
    \<and> list_all (\<lambda>f. supported f \<and> validate_repo_relative_path (fh_path f) = Inr ()
         \<and> list_all (\<lambda>h. hunk_body_has_content_change (h_body h)) (fh_hunks f)) fs"
  using assms
proof (induction fs arbitrary: paths n)
  case (Cons f fs)
  have rest: "check_patch_files fs (paths @ [fh_path f]) (saturating_add n (length (fh_path f) + 1)) = Inr (paths', n')"
    "supported f" "validate_repo_relative_path (fh_path f) = Inr ()"
    "list_all (\<lambda>h. hunk_body_has_content_change (h_body h)) (fh_hunks f)"
    using Cons.prems(1) by (auto simp: bindE_Inr_iff map_err_Inr_iff list_ex_iff list_all_iff split: if_splits)
  have "saturating_add n (length (fh_path f) + 1) \<le> usize_max" by (simp add: saturating_add_def)
  from Cons.IH[OF rest(1) this] rest(2-4) show ?case by (auto simp: saturating_add_def)
qed simp

text \<open>An admitted patch is a non-empty set of content changes to existing text files. Its files are all
  stageable modifications of valid relative paths, each hunk adds or removes a line, and the returned
  paths are the paths of its files, sorted, without repetition, within the limits on their number and
  on their bytes on a command line.\<close>

theorem admitted_patch_plain:
  assumes "validate_supported_patch sha repo patch = Inr paths" "length patch \<le> MAX_GIT_STDIN_BYTES"
  shows "\<exists>d. parse_unified_diff sha (patch_args repo) patch = Inr d
    \<and> set paths = fh_path ` set (pd_files d) \<and> sorted paths \<and> distinct paths \<and> paths \<noteq> []
    \<and> length paths \<le> MAX_GIT_PATCH_PATHS \<and> sum_list (map (\<lambda>p. length p + 1) paths) \<le> MAX_GIT_ARG_BYTES
    \<and> list_all (\<lambda>f. supported f \<and> change_kinds f = [''modified''] \<and> \<not> fh_binary f
         \<and> fh_old_path f = Some (fh_path f) \<and> validate_repo_relative_path (fh_path f) = Inr ()
         \<and> fh_hunks f \<noteq> [] \<and> list_all (\<lambda>h. hunk_body_has_content_change (h_body h)) (fh_hunks f)) (pd_files d)"
proof -
  obtain d ps n where d: "parse_unified_diff sha (patch_args repo) patch = Inr d" "pd_files d \<noteq> []"
    "length (pd_files d) \<le> MAX_GIT_PATCH_PATHS" "check_patch_files (pd_files d) [] 0 = Inr (ps, n)"
    "n \<le> MAX_GIT_ARG_BYTES" "paths = remdups (sort ps)"
    using assms(1) by (auto simp: validate_supported_patch_def bindE_Inr_iff map_err_Inr_iff split: if_splits)
  note files = check_patch_files_ok[OF d(4), simplified]
  have "diff_ok d"
    by (rule parse_unified_diff_ok[OF d(1)])
      (use assms(2) in \<open>simp add: MAX_GIT_STDIN_BYTES_def MAX_OUTPUT_BYTES_def usize_max_def\<close>)
  then have plain: "\<forall>f \<in> set (pd_files d). supported f \<longrightarrow> change_kinds f = [''modified''] \<and> \<not> fh_binary f
      \<and> fh_old_path f = Some (fh_path f) \<and> fh_hunks f \<noteq> []"
    unfolding diff_ok_def file_ok_def by (metis in_set_conv_nth)
  have ps: "ps = map fh_path (pd_files d)" using files by simp
  have bytes: "sum_list (map (\<lambda>f. length (fh_path f) + 1) (pd_files d)) \<le> MAX_GIT_ARG_BYTES"
    using files d(5) by (auto simp: MAX_GIT_ARG_BYTES_def usize_max_def min_def split: if_splits)
  have "sum_list (map (\<lambda>p. length p + 1) paths) \<le> sum_list (map (\<lambda>p. length p + 1) (sort ps))"
    unfolding d(6) by (rule sum_list_remdups_le)
  also have "\<dots> = sum_list (map (\<lambda>p. length p + 1) ps)"
    by (simp only: sum_mset_sum_list[symmetric] mset_map mset_sort)
  finally have "sum_list (map (\<lambda>p. length p + 1) paths) \<le> MAX_GIT_ARG_BYTES"
    using bytes by (simp add: ps comp_def)
  moreover have "length paths \<le> MAX_GIT_PATCH_PATHS"
    using d(3) length_remdups_leq[of "sort ps"] by (simp add: d(6) ps)
  moreover have "set paths = fh_path ` set (pd_files d)" "sorted paths" "distinct paths"
    by (auto simp: d(6) ps sorted_remdups)
  moreover from this(1) have "paths \<noteq> []" using d(2) by auto
  moreover have "list_all (\<lambda>f. supported f \<and> change_kinds f = [''modified''] \<and> \<not> fh_binary f
         \<and> fh_old_path f = Some (fh_path f) \<and> validate_repo_relative_path (fh_path f) = Inr ()
         \<and> fh_hunks f \<noteq> [] \<and> list_all (\<lambda>h. hunk_body_has_content_change (h_body h)) (fh_hunks f)) (pd_files d)"
    using files plain unfolding list_all_iff by blast
  ultimately show ?thesis using d(1) by (intro exI[of _ d] conjI) assumption+
qed

theorem admitted_patch_plain_witness:
  "\<exists>d. parse_unified_diff demo_hash (patch_args demo_ctx) demo_diff = Inr d \<and> {''f''} = fh_path ` set (pd_files d)"
proof -
  have "hunk_body_has_content_change (''-a'' @ [LF] @ ''+b'' @ [LF])" by code_simp
  moreover have "validate_repo_relative_path ''f'' = Inr ()" by code_simp
  ultimately have "validate_supported_patch demo_hash demo_ctx demo_diff = Inr [''f'']"
    by (simp add: validate_supported_patch_def ex_parse ex_parsed_def ex_file_def ex_hunk_def
        MAX_GIT_PATCH_PATHS_def MAX_GIT_ARG_BYTES_def saturating_add_def usize_max_def)
  moreover have "length demo_diff \<le> MAX_GIT_STDIN_BYTES"
    by (simp add: demo_diff_def MAX_GIT_STDIN_BYTES_def MAX_OUTPUT_BYTES_def)
  ultimately show ?thesis using admitted_patch_plain[of demo_hash demo_ctx demo_diff "[''f'']"] by auto
qed

end
