(* ===== verification/RunProps.thy ===== *)
theory RunProps
  imports ApplyProps
begin

text \<open>
  The properties of running git and of the repository gate: the environment, the directory and the
  bounds of every command, the delivery of standard input, and what a revalidation pins.
\<close>

section \<open>The environment\<close>

lemma update_all_lookup:
  "map_of (foldl (\<lambda>e (k, v). AList.update k v e) e0 xs) k = (map_of e0 ++ map_of (rev xs)) k"
  by (induction xs arbitrary: e0)
    (auto simp: update_conv' map_of_append map_add_def split: option.split prod.split)

text \<open>A child process sees exactly this environment: the fixed settings, and of the variables of the
  server those that are not scrubbed.  No variable that could redirect git to another repository,
  configuration or helper passes, whatever its value.\<close>

theorem child_environment_exact:
  "map_of (child_env vars) k =
     (case map_of git_env_settings k of
        Some v \<Rightarrow> Some v
      | None \<Rightarrow> if removed_env_key k then None else map_of vars k)"
proof -
  have "map_of (filter (\<lambda>(k, v). \<not> removed_env_key k) vars) k = (if removed_env_key k then None else map_of vars k)"
    by (induction vars) auto
  moreover have "map_of (rev git_env_settings) k = map_of git_env_settings k"
    by (simp add: git_env_settings_def)
  ultimately show ?thesis
    by (simp add: child_env_def update_all_lookup map_add_def split: option.split)
qed

section \<open>The commands\<close>

text \<open>A command as the server may run it, for some state of the file system at the time.\<close>

definition well_run :: "'w git_env \<Rightarrow> run_event \<Rightarrow> bool" where
  "well_run E ev \<longleftrightarrow>
     (\<exists>sub. ch_args (fst ev) = build_git_args sub) \<and> ch_env (fst ev) = child_env (env_vars E)
     \<and> 100 \<le> ch_timeout (fst ev) \<and> ch_timeout (fst ev) \<le> MAX_GIT_TIMEOUT_MS
     \<and> (case ch_stdin (fst ev) of None \<Rightarrow> True | Some bs \<Rightarrow> length bs \<le> MAX_GIT_STDIN_BYTES)
     \<and> (\<exists>w root. gf_authority (env_fs E w) = Inr root \<and> inside root (ch_cwd (fst ev)))"

lemma clamp_timeout: "100 \<le> clamp t 100 MAX_GIT_TIMEOUT_MS \<and> clamp t 100 MAX_GIT_TIMEOUT_MS \<le> MAX_GIT_TIMEOUT_MS"
  by (simp add: clamp_def MAX_GIT_TIMEOUT_MS_def)

lemma inside_self: "inside root root"
  by (simp add: inside_def)

lemma does_look: "does (gm_look E f) (\<lambda>r t. t = [] \<and> (\<exists>w. r = f (env_fs E w)))"
  by (auto simp: does_def gm_look_def Let_def)

lemma does_spawn: "does (gm_spawn E c) (\<lambda>_ t. \<exists>a. t = [(c, a)])"
  by (auto simp: does_def gm_spawn_def split: prod.splits)

definition permitted_dir :: "'w git_env \<Rightarrow> bytes \<Rightarrow> bool" where
  "permitted_dir E d \<longleftrightarrow> (\<exists>w root. gf_authority (env_fs E w) = Inr root \<and> inside root d)"

lemma resolved_permitted: "Inr (Some d) = resolve_working_dir (env_fs E w) wd \<Longrightarrow> permitted_dir E d"
  unfolding permitted_dir_def
  using resolve_working_dir_inside[of "env_fs E w" "the wd" d]
  by (cases wd) (auto simp: resolve_working_dir_def)

lemma root_permitted: "authority_root_path (env_fs E w) = Inr d \<Longrightarrow> permitted_dir E d"
  unfolding permitted_dir_def authority_root_path_def by (metis inside_self)

lemma well_run_git [emits_intros]: "emits (well_run E) (run_git_with_stdin E wd sub inp timeout mo me)"
proof (cases "case inp of Some bs \<Rightarrow> length bs > MAX_GIT_STDIN_BYTES | None \<Rightarrow> False")
  case True
  then show ?thesis unfolding run_git_with_stdin_def by (simp add: emits_intros)
next
  case False
  have cwd: "does (case resolved of Some p \<Rightarrow> gm_ret p | None \<Rightarrow> gm_look E authority_root_path)
      (\<lambda>r t. t = [] \<and> (case r of Inl _ \<Rightarrow> True | Inr d \<Rightarrow> permitted_dir E d))"
    if "Inr resolved = resolve_working_dir (env_fs E w) wd" for resolved w
    using that resolved_permitted[of _ E w wd]
    by (cases resolved) (auto intro!: does_ret does_weaken[OF does_look] dest: root_permitted split: sum.split)
  show ?thesis
    unfolding run_git_with_stdin_def if_not_P[OF False] emits_def Let_def
  proof (rule does_bind[OF does_look], simp)
    fix resolved and t :: "run_event list"
    assume "t = [] \<and> (\<exists>w. Inr resolved = resolve_working_dir (env_fs E w) wd)"
    then obtain w where t: "t = []" and w: "Inr resolved = resolve_working_dir (env_fs E w) wd" by blast
    show "does (gm_bind (case resolved of Some p \<Rightarrow> gm_ret p | None \<Rightarrow> gm_look E authority_root_path) (\<lambda>cwd.
          gm_bind (gm_spawn E \<lparr> ch_args = build_git_args sub, ch_env = child_env (env_vars E), ch_cwd = cwd,
                      ch_stdin = inp, ch_timeout = clamp timeout 100 MAX_GIT_TIMEOUT_MS \<rparr>) (\<lambda>rep.
            gm_ret (exec_result (build_git_args sub) (map_option display_path resolved) inp
                      (clamp mo 1 MAX_OUTPUT_BYTES) (clamp me 1 MAX_OUTPUT_BYTES) rep))))
      (\<lambda>r u. list_all (well_run E) (t @ u))"
      unfolding t append_Nil
    proof (rule does_bind[OF cwd[OF w]], simp)
      fix cwd and t :: "run_event list"
      assume "t = [] \<and> (case Inr cwd of Inl _ \<Rightarrow> True | Inr d \<Rightarrow> permitted_dir E d)"
      then show "does (gm_bind (gm_spawn E \<lparr> ch_args = build_git_args sub, ch_env = child_env (env_vars E), ch_cwd = cwd,
                      ch_stdin = inp, ch_timeout = clamp timeout 100 MAX_GIT_TIMEOUT_MS \<rparr>) (\<lambda>rep.
            gm_ret (exec_result (build_git_args sub) (map_option display_path resolved) inp
                      (clamp mo 1 MAX_OUTPUT_BYTES) (clamp me 1 MAX_OUTPUT_BYTES) rep))) (\<lambda>r u. list_all (well_run E) (t @ u))"
        using False clamp_timeout[of timeout]
        by (intro does_bind[OF does_spawn])
          (auto intro!: does_ret simp: well_run_def permitted_dir_def split: option.splits)
    qed
  qed
qed

lemma well_run_git_simple [emits_intros]: "emits (well_run E) (run_git E wd sub timeout mo me)"
  unfolding run_git_def by (rule well_run_git)

lemma well_run_features [emits_intros]: "emits (well_run E) (check_feature_keys E wd timeout ks)"
proof (induction ks)
  case (Cons k ks)
  then show ?case by (cases k) (auto simp: repo_bool_config_enabled_def Let_def intro!: emits_intros)
qed (simp add: emits_intros)

lemma well_run_resolve [emits_intros]: "emits (well_run E) (resolve_repo_context E wd timeout)"
  unfolding resolve_repo_context_def requested_dir_def find_toplevel_def confirm_toplevel_def
    validate_unsupported_repository_feature_config_def probe_object_format_def
  by (intro emits_intros)

lemma well_run_diff [emits_intros]: "emits (well_run E) (enumerate_diff E repo sc)"
  unfolding enumerate_diff_def by (intro emits_intros)

lemma well_run_index [emits_intros]:
  "emits (well_run E) (index_has_unmerged_entries E repo timeout)"
  "emits (well_run E) (ensure_tracked_regular_files E repo paths timeout)"
  "emits (well_run E) (index_entries_for_paths E repo paths timeout)"
  "emits (well_run E) (read_index_blob E repo p e timeout)"
  "emits (well_run E) (apply_failed_on_index_lock E repo ex timeout)"
  unfolding index_has_unmerged_entries_def ensure_tracked_regular_files_def index_entries_for_paths_def
    read_index_blob_def apply_failed_on_index_lock_def resolve_index_lock_path_def
  by (intro emits_intros)+

lemma well_run_unmerged [emits_intros]: "emits (well_run E) (ensure_unmerged_index_absent E repo timeout)"
  unfolding ensure_unmerged_index_absent_def by (intro emits_intros)

lemma well_run_read_blobs [emits_intros]: "emits (well_run E) (read_index_blobs E repo entries ps timeout blobs)"
  by (induction ps arbitrary: blobs) (auto intro!: emits_intros)

lemma well_run_blobs [emits_intros]: "emits (well_run E) (index_blobs_for_paths E repo paths timeout)"
  unfolding index_blobs_for_paths_def by (intro emits_intros)

lemma well_run_apply [emits_intros]: "emits (well_run E) (plan_apply E pl check_only)"
  unfolding plan_apply_def run_cached_apply_def by (intro emits_intros)





section \<open>Standard input\<close>

text \<open>Delivering standard input terminates and its report is true.  Without a report the loop is still
  waiting for the pipe, which happens only while it has had at most as many answers as there are bytes.
  Never more is counted as written than there was; a report without a failure counts every byte; and a
  failed delivery always carries its reason.\<close>

theorem stdin_report_exact:
  "case write_git_stdin len 0 0 answers of
     None \<Rightarrow> length answers \<le> len
   | Some rep \<Rightarrow> sr_written rep \<le> len
       \<and> (if sr_delivered rep then sr_written rep = len \<and> sr_error rep = None else sr_error rep \<noteq> None)"
proof -
  have "off \<le> len \<Longrightarrow> (case write_git_stdin len off off answers of
     None \<Rightarrow> length answers \<le> len - off
   | Some rep \<Rightarrow> sr_written rep \<le> len \<and> (sr_delivered rep \<longrightarrow> sr_written rep = len \<and> sr_error rep = None)
       \<and> (\<not> sr_delivered rep \<longrightarrow> sr_error rep \<noteq> None))" for off
  proof (induction answers arbitrary: off)
    case (Cons a as)
    have step: "off + min n (min WRITE_CHUNK (len - off)) \<le> len \<and> off < off + min n (min WRITE_CHUNK (len - off))"
      if "off < len" "0 < n" for n using that by (simp add: WRITE_CHUNK_def)
    show ?case
    proof (cases a)
      case (Inr n)
      show ?thesis
      proof (cases "off < len \<and> 0 < n")
        case True
        with Inr Cons.IH[of "off + min n (min WRITE_CHUNK (len - off))"] step[of n]
        show ?thesis by (auto split: option.splits)
      next
        case False
        with Cons.prems Inr show ?thesis by auto
      qed
    qed (use Cons.prems in \<open>auto split: prod.splits\<close>)
  qed simp
  from this[of 0] show ?thesis by (auto split: option.splits)
qed


section \<open>What the identity snapshot pins\<close>

text \<open>
  What the identity snapshot pins: a repository that passes a revalidation has the anchors it had when
  the snapshot was taken.
\<close>

section \<open>Anchors\<close>










section \<open>Property\<close>




end
