(* ===== verification/WebAddr.thy ===== *)
theory WebAddr
  imports Prelude "HOL-Library.Word"
begin

unbundle bit_operations_syntax

text \<open>
  Addresses of the web fetcher (\<^verbatim>\<open>tools-mcp-webfetch/src/webfetch/http.rs\<close>): which addresses may not be
  fetched from, with the tests of \<^verbatim>\<open>std::net\<close> the code uses, and that they are the addresses of a list
  of blocks.
\<close>

section \<open>Addresses and the tests of the standard library\<close>

datatype ipv4 = Ipv4 (oct0: "8 word") (oct1: "8 word") (oct2: "8 word") (oct3: "8 word")

datatype ipv6 = Ipv6 (seg0: "16 word") (seg1: "16 word") (seg2: "16 word") (seg3: "16 word")
  (seg4: "16 word") (seg5: "16 word") (seg6: "16 word") (seg7: "16 word")

datatype ip_addr = V4 ipv4 | V6 ipv6

fun v4_private :: "ipv4 \<Rightarrow> bool" where
  "v4_private (Ipv4 a b c d) \<longleftrightarrow> a = 10 \<or> a = 172 \<and> 16 \<le> b \<and> b \<le> 31 \<or> a = 192 \<and> b = 168"

definition v4_loopback :: "ipv4 \<Rightarrow> bool" where "v4_loopback ip \<longleftrightarrow> oct0 ip = 127"

definition v4_link_local :: "ipv4 \<Rightarrow> bool" where "v4_link_local ip \<longleftrightarrow> oct0 ip = 169 \<and> oct1 ip = 254"

definition v4_broadcast :: "ipv4 \<Rightarrow> bool" where "v4_broadcast ip \<longleftrightarrow> ip = Ipv4 255 255 255 255"

fun v4_documentation :: "ipv4 \<Rightarrow> bool" where
  "v4_documentation (Ipv4 a b c d) \<longleftrightarrow>
     a = 192 \<and> b = 0 \<and> c = 2 \<or> a = 198 \<and> b = 51 \<and> c = 100 \<or> a = 203 \<and> b = 0 \<and> c = 113"

definition v4_unspecified :: "ipv4 \<Rightarrow> bool" where "v4_unspecified ip \<longleftrightarrow> ip = Ipv4 0 0 0 0"

definition v4_multicast :: "ipv4 \<Rightarrow> bool" where "v4_multicast ip \<longleftrightarrow> 224 \<le> oct0 ip \<and> oct0 ip \<le> 239"

definition two_octets :: "16 word \<Rightarrow> 8 word \<times> 8 word" where
  "two_octets s = (ucast (drop_bit 8 s), ucast s)"

fun to_ipv4 :: "ipv6 \<Rightarrow> ipv4 option" where
  "to_ipv4 (Ipv6 s0 s1 s2 s3 s4 s5 s6 s7) =
     (if s0 = 0 \<and> s1 = 0 \<and> s2 = 0 \<and> s3 = 0 \<and> s4 = 0 \<and> (s5 = 0 \<or> s5 = 0xffff)
      then case (two_octets s6, two_octets s7) of ((a, b), (c, d)) \<Rightarrow> Some (Ipv4 a b c d) else None)"

definition v6_loopback :: "ipv6 \<Rightarrow> bool" where "v6_loopback ip \<longleftrightarrow> ip = Ipv6 0 0 0 0 0 0 0 1"

definition v6_unspecified :: "ipv6 \<Rightarrow> bool" where "v6_unspecified ip \<longleftrightarrow> ip = Ipv6 0 0 0 0 0 0 0 0"

definition v6_multicast :: "ipv6 \<Rightarrow> bool" where "v6_multicast ip \<longleftrightarrow> seg0 ip AND 0xff00 = 0xff00"

section \<open>Which addresses are refused\<close>

definition is_private_v4 :: "ipv4 \<Rightarrow> bool" where
  "is_private_v4 ip \<longleftrightarrow> v4_private ip \<or> v4_loopback ip \<or> v4_link_local ip \<or> v4_broadcast ip \<or> v4_documentation ip
     \<or> v4_unspecified ip \<or> v4_multicast ip \<or> oct0 ip = 0 \<or> oct0 ip = 100 \<and> oct1 ip AND 0xC0 = 0x40 \<or> 240 \<le> oct0 ip"

fun is_private_ip :: "ip_addr \<Rightarrow> bool" where
  "is_private_ip (V4 ip) = is_private_v4 ip"
| "is_private_ip (V6 ip) =
     (case to_ipv4 ip of
        Some v4 \<Rightarrow> is_private_v4 v4
      | None \<Rightarrow> v6_loopback ip \<or> v6_unspecified ip \<or> v6_multicast ip \<or> seg0 ip AND 0xfe00 = 0xfc00
          \<or> seg0 ip AND 0xffc0 = 0xfe80 \<or> seg0 ip = 0x2001 \<and> seg1 ip = 0x0db8)"

section \<open>The same as blocks of addresses\<close>

text \<open>A block is the address it begins with and the number of leading bits that its addresses share.\<close>

fun v4_number :: "ipv4 \<Rightarrow> nat" where
  "v4_number (Ipv4 a b c d) = ((unat a * 256 + unat b) * 256 + unat c) * 256 + unat d"

fun v6_number :: "ipv6 \<Rightarrow> nat" where
  "v6_number (Ipv6 s0 s1 s2 s3 s4 s5 s6 s7) = foldl (\<lambda>n s. n * 65536 + unat s) 0 [s0, s1, s2, s3, s4, s5, s6, s7]"

definition in_block :: "nat \<Rightarrow> nat \<Rightarrow> nat \<times> nat \<Rightarrow> bool" where
  "in_block width n b \<longleftrightarrow> n div 2 ^ (width - snd b) = fst b div 2 ^ (width - snd b)"

definition v4_blocks :: "(ipv4 \<times> nat) list" where
  "v4_blocks = [(Ipv4 0 0 0 0, 8), (Ipv4 10 0 0 0, 8), (Ipv4 100 64 0 0, 10), (Ipv4 127 0 0 0, 8), (Ipv4 169 254 0 0, 16),
     (Ipv4 172 16 0 0, 12), (Ipv4 192 0 2 0, 24), (Ipv4 192 168 0 0, 16), (Ipv4 198 51 100 0, 24),
     (Ipv4 203 0 113 0, 24), (Ipv4 224 0 0 0, 4), (Ipv4 240 0 0 0, 4)]"

definition v6_blocks :: "(ipv6 \<times> nat) list" where
  "v6_blocks = [(Ipv6 0xfc00 0 0 0 0 0 0 0, 7), (Ipv6 0xfe80 0 0 0 0 0 0 0, 10), (Ipv6 0xff00 0 0 0 0 0 0 0, 8),
     (Ipv6 0x2001 0x0db8 0 0 0 0 0 0, 32)]"

definition v4_embeddings :: "ipv6 list" where
  \<comment> \<open>the prefixes of 96 bits behind which an address of version 4 is written\<close>
  "v4_embeddings = [Ipv6 0 0 0 0 0 0 0 0, Ipv6 0 0 0 0 0 0xffff 0 0]"

lemma unat_drop_bit: "unat (drop_bit n (x :: 'a :: len word)) = unat x div 2 ^ n"
proof -
  have "unat (drop_bit n x) = drop_bit n (take_bit LENGTH('a) (unat x))" by (rule unsigned_drop_bit_eq)
  also have "take_bit LENGTH('a) (unat x) = unat x" using unsigned_less[where 'a = nat, of x] by (simp add: take_bit_eq_mod)
  finally show ?thesis by (simp only: drop_bit_eq_div)
qed

lemma and_high_bits: "x AND NOT (mask n) = push_bit n (drop_bit n (x :: 'a :: len word))"
  by (rule bit_word_eqI) (auto simp: bit_simps)

lemma and_high_bits_iff:
  assumes "n \<le> LENGTH('a)" "m = NOT (mask n)" "v = push_bit n (c :: 'a :: len word)" "unat c < 2 ^ (LENGTH('a) - n)"
  shows "x AND m = v \<longleftrightarrow> unat x div 2 ^ n = unat c"
proof -
  have "push_bit n (drop_bit n x) = push_bit n c \<longleftrightarrow> drop_bit n x = c"
  proof
    assume "push_bit n (drop_bit n x) = push_bit n c"
    then have eq: "unat (push_bit n (drop_bit n x)) = unat (push_bit n c)" by simp
    have small: "unat d * 2 ^ n < 2 ^ LENGTH('a)" if "unat d < 2 ^ (LENGTH('a) - n)" for d :: "'a word"
    proof -
      have "unat d * 2 ^ n < 2 ^ (LENGTH('a) - n) * 2 ^ n" using that by simp
      also have "\<dots> = 2 ^ LENGTH('a)" using assms(1) by (simp flip: power_add)
      finally show ?thesis .
    qed
    have unat_push: "unat (push_bit n d) = unat d * 2 ^ n" if "unat d < 2 ^ (LENGTH('a) - n)" for d :: "'a word"
      using small[OF that] unsigned_push_bit_eq[where 'a = nat, of n d] by (simp only: take_bit_eq_mod push_bit_eq_mult mod_less)
    have "unat (drop_bit n x) < 2 ^ (LENGTH('a) - n)"
    proof -
      have "unat (drop_bit n x) = unat x div 2 ^ n" by (rule unat_drop_bit)
      also have "\<dots> < 2 ^ (LENGTH('a) - n)"
        using unsigned_less[of x] assms(1) by (simp add: less_mult_imp_div_less flip: power_add)
      finally show ?thesis .
    qed
    with eq unat_push assms(4) have "unat (drop_bit n x) = unat c" by simp
    then show "drop_bit n x = c" by (simp only: word_unat_eq_iff)
  qed simp
  moreover have "drop_bit n x = c \<longleftrightarrow> unat x div 2 ^ n = unat c"
    by (simp only: word_unat_eq_iff unat_drop_bit)
  ultimately show ?thesis using assms(2,3) and_high_bits[of x n] by simp
qed

lemma low_octet: "unat (x :: 8 word) < 256"
  using unsigned_less[where 'a = nat, of x] by simp

lemma segment_less: "unat (x :: 16 word) < 65536"
  using unsigned_less[where 'a = nat, of x] by simp

lemma not_masks:
  "NOT (mask 6 :: 8 word) = 0xC0" "NOT (mask 8 :: 16 word) = 0xff00" "NOT (mask 9 :: 16 word) = 0xfe00"
  "NOT (mask 6 :: 16 word) = 0xffc0"
  by (simp_all flip: minus_exp_eq_not_mask)

lemma octet_masks: "(x :: 8 word) AND 0xC0 = 0x40 \<longleftrightarrow> unat x div 64 = 1"
  using and_high_bits_iff[OF _ not_masks(1)[symmetric], of "0x40" 1 x] by simp

lemma segment_masks:
  "(s :: 16 word) AND 0xff00 = 0xff00 \<longleftrightarrow> unat s div 256 = 255"
  "s AND 0xfe00 = 0xfc00 \<longleftrightarrow> unat s div 512 = 126"
  "s AND 0xffc0 = 0xfe80 \<longleftrightarrow> unat s div 64 = 1018"
  using and_high_bits_iff[OF _ not_masks(2)[symmetric], of "0xff00" 255 s]
    and_high_bits_iff[OF _ not_masks(3)[symmetric], of "0xfc00" 126 s]
    and_high_bits_iff[OF _ not_masks(4)[symmetric], of "0xfe80" 1018 s] by simp_all

lemma quotient_eq: "n = x * k + y \<Longrightarrow> y < k \<Longrightarrow> n div k = x" for n x y k :: nat
  by simp

lemma v4_block_divs:
  fixes a b c d :: nat
  assumes "b < 256" "c < 256" "d < 256"
  defines "n \<equiv> 16777216 * a + 65536 * b + c * 256 + d"
  shows "n div 268435456 = a div 16" "n div 16777216 = a" "n div 4194304 = a * 4 + b div 64" "n div 1048576 = a * 16 + b div 16"
    "n div 65536 = a * 256 + b" "n div 256 = (a * 256 + b) * 256 + c"
proof -
  have div_16: "(16777216 * a + 65536 * b + c * 256 + d) div 268435456 = q" if "a = q * 16 + r" "r < 16" for q r
    by (rule quotient_eq[where y = "r * 16777216 + b * 65536 + c * 256 + d"]) (use that assms(1-3) in linarith)+
  show "n div 268435456 = a div 16" unfolding n_def by (rule div_16[of _ "a mod 16"]) simp_all
  have div_64: "(16777216 * a + 65536 * b + c * 256 + d) div 4194304 = a * 4 + q" if "b = q * 64 + r" "r < 64" for q r
    by (rule quotient_eq[where y = "r * 65536 + c * 256 + d"]) (use that assms(2,3) in \<open>simp_all add: algebra_simps\<close>)
  show "n div 4194304 = a * 4 + b div 64" unfolding n_def by (rule div_64[of _ "b mod 64"]) simp_all
  have div_16b: "(16777216 * a + 65536 * b + c * 256 + d) div 1048576 = a * 16 + q" if "b = q * 16 + r" "r < 16" for q r
    by (rule quotient_eq[where y = "r * 65536 + c * 256 + d"]) (use that assms(2,3) in \<open>simp_all add: algebra_simps\<close>)
  show "n div 1048576 = a * 16 + b div 16" unfolding n_def by (rule div_16b[of _ "b mod 16"]) simp_all
  show "n div 16777216 = a"
    by (rule quotient_eq[where y = "b * 65536 + c * 256 + d"]) (use assms(1-3) in \<open>simp_all add: n_def\<close>)
  show "n div 65536 = a * 256 + b"
    by (rule quotient_eq[where y = "c * 256 + d"]) (use assms(1-3) in \<open>simp_all add: n_def\<close>)
  show "n div 256 = (a * 256 + b) * 256 + c"
    by (rule quotient_eq[where y = d]) (use assms(1-3) in \<open>simp_all add: n_def\<close>)
qed

lemma digits_eq: "b < k \<Longrightarrow> a * k + b = n \<longleftrightarrow> a = n div k \<and> b = n mod k" for a b k n :: nat
  by auto

lemma nibbles_eq:
  fixes a b :: nat
  assumes "b < 256"
  shows "a * 4 + b div 64 = 401 \<longleftrightarrow> a = 100 \<and> b div 64 = 1" "a * 16 + b div 16 = 2753 \<longleftrightarrow> a = 172 \<and> 16 \<le> b \<and> b \<le> 31"
proof -
  have "b div 64 < 4" "b div 16 < 16" using assms by auto
  moreover have "b div 16 = 1 \<longleftrightarrow> 16 \<le> b \<and> b \<le> 31" by auto
  ultimately show "a * 4 + b div 64 = 401 \<longleftrightarrow> a = 100 \<and> b div 64 = 1"
    "a * 16 + b div 16 = 2753 \<longleftrightarrow> a = 172 \<and> 16 \<le> b \<and> b \<le> 31"
    using digits_eq[of "b div 64" 4 a 401] digits_eq[of "b div 16" 16 a 2753] by simp_all
qed

definition blocked_v4 :: "ipv4 \<Rightarrow> bool" where
  "blocked_v4 ip \<longleftrightarrow> (\<exists>(base, len) \<in> set v4_blocks. in_block 32 (v4_number ip) (v4_number base, len))"

lemma blocked_v4: "is_private_v4 ip \<longleftrightarrow> blocked_v4 ip"
proof (cases ip)
  case (Ipv4 a b c d)
  note small = low_octet[of a] low_octet[of b] low_octet[of c] low_octet[of d]
  have ends: "unat a div 16 = 15 \<longleftrightarrow> 240 \<le> unat a" "unat a div 16 = 14 \<longleftrightarrow> 224 \<le> unat a \<and> unat a \<le> 239"
    "unat a = 255 \<Longrightarrow> 240 \<le> unat a" using small by auto
  note kinds = ends(1,2) v4_block_divs[OF small(2-4), of "unat a"] nibbles_eq[OF small(2)] digits_eq[OF small(2)] digits_eq[OF small(3)]
  show ?thesis
    unfolding Ipv4 is_private_v4_def v4_loopback_def v4_link_local_def v4_broadcast_def v4_unspecified_def v4_multicast_def
      blocked_v4_def v4_blocks_def in_block_def v4_private.simps v4_documentation.simps v4_number.simps ipv4.sel ipv4.inject
    by (simp add: octet_masks, simp only: word_unat_eq_iff word_le_nat_alt kinds, simp) (use ends(3) in argo)
qed

text \<open>The blocks of version 6 are prefixes of the first segments.\<close>

definition blocked_v6 :: "ipv6 \<Rightarrow> bool" where
  "blocked_v6 ip \<longleftrightarrow> (\<exists>(base, len) \<in> set v6_blocks. in_block 128 (v6_number ip) (v6_number base, len))"

definition embedded_in :: "ipv6 \<Rightarrow> ipv4 \<Rightarrow> bool" where
  \<comment> \<open>the address of version 4 is the last 32 bits behind one of the prefixes\<close>
  "embedded_in ip v4 \<longleftrightarrow> (\<exists>p \<in> set v4_embeddings. v6_number ip = v6_number p + v4_number v4)"

lemma div_leading:
  fixes x y k m :: nat
  assumes "y < k" "0 < m"
  shows "(x * k + y) div (k * m) = x div m"
  using assms by (simp add: div_mult2_eq)

lemma v6_number_leading:
  "\<exists>y < 2 ^ 96. v6_number ip = (unat (seg0 ip) * 65536 + unat (seg1 ip)) * 2 ^ 96 + y"
proof (cases ip)
  case (Ipv6 s0 s1 s2 s3 s4 s5 s6 s7)
  let ?y = "((((unat s2 * 65536 + unat s3) * 65536 + unat s4) * 65536 + unat s5) * 65536 + unat s6) * 65536 + unat s7"
  have "?y < 2 ^ 96"
    using segment_less[of s2] segment_less[of s3] segment_less[of s4] segment_less[of s5] segment_less[of s6] segment_less[of s7]
    by simp
  moreover have "v6_number ip = (unat (seg0 ip) * 65536 + unat (seg1 ip)) * 2 ^ 96 + ?y" by (simp add: Ipv6)
  ultimately show ?thesis by blast
qed

lemma blocked_v6: "blocked_v6 ip \<longleftrightarrow> v6_multicast ip \<or> seg0 ip AND 0xfe00 = 0xfc00 \<or> seg0 ip AND 0xffc0 = 0xfe80
    \<or> seg0 ip = 0x2001 \<and> seg1 ip = 0x0db8"
proof -
  obtain y where y: "y < 2 ^ 96" "v6_number ip = (unat (seg0 ip) * 65536 + unat (seg1 ip)) * 2 ^ 96 + y"
    using v6_number_leading by blast
  have lead: "v6_number ip div 2 ^ (112 + n) = unat (seg0 ip) div 2 ^ n" for n
  proof -
    have "v6_number ip div 2 ^ (112 + n) = v6_number ip div (2 ^ 96 * (65536 * 2 ^ n))" by (simp add: power_add)
    also have "\<dots> = (unat (seg0 ip) * 65536 + unat (seg1 ip)) div (65536 * 2 ^ n)"
      unfolding y(2) by (rule div_leading[OF y(1)]) simp
    also have "\<dots> = unat (seg0 ip) div 2 ^ n" by (rule div_leading[OF segment_less]) simp
    finally show ?thesis .
  qed
  have both: "v6_number ip div 2 ^ 96 = unat (seg0 ip) * 65536 + unat (seg1 ip)"
    using div_leading[OF y(1), of 1] unfolding y(2) by simp
  have doc: "unat (seg0 ip) * 65536 + unat (seg1 ip) = 536939960 \<longleftrightarrow> seg0 ip = 0x2001 \<and> seg1 ip = 0x0db8"
    using digits_eq[OF segment_less, of "unat (seg0 ip)" "seg1 ip" 536939960] by (simp add: word_unat_eq_iff)
  have "in_block 128 n (v6_number (Ipv6 0xfc00 0 0 0 0 0 0 0), 7) \<longleftrightarrow> n div 2 ^ (112 + 9) = 126"
    "in_block 128 n (v6_number (Ipv6 0xfe80 0 0 0 0 0 0 0), 10) \<longleftrightarrow> n div 2 ^ (112 + 6) = 1018"
    "in_block 128 n (v6_number (Ipv6 0xff00 0 0 0 0 0 0 0), 8) \<longleftrightarrow> n div 2 ^ (112 + 8) = 255"
    "in_block 128 n (v6_number (Ipv6 0x2001 0x0db8 0 0 0 0 0 0), 32) \<longleftrightarrow> n div 2 ^ 96 = 536939960" for n
    by (simp_all add: in_block_def)
  note blocks = this
  have "blocked_v6 ip \<longleftrightarrow> unat (seg0 ip) div 2 ^ 9 = 126 \<or> unat (seg0 ip) div 2 ^ 6 = 1018 \<or> unat (seg0 ip) div 2 ^ 8 = 255
      \<or> unat (seg0 ip) * 65536 + unat (seg1 ip) = 536939960"
    unfolding blocked_v6_def v6_blocks_def
    by (simp only: list.set bex_simps prod.case blocks lead both simp_thms)
  then show ?thesis unfolding v6_multicast_def segment_masks doc by auto
qed

lemma digits_inject: "x * k + y = x' * k + y' \<longleftrightarrow> x = x' \<and> y = y'" if "y < k" "y' < k" for x x' k y y' :: nat
  using digits_eq[OF that(1), of x "x' * k + y'"] that(2) by simp

lemma v6_number_inject: "v6_number x = v6_number y \<longleftrightarrow> x = y"
  by (cases x; cases y) (simp only: v6_number.simps foldl.simps digits_inject[OF segment_less segment_less] ipv6.inject word_unat_eq_iff
      mult_zero_left add_0_left conj_assoc)

lemma two_octets_value:
  assumes "two_octets s = (a, b)"
  shows "unat s = unat a * 256 + unat b"
proof -
  have "unat a = unat s div 256"
  proof -
    have "unat (ucast (drop_bit 8 s) :: 8 word) = take_bit 8 (unat (drop_bit 8 s))" by (simp add: unsigned_ucast_eq)
    also have "\<dots> = unat s div 256" using segment_less[of s] by (simp add: unat_drop_bit take_bit_eq_mod)
    finally show ?thesis using assms by (simp add: two_octets_def)
  qed
  moreover have "unat b = unat s mod 256" using assms by (auto simp: two_octets_def unsigned_ucast_eq take_bit_eq_mod)
  ultimately show ?thesis by simp
qed

lemma to_ipv4_embedded: "to_ipv4 ip = Some v4 \<longleftrightarrow> embedded_in ip v4"
proof
  assume some: "to_ipv4 ip = Some v4"
  obtain s5 s6 s7 where ip: "ip = Ipv6 0 0 0 0 0 s5 s6 s7" and s5: "s5 = 0 \<or> s5 = 0xffff"
    using some by (cases ip) (auto split: if_splits)
  obtain a b c d where o: "two_octets s6 = (a, b)" "two_octets s7 = (c, d)" by fastforce
  with some ip s5 have v4: "v4 = Ipv4 a b c d" by (auto split: if_splits)
  show "embedded_in ip v4"
    using s5 two_octets_value[OF o(1)] two_octets_value[OF o(2)]
    by (auto simp: embedded_in_def v4_embeddings_def ip v4)
next
  assume "embedded_in ip v4"
  then obtain s5 where s5: "s5 = 0 \<or> s5 = 0xffff" and n: "v6_number ip = unat (s5 :: 16 word) * 2 ^ 32 + v4_number v4"
    by (fastforce simp: embedded_in_def v4_embeddings_def intro: that[of 0] that[of "0xffff"])
  obtain a b c d where v4: "v4 = Ipv4 a b c d" by (cases v4)
  define s6 s7 :: "16 word" where "s6 = word_of_nat (unat a * 256 + unat b)" and "s7 = word_of_nat (unat c * 256 + unat d)"
  have u: "unat s6 = unat a * 256 + unat b" "unat s7 = unat c * 256 + unat d"
    using low_octet[of a] low_octet[of b] low_octet[of c] low_octet[of d]
    by (simp_all only: s6_def s7_def unsigned_of_nat take_bit_eq_mod) simp_all
  have "v6_number ip = v6_number (Ipv6 0 0 0 0 0 s5 s6 s7)" by (simp add: n v4 u)
  then have ip: "ip = Ipv6 0 0 0 0 0 s5 s6 s7" by (simp only: v6_number_inject)
  have octets: "two_octets s6 = (a, b)" "two_octets s7 = (c, d)"
  proof -
    have "two_octets s = (x, y)" if "unat s = unat x * 256 + unat y" for s x y
    proof -
      obtain x' y' where o: "two_octets s = (x', y')" by fastforce
      from two_octets_value[OF this] that have "unat x' * 256 + unat y' = unat x * 256 + unat y" by simp
      with digits_inject[OF low_octet low_octet] o show ?thesis by (simp add: word_unat_eq_iff)
    qed
    with u show "two_octets s6 = (a, b)" "two_octets s7 = (c, d)" by simp_all
  qed
  show "to_ipv4 ip = Some v4" using s5 by (auto simp: ip v4 octets)
qed

text \<open>C28. The addresses that may not be fetched from are exactly those of the listed blocks: twelve blocks
  of version 4, four of version 6, and the addresses of version 6 that carry an address of the twelve
  blocks behind one of the two prefixes for mapped and compatible addresses.\<close>

theorem private_ip_exact:
  "(is_private_ip (V4 v4) \<longleftrightarrow> blocked_v4 v4)
    \<and> (is_private_ip (V6 v6) \<longleftrightarrow> blocked_v6 v6 \<or> (\<exists>v4. embedded_in v6 v4 \<and> blocked_v4 v4))"
proof
  show "is_private_ip (V4 v4) \<longleftrightarrow> blocked_v4 v4" by (simp add: blocked_v4)
  show "is_private_ip (V6 v6) \<longleftrightarrow> blocked_v6 v6 \<or> (\<exists>v4. embedded_in v6 v4 \<and> blocked_v4 v4)"
  proof (cases "to_ipv4 v6")
    case None
    then have "\<not> v6_loopback v6" "\<not> v6_unspecified v6" by (auto simp: v6_loopback_def v6_unspecified_def split: prod.splits)
    with None show ?thesis by (auto simp: blocked_v6 simp flip: to_ipv4_embedded)
  next
    case (Some v4)
    then have "seg0 v6 = 0" by (cases v6) (auto split: if_splits)
    then have "\<not> blocked_v6 v6" by (simp add: blocked_v6 v6_multicast_def)
    with Some show ?thesis by (simp add: blocked_v4 flip: to_ipv4_embedded)
  qed
qed

end
