(* ===== verification/WebHttp.thy ===== *)
theory WebHttp
  imports WebAddr "HOL-Library.AList"
begin

text \<open>
  Fetching a document (\<^verbatim>\<open>tools-mcp-webfetch/src/webfetch/http.rs\<close>): the validation of a URL with the
  address it is pinned to, the rules of \<^verbatim>\<open>robots.txt\<close> with their cache, and the requests with their redirects.
  The crates \<^verbatim>\<open>url\<close> and \<^verbatim>\<open>robotstxt\<close> are a parameter (\<open>weblib\<close>); the resolver, the HTTP client and the clock are
  another (\<open>net\<close>), whose answers come from a world that changes.  The cache of the rules is shared with
  other fetches, which insert entries of their own whenever this one is about to lock it.  Messages of
  errors are left out.  The trace of the requests is kept for the theorems.
\<close>

section \<open>URLs and errors\<close>

datatype host = Domain bytes | HostV4 ipv4 | HostV6 ipv6

record url =
  u_scheme :: bytes
  u_host :: "host option"
  u_port :: "nat option"
  u_path :: bytes
  u_query :: "bytes option"

record weblib =
  wl_parse :: "bytes \<Rightarrow> url option"
  wl_join :: "url \<Rightarrow> bytes \<Rightarrow> url option"
  wl_to_string :: "url \<Rightarrow> bytes"
  wl_known_default :: "bytes \<Rightarrow> nat option"
  wl_agent_allowed :: "bytes \<Rightarrow> bytes \<Rightarrow> bytes \<Rightarrow> bool"

definition port_or_known_default :: "weblib \<Rightarrow> url \<Rightarrow> nat option" where
  "port_or_known_default L u = (case u_port u of Some p \<Rightarrow> Some p | None \<Rightarrow> wl_known_default L (u_scheme u))"

type_synonym socket_addr = "ip_addr \<times> nat"

datatype web_error =
    UrlInvalid | SchemeNotAllowed bytes | NoHost | LocalhostHost | PrivateAddress ip_addr | UnknownPort
  | DnsFailed bytes | DnsPrivate bytes | DnsEmpty | ClientFailed | SendFailed | NoLocation bytes | BadLocation bytes
  | RobotsBodyFailed | RobotsStatus nat | RobotsUnreachable web_error | TooManyRobotsRedirects
  | RobotsDisallowed bytes | TooManyRedirects | Status404 | BadStatus nat | BodyFailed | BodyTooLarge

definition USER_AGENT :: bytes where "USER_AGENT = ''tools-webfetch/0.1''"
definition DEFAULT_TIMEOUT :: nat where "DEFAULT_TIMEOUT = 20"
definition MAX_REDIRECTS :: nat where "MAX_REDIRECTS = 5"
definition ROBOTS_CACHE_MAX_ENTRIES :: nat where "ROBOTS_CACHE_MAX_ENTRIES = 1024"
definition MAX_RESPONSE_BYTES :: nat where "MAX_RESPONSE_BYTES = 25 * 1024 * 1024"

section \<open>Programs\<close>

record client =
  cl_resolve :: "(bytes \<times> socket_addr) option"

record http_request =
  rq_url :: bytes
  rq_timeout :: nat
  rq_headers :: "(bytes \<times> bytes) list"

record http_response =
  rs_status :: nat
  rs_location :: "bytes option"
  rs_content_type :: "bytes option"
  rs_text :: "bytes option"
  rs_chunks :: "bytes option list"

type_synonym robots_cache = "(bytes \<times> bytes option) list"

datatype web_event = Sent client http_request | Rules bytes "bytes option"

record 'w net =
  nt_lookup :: "bytes \<Rightarrow> nat \<Rightarrow> 'w \<Rightarrow> socket_addr list option \<times> 'w"
  nt_build :: "'w \<Rightarrow> bool \<times> 'w"
  nt_send :: "client \<Rightarrow> http_request \<Rightarrow> 'w \<Rightarrow> http_response option \<times> 'w"
  nt_others :: "'w \<Rightarrow> robots_cache \<times> 'w"
  nt_now :: "'w \<Rightarrow> nat"

record 'w web_state =
  ws_world :: 'w
  ws_robots :: "robots_cache option"
  ws_trace :: "web_event list"

type_synonym ('w, 'a) web = "'w web_state \<Rightarrow> (web_error + 'a) \<times> 'w web_state"

definition wm_ret :: "'a \<Rightarrow> ('w, 'a) web" where "wm_ret x = (\<lambda>s. (Inr x, s))"

definition wm_fail :: "web_error \<Rightarrow> ('w, 'a) web" where "wm_fail e = (\<lambda>s. (Inl e, s))"

definition wm_lift :: "web_error + 'a \<Rightarrow> ('w, 'a) web" where "wm_lift r = (\<lambda>s. (r, s))"

definition wm_case :: "('w, 'a) web \<Rightarrow> (web_error \<Rightarrow> ('w, 'b) web) \<Rightarrow> ('a \<Rightarrow> ('w, 'b) web) \<Rightarrow> ('w, 'b) web" where
  "wm_case m f g = (\<lambda>s. case m s of (Inl e, s1) \<Rightarrow> f e s1 | (Inr x, s1) \<Rightarrow> g x s1)"

definition wm_bind :: "('w, 'a) web \<Rightarrow> ('a \<Rightarrow> ('w, 'b) web) \<Rightarrow> ('w, 'b) web" where
  "wm_bind m g = wm_case m wm_fail g"

definition wm_world :: "('w \<Rightarrow> 'a \<times> 'w) \<Rightarrow> ('w, 'a) web" where
  "wm_world f = (\<lambda>s. case f (ws_world s) of (x, w) \<Rightarrow> (Inr x, s\<lparr> ws_world := w \<rparr>))"

definition wm_note :: "web_event \<Rightarrow> ('w, unit) web" where
  "wm_note e = (\<lambda>s. (Inr (), s\<lparr> ws_trace := ws_trace s @ [e] \<rparr>))"

definition send :: "'w net \<Rightarrow> client \<Rightarrow> http_request \<Rightarrow> ('w, http_response) web" where
  "send N c rq = wm_bind (wm_note (Sent c rq)) (\<lambda>_. wm_bind (wm_world (nt_send N c rq)) (\<lambda>r.
     case r of None \<Rightarrow> wm_fail SendFailed | Some resp \<Rightarrow> wm_ret resp))"

section \<open>Validation\<close>

fun check_addrs :: "bytes \<Rightarrow> socket_addr option \<Rightarrow> socket_addr list \<Rightarrow> web_error + socket_addr option" where
  "check_addrs host chosen [] = Inr chosen"
| "check_addrs host chosen (a # as) =
     (if is_private_ip (fst a) then Inl (DnsPrivate host)
      else check_addrs host (if chosen = None then Some a else chosen) as)"

definition validate_url_ssrf_and_resolve :: "weblib \<Rightarrow> 'w net \<Rightarrow> bytes \<Rightarrow> ('w, (bytes \<times> socket_addr) option) web" where
  "validate_url_ssrf_and_resolve L N s =
     wm_bind (wm_lift (ok_or (wl_parse L s) UrlInvalid)) (\<lambda>parsed.
     if u_scheme parsed \<noteq> ''http'' \<and> u_scheme parsed \<noteq> ''https'' then wm_fail (SchemeNotAllowed (u_scheme parsed))
     else wm_bind (wm_lift (ok_or (u_host parsed) NoHost)) (\<lambda>h.
     case h of
       HostV4 ip \<Rightarrow> if is_private_ip (V4 ip) then wm_fail (PrivateAddress (V4 ip)) else wm_ret None
     | HostV6 ip \<Rightarrow> if is_private_ip (V6 ip) then wm_fail (PrivateAddress (V6 ip)) else wm_ret None
     | Domain d \<Rightarrow>
         if eq_ignore_ascii_case d ''localhost'' \<or> eq_ignore_ascii_case d ''localhost.localdomain'' then wm_fail LocalhostHost
         else wm_bind (wm_lift (ok_or (port_or_known_default L parsed) UnknownPort)) (\<lambda>port.
           wm_bind (wm_world (nt_lookup N d port)) (\<lambda>found.
           wm_bind (wm_lift (ok_or found (DnsFailed d))) (\<lambda>addrs.
           wm_bind (wm_lift (check_addrs d None addrs)) (\<lambda>chosen.
           wm_bind (wm_lift (ok_or chosen DnsEmpty)) (\<lambda>a. wm_ret (Some (d, a)))))))))"

definition validate_url_ssrf :: "weblib \<Rightarrow> 'w net \<Rightarrow> bytes \<Rightarrow> ('w, unit) web" where
  "validate_url_ssrf L N s = wm_bind (validate_url_ssrf_and_resolve L N s) (\<lambda>_. wm_ret ())"

definition build_http_client_with_resolve :: "'w net \<Rightarrow> (bytes \<times> socket_addr) option \<Rightarrow> ('w, client) web" where
  "build_http_client_with_resolve N resolve =
     wm_bind (wm_world (nt_build N)) (\<lambda>ok. if ok then wm_ret \<lparr> cl_resolve = resolve \<rparr> else wm_fail ClientFailed)"

section \<open>Texts of hosts\<close>

definition v4_text :: "ipv4 \<Rightarrow> bytes" where
  "v4_text ip = nat_dec (unat (oct0 ip)) @ ''.'' @ nat_dec (unat (oct1 ip)) @ ''.''
     @ nat_dec (unat (oct2 ip)) @ ''.'' @ nat_dec (unat (oct3 ip))"

definition hex_digit :: "nat \<Rightarrow> byte" where
  "hex_digit d = (if d < 10 then byte_of (48 + d) else byte_of (87 + d))"

fun nat_hex :: "nat \<Rightarrow> bytes" where
  "nat_hex n = (if n < 16 then [hex_digit n] else nat_hex (n div 16) @ [hex_digit (n mod 16)])"

declare nat_hex.simps [simp del]

fun v6_segments :: "ipv6 \<Rightarrow> nat list" where
  "v6_segments (Ipv6 s0 s1 s2 s3 s4 s5 s6 s7) = map unat [s0, s1, s2, s3, s4, s5, s6, s7]"

fun longest_zeroes :: "nat \<Rightarrow> nat \<times> nat \<Rightarrow> nat \<times> nat \<Rightarrow> nat list \<Rightarrow> nat \<times> nat" where
  \<comment> \<open>start and length of the first longest run of zeroes, as in \<open>Display\<close> of \<open>Ipv6Addr\<close>\<close>
  "longest_zeroes i current longest [] = longest"
| "longest_zeroes i current longest (s # ss) =
     (if s = 0 then
        let current = (if snd current = 0 then (i, 1) else (fst current, snd current + 1))
        in longest_zeroes (i + 1) current (if snd current > snd longest then current else longest) ss
      else longest_zeroes (i + 1) (0, 0) longest ss)"

fun v6_subslice :: "nat list \<Rightarrow> bytes" where
  "v6_subslice [] = []"
| "v6_subslice [s] = nat_hex s"
| "v6_subslice (s # ss) = nat_hex s @ '':'' @ v6_subslice ss"

definition v6_text :: "ipv6 \<Rightarrow> bytes" where
  "v6_text ip =
     (case (to_ipv4 ip, seg5 ip = 0xffff) of
        (Some v4, True) \<Rightarrow> ''::ffff:'' @ v4_text v4
      | _ \<Rightarrow>
          (case longest_zeroes 0 (0, 0) (0, 0) (v6_segments ip) of (st, len) \<Rightarrow>
             if len > 1 then v6_subslice (take st (v6_segments ip)) @ ''::'' @ v6_subslice (drop (st + len) (v6_segments ip))
             else v6_subslice (v6_segments ip)))"

fun host_text :: "host \<Rightarrow> bytes" where
  "host_text (Domain d) = d"
| "host_text (HostV4 ip) = v4_text ip"
| "host_text (HostV6 ip) = ''['' @ v6_text ip @ '']''"

definition port_text :: "nat option \<Rightarrow> bytes" where
  "port_text p = (case p of None \<Rightarrow> [] | Some n \<Rightarrow> '':'' @ nat_dec n)"

section \<open>The rules of robots.txt\<close>

definition get_robots_url :: "weblib \<Rightarrow> bytes \<Rightarrow> web_error + bytes" where
  "get_robots_url L s =
     bindE (ok_or (wl_parse L s) UrlInvalid) (\<lambda>parsed.
     bindE (ok_or (u_host parsed) NoHost) (\<lambda>h.
     Inr (u_scheme parsed @ ''://'' @ host_text h @ port_text (u_port parsed) @ ''/robots.txt'')))"

definition same_origin :: "weblib \<Rightarrow> bytes \<Rightarrow> bytes \<Rightarrow> web_error + bool" where
  "same_origin L left right =
     bindE (ok_or (wl_parse L left) UrlInvalid) (\<lambda>l.
     bindE (ok_or (wl_parse L right) UrlInvalid) (\<lambda>r.
     Inr (u_scheme l = u_scheme r \<and> u_host l = u_host r \<and> port_or_known_default L l = port_or_known_default L r)))"

definition robots_request :: "bytes \<Rightarrow> http_request" where
  "robots_request current = \<lparr> rq_url = current, rq_timeout = 5, rq_headers = [(''user-agent'', USER_AGENT)] \<rparr>"

definition send_robots_request :: "weblib \<Rightarrow> 'w net \<Rightarrow> client \<Rightarrow> bytes \<Rightarrow> bytes \<Rightarrow> ('w, http_response) web" where
  "send_robots_request L N c initial current =
     wm_bind (wm_lift (same_origin L initial current)) (\<lambda>same.
     if same then send N c (robots_request current)
     else wm_bind (validate_url_ssrf_and_resolve L N current) (\<lambda>resolve.
       wm_bind (build_http_client_with_resolve N resolve) (\<lambda>c1. send N c1 (robots_request current))))"

definition is_redirection :: "nat \<Rightarrow> bool" where "is_redirection st \<longleftrightarrow> 300 \<le> st \<and> st < 400"
definition is_success :: "nat \<Rightarrow> bool" where "is_success st \<longleftrightarrow> 200 \<le> st \<and> st < 300"
definition is_client_error :: "nat \<Rightarrow> bool" where "is_client_error st \<longleftrightarrow> 400 \<le> st \<and> st < 500"

definition next_hop :: "weblib \<Rightarrow> bytes \<Rightarrow> http_response \<Rightarrow> web_error + bytes" where
  "next_hop L current resp =
     bindE (ok_or (rs_location resp) (NoLocation current)) (\<lambda>location.
     bindE (ok_or (wl_parse L current) UrlInvalid) (\<lambda>base.
     bindE (ok_or (wl_join L base location) (BadLocation location)) (\<lambda>next. Inr (wl_to_string L next))))"

function fetch_robots_loop ::
  "weblib \<Rightarrow> 'w net \<Rightarrow> client \<Rightarrow> bytes \<Rightarrow> bytes \<Rightarrow> nat \<Rightarrow> ('w, http_response) web" where
  "fetch_robots_loop L N c robots_url current redirects_followed =
     wm_bind (send_robots_request L N c robots_url current) (\<lambda>resp.
     if \<not> is_redirection (rs_status resp) then wm_ret resp
     else if redirects_followed \<ge> MAX_REDIRECTS then wm_fail TooManyRobotsRedirects
     else wm_bind (wm_lift (next_hop L current resp)) (\<lambda>next.
       fetch_robots_loop L N c robots_url next (redirects_followed + 1)))"
  by pat_completeness auto

termination by (relation "measure (\<lambda>(L, N, c, r, u, n). MAX_REDIRECTS - n)") auto

declare fetch_robots_loop.simps [simp del]

definition fetch_robots_response :: "weblib \<Rightarrow> 'w net \<Rightarrow> client \<Rightarrow> bytes \<Rightarrow> ('w, http_response) web" where
  "fetch_robots_response L N c robots_url = fetch_robots_loop L N c robots_url robots_url 0"

definition robots_insert :: "bytes \<Rightarrow> bytes option \<Rightarrow> robots_cache \<Rightarrow> robots_cache" where
  "robots_insert domain content m =
     (let m1 = (if length m \<ge> ROBOTS_CACHE_MAX_ENTRIES \<and> map_of m domain = None then [] else m)
      in AList.update domain content m1)"

definition cache_insert :: "bytes \<times> bytes option \<Rightarrow> robots_cache option \<Rightarrow> robots_cache option" where
  "cache_insert e c = Some (robots_insert (fst e) (snd e) (case c of None \<Rightarrow> [] | Some m \<Rightarrow> m))"

definition lock_robots :: "'w net \<Rightarrow> ('w, unit) web" where
  \<comment> \<open>before the lock is held, other fetches may have inserted entries\<close>
  "lock_robots N = wm_bind (wm_world (nt_others N)) (\<lambda>es s. (Inr (), s\<lparr> ws_robots := fold cache_insert es (ws_robots s) \<rparr>))"

definition robots_domain :: "weblib \<Rightarrow> bytes \<Rightarrow> web_error + bytes" where
  "robots_domain L s =
     bindE (ok_or (wl_parse L s) UrlInvalid) (\<lambda>parsed.
     bindE (ok_or (u_host parsed) NoHost) (\<lambda>h.
     bindE (ok_or (port_or_known_default L parsed) UnknownPort) (\<lambda>port.
     Inr (u_scheme parsed @ ''://'' @ host_text h @ '':'' @ nat_dec port))))"

definition cached_rules :: "bytes \<Rightarrow> robots_cache option \<Rightarrow> bytes option option" where
  "cached_rules domain c = Option.bind c (\<lambda>m. map_of m domain)"

definition get_robots_content :: "weblib \<Rightarrow> 'w net \<Rightarrow> client \<Rightarrow> bytes \<Rightarrow> ('w, bytes option) web" where
  "get_robots_content L N c s =
     wm_bind (wm_lift (get_robots_url L s)) (\<lambda>robots_url.
     wm_bind (wm_lift (robots_domain L s)) (\<lambda>domain.
     wm_bind (lock_robots N) (\<lambda>_.
     wm_bind (\<lambda>st. (Inr (cached_rules domain (ws_robots st)), st)) (\<lambda>cached.
     case cached of
       Some content \<Rightarrow> wm_ret content
     | None \<Rightarrow>
         wm_bind (wm_case (fetch_robots_response L N c robots_url)
             (\<lambda>err. wm_fail (RobotsUnreachable err))
             (\<lambda>resp. if is_success (rs_status resp) then wm_lift (map_sum id Some (ok_or (rs_text resp) RobotsBodyFailed))
                else if is_client_error (rs_status resp) then wm_ret None
                else wm_fail (RobotsStatus (rs_status resp)))) (\<lambda>content.
         wm_bind (lock_robots N) (\<lambda>_.
         wm_bind (\<lambda>st. (Inr (), st\<lparr> ws_robots := cache_insert (domain, content) (ws_robots st) \<rparr>)) (\<lambda>_.
         wm_ret content)))))))"

definition robots_match_path :: "url \<Rightarrow> bytes" where
  "robots_match_path parsed = (case u_query parsed of Some q \<Rightarrow> u_path parsed @ ''?'' @ q | None \<Rightarrow> u_path parsed)"

definition rules_allow :: "weblib \<Rightarrow> bytes option \<Rightarrow> url \<Rightarrow> bool" where
  "rules_allow L content parsed =
     (case content of None \<Rightarrow> True | Some txt \<Rightarrow> wl_agent_allowed L txt USER_AGENT (robots_match_path parsed))"

definition is_allowed_by_robots :: "weblib \<Rightarrow> 'w net \<Rightarrow> client \<Rightarrow> bytes \<Rightarrow> ('w, bool) web" where
  "is_allowed_by_robots L N c s =
     wm_bind (get_robots_content L N c s) (\<lambda>content.
     wm_bind (wm_note (Rules s content)) (\<lambda>_.
     case content of
       None \<Rightarrow> wm_ret True
     | Some txt \<Rightarrow> wm_bind (wm_lift (ok_or (wl_parse L s) UrlInvalid)) (\<lambda>parsed. wm_ret (rules_allow L content parsed))))"

definition ensure_fetch_allowed :: "weblib \<Rightarrow> 'w net \<Rightarrow> bytes \<Rightarrow> ('w, unit) web" where
  "ensure_fetch_allowed L N s =
     wm_bind (validate_url_ssrf_and_resolve L N s) (\<lambda>resolve.
     wm_bind (build_http_client_with_resolve N resolve) (\<lambda>c.
     wm_bind (is_allowed_by_robots L N c s) (\<lambda>allowed.
     if \<not> allowed then wm_fail (RobotsDisallowed s) else wm_ret ())))"

section \<open>The document\<close>

record fetch_request =
  fr_url :: bytes
  fr_max_chunk_tokens :: "nat option"
  fr_no_cache :: bool
  fr_force_browser :: bool

record fetched_body =
  fb_body :: bytes
  fb_content_type :: "bytes option"
  fb_fetched_at :: nat

definition document_request :: "bool \<Rightarrow> bytes \<Rightarrow> http_request" where
  "document_request no_cache current = \<lparr> rq_url = current, rq_timeout = DEFAULT_TIMEOUT,
     rq_headers = [(''user-agent'', USER_AGENT),
         (''accept'', ''text/html,application/xhtml+xml,application/xml;q=0.9,text/plain;q=0.8,*/*;q=0.7'')]
       @ (if no_cache then [(''cache-control'', ''no-cache''), (''pragma'', ''no-cache'')] else []) \<rparr>"

fun read_body :: "bytes \<Rightarrow> nat \<Rightarrow> bytes option list \<Rightarrow> web_error + bytes" where
  "read_body bs total_read [] = Inr bs"
| "read_body bs total_read (None # cs) = Inl BodyFailed"
| "read_body bs total_read (Some chunk # cs) =
     (if total_read + length chunk > MAX_RESPONSE_BYTES then Inl BodyTooLarge
      else read_body (bs @ chunk) (total_read + length chunk) cs)"

function fetch_document_loop :: "weblib \<Rightarrow> 'w net \<Rightarrow> bool \<Rightarrow> bytes \<Rightarrow> nat \<Rightarrow> ('w, fetched_body) web" where
  "fetch_document_loop L N no_cache current redirects_followed =
     wm_bind (validate_url_ssrf_and_resolve L N current) (\<lambda>resolve.
     wm_bind (build_http_client_with_resolve N resolve) (\<lambda>c.
     wm_bind (is_allowed_by_robots L N c current) (\<lambda>allowed.
     if \<not> allowed then wm_fail (RobotsDisallowed current)
     else wm_bind (send N c (document_request no_cache current)) (\<lambda>resp.
       if is_redirection (rs_status resp) then
         (if redirects_followed \<ge> MAX_REDIRECTS then wm_fail TooManyRedirects
          else wm_bind (wm_lift (next_hop L current resp)) (\<lambda>next.
            fetch_document_loop L N no_cache next (redirects_followed + 1)))
       else if rs_status resp = 404 then wm_fail Status404
       else if \<not> is_success (rs_status resp) then wm_fail (BadStatus (rs_status resp))
       else wm_bind (\<lambda>s. (Inr (nt_now N (ws_world s)), s)) (\<lambda>fetched_at.
         wm_bind (wm_lift (read_body [] 0 (rs_chunks resp))) (\<lambda>body.
         wm_ret \<lparr> fb_body = body, fb_content_type = rs_content_type resp, fb_fetched_at = fetched_at \<rparr>))))))"
  by pat_completeness auto

termination by (relation "measure (\<lambda>(L, N, b, u, n). MAX_REDIRECTS - n)") auto

declare fetch_document_loop.simps [simp del]

definition fetch_document :: "weblib \<Rightarrow> 'w net \<Rightarrow> fetch_request \<Rightarrow> ('w, fetched_body) web" where
  "fetch_document L N req = fetch_document_loop L N (fr_no_cache req) (fr_url req) 0"

end
