(* ===== verification/WebProps.thy ===== *)
theory WebProps
  imports WebHttp
begin

text \<open>
  The properties of fetching: where requests go, what the rules of a site allow, and how much is sent,
  read and kept.  A program is described by what it adds to the trace and what it returns (\<open>yields\<close>); two
  special cases carry most proofs: every event it adds satisfies a predicate (\<open>gives\<close>), and the number of
  requests it sends is bounded (\<open>costs\<close>).
\<close>

section \<open>What a program adds to the trace\<close>

definition yields :: "('w, 'a) web \<Rightarrow> (web_error + 'a \<Rightarrow> web_event list \<Rightarrow> bool) \<Rightarrow> bool" where
  "yields m Q \<longleftrightarrow> (\<forall>s. \<exists>t. ws_trace (snd (m s)) = ws_trace s @ t \<and> Q (fst (m s)) t)"

lemma yieldsD: "yields m Q \<Longrightarrow> \<exists>t. ws_trace (snd (m s)) = ws_trace s @ t \<and> Q (fst (m s)) t"
  by (simp add: yields_def)

lemma yields_weaken: "yields m Q \<Longrightarrow> (\<And>r t. Q r t \<Longrightarrow> R r t) \<Longrightarrow> yields m R"
  by (meson yields_def)

lemma yields_case:
  assumes "yields m A" "\<And>e t. A (Inl e) t \<Longrightarrow> yields (f e) (\<lambda>r u. Q r (t @ u))"
    "\<And>x t. A (Inr x) t \<Longrightarrow> yields (g x) (\<lambda>r u. Q r (t @ u))"
  shows "yields (wm_case m f g) Q"
  unfolding yields_def
proof
  fix s
  obtain t where t: "ws_trace (snd (m s)) = ws_trace s @ t" "A (fst (m s)) t" using assms(1) by (meson yields_def)
  show "\<exists>t. ws_trace (snd (wm_case m f g s)) = ws_trace s @ t \<and> Q (fst (wm_case m f g s)) t"
  proof (cases "fst (m s)")
    case (Inl e)
    with t assms(2) yieldsD[of "f e" _ "snd (m s)"] have "\<exists>u. ws_trace (snd (f e (snd (m s)))) = ws_trace (snd (m s)) @ u
      \<and> Q (fst (f e (snd (m s)))) (t @ u)" by fastforce
    with Inl t(1) show ?thesis by (auto simp: wm_case_def split: prod.splits)
  next
    case (Inr x)
    with t assms(3) yieldsD[of "g x" _ "snd (m s)"] have "\<exists>u. ws_trace (snd (g x (snd (m s)))) = ws_trace (snd (m s)) @ u
      \<and> Q (fst (g x (snd (m s)))) (t @ u)" by fastforce
    with Inr t(1) show ?thesis by (auto simp: wm_case_def split: prod.splits)
  qed
qed

lemma yields_fail: "Q (Inl e) [] \<Longrightarrow> yields (wm_fail e) Q"
  by (simp add: yields_def wm_fail_def)

lemma yields_bind:
  assumes "yields m A" "\<And>e t. A (Inl e) t \<Longrightarrow> Q (Inl e) t" "\<And>x t. A (Inr x) t \<Longrightarrow> yields (g x) (\<lambda>r u. Q r (t @ u))"
  shows "yields (wm_bind m g) Q"
  unfolding wm_bind_def by (rule yields_case, rule assms(1)) (auto intro!: yields_fail assms(2,3))

lemma yields_ret: "Q (Inr x) [] \<Longrightarrow> yields (wm_ret x) Q"
  by (simp add: yields_def wm_ret_def)

lemma yields_send:
  assumes "\<And>r. Q r [Sent c rq]"
  shows "yields (send N c rq) Q"
  using assms by (auto simp: yields_def send_def wm_bind_def wm_case_def wm_note_def wm_world_def wm_fail_def wm_ret_def
      split: prod.splits option.splits)

definition gives :: "(web_event \<Rightarrow> bool) \<Rightarrow> ('w, 'a) web \<Rightarrow> ('a \<Rightarrow> bool) \<Rightarrow> bool" where
  "gives P m R \<longleftrightarrow> yields m (\<lambda>r t. list_all P t \<and> (\<forall>x. r = Inr x \<longrightarrow> R x))"

definition sends :: "web_event list \<Rightarrow> nat" where
  "sends t = length [e \<leftarrow> t. case e of Sent c rq \<Rightarrow> True | _ \<Rightarrow> False]"

lemma sends_append: "sends (t @ u) = sends t + sends u"
  by (simp add: sends_def)

definition costs :: "nat \<Rightarrow> ('w, 'a) web \<Rightarrow> bool" where
  "costs n m \<longleftrightarrow> yields m (\<lambda>r t. sends t \<le> n)"

named_theorems quiet_intros \<open>programs that send nothing\<close>

definition quiet :: "('w, 'a) web \<Rightarrow> ('a \<Rightarrow> bool) \<Rightarrow> bool" where
  "quiet m R \<longleftrightarrow> yields m (\<lambda>r t. t = [] \<and> (\<forall>x. r = Inr x \<longrightarrow> R x))"

lemma quiet_gives: "quiet m R \<Longrightarrow> gives P m R"
  unfolding quiet_def gives_def by (erule yields_weaken) simp

lemma quiet_costs: "quiet m R \<Longrightarrow> costs n m"
  unfolding quiet_def costs_def by (erule yields_weaken) (simp add: sends_def)

lemma quiet_true: "quiet m R \<Longrightarrow> quiet m (\<lambda>_. True)"
  unfolding quiet_def by (erule yields_weaken) simp

lemma quiet_ret [quiet_intros]: "R x \<Longrightarrow> quiet (wm_ret x) R"
  unfolding quiet_def by (rule yields_ret) simp

lemma quiet_fail [quiet_intros]: "quiet (wm_fail e) R"
  unfolding quiet_def by (rule yields_fail) simp

lemma quiet_lift [quiet_intros]: "(\<And>x. r = Inr x \<Longrightarrow> R x) \<Longrightarrow> quiet (wm_lift r) R"
  by (simp add: quiet_def yields_def wm_lift_def)

lemma quiet_world: "quiet (wm_world f) (\<lambda>_. True)"
  by (simp add: quiet_def yields_def wm_world_def split: prod.splits)

lemma quiet_bind: "quiet m A \<Longrightarrow> (\<And>x. A x \<Longrightarrow> quiet (g x) R) \<Longrightarrow> quiet (wm_bind m g) R"
  unfolding quiet_def by (rule yields_bind, assumption) auto

lemma quiet_look: "quiet (\<lambda>s. (Inr (f s), s)) (\<lambda>_. True)"
  by (simp add: quiet_def yields_def)

lemma quiet_store: "quiet (\<lambda>s. (Inr (), s\<lparr> ws_robots := f (ws_robots s) \<rparr>)) (\<lambda>_. True)"
  by (simp add: quiet_def yields_def)

lemma quiet_lock: "quiet (lock_robots N) (\<lambda>_. True)"
  unfolding lock_robots_def by (rule quiet_bind[OF quiet_world]) (rule quiet_store)

lemma gives_bind: "gives P m A \<Longrightarrow> (\<And>x. A x \<Longrightarrow> gives P (g x) R) \<Longrightarrow> gives P (wm_bind m g) R"
  unfolding gives_def by (rule yields_bind, assumption) (auto intro: yields_weaken)

lemma gives_weaken: "gives P m A \<Longrightarrow> (\<And>x. A x \<Longrightarrow> R x) \<Longrightarrow> gives P m R"
  unfolding gives_def by (erule yields_weaken) auto

lemma gives_send: "P (Sent c rq) \<Longrightarrow> gives P (send N c rq) (\<lambda>_. True)"
  unfolding gives_def by (rule yields_send) simp

lemma gives_note: "P e \<Longrightarrow> gives P (wm_note e) (\<lambda>_. True)"
  by (simp add: gives_def yields_def wm_note_def)

lemma costs_bind:
  assumes "costs a m" "\<And>x. costs b (g x)"
  shows "costs (a + b) (wm_bind m g)"
  unfolding costs_def
  by (rule yields_bind[OF assms(1)[unfolded costs_def]])
    (auto simp: sends_append intro: yields_weaken[OF assms(2)[unfolded costs_def]])

lemma costs_weaken: "costs a m \<Longrightarrow> a \<le> b \<Longrightarrow> costs b m"
  unfolding costs_def by (erule yields_weaken) simp

lemma costs_send: "costs 1 (send N c rq)"
  unfolding costs_def by (rule yields_send) (simp add: sends_def)

lemma quiet_first: "quiet m A \<Longrightarrow> (\<And>x. A x \<Longrightarrow> gives P (g x) R) \<Longrightarrow> gives P (wm_bind m g) R"
  by (rule gives_bind[OF quiet_gives])

lemma quiet_first_costs: "quiet m A \<Longrightarrow> (\<And>x. costs b (g x)) \<Longrightarrow> costs b (wm_bind m g)"
  using costs_bind[OF quiet_costs[of m A 0], where g = g and b = b] by simp

lemma quiet_first_yields:
  assumes "quiet m A" "\<And>x. A x \<Longrightarrow> yields (g x) Q" "\<And>e. Q (Inl e) []"
  shows "yields (wm_bind m g) Q"
  by (rule yields_bind[OF assms(1)[unfolded quiet_def]]) (use assms(2,3) in auto)

section \<open>Where a request goes\<close>

text \<open>
  The documented behaviour of the client: an address in the URL is connected to as it is, a name that is
  pinned to an address is connected to at this address, and any other name is looked up by the client,
  which is \<open>None\<close> here.
\<close>

definition connection :: "weblib \<Rightarrow> client \<Rightarrow> bytes \<Rightarrow> ip_addr option" where
  "connection L c s =
     (case Option.bind (wl_parse L s) u_host of
        None \<Rightarrow> None
      | Some (HostV4 ip) \<Rightarrow> Some (V4 ip)
      | Some (HostV6 ip) \<Rightarrow> Some (V6 ip)
      | Some (Domain d) \<Rightarrow> (case cl_resolve c of None \<Rightarrow> None | Some (h, a) \<Rightarrow> if h = d then Some (fst a) else None))"

definition public :: "weblib \<Rightarrow> client \<Rightarrow> bytes \<Rightarrow> bool" where
  "public L c s \<longleftrightarrow> (\<exists>ip. connection L c s = Some ip \<and> \<not> is_private_ip ip)"

definition web_url :: "weblib \<Rightarrow> bytes \<Rightarrow> bool" where
  "web_url L s \<longleftrightarrow> (\<exists>u. wl_parse L s = Some u \<and> u_scheme u \<in> {''http'', ''https''})"

text \<open>Documented of \<^verbatim>\<open>url\<close>: the text of an origin parses to a URL of the same host.\<close>

definition weblib_ok :: "weblib \<Rightarrow> bool" where
  "weblib_ok L \<longleftrightarrow> (\<forall>s u h. wl_parse L s = Some u \<and> u_scheme u \<in> {''http'', ''https''} \<and> u_host u = Some h \<longrightarrow>
     (\<exists>v. wl_parse L (u_scheme u @ ''://'' @ host_text h @ port_text (u_port u) @ ''/robots.txt'') = Some v \<and> u_host v = Some h))"

lemma check_addrs_chosen:
  "check_addrs h chosen as = Inr r \<Longrightarrow> (\<And>a. chosen = Some a \<Longrightarrow> \<not> is_private_ip (fst a))
    \<Longrightarrow> r = Some a \<Longrightarrow> \<not> is_private_ip (fst a)"
  by (induction h chosen as rule: check_addrs.induct) (auto split: if_splits)

lemma connection_cong: "Option.bind (wl_parse L s) u_host = Option.bind (wl_parse L s') u_host \<Longrightarrow> connection L c s = connection L c s'"
  by (simp add: connection_def)

lemma quiet_validate:
  "quiet (validate_url_ssrf_and_resolve L N s) (\<lambda>r. public L \<lparr> cl_resolve = r \<rparr> s \<and> web_url L s)"
  unfolding validate_url_ssrf_and_resolve_def
proof (rule quiet_bind[OF quiet_lift[where R = "\<lambda>u. wl_parse L s = Some u"]], goal_cases)
  case (2 u)
  show ?case
  proof (cases "u_scheme u \<noteq> ''http'' \<and> u_scheme u \<noteq> ''https''")
    case False
    with 2 have web: "web_url L s" by (auto simp: web_url_def)
    show ?thesis
      unfolding if_not_P[OF False]
    proof (rule quiet_bind[OF quiet_lift[where R = "\<lambda>h. u_host u = Some h"]], goal_cases)
      case (2 h)
      note host = this
      show ?case
      proof (cases h)
        case (Domain d)
        have "quiet (wm_bind (wm_lift (check_addrs d None addrs)) (\<lambda>chosen.
            wm_bind (wm_lift (ok_or chosen DnsEmpty)) (\<lambda>a. wm_ret (Some (d, a)))))
            (\<lambda>r. public L \<lparr> cl_resolve = r \<rparr> s \<and> web_url L s)" for addrs
          by (rule quiet_bind[OF quiet_lift[where R = "\<lambda>r. \<forall>a. r = Some a \<longrightarrow> \<not> is_private_ip (fst a)"]],
              use check_addrs_chosen[of d None addrs] in blast,
              rule quiet_bind[OF quiet_lift[where R = "\<lambda>a. \<not> is_private_ip (fst a)"]])
            (use host \<open>wl_parse L s = Some u\<close> web Domain in
              \<open>auto simp: ok_or_Inr_iff public_def connection_def intro!: quiet_ret\<close>)
        note chosen = this
        show ?thesis
          unfolding Domain host.case if_distrib[of "\<lambda>m. quiet m _"]
          by (intro if_bool_eq_conj[THEN iffD2] conjI impI quiet_fail quiet_bind[OF quiet_lift[where R = "\<lambda>_. True"]]
              quiet_bind[OF quiet_world] chosen TrueI)
      qed (use host \<open>wl_parse L s = Some u\<close> web in
          \<open>auto simp: public_def connection_def intro!: quiet_ret quiet_fail\<close>)
    qed (simp add: ok_or_Inr_iff)
  qed (auto intro: quiet_fail)
qed (simp add: ok_or_Inr_iff)

lemma quiet_build: "quiet (build_http_client_with_resolve N r) (\<lambda>c. c = \<lparr> cl_resolve = r \<rparr>)"
  unfolding build_http_client_with_resolve_def
  by (rule quiet_bind[OF quiet_world]) (auto intro: quiet_intros)

section \<open>Requests go to public addresses\<close>

definition to_public :: "weblib \<Rightarrow> web_event \<Rightarrow> bool" where
  "to_public L e = (case e of Sent c rq \<Rightarrow> public L c (rq_url rq) | Rules s content \<Rightarrow> True)"

lemma to_public_simps [simp]: "to_public L (Sent c rq) \<longleftrightarrow> public L c (rq_url rq)" "to_public L (Rules s content)"
  by (simp_all add: to_public_def)

lemma same_origin_public:
  assumes "same_origin L initial current = Inr True" "public L c initial"
  shows "public L c current"
proof -
  have "Option.bind (wl_parse L initial) u_host = Option.bind (wl_parse L current) u_host"
    using assms(1) by (auto simp: same_origin_def bindE_Inr_iff ok_or_Inr_iff)
  from connection_cong[OF this] assms(2) show ?thesis by (simp add: public_def)
qed

lemma robots_url_public:
  assumes "weblib_ok L" "web_url L s" "public L c s" "get_robots_url L s = Inr r"
  shows "public L c r"
proof -
  obtain u h where u: "wl_parse L s = Some u" "u_host u = Some h"
    "r = u_scheme u @ ''://'' @ host_text h @ port_text (u_port u) @ ''/robots.txt''"
    using assms(4) by (auto simp: get_robots_url_def bindE_Inr_iff ok_or_Inr_iff)
  with assms(1,2) have "Option.bind (wl_parse L r) u_host = Option.bind (wl_parse L s) u_host"
    unfolding weblib_ok_def web_url_def by fastforce
  from connection_cong[OF this] assms(3) show ?thesis by (simp add: public_def)
qed

lemma gives_send_robots: "public L c initial \<Longrightarrow> gives (to_public L) (send_robots_request L N c initial current) (\<lambda>_. True)"
  unfolding send_robots_request_def
proof (rule quiet_first[OF quiet_lift[where R = "\<lambda>b. same_origin L initial current = Inr b"]], goal_cases)
  case (2 b)
  have "gives (to_public L) (wm_bind (validate_url_ssrf_and_resolve L N current) (\<lambda>resolve.
      wm_bind (build_http_client_with_resolve N resolve) (\<lambda>c1. send N c1 (robots_request current)))) (\<lambda>_. True)"
    by (rule quiet_first[OF quiet_validate], rule quiet_first[OF quiet_build], rule gives_send) (simp add: robots_request_def)
  moreover have "gives (to_public L) (send N c (robots_request current)) (\<lambda>_. True)" if b
    by (rule gives_send) (use same_origin_public[of L initial current c] 2 that in \<open>simp add: robots_request_def\<close>)
  ultimately show ?case by simp
qed

lemma gives_robots_loop: "public L c r \<Longrightarrow> gives (to_public L) (fetch_robots_loop L N c r u n) (\<lambda>_. True)"
proof (induction L N c r u n rule: fetch_robots_loop.induct)
  case (1 L N c r u n)
  show ?case
    by (subst fetch_robots_loop.simps, rule gives_bind[OF gives_send_robots[OF 1(2)]])
      (auto intro!: quiet_gives[OF quiet_ret] quiet_gives[OF quiet_fail] quiet_first[OF quiet_lift[where R = "\<lambda>_. True"]]
        1(1)[simplified] 1(2))
qed

lemma gives_case_response:
  assumes "gives P m (\<lambda>_. True)" "\<And>e. quiet (f e) R" "\<And>x. quiet (g x) R"
  shows "gives P (wm_case m f g) R"
  unfolding gives_def
proof (rule yields_case[OF assms(1)[unfolded gives_def]], goal_cases)
  case (1 e t)
  then show ?case using assms(2)[of e] unfolding quiet_def by (auto elim!: yields_weaken)
next
  case (2 x t)
  then show ?case using assms(3)[of x] unfolding quiet_def by (auto elim!: yields_weaken)
qed

lemma quiet_rules_of_response:
  "quiet (if is_success (rs_status resp) then wm_lift (map_sum id Some (ok_or (rs_text resp) RobotsBodyFailed))
    else if is_client_error (rs_status resp) then wm_ret None else wm_fail (RobotsStatus (rs_status resp))) (\<lambda>_. True)"
  by (auto intro: quiet_intros)

lemma gives_robots_content:
  assumes "weblib_ok L" "web_url L s" "public L c s"
  shows "gives (to_public L) (get_robots_content L N c s) (\<lambda>_. True)"
  unfolding get_robots_content_def
proof (rule quiet_first[OF quiet_lift[where R = "\<lambda>r. get_robots_url L s = Inr r"]], goal_cases)
  case (2 r)
  note r = robots_url_public[OF assms 2]
  have fetched: "gives (to_public L) (wm_case (fetch_robots_response L N c r) (\<lambda>err. wm_fail (RobotsUnreachable err))
      (\<lambda>resp. if is_success (rs_status resp) then wm_lift (map_sum id Some (ok_or (rs_text resp) RobotsBodyFailed))
        else if is_client_error (rs_status resp) then wm_ret None else wm_fail (RobotsStatus (rs_status resp)))) (\<lambda>_. True)"
    unfolding fetch_robots_response_def
    by (rule gives_case_response[OF gives_robots_loop[OF r] quiet_fail quiet_rules_of_response])
  show ?case
    by (rule quiet_first[OF quiet_lift[where R = "\<lambda>_. True"]], simp, rule quiet_first[OF quiet_lock], rule quiet_first[OF quiet_look])
      (auto split: option.splits intro!: quiet_gives[OF quiet_ret] gives_bind[OF fetched] quiet_first[OF quiet_lock] quiet_first[OF quiet_store])
qed

lemma gives_allowed:
  assumes "weblib_ok L" "web_url L s" "public L c s"
  shows "gives (to_public L) (is_allowed_by_robots L N c s) (\<lambda>_. True)"
  unfolding is_allowed_by_robots_def
  by (rule gives_bind[OF gives_robots_content[OF assms]], rule gives_bind[OF gives_note])
    (auto split: option.splits intro!: quiet_gives[OF quiet_ret] quiet_first[OF quiet_lift[where R = "\<lambda>_. True"]])

lemma gives_ensure_fetch_allowed: "weblib_ok L \<Longrightarrow> gives (to_public L) (ensure_fetch_allowed L N s) (\<lambda>_. True)"
  unfolding ensure_fetch_allowed_def
  by (rule quiet_first[OF quiet_validate], rule quiet_first[OF quiet_build], rule gives_bind[OF gives_allowed])
    (auto intro!: quiet_gives[OF quiet_ret] quiet_gives[OF quiet_fail])

lemma gives_fetch_document: "weblib_ok L \<Longrightarrow> gives (to_public L) (fetch_document_loop L N b u n) (\<lambda>_. True)"
proof (induction L N b u n rule: fetch_document_loop.induct)
  case (1 L N b u n)
  have [simp]: "\<not> is_redirection 404" by (simp add: is_redirection_def)
  have answer: "gives (to_public L) (wm_bind (send N c (document_request b u)) (\<lambda>resp.
       if is_redirection (rs_status resp) then
         (if n \<ge> MAX_REDIRECTS then wm_fail TooManyRedirects
          else wm_bind (wm_lift (next_hop L u resp)) (\<lambda>next. fetch_document_loop L N b next (n + 1)))
       else if rs_status resp = 404 then wm_fail Status404
       else if \<not> is_success (rs_status resp) then wm_fail (BadStatus (rs_status resp))
       else wm_bind (\<lambda>s. (Inr (nt_now N (ws_world s)), s)) (\<lambda>fetched_at.
         wm_bind (wm_lift (read_body [] 0 (rs_chunks resp))) (\<lambda>body.
         wm_ret \<lparr> fb_body = body, fb_content_type = rs_content_type resp, fb_fetched_at = fetched_at \<rparr>)))) (\<lambda>_. True)"
    if "public L c u" for c
    by (rule gives_bind[OF gives_send])
      (use that in \<open>auto simp: document_request_def intro!: quiet_gives[OF quiet_ret] quiet_gives[OF quiet_fail]
        quiet_first[OF quiet_look] quiet_first[OF quiet_lift[where R = "\<lambda>_. True"]] 1(1)[simplified] 1(2)\<close>)
  show ?case
    by (subst fetch_document_loop.simps, rule quiet_first[OF quiet_validate], rule quiet_first[OF quiet_build],
        rule gives_bind[OF gives_allowed[OF 1(2)]]) (auto intro!: quiet_gives[OF quiet_fail] answer)
qed

section \<open>Documents are requested as the rules of the site allow\<close>

definition is_document :: "http_request \<Rightarrow> bool" where
  "is_document rq \<longleftrightarrow> ''accept'' \<in> fst ` set (rq_headers rq)"

fun permitted :: "weblib \<Rightarrow> web_event option \<Rightarrow> web_event \<Rightarrow> bool" where
  "permitted L before (Rules s content) = True"
| "permitted L before (Sent c rq) \<longleftrightarrow> (is_document rq \<longrightarrow> (\<exists>content.
     before = Some (Rules (rq_url rq) content) \<and>
     (content = None \<or> (\<exists>u. wl_parse L (rq_url rq) = Some u \<and> rules_allow L content u))))"

fun ruled :: "weblib \<Rightarrow> web_event option \<Rightarrow> web_event list \<Rightarrow> bool" where
  "ruled L before [] = True"
| "ruled L before (e # es) \<longleftrightarrow> permitted L before e \<and> ruled L (Some e) es"

definition no_document :: "web_event \<Rightarrow> bool" where
  "no_document e = (case e of Sent c rq \<Rightarrow> \<not> is_document rq | Rules s content \<Rightarrow> True)"

lemma permitted_no_document: "no_document e \<Longrightarrow> permitted L b e"
  by (cases e) (simp_all add: no_document_def)

lemma ruled_no_document: "list_all no_document t \<Longrightarrow> ruled L b (t @ u) \<longleftrightarrow> ruled L (if t = [] then b else Some (last t)) u"
  by (induction t arbitrary: b) (auto simp: permitted_no_document)

lemma robots_request_no_document [simp]: "no_document (Sent c (robots_request u))"
  by (simp add: no_document_def is_document_def robots_request_def)

lemma document_request_simps [simp]: "is_document (document_request b u)" "rq_url (document_request b u) = u"
  by (simp_all add: is_document_def document_request_def)

lemma gives_no_document_send: "gives no_document (send_robots_request L N c initial current) (\<lambda>_. True)"
  unfolding send_robots_request_def
  by (auto intro!: quiet_first[OF quiet_lift[where R = "\<lambda>_. True"]] gives_send quiet_first[OF quiet_validate] quiet_first[OF quiet_build])

lemma gives_no_document_loop: "gives no_document (fetch_robots_loop L N c r u n) (\<lambda>_. True)"
proof (induction L N c r u n rule: fetch_robots_loop.induct)
  case (1 L N c r u n)
  show ?case
    by (subst fetch_robots_loop.simps, rule gives_bind[OF gives_no_document_send])
      (auto intro!: quiet_gives[OF quiet_ret] quiet_gives[OF quiet_fail] quiet_first[OF quiet_lift[where R = "\<lambda>_. True"]]
        1[simplified])
qed

lemma gives_no_document_content: "gives no_document (get_robots_content L N c s) (\<lambda>_. True)"
  unfolding get_robots_content_def fetch_robots_response_def
  by (rule quiet_first[OF quiet_lift[where R = "\<lambda>_. True"]], simp, rule quiet_first[OF quiet_lift[where R = "\<lambda>_. True"]], simp,
      rule quiet_first[OF quiet_lock], rule quiet_first[OF quiet_look])
    (auto split: option.splits intro!: quiet_gives[OF quiet_ret] quiet_first[OF quiet_lock] quiet_first[OF quiet_store]
      gives_bind[OF gives_case_response[OF gives_no_document_loop quiet_fail quiet_rules_of_response]])

definition asked_rules :: "weblib \<Rightarrow> bytes \<Rightarrow> web_error + bool \<Rightarrow> web_event list \<Rightarrow> bool" where
  "asked_rules L s r t \<longleftrightarrow> list_all no_document t \<and> (r = Inr True \<longrightarrow> t \<noteq> [] \<and> (\<exists>content. last t = Rules s content
     \<and> (content = None \<or> (\<exists>u. wl_parse L s = Some u \<and> rules_allow L content u))))"

lemma yields_allowed: "yields (is_allowed_by_robots L N c s) (asked_rules L s)"
  unfolding is_allowed_by_robots_def
proof (rule yields_bind[OF gives_no_document_content[unfolded gives_def]], goal_cases)
  case (1 e t)
  then show ?case by (simp add: asked_rules_def)
next
  case (2 content t)
  show ?case
  proof (rule yields_bind[where A = "\<lambda>r u. u = [Rules s content]"], goal_cases)
    case 1
    show ?case by (simp add: yields_def wm_note_def)
  next
    case (3 x u)
    with \<open>list_all no_document t \<and> _\<close> show ?case
      by (cases content) (auto simp: asked_rules_def no_document_def yields_def wm_ret_def wm_bind_def wm_case_def wm_lift_def
          wm_fail_def ok_or_def split: option.splits)
  qed (use 2 in \<open>simp add: asked_rules_def no_document_def\<close>)
qed

lemma yields_fetch_ruled: "yields (fetch_document_loop L N b u n) (\<lambda>r t. \<forall>before. ruled L before t)"
proof (induction L N b u n rule: fetch_document_loop.induct)
  case (1 L N b u n)
  have [simp]: "\<not> is_redirection 404" by (simp add: is_redirection_def)
  have quiet_rest: "yields m (\<lambda>r t. \<forall>before. ruled L before t)" if "quiet m R" for R and m :: "('a, fetched_body) web"
    using that unfolding quiet_def by (rule yields_weaken) simp
  have answer: "yields (wm_bind (send N c (document_request b u)) (\<lambda>resp.
       if is_redirection (rs_status resp) then
         (if n \<ge> MAX_REDIRECTS then wm_fail TooManyRedirects
          else wm_bind (wm_lift (next_hop L u resp)) (\<lambda>next. fetch_document_loop L N b next (n + 1)))
       else if rs_status resp = 404 then wm_fail Status404
       else if \<not> is_success (rs_status resp) then wm_fail (BadStatus (rs_status resp))
       else wm_bind (\<lambda>s. (Inr (nt_now N (ws_world s)), s)) (\<lambda>fetched_at.
         wm_bind (wm_lift (read_body [] 0 (rs_chunks resp))) (\<lambda>body.
         wm_ret \<lparr> fb_body = body, fb_content_type = rs_content_type resp, fb_fetched_at = fetched_at \<rparr>))))
       (\<lambda>r t. \<exists>more. t = Sent c (document_request b u) # more \<and> (\<forall>before. ruled L before more))" for c
  proof (rule yields_bind[where A = "\<lambda>r t. t = [Sent c (document_request b u)]"], goal_cases)
    case 1
    show ?case by (rule yields_send) simp
  next
    case (3 resp t)
    have next_hop: "yields (wm_bind (wm_lift (next_hop L u resp)) (\<lambda>next. fetch_document_loop L N b next (n + 1)))
        (\<lambda>r t. \<forall>before. ruled L before t)" if "is_redirection (rs_status resp)" "\<not> MAX_REDIRECTS \<le> n"
      by (rule yields_bind[where A = "\<lambda>r t. t = []"]) (use that 1[simplified] in \<open>auto simp: yields_def wm_lift_def\<close>)
    have "yields (if is_redirection (rs_status resp) then
         (if n \<ge> MAX_REDIRECTS then wm_fail TooManyRedirects
          else wm_bind (wm_lift (next_hop L u resp)) (\<lambda>next. fetch_document_loop L N b next (n + 1)))
       else if rs_status resp = 404 then wm_fail Status404
       else if \<not> is_success (rs_status resp) then wm_fail (BadStatus (rs_status resp))
       else wm_bind (\<lambda>s. (Inr (nt_now N (ws_world s)), s)) (\<lambda>fetched_at.
         wm_bind (wm_lift (read_body [] 0 (rs_chunks resp))) (\<lambda>body.
         wm_ret \<lparr> fb_body = body, fb_content_type = rs_content_type resp, fb_fetched_at = fetched_at \<rparr>)))
       (\<lambda>r t. \<forall>before. ruled L before t)"
      using next_hop by (auto intro!: quiet_rest quiet_intros quiet_bind[OF quiet_look] quiet_bind[OF quiet_lift[where R = "\<lambda>_. True"]])
    then show ?case by (rule yields_weaken) (use 3 in auto)
  qed auto
  show ?case
  proof (subst fetch_document_loop.simps, rule quiet_first_yields[OF quiet_validate], rule quiet_first_yields[OF quiet_build],
      rule yields_bind[OF yields_allowed], goal_cases)
    case (2 resolve c allowed t)
    then have t: "list_all no_document t" "allowed \<Longrightarrow> t \<noteq> [] \<and> (\<exists>content. last t = Rules u content
        \<and> (content = None \<or> (\<exists>v. wl_parse L u = Some v \<and> rules_allow L content v)))"
      by (simp_all add: asked_rules_def)
    show ?case
    proof (cases allowed)
      case True
      have "ruled L before (t @ Sent c (document_request b u) # more)" if "\<forall>before. ruled L before more" for before more
        using t True that by (auto simp: ruled_no_document)
      then show ?thesis using True by (auto intro!: yields_weaken[OF answer])
    next
      case False
      then show ?thesis using ruled_no_document[OF t(1), of L _ "[]"] by (auto intro!: yields_fail)
    qed
  qed (use ruled_no_document[where u = "[]"] in \<open>auto simp: asked_rules_def\<close>)
qed

section \<open>Bounds\<close>

lemma costs_send_robots: "costs 1 (send_robots_request L N c initial current)"
  unfolding send_robots_request_def
  by (rule quiet_first_costs[OF quiet_lift[where R = "\<lambda>_. True"]])
    (auto intro!: costs_send[simplified] quiet_first_costs[OF quiet_validate] quiet_first_costs[OF quiet_build])

lemma costs_robots_loop: "costs (Suc (MAX_REDIRECTS - n)) (fetch_robots_loop L N c r u n)"
proof (induction L N c r u n rule: fetch_robots_loop.induct)
  case (1 L N c r u n)
  have "costs (MAX_REDIRECTS - n) (if \<not> is_redirection (rs_status resp) then wm_ret resp
     else if n \<ge> MAX_REDIRECTS then wm_fail TooManyRobotsRedirects
     else wm_bind (wm_lift (next_hop L u resp)) (\<lambda>next. fetch_robots_loop L N c r next (n + 1)))" for resp
    by (auto intro!: quiet_costs[OF quiet_ret] quiet_costs[OF quiet_fail] quiet_first_costs[OF quiet_lift[where R = "\<lambda>_. True"]]
        costs_weaken[OF 1[simplified]])
  from costs_bind[OF costs_send_robots this] show ?case by (subst fetch_robots_loop.simps) simp
qed

lemma costs_case_response:
  assumes "costs n m" "\<And>e. quiet (f e) R" "\<And>x. quiet (g x) R"
  shows "costs n (wm_case m f g)"
  unfolding costs_def
proof (rule yields_case[OF assms(1)[unfolded costs_def]], goal_cases)
  case (1 e t)
  then show ?case using assms(2)[of e] unfolding quiet_def by (auto elim!: yields_weaken)
next
  case (2 x t)
  then show ?case using assms(3)[of x] unfolding quiet_def by (auto elim!: yields_weaken)
qed

lemma costs_robots_content: "costs (MAX_REDIRECTS + 1) (get_robots_content L N c s)"
proof -
  have fetched: "costs (MAX_REDIRECTS + 1) (wm_case (fetch_robots_response L N c r) (\<lambda>err. wm_fail (RobotsUnreachable err))
      (\<lambda>resp. if is_success (rs_status resp) then wm_lift (map_sum id Some (ok_or (rs_text resp) RobotsBodyFailed))
        else if is_client_error (rs_status resp) then wm_ret None else wm_fail (RobotsStatus (rs_status resp))))" for r
    unfolding fetch_robots_response_def
    by (rule costs_case_response[OF _ quiet_fail quiet_rules_of_response]) (use costs_robots_loop[of 0] in simp)
  have stored: "costs 0 (wm_bind (lock_robots N) (\<lambda>_. wm_bind (\<lambda>st. (Inr (), st\<lparr> ws_robots := f (ws_robots st) \<rparr>)) (\<lambda>_. wm_ret x)))"
    for f and x :: "bytes option"
    by (auto intro!: quiet_costs quiet_bind[OF quiet_lock] quiet_bind[OF quiet_store] quiet_ret)
  show ?thesis
    unfolding get_robots_content_def
    by (rule quiet_first_costs[OF quiet_lift[where R = "\<lambda>_. True"]], simp, rule quiet_first_costs[OF quiet_lift[where R = "\<lambda>_. True"]],
        simp, rule quiet_first_costs[OF quiet_lock], rule quiet_first_costs[OF quiet_look])
      (use costs_bind[OF fetched stored] in \<open>auto split: option.splits intro: quiet_costs[OF quiet_ret]\<close>)
qed

lemma costs_allowed: "costs (MAX_REDIRECTS + 1) (is_allowed_by_robots L N c s)"
proof -
  have "costs 0 (wm_bind (wm_note (Rules s content)) (\<lambda>_. case content of
       None \<Rightarrow> wm_ret True
     | Some txt \<Rightarrow> wm_bind (wm_lift (ok_or (wl_parse L s) UrlInvalid)) (\<lambda>parsed. wm_ret (rules_allow L content parsed))))" for content
    unfolding costs_def
    by (rule yields_bind[where A = "\<lambda>r t. t = [Rules s content]"])
      (auto simp: yields_def wm_note_def wm_ret_def wm_bind_def wm_case_def wm_lift_def wm_fail_def sends_def split: option.splits sum.splits)
  from costs_bind[OF costs_robots_content this] show ?thesis by (simp add: is_allowed_by_robots_def)
qed

lemma costs_fetch_document: "costs (Suc (MAX_REDIRECTS - n) * (MAX_REDIRECTS + 2)) (fetch_document_loop L N b u n)"
proof (induction L N b u n rule: fetch_document_loop.induct)
  case (1 L N b u n)
  have [simp]: "\<not> is_redirection 404" by (simp add: is_redirection_def)
  let ?rest = "(MAX_REDIRECTS - n) * (MAX_REDIRECTS + 2)"
  have "costs ?rest (if is_redirection (rs_status resp) then
         (if n \<ge> MAX_REDIRECTS then wm_fail TooManyRedirects
          else wm_bind (wm_lift (next_hop L u resp)) (\<lambda>next. fetch_document_loop L N b next (n + 1)))
       else if rs_status resp = 404 then wm_fail Status404
       else if \<not> is_success (rs_status resp) then wm_fail (BadStatus (rs_status resp))
       else wm_bind (\<lambda>s. (Inr (nt_now N (ws_world s)), s)) (\<lambda>fetched_at.
         wm_bind (wm_lift (read_body [] 0 (rs_chunks resp))) (\<lambda>body.
         wm_ret \<lparr> fb_body = body, fb_content_type = rs_content_type resp, fb_fetched_at = fetched_at \<rparr>)))" for resp
  proof -
    have "costs ?rest (wm_bind (wm_lift (next_hop L u resp)) (\<lambda>next. fetch_document_loop L N b next (n + 1)))"
      if "is_redirection (rs_status resp)" "\<not> MAX_REDIRECTS \<le> n"
    proof (rule quiet_first_costs[OF quiet_lift[where R = "\<lambda>_. True"]])
      fix hop
      from that have "Suc (MAX_REDIRECTS - (n + 1)) = MAX_REDIRECTS - n" by simp
      then show "costs ?rest (fetch_document_loop L N b hop (n + 1))" using 1 that by metis
    qed simp
    then show ?thesis
      by (auto intro!: quiet_costs[OF quiet_ret] quiet_costs[OF quiet_fail] quiet_first_costs[OF quiet_look]
          quiet_first_costs[OF quiet_lift[where R = "\<lambda>_. True"]])
  qed
  note rest = this
  have checked: "costs (1 + ?rest) (if \<not> allowed then wm_fail (RobotsDisallowed u) else
      wm_bind (send N c (document_request b u)) (\<lambda>resp.
       if is_redirection (rs_status resp) then
         (if n \<ge> MAX_REDIRECTS then wm_fail TooManyRedirects
          else wm_bind (wm_lift (next_hop L u resp)) (\<lambda>next. fetch_document_loop L N b next (n + 1)))
       else if rs_status resp = 404 then wm_fail Status404
       else if \<not> is_success (rs_status resp) then wm_fail (BadStatus (rs_status resp))
       else wm_bind (\<lambda>s. (Inr (nt_now N (ws_world s)), s)) (\<lambda>fetched_at.
         wm_bind (wm_lift (read_body [] 0 (rs_chunks resp))) (\<lambda>body.
         wm_ret \<lparr> fb_body = body, fb_content_type = rs_content_type resp, fb_fetched_at = fetched_at \<rparr>))))" for allowed c
    using costs_bind[OF costs_send[of N c "document_request b u"] rest] by (simp add: quiet_costs[OF quiet_fail])
  have "costs ((MAX_REDIRECTS + 1) + (1 + ?rest)) (fetch_document_loop L N b u n)"
    by (subst fetch_document_loop.simps, rule quiet_first_costs[OF quiet_validate], rule quiet_first_costs[OF quiet_build],
        rule costs_bind[OF costs_allowed checked])
  then show ?case by (simp add: add_ac)
qed

section \<open>The cache of rules and the body\<close>

definition cache_ok :: "robots_cache option \<Rightarrow> bool" where
  "cache_ok c \<longleftrightarrow> (\<forall>m. c = Some m \<longrightarrow> distinct (map fst m) \<and> length m \<le> ROBOTS_CACHE_MAX_ENTRIES)"

lemma length_alist_update: "length (AList.update k v m) = (if map_of m k = None then Suc (length m) else length m)"
  by (induction m) auto

lemma cache_ok_insert: "cache_ok c \<Longrightarrow> cache_ok (cache_insert e c)"
  by (auto simp: cache_ok_def cache_insert_def robots_insert_def Let_def length_alist_update distinct_update
      ROBOTS_CACHE_MAX_ENTRIES_def split: option.splits)

lemma cache_ok_inserts: "cache_ok c \<Longrightarrow> cache_ok (fold cache_insert es c)"
  by (induction es arbitrary: c) (simp_all add: cache_ok_insert)

definition keeps :: "('w, 'a) web \<Rightarrow> bool" where
  "keeps m \<longleftrightarrow> (\<forall>s. cache_ok (ws_robots s) \<longrightarrow> cache_ok (ws_robots (snd (m s))))"

named_theorems keeps_intros

lemma keeps_basic [keeps_intros]: "keeps (wm_ret x)" "keeps (wm_fail e)" "keeps (wm_lift r)" "keeps (wm_world f)" "keeps (wm_note ev)"
  "keeps (\<lambda>s. (Inr (h s), s))"
  by (auto simp: keeps_def wm_ret_def wm_fail_def wm_lift_def wm_world_def wm_note_def split: prod.splits)

lemma keeps_case [keeps_intros]:
  fixes m :: "('w, 'a) web"
  assumes "keeps m" "\<And>e. keeps (f e)" "\<And>x. keeps (g x)"
  shows "keeps (wm_case m f g)"
  unfolding keeps_def
proof (intro allI impI)
  fix s :: "'w web_state" assume "cache_ok (ws_robots s)"
  with assms(1) have "cache_ok (ws_robots (snd (m s)))" by (simp add: keeps_def)
  with assms(2,3) show "cache_ok (ws_robots (snd (wm_case m f g s)))"
    by (cases "m s"; cases "fst (m s)") (auto simp: wm_case_def keeps_def)
qed

lemma keeps_bind [keeps_intros]: "keeps m \<Longrightarrow> (\<And>x. keeps (g x)) \<Longrightarrow> keeps (wm_bind m g)"
  unfolding wm_bind_def by (intro keeps_intros)

lemma keeps_branches [keeps_intros]:
  "keeps a \<Longrightarrow> keeps b \<Longrightarrow> keeps (if p then a else b)"
  "keeps a \<Longrightarrow> (\<And>x. keeps (f x)) \<Longrightarrow> keeps (case opt of None \<Rightarrow> a | Some x \<Rightarrow> f x)"
  "(\<And>d. keeps (g1 d)) \<Longrightarrow> (\<And>i. keeps (g2 i)) \<Longrightarrow> (\<And>i. keeps (g3 i)) \<Longrightarrow> keeps (case hst of Domain d \<Rightarrow> g1 d | HostV4 i \<Rightarrow> g2 i | HostV6 i \<Rightarrow> g3 i)"
  by (simp_all split: option.splits host.splits)

lemma keeps_send [keeps_intros]: "keeps (send N c rq)"
  unfolding send_def by (intro keeps_intros)

lemma keeps_validate [keeps_intros]: "keeps (validate_url_ssrf_and_resolve L N s)"
  unfolding validate_url_ssrf_and_resolve_def by (intro keeps_intros)

lemma keeps_build [keeps_intros]: "keeps (build_http_client_with_resolve N r)"
  unfolding build_http_client_with_resolve_def by (intro keeps_intros)

lemma keeps_lock [keeps_intros]: "keeps (lock_robots N)"
proof -
  have "keeps (\<lambda>s :: 'a web_state. (Inr (), s\<lparr> ws_robots := fold cache_insert es (ws_robots s) \<rparr>))" for es
    by (simp add: keeps_def cache_ok_inserts)
  then show ?thesis unfolding lock_robots_def by (intro keeps_intros)
qed

lemma keeps_store [keeps_intros]: "keeps (\<lambda>s. (Inr (), s\<lparr> ws_robots := cache_insert e (ws_robots s) \<rparr>))"
  by (simp add: keeps_def cache_ok_insert)

lemma keeps_send_robots [keeps_intros]: "keeps (send_robots_request L N c initial current)"
  unfolding send_robots_request_def by (intro keeps_intros)

lemma keeps_robots_loop [keeps_intros]: "keeps (fetch_robots_loop L N c r u n)"
proof (induction L N c r u n rule: fetch_robots_loop.induct)
  case (1 L N c r u n)
  have hop: "keeps (wm_bind (wm_lift (next_hop L u resp)) (\<lambda>hop. fetch_robots_loop L N c r hop (n + 1)))"
    if "is_redirection (rs_status resp)" "\<not> MAX_REDIRECTS \<le> n" for resp
    by (rule keeps_bind[OF keeps_basic(3)]) (use 1 that in blast)
  show ?case
    by (subst fetch_robots_loop.simps, rule keeps_bind[OF keeps_send_robots]) (use hop in \<open>auto intro: keeps_intros\<close>)
qed

lemma keeps_allowed [keeps_intros]: "keeps (is_allowed_by_robots L N c s)"
  unfolding is_allowed_by_robots_def get_robots_content_def fetch_robots_response_def by (intro keeps_intros)

lemma keeps_fetch_document: "keeps (fetch_document_loop L N b u n)"
proof (induction L N b u n rule: fetch_document_loop.induct)
  case (1 L N b u n)
  have hop: "keeps (wm_bind (wm_lift (next_hop L u resp)) (\<lambda>hop. fetch_document_loop L N b hop (n + 1)))"
    if "is_redirection (rs_status resp)" "\<not> MAX_REDIRECTS \<le> n" for resp
    by (rule keeps_bind[OF keeps_basic(3)]) (use 1 that in blast)
  have rest: "keeps (if is_redirection (rs_status resp) then
         (if n \<ge> MAX_REDIRECTS then wm_fail TooManyRedirects
          else wm_bind (wm_lift (next_hop L u resp)) (\<lambda>next. fetch_document_loop L N b next (n + 1)))
       else x)" if "keeps x" for resp x
    using hop that by (auto intro: keeps_intros)
  show ?case
    by (subst fetch_document_loop.simps, rule keeps_bind[OF keeps_validate], rule keeps_bind[OF keeps_build],
        rule keeps_bind[OF keeps_allowed], rule keeps_branches(1)[OF keeps_basic(2)], rule keeps_bind[OF keeps_send], rule rest)
      (intro keeps_intros)
qed

lemma read_body_bounded: "read_body bs n cs = Inr r \<Longrightarrow> n = length bs \<Longrightarrow> n \<le> MAX_RESPONSE_BYTES
    \<Longrightarrow> length r \<le> MAX_RESPONSE_BYTES \<and> r = bs @ concat (map the cs) \<and> None \<notin> set cs"
  by (induction bs n cs rule: read_body.induct) (auto split: if_splits)

lemma gives_body: "gives (\<lambda>_. True) (fetch_document_loop L N b u n) (\<lambda>d. length (fb_body d) \<le> MAX_RESPONSE_BYTES)"
proof (induction L N b u n rule: fetch_document_loop.induct)
  case (1 L N b u n)
  have [simp]: "\<not> is_redirection 404" by (simp add: is_redirection_def)
  have any: "gives (\<lambda>_. True) m (\<lambda>_. True)" if "yields m Q" for m :: "('a, 'b) web" and Q
    using that unfolding gives_def by (rule yields_weaken) (simp add: list_all_iff)
  have hop: "gives (\<lambda>_. True) (wm_bind (wm_lift (next_hop L u resp)) (\<lambda>hop. fetch_document_loop L N b hop (n + 1)))
      (\<lambda>d. length (fb_body d) \<le> MAX_RESPONSE_BYTES)" if "is_redirection (rs_status resp)" "\<not> MAX_REDIRECTS \<le> n" for resp
    by (rule quiet_first[OF quiet_lift[where R = "\<lambda>_. True"]]) (use 1 that in blast)+
  have body: "gives (\<lambda>_. True) (wm_bind (\<lambda>s. (Inr (nt_now N (ws_world s)), s)) (\<lambda>fetched_at.
         wm_bind (wm_lift (read_body [] 0 (rs_chunks resp))) (\<lambda>body.
         wm_ret \<lparr> fb_body = body, fb_content_type = rs_content_type resp, fb_fetched_at = fetched_at \<rparr>)))
      (\<lambda>d. length (fb_body d) \<le> MAX_RESPONSE_BYTES)" for resp
    by (rule quiet_first[OF quiet_look], rule quiet_first[OF quiet_lift[where R = "\<lambda>d. length d \<le> MAX_RESPONSE_BYTES"]])
      (auto dest: read_body_bounded intro!: quiet_gives[OF quiet_ret])
  show ?case
    by (subst fetch_document_loop.simps, rule quiet_first[OF quiet_validate], rule quiet_first[OF quiet_build],
        rule gives_bind[OF any[OF yields_allowed]])
      (auto intro!: quiet_gives[OF quiet_fail] gives_bind[OF gives_send] hop[simplified] body)
qed

end
