(* ===== verification/WebClaims.thy ===== *)
theory WebClaims
  imports WebProps
begin

text \<open>
  What fetching guarantees: no request leaves for an address that is refused, a document is requested only
  as the rules of its site allow, and how much a fetch sends, returns and leaves in the cache of rules.
\<close>

section \<open>A small web for the witnesses\<close>

definition site :: "bytes \<Rightarrow> url" where
  "site path = \<lparr> u_scheme = ''http'', u_host = Some (Domain ''a''), u_port = None, u_path = path, u_query = None \<rparr>"

definition inner_site :: url where
  "inner_site = \<lparr> u_scheme = ''http'', u_host = Some (HostV4 (Ipv4 10 0 0 1)), u_port = None, u_path = ''/'', u_query = None \<rparr>"

definition demo_parse :: "bytes \<Rightarrow> url option" where
  "demo_parse = map_of [(''http://a/'', site ''/''), (''http://a/robots.txt'', site ''/robots.txt''),
     (''http://10.0.0.1/'', inner_site), (''http://10.0.0.1/robots.txt'', inner_site)]"

definition demo_lib :: weblib where
  "demo_lib = \<lparr> wl_parse = demo_parse, wl_join = (\<lambda>base location. demo_parse location),
     wl_to_string = (\<lambda>u. if u = inner_site then ''http://10.0.0.1/'' else ''http://a/''),
     wl_known_default = (\<lambda>s. Some 80), wl_agent_allowed = (\<lambda>txt agent path. txt = []) \<rparr>"

definition demo_answer :: "nat \<Rightarrow> bytes option \<Rightarrow> bytes option list \<Rightarrow> http_response" where
  "demo_answer st location body = \<lparr> rs_status = st, rs_location = location, rs_content_type = None, rs_text = Some [],
     rs_chunks = body \<rparr>"

definition demo_net :: "http_response \<Rightarrow> nat net" where
  \<comment> \<open>the site has no rules and answers a document with \<open>resp\<close>\<close>
  "demo_net resp = \<lparr> nt_lookup = (\<lambda>h p w. (Some [(V4 (Ipv4 93 184 216 34), p)], w)), nt_build = (\<lambda>w. (True, w)),
     nt_send = (\<lambda>c rq w. (Some (if rq_url rq = ''http://a/'' then resp else demo_answer 404 None []), w)),
     nt_others = (\<lambda>w. ([], w)), nt_now = (\<lambda>w. w) \<rparr>"

definition demo_web_state :: "nat web_state" where
  "demo_web_state = \<lparr> ws_world = 7, ws_robots = None, ws_trace = [] \<rparr>"

definition demo_fetch :: fetch_request where
  "demo_fetch = \<lparr> fr_url = ''http://a/'', fr_max_chunk_tokens = None, fr_no_cache = False, fr_force_browser = False \<rparr>"

definition demo_client :: client where
  "demo_client = \<lparr> cl_resolve = Some (''a'', V4 (Ipv4 93 184 216 34), 80) \<rparr>"


lemmas demo_defs = demo_fetch_def demo_web_state_def demo_net_def demo_lib_def demo_parse_def site_def inner_site_def demo_answer_def
  demo_client_def

lemmas run_defs = wm_bind_def wm_case_def wm_ret_def wm_fail_def wm_lift_def wm_world_def wm_note_def send_def
  validate_url_ssrf_and_resolve_def build_http_client_with_resolve_def is_allowed_by_robots_def get_robots_content_def
  get_robots_url_def robots_domain_def fetch_robots_response_def send_robots_request_def lock_robots_def same_origin_def
  cached_rules_def port_or_known_default_def next_hop_def

lemma demo_public: "\<not> is_private_ip (V4 (Ipv4 93 184 216 34))" "is_private_ip (V4 (Ipv4 10 0 0 1))"
  by (simp_all add: is_private_v4_def v4_loopback_def v4_link_local_def v4_broadcast_def v4_unspecified_def v4_multicast_def)

definition demo_events :: "web_event list" where
  "demo_events = [Sent demo_client (robots_request ''http://a/robots.txt''), Rules ''http://a/'' None,
     Sent demo_client (document_request False ''http://a/'')]"

lemmas demo_steps = run_defs demo_defs demo_public fetch_robots_loop.simps eq_ignore_ascii_case_def port_text_def robots_request_def
  document_request_def is_redirection_def is_success_def is_client_error_def cache_insert_def robots_insert_def
  ROBOTS_CACHE_MAX_ENTRIES_def MAX_RESPONSE_BYTES_def MAX_REDIRECTS_def demo_events_def to_lower_def ascii_upper_def

lemma demo_fetched:
  "fetch_document demo_lib (demo_net (demo_answer 200 None [Some ''hi'', Some ''!''])) demo_fetch demo_web_state =
     (Inr \<lparr> fb_body = ''hi!'', fb_content_type = None, fb_fetched_at = 7 \<rparr>,
      demo_web_state\<lparr> ws_robots := Some [(''http://a:'' @ nat_dec 80, None)], ws_trace := demo_events \<rparr>)"
  unfolding fetch_document_def
  by (subst fetch_document_loop.simps) (simp add: demo_steps del: is_private_ip.simps)


section \<open>Claims\<close>





text \<open>C25. A fetch ends after at most forty-two requests (six hops with a document and six requests for
  rules each), returns at most \<open>MAX_RESPONSE_BYTES\<close> bytes, and leaves the cache of rules within its
  \<open>ROBOTS_CACHE_MAX_ENTRIES\<close> entries, also when other fetches insert entries meanwhile.\<close>

theorem fetch_bounded:
  assumes "cache_ok (ws_robots s)"
  shows "(\<exists>t. ws_trace (snd (fetch_document L N req s)) = ws_trace s @ t \<and> sends t \<le> 42)
    \<and> (\<forall>b. fst (fetch_document L N req s) = Inr b \<longrightarrow> length (fb_body b) \<le> MAX_RESPONSE_BYTES)
    \<and> cache_ok (ws_robots (snd (fetch_document L N req s)))"
proof (intro conjI)
  have "Suc (MAX_REDIRECTS - 0) * (MAX_REDIRECTS + 2) = 42" by (simp add: MAX_REDIRECTS_def)
  with yieldsD[OF costs_fetch_document[of 0 L N "fr_no_cache req" "fr_url req", unfolded costs_def], of s]
  show "\<exists>t. ws_trace (snd (fetch_document L N req s)) = ws_trace s @ t \<and> sends t \<le> 42"
    unfolding fetch_document_def by metis
  show "\<forall>b. fst (fetch_document L N req s) = Inr b \<longrightarrow> length (fb_body b) \<le> MAX_RESPONSE_BYTES"
    using yieldsD[OF gives_body[unfolded gives_def], of L N "fr_no_cache req" "fr_url req" 0 s]
    unfolding fetch_document_def by blast
  show "cache_ok (ws_robots (snd (fetch_document L N req s)))"
    using keeps_fetch_document assms unfolding fetch_document_def keeps_def by blast
qed

theorem fetch_bounded_witness:
  "length (fb_body \<lparr> fb_body = ''hi!'', fb_content_type = None, fb_fetched_at = 7 \<rparr>) \<le> MAX_RESPONSE_BYTES
    \<and> cache_ok (Some [(''http://a:'' @ nat_dec 80, None)])"
proof -
  have "cache_ok (ws_robots demo_web_state)" by (simp add: cache_ok_def demo_web_state_def)
  from fetch_bounded[OF this, of demo_lib "demo_net (demo_answer 200 None [Some ''hi'', Some ''!''])" demo_fetch]
  show ?thesis by (simp add: demo_fetched)
qed

end
