(* ===== verification/MarkdownChunks.thy ===== *)
theory MarkdownChunks
  imports MemSearch
begin

text \<open>
  Cutting a Markdown document into chunks of a budget of tokens
  (\<^verbatim>\<open>tools-mcp-webfetch/src/webfetch/chunker.rs\<close>): sections at headings outside of fenced code, and windows of
  tokens within a section.  The tokenizer is a parameter: the tokens of a text and the bytes of a token.
  The second half shows which chunks come out, that they keep the budget and the visible text, and
  when a character that is made of several tokens is lost or makes the whole cutting fail.
\<close>

section \<open>Headings and fences\<close>

record encoder =
  en_encode :: "bytes \<Rightarrow> nat list"
  en_token_bytes :: "nat \<Rightarrow> bytes"

datatype chunk_error = NoTokenizer | ZeroBudget | EmptySlice | Utf8Prefix

type_synonym chunk = "bytes option \<times> bytes \<times> nat"

definition DEFAULT_MAX_TOKENS :: nat where "DEFAULT_MAX_TOKENS = 600"

definition BACKTICK :: byte where "BACKTICK = CHR 0x60"
definition TILDE :: byte where "TILDE = CHR 0x7E"
definition HASH :: byte where "HASH = CHR 0x23"

definition run_length :: "byte \<Rightarrow> bytes \<Rightarrow> nat" where
  \<comment> \<open>\<open>take_while(|b| b == marker).count()\<close>\<close>
  "run_length b s = length (takeWhile (\<lambda>c. c = b) s)"

definition markdown_control_line :: "bytes \<Rightarrow> bytes option" where
  "markdown_control_line line =
     (let spaces = run_length SP line in
      if spaces > 3 then None
      else if spaces < length line \<and> line ! spaces = TAB then None
      else Some (drop spaces line))"

definition parse_fence_marker :: "bytes \<Rightarrow> (byte \<times> nat) option" where
  "parse_fence_marker trimmed =
     (case trimmed of
        [] \<Rightarrow> None
      | marker # _ \<Rightarrow>
          if marker \<noteq> BACKTICK \<and> marker \<noteq> TILDE then None
          else if run_length marker trimmed \<ge> 3 then Some (marker, run_length marker trimmed) else None)"

definition is_closing_fence_line :: "bytes \<Rightarrow> bool" where
  "is_closing_fence_line trimmed =
     (case trimmed of [] \<Rightarrow> False | marker # _ \<Rightarrow> trim (drop (run_length marker trimmed) trimmed) = [])"

definition ends_in_whitespace :: "bytes \<Rightarrow> bool" where
  "ends_in_whitespace s \<longleftrightarrow> chars_of s \<noteq> [] \<and> is_ws_char (last (chars_of s))"

definition parse_markdown_heading :: "bytes \<Rightarrow> bytes option" where
  "parse_markdown_heading trimmed =
     (let hashes = run_length HASH trimmed in
      if hashes = 0 \<or> hashes > 6 then None
      else if hashes < length trimmed \<and> \<not> ascii_ws (trimmed ! hashes) then None
      else
        let text = trim (drop hashes trimmed); without_trailing = trim_end text in
        if without_trailing \<noteq> [] \<and> last without_trailing = HASH then
          let before_hashes = rev (dropWhile (\<lambda>c. c = HASH) (rev without_trailing)) in
          if ends_in_whitespace before_hashes then Some (trim_end before_hashes) else Some text
        else Some text)"

definition fence_after :: "(byte \<times> nat) option \<Rightarrow> bytes option \<Rightarrow> (byte \<times> nat) option" where
  "fence_after code_fence control_line =
     (case control_line of
        None \<Rightarrow> code_fence
      | Some trimmed \<Rightarrow>
          (case parse_fence_marker trimmed of
             None \<Rightarrow> code_fence
           | Some (marker, len) \<Rightarrow>
               (case code_fence of
                  None \<Rightarrow> Some (marker, len)
                | Some (open_marker, open_len) \<Rightarrow>
                    if marker = open_marker \<and> len \<ge> open_len \<and> is_closing_fence_line trimmed then None else code_fence)))"

section \<open>Windows of tokens\<close>

fun valid_up_to :: "bytes \<Rightarrow> nat \<Rightarrow> nat" where
  \<comment> \<open>\<open>Utf8Error::valid_up_to\<close>, with as many steps as bytes\<close>
  "valid_up_to s 0 = 0"
| "valid_up_to s (Suc n) = (case scalar_width s of None \<Rightarrow> 0 | Some w \<Rightarrow> w + valid_up_to (drop w s) n)"

definition slice_search :: "nat list \<Rightarrow> nat \<Rightarrow> nat + nat" where
  \<comment> \<open>\<open>slice::binary_search\<close>: where it is, or on the left where it would be inserted\<close>
  "slice_search ks x =
     (if ks = [] then Inl 0
      else let i = bsearch_base (\<lambda>i. ks ! i > x) 0 (length ks) in
           if ks ! i = x then Inr i else Inl (if ks ! i < x then i + 1 else i))"

record decoded_tokens =
  dt_bytes :: bytes
  dt_byte_ends :: "nat list"

definition from_tokens :: "encoder \<Rightarrow> nat list \<Rightarrow> decoded_tokens" where
  "from_tokens E tokens =
     fold (\<lambda>t d. let bs = dt_bytes d @ en_token_bytes E t in \<lparr> dt_bytes = bs, dt_byte_ends = dt_byte_ends d @ [length bs] \<rparr>)
       tokens \<lparr> dt_bytes = [], dt_byte_ends = [] \<rparr>"

definition byte_start :: "decoded_tokens \<Rightarrow> nat \<Rightarrow> nat" where
  "byte_start d i = (if i = 0 then 0 else dt_byte_ends d ! (i - 1))"

definition byte_end :: "decoded_tokens \<Rightarrow> nat \<Rightarrow> nat" where
  "byte_end d i = dt_byte_ends d ! (i - 1)"

definition byte_slice :: "nat \<Rightarrow> nat \<Rightarrow> bytes \<Rightarrow> bytes" where
  "byte_slice a b s = take (b - a) (drop a s)"

definition decode_utf8_safe_prefix :: "decoded_tokens \<Rightarrow> nat \<Rightarrow> nat \<Rightarrow> chunk_error + bytes \<times> nat" where
  "decode_utf8_safe_prefix d start end' =
     (if \<not> start < end' then Inl EmptySlice
      else
        let first = byte_start d start; bs = byte_slice first (byte_end d end') (dt_bytes d) in
        if utf8_valid bs then Inr (bs, end' - start)
        else
          let valid = first + valid_up_to bs (length bs);
              token_byte_ends = take (end' - start) (drop start (dt_byte_ends d));
              keep_tokens = (case slice_search token_byte_ends valid of Inr i \<Rightarrow> i + 1 | Inl i \<Rightarrow> i)
          in if keep_tokens = 0 then Inr (from_utf8_lossy (byte_slice first (dt_byte_ends d ! start) (dt_bytes d)), 1)
             else
               let s = byte_slice first (token_byte_ends ! (keep_tokens - 1)) (dt_bytes d) in
               if utf8_valid s then Inr (s, keep_tokens) else Inl Utf8Prefix)"

lemma decode_progress: "decode_utf8_safe_prefix d a b = Inr (s, n) \<Longrightarrow> 0 < n"
  by (auto simp: decode_utf8_safe_prefix_def Let_def split: if_splits)

function push_token_loop :: "decoded_tokens \<Rightarrow> nat \<Rightarrow> bytes option \<Rightarrow> nat \<Rightarrow> chunk list \<Rightarrow> chunk_error + chunk list" where
  "push_token_loop d max_tokens heading start chunks =
     (if start < length (dt_byte_ends d) then
        (case decode_utf8_safe_prefix d start (min (start + max_tokens) (length (dt_byte_ends d))) of
           Inl e \<Rightarrow> Inl e
         | Inr (decoded, used_tokens) \<Rightarrow>
             if trim decoded = [] then push_token_loop d max_tokens heading (start + used_tokens) chunks
             else push_token_loop d max_tokens heading (start + used_tokens) (chunks @ [(heading, decoded, used_tokens)]))
      else Inr chunks)"
  by pat_completeness auto

termination
  by (relation "measure (\<lambda>(d, m, h, start, c). length (dt_byte_ends d) - start)") (auto dest: decode_progress)

declare push_token_loop.simps [simp del]

definition push_token_chunks :: "encoder \<Rightarrow> nat \<Rightarrow> bytes option \<Rightarrow> nat list \<Rightarrow> chunk list \<Rightarrow> chunk_error + chunk list" where
  "push_token_chunks E max_tokens heading tokens chunks = push_token_loop (from_tokens E tokens) max_tokens heading 0 chunks"

definition section_obviously_fits_token_budget :: "bytes \<Rightarrow> nat \<Rightarrow> bool" where
  [simp]: "section_obviously_fits_token_budget text max_tokens \<longleftrightarrow> length text \<le> max_tokens"

definition push_section_chunks :: "encoder \<Rightarrow> nat \<Rightarrow> bytes option \<Rightarrow> bytes \<Rightarrow> chunk list \<Rightarrow> chunk_error + chunk list" where
  "push_section_chunks E max_tokens heading text chunks =
     (let trimmed = trim text in
      if trimmed = [] then Inr chunks
      else if section_obviously_fits_token_budget trimmed max_tokens then Inr (chunks @ [(heading, trimmed, length (en_encode E trimmed))])
      else
        let tokens = en_encode E trimmed in
        if length tokens \<le> max_tokens then Inr (chunks @ [(heading, trimmed, length tokens)])
        else push_token_chunks E max_tokens heading tokens chunks)"

section \<open>The document\<close>

fun chunk_lines ::
  "encoder \<Rightarrow> nat \<Rightarrow> bytes option \<Rightarrow> bytes \<Rightarrow> (byte \<times> nat) option \<Rightarrow> chunk list \<Rightarrow> bytes list \<Rightarrow> chunk_error + chunk list" where
  "chunk_lines E max_tokens heading text fence chunks [] = push_section_chunks E max_tokens heading text chunks"
| "chunk_lines E max_tokens heading text fence chunks (line # lines) =
     (let control_line = map_option trim_end (markdown_control_line line);
          fence1 = fence_after fence control_line
      in case (if fence1 = None then Option.bind control_line parse_markdown_heading else None) of
           Some title \<Rightarrow>
             bindE (push_section_chunks E max_tokens heading text chunks) (\<lambda>chunks1.
               chunk_lines E max_tokens (Some title) (line @ [LF]) fence1 chunks1 lines)
         | None \<Rightarrow> chunk_lines E max_tokens heading (text @ line @ [LF]) fence1 chunks lines)"

definition chunk_markdown :: "encoder option \<Rightarrow> bytes \<Rightarrow> nat option \<Rightarrow> chunk_error + chunk list" where
  "chunk_markdown encoder markdown max_tokens =
     bindE (ok_or encoder NoTokenizer) (\<lambda>E.
     let budget = (case max_tokens of None \<Rightarrow> DEFAULT_MAX_TOKENS | Some n \<Rightarrow> n) in
     bindE (requireE (budget > 0) ZeroBudget) (\<lambda>_.
     chunk_lines E budget None [] None [] (str_lines markdown)))"

definition estimate_tokens :: "encoder option \<Rightarrow> bytes \<Rightarrow> chunk_error + nat" where
  "estimate_tokens encoder text = bindE (ok_or encoder NoTokenizer) (\<lambda>E. Inr (length (en_encode E text)))"

section \<open>Visible text\<close>

definition visible :: "bytes \<Rightarrow> bytes list" where
  "visible s = filter (\<lambda>c. \<not> is_ws_char c) (chars_of s)"

lemma visible_append: "utf8_valid a \<Longrightarrow> utf8_valid b \<Longrightarrow> visible (a @ b) = visible a @ visible b"
  by (simp add: visible_def chars_of_append)

lemma visible_Nil [simp]: "visible [] = []"
  by (simp add: visible_def)

lemma newline_white [simp]: "is_ws_char [LF]" "is_ws_char [CR]" "bval LF < 128" "bval CR < 128"
  by (simp_all add: is_ws_char_def bval_def)

lemma visible_newline [simp]: "visible [LF] = []" "visible [CR] = []"
  by (simp_all add: visible_def chars_of_ascii)

lemma valid_concat: "\<forall>c \<in> set cs. utf8_valid c \<Longrightarrow> utf8_valid (concat cs)"
  by (induction cs) (simp_all add: utf8_valid_append)

lemma visible_concat: "\<forall>c \<in> set cs. utf8_valid c \<Longrightarrow> visible (concat cs) = concat (map visible cs)"
  by (induction cs) (simp_all add: visible_append valid_concat)

lemma single_char: "utf8_valid s \<Longrightarrow> c \<in> set (chars_of s) \<Longrightarrow> utf8_valid c \<and> chars_of c = [c]"
proof (induction s rule: utf8_induct)
  case (Step s w)
  note sw = scalar_widthD[OF Step(1)]
  have w: "scalar_width (take w s) = Some w" by (rule scalar_width_take[OF Step(1)])
  then have "utf8_valid (take w s)" using sw by (simp add: utf8_valid_step)
  moreover have "chars_of (take w s) = [take w s]" using chars_of_step[OF w] sw by simp
  ultimately show ?case using Step chars_of_step[OF Step(1,2)] by auto
qed simp

lemma chars_of_concat:
  assumes "utf8_valid s" "set cs \<subseteq> set (chars_of s)"
  shows "utf8_valid (concat cs) \<and> chars_of (concat cs) = cs"
  using assms(2) by (induction cs) (use single_char[OF assms(1)] in \<open>auto simp: utf8_valid_append chars_of_append\<close>)

lemma dropWhile_visible: "filter (\<lambda>c. \<not> P c) (dropWhile P cs) = filter (\<lambda>c. \<not> P c) cs"
  by (induction cs) auto

lemma trim_valid:
  assumes "utf8_valid s"
  shows "utf8_valid (trim s) \<and> visible (trim s) = visible s"
proof -
  let ?cs = "rev (dropWhile is_ws_char (rev (dropWhile is_ws_char (chars_of s))))"
  have "set ?cs \<subseteq> set (chars_of s)" by (auto dest!: set_dropWhileD)
  from chars_of_concat[OF assms this] show ?thesis
    by (simp add: trim_def visible_def rev_filter[symmetric] dropWhile_visible)
qed

lemma trim_empty_iff:
  assumes "utf8_valid s"
  shows "trim s = [] \<longleftrightarrow> visible s = []"
proof
  show "visible s = []" if "trim s = []" using trim_valid[OF assms] that by simp
  assume "visible s = []"
  then have "dropWhile is_ws_char (chars_of s) = []" by (simp add: visible_def filter_empty_conv dropWhile_eq_Nil_conv)
  then show "trim s = []" unfolding trim_def by (simp only: rev.simps dropWhile.simps concat.simps)
qed

lemma split_valid:
  assumes "utf8_valid s"
  shows "(\<forall>p \<in> set (split_byte LF s). utf8_valid p) \<and> visible s = concat (map visible (split_byte LF s))"
  using assms
proof (induction "length s" arbitrary: s rule: less_induct)
  case less
  show ?case
  proof (cases "LF \<in> set s")
    case True
    then obtain a b where s: "s = a @ LF # b" "LF \<notin> set a" using split_list_first by fast
    have parts: "utf8_valid a" "utf8_valid b" using utf8_valid_ascii_split[of a LF b] less.prems s(1) by simp_all
    have "visible s = visible a @ visible b"
      using parts visible_append[of a "[LF] @ b"] visible_append[of "[LF]" b] by (simp add: s(1) utf8_valid_ascii_Cons utf8_valid_ascii)
    with less.hyps[of b] parts show ?thesis by (simp add: s split_byte_append)
  next
    case False
    with less.prems show ?thesis by (simp add: split_byte_id)
  qed
qed

lemma str_lines_valid:
  assumes "utf8_valid s"
  shows "(\<forall>l \<in> set (str_lines s). utf8_valid l) \<and> concat (map visible (str_lines s)) = visible s"
proof -
  define strip where "strip = (\<lambda>l :: bytes. if l \<noteq> [] \<and> last l = CR then butlast l else l)"
  define ps where "ps = split_byte LF s"
  have parts: "\<forall>p \<in> set ps. utf8_valid p" "visible s = concat (map visible ps)"
    using split_valid[OF assms] by (simp_all add: ps_def)
  have strip: "utf8_valid (strip l) \<and> visible (strip l) = visible l" if "utf8_valid l" for l
  proof (cases "l \<noteq> [] \<and> last l = CR")
    case True
    then have l: "l = butlast l @ [CR]" by (metis append_butlast_last_id)
    with utf8_valid_ascii_split[of "butlast l" CR "[]"] that have "utf8_valid (butlast l)" by simp
    with l visible_append[of "butlast l" "[CR]"] True show ?thesis by (simp add: strip_def utf8_valid_ascii)
  next
    case False
    then have "strip l = l" by (auto simp: strip_def)
    with that show ?thesis by simp
  qed
  have ps: "ps = butlast ps @ [last ps]" by (simp add: ps_def)
  have valid: "\<forall>p \<in> set (butlast ps). utf8_valid p" "utf8_valid (last ps)"
    using parts(1) by (auto simp: ps_def dest: in_set_butlastD)
  have same: "map visible (map strip (butlast ps)) = map visible (butlast ps)"
    unfolding map_map comp_def by (rule map_cong[OF refl]) (use valid(1) strip in blast)
  have lines: "str_lines s = map strip (butlast ps) @ (if last ps = [] then [] else [last ps])"
    by (simp only: str_lines_def Let_def strip_def ps_def)
  have "visible s = concat (map visible (butlast ps)) @ visible (last ps)"
    by (subst parts(2), subst ps) simp
  moreover have "concat (map visible (str_lines s)) = concat (map visible (butlast ps)) @ visible (last ps)"
    unfolding lines map_append same by (cases "last ps = []") simp_all
  moreover have "\<forall>l \<in> set (str_lines s). utf8_valid l" using valid strip by (auto simp: lines)
  ultimately show ?thesis by simp
qed

section \<open>The tokens of a section\<close>

text \<open>Documented of the tokenizer: no token is empty, and the tokens of a text spell the text.\<close>

definition encoder_ok :: "encoder \<Rightarrow> bool" where
  "encoder_ok E \<longleftrightarrow>
     (\<forall>s. utf8_valid s \<longrightarrow> (\<forall>t \<in> set (en_encode E s). en_token_bytes E t \<noteq> []) \<and> concat (map (en_token_bytes E) (en_encode E s)) = s)"

lemma length_tokens:
  assumes "encoder_ok E" "utf8_valid s"
  shows "length (en_encode E s) \<le> length s"
proof -
  have "length ts \<le> length (concat (map (en_token_bytes E) ts))" if "\<forall>t \<in> set ts. en_token_bytes E t \<noteq> []" for ts
    using that
  proof (induction ts)
    case (Cons t ts)
    then have "0 < length (en_token_bytes E t)" "length ts \<le> length (concat (map (en_token_bytes E) ts))" by simp_all
    then have "Suc (length ts) \<le> length (en_token_bytes E t) + length (concat (map (en_token_bytes E) ts))" by linarith
    then show ?case by (simp only: list.map concat.simps list.size length_append add_0_right add_Suc_right)
  qed simp
  from this[of "en_encode E s"] assms show ?thesis by (simp add: encoder_ok_def)
qed

definition spelled :: "encoder \<Rightarrow> nat list \<Rightarrow> bytes" where
  "spelled E ts = concat (map (en_token_bytes E) ts)"

lemma from_tokens_eq:
  "from_tokens E ts = \<lparr> dt_bytes = spelled E ts, dt_byte_ends = map (\<lambda>i. length (spelled E (take (Suc i) ts))) [0..<length ts] \<rparr>"
proof -
  have "fold (\<lambda>t d. let bs = dt_bytes d @ en_token_bytes E t in \<lparr> dt_bytes = bs, dt_byte_ends = dt_byte_ends d @ [length bs] \<rparr>) ts
      \<lparr> dt_bytes = bs, dt_byte_ends = es \<rparr>
    = \<lparr> dt_bytes = bs @ spelled E ts, dt_byte_ends = es @ map (\<lambda>i. length bs + length (spelled E (take (Suc i) ts))) [0..<length ts] \<rparr>" for bs es
  proof (induction ts arbitrary: bs es)
    case (Cons t ts)
    then show ?case
      by (simp add: spelled_def Let_def upt_conv_Cons map_Suc_upt[symmetric] del: upt_Suc)
  qed (simp add: spelled_def)
  from this[of "[]" "[]"] show ?thesis by (simp add: from_tokens_def)
qed

lemma from_tokens_simps [simp]:
  "dt_bytes (from_tokens E ts) = spelled E ts" "length (dt_byte_ends (from_tokens E ts)) = length ts"
  "i < length ts \<Longrightarrow> dt_byte_ends (from_tokens E ts) ! i = length (spelled E (take (Suc i) ts))"
  by (simp_all add: from_tokens_eq)

lemma byte_bounds:
  "i \<le> length ts \<Longrightarrow> byte_start (from_tokens E ts) i = length (spelled E (take i ts))"
  "0 < i \<Longrightarrow> i \<le> length ts \<Longrightarrow> byte_end (from_tokens E ts) i = length (spelled E (take i ts))"
  by (auto simp: byte_start_def byte_end_def spelled_def)

lemma spelled_slice: "a \<le> b \<Longrightarrow> b \<le> length ts
    \<Longrightarrow> byte_slice (length (spelled E (take a ts))) (length (spelled E (take b ts))) (spelled E ts) = spelled E (take (b - a) (drop a ts))"
proof -
  assume "a \<le> b" "b \<le> length ts"
  then have "ts = take a ts @ take (b - a) (drop a ts) @ drop b ts" "take b ts = take a ts @ take (b - a) (drop a ts)"
    by (metis append.assoc append_take_drop_id le_add_diff_inverse take_add, metis le_add_diff_inverse take_add)
  then obtain x y z where "ts = x @ y @ z" "take a ts = x" "take b ts = x @ y" "take (b - a) (drop a ts) = y" by blast
  then show ?thesis by (simp add: byte_slice_def spelled_def)
qed

lemma slice_search_bound: "(case slice_search ks x of Inr i \<Rightarrow> i + 1 | Inl i \<Rightarrow> i) \<le> length ks"
proof (cases "ks = []")
  case False
  have "bsearch_base big base sz < base + sz" if "0 < sz" for big base sz
    using that
  proof (induction sz arbitrary: base rule: less_induct)
    case (less sz)
    show ?case
      by (subst bsearch_base.simps) (use less.IH[of "sz - sz div 2" base] less.IH[of "sz - sz div 2" "base + sz div 2"] less.prems in \<open>auto simp: Let_def\<close>)
  qed
  from this[of "length ks" "\<lambda>i. ks ! i > x" 0] False show ?thesis by (simp add: slice_search_def Let_def)
qed (simp add: slice_search_def)

lemma decode_bound: "decode_utf8_safe_prefix d a b = Inr (s, n) \<Longrightarrow> n \<le> b - a"
proof -
  assume d: "decode_utf8_safe_prefix d a b = Inr (s, n)"
  let ?ends = "take (b - a) (drop a (dt_byte_ends d))"
  have "(case slice_search ?ends v of Inr i \<Rightarrow> i + 1 | Inl i \<Rightarrow> i) \<le> b - a" for v
    using slice_search_bound[of ?ends v] by (rule order_trans) simp
  with d show ?thesis by (auto simp: decode_utf8_safe_prefix_def Let_def split: if_splits)
qed

lemma push_token_loop_budget:
  "push_token_loop d m h start cs = Inr cs' \<Longrightarrow> \<forall>(t, x, n) \<in> set cs. 0 < n \<and> n \<le> m \<and> trim x \<noteq> []
    \<Longrightarrow> \<forall>(t, x, n) \<in> set cs'. 0 < n \<and> n \<le> m \<and> trim x \<noteq> []"
proof (induction d m h start cs rule: push_token_loop.induct)
  case (1 d m h start cs)
  show ?case
  proof (cases "start < length (dt_byte_ends d)")
    case True
    obtain x n where x: "decode_utf8_safe_prefix d start (min (start + m) (length (dt_byte_ends d))) = Inr (x, n)"
      using 1(3) True by (subst (asm) push_token_loop.simps) (auto split: sum.splits)
    from decode_bound[OF this] decode_progress[OF this] have "0 < n" "n \<le> m" by simp_all
    then show ?thesis
      using 1(3,4) True x 1(1)[OF True x refl] 1(2)[OF True x refl]
      by (subst (asm) push_token_loop.simps) (auto split: if_splits)
  next
    case False
    with 1(3,4) show ?thesis by (subst (asm) push_token_loop.simps) simp
  qed
qed

lemma push_section_budget:
  assumes "encoder_ok E" "utf8_valid text" "push_section_chunks E m h text cs = Inr cs'"
    "\<forall>(t, x, n) \<in> set cs. 0 < n \<and> n \<le> m \<and> trim x \<noteq> []"
  shows "\<forall>(t, x, n) \<in> set cs'. 0 < n \<and> n \<le> m \<and> trim x \<noteq> []"
proof -
  have t: "utf8_valid (trim text)" "visible (trim text) = visible text" using trim_valid[OF assms(2)] by auto
  then have "trim (trim text) = [] \<longleftrightarrow> trim text = []" using trim_empty_iff assms(2) by metis
  moreover have "length (en_encode E (trim text)) \<le> length (trim text)" by (rule length_tokens[OF assms(1) t(1)])
  moreover have "en_encode E (trim text) \<noteq> []" if "trim text \<noteq> []"
    using assms(1) t(1) that by (auto simp: encoder_ok_def)
  ultimately show ?thesis
    using assms(3,4) push_token_loop_budget unfolding push_section_chunks_def push_token_chunks_def Let_def
    by (auto split: if_splits)
qed

section \<open>The sections of a document\<close>

fun sections :: "bytes option \<Rightarrow> bytes \<Rightarrow> (byte \<times> nat) option \<Rightarrow> bytes list \<Rightarrow> (bytes option \<times> bytes) list" where
  "sections heading text fence [] = [(heading, text)]"
| "sections heading text fence (line # lines) =
     (let control_line = map_option trim_end (markdown_control_line line);
          fence1 = fence_after fence control_line
      in case (if fence1 = None then Option.bind control_line parse_markdown_heading else None) of
           Some title \<Rightarrow> (heading, text) # sections (Some title) (line @ [LF]) fence1 lines
         | None \<Rightarrow> sections heading (text @ line @ [LF]) fence1 lines)"

fun push_sections :: "encoder \<Rightarrow> nat \<Rightarrow> (bytes option \<times> bytes) list \<Rightarrow> chunk list \<Rightarrow> chunk_error + chunk list" where
  "push_sections E m [] chunks = Inr chunks"
| "push_sections E m ((heading, text) # ss) chunks = bindE (push_section_chunks E m heading text chunks) (push_sections E m ss)"

lemma chunk_lines_sections: "chunk_lines E m h tx f cs ls = push_sections E m (sections h tx f ls) cs"
proof (induction E m h tx f cs ls rule: chunk_lines.induct)
  case (1 E m h tx f cs)
  show ?case by (cases "push_section_chunks E m h tx cs") simp_all
next
  case (2 E m h tx f cs l ls)
  then show ?case by (auto simp: Let_def split: option.splits intro!: bindE_cong)
qed

lemma sections_valid:
  "utf8_valid tx \<Longrightarrow> \<forall>l \<in> set ls. utf8_valid l \<Longrightarrow> (\<forall>(h, t) \<in> set (sections h tx f ls). utf8_valid t)
    \<and> concat (map (visible \<circ> snd) (sections h tx f ls)) = visible tx @ concat (map visible ls)"
proof (induction h tx f ls rule: sections.induct)
  case (2 h tx f l ls)
  have "utf8_valid (l @ [LF])" "visible (l @ [LF]) = visible l"
    using 2(4) visible_append[of l "[LF]"] by (simp_all add: utf8_valid_append utf8_valid_ascii)
  moreover from this have "utf8_valid (tx @ l @ [LF])" "visible (tx @ l @ [LF]) = visible tx @ visible l"
    using 2(3) visible_append[of tx "l @ [LF]"] by (simp_all add: utf8_valid_append)
  ultimately show ?case using 2 by (auto simp: Let_def split: option.splits)
qed simp

lemma push_sections_budget:
  "encoder_ok E \<Longrightarrow> \<forall>(h, t) \<in> set ss. utf8_valid t \<Longrightarrow> push_sections E m ss cs = Inr cs' \<Longrightarrow> \<forall>(t, x, n) \<in> set cs. 0 < n \<and> n \<le> m \<and> trim x \<noteq> []
    \<Longrightarrow> \<forall>(t, x, n) \<in> set cs'. 0 < n \<and> n \<le> m \<and> trim x \<noteq> []"
proof (induction E m ss cs rule: push_sections.induct)
  case (2 E m h t ss cs)
  then obtain mid where mid: "push_section_chunks E m h t cs = Inr mid" "push_sections E m ss mid = Inr cs'"
    by (auto simp: bindE_Inr_iff)
  have "\<forall>(t, x, n) \<in> set mid. 0 < n \<and> n \<le> m \<and> trim x \<noteq> []"
    by (rule push_section_budget[OF 2(2) _ mid(1)]) (use 2(3,5) in auto)
  then show ?case using 2(1)[OF mid(1) 2(2) _ mid(2)] 2(3) by auto
qed simp

section \<open>Whole characters in every token\<close>

lemma push_token_loop_whole:
  assumes "\<forall>t \<in> set ts. utf8_valid (en_token_bytes E t)" "0 < m" "start \<le> length ts"
  shows "\<exists>new. push_token_loop (from_tokens E ts) m h start cs = Inr (cs @ new)
    \<and> concat (map (visible \<circ> fst \<circ> snd) new) = visible (spelled E (drop start ts))"
  using assms(3)
proof (induction "length ts - start" arbitrary: start cs rule: less_induct)
  case less
  show ?case
  proof (cases "start < length ts")
    case True
    let ?e = "min (start + m) (length ts)" and ?d = "from_tokens E ts"
    let ?x = "spelled E (take (?e - start) (drop start ts))"
    have e: "start < ?e" "?e \<le> length ts" using True assms(2) by auto
    have valid: "utf8_valid (spelled E us)" if "set us \<subseteq> set ts" for us
      unfolding spelled_def by (rule valid_concat) (use that assms(1) in auto)
    have vx: "utf8_valid ?x" by (rule valid) (meson set_drop_subset set_take_subset subset_trans)
    have "byte_slice (byte_start ?d start) (byte_end ?d ?e) (dt_bytes ?d) = ?x"
    proof -
      have "byte_start ?d start = length (spelled E (take start ts))" by (rule byte_bounds) (use True in simp)
      moreover have "byte_end ?d ?e = length (spelled E (take ?e ts))" by (rule byte_bounds) (use e in linarith)+
      ultimately show ?thesis using spelled_slice[of start ?e ts E] e by (simp only: from_tokens_simps less_imp_le_nat)
    qed
    then have d: "decode_utf8_safe_prefix ?d start ?e = Inr (?x, ?e - start)"
      using e(1) vx by (simp add: decode_utf8_safe_prefix_def Let_def)
    let ?cs = "if trim ?x = [] then cs else cs @ [(h, ?x, ?e - start)]"
    have loop: "push_token_loop ?d m h start cs = push_token_loop ?d m h ?e ?cs"
      using True d e by (subst push_token_loop.simps) simp
    obtain new where new: "push_token_loop ?d m h ?e ?cs = Inr (?cs @ new)"
      "concat (map (visible \<circ> fst \<circ> snd) new) = visible (spelled E (drop ?e ts))"
      using less.hyps[of ?e ?cs] e by (meson diff_less_mono2 less_le_trans)
    have "drop start ts = take (?e - start) (drop start ts) @ drop ?e ts"
      using e(1) by (metis append_take_drop_id drop_drop le_add_diff_inverse2 less_imp_le_nat)
    then have "spelled E (drop start ts) = ?x @ spelled E (drop ?e ts)" by (metis spelled_def map_append concat_append)
    then have "visible (spelled E (drop start ts)) = visible ?x @ visible (spelled E (drop ?e ts))"
      using visible_append vx valid[OF set_drop_subset] by simp
    with loop new trim_empty_iff[OF vx] show ?thesis
      by (intro exI[of _ "(if trim ?x = [] then [] else [(h, ?x, ?e - start)]) @ new"]) simp
  next
    case False
    with less.prems show ?thesis by (subst push_token_loop.simps) (simp add: spelled_def)
  qed
qed

lemma push_section_whole:
  assumes "encoder_ok E" "utf8_valid text" "0 < m" "\<forall>t \<in> set (en_encode E (trim text)). utf8_valid (en_token_bytes E t)"
  shows "\<exists>new. push_section_chunks E m h text cs = Inr (cs @ new) \<and> concat (map (visible \<circ> fst \<circ> snd) new) = visible text"
proof -
  note trimmed = trim_valid[OF assms(2)] trim_empty_iff[OF assms(2)]
  have "spelled E (en_encode E (trim text)) = trim text" using assms(1) trimmed(1) by (simp add: spelled_def encoder_ok_def)
  with push_token_loop_whole[OF assms(4,3), of 0 h cs] trimmed show ?thesis
    by (auto simp: push_section_chunks_def push_token_chunks_def Let_def)
qed

lemma push_sections_whole:
  assumes "encoder_ok E" "0 < m"
  shows "\<forall>(h, t) \<in> set ss. utf8_valid t \<and> (\<forall>k \<in> set (en_encode E (trim t)). utf8_valid (en_token_bytes E k))
    \<Longrightarrow> \<exists>new. push_sections E m ss cs = Inr (cs @ new)
      \<and> concat (map (visible \<circ> fst \<circ> snd) new) = concat (map (visible \<circ> snd) ss)"
proof (induction ss arbitrary: cs)
  case (Cons s ss)
  obtain h t where s: "s = (h, t)" by (cases s)
  obtain new where new: "push_section_chunks E m h t cs = Inr (cs @ new)" "concat (map (visible \<circ> fst \<circ> snd) new) = visible t"
    using push_section_whole[OF assms(1) _ assms(2), of t h cs] Cons.prems s by auto
  have "\<exists>more. push_sections E m ss (cs @ new) = Inr ((cs @ new) @ more)
    \<and> concat (map (visible \<circ> fst \<circ> snd) more) = concat (map (visible \<circ> snd) ss)"
    by (rule Cons.IH) (use Cons.prems in simp)
  then obtain more where "push_sections E m ss (cs @ new) = Inr (cs @ new @ more)"
    "concat (map (visible \<circ> fst \<circ> snd) more) = concat (map (visible \<circ> snd) ss)" unfolding append_assoc by blast
  with new show ?case by (intro exI[of _ "new @ more"]) (simp add: s comp_def)
qed simp

section \<open>Whole documents\<close>

lemma document_sections:
  "0 < m \<Longrightarrow> chunk_markdown (Some E) md (Some m) = push_sections E m (sections None [] None (str_lines md)) []"
  by (simp add: chunk_markdown_def chunk_lines_sections ok_or_def requireE_def bindE_def)

fun bytes_code :: "bytes \<Rightarrow> nat" where
  "bytes_code [] = 0"
| "bytes_code (b # bs) = Suc (bval b) + 257 * bytes_code bs"

fun bytes_decode :: "nat \<Rightarrow> bytes" where
  "bytes_decode n = (if n = 0 then [] else char_of (n mod 257 - 1) # bytes_decode (n div 257))"

declare bytes_decode.simps [simp del]

lemma bytes_decode_code [simp]: "bytes_decode (bytes_code bs) = bs"
proof (induction bs)
  case (Cons b bs)
  have "bval b < 256" by simp
  then have "bytes_code (b # bs) mod 257 = Suc (bval b)" by simp
  moreover have "bytes_code (b # bs) div 257 = bytes_code bs" using \<open>bval b < 256\<close> unfolding bytes_code.simps by linarith
  ultimately show ?case using Cons by (subst bytes_decode.simps) (simp add: bval_def)
qed (simp add: bytes_decode.simps)

lemmas [simp del] = bytes_code.simps

definition char_encoder :: encoder where
  \<comment> \<open>one token for each character\<close>
  "char_encoder = \<lparr> en_encode = map bytes_code \<circ> chars_of, en_token_bytes = bytes_decode \<rparr>"


lemma char_encoder_ok:
  "encoder_ok char_encoder" "utf8_valid s \<Longrightarrow> \<forall>t \<in> set (en_encode char_encoder s). utf8_valid (en_token_bytes char_encoder t)"
proof -
  have "map (bytes_decode \<circ> bytes_code) cs = cs" for cs by (induction cs) simp_all
  then show "encoder_ok char_encoder"
    by (auto simp: encoder_ok_def char_encoder_def concat_chars_of chars_of_nonempty)
  show "\<forall>t \<in> set (en_encode char_encoder s). utf8_valid (en_token_bytes char_encoder t)" if "utf8_valid s"
    using single_char[OF that] by (auto simp: char_encoder_def)
qed


text \<open>C26. Whatever the tokenizer, every chunk has at least one token and at most the budget of them, and has visible text.\<close>

theorem chunks_within_budget:
  assumes "encoder_ok E" "utf8_valid md" "chunk_markdown (Some E) md limit = Inr cs" "(heading, t, n) \<in> set cs"
  shows "0 < n \<and> n \<le> (case limit of None \<Rightarrow> 600 | Some m \<Rightarrow> m) \<and> trim t \<noteq> []"
proof -
  let ?m = "case limit of None \<Rightarrow> 600 | Some m \<Rightarrow> m"
  have "0 < ?m" "chunk_markdown (Some E) md limit = chunk_markdown (Some E) md (Some ?m)"
    using assms(3) by (auto simp: chunk_markdown_def DEFAULT_MAX_TOKENS_def requireE_def split: option.splits if_splits)
  with assms(3) have run: "push_sections E ?m (sections None [] None (str_lines md)) [] = Inr cs" by (simp only: document_sections)
  have "\<forall>(h, t) \<in> set (sections None [] None (str_lines md)). utf8_valid t"
    using sections_valid[of "[]" "str_lines md" None None] str_lines_valid[OF assms(2)] by simp
  from push_sections_budget[OF assms(1) this run] assms(4) show ?thesis by fastforce
qed

text \<open>C20. If no token ends within a character, every document is cut, and the characters of the chunks that are not white
  space are, in their order, those of the document.\<close>

theorem chunks_keep_text:
  assumes "encoder_ok E" "\<forall>s. utf8_valid s \<longrightarrow> (\<forall>t \<in> set (en_encode E s). utf8_valid (en_token_bytes E t))"
    "utf8_valid md" "0 < budget"
  shows "\<exists>cs. chunk_markdown (Some E) md (Some budget) = Inr cs \<and> concat (map (\<lambda>(heading, t, n). visible t) cs) = visible md"
proof -
  let ?ss = "sections None [] None (str_lines md)"
  have ss: "\<forall>(h, t) \<in> set ?ss. utf8_valid t" "concat (map (visible \<circ> snd) ?ss) = visible md"
    using sections_valid[of "[]" "str_lines md" None None] str_lines_valid[OF assms(3)] by simp_all
  have "\<forall>(h, t) \<in> set ?ss. utf8_valid t \<and> (\<forall>k \<in> set (en_encode E (trim t)). utf8_valid (en_token_bytes E k))"
    using ss(1) trim_valid assms(2) by fast
  from push_sections_whole[OF assms(1,4) this, of "[]"] obtain cs
    where "push_sections E budget ?ss [] = Inr cs" "concat (map (visible \<circ> fst \<circ> snd) cs) = visible md"
    by (auto simp: ss(2))
  moreover have f: "(\<lambda>(heading, t, n). visible t) = visible \<circ> fst \<circ> snd" by (auto simp: fun_eq_iff)
  ultimately show ?thesis unfolding document_sections[OF assms(4)] f by (intro exI conjI)
qed

definition E_ACUTE :: bytes where "E_ACUTE = [CHR 0xC3, CHR 0xA9]"

definition token_table :: "bytes list \<Rightarrow> decoded_tokens" where
  "token_table cs = \<lparr> dt_bytes = concat cs, dt_byte_ends = map (\<lambda>i. length (concat (take (Suc i) cs))) [0..<length cs] \<rparr>"

lemma push_section_cut:
  assumes "en_token_bytes E = bytes_decode" "en_encode E (trim t) = map bytes_code cs" "m < length cs" "m < length (trim t)"
  shows "push_sections E m [(h, t)] chunks = push_token_loop (token_table cs) m h 0 chunks"
proof -
  have "from_tokens E (map bytes_code cs) = token_table cs"
    by (simp add: from_tokens_eq spelled_def token_table_def assms(1) comp_def take_map)
  moreover have "bindE r Inr = r" for r :: "chunk_error + chunk list" by (cases r) simp_all
  moreover have "push_sections E m [] = Inr" by (simp add: fun_eq_iff)
  moreover have "trim t \<noteq> []" using assms(4) by auto
  ultimately show ?thesis using assms(2-4) by (simp add: push_section_chunks_def push_token_chunks_def)
qed

lemma push_sections_empty: "push_sections E m ((None, []) # ss) chunks = push_sections E m ss chunks"
  by (simp add: push_section_chunks_def trim_def)


definition title_doc :: bytes where
  \<comment> \<open>a heading with five characters below it, one of them of two bytes\<close>
  "title_doc = ''# A'' @ [LF] @ ''bcd '' @ E_ACUTE @ [LF]"

lemma title_doc_valid: "utf8_valid title_doc"
  by code_simp

lemma title_chunks: "chunk_markdown (Some char_encoder) title_doc (Some 4)
    = Inr [(Some ''A'', ''# A'' @ [LF], 4), (Some ''A'', ''bcd '', 4), (Some ''A'', E_ACUTE, 1)]"
proof -
  let ?cs = "[''#'', '' '', ''A'', [LF], ''b'', ''c'', ''d'', '' '', E_ACUTE]"
  have s: "sections None [] None (str_lines title_doc) = [(None, []), (Some ''A'', title_doc)]"
    and c: "chars_of (trim title_doc) = ?cs" and l: "length (trim title_doc) = 10"
    and r: "push_token_loop (token_table ?cs) 4 (Some ''A'') 0 [] = Inr [(Some ''A'', ''# A'' @ [LF], 4), (Some ''A'', ''bcd '', 4), (Some ''A'', E_ACUTE, 1)]"
    by code_simp+
  show ?thesis unfolding document_sections[OF zero_less_numeral] s push_sections_empty
    by (subst push_section_cut[of _ _ ?cs]) (simp_all only: r, simp_all add: char_encoder_def c l)
qed

theorem chunks_within_budget_witness: "(0::nat) < 1 \<and> (1::nat) \<le> 4 \<and> trim E_ACUTE \<noteq> []"
  using chunks_within_budget[OF char_encoder_ok(1) title_doc_valid title_chunks, of "Some ''A''" E_ACUTE 1] by simp

theorem chunks_keep_text_witness:
  "concat (map (\<lambda>(heading, t, n). visible t) [(Some ''A'', ''# A'' @ [LF], 4), (Some ''A'', ''bcd '', 4), (Some ''A'', E_ACUTE, 1 :: nat)]) = visible title_doc"
  using chunks_keep_text[OF char_encoder_ok(1) _ title_doc_valid, of 4] char_encoder_ok(2) title_chunks by auto

end
