(* ===== verification/Framing.thy ===== *)
theory Framing
  imports MemSearch
begin

text \<open>
  The framing of messages, from \<^verbatim>\<open>tools-mcp-core/src/mcp_protocol.rs\<close>: reading one message from
  standard input, as a line of JSON or behind \<open>Content-Length\<close> headers, and writing one.  Input
  arrives in chunks: the reader is the buffer of \<open>BufReader\<close>, the chunks still to come, and what
  happens after them.  \<open>None\<close> is a read that waits for input for ever.
\<close>

section \<open>The input\<close>

datatype feed = Closed | Open | Broken

record reader =
  rd_buf :: bytes
  rd_chunks :: "bytes list"
  rd_end :: feed

record mcp_message =
  mm_body :: bytes
  mm_has_headers :: bool

datatype read_failure =
    StreamBroken | LineTooLong | HeadersEof | MissingLength | HeadersTooLong | DuplicateLength
  | InvalidLength | LengthTooLarge | BodyEof | BodyNotUtf8

record read_error =
  re_failure :: read_failure
  re_has_headers :: bool
  re_continue :: bool

type_synonym 'a rd = "reader \<Rightarrow> ((read_error + 'a) \<times> reader) option"

definition MAX_MCP_MESSAGE_BYTES :: nat where "MAX_MCP_MESSAGE_BYTES = 10 * 1024 * 1024"
definition MAX_MCP_HEADER_BYTES :: nat where "MAX_MCP_HEADER_BYTES = 64 * 1024"

definition read_failed :: "read_failure \<Rightarrow> bool \<Rightarrow> read_error" where
  "read_failed f hh = \<lparr> re_failure = f, re_has_headers = hh, re_continue = False \<rparr>"

definition fill_buf :: "bool \<Rightarrow> bytes rd" where
  \<comment> \<open>\<open>AsyncBufRead::fill_buf\<close>: what is buffered, else the next chunk, empty at the end of input\<close>
  "fill_buf hh r =
     (if rd_buf r \<noteq> [] then Some (Inr (rd_buf r), r)
      else case rd_chunks r of
        c # cs \<Rightarrow> Some (Inr c, r\<lparr> rd_buf := c, rd_chunks := cs \<rparr>)
      | [] \<Rightarrow> (case rd_end r of
          Closed \<Rightarrow> Some (Inr [], r)
        | Open \<Rightarrow> None
        | Broken \<Rightarrow> Some (Inl (read_failed StreamBroken hh), r)))"

definition consume :: "nat \<Rightarrow> reader \<Rightarrow> reader" where
  "consume n r = r\<lparr> rd_buf := drop n (rd_buf r) \<rparr>"

definition unread :: "reader \<Rightarrow> nat" where
  "unread r = length (rd_buf r) + sum_list (map length (rd_chunks r))"

lemma fill_buf_unread: "fill_buf hh r = Some (x, r1) \<Longrightarrow> unread r1 = unread r"
  by (auto simp: fill_buf_def unread_def split: if_splits list.splits feed.splits)

lemma fill_buf_buf: "fill_buf hh r = Some (Inr av, r1) \<Longrightarrow> rd_buf r1 = av"
  by (auto simp: fill_buf_def split: if_splits list.splits feed.splits)

lemma consume_unread: "0 < n \<Longrightarrow> rd_buf r \<noteq> [] \<Longrightarrow> unread (consume n r) < unread r"
  by (cases "rd_buf r") (auto simp: consume_def unread_def)

section \<open>Lines\<close>

definition line_take :: "memlib \<Rightarrow> bytes \<Rightarrow> nat" where
  "line_take M av = (case memchr M LF av of None \<Rightarrow> length av | Some i \<Rightarrow> i + 1)"

lemma line_take_pos: "av \<noteq> [] \<Longrightarrow> 0 < line_take M av"
  by (auto simp: line_take_def split: option.splits)

lemma line_take_unread:
  assumes "fill_buf hh r = Some (Inr av, r1)" "av \<noteq> []"
  shows "unread (consume (line_take M av) r1) < unread r"
  using consume_unread[OF line_take_pos[OF assms(2)], of r1 M] fill_buf_buf[OF assms(1)]
    fill_buf_unread[OF assms(1)] assms(2) by simp

function read_line_bytes_bounded :: "memlib \<Rightarrow> bool \<Rightarrow> bytes \<Rightarrow> bytes rd" where
  "read_line_bytes_bounded M hh line r =
     (case fill_buf hh r of
        None \<Rightarrow> None
      | Some (Inl e, r1) \<Rightarrow> Some (Inl e, r1)
      | Some (Inr av, r1) \<Rightarrow>
          if av = [] then Some (Inr line, r1)
          else
            let n = line_take M av in
            if saturating_add (length line) n > MAX_MCP_MESSAGE_BYTES
            then Some (Inl (read_failed LineTooLong hh), r1)
            else if av ! (n - 1) = LF then Some (Inr (line @ take n av), consume n r1)
            else read_line_bytes_bounded M hh (line @ take n av) (consume n r1))"
  by pat_completeness auto

termination
  by (relation "measure (\<lambda>(_, _, _, r). unread r)") (auto intro: line_take_unread)

declare read_line_bytes_bounded.simps [simp del]

definition trim_crlf_suffix :: "bytes \<Rightarrow> bytes" where
  "trim_crlf_suffix s = trim_end_crlf s"

definition trim_ascii_start :: "bytes \<Rightarrow> bytes" where
  "trim_ascii_start s = dropWhile ascii_ws s"

definition raw_json_line_body :: "bytes \<Rightarrow> bytes option" where
  \<comment> \<open>\<open>Some\<close> for \<open>Body\<close>; \<open>NotRaw\<close> gives the bytes back unchanged\<close>
  "raw_json_line_body s =
     (if utf8_valid s then
        (let t = trim_start s in if starts_with ''{'' t \<or> starts_with ''['' t then Some s else None)
      else
        (let t = trim_ascii_start s in
         if starts_with ''{'' t \<or> starts_with ''['' t then Some (from_utf8_lossy s) else None))"

definition header_name_eq_ignore_ascii_case :: "bytes \<Rightarrow> bytes \<Rightarrow> bool" where
  "header_name_eq_ignore_ascii_case actual expected \<longleftrightarrow>
     utf8_valid actual \<and> eq_ignore_ascii_case (trim actual) expected"

section \<open>Headers\<close>

record headers =
  hd_length :: "nat option"
  hd_saw :: bool
  hd_other :: bool
  hd_bytes :: nat

definition no_headers :: headers where
  "no_headers = \<lparr> hd_length = None, hd_saw = False, hd_other = False, hd_bytes = 0 \<rparr>"

definition content_length :: "bytes \<Rightarrow> headers \<Rightarrow> read_error + headers" where
  "content_length v h =
     (if hd_length h \<noteq> None then Inl (read_failed DuplicateLength True)
      else if \<not> utf8_valid v then Inl (read_failed InvalidLength True)
      else case parse_usize (trim v) of
        None \<Rightarrow> Inl (read_failed InvalidLength True)
      | Some n \<Rightarrow>
          if n > MAX_MCP_MESSAGE_BYTES then Inl (read_failed LengthTooLarge True)
          else Inr (h\<lparr> hd_length := Some n, hd_saw := True \<rparr>))"

definition header_line :: "memlib \<Rightarrow> bytes \<Rightarrow> headers \<Rightarrow> read_error + headers" where
  "header_line M line h =
     (case memchr M (CHR '':'') line of
        Some i \<Rightarrow>
          if \<not> header_name_eq_ignore_ascii_case (take i line) ''content-length''
          then Inr (h\<lparr> hd_other := True \<rparr>)
          else content_length (drop (i + 1) line) h
      | None \<Rightarrow> Inr (h\<lparr> hd_other := True \<rparr>))"

datatype head = NoMessage | RawMessage bytes | BodyOf nat

datatype head_step = HeadFails read_error | HeadEnds head | HeadGoes headers

definition head_eof :: "headers \<Rightarrow> head_step" where
  "head_eof h =
     (if hd_length h \<noteq> None then HeadFails (read_failed HeadersEof (hd_saw h \<or> hd_other h))
      else if hd_other h then HeadFails (read_failed MissingLength True)
      else HeadEnds NoMessage)"

definition head_line :: "memlib \<Rightarrow> headers \<Rightarrow> bytes \<Rightarrow> head_step" where
  \<comment> \<open>one turn of the loop, on a line that was read with its line ending\<close>
  "head_line M h line =
     (let t = trim_crlf_suffix line in
      case (if hd_length h = None \<and> \<not> hd_other h then raw_json_line_body t else None) of
        Some body \<Rightarrow> HeadEnds (RawMessage body)
      | None \<Rightarrow>
          let h1 = h\<lparr> hd_bytes := saturating_add (hd_bytes h) (length line) \<rparr> in
          if hd_bytes h1 > MAX_MCP_HEADER_BYTES
          then HeadFails (read_failed HeadersTooLong (hd_saw h \<or> hd_other h \<or> t \<noteq> []))
          else if t = [] then
            (case hd_length h1 of
               Some n \<Rightarrow> HeadEnds (BodyOf n)
             | None \<Rightarrow> if hd_other h1 then HeadFails (read_failed MissingLength True) else HeadGoes h1)
          else (case header_line M t h1 of Inl e \<Rightarrow> HeadFails e | Inr h2 \<Rightarrow> HeadGoes h2))"

lemma read_line_unread:
  "read_line_bytes_bounded M hh line r = Some (Inr l, r1) \<Longrightarrow>
     unread r1 < unread r \<or> (l = line \<and> unread r1 = unread r)"
proof (induction M hh line r rule: read_line_bytes_bounded.induct)
  case (1 M hh line r)
  show ?case
  proof (cases "\<exists>av r2. fill_buf hh r = Some (Inr av, r2) \<and> av \<noteq> []")
    case True
    then obtain av r2 where av: "fill_buf hh r = Some (Inr av, r2)" "av \<noteq> []" by blast
    note less = line_take_unread[OF av, of M]
    from "1.prems"[unfolded read_line_bytes_bounded.simps[of M hh line r]]
      "1.IH"[OF av(1) refl refl av(2) refl] av less show ?thesis
      by (auto simp: Let_def split: if_splits)
  next
    case False
    with "1.prems"[unfolded read_line_bytes_bounded.simps[of M hh line r]] fill_buf_unread[of hh r]
    show ?thesis by (auto split: option.splits sum.splits if_splits prod.splits)
  qed
qed

lemma head_eof_stops [simp]: "head_eof h \<noteq> HeadGoes h1"
  by (simp add: head_eof_def)

text \<open>The loop over the header lines.\<close>

function read_head :: "memlib \<Rightarrow> headers \<Rightarrow> head rd" where
  "read_head M h r =
     (case read_line_bytes_bounded M (hd_saw h \<or> hd_other h) [] r of
        None \<Rightarrow> None
      | Some (Inl e, r1) \<Rightarrow> Some (Inl e, r1)
      | Some (Inr line, r1) \<Rightarrow>
          (case (if line = [] then head_eof h else head_line M h line) of
             HeadFails e \<Rightarrow> Some (Inl e, r1)
           | HeadEnds x \<Rightarrow> Some (Inr x, r1)
           | HeadGoes h1 \<Rightarrow> read_head M h1 r1))"
  by pat_completeness auto

termination
  by (relation "measure (\<lambda>(_, _, r). unread r)")
    (auto dest!: read_line_unread split: if_splits)

declare read_head.simps [simp del]

section \<open>Bodies\<close>

function read_exact :: "nat \<Rightarrow> bytes \<Rightarrow> bytes rd" where
  "read_exact n got r =
     (if n = 0 then Some (Inr got, r)
      else case fill_buf True r of
        None \<Rightarrow> None
      | Some (Inl e, r1) \<Rightarrow> Some (Inl e, r1)
      | Some (Inr av, r1) \<Rightarrow>
          if av = [] then Some (Inl (read_failed BodyEof True), r1)
          else let k = min n (length av) in read_exact (n - k) (got @ take k av) (consume k r1))"
  by pat_completeness auto

termination
  by (relation "measure (\<lambda>(n, _, _). n)") auto

declare read_exact.simps [simp del]

definition skip_newline :: "unit rd" where
  \<comment> \<open>the optional newline after a body: it is looked for in what \<open>fill_buf\<close> gives, so this waits
    when nothing has arrived yet\<close>
  "skip_newline r =
     (case fill_buf True r of
        None \<Rightarrow> None
      | Some (Inl e, r1) \<Rightarrow> Some (Inl e, r1)
      | Some (Inr av, r1) \<Rightarrow>
          Some (Inr (), if starts_with [CR, LF] av then consume 2 r1
                        else if starts_with [LF] av then consume 1 r1 else r1))"

definition read_body :: "nat \<Rightarrow> mcp_message option rd" where
  "read_body n r =
     (case read_exact n [] r of
        None \<Rightarrow> None
      | Some (Inl e, r1) \<Rightarrow> Some (Inl e, r1)
      | Some (Inr bs, r1) \<Rightarrow>
          if \<not> utf8_valid bs
          then Some (Inl \<lparr> re_failure = BodyNotUtf8, re_has_headers = True, re_continue = True \<rparr>, r1)
          else (case skip_newline r1 of
                  None \<Rightarrow> None
                | Some (Inl e, r2) \<Rightarrow> Some (Inl e, r2)
                | Some (Inr _, r2) \<Rightarrow> Some (Inr (Some \<lparr> mm_body = bs, mm_has_headers = True \<rparr>), r2)))"

definition read_mcp_message :: "memlib \<Rightarrow> mcp_message option rd" where
  "read_mcp_message M r =
     (case read_head M no_headers r of
        None \<Rightarrow> None
      | Some (Inl e, r1) \<Rightarrow> Some (Inl e, r1)
      | Some (Inr NoMessage, r1) \<Rightarrow> Some (Inr None, r1)
      | Some (Inr (RawMessage body), r1) \<Rightarrow>
          Some (Inr (Some \<lparr> mm_body = body, mm_has_headers = False \<rparr>), r1)
      | Some (Inr (BodyOf n), r1) \<Rightarrow> read_body n r1)"

section \<open>Writing\<close>

text \<open>The decimal digits, filled into a buffer of 24 bytes from its end.\<close>

function digit_loop :: "nat \<Rightarrow> bytes \<Rightarrow> bytes option" where
  "digit_loop v out =
     (if length out \<ge> 24 then None
      else
        let out1 = byte_of (48 + v mod 10) # out in
        if v div 10 = 0 then Some out1 else digit_loop (v div 10) out1)"
  by pat_completeness auto

termination
  by (relation "measure (\<lambda>(_, out). 24 - length out)") auto

declare digit_loop.simps [simp del]

definition write_usize_decimal :: "nat \<Rightarrow> nat \<Rightarrow> bytes option" where
  \<comment> \<open>\<open>room\<close> is the length of the slice the digits are copied to\<close>
  "write_usize_decimal room v =
     (case digit_loop v [] of None \<Rightarrow> None | Some ds \<Rightarrow> if length ds \<le> room then Some ds else None)"

definition CONTENT_LENGTH_PREFIX :: bytes where "CONTENT_LENGTH_PREFIX = ''Content-Length: ''"
definition CONTENT_LENGTH_SUFFIX :: bytes where "CONTENT_LENGTH_SUFFIX = [CR, LF, CR, LF]"

definition format_content_length_header :: "nat \<Rightarrow> bytes option" where
  \<comment> \<open>\<open>None\<close> is a slice out of the range of the 64 bytes\<close>
  "format_content_length_header n =
     (case write_usize_decimal (64 - length CONTENT_LENGTH_PREFIX) n of
        None \<Rightarrow> None
      | Some ds \<Rightarrow>
          let s = CONTENT_LENGTH_PREFIX @ ds @ CONTENT_LENGTH_SUFFIX in
          if length s \<le> 64 then Some s else None)"

definition write_mcp_payload_with_mode :: "bool \<Rightarrow> bytes \<Rightarrow> bytes option" where
  \<comment> \<open>the bytes written for a serialised value\<close>
  "write_mcp_payload_with_mode skip_headers json =
     (let payload = (if ends_with [LF] json then json else json @ [LF]) in
      if skip_headers then Some payload
      else map_option (\<lambda>h. h @ payload) (format_content_length_header (length payload)))"

end
