(* ===== verification/FramingProps.thy ===== *)
theory FramingProps
  imports Framing
begin

text \<open>
  The properties of the framing: what a read returns depends on the bytes that arrive and not on the
  chunks they arrive in, what was written is read back, and when a read waits.
\<close>

section \<open>What has arrived\<close>

definition arrives :: "reader \<Rightarrow> bytes \<Rightarrow> feed \<Rightarrow> bool" where
  \<comment> \<open>the reader will see the bytes \<open>s\<close>, in any chunks, and then \<open>e\<close>\<close>
  "arrives r s e \<longleftrightarrow> rd_buf r @ concat (rd_chunks r) = s \<and> rd_end r = e \<and> [] \<notin> set (rd_chunks r)"

definition at_end :: "feed \<Rightarrow> bool \<Rightarrow> 'a \<Rightarrow> ((read_error + 'a) \<times> bytes) option" where
  \<comment> \<open>what happens when all bytes are used up\<close>
  "at_end e hh x = (case e of Closed \<Rightarrow> Some (Inr x, []) | Open \<Rightarrow> None
     | Broken \<Rightarrow> Some (Inl (read_failed StreamBroken hh), []))"

definition goes_on :: "read_error + 'a \<Rightarrow> bool" where
  "goes_on x \<longleftrightarrow> (case x of Inl e \<Rightarrow> re_continue e | Inr _ \<Rightarrow> True)"

definition gives :: "feed \<Rightarrow> ((read_error + 'a) \<times> reader) option \<Rightarrow> ((read_error + 'a) \<times> bytes) option \<Rightarrow> bool" where
  \<comment> \<open>a read against its specification on byte strings\<close>
  "gives e x y \<longleftrightarrow>
     (case (x, y) of
        (None, None) \<Rightarrow> True
      | (Some (a, r), Some (b, s)) \<Rightarrow> a = b \<and> (goes_on a \<longrightarrow> arrives r s e)
      | _ \<Rightarrow> False)"

lemma gives_simps [simp]:
  "gives e None None" "\<not> gives e None (Some q)" "\<not> gives e (Some p) None"
  "gives e (Some (Inr a, r)) (Some (Inr b, s)) \<longleftrightarrow> a = b \<and> arrives r s e"
  "gives e (Some (Inl f, r)) (Some (Inl g, s)) \<longleftrightarrow> f = g \<and> (re_continue f \<longrightarrow> arrives r s e)"
  "\<not> gives e (Some (Inl f, r)) (Some (Inr b, s))" "\<not> gives e (Some (Inr a, r)) (Some (Inl g, s))"
  by (auto simp: gives_def goes_on_def)

lemma read_failed_stops [simp]: "\<not> re_continue (read_failed f hh)" "re_failure (read_failed f hh) = f"
  by (simp_all add: read_failed_def)

lemma arrives_nothing: "arrives r [] e \<longleftrightarrow> rd_buf r = [] \<and> rd_chunks r = [] \<and> rd_end r = e"
  by (cases "rd_chunks r") (auto simp: arrives_def)

lemma fill_at_end:
  assumes "arrives r [] e"
  shows "gives e (fill_buf hh r) (at_end e hh [])"
proof (cases e)
qed (use assms in \<open>simp_all add: arrives_nothing fill_buf_def at_end_def\<close>)

lemma fill_more:
  assumes "arrives r s e" "s \<noteq> []"
  obtains av t r1 where "fill_buf hh r = Some (Inr av, r1)" "av \<noteq> []" "s = av @ t" "rd_buf r1 = av" "arrives r1 s e"
proof (cases "rd_buf r = []")
  case False
  with assms that[of "rd_buf r" r "concat (rd_chunks r)"] show ?thesis
    by (auto simp: fill_buf_def arrives_def)
next
  case True
  with assms obtain c cs where c: "rd_chunks r = c # cs" by (cases "rd_chunks r") (auto simp: arrives_def)
  with assms True that[of c "r\<lparr> rd_buf := c, rd_chunks := cs \<rparr>" "concat cs"] show ?thesis
    by (auto simp: fill_buf_def arrives_def)
qed

lemma consume_arrives: "arrives r s e \<Longrightarrow> n \<le> length (rd_buf r) \<Longrightarrow> arrives (consume n r) (drop n s) e"
  by (auto simp: arrives_def consume_def)

section \<open>Lines\<close>

definition first_line :: "bytes \<Rightarrow> bytes" where
  "first_line s = (case index_of LF s of None \<Rightarrow> s | Some i \<Rightarrow> take (i + 1) s)"

definition take_line :: "feed \<Rightarrow> bool \<Rightarrow> bytes \<Rightarrow> bytes \<Rightarrow> ((read_error + bytes) \<times> bytes) option" where
  "take_line e hh line s =
     (if length line + length (first_line s) > MAX_MCP_MESSAGE_BYTES
      then Some (Inl (read_failed LineTooLong hh), [])
      else if LF \<in> set s then Some (Inr (line @ first_line s), drop (length (first_line s)) s)
      else at_end e hh (line @ s))"

lemma index_of_app: "index_of x (a @ b) = (case index_of x a of Some i \<Rightarrow> Some i
    | None \<Rightarrow> map_option ((+) (length a)) (index_of x b))"
proof (induction a)
  case Nil
  show ?case by (cases "index_of x b") auto
next
  case (Cons c a)
  then show ?case by (cases "index_of x b") (auto split: option.splits)
qed

lemma too_long_iff: "saturating_add a b > MAX_MCP_MESSAGE_BYTES \<longleftrightarrow> a + b > MAX_MCP_MESSAGE_BYTES"
  by (auto simp: saturating_add_def MAX_MCP_MESSAGE_BYTES_def usize_max_def)

lemma first_line_app:
  "LF \<in> set av \<Longrightarrow> first_line (av @ t) = take (length (first_line av)) av"
  "LF \<notin> set av \<Longrightarrow> first_line (av @ t) = av @ first_line t"
  using index_of_None_iff[of LF av] index_of_SomeD[of LF av]
  by (auto simp: first_line_def index_of_app split: option.splits)

lemma first_line_length: "length (first_line s) \<le> length s"
  by (simp add: first_line_def split: option.splits)

lemma line_take_eq: "memlib_ok M \<Longrightarrow> line_take M av = length (first_line av)"
  by (auto simp: line_take_def memlib_memchr first_line_def split: option.splits dest: index_of_SomeD)

lemma first_line_last:
  assumes "av \<noteq> []"
  shows "av ! (length (first_line av) - Suc 0) = LF \<longleftrightarrow> LF \<in> set av"
proof (cases "index_of LF av")
  case None
  then have "LF \<notin> set av" by (simp add: index_of_None_iff)
  moreover have "av ! (length av - Suc 0) \<in> set av" using assms by simp
  ultimately show ?thesis using None by (auto simp: first_line_def)
next
  case (Some i)
  with index_of_SomeD[of LF av i] have "i < length av" "av ! i = LF" by auto
  moreover from this have "LF \<in> set av" by (metis nth_mem)
  ultimately show ?thesis using Some by (simp add: first_line_def)
qed

lemma read_line_gives:
  assumes "arrives r s e" "length line \<le> MAX_MCP_MESSAGE_BYTES" "memlib_ok M"
  shows "gives e (read_line_bytes_bounded M hh line r) (take_line e hh line s)"
  using assms
proof (induction M hh line r arbitrary: s rule: read_line_bytes_bounded.induct)
  case (1 M hh line r)
  show ?case
  proof (cases "s = []")
    case True
    with "1.prems" fill_at_end[of r e hh] show ?thesis
      by (subst read_line_bytes_bounded.simps)
        (cases e; auto simp: take_line_def first_line_def at_end_def arrives_nothing fill_buf_def)
  next
    case False
    obtain av t r1 where av: "fill_buf hh r = Some (Inr av, r1)" "av \<noteq> []" "s = av @ t" "rd_buf r1 = av"
        "arrives r1 s e"
      using fill_more[OF "1.prems"(1) False] by metis
    let ?n = "length (first_line av)"
    note n = line_take_eq[OF "1.prems"(3), of av] first_line_length[of av] first_line_last[OF av(2)]
    have step: "read_line_bytes_bounded M hh line r =
       (if length line + ?n > MAX_MCP_MESSAGE_BYTES then Some (Inl (read_failed LineTooLong hh), r1)
        else if LF \<in> set av then Some (Inr (line @ take ?n av), consume ?n r1)
        else read_line_bytes_bounded M hh (line @ take ?n av) (consume ?n r1))"
      by (subst read_line_bytes_bounded.simps) (simp add: av(1,2) n too_long_iff Let_def)
    show ?thesis
    proof (cases "length line + ?n > MAX_MCP_MESSAGE_BYTES")
      case True
      then show ?thesis
        using first_line_app[of av t] n(2) by (cases "LF \<in> set av") (auto simp: step take_line_def av(3) first_line_def)
    next
      case fits: False
      note next_r = consume_arrives[OF av(5), of ?n]
      show ?thesis
      proof (cases "LF \<in> set av")
        case True
        with fits next_r n(2) av(3,4) show ?thesis
          by (simp add: step take_line_def first_line_app(1))
      next
        case False
        then have whole: "?n = length av" by (simp add: first_line_def index_of_None_iff[symmetric])
        have "gives e (read_line_bytes_bounded M hh (line @ take ?n av) (consume ?n r1)) (take_line e hh (line @ av) t)"
          using "1.IH"[OF av(1) refl refl av(2) refl] fits False next_r av(3,4) whole n "1.prems"(3)
          by (simp add: too_long_iff)
        moreover have "take_line e hh (line @ av) t = take_line e hh line s"
          using False by (simp add: take_line_def av(3) first_line_app(2))
        ultimately show ?thesis using fits False by (simp add: step)
      qed
    qed
  qed
qed

section \<open>The same bytes in other chunks\<close>

definition twins :: "feed \<Rightarrow> ((read_error + 'a) \<times> reader) option \<Rightarrow> ((read_error + 'a) \<times> reader) option \<Rightarrow> bool" where
  \<comment> \<open>two reads with the same result that leave the same bytes\<close>
  "twins e x y \<longleftrightarrow>
     (case (x, y) of
        (None, None) \<Rightarrow> True
      | (Some (a, r), Some (b, q)) \<Rightarrow> a = b \<and> (goes_on a \<longrightarrow> (\<exists>s. arrives r s e \<and> arrives q s e))
      | _ \<Rightarrow> False)"

lemma twins_simps [simp]:
  "twins e None None" "\<not> twins e None (Some v)" "\<not> twins e (Some u) None"
  "twins e (Some (a, r)) (Some (b, q)) \<longleftrightarrow> a = b \<and> (goes_on a \<longrightarrow> (\<exists>s. arrives r s e \<and> arrives q s e))"
  by (simp_all add: twins_def)

lemma gives_twins: "gives e x z \<Longrightarrow> gives e y z \<Longrightarrow> twins e x y"
  by (cases z) (auto simp: gives_def twins_def split: option.splits)

lemma read_head_twins:
  assumes "arrives r s e" "arrives q s e" "memlib_ok M"
  shows "twins e (read_head M h r) (read_head M h q)"
  using assms
proof (induction M h r arbitrary: q s rule: read_head.induct)
  case (1 M h r)
  have line: "twins e (read_line_bytes_bounded M (hd_saw h \<or> hd_other h) [] r)
      (read_line_bytes_bounded M (hd_saw h \<or> hd_other h) [] q)"
    using gives_twins[OF read_line_gives[OF "1.prems"(1) _ "1.prems"(3)]
        read_line_gives[OF "1.prems"(2) _ "1.prems"(3)]] by simp
  show ?case
  proof (cases "\<exists>l r1. read_line_bytes_bounded M (hd_saw h \<or> hd_other h) [] r = Some (Inr l, r1)")
    case True
    then obtain l r1 where r1: "read_line_bytes_bounded M (hd_saw h \<or> hd_other h) [] r = Some (Inr l, r1)"
      by blast
    with line obtain q1 t where q1: "read_line_bytes_bounded M (hd_saw h \<or> hd_other h) [] q = Some (Inr l, q1)"
        "arrives r1 t e" "arrives q1 t e"
      by (cases "read_line_bytes_bounded M (hd_saw h \<or> hd_other h) [] q") (auto simp: goes_on_def)
    then have both: "\<exists>s. arrives r1 s e \<and> arrives q1 s e" by blast
    from "1.IH"[OF r1 refl refl _ q1(2,3) "1.prems"(3)] show ?thesis
      by (subst (1 2) read_head.simps) (simp add: r1 q1(1) both split: head_step.split)
  next
    case False
    with line show ?thesis
      by (subst (1 2) read_head.simps)
        (auto simp: twins_def goes_on_def split: option.splits sum.splits)
  qed
qed

definition take_exact :: "feed \<Rightarrow> nat \<Rightarrow> bytes \<Rightarrow> bytes \<Rightarrow> ((read_error + bytes) \<times> bytes) option" where
  "take_exact e n got s =
     (if n \<le> length s then Some (Inr (got @ take n s), drop n s)
      else (case e of Closed \<Rightarrow> Some (Inl (read_failed BodyEof True), []) | Open \<Rightarrow> None
            | Broken \<Rightarrow> Some (Inl (read_failed StreamBroken True), [])))"

lemma read_exact_gives: "arrives r s e \<Longrightarrow> gives e (read_exact n got r) (take_exact e n got s)"
proof (induction n got r arbitrary: s rule: read_exact.induct)
  case (1 n got r)
  show ?case
  proof (cases "n = 0 \<or> s = []")
    case True
    with "1.prems" show ?thesis
      by (subst read_exact.simps)
        (cases e; auto simp: take_exact_def arrives_nothing fill_buf_def)
  next
    case False
    obtain av t r1 where av: "fill_buf True r = Some (Inr av, r1)" "av \<noteq> []" "s = av @ t" "rd_buf r1 = av"
        "arrives r1 s e"
      using fill_more[OF "1.prems"] False by metis
    let ?k = "min n (length av)"
    have "gives e (read_exact (n - ?k) (got @ take ?k av) (consume ?k r1))
        (take_exact e (n - ?k) (got @ take ?k av) (drop ?k s))"
      using "1.IH"[OF _ av(1) refl refl av(2) refl] False consume_arrives[OF av(5), of ?k] av(4) by simp
    moreover have "take_exact e (n - ?k) (got @ take ?k av) (drop ?k s) = take_exact e n got s"
      by (auto simp: take_exact_def av(3) min_def)
    ultimately show ?thesis
      using False by (subst read_exact.simps) (simp add: av(1,2) Let_def)
  qed
qed

definition rests :: "feed \<Rightarrow> reader \<Rightarrow> bytes \<Rightarrow> bool" where
  \<comment> \<open>the bytes are still to come, but for a newline at their front\<close>
  "rests e r t \<longleftrightarrow> arrives r t e \<or> arrives r ([CR, LF] @ t) e \<or> arrives r (LF # t) e"

lemma skip_newline_at_end: "arrives r [] e \<Longrightarrow> gives e (skip_newline r) (at_end e True ())"
  by (cases e) (auto simp: skip_newline_def arrives_nothing fill_buf_def at_end_def starts_with_def)

lemma skip_newline_more:
  assumes "arrives r s e" "s \<noteq> []"
  obtains r1 t where "skip_newline r = Some (Inr (), r1)" "arrives r1 t e"
    "t = s \<and> \<not> starts_with [LF] s \<or> s = LF # t \<or> s = [CR, LF] @ t"
proof -
  obtain av t r1 where av: "fill_buf True r = Some (Inr av, r1)" "av \<noteq> []" "s = av @ t" "rd_buf r1 = av"
      "arrives r1 s e"
    using fill_more[OF assms] by metis
  then have step: "skip_newline r = Some (Inr (), if starts_with [CR, LF] av then consume 2 r1
      else if starts_with [LF] av then consume 1 r1 else r1)"
    by (simp add: skip_newline_def)
  consider (crlf) u where "av = [CR, LF] @ u" | (lf) u where "av = LF # u"
    | (none) "\<not> starts_with [CR, LF] av" "\<not> starts_with [LF] av"
    by (metis starts_with_iff append_Cons append_Nil)
  then show ?thesis
  proof cases
    case crlf
    with av consume_arrives[OF av(5), of 2] step show ?thesis
      by (intro that[of "consume 2 r1" "u @ t"]) (auto simp: starts_with_def)
  next
    case lf
    with av consume_arrives[OF av(5), of 1] step show ?thesis
      by (intro that[of "consume 1 r1" "u @ t"]) (auto simp: starts_with_def)
  next
    case none
    then have "\<not> starts_with [LF] s" using av(2,3) by (cases av) (auto simp: starts_with_iff)
    with none step av show ?thesis by (intro that[of r1 s]) auto
  qed
qed

lemma skip_newline_same:
  assumes "arrives r s e" "arrives q s e"
  shows "(skip_newline r = None \<and> skip_newline q = None)
    \<or> (\<exists>r1 q1. skip_newline r = Some (Inl (read_failed StreamBroken True), r1)
          \<and> skip_newline q = Some (Inl (read_failed StreamBroken True), q1))
    \<or> (\<exists>r1 q1 t. skip_newline r = Some (Inr (), r1) \<and> skip_newline q = Some (Inr (), q1)
          \<and> rests e r1 t \<and> rests e q1 t)"
proof (cases "s = []")
  case True
  with assms skip_newline_at_end[of r e] skip_newline_at_end[of q e] show ?thesis
    by (cases e; cases "skip_newline r"; cases "skip_newline q")
      (auto simp: at_end_def gives_def rests_def goes_on_def split: sum.splits)
next
  case False
  obtain r1 t where r1: "skip_newline r = Some (Inr (), r1)" "arrives r1 t e"
      "t = s \<and> \<not> starts_with [LF] s \<or> s = LF # t \<or> s = [CR, LF] @ t"
    using skip_newline_more[OF assms(1) False] by metis
  obtain q1 u where q1: "skip_newline q = Some (Inr (), q1)" "arrives q1 u e"
      "u = s \<and> \<not> starts_with [LF] s \<or> s = LF # u \<or> s = [CR, LF] @ u"
    using skip_newline_more[OF assms(2) False] by metis
  have "\<exists>v. rests e r1 v \<and> rests e q1 v"
  proof (cases "starts_with [CR, LF] s")
    case True
    then have s: "s = [CR, LF] @ drop 2 s" by (auto simp: starts_with_iff)
    then have "rests e r1 (drop 2 s)" "rests e q1 (drop 2 s)"
      using r1(2,3) q1(2,3) by (auto simp: rests_def)
    then show ?thesis by blast
  next
    case False
    then have "t = u" using r1(3) q1(3) by (auto simp: starts_with_iff)
    then show ?thesis using r1(2) q1(2) by (auto simp: rests_def)
  qed
  then show ?thesis using r1(1) q1(1) by blast
qed

definition same_reads :: "feed \<Rightarrow> ((read_error + 'a) \<times> reader) option \<Rightarrow> ((read_error + 'a) \<times> reader) option \<Rightarrow> bool" where
  \<comment> \<open>both wait, or both give the same result and leave the same bytes but for a newline\<close>
  "same_reads e x y \<longleftrightarrow>
     (case (x, y) of
        (None, None) \<Rightarrow> True
      | (Some (a, r), Some (b, q)) \<Rightarrow> a = b \<and> (goes_on a \<longrightarrow> (\<exists>t. rests e r t \<and> rests e q t))
      | _ \<Rightarrow> False)"

lemma same_reads_simps [simp]:
  "same_reads e None None"
  "same_reads e (Some (a, r)) (Some (b, q)) \<longleftrightarrow> a = b \<and> (goes_on a \<longrightarrow> (\<exists>t. rests e r t \<and> rests e q t))"
  by (simp_all add: same_reads_def)

lemma arrives_rests: "arrives r t e \<Longrightarrow> arrives q t e \<Longrightarrow> \<exists>t. rests e r t \<and> rests e q t"
  by (auto simp: rests_def)

lemma twins_same_reads: "twins e x y \<Longrightarrow> same_reads e x y"
  unfolding twins_def same_reads_def by (auto split: option.splits intro: arrives_rests)

lemma read_body_same:
  assumes "arrives r s e" "arrives q s e"
  shows "same_reads e (read_body n r) (read_body n q)"
proof (cases "n \<le> length s")
  case False
  with read_exact_gives[OF assms(1), of n "[]"] read_exact_gives[OF assms(2), of n "[]"] show ?thesis
    by (cases e; cases "read_exact n [] r"; cases "read_exact n [] q")
      (auto simp: take_exact_def read_body_def gives_def goes_on_def split: sum.splits)
next
  case True
  with read_exact_gives[OF assms(1), of n "[]"] read_exact_gives[OF assms(2), of n "[]"]
  obtain r1 q1 where got: "read_exact n [] r = Some (Inr (take n s), r1)" "arrives r1 (drop n s) e"
      "read_exact n [] q = Some (Inr (take n s), q1)" "arrives q1 (drop n s) e"
    by (cases "read_exact n [] r"; cases "read_exact n [] q")
      (auto simp: take_exact_def gives_def goes_on_def split: sum.splits)
  show ?thesis
  proof (cases "utf8_valid (take n s)")
    case False
    with got show ?thesis by (auto simp: read_body_def goes_on_def intro: arrives_rests)
  next
    case True
    with got skip_newline_same[OF got(2,4)] show ?thesis
      by (auto simp: read_body_def goes_on_def)
  qed
qed

text \<open>Reading a message does not depend on how the input is cut into chunks: two readers to which the
  same bytes arrive, followed by the same end, both wait or both return the same message or the same
  error; and when reading can go on, the same bytes are left, except that a newline behind a body may
  have been skipped by one and not by the other.\<close>

theorem reads_ignore_chunks:
  assumes "arrives r s e" "arrives q s e" "memlib_ok M"
  shows "same_reads e (read_mcp_message M r) (read_mcp_message M q)"
proof -
  note heads = read_head_twins[OF assms, of no_headers]
  show ?thesis
  proof (cases "\<exists>n r1. read_head M no_headers r = Some (Inr (BodyOf n), r1)")
    case True
    with heads obtain n r1 q1 t where "read_head M no_headers r = Some (Inr (BodyOf n), r1)"
        "read_head M no_headers q = Some (Inr (BodyOf n), q1)" "arrives r1 t e" "arrives q1 t e"
      by (cases "read_head M no_headers q") (auto simp: goes_on_def)
    with read_body_same[of r1 t e q1 n] show ?thesis by (simp add: read_mcp_message_def)
  next
    case False
    with heads show ?thesis
      by (cases "read_head M no_headers r"; cases "read_head M no_headers q")
        (auto simp: read_mcp_message_def goes_on_def split: sum.split head.split intro: arrives_rests)
  qed
qed

theorem reads_ignore_chunks_witness:
  "same_reads Open
     (read_mcp_message ref_memlib \<lparr> rd_buf = ''{'', rd_chunks = [''}'', [LF]], rd_end = Open \<rparr>)
     (read_mcp_message ref_memlib \<lparr> rd_buf = [], rd_chunks = [''{}'' @ [LF]], rd_end = Open \<rparr>)"
  by (rule reads_ignore_chunks[of _ "''{}'' @ [LF]"]) (simp_all add: arrives_def ref_memlib_ok)

end
