(* ===== verification/FrameClaims.thy ===== *)
theory FrameClaims
  imports FramingProps
begin

text \<open>
  What was written is read back: the header that is written, the read of one framed message or one
  line, and a whole session of messages.  And when a read waits although its message is there.
\<close>

section \<open>The header\<close>

lemma digit_loop_eq:
  "length (nat_dec v) + length out \<le> 24 \<Longrightarrow> digit_loop v out = Some (nat_dec v @ out)"
proof (induction v out rule: digit_loop.induct)
  case (1 v out)
  have pos: "0 < length (nat_dec v)" by simp
  with "1.prems" have room: "\<not> 24 \<le> length out" by linarith
  show ?case
  proof (cases "v < 10")
    case True
    with room show ?thesis by (subst digit_loop.simps) (simp add: nat_dec.simps[of v] Let_def)
  next
    case False
    then have "nat_dec v = nat_dec (v div 10) @ [byte_of (48 + v mod 10)]" by (subst nat_dec.simps) simp
    with False room 1 show ?thesis by (subst digit_loop.simps) (simp add: Let_def)
  qed
qed

lemma length_nat_dec_usize: "n \<le> usize_max \<Longrightarrow> length (nat_dec n) \<le> 20"
  using length_nat_dec[of n 19] by (simp add: usize_max_def)

lemma format_content_length_header_eq:
  "n \<le> usize_max \<Longrightarrow>
   format_content_length_header n = Some (''Content-Length: '' @ nat_dec n @ [CR, LF, CR, LF])"
  using length_nat_dec_usize[of n]
  by (simp add: format_content_length_header_def write_usize_decimal_def digit_loop_eq
      CONTENT_LENGTH_PREFIX_def CONTENT_LENGTH_SUFFIX_def Let_def)

text \<open>A text that is written: an object or an array on one line, as the serialiser prints it.\<close>

definition json_text :: "bytes \<Rightarrow> bool" where
  "json_text j \<longleftrightarrow> (starts_with ''{'' j \<or> starts_with ''['' j) \<and> utf8_valid j \<and> LF \<notin> set j
     \<and> last j \<noteq> CR \<and> length j < MAX_MCP_MESSAGE_BYTES"

lemma json_textD:
  assumes "json_text j"
  shows "j \<noteq> []" "utf8_valid j" "LF \<notin> set j" "length j < MAX_MCP_MESSAGE_BYTES" "\<not> ends_with [LF] j"
    "trim_crlf_suffix (j @ [LF]) = j" "raw_json_line_body j = Some j"
proof -
  have j: "utf8_valid j" "LF \<notin> set j" "last j \<noteq> CR" "starts_with ''{'' j \<or> starts_with ''['' j"
    using assms by (auto simp: json_text_def)
  then obtain c r where c: "j = c # r" "c = CHR ''{'' \<or> c = CHR ''[''" by (auto simp: starts_with_iff)
  then show "j \<noteq> []" by simp
  show "utf8_valid j" "LF \<notin> set j" by (rule j)+
  show "length j < MAX_MCP_MESSAGE_BYTES" using assms by (simp add: json_text_def)
  show "\<not> ends_with [LF] j" using j(2) by (auto simp: ends_with_iff)
  have "last j \<noteq> LF" using j(2) \<open>j \<noteq> []\<close> last_in_set by metis
  with j(3) show "trim_crlf_suffix (j @ [LF]) = j" by (simp add: trim_crlf_suffix_def trim_end_crlf_id)
  have ascii: "bval c < 128" "\<not> is_ws_char [c]" using c(2) by (auto simp: bval_def is_ws_char_def)
  then have "chars_of j = [c] # chars_of r"
    using j(1) c(1) by (simp add: chars_of_ascii_Cons utf8_valid_ascii_Cons)
  moreover have "utf8_valid r" using j(1) c(1) ascii(1) by (simp add: utf8_valid_ascii_Cons)
  ultimately have "trim_start j = j" using ascii(2) c(1) by (simp add: trim_start_def concat_chars_of)
  with j(1,4) show "raw_json_line_body j = Some j" by (simp add: raw_json_line_body_def Let_def)
qed

section \<open>Reading one message\<close>

lemma read_lineD:
  assumes "arrives r (l @ LF # t) e" "memlib_ok M" "LF \<notin> set l" "length l < MAX_MCP_MESSAGE_BYTES"
  obtains r1 where "read_line_bytes_bounded M hh [] r = Some (Inr (l @ [LF]), r1)" "arrives r1 t e"
proof -
  have "first_line (l @ LF # t) = l @ [LF]"
    using first_line_app(2)[OF assms(3), of "LF # t"] by (simp add: first_line_def)
  with read_line_gives[OF assms(1) _ assms(2), of "[]" hh] assms(4) show ?thesis
    by (cases "read_line_bytes_bounded M hh [] r")
      (auto simp: take_line_def gives_def goes_on_def intro: that split: sum.splits)
qed

lemma content_length_line:
  assumes "memlib_ok M" "n \<le> MAX_MCP_MESSAGE_BYTES"
  shows "head_line M no_headers (''Content-Length: '' @ nat_dec n @ [CR, LF])
    = HeadGoes \<lparr> hd_length = Some n, hd_saw = True, hd_other = False, hd_bytes = 18 + length (nat_dec n) \<rparr>"
proof -
  let ?t = "''Content-Length: '' @ nat_dec n"
  have n: "n \<le> usize_max" using assms(2) by (simp add: MAX_MCP_MESSAGE_BYTES_def usize_max_def)
  note len = length_nat_dec_usize[OF n]
  have digits: "\<forall>c \<in> set (nat_dec n). is_digit c" using nat_dec_digits by blast
  then have ascii: "\<forall>c \<in> set (nat_dec n). bval c < 128" by (auto simp: is_digit_def)
  have last: "is_digit (last (nat_dec n))" using digits by simp
  then have no_end: "last (nat_dec n) \<noteq> CR" "last (nat_dec n) \<noteq> LF" by (metis is_digit_not)+
  have t: "trim_crlf_suffix (''Content-Length: '' @ nat_dec n @ [CR, LF]) = ?t"
    using no_end trim_end_crlf_snoc(3)[of ?t] trim_end_crlf_id[of ?t] by (simp add: trim_crlf_suffix_def)
  have "utf8_valid ?t" using ascii by (intro utf8_valid_ascii) (auto simp: bval_def)
  moreover have "trim_start ?t = ?t"
  proof -
    have "chars_of ?t = map (\<lambda>c. [c]) ?t" using ascii by (intro chars_of_ascii) (auto simp: bval_def)
    moreover have "concat (map (\<lambda>c. [c]) s) = s" for s :: bytes by (induction s) auto
    ultimately show ?thesis by (simp add: trim_start_def is_ws_char_def bval_def)
  qed
  ultimately have raw: "raw_json_line_body ?t = None"
    by (simp add: raw_json_line_body_def starts_with_def)
  have colon: "memchr M (CHR '':'') ?t = Some 14" using assms(1) by (simp add: memlib_memchr)
  have name: "header_name_eq_ignore_ascii_case (take 14 ?t) ''content-length''"
    by (simp add: header_name_eq_ignore_ascii_case_def) code_simp
  have "trim (SP # nat_dec n) = nat_dec n"
  proof -
    have "trim (nat_dec n) = nat_dec n"
      using ascii digits last by (intro trim_ascii_id) (auto simp: digit_char_not_ws)
    moreover have "chars_of (SP # nat_dec n) = [SP] # chars_of (nat_dec n)"
      using utf8_valid_ascii[OF ascii] by (intro chars_of_ascii_Cons) (auto simp: bval_def)
    ultimately show ?thesis by (simp add: trim_def is_ws_char_def bval_def)
  qed
  moreover have "utf8_valid (SP # nat_dec n)" using ascii by (intro utf8_valid_ascii) (auto simp: bval_def)
  ultimately have number: "content_length (SP # nat_dec n) h = Inr (h\<lparr> hd_length := Some n, hd_saw := True \<rparr>)"
    if "hd_length h = None" for h
    using that assms(2) by (simp add: content_length_def parse_usize_nat_dec[OF n])
  have line: "header_line M ?t h = Inr (h\<lparr> hd_length := Some n, hd_saw := True \<rparr>)" if "hd_length h = None" for h
    unfolding header_line_def colon option.case using name number[OF that] by simp
  define u where "u = ?t"
  have u: "''Content-Length: '' @ nat_dec n @ [CR, LF] = u @ [CR, LF]" "u \<noteq> []" "length u = 16 + length (nat_dec n)"
    by (simp_all add: u_def)
  have "trim_crlf_suffix (u @ [CR, LF]) = u" using t by (simp add: u_def)
  then show ?thesis
    using len raw line unfolding u(1) u_def[symmetric]
    by (simp add: head_line_def no_headers_def Let_def u saturating_add_def usize_max_def MAX_MCP_HEADER_BYTES_def)
qed

lemma read_head_framed:
  assumes "arrives r (''Content-Length: '' @ nat_dec n @ [CR, LF, CR, LF] @ t) e" "memlib_ok M"
    and "n \<le> MAX_MCP_MESSAGE_BYTES"
  obtains r1 where "read_head M no_headers r = Some (Inr (BodyOf n), r1)" "arrives r1 t e"
proof -
  have n: "n \<le> usize_max" using assms(3) by (simp add: MAX_MCP_MESSAGE_BYTES_def usize_max_def)
  let ?h = "\<lparr> hd_length = Some n, hd_saw = True, hd_other = False, hd_bytes = 18 + length (nat_dec n) \<rparr>"
  let ?l = "''Content-Length: '' @ nat_dec n @ [CR]"
  have "arrives r (?l @ LF # ([CR] @ LF # t)) e" using assms(1) by simp
  moreover have "LF \<notin> set ?l" "length ?l < MAX_MCP_MESSAGE_BYTES"
    using nat_dec_notin[of LF n] length_nat_dec_usize[OF n] by (auto simp: MAX_MCP_MESSAGE_BYTES_def)
  ultimately obtain r1 where r1: "read_line_bytes_bounded M False [] r = Some (Inr (?l @ [LF]), r1)"
      "arrives r1 ([CR] @ LF # t) e"
    using read_lineD[OF _ assms(2)] by metis
  obtain r2 where r2: "read_line_bytes_bounded M True [] r1 = Some (Inr ([CR] @ [LF]), r2)" "arrives r2 t e"
    using read_lineD[OF r1(2) assms(2)] by (auto simp: MAX_MCP_MESSAGE_BYTES_def)
  have blank: "head_line M ?h [CR, LF] = HeadEnds (BodyOf n)"
    using length_nat_dec_usize[OF n]
    by (simp add: head_line_def trim_crlf_suffix_def trim_end_crlf_def Let_def saturating_add_def
        usize_max_def MAX_MCP_HEADER_BYTES_def)
  have "read_head M no_headers r = read_head M ?h r1"
    using r1(1) content_length_line[OF assms(2,3)]
    by (subst read_head.simps) (simp add: no_headers_def)
  also have "\<dots> = Some (Inr (BodyOf n), r2)"
    using r2(1) blank by (subst read_head.simps) simp
  finally show ?thesis using r2(2) by (rule that)
qed

lemma read_exactD:
  assumes "arrives r (bs @ t) e"
  obtains r1 where "read_exact (length bs) [] r = Some (Inr bs, r1)" "arrives r1 t e"
  using read_exact_gives[OF assms, of "length bs" "[]"] that
  by (cases "read_exact (length bs) [] r")
    (auto simp: take_exact_def gives_def goes_on_def split: sum.splits)

text \<open>A message as it goes over the wire: without or with headers.\<close>

type_synonym frame = "bool \<times> bytes"

definition frame_ok :: "frame \<Rightarrow> bool" where
  "frame_ok f \<longleftrightarrow> json_text (snd f)"

definition wire :: "frame \<Rightarrow> bytes" where
  "wire f = (case write_mcp_payload_with_mode (fst f) (snd f) of Some w \<Rightarrow> w | None \<Rightarrow> [])"

definition delivered :: "frame \<Rightarrow> mcp_message" where
  \<comment> \<open>a framed body keeps the line feed that ends it\<close>
  "delivered f = (if fst f then \<lparr> mm_body = snd f, mm_has_headers = False \<rparr>
                  else \<lparr> mm_body = snd f @ [LF], mm_has_headers = True \<rparr>)"

lemma written:
  assumes "json_text j"
  shows "write_mcp_payload_with_mode True j = Some (j @ [LF])"
    "write_mcp_payload_with_mode False j
      = Some (''Content-Length: '' @ nat_dec (Suc (length j)) @ [CR, LF, CR, LF] @ j @ [LF])"
proof -
  have "Suc (length j) \<le> usize_max"
    using json_textD(4)[OF assms] by (simp add: MAX_MCP_MESSAGE_BYTES_def usize_max_def)
  then show "write_mcp_payload_with_mode True j = Some (j @ [LF])"
    "write_mcp_payload_with_mode False j
      = Some (''Content-Length: '' @ nat_dec (Suc (length j)) @ [CR, LF, CR, LF] @ j @ [LF])"
    using json_textD(5)[OF assms]
    by (simp_all add: write_mcp_payload_with_mode_def Let_def format_content_length_header_eq)
qed

lemma read_raw:
  assumes "arrives r (j @ LF # t) e" "json_text j" "memlib_ok M"
  obtains r1 where "read_mcp_message M r = Some (Inr (Some \<lparr> mm_body = j, mm_has_headers = False \<rparr>), r1)"
    "arrives r1 t e"
proof -
  note j = json_textD[OF assms(2)]
  obtain r1 where r1: "read_line_bytes_bounded M False [] r = Some (Inr (j @ [LF]), r1)" "arrives r1 t e"
    using read_lineD[OF assms(1,3) j(3,4)] by metis
  have "head_line M no_headers (j @ [LF]) = HeadEnds (RawMessage j)"
    by (simp add: head_line_def j(6,7) no_headers_def Let_def)
  then have "read_head M no_headers r = Some (Inr (RawMessage j), r1)"
    using r1(1) by (subst read_head.simps) (simp add: no_headers_def)
  then show ?thesis using r1(2) by (intro that[of r1]) (simp_all add: read_mcp_message_def)
qed

lemma read_framed_body:
  assumes "arrives r (''Content-Length: '' @ nat_dec (Suc (length j)) @ [CR, LF, CR, LF] @ j @ [LF] @ t) e"
    and "json_text j" "memlib_ok M"
  obtains r1 where "arrives r1 t e"
    "read_mcp_message M r = (case skip_newline r1 of None \<Rightarrow> None
       | Some (Inl err, r2) \<Rightarrow> Some (Inl err, r2)
       | Some (Inr _, r2) \<Rightarrow> Some (Inr (Some \<lparr> mm_body = j @ [LF], mm_has_headers = True \<rparr>), r2))"
proof -
  note j = json_textD[OF assms(2)]
  obtain r0 where r0: "read_head M no_headers r = Some (Inr (BodyOf (Suc (length j))), r0)"
      "arrives r0 ((j @ [LF]) @ t) e"
    using read_head_framed[OF assms(1,3)] j(4) by auto
  obtain r1 where r1: "read_exact (Suc (length j)) [] r0 = Some (Inr (j @ [LF]), r1)" "arrives r1 t e"
    using read_exactD[OF r0(2)] by auto
  have "utf8_valid (j @ [LF])" using j(2) utf8_valid_append[OF j(2), of "[LF]"]
    by (simp add: utf8_valid_ascii bval_def)
  with r0(1) r1 show ?thesis by (intro that[of r1]) (simp_all add: read_mcp_message_def read_body_def)
qed

section \<open>Sessions\<close>

fun read_all :: "memlib \<Rightarrow> nat \<Rightarrow> reader \<Rightarrow> mcp_message list option" where
  \<comment> \<open>reading until the end of the input, at most \<open>n\<close> times; \<open>None\<close> when a read waits or fails\<close>
  "read_all M 0 r = None"
| "read_all M (Suc n) r =
     (case read_mcp_message M r of
        Some (Inr None, _) \<Rightarrow> Some []
      | Some (Inr (Some m), r1) \<Rightarrow> map_option ((#) m) (read_all M n r1)
      | _ \<Rightarrow> None)"

lemma read_end:
  assumes "arrives r [] Closed"
  shows "\<exists>r1. read_mcp_message M r = Some (Inr None, r1)"
proof -
  have "read_line_bytes_bounded M False [] r = Some (Inr [], r)"
    using assms by (subst read_line_bytes_bounded.simps) (simp add: arrives_nothing fill_buf_def)
  then show ?thesis
    by (simp add: read_mcp_message_def) (subst read_head.simps, simp add: no_headers_def head_eof_def)
qed

lemma wire_eq:
  assumes "frame_ok f"
  shows "wire f = (if fst f then snd f @ [LF]
     else ''Content-Length: '' @ nat_dec (Suc (length (snd f))) @ [CR, LF, CR, LF] @ snd f @ [LF])"
  using written[of "snd f"] assms by (cases "fst f") (auto simp: wire_def frame_ok_def)

lemma wire_front:
  assumes "frame_ok f"
  shows "wire f \<noteq> [] \<and> hd (wire f) \<noteq> LF \<and> hd (wire f) \<noteq> CR"
proof -
  have "snd f \<noteq> []" "hd (snd f) = CHR ''{'' \<or> hd (snd f) = CHR ''[''"
    using assms by (auto simp: frame_ok_def json_text_def starts_with_iff)
  then show ?thesis by (auto simp: wire_eq[OF assms] hd_append)
qed

lemma wires_front:
  assumes "list_all frame_ok fs"
  shows "concat (map wire fs) = [] \<or> hd (concat (map wire fs)) \<noteq> LF \<and> hd (concat (map wire fs)) \<noteq> CR"
  using assms wire_front by (cases fs) (auto simp: hd_append)

lemma read_frame:
  assumes "arrives r (wire f @ t) Closed" "frame_ok f" "memlib_ok M"
    and "t = [] \<or> hd t \<noteq> LF \<and> hd t \<noteq> CR"
  shows "\<exists>r1. read_mcp_message M r = Some (Inr (Some (delivered f)), r1) \<and> arrives r1 t Closed"
proof (cases "fst f")
  case True
  with assms(1,2) wire_eq[OF assms(2)] obtain r1 where
      "read_mcp_message M r = Some (Inr (Some \<lparr> mm_body = snd f, mm_has_headers = False \<rparr>), r1)"
      "arrives r1 t Closed"
    using read_raw[of r "snd f" t Closed M] assms(3) by (auto simp: frame_ok_def)
  with True show ?thesis by (simp add: delivered_def)
next
  case False
  with assms(1,2) wire_eq[OF assms(2)] obtain r1 where r1: "arrives r1 t Closed"
      "read_mcp_message M r = (case skip_newline r1 of None \<Rightarrow> None
       | Some (Inl err, r2) \<Rightarrow> Some (Inl err, r2)
       | Some (Inr _, r2) \<Rightarrow> Some (Inr (Some \<lparr> mm_body = snd f @ [LF], mm_has_headers = True \<rparr>), r2))"
    using read_framed_body[of r "snd f" t Closed M] assms(3) by (auto simp: frame_ok_def)
  have "\<exists>r2. skip_newline r1 = Some (Inr (), r2) \<and> arrives r2 t Closed"
  proof (cases "t = []")
    case True
    with skip_newline_at_end[of r1 Closed] r1(1) show ?thesis
      by (cases "skip_newline r1") (auto simp: at_end_def gives_def goes_on_def split: sum.splits)
  next
    case False
    with assms(4) skip_newline_more[OF r1(1)] show ?thesis by (metis append_Cons list.sel(1))
  qed
  with r1(2) False show ?thesis by (auto simp: delivered_def)
qed

text \<open>C15. Round trip. A session of messages, each an object or array of less than ten MiB on one line and each
  written in one of the two framings, is read back message by message, in order, up to the end of the
  input, in whatever chunks its bytes arrive.  A framed body comes back with the line feed that the
  writer adds.\<close>

theorem session_roundtrip:
  assumes "arrives r (concat (map wire fs)) Closed" "list_all frame_ok fs" "memlib_ok M"
  shows "read_all M (Suc (length fs)) r = Some (map delivered fs)"
  using assms
proof (induction fs arbitrary: r)
  case Nil
  then show ?case using read_end[of r M] by auto
next
  case (Cons f fs)
  then obtain r1 where "read_mcp_message M r = Some (Inr (Some (delivered f)), r1)"
      "arrives r1 (concat (map wire fs)) Closed"
    using read_frame[of r f "concat (map wire fs)" M] wires_front[of fs] by auto
  with Cons show ?case by simp
qed

definition demo_frames :: "frame list" where
  "demo_frames = [(True, ''{}''), (False, ''[]'')]"

definition demo_input :: "feed \<Rightarrow> bytes \<Rightarrow> reader" where
  "demo_input e s = \<lparr> rd_buf = [], rd_chunks = [take 7 s, drop 7 s], rd_end = e \<rparr>"

lemma demo_frames_ok: "list_all frame_ok demo_frames"
  by (simp add: demo_frames_def frame_ok_def json_text_def starts_with_def MAX_MCP_MESSAGE_BYTES_def
      utf8_valid_ascii bval_def)

lemma demo_input_arrives: "7 < length s \<Longrightarrow> arrives (demo_input e s) s e"
  by (auto simp: arrives_def demo_input_def)

theorem session_roundtrip_witness:
  "read_all ref_memlib 3 (demo_input Closed (concat (map wire demo_frames)))
     = Some [\<lparr> mm_body = ''{}'', mm_has_headers = False \<rparr>, \<lparr> mm_body = ''[]'' @ [LF], mm_has_headers = True \<rparr>]"
proof -
  have "7 < length (concat (map wire demo_frames))"
    using demo_frames_ok by (simp add: demo_frames_def wire_eq)
  from session_roundtrip[OF demo_input_arrives[OF this] demo_frames_ok ref_memlib_ok]
  show ?thesis by (simp add: demo_frames_def delivered_def numeral_3_eq_3)
qed

text \<open>A message with headers that has arrived completely is not delivered as long as the peer keeps the
  stream open and sends nothing more: behind the body the reader looks for an optional newline and
  waits for a byte that need not come.  The same message on a stream that is closed, or followed by
  any further byte, is delivered.\<close>

theorem framed_message_waits:
  assumes "wire (False, j) = w" "json_text j" "memlib_ok M" "arrives r w Open"
    and "arrives q (w @ c # t) Open"
  shows "read_mcp_message M r = None
    \<and> (\<exists>q1. read_mcp_message M q = Some (Inr (Some (delivered (False, j))), q1))"
proof -
  have w: "w = ''Content-Length: '' @ nat_dec (Suc (length j)) @ [CR, LF, CR, LF] @ j @ [LF]"
    using assms(1,2) wire_eq[of "(False, j)"] by (simp add: frame_ok_def)
  obtain r1 where r1: "arrives r1 [] Open"
      "read_mcp_message M r = (case skip_newline r1 of None \<Rightarrow> None
       | Some (Inl err, r2) \<Rightarrow> Some (Inl err, r2)
       | Some (Inr _, r2) \<Rightarrow> Some (Inr (Some \<lparr> mm_body = j @ [LF], mm_has_headers = True \<rparr>), r2))"
    using read_framed_body[of r j "[]" Open M] assms(2-4) w by auto
  have "skip_newline r1 = None"
    using skip_newline_at_end[OF r1(1)] by (cases "skip_newline r1") (auto simp: at_end_def gives_def)
  moreover obtain q1 where q1: "arrives q1 (c # t) Open"
      "read_mcp_message M q = (case skip_newline q1 of None \<Rightarrow> None
       | Some (Inl err, r2) \<Rightarrow> Some (Inl err, r2)
       | Some (Inr _, r2) \<Rightarrow> Some (Inr (Some \<lparr> mm_body = j @ [LF], mm_has_headers = True \<rparr>), r2))"
    using read_framed_body[of q j "c # t" Open M] assms(2,3,5) w by auto
  moreover obtain q2 where "skip_newline q1 = Some (Inr (), q2)"
    using skip_newline_more[OF q1(1)] by blast
  ultimately show ?thesis using r1(2) by (simp add: delivered_def)
qed

theorem framed_message_waits_witness:
  "read_mcp_message ref_memlib (demo_input Open (wire (False, ''[]''))) = None
   \<and> (\<exists>q1. read_mcp_message ref_memlib (demo_input Open (wire (False, ''[]'') @ ''C''))
       = Some (Inr (Some \<lparr> mm_body = ''[]'' @ [LF], mm_has_headers = True \<rparr>), q1))"
proof -
  have ok: "json_text ''[]''" using demo_frames_ok by (simp add: demo_frames_def frame_ok_def)
  then have "7 < length (wire (False, ''[]''))" by (simp add: wire_eq frame_ok_def)
  with framed_message_waits[OF refl ok ref_memlib_ok demo_input_arrives demo_input_arrives]
  show ?thesis by (simp add: delivered_def)
qed

end
