(* ===== verification/ToolRegistry.thy ===== *)
theory ToolRegistry
  imports GitTypes
begin

text \<open>
  JSON-RPC responses and the registry of tools, from \<^verbatim>\<open>response.rs\<close>, \<^verbatim>\<open>tool_outcome.rs\<close> and
  \<^verbatim>\<open>tool_registry.rs\<close> of \<^verbatim>\<open>tools-mcp-core\<close>, and the table of all tools of the server
  (\<^verbatim>\<open>composition.rs\<close> and the \<open>register_tools\<close> of the crates).  What a tool does is the type
  parameter of the registry.
\<close>

section \<open>Responses\<close>

record rpc_error =
  er_code :: int
  er_message :: bytes

record rpc_response =
  rs_id :: "json option"
  rs_result :: "json option"
  rs_error :: "rpc_error option"

definition rpc_ok :: "json option \<Rightarrow> json \<Rightarrow> rpc_response" where
  "rpc_ok i result = \<lparr> rs_id = i, rs_result = Some result, rs_error = None \<rparr>"

definition protocol_error :: "json option \<Rightarrow> int \<Rightarrow> bytes \<Rightarrow> rpc_response" where
  "protocol_error i code msg =
     \<lparr> rs_id = i, rs_result = None, rs_error = Some \<lparr> er_code = code, er_message = msg \<rparr> \<rparr>"

definition text_content_item :: "bytes \<Rightarrow> json" where
  "text_content_item txt = JObj [(''type'', JStr ''text''), (''text'', JStr txt)]"

definition text_content_result :: "bytes \<Rightarrow> bool \<Rightarrow> json" where
  "text_content_result txt is_error =
     JObj [(''content'', JArr [text_content_item txt]), (''isError'', JBool is_error)]"

definition rpc_err :: "json option \<Rightarrow> bytes \<Rightarrow> rpc_response" where
  "rpc_err i msg = rpc_ok i (text_content_result msg True)"

text \<open>The serialised response: the id is always there (\<open>null\<close> when there is none), and of result and
  error the one that is present.\<close>

definition rpc_response_json :: "rpc_response \<Rightarrow> json" where
  "rpc_response_json r =
     JObj ([(''jsonrpc'', JStr ''2.0''), (''id'', case rs_id r of Some i \<Rightarrow> i | None \<Rightarrow> JNull)]
       @ (case rs_result r of Some v \<Rightarrow> [(''result'', v)] | None \<Rightarrow> [])
       @ (case rs_error r of
            Some e \<Rightarrow> [(''error'', JObj [(''code'', JNum (er_code e)), (''message'', JStr (er_message e))])]
          | None \<Rightarrow> []))"

text \<open>The outcome of a dispatched tool: a result object, or nothing because the call was cancelled.\<close>

datatype dispatch_outcome = Respond json | Cancelled

fun into_rpc_response :: "json option \<Rightarrow> dispatch_outcome \<Rightarrow> rpc_response option" where
  "into_rpc_response i (Respond outcome) = Some (rpc_ok i outcome)"
| "into_rpc_response i Cancelled = None"

section \<open>The registry\<close>

record 'x tool =
  tl_name :: bytes
  tl_aliases :: "bytes list"
  tl_description :: bytes
  tl_schema :: json
  tl_exec :: 'x

record tool_def =
  td_name :: bytes
  td_description :: bytes
  td_schema :: json

record 'x tool_registry =
  tr_definitions :: "tool_def list"
  tr_executors :: "'x list"
  tr_lookup :: "(bytes \<times> nat) list"

definition registry_new :: "'x tool_registry" where
  "registry_new = \<lparr> tr_definitions = [], tr_executors = [], tr_lookup = [] \<rparr>"

definition lookup_tool :: "'x tool_registry \<Rightarrow> bytes \<Rightarrow> nat option" where
  "lookup_tool reg name = map_of (tr_lookup reg) name"

fun aliases_ok :: "'x tool_registry \<Rightarrow> bytes \<Rightarrow> bytes list \<Rightarrow> bytes list \<Rightarrow> bool" where
  "aliases_ok reg name seen [] = True"
| "aliases_ok reg name seen (a # as) =
     (a \<noteq> [] \<and> a \<noteq> name \<and> a \<notin> set seen \<and> lookup_tool reg a = None \<and> aliases_ok reg name (a # seen) as)"

definition can_register :: "'x tool_registry \<Rightarrow> 'x tool \<Rightarrow> bool" where
  "can_register reg t \<longleftrightarrow>
     tl_name t \<noteq> [] \<and> lookup_tool reg (tl_name t) = None \<and> aliases_ok reg (tl_name t) [] (tl_aliases t)"

definition register_tool :: "'x tool \<Rightarrow> 'x tool_registry \<Rightarrow> 'x tool_registry option" where
  \<comment> \<open>\<open>None\<close> is the panic of a failed assertion\<close>
  "register_tool t reg =
     (if \<not> can_register reg t then None
      else
        let index = length (tr_definitions reg) in
        Some \<lparr> tr_definitions = tr_definitions reg @
                 [\<lparr> td_name = tl_name t, td_description = tl_description t, td_schema = tl_schema t \<rparr>],
               tr_executors = tr_executors reg @ [tl_exec t],
               tr_lookup = map (\<lambda>n. (n, index)) (rev (tl_aliases t) @ [tl_name t]) @ tr_lookup reg \<rparr>)"

fun register_all :: "'x tool list \<Rightarrow> 'x tool_registry \<Rightarrow> 'x tool_registry option" where
  "register_all [] reg = Some reg"
| "register_all (t # ts) reg = (case register_tool t reg of None \<Rightarrow> None | Some reg1 \<Rightarrow> register_all ts reg1)"

definition find_executor :: "'x tool_registry \<Rightarrow> bytes \<Rightarrow> 'x option" where
  "find_executor reg name =
     (case lookup_tool reg name of
        None \<Rightarrow> None
      | Some i \<Rightarrow> if i < length (tr_executors reg) then Some (tr_executors reg ! i) else None)"

definition call_with_cancellation ::
  "('x \<Rightarrow> json option \<Rightarrow> json \<Rightarrow> json) \<Rightarrow> 'x tool_registry \<Rightarrow> bytes \<Rightarrow> json option \<Rightarrow> json \<Rightarrow> bool
   \<Rightarrow> dispatch_outcome option" where
  \<comment> \<open>\<open>cancelled\<close> is the state of the token when the tool has returned\<close>
  "call_with_cancellation run reg name i args cancelled =
     (case find_executor reg name of
        None \<Rightarrow> None
      | Some x \<Rightarrow> Some (if cancelled then Cancelled else Respond (run x i args)))"

definition registry_call ::
  "('x \<Rightarrow> json option \<Rightarrow> json \<Rightarrow> json) \<Rightarrow> 'x tool_registry \<Rightarrow> bytes \<Rightarrow> json option \<Rightarrow> json \<Rightarrow> rpc_response option" where
  "registry_call run reg name i args =
     Option.bind (call_with_cancellation run reg name i args False) (into_rpc_response i)"

section \<open>The tools of the server\<close>

text \<open>Names and aliases in the order of registration; three groups depend on the environment.\<close>

type_synonym tool_names = "bytes \<times> bytes list"

record server_flags =
  enable_pwsh :: bool
  semantic_backend :: bool
  enable_git :: bool

definition ping_tool :: tool_names where
  "ping_tool = (''Ping'', [''ping''])"

definition ado_tools :: "tool_names list" where
  "ado_tools = [(''AdoWorkItems'', [])]"

definition webfetch_tools :: "tool_names list" where
  "webfetch_tools = [(''WebFetch'', [])]"

definition local_tools :: "server_flags \<Rightarrow> tool_names list" where
  "local_tools fl =
     [(''Read'', []), (''Edit'', []), (''Write'', []), (''Delete'', []), (''Glob'', []), (''Move'', []),
      (''Copy'', []), (''ListDir'', []), (''CountLines'', []), (''Outline'', [])]
     @ (if enable_pwsh fl then [(''Pwsh'', [])] else [])
     @ [(''Search'', []), (''search_context'', [])]"

definition semantic_tools :: "server_flags \<Rightarrow> tool_names list" where
  "semantic_tools fl =
     (if semantic_backend fl then [(''SemanticIndex'', []), (''SemanticSearch'', [])] else [])"

definition git_tools :: "server_flags \<Rightarrow> tool_names list" where
  "git_tools fl =
     (if enable_git fl then
        [(''git_snapshot'', []), (''GitStatus'', []), (''GitDiff'', []), (''GitApply'', []), (''GitHunks'', []),
         (''GitStageHunks'', []), (''GitRestore'', []), (''GitAdd'', []), (''GitCommit'', []), (''GitLog'', []),
         (''GitBranch'', []), (''GitCheckout'', []), (''GitStash'', []), (''GitShow'', []), (''GitBlame'', [])]
      else [])"

definition server_tools :: "server_flags \<Rightarrow> tool_names list" where
  "server_tools fl =
     ping_tool # ado_tools @ webfetch_tools @ local_tools fl @ semantic_tools fl @ git_tools fl"

definition build_tool_registry ::
  "(bytes \<Rightarrow> bytes \<times> json \<times> 'x) \<Rightarrow> server_flags \<Rightarrow> 'x tool_registry option" where
  \<comment> \<open>\<open>about\<close> gives the description, the schema and the code of a tool\<close>
  "build_tool_registry about fl =
     register_all (map (\<lambda>(n, as). case about n of (d, sch, x) \<Rightarrow>
         \<lparr> tl_name = n, tl_aliases = as, tl_description = d, tl_schema = sch, tl_exec = x \<rparr>) (server_tools fl))
       registry_new"

section \<open>What registration keeps\<close>

definition registry_wf :: "'x tool_registry \<Rightarrow> bool" where
  \<comment> \<open>every name leads to a tool, no name to two, and every definition is found under its own name\<close>
  "registry_wf reg \<longleftrightarrow>
     length (tr_executors reg) = length (tr_definitions reg)
     \<and> distinct (map fst (tr_lookup reg))
     \<and> (\<forall>(n, i) \<in> set (tr_lookup reg). n \<noteq> [] \<and> i < length (tr_definitions reg))
     \<and> (\<forall>i < length (tr_definitions reg). lookup_tool reg (td_name (tr_definitions reg ! i)) = Some i)"

lemma registry_new_wf: "registry_wf registry_new"
  by (simp add: registry_wf_def registry_new_def)

lemma aliases_ok_iff:
  "aliases_ok reg name seen as \<longleftrightarrow>
     distinct as \<and> set as \<inter> set seen = {} \<and> name \<notin> set as \<and> [] \<notin> set as
     \<and> (\<forall>a \<in> set as. lookup_tool reg a = None)"
  by (induction as arbitrary: seen) auto

lemma lookup_None_iff: "lookup_tool reg n = None \<longleftrightarrow> n \<notin> fst ` set (tr_lookup reg)"
  by (simp add: lookup_tool_def map_of_eq_None_iff)

lemma can_register_iff:
  "can_register reg t \<longleftrightarrow>
     distinct (tl_name t # tl_aliases t) \<and> [] \<notin> set (tl_name t # tl_aliases t)
     \<and> set (tl_name t # tl_aliases t) \<inter> fst ` set (tr_lookup reg) = {}"
  by (auto simp: can_register_def aliases_ok_iff lookup_None_iff)

lemma can_register_fresh:
  "can_register reg t \<Longrightarrow> n = tl_name t \<or> n \<in> set (tl_aliases t) \<Longrightarrow> lookup_tool reg n = None"
  by (auto simp: can_register_def aliases_ok_iff)

lemma map_of_keys_add: "(m ++ map_of (map (\<lambda>k. (k, i)) ks)) n = (if n \<in> set ks then Some i else m n)"
  by (induction ks) (auto simp: map_add_def)

lemma lookup_register:
  assumes "register_tool t reg = Some reg1"
  shows "lookup_tool reg1 n = (if n = tl_name t \<or> n \<in> set (tl_aliases t)
     then Some (length (tr_definitions reg)) else lookup_tool reg n)"
  using assms
  by (simp add: register_tool_def lookup_tool_def Let_def map_of_keys_add split: if_splits)
    (auto simp: map_of_keys_add)

lemma register_tool_wf:
  assumes "registry_wf reg" "register_tool t reg = Some reg1"
  shows "registry_wf reg1"
proof -
  let ?n = "length (tr_definitions reg)"
  from assms(2) have can: "can_register reg t" and reg1: "reg1 = \<lparr> tr_definitions = tr_definitions reg @
        [\<lparr> td_name = tl_name t, td_description = tl_description t, td_schema = tl_schema t \<rparr>],
      tr_executors = tr_executors reg @ [tl_exec t],
      tr_lookup = map (\<lambda>n. (n, ?n)) (rev (tl_aliases t) @ [tl_name t]) @ tr_lookup reg \<rparr>"
    by (auto simp: register_tool_def Let_def split: if_splits)
  note fresh = can[unfolded can_register_iff]
  have "distinct (map fst (tr_lookup reg1))"
    using assms(1) fresh by (auto simp: registry_wf_def reg1 comp_def)
  moreover have "\<forall>(n, i) \<in> set (tr_lookup reg1). n \<noteq> [] \<and> i < length (tr_definitions reg1)"
    using assms(1) fresh by (auto simp: registry_wf_def reg1)
  moreover have "lookup_tool reg1 (td_name (tr_definitions reg1 ! i)) = Some i" if "i < Suc ?n" for i
  proof (cases "i = ?n")
    case True
    then show ?thesis by (simp add: lookup_register[OF assms(2)]) (simp add: reg1)
  next
    case False
    with that have i: "i < ?n" by simp
    then have "lookup_tool reg (td_name (tr_definitions reg ! i)) = Some i"
      using assms(1) by (auto simp: registry_wf_def)
    moreover from this have "td_name (tr_definitions reg ! i) \<in> fst ` set (tr_lookup reg)"
      using lookup_None_iff[of reg] by (metis option.distinct(1))
    ultimately have "lookup_tool reg1 (td_name (tr_definitions reg ! i)) = Some i"
      using can_register_fresh[OF can, of "td_name (tr_definitions reg ! i)"]
      by (auto simp: lookup_register[OF assms(2)])
    then show ?thesis using i by (simp add: reg1 nth_append)
  qed
  ultimately show ?thesis using assms(1) by (simp add: registry_wf_def reg1)
qed

lemma register_all_wf: "registry_wf reg \<Longrightarrow> register_all ts reg = Some reg1 \<Longrightarrow> registry_wf reg1"
  by (induction ts arbitrary: reg) (auto intro: register_tool_wf split: option.splits)

definition tool_keys :: "'x tool list \<Rightarrow> bytes list" where
  "tool_keys ts = concat (map (\<lambda>t. tl_name t # tl_aliases t) ts)"

lemma register_tool_keys:
  "register_tool t reg = Some reg1 \<Longrightarrow>
     fst ` set (tr_lookup reg1) = set (tl_name t # tl_aliases t) \<union> fst ` set (tr_lookup reg)"
  by (auto simp: register_tool_def Let_def image_Un image_image split: if_splits)

lemma register_all_iff:
  "(\<exists>reg1. register_all ts reg = Some reg1) \<longleftrightarrow>
     distinct (tool_keys ts) \<and> [] \<notin> set (tool_keys ts) \<and> set (tool_keys ts) \<inter> fst ` set (tr_lookup reg) = {}"
proof (induction ts arbitrary: reg)
  case Nil
  show ?case by (simp add: tool_keys_def)
next
  case (Cons t ts)
  show ?case
  proof (cases "register_tool t reg")
    case None
    then have "\<not> can_register reg t" by (auto simp: register_tool_def Let_def split: if_splits)
    with None show ?thesis by (auto simp: can_register_iff tool_keys_def)
  next
    case (Some reg1)
    then have "can_register reg t" by (auto simp: register_tool_def split: if_splits)
    then have head: "distinct (tl_name t # tl_aliases t) \<and> [] \<notin> set (tl_name t # tl_aliases t)
        \<and> set (tl_name t # tl_aliases t) \<inter> fst ` set (tr_lookup reg) = {}"
      by (rule can_register_iff[THEN iffD1])
    have keys: "tool_keys (t # ts) = (tl_name t # tl_aliases t) @ tool_keys ts" by (simp add: tool_keys_def)
    have "(\<exists>reg2. register_all (t # ts) reg = Some reg2) \<longleftrightarrow> (\<exists>reg2. register_all ts reg1 = Some reg2)"
      using Some by simp
    also have "\<dots> \<longleftrightarrow> distinct (tool_keys ts) \<and> [] \<notin> set (tool_keys ts) \<and>
        set (tool_keys ts) \<inter> (set (tl_name t # tl_aliases t) \<union> fst ` set (tr_lookup reg)) = {}"
      by (simp only: Cons.IH[of reg1] register_tool_keys[OF Some])
    also have "\<dots> \<longleftrightarrow> distinct (tool_keys (t # ts)) \<and> [] \<notin> set (tool_keys (t # ts)) \<and>
        set (tool_keys (t # ts)) \<inter> fst ` set (tr_lookup reg) = {}"
      using head by (auto simp: keys)
    finally show ?thesis .
  qed
qed

lemma register_all_finds:
  assumes "register_all ts reg = Some reg1" "registry_wf reg"
  shows "lookup_tool reg n = Some i \<Longrightarrow> lookup_tool reg1 n = Some i"
    and "t \<in> set ts \<Longrightarrow> n = tl_name t \<or> n \<in> set (tl_aliases t) \<Longrightarrow> find_executor reg1 n = Some (tl_exec t)"
proof -
  have keep: "register_all ts reg = Some reg1 \<Longrightarrow> registry_wf reg \<Longrightarrow>
      (\<exists>ds xs. tr_definitions reg1 = tr_definitions reg @ ds \<and> tr_executors reg1 = tr_executors reg @ xs)
      \<and> (\<forall>n i. lookup_tool reg n = Some i \<longrightarrow> lookup_tool reg1 n = Some i)" for ts reg and reg1 :: "'a tool_registry"
  proof (induction ts arbitrary: reg)
    case (Cons t ts)
    then obtain reg2 where r: "register_tool t reg = Some reg2" "register_all ts reg2 = Some reg1"
      by (auto split: option.splits)
    have "can_register reg t" using r(1) by (auto simp: register_tool_def split: if_splits)
    then have "lookup_tool reg2 n = Some i" if "lookup_tool reg n = Some i" for n i
      using that can_register_fresh[of reg t n] by (auto simp: lookup_register[OF r(1)])
    moreover have "\<exists>d x. tr_definitions reg2 = tr_definitions reg @ d \<and> tr_executors reg2 = tr_executors reg @ x"
      using r(1) by (auto simp: register_tool_def Let_def split: if_splits)
    ultimately show ?case
      using Cons.IH[OF r(2) register_tool_wf[OF Cons.prems(2) r(1)]] by fastforce
  qed simp
  from keep[OF assms] show "lookup_tool reg n = Some i \<Longrightarrow> lookup_tool reg1 n = Some i" by blast
  show "t \<in> set ts \<Longrightarrow> n = tl_name t \<or> n \<in> set (tl_aliases t) \<Longrightarrow> find_executor reg1 n = Some (tl_exec t)"
    using assms
  proof (induction ts arbitrary: reg)
    case (Cons u ts)
    then obtain reg2 where r: "register_tool u reg = Some reg2" "register_all ts reg2 = Some reg1"
      by (auto split: option.splits)
    note wf2 = register_tool_wf[OF Cons.prems(4) r(1)]
    show ?case
    proof (cases "t \<in> set ts")
      case True
      then show ?thesis using Cons.IH Cons.prems(2) r(2) wf2 by blast
    next
      case False
      let ?i = "length (tr_definitions reg)"
      from False Cons.prems(1,2) have "lookup_tool reg2 n = Some ?i" "t = u" by (auto simp: lookup_register[OF r(1)])
      moreover have "tr_executors reg2 = tr_executors reg @ [tl_exec u]" "length (tr_executors reg) = ?i"
        using r(1) Cons.prems(4) by (auto simp: register_tool_def registry_wf_def Let_def split: if_splits)
      ultimately show ?thesis using keep[OF r(2) wf2] by (auto simp: find_executor_def nth_append)
    qed
  qed simp
qed

text \<open>The server starts in every environment: no two of its tools share a name or an alias, so no
  assertion of the registration fails.  In the registry that is built every definition is found under
  its own name, each name leads to one tool, and calling a registered name or alias runs that tool.\<close>

theorem server_registry_complete:
  "\<exists>reg. build_tool_registry about fl = Some reg \<and> registry_wf reg
     \<and> map td_name (tr_definitions reg) = map fst (server_tools fl)
     \<and> list_all (\<lambda>(n, as). list_all (\<lambda>k. find_executor reg k = Some (snd (snd (about n)))) (n # as)) (server_tools fl)"
proof -
  let ?mk = "\<lambda>(n, as). case about n of (d, sch, x) \<Rightarrow>
         \<lparr> tl_name = n, tl_aliases = as, tl_description = d, tl_schema = sch, tl_exec = x \<rparr>"
  let ?ts = "map ?mk (server_tools fl)"
  have mk: "tl_name (?mk p) = fst p" "tl_aliases (?mk p) = snd p" "tl_exec (?mk p) = snd (snd (about (fst p)))" for p
    by (simp_all split: prod.split)
  have keys: "tool_keys ?ts = concat (map (\<lambda>p. fst p # snd p) (server_tools fl))"
    by (simp add: tool_keys_def comp_def mk)
  let ?keys = "concat (map (\<lambda>p. fst p # snd p) (server_tools fl))"
  have "distinct ?keys \<and> [] \<notin> set ?keys"
    by (cases "enable_pwsh fl"; cases "semantic_backend fl"; cases "enable_git fl")
      (simp_all add: server_tools_def ping_tool_def ado_tools_def webfetch_tools_def local_tools_def
        semantic_tools_def git_tools_def)
  then have "distinct (tool_keys ?ts) \<and> [] \<notin> set (tool_keys ?ts)" unfolding keys .
  then obtain reg where reg: "register_all ?ts registry_new = Some reg"
    using register_all_iff[of ?ts registry_new] by (auto simp: registry_new_def)
  have names: "register_all ts r = Some reg \<Longrightarrow>
      map td_name (tr_definitions reg) = map td_name (tr_definitions r) @ map tl_name ts" for ts r
  proof (induction ts arbitrary: r)
    case (Cons t ts)
    then obtain r2 where "register_tool t r = Some r2" "register_all ts r2 = Some reg"
      by (auto split: option.splits)
    with Cons.IH[of r2] show ?case by (auto simp: register_tool_def Let_def split: if_splits)
  qed simp
  have "build_tool_registry about fl = Some reg" using reg by (simp add: build_tool_registry_def)
  moreover have "registry_wf reg" using register_all_wf[OF registry_new_wf reg] .
  moreover have "map td_name (tr_definitions reg) = map fst (server_tools fl)"
    using names[OF reg] by (simp add: registry_new_def comp_def mk)
  moreover have "list_all (\<lambda>k. find_executor reg k = Some (snd (snd (about (fst p))))) (fst p # snd p)"
    if "p \<in> set (server_tools fl)" for p
    using register_all_finds(2)[OF reg registry_new_wf, of "?mk p"] that by (auto simp: list_all_iff mk)
  ultimately show ?thesis by (auto simp: list_all_iff split: prod.split)
qed

end
