(* ===== verification/Rpc.thy ===== *)
theory Rpc
  imports ToolRegistry
begin

text \<open>
  JSON-RPC of the server (\<^verbatim>\<open>mcp_server.rs\<close>): the classification of a message, the answers that do not
  depend on a tool, the dispatch of a request up to its tool and from the tool's result on, and the
  registry of requests in flight (\<^verbatim>\<open>composition.rs\<close>).  \<^verbatim>\<open>serde_json::from_str\<close> is the parameter
  \<open>from_str\<close>.  A cancellation token is a number; the tokens that were cancelled are a set beside the
  map of the registry, because all clones of a token share one state.
\<close>

section \<open>Values\<close>

fun as_str :: "json \<Rightarrow> bytes option" where
  "as_str (JStr s) = Some s"
| "as_str _ = None"

fun is_object :: "json \<Rightarrow> bool" where
  "is_object (JObj kvs) = True"
| "is_object _ = False"

definition get_str :: "bytes \<Rightarrow> json \<Rightarrow> bytes option" where
  "get_str k v = Option.bind (json_get k v) as_str"

definition or_else :: "'a option \<Rightarrow> 'a option \<Rightarrow> 'a option" where
  "or_else a b = (case a of Some x \<Rightarrow> Some x | None \<Rightarrow> b)"

lemma or_else_simps [simp]: "or_else (Some x) b = Some x" "or_else None b = b"
  by (simp_all add: or_else_def)

definition empty_params :: json where
  "empty_params = JObj []"

section \<open>Requests\<close>

datatype method_kind =
    Ping | Initialize | ToolsList | ToolsCall | Shutdown
  | InitializedNotification | CancelledNotification | UnknownMethod

definition method_from_name :: "bytes \<Rightarrow> method_kind" where
  "method_from_name m =
     (if m \<in> {''ping'', ''mcp/ping''} then Ping
      else if m \<in> {''mcp/initialize'', ''initialize'', ''server/initialize''} then Initialize
      else if m \<in> {''mcp/tools/list'', ''tools/list'', ''server/tools/list'', ''mcp/capabilities'', ''capabilities''}
        then ToolsList
      else if m \<in> {''mcp/tools/call'', ''tools/call'', ''server/tools/call''} then ToolsCall
      else if m \<in> {''mcp/shutdown'', ''shutdown'', ''server/shutdown''} then Shutdown
      else if m \<in> {''notifications/initialized'', ''initialized''} then InitializedNotification
      else if m = ''notifications/cancelled'' then CancelledNotification
      else UnknownMethod)"

record rpc_request =
  rq_id :: "json option"
  rq_is_notification :: bool
  rq_method :: bytes
  rq_method_kind :: method_kind
  rq_params :: json

datatype parse_error = ParseError | InvalidRequest "json option" bytes

datatype batch_item =
    BatchRequest rpc_request
  | BatchResponse
  | BatchInvalid "json option" bytes

datatype rpc_message =
    SingleRequest rpc_request
  | Response
  | Batch "batch_item list"

definition MAX_JSONRPC_BATCH_ITEMS :: nat where "MAX_JSONRPC_BATCH_ITEMS = 256"

fun is_valid_request_id_value :: "json option \<Rightarrow> bool" where
  "is_valid_request_id_value (Some JNull) = True"
| "is_valid_request_id_value (Some (JStr _)) = True"
| "is_valid_request_id_value (Some (JNum _)) = True"
| "is_valid_request_id_value (Some (JFloat _)) = True"
| "is_valid_request_id_value _ = False"

definition extract_request_id :: "json option \<Rightarrow> json option option" where
  "extract_request_id i =
     (case i of None \<Rightarrow> Some None
      | Some v \<Rightarrow> if is_valid_request_id_value (Some v) then Some (Some v) else None)"

definition is_rpc_response_value :: "json \<Rightarrow> bool" where
  "is_rpc_response_value v \<longleftrightarrow>
     is_object v \<and> get_str ''jsonrpc'' v = Some ''2.0'' \<and> json_get ''method'' v = None
     \<and> (json_get ''result'' v \<noteq> None) \<noteq> (json_get ''error'' v \<noteq> None)
     \<and> json_get ''id'' v \<noteq> None \<and> is_valid_request_id_value (json_get ''id'' v)"

definition parse_rpc_request_value :: "json \<Rightarrow> parse_error + rpc_request" where
  "parse_rpc_request_value v =
     (if \<not> is_object v then Inl (InvalidRequest None ''Invalid Request: request must be a JSON object'')
      else
        let raw_id = json_get ''id'' v; is_notification = (raw_id = None) in
        case extract_request_id raw_id of
          None \<Rightarrow> Inl (InvalidRequest None ''Invalid Request: id must be a string, number, null, or omitted'')
        | Some i \<Rightarrow>
            if get_str ''jsonrpc'' v \<noteq> Some ''2.0'' then
              Inl (InvalidRequest i (''Invalid Request: jsonrpc must be '' @ [QUOTE] @ ''2.0'' @ [QUOTE]))
            else (case get_str ''method'' v of
                None \<Rightarrow> Inl (InvalidRequest i ''Invalid Request: method must be a string'')
              | Some method \<Rightarrow> Inr \<lparr> rq_id = i, rq_is_notification = is_notification, rq_method = method,
                  rq_method_kind = method_from_name method,
                  rq_params = (case json_get ''params'' v of Some p \<Rightarrow> p | None \<Rightarrow> empty_params) \<rparr>))"

fun parse_batch_item :: "json \<Rightarrow> batch_item option" where
  \<comment> \<open>\<open>None\<close> is the \<open>unreachable!\<close> of the code\<close>
  "parse_batch_item item =
     (if is_rpc_response_value item then Some BatchResponse
      else (case parse_rpc_request_value item of
          Inr req \<Rightarrow> Some (BatchRequest req)
        | Inl (InvalidRequest i msg) \<Rightarrow> Some (BatchInvalid i msg)
        | Inl ParseError \<Rightarrow> None))"

definition parse_rpc_message :: "(bytes \<Rightarrow> json option) \<Rightarrow> bytes \<Rightarrow> (parse_error + rpc_message) option" where
  "parse_rpc_message from_str input =
     (case from_str input of
        None \<Rightarrow> Some (Inl ParseError)
      | Some (JArr items) \<Rightarrow>
          if items = [] then
            Some (Inl (InvalidRequest None ''Invalid Request: batch must contain at least one message''))
          else if MAX_JSONRPC_BATCH_ITEMS < length items then
            Some (Inl (InvalidRequest None (''Invalid Request: batch must contain at most ''
              @ nat_dec MAX_JSONRPC_BATCH_ITEMS @ '' messages'')))
          else map_option (\<lambda>batch. Inr (Batch batch)) (those (map parse_batch_item items))
      | Some v \<Rightarrow>
          if is_rpc_response_value v then Some (Inr Response)
          else Some (map_sum id SingleRequest (parse_rpc_request_value v)))"

section \<open>The requests in flight\<close>

datatype rpc_id = IdString bytes | IdNumber bytes | IdNull

definition int_dec :: "int \<Rightarrow> bytes" where
  "int_dec n = (if n < 0 then CHR ''-'' # nat_dec (nat (- n)) else nat_dec (nat n))"

fun rpc_id_from_value :: "json \<Rightarrow> rpc_id option" where
  "rpc_id_from_value (JStr s) = Some (IdString s)"
| "rpc_id_from_value (JNum n) = Some (IdNumber (int_dec n))"
| "rpc_id_from_value (JFloat s) = Some (IdNumber s)"
| "rpc_id_from_value JNull = Some IdNull"
| "rpc_id_from_value _ = None"

type_synonym token = nat

record inflight =
  if_entries :: "rpc_id \<rightharpoonup> token"
  if_cancelled :: "token set"

definition inflight_new :: inflight where
  "inflight_new = \<lparr> if_entries = Map.empty, if_cancelled = {} \<rparr>"

definition inflight_register :: "rpc_id \<Rightarrow> token \<Rightarrow> inflight \<Rightarrow> inflight" where
  "inflight_register i t fl = fl\<lparr> if_entries := (if_entries fl)(i \<mapsto> t) \<rparr>"

definition inflight_cancel :: "rpc_id \<Rightarrow> inflight \<Rightarrow> bool \<times> inflight" where
  "inflight_cancel i fl =
     (case if_entries fl i of
        Some t \<Rightarrow> (True, fl\<lparr> if_cancelled := insert t (if_cancelled fl) \<rparr>)
      | None \<Rightarrow> (False, fl))"

definition inflight_remove :: "rpc_id \<Rightarrow> inflight \<Rightarrow> inflight" where
  "inflight_remove i fl = fl\<lparr> if_entries := (if_entries fl)(i := None) \<rparr>"

section \<open>Static answers\<close>

record static_payloads =
  initialize_result :: json
  tools_list_result :: json
  ping_result :: json
  shutdown_result :: json

definition tool_def_json :: "tool_def \<Rightarrow> json" where
  "tool_def_json d =
     JObj [(''name'', JStr (td_name d)), (''description'', JStr (td_description d)), (''inputSchema'', td_schema d)]"

definition static_payloads_new :: "bytes option \<Rightarrow> tool_def list \<Rightarrow> static_payloads" where
  \<comment> \<open>\<open>version\<close> is the \<open>APP_VERSION\<close> of the build\<close>
  "static_payloads_new version tools =
     \<lparr> initialize_result = JObj [
         (''protocolVersion'', JStr ''2025-03-26''),
         (''serverInfo'', JObj [(''name'', JStr ''tools-mcp-server''),
            (''version'', JStr (case version of Some v \<Rightarrow> v | None \<Rightarrow> ''1.0.0''))]),
         (''capabilities'', JObj [(''tools'', JObj [(''list'', JBool True), (''call'', JBool True)])]),
         (''tools'', JArr (map tool_def_json tools))],
       tools_list_result = JObj [(''tools'', JArr (map tool_def_json tools))],
       ping_result = JObj [(''content'', JArr [JObj [(''type'', JStr ''text''), (''text'', JStr ''pong'')]]),
         (''isError'', JBool False)],
       shutdown_result = JObj [(''ok'', JBool True)] \<rparr>"

datatype dispatch_response = Owned rpc_response | BorrowedResult "json option" json

fun dispatch_response_id :: "dispatch_response \<Rightarrow> json option" where
  "dispatch_response_id (Owned r) = rs_id r"
| "dispatch_response_id (BorrowedResult i v) = i"

fun dispatch_response_json :: "dispatch_response \<Rightarrow> json" where
  "dispatch_response_json (Owned r) = rpc_response_json r"
| "dispatch_response_json (BorrowedResult i v) =
     JObj [(''jsonrpc'', JStr ''2.0''), (''id'', case i of Some x \<Rightarrow> x | None \<Rightarrow> JNull), (''result'', v)]"

definition cancelled_request_id :: "json \<Rightarrow> rpc_id option" where
  "cancelled_request_id params =
     (if is_object params then Option.bind (json_get ''requestId'' params) rpc_id_from_value else None)"

definition invalid_params_response :: "json option \<Rightarrow> bytes \<Rightarrow> dispatch_response \<times> bool" where
  "invalid_params_response i msg = (Owned (protocol_error i (-32602) msg), False)"

definition unknown_tool_response :: "json option \<Rightarrow> bytes \<Rightarrow> dispatch_response" where
  "unknown_tool_response i name = Owned (protocol_error i (-32601)
     (''Unknown tool: '' @ name @ ''. Call mcp/tools/list to see available tool names.''))"

definition unknown_method_response :: "json option \<Rightarrow> bytes \<Rightarrow> dispatch_response" where
  "unknown_method_response i m = Owned (protocol_error i (-32601) (''Method not found: '' @ m))"

section \<open>Dispatch\<close>

text \<open>What the dispatch of a request comes to before a tool runs: no response, a response with the
  flag that the server shall exit, or a tool with its arguments.\<close>

datatype 'x dispatched = Silent | Reply dispatch_response bool | Running 'x json

definition dispatch_notification :: "rpc_request \<Rightarrow> inflight \<Rightarrow> inflight" where
  "dispatch_notification req fl =
     (case rq_method_kind req of
        CancelledNotification \<Rightarrow>
          (case cancelled_request_id (rq_params req) of
             None \<Rightarrow> fl
           | Some i \<Rightarrow> snd (inflight_cancel i fl))
      | _ \<Rightarrow> fl)"

definition call_tool_name :: "json \<Rightarrow> bytes option" where
  "call_tool_name params =
     (case or_else (get_str ''name'' params) (or_else (get_str ''toolName'' params)
        (Option.bind (json_get ''call'' params) (get_str ''name''))) of
        Some n \<Rightarrow> if n = [] then None else Some n
      | None \<Rightarrow> None)"

definition call_tool_args :: "json \<Rightarrow> json" where
  "call_tool_args params =
     (case or_else (json_get ''arguments'' params) (or_else (json_get ''args'' params)
        (Option.bind (json_get ''call'' params) (json_get ''arguments''))) of
        Some a \<Rightarrow> a
      | None \<Rightarrow> empty_params)"

definition dispatch_tools_call :: "'x tool_registry \<Rightarrow> rpc_request \<Rightarrow> 'x dispatched" where
  "dispatch_tools_call reg req =
     (let params = rq_params req; reply = (\<lambda>(r, exit). Reply r exit) in
      if \<not> is_object params then
        reply (invalid_params_response (rq_id req) ''Invalid params: tools/call params must be an object'')
      else (case call_tool_name params of
          None \<Rightarrow> reply (invalid_params_response (rq_id req)
            ''Invalid params: tools/call requires a non-empty tool name'')
        | Some name \<Rightarrow> (case find_executor reg name of
            None \<Rightarrow> Reply (unknown_tool_response (rq_id req) name) False
          | Some x \<Rightarrow> Running x (call_tool_args params))))"

definition dispatch_start ::
  "'x tool_registry \<Rightarrow> static_payloads \<Rightarrow> rpc_request \<Rightarrow> inflight \<Rightarrow> 'x dispatched \<times> inflight" where
  "dispatch_start reg P req fl =
     (if rq_is_notification req then (Silent, dispatch_notification req fl)
      else (case rq_method_kind req of
          Ping \<Rightarrow> Reply (BorrowedResult (rq_id req) (ping_result P)) False
        | Initialize \<Rightarrow> Reply (BorrowedResult (rq_id req) (initialize_result P)) False
        | ToolsList \<Rightarrow> Reply (BorrowedResult (rq_id req) (tools_list_result P)) False
        | ToolsCall \<Rightarrow> dispatch_tools_call reg req
        | Shutdown \<Rightarrow> Reply (BorrowedResult (rq_id req) (shutdown_result P)) True
        | _ \<Rightarrow> Reply (unknown_method_response (rq_id req) (rq_method req)) False, fl))"

definition dispatch_finish :: "rpc_request \<Rightarrow> bool \<Rightarrow> json \<Rightarrow> (dispatch_response \<times> bool) option" where
  \<comment> \<open>\<open>cancelled\<close> is the state of the request's token when its tool has returned \<open>outcome\<close>\<close>
  "dispatch_finish req cancelled outcome =
     map_option (\<lambda>r. (Owned r, False))
       (into_rpc_response (rq_id req) (if cancelled then Cancelled else Respond outcome))"

text \<open>The whole dispatch, for tools that do not touch the registry of requests in flight.\<close>

definition dispatch_jsonrpc_request ::
  "('x \<Rightarrow> json option \<Rightarrow> json \<Rightarrow> json) \<Rightarrow> 'x tool_registry \<Rightarrow> static_payloads \<Rightarrow> rpc_request \<Rightarrow> token option
   \<Rightarrow> inflight \<Rightarrow> (dispatch_response \<times> bool) option \<times> inflight" where
  "dispatch_jsonrpc_request run reg P req tok fl =
     (case dispatch_start reg P req fl of
        (Silent, fl1) \<Rightarrow> (None, fl1)
      | (Reply r exit, fl1) \<Rightarrow> (Some (r, exit), fl1)
      | (Running x args, fl1) \<Rightarrow>
          (dispatch_finish req (case tok of Some t \<Rightarrow> t \<in> if_cancelled fl1 | None \<Rightarrow> False)
             (run x (rq_id req) args), fl1))"

fun batch_loop ::
  "('x \<Rightarrow> json option \<Rightarrow> json \<Rightarrow> json) \<Rightarrow> 'x tool_registry \<Rightarrow> static_payloads \<Rightarrow> batch_item list
   \<Rightarrow> dispatch_response list \<Rightarrow> bool \<Rightarrow> inflight \<Rightarrow> dispatch_response list \<times> bool \<times> inflight" where
  "batch_loop run reg P [] responses exit fl = (responses, exit, fl)"
| "batch_loop run reg P (BatchRequest req # items) responses exit fl =
     (case dispatch_jsonrpc_request run reg P req None fl of
        (Some (r, e), fl1) \<Rightarrow> batch_loop run reg P items (responses @ [r]) (exit \<or> e) fl1
      | (None, fl1) \<Rightarrow> batch_loop run reg P items responses exit fl1)"
| "batch_loop run reg P (BatchResponse # items) responses exit fl = batch_loop run reg P items responses exit fl"
| "batch_loop run reg P (BatchInvalid i msg # items) responses exit fl =
     batch_loop run reg P items (responses @ [Owned (protocol_error i (-32600) msg)]) exit fl"

definition dispatch_jsonrpc_batch ::
  "('x \<Rightarrow> json option \<Rightarrow> json \<Rightarrow> json) \<Rightarrow> 'x tool_registry \<Rightarrow> static_payloads \<Rightarrow> batch_item list \<Rightarrow> inflight
   \<Rightarrow> (dispatch_response list \<times> bool) option \<times> inflight" where
  "dispatch_jsonrpc_batch run reg P items fl =
     (case batch_loop run reg P items [] False fl of (responses, exit, fl1) \<Rightarrow>
        (if responses = [] then None else Some (responses, exit), fl1))"

end
