(* ===== verification/ServerLoop.thy ===== *)
theory ServerLoop
  imports Rpc Framing
begin

text \<open>
  The server loop (\<^verbatim>\<open>main.rs\<close> of \<^verbatim>\<open>tools-mcp-server\<close>) as a step relation: the reader that takes one
  message at a time, the tasks it spawns, the queue over which tasks tell the reader to stop, and
  the draining of the tasks when reading has ended.  A step of a task runs from one \<open>await\<close> to the
  next one; a tool's result, a panic of the tool and the success of a write are free in every step.
  The field \<open>sv_read\<close> (what was read so far) and \<open>sv_dropped\<close> (the messages that will get no reply, and
  why) are not in the program: they only record the history.  The number of a message in \<open>sv_read\<close>
  names its task and the cancellation token of its request.
\<close>

section \<open>State\<close>

datatype control = GracefulShutdown | AbortPendingTasks

datatype payload = One dispatch_response | Many "dispatch_response list"

datatype 'x stage =
    Dispatching rpc_request
  | InTool rpc_request 'x json
  | Batching "batch_item list" "dispatch_response list" bool
  | InBatchTool rpc_request 'x json "batch_item list" "dispatch_response list" bool
  | Writing payload bool
  | Ended

record 'x task =
  tk_serial :: nat
  tk_token :: "token option"
  tk_guard :: "rpc_id option"
  tk_skip_headers :: bool
  tk_stage :: "'x stage"
  tk_aborted :: bool

datatype phase = Reading | Left | Draining | Stopped

datatype input = Message mcp_message | Broken read_error

datatype reason = WasCancelled | Panicked | WriteFailed | Aborted

record reply =
  ot_serial :: nat
  ot_payload :: payload
  ot_skip_headers :: bool

record 'x server =
  sv_reader :: reader
  sv_phase :: phase
  sv_tasks :: "'x task list"
  sv_inflight :: inflight
  sv_control :: "control list"
  sv_abort_pending :: bool
  sv_abort_requested :: bool
  sv_out :: "reply list"
  sv_read :: "input list"
  sv_dropped :: "(nat \<times> reason) list"

record 'x config =
  cf_registry :: "'x tool_registry"
  cf_payloads :: static_payloads
  cf_from_str :: "bytes \<Rightarrow> json option"
  cf_skip_headers :: bool
  cf_memlib :: memlib

definition server_start :: "reader \<Rightarrow> 'x server" where
  \<comment> \<open>the reader holds all the input there will be, in the chunks it will arrive in\<close>
  "server_start r = \<lparr> sv_reader = r, sv_phase = Reading, sv_tasks = [], sv_inflight = inflight_new, sv_control = [],
     sv_abort_pending = False, sv_abort_requested = False, sv_out = [], sv_read = [], sv_dropped = [] \<rparr>"

section \<open>The tasks\<close>

definition put_task :: "'x task \<Rightarrow> 'x server \<Rightarrow> 'x server" where
  "put_task t s = s\<lparr> sv_tasks := map (\<lambda>u. if tk_serial u = tk_serial t then t else u) (sv_tasks s) \<rparr>"

definition set_stage :: "'x task \<Rightarrow> 'x stage \<Rightarrow> inflight \<Rightarrow> 'x server \<Rightarrow> 'x server" where
  "set_stage t st fl s = put_task (t\<lparr> tk_stage := st \<rparr>) (s\<lparr> sv_inflight := fl \<rparr>)"

definition end_task :: "'x task \<Rightarrow> reason option \<Rightarrow> inflight \<Rightarrow> 'x server \<Rightarrow> 'x server" where
  \<comment> \<open>the end of the task's future: its guard is dropped\<close>
  "end_task t why fl s =
     set_stage t Ended (case tk_guard t of Some i \<Rightarrow> inflight_remove i fl | None \<Rightarrow> fl)
       (s\<lparr> sv_dropped := sv_dropped s @ (case why of Some r \<Rightarrow> [(tk_serial t, r)] | None \<Rightarrow> []) \<rparr>)"

definition emit :: "nat \<Rightarrow> payload \<Rightarrow> bool \<Rightarrow> 'x server \<Rightarrow> 'x server" where
  "emit n p skip s =
     s\<lparr> sv_out := sv_out s @ [\<lparr> ot_serial = n, ot_payload = p, ot_skip_headers = skip \<rparr>] \<rparr>"

definition send_control :: "control \<Rightarrow> 'x server \<Rightarrow> 'x server" where
  "send_control c s = s\<lparr> sv_control := sv_control s @ [c] \<rparr>"

definition token_cancelled :: "'x task \<Rightarrow> inflight \<Rightarrow> bool" where
  "token_cancelled t fl = (case tk_token t of Some k \<Rightarrow> k \<in> if_cancelled fl | None \<Rightarrow> False)"

definition work_write :: "'x task \<Rightarrow> payload \<Rightarrow> bool \<Rightarrow> bool \<Rightarrow> 'x server \<Rightarrow> 'x server" where
  \<comment> \<open>\<open>ok\<close>: the write succeeds\<close>
  "work_write t p exit ok s =
     (if \<not> ok then
        end_task t (Some WriteFailed) (sv_inflight s)
          (send_control AbortPendingTasks (s\<lparr> sv_abort_requested := True \<rparr>))
      else
        let s1 = emit (tk_serial t) p (tk_skip_headers t) s in
        end_task t None (sv_inflight s1) (if exit then send_control GracefulShutdown s1 else s1))"

definition work_batch :: "'x config \<Rightarrow> 'x task \<Rightarrow> batch_item list \<Rightarrow> dispatch_response list \<Rightarrow> bool
    \<Rightarrow> 'x server \<Rightarrow> 'x server" where
  "work_batch C t items rs exit s =
     (case items of
        [] \<Rightarrow> if rs = [] then end_task t None (sv_inflight s) s
              else set_stage t (Writing (Many rs) exit) (sv_inflight s) s
      | BatchRequest req # rest \<Rightarrow>
          (case dispatch_start (cf_registry C) (cf_payloads C) req (sv_inflight s) of
             (Silent, fl) \<Rightarrow> set_stage t (Batching rest rs exit) fl s
           | (Reply r e, fl) \<Rightarrow> set_stage t (Batching rest (rs @ [r]) (exit \<or> e)) fl s
           | (Running x args, fl) \<Rightarrow> set_stage t (InBatchTool req x args rest rs exit) fl s)
      | BatchResponse # rest \<Rightarrow> set_stage t (Batching rest rs exit) (sv_inflight s) s
      | BatchInvalid i msg # rest \<Rightarrow>
          set_stage t (Batching rest (rs @ [Owned (protocol_error i (-32600) msg)]) exit) (sv_inflight s) s)"

definition work :: "'x config \<Rightarrow> json option \<Rightarrow> bool \<Rightarrow> 'x task \<Rightarrow> 'x server \<Rightarrow> 'x server" where
  \<comment> \<open>one step of a task; \<open>outcome\<close> is what a tool that ends in this step returns, \<open>None\<close> if it panics\<close>
  "work C outcome ok t s =
     (case tk_stage t of
        Dispatching req \<Rightarrow>
          (case dispatch_start (cf_registry C) (cf_payloads C) req (sv_inflight s) of
             (Silent, fl) \<Rightarrow> end_task t None fl s
           | (Reply r exit, fl) \<Rightarrow> set_stage t (Writing (One r) exit) fl s
           | (Running x args, fl) \<Rightarrow> set_stage t (InTool req x args) fl s)
      | InTool req x args \<Rightarrow>
          (case outcome of
             None \<Rightarrow> end_task t (Some Panicked) (sv_inflight s) s
           | Some j \<Rightarrow> (case dispatch_finish req (token_cancelled t (sv_inflight s)) j of
                 None \<Rightarrow> end_task t (Some WasCancelled) (sv_inflight s) s
               | Some (r, exit) \<Rightarrow> set_stage t (Writing (One r) exit) (sv_inflight s) s))
      | Batching items rs exit \<Rightarrow> work_batch C t items rs exit s
      | InBatchTool req x args rest rs exit \<Rightarrow>
          (case outcome of
             None \<Rightarrow> end_task t (Some Panicked) (sv_inflight s) s
           | Some j \<Rightarrow> (case dispatch_finish req False j of
                 None \<Rightarrow> set_stage t (Batching rest rs exit) (sv_inflight s) s
               | Some (r, e) \<Rightarrow> set_stage t (Batching rest (rs @ [r]) (exit \<or> e)) (sv_inflight s) s))
      | Writing p exit \<Rightarrow> work_write t p exit ok s
      | Ended \<Rightarrow> s)"

section \<open>The reader\<close>

definition request_requests_shutdown :: "rpc_request \<Rightarrow> bool" where
  "request_requests_shutdown req \<longleftrightarrow> \<not> rq_is_notification req \<and> rq_method_kind req = Shutdown"

fun item_requests_shutdown :: "batch_item \<Rightarrow> bool" where
  "item_requests_shutdown (BatchRequest req) = request_requests_shutdown req"
| "item_requests_shutdown BatchResponse = False"
| "item_requests_shutdown (BatchInvalid i msg) = False"

definition batch_requests_shutdown :: "batch_item list \<Rightarrow> bool" where
  "batch_requests_shutdown items = list_ex item_requests_shutdown items"

definition leave_loop :: "'x server \<Rightarrow> 'x server" where
  "leave_loop s = s\<lparr> sv_phase := Left \<rparr>"

definition abort_loop :: "'x server \<Rightarrow> 'x server" where
  "abort_loop s = leave_loop (s\<lparr> sv_abort_pending := True \<rparr>)"

definition reap :: "'x server \<Rightarrow> 'x server" where
  \<comment> \<open>\<open>try_join_next\<close> until it has nothing: the tasks that have ended leave the set\<close>
  "reap s = s\<lparr> sv_tasks := [t \<leftarrow> sv_tasks s. tk_stage t \<noteq> Ended] \<rparr>"

definition record_input :: "input \<Rightarrow> 'x server \<Rightarrow> 'x server" where
  "record_input x s = s\<lparr> sv_read := sv_read s @ [x] \<rparr>"

definition reader_reply :: "nat \<Rightarrow> rpc_response \<Rightarrow> bool \<Rightarrow> bool \<Rightarrow> 'x server \<Rightarrow> 'x server" where
  \<comment> \<open>a reply of the reader itself; a failed write ends the loop\<close>
  "reader_reply n r skip ok s =
     (if ok then emit n (One (Owned r)) skip s
      else abort_loop (s\<lparr> sv_dropped := sv_dropped s @ [(n, WriteFailed)] \<rparr>))"

definition skip_headers_for :: "'x config \<Rightarrow> bool \<Rightarrow> bool" where
  "skip_headers_for C has_headers = (if has_headers then False else cf_skip_headers C)"

definition spawn :: "'x task \<Rightarrow> 'x server \<Rightarrow> 'x server" where
  "spawn t s = s\<lparr> sv_tasks := sv_tasks s @ [t] \<rparr>"

definition on_request :: "'x config \<Rightarrow> nat \<Rightarrow> bool \<Rightarrow> rpc_request \<Rightarrow> 'x server \<Rightarrow> 'x server" where
  "on_request C n skip req s =
     (if rq_is_notification req then
        s\<lparr> sv_inflight := snd (dispatch_start (cf_registry C) (cf_payloads C) req (sv_inflight s)) \<rparr>
      else
        let token = if rq_method_kind req = ToolsCall then Some n else None;
            guard = if token = None then None else Option.bind (rq_id req) rpc_id_from_value;
            fl = (case guard of Some i \<Rightarrow> inflight_register i n (sv_inflight s) | None \<Rightarrow> sv_inflight s);
            s1 = spawn \<lparr> tk_serial = n, tk_token = token, tk_guard = guard, tk_skip_headers = skip,
                   tk_stage = Dispatching req, tk_aborted = False \<rparr> (s\<lparr> sv_inflight := fl \<rparr>)
        in if request_requests_shutdown req then leave_loop s1 else s1)"

definition on_batch :: "nat \<Rightarrow> bool \<Rightarrow> batch_item list \<Rightarrow> 'x server \<Rightarrow> 'x server" where
  "on_batch n skip items s =
     (let s1 = spawn \<lparr> tk_serial = n, tk_token = None, tk_guard = None, tk_skip_headers = skip,
                 tk_stage = Batching items [] False, tk_aborted = False \<rparr> s
      in if batch_requests_shutdown items then leave_loop s1 else s1)"

definition on_message :: "'x config \<Rightarrow> bool \<Rightarrow> mcp_message \<Rightarrow> 'x server \<Rightarrow> 'x server" where
  \<comment> \<open>\<open>ok\<close>: a reply that the reader writes itself gets through\<close>
  "on_message C ok m s0 =
     (let n = length (sv_read s0); s = record_input (Message m) s0; skip = skip_headers_for C (mm_has_headers m) in
      case parse_rpc_message (cf_from_str C) (mm_body m) of
        None \<Rightarrow> s
      | Some (Inl ParseError) \<Rightarrow> reader_reply n (protocol_error None (-32700) ''Parse error'') skip ok s
      | Some (Inl (InvalidRequest i msg)) \<Rightarrow> reader_reply n (protocol_error i (-32600) msg) skip ok s
      | Some (Inr Response) \<Rightarrow> s
      | Some (Inr (SingleRequest req)) \<Rightarrow> on_request C n skip req s
      | Some (Inr (Batch items)) \<Rightarrow> on_batch n skip items s)"

definition on_read_error :: "'x config \<Rightarrow> bool \<Rightarrow> read_error \<Rightarrow> 'x server \<Rightarrow> 'x server" where
  "on_read_error C ok err s0 =
     (let n = length (sv_read s0);
          s = reader_reply n (protocol_error None (-32700) ''Parse error'')
            (skip_headers_for C (re_has_headers err)) ok (record_input (Broken err) s0)
      in if \<not> ok \<or> re_continue err then s else abort_loop s)"

definition on_control :: "control \<Rightarrow> control list \<Rightarrow> 'x server \<Rightarrow> 'x server" where
  "on_control c cs s =
     (let s1 = s\<lparr> sv_control := cs \<rparr> in
      case c of GracefulShutdown \<Rightarrow> leave_loop s1 | AbortPendingTasks \<Rightarrow> abort_loop s1)"

definition abort_all :: "'x server \<Rightarrow> 'x server" where
  "abort_all s = s\<lparr> sv_tasks := map (\<lambda>t. t\<lparr> tk_aborted := True \<rparr>) (sv_tasks s) \<rparr>"

definition begin_drain :: "'x server \<Rightarrow> 'x server" where
  "begin_drain s =
     (if sv_abort_pending s \<or> sv_abort_requested s then abort_all s else s)\<lparr> sv_phase := Draining \<rparr>"

definition join_task :: "'x task \<Rightarrow> 'x server \<Rightarrow> 'x server" where
  "join_task t s =
     (let s1 = s\<lparr> sv_tasks := [u \<leftarrow> sv_tasks s. tk_serial u \<noteq> tk_serial t] \<rparr> in
      if sv_abort_requested s1 then abort_all s1 else s1)"

section \<open>The steps\<close>

definition on_input :: "'x config \<Rightarrow> bool \<Rightarrow> (read_error + mcp_message option) \<times> reader \<Rightarrow> 'x server \<Rightarrow> 'x server" where
  "on_input C ok res s =
     (let s1 = s\<lparr> sv_reader := snd res \<rparr> in
      case fst res of
        Inr (Some m) \<Rightarrow> on_message C ok m s1
      | Inr None \<Rightarrow> leave_loop s1
      | Inl err \<Rightarrow> on_read_error C ok err s1)"

text \<open>The \<open>select!\<close> is biased: the reader reads only when no control message is waiting.  (One that arrives
  between the two polls is one that arrives just after the read, which does not look at the queue.)\<close>

inductive step :: "'x config \<Rightarrow> 'x server \<Rightarrow> 'x server \<Rightarrow> bool" for C where
  step_read: "\<lbrakk>sv_phase s = Reading; sv_control s = []; read_mcp_message (cf_memlib C) (sv_reader s) = Some res\<rbrakk>
    \<Longrightarrow> step C s (on_input C ok res (reap s))"
| step_control: "\<lbrakk>sv_phase s = Reading; sv_control s = c # cs\<rbrakk> \<Longrightarrow> step C s (on_control c cs (reap s))"
| step_left: "sv_phase s = Left \<Longrightarrow> step C s (begin_drain s)"
| step_work: "\<lbrakk>sv_phase s \<noteq> Stopped; t \<in> set (sv_tasks s); tk_stage t \<noteq> Ended\<rbrakk>
    \<Longrightarrow> step C s (work C outcome ok t s)"
| step_drop: "\<lbrakk>sv_phase s \<noteq> Stopped; t \<in> set (sv_tasks s); tk_stage t \<noteq> Ended; tk_aborted t\<rbrakk>
    \<Longrightarrow> step C s (end_task t (Some Aborted) (sv_inflight s) s)"
| step_join: "\<lbrakk>sv_phase s = Draining; t \<in> set (sv_tasks s); tk_stage t = Ended\<rbrakk> \<Longrightarrow> step C s (join_task t s)"
| step_stop: "\<lbrakk>sv_phase s = Draining; sv_tasks s = []\<rbrakk> \<Longrightarrow> step C s (s\<lparr> sv_phase := Stopped \<rparr>)"

inductive reachable :: "'x config \<Rightarrow> 'x server \<Rightarrow> bool" for C where
  reach_start: "reachable C (server_start r)"
| reach_step: "reachable C s \<Longrightarrow> step C s s1 \<Longrightarrow> reachable C s1"

inductive_cases step_elim: "step C s s1"

end
