(* ===== verification/RpcProps.thy ===== *)
theory RpcProps
  imports Rpc
begin

text \<open>
  What a message calls for, stated on the JSON value without the parser of requests, and that the
  parser and the dispatch agree with it: which messages get a reply, and under which id.
\<close>

section \<open>The reply a message calls for\<close>

datatype expect = NoReply | OneReply "json option" | BatchReply "json option list"

definition request_shaped :: "json \<Rightarrow> bool" where
  "request_shaped v \<longleftrightarrow> get_str ''jsonrpc'' v = Some ''2.0'' \<and> get_str ''method'' v \<noteq> None"

definition reply_ids :: "json \<Rightarrow> json option list" where
  \<comment> \<open>the id under which a value is answered, if it is: a response never, a request without an id only
    when it is malformed\<close>
  "reply_ids v =
     (if is_rpc_response_value v then []
      else if \<not> is_object v then [None]
      else (case json_get ''id'' v of
          None \<Rightarrow> if request_shaped v then [] else [None]
        | Some i \<Rightarrow> if is_valid_request_id_value (Some i) then [Some i] else [None]))"

definition batch_expect :: "json option list \<Rightarrow> expect" where
  "batch_expect ids = (if ids = [] then NoReply else BatchReply ids)"

definition expects :: "(bytes \<Rightarrow> json option) \<Rightarrow> bytes \<Rightarrow> expect" where
  "expects from_str body =
     (case from_str body of
        None \<Rightarrow> OneReply None
      | Some (JArr items) \<Rightarrow>
          if items = [] \<or> MAX_JSONRPC_BATCH_ITEMS < length items then OneReply None
          else batch_expect (concat (map reply_ids items))
      | Some v \<Rightarrow> (case reply_ids v of [] \<Rightarrow> NoReply | i # is \<Rightarrow> OneReply i))"

section \<open>The parser agrees\<close>

definition request_ids :: "rpc_request \<Rightarrow> json option list" where
  "request_ids req = (if rq_is_notification req then [] else [rq_id req])"

fun item_ids :: "batch_item \<Rightarrow> json option list" where
  "item_ids (BatchRequest req) = request_ids req"
| "item_ids BatchResponse = []"
| "item_ids (BatchInvalid i msg) = [i]"

fun parsed_expect :: "parse_error + rpc_message \<Rightarrow> expect" where
  "parsed_expect (Inl ParseError) = OneReply None"
| "parsed_expect (Inl (InvalidRequest i msg)) = OneReply i"
| "parsed_expect (Inr Response) = NoReply"
| "parsed_expect (Inr (SingleRequest req)) = (if rq_is_notification req then NoReply else OneReply (rq_id req))"
| "parsed_expect (Inr (Batch items)) = batch_expect (concat (map item_ids items))"

lemma parse_request_ids:
  assumes "\<not> is_rpc_response_value v"
  shows "case parse_rpc_request_value v of
      Inl (InvalidRequest i msg) \<Rightarrow> reply_ids v = [i]
    | Inl ParseError \<Rightarrow> False
    | Inr req \<Rightarrow> reply_ids v = request_ids req"
proof (cases "is_object v")
  case False
  then show ?thesis using assms by (simp add: parse_rpc_request_value_def reply_ids_def)
next
  case obj: True
  show ?thesis
  proof (cases "extract_request_id (json_get ''id'' v)")
    case None
    then show ?thesis using obj assms
      by (auto simp: parse_rpc_request_value_def reply_ids_def extract_request_id_def split: option.splits if_splits)
  next
    case (Some i)
    then have "reply_ids v = (if i = None \<and> request_shaped v then [] else [i])" "(json_get ''id'' v = None) = (i = None)"
      using obj assms
      by (cases "json_get ''id'' v"; auto simp: reply_ids_def extract_request_id_def split: if_splits)+
    then show ?thesis using obj Some
      by (auto simp: parse_rpc_request_value_def request_shaped_def request_ids_def split: option.splits)
  qed
qed

lemma parse_batch_item_ids: "\<exists>item. parse_batch_item v = Some item \<and> item_ids item = reply_ids v"
proof (cases "is_rpc_response_value v")
  case True
  then show ?thesis by (simp add: reply_ids_def)
next
  case False
  with parse_request_ids[OF False] show ?thesis
    by (cases "parse_rpc_request_value v") (auto split: parse_error.splits)
qed

lemma parse_batch_ids:
  "\<exists>batch. those (map parse_batch_item items) = Some batch \<and> map item_ids batch = map reply_ids items"
proof (induction items)
  case (Cons v items)
  then show ?case using parse_batch_item_ids[of v] by (auto simp del: parse_batch_item.simps)
qed simp

text \<open>The parser is total: the \<open>unreachable!\<close> of the code is.  A message is read as what it calls for.\<close>

theorem parse_expects:
  "\<exists>res. parse_rpc_message from_str body = Some res \<and> parsed_expect res = expects from_str body"
proof (cases "from_str body")
  case None
  then show ?thesis by (simp add: parse_rpc_message_def expects_def)
next
  case (Some v)
  show ?thesis
  proof (cases "\<exists>items. v = JArr items")
    case True
    then obtain items where v: "v = JArr items" by blast
    obtain batch where b: "those (map parse_batch_item items) = Some batch" "map item_ids batch = map reply_ids items"
      using parse_batch_ids by blast
    show ?thesis using Some
      by (simp add: parse_rpc_message_def expects_def v b del: parse_batch_item.simps)
  next
    case False
    then have parsed: "parse_rpc_message from_str body = (if is_rpc_response_value v then Some (Inr Response)
          else Some (map_sum id SingleRequest (parse_rpc_request_value v)))"
      and ids: "expects from_str body = (case reply_ids v of [] \<Rightarrow> NoReply | i # is \<Rightarrow> OneReply i)"
      using Some by (cases v; simp add: parse_rpc_message_def expects_def)+
    show ?thesis
    proof (cases "is_rpc_response_value v")
      case True
      then show ?thesis by (simp add: parsed ids reply_ids_def)
    next
      case resp: False
      with parse_request_ids[OF resp] show ?thesis
        by (cases "parse_rpc_request_value v") (auto simp: parsed ids request_ids_def split: parse_error.splits)
    qed
  qed
qed

section \<open>The dispatch answers under the id of the request\<close>

lemma dispatch_tools_call_id: "dispatch_tools_call reg req = Reply r e \<Longrightarrow> dispatch_response_id r = rq_id req"
  by (auto simp: dispatch_tools_call_def Let_def invalid_params_response_def unknown_tool_response_def
      protocol_error_def split: if_splits option.splits)

lemma dispatch_tools_call_speaks: "dispatch_tools_call reg req \<noteq> Silent"
  by (simp add: dispatch_tools_call_def Let_def split: prod.split option.split)

lemma dispatch_start_cases:
  assumes "dispatch_start reg P req fl = (d, fl1)"
  shows "case d of Silent \<Rightarrow> rq_is_notification req \<and> fl1 = dispatch_notification req fl
    | Reply r e \<Rightarrow> \<not> rq_is_notification req \<and> fl1 = fl \<and> dispatch_response_id r = rq_id req
    | Running x args \<Rightarrow> \<not> rq_is_notification req \<and> fl1 = fl \<and> rq_method_kind req = ToolsCall"
proof (cases "rq_is_notification req")
  case True
  then show ?thesis using assms by (auto simp: dispatch_start_def)
next
  case False
  then show ?thesis using assms dispatch_tools_call_id[of reg req] dispatch_tools_call_speaks[of reg req]
    by (auto simp: dispatch_start_def unknown_method_response_def protocol_error_def
        split: method_kind.splits dispatched.splits)
qed

lemma dispatch_finish_id:
  "dispatch_finish req c j = Some (r, e) \<Longrightarrow> dispatch_response_id r = rq_id req"
  "dispatch_finish req c j = None \<longleftrightarrow> c"
  by (auto simp: dispatch_finish_def rpc_ok_def split: if_splits)

lemma batch_loop_ids:
  "batch_loop run reg P items rs exit fl = (rs1, exit1, fl1) \<Longrightarrow>
     map dispatch_response_id rs1 = map dispatch_response_id rs @ concat (map item_ids items)"
proof (induction run reg P items rs exit fl rule: batch_loop.induct)
  case (2 run reg P req items rs exit fl)
  obtain d fl2 where d: "dispatch_start reg P req fl = (d, fl2)" by (cases "dispatch_start reg P req fl")
  note c = dispatch_start_cases[OF d]
  show ?case
  proof (cases d)
    case Silent
    with 2 d c show ?thesis by (auto simp: dispatch_jsonrpc_request_def request_ids_def)
  next
    case (Reply r e)
    with 2 d c show ?thesis by (auto simp: dispatch_jsonrpc_request_def request_ids_def)
  next
    case (Running x args)
    obtain r e where r: "dispatch_finish req False (run x (rq_id req) args) = Some (r, e)"
      using dispatch_finish_id(2)[of req False] by (metis not_Some_eq old.prod.exhaust)
    with 2 d c Running dispatch_finish_id(1)[OF r] show ?thesis
      by (auto simp: dispatch_jsonrpc_request_def request_ids_def)
  qed
qed (auto simp: protocol_error_def)

text \<open>A batch is answered with one reply for each of its items that calls for one, in the order of the
  items, and not at all when none does.\<close>

theorem batch_answers:
  assumes "parse_rpc_message from_str body = Some (Inr (Batch items))"
  shows "expects from_str body = (case fst (dispatch_jsonrpc_batch run reg P items fl) of
      None \<Rightarrow> NoReply | Some (rs, exit) \<Rightarrow> BatchReply (map dispatch_response_id rs))"
proof -
  obtain rs e fl1 where b: "batch_loop run reg P items [] False fl = (rs, e, fl1)"
    by (cases "batch_loop run reg P items [] False fl") auto
  have "expects from_str body = batch_expect (concat (map item_ids items))"
    using parse_expects[of from_str body] assms by auto
  also have "\<dots> = batch_expect (map dispatch_response_id rs)" using batch_loop_ids[OF b] by simp
  finally show ?thesis by (simp add: dispatch_jsonrpc_batch_def b batch_expect_def)
qed

end
