(* ===== verification/ServerProps.thy ===== *)
theory ServerProps
  imports ServerLoop RpcProps "HOL-Library.Multiset"
begin

text \<open>
  Invariants of the server loop: the account of the replies (each message is settled, being worked
  on, or calls for no reply; what was written answers the message it belongs to), the measure that
  every step outside the reading phase decreases, and that reading ends with a shutdown request.
\<close>

section \<open>What a task still has to do\<close>

definition expected :: "'x config \<Rightarrow> input \<Rightarrow> expect" where
  "expected C inp =
     (case inp of Message m \<Rightarrow> expects (cf_from_str C) (mm_body m) | Broken err \<Rightarrow> OneReply None)"

fun payload_expect :: "payload \<Rightarrow> expect" where
  "payload_expect (One r) = OneReply (dispatch_response_id r)"
| "payload_expect (Many rs) = batch_expect (map dispatch_response_id rs)"

fun stage_answers :: "expect \<Rightarrow> 'x stage \<Rightarrow> bool" where
  "stage_answers e (Dispatching req) \<longleftrightarrow> \<not> rq_is_notification req \<and> e = OneReply (rq_id req)"
| "stage_answers e (InTool req x args) \<longleftrightarrow> \<not> rq_is_notification req \<and> e = OneReply (rq_id req)"
| "stage_answers e (Batching items rs exit) \<longleftrightarrow>
     e = batch_expect (map dispatch_response_id rs @ concat (map item_ids items))"
| "stage_answers e (InBatchTool req x args rest rs exit) \<longleftrightarrow>
     e = batch_expect (map dispatch_response_id rs @ rq_id req # concat (map item_ids rest))"
| "stage_answers e (Writing p exit) \<longleftrightarrow> payload_expect p = e \<and> e \<noteq> NoReply"
| "stage_answers e Ended \<longleftrightarrow> True"

fun stage_items :: "'x stage \<Rightarrow> batch_item list" where
  "stage_items (Batching items rs exit) = items"
| "stage_items (InBatchTool req x args rest rs exit) = rest"
| "stage_items _ = []"

fun stage_size :: "'x stage \<Rightarrow> nat" where
  "stage_size (Dispatching req) = 3"
| "stage_size (InTool req x args) = 2"
| "stage_size (Batching items rs exit) = 2 * length items + 2"
| "stage_size (InBatchTool req x args rest rs exit) = 2 * length rest + 3"
| "stage_size (Writing p exit) = 1"
| "stage_size Ended = 0"

lemma stage_size_Ended: "stage_size st = 0 \<longleftrightarrow> st = Ended"
  by (cases st) auto

lemma batch_expect_iff [simp]:
  "batch_expect ids = NoReply \<longleftrightarrow> ids = []" "NoReply = batch_expect ids \<longleftrightarrow> ids = []"
  "batch_expect [] = NoReply" "OneReply i \<noteq> batch_expect ids" "batch_expect ids \<noteq> OneReply i"
  by (simp_all add: batch_expect_def)

text \<open>A step of a task that has not ended: the next stage, the end without a reply, the reply, or the
  loss of the reply.  What it changes in the registry is at most the cancellation of its next item.\<close>

inductive progress :: "'x config \<Rightarrow> expect \<Rightarrow> 'x task \<Rightarrow> 'x server \<Rightarrow> 'x server \<Rightarrow> bool" for C e t s where
  pr_stage: "\<lbrakk>st \<noteq> Ended; stage_answers e st; stage_size st < stage_size (tk_stage t);
      set (stage_items st) \<subseteq> set (stage_items (tk_stage t));
      fl = sv_inflight s \<or> (\<exists>req. BatchRequest req \<in> set (stage_items (tk_stage t)) \<and> rq_is_notification req
        \<and> fl = dispatch_notification req (sv_inflight s))\<rbrakk>
    \<Longrightarrow> progress C e t s (set_stage t st fl s)"
| pr_silent: "e = NoReply \<Longrightarrow> progress C e t s (end_task t None (sv_inflight s) s)"
| pr_reply: "\<lbrakk>payload_expect p = e; e \<noteq> NoReply\<rbrakk>
    \<Longrightarrow> progress C e t s (end_task t None (sv_inflight s)
        (emit (tk_serial t) p (tk_skip_headers t) s \<lparr> sv_control := cs \<rparr>))"
| pr_lost: "\<lbrakk>e \<noteq> NoReply; why \<noteq> Aborted; why = WasCancelled \<longrightarrow> token_cancelled t (sv_inflight s);
      why = WriteFailed \<longrightarrow> b; sv_abort_requested s \<longrightarrow> b\<rbrakk>
    \<Longrightarrow> progress C e t s (end_task t (Some why) (sv_inflight s) (s\<lparr> sv_abort_requested := b, sv_control := cs \<rparr>))"

lemma work_dispatch_progress:
  assumes "tk_stage t = Dispatching req" "stage_answers e (tk_stage t)"
  shows "progress C e t s (work C outcome ok t s)"
proof -
  obtain d fl where d: "dispatch_start (cf_registry C) (cf_payloads C) req (sv_inflight s) = (d, fl)"
    by (cases "dispatch_start (cf_registry C) (cf_payloads C) req (sv_inflight s)")
  with assms dispatch_start_cases[OF d] show ?thesis
    by (cases d) (auto simp: work_def intro!: pr_stage)
qed

lemma work_batch_progress:
  assumes "tk_stage t = Batching items rs exit" "stage_answers e (tk_stage t)"
  shows "progress C e t s (work_batch C t items rs exit s)"
proof (cases items)
  case Nil
  with assms show ?thesis by (auto simp: work_batch_def intro!: pr_stage pr_silent)
next
  case (Cons item rest)
  show ?thesis
  proof (cases item)
    case (BatchRequest req)
    obtain d fl where d: "dispatch_start (cf_registry C) (cf_payloads C) req (sv_inflight s) = (d, fl)"
      by (cases "dispatch_start (cf_registry C) (cf_payloads C) req (sv_inflight s)")
    with assms Cons BatchRequest dispatch_start_cases[OF d] show ?thesis
      by (cases d) (auto simp: work_batch_def request_ids_def intro!: pr_stage)
  next
    case BatchResponse
    with assms Cons show ?thesis by (auto simp: work_batch_def intro!: pr_stage)
  next
    case (BatchInvalid i msg)
    with assms Cons show ?thesis by (auto simp: work_batch_def protocol_error_def intro!: pr_stage)
  qed
qed

lemma work_tool_progress:
  assumes "tk_stage t = InTool req x args \<or> tk_stage t = InBatchTool req x args rest rs exit"
    and "stage_answers e (tk_stage t)"
  shows "progress C e t s (work C outcome ok t s)"
proof (cases outcome)
  case None
  have "progress C e t s (end_task t (Some Panicked) (sv_inflight s)
      (s\<lparr> sv_abort_requested := sv_abort_requested s, sv_control := sv_control s \<rparr>))"
    using assms by (intro pr_lost) auto
  with None assms show ?thesis by (auto simp: work_def)
next
  case (Some j)
  have lost: "progress C e t s (end_task t (Some WasCancelled) (sv_inflight s)
      (s\<lparr> sv_abort_requested := sv_abort_requested s, sv_control := sv_control s \<rparr>))"
    if "token_cancelled t (sv_inflight s)" "e \<noteq> NoReply"
    using that by (intro pr_lost) auto
  show ?thesis using assms Some lost dispatch_finish_id
    by (auto simp: work_def intro!: pr_stage split: option.split)
qed

lemma work_write_progress:
  assumes "tk_stage t = Writing p exit" "stage_answers e (tk_stage t)"
  shows "progress C e t s (work_write t p exit ok s)"
proof -
  let ?s1 = "emit (tk_serial t) p (tk_skip_headers t) s"
  have "work_write t p exit ok s =
     (if ok then end_task t None (sv_inflight s)
        (?s1\<lparr> sv_control := if exit then sv_control s @ [GracefulShutdown] else sv_control s \<rparr>)
      else end_task t (Some WriteFailed) (sv_inflight s)
        (s\<lparr> sv_abort_requested := True, sv_control := sv_control s @ [AbortPendingTasks] \<rparr>))"
    by (simp add: work_write_def send_control_def emit_def)
  with assms show ?thesis by (auto intro!: pr_reply pr_lost)
qed

lemma work_progress:
  assumes "stage_answers e (tk_stage t)" "tk_stage t \<noteq> Ended"
  shows "progress C e t s (work C outcome ok t s)"
  using assms work_dispatch_progress[of t _ e C s outcome ok] work_tool_progress[of t _ _ _ _ _ _ e C s outcome ok]
    work_batch_progress[of t _ _ _ e C s] work_write_progress[of t _ _ e C s ok]
  by (cases "tk_stage t") (auto simp: work_def)

section \<open>Updating one task\<close>

definition live :: "'x task list \<Rightarrow> nat list" where
  "live ts = map tk_serial [t \<leftarrow> ts. tk_stage t \<noteq> Ended]"

lemma live_simps [simp]:
  "live [] = []" "live (xs @ ys) = live xs @ live ys"
  "live (t # ts) = (if tk_stage t = Ended then live ts else tk_serial t # live ts)"
  by (simp_all add: live_def)

lemma live_serials: "set (live ts) \<subseteq> tk_serial ` set ts"
  by (auto simp: live_def)

lemma put_task_split:
  assumes "sv_tasks s = xs @ t # ys" "distinct (map tk_serial (sv_tasks s))" "tk_serial u = tk_serial t"
  shows "put_task u s = s\<lparr> sv_tasks := xs @ u # ys \<rparr>"
proof -
  have "map (\<lambda>v. if tk_serial v = tk_serial u then u else v) zs = zs" if "tk_serial t \<notin> tk_serial ` set zs" for zs
    using that assms(3) by (intro map_idI) (metis image_eqI)
  with assms show ?thesis by (simp add: put_task_def)
qed

lemma set_stage_split:
  assumes "sv_tasks s = xs @ t # ys" "distinct (map tk_serial (sv_tasks s))"
  shows "set_stage t st fl s = s\<lparr> sv_inflight := fl, sv_tasks := xs @ t\<lparr> tk_stage := st \<rparr> # ys \<rparr>"
  using assms put_task_split[of "s\<lparr> sv_inflight := fl \<rparr>" xs t ys "t\<lparr> tk_stage := st \<rparr>"]
  by (simp add: set_stage_def)

definition drop_guard :: "'x task \<Rightarrow> inflight \<Rightarrow> inflight" where
  "drop_guard t fl = (case tk_guard t of Some i \<Rightarrow> inflight_remove i fl | None \<Rightarrow> fl)"

lemma end_task_split:
  assumes "sv_tasks s = xs @ t # ys" "distinct (map tk_serial (sv_tasks s))"
  shows "end_task t why fl s = s\<lparr> sv_dropped := sv_dropped s @ (case why of Some r \<Rightarrow> [(tk_serial t, r)] | None \<Rightarrow> []),
       sv_inflight := drop_guard t fl, sv_tasks := xs @ t\<lparr> tk_stage := Ended \<rparr> # ys \<rparr>"
  unfolding end_task_def drop_guard_def[symmetric] using assms by (subst set_stage_split) auto

section \<open>The account of the replies\<close>

definition settled :: "'x server \<Rightarrow> nat list" where
  "settled s = map ot_serial (sv_out s) @ map fst (sv_dropped s)"

definition task_ok :: "'x config \<Rightarrow> input list \<Rightarrow> 'x task \<Rightarrow> bool" where
  "task_ok C rd t \<longleftrightarrow> tk_serial t < length rd \<and> stage_answers (expected C (rd ! tk_serial t)) (tk_stage t)"

definition reply_ok :: "'x config \<Rightarrow> input list \<Rightarrow> reply \<Rightarrow> bool" where
  "reply_ok C rd r \<longleftrightarrow> ot_serial r < length rd \<and> payload_expect (ot_payload r) = expected C (rd ! ot_serial r)"

definition drop_ok :: "'x config \<Rightarrow> input list \<Rightarrow> nat \<times> reason \<Rightarrow> bool" where
  "drop_ok C rd d \<longleftrightarrow> fst d < length rd \<and> (snd d = Aborted \<or> expected C (rd ! fst d) \<noteq> NoReply)"

definition covers :: "'x config \<Rightarrow> input list \<Rightarrow> nat list \<Rightarrow> bool" where
  \<comment> \<open>the messages of a list are among those that were read, and all that call for a reply are there\<close>
  "covers C rd ns \<longleftrightarrow> set ns \<subseteq> {..<length rd} \<and> (\<forall>n < length rd. expected C (rd ! n) \<noteq> NoReply \<longrightarrow> n \<in> set ns)"

definition accounted :: "'x config \<Rightarrow> 'x server \<Rightarrow> bool" where
  "accounted C s \<longleftrightarrow>
     distinct (map tk_serial (sv_tasks s))
     \<and> distinct (settled s @ live (sv_tasks s))
     \<and> covers C (sv_read s) (settled s @ live (sv_tasks s))
     \<and> list_all (reply_ok C (sv_read s)) (sv_out s)
     \<and> list_all (task_ok C (sv_read s)) (sv_tasks s)
     \<and> list_all (drop_ok C (sv_read s)) (sv_dropped s)"

lemma accounted_start: "accounted C (server_start r)"
  by (simp add: accounted_def server_start_def settled_def covers_def)

lemma accounted_cong:
  assumes "accounted C s" "sv_tasks s1 = sv_tasks s" "sv_out s1 = sv_out s" "sv_read s1 = sv_read s"
    "sv_dropped s1 = sv_dropped s"
  shows "accounted C s1"
  using assms by (simp add: accounted_def settled_def)

lemma accounted_progress:
  assumes "accounted C s" "t \<in> set (sv_tasks s)" "tk_stage t \<noteq> Ended"
    and "progress C (expected C (sv_read s ! tk_serial t)) t s s1"
  shows "accounted C s1"
proof -
  obtain xs ys where ts: "sv_tasks s = xs @ t # ys" using assms(2) by (meson split_list)
  have dist: "distinct (map tk_serial (sv_tasks s))" using assms(1) by (simp add: accounted_def)
  note split = set_stage_split[OF ts dist] end_task_split[OF ts dist]
  have notin: "tk_serial t \<notin> set (live xs)" "tk_serial t \<notin> set (live ys)"
    using dist ts live_serials[of xs] live_serials[of ys] by auto
  note acc = assms(1)[unfolded accounted_def settled_def covers_def ts]
  from assms(4) show ?thesis
  proof cases
    case (pr_stage st fl)
    with acc assms(3) show ?thesis by (simp add: split accounted_def settled_def covers_def task_ok_def drop_ok_def)
  next
    case pr_silent
    with acc assms(3) notin show ?thesis
      by (auto simp: split accounted_def settled_def covers_def task_ok_def drop_ok_def)
  next
    case (pr_reply p cs)
    let ?s1 = "emit (tk_serial t) p (tk_skip_headers t) s\<lparr> sv_control := cs \<rparr>"
    have "sv_tasks ?s1 = xs @ t # ys" "distinct (map tk_serial (sv_tasks ?s1))"
      using ts dist by (simp_all add: emit_def)
    with acc assms(3) notin pr_reply show ?thesis
      by (auto simp: end_task_split accounted_def settled_def covers_def task_ok_def reply_ok_def drop_ok_def emit_def)
  next
    case (pr_lost why b cs)
    let ?s1 = "s\<lparr> sv_abort_requested := b, sv_control := cs \<rparr>"
    have "sv_tasks ?s1 = xs @ t # ys" "distinct (map tk_serial (sv_tasks ?s1))" using ts dist by simp_all
    with acc assms(3) notin pr_lost show ?thesis
      by (auto simp: end_task_split accounted_def settled_def covers_def task_ok_def drop_ok_def)
  qed
qed

lemma accounted_drop:
  assumes "accounted C s" "t \<in> set (sv_tasks s)" "tk_stage t \<noteq> Ended"
  shows "accounted C (end_task t (Some Aborted) fl s)"
proof -
  obtain xs ys where ts: "sv_tasks s = xs @ t # ys" using assms(2) by (meson split_list)
  have dist: "distinct (map tk_serial (sv_tasks s))" using assms(1) by (simp add: accounted_def)
  have "tk_serial t \<notin> set (live xs)" "tk_serial t \<notin> set (live ys)"
    using dist ts live_serials[of xs] live_serials[of ys] by auto
  with assms(1)[unfolded accounted_def settled_def covers_def ts] assms(3) show ?thesis
    by (auto simp: end_task_split[OF ts dist] accounted_def settled_def covers_def task_ok_def drop_ok_def)
qed

lemma nth_snoc: "n < length xs \<Longrightarrow> (xs @ [x]) ! n = xs ! n" "(xs @ [x]) ! length xs = x"
  by (simp_all add: nth_append)

lemma task_ok_snoc: "task_ok C rd t \<Longrightarrow> task_ok C (rd @ [x]) t"
  by (simp add: task_ok_def nth_snoc)

lemma reply_ok_snoc: "reply_ok C rd r \<Longrightarrow> reply_ok C (rd @ [x]) r"
  by (simp add: reply_ok_def nth_snoc)

lemma drop_ok_snoc: "drop_ok C rd d \<Longrightarrow> drop_ok C (rd @ [x]) d"
  by (auto simp: drop_ok_def nth_snoc)

text \<open>One more input is read: it is settled by a reply or a loss, taken by a new task, or ignored.\<close>

lemma accounted_read:
  assumes "accounted C s"
    and "sv_read s1 = sv_read s @ [x]"
    and "sv_tasks s1 = sv_tasks s @ us" "sv_out s1 = sv_out s @ rs" "sv_dropped s1 = sv_dropped s @ ds"
    and "map ot_serial rs @ map fst ds @ map tk_serial us = (if expected C x = NoReply \<and> us = [] then [] else [length (sv_read s)])"
    and "list_all (reply_ok C (sv_read s1)) rs" "list_all (task_ok C (sv_read s1)) us"
    and "list_all (\<lambda>t. tk_stage t \<noteq> Ended) us" "list_all (drop_ok C (sv_read s1)) ds"
  shows "accounted C s1"
proof -
  let ?n = "length (sv_read s)"
  have lus: "live us = map tk_serial us" using assms(9) by (induction us) auto
  let ?old = "map ot_serial (sv_out s) @ map fst (sv_dropped s) @ live (sv_tasks s)"
  have old: "distinct ?old" "set ?old \<subseteq> {..<?n}" "tk_serial ` set (sv_tasks s) \<subseteq> {..<?n}"
    using assms(1) by (auto simp: accounted_def settled_def covers_def task_ok_def list_all_iff)
  have new: "set (map ot_serial rs) \<union> set (map fst ds) \<union> set (map tk_serial us)
      = (if expected C x = NoReply \<and> us = [] then {} else {?n})"
    "distinct (map ot_serial rs @ map fst ds @ map tk_serial us)"
    using assms(6) by (metis set_append sup_assoc empty_set list.simps(15)) (simp add: assms(6))
  have apart: "A \<inter> B = {}" if "A \<subseteq> {..<?n}" "B \<subseteq> {?n}" for A B :: "nat set"
    using that by fastforce
  have "tk_serial ` set us \<subseteq> {?n}" using new(1) by (auto split: if_splits)
  then have "tk_serial ` set (sv_tasks s) \<inter> tk_serial ` set us = {}" using old(3) by (rule apart[rotated])
  then have serials: "distinct (map tk_serial (sv_tasks s1))"
    using assms(1) new(2) by (simp add: accounted_def assms(3))
  have "set ?old \<inter> set (map ot_serial rs @ map fst ds @ map tk_serial us) = {}"
    using new(1) by (intro apart[OF old(2)]) (simp add: assms(6))
  with old(1) new(2) have "distinct (?old @ map ot_serial rs @ map fst ds @ map tk_serial us)"
    by (subst distinct_append) blast
  moreover have "mset (settled s1 @ live (sv_tasks s1)) = mset (?old @ map ot_serial rs @ map fst ds @ map tk_serial us)"
    by (simp add: settled_def assms(3-5) lus)
  ultimately have "distinct (settled s1 @ live (sv_tasks s1))" by (metis mset_eq_imp_distinct_iff)
  moreover have "covers C (sv_read s1) (settled s1 @ live (sv_tasks s1))"
  proof -
    have led: "set (settled s1 @ live (sv_tasks s1)) = set ?old \<union> (if expected C x = NoReply \<and> us = [] then {} else {?n})"
      unfolding new(1)[symmetric] by (simp add: settled_def assms(3-5) lus Un_ac)
    have "n \<in> set ?old" if "n < ?n" "expected C (sv_read s ! n) \<noteq> NoReply" for n
      using that assms(1) by (simp add: accounted_def covers_def settled_def)
    then show ?thesis unfolding covers_def led using old(2)
      by (simp add: assms(2) less_Suc_eq nth_append) fastforce
  qed
  moreover have "list_all (reply_ok C (sv_read s1)) (sv_out s1)"
    using assms(1,7) by (auto simp: accounted_def assms(2,4) list_all_iff intro: reply_ok_snoc)
  moreover have "list_all (task_ok C (sv_read s1)) (sv_tasks s1)"
    using assms(1,8) by (auto simp: accounted_def assms(2,3) list_all_iff intro: task_ok_snoc)
  moreover have "list_all (drop_ok C (sv_read s1)) (sv_dropped s1)"
    using assms(1,10) by (auto simp: accounted_def assms(2,5) list_all_iff intro: drop_ok_snoc)
  ultimately show ?thesis using serials by (simp add: accounted_def)
qed

lemma accounted_reap: "accounted C s \<Longrightarrow> accounted C (reap s)"
proof -
  have "live [t \<leftarrow> ts. tk_stage t \<noteq> Ended] = live ts" for ts :: "'a task list" by (simp add: live_def)
  then show "accounted C s \<Longrightarrow> accounted C (reap s)"
    by (auto simp: accounted_def reap_def settled_def list_all_iff distinct_map_filter)
qed

lemmas reader_defs = record_input_def reader_reply_def leave_loop_def abort_loop_def emit_def spawn_def

lemma on_request_accounted:
  assumes "accounted C s" "expected C (Message m) = (if rq_is_notification req then NoReply else OneReply (rq_id req))"
  shows "accounted C (on_request C (length (sv_read s)) skip req (record_input (Message m) s))"
proof (cases "rq_is_notification req")
  case True
  then show ?thesis using assms
    by - (rule accounted_read[where s = s and x = "Message m" and us = "[]" and rs = "[]" and ds = "[]"],
      simp_all add: on_request_def record_input_def)
next
  case False
  define g where "g = (if rq_method_kind req = ToolsCall then Option.bind (rq_id req) rpc_id_from_value else None)"
  show ?thesis using assms False
    by - (rule accounted_read[where s = s and x = "Message m" and rs = "[]" and ds = "[]"
          and us = "[\<lparr> tk_serial = length (sv_read s),
             tk_token = (if rq_method_kind req = ToolsCall then Some (length (sv_read s)) else None), tk_guard = g, tk_skip_headers = skip, tk_stage = Dispatching req, tk_aborted = False \<rparr>]"],
      auto simp: on_request_def reader_defs Let_def task_ok_def g_def)
qed

lemma on_batch_accounted:
  assumes "accounted C s" "expected C (Message m) = batch_expect (concat (map item_ids items))"
  shows "accounted C (on_batch (length (sv_read s)) skip items (record_input (Message m) s))"
  using assms
  by - (rule accounted_read[where s = s and x = "Message m" and rs = "[]" and ds = "[]"
        and us = "[\<lparr> tk_serial = length (sv_read s), tk_token = None, tk_guard = None, tk_skip_headers = skip,
           tk_stage = Batching items [] False, tk_aborted = False \<rparr>]"],
      auto simp: on_batch_def reader_defs Let_def task_ok_def)

lemma reader_reply_accounted:
  assumes "accounted C s" "expected C x = OneReply (rs_id r)"
  shows "accounted C (reader_reply (length (sv_read s)) r skip ok (record_input x s))"
proof (cases ok)
  case True
  then show ?thesis using assms
    by - (rule accounted_read[where s = s and x = x and us = "[]" and ds = "[]"
          and rs = "[\<lparr> ot_serial = length (sv_read s), ot_payload = One (Owned r), ot_skip_headers = skip \<rparr>]"],
      auto simp: reader_defs reply_ok_def)
next
  case False
  then show ?thesis using assms
    by - (rule accounted_read[where s = s and x = x and us = "[]" and rs = "[]"
          and ds = "[(length (sv_read s), WriteFailed)]"],
      auto simp: reader_defs drop_ok_def)
qed

lemma on_message_accounted:
  assumes "accounted C s"
  shows "accounted C (on_message C ok m s)"
proof -
  obtain res where res: "parse_rpc_message (cf_from_str C) (mm_body m) = Some res"
      "parsed_expect res = expected C (Message m)"
    using parse_expects[of "cf_from_str C" "mm_body m"] by (auto simp: expected_def)
  show ?thesis
  proof (cases res)
    case (Inl err)
    then show ?thesis using res reader_reply_accounted[OF assms, of "Message m"]
      by (cases err) (auto simp: on_message_def protocol_error_def Let_def)
  next
    case (Inr msg)
    show ?thesis
    proof (cases msg)
      case (SingleRequest req)
      then show ?thesis using res Inr on_request_accounted[OF assms, of m req]
        by (simp add: on_message_def Let_def)
    next
      case Response
      with Inr res have "accounted C (record_input (Message m) s)"
        by - (rule accounted_read[OF assms, where x = "Message m" and us = "[]" and rs = "[]" and ds = "[]"],
      simp_all add: record_input_def)
      then show ?thesis using res Inr Response by (simp add: on_message_def Let_def)
    next
      case (Batch items)
      then show ?thesis using res Inr on_batch_accounted[OF assms, of m items]
        by (simp add: on_message_def Let_def)
    qed
  qed
qed

lemma on_read_error_accounted:
  assumes "accounted C s"
  shows "accounted C (on_read_error C ok err s)"
proof -
  have "accounted C (reader_reply (length (sv_read s)) (protocol_error None (-32700) ''Parse error'')
      (skip_headers_for C (re_has_headers err)) ok (record_input (Broken err) s))"
    by (intro reader_reply_accounted[OF assms]) (simp add: expected_def protocol_error_def)
  then show ?thesis by (auto simp: on_read_error_def Let_def abort_loop_def leave_loop_def elim: accounted_cong)
qed

lemma accounted_abort_all: "accounted C s \<Longrightarrow> accounted C (abort_all s)"
proof -
  have "live (map (\<lambda>t. t\<lparr> tk_aborted := True \<rparr>) ts) = live ts" for ts :: "'a task list" by (induction ts) auto
  then show "accounted C s \<Longrightarrow> accounted C (abort_all s)"
    by (auto simp: accounted_def abort_all_def settled_def list_all_iff task_ok_def comp_def)
qed

lemma accounted_join:
  assumes "accounted C s" "t \<in> set (sv_tasks s)" "tk_stage t = Ended"
  shows "accounted C (join_task t s)"
proof -
  let ?s1 = "s\<lparr> sv_tasks := [u \<leftarrow> sv_tasks s. tk_serial u \<noteq> tk_serial t] \<rparr>"
  have "u = t" if "u \<in> set (sv_tasks s)" "tk_serial u = tk_serial t" for u
    using that assms(1,2) by (auto simp: accounted_def distinct_map inj_on_def)
  then have "[v \<leftarrow> sv_tasks s. tk_stage v \<noteq> Ended \<and> tk_serial v \<noteq> tk_serial t] = [v \<leftarrow> sv_tasks s. tk_stage v \<noteq> Ended]"
    using assms(3) by (intro filter_cong) auto
  then have "live (sv_tasks ?s1) = live (sv_tasks s)" by (simp add: live_def conj_commute)
  then have "accounted C ?s1"
    using assms(1) by (auto simp: accounted_def settled_def list_all_iff distinct_map_filter)
  then show ?thesis by (auto simp: join_task_def Let_def intro: accounted_abort_all)
qed

lemma step_accounted: "step C s s1 \<Longrightarrow> accounted C s \<Longrightarrow> accounted C s1"
proof (induction rule: step.induct)
  case (step_read s res ok)
  from accounted_reap[OF step_read.prems] have "accounted C (reap s\<lparr> sv_reader := snd res \<rparr>)"
    by (rule accounted_cong) simp_all
  moreover from this have "accounted C (leave_loop (reap s\<lparr> sv_reader := snd res \<rparr>))"
    by (auto simp: leave_loop_def elim: accounted_cong)
  ultimately show ?case
    by (auto simp: on_input_def Let_def split: sum.split option.split
        intro: on_message_accounted on_read_error_accounted)
next
  case (step_control s c cs)
  from accounted_reap[OF step_control.prems] show ?case
    by (cases c) (auto simp: on_control_def Let_def leave_loop_def abort_loop_def elim: accounted_cong)
next
  case (step_left s)
  then have "accounted C (if sv_abort_pending s \<or> sv_abort_requested s then abort_all s else s)"
    by (simp add: accounted_abort_all)
  then show ?case unfolding begin_drain_def by (rule accounted_cong) simp_all
next
  case (step_work s t outcome ok)
  then have "stage_answers (expected C (sv_read s ! tk_serial t)) (tk_stage t)"
    by (auto simp: accounted_def list_all_iff task_ok_def)
  from work_progress[OF this step_work.hyps(3)] show ?case
    by (rule accounted_progress[OF step_work.prems step_work.hyps(2,3)])
next
  case (step_drop s t)
  then show ?case by - (rule accounted_drop)
next
  case (step_join s t)
  then show ?case by - (rule accounted_join)
next
  case (step_stop s)
  then show ?case by (auto elim: accounted_cong)
qed

lemma reachable_accounted: "reachable C s \<Longrightarrow> accounted C s"
  by (induction rule: reachable.induct) (auto intro: accounted_start step_accounted)

end
