(* ===== verification/ServerDemo.thy ===== *)
theory ServerDemo
  imports ServerLoop "HOL-Library.Code_Target_Nat"
begin

text \<open>
  Running the server loop: a schedule is a list of choices, \<open>run\<close> carries it out as far as each choice
  is possible, and every state it reaches is a reachable state of the step relation.  A small session
  (a call, its cancellation, a shutdown request) is run for the witnesses of the later theories.
\<close>

section \<open>Schedules\<close>

datatype act = ActRead | ActLeave | ActWork nat "json option" | ActJoin nat | ActStop

definition find_task :: "nat \<Rightarrow> 'x server \<Rightarrow> 'x task option" where
  "find_task n s = List.find (\<lambda>t. tk_serial t = n) (sv_tasks s)"

fun act_step :: "'x config \<Rightarrow> act \<Rightarrow> 'x server \<Rightarrow> 'x server option" where
  "act_step C ActRead s =
     (if sv_phase s = Reading \<and> sv_control s = [] then
        map_option (\<lambda>res. on_input C True res (reap s)) (read_mcp_message (cf_memlib C) (sv_reader s))
      else None)"
| "act_step C ActLeave s = (if sv_phase s = Left then Some (begin_drain s) else None)"
| "act_step C (ActWork n outcome) s =
     (case find_task n s of
        Some t \<Rightarrow> if sv_phase s \<noteq> Stopped \<and> tk_stage t \<noteq> Ended then Some (work C outcome True t s) else None
      | None \<Rightarrow> None)"
| "act_step C (ActJoin n) s =
     (case find_task n s of
        Some t \<Rightarrow> if sv_phase s = Draining \<and> tk_stage t = Ended then Some (join_task t s) else None
      | None \<Rightarrow> None)"
| "act_step C ActStop s =
     (if sv_phase s = Draining \<and> sv_tasks s = [] then Some (s\<lparr> sv_phase := Stopped \<rparr>) else None)"

fun run :: "'x config \<Rightarrow> act list \<Rightarrow> 'x server \<Rightarrow> 'x server option" where
  "run C [] s = Some s"
| "run C (a # as) s = (case act_step C a s of Some s1 \<Rightarrow> run C as s1 | None \<Rightarrow> None)"

lemma find_task_in: "find_task n s = Some t \<Longrightarrow> t \<in> set (sv_tasks s)"
  by (auto simp: find_task_def find_Some_iff)

lemma act_step_sound: "act_step C a s = Some s1 \<Longrightarrow> step C s s1"
  by (cases a) (auto split: if_splits option.splits
      intro: step_read step_left step_work step_join step_stop dest: find_task_in)

lemma run_reachable: "run C as s = Some s1 \<Longrightarrow> reachable C s \<Longrightarrow> reachable C s1"
  by (induction as arbitrary: s) (auto split: option.splits intro: reach_step dest: act_step_sound)

lemma run_append: "run C (as @ bs) s = Option.bind (run C as s) (run C bs)"
  by (induction as arbitrary: s) (auto split: option.split)

lemma run_relpow: "run C as s = Some s1 \<Longrightarrow> (step C ^^ length as) s s1"
proof (induction as arbitrary: s)
  case (Cons a as)
  then obtain s2 where "act_step C a s = Some s2" "run C as s2 = Some s1" by (auto split: option.splits)
  with Cons.IH show ?case unfolding list.size(4) add_0_right add_Suc_right by (intro relpowp_Suc_I2) (auto dest: act_step_sound)
qed simp

section \<open>A session\<close>

definition demo_call :: json where
  "demo_call = JObj [(''jsonrpc'', JStr ''2.0''), (''id'', JNum 1), (''method'', JStr ''tools/call''),
     (''params'', JObj [(''name'', JStr ''Echo'')])]"

definition demo_cancel :: json where
  "demo_cancel = JObj [(''jsonrpc'', JStr ''2.0''), (''method'', JStr ''notifications/cancelled''),
     (''params'', JObj [(''requestId'', JNum 1)])]"

definition demo_shutdown :: json where
  "demo_shutdown = JObj [(''jsonrpc'', JStr ''2.0''), (''id'', JStr ''q''), (''method'', JStr ''shutdown'')]"

definition demo_from_str :: "bytes \<Rightarrow> json option" where
  "demo_from_str s =
     (if s = ''{c}'' then Some demo_call else if s = ''{n}'' then Some demo_cancel
      else if s = ''{s}'' then Some demo_shutdown else None)"

definition demo_registry :: "unit tool_registry" where
  "demo_registry = \<lparr> tr_definitions = [\<lparr> td_name = ''Echo'', td_description = [], td_schema = JNull \<rparr>],
     tr_executors = [()], tr_lookup = [(''Echo'', 0)] \<rparr>"

definition demo_config :: "unit config" where
  "demo_config = \<lparr> cf_registry = demo_registry, cf_payloads = static_payloads_new None [],
     cf_from_str = demo_from_str, cf_skip_headers = True, cf_memlib = ref_memlib \<rparr>"

definition demo_session :: reader where
  "demo_session = \<lparr> rd_buf = ''{c}'' @ [LF] @ ''{n'', rd_chunks = [''}'' @ [LF] @ ''{s}'' @ [LF]], rd_end = Closed \<rparr>"

definition demo_begin :: "act list" where
  \<comment> \<open>the call is read and its tool runs\<close>
  "demo_begin = [ActRead, ActWork 0 None]"

definition demo_reading :: "act list" where
  \<comment> \<open>the cancellation and the shutdown request are read\<close>
  "demo_reading = [ActRead, ActRead]"

definition demo_rest :: "act list" where
  \<comment> \<open>the tool returns, the shutdown request is answered, the tasks are joined\<close>
  "demo_rest = [ActWork 0 (Some JNull), ActWork 2 None, ActWork 2 None, ActLeave, ActJoin 0, ActJoin 2, ActStop]"

definition demo_state :: "act list \<Rightarrow> unit server" where
  "demo_state as =
     (case run demo_config as (server_start demo_session) of Some s \<Rightarrow> s | None \<Rightarrow> server_start demo_session)"

lemma demo_state_reachable: "reachable demo_config (demo_state as)"
  using run_reachable[OF _ reach_start, of demo_config as demo_session]
  by (auto simp: demo_state_def intro: reach_start split: option.split)

lemma demo_begin_state:
  "map tk_serial (sv_tasks (demo_state demo_begin)) = [0]" "map tk_guard (sv_tasks (demo_state demo_begin)) = [Some (IdNumber ''1'')]"
  "case tk_stage (hd (sv_tasks (demo_state demo_begin))) of InTool req x args \<Rightarrow> True | _ \<Rightarrow> False"
  by code_simp+

lemma demo_read_state:
  "sv_phase (demo_state (demo_begin @ demo_reading)) = Left" "length (sv_read (demo_state (demo_begin @ demo_reading))) = 3"
  "map_option (\<lambda>s. sv_phase s = Stopped) (run demo_config demo_rest (demo_state (demo_begin @ demo_reading))) = Some True"
  by code_simp+

lemma demo_stopped_state:
  "sv_phase (demo_state (demo_begin @ demo_reading @ demo_rest)) = Stopped"
  "\<not> sv_abort_pending (demo_state (demo_begin @ demo_reading @ demo_rest))"
  "\<not> sv_abort_requested (demo_state (demo_begin @ demo_reading @ demo_rest))"
  "length (sv_read (demo_state (demo_begin @ demo_reading @ demo_rest))) = 3"
  "map ot_serial (sv_out (demo_state (demo_begin @ demo_reading @ demo_rest))) = [2]"
  "sv_dropped (demo_state (demo_begin @ demo_reading @ demo_rest)) = [(0, WasCancelled)]"
  by code_simp+

end
