(* ===== verification/ServerClaims.thy ===== *)
theory ServerClaims
  imports ServerProps ServerDemo
begin

text \<open>
  What the server loop guarantees: each message is answered at most once and under its id, nothing is
  forgotten when the server stops, draining always ends, and nothing is read behind a shutdown
  request.
\<close>

section \<open>Aborting and stopping\<close>

definition abort_noted :: "'x server \<Rightarrow> bool" where
  "abort_noted s \<longleftrightarrow> sv_abort_pending s \<or> sv_abort_requested s"

definition abort_inv :: "'x server \<Rightarrow> bool" where
  \<comment> \<open>a task is aborted and a message given up only after a failed write or a broken stream; a stopped
    server has no tasks\<close>
  "abort_inv s \<longleftrightarrow>
     (abort_noted s \<or> list_all (\<lambda>t. \<not> tk_aborted t) (sv_tasks s)
        \<and> list_all (\<lambda>(n, why). why \<noteq> Aborted \<and> why \<noteq> WriteFailed) (sv_dropped s))
     \<and> (sv_phase s = Stopped \<longrightarrow> sv_tasks s = [])"

lemma reader_reply_simps [simp]:
  "sv_tasks (reader_reply n r skip ok s) = sv_tasks s"
  "sv_read (reader_reply n r skip ok s) = sv_read s"
  "sv_phase (reader_reply n r skip ok s) = (if ok then sv_phase s else Left)"
  by (simp_all add: reader_defs)

lemma abort_inv_step_aux:
  assumes "abort_inv s" "list_all (\<lambda>t. \<not> tk_aborted t) us" "sv_tasks s1 = sv_tasks s @ us"
    "sv_dropped s1 = sv_dropped s" "abort_noted s \<longrightarrow> abort_noted s1" "sv_phase s1 \<noteq> Stopped"
  shows "abort_inv s1"
  using assms by (auto simp: abort_inv_def)

lemma reader_reply_abort_inv:
  assumes "abort_inv s" "sv_phase s \<noteq> Stopped"
  shows "abort_inv (reader_reply n r skip ok s)"
  using assms by (auto simp: reader_defs abort_inv_def abort_noted_def)

lemma on_message_abort_inv:
  assumes "abort_inv s" "sv_phase s \<noteq> Stopped"
  shows "abort_inv (on_message C ok m s)"
proof -
  have rec: "abort_inv (record_input x s)" for x
    using assms by (auto simp: abort_inv_def abort_noted_def record_input_def)
  have "abort_inv (on_request C n skip req (record_input x s))" for n skip req x
    using assms by (auto simp: on_request_def reader_defs Let_def abort_inv_def abort_noted_def)
  moreover have "abort_inv (on_batch n skip items (record_input x s))" for n skip items x
    using assms by (auto simp: on_batch_def reader_defs Let_def abort_inv_def abort_noted_def)
  ultimately show ?thesis using assms rec
    by (auto simp: on_message_def Let_def record_input_def[of _ s] split: option.split sum.split parse_error.split rpc_message.split
        intro!: reader_reply_abort_inv)
qed

section \<open>A step of a task changes its own entry\<close>

definition advances :: "'x task \<Rightarrow> (nat \<times> reason) list \<Rightarrow> 'x server \<Rightarrow> 'x server \<Rightarrow> bool" where
  "advances t ds s s1 \<longleftrightarrow>
     (\<exists>xs ys st. sv_tasks s = xs @ t # ys \<and> sv_tasks s1 = xs @ t\<lparr> tk_stage := st \<rparr> # ys
        \<and> stage_size st < stage_size (tk_stage t))
     \<and> sv_dropped s1 = sv_dropped s @ ds \<and> sv_read s1 = sv_read s \<and> sv_phase s1 = sv_phase s
     \<and> sv_abort_pending s1 = sv_abort_pending s \<and> (sv_abort_requested s \<longrightarrow> sv_abort_requested s1)"

lemma end_task_advances:
  assumes "t \<in> set (sv_tasks s)" "distinct (map tk_serial (sv_tasks s))" "tk_stage t \<noteq> Ended"
  shows "advances t (case why of Some r \<Rightarrow> [(tk_serial t, r)] | None \<Rightarrow> []) s (end_task t why fl s)"
proof -
  obtain xs ys where ts: "sv_tasks s = xs @ t # ys" using assms(1) by (meson split_list)
  have "0 < stage_size (tk_stage t)" using assms(3) stage_size_Ended[of "tk_stage t"] by simp
  with ts assms(2) show ?thesis unfolding advances_def by (simp add: end_task_split) (metis stage_size.simps(6))
qed

lemma progress_advances:
  assumes "progress C e t s s1" "t \<in> set (sv_tasks s)" "distinct (map tk_serial (sv_tasks s))" "tk_stage t \<noteq> Ended"
  shows "\<exists>ds. advances t ds s s1 \<and> list_all (\<lambda>(n, why). why \<noteq> Aborted \<and> (why = WriteFailed \<longrightarrow> sv_abort_requested s1)) ds"
  using assms(1)
proof cases
  case (pr_stage st fl)
  obtain xs ys where ts: "sv_tasks s = xs @ t # ys" using assms(2) by (meson split_list)
  have "advances t [] s s1"
    unfolding advances_def pr_stage(1) set_stage_split[OF ts assms(3)] using ts pr_stage by auto
  then show ?thesis by (intro exI[of _ "[]"]) simp
next
  case pr_silent
  with end_task_advances[OF assms(2-4), of None] show ?thesis by (intro exI[of _ "[]"]) auto
next
  case (pr_reply p cs)
  let ?s = "emit (tk_serial t) p (tk_skip_headers t) s\<lparr> sv_control := cs \<rparr>"
  have "advances t [] ?s s1"
    using end_task_advances[of t ?s None] assms(2-4) pr_reply by (simp add: emit_def)
  then have "advances t [] s s1" by (simp add: advances_def emit_def)
  then show ?thesis by (intro exI[of _ "[]"]) simp
next
  case (pr_lost why b cs)
  let ?s = "s\<lparr> sv_abort_requested := b, sv_control := cs \<rparr>"
  have adv: "advances t [(tk_serial t, why)] ?s s1"
    using end_task_advances[of t ?s "Some why"] assms(2-4) pr_lost by simp
  then have "b \<longrightarrow> sv_abort_requested s1" "advances t [(tk_serial t, why)] s s1"
    using pr_lost by (auto simp: advances_def)
  with pr_lost show ?thesis by (intro exI[of _ "[(tk_serial t, why)]"]) auto
qed

lemma work_advances:
  assumes "accounted C s" "t \<in> set (sv_tasks s)" "tk_stage t \<noteq> Ended"
  shows "\<exists>ds. advances t ds s (work C outcome ok t s)
    \<and> list_all (\<lambda>(n, why). why \<noteq> Aborted \<and> (why = WriteFailed \<longrightarrow> sv_abort_requested (work C outcome ok t s))) ds"
proof -
  have "stage_answers (expected C (sv_read s ! tk_serial t)) (tk_stage t)" "distinct (map tk_serial (sv_tasks s))"
    using assms(1,2) by (auto simp: accounted_def list_all_iff task_ok_def)
  then show ?thesis using progress_advances[OF work_progress] assms(2,3) by blast
qed

lemma advances_abort_inv:
  assumes "abort_inv s" "advances t ds s s1" "sv_phase s \<noteq> Stopped"
    and "list_all (\<lambda>(n, why). why \<noteq> Aborted \<and> (why = WriteFailed \<longrightarrow> sv_abort_requested s1)) ds \<or> tk_aborted t"
  shows "abort_inv s1"
  using assms by (auto simp: advances_def abort_inv_def abort_noted_def list_all_iff)

lemma abort_all_abort_inv: "abort_inv s \<Longrightarrow> abort_noted s \<Longrightarrow> abort_inv (abort_all s)"
  by (simp add: abort_inv_def abort_noted_def abort_all_def)

lemma step_abort_inv: "step C s s1 \<Longrightarrow> accounted C s \<Longrightarrow> abort_inv s \<Longrightarrow> abort_inv s1"
proof (induction rule: step.induct)
  case (step_read s res ok)
  let ?s = "reap s\<lparr> sv_reader := snd res \<rparr>"
  have r: "abort_inv ?s" "sv_phase ?s \<noteq> Stopped"
    using step_read by (auto simp: abort_inv_def abort_noted_def reap_def list_all_iff)
  then have "abort_inv (leave_loop ?s)" by (simp add: abort_inv_def abort_noted_def leave_loop_def)
  moreover have "abort_inv (on_read_error C ok err ?s)" for err
    using r by (auto simp: on_read_error_def Let_def reader_defs abort_inv_def abort_noted_def)
  ultimately show ?case using on_message_abort_inv[OF r]
    by (auto simp: on_input_def Let_def split: sum.split option.split)
next
  case (step_control s c cs)
  then show ?case
    by (cases c) (auto simp: on_control_def Let_def leave_loop_def abort_loop_def reap_def abort_inv_def
        abort_noted_def list_all_iff)
next
  case (step_left s)
  then show ?case by (auto simp: begin_drain_def abort_inv_def abort_noted_def abort_all_def)
next
  case (step_work s t outcome ok)
  then show ?case using work_advances[OF step_work.prems(1) step_work.hyps(2,3)] advances_abort_inv by blast
next
  case (step_drop s t)
  have "advances t [(tk_serial t, Aborted)] s (end_task t (Some Aborted) (sv_inflight s) s)"
    using end_task_advances[of t s "Some Aborted"] step_drop by (simp add: accounted_def)
  then show ?case using advances_abort_inv step_drop by blast
next
  case (step_join s t)
  then show ?case by (auto simp: join_task_def Let_def abort_inv_def abort_noted_def abort_all_def list_all_iff)
next
  case (step_stop s)
  then show ?case by (auto simp: abort_inv_def abort_noted_def)
qed

lemma reachable_abort_inv: "reachable C s \<Longrightarrow> abort_inv s"
proof (induction rule: reachable.induct)
  case (reach_start r)
  show ?case by (simp add: abort_inv_def server_start_def)
next
  case (reach_step s s1)
  then show ?case by (metis step_abort_inv reachable_accounted)
qed

section \<open>Draining ends\<close>

definition weight :: "'x server \<Rightarrow> nat" where
  \<comment> \<open>the steps that are left when reading is over\<close>
  "weight s = sum_list (map (\<lambda>t. Suc (stage_size (tk_stage t))) (sv_tasks s))
     + (case sv_phase s of Reading \<Rightarrow> 3 | Left \<Rightarrow> 2 | Draining \<Rightarrow> 1 | Stopped \<Rightarrow> 0)"

lemma advances_weight: "advances t ds s s1 \<Longrightarrow> weight s1 < weight s \<and> sv_phase s1 = sv_phase s"
  by (auto simp: advances_def weight_def)

lemma sum_list_filter_weight:
  assumes "t \<in> set ts"
  shows "sum_list (map (\<lambda>t. Suc (f t)) [u \<leftarrow> ts. tk_serial u \<noteq> tk_serial t]) < sum_list (map (\<lambda>t. Suc (f t)) ts)"
proof -
  have le: "sum_list (map (\<lambda>t. Suc (f t)) (filter P xs)) \<le> sum_list (map (\<lambda>t. Suc (f t)) xs)" for P xs
    by (induction xs) auto
  obtain xs ys where "ts = xs @ t # ys" using assms by (meson split_list)
  then show ?thesis
    using le[of "\<lambda>u. tk_serial u \<noteq> tk_serial t" xs] le[of "\<lambda>u. tk_serial u \<noteq> tk_serial t" ys] by simp
qed

lemma weight_abort_all [simp]: "weight (abort_all s) = weight s" "sv_phase (abort_all s) = sv_phase s"
  by (simp_all add: weight_def abort_all_def comp_def)

lemma step_weight:
  assumes "step C s s1" "accounted C s" "sv_phase s \<noteq> Reading"
  shows "weight s1 < weight s \<and> sv_phase s1 \<noteq> Reading"
  using assms
proof (induction rule: step.induct)
  case (step_left s)
  then show ?case by (auto simp: begin_drain_def weight_def abort_all_def comp_def)
next
  case (step_work s t outcome ok)
  then show ?case using work_advances[of C s t outcome ok] by (metis advances_weight)
next
  case (step_drop s t)
  then show ?case using advances_weight[OF end_task_advances[of t s "Some Aborted"]] by (simp add: accounted_def)
next
  case (step_join s t)
  let ?s = "s\<lparr> sv_tasks := [u \<leftarrow> sv_tasks s. tk_serial u \<noteq> tk_serial t] \<rparr>"
  have "weight ?s < weight s" using step_join sum_list_filter_weight[of t "sv_tasks s" "\<lambda>t. stage_size (tk_stage t)"]
    by (simp add: weight_def)
  then show ?case using step_join by (simp add: join_task_def Let_def)
next
  case (step_stop s)
  then show ?case by (simp add: weight_def)
qed auto

lemma drain_not_stuck:
  assumes "sv_phase s \<noteq> Reading" "sv_phase s \<noteq> Stopped"
  shows "\<exists>s1. step C s s1"
proof (cases "sv_phase s")
  case Draining
  show ?thesis
  proof (cases "sv_tasks s")
    case Nil
    with Draining show ?thesis using step_stop by blast
  next
    case (Cons t ts)
    then show ?thesis using Draining step_join[of s t C] step_work[of s t C] by fastforce
  qed
qed (use assms step_left in blast)+

lemma drain_run:
  "(step C ^^ n) s s1 \<Longrightarrow> reachable C s \<Longrightarrow> sv_phase s \<noteq> Reading
    \<Longrightarrow> n + weight s1 \<le> weight s \<and> sv_phase s1 \<noteq> Reading \<and> reachable C s1"
proof (induction n arbitrary: s1)
  case (Suc n)
  then obtain s2 where s2: "(step C ^^ n) s s2" "step C s2 s1" by auto
  with Suc have "n + weight s2 \<le> weight s" "sv_phase s2 \<noteq> Reading" "reachable C s2" by auto
  with step_weight[OF s2(2) reachable_accounted] reach_step[OF _ s2(2)] show ?case by fastforce
qed simp

text \<open>C22. When reading is over the server stops: from any reachable state behind the read loop no run is
  longer than the work that is left, and a run that can go no further has stopped.  (A step of a task
  that waits for its tool is the tool's return.)\<close>

theorem draining_ends:
  assumes "reachable C s" "sv_phase s \<noteq> Reading" "(step C ^^ n) s s1"
  shows "n \<le> weight s \<and> ((\<exists>s2. step C s1 s2) \<or> sv_phase s1 = Stopped)"
  using drain_run[OF assms(3,1,2)] drain_not_stuck[of s1 C] by auto

theorem draining_ends_witness:
  "7 \<le> weight (demo_state (demo_begin @ demo_reading))
   \<and> (\<exists>s1. (step demo_config ^^ 7) (demo_state (demo_begin @ demo_reading)) s1 \<and> sv_phase s1 = Stopped)"
proof -
  obtain s1 where s1: "run demo_config demo_rest (demo_state (demo_begin @ demo_reading)) = Some s1" "sv_phase s1 = Stopped"
    using demo_read_state(3) by auto
  have "length demo_rest = 7" by (simp add: demo_rest_def)
  then have "(step demo_config ^^ 7) (demo_state (demo_begin @ demo_reading)) s1"
    using run_relpow[OF s1(1)] by metis
  with draining_ends[OF demo_state_reachable _ this] demo_read_state(1) s1(2) show ?thesis by auto
qed

section \<open>Every message is answered once, and none is forgotten\<close>

text \<open>C6. What the server writes: at most one reply to each message, to a single request under its id, to
  a batch one reply for each item that calls for one in their order, to a malformed message the error
  under its id or null; a notification, a response and a batch without requests get nothing.\<close>

theorem replies_answer:
  assumes "reachable C s"
  shows "distinct (map ot_serial (sv_out s)) \<and> list_all (\<lambda>r. ot_serial r < length (sv_read s)
    \<and> payload_expect (ot_payload r) = expected C (sv_read s ! ot_serial r)) (sv_out s)"
  using reachable_accounted[OF assms] by (simp add: accounted_def settled_def reply_ok_def[abs_def])

theorem replies_answer_witness:
  "list_all (\<lambda>r. payload_expect (ot_payload r) = OneReply (Some (JStr ''q''))) (sv_out (demo_state (demo_begin @ demo_reading @ demo_rest)))"
proof -
  have "map ot_serial (sv_out (demo_state (demo_begin @ demo_reading @ demo_rest))) = [2]"
    by (rule demo_stopped_state)
  moreover have "expected demo_config (sv_read (demo_state (demo_begin @ demo_reading @ demo_rest)) ! 2) = OneReply (Some (JStr ''q''))"
    by code_simp
  ultimately show ?thesis
    using replies_answer[OF demo_state_reachable[of "demo_begin @ demo_reading @ demo_rest"]] by (auto simp: list_all_iff)
qed

text \<open>C12. When the server has stopped without a failed write or a broken stream, each message that calls
  for a reply was answered, unless its call was cancelled or its tool panicked.\<close>

theorem stopped_settled:
  assumes "reachable C s" "sv_phase s = Stopped" "\<not> sv_abort_pending s" "\<not> sv_abort_requested s"
    and "n < length (sv_read s)" "expected C (sv_read s ! n) \<noteq> NoReply"
  shows "n \<in> set (map ot_serial (sv_out s)) \<or> (n, WasCancelled) \<in> set (sv_dropped s) \<or> (n, Panicked) \<in> set (sv_dropped s)"
proof -
  have "sv_tasks s = []" and drops: "list_all (\<lambda>(n, why). why \<noteq> Aborted \<and> why \<noteq> WriteFailed) (sv_dropped s)"
    using reachable_abort_inv[OF assms(1)] assms(2-4) by (auto simp: abort_inv_def abort_noted_def)
  then have "n \<in> set (settled s)"
    using reachable_accounted[OF assms(1)] assms(5,6) by (simp add: accounted_def covers_def)
  moreover have "why = WasCancelled \<or> why = Panicked" if "(n, why) \<in> set (sv_dropped s)" for why
    using that drops by (cases why) (auto simp: list_all_iff)
  ultimately show ?thesis unfolding settled_def by force
qed

theorem stopped_settled_witness:
  "2 \<in> set (map ot_serial (sv_out (demo_state (demo_begin @ demo_reading @ demo_rest))))
   \<or> (2, WasCancelled) \<in> set (sv_dropped (demo_state (demo_begin @ demo_reading @ demo_rest)))
   \<or> (2, Panicked) \<in> set (sv_dropped (demo_state (demo_begin @ demo_reading @ demo_rest)))"
proof (rule stopped_settled[OF demo_state_reachable demo_stopped_state(1-3)])
  show "2 < length (sv_read (demo_state (demo_begin @ demo_reading @ demo_rest)))" by (simp add: demo_stopped_state)
  show "expected demo_config (sv_read (demo_state (demo_begin @ demo_reading @ demo_rest)) ! 2) \<noteq> NoReply" by code_simp
qed

section \<open>Nothing is read behind a shutdown\<close>

definition asks_shutdown :: "'x config \<Rightarrow> input \<Rightarrow> bool" where
  "asks_shutdown C inp =
     (case inp of
        Broken err \<Rightarrow> False
      | Message m \<Rightarrow> (case parse_rpc_message (cf_from_str C) (mm_body m) of
            Some (Inr (SingleRequest req)) \<Rightarrow> request_requests_shutdown req
          | Some (Inr (Batch items)) \<Rightarrow> batch_requests_shutdown items
          | _ \<Rightarrow> False))"

definition shutdown_inv :: "'x config \<Rightarrow> 'x server \<Rightarrow> bool" where
  "shutdown_inv C s \<longleftrightarrow>
     list_all (\<lambda>x. \<not> asks_shutdown C x) (if sv_phase s = Reading then sv_read s else butlast (sv_read s))"

lemma shutdown_inv_same:
  assumes "shutdown_inv C s" "sv_read s1 = sv_read s" "sv_phase s1 = Reading \<longrightarrow> sv_phase s = Reading"
  shows "shutdown_inv C s1"
  using assms by (auto simp: shutdown_inv_def list_all_iff dest: in_set_butlastD split: if_splits)

lemma on_message_reads:
  "sv_read (on_message C ok m s) = sv_read s @ [Message m]"
  "asks_shutdown C (Message m) \<Longrightarrow> sv_phase (on_message C ok m s) = Left"
  by (auto simp: on_message_def asks_shutdown_def on_request_def on_batch_def reader_defs Let_def
      request_requests_shutdown_def split: option.splits sum.splits parse_error.splits rpc_message.splits)

lemma on_read_error_reads: "sv_read (on_read_error C ok err s) = sv_read s @ [Broken err]"
  by (simp add: on_read_error_def reader_defs Let_def)

lemma step_shutdown_inv: "step C s s1 \<Longrightarrow> accounted C s \<Longrightarrow> shutdown_inv C s \<Longrightarrow> shutdown_inv C s1"
proof (induction rule: step.induct)
  case (step_read s res ok)
  let ?s = "reap s\<lparr> sv_reader := snd res \<rparr>"
  have same: "sv_read ?s = sv_read s" "sv_phase ?s = Reading" using step_read by (simp_all add: reap_def)
  have old: "list_all (\<lambda>x. \<not> asks_shutdown C x) (sv_read s)" using step_read by (simp add: shutdown_inv_def)
  have "shutdown_inv C (on_message C ok m ?s)" for m
    using old on_message_reads[where s = ?s and m = m] same by (auto simp: shutdown_inv_def)
  moreover have "shutdown_inv C (on_read_error C ok err ?s)" for err
    using old same by (auto simp: shutdown_inv_def on_read_error_reads asks_shutdown_def)
  moreover have "shutdown_inv C (leave_loop ?s)"
    using old same by (auto simp: shutdown_inv_def leave_loop_def list_all_iff dest: in_set_butlastD)
  ultimately show ?case by (auto simp: on_input_def Let_def split: sum.split option.split)
next
  case (step_control s c cs)
  then show ?case
    by (elim shutdown_inv_same) (auto simp: on_control_def Let_def leave_loop_def abort_loop_def reap_def split: control.split)
next
  case (step_left s)
  then show ?case by (elim shutdown_inv_same) (auto simp: begin_drain_def abort_all_def)
next
  case (step_work s t outcome ok)
  then obtain ds where "advances t ds s (work C outcome ok t s)" using work_advances[of C s t outcome ok] by blast
  then show ?case using step_work.prems(2) by (elim shutdown_inv_same) (auto simp: advances_def)
next
  case (step_drop s t)
  then have "advances t [(tk_serial t, Aborted)] s (end_task t (Some Aborted) (sv_inflight s) s)"
    using end_task_advances[of t s "Some Aborted"] by (simp add: accounted_def)
  then show ?case using step_drop.prems(2) by (elim shutdown_inv_same) (auto simp: advances_def)
next
  case (step_join s t)
  then show ?case by (elim shutdown_inv_same) (auto simp: join_task_def Let_def abort_all_def)
next
  case (step_stop s)
  then show ?case by (elim shutdown_inv_same) auto
qed

lemma reachable_shutdown_inv: "reachable C s \<Longrightarrow> shutdown_inv C s"
proof (induction rule: reachable.induct)
  case (reach_start r)
  show ?case by (simp add: shutdown_inv_def server_start_def)
next
  case (reach_step s s1)
  then show ?case by (metis step_shutdown_inv reachable_accounted)
qed

text \<open>A shutdown request, alone or in a batch, is the last message the server reads.\<close>

theorem shutdown_is_last:
  assumes "reachable C s" "n < length (sv_read s)" "asks_shutdown C (sv_read s ! n)"
  shows "sv_phase s \<noteq> Reading \<and> Suc n = length (sv_read s)"
proof -
  have inv: "shutdown_inv C s" using assms(1) by (rule reachable_shutdown_inv)
  have "sv_phase s \<noteq> Reading" using inv assms(2,3) by (auto simp: shutdown_inv_def list_all_length)
  moreover have "Suc n = length (sv_read s)"
  proof (rule ccontr)
    assume "Suc n \<noteq> length (sv_read s)"
    with assms(2) have "n < length (butlast (sv_read s))" by simp
    with inv assms(3) \<open>sv_phase s \<noteq> Reading\<close> show False by (auto simp: shutdown_inv_def list_all_length nth_butlast)
  qed
  ultimately show ?thesis by simp
qed

theorem shutdown_is_last_witness:
  "sv_phase (demo_state (demo_begin @ demo_reading)) \<noteq> Reading
   \<and> Suc 2 = length (sv_read (demo_state (demo_begin @ demo_reading)))"
proof (rule shutdown_is_last[OF demo_state_reachable])
  show "2 < length (sv_read (demo_state (demo_begin @ demo_reading)))" by (simp add: demo_read_state)
  show "asks_shutdown demo_config (sv_read (demo_state (demo_begin @ demo_reading)) ! 2)" by code_simp
qed

end
