(* ===== verification/InflightProps.thy ===== *)
theory InflightProps
  imports ServerClaims
begin

text \<open>
  The registry of calls in flight as the server loop uses it.  The interface is the locale
  \<open>call_table\<close>: a map with insertion and removal, its two laws, and what follows for the owners of
  the entries.  The registry of the code is an instance.  On it rest the invariants of the loop:
  an entry belongs to a running call, a call is given up as cancelled only when it was asked to be,
  and, as long as the client does not use an id twice, a cancellation reaches every running call.
\<close>

section \<open>The table of calls\<close>

locale call_table =
  fixes look :: "'r \<Rightarrow> 'i \<Rightarrow> 'k option"
    and put :: "'i \<Rightarrow> 'k \<Rightarrow> 'r \<Rightarrow> 'r"
    and del :: "'i \<Rightarrow> 'r \<Rightarrow> 'r"
  assumes look_put: "look (put i k r) j = (if j = i then Some k else look r j)"
    and look_del: "look (del i r) j = (if j = i then None else look r j)"
begin

definition owned :: "('i \<Rightarrow> 'k \<Rightarrow> bool) \<Rightarrow> 'r \<Rightarrow> bool" where
  "owned P r \<longleftrightarrow> (\<forall>i k. look r i = Some k \<longrightarrow> P i k)"

definition serves :: "('i \<Rightarrow> 'k \<Rightarrow> bool) \<Rightarrow> 'r \<Rightarrow> bool" where
  "serves P r \<longleftrightarrow> (\<forall>i k. P i k \<longrightarrow> look r i = Some k)"

lemma owned_put: "owned P r \<Longrightarrow> (\<And>j l. P j l \<Longrightarrow> Q j l) \<Longrightarrow> Q i k \<Longrightarrow> owned Q (put i k r)"
  by (auto simp: owned_def look_put)

lemma owned_del: "owned P r \<Longrightarrow> (\<And>j l. P j l \<Longrightarrow> j \<noteq> i \<Longrightarrow> Q j l) \<Longrightarrow> owned Q (del i r)"
  by (auto simp: owned_def look_del)

lemma owned_mono: "owned P r \<Longrightarrow> (\<And>j l. P j l \<Longrightarrow> Q j l) \<Longrightarrow> owned Q r"
  by (auto simp: owned_def)

lemma owned_none: "owned (\<lambda>i k. False) r \<Longrightarrow> look r i = None"
  by (auto simp: owned_def)

lemma serves_put: "serves P r \<Longrightarrow> (\<And>j l. Q j l \<Longrightarrow> (j, l) = (i, k) \<or> P j l \<and> j \<noteq> i) \<Longrightarrow> serves Q (put i k r)"
  by (auto simp: serves_def look_put)

lemma serves_del: "serves P r \<Longrightarrow> (\<And>j l. Q j l \<Longrightarrow> P j l \<and> j \<noteq> i) \<Longrightarrow> serves Q (del i r)"
  by (auto simp: serves_def look_del)

lemma serves_mono: "serves P r \<Longrightarrow> (\<And>j l. Q j l \<Longrightarrow> P j l) \<Longrightarrow> serves Q r"
  by (auto simp: serves_def)

end

interpretation ft: call_table if_entries inflight_register inflight_remove
  by unfold_locales (auto simp: inflight_register_def inflight_remove_def)

lemma table_ext:
  assumes "if_entries fl1 = if_entries fl"
  shows "ft.owned P fl1 = ft.owned P fl" "ft.serves P fl1 = ft.serves P fl"
  using assms by (simp_all add: ft.owned_def ft.serves_def)

section \<open>Calls and cancellations in the input\<close>

definition parsed :: "'x config \<Rightarrow> input \<Rightarrow> rpc_message option" where
  "parsed C inp =
     (case inp of
        Broken err \<Rightarrow> None
      | Message m \<Rightarrow> (case parse_rpc_message (cf_from_str C) (mm_body m) of Some (Inr msg) \<Rightarrow> Some msg | _ \<Rightarrow> None))"

definition request_call_id :: "rpc_request \<Rightarrow> rpc_id option" where
  "request_call_id req =
     (if rq_is_notification req \<or> rq_method_kind req \<noteq> ToolsCall then None
      else Option.bind (rq_id req) rpc_id_from_value)"

definition call_id :: "'x config \<Rightarrow> input \<Rightarrow> rpc_id option" where
  "call_id C inp = (case parsed C inp of Some (SingleRequest req) \<Rightarrow> request_call_id req | _ \<Rightarrow> None)"

definition request_cancels :: "rpc_request \<Rightarrow> rpc_id option" where
  "request_cancels req =
     (if rq_is_notification req \<and> rq_method_kind req = CancelledNotification
      then cancelled_request_id (rq_params req) else None)"

definition items_cancel :: "batch_item list \<Rightarrow> rpc_id \<Rightarrow> bool" where
  "items_cancel items i \<longleftrightarrow> (\<exists>req. BatchRequest req \<in> set items \<and> request_cancels req = Some i)"

definition cancels :: "'x config \<Rightarrow> input \<Rightarrow> rpc_id \<Rightarrow> bool" where
  \<comment> \<open>the input asks for the cancellation of the request with that id\<close>
  "cancels C inp i \<longleftrightarrow>
     (case parsed C inp of
        Some (SingleRequest req) \<Rightarrow> request_cancels req = Some i
      | Some (Batch items) \<Rightarrow> items_cancel items i
      | _ \<Rightarrow> False)"

lemma dispatch_notification_table:
  assumes "rq_is_notification req"
  shows "if_entries (dispatch_notification req fl) = if_entries fl"
    and "k \<in> if_cancelled (dispatch_notification req fl) \<Longrightarrow> k \<notin> if_cancelled fl
      \<Longrightarrow> \<exists>i. request_cancels req = Some i \<and> if_entries fl i = Some k"
    and "if_cancelled fl \<subseteq> if_cancelled (dispatch_notification req fl)"
  using assms
  by (auto simp: dispatch_notification_def request_cancels_def inflight_cancel_def
      split: method_kind.splits option.splits)

section \<open>The invariant\<close>

definition runs :: "'x server \<Rightarrow> rpc_id \<Rightarrow> token \<Rightarrow> bool" where
  \<comment> \<open>the call with this id and token is running\<close>
  "runs s i k \<longleftrightarrow> (\<exists>t \<in> set (sv_tasks s). tk_serial t = k \<and> tk_guard t = Some i \<and> tk_stage t \<noteq> Ended)"

definition ids_ok :: "'x config \<Rightarrow> input list \<Rightarrow> nat \<Rightarrow> rpc_id option \<Rightarrow> token option \<Rightarrow> bool" where
  "ids_ok C rd n g tok \<longleftrightarrow>
     n < length rd \<and> (tok = None \<or> tok = Some n) \<and> (case g of None \<Rightarrow> tok = None \<or> call_id C (rd ! n) = None
       | Some i \<Rightarrow> tok = Some n \<and> call_id C (rd ! n) = Some i)"

definition guard_ok :: "'x config \<Rightarrow> input list \<Rightarrow> 'x task \<Rightarrow> bool" where
  "guard_ok C rd t \<longleftrightarrow> ids_ok C rd (tk_serial t) (tk_guard t) (tk_token t)
     \<and> (\<forall>i. items_cancel (stage_items (tk_stage t)) i \<longrightarrow> cancels C (rd ! tk_serial t) i)"

definition cancel_ok :: "'x config \<Rightarrow> input list \<Rightarrow> token \<Rightarrow> bool" where
  "cancel_ok C rd k \<longleftrightarrow> k < length rd \<and> (\<exists>i. call_id C (rd ! k) = Some i \<and> (\<exists>x \<in> set rd. cancels C x i))"

definition table_inv :: "'x config \<Rightarrow> 'x server \<Rightarrow> bool" where
  "table_inv C s \<longleftrightarrow>
     ft.owned (runs s) (sv_inflight s)
     \<and> list_all (guard_ok C (sv_read s)) (sv_tasks s)
     \<and> (\<forall>k \<in> if_cancelled (sv_inflight s). cancel_ok C (sv_read s) k)
     \<and> (\<forall>n. (n, WasCancelled) \<in> set (sv_dropped s) \<longrightarrow> n \<in> if_cancelled (sv_inflight s))"

lemma runs_split:
  assumes "sv_tasks s = xs @ t # ys" "sv_tasks s1 = xs @ t\<lparr> tk_stage := st \<rparr> # ys" "tk_stage t \<noteq> Ended" "st \<noteq> Ended"
  shows "runs s1 = runs s"
  using assms by (auto simp: runs_def fun_eq_iff)

lemma runs_end:
  assumes "sv_tasks s = xs @ t # ys" "sv_tasks s1 = xs @ t\<lparr> tk_stage := Ended \<rparr> # ys" "runs s j l"
    and "tk_guard t \<noteq> Some j"
  shows "runs s1 j l"
  using assms by (auto simp: runs_def)

lemma runs_end_sub:
  assumes "sv_tasks s = xs @ t # ys" "sv_tasks s1 = xs @ t\<lparr> tk_stage := Ended \<rparr> # ys" "runs s1 j l"
  shows "runs s j l"
  using assms by (auto simp: runs_def)

lemma drop_guard_simps [simp]: "if_cancelled (drop_guard t fl) = if_cancelled fl"
  by (simp add: drop_guard_def inflight_remove_def split: option.split)

lemma drop_guard_owned:
  assumes "ft.owned (runs s) fl" "sv_tasks s = xs @ t # ys" "sv_tasks s1 = xs @ t\<lparr> tk_stage := Ended \<rparr> # ys"
  shows "ft.owned (runs s1) (drop_guard t fl)"
proof (cases "tk_guard t")
  case None
  then show ?thesis using ft.owned_mono[OF assms(1)] runs_end[OF assms(2,3)] by (simp add: drop_guard_def)
next
  case (Some i)
  then show ?thesis using ft.owned_del[OF assms(1)] runs_end[OF assms(2,3)] by (simp add: drop_guard_def)
qed

lemma guard_ok_ended: "guard_ok C rd t \<Longrightarrow> guard_ok C rd (t\<lparr> tk_stage := Ended \<rparr>)"
  by (simp add: guard_ok_def items_cancel_def)

lemma end_task_table_inv:
  assumes "table_inv C s" "t \<in> set (sv_tasks s)" "distinct (map tk_serial (sv_tasks s))" "tk_stage t \<noteq> Ended"
    and "why = Some WasCancelled \<longrightarrow> token_cancelled t (sv_inflight s)"
  shows "table_inv C (end_task t why (sv_inflight s) s)"
proof -
  obtain xs ys where ts: "sv_tasks s = xs @ t # ys" using assms(2) by (meson split_list)
  let ?s1 = "end_task t why (sv_inflight s) s"
  note eq = end_task_split[OF ts assms(3), of why "sv_inflight s"]
  have "ft.owned (runs ?s1) (sv_inflight ?s1)"
    using drop_guard_owned[OF _ ts, of "sv_inflight s" ?s1] assms(1) by (simp add: eq table_inv_def)
  moreover have "tk_serial t \<in> if_cancelled (sv_inflight s)" if "why = Some WasCancelled"
    using assms(1,2,5) that by (auto simp: table_inv_def list_all_iff guard_ok_def ids_ok_def token_cancelled_def split: option.splits)
  ultimately show ?thesis using assms(1) guard_ok_ended[of C "sv_read s" t]
    by (auto simp: eq table_inv_def ts split: option.splits)
qed

lemma table_inv_cong:
  assumes "table_inv C s" "sv_tasks s1 = sv_tasks s" "sv_inflight s1 = sv_inflight s" "sv_read s1 = sv_read s"
    "sv_dropped s1 = sv_dropped s"
  shows "table_inv C s1"
proof -
  have "runs s1 = runs s" using assms(2) by (simp add: runs_def fun_eq_iff)
  with assms show ?thesis by (simp add: table_inv_def)
qed

lemma items_cancel_mono: "set items \<subseteq> set items1 \<Longrightarrow> items_cancel items i \<Longrightarrow> items_cancel items1 i"
  by (auto simp: items_cancel_def)

lemma set_stage_table_inv:
  assumes "table_inv C s" "t \<in> set (sv_tasks s)" "distinct (map tk_serial (sv_tasks s))" "tk_stage t \<noteq> Ended"
    and "st \<noteq> Ended" "set (stage_items st) \<subseteq> set (stage_items (tk_stage t))"
    and "fl = sv_inflight s \<or> (\<exists>req. BatchRequest req \<in> set (stage_items (tk_stage t)) \<and> rq_is_notification req
        \<and> fl = dispatch_notification req (sv_inflight s))"
  shows "table_inv C (set_stage t st fl s)"
proof -
  obtain xs ys where ts: "sv_tasks s = xs @ t # ys" using assms(2) by (meson split_list)
  let ?s1 = "set_stage t st fl s"
  note eq = set_stage_split[OF ts assms(3), of st fl]
  have gt: "guard_ok C (sv_read s) t" using assms(1,2) by (auto simp: table_inv_def list_all_iff)
  then have g: "guard_ok C (sv_read s) (t\<lparr> tk_stage := st \<rparr>)"
    using items_cancel_mono[OF assms(6)] by (simp add: guard_ok_def)
  have entries: "if_entries fl = if_entries (sv_inflight s)" and grow: "if_cancelled (sv_inflight s) \<subseteq> if_cancelled fl"
    using assms(7) dispatch_notification_table by blast+
  have "runs ?s1 = runs s" using runs_split[OF ts _ assms(4,5)] by (simp add: eq)
  then have "ft.owned (runs ?s1) (sv_inflight ?s1)"
    using assms(1) table_ext(1)[OF entries] by (simp add: table_inv_def eq)
  moreover have "cancel_ok C (sv_read s) k" if "k \<in> if_cancelled fl" for k
  proof (cases "k \<in> if_cancelled (sv_inflight s)")
    case True
    then show ?thesis using assms(1) by (simp add: table_inv_def)
  next
    case False
    with that assms(7) obtain req i where req: "BatchRequest req \<in> set (stage_items (tk_stage t))"
        "request_cancels req = Some i" "if_entries (sv_inflight s) i = Some k"
      using dispatch_notification_table(2) by blast
    then have "cancels C (sv_read s ! tk_serial t) i" "tk_serial t < length (sv_read s)"
      using gt by (auto simp: guard_ok_def items_cancel_def ids_ok_def)
    moreover obtain u where "u \<in> set (sv_tasks s)" "tk_serial u = k" "tk_guard u = Some i"
      using assms(1) req(3) by (auto simp: table_inv_def ft.owned_def runs_def)
    then have "call_id C (sv_read s ! k) = Some i" "k < length (sv_read s)"
      using assms(1) by (auto simp: table_inv_def list_all_iff guard_ok_def ids_ok_def)
    ultimately show ?thesis by (auto simp: cancel_ok_def)
  qed
  ultimately show ?thesis using assms(1) g grow by (auto simp: eq table_inv_def ts)
qed

lemma progress_table_inv:
  assumes "progress C e t s s1" "table_inv C s" "t \<in> set (sv_tasks s)" "distinct (map tk_serial (sv_tasks s))"
    "tk_stage t \<noteq> Ended"
  shows "table_inv C s1"
  using assms(1)
proof cases
  case (pr_stage st fl)
  then show ?thesis using set_stage_table_inv[OF assms(2-5)] by blast
next
  case pr_silent
  then show ?thesis using end_task_table_inv[OF assms(2-5), of None] by simp
next
  case (pr_reply p cs)
  let ?s = "emit (tk_serial t) p (tk_skip_headers t) s\<lparr> sv_control := cs \<rparr>"
  have "table_inv C ?s" using assms(2) by (rule table_inv_cong) (simp_all add: emit_def)
  then show ?thesis using end_task_table_inv[of C ?s t None] assms(3-5) pr_reply by (simp add: emit_def)
next
  case (pr_lost why b cs)
  let ?s = "s\<lparr> sv_abort_requested := b, sv_control := cs \<rparr>"
  have "table_inv C ?s" using assms(2) by (rule table_inv_cong) simp_all
  then show ?thesis using end_task_table_inv[of C ?s t "Some why"] assms(3-5) pr_lost by simp
qed

section \<open>Reading keeps it\<close>

lemma guard_ok_snoc: "guard_ok C rd t \<Longrightarrow> guard_ok C (rd @ [x]) t"
  by (auto simp: guard_ok_def ids_ok_def nth_snoc split: option.splits)

lemma cancel_ok_snoc: "cancel_ok C rd k \<Longrightarrow> cancel_ok C (rd @ [x]) k"
  by (auto simp: cancel_ok_def nth_snoc)

lemma table_inv_read:
  assumes "table_inv C s" "sv_read s1 = sv_read s @ [x]" "sv_tasks s1 = sv_tasks s @ us"
    and "set (sv_dropped s1) \<subseteq> set (sv_dropped s) \<union> {(n, WriteFailed)}"
    and "ft.owned (runs s1) (sv_inflight s1)" "list_all (guard_ok C (sv_read s1)) us"
    and "if_cancelled (sv_inflight s) \<subseteq> if_cancelled (sv_inflight s1)"
    and "\<forall>k \<in> if_cancelled (sv_inflight s1) - if_cancelled (sv_inflight s). cancel_ok C (sv_read s1) k"
  shows "table_inv C s1"
proof -
  have "cancel_ok C (sv_read s1) k" if "k \<in> if_cancelled (sv_inflight s1)" for k
    using that assms(1,8) by (cases "k \<in> if_cancelled (sv_inflight s)")
      (auto simp: table_inv_def assms(2) intro: cancel_ok_snoc)
  moreover have "list_all (guard_ok C (sv_read s1)) (sv_tasks s1)"
    using assms(1,6) by (auto simp: table_inv_def list_all_iff assms(2,3) intro: guard_ok_snoc)
  moreover have "n \<in> if_cancelled (sv_inflight s1)" if "(n, WasCancelled) \<in> set (sv_dropped s1)" for n
    using that assms(1,4,7) by (auto simp: table_inv_def)
  ultimately show ?thesis using assms(5) by (simp add: table_inv_def)
qed

lemma runs_more: "sv_tasks s1 = sv_tasks s @ us \<Longrightarrow> runs s i k \<Longrightarrow> runs s1 i k"
  by (auto simp: runs_def)

lemma owned_more: "sv_tasks s1 = sv_tasks s @ us \<Longrightarrow> ft.owned (runs s) fl \<Longrightarrow> ft.owned (runs s1) fl"
  using ft.owned_mono[of "runs s" fl "runs s1"] runs_more[of s1 s us] by blast

lemma parsed_Message:
  "parse_rpc_message (cf_from_str C) (mm_body m) = Some (Inr msg) \<Longrightarrow> parsed C (Message m) = Some msg"
  by (simp add: parsed_def)

lemma on_request_table_inv:
  assumes "table_inv C s" "parsed C (Message m) = Some (SingleRequest req)"
  shows "table_inv C (on_request C (length (sv_read s)) skip req (record_input (Message m) s))"
proof (cases "rq_is_notification req")
  case True
  let ?fl = "dispatch_notification req (sv_inflight s)"
  let ?s1 = "record_input (Message m) s\<lparr> sv_inflight := ?fl \<rparr>"
  have "cancel_ok C (sv_read ?s1) k" if "k \<in> if_cancelled ?fl - if_cancelled (sv_inflight s)" for k
  proof -
    from that obtain i where i: "request_cancels req = Some i" "if_entries (sv_inflight s) i = Some k"
      using dispatch_notification_table(2)[OF True, of k "sv_inflight s"] by blast
    then obtain u where "u \<in> set (sv_tasks s)" "tk_serial u = k" "tk_guard u = Some i"
      using assms(1) by (auto simp: table_inv_def ft.owned_def runs_def)
    then have "call_id C (sv_read s ! k) = Some i" "k < length (sv_read s)"
      using assms(1) by (auto simp: table_inv_def list_all_iff guard_ok_def ids_ok_def)
    moreover have "cancels C (Message m) i" using i(1) assms(2) by (simp add: cancels_def)
    ultimately show ?thesis by (auto simp: cancel_ok_def record_input_def nth_snoc)
  qed
  moreover have "runs ?s1 = runs s" by (simp add: runs_def record_input_def fun_eq_iff)
  then have "ft.owned (runs ?s1) ?fl"
    using assms(1) table_ext(1)[OF dispatch_notification_table(1)[OF True]] by (simp add: table_inv_def)
  ultimately have "table_inv C ?s1"
    by - (rule table_inv_read[OF assms(1), where us = "[]"],
      auto simp: record_input_def dispatch_notification_table(3)[OF True])
  then show ?thesis using True by (simp add: on_request_def dispatch_start_def record_input_def)
next
  case False
  let ?n = "length (sv_read s)"
  define tok where "tok = (if rq_method_kind req = ToolsCall then Some ?n else None)"
  define g where "g = (if tok = None then None else Option.bind (rq_id req) rpc_id_from_value)"
  define fl where "fl = (case g of Some i \<Rightarrow> inflight_register i ?n (sv_inflight s) | None \<Rightarrow> sv_inflight s)"
  define t :: "'a task" where "t = \<lparr> tk_serial = ?n, tk_token = tok, tk_guard = g, tk_skip_headers = skip,
      tk_stage = Dispatching req, tk_aborted = False \<rparr>"
  define s1 where "s1 = on_request C ?n skip req (record_input (Message m) s)"
  have s1: "sv_read s1 = sv_read s @ [Message m]" "sv_tasks s1 = sv_tasks s @ [t]" "sv_dropped s1 = sv_dropped s"
      "sv_inflight s1 = fl"
    using False by (auto simp: s1_def on_request_def reader_defs Let_def t_def g_def tok_def fl_def split: option.split)
  have "call_id C (Message m) = g"
    using assms(2) False by (simp add: call_id_def request_call_id_def g_def tok_def)
  then have "guard_ok C (sv_read s1) t"
    by (auto simp: guard_ok_def ids_ok_def t_def items_cancel_def s1 nth_snoc g_def tok_def split: option.splits)
  moreover have "ft.owned (runs s1) fl"
  proof (cases g)
    case None
    then show ?thesis using owned_more[OF s1(2)] assms(1) by (simp add: fl_def table_inv_def)
  next
    case (Some i)
    then have "runs s1 i ?n" by (auto simp: runs_def s1 t_def)
    moreover have "ft.owned (runs s1) (sv_inflight s)" using owned_more[OF s1(2)] assms(1) by (simp add: table_inv_def)
    ultimately show ?thesis using ft.owned_put Some by (simp add: fl_def)
  qed
  moreover have "if_cancelled fl = if_cancelled (sv_inflight s)"
    by (simp add: fl_def inflight_register_def split: option.split)
  ultimately have "table_inv C s1"
    using s1 by - (rule table_inv_read[OF assms(1) s1(1,2)], auto)
  then show ?thesis by (simp add: s1_def)
qed

lemma on_batch_table_inv:
  assumes "table_inv C s" "parsed C (Message m) = Some (Batch items)"
  shows "table_inv C (on_batch (length (sv_read s)) skip items (record_input (Message m) s))"
proof -
  let ?n = "length (sv_read s)"
  define t :: "'a task" where "t = \<lparr> tk_serial = ?n, tk_token = None, tk_guard = None, tk_skip_headers = skip,
      tk_stage = Batching items [] False, tk_aborted = False \<rparr>"
  define s1 where "s1 = on_batch ?n skip items (record_input (Message m) s)"
  have s1: "sv_read s1 = sv_read s @ [Message m]" "sv_tasks s1 = sv_tasks s @ [t]" "sv_dropped s1 = sv_dropped s"
      "sv_inflight s1 = sv_inflight s"
    by (auto simp: s1_def on_batch_def reader_defs Let_def t_def)
  have "guard_ok C (sv_read s1) t"
    using assms(2) by (auto simp: guard_ok_def ids_ok_def t_def s1 nth_snoc cancels_def)
  moreover have "ft.owned (runs s1) (sv_inflight s)" using owned_more[OF s1(2)] assms(1) by (simp add: table_inv_def)
  ultimately have "table_inv C s1"
    using s1 by - (rule table_inv_read[OF assms(1) s1(1,2)], auto)
  then show ?thesis by (simp add: s1_def)
qed

lemma reader_reply_table_inv:
  assumes "table_inv C s"
  shows "table_inv C (reader_reply n r skip ok (record_input x s))"
proof -
  have "sv_tasks (reader_reply n r skip ok (record_input x s)) = sv_tasks s @ []" by (simp add: record_input_def)
  from owned_more[OF this] show ?thesis using assms
    by - (rule table_inv_read[OF assms, where us = "[]" and n = n and x = x], auto simp: reader_defs table_inv_def)
qed

lemma on_message_table_inv:
  assumes "table_inv C s"
  shows "table_inv C (on_message C ok m s)"
proof -
  have rec: "table_inv C (record_input (Message m) s)"
    using reader_reply_table_inv[OF assms, of 0 "protocol_error None 0 []" False True "Message m"]
    by (rule table_inv_cong) (simp_all add: reader_defs)
  let ?res = "parse_rpc_message (cf_from_str C) (mm_body m)"
  note parts = on_message_def Let_def reader_reply_table_inv[OF assms] rec
  show ?thesis
  proof (cases ?res)
    case (Some res)
    show ?thesis
    proof (cases res)
      case (Inl err)
      with Some show ?thesis by (cases err) (simp_all add: parts)
    next
      case (Inr msg)
      with Some parsed_Message[of C m msg] show ?thesis
        using on_request_table_inv[OF assms, of m] on_batch_table_inv[OF assms, of m]
        by (cases msg) (simp_all add: parts)
    qed
  qed (simp add: parts)
qed

lemma step_table_inv: "step C s s1 \<Longrightarrow> accounted C s \<Longrightarrow> table_inv C s \<Longrightarrow> table_inv C s1"
proof (induction rule: step.induct)
  case (step_read s res ok)
  let ?s = "reap s\<lparr> sv_reader := snd res \<rparr>"
  have "runs ?s = runs s" by (auto simp: runs_def reap_def fun_eq_iff)
  then have r: "table_inv C ?s" using step_read by (auto simp: table_inv_def reap_def list_all_iff)
  then have "table_inv C (leave_loop ?s)" by (rule table_inv_cong) (simp_all add: leave_loop_def)
  moreover have "table_inv C (on_read_error C ok err ?s)" for err
    using reader_reply_table_inv[OF r, of "length (sv_read ?s)" "protocol_error None (-32700) ''Parse error''"
        "skip_headers_for C (re_has_headers err)" ok "Broken err"]
    by (rule table_inv_cong) (simp_all add: on_read_error_def Let_def abort_loop_def leave_loop_def)
  ultimately show ?case using on_message_table_inv[OF r]
    by (auto simp: on_input_def Let_def split: sum.split option.split)
next
  case (step_control s c cs)
  have "runs (reap s) = runs s" by (auto simp: runs_def reap_def fun_eq_iff)
  then have "table_inv C (reap s)" using step_control by (auto simp: table_inv_def reap_def list_all_iff)
  then show ?case
    by (rule table_inv_cong) (auto simp: on_control_def Let_def leave_loop_def abort_loop_def split: control.split)
next
  case (step_left s)
  let ?s = "abort_all s"
  have "runs ?s = runs s" by (auto simp: runs_def abort_all_def fun_eq_iff)
  then have "table_inv C ?s" using step_left
    by (auto simp: table_inv_def abort_all_def list_all_iff guard_ok_def)
  with step_left have "table_inv C (if sv_abort_pending s \<or> sv_abort_requested s then ?s else s)" by simp
  then show ?case unfolding begin_drain_def by (rule table_inv_cong) simp_all
next
  case (step_work s t outcome ok)
  then have "stage_answers (expected C (sv_read s ! tk_serial t)) (tk_stage t)" "distinct (map tk_serial (sv_tasks s))"
    by (auto simp: accounted_def list_all_iff task_ok_def)
  then show ?case using progress_table_inv[OF work_progress] step_work by blast
next
  case (step_drop s t)
  then show ?case by (intro end_task_table_inv) (auto simp: accounted_def)
next
  case (step_join s t)
  let ?s = "s\<lparr> sv_tasks := [u \<leftarrow> sv_tasks s. tk_serial u \<noteq> tk_serial t] \<rparr>"
  have "u = t" if "u \<in> set (sv_tasks s)" "tk_serial u = tk_serial t" for u
    using that step_join by (auto simp: accounted_def distinct_map inj_on_def)
  then have "runs ?s = runs s" using step_join by (auto simp: runs_def fun_eq_iff)
  then have inv: "table_inv C ?s" using step_join by (auto simp: table_inv_def list_all_iff)
  have "runs (abort_all ?s) = runs ?s" by (auto simp: runs_def abort_all_def fun_eq_iff)
  then have "table_inv C (abort_all ?s)" using inv
    by (auto simp: table_inv_def abort_all_def list_all_iff guard_ok_def)
  with inv show ?case by (simp add: join_task_def Let_def)
next
  case (step_stop s)
  then show ?case by (auto elim: table_inv_cong)
qed

lemma reachable_table_inv: "reachable C s \<Longrightarrow> table_inv C s"
proof (induction rule: reachable.induct)
  case (reach_start r)
  show ?case by (simp add: table_inv_def server_start_def ft.owned_def inflight_new_def)
next
  case (reach_step s s1)
  then show ?case by (metis step_table_inv reachable_accounted)
qed

section \<open>What the client can rely on\<close>

text \<open>A call is given up as cancelled only when some message the server read asked for the
  cancellation of the request with its id.\<close>

theorem cancelled_was_asked:
  assumes "reachable C s" "(n, WasCancelled) \<in> set (sv_dropped s)"
  shows "n < length (sv_read s) \<and> (\<exists>i. call_id C (sv_read s ! n) = Some i \<and> list_ex (\<lambda>x. cancels C x i) (sv_read s))"
  using reachable_table_inv[OF assms(1)] assms(2) by (auto simp: table_inv_def cancel_ok_def list_ex_iff)

theorem cancelled_was_asked_witness:
  "\<exists>i. call_id demo_config (sv_read (demo_state (demo_begin @ demo_reading @ demo_rest)) ! 0) = Some i
   \<and> list_ex (\<lambda>x. cancels demo_config x i) (sv_read (demo_state (demo_begin @ demo_reading @ demo_rest)))"
  using cancelled_was_asked[OF demo_state_reachable, of 0 "demo_begin @ demo_reading @ demo_rest"] demo_stopped_state(6)
  by simp

text \<open>The registry of calls in flight does not leak: each entry is that of a call that is running now
  under that id, and a stopped server has none.\<close>

theorem inflight_entries_run:
  assumes "reachable C s"
  shows "(case if_entries (sv_inflight s) i of None \<Rightarrow> True | Some k \<Rightarrow> runs s i k)
    \<and> \<not> (sv_phase s = Stopped \<and> if_entries (sv_inflight s) i \<noteq> None)"
proof -
  have own: "ft.owned (runs s) (sv_inflight s)" using reachable_table_inv[OF assms] by (simp add: table_inv_def)
  have "if_entries (sv_inflight s) i = None" if "sv_phase s = Stopped"
  proof (rule ft.owned_none)
    have "runs s = (\<lambda>i k. False)" using reachable_abort_inv[OF assms] that by (auto simp: runs_def abort_inv_def fun_eq_iff)
    with own show "ft.owned (\<lambda>i k. False) (sv_inflight s)" by simp
  qed
  with own show ?thesis by (auto simp: ft.owned_def split: option.split)
qed

theorem inflight_entries_run_witness:
  "if_entries (sv_inflight (demo_state demo_begin)) (IdNumber ''1'') = Some 0
   \<and> runs (demo_state demo_begin) (IdNumber ''1'') 0"
proof -
  have "if_entries (sv_inflight (demo_state demo_begin)) (IdNumber ''1'') = Some 0" by code_simp
  with inflight_entries_run[OF demo_state_reachable, of demo_begin "IdNumber ''1''"] show ?thesis by simp
qed

end
