(* ===== verification/InflightClaims.thy ===== *)
theory InflightClaims
  imports InflightProps
begin

text \<open>
  A cancellation reaches each running call when the client gives every call an id of its own.
\<close>

definition unique_calls :: "'x config \<Rightarrow> input list \<Rightarrow> bool" where
  \<comment> \<open>no two calls of the input have the same id\<close>
  "unique_calls C rd \<longleftrightarrow> distinct (List.map_filter (call_id C) rd)"

definition served :: "'x config \<Rightarrow> 'x server \<Rightarrow> bool" where
  "served C s \<longleftrightarrow> (unique_calls C (sv_read s) \<longrightarrow> ft.serves (runs s) (sv_inflight s))"

lemma map_filter_nth_mem: "n < length xs \<Longrightarrow> f (xs ! n) = Some y \<Longrightarrow> y \<in> set (List.map_filter f xs)"
  by (force simp: List.map_filter_def)

lemma map_filter_append: "List.map_filter f (xs @ ys) = List.map_filter f xs @ List.map_filter f ys"
  by (simp add: List.map_filter_def)

lemma map_filter_distinct_nth:
  assumes "distinct (List.map_filter f xs)" "a < b" "b < length xs" "f (xs ! a) = Some y" "f (xs ! b) = Some y"
  shows False
proof -
  have "y \<in> set (List.map_filter f (take b xs))" using assms(2-4) map_filter_nth_mem[of a "take b xs" f y] by simp
  moreover have "y \<in> set (List.map_filter f (drop b xs))" using assms(3,5) map_filter_nth_mem[of 0 "drop b xs" f y] by simp
  moreover have "distinct (List.map_filter f (take b xs) @ List.map_filter f (drop b xs))"
    using assms(1) by (simp flip: map_filter_append)
  ultimately show False by auto
qed

lemma unique_calls_nth:
  assumes "unique_calls C rd" "a < length rd" "b < length rd" "call_id C (rd ! a) = Some i" "call_id C (rd ! b) = Some i"
  shows "a = b"
  using assms map_filter_distinct_nth[of "call_id C" rd] by (metis linorder_neqE_nat unique_calls_def)

lemma unique_calls_snoc: "unique_calls C (rd @ [x]) \<Longrightarrow> unique_calls C rd"
  by (auto simp: unique_calls_def List.map_filter_def)

lemma runs_call_id:
  assumes "table_inv C s" "runs s i k"
  shows "k < length (sv_read s)" "call_id C (sv_read s ! k) = Some i"
  using assms by (auto simp: table_inv_def runs_def list_all_iff guard_ok_def ids_ok_def)

lemma served_same:
  assumes "served C s" "sv_read s1 = sv_read s" "\<And>i k. runs s1 i k \<Longrightarrow> runs s i k"
    "if_entries (sv_inflight s1) = if_entries (sv_inflight s)"
  shows "served C s1"
  using assms ft.serves_mono[of "runs s" "sv_inflight s" "runs s1"] table_ext(2)[OF assms(4)] by (auto simp: served_def)

lemma end_task_served:
  assumes "served C s" "table_inv C s" "t \<in> set (sv_tasks s)" "distinct (map tk_serial (sv_tasks s))" "tk_stage t \<noteq> Ended"
  shows "served C (end_task t why (sv_inflight s) s)"
proof -
  obtain xs ys where ts: "sv_tasks s = xs @ t # ys" using assms(3) by (meson split_list)
  let ?s1 = "end_task t why (sv_inflight s) s"
  note eq = end_task_split[OF ts assms(4), of why "sv_inflight s"]
  have sub: "runs s j l" if "runs ?s1 j l" for j l
    using that runs_end_sub[OF ts, of ?s1] by (simp add: eq)
  show ?thesis
  proof (cases "tk_guard t")
    case None
    then show ?thesis using served_same[OF assms(1), of ?s1] sub by (simp add: eq drop_guard_def)
  next
    case (Some i)
    have other: "runs s j l \<and> j \<noteq> i" if "unique_calls C (sv_read s)" "runs ?s1 j l" for j l
    proof -
      have r: "runs s j l" using sub that(2) .
      have "runs s i (tk_serial t)" using Some assms(3,5) by (auto simp: runs_def)
      then have "l = tk_serial t" if "j = i"
        using unique_calls_nth[OF \<open>unique_calls C (sv_read s)\<close>] runs_call_id[OF assms(2)] r that by metis
      moreover have "l \<noteq> tk_serial t"
        using that(2) assms(4) by (auto simp: runs_def eq ts) (metis image_eqI)+
      ultimately show ?thesis using r by blast
    qed
    show ?thesis unfolding served_def
    proof
      assume "unique_calls C (sv_read ?s1)"
      then have u: "unique_calls C (sv_read s)" by (simp add: eq)
      then have "ft.serves (runs s) (sv_inflight s)" using assms(1) by (simp add: served_def)
      then have "ft.serves (runs ?s1) (inflight_remove i (sv_inflight s))"
        using other[OF u] by (rule ft.serves_del)
      then show "ft.serves (runs ?s1) (sv_inflight ?s1)" by (simp add: eq drop_guard_def Some)
    qed
  qed
qed

lemma progress_served:
  assumes "progress C e t s s1" "served C s" "table_inv C s" "t \<in> set (sv_tasks s)"
    "distinct (map tk_serial (sv_tasks s))" "tk_stage t \<noteq> Ended"
  shows "served C s1"
  using assms(1)
proof cases
  case (pr_stage st fl)
  obtain xs ys where ts: "sv_tasks s = xs @ t # ys" using assms(4) by (meson split_list)
  have "if_entries fl = if_entries (sv_inflight s)" using pr_stage(6) dispatch_notification_table(1) by blast
  moreover have "runs s1 = runs s"
    using runs_split[OF ts _ assms(6) pr_stage(2)] by (simp add: pr_stage(1) set_stage_split[OF ts assms(5)])
  ultimately show ?thesis
    by (intro served_same[OF assms(2)]) (simp_all add: pr_stage(1) set_stage_split[OF ts assms(5)])
next
  case pr_silent
  then show ?thesis using end_task_served[OF assms(2-6), of None] by simp
next
  case (pr_reply p cs)
  let ?s = "emit (tk_serial t) p (tk_skip_headers t) s\<lparr> sv_control := cs \<rparr>"
  have "table_inv C ?s" using assms(3) by (rule table_inv_cong) (simp_all add: emit_def)
  moreover have "served C ?s" using assms(2) by (simp add: served_def runs_def[abs_def] emit_def)
  ultimately show ?thesis using end_task_served[of C ?s t None] assms(4-6) pr_reply by (simp add: emit_def)
next
  case (pr_lost why b cs)
  let ?s = "s\<lparr> sv_abort_requested := b, sv_control := cs \<rparr>"
  have "table_inv C ?s" using assms(3) by (rule table_inv_cong) simp_all
  moreover have "served C ?s" using assms(2) by (simp add: served_def runs_def[abs_def])
  ultimately show ?thesis using end_task_served[of C ?s t "Some why"] assms(4-6) pr_lost by simp
qed

lemma served_read:
  assumes "served C s" "sv_read s1 = sv_read s @ [x]" "sv_tasks s1 = sv_tasks s @ us"
    and "list_all (\<lambda>t. tk_guard t = None) us" "if_entries (sv_inflight s1) = if_entries (sv_inflight s)"
  shows "served C s1"
proof -
  have "runs s i k" if "runs s1 i k" for i k using that assms(3,4) by (auto simp: runs_def list_all_iff)
  then show ?thesis unfolding served_def
    using assms(1,2,5) unique_calls_snoc ft.serves_mono[of "runs s" "sv_inflight s" "runs s1"] table_ext(2)[OF assms(5)]
    by (metis served_def)
qed

lemma on_request_served:
  assumes "served C s" "table_inv C s" "parsed C (Message m) = Some (SingleRequest req)"
  shows "served C (on_request C (length (sv_read s)) skip req (record_input (Message m) s))"
proof -
  let ?n = "length (sv_read s)"
  let ?s1 = "on_request C ?n skip req (record_input (Message m) s)"
  have read: "sv_read ?s1 = sv_read s @ [Message m]"
    by (simp add: on_request_def reader_defs Let_def)
  consider (notification) "rq_is_notification req"
    | (plain) "\<not> rq_is_notification req" "request_call_id req = None"
    | (call) i where "\<not> rq_is_notification req" "request_call_id req = Some i"
    by blast
  then show ?thesis
  proof cases
    case notification
    then show ?thesis
      by (intro served_read[OF assms(1) read, of "[]"])
        (simp_all add: on_request_def reader_defs dispatch_start_def dispatch_notification_table(1))
  next
    case plain
    then show ?thesis
      by (intro served_read[OF assms(1) read]) (auto simp: on_request_def reader_defs Let_def request_call_id_def split: if_splits)
  next
    case (call i)
    then have id: "Option.bind (rq_id req) rpc_id_from_value = Some i" "rq_method_kind req = ToolsCall"
      by (auto simp: request_call_id_def split: if_splits)
    then obtain t where s1: "sv_tasks ?s1 = sv_tasks s @ [t]" "tk_serial t = ?n" "tk_guard t = Some i"
        "sv_inflight ?s1 = inflight_register i ?n (sv_inflight s)"
      using call(1) by (simp add: on_request_def reader_defs Let_def)
    have cid: "call_id C (Message m) = Some i" using assms(3) call(2) by (simp add: call_id_def)
    have other: "(j, l) = (i, ?n) \<or> runs s j l \<and> j \<noteq> i"
      if u: "unique_calls C (sv_read s @ [Message m])" and r: "runs ?s1 j l" for j l
    proof (cases "runs s j l")
      case True
      note old = runs_call_id[OF assms(2) True]
      have "j \<noteq> i"
      proof
        assume "j = i"
        then have "l = ?n" using unique_calls_nth[OF u, of l ?n i] old cid by (simp add: nth_snoc)
        with old show False by simp
      qed
      with True show ?thesis by simp
    next
      case False
      then show ?thesis using r s1(1-3) by (auto simp: runs_def)
    qed
    show ?thesis unfolding served_def
    proof
      assume "unique_calls C (sv_read ?s1)"
      then have u: "unique_calls C (sv_read s @ [Message m])" by (simp add: read)
      then have "ft.serves (runs s) (sv_inflight s)" using assms(1) unique_calls_snoc by (auto simp: served_def)
      then show "ft.serves (runs ?s1) (sv_inflight ?s1)" unfolding s1(4) using other[OF u] by (rule ft.serves_put)
    qed
  qed
qed

lemma on_message_served:
  assumes "served C s" "table_inv C s"
  shows "served C (on_message C ok m s)"
proof -
  have reply: "served C (reader_reply n r skip ok (record_input x s))" for n r skip x
    using assms(1) by (rule served_read[where us = "[]"]) (simp_all add: reader_defs)
  have rec: "served C (record_input (Message m) s)"
    using assms(1) by (rule served_read[where us = "[]"]) (simp_all add: reader_defs)
  have batch: "served C (on_batch n skip items (record_input (Message m) s))" for n skip items
  proof (rule served_read[OF assms(1)])
    show "sv_tasks (on_batch n skip items (record_input (Message m) s)) = sv_tasks s
        @ [\<lparr> tk_serial = n, tk_token = None, tk_guard = None, tk_skip_headers = skip,
             tk_stage = Batching items [] False, tk_aborted = False \<rparr>]"
      by (simp add: on_batch_def reader_defs Let_def)
  qed (simp_all add: on_batch_def reader_defs Let_def)
  show ?thesis
    using reply rec batch on_request_served[OF assms parsed_Message]
    by (auto simp: on_message_def Let_def split: option.split sum.split parse_error.split rpc_message.split)
qed

lemma step_served: "step C s s1 \<Longrightarrow> accounted C s \<Longrightarrow> table_inv C s \<Longrightarrow> served C s \<Longrightarrow> served C s1"
proof (induction rule: step.induct)
  case (step_read s res ok)
  let ?s = "reap s\<lparr> sv_reader := snd res \<rparr>"
  have "runs ?s = runs s" by (auto simp: runs_def reap_def fun_eq_iff)
  then have r: "table_inv C ?s" "served C ?s"
    using step_read by (auto simp: table_inv_def reap_def list_all_iff served_def)
  then have "served C (leave_loop ?s)" by (simp add: served_def leave_loop_def runs_def[abs_def])
  moreover have "served C (on_read_error C ok err ?s)" for err
    using r(2) by (rule served_read[where us = "[]"]) (simp_all add: on_read_error_def Let_def reader_defs)
  ultimately show ?case using on_message_served[OF r(2,1)]
    by (auto simp: on_input_def Let_def split: sum.split option.split)
next
  case (step_control s c cs)
  from step_control.prems(3) show ?case
    by (rule served_same)
      (auto simp: on_control_def Let_def leave_loop_def abort_loop_def reap_def runs_def split: control.splits)
next
  case (step_left s)
  from step_left.prems(3) show ?case by (rule served_same) (auto simp: begin_drain_def abort_all_def runs_def split: if_splits)
next
  case (step_work s t outcome ok)
  then have "stage_answers (expected C (sv_read s ! tk_serial t)) (tk_stage t)" "distinct (map tk_serial (sv_tasks s))"
    by (auto simp: accounted_def list_all_iff task_ok_def)
  then show ?case using progress_served[OF work_progress] step_work by blast
next
  case (step_drop s t)
  then show ?case by (intro end_task_served) (auto simp: accounted_def)
next
  case (step_join s t)
  from step_join.prems(3) show ?case by (rule served_same) (auto simp: join_task_def Let_def abort_all_def runs_def split: if_splits)
next
  case (step_stop s)
  from step_stop.prems(3) show ?case by (rule served_same) (auto simp: runs_def)
qed

lemma reachable_served: "reachable C s \<Longrightarrow> served C s"
proof (induction rule: reachable.induct)
  case (reach_start r)
  show ?case by (simp add: served_def server_start_def ft.serves_def runs_def)
next
  case (reach_step s s1)
  then show ?case by (metis step_served reachable_accounted reachable_table_inv)
qed

text \<open>C14. As long as no two of its calls have the same id, the client can cancel each call that is running:
  the notification finds the call's own token, and when the tool then returns, whatever it returns, the
  call is given up and nothing is written for it.\<close>

theorem cancel_reaches:
  assumes "reachable C s" "unique_calls C (sv_read s)" "t \<in> set (sv_tasks s)" "tk_guard t = Some i"
    and "tk_stage t = InTool req x args" "inflight_cancel i (sv_inflight s) = (hit, fl)"
  shows "hit \<and> token_cancelled t fl
    \<and> work C (Some j) ok t (s\<lparr> sv_inflight := fl \<rparr>) = end_task t (Some WasCancelled) fl (s\<lparr> sv_inflight := fl \<rparr>)"
proof -
  have "runs s i (tk_serial t)" using assms(3-5) by (auto simp: runs_def)
  moreover have "ft.serves (runs s) (sv_inflight s)" using reachable_served[OF assms(1)] assms(2) by (simp add: served_def)
  ultimately have "if_entries (sv_inflight s) i = Some (tk_serial t)" by (simp add: ft.serves_def)
  then have fl: "hit" "tk_serial t \<in> if_cancelled fl" using assms(6) by (auto simp: inflight_cancel_def)
  have "tk_token t = Some (tk_serial t)"
    using reachable_table_inv[OF assms(1)] assms(3,4) by (auto simp: table_inv_def list_all_iff guard_ok_def ids_ok_def)
  with fl have "token_cancelled t fl" by (simp add: token_cancelled_def)
  with fl(1) assms(5) show ?thesis by (simp add: work_def dispatch_finish_def)
qed

theorem cancel_reaches_witness:
  "\<exists>t fl. t \<in> set (sv_tasks (demo_state demo_begin)) \<and> token_cancelled t fl
   \<and> inflight_cancel (IdNumber ''1'') (sv_inflight (demo_state demo_begin)) = (True, fl)"
proof -
  obtain t where t: "sv_tasks (demo_state demo_begin) = [t]" "tk_guard t = Some (IdNumber ''1'')"
    using demo_begin_state(2) by (auto simp: map_eq_Cons_conv)
  then obtain req x args where "tk_stage t = InTool req x args"
    using demo_begin_state(3) by (auto split: stage.splits)
  moreover obtain hit fl where fl: "inflight_cancel (IdNumber ''1'') (sv_inflight (demo_state demo_begin)) = (hit, fl)"
    by (cases "inflight_cancel (IdNumber ''1'') (sv_inflight (demo_state demo_begin))")
  moreover have "unique_calls demo_config (sv_read (demo_state demo_begin))" by code_simp
  ultimately have "hit \<and> token_cancelled t fl"
    using cancel_reaches[OF demo_state_reachable, of demo_begin t "IdNumber ''1''" req x args hit fl] t by simp
  with t fl show ?thesis by auto
qed

end
