(* ===== verification/Spec2Isabelle.thy ===== *)
theory Spec2Isabelle
  imports FreshClaims SearchExact EditProps IndexRoundtrip BlobProps StageClaims ApplyProps RunProps WebClaims MarkdownChunks FrameClaims InflightClaims
begin

text \<open>
  A verification development for \<^verbatim>\<open>tools-mcp\<close>, a server of the Model Context Protocol written in
  Rust.  It reads JSON-RPC messages from standard input and offers tools on the files of a workspace and
  on its git repository.  This theory imports all others and holds no definitions of its own.

  \<^bold>\<open>The program and its parts.\<close>  A message goes through the framing (\<^verbatim>\<open>tools-mcp-core/src/mcp_protocol.rs\<close>)
  into the server loop (\<^verbatim>\<open>tools-mcp-server/src/main.rs\<close>), which gives each request a task; the task parses
  the message and dispatches it (\<^verbatim>\<open>mcp_server.rs\<close>, \<^verbatim>\<open>composition.rs\<close>, \<^verbatim>\<open>tool_registry.rs\<close>) to the handler of
  a tool.  Three groups of tools are modelled from their request to their reply, and of a fourth, fetching web pages, the
  part that talks to the network and the cutting of documents: editing a file
  (\<^verbatim>\<open>tools-mcp-local/src/smart_file_edit\<close>), listing, staging and applying hunks with git
  (\<^verbatim>\<open>tools-mcp-git/src/git/handlers\<close>), and searching with an index in memory
  (\<^verbatim>\<open>tools-mcp-local/src/tools/handlers/search_memory.rs\<close>).  The edit handler shares a store of file
  hashes with the tools that read files; the git tools share the gate of the repository and the runner
  of commands; the searches share a cache of indexes.

  \<^bold>\<open>How the code is represented.\<close>  \<open>Prelude\<close>, \<open>Utf8\<close> and \<open>MemSearch\<close> hold what all components use of the
  standard library.  A \<open>u8\<close> is HOL's \<open>char\<close>, a \<open>Vec<u8>\<close> and the bytes of a \<open>String\<close> are \<open>char list\<close>, a
  \<open>char\<close> of Rust is the list of its UTF-8 bytes.  A \<open>usize\<close> or \<open>u64\<close> is a \<open>nat\<close>; where the code checks or
  saturates, the width is written out (\<open>saturating_add\<close>, \<open>checked_add\<close>), and words are used where the code works on
  bits (\<open>IndexFile\<close>).  A \<open>Result\<close> is a sum with the error on the left, composed by \<open>bindE\<close>; an expression that can
  panic is a branch of its own.  Structs are records, enums are datatypes with the constructors of the
  source, and the definitions have the names of the functions; a loop has the name of its function with
  \<open>_loop\<close> or the name of what it computes.  Programs that run commands take a state with the
  world of the outside, the trace of the commands run, and an environment that may act before each look.
  Asynchronous code is an inductive step relation whose steps run from one \<open>await\<close> (or one release of a
  lock) to the next.
\<close>

section \<open>The server\<close>

text \<open>
  \<open>Framing\<close> is the reading and writing of messages, over input that arrives in chunks.  \<open>FramingProps\<close> and
  \<open>FrameClaims\<close> show that a read depends on the bytes and not on their chunks, that a session that was
  written is read back message by message, and when a read waits although its message has arrived.
  \<open>ToolRegistry\<close> is the registry and the table of tools; \<open>Rpc\<close> classifies and dispatches a message, and
  \<open>RpcProps\<close> says without the parser which messages call for a reply and under which id.  \<open>ServerLoop\<close> is the loop
  with its tasks, the control queue and the draining.  \<open>ServerProps\<close> holds its invariants: an account of all
  messages (settled, at work, without reply, or given up, with the reason) and a measure; \<open>ServerClaims\<close>
  concludes that each reply answers its own request once, that nothing is forgotten when the server has
  stopped and that draining ends.  \<open>InflightProps\<close> states the registry of running calls as the locale
  \<open>call_table\<close> and interprets it on the registry of the code; \<open>InflightClaims\<close> shows that a cancellation
  reaches each running call whose id is its own.  \<open>ServerDemo\<close> runs sessions for the witnesses.
\<close>

section \<open>Editing a file\<close>

text \<open>
  \<open>FileModel\<close> is a file with its canonical view and its offset table (\<^verbatim>\<open>model.rs\<close>); \<open>FileTokens\<close> shows that the
  table indexes the tokens of the file (a scalar value or a line ending each).  \<open>Newlines\<close> is the
  normalisation of line endings, \<open>CanonicalView\<close> the contract between view and bytes as the locale
  \<open>offset_map\<close>, interpreted on \<open>byte_offset\<close>.  \<open>SnippetMatch\<close> finds a snippet or near misses (\<^verbatim>\<open>matching.rs\<close>),
  \<open>PathPolicy\<close> decides which path may be touched (\<^verbatim>\<open>path_policy.rs\<close>), \<open>SnippetEdit\<close> is the edit (\<^verbatim>\<open>edit.rs\<close>),
  \<open>EditSession\<close> the handler with the store of hashes (locale \<open>hash_store\<close>) and sessions in which other
  processes change files.  \<open>UniformFiles\<close> treats files with one kind of line ending; \<open>EditProps\<close> shows that an
  edit replaces the one occurrence asked for and nothing else, that it touches no other file and none that it has not seen in its
  present form, and where it may join line endings.
\<close>

section \<open>Hunks and patches with git\<close>

text \<open>
  \<open>GitTypes\<close> has the data, \<open>RepoPath\<close> the literal paths, \<open>IndexFile\<close> the reader of \<^verbatim>\<open>.git/index\<close> with every
  slice that could panic, and \<open>IndexRoundtrip\<close> a writer it is checked against.  \<open>DiffParse\<close> and \<open>DiffRecord\<close> parse what
  \<^verbatim>\<open>git diff\<close> prints; \<open>DiffLines\<close>, \<open>DiffProps\<close>, \<open>DiffDemo\<close> and \<open>DiffClaims\<close> give the round trips and the invariant of
  a parsed diff.  \<open>GitMeta\<close> is the gate of the repository and its identity, \<open>GitPolicy\<close> the authority,
  \<open>GitRun\<close> the runner of commands and \<open>GitRepo\<close> the resolution of a repository and the tool \<open>GitHunks\<close>; \<open>RunProps\<close>
  shows that every command runs confined and that a revalidation pins the repository.
  \<open>BlobApply\<close> computes the blob that staging should give (\<open>BlobProps\<close>: it is the application of an edit
  script, and unstaging undoes staging), \<open>HunkVerify\<close> counts hunks before and after (\<open>VerifyProps\<close>: the
  counting is the equality of multisets, through the locale \<open>counter\<close>).  \<open>IndexProbe\<close> reads the index through git, \<open>StageHunks\<close> is
  the handler \<open>GitStageHunks\<close>, \<open>HunkIds\<close> relates its identifiers to the ones that are listed.  \<open>StageTrace\<close>
  follows its commands through a small state machine, \<open>StageProps\<close> and \<open>StageSound\<close> carry from the
  steps to the handler what a returned program has learned from git, and \<open>StageClaims\<close> says what a reply that claims success rests
  on; \<open>StageDemo\<close> runs it on a small world.  \<open>GitApply\<close> is the handler \<open>GitApply\<close>, \<open>ApplyProps\<close> shows that it runs
  only patches that were admitted and what those are.
\<close>

section \<open>Searching\<close>

text \<open>
  \<open>SearchIndex\<close> builds the index of trigrams, \<open>SearchCandidates\<close> evaluates candidate expressions on it and \<open>SearchProps\<close>
  shows that the candidates are exactly the documents with the trigrams.  \<open>SearchRegex\<close> extracts what a
  regular expression requires (\<open>RegexProps\<close>: no match is lost).  \<open>SearchFuzzy\<close> has the seeds and the banded
  edit distance; \<open>EditDistance\<close> shows it to be the least number of edits within the bound, \<open>FuzzyProps\<close> that seeding
  loses no match.  \<open>SearchLines\<close> checks lines within a budget and prints events (\<open>LinesProps\<close>, \<open>BudgetProps\<close>:
  stopping early changes no event that is shown).  \<open>SearchQuery\<close> chooses a plan and runs a search;
  \<open>QueryProps\<close>, \<open>SearchClaims\<close> and \<open>SearchExact\<close> compose all this: a search gives the events of a scan of all lines, and these are
  the lines that hold the pattern, said of the files alone.
  \<open>SearchCache\<close> is the manager of the shared indexes and \<open>SearchShared\<close> the searches at work as a step relation, with the
  validation of a snapshot behind a search.  \<open>CacheProps\<close> describes each operation by what it does to
  three views of the manager (who builds, what is held, how much is used); \<open>CacheClaims\<close> has the
  invariant of all interleavings and \<open>FreshClaims\<close> the meaning of a full validation.
\<close>

section \<open>Fetching a document\<close>

text \<open>
  \<open>WebAddr\<close> has the addresses with the tests of the standard library and shows that the refused ones are
  those of a list of blocks.  \<open>WebHttp\<close> is \<^verbatim>\<open>tools-mcp-webfetch/src/webfetch/http.rs\<close>: validation and pinning,
  the rules of \<^verbatim>\<open>robots.txt\<close> with their shared cache, redirects and bodies, as programs on a state with a trace
  of requests.  \<open>WebProps\<close> has rules for what a program adds to the trace, what it returns and how much it
  sends; \<open>WebClaims\<close> concludes that no request goes to a refused address, that the rules are respected in every
  hop, and that a fetch is bounded.  \<open>MarkdownChunks\<close> is \<^verbatim>\<open>webfetch/chunker.rs\<close>, the cutting of a document into chunks of a
  budget of tokens: it shows the budget, that the text survives if no token ends within a character, and
  two ways in which it does not otherwise.
\<close>

section \<open>Bounds and fuel\<close>

text \<open>
  No handler runs on fuel.  Loops are structural or have a proved measure; the waits of a read are the value \<open>None\<close>;
  the server loop is a relation, and that draining ends is a theorem about its measure.  The limits of the
  code (sizes of messages, diffs, candidates, caches) are definitions or arguments of the model.  The
  demonstrations run on small files; \<open>ServerDemo\<close> carries out a schedule given as a list.
\<close>

section \<open>Parameters\<close>

text \<open>
  What is not code of the repository is an argument: the byte search of \<^verbatim>\<open>memchr\<close> (\<open>memlib\<close>, with its documented behaviour
  \<open>memlib_ok\<close> and an executable instance), SHA-256, the JSON parser, \<^verbatim>\<open>regex\<close> and \<^verbatim>\<open>regex_syntax\<close>
  (\<open>regexlib\<close>), \<^verbatim>\<open>url\<close> and \<^verbatim>\<open>robotstxt\<close> (\<open>weblib\<close>, with the documented round trip of an origin, \<open>weblib_ok\<close>), name
  servers and web servers (\<open>net\<close>), the tokenizer (\<open>encoder\<close>, \<open>encoder_ok\<close>), the table behind \<open>char::is_uppercase\<close>, the answers of the kernel (kind of a path, its canonical
  form, its identity), git and all other processes (the world and its environment), and what looking at a file gives during a search.
\<close>

section \<open>Not modelled\<close>

text \<open>
  Prose (messages, remediation) is left out of errors and payloads, paths and identities are those of
  Unix, arguments are modelled after \<^verbatim>\<open>serde\<close> has read them, and the checks of deadlines inside the
  searches are left out: they can only replace a result by an error.  Of validating a snapshot the
  targeted check of result files, which compares stamps of files and directories, is a parameter; warming the
  cache is left out.  Not modelled as components: the other git tools (status, diff, log, commits: arguments for
  git and its output passed on), globbing and walking directories (the \<^verbatim>\<open>ignore\<close> crate), outlines (tree-sitter),
  PowerShell, what becomes of a fetched page (disk cache, extraction, browser), semantic search and Azure DevOps (network services and third-party
  libraries), waiting for processes, schemas of tools, tests and benchmarks.
\<close>

end
